(* ===== verification/Nexus_Prelude.thy ===== *)
theory Nexus_Prelude
  imports Main "HOL-Library.Word"
begin

text \<open>
  Shared vocabulary of the development: the machine-integer synonyms, the decimal printer that
  stands for \<open>std::to_string\<close>, newline-joined records (the canonical strings every signature of
  the firmware is computed over), bounded FIFO lemmas, the last-occurrence lookups, and the
  collections \<open>nexus_simps\<close> and \<open>nexus_intros\<close> the component theories extend.
\<close>

named_theorems nexus_simps \<open>rewrite rules of the component operations\<close>
named_theorems nexus_intros \<open>introduction rules for component invariants\<close>

section \<open>Machine integers\<close>

type_synonym byte = "8 word"
type_synonym u32 = "32 word"
type_synonym u64 = "64 word"
type_synonym i16 = "16 word"

section \<open>Decimal printing\<close>

text \<open>\<open>std::to_string\<close> on integers: decimal digits, a leading minus for negative values.\<close>

definition digit_char :: "nat \<Rightarrow> char" where
  "digit_char d = char_of (48 + d)"

fun show_nat :: "nat \<Rightarrow> string" where
  "show_nat n = (if n < 10 then [digit_char n] else show_nat (n div 10) @ [digit_char (n mod 10)])"

declare show_nat.simps [simp del]

definition show_int :: "int \<Rightarrow> string" where
  "show_int i = (if i < 0 then CHR ''-'' # show_nat (nat (- i)) else show_nat (nat i))"

definition read_nat :: "string \<Rightarrow> nat" where
  "read_nat s = fold (\<lambda>c acc. 10 * acc + (of_char c - 48)) s 0"

lemma of_char_digit_char [simp]: "d < 10 \<Longrightarrow> (of_char (digit_char d) :: nat) = 48 + d"
  by (simp add: digit_char_def of_char_of)

lemma read_nat_append1 [simp]: "read_nat (s @ [c]) = 10 * read_nat s + (of_char c - 48)"
  by (simp add: read_nat_def)

lemma read_show_nat: "read_nat (show_nat n) = n"
proof (induction n rule: show_nat.induct)
  case (1 n)
  show ?case
  proof (cases "n < 10")
    case True
    then show ?thesis by (simp add: show_nat.simps [of n] read_nat_def)
  next
    case False
    with 1 show ?thesis by (simp add: show_nat.simps [of n])
  qed
qed

lemma show_nat_inj: "show_nat m = show_nat n \<longleftrightarrow> m = n"
  by (metis read_show_nat)

lemma digit_char_range: "d < 10 \<Longrightarrow> 48 \<le> (of_char (digit_char d) :: nat) \<and> (of_char (digit_char d) :: nat) < 58"
  by simp

lemma show_nat_digits: "c \<in> set (show_nat n) \<Longrightarrow> 48 \<le> (of_char c :: nat) \<and> (of_char c :: nat) < 58"
proof (induction n rule: show_nat.induct)
  case (1 n)
  show ?case
  proof (cases "n < 10")
    case True
    with 1(2) show ?thesis by (simp add: show_nat.simps [of n])
  next
    case False
    with 1(2) consider "c \<in> set (show_nat (n div 10))" | "c = digit_char (n mod 10)"
      by (auto simp: show_nat.simps [of n])
    then show ?thesis
    proof cases
      case 1
      with "1.IH" False show ?thesis by blast
    next
      case 2
      then show ?thesis by simp
    qed
  qed
qed

lemma show_nat_nonempty [simp]: "show_nat n \<noteq> []"
  by (subst show_nat.simps) simp

lemma minus_notin_show_nat: "CHR ''-'' \<notin> set (show_nat n)"
  using show_nat_digits [of "CHR ''-''" n] by auto

lemma show_int_inj: "show_int i = show_int j \<longleftrightarrow> i = j"
proof -
  have "hd (show_nat n) \<noteq> CHR ''-''" for n
    using minus_notin_show_nat [of n] by (metis hd_in_set show_nat_nonempty)
  then show ?thesis
    by (auto simp: show_int_def show_nat_inj) (metis list.sel(1))+
qed

text \<open>A word between apostrophes, as the messages of the firmware write it.\<close>

definition quoted :: "string \<Rightarrow> string" where
  "quoted s = CHR 0x27 # s @ [CHR 0x27]"

section \<open>Newline-joined canonical strings\<close>

definition nl :: char where
  "nl = CHR 0x0A"

lemma nl_notin_show_nat [simp]: "nl \<notin> set (show_nat n)"
  using show_nat_digits [of nl n] by (auto simp: nl_def)

lemma nl_notin_show_int [simp]: "nl \<notin> set (show_int i)"
  by (auto simp: show_int_def nl_def) (use nl_notin_show_nat nl_def in auto)

fun join_nl :: "string list \<Rightarrow> string" where
  "join_nl [] = []"
| "join_nl [x] = x"
| "join_nl (x # y # r) = x @ nl # join_nl (y # r)"

lemma count_join_nl:
  "xs \<noteq> [] \<Longrightarrow> count_list (join_nl xs) nl = (length xs - 1) + sum_list (map (\<lambda>x. count_list x nl) xs)"
  by (induction xs rule: join_nl.induct) auto

lemma append_nl_inj:
  assumes "nl \<notin> set a" "nl \<notin> set b" "a @ nl # r = b @ nl # s"
  shows "a = b \<and> r = s"
proof -
  have "takeWhile (\<lambda>c. c \<noteq> nl) (x @ nl # t) = x" if "nl \<notin> set x" for x t
    using that by (induction x) auto
  with assms have "a = b" by metis
  with assms(3) show ?thesis by simp
qed

lemma join_nl_inj_clean:
  "\<lbrakk>length xs = length ys; \<forall>x\<in>set xs. nl \<notin> set x; \<forall>y\<in>set ys. nl \<notin> set y; join_nl xs = join_nl ys\<rbrakk>
    \<Longrightarrow> xs = ys"
proof (induction xs arbitrary: ys rule: join_nl.induct)
  case (3 x y r)
  then obtain x' y' r' where ys: "ys = x' # y' # r'"
    by (metis length_0_conv length_Suc_conv)
  with 3 have "x = x' \<and> join_nl (y # r) = join_nl (y' # r')"
    by (intro append_nl_inj) auto
  moreover from this 3 ys have "y # r = y' # r'"
    by (intro "3.IH") auto
  ultimately show ?case using ys by simp
next
  case (2 x)
  then show ?case by (cases ys) auto
qed auto

text \<open>
  One side clean is enough: the number of newlines of the joined string then equals the number of
  separators, so no field of the other side can contain one.
\<close>

lemma join_nl_inj:
  assumes len: "length xs = length ys"
    and clean: "\<forall>x\<in>set xs. nl \<notin> set x"
    and eq: "join_nl xs = join_nl ys"
  shows "xs = ys"
proof (cases "xs = []")
  case True
  with len show ?thesis by simp
next
  case False
  have "sum_list (map (\<lambda>x. count_list x nl) xs) = 0"
    using clean by (simp add: count_list_0_iff)
  moreover have "ys \<noteq> []" using False len by auto
  ultimately have "sum_list (map (\<lambda>y. count_list y nl) ys) = 0"
    using count_join_nl [OF False] count_join_nl [of ys] eq len by simp
  then have "\<forall>y\<in>set ys. nl \<notin> set y"
    by (simp add: count_list_0_iff)
  with len clean eq show ?thesis by (intro join_nl_inj_clean) auto
qed

section \<open>Lists, maps and options\<close>

lemma map_of_filter_neq:
  "map_of (filter (\<lambda>p. fst p \<noteq> k) xs) x = (if x = k then None else map_of xs x)"
  by (induction xs) auto

lemma distinct_map_filter_fst: "distinct (map f xs) \<Longrightarrow> distinct (map f (filter P xs))"
  by (induction xs) auto

lemma set_tl_subset: "set (tl xs) \<subseteq> set xs"
  by (cases xs) auto

lemma find_None_filter: "find P xs = None \<longleftrightarrow> filter P xs = []"
  by (auto simp: find_None_iff filter_empty_conv)

section \<open>Invariants of handler-driven components\<close>

text \<open>
  Most components are a state and a set of handlers; an execution is a list of handler calls.
  The contract of such a component is an invariant every handler keeps, and what a client uses is
  that the invariant then holds after any sequence of calls.
\<close>

locale invariant_system =
  fixes step :: "'s \<Rightarrow> 'l \<Rightarrow> 's"
    and inv :: "'s \<Rightarrow> bool"
  assumes step_inv: "inv s \<Longrightarrow> inv (step s l)"
begin

lemma run_inv: "inv s \<Longrightarrow> inv (foldl step s ls)"
  by (induction ls arbitrary: s) (auto intro: step_inv)

lemma run_inv_prefix: "inv s \<Longrightarrow> inv (foldl step s (take n ls))"
  by (rule run_inv)

end

text \<open>A latch: a property no handler can undo once it holds.\<close>

locale latched_system =
  fixes step :: "'s \<Rightarrow> 'l \<Rightarrow> 's"
    and latched :: "'s \<Rightarrow> bool"
  assumes step_latched: "latched s \<Longrightarrow> latched (step s l)"
begin

lemma run_latched:
  assumes "latched (foldl step s ls)"
  shows "latched (foldl step s (ls @ ms))"
proof -
  have "latched t \<Longrightarrow> latched (foldl step t ms)" for t
    by (induction ms arbitrary: t) (auto intro: step_latched)
  with assms show ?thesis by simp
qed

end

end
