(* ===== verification/Core_Types.thy ===== *)
theory Core_Types
  imports Complex_Main Nexus_Prelude
begin

text \<open>
  The types every module of the firmware shares (\<open>src/src/core\<close>): the error-code registry, the
  \<open>Status\<close> and \<open>Result\<close> values that carry every failure across a module boundary, the event
  catalogue and the published event, the service lifecycle states, and the JSON value domain in
  which events, commands and configuration files are expressed.
  The JSON library (nlohmann/json) is not part of the repository: its value domain is the datatype
  \<open>json\<close>, its parser, printer and typed getters are the fields of a \<open>json_lib\<close> record that the
  operations take as an argument.
\<close>

section \<open>Error codes, Status and Result\<close>

datatype error_code =
    Ec_Ok
  | Ec_Unknown | Ec_InvalidArg | Ec_NotFound | Ec_IoError | Ec_Timeout
  | Ec_PermissionDenied | Ec_Corrupt | Ec_NotImplemented | Ec_AlreadyExists
  | Ec_LogInitFailed
  | Ec_ConfigNotFound | Ec_ConfigParseError | Ec_ConfigValidationFailed | Ec_ConfigWriteFailed
  | Ec_ConfigCorrupt
  | Ec_IllegalStateTransition | Ec_ServiceStartFailed
  | Ec_CryptoError | Ec_IdentityMissing | Ec_IdentityCorrupt | Ec_KeyGenerationFailed
  | Ec_SigningFailed | Ec_SecureStoreError

fun toInt :: "error_code \<Rightarrow> int" where
  "toInt Ec_Ok = 0"
| "toInt Ec_Unknown = 1000"
| "toInt Ec_InvalidArg = 1001"
| "toInt Ec_NotFound = 1002"
| "toInt Ec_IoError = 1003"
| "toInt Ec_Timeout = 1004"
| "toInt Ec_PermissionDenied = 1005"
| "toInt Ec_Corrupt = 1006"
| "toInt Ec_NotImplemented = 1007"
| "toInt Ec_AlreadyExists = 1008"
| "toInt Ec_LogInitFailed = 1100"
| "toInt Ec_ConfigNotFound = 1200"
| "toInt Ec_ConfigParseError = 1201"
| "toInt Ec_ConfigValidationFailed = 1202"
| "toInt Ec_ConfigWriteFailed = 1203"
| "toInt Ec_ConfigCorrupt = 1204"
| "toInt Ec_IllegalStateTransition = 1300"
| "toInt Ec_ServiceStartFailed = 1301"
| "toInt Ec_CryptoError = 1400"
| "toInt Ec_IdentityMissing = 1401"
| "toInt Ec_IdentityCorrupt = 1402"
| "toInt Ec_KeyGenerationFailed = 1403"
| "toInt Ec_SigningFailed = 1404"
| "toInt Ec_SecureStoreError = 1405"

fun describe :: "error_code \<Rightarrow> string" where
  "describe Ec_Ok = ''ok''"
| "describe Ec_Unknown = ''unknown error''"
| "describe Ec_InvalidArg = ''invalid argument''"
| "describe Ec_NotFound = ''not found''"
| "describe Ec_IoError = ''I/O error''"
| "describe Ec_Timeout = ''timeout''"
| "describe Ec_PermissionDenied = ''permission denied''"
| "describe Ec_Corrupt = ''corrupt data''"
| "describe Ec_NotImplemented = ''not implemented''"
| "describe Ec_AlreadyExists = ''already exists''"
| "describe Ec_LogInitFailed = ''logger initialization failed''"
| "describe Ec_ConfigNotFound = ''config file not found''"
| "describe Ec_ConfigParseError = ''config parse error''"
| "describe Ec_ConfigValidationFailed = ''config validation failed''"
| "describe Ec_ConfigWriteFailed = ''config write failed''"
| "describe Ec_ConfigCorrupt = ''config corrupt''"
| "describe Ec_IllegalStateTransition = ''illegal state transition''"
| "describe Ec_ServiceStartFailed = ''service start failed''"
| "describe Ec_CryptoError = ''crypto error''"
| "describe Ec_IdentityMissing = ''device identity missing''"
| "describe Ec_IdentityCorrupt = ''device identity corrupt''"
| "describe Ec_KeyGenerationFailed = ''key generation failed''"
| "describe Ec_SigningFailed = ''signing failed''"
| "describe Ec_SecureStoreError = ''secure store error''"

record status =
  st_code :: error_code
  st_message :: string

definition success :: status where
  "success = \<lparr>st_code = Ec_Ok, st_message = []\<rparr>"

definition mk_error :: "error_code \<Rightarrow> string \<Rightarrow> status" where
  "mk_error c m = \<lparr>st_code = c, st_message = m\<rparr>"

definition st_ok :: "status \<Rightarrow> bool" where
  "st_ok s \<longleftrightarrow> st_code s = Ec_Ok"

text \<open>\<open>Result<T>\<close>: a value, or the non-ok status that replaces it.\<close>

type_synonym 'a result = "status + 'a"

lemma st_ok_success [simp]: "st_ok success"
  by (simp add: st_ok_def success_def)

lemma st_ok_mk_error [simp]: "st_ok (mk_error c m) \<longleftrightarrow> c = Ec_Ok"
  by (simp add: st_ok_def mk_error_def)

lemma st_code_mk_error [simp]: "st_code (mk_error c m) = c"
  by (simp add: mk_error_def)

lemma st_message_mk_error [simp]: "st_message (mk_error c m) = m"
  by (simp add: mk_error_def)

lemma success_neq_mk_error [simp]: "c \<noteq> Ec_Ok \<Longrightarrow> success \<noteq> mk_error c m"
  by (simp add: success_def mk_error_def)

lemma toInt_inj: "toInt c = toInt d \<longleftrightarrow> c = d"
  by (cases c; cases d; simp)

section \<open>JSON values and the JSON library\<close>

datatype json =
    JNull
  | JBool bool
  | JInt int
  | JReal real
  | JStr string
  | JArr "json list"
  | JObj "(string \<times> json) list"

text \<open>The kind tests and member lookups of a value (\<open>is_object\<close>, \<open>contains\<close>, \<open>operator[]\<close>).\<close>

fun is_object :: "json \<Rightarrow> bool" where
  "is_object (JObj _) = True"
| "is_object _ = False"

fun is_number_integer :: "json \<Rightarrow> bool" where
  "is_number_integer (JInt _) = True"
| "is_number_integer _ = False"

fun is_number :: "json \<Rightarrow> bool" where
  "is_number (JInt _) = True"
| "is_number (JReal _) = True"
| "is_number _ = False"

fun is_boolean :: "json \<Rightarrow> bool" where
  "is_boolean (JBool _) = True"
| "is_boolean _ = False"

fun j_find :: "json \<Rightarrow> string \<Rightarrow> json option" where
  "j_find (JObj kvs) k = map_of kvs k"
| "j_find _ k = None"

text \<open>
  The library code: \<open>jl_parse\<close> is \<open>json::parse\<close> (None when it throws, with \<open>jl_what\<close> the text of the
  exception an input raises), \<open>jl_dump\<close> the compact \<open>dump()\<close>, \<open>jl_dump2\<close> the indented \<open>dump(2)\<close>, and the getters are \<open>get<T>()\<close>, with None when
  the conversion throws.
\<close>

record json_lib =
  jl_parse :: "string \<Rightarrow> json option"
  jl_what :: "string \<Rightarrow> string"
  jl_dump :: "json \<Rightarrow> string"
  jl_dump2 :: "json \<Rightarrow> string"
  jl_get_int :: "json \<Rightarrow> int option"
  jl_get_int64 :: "json \<Rightarrow> int option"
  jl_get_double :: "json \<Rightarrow> real option"
  jl_get_bool :: "json \<Rightarrow> bool option"
  jl_get_string :: "json \<Rightarrow> string option"

text \<open>
  \<open>j.value(key, default)\<close>: it throws (None) on a value that is not an object, gives the default
  when the key is absent, and otherwise converts the member with the getter.
\<close>

definition j_value :: "(json \<Rightarrow> 'a option) \<Rightarrow> json \<Rightarrow> string \<Rightarrow> 'a \<Rightarrow> 'a option" where
  "j_value get j k d =
     (if is_object j then (case j_find j k of None \<Rightarrow> Some d | Some v \<Rightarrow> get v) else None)"

text \<open>The documented behaviour the code relies on: a getter returns what was stored.\<close>

definition getters_exact :: "json_lib \<Rightarrow> bool" where
  "getters_exact J \<longleftrightarrow>
     (\<forall>i. - (2 ^ 31) \<le> i \<and> i < 2 ^ 31 \<longrightarrow> jl_get_int J (JInt i) = Some i) \<and>
     (\<forall>i. - (2 ^ 63) \<le> i \<and> i < 2 ^ 63 \<longrightarrow> jl_get_int64 J (JInt i) = Some i) \<and>
     (\<forall>r. jl_get_double J (JReal r) = Some r) \<and>
     (\<forall>b. jl_get_bool J (JBool b) = Some b) \<and>
     (\<forall>s. jl_get_string J (JStr s) = Some s)"

lemma getters_exactD [simp]:
  assumes "getters_exact J"
  shows "- (2 ^ 31) \<le> i \<Longrightarrow> i < 2 ^ 31 \<Longrightarrow> jl_get_int J (JInt i) = Some i"
    and "- (2 ^ 63) \<le> i \<Longrightarrow> i < 2 ^ 63 \<Longrightarrow> jl_get_int64 J (JInt i) = Some i"
    and "jl_get_double J (JReal r) = Some r"
    and "jl_get_bool J (JBool b) = Some b"
    and "jl_get_string J (JStr s) = Some s"
  using assms by (auto simp: getters_exact_def)

text \<open>
  A concrete library for evaluation: exact getters; the printer and the parser are given by a
  single known document.
\<close>

definition demo_lib :: "string \<Rightarrow> json \<Rightarrow> json_lib" where
  "demo_lib txt doc =
     \<lparr>jl_parse = (\<lambda>s. if s = txt then Some doc else None),
      jl_what = (\<lambda>s. ''parse error''),
      jl_dump = (\<lambda>j. if j = doc then txt else ''{}''),
      jl_dump2 = (\<lambda>j. if j = doc then txt else ''{}''),
      jl_get_int = (\<lambda>v. case v of JInt i \<Rightarrow> Some i | _ \<Rightarrow> None),
      jl_get_int64 = (\<lambda>v. case v of JInt i \<Rightarrow> Some i | _ \<Rightarrow> None),
      jl_get_double = (\<lambda>v. case v of JReal r \<Rightarrow> Some r | JInt i \<Rightarrow> Some (of_int i) | _ \<Rightarrow> None),
      jl_get_bool = (\<lambda>v. case v of JBool b \<Rightarrow> Some b | _ \<Rightarrow> None),
      jl_get_string = (\<lambda>v. case v of JStr s \<Rightarrow> Some s | _ \<Rightarrow> None)\<rparr>"

lemma demo_lib_simps [simp]:
  "jl_parse (demo_lib t d) s = (if s = t then Some d else None)"
  "jl_dump (demo_lib t d) j = (if j = d then t else ''{}'')"
  "jl_dump2 (demo_lib t d) j = (if j = d then t else ''{}'')"
  "jl_get_int (demo_lib t d) (JInt i) = Some i"
  "jl_get_int64 (demo_lib t d) (JInt i) = Some i"
  "jl_get_bool (demo_lib t d) (JBool b) = Some b"
  "jl_get_string (demo_lib t d) (JStr x) = Some x"
  "jl_get_string (demo_lib t d) (JInt i) = None"
  "jl_get_double (demo_lib t d) (JReal r) = Some r"
  by (simp_all add: demo_lib_def)

lemma demo_lib_getters_exact [simp]: "getters_exact (demo_lib t d)"
  by (simp add: getters_exact_def)

section \<open>Events\<close>

datatype event_type =
    Ev_ServiceStarted | Ev_ServiceStopped | Ev_ServiceDegraded | Ev_ServiceFaulted
  | Ev_StateChanged | Ev_ConfigChanged | Ev_ConfigInvalid | Ev_ShutdownRequested
  | Ev_IdentityProvisioned | Ev_IdentityCorrupt | Ev_PairingStarted | Ev_PairingCompleted
  | Ev_PairingFailed
  | Ev_NetworkConnected | Ev_NetworkDisconnected | Ev_IpChanged | Ev_WifiSignalLow
  | Ev_InternetAvailable | Ev_InternetUnavailable | Ev_StreamerFound | Ev_StreamerLost
  | Ev_StreamerDisconnected
  | Ev_CommandReceived | Ev_CommandExecuted | Ev_AudioStarted | Ev_AudioStopped | Ev_AudioLost
  | Ev_AmplifierOverheat | Ev_AmplifierProtection | Ev_AmplifierFault | Ev_OutputClipping
  | Ev_MicFailure | Ev_TempWarning | Ev_HealthCheckFailed | Ev_WatchdogTimeout
  | Ev_SafeModeEntered
  | Ev_UpdateAvailable | Ev_UpdateStarted | Ev_UpdateFailed | Ev_UpdateCompleted
  | Ev_RollbackTriggered | Ev_CalibrationStarted | Ev_CalibrationCompleted
  | Ev_CalibrationFailed

text \<open>
  A published event. The wall-clock stamp \<open>ts\<close>, which no code of the repository reads, is left
  out.
\<close>

record event =
  ev_type :: event_type
  ev_source :: string
  ev_command_id :: string
  ev_data :: json

definition mk_event :: "event_type \<Rightarrow> string \<Rightarrow> event" where
  "mk_event t src = \<lparr>ev_type = t, ev_source = src, ev_command_id = [], ev_data = JObj []\<rparr>"

definition mk_event_data :: "event_type \<Rightarrow> string \<Rightarrow> (string \<times> json) list \<Rightarrow> event" where
  "mk_event_data t src kvs =
     \<lparr>ev_type = t, ev_source = src, ev_command_id = [], ev_data = JObj kvs\<rparr>"

lemma mk_event_sel [simp]:
  "ev_type (mk_event t s) = t" "ev_type (mk_event_data t s d) = t"
  "ev_source (mk_event t s) = s" "ev_source (mk_event_data t s d) = s"
  "ev_data (mk_event t s) = JObj []" "ev_data (mk_event_data t s d) = JObj d"
  "ev_command_id (mk_event t s) = []" "ev_command_id (mk_event_data t s d) = []"
  by (simp_all add: mk_event_def mk_event_data_def)

section \<open>Service lifecycle\<close>

datatype service_state =
  Svc_Stopped | Svc_Starting | Svc_Running | Svc_Degraded | Svc_Faulted | Svc_Stopping

end
