(* ===== verification/Event_Bus.thy ===== *)
theory Event_Bus
  imports Core_Types
begin

text \<open>
  The publish/subscribe bus (\<open>src/src/core/EventBus.cpp\<close>). Publishers and subscribers are
  arbitrary threads; delivery happens on one worker thread. The state of the model is the state of
  the class plus the program counter of the worker; each critical section of the class and each
  handler invocation is one atomic step, and an execution is any interleaving of them. A handler
  is named by its type \<open>'h\<close>: what it does to the bus (subscribe, publish, ...) appears as steps of
  its own, what it does elsewhere is not visible to the bus, and whether it throws is the
  environment's choice at the step that invokes it.
\<close>

section \<open>State\<close>

record 'h subscription =
  sub_token :: u64
  sub_all :: bool
  sub_type :: event_type
  sub_handler :: 'h

text \<open>Where the worker is: waiting on \<open>queue_cv_\<close>, holding an event it has taken, inside the
  delivery loop of \<open>dispatch\<close> with the handlers still to call, or returned.\<close>

datatype 'h worker_pc =
    W_Waiting
  | W_Taken event
  | W_Delivering event "'h list"
  | W_Exited

record 'h bus =
  subs :: "'h subscription list"
  next_token :: u64
  queue :: "event list"
  running :: bool
  in_flight :: nat
  pc :: "'h worker_pc"

definition bus_init :: "'h bus" where
  "bus_init = \<lparr>subs = [], next_token = 1, queue = [], running = True, in_flight = 0, pc = W_Waiting\<rparr>"

section \<open>Operations\<close>

definition subscribe :: "'h bus \<Rightarrow> event_type \<Rightarrow> 'h \<Rightarrow> u64 \<times> 'h bus" where
  "subscribe b t h =
     (let token = next_token b in
      (token, b\<lparr>next_token := token + 1,
               subs := subs b @ [\<lparr>sub_token = token, sub_all = False, sub_type = t, sub_handler = h\<rparr>]\<rparr>))"

definition subscribeAll :: "'h bus \<Rightarrow> 'h \<Rightarrow> u64 \<times> 'h bus" where
  "subscribeAll b h =
     (let token = next_token b in
      (token, b\<lparr>next_token := token + 1,
               subs := subs b @ [\<lparr>sub_token = token, sub_all = True, sub_type = Ev_StateChanged, sub_handler = h\<rparr>]\<rparr>))"

text \<open>\<open>unsubscribe\<close> erases the first subscription with the token and returns.\<close>

fun erase_token :: "u64 \<Rightarrow> 'h subscription list \<Rightarrow> 'h subscription list" where
  "erase_token t [] = []"
| "erase_token t (s # ss) = (if sub_token s = t then ss else s # erase_token t ss)"

definition unsubscribe :: "'h bus \<Rightarrow> u64 \<Rightarrow> 'h bus" where
  "unsubscribe b t = b\<lparr>subs := erase_token t (subs b)\<rparr>"

definition publish :: "'h bus \<Rightarrow> event \<Rightarrow> 'h bus" where
  "publish b e =
     (if \<not> running b then b
      else b\<lparr>queue := queue b @ [e], in_flight := in_flight b + 1\<rparr>)"

text \<open>The snapshot \<open>dispatch\<close> takes under \<open>subs_mutex_\<close>.\<close>

definition matching_handlers :: "'h bus \<Rightarrow> event \<Rightarrow> 'h list" where
  "matching_handlers b e =
     map sub_handler (filter (\<lambda>s. sub_all s \<or> sub_type s = ev_type e) (subs b))"

text \<open>
  One step of the worker thread: \<open>workerLoop\<close> with \<open>dispatch\<close> inlined. The flag says whether the
  handler invoked in this step throws; both catch clauses continue with the next handler.
\<close>

definition worker_step :: "bool \<Rightarrow> 'h bus \<Rightarrow> 'h bus" where
  "worker_step throws b =
     (case pc b of
        W_Waiting \<Rightarrow>
          (case queue b of
             [] \<Rightarrow> (if running b then b else b\<lparr>pc := W_Exited\<rparr>)
           | e # q \<Rightarrow> b\<lparr>queue := q, pc := W_Taken e\<rparr>)
      | W_Taken e \<Rightarrow> b\<lparr>pc := W_Delivering e (matching_handlers b e)\<rparr>
      | W_Delivering e (h # hs) \<Rightarrow> b\<lparr>pc := W_Delivering e hs\<rparr>
      | W_Delivering e [] \<Rightarrow> b\<lparr>in_flight := in_flight b - 1, pc := W_Waiting\<rparr>
      | W_Exited \<Rightarrow> b)"

text \<open>\<open>drain\<close> returns when its wait predicate holds; \<open>stop\<close> clears the flag, and its join returns
  when the worker has exited.\<close>

definition drained :: "'h bus \<Rightarrow> bool" where
  "drained b \<longleftrightarrow> in_flight b = 0"

definition stop :: "'h bus \<Rightarrow> 'h bus" where
  "stop b = (if \<not> running b then b else b\<lparr>running := False\<rparr>)"

section \<open>Interleaved executions\<close>

datatype 'h bus_label =
    L_Subscribe event_type 'h
  | L_SubscribeAll 'h
  | L_Unsubscribe u64
  | L_Publish event
  | L_Stop
  | L_Worker bool

fun bus_step :: "'h bus \<Rightarrow> 'h bus_label \<Rightarrow> 'h bus" where
  "bus_step b (L_Subscribe t h) = snd (subscribe b t h)"
| "bus_step b (L_SubscribeAll h) = snd (subscribeAll b h)"
| "bus_step b (L_Unsubscribe t) = unsubscribe b t"
| "bus_step b (L_Publish e) = publish b e"
| "bus_step b L_Stop = stop b"
| "bus_step b (L_Worker thr) = worker_step thr b"

text \<open>The events a run accepted, those whose dispatch it finished, and the deliveries it made.\<close>

fun accepted :: "'h bus \<Rightarrow> 'h bus_label list \<Rightarrow> event list" where
  "accepted b [] = []"
| "accepted b (l # ls) =
     (case l of L_Publish e \<Rightarrow> (if running b then [e] else []) | _ \<Rightarrow> []) @ accepted (bus_step b l) ls"

fun finished :: "'h bus \<Rightarrow> 'h bus_label list \<Rightarrow> event list" where
  "finished b [] = []"
| "finished b (l # ls) =
     (case (l, pc b) of (L_Worker _, W_Delivering e []) \<Rightarrow> [e] | _ \<Rightarrow> []) @ finished (bus_step b l) ls"

fun delivered :: "'h bus \<Rightarrow> 'h bus_label list \<Rightarrow> ('h \<times> event) list" where
  "delivered b [] = []"
| "delivered b (l # ls) =
     (case (l, pc b) of (L_Worker _, W_Delivering e (h # hs)) \<Rightarrow> [(h, e)] | _ \<Rightarrow> [])
       @ delivered (bus_step b l) ls"

text \<open>The events the bus still owes: the one being dispatched, then the queue.\<close>

fun pc_events :: "'h worker_pc \<Rightarrow> event list" where
  "pc_events W_Waiting = []"
| "pc_events (W_Taken e) = [e]"
| "pc_events (W_Delivering e hs) = [e]"
| "pc_events W_Exited = []"

definition pending :: "'h bus \<Rightarrow> event list" where
  "pending b = pc_events (pc b) @ queue b"

lemmas bus_op_defs =
  subscribe_def subscribeAll_def unsubscribe_def publish_def stop_def worker_step_def Let_def

section \<open>The in-flight counter\<close>

definition bus_inv :: "'h bus \<Rightarrow> bool" where
  "bus_inv b \<longleftrightarrow> in_flight b = length (pending b) \<and> (pc b = W_Exited \<longrightarrow> \<not> running b \<and> queue b = [])"

lemma bus_inv_init [simp]: "bus_inv bus_init"
  by (simp add: bus_inv_def bus_init_def pending_def)

lemma bus_inv_worker: "bus_inv b \<Longrightarrow> bus_inv (worker_step thr b)"
  by (auto simp: bus_inv_def worker_step_def pending_def split: worker_pc.splits list.splits)

lemma bus_inv_step: "bus_inv b \<Longrightarrow> bus_inv (bus_step b l)"
  by (cases l) (auto simp: bus_inv_worker, auto simp: bus_inv_def bus_op_defs pending_def)

interpretation bus_run: invariant_system bus_step bus_inv
  by unfold_locales (rule bus_inv_step)

section \<open>FIFO, exactly-once dispatch\<close>

lemma step_fifo:
  "pending b @ (case l of L_Publish e \<Rightarrow> (if running b then [e] else []) | _ \<Rightarrow> []) =
   (case (l, pc b) of (L_Worker _, W_Delivering e []) \<Rightarrow> [e] | _ \<Rightarrow> []) @ pending (bus_step b l)"
  by (cases l) (auto simp: bus_op_defs pending_def split: worker_pc.splits list.splits)

lemma run_fifo: "pending b @ accepted b ls = finished b ls @ pending (foldl bus_step b ls)"
proof (induction ls arbitrary: b)
  case (Cons l ls)
  have "pending b @ accepted b (l # ls) =
      (case (l, pc b) of (L_Worker _, W_Delivering e []) \<Rightarrow> [e] | _ \<Rightarrow> [])
        @ (pending (bus_step b l) @ accepted (bus_step b l) ls)"
    using step_fifo [of b l] by (simp del: append_assoc add: append_assoc [symmetric])
  then show ?case by (simp add: Cons.IH)
qed simp

lemma pending_init: "pending bus_init = []"
  by (simp add: pending_def bus_init_def)

text \<open>C9. Event ordering: in every interleaving of publishers, subscribers and the worker, the
  events whose dispatch is finished, followed by the event in progress and the queue, are exactly
  the accepted events in publication order. Nothing is lost, duplicated or reordered, whichever
  handlers throw.\<close>

theorem bus_fifo:
  "accepted bus_init ls = finished bus_init ls @ pending (foldl bus_step bus_init ls)"
  using run_fifo [of bus_init ls] by (simp add: pending_init)

text \<open>C10. When \<open>drain\<close> returns (its wait predicate \<open>in_flight_ == 0\<close> holds), every event accepted
  so far has been completely dispatched.\<close>

theorem drain_complete:
  "drained (foldl bus_step bus_init ls) \<Longrightarrow> finished bus_init ls = accepted bus_init ls"
  using bus_run.run_inv [OF bus_inv_init, of ls] run_fifo [of bus_init ls]
  by (simp add: drained_def bus_inv_def pending_init)

theorem drain_complete_witness:
  "finished bus_init [L_SubscribeAll (0::nat), L_Publish (mk_event Ev_AudioStarted ''audio''),
      L_Worker False, L_Worker False, L_Worker True, L_Worker False]
   = [mk_event Ev_AudioStarted ''audio'']"
  by (subst drain_complete)
     (simp_all add: drained_def bus_init_def bus_op_defs matching_handlers_def)

section \<open>Every matching handler is called\<close>

lemma bus_step_pc:
  "(\<forall>thr. l \<noteq> L_Worker thr) \<Longrightarrow> pc (bus_step b l) = pc b"
  by (cases l) (auto simp: bus_op_defs)

lemma no_finish_waiting:
  assumes "finished b ls = []" "pc (foldl bus_step b ls) = W_Waiting"
  shows "pc b = W_Waiting \<and> delivered b ls = []"
  using assms
proof (induction ls arbitrary: b)
  case (Cons l ls)
  from Cons.prems have fin: "finished (bus_step b l) ls = []"
    and nofin: "(case (l, pc b) of (L_Worker _, W_Delivering e []) \<Rightarrow> [e] | _ \<Rightarrow> []) = []"
    by auto
  have IH: "pc (bus_step b l) = W_Waiting" "delivered (bus_step b l) ls = []"
    using Cons.IH [OF fin] Cons.prems(2) by auto
  have "pc b = W_Waiting"
  proof (cases l)
    case (L_Worker thr)
    with IH(1) nofin show ?thesis
      by (auto simp: worker_step_def split: worker_pc.splits list.splits if_splits)
  qed (use IH(1) bus_step_pc [of l b] in auto)
  with IH(2) show ?case by (cases l) auto
qed simp

lemma dispatch_delivers:
  assumes "pc b = W_Delivering e hs" "finished b ls = [e]" "pc (foldl bus_step b ls) = W_Waiting"
  shows "delivered b ls = map (\<lambda>h. (h, e)) hs"
  using assms
proof (induction ls arbitrary: b hs)
  case (Cons l ls)
  show ?case
  proof (cases "\<exists>thr. l = L_Worker thr")
    case False
    then have "pc (bus_step b l) = W_Delivering e hs"
      using bus_step_pc [of l b] Cons.prems(1) by auto
    with Cons False show ?thesis by (cases l) auto
  next
    case True
    then obtain thr where l: "l = L_Worker thr" by blast
    show ?thesis
    proof (cases hs)
      case Nil
      with Cons.prems l have "finished (bus_step b l) ls = []" by simp
      then have "delivered (bus_step b l) ls = []"
        using no_finish_waiting Cons.prems(3) by fastforce
      with Nil Cons.prems l show ?thesis by simp
    next
      case (Cons h hs')
      with Cons.prems l have "pc (bus_step b l) = W_Delivering e hs'"
        by (simp add: worker_step_def)
      then have "delivered (bus_step b l) ls = map (\<lambda>h. (h, e)) hs'"
        using Cons.IH Cons.prems l \<open>hs = h # hs'\<close> by simp
      with Cons.prems l \<open>hs = h # hs'\<close> show ?thesis by simp
    qed
  qed
qed simp

text \<open>Fault isolation: take a state in which the worker is about to snapshot the handlers of an
  event, and any interleaving (with any handlers throwing, publishing, subscribing or
  unsubscribing) that finishes this one dispatch and returns to the wait: the deliveries made are
  exactly one per handler that matched at the snapshot, in subscription order.\<close>

theorem dispatch_calls_every_match:
  assumes "pc b = W_Taken e"
    and "finished b (L_Worker thr # ls) = [e]"
    and "pc (foldl bus_step b (L_Worker thr # ls)) = W_Waiting"
  shows "delivered b (L_Worker thr # ls) = map (\<lambda>h. (h, e)) (matching_handlers b e)"
  using assms dispatch_delivers [of "worker_step thr b" e "matching_handlers b e" ls]
  by (simp add: worker_step_def)

theorem dispatch_calls_every_match_witness:
  "delivered
     (bus_step (bus_step (bus_step (bus_step (bus_step bus_init (L_SubscribeAll (0::nat))) (L_Subscribe Ev_AudioLost 1))
        (L_Subscribe Ev_AudioStarted 2)) (L_Publish (mk_event Ev_AudioStarted ''audio''))) (L_Worker False))
     [L_Worker False, L_Worker True, L_Unsubscribe 3, L_Worker False, L_Worker False]
   = [(0, mk_event Ev_AudioStarted ''audio''), (2, mk_event Ev_AudioStarted ''audio'')]"
  by (subst dispatch_calls_every_match [where e = "mk_event Ev_AudioStarted ''audio''"])
     (simp_all add: bus_init_def bus_op_defs matching_handlers_def)

section \<open>Stopping drains the queue\<close>

lemma worker_solo_running [simp]: "running (worker_step thr b) = running b"
  by (auto simp: worker_step_def split: worker_pc.splits list.splits)

abbreviation solo :: "nat \<Rightarrow> 'h bus_label list" where
  "solo n \<equiv> replicate n (L_Worker True)"

lemma solo_delivering:
  "pc b = W_Delivering e hs \<Longrightarrow> \<exists>n. foldl bus_step b (solo n) = b\<lparr>in_flight := in_flight b - 1, pc := W_Waiting\<rparr>"
proof (induction hs arbitrary: b)
  case Nil
  then have "foldl bus_step b (solo 1) = b\<lparr>in_flight := in_flight b - 1, pc := W_Waiting\<rparr>"
    by (simp add: worker_step_def)
  then show ?case by blast
next
  case (Cons h hs)
  let ?b = "b\<lparr>pc := W_Delivering e hs\<rparr>"
  obtain n where "foldl bus_step ?b (solo n) = ?b\<lparr>in_flight := in_flight ?b - 1, pc := W_Waiting\<rparr>"
    using Cons.IH [of ?b] by auto
  then have "foldl bus_step b (solo (Suc n)) = b\<lparr>in_flight := in_flight b - 1, pc := W_Waiting\<rparr>"
    using Cons.prems by (simp add: worker_step_def)
  then show ?case by blast
qed

lemma solo_taken:
  "pc b = W_Taken e \<Longrightarrow> \<exists>n. foldl bus_step b (solo n) = b\<lparr>in_flight := in_flight b - 1, pc := W_Waiting\<rparr>"
proof -
  assume b: "pc b = W_Taken e"
  let ?b = "b\<lparr>pc := W_Delivering e (matching_handlers b e)\<rparr>"
  obtain n where "foldl bus_step ?b (solo n) = ?b\<lparr>in_flight := in_flight ?b - 1, pc := W_Waiting\<rparr>"
    using solo_delivering [of ?b] by auto
  then have "foldl bus_step b (solo (Suc n)) = b\<lparr>in_flight := in_flight b - 1, pc := W_Waiting\<rparr>"
    using b by (simp add: worker_step_def)
  then show ?thesis by blast
qed

lemma solo_waiting:
  "\<lbrakk>pc b = W_Waiting; \<not> running b; length (queue b) = k\<rbrakk>
    \<Longrightarrow> \<exists>n. pc (foldl bus_step b (solo n)) = W_Exited"
proof (induction k arbitrary: b)
  case 0
  then have "pc (foldl bus_step b (solo 1)) = W_Exited" by (simp add: worker_step_def)
  then show ?case by blast
next
  case (Suc k)
  then obtain e q where q: "queue b = e # q" "length q = k" by (metis length_Suc_conv)
  let ?b = "b\<lparr>queue := q, pc := W_Taken e\<rparr>"
  obtain n where n: "foldl bus_step ?b (solo n) = ?b\<lparr>in_flight := in_flight ?b - 1, pc := W_Waiting\<rparr>"
    using solo_taken [of ?b] by auto
  obtain m where "pc (foldl bus_step (?b\<lparr>in_flight := in_flight ?b - 1, pc := W_Waiting\<rparr>) (solo m)) = W_Exited"
    using Suc.IH [of "?b\<lparr>in_flight := in_flight ?b - 1, pc := W_Waiting\<rparr>"] Suc.prems q by auto
  with n Suc.prems q have "pc (foldl bus_step b (solo (Suc (n + m)))) = W_Exited"
    by (simp add: worker_step_def replicate_add)
  then show ?case by blast
qed

lemma solo_exits:
  assumes "\<not> running b"
  shows "\<exists>n. pc (foldl bus_step b (solo n)) = W_Exited"
proof -
  have after: ?thesis if "foldl bus_step b (solo n) = b\<lparr>in_flight := in_flight b - 1, pc := W_Waiting\<rparr>" for n
  proof -
    obtain m where "pc (foldl bus_step (b\<lparr>in_flight := in_flight b - 1, pc := W_Waiting\<rparr>) (solo m)) = W_Exited"
      using solo_waiting [of "b\<lparr>in_flight := in_flight b - 1, pc := W_Waiting\<rparr>"] assms by auto
    with that have "pc (foldl bus_step b (solo (n + m))) = W_Exited" by (simp add: replicate_add)
    then show ?thesis by blast
  qed
  show ?thesis
  proof (cases "pc b")
    case W_Waiting
    with assms solo_waiting show ?thesis by blast
  next
    case (W_Taken e)
    from solo_taken [OF this] after show ?thesis by blast
  next
    case (W_Delivering e hs)
    from solo_delivering [OF this] after show ?thesis by blast
  next
    case W_Exited
    then have "pc (foldl bus_step b (solo 0)) = W_Exited" by simp
    then show ?thesis by blast
  qed
qed

lemma stop_not_running: "\<not> running (stop b)"
  by (simp add: stop_def)

lemma accepted_solo: "accepted b (solo n) = []"
  by (induction n arbitrary: b) auto

text \<open>C11. \<open>stop\<close> terminates and drops nothing: from any reachable state, once \<open>stop\<close> has cleared the
  flag, the worker thread returns after finitely many of its own steps (so the join returns), and
  by then it has finished every event that was pending, in order, even when every handler throws.\<close>

theorem stop_joins_and_drains:
  "\<exists>n. pc (foldl bus_step (stop (foldl bus_step bus_init ls)) (replicate n (L_Worker True))) = W_Exited \<and>
       finished (stop (foldl bus_step bus_init ls)) (replicate n (L_Worker True))
         = pending (foldl bus_step bus_init ls)"
proof -
  let ?b = "stop (foldl bus_step bus_init ls)"
  have "bus_inv ?b"
    using bus_inv_step [OF bus_run.run_inv [OF bus_inv_init, of ls], of L_Stop] by simp
  obtain n where n: "pc (foldl bus_step ?b (solo n)) = W_Exited"
    using solo_exits [of ?b] stop_not_running by blast
  have "accepted ?b (solo n) = []" by (rule accepted_solo)
  then have "pending ?b = finished ?b (solo n) @ pending (foldl bus_step ?b (solo n))"
    using run_fifo [of ?b "solo n"] by simp
  moreover have "pending (foldl bus_step ?b (solo n)) = []"
    using bus_run.run_inv [OF \<open>bus_inv ?b\<close>, of "solo n"] n by (simp add: bus_inv_def pending_def)
  moreover have "pending ?b = pending (foldl bus_step bus_init ls)"
    by (simp add: stop_def pending_def)
  ultimately show ?thesis using n by auto
qed

section \<open>Subscription tokens\<close>

definition subs_inv :: "'h bus \<Rightarrow> bool" where
  "subs_inv b \<longleftrightarrow> distinct (map sub_token (subs b)) \<and>
     (\<forall>s\<in>set (subs b). unat (sub_token s) < unat (next_token b))"

fun is_subscribe :: "'h bus_label \<Rightarrow> bool" where
  "is_subscribe (L_Subscribe _ _) = True"
| "is_subscribe (L_SubscribeAll _) = True"
| "is_subscribe _ = False"

lemma set_erase_token: "set (erase_token t ss) \<subseteq> set ss"
  by (induction ss) auto

lemma distinct_erase_token:
  "distinct (map sub_token ss) \<Longrightarrow> distinct (map sub_token (erase_token t ss))"
proof (induction ss)
  case (Cons a ss)
  with set_erase_token [of t ss] show ?case by auto
qed simp

lemma erase_token_filter:
  "distinct (map sub_token ss) \<Longrightarrow> erase_token t ss = filter (\<lambda>s. sub_token s \<noteq> t) ss"
proof (induction ss)
  case (Cons a ss)
  then have "filter (\<lambda>s. sub_token s \<noteq> sub_token a) ss = ss"
    by (intro filter_True) (auto simp: image_iff)
  with Cons show ?case by auto
qed simp

lemma worker_step_subs [simp]:
  "subs (worker_step thr b) = subs b" "next_token (worker_step thr b) = next_token b"
  by (auto simp: worker_step_def split: worker_pc.splits list.splits)

lemma unat_next:
  assumes "unat (n :: u64) + 1 < 2 ^ 64"
  shows "unat (n + 1) = unat n + 1"
  using assms by (simp add: unat_word_ariths)

lemma subs_inv_step:
  assumes "subs_inv b" "unat (next_token b) + 1 < 2 ^ 64"
  shows "subs_inv (bus_step b l) \<and>
    unat (next_token (bus_step b l)) = unat (next_token b) + (if is_subscribe l then 1 else 0)"
proof (cases l)
  case (L_Unsubscribe t)
  with assms(1) set_erase_token [of t "subs b"] show ?thesis
    by (auto simp: subs_inv_def unsubscribe_def distinct_erase_token)
qed (use assms unat_next [OF assms(2)] in
      \<open>auto simp: subs_inv_def subscribe_def subscribeAll_def publish_def stop_def Let_def\<close>)

lemma subs_inv_run:
  "\<lbrakk>subs_inv b; unat (next_token b) + length (filter is_subscribe ls) < 2 ^ 64 - 1\<rbrakk>
    \<Longrightarrow> subs_inv (foldl bus_step b ls)"
proof (induction ls arbitrary: b)
  case (Cons l ls)
  from Cons.prems have "unat (next_token b) + 1 < 2 ^ 64" by simp
  from subs_inv_step [OF Cons.prems(1) this, of l] Cons show ?case
    by (auto split: if_splits)
qed simp

text \<open>Tokens identify subscriptions: in an execution with fewer than \<open>2^64 - 2\<close> subscriptions
  (the 64-bit counter does not wrap) all live tokens are distinct, and \<open>unsubscribe(token)\<close> removes
  exactly the subscription that holds the token.\<close>

theorem unsubscribe_exact:
  assumes "length (filter is_subscribe ls) < 2 ^ 64 - 2"
  shows "distinct (map sub_token (subs (foldl bus_step bus_init ls))) \<and>
    subs (unsubscribe (foldl bus_step bus_init ls) t)
      = filter (\<lambda>s. sub_token s \<noteq> t) (subs (foldl bus_step bus_init ls))"
proof -
  have "subs_inv (foldl bus_step bus_init ls)"
    by (rule subs_inv_run) (use assms in \<open>auto simp: subs_inv_def bus_init_def\<close>)
  then show ?thesis
    by (auto simp: subs_inv_def unsubscribe_def erase_token_filter)
qed

theorem unsubscribe_exact_witness:
  "map sub_handler (subs (unsubscribe (foldl bus_step bus_init
      [L_SubscribeAll (7::nat), L_Subscribe Ev_AudioLost 8, L_SubscribeAll 9]) 2)) = [7, 9]"
  using unsubscribe_exact [of "[L_SubscribeAll (7::nat), L_Subscribe Ev_AudioLost 8, L_SubscribeAll 9]" 2]
  by (simp add: bus_init_def bus_op_defs)

end
