(* ===== verification/System_State.thy ===== *)
theory System_State
  imports Core_Types
begin

text \<open>
  The system state machine (\<open>src/src/system/StateMachine.cpp\<close>): the fourteen operating states, the
  table of legal transitions, and \<open>transitionTo\<close> with the event it publishes and the hooks it
  fires. A hook is named by its type \<open>'h\<close>. The bus pointer of the class is the application's bus,
  so the published events are returned in order.
\<close>

section \<open>States and the transition table\<close>

datatype system_state =
    Sys_Booting | Sys_Unconfigured | Sys_SetupMode | Sys_ConnectingNetwork
  | Sys_SearchingStreamer | Sys_Authenticating | Sys_Online | Sys_Playing | Sys_Calibrating
  | Sys_Updating | Sys_Degraded | Sys_Offline | Sys_Error | Sys_ShuttingDown

fun state_name :: "system_state \<Rightarrow> string" where
  "state_name Sys_Booting = ''BOOTING''"
| "state_name Sys_Unconfigured = ''UNCONFIGURED''"
| "state_name Sys_SetupMode = ''SETUP_MODE''"
| "state_name Sys_ConnectingNetwork = ''CONNECTING_NETWORK''"
| "state_name Sys_SearchingStreamer = ''SEARCHING_STREAMER''"
| "state_name Sys_Authenticating = ''AUTHENTICATING''"
| "state_name Sys_Online = ''ONLINE''"
| "state_name Sys_Playing = ''PLAYING''"
| "state_name Sys_Calibrating = ''CALIBRATING''"
| "state_name Sys_Updating = ''UPDATING''"
| "state_name Sys_Degraded = ''DEGRADED''"
| "state_name Sys_Offline = ''OFFLINE''"
| "state_name Sys_Error = ''ERROR''"
| "state_name Sys_ShuttingDown = ''SHUTTING_DOWN''"

text \<open>The \<open>switch\<close> of \<open>legalTransition\<close>: the targets of the normal flow.\<close>

fun flow_targets :: "system_state \<Rightarrow> system_state list" where
  "flow_targets Sys_Booting = [Sys_Unconfigured, Sys_ConnectingNetwork]"
| "flow_targets Sys_Unconfigured = [Sys_SetupMode]"
| "flow_targets Sys_SetupMode = [Sys_ConnectingNetwork, Sys_Unconfigured]"
| "flow_targets Sys_ConnectingNetwork = [Sys_SearchingStreamer, Sys_Offline, Sys_SetupMode]"
| "flow_targets Sys_SearchingStreamer =
     [Sys_Authenticating, Sys_Online, Sys_Offline, Sys_ConnectingNetwork]"
| "flow_targets Sys_Authenticating = [Sys_Online, Sys_SearchingStreamer, Sys_Offline]"
| "flow_targets Sys_Online =
     [Sys_Playing, Sys_Calibrating, Sys_Updating, Sys_Degraded, Sys_Offline]"
| "flow_targets Sys_Playing = [Sys_Online, Sys_Calibrating, Sys_Degraded, Sys_Offline]"
| "flow_targets Sys_Calibrating = [Sys_Online, Sys_Playing, Sys_Degraded]"
| "flow_targets Sys_Updating = [Sys_Online]"
| "flow_targets Sys_Degraded = [Sys_Online, Sys_Offline]"
| "flow_targets Sys_Offline = [Sys_ConnectingNetwork, Sys_SearchingStreamer, Sys_Degraded]"
| "flow_targets Sys_Error = [Sys_Booting, Sys_Degraded]"
| "flow_targets Sys_ShuttingDown = []"

definition legalTransition :: "system_state \<Rightarrow> system_state \<Rightarrow> bool" where
  "legalTransition from to \<longleftrightarrow>
     (if to = Sys_ShuttingDown then True
      else if to = Sys_Error \<and> from \<noteq> Sys_ShuttingDown then True
      else if from = to then True
      else to \<in> set (flow_targets from))"

section \<open>The machine\<close>

record 'h machine =
  current :: system_state
  hooks :: "(system_state \<times> 'h) list"

definition machine_init :: "'h machine" where
  "machine_init = \<lparr>current = Sys_Booting, hooks = []\<rparr>"

definition onEnter :: "'h machine \<Rightarrow> system_state \<Rightarrow> 'h \<Rightarrow> 'h machine" where
  "onEnter m st h = m\<lparr>hooks := hooks m @ [(st, h)]\<rparr>"

definition state_changed_event :: "system_state \<Rightarrow> system_state \<Rightarrow> string \<Rightarrow> string \<Rightarrow> event" where
  "state_changed_event from to reason cid =
     (mk_event_data Ev_StateChanged ''system''
        [(''from'', JStr (state_name from)), (''to'', JStr (state_name to)), (''reason'', JStr reason)])
       \<lparr>ev_command_id := cid\<rparr>"

text \<open>
  \<open>transitionTo\<close>: the new machine, the returned status, the published events and the hooks fired
  (each with the source and target state it is called with).
\<close>

definition transitionTo ::
  "'h machine \<Rightarrow> system_state \<Rightarrow> string \<Rightarrow> string
    \<Rightarrow> 'h machine \<times> status \<times> event list \<times> ('h \<times> system_state \<times> system_state) list" where
  "transitionTo m to reason cid =
     (let from = current m in
      if from = to then (m, success, [], [])
      else if \<not> legalTransition from to then
        (m, mk_error Ec_IllegalStateTransition (state_name from @ '' -> '' @ state_name to), [], [])
      else (m\<lparr>current := to\<rparr>, success, [state_changed_event from to reason cid],
            map (\<lambda>(st, h). (h, from, to)) (filter (\<lambda>(st, h). st = to) (hooks m))))"

section \<open>Properties of the table\<close>

lemma legal_shutdown [simp]: "legalTransition s Sys_ShuttingDown"
  by (simp add: legalTransition_def)

lemma legal_refl [simp]: "legalTransition s s"
  by (simp add: legalTransition_def)

lemma legal_from_shutdown: "legalTransition Sys_ShuttingDown t \<longleftrightarrow> t = Sys_ShuttingDown"
  by (auto simp: legalTransition_def)

lemma legal_to_playing:
  "legalTransition s Sys_Playing \<longleftrightarrow> s \<in> {Sys_Playing, Sys_Online, Sys_Calibrating}"
  by (cases s) (auto simp: legalTransition_def)

lemma legal_to_degraded:
  "legalTransition s Sys_Degraded \<longleftrightarrow>
     s \<in> {Sys_Degraded, Sys_Online, Sys_Playing, Sys_Calibrating, Sys_Offline, Sys_Error}"
  by (cases s) (auto simp: legalTransition_def)

lemma current_transitionTo:
  "current (fst (transitionTo m to r c)) = (if legalTransition (current m) to then to else current m)"
  by (simp add: transitionTo_def Let_def)

lemma transitionTo_self [simp]: "current m = to \<Longrightarrow> transitionTo m to r c = (m, success, [], [])"
  by (simp add: transitionTo_def)

text \<open>Legal moves as a step relation on states, and the states a caller can drive the machine to.\<close>

inductive legal_path :: "system_state \<Rightarrow> system_state \<Rightarrow> bool" where
  here: "legal_path s s"
| move: "legal_path s t \<Longrightarrow> legalTransition t u \<Longrightarrow> legal_path s u"

inductive_cases legal_pathE: "legal_path s t"

lemma legal_path_trans: "legal_path s t \<Longrightarrow> legal_path t u \<Longrightarrow> legal_path s u"
  by (rotate_tac, induction rule: legal_path.induct) (auto intro: legal_path.intros)

lemma legal_path1: "legalTransition s t \<Longrightarrow> legal_path s t"
  by (blast intro: legal_path.intros)

lemma legal_path_from_shutdown: "legal_path s t \<Longrightarrow> s = Sys_ShuttingDown \<Longrightarrow> t = Sys_ShuttingDown"
  by (induction rule: legal_path.induct) (auto simp: legal_from_shutdown)

lemma legal_path_to_online:
  assumes "s \<noteq> Sys_ShuttingDown"
  shows "legal_path s Sys_Online"
proof -
  have e: "legal_path s Sys_Error"
    using assms by (intro legal_path1) (simp add: legalTransition_def)
  have "legal_path Sys_Error Sys_Degraded" "legal_path Sys_Degraded Sys_Online"
    by (auto intro!: legal_path1 simp: legalTransition_def)
  with e show ?thesis by (blast intro: legal_path_trans)
qed

end
