(* ===== verification/System_Manager.thy ===== *)
theory System_Manager
  imports System_State
begin

text \<open>
  \<open>SystemManager\<close> (\<open>src/src/system/SystemManager.cpp\<close>) with its \<open>SafeMode\<close>
  (\<open>src/src/system/SafeMode.h\<close>): the handler that turns module events into state transitions and
  escalates to safe mode. Handlers return the new state and the effects in order: events published
  on the bus, hooks fired, and the injected disable action of safe mode.
\<close>

section \<open>State and effects\<close>

datatype 'h sys_effect =
    Publish event
  | FireHook 'h system_state system_state
  | DisableNormalOperation

record 'h sysman =
  machine_of :: "'h machine"
  safe_active :: bool
  error_streak :: int
  subscribed :: bool
  svc_state :: service_state

definition sysman_init :: "'h sysman" where
  "sysman_init = \<lparr>machine_of = machine_init, safe_active = False, error_streak = 0,
     subscribed = False, svc_state = Svc_Stopped\<rparr>"

abbreviation sys_state :: "'h sysman \<Rightarrow> system_state" where
  "sys_state s \<equiv> current (machine_of s)"

type_synonym 'h sys_op = "'h sysman \<Rightarrow> 'h sysman \<times> 'h sys_effect list"

text \<open>Sequencing of operations, with their effects concatenated.\<close>

definition skip :: "'h sys_op" where
  "skip s = (s, [])"

definition seq :: "'h sys_op \<Rightarrow> 'h sys_op \<Rightarrow> 'h sys_op" where
  "seq f g s = (case f s of (s', es) \<Rightarrow> case g s' of (s'', es') \<Rightarrow> (s'', es @ es'))"

definition transit :: "system_state \<Rightarrow> string \<Rightarrow> 'h sys_op" where
  "transit to reason s =
     (case transitionTo (machine_of s) to reason [] of (m, _, evs, fired) \<Rightarrow>
        (s\<lparr>machine_of := m\<rparr>, map Publish evs @ map (\<lambda>(h, a, b). FireHook h a b) fired))"

section \<open>Operations\<close>

definition safe_mode_enter :: "string \<Rightarrow> 'h sys_op" where
  "safe_mode_enter reason s =
     (if safe_active s then (s, [])
      else (s\<lparr>safe_active := True\<rparr>,
            [DisableNormalOperation,
             Publish (mk_event_data Ev_SafeModeEntered ''system'' [(''reason'', JStr reason)])]))"

definition enterSafeMode :: "string \<Rightarrow> 'h sys_op" where
  "enterSafeMode reason s =
     (if safe_active s then (s, [])
      else seq (safe_mode_enter reason) (transit Sys_Degraded (''safe mode: '' @ reason)) s)"

definition bump_streak :: "string \<Rightarrow> 'h sys_op" where
  "bump_streak reason s =
     (let s' = s\<lparr>error_streak := error_streak s + 1\<rparr> in
      if error_streak s' \<ge> 3 then enterSafeMode reason s' else (s', []))"

definition handle_network_connected :: "'h sys_op" where
  "handle_network_connected =
     seq (\<lambda>s. if sys_state s = Sys_SetupMode
              then transit Sys_ConnectingNetwork ''network connected (setup done)'' s else skip s)
         (\<lambda>s. if sys_state s \<in> {Sys_Authenticating, Sys_Online, Sys_Playing, Sys_Calibrating, Sys_Updating}
              then skip s
              else transit Sys_SearchingStreamer ''network connected'' s)"

definition handle_audio_started :: "'h sys_op" where
  "handle_audio_started =
     seq (\<lambda>s. if sys_state s = Sys_SearchingStreamer \<or> sys_state s = Sys_Authenticating
              then transit Sys_Online ''audio arriving from a streamer'' s else skip s)
         (transit Sys_Playing ''audio started'')"

definition handle_pairing_completed :: "'h sys_op" where
  "handle_pairing_completed =
     seq (\<lambda>s. if sys_state s = Sys_SetupMode
              then transit Sys_ConnectingNetwork ''paired, joining network'' s
              else transit Sys_Online ''authenticated'' s)
         (\<lambda>s. (s\<lparr>error_streak := 0\<rparr>, []))"

definition handleEvent :: "event \<Rightarrow> 'h sys_op" where
  "handleEvent ev s =
     (if sys_state s = Sys_Booting \<and>
         (ev_type ev = Ev_NetworkConnected \<or> ev_type ev = Ev_NetworkDisconnected) then (s, [])
      else case ev_type ev of
        Ev_NetworkConnected \<Rightarrow> handle_network_connected s
      | Ev_NetworkDisconnected \<Rightarrow> transit Sys_Offline ''network lost'' s
      | Ev_StreamerFound \<Rightarrow> transit Sys_Authenticating ''streamer found'' s
      | Ev_PairingCompleted \<Rightarrow> handle_pairing_completed s
      | Ev_StreamerDisconnected \<Rightarrow> transit Sys_Offline ''streamer disconnected'' s
      | Ev_AudioStarted \<Rightarrow> handle_audio_started s
      | Ev_AudioStopped \<Rightarrow> transit Sys_Online ''audio stopped'' s
      | Ev_ConfigInvalid \<Rightarrow>
          seq (transit Sys_Degraded ''config invalid'') (enterSafeMode ''config invalid'') s
      | Ev_IdentityCorrupt \<Rightarrow>
          seq (transit Sys_Error ''identity corrupt'') (enterSafeMode ''identity corrupt'') s
      | Ev_UpdateFailed \<Rightarrow> bump_streak ''repeated update failures'' s
      | Ev_WatchdogTimeout \<Rightarrow>
          seq (transit Sys_Degraded ''watchdog timeout'') (bump_streak ''repeated watchdog timeouts'') s
      | Ev_ShutdownRequested \<Rightarrow> transit Sys_ShuttingDown ''shutdown requested'' s
      | _ \<Rightarrow> (s, []))"

definition start :: "'h sys_op" where
  "start s = (s\<lparr>subscribed := True, svc_state := Svc_Running\<rparr>, [])"

definition stop :: "'h sys_op" where
  "stop s =
     seq (transit Sys_ShuttingDown ''service stop'') (\<lambda>s. (s\<lparr>svc_state := Svc_Stopped\<rparr>, []))
         (s\<lparr>subscribed := False\<rparr>)"

definition enterInitialState :: "bool \<Rightarrow> 'h sys_op" where
  "enterInitialState configured =
     (if configured then transit Sys_ConnectingNetwork ''configured at boot''
      else transit Sys_Unconfigured ''no configuration at boot'')"

text \<open>The calls the rest of the program makes on the manager, and a run of them.\<close>

datatype sys_call =
    C_Start | C_Stop | C_Event event | C_Initial bool | C_SafeMode string
  | C_Transition system_state string

fun sys_call_op :: "sys_call \<Rightarrow> 'h sys_op" where
  "sys_call_op C_Start = start"
| "sys_call_op C_Stop = stop"
| "sys_call_op (C_Event ev) = handleEvent ev"
| "sys_call_op (C_Initial b) = enterInitialState b"
| "sys_call_op (C_SafeMode r) = enterSafeMode r"
| "sys_call_op (C_Transition to r) = transit to r"

definition sys_step :: "'h sysman \<Rightarrow> sys_call \<Rightarrow> 'h sysman" where
  "sys_step s c = fst (sys_call_op c s)"

fun sys_effects :: "'h sysman \<Rightarrow> sys_call list \<Rightarrow> 'h sys_effect list" where
  "sys_effects s [] = []"
| "sys_effects s (c # cs) = snd (sys_call_op c s) @ sys_effects (sys_step s c) cs"

section \<open>How each operation moves the state\<close>

lemma seq_skip [simp]: "seq skip g s = g s"
  by (simp add: seq_def skip_def split: prod.splits)

lemma fst_seq [simp]: "fst (seq f g s) = fst (g (fst (f s)))"
  by (simp add: seq_def split: prod.splits)

lemma snd_seq: "snd (seq f g s) = snd (f s) @ snd (g (fst (f s)))"
  by (simp add: seq_def split: prod.splits)

lemma fst_skip [simp]: "fst (skip s) = s"
  by (simp add: skip_def)

lemma sys_state_transit [simp]:
  "sys_state (fst (transit to r s)) = (if legalTransition (sys_state s) to then to else sys_state s)"
  by (simp add: transit_def current_transitionTo split: prod.splits) (metis current_transitionTo fst_conv)

lemma transit_frame [simp]:
  "safe_active (fst (transit to r s)) = safe_active s"
  "error_streak (fst (transit to r s)) = error_streak s"
  "subscribed (fst (transit to r s)) = subscribed s"
  "svc_state (fst (transit to r s)) = svc_state s"
  by (simp_all add: transit_def split: prod.splits)

lemma enterSafeMode_safe [simp]: "safe_active (fst (enterSafeMode r s))"
  by (simp add: enterSafeMode_def safe_mode_enter_def)

lemma enterSafeMode_streak [simp]: "error_streak (fst (enterSafeMode r s)) = error_streak s"
  by (simp add: enterSafeMode_def safe_mode_enter_def)

lemma enterSafeMode_state:
  "sys_state (fst (enterSafeMode r s)) =
     (if \<not> safe_active s \<and> legalTransition (sys_state s) Sys_Degraded then Sys_Degraded else sys_state s)"
  by (simp add: enterSafeMode_def safe_mode_enter_def)

lemma bump_streak_state:
  "sys_state (fst (bump_streak r s)) \<in> {sys_state s} \<union>
     (if legalTransition (sys_state s) Sys_Degraded then {Sys_Degraded} else {})"
  by (auto simp: bump_streak_def Let_def enterSafeMode_state)

lemmas sys_op_defs =
  handleEvent_def handle_network_connected_def handle_audio_started_def
  handle_pairing_completed_def start_def stop_def enterInitialState_def

section \<open>Every run follows the table\<close>

lemma legal_path_transit: "legal_path (sys_state s) (sys_state (fst (transit to r s)))"
  by (auto intro: legal_path.intros legal_path1)

lemma legal_path_safe: "legal_path (sys_state s) (sys_state (fst (enterSafeMode r s)))"
  by (auto simp: enterSafeMode_state intro: legal_path.intros legal_path1)

lemma legal_path_bump: "legal_path (sys_state s) (sys_state (fst (bump_streak r s)))"
  using bump_streak_state [of r s] by (auto intro: legal_path.intros legal_path1 split: if_splits)

lemma legal_path_seq:
  assumes "\<And>s. legal_path (sys_state s) (sys_state (fst (f s)))"
    and "\<And>s. legal_path (sys_state s) (sys_state (fst (g s)))"
  shows "legal_path (sys_state s) (sys_state (fst (seq f g s)))"
  using legal_path_trans [OF assms(1) assms(2)] by simp

lemma legal_path_cond:
  assumes "\<And>s. legal_path (sys_state s) (sys_state (fst (f s)))"
    and "\<And>s. legal_path (sys_state s) (sys_state (fst (g s)))"
  shows "legal_path (sys_state s) (sys_state (fst (if P s then f s else g s)))"
  using assms by simp

lemma legal_path_skip: "legal_path (sys_state s) (sys_state (fst (skip s)))"
  by (simp add: legal_path.here)

lemma legal_path_reset: "legal_path (sys_state s) (sys_state (fst (s\<lparr>error_streak := n\<rparr>, es)))"
  by (simp add: legal_path.here)

lemmas legal_path_ops =
  legal_path_seq legal_path_cond legal_path_skip legal_path_reset legal_path_transit
  legal_path_safe legal_path_bump

lemma legal_path_handle: "legal_path (sys_state s) (sys_state (fst (handleEvent ev s)))"
proof -
  have nc: "legal_path (sys_state s) (sys_state (fst (handle_network_connected s)))" for s :: "'a sysman"
    unfolding handle_network_connected_def by (intro legal_path_ops)
  have au: "legal_path (sys_state s) (sys_state (fst (handle_audio_started s)))" for s :: "'a sysman"
    unfolding handle_audio_started_def by (intro legal_path_ops)
  have pa: "legal_path (sys_state s) (sys_state (fst (handle_pairing_completed s)))" for s :: "'a sysman"
    unfolding handle_pairing_completed_def by (intro legal_path_ops)
  show ?thesis
    by (cases "ev_type ev")
       (simp_all add: handleEvent_def nc au pa legal_path_ops legal_path.here
          del: sys_state_transit fst_seq)
qed

lemma legal_path_call: "legal_path (sys_state s) (sys_state (sys_step s c))"
proof (cases c)
  case C_Stop
  then show ?thesis by (simp add: sys_step_def stop_def legal_path1)
qed (simp_all add: sys_step_def start_def enterInitialState_def legal_path_handle legal_path_ops
       legal_path.here del: sys_state_transit)

interpretation shutdown_latch: latched_system sys_step "\<lambda>s. sys_state s = Sys_ShuttingDown"
proof
  fix s :: "'a sysman" and c
  assume "sys_state s = Sys_ShuttingDown"
  with legal_path_call [of s c] show "sys_state (sys_step s c) = Sys_ShuttingDown"
    by (auto dest: legal_path_from_shutdown)
qed

interpretation safe_latch: latched_system sys_step safe_active
  by unfold_locales
     (case_tac l; auto simp: sys_step_def sys_op_defs enterSafeMode_def bump_streak_def Let_def
        split: event_type.splits)

section \<open>What observers of the bus see\<close>

text \<open>The (from, to) names carried by the \<open>StateChanged\<close> events of a list of effects.\<close>

fun changes :: "'h sys_effect list \<Rightarrow> (json option \<times> json option) list" where
  "changes [] = []"
| "changes (Publish e # es) =
     (if ev_type e = Ev_StateChanged
      then (j_find (ev_data e) ''from'', j_find (ev_data e) ''to'') # changes es else changes es)"
| "changes (_ # es) = changes es"

text \<open>A chain of direct, legal, proper moves from one state to another.\<close>

inductive move_chain :: "system_state \<Rightarrow> (json option \<times> json option) list \<Rightarrow> system_state \<Rightarrow> bool" where
  none: "move_chain s [] s"
| one: "\<lbrakk>legalTransition s t; s \<noteq> t; move_chain t ms u\<rbrakk>
    \<Longrightarrow> move_chain s ((Some (JStr (state_name s)), Some (JStr (state_name t))) # ms) u"

inductive_cases move_chain_NilE: "move_chain s [] t"

lemma changes_append [simp]: "changes (xs @ ys) = changes xs @ changes ys"
  by (induction xs rule: changes.induct) auto

lemma changes_hooks [simp]: "changes (map (\<lambda>(h, a, b). FireHook h a b) fs) = []"
  by (induction fs) auto

lemma move_chain_append:
  "move_chain s ms t \<Longrightarrow> move_chain t ns u \<Longrightarrow> move_chain s (ms @ ns) u"
  by (induction rule: move_chain.induct) (auto intro: move_chain.intros)

lemma chain_transit: "move_chain (sys_state s) (changes (snd (transit to r s))) (sys_state (fst (transit to r s)))"
  by (auto simp: transit_def transitionTo_def Let_def state_changed_event_def mk_event_data_def
           simp del: map_map intro!: move_chain.intros)

lemma chain_seq:
  assumes "\<And>s. move_chain (sys_state s) (changes (snd (f s))) (sys_state (fst (f s)))"
    and "\<And>s. move_chain (sys_state s) (changes (snd (g s))) (sys_state (fst (g s)))"
  shows "move_chain (sys_state s) (changes (snd (seq f g s))) (sys_state (fst (seq f g s)))"
  using move_chain_append [OF assms(1) assms(2)] by (simp add: snd_seq)

lemma chain_cond:
  assumes "\<And>s. move_chain (sys_state s) (changes (snd (f s))) (sys_state (fst (f s)))"
    and "\<And>s. move_chain (sys_state s) (changes (snd (g s))) (sys_state (fst (g s)))"
  shows "move_chain (sys_state s) (changes (snd (if P s then f s else g s)))
           (sys_state (fst (if P s then f s else g s)))"
  using assms by simp

lemma chain_skip: "move_chain (sys_state s) (changes (snd (skip s))) (sys_state (fst (skip s)))"
  by (simp add: skip_def move_chain.none)

lemma chain_reset:
  "move_chain (sys_state s) (changes (snd (s\<lparr>error_streak := n\<rparr>, []))) (sys_state (fst (s\<lparr>error_streak := n\<rparr>, [])))"
  by (simp add: move_chain.none)

lemma chain_safe: "move_chain (sys_state s) (changes (snd (enterSafeMode r s))) (sys_state (fst (enterSafeMode r s)))"
proof -
  have "move_chain (sys_state t) (changes (snd (safe_mode_enter r t))) (sys_state (fst (safe_mode_enter r t)))"
    for t :: "'a sysman"
    by (simp add: safe_mode_enter_def move_chain.none)
  note enter = chain_seq [of "safe_mode_enter r", OF this chain_transit]
  show ?thesis
  proof (cases "safe_active s")
    case True
    then show ?thesis by (simp add: enterSafeMode_def move_chain.none)
  next
    case False
    then show ?thesis by (simp only: enterSafeMode_def if_False enter)
  qed
qed

lemma chain_bump: "move_chain (sys_state s) (changes (snd (bump_streak r s))) (sys_state (fst (bump_streak r s)))"
  using chain_safe [of "s\<lparr>error_streak := error_streak s + 1\<rparr>" r]
  by (simp add: bump_streak_def Let_def move_chain.none)

lemmas chain_ops = chain_seq chain_cond chain_skip chain_reset chain_transit chain_safe chain_bump

lemma chain_handle:
  "move_chain (sys_state s) (changes (snd (handleEvent ev s))) (sys_state (fst (handleEvent ev s)))"
proof -
  have nc: "move_chain (sys_state s) (changes (snd (handle_network_connected s)))
      (sys_state (fst (handle_network_connected s)))" for s :: "'a sysman"
    unfolding handle_network_connected_def by (intro chain_ops)
  have au: "move_chain (sys_state s) (changes (snd (handle_audio_started s)))
      (sys_state (fst (handle_audio_started s)))" for s :: "'a sysman"
    unfolding handle_audio_started_def by (intro chain_ops)
  have pa: "move_chain (sys_state s) (changes (snd (handle_pairing_completed s)))
      (sys_state (fst (handle_pairing_completed s)))" for s :: "'a sysman"
    unfolding handle_pairing_completed_def by (intro chain_ops)
  show ?thesis
    by (cases "ev_type ev")
       (simp_all add: handleEvent_def nc au pa chain_ops move_chain.none del: sys_state_transit fst_seq)
qed

lemma chain_call: "move_chain (sys_state s) (changes (snd (sys_call_op c s))) (sys_state (sys_step s c))"
proof (cases c)
  case C_Stop
  then show ?thesis
    using chain_transit [of "s\<lparr>subscribed := False\<rparr>" Sys_ShuttingDown "''service stop''"]
    by (simp add: sys_step_def stop_def snd_seq)
qed (simp_all add: sys_step_def start_def enterInitialState_def chain_handle chain_ops
       move_chain.none del: sys_state_transit)

text \<open>C3. Whatever sequence of calls and events the manager receives, the \<open>StateChanged\<close> events it
  publishes form an unbroken chain from the state it started in to the state it is in: each event
  leaves the state the previous one entered, along an edge of the legal-transition table, and no
  event reports a self-transition.\<close>

theorem published_states_form_legal_chain:
  "move_chain (sys_state s) (changes (sys_effects s cs)) (sys_state (foldl sys_step s cs))"
proof (induction cs arbitrary: s)
  case (Cons c cs)
  from move_chain_append [OF chain_call Cons.IH] show ?case by simp
qed (simp add: move_chain.none)

text \<open>Shutdown is terminal: once the machine is in \<open>ShuttingDown\<close>, no event, safe-mode request,
  service call or explicit transition request moves it out again.\<close>

theorem shutdown_is_terminal:
  assumes "sys_state (foldl sys_step s cs) = Sys_ShuttingDown"
  shows "sys_state (foldl sys_step s (cs @ ds)) = Sys_ShuttingDown"
  by (rule shutdown_latch.run_latched [OF assms])

theorem shutdown_is_terminal_witness:
  "sys_state (foldl sys_step (sysman_init :: nat sysman)
     ([C_Start, C_Event (mk_event Ev_ShutdownRequested ''main'')] @
      [C_Event (mk_event Ev_NetworkConnected ''network''), C_Initial True, C_SafeMode ''x''])) = Sys_ShuttingDown"
  by (rule shutdown_is_terminal)
     (simp add: sys_step_def start_def handleEvent_def transit_def transitionTo_def sysman_init_def
        machine_init_def)

section \<open>Safe mode\<close>

definition disables :: "'h sys_effect list \<Rightarrow> nat" where
  "disables es = length (filter (\<lambda>e. e = DisableNormalOperation) es)"

lemma disables_append [simp]: "disables (xs @ ys) = disables xs + disables ys"
  by (simp add: disables_def)

lemma disables_transit [simp]: "disables (snd (transit to r s)) = 0"
  by (auto simp: disables_def transit_def filter_empty_conv split: prod.splits)

lemma disables_list [simp]:
  "disables [] = 0" "disables (DisableNormalOperation # es) = Suc (disables es)"
  "disables (Publish e # es) = disables es"
  by (simp_all add: disables_def)

lemma disables_enterSafeMode [simp]: "disables (snd (enterSafeMode r s)) = (if safe_active s then 0 else 1)"
  by (simp add: enterSafeMode_def snd_seq safe_mode_enter_def)

lemma disables_bump [simp]:
  "disables (snd (bump_streak r s)) = (if \<not> safe_active s \<and> error_streak s \<ge> 2 then 1 else 0)"
  by (simp add: bump_streak_def Let_def)

lemma safe_active_bump [simp]:
  "safe_active (fst (bump_streak r s)) \<longleftrightarrow> safe_active s \<or> error_streak s \<ge> 2"
  by (simp add: bump_streak_def Let_def)

lemma disables_handle:
  "disables (snd (handleEvent ev s)) =
     (if \<not> safe_active s \<and> safe_active (fst (handleEvent ev s)) then 1 else 0)"
  by (cases "ev_type ev")
     (auto simp: handleEvent_def handle_network_connected_def handle_audio_started_def
        handle_pairing_completed_def snd_seq skip_def)

lemma disables_call:
  "disables (snd (sys_call_op c s)) = (if \<not> safe_active s \<and> safe_active (sys_step s c) then 1 else 0)"
  by (cases c) (auto simp: sys_step_def disables_handle start_def stop_def snd_seq enterInitialState_def)

lemma safe_active_mono: "safe_active s \<Longrightarrow> safe_active (foldl sys_step s cs)"
  using safe_latch.run_latched [of s "[]" cs] by simp

lemma disables_run:
  "disables (sys_effects s cs) = (if \<not> safe_active s \<and> safe_active (foldl sys_step s cs) then 1 else 0)"
proof (induction cs arbitrary: s)
  case (Cons c cs)
  have "safe_active s \<Longrightarrow> safe_active (sys_step s c)"
    using safe_active_mono [of s "[c]"] by simp
  then show ?case
    using Cons.IH [of "sys_step s c"] safe_active_mono [of "sys_step s c" cs]
    by (auto simp: disables_call)
qed simp

text \<open>The action that disables normal operation (mute the amplifier, stop audio) is run exactly
  once per execution, at the moment safe mode becomes active, and never while it is inactive; safe
  mode itself is never left.\<close>

theorem safe_mode_disables_exactly_once:
  "disables (sys_effects s cs) =
     (if \<not> safe_active s \<and> safe_active (foldl sys_step s cs) then 1 else 0) \<and>
   safe_active (foldl sys_step s cs) = (safe_active s \<or> disables (sys_effects s cs) = 1)"
  using safe_active_mono [of s cs] by (cases "safe_active s") (simp_all add: disables_run)

text \<open>Escalation: the streak counts error events since the last completed pairing.\<close>

definition is_error_event :: "event \<Rightarrow> bool" where
  "is_error_event ev \<longleftrightarrow> ev_type ev = Ev_UpdateFailed \<or> ev_type ev = Ev_WatchdogTimeout"

lemma bump_streak_streak [simp]: "error_streak (fst (bump_streak r s)) = error_streak s + 1"
  by (simp add: bump_streak_def Let_def)

lemma handleEvent_streak:
  assumes "ev_type ev \<noteq> Ev_PairingCompleted"
  shows "error_streak (fst (handleEvent ev s)) = error_streak s + (if is_error_event ev then 1 else 0)"
  using assms
  by (cases "ev_type ev")
     (auto simp: handleEvent_def handle_network_connected_def handle_audio_started_def is_error_event_def
        skip_def)

lemma handleEvent_error_safe:
  "is_error_event ev \<Longrightarrow> error_streak s \<ge> 2 \<Longrightarrow> safe_active (fst (handleEvent ev s))"
  by (auto simp: is_error_event_def handleEvent_def)

lemma escalation_aux:
  "\<lbrakk>\<forall>ev\<in>set evs. ev_type ev \<noteq> Ev_PairingCompleted; filter is_error_event evs \<noteq> [];
    error_streak s + int (length (filter is_error_event evs)) \<ge> 3\<rbrakk>
    \<Longrightarrow> safe_active (foldl sys_step s (map C_Event evs))"
proof (induction evs arbitrary: s)
  case (Cons ev evs)
  let ?s = "sys_step s (C_Event ev)"
  have streak: "error_streak ?s = error_streak s + (if is_error_event ev then 1 else 0)"
    using Cons.prems handleEvent_streak [of ev s] by (simp add: sys_step_def)
  show ?case
  proof (cases "filter is_error_event evs = []")
    case True
    with Cons.prems have "is_error_event ev" "error_streak s \<ge> 2" by (auto split: if_splits)
    then have "safe_active ?s" by (simp add: sys_step_def handleEvent_error_safe)
    then show ?thesis using safe_active_mono [of ?s "map C_Event evs"] by simp
  next
    case False
    with Cons streak show ?thesis by (auto split: if_splits)
  qed
qed simp

text \<open>C12. Escalation: any sequence of events that contains three update failures or watchdog timeouts
  and no completed pairing leaves the device in safe mode, whatever other events are interleaved
  and whatever state it started from.\<close>

theorem three_errors_enter_safe_mode:
  assumes "\<forall>ev\<in>set evs. ev_type ev \<noteq> Ev_PairingCompleted"
    and "length (filter is_error_event evs) \<ge> 3"
    and "error_streak s \<ge> 0"
  shows "safe_active (foldl sys_step s (map C_Event evs))"
  using assms by (intro escalation_aux) auto

theorem three_errors_enter_safe_mode_witness:
  "safe_active (foldl sys_step (sysman_init :: nat sysman)
     (map C_Event [mk_event Ev_WatchdogTimeout ''watchdog'', mk_event Ev_NetworkConnected ''network'',
        mk_event Ev_UpdateFailed ''updater'', mk_event Ev_WatchdogTimeout ''watchdog'']))"
  by (rule three_errors_enter_safe_mode) (auto simp: is_error_event_def sysman_init_def)

lemmas sys_eval =
  sys_step_def sys_op_defs transit_def transitionTo_def legalTransition_def
  enterSafeMode_def safe_mode_enter_def bump_streak_def seq_def skip_def sysman_init_def machine_init_def

text \<open>Safe mode does not confine the state machine: from boot, a device that enters safe mode
  while online returns to \<open>Playing\<close> when a pairing completes and audio arrives, with safe mode
  still active.\<close>

theorem safe_mode_does_not_prevent_playing:
  "\<exists>evs. safe_active (foldl sys_step (sysman_init :: nat sysman) (C_Start # C_Initial True # map C_Event evs)) \<and>
         sys_state (foldl sys_step (sysman_init :: nat sysman) (C_Start # C_Initial True # map C_Event evs)) = Sys_Playing"
  by (rule exI [of _ "[mk_event Ev_NetworkConnected ''network'', mk_event Ev_StreamerFound ''discovery'',
        mk_event Ev_PairingCompleted ''pairing'', mk_event Ev_ConfigInvalid ''config'',
        mk_event Ev_PairingCompleted ''pairing'', mk_event Ev_AudioStarted ''audio'']"])
     (simp add: sys_eval Let_def)

text \<open>Where safe mode does install \<open>Degraded\<close>: exactly from the states with a legal edge to it.\<close>

lemma enterSafeMode_degrades:
  "\<not> safe_active s \<Longrightarrow> sys_state (fst (enterSafeMode r s)) = Sys_Degraded \<longleftrightarrow>
     sys_state s \<in> {Sys_Degraded, Sys_Online, Sys_Playing, Sys_Calibrating, Sys_Offline, Sys_Error}"
  using legal_to_degraded [of "sys_state s"] by (auto simp: enterSafeMode_state)

section \<open>Connectivity polling and audio\<close>

lemma network_connected_state:
  "sys_state (fst (handle_network_connected s)) =
     (case sys_state s of
        Sys_SetupMode \<Rightarrow> Sys_SearchingStreamer
      | Sys_ConnectingNetwork \<Rightarrow> Sys_SearchingStreamer
      | Sys_Offline \<Rightarrow> Sys_SearchingStreamer
      | st \<Rightarrow> st)"
  by (cases "sys_state s") (auto simp: handle_network_connected_def legalTransition_def skip_def)

text \<open>The periodic re-publication of \<open>NetworkConnected\<close> is idempotent and never drags the device
  back: a second poll changes nothing, a device that is authenticating, online, playing,
  calibrating or updating keeps its state, and a device in setup mode, connecting or offline
  advances to the streamer search.\<close>

theorem network_poll_idempotent:
  assumes "ev_type ev = Ev_NetworkConnected"
  shows "sys_state (fst (handleEvent ev (fst (handleEvent ev s)))) = sys_state (fst (handleEvent ev s)) \<and>
    (sys_state s \<in> {Sys_Authenticating, Sys_Online, Sys_Playing, Sys_Calibrating, Sys_Updating}
       \<longrightarrow> sys_state (fst (handleEvent ev s)) = sys_state s) \<and>
    (sys_state s \<in> {Sys_SetupMode, Sys_ConnectingNetwork, Sys_Offline}
       \<longrightarrow> sys_state (fst (handleEvent ev s)) = Sys_SearchingStreamer)"
  using assms
  by (cases "sys_state s") (auto simp: handleEvent_def network_connected_state)

theorem network_poll_idempotent_witness:
  "sys_state (fst (handleEvent (mk_event Ev_NetworkConnected ''network'')
     ((sysman_init :: nat sysman)\<lparr>machine_of := \<lparr>current = Sys_SetupMode, hooks = []\<rparr>\<rparr>))) = Sys_SearchingStreamer"
  using network_poll_idempotent [of "mk_event Ev_NetworkConnected ''network''"
     "(sysman_init :: nat sysman)\<lparr>machine_of := \<lparr>current = Sys_SetupMode, hooks = []\<rparr>\<rparr>"]
  by simp

text \<open>Audio arriving is evidence of a streamer: from the search, authentication, online or
  calibration states \<open>AudioStarted\<close> brings the device to \<open>Playing\<close>; from every other state it
  leaves the state unchanged.\<close>

theorem audio_started_reaches_playing:
  assumes "ev_type ev = Ev_AudioStarted"
  shows "sys_state (fst (handleEvent ev s)) =
    (if sys_state s \<in> {Sys_SearchingStreamer, Sys_Authenticating, Sys_Online, Sys_Calibrating, Sys_Playing}
     then Sys_Playing else sys_state s)"
  using assms
  by (cases "sys_state s") (auto simp: handleEvent_def handle_audio_started_def legalTransition_def skip_def)

theorem audio_started_reaches_playing_witness:
  "sys_state (fst (handleEvent (mk_event Ev_AudioStarted ''audio'')
     ((sysman_init :: nat sysman)\<lparr>machine_of := \<lparr>current = Sys_SearchingStreamer, hooks = []\<rparr>\<rparr>))) = Sys_Playing"
  by (subst audio_started_reaches_playing) simp_all

end
