(* ===== verification/Watchdog.thy ===== *)
theory Watchdog
  imports Core_Types
begin

text \<open>
  The service watchdog (\<open>src/src/system/Watchdog.cpp\<close>). A watched service is a pointer to an
  \<open>IService\<close>: a value of type \<open>'s\<close>, or None for a null pointer. Its \<open>name()\<close> and the answer of
  its \<open>healthCheck()\<close> at each poll are arguments. The failure counters are the
  \<open>unordered_map<string,int>\<close>, whose \<open>operator[]\<close> reads a missing entry as 0. The wait between polls
  and the thread are not part of the state; a run of the loop is a list of polls.
\<close>

section \<open>State and operations\<close>

datatype wd_effect = WPublish event | WRecover string

record 's watchdog =
  wd_threshold :: int
  wd_self :: 's
  wd_watched :: "'s option list"
  wd_counts :: "string \<Rightarrow> int"
  wd_running :: bool
  wd_state :: service_state

definition wd_new :: "'s \<Rightarrow> int \<Rightarrow> 's watchdog" where
  "wd_new self threshold =
     \<lparr>wd_threshold = threshold, wd_self = self, wd_watched = [], wd_counts = (\<lambda>_. 0),
      wd_running = False, wd_state = Svc_Stopped\<rparr>"

definition watch :: "'s watchdog \<Rightarrow> 's option \<Rightarrow> 's watchdog" where
  "watch w svc = w\<lparr>wd_watched := wd_watched w @ [svc]\<rparr>"

definition wd_start :: "'s watchdog \<Rightarrow> 's watchdog" where
  "wd_start w = w\<lparr>wd_running := True, wd_state := Svc_Running\<rparr>"

definition wd_stop :: "'s watchdog \<Rightarrow> 's watchdog" where
  "wd_stop w = w\<lparr>wd_running := False, wd_state := Svc_Stopped\<rparr>"

definition health_event :: "string \<Rightarrow> int \<Rightarrow> event" where
  "health_event n count =
     mk_event_data Ev_HealthCheckFailed ''watchdog'' [(''service'', JStr n), (''count'', JInt count)]"

definition timeout_event :: "string \<Rightarrow> event" where
  "timeout_event n = mk_event_data Ev_WatchdogTimeout ''watchdog'' [(''service'', JStr n)]"

text \<open>The body of the loop over the snapshot: counters, number unhealthy, effects.\<close>

fun poll_services ::
  "int \<Rightarrow> 's \<Rightarrow> ('s \<Rightarrow> string) \<Rightarrow> ('s \<Rightarrow> bool) \<Rightarrow> 's option list \<Rightarrow> (string \<Rightarrow> int)
    \<Rightarrow> (string \<Rightarrow> int) \<times> nat \<times> wd_effect list" where
  "poll_services th self name_of healthy [] counts = (counts, 0, [])"
| "poll_services th self name_of healthy (None # svcs) counts =
     poll_services th self name_of healthy svcs counts"
| "poll_services th self name_of healthy (Some svc # svcs) counts =
     (if svc = self then poll_services th self name_of healthy svcs counts
      else
        let n = name_of svc in
        if healthy svc then poll_services th self name_of healthy svcs (counts(n := 0))
        else
          let count = counts n + 1;
              fired = count \<ge> th;
              counts' = counts(n := (if fired then 0 else count));
              effs = WPublish (health_event n count) #
                     (if fired then [WPublish (timeout_event n), WRecover n] else [])
          in case poll_services th self name_of healthy svcs counts' of
               (c, k, es) \<Rightarrow> (c, Suc k, effs @ es))"

definition pollOnce ::
  "('s \<Rightarrow> string) \<Rightarrow> ('s \<Rightarrow> bool) \<Rightarrow> 's watchdog \<Rightarrow> 's watchdog \<times> nat \<times> wd_effect list" where
  "pollOnce name_of healthy w =
     (case poll_services (wd_threshold w) (wd_self w) name_of healthy (wd_watched w) (wd_counts w) of
        (c, k, es) \<Rightarrow> (w\<lparr>wd_counts := c\<rparr>, k, es))"

text \<open>The loop: one poll per tick, with the answers the services give at that tick.\<close>

fun poll_run :: "('s \<Rightarrow> string) \<Rightarrow> ('s \<Rightarrow> bool) list \<Rightarrow> 's watchdog \<Rightarrow> 's watchdog \<times> wd_effect list" where
  "poll_run name_of [] w = (w, [])"
| "poll_run name_of (h # hs) w =
     (case pollOnce name_of h w of (w', _, es) \<Rightarrow>
        case poll_run name_of hs w' of (w'', es') \<Rightarrow> (w'', es @ es'))"

section \<open>One service at a time\<close>

text \<open>The services a poll looks at: non-null pointers other than the watchdog itself.\<close>

definition polled :: "'s watchdog \<Rightarrow> 's list" where
  "polled w = filter (\<lambda>s. s \<noteq> wd_self w) (List.map_filter id (wd_watched w))"

definition recoveries :: "string \<Rightarrow> wd_effect list \<Rightarrow> nat" where
  "recoveries n es = length (filter (\<lambda>e. e = WRecover n) es)"

lemma recoveries_simps [simp]:
  "recoveries n [] = 0"
  "recoveries n (WPublish e # es) = recoveries n es"
  "recoveries n (WRecover m # es) = (if m = n then Suc (recoveries n es) else recoveries n es)"
  "recoveries n (es @ fs) = recoveries n es + recoveries n fs"
  by (simp_all add: recoveries_def)

definition polled_list :: "'s \<Rightarrow> 's option list \<Rightarrow> 's list" where
  "polled_list self svcs = filter (\<lambda>s. s \<noteq> self) (List.map_filter id svcs)"

lemma polled_list_simps [simp]:
  "polled_list self [] = []"
  "polled_list self (None # svcs) = polled_list self svcs"
  "polled_list self (Some s # svcs) = (if s = self then polled_list self svcs else s # polled_list self svcs)"
  by (simp_all add: polled_list_def map_filter_def)

lemma poll_services_other:
  assumes "n \<notin> name_of ` set (polled_list self svcs)"
    and "poll_services th self name_of h svcs counts = (c, k, es)"
  shows "c n = counts n \<and> recoveries n es = 0"
  using assms
  by (induction th self name_of h svcs counts arbitrary: c k es rule: poll_services.induct)
     (auto simp: Let_def split: if_splits prod.splits)

lemma poll_services_one:
  assumes "distinct (map name_of (polled_list self svcs))"
    and "s \<in> set (polled_list self svcs)"
    and "poll_services th self name_of h svcs counts = (c, k, es)"
  shows "c (name_of s) = (if h s then 0 else if counts (name_of s) + 1 \<ge> th then 0 else counts (name_of s) + 1) \<and>
         recoveries (name_of s) es = (if \<not> h s \<and> counts (name_of s) + 1 \<ge> th then 1 else 0)"
  using assms
proof (induction svcs arbitrary: counts c k es)
  case (Cons p svcs)
  show ?case
  proof (cases "p = None \<or> p = Some self")
    case True
    with Cons.prems have "distinct (map name_of (polled_list self svcs))"
      "s \<in> set (polled_list self svcs)" "poll_services th self name_of h svcs counts = (c, k, es)" by auto
    then show ?thesis by (rule Cons.IH)
  next
    case False
    then obtain svc where svc: "p = Some svc" "svc \<noteq> self" by auto
    define counts' where "counts' = counts(name_of svc :=
      (if h svc then 0 else if counts (name_of svc) + 1 \<ge> th then 0 else counts (name_of svc) + 1))"
    obtain c' k' es' where rest: "poll_services th self name_of h svcs counts' = (c', k', es')"
      by (metis prod_cases3)
    have eff: "c = c'" "recoveries n es = recoveries n es' +
        (if n = name_of svc \<and> \<not> h svc \<and> counts (name_of svc) + 1 \<ge> th then 1 else 0)" for n
      using Cons.prems(3) svc rest
      by (auto simp: Let_def counts'_def split: if_splits prod.splits)
    show ?thesis
    proof (cases "s = svc")
      case True
      with Cons.prems svc have "name_of svc \<notin> name_of ` set (polled_list self svcs)" by simp
      from poll_services_other [OF this rest] True eff show ?thesis
        by (simp add: counts'_def)
    next
      case neq: False
      with Cons.prems svc have s: "s \<in> set (polled_list self svcs)"
        "distinct (map name_of (polled_list self svcs))" "name_of s \<noteq> name_of svc" by (auto simp: image_iff)
      from Cons.IH [OF s(2,1) rest] s eff show ?thesis by (simp add: counts'_def)
    qed
  qed
qed simp

lemma poll_services_count:
  "poll_services th self name_of h svcs counts = (c, k, es) \<Longrightarrow>
     k = length (filter (\<lambda>s. \<not> h s) (polled_list self svcs))"
  by (induction th self name_of h svcs counts arbitrary: c k es rule: poll_services.induct)
     (auto simp: Let_def split: if_splits prod.splits)

lemma polled_eq: "polled w = polled_list (wd_self w) (wd_watched w)"
  by (simp add: polled_def polled_list_def)

lemma pollOnce_frame:
  assumes "pollOnce name_of h w = (w', k, es)"
  shows "wd_watched w' = wd_watched w" "wd_self w' = wd_self w" "wd_threshold w' = wd_threshold w"
    "polled w' = polled w" "wd_running w' = wd_running w"
  using assms by (auto simp: pollOnce_def polled_def split: prod.splits)

text \<open>Abstract specification: each service has its own counter, which a healthy answer resets and
  which wraps to zero, firing a recovery, when it reaches the threshold.\<close>

fun counter_spec :: "int \<Rightarrow> bool list \<Rightarrow> int \<Rightarrow> int \<times> nat" where
  "counter_spec th [] c = (c, 0)"
| "counter_spec th (ok # oks) c =
     (if ok then counter_spec th oks 0
      else if c + 1 \<ge> th then (case counter_spec th oks 0 of (c', r) \<Rightarrow> (c', Suc r))
      else counter_spec th oks (c + 1))"

lemma poll_run_refines:
  assumes "distinct (map name_of (polled w))" "s \<in> set (polled w)"
    and "poll_run name_of hs w = (w', es)"
  shows "(wd_counts w' (name_of s), recoveries (name_of s) es)
       = counter_spec (wd_threshold w) (map (\<lambda>h. h s) hs) (wd_counts w (name_of s))"
  using assms
proof (induction hs arbitrary: w w' es)
  case (Cons h hs)
  obtain w1 k es1 where p: "pollOnce name_of h w = (w1, k, es1)" by (metis prod_cases3)
  obtain w2 es2 where r: "poll_run name_of hs w1 = (w2, es2)" by (metis surj_pair)
  from Cons.prems(3) p r have eq: "w' = w2" "es = es1 @ es2" by auto
  note fr = pollOnce_frame [OF p]
  have IH: "(wd_counts w2 (name_of s), recoveries (name_of s) es2)
      = counter_spec (wd_threshold w) (map (\<lambda>h. h s) hs) (wd_counts w1 (name_of s))"
    using Cons.IH [OF _ _ r] Cons.prems fr by simp
  have one: "wd_counts w1 (name_of s) = (if h s then 0 else if wd_counts w (name_of s) + 1 \<ge> wd_threshold w
        then 0 else wd_counts w (name_of s) + 1)"
    "recoveries (name_of s) es1 = (if \<not> h s \<and> wd_counts w (name_of s) + 1 \<ge> wd_threshold w then 1 else 0)"
    using poll_services_one [of name_of "wd_self w" "wd_watched w" s "wd_threshold w" h "wd_counts w"]
      Cons.prems p by (auto simp: pollOnce_def polled_eq split: prod.splits)
  from IH one eq show ?case by (auto split: prod.splits)
qed simp

lemma counter_spec_failures:
  assumes "0 < th" "0 \<le> c" "c < th"
  shows "counter_spec th (replicate k False) c =
    ((c + int k) mod th, nat ((c + int k) div th))"
  using assms
proof (induction k arbitrary: c)
  case (Suc k)
  show ?case
  proof (cases "c + 1 \<ge> th")
    case True
    with Suc.prems have c: "c = th - 1" by simp
    have e: "c + int (Suc k) = int k + th" using c by simp
    have m: "(int k + th) mod th = int k mod th" "(int k + th) div th = int k div th + 1"
      using Suc.prems(1) by (simp_all add: div_add_self2)
    have "0 \<le> int k div th" using Suc.prems(1) by (simp add: pos_imp_zdiv_nonneg_iff)
    then show ?thesis using True Suc.IH [of 0] Suc.prems(1)
      unfolding e m by (simp add: nat_add_distrib)
  next
    case False
    with Suc show ?thesis by (simp add: algebra_simps)
  qed
qed simp

text \<open>C13. Refinement: for watched services with distinct names, the shared counter map behaves as
  one independent counter per service. Over any sequence of polls, the stored count of a service
  and the number of recoveries requested for it are those of the per-service specification.\<close>

theorem watchdog_refines_counters:
  assumes "distinct (map name_of (polled w))" "s \<in> set (polled w)"
  shows "(case poll_run name_of hs w of (w', es) \<Rightarrow> (wd_counts w' (name_of s), recoveries (name_of s) es))
       = counter_spec (wd_threshold w) (map (\<lambda>h. h s) hs) (wd_counts w (name_of s))"
  using poll_run_refines [OF assms] by (auto split: prod.splits)

theorem watchdog_refines_counters_witness:
  "(case poll_run show_nat [\<lambda>_. False, \<lambda>s. s = 1, \<lambda>_. False] (watch (watch (wd_new (0::nat) 2) (Some 1)) (Some 2))
     of (w', es) \<Rightarrow> (wd_counts w' (show_nat 2), recoveries (show_nat 2) es)) = (1, 1)"
  by (subst watchdog_refines_counters) (simp_all add: polled_eq watch_def wd_new_def show_nat_inj)

text \<open>Recovery cadence: a service that fails every one of \<open>k\<close> polls is recovered exactly
  \<open>k div threshold\<close> times, and its counter ends at \<open>k mod threshold\<close>.\<close>

theorem watchdog_recovery_cadence:
  assumes "distinct (map name_of (polled w))" "s \<in> set (polled w)"
    and "0 < wd_threshold w" "wd_counts w (name_of s) = 0"
    and "\<forall>h\<in>set hs. \<not> h s"
  shows "(case poll_run name_of hs w of (w', es) \<Rightarrow>
            wd_counts w' (name_of s) = int (length hs) mod wd_threshold w \<and>
            int (recoveries (name_of s) es) = int (length hs) div wd_threshold w)"
proof -
  have "map (\<lambda>h. h s) hs = replicate (length hs) False"
    using assms(5) by (induction hs) auto
  moreover have "0 \<le> int (length hs) div wd_threshold w"
    using assms(3) by (simp add: pos_imp_zdiv_nonneg_iff)
  ultimately show ?thesis
    using poll_run_refines [OF assms(1,2), of hs] assms(3,4)
    by (auto simp: counter_spec_failures split: prod.splits)
qed

theorem watchdog_recovery_cadence_witness:
  "(case poll_run show_nat (replicate 7 (\<lambda>_. False)) (watch (watch (wd_new (0::nat) 3) (Some 1)) (Some 2)) of (w', es) \<Rightarrow>
      wd_counts w' (show_nat 2) = 1 \<and> int (recoveries (show_nat 2) es) = 2)"
  using watchdog_recovery_cadence [of show_nat "watch (watch (wd_new (0::nat) 3) (Some 1)) (Some 2)" 2 "replicate 7 (\<lambda>_. False)"]
  by (simp add: polled_eq watch_def wd_new_def show_nat_inj)

lemma pollOnce_count:
  "pollOnce name_of h w = (w', k, es) \<Longrightarrow> k = length (filter (\<lambda>s. \<not> h s) (polled w))"
  by (auto simp: pollOnce_def polled_eq dest: poll_services_count split: prod.splits)

end
