(* ===== verification/Config.thy ===== *)
theory Config
  imports Core_Types "HOL-Library.Monad_Syntax"
begin

text \<open>
  The speaker configuration: the structs of \<open>src/src/config/SpeakerConfig.h\<close>, their validator
  (\<open>ConfigValidator.cpp\<close>), the first-boot values (\<open>DefaultConfig.cpp\<close>) and the JSON mapping
  (\<open>ConfigSerialization.h\<close>). A conversion that throws is None. \<open>double\<close> values are reals: the code
  only stores, compares and clamps them.
\<close>

section \<open>The structs\<close>

record device_config =
  device_id :: string
  dev_name :: string
  serial_number :: string
  model :: string
  hardware_version :: string
  software_version :: string

record pairing_config =
  paired :: bool
  streamer_id :: string
  streamer_public_key :: string

record network_config =
  wifi_configured :: bool
  connection_mode :: string

record audio_config =
  volume :: int
  muted :: bool
  delay_ms :: int
  eq_profile :: string
  gain_db :: real
  phase_invert :: bool
  output_device :: string
  input_device :: string

record system_config =
  auto_update :: bool
  log_level :: string

record speaker_config =
  schema_version :: int
  device :: device_config
  pairing :: pairing_config
  network :: network_config
  audio :: audio_config
  sys_cfg :: system_config

section \<open>Defaults\<close>

definition device_default :: device_config where
  "device_default = \<lparr>device_id = [], dev_name = [], serial_number = [], model = [],
     hardware_version = [], software_version = ''1.0.0''\<rparr>"

definition pairing_default :: pairing_config where
  "pairing_default = \<lparr>paired = False, streamer_id = [], streamer_public_key = []\<rparr>"

definition network_default :: network_config where
  "network_default = \<lparr>wifi_configured = False, connection_mode = ''wifi''\<rparr>"

definition audio_default :: audio_config where
  "audio_default = \<lparr>volume = 30, muted = True, delay_ms = 0, eq_profile = ''default'', gain_db = 0,
     phase_invert = False, output_device = ''default'', input_device = ''default''\<rparr>"

definition system_default :: system_config where
  "system_default = \<lparr>auto_update = True, log_level = ''info''\<rparr>"

definition config_default :: speaker_config where
  "config_default = \<lparr>schema_version = 1, device = device_default, pairing = pairing_default,
     network = network_default, audio = audio_default, sys_cfg = system_default\<rparr>"

definition defaults :: speaker_config where
  "defaults = config_default\<lparr>device := device_default\<lparr>model := ''NEXUS-SPEAKER-3'', hardware_version := ''1.0''\<rparr>\<rparr>"

lemmas default_defs = defaults_def config_default_def device_default_def pairing_default_def
  network_default_def audio_default_def system_default_def

section \<open>Validation\<close>

definition invalid :: "string \<Rightarrow> status" where
  "invalid msg = mk_error Ec_ConfigValidationFailed msg"

definition validate :: "speaker_config \<Rightarrow> status" where
  "validate c =
     (if schema_version c \<noteq> 1 then
        invalid (''unsupported schema_version '' @ show_int (schema_version c))
      else if volume (audio c) < 0 \<or> volume (audio c) > 100 then
        invalid (''audio.volume out of range [0,100]: '' @ show_int (volume (audio c)))
      else if delay_ms (audio c) < 0 then
        invalid (''audio.delay_ms must be >= 0: '' @ show_int (delay_ms (audio c)))
      else if eq_profile (audio c) = [] then
        invalid ''audio.eq_profile must not be empty''
      else if connection_mode (network c) \<noteq> ''wifi'' \<and> connection_mode (network c) \<noteq> ''ethernet'' then
        invalid (''network.connection_mode must be 'wifi' or 'ethernet': '' @ connection_mode (network c))
      else if log_level (sys_cfg c) \<notin> {''debug'', ''info'', ''warning'', ''error'', ''critical''} then
        invalid (''system.log_level invalid: '' @ log_level (sys_cfg c))
      else if paired (pairing c) \<and> streamer_id (pairing c) = [] then
        invalid ''pairing.paired is true but streamer_id is empty''
      else success)"

definition valid_config :: "speaker_config \<Rightarrow> bool" where
  "valid_config c \<longleftrightarrow> st_ok (validate c)"

lemma valid_config_iff:
  "valid_config c \<longleftrightarrow>
     schema_version c = 1 \<and> 0 \<le> volume (audio c) \<and> volume (audio c) \<le> 100 \<and> 0 \<le> delay_ms (audio c) \<and>
     eq_profile (audio c) \<noteq> [] \<and> connection_mode (network c) \<in> {''wifi'', ''ethernet''} \<and>
     log_level (sys_cfg c) \<in> {''debug'', ''info'', ''warning'', ''error'', ''critical''} \<and>
     (paired (pairing c) \<longrightarrow> streamer_id (pairing c) \<noteq> [])"
  by (auto simp: valid_config_def validate_def invalid_def)

lemma validate_ok_iff: "st_ok (validate c) \<longleftrightarrow> valid_config c"
  by (simp add: valid_config_def)

lemma validate_error_code: "\<not> valid_config c \<Longrightarrow> st_code (validate c) = Ec_ConfigValidationFailed"
  by (auto simp: valid_config_def validate_def invalid_def)

lemma valid_defaults [simp]: "valid_config defaults"
  by (simp add: valid_config_iff default_defs)

section \<open>JSON mapping\<close>

definition device_to_json :: "device_config \<Rightarrow> json" where
  "device_to_json d = JObj
     [(''device_id'', JStr (device_id d)), (''serial_number'', JStr (serial_number d)),
      (''model'', JStr (model d)), (''hardware_version'', JStr (hardware_version d)),
      (''software_version'', JStr (software_version d))]"

definition device_from_json :: "json_lib \<Rightarrow> json \<Rightarrow> device_config option" where
  "device_from_json J j = do {
     let d = device_default;
     a \<leftarrow> j_value (jl_get_string J) j ''device_id'' (device_id d);
     b \<leftarrow> j_value (jl_get_string J) j ''serial_number'' (serial_number d);
     c \<leftarrow> j_value (jl_get_string J) j ''model'' (model d);
     e \<leftarrow> j_value (jl_get_string J) j ''hardware_version'' (hardware_version d);
     f \<leftarrow> j_value (jl_get_string J) j ''software_version'' (software_version d);
     Some (d\<lparr>device_id := a, serial_number := b, model := c, hardware_version := e, software_version := f\<rparr>)
   }"

definition pairing_to_json :: "pairing_config \<Rightarrow> json" where
  "pairing_to_json p = JObj
     [(''paired'', JBool (paired p)), (''streamer_id'', JStr (streamer_id p)),
      (''streamer_public_key'', JStr (streamer_public_key p))]"

definition pairing_from_json :: "json_lib \<Rightarrow> json \<Rightarrow> pairing_config option" where
  "pairing_from_json J j = do {
     let p = pairing_default;
     a \<leftarrow> j_value (jl_get_bool J) j ''paired'' (paired p);
     b \<leftarrow> j_value (jl_get_string J) j ''streamer_id'' (streamer_id p);
     c \<leftarrow> j_value (jl_get_string J) j ''streamer_public_key'' (streamer_public_key p);
     Some (p\<lparr>paired := a, streamer_id := b, streamer_public_key := c\<rparr>)
   }"

definition network_to_json :: "network_config \<Rightarrow> json" where
  "network_to_json n = JObj
     [(''wifi_configured'', JBool (wifi_configured n)), (''connection_mode'', JStr (connection_mode n))]"

definition network_from_json :: "json_lib \<Rightarrow> json \<Rightarrow> network_config option" where
  "network_from_json J j = do {
     let n = network_default;
     a \<leftarrow> j_value (jl_get_bool J) j ''wifi_configured'' (wifi_configured n);
     b \<leftarrow> j_value (jl_get_string J) j ''connection_mode'' (connection_mode n);
     Some (n\<lparr>wifi_configured := a, connection_mode := b\<rparr>)
   }"

definition audio_to_json :: "audio_config \<Rightarrow> json" where
  "audio_to_json a = JObj
     [(''volume'', JInt (volume a)), (''muted'', JBool (muted a)), (''delay_ms'', JInt (delay_ms a)),
      (''eq_profile'', JStr (eq_profile a)), (''gain_db'', JReal (gain_db a)),
      (''phase_invert'', JBool (phase_invert a)), (''output_device'', JStr (output_device a)),
      (''input_device'', JStr (input_device a))]"

definition audio_from_json :: "json_lib \<Rightarrow> json \<Rightarrow> audio_config option" where
  "audio_from_json J j = do {
     let a = audio_default;
     v \<leftarrow> j_value (jl_get_int J) j ''volume'' (volume a);
     m \<leftarrow> j_value (jl_get_bool J) j ''muted'' (muted a);
     d \<leftarrow> j_value (jl_get_int J) j ''delay_ms'' (delay_ms a);
     e \<leftarrow> j_value (jl_get_string J) j ''eq_profile'' (eq_profile a);
     g \<leftarrow> j_value (jl_get_double J) j ''gain_db'' (gain_db a);
     p \<leftarrow> j_value (jl_get_bool J) j ''phase_invert'' (phase_invert a);
     od \<leftarrow> j_value (jl_get_string J) j ''output_device'' (output_device a);
     ind \<leftarrow> j_value (jl_get_string J) j ''input_device'' (input_device a);
     Some \<lparr>volume = v, muted = m, delay_ms = d, eq_profile = e, gain_db = g, phase_invert = p,
           output_device = od, input_device = ind\<rparr>
   }"

definition system_to_json :: "system_config \<Rightarrow> json" where
  "system_to_json s = JObj [(''auto_update'', JBool (auto_update s)), (''log_level'', JStr (log_level s))]"

definition system_from_json :: "json_lib \<Rightarrow> json \<Rightarrow> system_config option" where
  "system_from_json J j = do {
     let s = system_default;
     a \<leftarrow> j_value (jl_get_bool J) j ''auto_update'' (auto_update s);
     b \<leftarrow> j_value (jl_get_string J) j ''log_level'' (log_level s);
     Some (s\<lparr>auto_update := a, log_level := b\<rparr>)
   }"

definition config_to_json :: "speaker_config \<Rightarrow> json" where
  "config_to_json c = JObj
     [(''schema_version'', JInt (schema_version c)), (''device'', device_to_json (device c)),
      (''pairing'', pairing_to_json (pairing c)), (''network'', network_to_json (network c)),
      (''audio'', audio_to_json (audio c)), (''system'', system_to_json (sys_cfg c))]"

text \<open>\<open>if (j.contains(k)) field = j.at(k).get<T>()\<close>.\<close>

definition section_from_json :: "(json \<Rightarrow> 'a option) \<Rightarrow> json \<Rightarrow> string \<Rightarrow> 'a \<Rightarrow> 'a option" where
  "section_from_json get j k d = (case j_find j k of None \<Rightarrow> Some d | Some v \<Rightarrow> get v)"

definition config_from_json :: "json_lib \<Rightarrow> json \<Rightarrow> speaker_config option" where
  "config_from_json J j = do {
     let c = config_default;
     v \<leftarrow> j_value (jl_get_int J) j ''schema_version'' (schema_version c);
     d \<leftarrow> section_from_json (device_from_json J) j ''device'' (device c);
     p \<leftarrow> section_from_json (pairing_from_json J) j ''pairing'' (pairing c);
     n \<leftarrow> section_from_json (network_from_json J) j ''network'' (network c);
     a \<leftarrow> section_from_json (audio_from_json J) j ''audio'' (audio c);
     s \<leftarrow> section_from_json (system_from_json J) j ''system'' (sys_cfg c);
     Some \<lparr>schema_version = v, device = d, pairing = p, network = n, audio = a, sys_cfg = s\<rparr>
   }"

section \<open>Round trips\<close>

lemma j_value_JObj [simp]:
  "j_value get (JObj kvs) k d = (case map_of kvs k of None \<Rightarrow> Some d | Some v \<Rightarrow> get v)"
  by (simp add: j_value_def)

lemma device_roundtrip:
  "getters_exact J \<Longrightarrow> device_from_json J (device_to_json d) = Some (d\<lparr>dev_name := []\<rparr>)"
  by (cases d) (simp add: device_from_json_def device_to_json_def device_default_def)

lemma pairing_roundtrip: "getters_exact J \<Longrightarrow> pairing_from_json J (pairing_to_json p) = Some p"
  by (cases p) (simp add: pairing_from_json_def pairing_to_json_def pairing_default_def)

lemma network_roundtrip: "getters_exact J \<Longrightarrow> network_from_json J (network_to_json n) = Some n"
  by (cases n) (simp add: network_from_json_def network_to_json_def network_default_def)

definition int32 :: "int \<Rightarrow> bool" where
  "int32 i \<longleftrightarrow> - (2 ^ 31) \<le> i \<and> i < 2 ^ 31"

lemma audio_roundtrip:
  "getters_exact J \<Longrightarrow> int32 (volume a) \<Longrightarrow> int32 (delay_ms a) \<Longrightarrow> audio_from_json J (audio_to_json a) = Some a"
  by (cases a) (simp add: audio_from_json_def audio_to_json_def int32_def)

lemma system_roundtrip: "getters_exact J \<Longrightarrow> system_from_json J (system_to_json s) = Some s"
  by (cases s) (simp add: system_from_json_def system_to_json_def system_default_def)

definition forget_name :: "speaker_config \<Rightarrow> speaker_config" where
  "forget_name c = c\<lparr>device := (device c)\<lparr>dev_name := []\<rparr>\<rparr>"

lemma valid_forget_name [simp]: "valid_config (forget_name c) = valid_config c"
  by (simp add: valid_config_iff forget_name_def)

lemma config_roundtrip:
  assumes "getters_exact J" and "valid_config c" and "delay_ms (audio c) < 2 ^ 31"
  shows "config_from_json J (config_to_json c) = Some (forget_name c)"
proof -
  have "int32 (volume (audio c))" "int32 (delay_ms (audio c))"
    using assms(2,3) by (auto simp: valid_config_iff int32_def)
  moreover have "schema_version c = 1" using assms(2) by (simp add: valid_config_iff)
  ultimately show ?thesis
    using assms(1)
    by (cases c) (simp add: config_from_json_def config_to_json_def section_from_json_def forget_name_def
        device_roundtrip pairing_roundtrip network_roundtrip audio_roundtrip system_roundtrip)
qed

lemma forget_name_defaults [simp]: "forget_name defaults = defaults"
  by (simp add: forget_name_def default_defs)

lemma delay_defaults [simp]: "delay_ms (audio defaults) = 0"
  by (simp add: default_defs)

text \<open>C15. Serialisation round trip: reading back the JSON of a valid configuration gives every field
  of it except the display name of the device, which \<open>to_json\<close> does not write and which therefore
  comes back empty.\<close>

theorem config_json_roundtrip:
  assumes "getters_exact J" and "valid_config c" and "delay_ms (audio c) < 2 ^ 31"
  shows "config_from_json J (config_to_json c) = Some (forget_name c)"
  using assms by (rule config_roundtrip)

theorem config_json_roundtrip_witness:
  "config_from_json (demo_lib [] JNull) (config_to_json (defaults\<lparr>device := (device defaults)\<lparr>dev_name := ''Kitchen''\<rparr>\<rparr>))
     = Some defaults"
  by (subst config_json_roundtrip) (simp_all add: valid_config_iff forget_name_def default_defs)

end
