(* ===== verification/File_Store.thy ===== *)
theory File_Store
  imports Core_Types
begin

text \<open>
  Files and the atomic-replace write primitive (\<open>src/src/core/AtomicFile.cpp\<close>). A file system is a
  map from paths to contents. What the operating system answers to each call is an argument: the
  \<open>write\<close> loop is driven by a list of partial results (None for an error, a byte count otherwise);
  when the list is used up the kernel accepts the rest. A zero-byte result that repeats forever,
  which POSIX excludes for regular files, is the only behaviour left out. The operation returns the
  sequence of file-system states a running process can see; what is left on the disk when the power is cut
  between two system calls is in \<open>Power_Cut\<close>.
\<close>

type_synonym fsys = "string \<rightharpoonup> string"

record os_env =
  os_open :: bool
  os_writes :: "nat option list"
  os_fsync :: bool
  os_rename :: bool
  os_strerror :: string

definition os_fine :: os_env where
  "os_fine = \<lparr>os_open = True, os_writes = [], os_fsync = True, os_rename = True, os_strerror = []\<rparr>"

text \<open>The \<open>while (remaining > 0)\<close> loop: the byte counts on disk after each \<open>write\<close>, and whether
  it ended without an error.\<close>

fun write_loop :: "nat option list \<Rightarrow> nat \<Rightarrow> nat \<Rightarrow> nat list \<times> bool" where
  "write_loop outs remaining done =
     (if remaining = 0 then ([], True)
      else case outs of
        [] \<Rightarrow> ([done + remaining], True)
      | None # _ \<Rightarrow> ([], False)
      | Some n # outs' \<Rightarrow>
          (let k = min n remaining in
           case write_loop outs' (remaining - k) (done + k) of (tr, ok) \<Rightarrow> ((done + k) # tr, ok)))"

declare write_loop.simps [simp del]

definition tmp_states :: "fsys \<Rightarrow> string \<Rightarrow> string \<Rightarrow> nat list \<Rightarrow> fsys list" where
  "tmp_states f tmp contents counts = map (\<lambda>n. f(tmp \<mapsto> take n contents)) ([0] @ counts)"

definition atomicWriteFile :: "os_env \<Rightarrow> fsys \<Rightarrow> string \<Rightarrow> string \<Rightarrow> fsys list \<times> status" where
  "atomicWriteFile env f path contents =
     (let tmp = path @ ''.tmp'' in
      if \<not> os_open env then
        ([f], mk_error Ec_ConfigWriteFailed (''open tmp failed: '' @ os_strerror env))
      else case write_loop (os_writes env) (length contents) 0 of (counts, ok) \<Rightarrow>
        let tr = [f] @ tmp_states f tmp contents counts;
            cleaned = f(tmp := None) in
        if \<not> ok then
          (tr @ [cleaned], mk_error Ec_ConfigWriteFailed (''write failed: '' @ os_strerror env))
        else if \<not> os_fsync env then
          (tr @ [cleaned], mk_error Ec_ConfigWriteFailed (''fsync failed: '' @ os_strerror env))
        else if \<not> os_rename env then
          (tr @ [cleaned], mk_error Ec_ConfigWriteFailed (''rename failed: '' @ os_strerror env))
        else (tr @ [f(path \<mapsto> (case last tr tmp of Some c \<Rightarrow> c | None \<Rightarrow> []), tmp := None)], success))"

section \<open>The loop writes everything\<close>

lemma write_loop_bounds:
  "write_loop outs r d = (tr, ok) \<Longrightarrow> (\<forall>n\<in>set tr. d \<le> n \<and> n \<le> d + r) \<and>
     (ok \<longrightarrow> last (d # tr) = d + r)"
proof (induction outs r d arbitrary: tr ok rule: write_loop.induct)
  case (1 outs r d)
  show ?case
  proof (cases "r = 0")
    case True
    with "1.prems" show ?thesis by (simp add: write_loop.simps)
  next
    case False
    show ?thesis
    proof (cases outs)
      case Nil
      with "1.prems" False show ?thesis by (auto simp: write_loop.simps)
    next
      case (Cons out outs')
      show ?thesis
      proof (cases out)
        case None
        with "1.prems" False Cons show ?thesis by (auto simp: write_loop.simps)
      next
        case (Some n)
        let ?k = "min n r"
        obtain tr' ok' where w: "write_loop outs' (r - ?k) (d + ?k) = (tr', ok')" by (metis surj_pair)
        with "1.prems" False Cons Some have eq: "tr = (d + ?k) # tr'" "ok = ok'"
          by (auto simp: write_loop.simps [of "Some n # outs'"] Let_def)
        have "(\<forall>n\<in>set tr'. d + ?k \<le> n \<and> n \<le> d + ?k + (r - ?k)) \<and>
            (ok' \<longrightarrow> last ((d + ?k) # tr') = d + ?k + (r - ?k))"
          using "1.IH" [OF False Cons Some refl w] .
        then show ?thesis using eq by auto
      qed
    qed
  qed
qed

lemma write_loop_complete:
  "write_loop outs r 0 = (tr, True) \<Longrightarrow> last (0 # tr) = r"
  using write_loop_bounds [of outs r 0 tr True] by simp

lemma last_tmp_states:
  "last (tmp_states f tmp c counts) = f(tmp \<mapsto> take (last (0 # counts)) c)"
  by (simp add: tmp_states_def last_map)

lemma last_tmp_states_full:
  assumes "write_loop outs (length c) 0 = (counts, True)"
  shows "last (tmp_states f tmp c counts) = f(tmp \<mapsto> c)"
  unfolding last_tmp_states write_loop_complete [OF assms] by simp

lemma tmp_states_other: "g \<in> set (tmp_states f tmp c counts) \<Longrightarrow> p \<noteq> tmp \<Longrightarrow> g p = f p"
  by (auto simp: tmp_states_def)

lemma tmp_path_neq [simp]: "p @ ''.tmp'' \<noteq> p" "p \<noteq> p @ ''.tmp''"
  by auto

lemma tmp_states_nonempty [simp]: "tmp_states f tmp c counts \<noteq> []"
  by (simp add: tmp_states_def)

text \<open>The contract of the primitive, on success and on failure.\<close>

lemma atomicWriteFile_final:
  assumes "atomicWriteFile env f path contents = (tr, st)"
  shows "tr \<noteq> []"
    and "st_ok st \<Longrightarrow> last tr = f(path \<mapsto> contents, path @ ''.tmp'' := None)"
    and "\<not> st_ok st \<Longrightarrow> last tr path = f path \<and> (\<forall>p. p \<noteq> path @ ''.tmp'' \<longrightarrow> last tr p = f p)"
    and "\<not> st_ok st \<Longrightarrow> st_code st = Ec_ConfigWriteFailed"
proof -
  obtain counts ok where w: "write_loop (os_writes env) (length contents) 0 = (counts, ok)"
    by (metis surj_pair)
  note d = assms [unfolded atomicWriteFile_def Let_def w]
  show "tr \<noteq> []" using d by (auto split: if_splits)
  show "last tr = f(path \<mapsto> contents, path @ ''.tmp'' := None)" if "st_ok st"
  proof -
    have ok: "ok" "os_open env" using d that by (auto split: if_splits)
    with w have "last (tmp_states f (path @ ''.tmp'') contents counts) = f(path @ ''.tmp'' \<mapsto> contents)"
      by (simp add: last_tmp_states_full)
    with d that show ?thesis by (auto split: if_splits)
  qed
  show "last tr path = f path \<and> (\<forall>p. p \<noteq> path @ ''.tmp'' \<longrightarrow> last tr p = f p)" if "\<not> st_ok st"
    using d that by (auto split: if_splits)
  show "st_code st = Ec_ConfigWriteFailed" if "\<not> st_ok st"
    using d that by (auto split: if_splits)
qed

text \<open>With a cooperative operating system the write succeeds.\<close>

lemma atomicWriteFile_fine: "snd (atomicWriteFile os_fine f path contents) = success"
  by (simp add: atomicWriteFile_def os_fine_def write_loop.simps Let_def split: prod.splits)

text \<open>Never torn: in every state the file system goes through during \<open>atomicWriteFile\<close>,
  whatever the operating system answers, the target holds either exactly its old contents or
  exactly the new ones (never a prefix), and no path other than the target and its temporary
  sibling is touched.\<close>

theorem atomic_write_never_partial:
  assumes "g \<in> set (fst (atomicWriteFile env f path contents))"
  shows "(g path = f path \<or> g path = Some contents) \<and>
    (\<forall>p. p \<noteq> path \<longrightarrow> p \<noteq> path @ ''.tmp'' \<longrightarrow> g p = f p)"
proof -
  obtain counts ok where w: "write_loop (os_writes env) (length contents) 0 = (counts, ok)"
    by (metis surj_pair)
  have full: "ok \<Longrightarrow> last (tmp_states f (path @ ''.tmp'') contents counts) = f(path @ ''.tmp'' \<mapsto> contents)"
    using w by (simp add: last_tmp_states_full)
  from assms show ?thesis
    unfolding atomicWriteFile_def Let_def w
    by (auto split: if_splits dest: tmp_states_other simp: full)
qed

theorem atomic_write_never_partial_witness:
  "list_all (\<lambda>g. g ''c'' = Some ''old'' \<or> g ''c'' = Some ''new'')
     (fst (atomicWriteFile \<lparr>os_open = True, os_writes = [Some 1, None], os_fsync = True, os_rename = True,
       os_strerror = ''ENOSPC''\<rparr> [''c'' \<mapsto> ''old''] ''c'' ''new''))"
  using atomic_write_never_partial [where f = "[''c'' \<mapsto> ''old'']" and path = "''c''" and contents = "''new''"]
  unfolding list_all_iff by fastforce

section \<open>The same pattern without error checks\<close>

text \<open>\<open>SecureStorage::put\<close> and \<open>Installer::install\<close> repeat the pattern with the results of \<open>fsync\<close>
  ignored; they share this sequence of calls and differ in the error codes.\<close>

datatype replace_error = Open_Failed | Write_Failed | Rename_Failed

definition replace_file :: "os_env \<Rightarrow> fsys \<Rightarrow> string \<Rightarrow> string \<Rightarrow> string \<Rightarrow> fsys list \<times> replace_error option" where
  "replace_file env f tmp path contents =
     (if \<not> os_open env then ([f], Some Open_Failed)
      else case write_loop (os_writes env) (length contents) 0 of (counts, ok) \<Rightarrow>
        let tr = [f] @ tmp_states f tmp contents counts in
        if \<not> ok then (tr @ [f(tmp := None)], Some Write_Failed)
        else if \<not> os_rename env then (tr @ [f(tmp := None)], Some Rename_Failed)
        else (tr @ [f(path \<mapsto> (case last tr tmp of Some c \<Rightarrow> c | None \<Rightarrow> []), tmp := None)], None))"

lemma replace_file_final:
  assumes "replace_file env f tmp path contents = (tr, e)"
  shows "tr \<noteq> []" and "e = None \<Longrightarrow> last tr = f(path \<mapsto> contents, tmp := None)"
    and "e \<noteq> None \<Longrightarrow> last tr = f \<or> last tr = f(tmp := None)"
proof -
  obtain counts ok where w: "write_loop (os_writes env) (length contents) 0 = (counts, ok)" by (metis surj_pair)
  note d = assms [unfolded replace_file_def Let_def w]
  show "tr \<noteq> []" using d by (auto split: if_splits)
  have full: "ok \<Longrightarrow> last (tmp_states f tmp contents counts) = f(tmp \<mapsto> contents)"
    using w by (simp add: last_tmp_states_full)
  show "last tr = f(path \<mapsto> contents, tmp := None)" if "e = None"
    using d that full by (auto split: if_splits)
  show "last tr = f \<or> last tr = f(tmp := None)" if "e \<noteq> None"
    using d that by (auto split: if_splits)
qed

lemma replace_file_states:
  assumes "replace_file env f tmp path contents = (tr, e)" "g \<in> set tr" "tmp \<noteq> path"
  shows "(g path = f path \<or> g path = Some contents) \<and> (p \<noteq> path \<longrightarrow> p \<noteq> tmp \<longrightarrow> g p = f p)"
proof -
  obtain counts ok where w: "write_loop (os_writes env) (length contents) 0 = (counts, ok)" by (metis surj_pair)
  have full: "ok \<Longrightarrow> last (tmp_states f tmp contents counts) = f(tmp \<mapsto> contents)"
    using w by (simp add: last_tmp_states_full)
  from assms show ?thesis
    unfolding replace_file_def Let_def w by (auto split: if_splits dest: tmp_states_other simp: full)
qed

lemma replace_file_fine: "snd (replace_file os_fine f tmp path contents) = None"
  by (simp add: replace_file_def os_fine_def write_loop.simps Let_def split: prod.splits)

end
