(* ===== verification/Config_Manager.thy ===== *)
theory Config_Manager
  imports Config File_Store
begin

text \<open>
  \<open>ConfigManager\<close> (\<open>src/src/config/ConfigManager.cpp\<close>): loading with fallback to the backup and to
  the defaults, validated atomic persistence with a one-deep backup, and validated updates. The
  locale \<open>config_store\<close> is the contract the command executor and the pairing service rely on. \<open>update\<close> is a call that no other
  update overlaps; what overlapping does is in a section of its own.
\<close>

section \<open>State\<close>

text \<open>What the operating system answers during one operation: the answers of the atomic write, and
  whether the ignored-error-code calls (\<open>copy_file\<close> to the backup, \<open>rename\<close> to the \<open>.corrupt\<close>
  file) and the opening of a file for reading succeed.\<close>

record cfg_env =
  ce_write :: os_env
  ce_copy :: bool
  ce_rename :: bool
  ce_readable :: "string \<Rightarrow> bool"

definition cfg_env_fine :: cfg_env where
  "cfg_env_fine = \<lparr>ce_write = os_fine, ce_copy = True, ce_rename = True, ce_readable = (\<lambda>_. True)\<rparr>"

record cfgman =
  cm_path :: string
  cm_fs :: fsys
  cm_config :: speaker_config
  cm_state :: service_state

definition cfgman_new :: "string \<Rightarrow> fsys \<Rightarrow> cfgman" where
  "cfgman_new path f = \<lparr>cm_path = path, cm_fs = f, cm_config = defaults, cm_state = Svc_Stopped\<rparr>"

abbreviation bak_path :: "cfgman \<Rightarrow> string" where
  "bak_path m \<equiv> cm_path m @ ''.bak''"

abbreviation corrupt_path :: "cfgman \<Rightarrow> string" where
  "corrupt_path m \<equiv> cm_path m @ ''.corrupt''"

section \<open>Operations\<close>

definition get :: "cfgman \<Rightarrow> speaker_config" where
  "get m = cm_config m"

definition backup_copy :: "cfg_env \<Rightarrow> cfgman \<Rightarrow> cfgman" where
  "backup_copy env m =
     (case cm_fs m (cm_path m) of
        None \<Rightarrow> m
      | Some old \<Rightarrow> if ce_copy env then m\<lparr>cm_fs := (cm_fs m)(bak_path m \<mapsto> old)\<rparr> else m)"

definition persist :: "json_lib \<Rightarrow> cfg_env \<Rightarrow> cfgman \<Rightarrow> speaker_config \<Rightarrow> cfgman \<times> status" where
  "persist J env m cfg =
     (let v = validate cfg in
      if \<not> st_ok v then (m, v)
      else
        let m1 = backup_copy env m in
        case atomicWriteFile (ce_write env) (cm_fs m1) (cm_path m1) (jl_dump2 J (config_to_json cfg)) of
          (tr, w) \<Rightarrow> (m1\<lparr>cm_fs := last tr\<rparr>, w))"

text \<open>The lambda \<open>tryParse\<close> of \<open>load\<close>.\<close>

definition tryParse :: "json_lib \<Rightarrow> cfg_env \<Rightarrow> fsys \<Rightarrow> string \<Rightarrow> speaker_config result" where
  "tryParse J env f file =
     (case f file of
        None \<Rightarrow> Inl (mk_error Ec_ConfigNotFound (''cannot open '' @ file))
      | Some txt \<Rightarrow>
          if \<not> ce_readable env file then Inl (mk_error Ec_ConfigNotFound (''cannot open '' @ file))
          else case Option.bind (jl_parse J txt) (config_from_json J) of
            None \<Rightarrow> Inl (mk_error Ec_ConfigParseError (jl_what J txt))
          | Some c \<Rightarrow> (let v = validate c in if st_ok v then Inr c else Inl v))"

definition rename_corrupt :: "cfg_env \<Rightarrow> cfgman \<Rightarrow> cfgman" where
  "rename_corrupt env m =
     (if ce_rename env
      then m\<lparr>cm_fs := (cm_fs m)(corrupt_path m := cm_fs m (cm_path m), cm_path m := None)\<rparr> else m)"

definition config_invalid_event :: event where
  "config_invalid_event = mk_event Ev_ConfigInvalid ''config''"

definition config_changed_event :: event where
  "config_changed_event = mk_event Ev_ConfigChanged ''config''"

definition load :: "json_lib \<Rightarrow> cfg_env \<Rightarrow> cfgman \<Rightarrow> cfgman \<times> status \<times> event list" where
  "load J env m =
     (if cm_fs m (cm_path m) = None then
        (case persist J env m defaults of (m', w) \<Rightarrow> (m'\<lparr>cm_config := defaults\<rparr>, w, []))
      else case tryParse J env (cm_fs m) (cm_path m) of
        Inr c \<Rightarrow> (m\<lparr>cm_config := c\<rparr>, success, [])
      | Inl _ \<Rightarrow>
          (case (if cm_fs m (bak_path m) = None then Inl success else tryParse J env (cm_fs m) (bak_path m)) of
             Inr c \<Rightarrow>
               (case persist J env (rename_corrupt env m) c of
                  (m', _) \<Rightarrow> (m'\<lparr>cm_config := c\<rparr>, success, [config_invalid_event]))
           | Inl _ \<Rightarrow>
               (case persist J env (rename_corrupt env m) defaults of
                  (m', _) \<Rightarrow> (m'\<lparr>cm_config := defaults\<rparr>,
                     mk_error Ec_ConfigCorrupt ''config was corrupt; reverted to defaults'',
                     [config_invalid_event]))))"

definition start :: "json_lib \<Rightarrow> cfg_env \<Rightarrow> cfgman \<Rightarrow> cfgman \<times> status \<times> event list" where
  "start J env m =
     (case load J env m of (m', s, evs) \<Rightarrow>
        (m'\<lparr>cm_state := (if st_ok s then Svc_Running else Svc_Degraded)\<rparr>, s, evs))"

definition stop :: "cfgman \<Rightarrow> cfgman" where
  "stop m = m\<lparr>cm_state := Svc_Stopped\<rparr>"

definition update ::
  "json_lib \<Rightarrow> cfg_env \<Rightarrow> cfgman \<Rightarrow> (speaker_config \<Rightarrow> speaker_config) \<Rightarrow> cfgman \<times> status \<times> event list" where
  "update J env m mutator =
     (let candidate = mutator (cm_config m); v = validate candidate in
      if \<not> st_ok v then (m, v, [])
      else case persist J env m candidate of (m', w) \<Rightarrow>
        if \<not> st_ok w then (m', w, [])
        else (m'\<lparr>cm_config := candidate\<rparr>, success, [config_changed_event]))"

text \<open>The function is not one critical section: the mutex covers the copying of the configuration and, later, the storing of the
  candidate; the mutator, the validation and the writing of the file run in between. The second part, from a candidate that
  was computed earlier:\<close>

definition update_store ::
  "json_lib \<Rightarrow> cfg_env \<Rightarrow> cfgman \<Rightarrow> speaker_config \<Rightarrow> cfgman \<times> status \<times> event list" where
  "update_store J env m candidate =
     (let v = validate candidate in
      if \<not> st_ok v then (m, v, [])
      else case persist J env m candidate of (m', w) \<Rightarrow>
        if \<not> st_ok w then (m', w, [])
        else (m'\<lparr>cm_config := candidate\<rparr>, success, [config_changed_event]))"

definition resetToDefaults :: "json_lib \<Rightarrow> cfg_env \<Rightarrow> cfgman \<Rightarrow> cfgman \<times> status \<times> event list" where
  "resetToDefaults J env m =
     (case persist J env m defaults of (m', w) \<Rightarrow>
        if \<not> st_ok w then (m', w, [])
        else (m'\<lparr>cm_config := defaults\<rparr>, success, [config_changed_event]))"

section \<open>Persistence\<close>

lemma sibling_paths [simp]:
  "p @ ''.bak'' \<noteq> p" "p \<noteq> p @ ''.bak''" "p @ ''.corrupt'' \<noteq> p" "p \<noteq> p @ ''.corrupt''"
  by auto

lemma backup_copy_frame [simp]:
  "cm_path (backup_copy env m) = cm_path m" "cm_config (backup_copy env m) = cm_config m"
  "cm_fs (backup_copy env m) (cm_path m) = cm_fs m (cm_path m)"
  "cm_state (backup_copy env m) = cm_state m"
  by (auto simp: backup_copy_def split: option.splits)

lemma backup_copy_bak:
  "cm_fs (backup_copy env m) (bak_path m) =
     (if ce_copy env \<and> cm_fs m (cm_path m) \<noteq> None then cm_fs m (cm_path m) else cm_fs m (bak_path m))"
  by (auto simp: backup_copy_def split: option.splits)

lemma persist_frame:
  assumes "persist J env m cfg = (m', w)"
  shows "cm_path m' = cm_path m" "cm_config m' = cm_config m" "cm_state m' = cm_state m"
  using assms by (auto simp: persist_def Let_def split: if_splits prod.splits)

lemma persist_ok:
  assumes "persist J env m cfg = (m', w)" "st_ok w"
  shows "valid_config cfg \<and> cm_fs m' (cm_path m) = Some (jl_dump2 J (config_to_json cfg)) \<and>
    cm_fs m' (bak_path m) =
      (if ce_copy env \<and> cm_fs m (cm_path m) \<noteq> None then cm_fs m (cm_path m) else cm_fs m (bak_path m))"
proof -
  obtain tr w' where aw: "atomicWriteFile (ce_write env) (cm_fs (backup_copy env m)) (cm_path m)
      (jl_dump2 J (config_to_json cfg)) = (tr, w')" by (metis surj_pair)
  have v: "valid_config cfg"
    using assms by (auto simp: persist_def Let_def valid_config_def split: if_splits)
  with assms aw have m': "m' = (backup_copy env m)\<lparr>cm_fs := last tr\<rparr>" and "w = w'"
    by (auto simp: persist_def Let_def valid_config_def)
  with aw assms(2) atomicWriteFile_final(2) have "last tr = (cm_fs (backup_copy env m))
      (cm_path m \<mapsto> jl_dump2 J (config_to_json cfg), cm_path m @ ''.tmp'' := None)"
    by blast
  with m' v show ?thesis by (auto simp: backup_copy_bak)
qed

lemma persist_error:
  assumes "persist J env m cfg = (m', w)" "\<not> st_ok w"
  shows "cm_fs m' (cm_path m) = cm_fs m (cm_path m)"
proof (cases "valid_config cfg")
  case True
  obtain tr w' where aw: "atomicWriteFile (ce_write env) (cm_fs (backup_copy env m)) (cm_path m)
      (jl_dump2 J (config_to_json cfg)) = (tr, w')" by (metis surj_pair)
  with True assms have "m' = (backup_copy env m)\<lparr>cm_fs := last tr\<rparr>" "w = w'"
    by (auto simp: persist_def Let_def valid_config_def)
  with atomicWriteFile_final(3) [OF aw] assms(2) show ?thesis by simp
next
  case False
  with assms show ?thesis by (simp add: persist_def Let_def valid_config_def)
qed

lemma persist_invalid: "\<not> valid_config cfg \<Longrightarrow> persist J env m cfg = (m, validate cfg)"
  by (simp add: persist_def valid_config_def)

lemma persist_fine:
  "valid_config cfg \<Longrightarrow> ce_write env = os_fine \<Longrightarrow> snd (persist J env m cfg) = success"
  using atomicWriteFile_fine by (auto simp: persist_def Let_def valid_config_def split: prod.splits) (metis snd_conv)

section \<open>The contract clients rely on\<close>

text \<open>
  A store of one validated value: a read returns the current value; an update either succeeds and
  installs the mutated value, which is then valid, or fails and leaves the value as it was.
\<close>

locale config_store =
  fixes valid :: "'c \<Rightarrow> bool"
    and read :: "'m \<Rightarrow> 'c"
    and upd :: "'m \<Rightarrow> ('c \<Rightarrow> 'c) \<Rightarrow> 'm \<times> status \<times> event list"
  assumes upd_ok: "upd m f = (m', s, evs) \<Longrightarrow> st_ok s \<Longrightarrow> read m' = f (read m) \<and> valid (f (read m)) \<and> evs \<noteq> []"
    and upd_err: "upd m f = (m', s, evs) \<Longrightarrow> \<not> st_ok s \<Longrightarrow> read m' = read m \<and> evs = []"
    and upd_invalid: "upd m f = (m', s, evs) \<Longrightarrow> \<not> valid (f (read m)) \<Longrightarrow> \<not> st_ok s \<and> m' = m"
begin

lemma upd_valid: "valid (read m) \<Longrightarrow> valid (read (fst (upd m f)))"
  by (metis prod.collapse upd_err upd_ok)

lemma upds_valid: "valid (read m) \<Longrightarrow> valid (read (foldl (\<lambda>m f. fst (upd m f)) m fs))"
  by (induction fs arbitrary: m) (auto intro: upd_valid)

lemma upd_read:
  "read (fst (upd m f)) = (if st_ok (fst (snd (upd m f))) then f (read m) else read m)"
  by (metis prod.collapse upd_err upd_ok)

end

lemma update_cases:
  assumes "update J env m f = (m', s, evs)"
  shows "(valid_config (f (cm_config m)) \<and> st_ok s \<and> cm_config m' = f (cm_config m) \<and> evs = [config_changed_event] \<and>
            persist J env m (f (cm_config m)) = (m'\<lparr>cm_config := cm_config m\<rparr>, success)) \<or>
         (valid_config (f (cm_config m)) \<and> \<not> st_ok s \<and> evs = [] \<and> persist J env m (f (cm_config m)) = (m', s)) \<or>
         (\<not> valid_config (f (cm_config m)) \<and> \<not> st_ok s \<and> m' = m \<and> evs = [])"
proof -
  obtain m1 w where p: "persist J env m (f (cm_config m)) = (m1, w)" by (metis surj_pair)
  have "st_ok w \<Longrightarrow> w = success"
  proof -
    assume "st_ok w"
    obtain tr w' where aw: "atomicWriteFile (ce_write env) (cm_fs (backup_copy env m)) (cm_path m)
      (jl_dump2 J (config_to_json (f (cm_config m)))) = (tr, w')" by (metis surj_pair)
    with p \<open>st_ok w\<close> have "w = w'" by (auto simp: persist_def Let_def split: if_splits)
    with aw \<open>st_ok w\<close> show "w = success"
      by (auto simp: atomicWriteFile_def Let_def split: if_splits prod.splits)
  qed
  then show ?thesis
    using assms p persist_frame [OF p]
    by (auto simp: update_def Let_def valid_config_def split: if_splits)
qed

interpretation cfg: config_store valid_config get "update J env" for J env
proof
  fix m f m' s evs
  assume u: "update J env m f = (m', s, evs)"
  note c = update_cases [OF u]
  show "st_ok s \<Longrightarrow> get m' = f (get m) \<and> valid_config (f (get m)) \<and> evs \<noteq> []"
    using c by (auto simp: get_def)
  show "\<not> st_ok s \<Longrightarrow> get m' = get m \<and> evs = []"
    using c by (auto simp: get_def dest: persist_frame)
  show "\<not> valid_config (f (get m)) \<Longrightarrow> \<not> st_ok s \<and> m' = m"
    using c by (auto simp: get_def)
qed

section \<open>Overlapping updates\<close>

text \<open>With nothing between its two critical sections an update is \<open>update\<close>, the form the rest of the library uses; callers that
  rely on it must not overlap.\<close>

lemma update_sections: "update J env m f = update_store J env m (f (get m))"
  by (simp add: update_def update_store_def get_def Let_def)

datatype upd_section =
    Sec_Copy nat "speaker_config \<Rightarrow> speaker_config"
  | Sec_Store nat json_lib cfg_env

fun upd_turn :: "cfgman \<times> (nat \<Rightarrow> speaker_config option) \<Rightarrow> upd_section \<Rightarrow> cfgman \<times> (nat \<Rightarrow> speaker_config option)" where
  "upd_turn (m, cs) (Sec_Copy i f) = (m, cs(i := Some (f (get m))))"
| "upd_turn (m, cs) (Sec_Store i J env) =
     (case cs i of None \<Rightarrow> (m, cs) | Some c \<Rightarrow> (fst (update_store J env m c), cs(i := None)))"

lemma store_get:
  assumes "update_store J env m c = (m', s, evs)"
  shows "get m' = (if st_ok s then c else get m)" "st_ok s \<Longrightarrow> valid_config c"
proof -
  have "update J env m (\<lambda>_. c) = (m', s, evs)" using assms by (simp add: update_sections)
  then show "get m' = (if st_ok s then c else get m)" "st_ok s \<Longrightarrow> valid_config c"
    using cfg.upd_read [of J env m "\<lambda>_. c"] cfg.upd_ok [of J env m "\<lambda>_. c" m' s evs] by simp_all
qed

text \<open>However the sections of several threads overlap, the configuration in memory stays valid.\<close>

lemma overlapping_valid:
  "valid_config (get m) \<Longrightarrow> valid_config (get (fst (foldl upd_turn (m, cs) secs)))"
proof (induction secs arbitrary: m cs)
  case (Cons sec secs)
  obtain m' cs' where t: "upd_turn (m, cs) sec = (m', cs')" by fastforce
  have "valid_config (get m')"
  proof (cases sec)
    case (Sec_Store i J env)
    have "valid_config (get (fst (update_store J env m c)))" for c
      using store_get [of J env m c] Cons.prems by (metis prod.collapse)
    then show ?thesis using t Sec_Store Cons.prems by (auto split: option.splits)
  qed (use t Cons.prems in auto)
  with Cons.IH t show ?case by simp
qed simp

text \<open>But an update that stores inside another one is undone by it: the second store brings back the fields of its older copy.\<close>

lemma update_lost:
  assumes "i \<noteq> j" "foldl upd_turn (m, cs) [Sec_Copy i f, Sec_Copy j g, Sec_Store j J env, Sec_Store i J' env'] = (m', cs')"
    and "st_ok (fst (snd (update_store J' env' (fst (update_store J env m (g (get m)))) (f (get m)))))"
  shows "get m' = f (get m)"
proof -
  obtain m1 s1 e1 where u1: "update_store J env m (g (get m)) = (m1, s1, e1)" by (metis prod_cases3)
  obtain m2 s2 e2 where u2: "update_store J' env' m1 (f (get m)) = (m2, s2, e2)" by (metis prod_cases3)
  have "get m2 = f (get m)" using store_get(1) [OF u2] assms(3) u1 u2 by simp
  moreover have "m' = m2" using assms(1,2) u1 u2 by simp
  ultimately show ?thesis by simp
qed

section \<open>The in-memory configuration is always valid\<close>

datatype cfg_call =
    K_Start json_lib cfg_env | K_Load json_lib cfg_env | K_Stop
  | K_Update json_lib cfg_env "speaker_config \<Rightarrow> speaker_config"
  | K_Reset json_lib cfg_env

fun cfg_step :: "cfgman \<Rightarrow> cfg_call \<Rightarrow> cfgman" where
  "cfg_step m (K_Start J env) = fst (start J env m)"
| "cfg_step m (K_Load J env) = fst (load J env m)"
| "cfg_step m K_Stop = stop m"
| "cfg_step m (K_Update J env f) = fst (update J env m f)"
| "cfg_step m (K_Reset J env) = fst (resetToDefaults J env m)"

lemma tryParse_valid: "tryParse J env f p = Inr c \<Longrightarrow> valid_config c"
  by (auto simp: tryParse_def Let_def valid_config_def split: option.splits if_splits)

lemma load_valid: "valid_config (cm_config (fst (load J env m)))"
  by (auto simp: load_def dest: tryParse_valid split: prod.splits sum.splits if_splits)

lemma reset_valid:
  "valid_config (cm_config m) \<Longrightarrow> valid_config (cm_config (fst (resetToDefaults J env m)))"
  by (auto simp: resetToDefaults_def split: prod.splits dest: persist_frame)

lemma cfg_step_valid: "valid_config (cm_config m) \<Longrightarrow> valid_config (cm_config (cfg_step m c))"
proof (cases c)
  case (K_Update J env f)
  assume "valid_config (cm_config m)"
  then show ?thesis using cfg.upd_valid [of m J env f] K_Update by (simp add: get_def)
qed (auto simp: load_valid reset_valid start_def stop_def split: prod.splits,
     use load_valid in \<open>metis fst_conv\<close>)

interpretation cfg_run: invariant_system cfg_step "\<lambda>m. valid_config (cm_config m)"
  by unfold_locales (rule cfg_step_valid)

text \<open>C4. The configuration handed to the rest of the firmware is valid at every moment: after any
  sequence of starts, loads of arbitrary (missing, corrupt, hostile) files, updates with arbitrary
  mutators and resets, under any operating-system failures.\<close>

theorem config_always_valid:
  "valid_config (get (foldl cfg_step (cfgman_new path f) cs))"
  using cfg_run.run_inv [of "cfgman_new path f" cs] by (simp add: get_def cfgman_new_def)

text \<open>Behaviour of \<open>update\<close> on every branch: an invalid candidate changes neither memory nor any
  file; a failed write reports the error, keeps the old value in memory and the old bytes in
  \<open>config.json\<close>; a success installs the candidate, writes exactly its JSON, keeps the previous file
  as the backup and publishes one \<open>ConfigChanged\<close>.\<close>

theorem update_all_or_nothing:
  "case update J env m f of (m', s, evs) \<Rightarrow>
     (if \<not> valid_config (f (get m)) then m' = m \<and> st_code s = Ec_ConfigValidationFailed \<and> evs = []
      else if \<not> st_ok s then
        get m' = get m \<and> cm_fs m' (cm_path m) = cm_fs m (cm_path m) \<and> st_code s = Ec_ConfigWriteFailed \<and> evs = []
      else get m' = f (get m) \<and> evs = [config_changed_event] \<and>
        cm_fs m' (cm_path m) = Some (jl_dump2 J (config_to_json (f (get m)))) \<and>
        cm_fs m' (bak_path m) =
          (if ce_copy env \<and> cm_fs m (cm_path m) \<noteq> None then cm_fs m (cm_path m) else cm_fs m (bak_path m)))"
proof -
  obtain m' s evs where u: "update J env m f = (m', s, evs)" by (metis prod_cases3)
  have code: "st_code w = Ec_ConfigWriteFailed"
    if p: "persist J env m (f (cm_config m)) = (m1, w)" "valid_config (f (cm_config m))" "\<not> st_ok w" for m1 w
    using that atomicWriteFile_final(4)
    by (auto simp: persist_def Let_def valid_config_def split: prod.splits)
  have inv_code: "\<not> valid_config (f (cm_config m)) \<Longrightarrow> st_code s = Ec_ConfigValidationFailed"
    using u validate_error_code [of "f (cm_config m)"]
    by (auto simp: update_def Let_def valid_config_def split: if_splits)
  from update_cases [OF u] show ?thesis
    unfolding u prod.case
    by (auto simp: get_def inv_code code dest: persist_error persist_frame persist_ok)
qed

section \<open>Corruption recovery\<close>

text \<open>Recovery on load: when \<open>config.json\<close> exists but does not parse to a valid configuration,
  the manager takes the backup if that one is valid (reporting success), and otherwise the
  defaults, with the error \<open>ConfigCorrupt\<close>; in both cases it publishes \<open>ConfigInvalid\<close> once and,
  when the rename succeeds, keeps the corrupt bytes in the \<open>.corrupt\<close> file.\<close>

theorem load_recovers:
  assumes "cm_fs m (cm_path m) = Some bytes"
    and "\<forall>c. tryParse J env (cm_fs m) (cm_path m) \<noteq> Inr c"
  shows "(case load J env m of (m', s, evs) \<Rightarrow>
     evs = [config_invalid_event] \<and>
     (ce_rename env \<longrightarrow> cm_fs m' (corrupt_path m) = Some bytes) \<and>
     (case tryParse J env (cm_fs m) (bak_path m) of
        Inr c \<Rightarrow> get m' = c \<and> s = success
      | Inl _ \<Rightarrow> get m' = defaults \<and> st_code s = Ec_ConfigCorrupt))"
proof -
  have nobak: "\<exists>e. tryParse J env (cm_fs m) (bak_path m) = Inl e" if "cm_fs m (bak_path m) = None"
    using that by (simp add: tryParse_def)
  have prim: "\<exists>e. tryParse J env (cm_fs m) (cm_path m) = Inl e"
    using assms(2) by (cases "tryParse J env (cm_fs m) (cm_path m)") auto
  have keep: "cm_fs m' (corrupt_path m) = Some bytes"
    if "ce_rename env" and p: "persist J env (rename_corrupt env m) c = (m', w)" for c m' w
  proof -
    let ?m = "rename_corrupt env m"
    have m: "cm_path ?m = cm_path m" "cm_fs ?m (corrupt_path m) = Some bytes" "cm_fs ?m (cm_path m) = None"
      using that(1) assms(1) by (simp_all add: rename_corrupt_def)
    obtain tr w' where aw: "atomicWriteFile (ce_write env) (cm_fs (backup_copy env ?m)) (cm_path m)
        (jl_dump2 J (config_to_json c)) = (tr, w')" by (metis surj_pair)
    have b: "backup_copy env ?m = ?m" using m by (simp add: backup_copy_def)
    have "cm_fs m' = cm_fs ?m \<or> cm_fs m' = last tr"
      using p aw m b by (auto simp: persist_def Let_def split: if_splits)
    moreover have "last tr (corrupt_path m) = Some bytes"
      using atomicWriteFile_final [OF aw] m b by (cases "st_ok w'") auto
    ultimately show ?thesis using m by auto
  qed
  show ?thesis
  proof (cases "tryParse J env (cm_fs m) (bak_path m)")
    case (Inl e)
    with assms(1) prim keep show ?thesis
      by (auto simp: load_def get_def split: prod.splits sum.splits)
  next
    case (Inr c)
    with nobak have "cm_fs m (bak_path m) \<noteq> None" by auto
    with Inr assms(1) prim keep show ?thesis
      by (auto simp: load_def get_def split: prod.splits sum.splits)
  qed
qed

theorem load_recovers_witness:
  "case load (demo_lib ''good'' (config_to_json defaults)) cfg_env_fine
      (cfgman_new ''c'' [''c'' \<mapsto> ''torn'', ''c.bak'' \<mapsto> ''good'']) of (m', s, evs) \<Rightarrow>
     get m' = defaults \<and> s = success \<and> evs = [config_invalid_event] \<and> cm_fs m' ''c.corrupt'' = Some ''torn''"
proof -
  let ?J = "demo_lib ''good'' (config_to_json defaults)"
  let ?m = "cfgman_new ''c'' [''c'' \<mapsto> ''torn'', ''c.bak'' \<mapsto> ''good'']"
  have dec: "config_from_json ?J (config_to_json defaults) = Some defaults"
    by (subst config_roundtrip) simp_all
  have p: "\<forall>c. tryParse ?J cfg_env_fine (cm_fs ?m) (cm_path ?m) \<noteq> Inr c"
    by (simp add: tryParse_def cfgman_new_def cfg_env_fine_def)
  have b: "tryParse ?J cfg_env_fine (cm_fs ?m) (bak_path ?m) = Inr defaults"
    using dec valid_defaults by (simp add: tryParse_def cfgman_new_def cfg_env_fine_def valid_config_def)
  show ?thesis
    using load_recovers [OF _ p, of "''torn''"] b
    by (simp add: cfgman_new_def cfg_env_fine_def split: prod.splits)
qed

section \<open>Reloading what was written\<close>

text \<open>Persistence round trip: after a successful update, loading the file again yields the updated
  configuration except for the display name of the device, which is lost; it does so whenever the
  JSON library reads back the document it printed.\<close>

theorem update_then_load:
  assumes "getters_exact J"
    and "jl_parse J (jl_dump2 J (config_to_json (f (get m)))) = Some (config_to_json (f (get m)))"
    and "ce_readable env' (cm_path m)"
    and "delay_ms (audio (f (get m))) < 2 ^ 31"
    and "update J env m f = (m', s, evs)" and "st_ok s"
  shows "load J env' m' = (m'\<lparr>cm_config := forget_name (f (get m))\<rparr>, success, [])"
proof -
  have v: "valid_config (f (get m))" using cfg.upd_ok [OF assms(5,6)] by simp
  have path: "cm_path m' = cm_path m"
    using update_cases [OF assms(5)] assms(6) by (auto dest: persist_frame)
  have disk: "cm_fs m' (cm_path m) = Some (jl_dump2 J (config_to_json (f (get m))))"
    using update_cases [OF assms(5)] assms(6) by (auto simp: get_def dest: persist_ok)
  have "config_from_json J (config_to_json (f (get m))) = Some (forget_name (f (get m)))"
    by (rule config_roundtrip [OF assms(1) v assms(4)])
  then have "tryParse J env' (cm_fs m') (cm_path m') = Inr (forget_name (f (get m)))"
    using disk path assms(2,3) v by (simp add: tryParse_def Let_def validate_ok_iff)
  with disk path show ?thesis by (simp add: load_def)
qed

theorem update_then_load_witness:
  "cm_config (fst (load (demo_lib ''txt'' (config_to_json (defaults\<lparr>device := (device defaults)\<lparr>dev_name := ''Kitchen''\<rparr>\<rparr>)))
      cfg_env_fine
      (fst (update (demo_lib ''txt'' (config_to_json (defaults\<lparr>device := (device defaults)\<lparr>dev_name := ''Kitchen''\<rparr>\<rparr>)))
         cfg_env_fine (cfgman_new ''c'' Map.empty) (\<lambda>c. c\<lparr>device := (device c)\<lparr>dev_name := ''Kitchen''\<rparr>\<rparr>)))))
   = defaults"
proof -
  let ?c = "defaults\<lparr>device := (device defaults)\<lparr>dev_name := ''Kitchen''\<rparr>\<rparr>"
  let ?J = "demo_lib ''txt'' (config_to_json ?c)"
  let ?f = "\<lambda>c. c\<lparr>device := (device c)\<lparr>dev_name := ''Kitchen''\<rparr>\<rparr>"
  let ?m = "cfgman_new ''c'' Map.empty"
  obtain m' s evs where u: "update ?J cfg_env_fine ?m ?f = (m', s, evs)" by (rule prod_cases3)
  have g: "?f (get ?m) = ?c" by (simp add: get_def cfgman_new_def)
  have "valid_config ?c" by (simp add: valid_config_iff default_defs)
  then have ok: "st_ok s"
    using u persist_fine [of ?c cfg_env_fine ?J ?m] g update_cases [OF u]
    by (auto simp: cfg_env_fine_def get_def)
  have "load ?J cfg_env_fine m' = (m'\<lparr>cm_config := forget_name (?f (get ?m))\<rparr>, success, [])"
    by (rule update_then_load [OF _ _ _ _ u ok]) (simp_all add: g cfg_env_fine_def default_defs)
  then show ?thesis using u by (simp add: g forget_name_def default_defs)
qed

end
