(* ===== verification/Command.thy ===== *)
theory Command
  imports Config
begin

text \<open>
  Commands of the Streamer and their results (\<open>src/src/control/Command.h\<close>, \<open>Command.cpp\<close>), the
  canonical string a signature covers, and the validator (\<open>CommandValidator.cpp\<close>). The
  cryptographic primitives (\<open>identity/Crypto\<close>) are not in the repository; they are the fields of
  a \<open>crypto_lib\<close> record.
\<close>

section \<open>Data\<close>

record command =
  command_id :: string
  target_id :: string
  command_name :: string
  payload :: json
  expires_at :: int
  timestamp :: int
  signature_b64 :: string

record command_result =
  cr_command_id :: string
  cr_ok :: bool
  cr_message :: string
  cr_error_code :: int
  cr_data :: json

record crypto_lib =
  cl_toBase64 :: "string \<Rightarrow> string"
  cl_verifyEd25519 :: "string \<Rightarrow> string \<Rightarrow> string \<Rightarrow> bool"
  cl_sha256Hex :: "string \<Rightarrow> string"

definition result_blank :: command_result where
  "result_blank = \<lparr>cr_command_id = [], cr_ok = False, cr_message = [], cr_error_code = 0, cr_data = JObj []\<rparr>"

section \<open>Wire format\<close>

definition canonicalString :: "json_lib \<Rightarrow> command \<Rightarrow> string" where
  "canonicalString J c =
     command_id c @ nl # target_id c @ nl # command_name c @ nl # jl_dump J (payload c) @ nl #
     show_int (expires_at c) @ nl # show_int (timestamp c)"

definition fromJson :: "json_lib \<Rightarrow> json \<Rightarrow> command option" where
  "fromJson J j = do {
     cid \<leftarrow> j_value (jl_get_string J) j ''command_id'' [];
     tid \<leftarrow> j_value (jl_get_string J) j ''target_id'' [];
     cmd \<leftarrow> j_value (jl_get_string J) j ''command'' [];
     let p = (case j_find j ''payload'' of Some v \<Rightarrow> if is_object v then v else JObj [] | None \<Rightarrow> JObj []);
     ex \<leftarrow> j_value (jl_get_int64 J) j ''expires_at'' 0;
     ts \<leftarrow> j_value (jl_get_int64 J) j ''timestamp'' 0;
     sig \<leftarrow> j_value (jl_get_string J) j ''signature'' [];
     Some \<lparr>command_id = cid, target_id = tid, command_name = cmd, payload = p,
           expires_at = ex, timestamp = ts, signature_b64 = sig\<rparr>
   }"

definition toJson :: "command \<Rightarrow> json" where
  "toJson c = JObj
     [(''type'', JStr ''command''), (''command_id'', JStr (command_id c)), (''target_id'', JStr (target_id c)),
      (''command'', JStr (command_name c)), (''payload'', payload c), (''expires_at'', JInt (expires_at c)),
      (''timestamp'', JInt (timestamp c)), (''signature'', JStr (signature_b64 c))]"

definition result_toJson :: "command_result \<Rightarrow> json" where
  "result_toJson r = JObj
     [(''type'', JStr ''command_result''), (''command_id'', JStr (cr_command_id r)), (''ok'', JBool (cr_ok r)),
      (''message'', JStr (cr_message r)), (''error_code'', JInt (cr_error_code r)), (''data'', cr_data r)]"

section \<open>Validation\<close>

definition validate_command :: "json_lib \<Rightarrow> crypto_lib \<Rightarrow> command \<Rightarrow> string \<Rightarrow> string \<Rightarrow> int \<Rightarrow> status" where
  "validate_command J cl c dev streamer_key now =
     (if command_id c = [] then mk_error Ec_InvalidArg ''command missing command_id''
      else if command_name c = [] then mk_error Ec_InvalidArg ''command missing command name''
      else if target_id c \<noteq> [] \<and> target_id c \<noteq> dev then
        mk_error Ec_PermissionDenied ''command target mismatch''
      else if expires_at c \<noteq> 0 \<and> now > expires_at c then mk_error Ec_Timeout ''command expired''
      else if streamer_key = [] then mk_error Ec_PermissionDenied ''device not paired to a streamer''
      else if signature_b64 c = [] then mk_error Ec_PermissionDenied ''command not signed''
      else if \<not> cl_verifyEd25519 cl (cl_toBase64 cl (canonicalString J c)) (signature_b64 c) streamer_key then
        mk_error Ec_CryptoError ''command signature invalid''
      else success)"

lemma validate_command_ok_iff:
  "st_ok (validate_command J cl c dev key now) \<longleftrightarrow>
     command_id c \<noteq> [] \<and> command_name c \<noteq> [] \<and> (target_id c = [] \<or> target_id c = dev) \<and>
     (expires_at c = 0 \<or> now \<le> expires_at c) \<and> key \<noteq> [] \<and> signature_b64 c \<noteq> [] \<and>
     cl_verifyEd25519 cl (cl_toBase64 cl (canonicalString J c)) (signature_b64 c) key"
  by (auto simp: validate_command_def)

section \<open>What a signature binds\<close>

lemma canonical_join:
  "canonicalString J c = join_nl [command_id c, target_id c, command_name c, jl_dump J (payload c),
     show_int (expires_at c), show_int (timestamp c)]"
  by (simp add: canonicalString_def)

text \<open>C16. The signature of a command is not transferable: if a signed command has no newline in its
  identifier, target and name (and its compact JSON payload is on one line), then every command
  with the same canonical string, however its fields are chosen, agrees with it on the identifier,
  the target, the name, the printed payload, the expiry and the timestamp.\<close>

theorem canonical_string_binds:
  assumes "nl \<notin> set (command_id c)" "nl \<notin> set (target_id c)" "nl \<notin> set (command_name c)"
    and "nl \<notin> set (jl_dump J (payload c))"
    and "canonicalString J c = canonicalString J c'"
  shows "command_id c' = command_id c \<and> target_id c' = target_id c \<and> command_name c' = command_name c \<and>
    jl_dump J (payload c') = jl_dump J (payload c) \<and> expires_at c' = expires_at c \<and> timestamp c' = timestamp c"
proof -
  have "[command_id c, target_id c, command_name c, jl_dump J (payload c), show_int (expires_at c), show_int (timestamp c)]
      = [command_id c', target_id c', command_name c', jl_dump J (payload c'), show_int (expires_at c'), show_int (timestamp c')]"
    using assms by (intro join_nl_inj) (auto simp: canonical_join)
  then show ?thesis by (simp add: show_int_inj)
qed

definition demo_command :: command where
  "demo_command = \<lparr>command_id = ''c1'', target_id = ''SPK'', command_name = ''SET_VOLUME'',
     payload = JObj [(''volume'', JInt 40)], expires_at = 0, timestamp = 5, signature_b64 = ''sig''\<rparr>"

theorem canonical_string_binds_witness:
  "expires_at (demo_command\<lparr>signature_b64 := ''other''\<rparr>) = expires_at demo_command"
  using canonical_string_binds [of demo_command "demo_lib [] JNull" "demo_command\<lparr>signature_b64 := ''other''\<rparr>"]
  by (simp add: demo_command_def nl_def canonicalString_def)

text \<open>Wire round trip: a command with an object payload and 64-bit times is read back from its own
  JSON unchanged.\<close>

theorem command_json_roundtrip:
  assumes "getters_exact J" "is_object (payload c)"
    and "- (2 ^ 63) \<le> expires_at c" "expires_at c < 2 ^ 63" "- (2 ^ 63) \<le> timestamp c" "timestamp c < 2 ^ 63"
  shows "fromJson J (toJson c) = Some c"
  using assms by (cases c) (simp add: fromJson_def toJson_def)

theorem command_json_roundtrip_witness:
  "fromJson (demo_lib [] JNull) (toJson demo_command) = Some demo_command"
  by (rule command_json_roundtrip) (simp_all add: demo_command_def)

end
