(* ===== verification/Command_History.thy ===== *)
theory Command_History
  imports Command
begin

text \<open>
  The bounded history of executed commands (\<open>src/src/control/CommandHistory.cpp\<close>) and the locale
  \<open>result_cache\<close>, the contract the router's idempotency rests on. The deque of identifiers is a
  list, the hash map a map. With capacity 0 the source would read the front of an empty deque; the
  model then leaves the state alone, and every statement assumes a positive capacity (the program
  uses 200).
\<close>

section \<open>The contract\<close>

locale result_cache =
  fixes inv :: "'h \<Rightarrow> bool"
    and look :: "'h \<Rightarrow> 'k \<Rightarrow> 'r option"
    and store :: "'h \<Rightarrow> 'k \<Rightarrow> 'r \<Rightarrow> 'h"
  assumes store_inv: "inv h \<Longrightarrow> inv (store h k r)"
    and look_store: "inv h \<Longrightarrow> look (store h k r) k = Some r"
    and look_old: "inv h \<Longrightarrow> k' \<noteq> k \<Longrightarrow> look (store h k r) k' = Some r' \<Longrightarrow> look h k' = Some r'"
begin

text \<open>Whatever is found was stored: a cache never invents a result.\<close>

lemma look_run:
  "\<lbrakk>inv h; look (foldl (\<lambda>h (k, r). store h k r) h krs) k = Some r\<rbrakk>
    \<Longrightarrow> look h k = Some r \<or> (k, r) \<in> set krs"
proof (induction krs arbitrary: h)
  case (Cons kr krs)
  obtain k0 r0 where kr: "kr = (k0, r0)" by force
  from Cons.IH [of "store h k0 r0"] Cons.prems kr store_inv
  have "look (store h k0 r0) k = Some r \<or> (k, r) \<in> set krs" by simp
  then show ?case
    using look_store [OF Cons.prems(1), of k0 r0] look_old [OF Cons.prems(1), of k k0 r0 r] kr
    by (cases "k = k0") auto
qed simp

end

section \<open>The implementation\<close>

record history =
  capacity :: nat
  order :: "string list"
  results :: "string \<rightharpoonup> command_result"

definition history_new :: "nat \<Rightarrow> history" where
  "history_new n = \<lparr>capacity = n, order = [], results = Map.empty\<rparr>"

definition seen :: "history \<Rightarrow> string \<Rightarrow> bool" where
  "seen h cid \<longleftrightarrow> results h cid \<noteq> None"

definition evict :: "history \<Rightarrow> history" where
  "evict h =
     (if length (order h) \<ge> capacity h then
        (case order h of
           [] \<Rightarrow> h
         | oldest # rest \<Rightarrow> h\<lparr>results := (results h)(oldest := None), order := rest\<rparr>)
      else h)"

definition record_result :: "history \<Rightarrow> string \<Rightarrow> command_result \<Rightarrow> history" where
  "record_result h cid r =
     (if results h cid \<noteq> None then h\<lparr>results := (results h)(cid \<mapsto> r)\<rparr>
      else
        let h1 = evict h in
        h1\<lparr>order := order h1 @ [cid], results := (results h1)(cid \<mapsto> r)\<rparr>)"

definition tryGet :: "history \<Rightarrow> string \<Rightarrow> command_result option" where
  "tryGet h cid = results h cid"

definition history_size :: "history \<Rightarrow> nat" where
  "history_size h = length (order h)"

section \<open>Invariant\<close>

definition history_inv :: "history \<Rightarrow> bool" where
  "history_inv h \<longleftrightarrow> 0 < capacity h \<and> distinct (order h) \<and> dom (results h) = set (order h) \<and>
     length (order h) \<le> capacity h"

lemma history_inv_new: "0 < n \<Longrightarrow> history_inv (history_new n)"
  by (simp add: history_inv_def history_new_def)

lemma evict_props:
  assumes "history_inv h"
  shows "capacity (evict h) = capacity h" "distinct (order (evict h))"
    "dom (results (evict h)) = set (order (evict h))" "length (order (evict h)) < capacity h"
    "set (order (evict h)) \<subseteq> set (order h)"
    "\<And>k. k \<in> set (order (evict h)) \<Longrightarrow> results (evict h) k = results h k"
  using assms by (auto simp: evict_def history_inv_def split: list.splits)

lemma record_result_inv:
  assumes "history_inv h"
  shows "history_inv (record_result h cid r)"
proof (cases "results h cid = None")
  case True
  with assms have "cid \<notin> set (order h)" by (auto simp: history_inv_def)
  with evict_props [OF assms] have "cid \<notin> set (order (evict h))" by blast
  with evict_props [OF assms] assms True show ?thesis
    by (auto simp: record_result_def history_inv_def Let_def)
next
  case False
  with assms show ?thesis by (auto simp: record_result_def history_inv_def)
qed

lemma evict_old: "results (evict h) k = Some r \<Longrightarrow> results h k = Some r"
  by (auto simp: evict_def split: if_splits list.splits)

interpretation hist: result_cache history_inv tryGet record_result
proof
  fix h k r k' r'
  assume inv: "history_inv h"
  show "history_inv (record_result h k r)" by (rule record_result_inv [OF inv])
  show "tryGet (record_result h k r) k = Some r"
    by (simp add: tryGet_def record_result_def Let_def)
  show "k' \<noteq> k \<Longrightarrow> tryGet (record_result h k r) k' = Some r' \<Longrightarrow> tryGet h k' = Some r'"
    using evict_old [of h k' r'] by (auto simp: tryGet_def record_result_def Let_def split: if_splits)
qed

section \<open>Retention\<close>

text \<open>How many newer identifiers stand behind one in the eviction order.\<close>

definition newer :: "history \<Rightarrow> string \<Rightarrow> nat" where
  "newer h k = length (takeWhile (\<lambda>x. x \<noteq> k) (rev (order h)))"

lemma newer_hd: "distinct (k # xs) \<Longrightarrow> takeWhile (\<lambda>y. y \<noteq> k) (rev (k # xs)) = rev xs"
  by (simp, subst takeWhile_append2) auto

lemma evict_keeps:
  assumes "history_inv h" "results h k = Some r" "newer h k + 1 < capacity h"
  shows "results (evict h) k = Some r \<and> newer (evict h) k = newer h k"
proof (cases "order h")
  case Nil
  then show ?thesis using assms by (auto simp: history_inv_def)
next
  case (Cons x xs)
  have k: "k \<in> set (order h)" using assms by (auto simp: history_inv_def)
  show ?thesis
  proof (cases "length (order h) \<ge> capacity h")
    case True
    have "k \<noteq> x"
    proof
      assume "k = x"
      with assms Cons have "newer h k = length xs"
        using newer_hd [of k xs] by (auto simp: newer_def history_inv_def)
      with True assms Cons show False by simp
    qed
    with k Cons True assms show ?thesis
      by (simp add: evict_def newer_def takeWhile_append1)
  next
    case False
    with assms show ?thesis by (simp add: evict_def newer_def)
  qed
qed

lemma record_keeps:
  assumes "history_inv h" "results h k = Some r" "k' \<noteq> k" "newer h k + 1 < capacity h"
  shows "results (record_result h k' r') k = Some r \<and> newer (record_result h k' r') k \<le> newer h k + 1"
proof (cases "results h k' = None")
  case True
  with evict_keeps [OF assms(1,2,4)] assms(3) show ?thesis
    by (simp add: record_result_def Let_def newer_def)
next
  case False
  with assms show ?thesis by (simp add: record_result_def newer_def)
qed

lemma record_capacity [simp]: "capacity (record_result h k r) = capacity h"
  by (auto simp: record_result_def evict_def Let_def split: list.splits)

lemma run_keeps:
  "\<lbrakk>history_inv h; results h k = Some r; k \<notin> fst ` set krs; newer h k + length krs < capacity h\<rbrakk>
    \<Longrightarrow> results (foldl (\<lambda>h (k, r). record_result h k r) h krs) k = Some r"
proof (induction krs arbitrary: h)
  case (Cons kr krs)
  obtain k' r' where kr: "kr = (k', r')" by force
  from Cons.prems kr have "results (record_result h k' r') k = Some r \<and> newer (record_result h k' r') k \<le> newer h k + 1"
    by (intro record_keeps) auto
  with Cons kr record_result_inv show ?case by simp
qed simp

lemma newer_fresh: "history_inv h \<Longrightarrow> results h k = None \<Longrightarrow> newer (record_result h k r) k = 0"
  by (simp add: record_result_def Let_def newer_def)

text \<open>The history is a bounded cache that never forgets early: after any recordings its size stays
  within the capacity, and the result of a newly recorded command is returned unchanged after
  fewer than \<open>capacity\<close> further recordings of other commands.\<close>

theorem history_retention:
  assumes "history_inv h" and "tryGet h k = None" and "k \<notin> fst ` set krs" and "length krs < capacity h"
  shows "tryGet (foldl (\<lambda>h (k, r). record_result h k r) (record_result h k r) krs) k = Some r \<and>
    history_size (foldl (\<lambda>h (k, r). record_result h k r) (record_result h k r) krs) \<le> capacity h"
proof -
  have cap: "capacity (foldl (\<lambda>h (k, r). record_result h k r) g krs) = capacity g \<and>
      (history_inv g \<longrightarrow> history_inv (foldl (\<lambda>h (k, r). record_result h k r) g krs))" for g
    by (induction krs arbitrary: g) (auto simp: record_result_inv split: prod.splits)
  have "results (record_result h k r) k = Some r"
    using hist.look_store [OF assms(1)] by (simp add: tryGet_def)
  then have "tryGet (foldl (\<lambda>h (k, r). record_result h k r) (record_result h k r) krs) k = Some r"
    using run_keeps [OF record_result_inv [OF assms(1)], of k r k r krs] assms newer_fresh [OF assms(1)]
    by (simp add: tryGet_def)
  moreover have "history_inv (foldl (\<lambda>h (k, r). record_result h k r) (record_result h k r) krs)"
    using cap record_result_inv [OF assms(1)] by blast
  ultimately show ?thesis using cap [of "record_result h k r"] by (simp add: history_inv_def history_size_def)
qed

theorem history_retention_witness:
  "tryGet (foldl (\<lambda>h (k, r). record_result h k r)
      (record_result (history_new 2) ''a'' (result_blank\<lparr>cr_message := ''m''\<rparr>)) [(''b'', result_blank)]) ''a''
    = Some (result_blank\<lparr>cr_message := ''m''\<rparr>)"
  using history_retention [of "history_new 2" "''a''" "[(''b'', result_blank)]" "result_blank\<lparr>cr_message := ''m''\<rparr>"]
  by (simp add: history_inv_new tryGet_def) (simp add: history_new_def)

end
