(* ===== verification/Command_Executor.thy ===== *)
theory Command_Executor
  imports Command_History Config_Manager
begin

text \<open>
  Execution of a validated command (\<open>src/src/control/CommandExecutor.cpp\<close>) and the link telemetry it
  records (\<open>LinkState.h\<close>). The state is the configuration manager and the link snapshot. The result
  is None when an exception of the JSON library leaves \<open>execute\<close>; the events published up to that
  point are returned in either case. The bus, configuration and link pointers are those of
  \<open>CommandServer\<close>, which are never null; the telemetry provider and the measurement runner are
  optional arguments.
\<close>

section \<open>Link telemetry\<close>

record link_snapshot =
  lk_valid :: bool
  lk_dbm :: int
  lk_streamer :: string
  lk_reported_at :: int

definition link_new :: link_snapshot where
  "link_new = \<lparr>lk_valid = False, lk_dbm = 0, lk_streamer = [], lk_reported_at = 0\<rparr>"

definition link_report :: "link_snapshot \<Rightarrow> int \<Rightarrow> string \<Rightarrow> int \<Rightarrow> link_snapshot" where
  "link_report l dbm sid now =
     l\<lparr>lk_valid := True, lk_dbm := dbm, lk_streamer := sid, lk_reported_at := now\<rparr>"

section \<open>The executor\<close>

record exec_env =
  xe_json :: json_lib
  xe_cfg :: cfg_env
  xe_now :: int
  xe_telemetry :: "json option"
  xe_measure :: "(json \<Rightarrow> json) option"

record exec_state =
  ex_config :: cfgman
  ex_link :: link_snapshot

type_synonym exec_out = "exec_state \<times> event list \<times> command_result option"

definition ok_result :: "command \<Rightarrow> json \<Rightarrow> command_result" where
  "ok_result c d = result_blank\<lparr>cr_command_id := command_id c, cr_ok := True, cr_message := ''ok'', cr_data := d\<rparr>"

definition fail_result :: "command \<Rightarrow> error_code \<Rightarrow> string \<Rightarrow> command_result" where
  "fail_result c code msg =
     result_blank\<lparr>cr_command_id := command_id c, cr_message := msg, cr_error_code := toInt code\<rparr>"

definition received_event :: "command \<Rightarrow> event" where
  "received_event c = mk_event_data Ev_CommandReceived ''control'' [(''command'', JStr (command_name c))]"

definition executed_event :: "command \<Rightarrow> (string \<times> json) list \<Rightarrow> event" where
  "executed_event c extra =
     (mk_event_data Ev_CommandExecuted ''control'' ((''command'', JStr (command_name c)) # extra))
       \<lparr>ev_command_id := command_id c\<rparr>"

definition status_json :: "exec_env \<Rightarrow> exec_state \<Rightarrow> json" where
  "status_json x s =
     (let cfg = get (ex_config s); link = ex_link s in
      JObj ([(''volume'', JInt (volume (audio cfg))), (''muted'', JBool (muted (audio cfg))),
             (''delay_ms'', JInt (delay_ms (audio cfg))), (''eq_profile'', JStr (eq_profile (audio cfg))),
             (''gain_db'', JReal (gain_db (audio cfg))), (''phase_invert'', JBool (phase_invert (audio cfg))),
             (''paired'', JBool (paired (pairing cfg)))]
        @ (case xe_telemetry x of
             Some (JObj t) \<Rightarrow> if t = [] then [] else [(''telemetry'', JObj t)]
           | _ \<Rightarrow> [])
        @ (if lk_valid link then
             [(''wifi_signal_dbm'', JInt (lk_dbm link))] @
             (if xe_now x > 0 \<and> lk_reported_at link > 0
              then [(''link_age_s'', JInt (xe_now x - lk_reported_at link))] else [])
           else [])))"

text \<open>The shared tail of the \<open>SET_*\<close> branches: update the configuration, then report.\<close>

definition apply_setting ::
  "exec_env \<Rightarrow> exec_state \<Rightarrow> command \<Rightarrow> (speaker_config \<Rightarrow> speaker_config) \<Rightarrow> (string \<times> json) list \<Rightarrow> exec_out" where
  "apply_setting x s c f report =
     (case update (xe_json x) (xe_cfg x) (ex_config s) f of (m, st, evs) \<Rightarrow>
        let s' = s\<lparr>ex_config := m\<rparr> in
        if \<not> st_ok st then (s', received_event c # evs, Some (fail_result c (st_code st) (st_message st)))
        else (s', received_event c # evs @ [executed_event c report], Some (ok_result c (JObj report))))"

definition refuse :: "exec_state \<Rightarrow> command \<Rightarrow> error_code \<Rightarrow> string \<Rightarrow> exec_out" where
  "refuse s c code msg = (s, [received_event c], Some (fail_result c code msg))"

definition throw :: "exec_state \<Rightarrow> command \<Rightarrow> exec_out" where
  "throw s c = (s, [received_event c], None)"

definition clamp_gain :: "real \<Rightarrow> real" where
  "clamp_gain g = (let g1 = (if g > 20 then 20 else g) in if g1 < -20 then -20 else g1)"

definition set_volume :: "int \<Rightarrow> speaker_config \<Rightarrow> speaker_config" where
  "set_volume v c = c\<lparr>audio := (audio c)\<lparr>volume := v\<rparr>\<rparr>"

definition set_muted :: "bool \<Rightarrow> speaker_config \<Rightarrow> speaker_config" where
  "set_muted b c = c\<lparr>audio := (audio c)\<lparr>muted := b\<rparr>\<rparr>"

definition set_delay :: "int \<Rightarrow> speaker_config \<Rightarrow> speaker_config" where
  "set_delay d c = c\<lparr>audio := (audio c)\<lparr>delay_ms := d\<rparr>\<rparr>"

definition set_eq :: "string \<Rightarrow> speaker_config \<Rightarrow> speaker_config" where
  "set_eq p c = c\<lparr>audio := (audio c)\<lparr>eq_profile := p\<rparr>\<rparr>"

definition set_gain :: "real \<Rightarrow> speaker_config \<Rightarrow> speaker_config" where
  "set_gain g c = c\<lparr>audio := (audio c)\<lparr>gain_db := g\<rparr>\<rparr>"

definition set_phase :: "bool \<Rightarrow> speaker_config \<Rightarrow> speaker_config" where
  "set_phase b c = c\<lparr>audio := (audio c)\<lparr>phase_invert := b\<rparr>\<rparr>"

lemmas setter_defs = set_volume_def set_muted_def set_delay_def set_eq_def set_gain_def set_phase_def

text \<open>\<open>c.payload.contains(k) && c.payload[k].is_...()\<close> followed by \<open>get<T>()\<close>.\<close>

definition arg :: "(json \<Rightarrow> bool) \<Rightarrow> command \<Rightarrow> string \<Rightarrow> json option" where
  "arg kind c k = (case j_find (payload c) k of Some v \<Rightarrow> if kind v then Some v else None | None \<Rightarrow> None)"

definition with_arg :: "'a option \<Rightarrow> exec_state \<Rightarrow> command \<Rightarrow> ('a \<Rightarrow> exec_out) \<Rightarrow> exec_out" where
  "with_arg v s c k = (case v of Some a \<Rightarrow> k a | None \<Rightarrow> throw s c)"

definition deferred_commands :: "string list" where
  "deferred_commands = [''START_AUDIO'', ''STOP_AUDIO'', ''PAUSE_AUDIO'', ''RESUME_AUDIO'',
     ''RUN_CALIBRATION'', ''RUN_SELF_TEST'', ''RUN_AUDIO_TEST'', ''UPDATE_SOFTWARE'']"

definition lifecycle_commands :: "string list" where
  "lifecycle_commands = [''REBOOT'', ''RESET_NETWORK'', ''FACTORY_RESET'']"

definition exec_report_link :: "exec_env \<Rightarrow> exec_state \<Rightarrow> command \<Rightarrow> exec_out" where
  "exec_report_link x s c =
     (let J = xe_json x in
      case arg is_number_integer c ''wifi_signal_dbm'' of
        Some v \<Rightarrow>
          with_arg (jl_get_int J v) s c (\<lambda>dbm.
            with_arg (j_value (jl_get_string J) (payload c) ''streamer_id'' []) s c (\<lambda>sid.
              (s\<lparr>ex_link := link_report (ex_link s) dbm sid (xe_now x)\<rparr>, [received_event c],
               Some (ok_result c (JObj [(''recorded'', JBool True), (''wifi_signal_dbm'', JInt dbm)])))))
      | None \<Rightarrow> (s, [received_event c], Some (ok_result c (JObj [(''recorded'', JBool False)]))))"

definition execute :: "exec_env \<Rightarrow> exec_state \<Rightarrow> command \<Rightarrow> exec_out" where
  "execute x s c =
     (let cmd = command_name c; J = xe_json x in
      if cmd = ''GET_STATUS'' then
        (s, [received_event c], Some (ok_result c (status_json x s)))
      else if cmd = ''SET_VOLUME'' then
        (case arg is_number_integer c ''volume'' of
           None \<Rightarrow> refuse s c Ec_InvalidArg (''SET_VOLUME requires integer '' @ quoted ''volume'')
         | Some v \<Rightarrow> with_arg (jl_get_int J v) s c (\<lambda>vol.
             apply_setting x s c (set_volume vol) [(''volume'', JInt vol)]))
      else if cmd = ''SET_MUTE'' then
        (case arg is_boolean c ''muted'' of
           None \<Rightarrow> refuse s c Ec_InvalidArg (''SET_MUTE requires boolean '' @ quoted ''muted'')
         | Some v \<Rightarrow> with_arg (jl_get_bool J v) s c (\<lambda>b.
             apply_setting x s c (set_muted b) [(''muted'', JBool b)]))
      else if cmd = ''SET_DELAY'' then
        (case arg is_number_integer c ''delay_ms'' of
           None \<Rightarrow> refuse s c Ec_InvalidArg (''SET_DELAY requires integer '' @ quoted ''delay_ms'')
         | Some v \<Rightarrow> with_arg (jl_get_int J v) s c (\<lambda>d.
             apply_setting x s c (set_delay d) [(''delay_ms'', JInt d)]))
      else if cmd = ''SET_EQ'' then
        with_arg (j_value (jl_get_string J) (payload c) ''eq_profile'' ''default'') s c (\<lambda>p.
          apply_setting x s c (set_eq p) [(''eq_profile'', JStr p)])
      else if cmd = ''RUN_MEASUREMENT'' then
        (case xe_measure x of
           None \<Rightarrow> refuse s c Ec_NotImplemented
             ''this speaker has no measurement capability (no microphone configured)''
         | Some run \<Rightarrow>
             (s, [received_event c, executed_event c []], Some (ok_result c (run (payload c)))))
      else if cmd = ''SET_GAIN'' then
        (case arg is_number c ''gain_db'' of
           None \<Rightarrow> refuse s c Ec_InvalidArg (''SET_GAIN requires numeric '' @ quoted ''gain_db'')
         | Some v \<Rightarrow> with_arg (jl_get_double J v) s c (\<lambda>g.
             apply_setting x s c (set_gain (clamp_gain g)) [(''gain_db'', JReal (clamp_gain g))]))
      else if cmd = ''SET_PHASE_INVERT'' then
        (case arg is_boolean c ''phase_invert'' of
           None \<Rightarrow> refuse s c Ec_InvalidArg (''SET_PHASE_INVERT requires boolean '' @ quoted ''phase_invert'')
         | Some v \<Rightarrow> with_arg (jl_get_bool J v) s c (\<lambda>b.
             apply_setting x s c (set_phase b) [(''phase_invert'', JBool b)]))
      else if cmd \<in> set deferred_commands then
        (s, [received_event c, executed_event c []],
         Some (ok_result c (JObj [(''accepted'', JBool True), (''deferred'', JBool True)])))
      else if cmd \<in> set lifecycle_commands then
        (s, [received_event c, executed_event c []] @
            (if cmd = ''REBOOT'' then [mk_event Ev_ShutdownRequested ''control''] else []),
         Some (ok_result c (JObj [(''accepted'', JBool True)])))
      else if cmd = ''REPORT_LINK'' then exec_report_link x s c
      else refuse s c Ec_NotFound (''unknown command: '' @ cmd))"

section \<open>Which setting a command asks for\<close>

text \<open>The specification of the configuration side of \<open>execute\<close>: the change a well-formed \<open>SET_*\<close>
  command requests, None for every other command and for a malformed one.\<close>

definition requested_setting :: "json_lib \<Rightarrow> command \<Rightarrow> (speaker_config \<Rightarrow> speaker_config) option" where
  "requested_setting J c =
     (let cmd = command_name c in
      if cmd = ''SET_VOLUME'' then
        map_option set_volume (Option.bind (arg is_number_integer c ''volume'') (jl_get_int J))
      else if cmd = ''SET_MUTE'' then
        map_option set_muted (Option.bind (arg is_boolean c ''muted'') (jl_get_bool J))
      else if cmd = ''SET_DELAY'' then
        map_option set_delay (Option.bind (arg is_number_integer c ''delay_ms'') (jl_get_int J))
      else if cmd = ''SET_EQ'' then
        map_option set_eq (j_value (jl_get_string J) (payload c) ''eq_profile'' ''default'')
      else if cmd = ''SET_GAIN'' then
        map_option (\<lambda>g. set_gain (clamp_gain g)) (Option.bind (arg is_number c ''gain_db'') (jl_get_double J))
      else if cmd = ''SET_PHASE_INVERT'' then
        map_option set_phase (Option.bind (arg is_boolean c ''phase_invert'') (jl_get_bool J))
      else None)"

lemma apply_setting_config [simp]:
  "ex_config (fst (apply_setting x s c f r)) = fst (update (xe_json x) (xe_cfg x) (ex_config s) f)"
  by (auto simp: apply_setting_def Let_def split: prod.splits)

lemma refuse_config [simp]: "fst (refuse s c e m) = s"
  by (simp add: refuse_def)

lemma throw_config [simp]: "fst (throw s c) = s"
  by (simp add: throw_def)

lemma fst_with_arg:
  "ex_config (fst (with_arg v s c k)) = (case v of None \<Rightarrow> ex_config s | Some a \<Rightarrow> ex_config (fst (k a)))"
  by (simp add: with_arg_def split: option.splits)

lemma report_link_config [simp]: "ex_config (fst (exec_report_link x s c)) = ex_config s"
  by (auto simp: exec_report_link_def Let_def with_arg_def split: option.splits)

lemma config_of_case:
  "ex_config (fst (case v of None \<Rightarrow> a | Some u \<Rightarrow> h u)) = (case v of None \<Rightarrow> ex_config (fst a) | Some u \<Rightarrow> ex_config (fst (h u)))"
  by (cases v) simp_all

lemma config_of_if: "ex_config (fst (if b then p else q)) = (if b then ex_config (fst p) else ex_config (fst q))"
  by simp

lemma execute_config_same:
  "command_name c \<notin> {''SET_VOLUME'', ''SET_MUTE'', ''SET_DELAY'', ''SET_EQ'', ''SET_GAIN'', ''SET_PHASE_INVERT''}
    \<Longrightarrow> ex_config (fst (execute x s c)) = ex_config s"
  by (simp add: execute_def Let_def config_of_if config_of_case split: option.split)

lemma execute_config:
  "ex_config (fst (execute x s c)) =
     (case requested_setting (xe_json x) c of
        None \<Rightarrow> ex_config s
      | Some f \<Rightarrow> fst (update (xe_json x) (xe_cfg x) (ex_config s) f))"
proof -
  consider (vol) "command_name c = ''SET_VOLUME''" | (mute) "command_name c = ''SET_MUTE''"
    | (del) "command_name c = ''SET_DELAY''" | (eq) "command_name c = ''SET_EQ''"
    | (gain) "command_name c = ''SET_GAIN''" | (phase) "command_name c = ''SET_PHASE_INVERT''"
    | (other) "command_name c \<notin> {''SET_VOLUME'', ''SET_MUTE'', ''SET_DELAY'', ''SET_EQ'', ''SET_GAIN'', ''SET_PHASE_INVERT''}"
    by blast
  then show ?thesis
  proof cases
    case other
    then show ?thesis by (simp add: execute_config_same requested_setting_def)
  qed (simp_all add: execute_def requested_setting_def Let_def fst_with_arg split: option.split)
qed

lemma execute_config_valid:
  "valid_config (get (ex_config s)) \<Longrightarrow> valid_config (get (ex_config (fst (execute x s c))))"
  using cfg.upd_valid by (simp add: execute_config split: option.splits)

text \<open>What a command can do to the configuration: the result is exactly the requested change if
  the command is a well-formed \<open>SET_*\<close> command whose change is valid and can be written, and the
  old configuration otherwise. In particular every other command leaves it alone, each \<open>SET_*\<close>
  command touches its one field, and a gain is stored clamped to 20 dB either way.\<close>

theorem execute_config_effect:
  "get (ex_config (fst (execute x s c))) =
     (case requested_setting (xe_json x) c of
        None \<Rightarrow> get (ex_config s)
      | Some f \<Rightarrow>
          if st_ok (fst (snd (update (xe_json x) (xe_cfg x) (ex_config s) f))) then f (get (ex_config s))
          else get (ex_config s))"
  by (simp add: execute_config cfg.upd_read split: option.splits)

lemma clamp_gain_range: "-20 \<le> clamp_gain g \<and> clamp_gain g \<le> 20"
  by (simp add: clamp_gain_def Let_def)

lemma clamp_gain_id: "-20 \<le> g \<Longrightarrow> g \<le> 20 \<Longrightarrow> clamp_gain g = g"
  by (simp add: clamp_gain_def Let_def)

section \<open>The reply\<close>

lemma cr_id_results [simp]:
  "cr_command_id (ok_result c d) = command_id c" "cr_command_id (fail_result c e m) = command_id c"
  "cr_ok (ok_result c d)" "\<not> cr_ok (fail_result c e m)"
  by (simp_all add: ok_result_def fail_result_def result_blank_def)

lemma execute_reply_id:
  "snd (snd (execute x s c)) = Some r \<Longrightarrow> cr_command_id r = command_id c"
  by (auto simp: execute_def Let_def apply_setting_def refuse_def throw_def with_arg_def exec_report_link_def
        split: if_splits option.splits prod.splits)

text \<open>The setters that a valid configuration accepts.\<close>

lemma valid_set_volume: "valid_config c \<Longrightarrow> valid_config (set_volume v c) \<longleftrightarrow> 0 \<le> v \<and> v \<le> 100"
  by (auto simp: valid_config_iff set_volume_def)

text \<open>\<open>SET_VOLUME\<close> end to end: on a valid configuration and a cooperative disk, an integer volume
  from 0 to 100 is stored and acknowledged with its value; any other integer is refused with the
  configuration-validation error and leaves the configuration unchanged.\<close>

theorem set_volume_command:
  assumes "command_name c = ''SET_VOLUME''" "j_find (payload c) ''volume'' = Some (JInt v)"
    and "jl_get_int (xe_json x) (JInt v) = Some v"
    and "valid_config (get (ex_config s))" "ce_write (xe_cfg x) = os_fine"
  shows "(case execute x s c of (s', evs, r) \<Rightarrow>
     if 0 \<le> v \<and> v \<le> 100
     then volume (audio (get (ex_config s'))) = v \<and> r = Some (ok_result c (JObj [(''volume'', JInt v)]))
     else get (ex_config s') = get (ex_config s) \<and>
          (\<exists>m. r = Some (fail_result c Ec_ConfigValidationFailed m)))"
proof -
  obtain m st evs where u: "update (xe_json x) (xe_cfg x) (ex_config s) (set_volume v) = (m, st, evs)"
    by (rule prod_cases3)
  have ex: "execute x s c = apply_setting x s c (set_volume v) [(''volume'', JInt v)]"
    using assms(1-3) by (simp add: execute_def Let_def arg_def with_arg_def)
  show ?thesis
  proof (cases "0 \<le> v \<and> v \<le> 100")
    case True
    then have vc: "valid_config (set_volume v (get (ex_config s)))"
      using assms(4) valid_set_volume by blast
    then have "st_ok st"
      using update_cases [OF u] persist_fine [OF vc assms(5), of "xe_json x" "ex_config s"]
      by (auto simp: get_def)
    with cfg.upd_ok [OF u] True u show ?thesis
      unfolding ex apply_setting_def by (simp add: set_volume_def)
  next
    case False
    then have nv: "\<not> valid_config (set_volume v (get (ex_config s)))"
      using assms(4) valid_set_volume by blast
    then have "\<not> st_ok st \<and> m = ex_config s" using cfg.upd_invalid [OF u] by simp
    moreover have "st_code st = Ec_ConfigValidationFailed"
      using u nv validate_error_code [OF nv]
      by (auto simp: update_def Let_def valid_config_def get_def split: if_splits)
    ultimately show ?thesis
      using False u unfolding ex apply_setting_def by auto
  qed
qed

definition demo_env :: "string \<Rightarrow> json \<Rightarrow> exec_env" where
  "demo_env t d = \<lparr>xe_json = demo_lib t d, xe_cfg = cfg_env_fine, xe_now = 10, xe_telemetry = None, xe_measure = None\<rparr>"

definition demo_exec :: exec_state where
  "demo_exec = \<lparr>ex_config = cfgman_new ''c'' Map.empty, ex_link = link_new\<rparr>"

lemma demo_exec_config [simp]: "get (ex_config demo_exec) = defaults"
  by (simp add: demo_exec_def cfgman_new_def get_def)

theorem set_volume_command_witness:
  "volume (audio (get (ex_config (fst (execute (demo_env [] JNull) demo_exec demo_command))))) = 40"
  using set_volume_command [of demo_command 40 "demo_env [] JNull" demo_exec]
  by (simp add: demo_command_def demo_env_def cfg_env_fine_def split: prod.splits)

text \<open>The exception that leaves \<open>execute\<close>: a \<open>SET_EQ\<close> whose profile is not a string.\<close>

lemma set_eq_throws:
  assumes "command_name c = ''SET_EQ''" "j_find (payload c) ''eq_profile'' = Some v" "jl_get_string (xe_json x) v = None"
    and "is_object (payload c)"
  shows "execute x s c = throw s c"
  using assms by (simp add: execute_def Let_def with_arg_def j_value_def)

end
