(* ===== verification/Command_Server.thy ===== *)
theory Command_Server
  imports Command_Executor
begin

text \<open>
  The command pipeline above the executor: \<open>CommandRouter::handle\<close>, \<open>CommandServer::handleRaw\<close>,
  \<open>start\<close> and \<open>stop\<close> (\<open>src/src/control\<close>), and the request framing of \<open>TcpCommandTransport\<close>. A reply
  of None is an exception that leaves the function. The pairing handler is the callback
  \<open>Application\<close> installs: an optional state transformer whose own exceptions are None.
\<close>

section \<open>The router\<close>

record router_env =
  re_exec :: exec_env
  re_crypto :: crypto_lib
  re_now :: int

record router =
  ro_exec :: exec_state
  ro_history :: history

abbreviation re_json :: "router_env \<Rightarrow> json_lib" where
  "re_json x \<equiv> xe_json (re_exec x)"

definition parse_command :: "json_lib \<Rightarrow> string \<Rightarrow> command option" where
  "parse_command J raw = Option.bind (jl_parse J raw) (fromJson J)"

definition malformed_result :: "json_lib \<Rightarrow> string \<Rightarrow> command_result" where
  "malformed_result J raw =
     result_blank\<lparr>cr_message := ''malformed command json: '' @ jl_what J raw, cr_error_code := toInt Ec_InvalidArg\<rparr>"

definition handle ::
  "router_env \<Rightarrow> router \<Rightarrow> string \<Rightarrow> string \<Rightarrow> string \<Rightarrow> router \<times> event list \<times> command_result option" where
  "handle x s raw dev key =
     (let J = re_json x in
      case parse_command J raw of
        None \<Rightarrow> (s, [], Some (malformed_result J raw))
      | Some c \<Rightarrow>
          (case tryGet (ro_history s) (command_id c) of
             Some prior \<Rightarrow> (s, [], Some prior)
           | None \<Rightarrow>
               (let v = validate_command J (re_crypto x) c dev key (re_now x) in
                if \<not> st_ok v then (s, [], Some (fail_result c (st_code v) (st_message v)))
                else
                  (case execute (re_exec x) (ro_exec s) c of
                     (e, evs, None) \<Rightarrow> (s\<lparr>ro_exec := e\<rparr>, evs, None)
                   | (e, evs, Some r) \<Rightarrow>
                       (s\<lparr>ro_exec := e,
                          ro_history := (if command_name c \<noteq> ''REPORT_LINK''
                                         then record_result (ro_history s) (command_id c) r
                                         else ro_history s)\<rparr>, evs, Some r)))))"

section \<open>The server\<close>

type_synonym pairing_handler = "exec_state \<Rightarrow> string \<Rightarrow> exec_state \<times> event list \<times> string option"

record server =
  sv_router :: router
  sv_pairing :: "pairing_handler option"
  sv_state :: service_state

definition is_pairing_request :: "json_lib \<Rightarrow> string \<Rightarrow> bool" where
  "is_pairing_request J raw \<longleftrightarrow>
     Option.bind (jl_parse J raw) (\<lambda>j. j_value (jl_get_string J) j ''type'' []) = Some ''pairing''"

definition server_command :: "router_env \<Rightarrow> server \<Rightarrow> string \<Rightarrow> string \<Rightarrow> server \<times> event list \<times> string option" where
  "server_command x s dev raw =
     (case handle x (sv_router s) raw dev (streamer_public_key (pairing (get (ex_config (ro_exec (sv_router s)))))) of
        (ro, evs, r) \<Rightarrow>
          (s\<lparr>sv_router := ro\<rparr>, evs, map_option (\<lambda>r. jl_dump (re_json x) (result_toJson r)) r))"

definition handleRaw :: "router_env \<Rightarrow> server \<Rightarrow> string \<Rightarrow> string \<Rightarrow> server \<times> event list \<times> string option" where
  "handleRaw x s dev raw =
     (case sv_pairing s of
        Some h \<Rightarrow>
          if is_pairing_request (re_json x) raw then
            (case h (ro_exec (sv_router s)) raw of (e, evs, reply) \<Rightarrow>
               let s1 = s\<lparr>sv_router := (sv_router s)\<lparr>ro_exec := e\<rparr>\<rparr> in
               case reply of
                 Some resp \<Rightarrow> (s1, evs, Some resp)
               | None \<Rightarrow> (case server_command x s1 dev raw of (s2, evs2, r) \<Rightarrow> (s2, evs @ evs2, r)))
          else server_command x s dev raw
      | None \<Rightarrow> server_command x s dev raw)"

definition server_start :: "status \<Rightarrow> server \<Rightarrow> server \<times> status" where
  "server_start transport s =
     (s\<lparr>sv_state := (if st_ok transport then Svc_Running else Svc_Degraded)\<rparr>, transport)"

definition server_stop :: "server \<Rightarrow> server \<times> status" where
  "server_stop s = (s\<lparr>sv_state := Svc_Stopped\<rparr>, success)"

text \<open>One request of \<open>acceptLoop\<close>: \<open>recv\<close> returns the given chunks (each at most 1024 bytes) and then
  the end of the stream.\<close>

fun read_request :: "string \<Rightarrow> string list \<Rightarrow> string" where
  "read_request req [] = req"
| "read_request req (buf # rest) =
     (let req' = req @ buf in
      if nl \<in> set req' \<or> length req' > 64 * 1024 then req' else read_request req' rest)"

definition request_line :: "string list \<Rightarrow> string" where
  "request_line bufs = takeWhile (\<lambda>ch. ch \<noteq> nl) (read_request [] bufs)"

section \<open>One message\<close>

text \<open>The three ways a message can end, as elimination rule: it is refused with nothing changed, it
  is a repetition, or it is a fresh command that passed every check.\<close>

lemma handle_cases:
  assumes "handle x s raw dev key = (s', evs, r)"
  obtains (malformed) "parse_command (re_json x) raw = None" "s' = s" "evs = []"
      "r = Some (malformed_result (re_json x) raw)"
  | (repeated) c prior where "parse_command (re_json x) raw = Some c"
      "tryGet (ro_history s) (command_id c) = Some prior" "s' = s" "evs = []" "r = Some prior"
  | (refused) c where "parse_command (re_json x) raw = Some c" "tryGet (ro_history s) (command_id c) = None"
      "\<not> st_ok (validate_command (re_json x) (re_crypto x) c dev key (re_now x))" "s' = s" "evs = []"
      "\<exists>code m. code \<noteq> Ec_Ok \<and> r = Some (fail_result c code m)"
  | (executed) c e where "parse_command (re_json x) raw = Some c" "tryGet (ro_history s) (command_id c) = None"
      "st_ok (validate_command (re_json x) (re_crypto x) c dev key (re_now x))"
      "execute (re_exec x) (ro_exec s) c = (e, evs, r)" "ro_exec s' = e"
      "ro_history s' = (case r of None \<Rightarrow> ro_history s
         | Some q \<Rightarrow> if command_name c \<noteq> ''REPORT_LINK'' then record_result (ro_history s) (command_id c) q
                     else ro_history s)"
proof (cases "parse_command (re_json x) raw")
  case None
  with assms have "s' = s" "evs = []" "r = Some (malformed_result (re_json x) raw)"
    by (simp_all add: handle_def)
  then show thesis by (rule malformed [OF None])
next
  case (Some c)
  show thesis
  proof (cases "tryGet (ro_history s) (command_id c)")
    case (Some prior)
    with assms \<open>parse_command (re_json x) raw = Some c\<close> have "s' = s" "evs = []" "r = Some prior"
      by (simp_all add: handle_def)
    then show thesis by (rule repeated [OF \<open>parse_command (re_json x) raw = Some c\<close> Some])
  next
    case None
    let ?v = "validate_command (re_json x) (re_crypto x) c dev key (re_now x)"
    obtain e es q where ex: "execute (re_exec x) (ro_exec s) c = (e, es, q)" by (rule prod_cases3)
    show thesis
    proof (cases "st_ok ?v")
      case True
      with \<open>parse_command (re_json x) raw = Some c\<close> None ex
      have "handle x s raw dev key = (case q of None \<Rightarrow> (s\<lparr>ro_exec := e\<rparr>, es, None)
          | Some r \<Rightarrow> (s\<lparr>ro_exec := e, ro_history := (if command_name c \<noteq> ''REPORT_LINK''
              then record_result (ro_history s) (command_id c) r else ro_history s)\<rparr>, es, Some r))"
        by (simp add: handle_def Let_def)
      with assms have h: "es = evs" "q = r" "ro_exec s' = e"
        "ro_history s' = (case r of None \<Rightarrow> ro_history s
         | Some q \<Rightarrow> if command_name c \<noteq> ''REPORT_LINK'' then record_result (ro_history s) (command_id c) q
                     else ro_history s)"
        by (auto split: option.splits)
      show thesis
        by (rule executed [OF \<open>parse_command (re_json x) raw = Some c\<close> None True _ h(3,4)]) (simp add: ex h)
    next
      case False
      with \<open>parse_command (re_json x) raw = Some c\<close> None
      have "handle x s raw dev key = (s, [], Some (fail_result c (st_code ?v) (st_message ?v)))"
        by (simp add: handle_def Let_def)
      with assms have h: "s' = s" "evs = []" "r = Some (fail_result c (st_code ?v) (st_message ?v))" by simp_all
      have code: "st_code ?v \<noteq> Ec_Ok" using False by (simp add: st_ok_def)
      show thesis
        by (rule refused [OF \<open>parse_command (re_json x) raw = Some c\<close> None False h(1,2)]) (use h(3) code in blast)
    qed
  qed
qed

definition demo_crypto :: crypto_lib where
  "demo_crypto = \<lparr>cl_toBase64 = (\<lambda>m. m), cl_verifyEd25519 = (\<lambda>m sg k. sg = ''sig''), cl_sha256Hex = (\<lambda>m. m)\<rparr>"

text \<open>A router for evaluation, and the environment in which the text \<open>m\<close> parses to a given command.\<close>

definition demo_router :: router where
  "demo_router = \<lparr>ro_exec = demo_exec, ro_history = history_new 200\<rparr>"

definition demo_renv :: "command \<Rightarrow> router_env" where
  "demo_renv c = \<lparr>re_exec = demo_env ''m'' (toJson c), re_crypto = demo_crypto, re_now = 10\<rparr>"

lemma demo_parse [simp]:
  assumes "is_object (payload c)" "expires_at c = 0" "timestamp c = 5"
  shows "parse_command (re_json (demo_renv c)) ''m'' = Some c"
  using assms by (cases c) (simp add: parse_command_def demo_renv_def demo_env_def fromJson_def toJson_def)

lemma demo_no_history [simp]: "tryGet (ro_history demo_router) k = None"
  by (simp add: demo_router_def history_new_def tryGet_def)

text \<open>C1. Nothing happens without authentication: if a message changes the configuration, the link
  telemetry or the history, or publishes any event, then it carries a fresh identifier, is not
  expired and not aimed at another device, the speaker is paired (it knows a streamer key), and
  its signature verifies under that key over the message's own canonical string.\<close>

theorem handle_authenticated:
  assumes "handle x s raw dev key = (s', evs, r)" and "s' \<noteq> s \<or> evs \<noteq> []"
  shows "\<exists>c. parse_command (re_json x) raw = Some c \<and> tryGet (ro_history s) (command_id c) = None \<and>
    (target_id c = [] \<or> target_id c = dev) \<and> (expires_at c = 0 \<or> re_now x \<le> expires_at c) \<and> key \<noteq> [] \<and>
    cl_verifyEd25519 (re_crypto x) (cl_toBase64 (re_crypto x) (canonicalString (re_json x) c)) (signature_b64 c) key"
  using assms(1)
proof (cases rule: handle_cases)
  case (executed c e)
  then show ?thesis by (auto simp: validate_command_ok_iff)
qed (use assms(2) in simp_all)

definition demo_reboot :: command where
  "demo_reboot = demo_command\<lparr>command_name := ''REBOOT''\<rparr>"

lemma demo_reboot_simps [simp]:
  "payload demo_reboot = JObj [(''volume'', JInt 40)]" "expires_at demo_reboot = 0" "timestamp demo_reboot = 5"
  "command_name demo_reboot = ''REBOOT''" "command_id demo_reboot = ''c1''" "signature_b64 demo_reboot = ''sig''"
  "target_id demo_reboot = ''SPK''"
  by (simp_all add: demo_reboot_def demo_command_def)

lemma demo_reboot_valid:
  "st_ok (validate_command (re_json (demo_renv demo_reboot)) (re_crypto (demo_renv demo_reboot)) demo_reboot ''SPK'' ''key''
     (re_now (demo_renv demo_reboot)))"
  by (simp add: validate_command_ok_iff demo_renv_def demo_crypto_def)

lemma demo_reboot_handle:
  "\<exists>s1 r. handle (demo_renv demo_reboot) demo_router ''m'' ''SPK'' ''key'' =
     (s1, [received_event demo_reboot, executed_event demo_reboot [], mk_event Ev_ShutdownRequested ''control''], Some r)"
  using demo_reboot_valid
  by (simp add: handle_def Let_def execute_def deferred_commands_def lifecycle_commands_def)

theorem handle_authenticated_witness:
  "cl_verifyEd25519 demo_crypto (canonicalString (re_json (demo_renv demo_reboot)) demo_reboot)
     (signature_b64 demo_reboot) ''key''"
proof -
  obtain s1 r where h: "handle (demo_renv demo_reboot) demo_router ''m'' ''SPK'' ''key'' =
     (s1, [received_event demo_reboot, executed_event demo_reboot [], mk_event Ev_ShutdownRequested ''control''], Some r)"
    using demo_reboot_handle by blast
  from handle_authenticated [OF h] show ?thesis by (simp add: demo_renv_def demo_crypto_def)
qed

section \<open>Sequences of messages\<close>

type_synonym message = "router_env \<times> string \<times> string \<times> string"

definition deliver :: "router \<Rightarrow> message \<Rightarrow> router" where
  "deliver s m = (case m of (x, raw, dev, key) \<Rightarrow> fst (handle x s raw dev key))"

lemma handle_history:
  assumes "handle x s raw dev key = (s', evs, r)" "history_inv (ro_history s)"
  shows "history_inv (ro_history s') \<and> capacity (ro_history s') = capacity (ro_history s)"
  using assms(1)
  by (cases rule: handle_cases) (use assms(2) in \<open>auto simp: record_result_inv split: option.splits\<close>)

lemma handle_keeps:
  assumes "handle x s raw dev key = (s', evs, r)" "history_inv (ro_history s)"
    and "results (ro_history s) k = Some q" "newer (ro_history s) k + 1 < capacity (ro_history s)"
  shows "results (ro_history s') k = Some q \<and> newer (ro_history s') k \<le> newer (ro_history s) k + 1"
  using assms(1)
proof (cases rule: handle_cases)
  case (executed c e)
  then have "k \<noteq> command_id c" using assms(3) by (auto simp: tryGet_def)
  with executed assms(2-4) record_keeps [of "ro_history s" k q "command_id c"] show ?thesis
    by (auto split: option.splits)
qed (use assms in simp_all)

lemma deliver_run_keeps:
  "\<lbrakk>history_inv (ro_history s); results (ro_history s) k = Some q;
    newer (ro_history s) k + length ms < capacity (ro_history s)\<rbrakk>
    \<Longrightarrow> results (ro_history (foldl deliver s ms)) k = Some q"
proof (induction ms arbitrary: s)
  case (Cons m ms)
  obtain x raw dev key where m: "m = (x, raw, dev, key)" by (rule prod_cases4)
  obtain s' evs r where h: "handle x s raw dev key = (s', evs, r)" by (rule prod_cases3)
  have "newer (ro_history s) k + 1 < capacity (ro_history s)" using Cons.prems(3) by simp
  from handle_keeps [OF h Cons.prems(1,2) this] handle_history [OF h Cons.prems(1)] Cons.prems(3)
  have "results (ro_history (foldl deliver s' ms)) k = Some q"
    by (intro Cons.IH) auto
  moreover have "deliver s m = s'" by (simp add: deliver_def m h)
  ultimately show ?case by simp
qed simp

text \<open>C2. Exactly-once execution: once a command (other than the link telemetry) has been executed, then
  whatever messages arrive next, as long as there are fewer than the history's capacity, any
  message with the same command identifier changes nothing, publishes nothing and is answered with
  the first result. The repeated message is not authenticated: its signature, target and expiry
  are arbitrary.\<close>

theorem executed_at_most_once:
  assumes "history_inv (ro_history s)"
    and "handle x s raw dev key = (s1, evs, Some r)" "evs \<noteq> []"
    and "parse_command (re_json x) raw = Some c" "command_name c \<noteq> ''REPORT_LINK''"
    and "length ms < capacity (ro_history s)"
    and "parse_command (re_json x') raw' = Some c'" "command_id c' = command_id c"
  shows "handle x' (foldl deliver s1 ms) raw' dev' key' = (foldl deliver s1 ms, [], Some r)"
proof -
  have "results (ro_history s1) (command_id c) = Some r \<and> newer (ro_history s1) (command_id c) = 0"
    using assms(2)
  proof (cases rule: handle_cases)
    case (executed d e)
    with assms(4,5) have h: "ro_history s1 = record_result (ro_history s) (command_id c) r" by simp
    with executed assms(1,4) show ?thesis
      using hist.look_store [OF assms(1)] newer_fresh [OF assms(1)] by (simp add: tryGet_def)
  qed (use assms(3) in simp_all)
  with deliver_run_keeps [of s1 "command_id c" r ms] handle_history [OF assms(2,1)] assms(6)
  have "tryGet (ro_history (foldl deliver s1 ms)) (command_id c') = Some r"
    by (simp add: assms(8) tryGet_def)
  with assms(7) show ?thesis by (simp add: handle_def)
qed

text \<open>The instance: a reboot command is executed, and later a forged message with its identifier (a
  wrong signature and no known key) is answered with the same result.\<close>

theorem executed_at_most_once_witness:
  "\<exists>s1 evs r. handle (demo_renv demo_reboot) demo_router ''m'' ''SPK'' ''key'' = (s1, evs, Some r) \<and>
     handle (demo_renv (demo_reboot\<lparr>signature_b64 := ''forged''\<rparr>)) s1 ''m'' ''SPK'' [] = (s1, [], Some r)"
proof -
  obtain s1 r where h: "handle (demo_renv demo_reboot) demo_router ''m'' ''SPK'' ''key'' =
     (s1, [received_event demo_reboot, executed_event demo_reboot [], mk_event Ev_ShutdownRequested ''control''], Some r)"
    using demo_reboot_handle by blast
  have i: "history_inv (ro_history demo_router)" "0 < capacity (ro_history demo_router)"
    by (simp_all add: demo_router_def history_inv_new) (simp add: history_new_def)
  have "handle (demo_renv (demo_reboot\<lparr>signature_b64 := ''forged''\<rparr>)) (foldl deliver s1 []) ''m'' ''SPK'' []
      = (foldl deliver s1 [], [], Some r)"
    by (rule executed_at_most_once [OF i(1) h, where c = demo_reboot and c' = "demo_reboot\<lparr>signature_b64 := ''forged''\<rparr>"])
      (use i(2) in simp_all)
  with h show ?thesis by auto
qed

section \<open>The exception that escapes\<close>

text \<open>\<open>handle\<close> can throw: a correctly signed, fresh \<open>SET_EQ\<close> command whose profile is not a string
  makes the JSON library throw out of the executor and out of \<open>handle\<close> (reply None), after the
  reception event was published and with nothing recorded.\<close>

theorem handle_can_throw:
  assumes "parse_command (re_json x) raw = Some c" "tryGet (ro_history s) (command_id c) = None"
    and "st_ok (validate_command (re_json x) (re_crypto x) c dev key (re_now x))"
    and "command_name c = ''SET_EQ''" "is_object (payload c)"
    and "j_find (payload c) ''eq_profile'' = Some v" "jl_get_string (re_json x) v = None"
  shows "handle x s raw dev key = (s, [received_event c], None)"
proof -
  have "execute (re_exec x) (ro_exec s) c = throw (ro_exec s) c"
    by (rule set_eq_throws [OF assms(4,6,7,5)])
  with assms(1-3) show ?thesis by (simp add: handle_def Let_def throw_def)
qed

definition demo_bad_eq :: command where
  "demo_bad_eq = demo_command\<lparr>command_name := ''SET_EQ'', payload := JObj [(''eq_profile'', JInt 5)]\<rparr>"

theorem handle_can_throw_witness:
  "snd (snd (handle (demo_renv demo_bad_eq) demo_router ''m'' ''SPK'' ''key'')) = None"
proof -
  have "handle (demo_renv demo_bad_eq) demo_router ''m'' ''SPK'' ''key'' = (demo_router, [received_event demo_bad_eq], None)"
  proof (rule handle_can_throw)
    show "st_ok (validate_command (re_json (demo_renv demo_bad_eq)) (re_crypto (demo_renv demo_bad_eq)) demo_bad_eq
        ''SPK'' ''key'' (re_now (demo_renv demo_bad_eq)))"
      by (simp add: validate_command_ok_iff demo_renv_def demo_crypto_def demo_bad_eq_def demo_command_def)
    show "jl_get_string (re_json (demo_renv demo_bad_eq)) (JInt 5) = None"
      by (simp add: demo_renv_def demo_env_def)
  qed (simp_all add: demo_bad_eq_def demo_command_def)
  then show ?thesis by simp
qed

section \<open>Authority of the server\<close>

lemma server_command_frame:
  assumes "server_command x s dev raw = (s', evs, reply)"
  shows "sv_pairing s' = sv_pairing s" "sv_state s' = sv_state s"
    "\<exists>r. handle x (sv_router s) raw dev (streamer_public_key (pairing (get (ex_config (ro_exec (sv_router s))))))
       = (sv_router s', evs, r) \<and> reply = map_option (\<lambda>r. jl_dump (re_json x) (result_toJson r)) r"
  using assms by (auto simp: server_command_def split: prod.splits)

text \<open>An unpaired speaker obeys no command: while the configuration holds no streamer key, a
  request that is not a pairing request leaves the whole server unchanged and publishes nothing.\<close>

theorem unpaired_server_inert:
  assumes "streamer_public_key (pairing (get (ex_config (ro_exec (sv_router s))))) = []"
    and "\<not> is_pairing_request (re_json x) raw"
    and "handleRaw x s dev raw = (s', evs, reply)"
  shows "s' = s \<and> evs = [] \<and> reply \<noteq> None"
proof -
  have sc: "server_command x s dev raw = (s', evs, reply)"
    using assms(2,3) by (simp add: handleRaw_def split: option.splits)
  from server_command_frame(3) [OF this] assms(1) obtain r where
    h: "handle x (sv_router s) raw dev [] = (sv_router s', evs, r)"
    and rep: "reply = map_option (\<lambda>r. jl_dump (re_json x) (result_toJson r)) r" by auto
  from h have "sv_router s' = sv_router s \<and> evs = [] \<and> r \<noteq> None"
    by (cases rule: handle_cases) (auto simp: validate_command_ok_iff)
  with server_command_frame(1,2) [OF sc] rep show ?thesis by simp
qed

definition demo_server :: server where
  "demo_server = \<lparr>sv_router = demo_router, sv_pairing = None, sv_state = Svc_Running\<rparr>"

theorem unpaired_server_inert_witness:
  "fst (handleRaw (demo_renv demo_reboot) demo_server ''SPK'' ''m'') = demo_server"
proof -
  obtain s' evs reply where h: "handleRaw (demo_renv demo_reboot) demo_server ''SPK'' ''m'' = (s', evs, reply)"
    by (rule prod_cases3)
  have "s' = demo_server \<and> evs = [] \<and> reply \<noteq> None"
    by (rule unpaired_server_inert [OF _ _ h])
      (simp_all add: demo_server_def demo_router_def defaults_def config_default_def pairing_default_def
        is_pairing_request_def demo_renv_def demo_env_def toJson_def j_value_def)
  with h show ?thesis by simp
qed

section \<open>Framing\<close>

lemma read_request_line:
  "\<lbrakk>nl \<notin> set req; length (takeWhile (\<lambda>ch. ch \<noteq> nl) (req @ concat bufs)) \<le> 64 * 1024\<rbrakk>
    \<Longrightarrow> takeWhile (\<lambda>ch. ch \<noteq> nl) (read_request req bufs) = takeWhile (\<lambda>ch. ch \<noteq> nl) (req @ concat bufs)"
proof (induction bufs arbitrary: req)
  case (Cons b bs)
  let ?P = "\<lambda>ch. ch \<noteq> nl"
  show ?case
  proof (cases "nl \<in> set (req @ b)")
    case True
    then have "takeWhile ?P ((req @ b) @ concat bs) = takeWhile ?P (req @ b)"
      by (intro takeWhile_append1) auto
    with True show ?thesis by simp
  next
    case False
    then have all: "\<And>ch. ch \<in> set (req @ b) \<Longrightarrow> ch \<noteq> nl" by auto
    have "takeWhile ?P ((req @ b) @ concat bs) = (req @ b) @ takeWhile ?P (concat bs)"
      by (rule takeWhile_append2) (use all in blast)
    with Cons.prems(2) have "\<not> length (req @ b) > 64 * 1024" by simp
    with False Cons.IH [of "req @ b"] Cons.prems(2) show ?thesis by simp
  qed
qed simp

text \<open>However the network cuts the bytes into chunks, the request handed on is the first line.\<close>

lemma request_line_chunking:
  "length (takeWhile (\<lambda>ch. ch \<noteq> nl) (concat bufs)) \<le> 64 * 1024
    \<Longrightarrow> request_line bufs = takeWhile (\<lambda>ch. ch \<noteq> nl) (concat bufs)"
  using read_request_line [of "[]" bufs] by (simp add: request_line_def)

lemma read_request_bounded:
  "\<lbrakk>length req \<le> 64 * 1024; \<And>b. b \<in> set bufs \<Longrightarrow> length b \<le> 1024\<rbrakk>
    \<Longrightarrow> length (read_request req bufs) \<le> 65 * 1024"
proof (induction bufs arbitrary: req)
  case (Cons b bs)
  then have "length b \<le> 1024" by simp
  with Cons.prems(1) have "length (req @ b) \<le> 65 * 1024" by simp
  with Cons show ?case by (auto simp: Let_def)
qed simp

end
