(* ===== verification/Amplifier.thy ===== *)
theory Amplifier
  imports Core_Types
begin

text \<open>
  The amplifier manager (\<open>src/src/amplifier/AmplifierManager.cpp\<close>). The hardware layer
  \<open>IAmplifierHal\<close> is a parameter: \<open>hal\<close> holds its answers during one operation, and every
  operation returns the calls it made and the events it published, in order. Temperatures are
  reals.
\<close>

section \<open>Data\<close>

datatype amp_state =
  Amp_Off | Amp_Starting | Amp_Ready | Amp_Muted | Amp_Protection | Amp_Overheated | Amp_Fault

fun amp_name :: "amp_state \<Rightarrow> string" where
  "amp_name Amp_Off = ''OFF''"
| "amp_name Amp_Starting = ''STARTING''"
| "amp_name Amp_Ready = ''READY''"
| "amp_name Amp_Muted = ''MUTED''"
| "amp_name Amp_Protection = ''PROTECTION''"
| "amp_name Amp_Overheated = ''OVERHEATED''"
| "amp_name Amp_Fault = ''FAULT''"

record amp_flags =
  fl_fault :: bool
  fl_protection :: bool
  fl_clipping :: bool

record hal =
  hal_powerOn :: status
  hal_mute :: status
  hal_flags :: "amp_flags result"
  hal_temp :: "real result"

datatype amp_out = Call_PowerOn | Call_PowerOff | Call_Mute bool | Alert event

record amplifier =
  am_state :: amp_state
  am_warned :: bool
  am_no_hardware :: bool
  am_svc :: service_state
  am_warn_at :: real
  am_shutdown_at :: real

definition amp_new :: "real \<Rightarrow> real \<Rightarrow> amplifier" where
  "amp_new warn shut = \<lparr>am_state = Amp_Off, am_warned = False, am_no_hardware = False, am_svc = Svc_Stopped,
     am_warn_at = warn, am_shutdown_at = shut\<rparr>"

section \<open>Operations\<close>

definition transition :: "amplifier \<Rightarrow> amp_state \<Rightarrow> amplifier" where
  "transition a t = (if am_state a = t then a else a\<lparr>am_state := t\<rparr>)"

definition amp_start :: "hal \<Rightarrow> amplifier \<Rightarrow> amplifier \<times> status \<times> amp_out list" where
  "amp_start h a =
     (if \<not> st_ok (hal_powerOn h) then
        ((transition (a\<lparr>am_no_hardware := True\<rparr>) Amp_Ready)\<lparr>am_svc := Svc_Running\<rparr>, success, [Call_PowerOn])
      else
        ((transition a Amp_Starting)\<lparr>am_svc := Svc_Running\<rparr>, success, [Call_PowerOn, Call_Mute True]))"

definition amp_stop :: "amplifier \<Rightarrow> amplifier \<times> status \<times> amp_out list" where
  "amp_stop a =
     ((transition a Amp_Off)\<lparr>am_svc := Svc_Stopped\<rparr>, success,
      (if \<not> am_no_hardware a then [Call_Mute True, Call_PowerOff] else []))"

definition unmute :: "hal \<Rightarrow> amplifier \<Rightarrow> amplifier \<times> status \<times> amp_out list" where
  "unmute h a =
     (if am_no_hardware a then (a, success, [])
      else if am_state a = Amp_Fault \<or> am_state a = Amp_Overheated \<or> am_state a = Amp_Protection then
        (a, mk_error Ec_PermissionDenied ''cannot unmute: amp not healthy'', [])
      else if \<not> st_ok (hal_mute h) then (a, hal_mute h, [Call_Mute False])
      else (transition a Amp_Ready, success, [Call_Mute False]))"

definition mute :: "hal \<Rightarrow> amplifier \<Rightarrow> amplifier \<times> status \<times> amp_out list" where
  "mute h a =
     (if am_no_hardware a then (a, success, [])
      else if \<not> st_ok (hal_mute h) then (a, hal_mute h, [Call_Mute True])
      else ((if am_state a = Amp_Ready \<or> am_state a = Amp_Starting then transition a Amp_Muted else a),
            success, [Call_Mute True]))"

definition amp_event :: "event_type \<Rightarrow> amp_out" where
  "amp_event t = Alert (mk_event t ''amplifier'')"

definition temp_event :: "event_type \<Rightarrow> real \<Rightarrow> amp_out" where
  "temp_event t x = Alert (mk_event_data t ''amplifier'' [(''temperature'', JReal x)])"

text \<open>The first half of \<open>poll\<close>: the fault, protection and clipping lines.\<close>

definition poll_flags :: "hal \<Rightarrow> amplifier \<Rightarrow> amplifier \<times> amp_out list" where
  "poll_flags h a =
     (case hal_flags h of
        Inl _ \<Rightarrow> (a, [])
      | Inr f \<Rightarrow>
          (let (a1, o1) =
             (if fl_fault f \<and> am_state a \<noteq> Amp_Fault then
                (transition a Amp_Fault, [Call_Mute True, amp_event Ev_AmplifierFault])
              else if fl_protection f \<and> am_state a \<noteq> Amp_Protection \<and> am_state a \<noteq> Amp_Fault then
                (transition a Amp_Protection, [Call_Mute True, amp_event Ev_AmplifierProtection])
              else (a, [])) in
           (a1, o1 @ (if fl_clipping f then [amp_event Ev_OutputClipping] else []))))"

text \<open>The second half: the temperature.\<close>

definition poll_temp :: "real \<Rightarrow> amplifier \<Rightarrow> amplifier \<times> amp_out list" where
  "poll_temp t a =
     (if t \<ge> am_shutdown_at a then
        (if am_state a \<noteq> Amp_Overheated
         then (transition a Amp_Overheated, [Call_Mute True, temp_event Ev_AmplifierOverheat t]) else (a, []))
      else if t \<ge> am_warn_at a then
        (if \<not> am_warned a then (a\<lparr>am_warned := True\<rparr>, [temp_event Ev_TempWarning t]) else (a, []))
      else
        (let a1 = a\<lparr>am_warned := False\<rparr> in
         (if am_state a1 = Amp_Overheated then transition a1 Amp_Muted else a1, [])))"

definition poll :: "hal \<Rightarrow> amplifier \<Rightarrow> amplifier \<times> real result \<times> amp_out list" where
  "poll h a =
     (if am_no_hardware a then (a, Inr 0, [])
      else
        (let (a1, o1) = poll_flags h a in
         case hal_temp h of
           Inl e \<Rightarrow> (a1, Inl e, o1)
         | Inr t \<Rightarrow> (let (a2, o2) = poll_temp t a1 in (a2, Inr t, o1 @ o2))))"

definition amp_healthCheck :: "amplifier \<Rightarrow> status" where
  "amp_healthCheck a = (if am_state a = Amp_Fault then mk_error Ec_Unknown ''amplifier fault'' else success)"

section \<open>Runs\<close>

datatype amp_op = Do_Start | Do_Stop | Do_Mute | Do_Unmute | Do_Poll

fun amp_step :: "hal \<Rightarrow> amp_op \<Rightarrow> amplifier \<Rightarrow> amplifier \<times> amp_out list" where
  "amp_step h Do_Start a = (case amp_start h a of (a', _, out) \<Rightarrow> (a', out))"
| "amp_step h Do_Stop a = (case amp_stop a of (a', _, out) \<Rightarrow> (a', out))"
| "amp_step h Do_Mute a = (case mute h a of (a', _, out) \<Rightarrow> (a', out))"
| "amp_step h Do_Unmute a = (case unmute h a of (a', _, out) \<Rightarrow> (a', out))"
| "amp_step h Do_Poll a = (case poll h a of (a', _, out) \<Rightarrow> (a', out))"

text \<open>The state after a run together with everything it sent out.\<close>

fun amp_run :: "amplifier \<Rightarrow> (hal \<times> amp_op) list \<Rightarrow> amplifier \<times> amp_out list" where
  "amp_run a [] = (a, [])"
| "amp_run a ((h, x) # rest) =
     (case amp_step h x a of (a1, o1) \<Rightarrow> case amp_run a1 rest of (a2, o2) \<Rightarrow> (a2, o1 @ o2))"

definition unhealthy :: "amp_state \<Rightarrow> bool" where
  "unhealthy s \<longleftrightarrow> s = Amp_Fault \<or> s = Amp_Overheated \<or> s = Amp_Protection"

text \<open>The last order given to the mute line, if any.\<close>

fun mute_line :: "bool option \<Rightarrow> amp_out list \<Rightarrow> bool option" where
  "mute_line m [] = m"
| "mute_line m (Call_Mute b # outs) = mute_line (Some b) outs"
| "mute_line m (_ # outs) = mute_line m outs"

lemma mute_line_append [simp]: "mute_line m (xs @ ys) = mute_line (mute_line m xs) ys"
  by (induction m xs rule: mute_line.induct) simp_all

lemma alerts_keep_line [simp]:
  "mute_line m (amp_event t # outs) = mute_line m outs" "mute_line m (temp_event t x # outs) = mute_line m outs"
  by (simp_all add: amp_event_def temp_event_def)

lemma transition_sel [simp]:
  "am_state (transition a t) = t" "am_warned (transition a t) = am_warned a"
  "am_no_hardware (transition a t) = am_no_hardware a" "am_svc (transition a t) = am_svc a"
  "am_warn_at (transition a t) = am_warn_at a" "am_shutdown_at (transition a t) = am_shutdown_at a"
  by (simp_all add: transition_def)

lemma poll_flags_line:
  assumes "poll_flags h a = (a', out)" "unhealthy (am_state a) \<Longrightarrow> m = Some True"
  shows "unhealthy (am_state a') \<Longrightarrow> mute_line m out = Some True"
    and "\<not> unhealthy (am_state a') \<Longrightarrow> a' = a"
  using assms by (auto simp: poll_flags_def Let_def unhealthy_def split: sum.splits if_splits)

lemma poll_temp_line:
  assumes "poll_temp t a = (a', out)" "unhealthy (am_state a) \<Longrightarrow> m = Some True"
  shows "unhealthy (am_state a') \<Longrightarrow> mute_line m out = Some True"
  using assms by (auto simp: poll_temp_def Let_def unhealthy_def split: if_splits)

lemma amp_step_line:
  assumes "amp_step h x a = (a', out)" "unhealthy (am_state a) \<Longrightarrow> m = Some True" "unhealthy (am_state a')"
  shows "mute_line m out = Some True"
proof (cases x)
  case Do_Poll
  obtain a1 o1 where f: "poll_flags h a = (a1, o1)" by force
  from poll_flags_line(1) [OF f assms(2)] have l: "unhealthy (am_state a1) \<Longrightarrow> mute_line m o1 = Some True" by blast
  show ?thesis
  proof (cases "am_no_hardware a")
    case True
    with Do_Poll assms show ?thesis by (simp add: poll_def)
  next
    case False
    show ?thesis
    proof (cases "hal_temp h")
      case (Inl e)
      with Do_Poll False f assms l show ?thesis by (simp add: poll_def)
    next
      case (Inr t)
      obtain a2 o2 where t: "poll_temp t a1 = (a2, o2)" by force
      with Do_Poll False f Inr assms have "a' = a2" "out = o1 @ o2" by (simp_all add: poll_def)
      with poll_temp_line [OF t l] assms(3) show ?thesis by simp
    qed
  qed
qed (use assms in \<open>auto simp: amp_start_def amp_stop_def mute_def unmute_def unhealthy_def split: if_splits\<close>)

lemma amp_run_line:
  "\<lbrakk>amp_run a ops = (a', out); unhealthy (am_state a) \<Longrightarrow> m = Some True; unhealthy (am_state a')\<rbrakk>
    \<Longrightarrow> mute_line m out = Some True"
proof (induction ops arbitrary: a m out)
  case (Cons hx rest)
  obtain h x where hx: "hx = (h, x)" by force
  obtain a1 o1 where s: "amp_step h x a = (a1, o1)" by force
  obtain a2 o2 where r: "amp_run a1 rest = (a2, o2)" by force
  from Cons.prems(1) hx s r have eq: "a' = a2" "out = o1 @ o2" by simp_all
  have "unhealthy (am_state a1) \<Longrightarrow> mute_line m o1 = Some True"
    using amp_step_line [OF s Cons.prems(2)] by blast
  with Cons.IH [of a1 o2 "mute_line m o1"] r eq Cons.prems(3) show ?case by simp
qed (simp add: unhealthy_def)

text \<open>A speaker whose amplifier is in fault, protection or thermal shutdown is silenced: after any
  sequence of operations with any hardware answers, whenever the manager is in one of these states
  the last order it gave to the mute line was to mute.\<close>

theorem unhealthy_amp_is_muted:
  assumes "amp_run (amp_new warn shut) ops = (a, out)" and "unhealthy (am_state a)"
  shows "mute_line None out = Some True"
  using amp_run_line [OF assms(1) _ assms(2)] by (simp add: amp_new_def unhealthy_def)

definition hal_ok :: "real \<Rightarrow> bool \<Rightarrow> hal" where
  "hal_ok t f = \<lparr>hal_powerOn = success, hal_mute = success,
     hal_flags = Inr \<lparr>fl_fault = f, fl_protection = False, fl_clipping = False\<rparr>, hal_temp = Inr t\<rparr>"

theorem unhealthy_amp_is_muted_witness:
  "mute_line None (snd (amp_run (amp_new 70 85) [(hal_ok 20 False, Do_Start), (hal_ok 20 False, Do_Unmute),
     (hal_ok 90 False, Do_Poll)])) = Some True"
  by (rule unhealthy_amp_is_muted [OF prod.collapse [symmetric]])
    (simp add: amp_start_def unmute_def poll_def poll_flags_def poll_temp_def hal_ok_def amp_new_def unhealthy_def)

section \<open>DAC-direct mode\<close>

lemma no_hardware_step:
  assumes "amp_step h x a = (a', out)" "am_no_hardware a"
  shows "am_no_hardware a' \<and> Call_Mute False \<notin> set out"
  using assms
  by (cases x) (auto simp: amp_start_def amp_stop_def mute_def unmute_def poll_def split: if_splits)

text \<open>DAC-direct mode is permanent: once a power-on has failed, no later sequence of operations,
  restarts with working hardware included, leaves the mode or ever releases the mute line.\<close>

theorem dac_direct_mode_sticks:
  assumes "am_no_hardware a"
  shows "am_no_hardware (fst (amp_run a ops)) \<and> Call_Mute False \<notin> set (snd (amp_run a ops))"
  using assms
proof (induction ops arbitrary: a)
  case (Cons hx rest)
  obtain h x where hx: "hx = (h, x)" by force
  obtain a1 o1 where s: "amp_step h x a = (a1, o1)" by force
  from no_hardware_step [OF s Cons.prems] Cons.IH [of a1] hx s show ?case
    by (auto split: prod.splits)
qed simp

definition hal_no_power :: hal where
  "hal_no_power = (hal_ok 20 False)\<lparr>hal_powerOn := mk_error Ec_IoError ''busy''\<rparr>"

text \<open>The first power-on fails, the service is restarted with working hardware (which mutes the
  amplifier), \<open>unmute\<close> reports success, and the mute line is still asserted.\<close>

theorem dac_direct_mode_sticks_witness:
  "mute_line None (snd (amp_run (fst (amp_step hal_no_power Do_Start (amp_new 70 85)))
     [(hal_ok 20 False, Do_Stop), (hal_ok 20 False, Do_Start), (hal_ok 20 False, Do_Unmute)])) = Some True
   \<and> Call_Mute False \<notin> set (snd (amp_run (fst (amp_step hal_no_power Do_Start (amp_new 70 85)))
     [(hal_ok 20 False, Do_Stop), (hal_ok 20 False, Do_Start), (hal_ok 20 False, Do_Unmute)]))"
  using dac_direct_mode_sticks [of "fst (amp_step hal_no_power Do_Start (amp_new 70 85))"]
  by (simp add: amp_start_def amp_stop_def unmute_def hal_no_power_def hal_ok_def amp_new_def)

section \<open>Monitoring\<close>

text \<open>A fault that coincides with an over-temperature is masked: with the fault line asserted and the
  temperature at or above the shutdown threshold, an overheated manager stays in thermal shutdown
  and passes its health check, and every single poll repeats both the fault and the overheat alert.\<close>

theorem overheat_masks_fault:
  assumes "am_state a = Amp_Overheated" "\<not> am_no_hardware a"
    and "hal_flags h = Inr f" "fl_fault f" "\<not> fl_clipping f" "hal_temp h = Inr t" "am_shutdown_at a \<le> t"
  shows "poll h a = (a, Inr t, [Call_Mute True, amp_event Ev_AmplifierFault, Call_Mute True,
      temp_event Ev_AmplifierOverheat t]) \<and> st_ok (amp_healthCheck a)"
  using assms by (simp add: poll_def poll_flags_def poll_temp_def transition_def amp_healthCheck_def)

theorem overheat_masks_fault_witness:
  "fst (poll (hal_ok 90 True) ((amp_new 70 85)\<lparr>am_state := Amp_Overheated\<rparr>)) =
     (amp_new 70 85)\<lparr>am_state := Amp_Overheated\<rparr>"
  using overheat_masks_fault [of "(amp_new 70 85)\<lparr>am_state := Amp_Overheated\<rparr>" "hal_ok 90 True"
      "\<lparr>fl_fault = True, fl_protection = False, fl_clipping = False\<rparr>" 90]
  by (simp add: hal_ok_def amp_new_def)

text \<open>\<open>unmute\<close> accepts every state that is not unhealthy, an amplifier that was never powered included.\<close>

lemma unmute_when_off:
  "fst (unmute (hal_ok 20 False) (amp_new 70 85)) = (amp_new 70 85)\<lparr>am_state := Amp_Ready\<rparr>"
  by (simp add: unmute_def hal_ok_def amp_new_def transition_def)

text \<open>How the thermal alerts are rationed: while the temperature stays between the thresholds only the
  first poll warns, and in thermal shutdown only the first poll alerts (without a fault).\<close>

lemma poll_temp_quiet:
  assumes "poll_temp t a = (a1, o1)" "poll_temp u a1 = (a2, o2)"
    and "am_warn_at a \<le> am_shutdown_at a" "am_warn_at a \<le> t" "t < am_shutdown_at a \<longleftrightarrow> u < am_shutdown_at a" "am_warn_at a \<le> u"
  shows "o2 = [] \<and> a2 = a1"
  using assms by (auto simp: poll_temp_def Let_def split: if_splits)

text \<open>Cooling down below the warning threshold ends a thermal shutdown, muted.\<close>

lemma poll_temp_recovers:
  assumes "am_warn_at a \<le> am_shutdown_at a" "t < am_warn_at a" "am_state a = Amp_Overheated"
  shows "am_state (fst (poll_temp t a)) = Amp_Muted"
  using assms by (simp add: poll_temp_def)

end
