(* ===== verification/Audio_Packet.thy ===== *)
theory Audio_Packet
  imports Nexus_Prelude
begin

text \<open>
  The wire format of the audio stream (\<open>src/src/audio/AudioPacket.h\<close>, \<open>AudioPacket.cpp\<close>). Bytes and
  samples are words of their width; \<open>size_t\<close> is 64 bits wide (the firmware's target is aarch64). A
  timestamp is kept as the 64-bit pattern of its \<open>double\<close>, which is what the codec copies.
\<close>

unbundle bit_operations_syntax

section \<open>Byte order\<close>

definition readBE32 :: "byte list \<Rightarrow> u32" where
  "readBE32 p = push_bit 24 (ucast (p ! 0)) OR push_bit 16 (ucast (p ! 1)) OR push_bit 8 (ucast (p ! 2)) OR ucast (p ! 3)"

definition readBE64 :: "byte list \<Rightarrow> u64" where
  "readBE64 p = foldl (\<lambda>v b. push_bit 8 v OR ucast b) 0 (take 8 p)"

definition writeBE32 :: "u32 \<Rightarrow> byte list" where
  "writeBE32 v = [ucast (drop_bit 24 v), ucast (drop_bit 16 v), ucast (drop_bit 8 v), ucast v]"

text \<open>The loop \<open>for (i = 7; i >= 0; --i) { p[i] = v & 0xFF; v >>= 8; }\<close>, for the n lowest bytes.\<close>

fun write_bytes :: "nat \<Rightarrow> u64 \<Rightarrow> byte list" where
  "write_bytes 0 v = []"
| "write_bytes (Suc n) v = write_bytes n (drop_bit 8 v) @ [ucast (v AND 0xFF)]"

definition writeBE64 :: "u64 \<Rightarrow> byte list" where
  "writeBE64 v = write_bytes 8 v"

section \<open>Packets\<close>

record audio_header =
  ah_timestamp :: u64
  ah_sequence :: u64
  ah_frame_count :: u32
  ah_flags :: u32

record audio_packet =
  ap_header :: audio_header
  ap_samples :: "i16 list"

definition isLast :: "audio_packet \<Rightarrow> bool" where
  "isLast p \<longleftrightarrow> ah_flags (ap_header p) AND 1 \<noteq> 0"

text \<open>\<open>memcpy\<close> between 16-bit samples and bytes on a little-endian machine.\<close>

definition sample_bytes :: "i16 \<Rightarrow> byte list" where
  "sample_bytes s = [ucast s, ucast (drop_bit 8 s)]"

fun samples_of_bytes :: "nat \<Rightarrow> byte list \<Rightarrow> i16 list" where
  "samples_of_bytes (Suc n) (b0 # b1 # bs) = (ucast b0 OR push_bit 8 (ucast b1)) # samples_of_bytes n bs"
| "samples_of_bytes _ _ = []"

definition sample_count :: "u32 \<Rightarrow> u64 \<Rightarrow> u64" where
  "sample_count frames channels = ucast frames * channels"

definition unpackPacket :: "byte list \<Rightarrow> u64 \<Rightarrow> audio_packet option" where
  "unpackPacket buf channels =
     (if length buf < 24 then None
      else
        (let h = \<lparr>ah_timestamp = readBE64 buf, ah_sequence = readBE64 (drop 8 buf),
                  ah_frame_count = readBE32 (drop 16 buf), ah_flags = readBE32 (drop 20 buf)\<rparr>;
             n = sample_count (ah_frame_count h) channels;
             need = 24 + n * 2 in
         if length buf < unat need then None
         else Some \<lparr>ap_header = h, ap_samples = samples_of_bytes (unat n) (drop 24 buf)\<rparr>))"

definition packPacket :: "audio_packet \<Rightarrow> byte list" where
  "packPacket p =
     (let h = ap_header p in
      writeBE64 (ah_timestamp h) @ writeBE64 (ah_sequence h) @ writeBE32 (ah_frame_count h) @
      writeBE32 (ah_flags h) @ concat (map sample_bytes (ap_samples p)))"

section \<open>Codec lemmas\<close>

lemma length_write_bytes [simp]: "length (write_bytes n v) = n"
  by (induction n arbitrary: v) simp_all

lemma length_writeBE [simp]: "length (writeBE64 v) = 8" "length (writeBE32 w) = 4"
  by (simp_all add: writeBE64_def writeBE32_def)

lemma low_byte: "(v :: u64) AND 0xFF = take_bit 8 v"
  by (simp add: take_bit_eq_mask mask_eq_exp_minus_1)

lemma read_write_bytes:
  "foldl (\<lambda>v b. push_bit 8 v OR ucast b) 0 (write_bytes n v) = take_bit (8 * n) v"
proof (induction n arbitrary: v)
  case (Suc n)
  have "push_bit 8 (take_bit (8 * n) (drop_bit 8 v)) OR ucast (ucast (v AND 0xFF) :: byte) = take_bit (8 * Suc n) v"
  proof (rule bit_word_eqI)
    fix i assume "i < LENGTH(64)" then
    show "bit (push_bit 8 (take_bit (8 * n) (drop_bit 8 v)) OR ucast (ucast (v AND 0xFF) :: byte)) i = bit (take_bit (8 * Suc n) v) i"
      by (cases "i < 8") (auto simp: low_byte bit_simps)
  qed
  with Suc show ?case by simp
qed simp

lemma readBE64_writeBE64 [simp]: "readBE64 (writeBE64 v @ rest) = v"
  using read_write_bytes [of 8 v] by (simp add: readBE64_def writeBE64_def take_bit_word_eq_self)

lemma readBE32_writeBE32 [simp]: "readBE32 (writeBE32 v @ rest) = v"
proof (rule bit_word_eqI)
  fix i assume "i < LENGTH(32)" then
  show "bit (readBE32 (writeBE32 v @ rest)) i = bit v i"
    by (cases "i < 8"; cases "i < 16"; cases "i < 24") (auto simp: readBE32_def writeBE32_def bit_simps)
qed

lemma sample_roundtrip: "ucast (ucast (s :: i16) :: byte) OR push_bit 8 (ucast (ucast (drop_bit 8 s) :: byte)) = s"
  by (rule bit_eqI) (auto simp: bit_simps)

lemma samples_roundtrip: "samples_of_bytes (length ss) (concat (map sample_bytes ss) @ rest) = ss"
  by (induction ss) (simp_all add: sample_bytes_def sample_roundtrip)

lemma length_sample_bytes: "length (concat (map sample_bytes ss)) = 2 * length ss"
  by (induction ss) (simp_all add: sample_bytes_def)


lemma drop_header:
  "drop 8 (writeBE64 a @ r) = r" "drop 16 (writeBE64 a @ writeBE64 b @ r) = r"
  "drop 20 (writeBE64 a @ writeBE64 b @ writeBE32 c @ r) = r"
  "drop 24 (writeBE64 a @ writeBE64 b @ writeBE32 c @ writeBE32 d @ r) = r"
  by simp_all

lemma length_samples_of_bytes: "2 * n \<le> length bs \<Longrightarrow> length (samples_of_bytes n bs) = n"
  by (induction n bs rule: samples_of_bytes.induct) auto

text \<open>The size computation does not wrap for any realistic number of channels.\<close>

lemma need_no_wrap:
  assumes "unat channels \<le> 2 ^ 16"
  shows "unat (sample_count f channels) = unat f * unat channels"
    and "unat (24 + sample_count f channels * 2) = 24 + 2 * (unat f * unat channels)"
proof -
  have f: "unat f < 2 ^ 32" using unsigned_less [of f, where ?'a = nat] by simp
  have "unat f * unat channels \<le> (2 ^ 32) * (2 ^ 16)"
    using f assms by (intro mult_le_mono) simp_all
  then have b: "unat f * unat channels \<le> 2 ^ 48" by simp
  have uc: "unat (ucast f :: u64) = unat f"
    using f by (simp add: unsigned_ucast_eq take_bit_nat_eq_self)
  show n: "unat (sample_count f channels) = unat f * unat channels"
    unfolding sample_count_def using b uc by (subst unat_mult_lem [THEN iffD1]) simp_all
  have "unat (sample_count f channels) < 2 ^ 63" using b n by simp
  then have "unat (sample_count f channels * 2) = unat (sample_count f channels) * 2"
    by (subst unat_mult_lem [THEN iffD1]) simp_all
  then show "unat (24 + sample_count f channels * 2) = 24 + 2 * (unat f * unat channels)"
    using b n by (subst unat_add_lem [THEN iffD1]) (simp_all add: mult.commute [of "unat channels"])
qed

lemma unpack_pack:
  assumes "unat channels \<le> 2 ^ 16"
    and "length (ap_samples p) = unat (ah_frame_count (ap_header p)) * unat channels"
  shows "unpackPacket (packPacket p @ rest) channels = Some p"
proof -
  obtain t sq f fl ss where p: "p = \<lparr>ap_header = \<lparr>ah_timestamp = t, ah_sequence = sq, ah_frame_count = f, ah_flags = fl\<rparr>, ap_samples = ss\<rparr>"
    by (metis audio_packet.cases audio_header.cases)
  let ?body = "concat (map sample_bytes ss) @ rest"
  have buf: "packPacket p @ rest = writeBE64 t @ writeBE64 sq @ writeBE32 f @ writeBE32 fl @ ?body"
    by (simp add: packPacket_def p)
  have len: "length (packPacket p @ rest) \<ge> 24 + 2 * length ss"
    by (simp add: buf length_sample_bytes)
  note nw = need_no_wrap [OF assms(1), of f]
  have ls: "length ss = unat f * unat channels" using assms(2) p by simp
  have parts: "readBE64 (packPacket p @ rest) = t" "readBE64 (drop 8 (packPacket p @ rest)) = sq"
    "readBE32 (drop 16 (packPacket p @ rest)) = f" "readBE32 (drop 20 (packPacket p @ rest)) = fl"
    "drop 24 (packPacket p @ rest) = ?body"
    unfolding buf by (simp_all only: drop_header readBE64_writeBE64 readBE32_writeBE32)
  have "\<not> length (packPacket p @ rest) < 24 + 2 * length ss" using len by simp
  moreover have "samples_of_bytes (unat f * unat channels) ?body = ss"
    using samples_roundtrip [of ss rest] ls by simp
  ultimately show ?thesis
    unfolding unpackPacket_def Let_def parts by (simp add: nw ls p)
qed

text \<open>Codec round trip: a packet whose sample list has the announced \<open>frame_count * channels\<close> entries
  is decoded from its own datagram unchanged, also when further bytes follow it.\<close>

theorem packet_roundtrip:
  assumes "unat channels \<le> 2 ^ 16"
    and "length (ap_samples p) = unat (ah_frame_count (ap_header p)) * unat channels"
  shows "unpackPacket (packPacket p @ rest) channels = Some p"
  using assms by (rule unpack_pack)

theorem packet_roundtrip_witness:
  "unpackPacket (packPacket \<lparr>ap_header = \<lparr>ah_timestamp = 7, ah_sequence = 1, ah_frame_count = 1, ah_flags = 1\<rparr>,
      ap_samples = [5, 0xFFFF]\<rparr> @ [9]) 2
    = Some \<lparr>ap_header = \<lparr>ah_timestamp = 7, ah_sequence = 1, ah_frame_count = 1, ah_flags = 1\<rparr>, ap_samples = [5, 0xFFFF]\<rparr>"
  by (rule packet_roundtrip) simp_all

text \<open>The decoder stays inside the datagram: it accepts a datagram exactly when it holds the header
  and every announced sample, the size computation does not wrap around even for the largest
  \<open>frame_count\<close>, and it then delivers \<open>frame_count * channels\<close> samples.\<close>

theorem unpack_in_bounds:
  assumes "unat channels \<le> 2 ^ 16"
  shows "case unpackPacket buf channels of
      Some p \<Rightarrow> 24 + 2 * (unat (ah_frame_count (ap_header p)) * unat channels) \<le> length buf \<and>
        length (ap_samples p) = unat (ah_frame_count (ap_header p)) * unat channels
    | None \<Rightarrow> length buf < 24 \<or> length buf < 24 + 2 * (unat (readBE32 (drop 16 buf)) * unat channels)"
proof -
  note nw = need_no_wrap [OF assms]
  have "length (samples_of_bytes n (drop 24 buf)) = n" if "24 + 2 * n \<le> length buf" for n
    using that by (intro length_samples_of_bytes) simp
  then show ?thesis by (auto simp: unpackPacket_def Let_def nw)
qed

theorem unpack_in_bounds_witness:
  "unpackPacket (replicate 16 0 @ replicate 8 0xFF) 2 = None"
  using unpack_in_bounds [of 2 "replicate 16 0 @ replicate 8 0xFF"]
  by (auto simp: unpackPacket_def Let_def need_no_wrap readBE32_def)

end
