(* ===== verification/Audio_Buffer.thy ===== *)
theory Audio_Buffer
  imports Audio_Packet "HOL-Library.Sublist"
begin

text \<open>
  The jitter buffer (\<open>src/src/audio/AudioBuffer.cpp\<close>) and the locale \<open>packet_queue\<close>, the contract
  between the buffer and the playback side. Counters and sequence numbers are 64-bit words. With
  capacity 0 the source would pop an empty deque; the statements assume a positive capacity (the
  program uses 50).
\<close>

section \<open>The contract\<close>

text \<open>A run of a queue: Some p puts the packet p, None takes one. The result lists the packets taken.\<close>

fun queue_run :: "('s \<Rightarrow> 'p \<Rightarrow> 's) \<Rightarrow> ('s \<Rightarrow> 's \<times> 'p option) \<Rightarrow> 's \<Rightarrow> 'p option list \<Rightarrow> 's \<times> 'p list" where
  "queue_run put tk s [] = (s, [])"
| "queue_run put tk s (Some p # ops) = queue_run put tk (put s p) ops"
| "queue_run put tk s (None # ops) =
     (case tk s of (s1, got) \<Rightarrow> case queue_run put tk s1 ops of (s2, out) \<Rightarrow>
        (s2, (case got of None \<Rightarrow> out | Some p \<Rightarrow> p # out)))"

text \<open>The packets a run puts.\<close>

definition puts :: "'p option list \<Rightarrow> 'p list" where
  "puts ops = List.map_filter id ops"

lemma puts_simps [simp]: "puts [] = []" "puts (Some p # ops) = p # puts ops" "puts (None # ops) = puts ops"
  by (simp_all add: puts_def map_filter_simps)

lemma subseq_tl: "subseq (tl xs @ ys) (xs @ ys)"
  by (cases xs) auto

locale packet_queue =
  fixes contents :: "'s \<Rightarrow> 'p list"
    and cap :: "'s \<Rightarrow> nat"
    and put :: "'s \<Rightarrow> 'p \<Rightarrow> 's"
    and take_first :: "'s \<Rightarrow> 's \<times> 'p option"
  assumes cap_put: "cap (put s p) = cap s"
    and cap_take: "cap (fst (take_first s)) = cap s"
    and put_contents: "contents (put s p) = (if length (contents s) \<ge> cap s then tl (contents s) else contents s) @ [p]"
    and take_contents: "contents (fst (take_first s)) = tl (contents s)"
    and take_result: "snd (take_first s) = (case contents s of [] \<Rightarrow> None | p # _ \<Rightarrow> Some p)"
begin

lemma run_cap: "cap (fst (queue_run put take_first s ops)) = cap s"
proof (induction ops arbitrary: s)
  case (Cons x ops)
  show ?case
  proof (cases x)
    case None
    obtain s1 got where t: "take_first s = (s1, got)" by force
    then have "cap s1 = cap s" using cap_take [of s] by simp
    with Cons [of s1] t None show ?thesis by (auto split: prod.splits)
  qed (simp add: Cons cap_put)
qed simp

text \<open>What comes out, followed by what is still queued, is what went in with some packets missing: the
  order of arrival is never changed and nothing is invented or duplicated.\<close>

lemma take_order:
  "subseq (snd (queue_run put take_first s ops) @ contents (fst (queue_run put take_first s ops)))
     (contents s @ puts ops)"
proof (induction ops arbitrary: s)
  case (Cons x ops)
  show ?case
  proof (cases x)
    case (Some p)
    have "subseq (contents (put s p) @ puts ops) (contents s @ p # puts ops)"
      using subseq_tl [of "contents s" "p # puts ops"] by (simp add: put_contents)
    with Cons [of "put s p"] show ?thesis unfolding Some by (simp add: subseq_order.order_trans)
  next
    case None
    obtain s1 got where t: "take_first s = (s1, got)" by force
    obtain s2 out where r: "queue_run put take_first s1 ops = (s2, out)" by force
    have ih: "subseq (out @ contents s2) (tl (contents s) @ puts ops)"
      using Cons [of s1] t r take_contents [of s] by simp
    have "got = (case contents s of [] \<Rightarrow> None | p # _ \<Rightarrow> Some p)"
      using take_result [of s] t by simp
    with ih t r None show ?thesis by (cases "contents s") simp_all
  qed
qed simp

text \<open>Without overflow nothing is missing.\<close>

lemma run_lossless:
  "length (contents s) + length (puts ops) \<le> cap s \<Longrightarrow>
    snd (queue_run put take_first s ops) @ contents (fst (queue_run put take_first s ops)) = contents s @ puts ops"
proof (induction ops arbitrary: s)
  case (Cons x ops)
  show ?case
  proof (cases x)
    case (Some p)
    with Cons show ?thesis by (simp add: put_contents cap_put)
  next
    case None
    obtain s1 got where t: "take_first s = (s1, got)" by force
    obtain s2 out where r: "queue_run put take_first s1 ops = (s2, out)" by force
    have "length (contents s1) + length (puts ops) \<le> cap s1"
      using Cons.prems None take_contents [of s] cap_take [of s] t by simp
    from Cons.IH [OF this] r have ih: "out @ contents s2 = tl (contents s) @ puts ops"
      using take_contents [of s] t by simp
    have "got = (case contents s of [] \<Rightarrow> None | p # _ \<Rightarrow> Some p)"
      using take_result [of s] t by simp
    with ih t r None show ?thesis by (cases "contents s") simp_all
  qed
qed simp

end

section \<open>State\<close>

record audio_buffer =
  ab_queue :: "audio_packet list"
  ab_prefill :: nat
  ab_capacity :: nat
  ab_received :: u64
  ab_dropped_overflow :: u64
  ab_lost :: u64
  ab_underflows :: u64
  ab_last_sequence :: u64
  ab_have_last_seq :: bool

record buffer_metrics =
  bm_depth :: nat
  bm_received :: u64
  bm_dropped_overflow :: u64
  bm_lost :: u64
  bm_underflows :: u64
  bm_last_sequence :: u64

definition ab_new :: "nat \<Rightarrow> nat \<Rightarrow> audio_buffer" where
  "ab_new pre capac = \<lparr>ab_queue = [], ab_prefill = pre, ab_capacity = capac, ab_received = 0,
     ab_dropped_overflow = 0, ab_lost = 0, ab_underflows = 0, ab_last_sequence = 0, ab_have_last_seq = False\<rparr>"

section \<open>Operations\<close>

abbreviation seq_of :: "audio_packet \<Rightarrow> u64" where
  "seq_of p \<equiv> ah_sequence (ap_header p)"

text \<open>The loss accounting of \<open>push\<close>; \<open>last_sequence + 1\<close> wraps around.\<close>

definition note_sequence :: "audio_buffer \<Rightarrow> u64 \<Rightarrow> audio_buffer" where
  "note_sequence b sq =
     (let b1 = (if ab_have_last_seq b \<and> sq > ab_last_sequence b + 1
                then b\<lparr>ab_lost := ab_lost b + (sq - ab_last_sequence b - 1)\<rparr> else b) in
      if \<not> ab_have_last_seq b1 \<or> sq > ab_last_sequence b1
      then b1\<lparr>ab_last_sequence := sq, ab_have_last_seq := True\<rparr> else b1)"

definition push :: "audio_buffer \<Rightarrow> audio_packet \<Rightarrow> audio_buffer" where
  "push b p =
     (let b1 = note_sequence (b\<lparr>ab_received := ab_received b + 1\<rparr>) (seq_of p);
          b2 = (if length (ab_queue b1) \<ge> ab_capacity b1
                then b1\<lparr>ab_queue := tl (ab_queue b1), ab_dropped_overflow := ab_dropped_overflow b1 + 1\<rparr> else b1) in
      b2\<lparr>ab_queue := ab_queue b2 @ [p]\<rparr>)"

definition pop :: "audio_buffer \<Rightarrow> audio_buffer \<times> audio_packet option" where
  "pop b =
     (case ab_queue b of
        [] \<Rightarrow> (b\<lparr>ab_underflows := ab_underflows b + 1\<rparr>, None)
      | p # rest \<Rightarrow> (b\<lparr>ab_queue := rest\<rparr>, Some p))"

definition peekTimestamp :: "audio_buffer \<Rightarrow> u64 option" where
  "peekTimestamp b = (case ab_queue b of [] \<Rightarrow> None | p # _ \<Rightarrow> Some (ah_timestamp (ap_header p)))"

definition nearlyFull :: "audio_buffer \<Rightarrow> bool" where
  "nearlyFull b \<longleftrightarrow> length (ab_queue b) * 5 \<ge> ab_capacity b * 4"

definition ready :: "audio_buffer \<Rightarrow> bool" where
  "ready b \<longleftrightarrow> length (ab_queue b) \<ge> ab_prefill b"

definition depth :: "audio_buffer \<Rightarrow> nat" where
  "depth b = length (ab_queue b)"

definition metrics :: "audio_buffer \<Rightarrow> buffer_metrics" where
  "metrics b = \<lparr>bm_depth = length (ab_queue b), bm_received = ab_received b,
     bm_dropped_overflow = ab_dropped_overflow b, bm_lost = ab_lost b, bm_underflows = ab_underflows b,
     bm_last_sequence = ab_last_sequence b\<rparr>"

definition ab_reset :: "audio_buffer \<Rightarrow> audio_buffer" where
  "ab_reset b = ab_new (ab_prefill b) (ab_capacity b)"

lemma note_sequence_frame [simp]:
  "ab_queue (note_sequence b q) = ab_queue b" "ab_capacity (note_sequence b q) = ab_capacity b"
  "ab_prefill (note_sequence b q) = ab_prefill b" "ab_received (note_sequence b q) = ab_received b"
  "ab_dropped_overflow (note_sequence b q) = ab_dropped_overflow b"
  "ab_underflows (note_sequence b q) = ab_underflows b"
  by (simp_all add: note_sequence_def Let_def)

lemma push_sel [simp]:
  "ab_queue (push b p) = (if length (ab_queue b) \<ge> ab_capacity b then tl (ab_queue b) else ab_queue b) @ [p]"
  "ab_capacity (push b p) = ab_capacity b" "ab_prefill (push b p) = ab_prefill b"
  "ab_received (push b p) = ab_received b + 1" "ab_underflows (push b p) = ab_underflows b"
  "ab_dropped_overflow (push b p) = ab_dropped_overflow b + (if length (ab_queue b) \<ge> ab_capacity b then 1 else 0)"
  by (simp_all add: push_def Let_def)

lemma pop_sel [simp]:
  "ab_queue (fst (pop b)) = tl (ab_queue b)" "ab_capacity (fst (pop b)) = ab_capacity b"
  "ab_prefill (fst (pop b)) = ab_prefill b" "ab_received (fst (pop b)) = ab_received b"
  "ab_dropped_overflow (fst (pop b)) = ab_dropped_overflow b"
  "snd (pop b) = (case ab_queue b of [] \<Rightarrow> None | p # _ \<Rightarrow> Some p)"
  by (simp_all add: pop_def split: list.split)

interpretation jb: packet_queue ab_queue ab_capacity push pop
  by unfold_locales simp_all

section \<open>Order and accounting\<close>

lemma run_accounting:
  assumes "length (ab_queue b) \<le> ab_capacity b" "0 < ab_capacity b" "queue_run push pop b ops = (b', out)"
  shows "ab_received b' = ab_received b + of_nat (length (puts ops)) \<and>
    ab_dropped_overflow b' + of_nat (length out) + of_nat (length (ab_queue b')) + ab_received b
      = ab_dropped_overflow b + of_nat (length (ab_queue b)) + ab_received b' \<and>
    length (ab_queue b') \<le> ab_capacity b'"
  using assms
proof (induction ops arbitrary: b out)
  case (Cons x ops)
  show ?case
  proof (cases x)
    case (Some p)
    have le: "length (ab_queue (push b p)) \<le> ab_capacity (push b p)" "0 < ab_capacity (push b p)"
      using Cons.prems(1,2) by auto
    have r: "queue_run push pop (push b p) ops = (b', out)" using Cons.prems(3) Some by simp
    note ih0 = Cons.IH [OF le r, unfolded push_sel(4)]
    note ih = conjunct1 [OF ih0] conjunct1 [OF conjunct2 [OF ih0]] conjunct2 [OF conjunct2 [OF ih0]]
    have "ab_dropped_overflow (push b p) + of_nat (length (ab_queue (push b p)))
        = ab_dropped_overflow b + of_nat (length (ab_queue b)) + 1"
      using Cons.prems(2) by (cases "ab_queue b") (auto simp: algebra_simps)
    with ih(2) have "ab_dropped_overflow b' + of_nat (length out) + of_nat (length (ab_queue b')) + ab_received b + 1
        = ab_dropped_overflow b + of_nat (length (ab_queue b)) + ab_received b' + 1"
      by (simp only: ac_simps)
    then have "ab_dropped_overflow b' + of_nat (length out) + of_nat (length (ab_queue b')) + ab_received b
        = ab_dropped_overflow b + of_nat (length (ab_queue b)) + ab_received b'"
      by (simp only: add_right_cancel)
    with ih(1,3) Some show ?thesis by (simp add: algebra_simps)
  next
    case None
    obtain b1 got where t: "pop b = (b1, got)" by force
    obtain o2 where r: "queue_run push pop b1 ops = (b', o2)" "out = (case got of None \<Rightarrow> o2 | Some p \<Rightarrow> p # o2)"
      using Cons.prems(3) t None by (auto split: prod.splits)
    have b1: "ab_queue b1 = tl (ab_queue b)" "ab_capacity b1 = ab_capacity b" "ab_received b1 = ab_received b"
      "ab_dropped_overflow b1 = ab_dropped_overflow b" "got = (case ab_queue b of [] \<Rightarrow> None | p # _ \<Rightarrow> Some p)"
      using pop_sel [of b] t by simp_all
    have "length (ab_queue b1) \<le> ab_capacity b1" "0 < ab_capacity b1" using b1 Cons.prems(1,2) by auto
    from Cons.IH [OF this r(1)] b1 r(2) None show ?thesis
      by (cases "ab_queue b") (auto simp: algebra_simps)
  qed
qed auto

text \<open>C17. The jitter buffer is an exact bounded FIFO: over any interleaving of pushes and pops, what was
  popped followed by what is queued is the arrival sequence with packets missing (never reordered,
  duplicated or invented), the depth stays within the capacity, every push is counted, and every
  received packet is accounted for as popped, dropped on overflow or still queued.\<close>

theorem jitter_buffer_accounting:
  assumes "0 < capac" and "queue_run push pop (ab_new pre capac) ops = (b, out)"
  shows "subseq (out @ ab_queue b) (puts ops) \<and> depth b \<le> capac \<and>
    bm_received (metrics b) = of_nat (length (puts ops)) \<and>
    bm_received (metrics b) = of_nat (length out) + bm_dropped_overflow (metrics b) + of_nat (bm_depth (metrics b))"
proof -
  have "length (ab_queue (ab_new pre capac)) \<le> ab_capacity (ab_new pre capac)" "0 < ab_capacity (ab_new pre capac)"
    using assms(1) by (simp_all add: ab_new_def)
  from run_accounting [OF this assms(2)] jb.take_order [of "ab_new pre capac" ops] jb.run_cap [of "ab_new pre capac" ops] assms(2)
  show ?thesis by (simp add: metrics_def depth_def ab_new_def algebra_simps)
qed

definition demo_packet :: "u64 \<Rightarrow> audio_packet" where
  "demo_packet sq = \<lparr>ap_header = \<lparr>ah_timestamp = 0, ah_sequence = sq, ah_frame_count = 1, ah_flags = 0\<rparr>, ap_samples = [1, 2]\<rparr>"

theorem jitter_buffer_accounting_witness:
  "depth (fst (queue_run push pop (ab_new 1 2) [Some (demo_packet 1), Some (demo_packet 2), Some (demo_packet 4), None])) \<le> 2"
proof -
  obtain b out where r: "queue_run push pop (ab_new 1 2) [Some (demo_packet 1), Some (demo_packet 2), Some (demo_packet 4), None]
      = (b, out)" by force
  have "0 < (2 :: nat)" by simp
  from jitter_buffer_accounting [OF this r] show ?thesis unfolding r by simp
qed

text \<open>Packets leave in order of arrival even when their sequence numbers say otherwise.\<close>

lemma late_packet_not_reordered:
  "snd (queue_run push pop (ab_new 1 50) [Some (demo_packet 2), Some (demo_packet 1), None, None]) =
     [demo_packet 2, demo_packet 1]"
  by code_simp

section \<open>Loss detection\<close>

lemma note_sequence_forward:
  assumes "ab_have_last_seq b" "ab_last_sequence b < sq"
  shows "ab_lost (note_sequence b sq) = ab_lost b + (sq - ab_last_sequence b - 1)"
    and "ab_last_sequence (note_sequence b sq) = sq" and "ab_have_last_seq (note_sequence b sq)"
proof -
  have "sq = ab_last_sequence b + 1" if "\<not> sq > ab_last_sequence b + 1"
    using that assms(2) by (metis inc_le order.antisym not_less)
  then show "ab_lost (note_sequence b sq) = ab_lost b + (sq - ab_last_sequence b - 1)"
    using assms by (auto simp: note_sequence_def Let_def)
qed (use assms in \<open>auto simp: note_sequence_def Let_def\<close>)

lemma push_sequence [simp]:
  "ab_lost (push b p) = ab_lost (note_sequence b (seq_of p))"
  "ab_last_sequence (push b p) = ab_last_sequence (note_sequence b (seq_of p))"
  "ab_have_last_seq (push b p) = ab_have_last_seq (note_sequence b (seq_of p))"
  by (simp_all add: push_def note_sequence_def Let_def)

lemma lost_run:
  "\<lbrakk>ab_have_last_seq b; sorted_wrt (<) (ab_last_sequence b # map seq_of ps)\<rbrakk> \<Longrightarrow>
    ab_lost (foldl push b ps) + of_nat (length ps) =
      ab_lost b + (ab_last_sequence (foldl push b ps) - ab_last_sequence b) \<and>
    ab_last_sequence (foldl push b ps) = last (ab_last_sequence b # map seq_of ps)"
proof (induction ps arbitrary: b)
  case (Cons p ps)
  then have lt: "ab_last_sequence b < seq_of p" by simp
  note ns = note_sequence_forward [OF Cons.prems(1) lt]
  from Cons.IH [of "push b p"] Cons.prems ns show ?case by (simp add: algebra_simps)
qed simp

text \<open>The loss counter is exact on a stream that arrives in order: after packets with strictly
  increasing sequence numbers, received plus lost is the number of sequence numbers from the first
  to the last one.\<close>

theorem loss_counter_exact:
  assumes "sorted_wrt (<) (map seq_of (p # ps))"
  shows "ab_lost (foldl push (ab_new pre capac) (p # ps)) + of_nat (length (p # ps))
    = seq_of (last (p # ps)) - seq_of p + 1"
proof -
  have first: "ab_have_last_seq (push (ab_new pre capac) p)" "ab_lost (push (ab_new pre capac) p) = 0"
    "ab_last_sequence (push (ab_new pre capac) p) = seq_of p"
    by (simp_all add: note_sequence_def ab_new_def)
  from lost_run [of "push (ab_new pre capac) p" ps] first assms show ?thesis
    by (auto simp: last_map algebra_simps)
qed

theorem loss_counter_exact_witness:
  "ab_lost (foldl push (ab_new 1 50) [demo_packet 3, demo_packet 4, demo_packet 8]) + 3 = 6"
  using loss_counter_exact [of "demo_packet 3" "[demo_packet 4, demo_packet 8]" 1 50]
  by (simp add: demo_packet_def)

end
