(* ===== verification/Stream_Sync.thy ===== *)
theory Stream_Sync
  imports Audio_Buffer Complex_Main
begin

text \<open>
  Double-precision numbers as far as the audio path uses them, and the clock tracking of the stream
  (\<open>src/src/audio/StreamSync.cpp\<close>). A \<open>double\<close> is a finite real, an infinity or NaN. \<open>rnd\<close> is the
  rounding to 53 significant bits in the current mode; a rounded magnitude of at least \<open>2 ^ 1024\<close>
  overflows to an infinity. The statements use of \<open>rnd\<close> only that it is monotone and exact on the
  integers a \<open>double\<close> represents (\<open>ieee_round\<close>).
\<close>

unbundle bit_operations_syntax

section \<open>Doubles\<close>

datatype dbl = Fin real | PosInf | NegInf | NaN

type_synonym rounding = "real \<Rightarrow> real"

definition ieee_round :: "rounding \<Rightarrow> bool" where
  "ieee_round rnd \<longleftrightarrow> (\<forall>x y. x \<le> y \<longrightarrow> rnd x \<le> rnd y) \<and> (\<forall>i. \<bar>i\<bar> \<le> 2 ^ 53 \<longrightarrow> rnd (of_int i) = of_int i)"

lemma ieee_round_mono: "ieee_round rnd \<Longrightarrow> x \<le> y \<Longrightarrow> rnd x \<le> rnd y"
  by (simp add: ieee_round_def)

lemma ieee_round_int: "ieee_round rnd \<Longrightarrow> \<bar>i\<bar> \<le> 2 ^ 53 \<Longrightarrow> rnd (of_int i) = of_int i"
  by (simp add: ieee_round_def)

lemma ieee_round_0 [simp]: "ieee_round rnd \<Longrightarrow> rnd 0 = 0"
  using ieee_round_int [of rnd 0] by simp

lemma ieee_round_1 [simp]: "ieee_round rnd \<Longrightarrow> rnd 1 = 1"
  using ieee_round_int [of rnd 1] by simp

lemma ieee_round_id [simp]: "ieee_round (\<lambda>x. x)"
  by (simp add: ieee_round_def)

definition mk_dbl :: "rounding \<Rightarrow> real \<Rightarrow> dbl" where
  "mk_dbl rnd x = (let y = rnd x in if y \<ge> 2 ^ 1024 then PosInf else if y \<le> - (2 ^ 1024) then NegInf else Fin y)"

fun d_neg :: "dbl \<Rightarrow> dbl" where
  "d_neg (Fin a) = Fin (- a)"
| "d_neg PosInf = NegInf"
| "d_neg NegInf = PosInf"
| "d_neg NaN = NaN"

fun d_add :: "rounding \<Rightarrow> dbl \<Rightarrow> dbl \<Rightarrow> dbl" where
  "d_add rnd (Fin a) (Fin b) = mk_dbl rnd (a + b)"
| "d_add rnd NaN y = NaN"
| "d_add rnd x NaN = NaN"
| "d_add rnd PosInf NegInf = NaN"
| "d_add rnd NegInf PosInf = NaN"
| "d_add rnd PosInf y = PosInf"
| "d_add rnd NegInf y = NegInf"
| "d_add rnd (Fin a) y = y"

definition d_sub :: "rounding \<Rightarrow> dbl \<Rightarrow> dbl \<Rightarrow> dbl" where
  "d_sub rnd x y = d_add rnd x (d_neg y)"

text \<open>Multiplication by a positive finite constant.\<close>

fun d_scale :: "rounding \<Rightarrow> real \<Rightarrow> dbl \<Rightarrow> dbl" where
  "d_scale rnd c (Fin a) = mk_dbl rnd (c * a)"
| "d_scale rnd c x = x"

fun d_le0 :: "dbl \<Rightarrow> bool" where
  "d_le0 (Fin a) = (a \<le> 0)"
| "d_le0 NegInf = True"
| "d_le0 _ = False"

fun d_lt0 :: "dbl \<Rightarrow> bool" where
  "d_lt0 (Fin a) = (a < 0)"
| "d_lt0 NegInf = True"
| "d_lt0 _ = False"

fun d_gt0 :: "dbl \<Rightarrow> bool" where
  "d_gt0 (Fin a) = (a > 0)"
| "d_gt0 PosInf = True"
| "d_gt0 _ = False"

text \<open>The number a 64-bit pattern denotes (\<open>memcpy\<close> into a \<open>double\<close>).\<close>

definition double_of_bits :: "u64 \<Rightarrow> dbl" where
  "double_of_bits v =
     (let neg = bit v 63; e = unat (drop_bit 52 v AND 0x7FF); m = unat (take_bit 52 v);
          sgn = (if neg then -1 else 1 :: real) in
      if e = 0x7FF then (if m \<noteq> 0 then NaN else if neg then NegInf else PosInf)
      else if e = 0 then Fin (sgn * real m / 2 ^ 1074)
      else Fin (sgn * real (2 ^ 52 + m) * 2 ^ e / 2 ^ 1075))"

lemma double_of_bits_0 [simp]: "double_of_bits 0 = Fin 0"
  by (simp add: double_of_bits_def)

section \<open>Clock tracking\<close>

record stream_sync =
  ss_target_buffer_ms :: real
  ss_clock_offset_ms :: dbl
  ss_drift_ppm :: dbl
  ss_latency_ms :: dbl
  ss_observations :: u64
  ss_last_offset_ms :: dbl
  ss_have_offset :: bool

definition sync_new :: "real \<Rightarrow> stream_sync" where
  "sync_new target = \<lparr>ss_target_buffer_ms = target, ss_clock_offset_ms = Fin 0, ss_drift_ppm = Fin 0,
     ss_latency_ms = Fin 0, ss_observations = 0, ss_last_offset_ms = Fin 0, ss_have_offset = False\<rparr>"

definition observe :: "rounding \<Rightarrow> stream_sync \<Rightarrow> dbl \<Rightarrow> dbl \<Rightarrow> stream_sync" where
  "observe rnd s ts now =
     (let offset = d_scale rnd 1000 (d_sub rnd ts now);
          s1 = (if \<not> ss_have_offset s then s\<lparr>ss_clock_offset_ms := offset, ss_have_offset := True\<rparr>
                else
                  (let prev = ss_clock_offset_ms s;
                       off' = d_add rnd prev (d_scale rnd (rnd (1 / 10)) (d_sub rnd offset prev)) in
                   s\<lparr>ss_clock_offset_ms := off', ss_drift_ppm := d_scale rnd 1000 (d_sub rnd off' prev)\<rparr>)) in
      s1\<lparr>ss_latency_ms := (if d_lt0 offset then d_neg offset else Fin 0), ss_last_offset_ms := offset,
         ss_observations := ss_observations s1 + 1\<rparr>)"

definition msUntilDue :: "rounding \<Rightarrow> stream_sync \<Rightarrow> dbl \<Rightarrow> dbl \<Rightarrow> dbl" where
  "msUntilDue rnd s ts now = d_sub rnd (d_scale rnd 1000 (d_sub rnd ts now)) (Fin (ss_target_buffer_ms s))"

definition due :: "rounding \<Rightarrow> stream_sync \<Rightarrow> dbl \<Rightarrow> dbl \<Rightarrow> bool" where
  "due rnd s ts now = d_le0 (msUntilDue rnd s ts now)"

definition sync_reset :: "stream_sync \<Rightarrow> stream_sync" where
  "sync_reset s = sync_new (ss_target_buffer_ms s)"

lemma observe_target [simp]: "ss_target_buffer_ms (observe rnd s t n) = ss_target_buffer_ms s"
  by (simp add: observe_def Let_def)

section \<open>When a packet is due\<close>

lemma mk_dbl_le0: "ieee_round rnd \<Longrightarrow> x \<le> 0 \<Longrightarrow> d_le0 (mk_dbl rnd x)"
proof -
  assume r: "ieee_round rnd" "x \<le> 0"
  from ieee_round_mono [OF r] r have "rnd x \<le> 0" by simp
  moreover from this have "\<not> rnd x \<ge> 2 ^ 1024" by (simp add: not_le order_le_less_trans)
  ultimately show ?thesis by (simp add: mk_dbl_def Let_def)
qed

lemma d_le0_cases: "d_le0 x \<longleftrightarrow> x = NegInf \<or> (\<exists>a. x = Fin a \<and> a \<le> 0)"
  by (cases x) auto

lemma d_scale_le0: "ieee_round rnd \<Longrightarrow> 0 < c \<Longrightarrow> d_le0 x \<Longrightarrow> d_le0 (d_scale rnd c x)"
  by (auto simp: d_le0_cases [of x] mk_dbl_le0 mult_nonneg_nonpos)

lemma d_sub_le0: "ieee_round rnd \<Longrightarrow> d_le0 x \<Longrightarrow> 0 \<le> c \<Longrightarrow> d_le0 (d_sub rnd x (Fin c))"
  by (auto simp: d_le0_cases [of x] d_sub_def mk_dbl_le0)

text \<open>A packet whose time has come is due, whatever the rounding; later is never less due.\<close>

lemma due_when_reached:
  assumes "ieee_round rnd" "t \<le> now" "0 \<le> ss_target_buffer_ms s"
  shows "due rnd s (Fin t) (Fin now)"
proof -
  have "d_le0 (d_sub rnd (Fin t) (Fin now))"
    using mk_dbl_le0 [OF assms(1), of "t - now"] assms(2) by (simp add: d_sub_def)
  then have "d_le0 (d_scale rnd 1000 (d_sub rnd (Fin t) (Fin now)))"
    by (simp add: d_scale_le0 [OF assms(1)])
  then show ?thesis
    unfolding due_def msUntilDue_def by (rule d_sub_le0 [OF assms(1) _ assms(3)])
qed

section \<open>A poisoned estimate\<close>

lemma d_add_nan [simp]: "d_add rnd x NaN = NaN"
  by (cases x) simp_all

lemma d_sub_nan [simp]: "d_sub rnd NaN y = NaN" "d_sub rnd x NaN = NaN"
  by (simp_all add: d_sub_def)

lemma nan_step:
  "ss_have_offset s \<and> ss_clock_offset_ms s = NaN
    \<Longrightarrow> ss_have_offset (observe rnd s t n) \<and> ss_clock_offset_ms (observe rnd s t n) = NaN"
  by (simp add: observe_def Let_def)

text \<open>One bad timestamp disables the clock estimate for good: after an observation whose timestamp is
  NaN, which the packet decoder accepts, the smoothed offset is NaN after every later sequence of
  observations.\<close>

theorem nan_timestamp_poisons_offset:
  "ss_clock_offset_ms (foldl (\<lambda>s (t, n). observe rnd s t n) (observe rnd s0 NaN now) obs) = NaN"
proof -
  have "ss_have_offset (foldl (\<lambda>s (t, n). observe rnd s t n) s obs) \<and>
      ss_clock_offset_ms (foldl (\<lambda>s (t, n). observe rnd s t n) s obs) = NaN"
    if "ss_have_offset s \<and> ss_clock_offset_ms s = NaN" for s
    using that
  proof (induction obs arbitrary: s)
    case (Cons o1 obs)
    then show ?case using nan_step [of s] by (cases o1) simp
  qed simp
  moreover have "ss_have_offset (observe rnd s0 NaN now) \<and> ss_clock_offset_ms (observe rnd s0 NaN now) = NaN"
    by (simp add: observe_def Let_def)
  ultimately show ?thesis by blast
qed

lemma nan_pattern: "double_of_bits 0x7FF8000000000000 = NaN"
  by (simp add: double_of_bits_def)

end
