(* ===== verification/Playback.thy ===== *)
theory Playback
  imports Stream_Sync Config
begin

text \<open>
  The playback side of the audio path: \<open>AudioReceiver\<close> (datagram to buffer), \<open>PlaybackManager\<close>
  (scheduling, volume, output) and the loop of \<open>PlaybackEngine\<close> (\<open>src/src/audio\<close>). The output device,
  the DSP hook, the clock and the socket are parameters; \<open>pe_write\<close> is the answer of
  \<open>IAudioOutputHal::write\<close>. The event bus, the buffer, the sync object and the configuration are those
  of \<open>Application\<close> and never null.
\<close>

section \<open>Receiver\<close>

record receiver =
  rc_buffer :: audio_buffer
  rc_sync :: stream_sync
  rc_streaming :: bool
  rc_state :: service_state

definition audio_event :: "event_type \<Rightarrow> event" where
  "audio_event t = mk_event t ''audio''"

definition receiver_start :: "status \<Rightarrow> receiver \<Rightarrow> receiver \<times> status" where
  "receiver_start source r =
     (r\<lparr>rc_state := (if st_ok source then Svc_Running else Svc_Degraded)\<rparr>, source)"

definition receiver_stop :: "receiver \<Rightarrow> receiver \<times> event list" where
  "receiver_stop r =
     (r\<lparr>rc_streaming := False, rc_state := Svc_Stopped\<rparr>,
      (if rc_streaming r then [audio_event Ev_AudioStopped] else []))"

definition onDatagram :: "rounding \<Rightarrow> u64 \<Rightarrow> dbl \<Rightarrow> receiver \<Rightarrow> byte list \<Rightarrow> receiver \<times> event list" where
  "onDatagram rnd channels now r data =
     (case unpackPacket data channels of
        None \<Rightarrow> (r, [])
      | Some pkt \<Rightarrow>
          (let r1 = r\<lparr>rc_sync := observe rnd (rc_sync r) (double_of_bits (ah_timestamp (ap_header pkt))) now,
                      rc_buffer := push (rc_buffer r) pkt\<rparr>;
               started = (if \<not> rc_streaming r1 then [audio_event Ev_AudioStarted] else []);
               r2 = r1\<lparr>rc_streaming := True\<rparr> in
           if isLast pkt then
             (r2\<lparr>rc_streaming := False\<rparr>,
              started @ (if rc_streaming r2 then [audio_event Ev_AudioStopped] else []))
           else (r2, started)))"

section \<open>Volume\<close>

abbreviation trunc :: "real \<Rightarrow> int" where
  "trunc x \<equiv> (if x \<ge> 0 then \<lfloor>x\<rfloor> else \<lceil>x\<rceil>)"

definition clamp_int :: "int \<Rightarrow> int \<Rightarrow> int \<Rightarrow> int" where
  "clamp_int v lo hi = (if v < lo then lo else if hi < v then hi else v)"

definition clamp_real :: "real \<Rightarrow> real \<Rightarrow> real \<Rightarrow> real" where
  "clamp_real v lo hi = (if v < lo then lo else if hi < v then hi else v)"

text \<open>\<open>static_cast<int16_t>(clamp(static_cast<double>(s) * gain, -32768.0, 32767.0))\<close>.\<close>

definition scale_sample :: "rounding \<Rightarrow> real \<Rightarrow> i16 \<Rightarrow> i16" where
  "scale_sample rnd gain s = of_int (trunc (clamp_real (rnd (of_int (sint s) * gain)) (-32768) 32767))"

definition applyGain :: "rounding \<Rightarrow> audio_config \<Rightarrow> i16 list \<Rightarrow> i16 list" where
  "applyGain rnd cfg pcm =
     (if muted cfg then map (\<lambda>_. 0) pcm
      else
        (let vol = clamp_int (volume cfg) 0 100 in
         if vol = 100 then pcm
         else map (scale_sample rnd (rnd (of_int vol / 100))) pcm))"

section \<open>Playback manager\<close>

record player_env =
  pe_rnd :: rounding
  pe_clock :: "dbl option"
  pe_dsp :: "(i16 list \<Rightarrow> nat \<Rightarrow> int \<Rightarrow> i16 list) option"
  pe_write :: "i16 list \<Rightarrow> nat \<Rightarrow> nat result"

record player =
  pl_buffer :: audio_buffer
  pl_started :: bool
  pl_frames_played :: u64

type_synonym pcm_write = "i16 list \<times> nat"

text \<open>The hold test of \<open>step\<close>: the front packet is stamped, not due, and there is room to wait.\<close>

definition held :: "player_env \<Rightarrow> stream_sync \<Rightarrow> audio_buffer \<Rightarrow> bool" where
  "held e sy b =
     (case pe_clock e of
        None \<Rightarrow> False
      | Some now \<Rightarrow>
          (case peekTimestamp b of
             None \<Rightarrow> False
           | Some ts \<Rightarrow> d_gt0 (double_of_bits ts) \<and> \<not> due (pe_rnd e) sy (double_of_bits ts) now \<and> \<not> nearlyFull b))"

definition packet_frames :: "audio_packet \<Rightarrow> nat" where
  "packet_frames p =
     (if ah_frame_count (ap_header p) \<noteq> 0 then unat (ah_frame_count (ap_header p)) else length (ap_samples p) div 2)"

definition packet_channels :: "audio_packet \<Rightarrow> int" where
  "packet_channels p = (let f = packet_frames p in if f \<noteq> 0 then int (length (ap_samples p) div f) else 2)"

definition render :: "player_env \<Rightarrow> audio_config \<Rightarrow> audio_packet \<Rightarrow> i16 list" where
  "render e cfg p =
     applyGain (pe_rnd e) cfg
       (case pe_dsp e of None \<Rightarrow> ap_samples p | Some f \<Rightarrow> f (ap_samples p) (packet_frames p) (packet_channels p))"

text \<open>One call of \<open>step\<close>: the new state, the writes to the device, the frames reported.\<close>

definition step :: "player_env \<Rightarrow> stream_sync \<Rightarrow> audio_config \<Rightarrow> player \<Rightarrow> player \<times> pcm_write list \<times> nat" where
  "step e sy cfg pl =
     (if \<not> pl_started pl \<and> \<not> ready (pl_buffer pl) then (pl, [], 0)
      else
        (let pl1 = pl\<lparr>pl_started := True\<rparr> in
         if held e sy (pl_buffer pl1) then (pl1, [], 0)
         else
           (case pop (pl_buffer pl1) of
              (b, None) \<Rightarrow> (pl1\<lparr>pl_buffer := b, pl_started := False\<rparr>, [], 0)
            | (b, Some p) \<Rightarrow>
                (let out = render e cfg p; fr = packet_frames p in
                 case pe_write e out fr of
                   Inr n \<Rightarrow> (pl1\<lparr>pl_buffer := b, pl_frames_played := pl_frames_played pl1 + of_nat n\<rparr>, [(out, fr)], n)
                 | Inl _ \<Rightarrow> (pl1\<lparr>pl_buffer := b\<rparr>, [(out, fr)], 0)))))"

definition close_player :: "player \<Rightarrow> player" where
  "close_player pl = pl\<lparr>pl_started := False\<rparr>"

text \<open>One round of \<open>PlaybackEngine::loop\<close>: on a gap, 10 ms of silence keep the device fed.\<close>

definition silence :: "nat \<Rightarrow> nat \<Rightarrow> pcm_write" where
  "silence sample_rate channels = (replicate (sample_rate div 100 * channels) 0, sample_rate div 100)"

definition engine_round ::
  "player_env \<Rightarrow> stream_sync \<Rightarrow> audio_config \<Rightarrow> nat \<Rightarrow> nat \<Rightarrow> player \<Rightarrow> player \<times> pcm_write list" where
  "engine_round e sy cfg rate channels pl =
     (case step e sy cfg pl of (pl', ws, frames) \<Rightarrow>
        if frames > 0 then (pl', ws) else (pl', ws @ [silence rate channels]))"

section \<open>The stream events\<close>

datatype receiver_op = Datagram dbl "byte list" | Stop_Receiver

fun receiver_step :: "rounding \<Rightarrow> u64 \<Rightarrow> receiver \<Rightarrow> receiver_op \<Rightarrow> receiver \<times> event list" where
  "receiver_step rnd ch r (Datagram now data) = onDatagram rnd ch now r data"
| "receiver_step rnd ch r Stop_Receiver = receiver_stop r"

fun receiver_run :: "rounding \<Rightarrow> u64 \<Rightarrow> receiver \<Rightarrow> receiver_op list \<Rightarrow> receiver \<times> event list" where
  "receiver_run rnd ch r [] = (r, [])"
| "receiver_run rnd ch r (x # xs) =
     (case receiver_step rnd ch r x of (r1, e1) \<Rightarrow> case receiver_run rnd ch r1 xs of (r2, e2) \<Rightarrow> (r2, e1 @ e2))"

text \<open>Started and stopped strictly alternate, beginning with the one the flag calls for; the result is
  the flag at the end.\<close>

fun alternating :: "bool \<Rightarrow> event list \<Rightarrow> bool option" where
  "alternating on [] = Some on"
| "alternating on (e # es) =
     (if e = audio_event (if on then Ev_AudioStopped else Ev_AudioStarted) then alternating (\<not> on) es else None)"

lemma alternating_append:
  "alternating on (xs @ ys) = Option.bind (alternating on xs) (\<lambda>b. alternating b ys)"
  by (induction xs arbitrary: on) simp_all

lemma receiver_step_alternating:
  "receiver_step rnd ch r x = (r', es) \<Longrightarrow> alternating (rc_streaming r) es = Some (rc_streaming r')"
  by (cases x) (auto simp: receiver_stop_def onDatagram_def Let_def audio_event_def
      split: option.splits if_splits)

lemma receiver_run_alternating:
  "alternating (rc_streaming r) (snd (receiver_run rnd ch r xs)) = Some (rc_streaming (fst (receiver_run rnd ch r xs)))"
proof (induction xs arbitrary: r)
  case (Cons x xs)
  obtain r1 e1 where s: "receiver_step rnd ch r x = (r1, e1)" by force
  from Cons [of r1] receiver_step_alternating [OF s] s show ?case
    by (auto simp: alternating_append split: prod.splits)
qed simp

definition receiver_new :: receiver where
  "receiver_new = \<lparr>rc_buffer = ab_new 10 50, rc_sync = sync_new 80, rc_streaming = False, rc_state = Svc_Stopped\<rparr>"

text \<open>The stream is announced consistently: whatever datagrams arrive (malformed ones included) and
  whenever the service is stopped, \<open>AudioStarted\<close> and \<open>AudioStopped\<close> events strictly alternate,
  beginning with a start, and the streaming flag always tells which was last.\<close>

theorem stream_events_alternate:
  "alternating False (snd (receiver_run rnd ch receiver_new xs)) =
     Some (rc_streaming (fst (receiver_run rnd ch receiver_new xs)))"
  using receiver_run_alternating [of receiver_new rnd ch xs] by (simp add: receiver_new_def)

section \<open>The volume stage\<close>

lemma trunc_of_int [simp]: "trunc (of_int i) = i"
  by simp

lemma trunc_between: "of_int lo \<le> x \<Longrightarrow> x \<le> of_int hi \<Longrightarrow> lo \<le> trunc x \<and> trunc x \<le> hi"
  by (auto simp: le_floor_iff floor_le_iff ceiling_le_iff le_ceiling_iff)

lemma sint_range: "-32768 \<le> sint (s :: i16) \<and> sint s \<le> 32767"
  using sint_greater_eq [of s] sint_less [of s] by simp

lemma sint_of_int_range: "-32768 \<le> i \<Longrightarrow> i \<le> 32767 \<Longrightarrow> sint (of_int i :: i16) = i"
  by (simp add: signed_of_int signed_take_bit_int_eq_self)

lemma scale_sample_bounds:
  assumes "ieee_round rnd" "0 \<le> g" "g \<le> 1"
  shows "\<bar>sint (scale_sample rnd g s)\<bar> \<le> \<bar>sint s\<bar> \<and> 0 \<le> sint s * sint (scale_sample rnd g s)"
proof -
  define v where "v = sint s"
  have v: "-32768 \<le> v" "v \<le> 32767" using sint_range [of s] by (simp_all add: v_def)
  have rv: "rnd (of_int v) = of_int v" using v by (intro ieee_round_int [OF assms(1)]) simp
  define x where "x = rnd (of_int v * g)"
  have b: "(0 \<le> v \<longrightarrow> 0 \<le> x \<and> x \<le> of_int v) \<and> (v \<le> 0 \<longrightarrow> of_int v \<le> x \<and> x \<le> 0)"
  proof (intro conjI impI)
    assume "0 \<le> v"
    then show "0 \<le> x" using ieee_round_mono [OF assms(1), of 0 "of_int v * g"] assms by (simp add: x_def)
    show "x \<le> of_int v" using ieee_round_mono [OF assms(1), of "of_int v * g" "of_int v"] assms \<open>0 \<le> v\<close> rv
      by (simp add: x_def mult_left_le)
  next
    assume "v \<le> 0"
    then have "of_int v \<le> of_int v * g" using assms(3) by (simp add: mult_le_cancel_left1)
    then show "of_int v \<le> x" using ieee_round_mono [OF assms(1)] rv by (metis x_def)
    have "of_int v * g \<le> 0" using \<open>v \<le> 0\<close> assms(2) by (simp add: mult_nonpos_nonneg)
    then show "x \<le> 0" using ieee_round_mono [OF assms(1), of _ 0] assms(1) by (simp add: x_def)
  qed
  have cl: "clamp_real x (-32768) 32767 = x" using b v by (auto simp: clamp_real_def)
  define k where "k = trunc x"
  have t: "(0 \<le> v \<longrightarrow> 0 \<le> k \<and> k \<le> v) \<and> (v \<le> 0 \<longrightarrow> v \<le> k \<and> k \<le> 0)"
    unfolding k_def using b trunc_between [of 0 x v] trunc_between [of v x 0] by auto
  then have "-32768 \<le> k" "k \<le> 32767" using v by auto
  then have "sint (scale_sample rnd g s) = k"
    unfolding scale_sample_def v_def [symmetric] x_def [symmetric] cl k_def [symmetric]
    by (rule sint_of_int_range)
  with t show ?thesis by (auto simp: v_def [symmetric] zero_le_mult_iff)
qed

lemma gain_range:
  assumes "ieee_round rnd" "0 \<le> vol" "vol \<le> 100"
  shows "0 \<le> rnd (of_int vol / 100) \<and> rnd (of_int vol / 100) \<le> 1"
proof -
  have "(0 :: real) \<le> of_int vol / 100" "of_int vol / 100 \<le> (1 :: real)" using assms by simp_all
  with ieee_round_mono [OF assms(1)] assms(1) show ?thesis by (metis ieee_round_0 ieee_round_1)
qed

text \<open>The volume stage never clips, amplifies or inverts: for every configuration (even one with the
  volume out of range) and every rounding of the double arithmetic, each output sample has the sign
  of its input sample and at most its magnitude; full volume is the identity, and a muted speaker
  outputs silence.\<close>

theorem volume_stage_bounds:
  assumes "ieee_round rnd"
  shows "list_all2 (\<lambda>a b. \<bar>sint b\<bar> \<le> \<bar>sint a\<bar> \<and> 0 \<le> sint a * sint b) pcm (applyGain rnd cfg pcm) \<and>
    (if muted cfg then set (applyGain rnd cfg pcm) \<subseteq> {0}
     else if volume cfg = 100 then applyGain rnd cfg pcm = pcm else True)"
proof -
  have "0 \<le> clamp_int (volume cfg) 0 100" "clamp_int (volume cfg) 0 100 \<le> 100"
    by (simp_all add: clamp_int_def)
  from gain_range [OF assms this] scale_sample_bounds [OF assms]
  have "list_all2 (\<lambda>a b. \<bar>sint b\<bar> \<le> \<bar>sint a\<bar> \<and> 0 \<le> sint a * sint b) pcm (applyGain rnd cfg pcm)"
    by (auto simp: applyGain_def Let_def list_all2_map2 list_all2_refl list.rel_refl)
  then show ?thesis by (auto simp: applyGain_def clamp_int_def Let_def)
qed

theorem volume_stage_bounds_witness:
  "list_all2 (\<lambda>a b. \<bar>sint b\<bar> \<le> \<bar>sint a\<bar> \<and> 0 \<le> sint a * sint b) [100, 0xFF00 :: i16]
     (applyGain (\<lambda>x. x) (audio_default\<lparr>volume := 29\<rparr>) [100, 0xFF00 :: i16])"
  by (rule volume_stage_bounds [OF ieee_round_id, THEN conjunct1])

section \<open>Scheduling\<close>

text \<open>Nothing is held for ever: with the prefill reached (or playback already running) and the clock at
  or past the time stamped on the front packet, one step hands exactly that packet, rendered, to
  the output device, whatever the rounding of the arithmetic.\<close>

theorem due_packet_is_played:
  assumes "ieee_round (pe_rnd e)" "pl_started pl \<or> ready (pl_buffer pl)"
    and "ab_queue (pl_buffer pl) = p # rest" "pe_clock e = Some (Fin now)"
    and "double_of_bits (ah_timestamp (ap_header p)) = Fin t" "t \<le> now" "0 \<le> ss_target_buffer_ms sy"
  shows "fst (snd (step e sy cfg pl)) = [(render e cfg p, packet_frames p)] \<and>
    ab_queue (pl_buffer (fst (step e sy cfg pl))) = rest"
proof -
  have "\<not> held e sy (pl_buffer pl)"
    using due_when_reached [OF assms(1,6,7)] assms by (simp add: held_def peekTimestamp_def)
  then show ?thesis
    using assms(2,3) by (auto simp: step_def Let_def pop_def split: sum.splits)
qed

definition demo_player :: player where
  "demo_player = \<lparr>pl_buffer = push (ab_new 1 50) (demo_packet 1), pl_started = False, pl_frames_played = 0\<rparr>"

definition demo_player_env :: player_env where
  "demo_player_env = \<lparr>pe_rnd = (\<lambda>x. x), pe_clock = Some (Fin 5), pe_dsp = None, pe_write = (\<lambda>_ n. Inr n)\<rparr>"

theorem due_packet_is_played_witness:
  "fst (snd (step demo_player_env (sync_new 80) audio_default demo_player)) =
     [(render demo_player_env audio_default (demo_packet 1), 1)]"
  using due_packet_is_played [of demo_player_env demo_player "demo_packet 1" "[]" 5 0 "sync_new 80" audio_default]
  by (simp add: demo_player_env_def demo_player_def ready_def sync_new_def demo_packet_def packet_frames_def ab_new_def)

text \<open>A round of the environment: at most one packet arrives, then the engine takes one step.\<close>

type_synonym play_round = "audio_packet option \<times> player_env \<times> stream_sync \<times> audio_config"

definition play_round :: "player \<Rightarrow> play_round \<Rightarrow> player" where
  "play_round pl r =
     (case r of (arrival, e, sy, cfg) \<Rightarrow>
        fst (step e sy cfg
          (case arrival of None \<Rightarrow> pl | Some p \<Rightarrow> pl\<lparr>pl_buffer := push (pl_buffer pl) p\<rparr>)))"

definition paced_inv :: "player \<Rightarrow> bool" where
  "paced_inv pl \<longleftrightarrow> 5 * length (ab_queue (pl_buffer pl)) < 4 * ab_capacity (pl_buffer pl) + 5 \<and>
     5 \<le> ab_capacity (pl_buffer pl) \<and> 5 * ab_prefill (pl_buffer pl) \<le> 4 * ab_capacity (pl_buffer pl) + 5"

lemma step_frame:
  "ab_capacity (pl_buffer (fst (step e sy cfg pl))) = ab_capacity (pl_buffer pl)"
  "ab_prefill (pl_buffer (fst (step e sy cfg pl))) = ab_prefill (pl_buffer pl)"
  "ab_dropped_overflow (pl_buffer (fst (step e sy cfg pl))) = ab_dropped_overflow (pl_buffer pl)"
  by (auto simp: step_def Let_def pop_def split: list.splits sum.splits)

text \<open>After a step either the queue is below the prefill, or there is room to wait, or a packet left.\<close>

lemma step_length:
  "length (ab_queue (pl_buffer (fst (step e sy cfg pl)))) < ab_prefill (pl_buffer pl) \<or>
   5 * length (ab_queue (pl_buffer (fst (step e sy cfg pl)))) < 4 * ab_capacity (pl_buffer pl) \<or>
   length (ab_queue (pl_buffer (fst (step e sy cfg pl)))) = length (ab_queue (pl_buffer pl)) - 1"
  by (auto simp: step_def Let_def pop_def held_def nearlyFull_def ready_def
      split: list.splits sum.splits option.splits)

lemma play_round_paced:
  assumes "paced_inv pl"
  shows "paced_inv (play_round pl r) \<and>
    ab_dropped_overflow (pl_buffer (play_round pl r)) = ab_dropped_overflow (pl_buffer pl)"
proof -
  obtain arrival e sy cfg where r: "r = (arrival, e, sy, cfg)" by (rule prod_cases4)
  define pl1 where "pl1 = (case arrival of None \<Rightarrow> pl | Some p \<Rightarrow> pl\<lparr>pl_buffer := push (pl_buffer pl) p\<rparr>)"
  have lt: "length (ab_queue (pl_buffer pl)) < ab_capacity (pl_buffer pl)"
    using assms by (simp add: paced_inv_def)
  then have pl1: "length (ab_queue (pl_buffer pl1)) \<le> length (ab_queue (pl_buffer pl)) + 1"
    "ab_capacity (pl_buffer pl1) = ab_capacity (pl_buffer pl)" "ab_prefill (pl_buffer pl1) = ab_prefill (pl_buffer pl)"
    "ab_dropped_overflow (pl_buffer pl1) = ab_dropped_overflow (pl_buffer pl)"
    by (auto simp: pl1_def split: option.splits)
  have pr: "play_round pl r = fst (step e sy cfg pl1)" by (simp add: play_round_def r pl1_def)
  show ?thesis
    unfolding pr paced_inv_def step_frame pl1
    using step_length [of e sy cfg pl1] pl1 assms by (auto simp: paced_inv_def)
qed

lemma play_rounds_paced:
  "paced_inv pl \<Longrightarrow> paced_inv (foldl play_round pl rs) \<and>
     ab_dropped_overflow (pl_buffer (foldl play_round pl rs)) = ab_dropped_overflow (pl_buffer pl)"
  using play_round_paced by (induction rs arbitrary: pl) auto

text \<open>C7. Waiting never costs audio: starting from an empty buffer of the program's size, if at most one
  packet arrives between two steps, then however far in the future the packets are stamped and
  whatever the clock does, no packet is ever dropped for overflow.\<close>

theorem waiting_never_drops:
  assumes "5 \<le> capac" "5 * pre \<le> 4 * capac + 5"
  shows "ab_dropped_overflow (pl_buffer (foldl play_round
    \<lparr>pl_buffer = ab_new pre capac, pl_started = False, pl_frames_played = 0\<rparr> rounds)) = 0"
  using play_rounds_paced [of "\<lparr>pl_buffer = ab_new pre capac, pl_started = False, pl_frames_played = 0\<rparr>" rounds] assms
  by (simp add: paced_inv_def ab_new_def)

theorem waiting_never_drops_witness:
  "ab_dropped_overflow (pl_buffer (foldl play_round
    \<lparr>pl_buffer = ab_new 10 50, pl_started = False, pl_frames_played = 0\<rparr>
      (replicate 100 (Some (demo_packet 1), demo_player_env, sync_new 80, audio_default)))) = 0"
  by (rule waiting_never_drops) simp_all

text \<open>The engine writes to the device in every round: a packet or 10 ms of silence.\<close>

lemma engine_feeds_device: "snd (engine_round e sy cfg rate ch pl) \<noteq> []"
proof -
  have "frames > 0 \<Longrightarrow> ws \<noteq> []" if "step e sy cfg pl = (pl', ws, frames)" for pl' ws frames
    using that by (auto simp: step_def Let_def split: if_splits prod.splits option.splits sum.splits)
  then show ?thesis by (auto simp: engine_round_def split: prod.splits)
qed

end
