(* ===== verification/Updater.thy ===== *)
theory Updater
  imports File_Store Command
begin

text \<open>
  Signed over-the-air updates (\<open>src/src/updater\<close>): the manifest and its signature, the installer, the
  rollback copy and \<open>UpdateManager::runUpdate\<close>. The download, the post-install health check and the
  cryptographic primitives are parameters. Files are strings of bytes. Every operation on the disk
  returns the states it goes through.
\<close>

section \<open>Packages\<close>

record update_manifest =
  um_version :: string
  um_min_hardware_version :: string
  um_payload_sha256 :: string
  um_size_bytes :: int

record update_package =
  up_manifest :: update_manifest
  up_payload :: string
  up_signature_b64 :: string

definition manifest_canonicalString :: "update_manifest \<Rightarrow> string" where
  "manifest_canonicalString m =
     um_version m @ nl # um_min_hardware_version m @ nl # um_payload_sha256 m @ nl # show_int (um_size_bytes m)"

definition verify_package :: "crypto_lib \<Rightarrow> string \<Rightarrow> update_package \<Rightarrow> status" where
  "verify_package cl vendor_key pkg =
     (if vendor_key = [] then mk_error Ec_PermissionDenied ''no vendor key configured''
      else if cl_sha256Hex cl (up_payload pkg) \<noteq> um_payload_sha256 (up_manifest pkg) then
        mk_error Ec_Corrupt ''payload hash mismatch''
      else if \<not> cl_verifyEd25519 cl (cl_toBase64 cl (manifest_canonicalString (up_manifest pkg)))
                 (up_signature_b64 pkg) vendor_key then
        mk_error Ec_CryptoError ''manifest signature invalid''
      else success)"

section \<open>Installer and rollback\<close>

fun install_error :: "os_env \<Rightarrow> replace_error \<Rightarrow> status" where
  "install_error env Open_Failed = mk_error Ec_IoError (''open failed: '' @ os_strerror env)"
| "install_error env Write_Failed = mk_error Ec_IoError (''write failed: '' @ os_strerror env)"
| "install_error env Rename_Failed = mk_error Ec_IoError (''rename failed: '' @ os_strerror env)"

definition install :: "os_env \<Rightarrow> string \<Rightarrow> fsys \<Rightarrow> string \<Rightarrow> fsys list \<times> status" where
  "install env target f contents =
     (if contents = [] then ([f], mk_error Ec_InvalidArg ''empty payload'')
      else case replace_file env f (target @ ''.new'') target contents of
        (tr, None) \<Rightarrow> (tr, success)
      | (tr, Some e) \<Rightarrow> (tr, install_error env e))"

text \<open>\<open>fs::copy_file\<close> with overwriting is not atomic: it succeeds, is refused before touching the
  destination, or stops after some bytes. A successful copy also goes through the truncated
  destination.\<close>

datatype copy_answer = Copy_Done | Copy_Refused | Copy_Torn nat

fun copy_file :: "copy_answer \<Rightarrow> fsys \<Rightarrow> string \<Rightarrow> string \<Rightarrow> fsys list \<times> bool" where
  "copy_file Copy_Refused f src dst = ([f], False)"
| "copy_file (Copy_Torn n) f src dst = ([f, f(dst \<mapsto> take n (case f src of Some c \<Rightarrow> c | None \<Rightarrow> []))], False)"
| "copy_file Copy_Done f src dst = ([f, f(dst \<mapsto> []), f(dst := f src)], True)"

abbreviation backup_path :: "string \<Rightarrow> string" where
  "backup_path target \<equiv> target @ ''.prev''"

definition backup :: "copy_answer \<Rightarrow> string \<Rightarrow> string \<Rightarrow> fsys \<Rightarrow> fsys list \<times> status" where
  "backup ans err target f =
     (if f target = None then ([f], mk_error Ec_NotFound (''target missing: '' @ target))
      else case copy_file ans f target (backup_path target) of
        (tr, ok) \<Rightarrow> (tr, if ok then success else mk_error Ec_IoError (''backup failed: '' @ err)))"

definition restore :: "copy_answer \<Rightarrow> string \<Rightarrow> string \<Rightarrow> fsys \<Rightarrow> fsys list \<times> status" where
  "restore ans err target f =
     (if f (backup_path target) = None then ([f], mk_error Ec_NotFound ''no backup to restore'')
      else case copy_file ans f (backup_path target) target of
        (tr, ok) \<Rightarrow> (tr, if ok then success else mk_error Ec_IoError (''restore failed: '' @ err)))"

definition hasBackup :: "string \<Rightarrow> fsys \<Rightarrow> bool" where
  "hasBackup target f \<longleftrightarrow> f (backup_path target) \<noteq> None"

section \<open>The update manager\<close>

record update_env =
  ue_fetch :: "string \<Rightarrow> update_package result"
  ue_crypto :: crypto_lib
  ue_healthy :: bool
  ue_backup :: copy_answer
  ue_restore :: copy_answer
  ue_copy_error :: string
  ue_install :: os_env

record update_manager =
  um_vendor_key :: string
  um_target :: string
  um_allowed :: bool
  um_state :: service_state

definition updater_start :: "update_manager \<Rightarrow> update_manager" where
  "updater_start m = m\<lparr>um_state := Svc_Running\<rparr>"

definition updater_stop :: "update_manager \<Rightarrow> update_manager" where
  "updater_stop m = m\<lparr>um_state := Svc_Stopped\<rparr>"

definition setUpdatesAllowed :: "bool \<Rightarrow> update_manager \<Rightarrow> update_manager" where
  "setUpdatesAllowed b m = m\<lparr>um_allowed := b\<rparr>"

text \<open>\<open>operator<\<close> on strings: lexicographic on the bytes.\<close>

fun str_less :: "string \<Rightarrow> string \<Rightarrow> bool" where
  "str_less xs [] = False"
| "str_less [] (y # ys) = True"
| "str_less (x # xs) (y # ys) =
     ((of_char x :: nat) < of_char y \<or> (x = y \<and> str_less xs ys))"

definition update_event :: "event_type \<Rightarrow> event" where
  "update_event t = mk_event t ''updater''"

definition fail_update :: "fsys list \<Rightarrow> event list \<Rightarrow> status \<Rightarrow> fsys list \<times> event list \<times> status" where
  "fail_update tr evs s =
     (tr, evs @ [mk_event_data Ev_UpdateFailed ''updater'' [(''error'', JStr (st_message s))]], s)"

text \<open>Steps 4 to 9 of \<open>runUpdate\<close>, for a package that passed the checks.\<close>

definition apply_update :: "update_env \<Rightarrow> string \<Rightarrow> fsys \<Rightarrow> update_package \<Rightarrow> fsys list \<times> event list \<times> status" where
  "apply_update e target f pkg =
     (let started = [update_event Ev_UpdateStarted] in
      case backup (ue_backup e) (ue_copy_error e) target f of (tb, b) \<Rightarrow>
      if \<not> st_ok b then fail_update tb started b
      else case install (ue_install e) target (last tb) (up_payload pkg) of (ti, i) \<Rightarrow>
      if \<not> st_ok i then fail_update (tb @ ti) started i
      else if \<not> ue_healthy e then
        (let evs = started @ [update_event Ev_RollbackTriggered] in
         case restore (ue_restore e) (ue_copy_error e) target (last ti) of (tx, r) \<Rightarrow>
         if \<not> st_ok r then
           fail_update (tb @ ti @ tx) evs (mk_error Ec_IoError (''rollback failed: '' @ st_message r))
         else fail_update (tb @ ti @ tx) evs
                (mk_error Ec_ServiceStartFailed ''health check failed, rolled back''))
      else
        (tb @ ti,
         started @ [mk_event_data Ev_UpdateCompleted ''updater'' [(''version'', JStr (um_version (up_manifest pkg)))]],
         success))"

definition compatible :: "string \<Rightarrow> update_manifest \<Rightarrow> bool" where
  "compatible hw m \<longleftrightarrow> \<not> (um_min_hardware_version m \<noteq> [] \<and> str_less hw (um_min_hardware_version m))"

definition runUpdate ::
  "update_env \<Rightarrow> update_manager \<Rightarrow> fsys \<Rightarrow> string \<Rightarrow> string \<Rightarrow> fsys list \<times> event list \<times> status" where
  "runUpdate e m f location hw =
     (if \<not> um_allowed m then ([f], [], mk_error Ec_PermissionDenied ''updates not allowed right now'')
      else
        (let started = [update_event Ev_UpdateStarted] in
         case ue_fetch e location of
           Inl s \<Rightarrow> fail_update [f] started s
         | Inr pkg \<Rightarrow>
             (let v = verify_package (ue_crypto e) (um_vendor_key m) pkg in
              if \<not> st_ok v then fail_update [f] started v
              else if \<not> compatible hw (up_manifest pkg) then
                fail_update [f] started
                  (mk_error Ec_InvalidArg
                     (''hardware '' @ hw @ '' < required '' @ um_min_hardware_version (up_manifest pkg)))
              else apply_update e (um_target m) f pkg)))"

section \<open>The pieces\<close>

lemma update_paths [simp]:
  "p @ ''.new'' \<noteq> p" "p @ ''.prev'' \<noteq> p" "p @ ''.prev'' \<noteq> p @ ''.new''"
  "p \<noteq> p @ ''.new''" "p \<noteq> p @ ''.prev''" "p @ ''.new'' \<noteq> p @ ''.prev''"
  by auto

lemma copy_file_nonempty: "fst (copy_file a f src dst) \<noteq> []"
  by (cases a) simp_all

lemma backup_states:
  assumes "backup a err target f = (tr, st)"
  shows "tr \<noteq> []" "\<And>g. g \<in> set tr \<Longrightarrow> g target = f target" "st_ok st \<Longrightarrow> last tr (backup_path target) = f target"
    "st_ok st \<Longrightarrow> f target \<noteq> None"
  using assms by (cases a; auto simp: backup_def split: if_splits)+

lemma backup_last: "backup a err target f = (tr, st) \<Longrightarrow> last tr target = f target"
  using backup_states [of a err target f tr st] by simp

lemma install_states:
  assumes "install env target f c = (tr, st)"
  shows "tr \<noteq> []" "\<And>g. g \<in> set tr \<Longrightarrow> g target = f target \<or> g target = Some c"
    "last tr (backup_path target) = f (backup_path target)"
    "st_ok st \<Longrightarrow> last tr target = Some c" "\<not> st_ok st \<Longrightarrow> last tr target = f target"
proof -
  obtain t2 er where r: "replace_file env f (target @ ''.new'') target c = (t2, er)" by force
  have err: "\<not> st_ok (install_error env x)" for x by (cases x) simp_all
  note d = assms [unfolded install_def r prod.case]
  note fin = replace_file_final [OF r]
  show ne: "tr \<noteq> []" using d fin(1) by (auto split: if_splits option.splits)
  show each: "g target = f target \<or> g target = Some c" if "g \<in> set tr" for g
    using d that replace_file_states [OF r, of g] by (auto split: if_splits option.splits)
  show "last tr (backup_path target) = f (backup_path target)"
    using d fin by (auto split: if_splits option.splits)
  show "st_ok st \<Longrightarrow> last tr target = Some c"
    using d fin err by (auto split: if_splits option.splits)
  show "\<not> st_ok st \<Longrightarrow> last tr target = f target"
    using d fin by (auto split: if_splits option.splits)
qed

lemma restore_states:
  assumes "restore a err target f = (tr, st)"
  shows "tr \<noteq> []" "st_ok st \<Longrightarrow> last tr target = f (backup_path target)" "\<not> st_ok st \<Longrightarrow> f (backup_path target) \<noteq> None \<Longrightarrow> a \<noteq> Copy_Done"
  using assms by (cases a; auto simp: restore_def split: if_splits)+

lemma fail_update_sel [simp]:
  "fail_update tr evs s = (tr', evs', st) \<longleftrightarrow> tr' = tr \<and> st = s \<and>
     evs' = evs @ [mk_event_data Ev_UpdateFailed ''updater'' [(''error'', JStr (st_message s))]]"
  by (auto simp: fail_update_def)

text \<open>The verdict on a package: the checks of steps 1 to 3.\<close>

definition accepted :: "update_env \<Rightarrow> update_manager \<Rightarrow> string \<Rightarrow> string \<Rightarrow> update_package \<Rightarrow> bool" where
  "accepted e m location hw pkg \<longleftrightarrow> um_allowed m \<and> ue_fetch e location = Inr pkg \<and>
     st_ok (verify_package (ue_crypto e) (um_vendor_key m) pkg) \<and> compatible hw (up_manifest pkg)"

lemma runUpdate_cases:
  assumes "runUpdate e m f location hw = (tr, evs, st)"
    and fetch: "\<forall>s. ue_fetch e location = Inl s \<longrightarrow> \<not> st_ok s"
  obtains (refused) "tr = [f]" "\<not> st_ok st"
  | (applied) pkg where "accepted e m location hw pkg" "apply_update e (um_target m) f pkg = (tr, evs, st)"
proof (cases "um_allowed m")
  case False
  with assms(1) have "tr = [f]" "\<not> st_ok st" by (auto simp: runUpdate_def)
  then show thesis by (rule refused)
next
  case True
  show thesis
  proof (cases "ue_fetch e location")
    case (Inl s)
    with assms True have "tr = [f]" "\<not> st_ok st" by (auto simp: runUpdate_def)
    then show thesis by (rule refused)
  next
    case (Inr pkg)
    show thesis
    proof (cases "accepted e m location hw pkg")
      case True
      with assms(1) Inr have "apply_update e (um_target m) f pkg = (tr, evs, st)"
        by (simp add: runUpdate_def accepted_def Let_def)
      with True show thesis by (rule applied)
    next
      case False
      with assms(1) Inr \<open>um_allowed m\<close> have "tr = [f]" "\<not> st_ok st"
        by (auto simp: runUpdate_def accepted_def Let_def split: if_splits)
      then show thesis by (rule refused)
    qed
  qed
qed

lemma apply_update_outcome:
  assumes "apply_update e target f pkg = (tr, evs, st)"
  shows "st_ok st \<Longrightarrow> last tr target = Some (up_payload pkg) \<and> ue_healthy e"
    and "\<not> st_ok st \<Longrightarrow> last tr target = f target \<or> (\<not> ue_healthy e \<and> ue_restore e \<noteq> Copy_Done)"
    and "ue_healthy e \<Longrightarrow> g \<in> set tr \<Longrightarrow> g target = f target \<or> g target = Some (up_payload pkg)"
proof -
  obtain tb b where bk: "backup (ue_backup e) (ue_copy_error e) target f = (tb, b)" by force
  obtain ti i where ins: "install (ue_install e) target (last tb) (up_payload pkg) = (ti, i)" by force
  obtain tx r where rs: "restore (ue_restore e) (ue_copy_error e) target (last ti) = (tx, r)" by force
  note d = assms [unfolded apply_update_def Let_def bk ins rs prod.case]
  note B = backup_states [OF bk] and I = install_states [OF ins] and R = restore_states [OF rs]
  note bl = backup_last [OF bk]
  show "last tr target = Some (up_payload pkg) \<and> ue_healthy e" if "st_ok st"
    using d that I by (auto split: if_splits)
  show "last tr target = f target \<or> (\<not> ue_healthy e \<and> ue_restore e \<noteq> Copy_Done)" if "\<not> st_ok st"
  proof (cases "st_ok b \<and> st_ok i")
    case False
    with d that B(1) I(1,5) bl show ?thesis by (auto split: if_splits)
  next
    case True
    with d that have nh: "\<not> ue_healthy e" and l: "tr = tb @ ti @ tx" by (auto split: if_splits)
    have bp: "last ti (backup_path target) = f target" using B(3) I(3) True by simp
    show ?thesis
    proof (cases "st_ok r")
      case True
      with R(1,2) bp l show ?thesis by simp
    next
      case False
      then have "ue_restore e \<noteq> Copy_Done" using R(3) bp B(4) \<open>st_ok b \<and> st_ok i\<close> by auto
      with nh show ?thesis by blast
    qed
  qed
  show "g target = f target \<or> g target = Some (up_payload pkg)" if h: "ue_healthy e" and g: "g \<in> set tr"
  proof -
    have "tr = tb \<or> tr = tb @ ti" using d h by (auto split: if_splits)
    with g B(2) I(2) [of g] bl show ?thesis by auto
  qed
qed

subsection \<open>What the compatibility test promises\<close>

text \<open>The test compares strings. For versions \<open>major.minor\<close> whose parts have equally many digits that is the order of
  the versions; in general it is not (\<open>version_gate_is_lexicographic\<close>).\<close>

definition hw_version :: "nat \<Rightarrow> nat \<Rightarrow> string" where
  "hw_version major minor = show_nat major @ ''.'' @ show_nat minor"

definition same_width :: "nat \<Rightarrow> nat \<Rightarrow> bool" where
  "same_width m n \<longleftrightarrow> length (show_nat m) = length (show_nat n)"

definition all_digits :: "string \<Rightarrow> bool" where
  "all_digits s \<longleftrightarrow> (\<forall>c\<in>set s. 48 \<le> (of_char c :: nat) \<and> (of_char c :: nat) < 58)"

lemma read_nat_Cons: "read_nat (c # s) = (of_char c - 48) * 10 ^ length s + read_nat s"
  by (induction s rule: rev_induct) (simp_all add: read_nat_def algebra_simps)

lemma read_nat_bound: "all_digits s \<Longrightarrow> read_nat s < 10 ^ length s"
proof (induction s)
  case (Cons c s)
  then have "(of_char c - 48 :: nat) \<le> 9" "read_nat s < 10 ^ length s" by (auto simp: all_digits_def)
  then have "(of_char c - 48) * 10 ^ length s + read_nat s < 9 * 10 ^ length s + 10 ^ length s"
    by (meson add_le_less_mono mult_le_mono1)
  then show ?case by (simp add: read_nat_Cons)
qed (simp add: read_nat_def)

lemma str_less_append:
  "length xs = length ys \<Longrightarrow> str_less (xs @ us) (ys @ vs) \<longleftrightarrow> str_less xs ys \<or> xs = ys \<and> str_less us vs"
  by (induction xs ys rule: list_induct2) auto

lemma str_less_numbers:
  "length xs = length ys \<Longrightarrow> all_digits xs \<Longrightarrow> all_digits ys \<Longrightarrow> str_less xs ys \<longleftrightarrow> read_nat xs < read_nat ys"
proof (induction xs ys rule: list_induct2)
  case (Cons x xs y ys)
  let ?p = "10 ^ length xs :: nat"
  have d: "all_digits xs" "all_digits ys" using Cons.prems by (auto simp: all_digits_def)
  have b: "read_nat xs < ?p" "read_nat ys < ?p" using read_nat_bound [OF d(1)] read_nat_bound [OF d(2)] Cons.hyps by simp_all
  have c: "48 \<le> (of_char x :: nat)" "48 \<le> (of_char y :: nat)" using Cons.prems by (auto simp: all_digits_def)
  have step: "m * ?p + r < n * ?p + t" if "m < n" "r < ?p" for m n r t :: nat
  proof -
    have "m * ?p + r < Suc m * ?p" using that by simp
    also have "\<dots> \<le> n * ?p" using that(1) by (intro mult_le_mono1) simp
    finally show ?thesis by linarith
  qed
  consider "(of_char x :: nat) < of_char y" | "(of_char y :: nat) < of_char x" | "x = y"
    by (metis linorder_neqE_nat of_char_eq_iff)
  then show ?case
  proof cases
    case 1
    with c step [of "of_char x - 48" "of_char y - 48" "read_nat xs" "read_nat ys"] b Cons.hyps show ?thesis
      by (simp add: read_nat_Cons)
  next
    case 2
    then have "(of_char y - 48 :: nat) < of_char x - 48" using c by linarith
    from step [OF this b(2), of "read_nat xs"] 2 Cons.hyps show ?thesis by (auto simp: read_nat_Cons)
  next
    case 3
    with Cons.IH [OF d] Cons.hyps show ?thesis by (simp add: read_nat_Cons)
  qed
qed simp

lemma all_digits_show_nat: "all_digits (show_nat n)"
  using show_nat_digits by (simp add: all_digits_def)

lemma compatible_versions:
  assumes "compatible (hw_version a b) m" "um_min_hardware_version m = hw_version c d" "same_width a c" "same_width b d"
  shows "c < a \<or> c = a \<and> d \<le> b"
proof -
  have "\<not> str_less (hw_version a b) (hw_version c d)" using assms(1,2) by (simp add: compatible_def hw_version_def)
  then show ?thesis
    using assms(3,4) str_less_append [of "show_nat a" "show_nat c"] str_less_numbers [of "show_nat a" "show_nat c"]
      str_less_numbers [of "show_nat b" "show_nat d"]
    by (auto simp: hw_version_def same_width_def all_digits_show_nat read_show_nat show_nat_inj)
qed

text \<open>C6. The outcome of an update. Success means that a fetched package was verified (payload hash and vendor signature), that it
  passed the compatibility test of the code and that it is now the installed binary. The test is a comparison of strings: the
  device's hardware version is not below the package's minimum in the order of strings; where both are \<open>major.minor\<close> and
  their parts have equally many digits, this means that the device's version is at least the minimum. (Nothing more follows:
  hardware 2.0 passes for a minimum of 10.0.) A failure leaves the old binary in place, unless the health check failed and copying the backup back failed
  as well.\<close>

theorem update_outcome:
  assumes "runUpdate e m f location hw = (tr, evs, st)"
    and "\<forall>s. ue_fetch e location = Inl s \<longrightarrow> \<not> st_ok s"
  shows "if st_ok st
    then \<exists>pkg. ue_fetch e location = Inr pkg \<and> st_ok (verify_package (ue_crypto e) (um_vendor_key m) pkg) \<and>
      (um_min_hardware_version (up_manifest pkg) = [] \<or> \<not> str_less hw (um_min_hardware_version (up_manifest pkg))) \<and>
      (\<forall>a b c d. hw = hw_version a b \<and> um_min_hardware_version (up_manifest pkg) = hw_version c d \<and> same_width a c \<and> same_width b d \<longrightarrow>
         c < a \<or> c = a \<and> d \<le> b) \<and>
      last tr (um_target m) = Some (up_payload pkg)
    else last tr (um_target m) = f (um_target m) \<or> (\<not> ue_healthy e \<and> ue_restore e \<noteq> Copy_Done)"
  using assms
proof (cases rule: runUpdate_cases)
  case refused
  then show ?thesis by simp
next
  case (applied pkg)
  note out = apply_update_outcome(1,2) [OF applied(2)]
  show ?thesis
  proof (cases "st_ok st")
    case True
    have ok: "compatible hw (up_manifest pkg)" "ue_fetch e location = Inr pkg"
      "st_ok (verify_package (ue_crypto e) (um_vendor_key m) pkg)"
      using applied(1) by (simp_all add: accepted_def)
    have "c < a \<or> c = a \<and> d \<le> b"
      if "hw = hw_version a b \<and> um_min_hardware_version (up_manifest pkg) = hw_version c d \<and> same_width a c \<and> same_width b d" for a b c d
      using that ok(1) compatible_versions by metis
    moreover have "um_min_hardware_version (up_manifest pkg) = [] \<or> \<not> str_less hw (um_min_hardware_version (up_manifest pkg))"
      using ok(1) by (simp add: compatible_def)
    ultimately show ?thesis using True ok(2,3) out(1) by (simp only: if_True) blast
  next
    case False
    with out(2) show ?thesis by simp
  qed
qed

definition demo_update_env :: "bool \<Rightarrow> update_env" where
  "demo_update_env healthy = \<lparr>ue_fetch = (\<lambda>_. Inr \<lparr>up_manifest = \<lparr>um_version = ''2'', um_min_hardware_version = [],
       um_payload_sha256 = ''new'', um_size_bytes = 3\<rparr>, up_payload = ''new'', up_signature_b64 = ''sig''\<rparr>),
     ue_crypto = \<lparr>cl_toBase64 = (\<lambda>m. m), cl_verifyEd25519 = (\<lambda>m sg k. sg = ''sig''), cl_sha256Hex = (\<lambda>m. m)\<rparr>,
     ue_healthy = healthy, ue_backup = Copy_Done, ue_restore = Copy_Done, ue_copy_error = [], ue_install = os_fine\<rparr>"

definition demo_updater :: update_manager where
  "demo_updater = \<lparr>um_vendor_key = ''k'', um_target = ''t'', um_allowed = True, um_state = Svc_Running\<rparr>"

text \<open>The instance: an unhealthy new binary is rolled back.\<close>

theorem update_outcome_witness:
  "last (fst (runUpdate (demo_update_env False) demo_updater [''t'' \<mapsto> ''old''] ''url'' ''1.0'')) ''t'' = Some ''old''"
proof -
  obtain tr evs st where r: "runUpdate (demo_update_env False) demo_updater [''t'' \<mapsto> ''old''] ''url'' ''1.0'' = (tr, evs, st)"
    by (rule prod_cases3)
  have "\<not> st_ok st"
    using r runUpdate_cases [OF r] apply_update_outcome(1) [of "demo_update_env False" _ _ _ tr evs st]
    by (auto simp: demo_update_env_def)
  with update_outcome [OF r] r show ?thesis by (simp add: demo_update_env_def demo_updater_def)
qed

text \<open>The installation is never torn: as long as the new binary is healthy, in every state the
  file system goes through the target is either the complete old binary or the complete payload of a
  verified package.\<close>

theorem update_never_torn:
  assumes "runUpdate e m f location hw = (tr, evs, st)"
    and "\<forall>s. ue_fetch e location = Inl s \<longrightarrow> \<not> st_ok s" and "ue_healthy e" and "g \<in> set tr"
  shows "g (um_target m) = f (um_target m) \<or>
    (\<exists>pkg. st_ok (verify_package (ue_crypto e) (um_vendor_key m) pkg) \<and> g (um_target m) = Some (up_payload pkg))"
  using assms(1,2)
proof (cases rule: runUpdate_cases)
  case refused
  with assms(4) show ?thesis by simp
next
  case (applied pkg)
  with apply_update_outcome(3) [OF applied(2) assms(3,4)] show ?thesis by (auto simp: accepted_def)
qed

theorem update_never_torn_witness:
  "list_all (\<lambda>g. g ''t'' = Some ''old'' \<or> (\<exists>pkg. st_ok (verify_package (ue_crypto (demo_update_env True)) ''k'' pkg) \<and>
       g ''t'' = Some (up_payload pkg)))
     (fst (runUpdate (demo_update_env True) demo_updater [''t'' \<mapsto> ''old''] ''url'' ''1.0''))"
proof -
  obtain tr evs st where r: "runUpdate (demo_update_env True) demo_updater [''t'' \<mapsto> ''old''] ''url'' ''1.0'' = (tr, evs, st)"
    by (rule prod_cases3)
  have h: "\<forall>s. ue_fetch (demo_update_env True) ''url'' = Inl s \<longrightarrow> \<not> st_ok s" "ue_healthy (demo_update_env True)"
    by (simp_all add: demo_update_env_def)
  have t: "um_target demo_updater = ''t''" "um_vendor_key demo_updater = ''k''" by (simp_all add: demo_updater_def)
  show ?thesis using update_never_torn [OF r h, unfolded t] unfolding r list_all_iff by simp
qed

text \<open>The compatibility gate compares strings: hardware 2.0 passes as 10.0 or newer, and hardware 10.0
  is refused by a package that requires 9.0.\<close>

lemma version_gate_is_lexicographic:
  "um_min_hardware_version m = ''10.0'' \<Longrightarrow> compatible ''2.0'' m"
  "um_min_hardware_version m' = ''9.0'' \<Longrightarrow> \<not> compatible ''10.0'' m'"
  by (simp_all add: compatible_def)

end
