(* ===== verification/Secure_Storage.thy ===== *)
theory Secure_Storage
  imports File_Store
begin

text \<open>
  The file-backed secret store (\<open>src/src/storage/SecureStorage.cpp\<close>) and the locale \<open>key_store\<close>, the
  contract the pairing service relies on. File modes and the creation of the directory are not
  part of the model.
\<close>

section \<open>The contract\<close>

locale key_store =
  fixes valid :: "'k \<Rightarrow> bool"
    and clash :: "'k \<Rightarrow> 'k \<Rightarrow> bool"
    and put :: "'e \<Rightarrow> 's \<Rightarrow> 'k \<Rightarrow> 'v \<Rightarrow> 's \<times> status"
    and look :: "'s \<Rightarrow> 'k \<Rightarrow> 'v option"
  assumes put_ok: "put e s k v = (s', st) \<Longrightarrow> st_ok st \<Longrightarrow> valid k \<and> look s' k = Some v"
    and put_fail: "put e s k v = (s', st) \<Longrightarrow> \<not> st_ok st \<Longrightarrow> look s' k = look s k"
    and put_other: "put e s k v = (s', st) \<Longrightarrow> k' \<noteq> k \<Longrightarrow> \<not> clash k k' \<Longrightarrow> look s' k' = look s k'"
begin

text \<open>Two secrets stored one after the other are both there (the shape of \<open>persistPairing\<close>).\<close>

lemma put_two:
  assumes "put e s k v = (s1, st1)" "put e' s1 k' v' = (s2, st2)" "st_ok st1" "st_ok st2"
    and "k \<noteq> k'" "\<not> clash k' k"
  shows "look s2 k = Some v \<and> look s2 k' = Some v'"
  using put_ok [OF assms(1,3)] put_ok [OF assms(2,4)] put_other [OF assms(2,5,6)] by simp

end

section \<open>The implementation\<close>

definition key_char :: "char \<Rightarrow> bool" where
  "key_char c \<longleftrightarrow>
     (let n = (of_char c :: nat) in (48 \<le> n \<and> n \<le> 57) \<or> (65 \<le> n \<and> n \<le> 90) \<or> (97 \<le> n \<and> n \<le> 122)) \<or>
     c = CHR ''_'' \<or> c = CHR ''-'' \<or> c = CHR ''.''"

definition validKey :: "string \<Rightarrow> bool" where
  "validKey key \<longleftrightarrow> key \<noteq> [] \<and> list_all key_char key \<and> hd key \<noteq> CHR ''.''"

record secure_storage =
  sec_dir :: string
  sec_fs :: fsys

definition pathFor :: "secure_storage \<Rightarrow> string \<Rightarrow> string" where
  "pathFor s key = sec_dir s @ ''/'' @ key"

fun secret_error :: "os_env \<Rightarrow> replace_error \<Rightarrow> status" where
  "secret_error env Open_Failed = mk_error Ec_SecureStoreError (''open failed: '' @ os_strerror env)"
| "secret_error env Write_Failed = mk_error Ec_SecureStoreError (''write failed: '' @ os_strerror env)"
| "secret_error env Rename_Failed = mk_error Ec_SecureStoreError (''rename failed: '' @ os_strerror env)"

definition put_secret :: "os_env \<Rightarrow> secure_storage \<Rightarrow> string \<Rightarrow> string \<Rightarrow> secure_storage \<times> status" where
  "put_secret env s key val =
     (if \<not> validKey key then (s, mk_error Ec_InvalidArg ''invalid secret key'')
      else
        (let target = pathFor s key in
         case replace_file env (sec_fs s) (target @ ''.tmp'') target val of
           (tr, None) \<Rightarrow> (s\<lparr>sec_fs := last tr\<rparr>, success)
         | (tr, Some e) \<Rightarrow> (s\<lparr>sec_fs := last tr\<rparr>, secret_error env e)))"

definition get_secret :: "(string \<Rightarrow> bool) \<Rightarrow> secure_storage \<Rightarrow> string \<Rightarrow> string result" where
  "get_secret readable s key =
     (if \<not> validKey key then Inl (mk_error Ec_InvalidArg ''invalid secret key'')
      else case sec_fs s (pathFor s key) of
        Some v \<Rightarrow> if readable (pathFor s key) then Inr v
                  else Inl (mk_error Ec_NotFound (''secret not found: '' @ key))
      | None \<Rightarrow> Inl (mk_error Ec_NotFound (''secret not found: '' @ key)))"

definition has_secret :: "secure_storage \<Rightarrow> string \<Rightarrow> bool" where
  "has_secret s key \<longleftrightarrow> validKey key \<and> sec_fs s (pathFor s key) \<noteq> None"

definition erase_secret :: "bool \<Rightarrow> secure_storage \<Rightarrow> string \<Rightarrow> secure_storage \<times> status" where
  "erase_secret removable s key =
     (if \<not> validKey key then (s, mk_error Ec_InvalidArg ''invalid secret key'')
      else (s\<lparr>sec_fs := (if removable then (sec_fs s)(pathFor s key := None) else sec_fs s)\<rparr>, success))"

text \<open>What is stored under a key, whether or not the file can be opened.\<close>

definition stored :: "secure_storage \<Rightarrow> string \<Rightarrow> string option" where
  "stored s key = sec_fs s (pathFor s key)"

lemma pathFor_inj [simp]: "pathFor s k = pathFor s k' \<longleftrightarrow> k = k'"
  by (simp add: pathFor_def)

lemma pathFor_tmp: "pathFor s k' = pathFor s k @ ''.tmp'' \<longleftrightarrow> k' = k @ ''.tmp''"
  by (simp add: pathFor_def)

lemma pathFor_fs [simp]: "pathFor (s\<lparr>sec_fs := f\<rparr>) k = pathFor s k"
  by (simp add: pathFor_def)

lemma secret_error_not_ok [simp]: "\<not> st_ok (secret_error env e)"
  by (cases e) simp_all

lemma put_secret_cases:
  assumes "put_secret env s k v = (s', st)"
  obtains (invalid) "\<not> validKey k" "s' = s" "\<not> st_ok st"
  | (ok) "validKey k" "s' = s\<lparr>sec_fs := (sec_fs s)(pathFor s k \<mapsto> v, pathFor s k @ ''.tmp'' := None)\<rparr>" "st_ok st"
  | (failed) "validKey k" "s' = s \<or> s' = s\<lparr>sec_fs := (sec_fs s)(pathFor s k @ ''.tmp'' := None)\<rparr>" "\<not> st_ok st"
proof (cases "validKey k")
  case False
  with assms show thesis by (intro invalid) (auto simp: put_secret_def)
next
  case True
  obtain tr e where r: "replace_file env (sec_fs s) (pathFor s k @ ''.tmp'') (pathFor s k) v = (tr, e)" by force
  note fin = replace_file_final [OF r]
  show thesis
  proof (cases e)
    case None
    with assms True r fin(2) show thesis by (intro ok) (auto simp: put_secret_def Let_def)
  next
    case (Some er)
    with assms True r have eq: "s' = s\<lparr>sec_fs := last tr\<rparr>" "\<not> st_ok st" by (auto simp: put_secret_def Let_def)
    have "last tr = sec_fs s \<or> last tr = (sec_fs s)(pathFor s k @ ''.tmp'' := None)" using fin(3) Some by simp
    then show thesis using eq True by (intro failed) auto
  qed
qed

lemma put_secret_fine: "validKey k \<Longrightarrow> st_ok (snd (put_secret os_fine s k v))"
  using replace_file_fine [of "sec_fs s" "pathFor s k @ ''.tmp''" "pathFor s k" v]
  by (auto simp: put_secret_def Let_def split: prod.splits option.splits)

interpretation secrets: key_store validKey "\<lambda>k k'. k' = k @ ''.tmp''" put_secret stored
proof
  fix e s k v s' st k'
  assume p: "put_secret e s k v = (s', st)"
  show "st_ok st \<Longrightarrow> validKey k \<and> stored s' k = Some v"
    using p by (cases rule: put_secret_cases) (auto simp: stored_def)
  show "\<not> st_ok st \<Longrightarrow> stored s' k = stored s k"
    using p by (cases rule: put_secret_cases) (auto simp: stored_def)
  show "k' \<noteq> k \<Longrightarrow> \<not> k' = k @ ''.tmp'' \<Longrightarrow> stored s' k' = stored s k'"
    using p by (cases rule: put_secret_cases) (auto simp: stored_def pathFor_tmp)
qed

section \<open>Confinement\<close>

lemma validKey_no_slash: "validKey k \<Longrightarrow> CHR ''/'' \<notin> set k"
  by (auto simp: validKey_def list_all_iff key_char_def Let_def)

lemma validKey_not_dots: "validKey k \<Longrightarrow> k \<noteq> ''.'' \<and> k \<noteq> ''..''"
  by (auto simp: validKey_def)

text \<open>Secrets stay in their directory and do not overwrite each other: a \<open>put\<close> changes at most the file
  \<open>dir/key\<close> and its temporary sibling, only for a key without a slash that is not a dot name; on
  success \<open>get\<close> returns the value, on failure the old secret is still there, and no other secret
  changes, except that a secret whose name is the key followed by \<open>.tmp\<close> is destroyed.\<close>

theorem secret_put_get:
  assumes "put_secret env s k v = (s', st)"
  shows "(if st_ok st then get_secret (\<lambda>_. True) s' k = Inr v else stored s' k = stored s k) \<and>
    (\<forall>p. p \<notin> {pathFor s k, pathFor s k @ ''.tmp''} \<longrightarrow> sec_fs s' p = sec_fs s p) \<and>
    (s' \<noteq> s \<longrightarrow> CHR ''/'' \<notin> set k \<and> k \<noteq> ''.'' \<and> k \<noteq> ''..'') \<and>
    (st_ok st \<longrightarrow> stored s' (k @ ''.tmp'') = None)"
  using assms
  by (cases rule: put_secret_cases)
    (auto simp: get_secret_def stored_def validKey_no_slash validKey_not_dots pathFor_tmp [THEN iffD2, OF refl])

theorem secret_put_get_witness:
  "stored (fst (put_secret os_fine (fst (put_secret os_fine \<lparr>sec_dir = ''d'', sec_fs = Map.empty\<rparr> ''k.tmp'' ''old'')) ''k'' ''v''))
     ''k.tmp'' = None"
proof -
  let ?s = "fst (put_secret os_fine \<lparr>sec_dir = ''d'', sec_fs = Map.empty\<rparr> ''k.tmp'' ''old'')"
  obtain s' st where p: "put_secret os_fine ?s ''k'' ''v'' = (s', st)" by force
  have "validKey ''k''" by (simp add: validKey_def key_char_def)
  then have "st_ok st" using p put_secret_fine [of "''k''" ?s "''v''"] by simp
  with secret_put_get [OF p] p show ?thesis by simp
qed

end
