(* ===== verification/Pairing.thy ===== *)
theory Pairing
  imports Secure_Storage Config_Manager Command
begin

text \<open>
  Secure pairing with a Streamer (\<open>src/src/pairing\<close>, \<open>src/src/identity/ApCredentials.cpp\<close>): streamer
  identifiers and the access-point credentials derived from them, the request and its canonical
  string, the validator, \<open>PairingService\<close>, and the handler that \<open>Application\<close> installs for pairing
  messages. \<open>KeyManager::openSealed\<close> and the cryptographic primitives are parameters.
\<close>

section \<open>Streamer identifiers and access points\<close>

definition hex_digit :: "char \<Rightarrow> bool" where
  "hex_digit c \<longleftrightarrow> (let n = (of_char c :: nat) in (48 \<le> n \<and> n \<le> 57) \<or> (97 \<le> n \<and> n \<le> 102))"

definition isWellFormedStreamerId :: "string \<Rightarrow> bool" where
  "isWellFormedStreamerId i \<longleftrightarrow> length i = 12 \<and> take 4 i = ''STR-'' \<and> list_all hex_digit (drop 4 i)"

record ap_credentials =
  ap_ssid :: string
  ap_passphrase :: string

definition deriveApCredentials :: "crypto_lib \<Rightarrow> string \<Rightarrow> ap_credentials" where
  "deriveApCredentials cl i =
     \<lparr>ap_ssid = ''Nexus-'' @ i, ap_passphrase = take 24 (cl_sha256Hex cl (''nexus-audio-ap-v1:'' @ i))\<rparr>"

definition streamerIdFromApSsid :: "string \<Rightarrow> string option" where
  "streamerIdFromApSsid ssid =
     (if take 6 ssid \<noteq> ''Nexus-'' then None
      else (let i = drop 6 ssid in if take 4 i \<noteq> ''STR-'' then None else Some i))"

lemma ap_ssid_roundtrip:
  "isWellFormedStreamerId i \<Longrightarrow> streamerIdFromApSsid (ap_ssid (deriveApCredentials cl i)) = Some i"
  by (simp add: streamerIdFromApSsid_def deriveApCredentials_def isWellFormedStreamerId_def)

lemma setup_ap_not_streamer: "streamerIdFromApSsid ''Nexus-Setup'' = None"
  by (simp add: streamerIdFromApSsid_def)

section \<open>Requests\<close>

record pairing_request =
  rq_streamer_id :: string
  rq_streamer_public_key :: string
  rq_site_id :: string
  rq_initial_speaker_name :: string
  rq_setup_code :: string
  rq_sealed_wifi_b64 :: string
  rq_signature_b64 :: string

record wifi_credentials =
  wc_ssid :: string
  wc_psk :: string

record pairing_result =
  pr_streamer_id :: string
  pr_streamer_public_key :: string
  pr_site_id :: string
  pr_speaker_name :: string
  pr_wifi :: wifi_credentials

definition request_canonicalString :: "pairing_request \<Rightarrow> string" where
  "request_canonicalString r =
     rq_streamer_id r @ nl # rq_streamer_public_key r @ nl # rq_site_id r @ nl # rq_initial_speaker_name r @ nl #
     rq_setup_code r @ nl # rq_sealed_wifi_b64 r"

definition validate_request :: "crypto_lib \<Rightarrow> pairing_request \<Rightarrow> string \<Rightarrow> int \<Rightarrow> int \<Rightarrow> status" where
  "validate_request cl r expected_code now expiry =
     (if rq_streamer_id r = [] \<or> rq_streamer_public_key r = [] then mk_error Ec_InvalidArg ''missing streamer identity''
      else if \<not> isWellFormedStreamerId (rq_streamer_id r) then mk_error Ec_InvalidArg ''malformed streamer_id''
      else if expected_code = [] then mk_error Ec_PermissionDenied ''no active setup code''
      else if now > expiry then mk_error Ec_Timeout ''setup code expired''
      else if rq_setup_code r \<noteq> expected_code then mk_error Ec_PermissionDenied ''setup code mismatch''
      else if rq_sealed_wifi_b64 r = [] then mk_error Ec_InvalidArg ''missing sealed wifi credentials''
      else if \<not> cl_verifyEd25519 cl (cl_toBase64 cl (request_canonicalString r)) (rq_signature_b64 r)
                 (rq_streamer_public_key r) then
        mk_error Ec_CryptoError ''pairing request signature invalid''
      else success)"

lemma validate_request_ok_iff:
  "st_ok (validate_request cl r code now expiry) \<longleftrightarrow>
     rq_streamer_id r \<noteq> [] \<and> rq_streamer_public_key r \<noteq> [] \<and> isWellFormedStreamerId (rq_streamer_id r) \<and>
     code \<noteq> [] \<and> now \<le> expiry \<and> rq_setup_code r = code \<and> rq_sealed_wifi_b64 r \<noteq> [] \<and>
     cl_verifyEd25519 cl (cl_toBase64 cl (request_canonicalString r)) (rq_signature_b64 r) (rq_streamer_public_key r)"
  by (auto simp: validate_request_def)

section \<open>The service\<close>

record pairing_env =
  pv_json :: json_lib
  pv_crypto :: crypto_lib
  pv_open :: "string \<Rightarrow> string result"
  pv_cfg :: cfg_env
  pv_put_ssid :: os_env
  pv_put_psk :: os_env

record pairing_service =
  ps_setup_mode :: bool
  ps_setup_code :: string
  ps_code_expiry :: int
  ps_state :: service_state
  ps_config :: cfgman
  ps_secrets :: secure_storage

definition pairing_start :: "pairing_service \<Rightarrow> pairing_service" where
  "pairing_start s = s\<lparr>ps_state := Svc_Running\<rparr>"

definition pairing_stop :: "pairing_service \<Rightarrow> pairing_service" where
  "pairing_stop s = s\<lparr>ps_setup_mode := False, ps_setup_code := [], ps_state := Svc_Stopped\<rparr>"

definition inSetupMode :: "pairing_service \<Rightarrow> bool" where
  "inSetupMode s = ps_setup_mode s"

definition isPaired :: "pairing_service \<Rightarrow> bool" where
  "isPaired s = paired (pairing (get (ps_config s)))"

definition beginSetupMode :: "pairing_service \<Rightarrow> string \<Rightarrow> int \<Rightarrow> int \<Rightarrow> pairing_service \<times> status \<times> event list" where
  "beginSetupMode s code now ttl =
     (if code = [] then (s, mk_error Ec_InvalidArg ''empty setup code'', [])
      else (s\<lparr>ps_setup_mode := True, ps_setup_code := code, ps_code_expiry := now + ttl\<rparr>, success,
            [mk_event Ev_PairingStarted ''pairing'']))"

definition paired_config :: "pairing_result \<Rightarrow> speaker_config \<Rightarrow> speaker_config" where
  "paired_config r c =
     c\<lparr>pairing := (pairing c)\<lparr>paired := True, streamer_id := pr_streamer_id r,
                             streamer_public_key := pr_streamer_public_key r\<rparr>,
       network := (network c)\<lparr>wifi_configured := True\<rparr>\<rparr>"

definition persistPairing :: "pairing_env \<Rightarrow> pairing_service \<Rightarrow> pairing_result \<Rightarrow> pairing_service \<times> status \<times> event list" where
  "persistPairing x s r =
     (case put_secret (pv_put_ssid x) (ps_secrets s) ''wifi_ssid'' (wc_ssid (pr_wifi r)) of (k1, s1) \<Rightarrow>
      case put_secret (pv_put_psk x) k1 ''wifi_psk'' (wc_psk (pr_wifi r)) of (k2, s2) \<Rightarrow>
      let sv = s\<lparr>ps_secrets := k2\<rparr> in
      if \<not> st_ok s1 then (sv, s1, [])
      else if \<not> st_ok s2 then (sv, s2, [])
      else case update (pv_json x) (pv_cfg x) (ps_config s) (paired_config r) of (m, st, evs) \<Rightarrow>
        (sv\<lparr>ps_config := m\<rparr>, st, evs))"

text \<open>\<open>j.at(k).get<std::string>()\<close>: None when either throws.\<close>

definition at_string :: "json_lib \<Rightarrow> json \<Rightarrow> string \<Rightarrow> string option" where
  "at_string J j k = (if is_object j then Option.bind (j_find j k) (jl_get_string J) else None)"

definition parse_wifi :: "json_lib \<Rightarrow> string \<Rightarrow> wifi_credentials option" where
  "parse_wifi J txt = do {
     j \<leftarrow> jl_parse J txt;
     ssid \<leftarrow> at_string J j ''ssid'';
     psk \<leftarrow> at_string J j ''psk'';
     Some \<lparr>wc_ssid = ssid, wc_psk = psk\<rparr>
   }"

definition result_of :: "pairing_request \<Rightarrow> wifi_credentials \<Rightarrow> pairing_result" where
  "result_of r w = \<lparr>pr_streamer_id = rq_streamer_id r, pr_streamer_public_key = rq_streamer_public_key r,
     pr_site_id = rq_site_id r, pr_speaker_name = rq_initial_speaker_name r, pr_wifi = w\<rparr>"

definition pairing_fail :: "pairing_service \<Rightarrow> event list \<Rightarrow> status \<Rightarrow> pairing_service \<times> event list \<times> pairing_result result" where
  "pairing_fail s evs st = (s, evs @ [mk_event Ev_PairingFailed ''pairing''], Inl st)"

definition processRequest ::
  "pairing_env \<Rightarrow> pairing_service \<Rightarrow> pairing_request \<Rightarrow> int \<Rightarrow> pairing_service \<times> event list \<times> pairing_result result" where
  "processRequest x s r now =
     (if \<not> ps_setup_mode s then pairing_fail s [] (mk_error Ec_PermissionDenied ''not in setup mode'')
      else
        (let v = validate_request (pv_crypto x) r (ps_setup_code s) now (ps_code_expiry s) in
         if \<not> st_ok v then pairing_fail s [] v
         else case pv_open x (rq_sealed_wifi_b64 r) of
           Inl _ \<Rightarrow> pairing_fail s [] (mk_error Ec_CryptoError ''cannot open sealed wifi'')
         | Inr opened \<Rightarrow>
             (case parse_wifi (pv_json x) opened of
                None \<Rightarrow> pairing_fail s [] (mk_error Ec_Corrupt (''bad wifi payload: '' @ jl_what (pv_json x) opened))
              | Some w \<Rightarrow>
                  (case persistPairing x s (result_of r w) of (s1, p, evs) \<Rightarrow>
                     if \<not> st_ok p then pairing_fail s1 evs p
                     else (s1\<lparr>ps_setup_mode := False, ps_setup_code := []\<rparr>,
                           evs @ [mk_event_data Ev_PairingCompleted ''pairing'' [(''streamer_id'', JStr (rq_streamer_id r))]],
                           Inr (result_of r w))))))"

section \<open>The handler of pairing messages\<close>

definition request_from_json :: "json_lib \<Rightarrow> json \<Rightarrow> pairing_request option" where
  "request_from_json J j = do {
     sid \<leftarrow> j_value (jl_get_string J) j ''streamer_id'' [];
     key \<leftarrow> j_value (jl_get_string J) j ''streamer_public_key'' [];
     site \<leftarrow> j_value (jl_get_string J) j ''site_id'' [];
     nm \<leftarrow> j_value (jl_get_string J) j ''initial_speaker_name'' [];
     code \<leftarrow> j_value (jl_get_string J) j ''setup_code'' [];
     sealed \<leftarrow> j_value (jl_get_string J) j ''sealed_wifi'' [];
     sig \<leftarrow> j_value (jl_get_string J) j ''signature'' [];
     Some \<lparr>rq_streamer_id = sid, rq_streamer_public_key = key, rq_site_id = site, rq_initial_speaker_name = nm,
           rq_setup_code = code, rq_sealed_wifi_b64 = sealed, rq_signature_b64 = sig\<rparr>
   }"

definition pairing_reply_error :: "string \<Rightarrow> json" where
  "pairing_reply_error msg = JObj [(''type'', JStr ''pairing_result''), (''ok'', JBool False), (''message'', JStr msg)]"

text \<open>The lambda of \<open>setPairingHandler\<close>: the new state, the events, the reply, and the Wi-Fi network to
  join (\<open>network_->connectWifi\<close>), which happens only without an uplink.\<close>

definition pairing_handler ::
  "pairing_env \<Rightarrow> int \<Rightarrow> bool \<Rightarrow> string \<Rightarrow> pairing_service \<Rightarrow> string
    \<Rightarrow> pairing_service \<times> event list \<times> json \<times> wifi_credentials option" where
  "pairing_handler x now have_uplink dev s raw =
     (case Option.bind (jl_parse (pv_json x) raw) (request_from_json (pv_json x)) of
        None \<Rightarrow> (s, [], pairing_reply_error (''bad pairing json: '' @ jl_what (pv_json x) raw), None)
      | Some r \<Rightarrow>
          (case processRequest x s r now of
             (s', evs, Inl st) \<Rightarrow> (s', evs, pairing_reply_error (st_message st), None)
           | (s', evs, Inr res) \<Rightarrow>
               (s', evs, JObj [(''type'', JStr ''pairing_result''), (''ok'', JBool True), (''device_id'', JStr dev)],
                if have_uplink \<or> wc_ssid (pr_wifi res) = [] then None else Some (pr_wifi res))))"

section \<open>What a request can do\<close>

lemma persistPairing_ok:
  assumes "persistPairing x s r = (s', st, evs)" "st_ok st"
  shows "stored (ps_secrets s') ''wifi_ssid'' = Some (wc_ssid (pr_wifi r))"
    "stored (ps_secrets s') ''wifi_psk'' = Some (wc_psk (pr_wifi r))"
    "get (ps_config s') = paired_config r (get (ps_config s))"
proof -
  obtain k1 s1 where p1: "put_secret (pv_put_ssid x) (ps_secrets s) ''wifi_ssid'' (wc_ssid (pr_wifi r)) = (k1, s1)" by force
  obtain k2 s2 where p2: "put_secret (pv_put_psk x) k1 ''wifi_psk'' (wc_psk (pr_wifi r)) = (k2, s2)" by force
  obtain m u e where up: "update (pv_json x) (pv_cfg x) (ps_config s) (paired_config r) = (m, u, e)" by (rule prod_cases3)
  from assms p1 p2 up have h: "st_ok s1" "st_ok s2" "ps_secrets s' = k2" "ps_config s' = m" "st = u"
    by (auto simp: persistPairing_def Let_def split: if_splits)
  from secrets.put_two [OF p1 p2 h(1,2)] h(3)
  show "stored (ps_secrets s') ''wifi_ssid'' = Some (wc_ssid (pr_wifi r))"
    "stored (ps_secrets s') ''wifi_psk'' = Some (wc_psk (pr_wifi r))" by simp_all
  show "get (ps_config s') = paired_config r (get (ps_config s))"
    using cfg.upd_ok [OF up] assms(2) h by simp
qed

lemma persistPairing_frame:
  assumes "persistPairing x s r = (s', st, evs)"
  shows "ps_setup_mode s' = ps_setup_mode s" "ps_setup_code s' = ps_setup_code s"
    "ps_code_expiry s' = ps_code_expiry s" "ps_state s' = ps_state s"
    "\<not> st_ok st \<Longrightarrow> get (ps_config s') = get (ps_config s)"
  using assms cfg.upd_read [of "pv_json x" "pv_cfg x" "ps_config s" "paired_config r"]
  by (auto simp: persistPairing_def Let_def split: if_splits prod.splits)

lemma processRequest_cases:
  assumes "processRequest x s r now = (s', evs, res)"
  obtains (rejected) st where "s' = s" "res = Inl st" "evs = [mk_event Ev_PairingFailed ''pairing'']"
      "\<not> ps_setup_mode s \<Longrightarrow> st_code st = Ec_PermissionDenied"
  | (not_saved) w s1 st es where "ps_setup_mode s"
      "st_ok (validate_request (pv_crypto x) r (ps_setup_code s) now (ps_code_expiry s))"
      "persistPairing x s (result_of r w) = (s1, st, es)" "\<not> st_ok st" "s' = s1" "res = Inl st"
  | (completed) w s1 st es where "ps_setup_mode s"
      "st_ok (validate_request (pv_crypto x) r (ps_setup_code s) now (ps_code_expiry s))"
      "persistPairing x s (result_of r w) = (s1, st, es)" "st_ok st"
      "s' = s1\<lparr>ps_setup_mode := False, ps_setup_code := []\<rparr>" "res = Inr (result_of r w)"
proof -
  let ?v = "validate_request (pv_crypto x) r (ps_setup_code s) now (ps_code_expiry s)"
  have rej: thesis if "processRequest x s r now = pairing_fail s [] st"
    "\<not> ps_setup_mode s \<Longrightarrow> st_code st = Ec_PermissionDenied" for st
    using that assms by (intro rejected [of st]) (auto simp: pairing_fail_def)
  show thesis
  proof (cases "ps_setup_mode s \<and> st_ok ?v")
    case False
    then show thesis by (intro rej [of "if ps_setup_mode s then ?v else mk_error Ec_PermissionDenied ''not in setup mode''"])
        (auto simp: processRequest_def Let_def)
  next
    case True
    show thesis
    proof (cases "pv_open x (rq_sealed_wifi_b64 r)")
      case (Inl e)
      with True show thesis by (intro rej [of "mk_error Ec_CryptoError ''cannot open sealed wifi''"])
          (auto simp: processRequest_def Let_def)
    next
      case (Inr opened)
      show thesis
      proof (cases "parse_wifi (pv_json x) opened")
        case None
        with True Inr show thesis
          by (intro rej [of "mk_error Ec_Corrupt (''bad wifi payload: '' @ jl_what (pv_json x) opened)"])
            (auto simp: processRequest_def Let_def)
      next
        case (Some w)
        obtain s1 st es where p: "persistPairing x s (result_of r w) = (s1, st, es)" by (rule prod_cases3)
        show thesis
        proof (cases "st_ok st")
          case ok: True
          with True Inr Some p assms have "s' = s1\<lparr>ps_setup_mode := False, ps_setup_code := []\<rparr>" "res = Inr (result_of r w)"
            by (auto simp: processRequest_def Let_def)
          with completed [OF _ _ p ok] True show thesis by blast
        next
          case bad: False
          with True Inr Some p assms have "s' = s1" "res = Inl st"
            by (auto simp: processRequest_def Let_def pairing_fail_def)
          with not_saved [OF _ _ p bad] True show thesis by blast
        qed
      qed
    qed
  qed
qed

section \<open>An instance\<close>

definition demo_pair_env :: pairing_env where
  "demo_pair_env = \<lparr>pv_json = demo_lib ''w'' (JObj [(''ssid'', JStr ''home''), (''psk'', JStr ''secret'')]),
     pv_crypto = \<lparr>cl_toBase64 = (\<lambda>m. m), cl_verifyEd25519 = (\<lambda>m sg k. sg = ''sig''), cl_sha256Hex = (\<lambda>m. m)\<rparr>,
     pv_open = (\<lambda>_. Inr ''w''), pv_cfg = cfg_env_fine, pv_put_ssid = os_fine, pv_put_psk = os_fine\<rparr>"

definition demo_pair_service :: pairing_service where
  "demo_pair_service = \<lparr>ps_setup_mode = True, ps_setup_code = ''C'', ps_code_expiry = 100, ps_state = Svc_Running,
     ps_config = cfgman_new ''c'' Map.empty, ps_secrets = \<lparr>sec_dir = ''d'', sec_fs = Map.empty\<rparr>\<rparr>"

definition demo_request :: pairing_request where
  "demo_request = \<lparr>rq_streamer_id = ''STR-0a1b2c3d'', rq_streamer_public_key = ''key'', rq_site_id = [],
     rq_initial_speaker_name = ''Kitchen'', rq_setup_code = ''C'', rq_sealed_wifi_b64 = ''box'', rq_signature_b64 = ''sig''\<rparr>"

lemma demo_request_valid:
  "st_ok (validate_request (pv_crypto demo_pair_env) demo_request (ps_setup_code demo_pair_service) 50
     (ps_code_expiry demo_pair_service))"
  by (simp add: validate_request_ok_iff demo_request_def demo_pair_env_def demo_pair_service_def
      isWellFormedStreamerId_def hex_digit_def)

abbreviation demo_wifi :: wifi_credentials where
  "demo_wifi \<equiv> \<lparr>wc_ssid = ''home'', wc_psk = ''secret''\<rparr>"

lemma demo_persist_any:
  assumes "persistPairing (demo_pair_env\<lparr>pv_json := J\<rparr>) demo_pair_service (result_of demo_request demo_wifi) = (s1, st, es)"
  shows "st_ok st"
proof -
  let ?r = "result_of demo_request demo_wifi"
  obtain k1 s1' where p1: "put_secret os_fine (ps_secrets demo_pair_service) ''wifi_ssid'' ''home'' = (k1, s1')" by force
  obtain k2 s2' where p2: "put_secret os_fine k1 ''wifi_psk'' ''secret'' = (k2, s2')" by force
  obtain m u e where up: "update J cfg_env_fine (ps_config demo_pair_service) (paired_config ?r) = (m, u, e)"
    by (rule prod_cases3)
  have v: "validKey ''wifi_ssid''" "validKey ''wifi_psk''" by (simp_all add: validKey_def key_char_def)
  have ok: "st_ok s1'" "st_ok s2'"
    using put_secret_fine [OF v(1), of "ps_secrets demo_pair_service" "''home''"] p1
      put_secret_fine [OF v(2), of k1 "''secret''"] p2 by simp_all
  have "valid_config (paired_config ?r defaults)"
    by (simp add: valid_config_iff default_defs paired_config_def result_of_def demo_request_def)
  then have "st_ok u"
    using update_cases [OF up] persist_fine [of "paired_config ?r defaults" cfg_env_fine J "ps_config demo_pair_service"]
    by (auto simp: demo_pair_service_def cfgman_new_def cfg_env_fine_def get_def)
  with assms ok p1 p2 up show ?thesis
    by (simp add: persistPairing_def Let_def demo_pair_env_def result_of_def)
qed

lemma demo_persist_ok:
  "persistPairing demo_pair_env demo_pair_service (result_of demo_request demo_wifi) = (s1, st, es) \<Longrightarrow> st_ok st"
  using demo_persist_any [of "pv_json demo_pair_env" s1 st es] by (simp add: demo_pair_env_def)

lemma demo_pairing:
  "\<exists>s' evs. processRequest demo_pair_env demo_pair_service demo_request 50 = (s', evs, Inr (result_of demo_request demo_wifi)) \<and>
     s' \<noteq> demo_pair_service"
proof -
  obtain s1 st es where p: "persistPairing demo_pair_env demo_pair_service (result_of demo_request demo_wifi) = (s1, st, es)"
    by (rule prod_cases3)
  have w: "parse_wifi (pv_json demo_pair_env) ''w'' = Some demo_wifi"
    by (simp add: parse_wifi_def demo_pair_env_def at_string_def)
  have o: "pv_open demo_pair_env (rq_sealed_wifi_b64 demo_request) = Inr ''w''" "ps_setup_mode demo_pair_service"
    by (simp_all add: demo_pair_env_def demo_pair_service_def)
  have "ps_setup_mode (s1\<lparr>ps_setup_mode := False, ps_setup_code := []\<rparr>) \<noteq> ps_setup_mode demo_pair_service"
    using o by simp
  then have "s1\<lparr>ps_setup_mode := False, ps_setup_code := []\<rparr> \<noteq> demo_pair_service" by metis
  with demo_persist_ok [OF p] p w o demo_request_valid show ?thesis
    by (auto simp: processRequest_def Let_def)
qed

section \<open>Authority and effect\<close>

text \<open>C5. Pairing needs the setup code and the streamer's key: if a request changes anything at all (the
  configuration, a stored secret or the setup window), then the speaker was in setup mode, the
  request carried the active code before its expiry, names a well-formed streamer, and is signed
  with the very key that it asks the speaker to trust.\<close>

theorem pairing_authenticated:
  assumes "processRequest x s r now = (s', evs, res)" and "s' \<noteq> s"
  shows "ps_setup_mode s \<and> ps_setup_code s \<noteq> [] \<and> rq_setup_code r = ps_setup_code s \<and> now \<le> ps_code_expiry s \<and>
    isWellFormedStreamerId (rq_streamer_id r) \<and>
    cl_verifyEd25519 (pv_crypto x) (cl_toBase64 (pv_crypto x) (request_canonicalString r)) (rq_signature_b64 r)
      (rq_streamer_public_key r)"
  using assms(1) by (cases rule: processRequest_cases) (use assms(2) in \<open>auto simp: validate_request_ok_iff\<close>)

theorem pairing_authenticated_witness:
  "rq_setup_code demo_request = ps_setup_code demo_pair_service"
proof -
  obtain s' evs where p: "processRequest demo_pair_env demo_pair_service demo_request 50 =
      (s', evs, Inr (result_of demo_request demo_wifi))" "s' \<noteq> demo_pair_service"
    using demo_pairing by blast
  from pairing_authenticated [OF p] show ?thesis by blast
qed

lemma closed_window_rejects:
  assumes "\<not> ps_setup_mode s" "processRequest x s r now = (s', evs, res)"
  shows "s' = s \<and> (\<exists>st. res = Inl st \<and> st_code st = Ec_PermissionDenied)"
  using assms(2) by (cases rule: processRequest_cases) (use assms(1) in auto)

lemma closed_window_run:
  "\<not> ps_setup_mode s \<Longrightarrow> foldl (\<lambda>s (x, r, now). fst (processRequest x s r now)) s qs = s"
proof (induction qs)
  case (Cons q qs)
  obtain x r now where q: "q = (x, r, now)" by (rule prod_cases3)
  obtain s' evs res where p: "processRequest x s r now = (s', evs, res)" by (rule prod_cases3)
  from closed_window_rejects [OF Cons.prems p] Cons q p show ?case by simp
qed simp

text \<open>Pairing completes once: an accepted request stores the decrypted Wi-Fi credentials as secrets,
  records exactly the requesting streamer's identifier and key in the configuration, and closes the
  setup window, so that no later sequence of requests changes anything.\<close>

theorem pairing_completes_once:
  assumes "processRequest x s r now = (s', evs, Inr res)"
  shows "stored (ps_secrets s') ''wifi_psk'' = Some (wc_psk (pr_wifi res)) \<and>
    stored (ps_secrets s') ''wifi_ssid'' = Some (wc_ssid (pr_wifi res)) \<and>
    get (ps_config s') = paired_config (result_of r (pr_wifi res)) (get (ps_config s)) \<and> isPaired s' \<and>
    \<not> inSetupMode s' \<and> foldl (\<lambda>s (x, r, now). fst (processRequest x s r now)) s' qs = s'"
  using assms
proof (cases rule: processRequest_cases)
  case (completed w s1 st es)
  note ok = persistPairing_ok [OF completed(3,4)]
  have g: "get (ps_config s') = paired_config (result_of r w) (get (ps_config s))"
    using ok completed by (simp add: get_def)
  with ok completed closed_window_run [of s' qs] show ?thesis
    by (auto simp: result_of_def isPaired_def inSetupMode_def paired_config_def)
qed auto

theorem pairing_completes_once_witness:
  "streamer_id (pairing (get (ps_config (fst (processRequest demo_pair_env demo_pair_service demo_request 50))))) = ''STR-0a1b2c3d''"
proof -
  obtain s' evs where p: "processRequest demo_pair_env demo_pair_service demo_request 50 =
      (s', evs, Inr (result_of demo_request demo_wifi))" using demo_pairing by blast
  from pairing_completes_once [OF p, of "[]"] p show ?thesis
    by (simp add: paired_config_def result_of_def demo_request_def)
qed

text \<open>A failed request changes no configuration and does not count: the setup window, the code and its
  expiry stay as they were, so any number of wrong guesses can follow (there is no attempt limit).
  The Wi-Fi secrets may already have been replaced when only the last write fails.\<close>

theorem failed_pairing_keeps_window:
  assumes "processRequest x s r now = (s', evs, Inl st)"
  shows "get (ps_config s') = get (ps_config s) \<and> ps_setup_mode s' = ps_setup_mode s \<and>
    ps_setup_code s' = ps_setup_code s \<and> ps_code_expiry s' = ps_code_expiry s"
  using assms
proof (cases rule: processRequest_cases)
  case (not_saved w s1 st es)
  then show ?thesis using persistPairing_frame [OF not_saved(3)] by simp
qed auto

text \<open>The instance: a wrong code leaves the window open for the next guess.\<close>

theorem failed_pairing_keeps_window_witness:
  "ps_setup_mode (fst (processRequest demo_pair_env demo_pair_service (demo_request\<lparr>rq_setup_code := ''X''\<rparr>) 50))"
proof -
  have p: "processRequest demo_pair_env demo_pair_service (demo_request\<lparr>rq_setup_code := ''X''\<rparr>) 50 =
      (demo_pair_service, [mk_event Ev_PairingFailed ''pairing''], Inl (mk_error Ec_PermissionDenied ''setup code mismatch''))"
    by (simp add: processRequest_def validate_request_def demo_request_def demo_pair_env_def demo_pair_service_def
        isWellFormedStreamerId_def hex_digit_def pairing_fail_def)
  from failed_pairing_keeps_window [OF p] show ?thesis unfolding p by (simp add: demo_pair_service_def)
qed

end
