(* ===== verification/Network.thy ===== *)
theory Network
  imports Core_Types Pairing
begin

text \<open>
  The network manager and its nmcli back end (\<open>src/src/network\<close>): the published connectivity, the
  connection attempts, the joining of a streamer's access point, the shell commands built for
  \<open>nmcli\<close> and the selection of the uplink from its output. The HAL's answers are parameters of the
  manager; the exit codes and outputs of the shell commands are parameters of the back end. The
  monitor thread is a sequence of \<open>refresh\<close> calls.
\<close>

section \<open>Network manager\<close>

record net_status =
  ns_connected :: bool
  ns_mode :: string
  ns_ip :: string

record wifi_params =
  wp_ssid :: string
  wp_psk :: string
  wp_hidden :: bool
  wp_band :: string
  wp_static_ip :: string
  wp_gateway :: string
  wp_dns :: string

record netman =
  nm_connected :: bool
  nm_ip :: string
  nm_mode :: string
  nm_state :: service_state

definition netman_new :: netman where
  "netman_new = \<lparr>nm_connected = False, nm_ip = [], nm_mode = [], nm_state = Svc_Stopped\<rparr>"

definition connected_event :: "net_status \<Rightarrow> event" where
  "connected_event st = mk_event_data Ev_NetworkConnected ''network'' [(''mode'', JStr (ns_mode st)), (''ip'', JStr (ns_ip st))]"

definition ip_changed_event :: "net_status \<Rightarrow> event" where
  "ip_changed_event st = mk_event_data Ev_IpChanged ''network'' [(''ip'', JStr (ns_ip st))]"

definition disconnected_event :: event where
  "disconnected_event = mk_event Ev_NetworkDisconnected ''network''"

definition publishConnected :: "netman \<Rightarrow> net_status \<Rightarrow> bool \<Rightarrow> netman \<times> event list" where
  "publishConnected n st periodic =
     (let was_connected = nm_connected n;
          ip_changed = was_connected \<and> ns_ip st \<noteq> nm_ip n;
          mode_changed = was_connected \<and> ns_mode st \<noteq> nm_mode n;
          changed = (\<not> was_connected \<or> ip_changed \<or> mode_changed) in
      if \<not> changed \<and> \<not> periodic then (n, [])
      else (n\<lparr>nm_connected := True, nm_ip := ns_ip st, nm_mode := ns_mode st\<rparr>,
            connected_event st # (if ip_changed then [ip_changed_event st] else [])))"

definition publishDisconnected :: "netman \<Rightarrow> bool \<Rightarrow> netman \<times> event list" where
  "publishDisconnected n force =
     (n\<lparr>nm_connected := False, nm_ip := [], nm_mode := []\<rparr>,
      if \<not> nm_connected n \<and> \<not> force then [] else [disconnected_event])"

definition applyStatus :: "netman \<Rightarrow> net_status \<Rightarrow> bool \<Rightarrow> netman \<times> event list" where
  "applyStatus n st periodic =
     (if ns_connected st then publishConnected n st periodic else publishDisconnected n False)"

definition refresh :: "net_status result \<Rightarrow> netman \<Rightarrow> netman \<times> event list" where
  "refresh hal_status n = (case hal_status of Inl _ \<Rightarrow> (n, []) | Inr st \<Rightarrow> applyStatus n st True)"

definition net_start :: "net_status result \<Rightarrow> netman \<Rightarrow> netman \<times> event list" where
  "net_start hal_status n = refresh hal_status (n\<lparr>nm_state := Svc_Running\<rparr>)"

definition net_stop :: "netman \<Rightarrow> netman" where
  "net_stop n = n\<lparr>nm_state := Svc_Stopped\<rparr>"

definition net_healthCheck :: "netman \<Rightarrow> status" where
  "net_healthCheck n = (if nm_state n = Svc_Running then success else mk_error Ec_Unknown ''network not running'')"

text \<open>\<open>connectWifi\<close>; the answers of \<open>hal_->connectWifi\<close> and of the following \<open>hal_->status\<close> are given.\<close>

definition connectWifi :: "status \<Rightarrow> net_status result \<Rightarrow> netman \<Rightarrow> netman \<times> status \<times> event list" where
  "connectWifi hal_connect hal_status n =
     (if \<not> st_ok hal_connect then
        (case publishDisconnected n True of (n', evs) \<Rightarrow> (n', hal_connect, evs))
      else case hal_status of
        Inr st \<Rightarrow>
          if ns_connected st then (case applyStatus n st False of (n', evs) \<Rightarrow> (n', success, evs))
          else (case publishDisconnected n True of (n', evs) \<Rightarrow>
                  (n', mk_error Ec_Timeout ''connect command succeeded but no IP'', evs))
      | Inl _ \<Rightarrow>
          (case publishDisconnected n True of (n', evs) \<Rightarrow>
             (n', mk_error Ec_Timeout ''connect command succeeded but no IP'', evs)))"

definition joinStreamerAp ::
  "crypto_lib \<Rightarrow> string list result \<Rightarrow> (string \<Rightarrow> string \<Rightarrow> status) \<Rightarrow> net_status result \<Rightarrow> netman \<Rightarrow> string
    \<Rightarrow> netman \<times> status \<times> event list" where
  "joinStreamerAp cl scan hal_connect hal_status n sid =
     (if sid = [] then (n, mk_error Ec_InvalidArg ''no paired streamer_id'', [])
      else if nm_connected n then (n, success, [])
      else
        (let creds = deriveApCredentials cl sid in
         case scan of
           Inl e \<Rightarrow> (n, e, [])
         | Inr ssids \<Rightarrow>
             if ap_ssid creds \<notin> set ssids then
               (n, mk_error Ec_NotFound (''streamer AP not in range: '' @ ap_ssid creds), [])
             else connectWifi (hal_connect (ap_ssid creds) (ap_passphrase creds)) hal_status n))"

section \<open>Shell commands\<close>

text \<open>\<open>shq\<close>: an argument in single quotes, an embedded quote as quote, backslash, quote, quote.\<close>

abbreviation sq :: char where
  "sq \<equiv> CHR 39"

fun shq_body :: "string \<Rightarrow> string" where
  "shq_body [] = []"
| "shq_body (c # s) = (if c = sq then [sq, CHR 92, sq, sq] else [c]) @ shq_body s"

definition shq :: "string \<Rightarrow> string" where
  "shq s = sq # shq_body s @ [sq]"

text \<open>How a POSIX shell reads one word made of quoted parts and escaped characters: the word and the
  remaining input; None when a quote is not closed. The flag says whether it is inside quotes.
  Unquoted blanks and operators end the word.\<close>

fun sh_word :: "bool \<Rightarrow> string \<Rightarrow> (string \<times> string) option" where
  "sh_word True [] = None"
| "sh_word True (c # s) =
     (if c = sq then sh_word False s else map_option (\<lambda>(w, r). (c # w, r)) (sh_word True s))"
| "sh_word False [] = Some ([], [])"
| "sh_word False (c # s) =
     (if c = sq then sh_word True s
      else if c = CHR 92 then (case s of [] \<Rightarrow> None | d # s' \<Rightarrow> map_option (\<lambda>(w, r). (d # w, r)) (sh_word False s'))
      else if c \<in> set '' |&;<>()$`'' \<or> c = CHR 34 \<or> c = CHR 10 \<or> c = CHR 9 then Some ([], c # s)
      else map_option (\<lambda>(w, r). (c # w, r)) (sh_word False s))"

definition quiet :: string where
  "quiet = '' >/dev/null 2>&1''"

text \<open>The commands \<open>NmcliNetworkHal::connectWifi\<close> runs and its result; the first argument says of each
  command whose exit code is looked at whether \<open>rc\<close> is 0 after it.\<close>

definition nmcli_simple :: "wifi_params \<Rightarrow> string" where
  "nmcli_simple p = ''nmcli device wifi connect '' @ shq (wp_ssid p) @ '' password '' @ shq (wp_psk p) @
     '' ifname wlan0'' @ quiet"

definition nmcli_add :: "wifi_params \<Rightarrow> string" where
  "nmcli_add p = ''nmcli connection add type wifi ifname wlan0 con-name '' @ shq ''nexus-wifi'' @ '' ssid '' @ shq (wp_ssid p) @
     (if wp_hidden p then '' 802-11-wireless.hidden yes'' else []) @
     (if wp_band p \<noteq> [] then '' 802-11-wireless.band '' @ shq (wp_band p) else []) @ quiet"

definition nmcli_psk :: "wifi_params \<Rightarrow> string" where
  "nmcli_psk p = ''nmcli connection modify '' @ shq ''nexus-wifi'' @
     '' 802-11-wireless-security.key-mgmt wpa-psk 802-11-wireless-security.psk '' @ shq (wp_psk p) @ quiet"

definition nmcli_ip :: "wifi_params \<Rightarrow> string" where
  "nmcli_ip p = ''nmcli connection modify '' @ shq ''nexus-wifi'' @ '' ipv4.method manual ipv4.addresses '' @ shq (wp_static_ip p) @
     (if wp_gateway p \<noteq> [] then '' ipv4.gateway '' @ shq (wp_gateway p) else []) @
     (if wp_dns p \<noteq> [] then '' ipv4.dns '' @ shq (wp_dns p) else []) @ quiet"

definition nmcli_up :: string where
  "nmcli_up = ''nmcli connection up '' @ shq ''nexus-wifi'' @ quiet"

definition nmcli_delete :: string where
  "nmcli_delete = ''nmcli connection delete '' @ shq ''nexus-wifi'' @ quiet"

definition ap_teardown :: "string list" where
  "ap_teardown = [''nmcli connection down nexus-setup-ap >/dev/null 2>&1'',
     ''nmcli connection delete nexus-setup-ap >/dev/null 2>&1'']"

definition hal_connectWifi :: "(string \<Rightarrow> bool) \<Rightarrow> wifi_params \<Rightarrow> string list \<times> status" where
  "hal_connectWifi runs_ok p =
     (if wp_ssid p = [] then ([], mk_error Ec_InvalidArg ''ssid required'')
      else if \<not> (wp_hidden p \<or> wp_band p \<noteq> [] \<or> wp_static_ip p \<noteq> []) then
        (ap_teardown @ [nmcli_simple p],
         if runs_ok (nmcli_simple p) then success else mk_error Ec_IoError ''nmcli connect failed'')
      else
        (let c0 = ap_teardown @ [''nmcli connection delete nexus-wifi >/dev/null 2>&1'', nmcli_add p] in
         if \<not> runs_ok (nmcli_add p) then (c0, mk_error Ec_IoError ''nmcli profile add failed'')
         else
           (let c1 = c0 @ (if wp_psk p \<noteq> [] then [nmcli_psk p] else []) in
            if wp_psk p \<noteq> [] \<and> \<not> runs_ok (nmcli_psk p) then
              (c1 @ [nmcli_delete], mk_error Ec_InvalidArg ''wifi password rejected'')
            else
              (let c2 = c1 @ (if wp_static_ip p \<noteq> [] then [nmcli_ip p] else []) in
               if wp_static_ip p \<noteq> [] \<and> \<not> runs_ok (nmcli_ip p) then
                 (c2 @ [nmcli_delete], mk_error Ec_InvalidArg ''invalid static IP settings'')
               else
                 (c2 @ [nmcli_up],
                  if runs_ok nmcli_up then success else mk_error Ec_IoError ''nmcli connect failed'')))))"

section \<open>Reading nmcli\<close>

text \<open>\<open>find\<close> and \<open>substr\<close> at the first occurrence of a character.\<close>

definition cut :: "char \<Rightarrow> string \<Rightarrow> (string \<times> string) option" where
  "cut c s = (if c \<in> set s then Some (takeWhile (\<lambda>d. d \<noteq> c) s, tl (dropWhile (\<lambda>d. d \<noteq> c) s)) else None)"

text \<open>\<open>std::getline\<close> until the end of the stream.\<close>

fun getlines :: "string \<Rightarrow> string list" where
  "getlines [] = []"
| "getlines (c # s) =
     (if c = nl then [] # getlines s
      else case getlines s of [] \<Rightarrow> [[c]] | l # ls \<Rightarrow> (c # l) # ls)"

definition device_fields :: "string \<Rightarrow> (string \<times> string \<times> string \<times> string) option" where
  "device_fields line = do {
     (dev, r1) \<leftarrow> cut CHR '':'' line;
     (typ, r2) \<leftarrow> cut CHR '':'' r1;
     (st, conn) \<leftarrow> cut CHR '':'' r2;
     Some (dev, typ, st, conn)
   }"

definition usable :: "string \<times> string \<times> string \<times> string \<Rightarrow> bool" where
  "usable d = (case d of (dev, typ, st, conn) \<Rightarrow>
     st = ''connected'' \<and> \<not> (typ = ''wifi-p2p'' \<or> take 4 dev = ''p2p-'') \<and> conn \<noteq> ''nexus-setup-ap'' \<and>
     (typ = ''ethernet'' \<or> typ = ''wifi''))"

fun choose_uplink :: "string \<times> string \<Rightarrow> string list \<Rightarrow> string \<times> string" where
  "choose_uplink cur [] = cur"
| "choose_uplink cur (line # rest) =
     (case device_fields line of
        Some (dev, typ, st, conn) \<Rightarrow>
          if usable (dev, typ, st, conn) then
            (if typ = ''ethernet'' then (dev, typ) else choose_uplink (dev, typ) rest)
          else choose_uplink cur rest
      | None \<Rightarrow> choose_uplink cur rest)"

definition strip_eol :: "string \<Rightarrow> string" where
  "strip_eol s = rev (dropWhile (\<lambda>c. c = nl \<or> c = CHR 13) (rev s))"

definition ip_of_output :: "string \<Rightarrow> string" where
  "ip_of_output v =
     (case cut CHR '':'' v of
        None \<Rightarrow> []
      | Some (_, r) \<Rightarrow> strip_eol (case cut CHR ''/'' r of None \<Rightarrow> r | Some (a, _) \<Rightarrow> a))"

text \<open>\<open>NmcliNetworkHal::status\<close>: \<open>devices\<close> is the output of the device list (None when \<open>popen\<close> fails) and
  \<open>show\<close> that of the address query for a device.\<close>

definition hal_status :: "string option \<Rightarrow> (string \<Rightarrow> string option) \<Rightarrow> net_status" where
  "hal_status devices show_ip =
     (let (dev, typ) = (case devices of None \<Rightarrow> ([], []) | Some out \<Rightarrow> choose_uplink ([], []) (getlines out));
          ip = (if dev \<noteq> [] then (case show_ip dev of None \<Rightarrow> [] | Some v \<Rightarrow> ip_of_output v) else []) in
      \<lparr>ns_connected = ip \<noteq> [],
       ns_mode = (if ip \<noteq> [] then (if typ = ''ethernet'' then ''ethernet'' else ''wifi'') else []),
       ns_ip = ip\<rparr>)"

section \<open>Quoting\<close>

lemma sh_word_body:
  "sh_word True (shq_body s @ sq # r) = map_option (\<lambda>(w, t). (s @ w, t)) (sh_word False r)"
proof (induction s)
  case Nil
  show ?case by (simp add: option.map_ident)
next
  case (Cons c s)
  then show ?case by (cases "sh_word False r") auto
qed

text \<open>Quoting is safe: whatever the argument (quotes, dollars, semicolons, newlines), the shell reads
  the quoted text back as exactly that one word, and goes on after it.\<close>

lemma shq_roundtrip: "sh_word False (shq s @ CHR '' '' # rest) = Some (s, CHR '' '' # rest)"
  using sh_word_body [of s "CHR '' '' # rest"] by (simp add: shq_def)

section \<open>Uplink selection\<close>

text \<open>The chosen uplink is always a usable device, in particular never the setup access point.\<close>

lemma choose_uplink_sound:
  "choose_uplink cur ls = cur \<or>
    (\<exists>line \<in> set ls. \<exists>st conn. device_fields line = Some (fst (choose_uplink cur ls), snd (choose_uplink cur ls), st, conn)
       \<and> usable (fst (choose_uplink cur ls), snd (choose_uplink cur ls), st, conn))"
proof (induction ls arbitrary: cur)
  case (Cons line ls)
  show ?case
  proof (cases "\<exists>d t s c. device_fields line = Some (d, t, s, c) \<and> usable (d, t, s, c)")
    case True
    then obtain d t s c where d: "device_fields line = Some (d, t, s, c)" "usable (d, t, s, c)" by blast
    show ?thesis
    proof (cases "t = ''ethernet''")
      case True
      with d show ?thesis by auto
    next
      case False
      with d Cons [of "(d, t)"] show ?thesis by auto
    qed
  next
    case False
    then have "choose_uplink cur (line # ls) = choose_uplink cur ls"
      by (auto split: option.splits)
    with Cons [of cur] show ?thesis by auto
  qed
qed simp

lemma choose_uplink_ethernet:
  "\<lbrakk>line \<in> set ls; device_fields line = Some (d, ''ethernet'', st, conn); usable (d, ''ethernet'', st, conn)\<rbrakk>
    \<Longrightarrow> snd (choose_uplink cur ls) = ''ethernet''"
proof (induction ls arbitrary: cur)
  case (Cons l ls)
  show ?case
  proof (cases "l = line")
    case True
    with Cons.prems show ?thesis by simp
  next
    case False
    with Cons show ?thesis by (auto split: option.splits)
  qed
qed simp

lemma setup_ap_not_uplink:
  assumes "\<And>line d t s c. line \<in> set (getlines out) \<Longrightarrow> device_fields line = Some (d, t, s, c) \<Longrightarrow>
      s \<noteq> ''connected'' \<or> c = ''nexus-setup-ap''"
  shows "\<not> ns_connected (hal_status (Some out) show_ip)"
proof -
  have "choose_uplink ([], []) (getlines out) = ([], [])"
    using choose_uplink_sound [of "([], [])" "getlines out"] assms by (fastforce simp: usable_def)
  then show ?thesis by (simp add: hal_status_def)
qed

section \<open>The event stream\<close>

datatype net_op = Refresh "net_status result" | Connect status "net_status result"

fun net_step :: "netman \<Rightarrow> net_op \<Rightarrow> netman \<times> event list" where
  "net_step n (Refresh st) = refresh st n"
| "net_step n (Connect c st) = (case connectWifi c st n of (n', _, evs) \<Rightarrow> (n', evs))"

fun net_run :: "netman \<Rightarrow> net_op list \<Rightarrow> netman \<times> event list" where
  "net_run n [] = (n, [])"
| "net_run n (x # xs) = (case net_step n x of (n1, e1) \<Rightarrow> case net_run n1 xs of (n2, e2) \<Rightarrow> (n2, e1 @ e2))"

text \<open>What a subscriber knows after the events: connected with which mode and address, or not.\<close>

definition track :: "(string \<times> string) option \<Rightarrow> event \<Rightarrow> (string \<times> string) option" where
  "track k e =
     (case ev_type e of
        Ev_NetworkConnected \<Rightarrow>
          (case (j_find (ev_data e) ''mode'', j_find (ev_data e) ''ip'') of
             (Some (JStr m), Some (JStr i)) \<Rightarrow> Some (m, i) | _ \<Rightarrow> k)
      | Ev_NetworkDisconnected \<Rightarrow> None
      | _ \<Rightarrow> k)"

definition known :: "netman \<Rightarrow> (string \<times> string) option" where
  "known n = (if nm_connected n then Some (nm_mode n, nm_ip n) else None)"

lemma track_simps [simp]:
  "track k (connected_event st) = Some (ns_mode st, ns_ip st)" "track k (ip_changed_event st) = k"
  "track k disconnected_event = None"
  by (simp_all add: track_def connected_event_def ip_changed_event_def disconnected_event_def)

lemma publishConnected_track:
  "publishConnected n st b = (n', evs) \<Longrightarrow> foldl track (known n) evs = known n'"
  by (auto simp: publishConnected_def Let_def known_def split: if_splits)

lemma publishDisconnected_track:
  "publishDisconnected n b = (n', evs) \<Longrightarrow> foldl track (known n) evs = known n'"
  by (auto simp: publishDisconnected_def known_def split: if_splits)

lemma net_step_track: "net_step n x = (n', evs) \<Longrightarrow> foldl track (known n) evs = known n'"
  by (cases x)
    (auto simp: refresh_def applyStatus_def connectWifi_def split: sum.splits if_splits prod.splits
      dest: publishConnected_track publishDisconnected_track)

text \<open>The event stream tells the truth: over any sequence of polls and connection attempts, with any
  answers of the hardware layer, a subscriber that only follows the published events knows exactly
  whether the manager is connected, in which mode and with which address.\<close>

lemma network_events_faithful:
  "foldl track (known n) (snd (net_run n xs)) = known (fst (net_run n xs))"
proof (induction xs arbitrary: n)
  case (Cons x xs)
  obtain n1 e1 where s: "net_step n x = (n1, e1)" by force
  from net_step_track [OF s] Cons [of n1] s show ?case by (auto split: prod.splits)
qed simp

end
