(* ===== verification/Provisioning.thy ===== *)
theory Provisioning
  imports Network
begin

text \<open>
  The controller of the two onboarding channels (\<open>src/src/pairing/ProvisioningController.cpp\<close>): BLE
  advertising and the Wi-Fi setup hotspot, driven by the connectivity events of the network
  manager. Every operation returns the orders given to the actuator (\<open>systemctl start/stop\<close>). The
  second part composes it with the network manager.
\<close>

section \<open>The controller\<close>

datatype channel = Ble | Hotspot

record controller =
  pc_ble_on :: bool
  pc_hotspot_on :: bool
  pc_state :: service_state

type_synonym order = "channel \<times> bool"

definition controller_new :: controller where
  "controller_new = \<lparr>pc_ble_on = False, pc_hotspot_on = False, pc_state = Svc_Stopped\<rparr>"

definition setChannel :: "channel \<Rightarrow> bool \<Rightarrow> bool \<Rightarrow> controller \<Rightarrow> controller \<times> order list" where
  "setChannel ch on enforce c =
     (let flag = (case ch of Ble \<Rightarrow> pc_ble_on c | Hotspot \<Rightarrow> pc_hotspot_on c) in
      if on = flag \<and> \<not> enforce then (c, [])
      else ((case ch of Ble \<Rightarrow> c\<lparr>pc_ble_on := on\<rparr> | Hotspot \<Rightarrow> c\<lparr>pc_hotspot_on := on\<rparr>), [(ch, on)]))"

definition applyConnectivity :: "bool \<Rightarrow> bool \<Rightarrow> controller \<Rightarrow> controller \<times> order list" where
  "applyConnectivity have_uplink on_wifi c =
     (case setChannel Ble (\<not> on_wifi) False c of (c1, o1) \<Rightarrow>
      case setChannel Hotspot (\<not> have_uplink) have_uplink c1 of (c2, o2) \<Rightarrow> (c2, o1 @ o2))"

text \<open>The two subscriptions; an exception of \<open>value\<close> in a handler (a non-string mode) is caught by the
  bus and leaves the controller alone.\<close>

definition on_event :: "json_lib \<Rightarrow> controller \<Rightarrow> event \<Rightarrow> controller \<times> order list" where
  "on_event J c e =
     (case ev_type e of
        Ev_NetworkConnected \<Rightarrow>
          (case j_value (jl_get_string J) (ev_data e) ''mode'' [] of
             None \<Rightarrow> (c, [])
           | Some m \<Rightarrow> applyConnectivity True (m = ''wifi'') c)
      | Ev_NetworkDisconnected \<Rightarrow> applyConnectivity False False c
      | _ \<Rightarrow> (c, []))"

definition provisioning_start :: "bool \<Rightarrow> bool \<Rightarrow> controller \<Rightarrow> controller \<times> order list" where
  "provisioning_start have_uplink on_wifi c = applyConnectivity have_uplink on_wifi (c\<lparr>pc_state := Svc_Running\<rparr>)"

definition provisioning_stop :: "controller \<Rightarrow> controller \<times> order list" where
  "provisioning_stop c =
     (case setChannel Hotspot False False c of (c1, o1) \<Rightarrow>
      case setChannel Ble False False c1 of (c2, o2) \<Rightarrow> (c2\<lparr>pc_state := Svc_Stopped\<rparr>, o1 @ o2))"

section \<open>Orders and flags agree\<close>

definition ordered :: "bool \<times> bool \<Rightarrow> order \<Rightarrow> bool \<times> bool" where
  "ordered k x = (case x of (Ble, b) \<Rightarrow> (b, snd k) | (Hotspot, b) \<Rightarrow> (fst k, b))"

abbreviation flags :: "controller \<Rightarrow> bool \<times> bool" where
  "flags c \<equiv> (pc_ble_on c, pc_hotspot_on c)"

lemma setChannel_flags:
  "setChannel ch on enf c = (c', os) \<Longrightarrow> foldl ordered (flags c) os = flags c' \<and>
     (case ch of Ble \<Rightarrow> pc_ble_on c' = on \<and> pc_hotspot_on c' = pc_hotspot_on c
               | Hotspot \<Rightarrow> pc_hotspot_on c' = on \<and> pc_ble_on c' = pc_ble_on c)"
  by (cases ch) (auto simp: setChannel_def Let_def ordered_def split: if_splits)

lemma applyConnectivity_flags:
  assumes "applyConnectivity u w c = (c', os)"
  shows "foldl ordered (flags c) os = flags c' \<and> pc_ble_on c' = (\<not> w) \<and> pc_hotspot_on c' = (\<not> u)"
proof -
  obtain c1 o1 where 1: "setChannel Ble (\<not> w) False c = (c1, o1)" by force
  obtain c2 o2 where 2: "setChannel Hotspot (\<not> u) u c1 = (c2, o2)" by force
  from assms 1 2 have "c' = c2" "os = o1 @ o2" by (simp_all add: applyConnectivity_def)
  with setChannel_flags [OF 1] setChannel_flags [OF 2] show ?thesis by auto
qed

section \<open>With the network manager\<close>

fun drive :: "json_lib \<Rightarrow> controller \<Rightarrow> event list \<Rightarrow> controller \<times> order list" where
  "drive J c [] = (c, [])"
| "drive J c (e # es) = (case on_event J c e of (c1, o1) \<Rightarrow> case drive J c1 es of (c2, o2) \<Rightarrow> (c2, o1 @ o2))"

text \<open>The rule of the product: BLE until the uplink is Wi-Fi, the hotspot only without any uplink.\<close>

definition desired :: "(string \<times> string) option \<Rightarrow> bool \<times> bool" where
  "desired k = (case k of None \<Rightarrow> (True, True) | Some (m, _) \<Rightarrow> (m \<noteq> ''wifi'', False))"

text \<open>The events the network manager publishes.\<close>

definition net_event :: "event \<Rightarrow> bool" where
  "net_event e \<longleftrightarrow> (\<exists>st. e = connected_event st \<or> e = ip_changed_event st) \<or> e = disconnected_event"

lemma net_run_events: "list_all net_event (snd (net_run n xs))"
proof (induction xs arbitrary: n)
  case (Cons x xs)
  obtain n1 e1 where s: "net_step n x = (n1, e1)" by force
  have "list_all net_event e1"
    using s by (cases x) (auto simp: refresh_def applyStatus_def connectWifi_def publishConnected_def
        publishDisconnected_def Let_def net_event_def split: sum.splits if_splits)
  with Cons [of n1] s show ?case by (auto split: prod.splits)
qed simp

lemma on_event_desired:
  assumes "getters_exact J" "net_event e" "flags c = desired k" "on_event J c e = (c', os)"
  shows "flags c' = desired (track k e) \<and> foldl ordered (flags c) os = flags c'"
proof -
  from assms(2) consider (conn) st where "e = connected_event st" | (ip) st where "e = ip_changed_event st"
    | (disc) "e = disconnected_event" by (auto simp: net_event_def)
  then show ?thesis
  proof cases
    case conn
    have "on_event J c e = applyConnectivity True (ns_mode st = ''wifi'') c"
      using assms(1) by (simp add: conn on_event_def connected_event_def j_value_def)
    with applyConnectivity_flags [of True _ c c' os] assms(4) conn show ?thesis by (auto simp: desired_def)
  next
    case ip
    with assms(3,4) show ?thesis by (simp add: on_event_def ip_changed_event_def track_def)
  next
    case disc
    have "on_event J c e = applyConnectivity False False c"
      by (simp add: disc on_event_def disconnected_event_def)
    with applyConnectivity_flags [of False False c c' os] assms(4) disc show ?thesis by (auto simp: desired_def)
  qed
qed

lemma drive_desired:
  "\<lbrakk>getters_exact J; list_all net_event es; flags c = desired k; drive J c es = (c', os)\<rbrakk>
    \<Longrightarrow> flags c' = desired (foldl track k es) \<and> foldl ordered (flags c) os = flags c'"
proof (induction es arbitrary: c k os)
  case (Cons e es)
  obtain c1 o1 where s: "on_event J c e = (c1, o1)" by force
  obtain o2 where r: "drive J c1 es = (c', o2)" "os = o1 @ o2"
    using Cons.prems(4) s by (auto split: prod.splits)
  have e: "net_event e" "list_all net_event es" using Cons.prems(2) by simp_all
  note h = on_event_desired [OF Cons.prems(1) e(1) Cons.prems(3) s]
  from Cons.IH [OF Cons.prems(1) e(2) conjunct1 [OF h] r(1)] h r(2) show ?case by simp
qed simp

text \<open>The onboarding channels follow the real connectivity: from any state in which they agree with
  it, after any sequence of polls and Wi-Fi connection attempts with any answers of the hardware,
  and all their events handled, BLE is ordered up exactly unless the uplink is Wi-Fi, and the setup
  hotspot, which blocks the radio, exactly when there is no uplink at all.\<close>

theorem channels_follow_connectivity:
  assumes "getters_exact J" and "flags c = desired (known n)"
    and "net_run n xs = (n', evs)" and "drive J c evs = (c', orders)"
  shows "pc_hotspot_on c' = (\<not> nm_connected n') \<and>
    pc_ble_on c' = (\<not> (nm_connected n' \<and> nm_mode n' = ''wifi'')) \<and>
    foldl ordered (flags c) orders = (pc_ble_on c', pc_hotspot_on c')"
proof -
  have ev: "list_all net_event evs" using net_run_events [of n xs] assms(3) by simp
  have "foldl track (known n) evs = known n'"
    using network_events_faithful [of n xs] assms(3) by simp
  with drive_desired [OF assms(1) ev assms(2,4)] show ?thesis
    by (cases "nm_connected n'") (simp_all add: desired_def known_def)
qed

theorem channels_follow_connectivity_witness:
  "pc_hotspot_on (fst (drive (demo_lib [] JNull) \<lparr>pc_ble_on = True, pc_hotspot_on = True, pc_state = Svc_Running\<rparr>
     (snd (net_run netman_new [Refresh (Inr \<lparr>ns_connected = True, ns_mode = ''ethernet'', ns_ip = ''10.0.0.2''\<rparr>)])))) = False"
proof -
  let ?c = "\<lparr>pc_ble_on = True, pc_hotspot_on = True, pc_state = Svc_Running\<rparr>"
  let ?x = "[Refresh (Inr \<lparr>ns_connected = True, ns_mode = ''ethernet'', ns_ip = ''10.0.0.2''\<rparr>)]"
  obtain n' evs where r: "net_run netman_new ?x = (n', evs)" by force
  obtain c' os where d: "drive (demo_lib [] JNull) ?c evs = (c', os)" by force
  have "flags ?c = desired (known netman_new)" by (simp add: desired_def known_def netman_new_def)
  from channels_follow_connectivity [OF demo_lib_getters_exact this r d] r d show ?thesis
    by (auto simp: refresh_def applyStatus_def publishConnected_def netman_new_def)
qed

text \<open>A failed Wi-Fi join is not repaired: the join tears the setup hotspot down inside the hardware
  layer, and the network manager then publishes \<open>NetworkDisconnected\<close> so that the controller brings it
  back; but for a speaker that had no uplink the controller still believes the hotspot is up and
  gives no order at all.\<close>

theorem failed_join_gives_no_order:
  assumes "\<not> nm_connected n" and "flags c = desired (known n)" and "\<not> st_ok hal_answer"
  shows "connectWifi hal_answer st n = (n\<lparr>nm_connected := False, nm_ip := [], nm_mode := []\<rparr>, hal_answer, [disconnected_event]) \<and>
    drive J c [disconnected_event] = (c, [])"
  using assms
  by (simp add: connectWifi_def publishDisconnected_def on_event_def disconnected_event_def applyConnectivity_def
      setChannel_def desired_def known_def)

theorem failed_join_gives_no_order_witness:
  "snd (drive (demo_lib [] JNull) (fst (provisioning_start False False controller_new)) [disconnected_event]) = []"
  using failed_join_gives_no_order [of netman_new "fst (provisioning_start False False controller_new)"
      "mk_error Ec_IoError ''nmcli connect failed''"]
  by (simp add: netman_new_def provisioning_start_def applyConnectivity_def setChannel_def controller_new_def
      desired_def known_def)

text \<open>The teardown is part of every attempt of the nmcli back end that names a network.\<close>

lemma attempt_tears_hotspot_down:
  "wp_ssid p \<noteq> [] \<Longrightarrow> take 2 (fst (hal_connectWifi runs_ok p)) = ap_teardown"
  by (simp add: hal_connectWifi_def ap_teardown_def Let_def)

end
