(* ===== verification/Web.thy ===== *)
theory Web
  imports Core_Types "HOL-Library.Word"
begin

text \<open>
  The local web interface (\<open>src/src/web\<close>): bearer-token authentication, the API router and the request
  handler of \<open>WebServer\<close> with its captive-portal answers. The callbacks of \<open>ApiContext\<close> are a
  parameter: reads give JSON, actions transform the system state \<open>'s\<close> and may throw (None). The page
  templates are given by the text before and after the token marker; the QR image is a parameter
  here (None when the encoder throws).
\<close>

unbundle bit_operations_syntax

section \<open>Authentication\<close>

definition byte_of :: "char \<Rightarrow> 8 word" where
  "byte_of c = word_of_nat (of_char c)"

fun diff_bytes :: "8 word \<Rightarrow> string \<Rightarrow> string \<Rightarrow> 8 word" where
  "diff_bytes d (a # as) (b # bs) = diff_bytes (d OR (byte_of a XOR byte_of b)) as bs"
| "diff_bytes d _ _ = d"

definition constantTimeEquals :: "string \<Rightarrow> string \<Rightarrow> bool" where
  "constantTimeEquals a b = (length a = length b \<and> diff_bytes 0 a b = 0)"

definition authorize :: "string \<Rightarrow> string \<Rightarrow> bool" where
  "authorize token header =
     (length header > 7 \<and> take 7 header = ''Bearer '' \<and> constantTimeEquals (drop 7 header) token)"

lemma byte_of_inj: "byte_of a = byte_of b \<longleftrightarrow> a = b"
proof
  assume "byte_of a = byte_of b"
  then have "unat (byte_of a) = unat (byte_of b)" by simp
  moreover have "unat (byte_of c) = of_char c" for c
    using nat_of_char_less_256 [of c] by (simp add: byte_of_def unsigned_of_nat take_bit_nat_eq_self)
  ultimately show "a = b" by simp
qed simp

lemma xor_eq_0: "(a :: 8 word) XOR b = 0 \<longleftrightarrow> a = b"
  by (auto simp: bit_eq_iff bit_xor_iff)

lemma diff_bytes_0: "length a = length b \<Longrightarrow> diff_bytes d a b = 0 \<longleftrightarrow> d = 0 \<and> a = b"
proof (induction d a b rule: diff_bytes.induct)
  case (1 d a as b bs)
  then show ?case by (auto simp: or_eq_0_iff xor_eq_0 byte_of_inj)
qed auto

lemma constantTimeEquals_eq: "constantTimeEquals a b \<longleftrightarrow> a = b"
  by (auto simp: constantTimeEquals_def diff_bytes_0)

lemma authorize_iff: "token \<noteq> [] \<Longrightarrow> authorize token header \<longleftrightarrow> header = ''Bearer '' @ token"
proof -
  assume t: "token \<noteq> []"
  show ?thesis
  proof
    assume "authorize token header"
    then have "take 7 header @ drop 7 header = ''Bearer '' @ token"
      unfolding authorize_def constantTimeEquals_eq by blast
    then show "header = ''Bearer '' @ token" by simp
  qed (use t in \<open>simp add: authorize_def constantTimeEquals_eq\<close>)
qed

section \<open>Requests and the router\<close>

record http_request =
  hq_method :: string
  hq_path :: string
  hq_body :: string
  hq_auth :: string
  hq_host :: string

record http_response =
  hp_status :: nat
  hp_content_type :: string
  hp_body :: string
  hp_headers :: "(string \<times> string) list"

datatype api_action =
    Api_SetVolume json | Api_SetMute json | Api_SetEq json | Api_SetDelay json | Api_AudioTest
  | Api_StartCalibration | Api_Reboot | Api_Update | Api_ResetNetwork | Api_FactoryReset
  | Api_ConnectWifi json | Api_SetSpeakerName json

record 's api_context =
  ac_read :: "'s \<Rightarrow> string \<Rightarrow> json option"
  ac_logs :: "('s \<Rightarrow> string) option"
  ac_act :: "api_action \<Rightarrow> ('s \<Rightarrow> 's \<times> (bool \<times> string) option) option"

definition json_response :: "json_lib \<Rightarrow> nat \<Rightarrow> json \<Rightarrow> http_response" where
  "json_response J code body = \<lparr>hp_status = code, hp_content_type = ''application/json'', hp_body = jl_dump J body, hp_headers = []\<rparr>"

definition api_error :: "json_lib \<Rightarrow> nat \<Rightarrow> string \<Rightarrow> http_response" where
  "api_error J code msg = json_response J code (JObj [(''error'', JStr msg)])"

definition actionResult :: "json_lib \<Rightarrow> bool \<times> string \<Rightarrow> http_response" where
  "actionResult J r = json_response J (if fst r then 200 else 400) (JObj [(''ok'', JBool (fst r)), (''message'', JStr (snd r))])"

text \<open>\<open>ctx_.status().value("setup_mode", false)\<close> with its \<open>catch (...)\<close>; the status callback is always set.\<close>

definition isSetupMode :: "json_lib \<Rightarrow> 's api_context \<Rightarrow> 's \<Rightarrow> bool" where
  "isSetupMode J ctx s =
     (case ac_read ctx s ''/api/status'' of
        None \<Rightarrow> False
      | Some j \<Rightarrow> (case j_value (jl_get_bool J) j ''setup_mode'' False of None \<Rightarrow> False | Some b \<Rightarrow> b))"

definition get_paths :: "string list" where
  "get_paths = [''/api/status'', ''/api/health'', ''/api/network'', ''/api/audio'', ''/api/hardware'',
     ''/api/calibration/status'', ''/api/calibration/result'', ''/api/wifi/scan'']"

definition handleGet :: "json_lib \<Rightarrow> 's api_context \<Rightarrow> 's \<Rightarrow> string \<Rightarrow> http_response" where
  "handleGet J ctx s path =
     (case (if path \<in> set get_paths then ac_read ctx s path else None) of
        Some j \<Rightarrow> json_response J 200 j
      | None \<Rightarrow>
          (case (if path = ''/api/system/logs'' then ac_logs ctx else None) of
             Some f \<Rightarrow> \<lparr>hp_status = 200, hp_content_type = ''text/plain'', hp_body = f s, hp_headers = []\<rparr>
           | None \<Rightarrow> api_error J 404 ''not found''))"

fun post_action :: "string \<Rightarrow> json \<Rightarrow> api_action option" where
  "post_action p body =
     (if p = ''/api/audio/volume'' then Some (Api_SetVolume body)
      else if p = ''/api/audio/mute'' then Some (Api_SetMute body)
      else if p = ''/api/audio/eq'' then Some (Api_SetEq body)
      else if p = ''/api/audio/delay'' then Some (Api_SetDelay body)
      else if p = ''/api/audio/test'' then Some Api_AudioTest
      else if p = ''/api/calibration/start'' then Some Api_StartCalibration
      else if p = ''/api/system/reboot'' then Some Api_Reboot
      else if p = ''/api/system/update'' then Some Api_Update
      else if p = ''/api/system/reset-network'' then Some Api_ResetNetwork
      else if p = ''/api/system/factory-reset'' then Some Api_FactoryReset
      else if p = ''/api/wifi/connect'' then Some (Api_ConnectWifi body)
      else if p = ''/api/device/name'' then Some (Api_SetSpeakerName body)
      else None)"

declare post_action.simps [simp del]

definition via_hotspot :: "http_request \<Rightarrow> bool" where
  "via_hotspot q \<longleftrightarrow> take 9 (hq_host q) = ''10.42.0.1''"

definition setup_open :: "json_lib \<Rightarrow> 's api_context \<Rightarrow> 's \<Rightarrow> http_request \<Rightarrow> bool" where
  "setup_open J ctx s q \<longleftrightarrow>
     isSetupMode J ctx s \<and> via_hotspot q \<and> (hq_path q = ''/api/wifi/connect'' \<or> hq_path q = ''/api/device/name'')"

definition post_body :: "json_lib \<Rightarrow> http_request \<Rightarrow> json option" where
  "post_body J q = (if hq_body q = [] then Some (JObj []) else jl_parse J (hq_body q))"

definition handlePost ::
  "json_lib \<Rightarrow> 's api_context \<Rightarrow> string \<Rightarrow> 's \<Rightarrow> http_request \<Rightarrow> 's \<times> http_response option" where
  "handlePost J ctx token s q =
     (if \<not> setup_open J ctx s q \<and> \<not> authorize token (hq_auth q) then (s, Some (api_error J 401 ''unauthorized''))
      else
        (case post_body J q of
           None \<Rightarrow> (s, Some (api_error J 400 (''bad json: '' @ jl_what J (hq_body q))))
         | Some body \<Rightarrow>
             (case Option.bind (post_action (hq_path q) body) (ac_act ctx) of
                None \<Rightarrow> (s, Some (api_error J 404 ''not found''))
              | Some act \<Rightarrow>
                  (case act s of (s', r) \<Rightarrow> (s', map_option (actionResult J) r)))))"

definition route :: "json_lib \<Rightarrow> 's api_context \<Rightarrow> string \<Rightarrow> 's \<Rightarrow> http_request \<Rightarrow> 's \<times> http_response option" where
  "route J ctx token s q =
     (if hq_method q = ''GET'' then (s, Some (handleGet J ctx s (hq_path q)))
      else if hq_method q = ''POST'' then handlePost J ctx token s q
      else (s, Some (api_error J 405 ''method not allowed'')))"

section \<open>The web server\<close>

record web_env =
  we_json :: json_lib
  we_index_html :: string
  we_setup_page :: "string \<times> string"
  we_env_ssid :: "string option"
  we_env_pass :: "string option"
  we_qr_svg :: "string \<Rightarrow> string option"
  we_qr_error :: string

definition escape_token :: "string \<Rightarrow> string" where
  "escape_token t = concat (map (\<lambda>c. if c = CHR 92 \<or> c = CHR 34 \<or> c = CHR 39 then [CHR 92, c] else [c]) t)"

definition setupHtml :: "web_env \<Rightarrow> string \<Rightarrow> string" where
  "setupHtml e token = fst (we_setup_page e) @ escape_token token @ snd (we_setup_page e)"

definition no_cache :: "(string \<times> string) list" where
  "no_cache = [(''Cache-Control'', ''no-store, no-cache, must-revalidate''), (''Pragma'', ''no-cache'')]"

definition html_response :: "nat \<Rightarrow> string \<Rightarrow> (string \<times> string) list \<Rightarrow> http_response" where
  "html_response code body hs = \<lparr>hp_status = code, hp_content_type = ''text/html'', hp_body = body, hp_headers = hs\<rparr>"

text \<open>The escaping of the Wi-Fi QR payload, and the payload.\<close>

definition wifi_special :: "char \<Rightarrow> bool" where
  "wifi_special c \<longleftrightarrow> c = CHR 92 \<or> c = CHR '';'' \<or> c = CHR '','' \<or> c = CHR '':'' \<or> c = CHR 34"

definition wifi_esc :: "string \<Rightarrow> string" where
  "wifi_esc v = concat (map (\<lambda>c. if wifi_special c then [CHR 92, c] else [c]) v)"

definition env_or :: "string option \<Rightarrow> string \<Rightarrow> string" where
  "env_or v d = (case v of None \<Rightarrow> d | Some x \<Rightarrow> if x = [] then d else x)"

definition wifi_payload :: "web_env \<Rightarrow> string" where
  "wifi_payload e =
     (let ssid = env_or (we_env_ssid e) ''Nexus-Setup''; pass = env_or (we_env_pass e) [] in
      if pass = [] then ''WIFI:T:nopass;S:'' @ wifi_esc ssid @ '';;''
      else ''WIFI:T:WPA;S:'' @ wifi_esc ssid @ '';P:'' @ wifi_esc pass @ '';;'')"

definition qr_response :: "web_env \<Rightarrow> string \<Rightarrow> http_response" where
  "qr_response e payload =
     (case we_qr_svg e payload of
        Some svg \<Rightarrow> \<lparr>hp_status = 200, hp_content_type = ''image/svg+xml'', hp_body = svg, hp_headers = []\<rparr>
      | None \<Rightarrow> \<lparr>hp_status = 500, hp_content_type = ''application/json'',
          hp_body = [CHR ''{'', CHR 34] @ ''error'' @ [CHR 34, CHR '':'', CHR 34] @ we_qr_error e @ [CHR 34, CHR ''}''],
          hp_headers = []\<rparr>)"

definition handle_http ::
  "web_env \<Rightarrow> 's api_context \<Rightarrow> string \<Rightarrow> 's \<Rightarrow> http_request \<Rightarrow> 's \<times> http_response option" where
  "handle_http e ctx token s q =
     (let J = we_json e; setup = isSetupMode J ctx s; is_get = (hq_method q = ''GET'') in
      if is_get \<and> (hq_path q = ''/'' \<or> hq_path q = ''/index.html'') then
        (s, Some (html_response 200 (if setup \<or> via_hotspot q then setupHtml e token else we_index_html e) no_cache))
      else if is_get \<and> hq_path q = ''/setup'' then (s, Some (html_response 200 (setupHtml e token) no_cache))
      else if is_get \<and> hq_path q = ''/api/setup-qr'' then (s, Some (qr_response e (wifi_payload e)))
      else if is_get \<and> hq_path q = ''/api/setup-url-qr'' then (s, Some (qr_response e ''http://10.42.0.1''))
      else if take 4 (hq_path q) = ''/api'' then route J ctx token s q
      else if is_get \<and> setup then
        (s, Some (html_response 302 [] ((''Location'', ''http://10.42.0.1/setup'') # no_cache)))
      else if is_get \<and> (hq_path q = ''/generate_204'' \<or> hq_path q = ''/gen_204'') then
        (s, Some \<lparr>hp_status = 204, hp_content_type = ''text/plain'', hp_body = [], hp_headers = []\<rparr>)
      else if is_get then
        (s, Some (html_response 200 ''<HTML><HEAD><TITLE>Success</TITLE></HEAD><BODY>Success</BODY></HTML>'' []))
      else
        (s, Some \<lparr>hp_status = 404, hp_content_type = ''application/json'',
           hp_body = [CHR ''{'', CHR 34] @ ''error'' @ [CHR 34, CHR '':'', CHR 34] @ ''not found'' @ [CHR 34, CHR ''}''],
           hp_headers = []\<rparr>))"

section \<open>Who can change the system\<close>

lemma handlePost_cases:
  assumes "handlePost J ctx token s q = (s', r)" "s' \<noteq> s"
  shows "setup_open J ctx s q \<or> authorize token (hq_auth q)"
  using assms by (auto simp: handlePost_def split: if_splits)

lemma handle_http_post:
  assumes "handle_http e ctx token s q = (s', r)" "s' \<noteq> s"
  shows "hq_method q = ''POST'' \<and> take 4 (hq_path q) = ''/api'' \<and> handlePost (we_json e) ctx token s q = (s', r)"
  using assms by (auto simp: handle_http_def Let_def route_def split: if_splits)

text \<open>C18. State changes need the token: if a request changes the system, it is a POST to the API that
  carries exactly the bearer token of the device, or one of the two onboarding calls, made while
  the device is in setup mode with a Host header that starts with the hotspot's address.\<close>

theorem web_writes_need_token:
  assumes "token \<noteq> []" and "handle_http e ctx token s q = (s', r)" and "s' \<noteq> s"
  shows "hq_method q = ''POST'' \<and>
    (hq_auth q = ''Bearer '' @ token \<or>
     (isSetupMode (we_json e) ctx s \<and> take 9 (hq_host q) = ''10.42.0.1'' \<and>
      (hq_path q = ''/api/wifi/connect'' \<or> hq_path q = ''/api/device/name'')))"
  using handle_http_post [OF assms(2,3)] handlePost_cases [of "we_json e" ctx token s q s' r] assms(1,3)
  by (auto simp: authorize_iff setup_open_def via_hotspot_def)

text \<open>The token is public: a plain GET of the setup page, from any host and whether or not the device
  is in setup mode, is answered with the page that contains the token, and a POST with that token
  in its header passes the authentication of every API action.\<close>

theorem setup_page_reveals_token:
  assumes "hq_method q = ''GET''" "hq_path q = ''/setup''" and "token \<noteq> []"
    and "list_all (\<lambda>c. c \<noteq> CHR 92 \<and> c \<noteq> CHR 34 \<and> c \<noteq> CHR 39) token"
  shows "(\<exists>pre post. handle_http e ctx token s q = (s, Some (html_response 200 (pre @ token @ post) no_cache))) \<and>
    authorize token (''Bearer '' @ token)"
proof -
  have "escape_token token = token"
    using assms(4) by (induction token) (auto simp: escape_token_def)
  with assms show ?thesis
    by (auto simp: handle_http_def Let_def setupHtml_def authorize_iff)
qed

definition demo_web :: web_env where
  "demo_web = \<lparr>we_json = demo_lib [] JNull, we_index_html = [], we_setup_page = (''A'', ''B''), we_env_ssid = None,
     we_env_pass = None, we_qr_svg = (\<lambda>_. None), we_qr_error = []\<rparr>"

definition demo_ctx :: "nat api_context" where
  "demo_ctx = \<lparr>ac_read = (\<lambda>_ _. None), ac_logs = None,
     ac_act = (\<lambda>a. case a of Api_Reboot \<Rightarrow> Some (\<lambda>s. (s + 1, Some (True, ''rebooting''))) | _ \<Rightarrow> None)\<rparr>"

definition demo_post :: http_request where
  "demo_post = \<lparr>hq_method = ''POST'', hq_path = ''/api/system/reboot'', hq_body = [], hq_auth = ''Bearer nexus-1'', hq_host = []\<rparr>"

theorem web_writes_need_token_witness: "hq_auth demo_post = ''Bearer '' @ ''nexus-1''"
proof -
  obtain s' r where h: "handle_http demo_web demo_ctx ''nexus-1'' 0 demo_post = (s', r)" by force
  have "handle_http demo_web demo_ctx ''nexus-1'' 0 demo_post = handlePost (we_json demo_web) demo_ctx ''nexus-1'' 0 demo_post"
    by (simp add: handle_http_def demo_post_def route_def)
  moreover have "fst (handlePost (we_json demo_web) demo_ctx ''nexus-1'' 0 demo_post) = 1"
    by (simp add: handlePost_def authorize_iff demo_post_def post_body_def post_action.simps demo_ctx_def)
  ultimately have "fst (handle_http demo_web demo_ctx ''nexus-1'' 0 demo_post) = 1" by simp
  then have "s' \<noteq> 0" unfolding h by simp
  from web_writes_need_token [OF _ h this] show ?thesis by (simp add: demo_post_def)
qed

theorem setup_page_reveals_token_witness:
  "\<exists>pre post. handle_http demo_web demo_ctx ''nexus-1'' 0 \<lparr>hq_method = ''GET'', hq_path = ''/setup'', hq_body = [],
     hq_auth = [], hq_host = ''192.168.1.7''\<rparr> = (0, Some (html_response 200 (pre @ ''nexus-1'' @ post) no_cache))"
  using setup_page_reveals_token [of "\<lparr>hq_method = ''GET'', hq_path = ''/setup'', hq_body = [],
     hq_auth = [], hq_host = ''192.168.1.7''\<rparr>" "''nexus-1''" demo_web demo_ctx 0] by simp

section \<open>The Wi-Fi payload\<close>

text \<open>A reader of the payload format: a field ends at an unescaped semicolon.\<close>

fun read_field :: "string \<Rightarrow> string \<times> string" where
  "read_field [] = ([], [])"
| "read_field (c # s) =
     (if c = CHR '';'' then ([], s)
      else if c = CHR 92 then (case s of [] \<Rightarrow> ([], []) | d # s' \<Rightarrow> (case read_field s' of (w, r) \<Rightarrow> (d # w, r)))
      else (case read_field s of (w, r) \<Rightarrow> (c # w, r)))"

text \<open>Whatever characters the network name contains, a scanner reads it back exactly.\<close>

lemma wifi_esc_roundtrip: "read_field (wifi_esc v @ CHR '';'' # rest) = (v, rest)"
  by (induction v) (auto simp: wifi_esc_def wifi_special_def)

end
