(* ===== verification/Reed_Solomon.thy ===== *)
theory Reed_Solomon
  imports Nexus_Prelude
begin

unbundle bit_operations_syntax

text \<open>
  The Galois field and the Reed-Solomon encoder of \<open>web/QrEncoder.cpp\<close>. The tables, the product and
  the synthetic division are those of the code, with their index loops; the lemmas show that the
  product is that of a field of characteristic two (bilinear, associative, every non-zero byte a
  power of the generator), and the main theorem that a block followed by its check bytes is a
  multiple of the generator polynomial: every syndrome is zero.
\<close>

section \<open>The field\<close>

text \<open>\<open>x <<= 1; if (x & 0x100) x ^= 0x11D\<close>\<close>

definition gf_step :: "int \<Rightarrow> int" where
  "gf_step x = (let y = push_bit 1 x in if y AND 0x100 \<noteq> 0 then y XOR 0x11D else y)"

text \<open>The constructor of \<open>GF\<close>: the loop over \<open>i\<close> with the two tables, then \<open>exp[255]\<close>.\<close>

fun gf_fill :: "nat \<Rightarrow> nat \<Rightarrow> int \<Rightarrow> int list \<times> int list \<Rightarrow> int list \<times> int list" where
  "gf_fill 0 i x t = t"
| "gf_fill (Suc k) i x (ex, lg) = gf_fill k (Suc i) (gf_step x) (ex[i := x], lg[nat x := int i])"

definition gf_tables :: "int list \<times> int list" where
  "gf_tables = (case gf_fill 255 0 1 (replicate 256 0, replicate 256 0) of (ex, lg) \<Rightarrow> (ex[255 := ex ! 0], lg))"

definition gf_exp :: "nat \<Rightarrow> int" where
  "gf_exp i = fst gf_tables ! i"

definition gf_log :: "int \<Rightarrow> int" where
  "gf_log x = snd gf_tables ! nat x"

definition gf_mul :: "int \<Rightarrow> int \<Rightarrow> int" where
  "gf_mul a b = (if a = 0 \<or> b = 0 then 0 else gf_exp (nat ((gf_log a + gf_log b) mod 255)))"

section \<open>The encoder\<close>

text \<open>One factor of the generator polynomial: the inner loop over \<open>j\<close> on the vector \<open>next\<close>.\<close>

definition gen_factor :: "int list \<Rightarrow> nat \<Rightarrow> int list" where
  "gen_factor gen i =
     foldl (\<lambda>nxt j. let nxt = nxt[j + 1 := nxt ! (j + 1) XOR gen ! j]
                     in nxt[j := nxt ! j XOR gf_mul (gen ! j) (gf_exp i)])
       (replicate (length gen + 1) 0) [0..<length gen]"

definition generator :: "nat \<Rightarrow> int list" where
  "generator ec_len = rev (foldl gen_factor [1] [0..<ec_len])"

text \<open>One step of the division: subtract \<open>coef\<close> times the generator at offset \<open>i\<close>.\<close>

definition div_step :: "int list \<Rightarrow> int list \<Rightarrow> nat \<Rightarrow> int list" where
  "div_step gen res i =
     (let coef = res ! i in
      if coef = 0 then res
      else foldl (\<lambda>r j. r[i + j := r ! (i + j) XOR gf_mul (gen ! j) coef]) res [0..<length gen])"

definition rsEncode :: "int list \<Rightarrow> nat \<Rightarrow> int list" where
  "rsEncode data ec_len =
     (let res = foldl (div_step (generator ec_len)) (data @ replicate ec_len 0) [0..<length data]
      in drop (length res - ec_len) res)"

section \<open>Bytes and the shift register\<close>

definition byte :: "int \<Rightarrow> bool" where
  "byte x \<longleftrightarrow> 0 \<le> x \<and> x < 256"

lemma byte_take_bit: "byte x \<longleftrightarrow> take_bit 8 x = x"
  by (simp add: byte_def take_bit_int_eq_self_iff)

lemma byte_0 [simp]: "byte 0" and byte_1 [simp]: "byte 1"
  by (simp_all add: byte_def)

lemma byte_xor [simp]: "byte a \<Longrightarrow> byte b \<Longrightarrow> byte (a XOR b)"
  by (simp add: byte_take_bit)

lemma byte_bit: "byte x \<Longrightarrow> bit x n \<Longrightarrow> n < 8"
  by (metis bit_take_bit_iff byte_take_bit)

lemma bit_285: "bit (285 :: int) n \<Longrightarrow> n < 9"
proof -
  have "take_bit 9 (285 :: int) = 285" by (simp add: take_bit_int_eq_self_iff)
  then show "bit (285 :: int) n \<Longrightarrow> n < 9" by (metis bit_take_bit_iff)
qed

lemma bit_gf_step: "bit (gf_step x) n \<longleftrightarrow> (0 < n \<and> bit x (n - 1)) \<noteq> (bit x 7 \<and> bit (285 :: int) n)"
proof -
  have p: "(256 :: int) = push_bit 8 1" by (simp add: push_bit_eq_mult)
  have "push_bit 1 x AND 256 \<noteq> 0 \<longleftrightarrow> bit (push_bit 1 x) 8"
    unfolding p by (rule bit_iff_and_push_bit_not_eq_0 [symmetric])
  moreover have "bit (push_bit 1 x) 8 \<longleftrightarrow> bit x 7"
    using bit_push_bit_iff [of 1 x 8] by (simp del: push_bit_of_Suc_0 add: numeral_eq_Suc)
  ultimately have "push_bit 1 x AND 256 \<noteq> 0 \<longleftrightarrow> bit x 7" by blast
  then have "gf_step x = push_bit 1 x XOR (if bit x 7 then 285 else 0)"
    unfolding gf_step_def Let_def by simp
  moreover have "bit (push_bit 1 x) n \<longleftrightarrow> 0 < n \<and> bit x (n - 1)"
    unfolding bit_push_bit_iff by auto
  ultimately show ?thesis by (simp only: bit_xor_iff split: if_split) simp
qed

lemma gf_step_byte [simp]: "byte x \<Longrightarrow> byte (gf_step x)"
proof -
  assume b: "byte x"
  have e: "bit (285 :: int) 8" by simp
  have "bit (take_bit 8 (gf_step x)) n = bit (gf_step x) n" for n
  proof (cases "n < 8")
    case False
    then have "\<not> bit (gf_step x) n"
      using byte_bit [OF b, of "n - 1"] bit_285 [of n] e by (cases "n = 8") (auto simp: bit_gf_step)
    then show ?thesis by (simp add: bit_take_bit_iff)
  qed (simp add: bit_take_bit_iff)
  then have "take_bit 8 (gf_step x) = gf_step x" by (intro bit_eqI) blast
  then show ?thesis by (simp add: byte_take_bit)
qed

lemma gf_step_xor: "gf_step (a XOR b) = gf_step a XOR gf_step b"
  by (rule bit_eqI) (auto simp: bit_gf_step bit_xor_iff)

lemma gf_step_0 [simp]: "gf_step 0 = 0"
  by (simp add: gf_step_def)

lemma gf_step_eq_0: "gf_step x = 0 \<longleftrightarrow> x = 0"
proof
  assume z: "gf_step x = 0"
  have "\<not> bit x 7" using bit_gf_step [of x 0] z by auto
  then have "bit x n = bit 0 n" for n
    using bit_gf_step [of x "Suc n"] z by simp
  then show "x = 0" by (intro bit_eqI) blast
qed simp

lemma xor_eq_0_int: "(a :: int) XOR b = 0 \<longleftrightarrow> a = b"
  by (auto simp: bit_eq_iff bit_xor_iff)

lemma gf_step_inj: "gf_step x = gf_step y \<longleftrightarrow> x = y"
  using gf_step_eq_0 [of "x XOR y"] by (auto simp: gf_step_xor xor_eq_0_int)

abbreviation shift :: "nat \<Rightarrow> int \<Rightarrow> int" where
  "shift n \<equiv> gf_step ^^ n"

lemma shift_byte [simp]: "byte x \<Longrightarrow> byte (shift n x)"
  by (induction n) simp_all

lemma shift_xor: "shift n (a XOR b) = shift n a XOR shift n b"
  by (induction n) (simp_all add: gf_step_xor)

lemma shift_0 [simp]: "shift n 0 = 0"
  by (induction n) simp_all

lemma shift_inj: "shift n x = shift n y \<longleftrightarrow> x = y"
  by (induction n) (simp_all add: gf_step_inj)

lemma shift_eq_0: "shift n x = 0 \<longleftrightarrow> x = 0"
  using shift_inj [of n x 0] by simp

section \<open>The order of the generator\<close>

fun orbit :: "nat \<Rightarrow> int \<Rightarrow> int list" where
  "orbit 0 x = []"
| "orbit (Suc k) x = x # orbit k (gf_step x)"

lemma orbit_set: "set (orbit k x) = {shift i x | i. i < k}"
proof (induction k arbitrary: x)
  case (Suc k)
  have "{shift i x | i. i < Suc k} = insert x {shift i (gf_step x) | i. i < k}"
    by (auto simp: less_Suc_eq_0_disj funpow_swap1 intro: exI [of _ 0]) (metis funpow.simps(2) funpow_swap1 comp_apply)
  then show ?case by (simp add: Suc.IH)
qed simp

lemma gf_step_num: "gf_step x = (if 2 * x AND 256 \<noteq> 0 then 2 * x XOR 285 else 2 * x)"
  by (simp add: gf_step_def Let_def push_bit_eq_mult mult.commute)

lemma orbit_avoids_1: "list_all (\<lambda>x. x \<noteq> 1) (orbit 254 2)"
  by (simp add: numeral_nat gf_step_num)

lemma shift_255: "shift 255 1 = 1"
  by (simp add: numeral_nat gf_step_num)

lemma shift_ne_1: "0 < d \<Longrightarrow> d < 255 \<Longrightarrow> shift d 1 \<noteq> 1"
proof -
  assume d: "0 < d" "d < 255"
  have "shift d 1 = shift (d - 1) 2"
    using d by (cases d) (simp_all add: funpow_swap1 gf_step_num)
  then have "shift d 1 \<in> set (orbit 254 2)" using d by (auto simp: orbit_set)
  then show ?thesis using orbit_avoids_1 by (auto simp: list_all_iff)
qed

lemma shift_mod: "shift (n mod 255) 1 = shift n 1"
  by (rule funpow_mod_eq [OF shift_255])

lemma powers_inj: "inj_on (\<lambda>i. shift i 1) {..<255}"
proof -
  have "shift i 1 \<noteq> shift j 1" if "i < j" "j < 255" for i j
  proof
    assume "shift i 1 = shift j 1"
    moreover have "shift j 1 = shift i (shift (j - i) 1)"
      using that by (simp flip: funpow_add comp_apply [of "shift i"])
    ultimately have "shift (j - i) 1 = 1" by (simp add: shift_inj)
    then show False using shift_ne_1 [of "j - i"] that by simp
  qed
  then show ?thesis by (auto simp: inj_on_def) (metis linorder_neqE_nat)
qed

lemma powers_cover: "(\<lambda>i. shift i 1) ` {..<255} = {1..255 :: int}"
proof (rule card_subset_eq)
  have "1 \<le> shift i 1 \<and> shift i 1 \<le> 255" for i
    using shift_byte [OF byte_1, of i] shift_eq_0 [of i 1] by (simp add: byte_def)
  then show "(\<lambda>i. shift i 1) ` {..<255} \<subseteq> {1..255}" by auto
  show "card ((\<lambda>i. shift i 1) ` {..<255}) = card {1..255 :: int}"
    by (simp add: card_image [OF powers_inj])
qed simp

lemma byte_power:
  assumes "byte a" "a \<noteq> 0"
  obtains i where "i < 255" "a = shift i 1"
proof -
  have "a \<in> {1..255}" using assms by (auto simp: byte_def)
  then have "a \<in> (\<lambda>i. shift i 1) ` {..<255}" by (simp only: powers_cover)
  then show ?thesis using that by blast
qed

section \<open>The tables\<close>

lemma gf_fill_length:
  "length (fst (gf_fill k i x t)) = length (fst t) \<and> length (snd (gf_fill k i x t)) = length (snd t)"
  by (induction k i x t rule: gf_fill.induct) simp_all

lemma gf_fill_exp_frame: "j < i \<Longrightarrow> fst (gf_fill k i x t) ! j = fst t ! j"
  by (induction k i x t rule: gf_fill.induct) simp_all

lemma gf_fill_exp:
  "j < k \<Longrightarrow> i + k \<le> length (fst t) \<Longrightarrow> fst (gf_fill k i x t) ! (i + j) = shift j x"
proof (induction k i x t arbitrary: j rule: gf_fill.induct)
  case (2 k i x ex lg)
  show ?case
  proof (cases j)
    case 0
    then show ?thesis using "2.prems" by (simp add: gf_fill_exp_frame)
  next
    case (Suc j')
    then show ?thesis using "2.IH" [of j'] "2.prems" by (simp add: funpow_swap1)
  qed
qed simp

lemma gf_fill_log_frame:
  "(\<And>j. j < k \<Longrightarrow> v \<noteq> nat (shift j x)) \<Longrightarrow> snd (gf_fill k i x t) ! v = snd t ! v"
proof (induction k i x t rule: gf_fill.induct)
  case (2 k i x ex lg)
  have "v \<noteq> nat (shift j (gf_step x))" if "j < k" for j
    using "2.prems" [of "Suc j"] that by (simp add: funpow_swap1)
  moreover have "v \<noteq> nat x" using "2.prems" [of 0] by simp
  ultimately show ?case using "2.IH" by simp
qed simp

lemma gf_fill_log:
  assumes "j < k" "inj_on (\<lambda>j. nat (shift j x)) {..<k}" "\<And>j. j < k \<Longrightarrow> nat (shift j x) < length (snd t)"
  shows "snd (gf_fill k i x t) ! nat (shift j x) = int (i + j)"
  using assms
proof (induction k i x t arbitrary: j rule: gf_fill.induct)
  case (2 k i x ex lg)
  have inj: "inj_on (\<lambda>j. nat (shift j (gf_step x))) {..<k}"
  proof (rule inj_onI)
    fix a b assume "a \<in> {..<k}" "b \<in> {..<k}" "nat (shift a (gf_step x)) = nat (shift b (gf_step x))"
    then show "a = b" using inj_onD [OF "2.prems"(2), of "Suc a" "Suc b"] by (simp add: funpow_swap1)
  qed
  have len: "nat (shift j (gf_step x)) < length (lg[nat x := int i])" if "j < k" for j
    using "2.prems"(3) [of "Suc j"] that by (simp add: funpow_swap1)
  show ?case
  proof (cases j)
    case 0
    have "nat x \<noteq> nat (shift j (gf_step x))" if "j < k" for j
      using inj_onD [OF "2.prems"(2), of 0 "Suc j"] that by (auto simp: funpow_swap1)
    then show ?thesis using 0 "2.prems"(3) [of 0] by (simp add: gf_fill_log_frame)
  next
    case (Suc j')
    then show ?thesis using "2.IH" [of j'] inj len "2.prems"(1) by (simp add: funpow_swap1)
  qed
qed simp

lemma gf_exp_power: "i < 256 \<Longrightarrow> gf_exp i = shift i 1"
proof -
  assume i: "i < 256"
  obtain ex lg where t: "gf_fill 255 0 1 (replicate 256 0, replicate 256 0) = (ex, lg)"
    by (rule prod.exhaust)
  have len: "length ex = 256" using gf_fill_length [of 255 0 1 "(replicate 256 0, replicate 256 0)"] t by simp
  have e: "ex ! j = shift j 1" if "j < 255" for j
    using gf_fill_exp [of j 255 0 "(replicate 256 0, replicate 256 0)" 1] t that by simp
  show ?thesis
  proof (cases "i = 255")
    case True
    then show ?thesis using len e [of 0] by (simp add: gf_exp_def gf_tables_def t shift_255)
  next
    case False
    then show ?thesis using len e i by (simp add: gf_exp_def gf_tables_def t)
  qed
qed

lemma gf_log_power: "i < 255 \<Longrightarrow> gf_log (shift i 1) = int i"
proof -
  assume i: "i < 255"
  have b: "0 \<le> shift j 1 \<and> shift j 1 < 256" for j
    using shift_byte [OF byte_1, of j] by (simp add: byte_def)
  have inj: "inj_on (\<lambda>j. nat (shift j 1)) {..<255}"
  proof (rule inj_onI)
    fix p q assume pq: "p \<in> {..<255}" "q \<in> {..<255}" "nat (shift p 1) = nat (shift q 1)"
    then have "shift p 1 = shift q 1" using b [of p] b [of q] by (metis eq_nat_nat_iff)
    then show "p = q" using inj_onD [OF powers_inj] pq by blast
  qed
  have "nat (shift j 1) < 256" for j using b [of j] by (simp add: nat_less_iff)
  then have "snd (gf_fill 255 0 1 (replicate 256 0, replicate 256 0)) ! nat (shift i 1) = int (0 + i)"
    by (intro gf_fill_log [OF i inj]) (simp del: nat_less_eq_zless)
  then show ?thesis by (simp add: gf_log_def gf_tables_def case_prod_beta)
qed

section \<open>The product\<close>

lemma gf_mul_power: "byte a \<Longrightarrow> gf_mul a (shift k 1) = shift k a"
proof -
  assume a: "byte a"
  let ?k = "k mod 255"
  have k: "shift k 1 = shift ?k 1" "?k < 255" by (simp_all add: shift_mod)
  show ?thesis
  proof (cases "a = 0")
    case False
    then obtain i where i: "i < 255" "a = shift i 1" using a byte_power by blast
    have "nat ((gf_log a + gf_log (shift k 1)) mod 255) = (i + ?k) mod 255"
      using i k gf_log_power [of i] gf_log_power [of ?k] by (simp add: nat_mod_distrib flip: of_nat_add)
    then have "gf_mul a (shift k 1) = shift ((i + ?k) mod 255) 1"
      using False by (simp add: gf_mul_def shift_eq_0 gf_exp_power)
    also have "\<dots> = shift (k + i) 1"
      using shift_mod [of "i + ?k"] shift_mod [of "k + i"] by (metis add.commute mod_add_left_eq)
    finally show ?thesis by (simp add: i funpow_add)
  qed (simp add: gf_mul_def)
qed

lemma gf_mul_0 [simp]: "gf_mul 0 b = 0" "gf_mul a 0 = 0"
  by (simp_all add: gf_mul_def)

lemma gf_mul_commute: "gf_mul a b = gf_mul b a"
  by (simp add: gf_mul_def add.commute)

lemma gf_mul_shift:
  assumes "byte c"
  obtains "c = 0" | k where "c = shift k 1" "\<And>a. byte a \<Longrightarrow> gf_mul a c = shift k a"
  using assms byte_power gf_mul_power by metis

lemma gf_mul_byte [simp]: "byte a \<Longrightarrow> byte b \<Longrightarrow> byte (gf_mul a b)"
  by (rule gf_mul_shift [of b]) simp_all

lemma gf_mul_1 [simp]: "byte a \<Longrightarrow> gf_mul a 1 = a" "byte a \<Longrightarrow> gf_mul 1 a = a"
  using gf_mul_power [of a 0] by (simp_all add: gf_mul_commute)

text \<open>The product distributes over the addition of the field, which is XOR.\<close>

lemma gf_mul_distrib: "byte a \<Longrightarrow> byte b \<Longrightarrow> byte c \<Longrightarrow> gf_mul (a XOR b) c = gf_mul a c XOR gf_mul b c"
  by (rule gf_mul_shift [of c]) (simp_all add: shift_xor)

lemma gf_mul_assoc: "byte a \<Longrightarrow> byte b \<Longrightarrow> byte c \<Longrightarrow> gf_mul (gf_mul a b) c = gf_mul a (gf_mul b c)"
proof -
  assume a: "byte a" and b: "byte b" and c: "byte c"
  show ?thesis
  proof (cases "b = 0 \<or> c = 0")
    case False
    then obtain i j where ij: "b = shift i 1" "c = shift j 1" using b c byte_power by metis
    have "gf_mul a (gf_mul b c) = gf_mul a (shift (j + i) 1)"
      by (simp add: ij gf_mul_power funpow_add)
    also have "\<dots> = shift j (shift i a)" unfolding gf_mul_power [OF a] by (simp add: funpow_add)
    finally show ?thesis using a by (simp add: ij gf_mul_power)
  qed auto
qed

section \<open>Polynomials\<close>

text \<open>The value of a polynomial, leading coefficient first, by Horner's rule in the field.\<close>

definition peval :: "int list \<Rightarrow> int \<Rightarrow> int" where
  "peval p x = foldl (\<lambda>acc c. gf_mul acc x XOR c) 0 p"

definition eval_at :: "nat \<Rightarrow> int list \<Rightarrow> int" where
  "eval_at k p = foldl (\<lambda>acc c. shift k acc XOR c) 0 p"

lemma horner_byte:
  "byte a \<Longrightarrow> list_all byte p \<Longrightarrow>
     foldl (\<lambda>acc c. gf_mul acc (shift k 1) XOR c) a p = foldl (\<lambda>acc c. shift k acc XOR c) a p"
  by (induction p arbitrary: a) (simp_all add: gf_mul_power)

lemma peval_power: "list_all byte p \<Longrightarrow> k < 256 \<Longrightarrow> peval p (gf_exp k) = eval_at k p"
  by (simp add: peval_def eval_at_def gf_exp_power horner_byte)

lemma eval_from: "foldl (\<lambda>acc c. shift k acc XOR c) a p = shift (k * length p) a XOR eval_at k p"
proof (induction p arbitrary: a)
  case (Cons c p)
  have "shift (k * length (c # p)) a = shift (k * length p) (shift k a)"
    by (simp add: funpow_add add.commute [of k])
  moreover have "eval_at k (c # p) = shift (k * length p) c XOR eval_at k p"
    using Cons.IH [of "shift k 0 XOR c"] by (simp add: eval_at_def)
  ultimately show ?case
    by (simp add: Cons.IH shift_xor xor.assoc)
qed (simp add: eval_at_def)

lemma eval_append: "eval_at k (p @ q) = shift (k * length q) (eval_at k p) XOR eval_at k q"
  using eval_from [of k "eval_at k p" q] by (simp add: eval_at_def)

lemma eval_single [simp]: "eval_at k [c] = c" "eval_at k [] = 0"
  by (simp_all add: eval_at_def)

lemma eval_Cons: "eval_at k (c # p) = shift (k * length p) c XOR eval_at k p"
  using eval_append [of k "[c]" p] by simp

lemma eval_zeros [simp]: "eval_at k (replicate n 0) = 0"
  by (induction n) (simp_all add: eval_at_def)

lemma eval_xor:
  "length p = length q \<Longrightarrow> eval_at k (map2 (XOR) p q) = eval_at k p XOR eval_at k q"
proof (induction p q rule: rev_induct2)
  case (4 a p b q)
  then show ?case by (simp add: eval_append shift_xor ac_simps)
qed simp_all

lemma eval_shift: "eval_at k (map (shift m) p) = shift m (eval_at k p)"
proof (induction p rule: rev_induct)
  case (snoc c p)
  have "shift k (shift m a) = shift m (shift k a)" for a
    by (metis add.commute comp_apply funpow_add)
  then show ?case by (simp add: eval_append shift_xor snoc)
qed simp

section \<open>The generator polynomial\<close>

lemma gen_factor_loop:
  assumes "m \<le> length g" "m < n"
  shows "foldl (\<lambda>nxt j. let nxt = nxt[j + 1 := nxt ! (j + 1) XOR g ! j]
                         in nxt[j := nxt ! j XOR f (g ! j)]) (replicate n (0 :: int)) [0..<m] =
         map (\<lambda>p. (if 0 < p \<and> p \<le> m then g ! (p - 1) else 0) XOR (if p < m then f (g ! p) else 0)) [0..<n]"
  using assms
proof (induction m)
  case (Suc m)
  then have IH: "foldl (\<lambda>nxt j. let nxt = nxt[j + 1 := nxt ! (j + 1) XOR g ! j]
                         in nxt[j := nxt ! j XOR f (g ! j)]) (replicate n 0) [0..<m] =
         map (\<lambda>p. (if 0 < p \<and> p \<le> m then g ! (p - 1) else 0) XOR (if p < m then f (g ! p) else 0)) [0..<n]"
    by simp
  show ?case
    unfolding upt_Suc_append [OF le0] foldl_append IH
    using Suc.prems by (intro nth_equalityI) (auto simp: nth_list_update less_Suc_eq Let_def)
qed (auto intro!: nth_equalityI)

lemma gen_factor_eq:
  assumes "list_all byte g" "i < 256"
  shows "gen_factor g i = map2 (XOR) (0 # g) (map (shift i) g @ [0])"
proof -
  have m: "gf_mul (g ! p) (gf_exp i) = shift i (g ! p)" if "p < length g" for p
    using assms that by (simp add: gf_exp_power gf_mul_power list_all_length)
  show ?thesis
    unfolding gen_factor_def gen_factor_loop [OF le_refl less_add_one, of g "\<lambda>c. gf_mul c (gf_exp i)"]
    by (intro nth_equalityI) (auto simp: nth_Cons' nth_append m less_Suc_eq)
qed

lemma gen_factor_shape:
  assumes "list_all byte g" "i < 256" "g \<noteq> []"
  shows "length (gen_factor g i) = length g + 1" "list_all byte (gen_factor g i)"
    "last (gen_factor g i) = last g"
proof -
  show "length (gen_factor g i) = length g + 1" using assms by (simp add: gen_factor_eq)
  show "list_all byte (gen_factor g i)"
    using assms by (auto simp: gen_factor_eq list_all_iff in_set_zip nth_append nth_Cons')
  show "last (gen_factor g i) = last g"
    using assms by (simp add: gen_factor_eq last_conv_nth nth_append nth_Cons')
qed

lemma gen_factor_eval:
  assumes "list_all byte g" "i < 256"
  shows "eval_at k (rev (gen_factor g i)) = shift k (eval_at k (rev g)) XOR shift i (eval_at k (rev g))"
proof -
  have "rev (gen_factor g i) = map2 (XOR) (rev g @ [0]) (0 # map (shift i) (rev g))"
    using assms by (simp add: gen_factor_eq rev_map zip_rev [symmetric])
  moreover have "eval_at k (0 # map (shift i) (rev g)) = eval_at k (map (shift i) (rev g))"
    by (simp add: eval_Cons)
  ultimately show ?thesis by (simp add: eval_xor eval_append eval_shift)
qed

lemma generator_low:
  assumes "ec \<le> 256"
  defines "g \<equiv> foldl gen_factor [1] [0..<ec]"
  shows "length g = ec + 1 \<and> list_all byte g \<and> last g = 1 \<and> (\<forall>k<ec. eval_at k (rev g) = 0)"
  using assms(1) unfolding g_def
proof (induction ec)
  case (Suc ec)
  let ?g = "foldl gen_factor [1] [0..<ec]"
  have g: "list_all byte ?g" "ec < 256" "?g \<noteq> []" "last ?g = 1" "length ?g = ec + 1"
    "\<And>k. k < ec \<Longrightarrow> eval_at k (rev ?g) = 0"
    using Suc by auto
  show ?case
    using gen_factor_shape [OF g(1-3)] gen_factor_eval [OF g(1,2)] g(4-6) by (auto simp: less_Suc_eq)
qed simp

lemma generator_shape:
  assumes "ec \<le> 256"
  shows "length (generator ec) = ec + 1" "list_all byte (generator ec)" "generator ec ! 0 = 1"
    "k < ec \<Longrightarrow> eval_at k (generator ec) = 0"
proof -
  let ?g = "foldl gen_factor [1] [0..<ec]"
  have g: "length ?g = ec + 1" "list_all byte ?g" "last ?g = 1" "\<forall>k<ec. eval_at k (rev ?g) = 0"
    using generator_low [OF assms] by auto
  then have "?g \<noteq> []" by auto
  then show "length (generator ec) = ec + 1" "list_all byte (generator ec)" "generator ec ! 0 = 1"
    "k < ec \<Longrightarrow> eval_at k (generator ec) = 0"
    using g by (auto simp: generator_def rev_nth last_conv_nth)
qed

section \<open>The division\<close>

lemma sub_loop:
  assumes "i + m \<le> length r"
  shows "foldl (\<lambda>r j. r[i + j := r ! (i + j) XOR f j]) r [0..<m] =
    map (\<lambda>p. (r ! p :: int) XOR (if i \<le> p \<and> p < i + m then f (p - i) else 0)) [0..<length r]"
  using assms
proof (induction m)
  case (Suc m)
  then show ?case by (intro nth_equalityI) (auto simp: nth_list_update)
qed (auto intro!: nth_equalityI)

lemma div_step_eq:
  assumes "i + length g \<le> length r"
  shows "div_step g r i =
    map2 (XOR) r (replicate i 0 @ map (\<lambda>c. gf_mul c (r ! i)) g @ replicate (length r - i - length g) 0)"
  using assms
  by (intro nth_equalityI) (auto simp: div_step_def Let_def sub_loop nth_append)

lemma eval_scaled:
  assumes "list_all byte g" "byte c" "eval_at k g = 0"
  shows "eval_at k (map (\<lambda>d. gf_mul d c) g) = 0"
proof (rule gf_mul_shift [OF assms(2)])
  assume "c = 0"
  then show ?thesis by (simp add: map_replicate_const)
next
  fix m assume "\<And>a. byte a \<Longrightarrow> gf_mul a c = shift m a"
  then have "map (\<lambda>d. gf_mul d c) g = map (shift m) g" using assms(1) by (auto simp: list_all_iff)
  then show ?thesis by (simp only: eval_shift assms(3) shift_0)
qed

lemma div_step_shape:
  assumes "i + length g \<le> length r" "list_all byte g" "list_all byte r" "g \<noteq> []" "g ! 0 = 1"
  shows "length (div_step g r i) = length r" "list_all byte (div_step g r i)" "div_step g r i ! i = 0"
    "p < i \<Longrightarrow> div_step g r i ! p = r ! p" "eval_at k g = 0 \<Longrightarrow> eval_at k (div_step g r i) = eval_at k r"
proof -
  have i: "i < length r" using assms by (cases g) auto
  then have c: "byte (r ! i)" using assms(3) by (simp add: list_all_length)
  show "length (div_step g r i) = length r" using assms(1) by (simp add: div_step_eq)
  show "list_all byte (div_step g r i)"
    using assms c by (auto simp: div_step_eq list_all_length nth_append)
  show "div_step g r i ! i = 0" using assms i c by (simp add: div_step_eq nth_append)
  show "p < i \<Longrightarrow> div_step g r i ! p = r ! p" using assms i by (simp add: div_step_eq nth_append)
  show "eval_at k (div_step g r i) = eval_at k r" if "eval_at k g = 0"
    using assms eval_scaled [OF assms(2) c that] by (simp add: div_step_eq eval_xor eval_append)
qed

lemma division_invariant:
  fixes data :: "int list"
  assumes "ec \<le> 256" "list_all byte data" "n \<le> length data"
  defines "r \<equiv> foldl (div_step (generator ec)) (data @ replicate ec 0) [0..<n]"
  shows "length r = length data + ec \<and> list_all byte r \<and> (\<forall>p<n. r ! p = 0) \<and>
    (\<forall>k<ec. eval_at k r = eval_at k (data @ replicate ec 0))"
  using assms(3) unfolding r_def
proof (induction n)
  case 0
  then show ?case using assms(2) by (auto simp: list_all_iff)
next
  case (Suc n)
  let ?r = "foldl (div_step (generator ec)) (data @ replicate ec 0) [0..<n]"
  have g: "length (generator ec) = ec + 1" "list_all byte (generator ec)" "generator ec ! 0 = 1"
    "\<And>k. k < ec \<Longrightarrow> eval_at k (generator ec) = 0"
    by (rule generator_shape [OF assms(1)])+
  have r: "length ?r = length data + ec" "list_all byte ?r" "\<And>p. p < n \<Longrightarrow> ?r ! p = 0"
    "\<And>k. k < ec \<Longrightarrow> eval_at k ?r = eval_at k (data @ replicate ec 0)"
    using Suc by auto
  have le: "n + length (generator ec) \<le> length ?r" using g r Suc.prems by simp
  have ne: "generator ec \<noteq> []" using g(1) by auto
  show ?case
    using div_step_shape [OF le g(2) r(2) ne g(3)] g(4) r by (auto simp: less_Suc_eq)
qed

lemma rs_remainder:
  assumes "ec \<le> 256" "list_all byte data"
  shows "length (rsEncode data ec) = ec" "list_all byte (rsEncode data ec)"
    "k < ec \<Longrightarrow> eval_at k (rsEncode data ec) = eval_at k (data @ replicate ec 0)"
proof -
  let ?r = "foldl (div_step (generator ec)) (data @ replicate ec 0) [0..<length data]"
  have r: "length ?r = length data + ec" "list_all byte ?r" "\<And>p. p < length data \<Longrightarrow> ?r ! p = 0"
    "\<And>k. k < ec \<Longrightarrow> eval_at k ?r = eval_at k (data @ replicate ec 0)"
    using division_invariant [OF assms le_refl] by auto
  have e: "rsEncode data ec = drop (length data) ?r" by (simp add: rsEncode_def Let_def r(1))
  have "take (length data) ?r = replicate (length data) 0"
    by (intro nth_equalityI) (simp_all add: r(1,3))
  then have s: "?r = replicate (length data) 0 @ rsEncode data ec"
    by (metis append_take_drop_id e)
  show "length (rsEncode data ec) = ec" by (simp add: e r(1))
  show "list_all byte (rsEncode data ec)" using r(2) by (auto simp: e list_all_iff dest: in_set_dropD)
  show "k < ec \<Longrightarrow> eval_at k (rsEncode data ec) = eval_at k (data @ replicate ec 0)"
    using r(4) [of k] arg_cong [OF s, of "eval_at k"] by (simp add: eval_append [of k "replicate (length data) 0"])
qed

section \<open>Syndromes\<close>

lemma rs_syndrome:
  assumes "list_all byte data" "ec_len \<le> 255" "k < ec_len"
  shows "peval (data @ rsEncode data ec_len) (gf_exp k) = 0"
proof -
  have ec: "ec_len \<le> 256" using assms(2) by simp
  note r = rs_remainder [OF ec assms(1)]
  have "peval (data @ rsEncode data ec_len) (gf_exp k) = eval_at k (data @ rsEncode data ec_len)"
    using assms r(2) by (intro peval_power) auto
  also have "\<dots> = eval_at k (data @ replicate ec_len 0) XOR eval_at k (rsEncode data ec_len)"
    by (simp add: eval_append r(1))
  also have "\<dots> = 0" by (simp add: r(3) [OF assms(3)])
  finally show ?thesis .
qed

text \<open>The check bytes make a Reed-Solomon codeword: for every block of bytes and every number of
  check bytes up to 255, \<open>rsEncode\<close> returns exactly that many bytes, and the block followed by them
  evaluates to zero at each of the powers of the generator that define the code.\<close>

theorem rs_codeword:
  assumes "list_all byte data" "ec_len \<le> 255" "k < ec_len"
  shows "length (rsEncode data ec_len) = ec_len \<and> list_all byte (rsEncode data ec_len) \<and>
    peval (data @ rsEncode data ec_len) (gf_exp k) = 0"
  using rs_syndrome [OF assms] rs_remainder [of ec_len data] assms by simp

theorem rs_codeword_witness:
  "peval ([64, 84] @ rsEncode [64, 84] 10) (gf_exp 9) = 0"
  using rs_codeword [of "[64, 84]" 10 9] by (simp add: byte_def)

text \<open>A block in which one byte was changed is recognised: the first syndrome is the difference.\<close>

lemma single_error_detected:
  assumes "list_all byte data" "ec_len \<le> 255" "0 < ec_len" "i < length data + ec_len" "byte e" "e \<noteq> 0"
  defines "w \<equiv> data @ rsEncode data ec_len"
  shows "peval (w[i := w ! i XOR e]) (gf_exp 0) = e"
proof -
  have ec: "ec_len \<le> 256" using assms(2) by simp
  note r = rs_remainder [OF ec assms(1)]
  have w: "list_all byte w" "length w = length data + ec_len" using assms(1) r by (simp_all add: w_def)
  have u: "w[i := w ! i XOR e] = take i w @ [w ! i XOR e] @ drop (Suc i) w"
    using assms(4) w by (simp add: upd_conv_take_nth_drop)
  have "list_all byte (w[i := w ! i XOR e])"
    using w assms(4,5) by (auto simp: list_all_length nth_list_update)
  then have "peval (w[i := w ! i XOR e]) (gf_exp 0) = eval_at 0 (take i w @ [w ! i XOR e] @ drop (Suc i) w)"
    unfolding u by (rule peval_power) simp
  also have "\<dots> = eval_at 0 (take i w @ [w ! i] @ drop (Suc i) w) XOR e"
    by (simp add: eval_append eval_Cons ac_simps)
  also have "take i w @ [w ! i] @ drop (Suc i) w = w"
    using assms(4) w by (simp add: id_take_nth_drop [symmetric])
  also have "eval_at 0 w = 0"
    using r(3) [OF assms(3)] by (simp add: w_def eval_append r(1))
  finally show ?thesis by simp
qed

end
