(* ===== verification/Qr_Codewords.thy ===== *)
theory Qr_Codewords
  imports Reed_Solomon
begin

unbundle bit_operations_syntax

text \<open>
  The codeword layer of \<open>web/QrEncoder.cpp\<close>: the version table, the choice of a version, the bit
  buffer, and \<open>buildCodewords\<close> with its terminator, padding, blocks and interleaving. A reference
  reader undoes the interleaving, checks every block against the Reed-Solomon code and parses the
  segment; the main theorem says that it returns the text for every text that fits.
\<close>

section \<open>Versions\<close>

record ver_info =
  data_codewords :: nat
  ec_per_block :: nat
  num_blocks :: nat

definition kVerM :: "ver_info list" where
  "kVerM = map (\<lambda>(d, e, n). \<lparr>data_codewords = d, ec_per_block = e, num_blocks = n\<rparr>)
     [(0, 0, 0), (16, 10, 1), (28, 16, 1), (44, 26, 1), (64, 18, 2), (86, 24, 2), (108, 16, 4), (124, 18, 4),
      (154, 22, 2), (182, 22, 3), (216, 26, 4)]"

definition moduleCount :: "nat \<Rightarrow> nat" where
  "moduleCount version = version * 4 + 17"

definition charCountBits :: "nat \<Rightarrow> nat" where
  "charCountBits version = (if version \<le> 9 then 8 else 16)"

text \<open>\<open>None\<close> is the exception of a text that is too long.\<close>

definition chooseVersion :: "nat \<Rightarrow> nat option" where
  "chooseVersion data_bytes =
     find (\<lambda>v. (4 + charCountBits v) + data_bytes * 8 \<le> data_codewords (kVerM ! v) * 8) [1..<11]"

section \<open>Bits and bytes\<close>

definition put :: "int list \<Rightarrow> int \<Rightarrow> nat \<Rightarrow> int list" where
  "put bits val len = bits @ map (\<lambda>i. drop_bit i val AND 1) (rev [0..<len])"

function pad_to_byte :: "int list \<Rightarrow> int list" where
  "pad_to_byte bits = (if length bits mod 8 \<noteq> 0 then pad_to_byte (bits @ [0]) else bits)"
  by auto
termination
  by (relation "measure (\<lambda>bits. (8 - length bits mod 8) mod 8)") (simp, auto simp: mod_Suc)

declare pad_to_byte.simps [simp del]

definition to_bytes :: "int list \<Rightarrow> int list" where
  "to_bytes bits = map (\<lambda>i. foldl (\<lambda>b k. push_bit 1 b OR bits ! (8 * i + k)) 0 [0..<8]) [0..<length bits div 8]"

fun pad_words :: "nat \<Rightarrow> nat \<Rightarrow> int list" where
  "pad_words 0 pi = []"
| "pad_words (Suc k) pi = [0xEC, 0x11] ! pi # pad_words k (1 - pi)"

definition segment_bits :: "string \<Rightarrow> nat \<Rightarrow> int list" where
  "segment_bits text v =
     foldl (\<lambda>bb c. put bb (of_char c) 8) (put (put [] 4 4) (int (length text)) (charCountBits v)) text"

definition data_words :: "string \<Rightarrow> nat \<Rightarrow> int list" where
  "data_words text v =
     (let vi = kVerM ! v; bits = segment_bits text v;
          term = min 4 (data_codewords vi * 8 - length bits);
          data = to_bytes (pad_to_byte (bits @ replicate term 0))
      in data @ pad_words (data_codewords vi - length data) 0)"

section \<open>Blocks and interleaving\<close>

definition block_sizes :: "ver_info \<Rightarrow> nat list" where
  "block_sizes vi =
     (let nb = num_blocks vi; per = data_codewords vi div nb; rm = data_codewords vi mod nb
      in map (\<lambda>b. per + (if b \<ge> nb - rm then 1 else 0)) [0..<nb])"

fun split_blocks :: "nat list \<Rightarrow> int list \<Rightarrow> int list list" where
  "split_blocks [] data = []"
| "split_blocks (cnt # cs) data = take cnt data # split_blocks cs (drop cnt data)"

definition row :: "nat \<Rightarrow> int list list \<Rightarrow> int list" where
  "row i blocks = concat (map (\<lambda>b. if i < length b then [b ! i] else []) blocks)"

definition interleave :: "nat \<Rightarrow> int list list \<Rightarrow> int list" where
  "interleave m blocks = concat (map (\<lambda>i. row i blocks) [0..<m])"

definition buildCodewords :: "string \<Rightarrow> nat \<Rightarrow> int list" where
  "buildCodewords text v =
     (let vi = kVerM ! v;
          dblocks = split_blocks (block_sizes vi) (data_words text v);
          eblocks = map (\<lambda>b. rsEncode b (ec_per_block vi)) dblocks;
          maxd = foldl max 0 (map length dblocks)
      in interleave maxd dblocks @ concat (map (\<lambda>i. map (\<lambda>b. b ! i) eblocks) [0..<ec_per_block vi]))"

section \<open>A reference reader\<close>

fun unrow :: "nat \<Rightarrow> nat list \<Rightarrow> int list \<Rightarrow> int list list \<times> int list" where
  "unrow i [] s = ([], s)"
| "unrow i (n # ns) s =
     (if i < n then (case unrow i ns (tl s) of (ps, r) \<Rightarrow> (take 1 s # ps, r))
      else (case unrow i ns s of (ps, r) \<Rightarrow> ([] # ps, r)))"

fun unrows :: "nat list \<Rightarrow> nat list \<Rightarrow> int list \<Rightarrow> int list list \<times> int list" where
  "unrows [] ns s = (map (\<lambda>_. []) ns, s)"
| "unrows (i # is) ns s =
     (case unrow i ns s of (ps, r) \<Rightarrow> (case unrows is ns r of (bs, r') \<Rightarrow> (map2 (@) ps bs, r')))"

definition bits_value :: "int list \<Rightarrow> int" where
  "bits_value bs = foldl (\<lambda>v b. 2 * v + b) 0 bs"

definition word_bits :: "int list \<Rightarrow> int list" where
  "word_bits ws = foldl (\<lambda>bb w. put bb w 8) [] ws"

definition parse_segment :: "nat \<Rightarrow> int list \<Rightarrow> string option" where
  "parse_segment v bits =
     (if bits_value (take 4 bits) \<noteq> 4 then None
      else
        (let cc = charCountBits v; body = drop (4 + cc) bits; n = nat (bits_value (take cc (drop 4 bits)))
         in Some (map (\<lambda>i. char_of (bits_value (take 8 (drop (8 * i) body)))) [0..<n])))"

definition syndromes_zero :: "nat \<Rightarrow> int list \<Rightarrow> bool" where
  "syndromes_zero ec w \<longleftrightarrow> list_all (\<lambda>k. peval w (gf_exp k) = 0) [0..<ec]"

definition read_codewords :: "nat \<Rightarrow> int list \<Rightarrow> string option" where
  "read_codewords v s =
     (let vi = kVerM ! v; ns = block_sizes vi; ec = ec_per_block vi in
      case unrows [0..<foldl max 0 ns] ns s of (dbs, r) \<Rightarrow>
        (case unrows [0..<ec] (map (\<lambda>_. ec) ns) r of (ebs, r') \<Rightarrow>
           if r' = [] \<and> list_all (syndromes_zero ec) (map2 (@) dbs ebs)
           then parse_segment v (word_bits (concat dbs)) else None))"

section \<open>Bits\<close>

definition isbit :: "int \<Rightarrow> bool" where
  "isbit b \<longleftrightarrow> b = 0 \<or> b = 1"

lemma put_append: "put bs x n = bs @ put [] x n"
  by (simp add: put_def)

lemma put_Suc: "put [] x (Suc n) = (drop_bit n x mod 2) # put [] x n"
  by (simp add: put_def and_one_eq)

lemma put_0 [simp]: "put [] x 0 = []"
  by (simp add: put_def)

lemma length_put [simp]: "length (put bs x n) = length bs + n"
  by (simp add: put_def)

lemma put_isbit [simp]: "list_all isbit (put [] x n)"
  by (induction n) (auto simp: put_Suc isbit_def)

lemma put_take_bit: "put [] (take_bit n x) n = put [] x n"
proof -
  have "drop_bit i (take_bit n x) mod 2 = drop_bit i x mod 2" if "i < n" for i
    using bit_take_bit_iff [of n x i] that by (simp add: bit_iff_odd_drop_bit mod2_eq_if)
  then show ?thesis by (simp add: put_def and_one_eq)
qed

lemma bits_value_Nil [simp]: "bits_value [] = 0"
  by (simp add: bits_value_def)

lemma bits_value_snoc: "bits_value (bs @ [b]) = 2 * bits_value bs + b"
  by (simp add: bits_value_def)

lemma bits_value_Cons: "bits_value (b # bs) = b * 2 ^ length bs + bits_value bs"
proof (induction bs rule: rev_induct)
  case (snoc c cs)
  then show ?case
    using bits_value_snoc [of "b # cs" c] bits_value_snoc [of cs c] by (simp add: algebra_simps)
qed (simp add: bits_value_def)

lemma bits_value_put: "bits_value (put [] x n) = take_bit n x"
  by (induction n) (simp_all add: put_Suc bits_value_Cons take_bit_Suc_from_most bit_iff_odd_drop_bit mod2_eq_if)

lemma bits_value_bound: "list_all isbit bs \<Longrightarrow> 0 \<le> bits_value bs \<and> bits_value bs < 2 ^ length bs"
  by (induction bs) (auto simp: bits_value_Cons isbit_def)

lemma put_bits_value: "list_all isbit bs \<Longrightarrow> put [] (bits_value bs) (length bs) = bs"
proof (induction bs)
  case (Cons b bs)
  let ?n = "length bs" and ?x = "bits_value bs"
  have x: "0 \<le> ?x" "?x < 2 ^ ?n" using bits_value_bound [of bs] Cons.prems by simp_all
  have b: "b mod 2 = b" using Cons.prems by (auto simp: isbit_def)
  have v: "bits_value (b # bs) = b * 2 ^ ?n + ?x" by (rule bits_value_Cons)
  have "take_bit ?n (b * 2 ^ ?n + ?x) = ?x" using x by (simp add: take_bit_eq_mod)
  moreover have "drop_bit ?n (b * 2 ^ ?n + ?x) = b" using x by (simp add: drop_bit_eq_div)
  ultimately show ?case
    using Cons put_take_bit [of ?n "b * 2 ^ ?n + ?x"] b by (simp add: put_Suc v)
qed simp

lemma word_bits_concat: "word_bits ws = concat (map (\<lambda>w. put [] w 8) ws)"
proof -
  have "foldl (\<lambda>bb w. put bb w 8) acc ws = acc @ concat (map (\<lambda>w. put [] w 8) ws)" for acc
  proof (induction ws arbitrary: acc)
    case (Cons w ws)
    show ?case using Cons [of "put acc w 8"] put_append [of acc w 8] by simp
  qed simp
  then show ?thesis by (simp add: word_bits_def)
qed

section \<open>Bytes\<close>

lemma push_or_bit: "isbit k \<Longrightarrow> push_bit 1 b OR k = 2 * b + k"
  by (auto simp: isbit_def or_one_eq push_bit_eq_mult)

lemma to_bytes_value:
  assumes "list_all isbit bits" "8 * i + 8 \<le> length bits"
  shows "foldl (\<lambda>b k. push_bit 1 b OR bits ! (8 * i + k)) 0 [0..<8] = bits_value (take 8 (drop (8 * i) bits))"
proof -
  have "foldl (\<lambda>b k. push_bit 1 b OR bits ! (8 * i + k)) a [0..<n] =
      foldl (\<lambda>v b. 2 * v + b) a (take n (drop (8 * i) bits))" if "n \<le> 8" for n a
    using that
  proof (induction n)
    case (Suc n)
    have "isbit (bits ! (8 * i + n))" using assms Suc.prems by (simp add: list_all_length)
    moreover have "take (Suc n) (drop (8 * i) bits) = take n (drop (8 * i) bits) @ [bits ! (8 * i + n)]"
      using assms Suc.prems by (simp add: take_Suc_conv_app_nth)
    ultimately show ?case using Suc push_or_bit by simp
  qed simp
  from this [of 8 0] show ?thesis by (simp add: bits_value_def)
qed

lemma to_bytes_chunks:
  "list_all isbit bits \<Longrightarrow>
     to_bytes bits = map (\<lambda>i. bits_value (take 8 (drop (8 * i) bits))) [0..<length bits div 8]"
  unfolding to_bytes_def by (intro map_cong refl to_bytes_value) auto

lemma to_bytes_Cons:
  assumes "list_all isbit (c @ bits)" "length c = 8" "length bits = 8 * m"
  shows "to_bytes (c @ bits) = bits_value c # to_bytes bits"
proof -
  have l: "length (c @ bits) div 8 = Suc m" "length bits div 8 = m" using assms(2,3) by simp_all
  have b: "list_all isbit bits" using assms(1) by simp
  show ?thesis
    unfolding to_bytes_chunks [OF assms(1)] to_bytes_chunks [OF b] l map_upt_Suc
    using assms(2) by simp
qed

lemma to_bytes_roundtrip:
  "length bits = 8 * m \<Longrightarrow> list_all isbit bits \<Longrightarrow>
     word_bits (to_bytes bits) = bits \<and> length (to_bytes bits) = m \<and> list_all byte (to_bytes bits)"
proof (induction m arbitrary: bits)
  case (Suc m)
  define c d where "c = take 8 bits" and "d = drop 8 bits"
  have b: "bits = c @ d" "length c = 8" "length d = 8 * m" "list_all isbit c" "list_all isbit d"
    using Suc.prems by (auto simp: c_def d_def list_all_iff dest: in_set_takeD in_set_dropD)
  have e: "to_bytes bits = bits_value c # to_bytes d"
    unfolding b(1) by (rule to_bytes_Cons [OF _ b(2,3)]) (simp add: b)
  have "byte (bits_value c)" using bits_value_bound [OF b(4)] b(2) by (simp add: byte_def)
  moreover have "put [] (bits_value c) 8 = c" using put_bits_value [OF b(4)] b(2) by simp
  ultimately show ?case using Suc.IH [OF b(3,5)] unfolding e word_bits_concat by (simp add: b(1))
qed (simp add: to_bytes_def word_bits_concat)

lemma pad_to_byte_eq: "pad_to_byte bits = bits @ replicate ((8 - length bits mod 8) mod 8) 0"
proof (induction bits rule: pad_to_byte.induct)
  case (1 bits)
  show ?case
  proof (cases "length bits mod 8 = 0")
    case False
    have "(8 - length bits mod 8) mod 8 = Suc ((8 - Suc (length bits) mod 8) mod 8)"
      using False mod_less_divisor [of 8 "length bits"] by (auto simp: mod_Suc)
    then show ?thesis using 1 False by (subst pad_to_byte.simps) (simp add: replicate_app_Cons_same)
  qed (subst pad_to_byte.simps, simp)
qed

lemma pad_words_byte: "list_all byte (pad_words k i)" if "i \<le> 1"
  using that by (induction k arbitrary: i) (auto simp: byte_def nth_Cons')

lemma length_pad_words [simp]: "length (pad_words k i) = k"
  by (induction k arbitrary: i) simp_all

section \<open>The table\<close>

lemma table_ok:
  "list_all (\<lambda>v. sum_list (block_sizes (kVerM ! v)) = data_codewords (kVerM ! v) \<and> ec_per_block (kVerM ! v) \<le> 255
     \<and> data_codewords (kVerM ! v) < 2 ^ charCountBits v) [1, 2, 3, 4, 5, 6, 7, 8, 9, 10]"
  unfolding list.pred_inject by (simp add: kVerM_def block_sizes_def charCountBits_def Let_def upt_rec)

lemma versions: "v \<in> set [1..<11] \<longleftrightarrow> v \<in> set [1, 2, 3, 4, 5, 6, 7, 8, 9, 10]"
  by (simp, arith)

lemma chooseVersion_Some:
  assumes "chooseVersion n = Some v"
  shows "1 \<le> v \<and> v \<le> 10" "4 + charCountBits v + 8 * n \<le> 8 * data_codewords (kVerM ! v)"
    "sum_list (block_sizes (kVerM ! v)) = data_codewords (kVerM ! v)" "ec_per_block (kVerM ! v) \<le> 255"
    "n < 2 ^ charCountBits v"
proof -
  let ?fits = "\<lambda>v. (4 + charCountBits v) + n * 8 \<le> data_codewords (kVerM ! v) * 8"
  have v: "v \<in> set [1..<11]" and f: "?fits v"
    using assms by (auto simp: chooseVersion_def find_Some_iff dest: nth_mem)
  show "1 \<le> v \<and> v \<le> 10" using v by auto
  show "4 + charCountBits v + 8 * n \<le> 8 * data_codewords (kVerM ! v)" using f by simp
  have t: "sum_list (block_sizes (kVerM ! v)) = data_codewords (kVerM ! v) \<and> ec_per_block (kVerM ! v) \<le> 255
     \<and> data_codewords (kVerM ! v) < 2 ^ charCountBits v"
    using table_ok v [unfolded versions] by (simp only: list_all_iff Ball_def)
  then show "sum_list (block_sizes (kVerM ! v)) = data_codewords (kVerM ! v)" "ec_per_block (kVerM ! v) \<le> 255"
    by simp_all
  show "n < 2 ^ charCountBits v" using f t by simp
qed

text \<open>The version is the smallest that fits, and only a text that fits in none is refused.\<close>

lemma chooseVersion_least:
  "chooseVersion n = Some v \<Longrightarrow> 1 \<le> u \<Longrightarrow> u < v \<Longrightarrow> data_codewords (kVerM ! u) * 8 < 4 + charCountBits u + n * 8"
  by (auto simp: chooseVersion_def find_Some_iff not_le dest!: spec [of _ "u - 1"])

lemma chooseVersion_None:
  "chooseVersion n = None \<longleftrightarrow> (\<forall>v\<in>{1..10}. data_codewords (kVerM ! v) * 8 < 4 + charCountBits v + n * 8)"
proof -
  have "set [1..<11] = {1..10 :: nat}" by auto
  then show ?thesis unfolding chooseVersion_def find_None_iff not_le [symmetric] by metis
qed

section \<open>The segment\<close>

lemma segment_bits_eq:
  "segment_bits text v =
     put [] 4 4 @ put [] (int (length text)) (charCountBits v) @ concat (map (\<lambda>c. put [] (of_char c) 8) text)"
proof -
  have "foldl (\<lambda>bb c. put bb (of_char c) 8) acc s = acc @ concat (map (\<lambda>c. put [] (of_char c) 8) s)" for acc s
  proof (induction s arbitrary: acc)
    case (Cons c cs)
    show ?case using Cons [of "put acc (of_char c) 8"] put_append [of acc "of_char c" 8] by simp
  qed simp
  then show ?thesis by (simp add: segment_bits_def put_append [of "put [] 4 4"])
qed

lemma length_chunks: "length (concat (map (\<lambda>c. put [] (f c) 8) xs)) = 8 * length xs"
  by (induction xs) simp_all

lemma chunk_nth:
  "i < length xs \<Longrightarrow> take 8 (drop (8 * i) (concat (map (\<lambda>c. put [] (f c) 8) xs) @ r)) = put [] (f (xs ! i)) 8"
proof (induction xs arbitrary: i)
  case (Cons x xs)
  then show ?case by (cases i) simp_all
qed simp

lemma length_segment: "length (segment_bits text v) = 4 + charCountBits v + 8 * length text"
  by (simp add: segment_bits_eq length_chunks)

lemma segment_isbit: "list_all isbit (segment_bits text v)"
proof -
  have "list_all isbit (concat (map (\<lambda>c. put [] (of_char c) 8) s))" for s
    by (induction s) simp_all
  then show ?thesis by (simp add: segment_bits_eq)
qed

lemma char_of_bits: "char_of (take_bit 8 (of_char c :: int)) = c"
  by (simp add: char_of_take_bit_eq)

lemma pad_dvd: "8 dvd (a :: nat) + (8 - a mod 8) mod 8"
proof (cases "a mod 8 = 0")
  case False
  define q r where "q = a div 8" and "r = a mod 8"
  have "a = 8 * q + r" "r < 8" "r \<noteq> 0" using False by (simp_all add: q_def r_def)
  then have "a + (8 - r) mod 8 = 8 * (q + 1)" by simp
  then show ?thesis unfolding r_def by (metis dvd_triv_left)
qed auto

lemma parse_segment_bits:
  assumes "length text < 2 ^ charCountBits v"
  shows "parse_segment v (segment_bits text v @ r) = Some text"
proof -
  let ?n = "put [] (int (length text)) (charCountBits v)"
  let ?body = "concat (map (\<lambda>c. put [] (of_char c) 8) text) @ r"
  have s: "segment_bits text v @ r = put [] 4 4 @ ?n @ ?body" by (simp add: segment_bits_eq)
  have "int (length text) < 2 ^ charCountBits v" using assms by simp
  then have "take_bit (charCountBits v) (int (length text)) = int (length text)"
    by (simp add: take_bit_int_eq_self_iff)
  then have n: "nat (bits_value ?n) = length text" by (simp add: bits_value_put)
  have "map (\<lambda>i. char_of (bits_value (take 8 (drop (8 * i) ?body)))) [0..<length text] = text"
    by (rule nth_equalityI) (simp_all add: chunk_nth bits_value_put char_of_bits del: take_append drop_append)
  then show ?thesis
    unfolding parse_segment_def s using n by (simp add: Let_def bits_value_put take_bit_eq_mod)
qed

lemma data_words_bits:
  assumes "4 + charCountBits v + 8 * length text \<le> 8 * data_codewords (kVerM ! v)"
  shows "length (data_words text v) = data_codewords (kVerM ! v)" "list_all byte (data_words text v)"
    "\<exists>r. word_bits (data_words text v) = segment_bits text v @ r"
proof -
  define d where "d = data_codewords (kVerM ! v)"
  define z where "z = min 4 (d * 8 - length (segment_bits text v))"
  define bits where "bits = pad_to_byte (segment_bits text v @ replicate z 0)"
  define q where "q = (8 - (length (segment_bits text v) + z) mod 8) mod 8"
  have b: "bits = segment_bits text v @ replicate (z + q) 0"
    by (simp add: bits_def pad_to_byte_eq q_def replicate_add)
  have fit: "length (segment_bits text v) + z \<le> 8 * d" using assms by (simp add: length_segment z_def d_def)
  obtain m where m: "length bits = 8 * m" "m \<le> d"
  proof -
    have "8 dvd length (segment_bits text v) + z + q" unfolding q_def by (rule pad_dvd)
    then obtain m where "length (segment_bits text v) + z + q = 8 * m" by (auto simp: dvd_def)
    moreover have "q < 8" by (simp add: q_def)
    ultimately show ?thesis using that [of m] fit by (simp add: b)
  qed
  have "list_all isbit (segment_bits text v)" by (rule segment_isbit)
  then have "list_all isbit bits" by (auto simp: b list_all_iff isbit_def)
  then have r: "word_bits (to_bytes bits) = bits" "length (to_bytes bits) = m" "list_all byte (to_bytes bits)"
    using to_bytes_roundtrip [OF m(1)] by auto
  have w: "data_words text v = to_bytes bits @ pad_words (d - m) 0"
    by (simp add: data_words_def Let_def bits_def z_def d_def r(2) [unfolded bits_def z_def d_def])
  show "length (data_words text v) = data_codewords (kVerM ! v)" using m r(2) by (simp add: w d_def)
  show "list_all byte (data_words text v)" using r(3) by (simp add: w pad_words_byte)
  show "\<exists>r. word_bits (data_words text v) = segment_bits text v @ r"
    using r(1) by (simp add: w word_bits_concat b)
qed

section \<open>Interleaving\<close>

lemma split_blocks_concat: "sum_list cs = length d \<Longrightarrow> concat (split_blocks cs d) = d"
  by (induction cs arbitrary: d) auto

lemma split_blocks_lengths: "sum_list cs \<le> length d \<Longrightarrow> map length (split_blocks cs d) = cs"
  by (induction cs arbitrary: d) auto

lemma split_blocks_byte: "list_all byte d \<Longrightarrow> b \<in> set (split_blocks cs d) \<Longrightarrow> list_all byte b"
  by (induction cs arbitrary: d) (auto simp: list_all_iff dest: in_set_takeD in_set_dropD)

lemma unrow_row: "unrow i (map length bs) (row i bs @ r) = (map (\<lambda>b. take 1 (drop i b)) bs, r)"
proof (induction bs)
  case (Cons b bs)
  have "row i (b # bs) = (if i < length b then [b ! i] else []) @ row i bs" by (simp add: row_def)
  then show ?case using Cons by (auto simp: take_Suc hd_drop_conv_nth)
qed (simp add: row_def)

lemma unrows_rows:
  "a \<le> m \<Longrightarrow> (\<And>b. b \<in> set bs \<Longrightarrow> length b \<le> m) \<Longrightarrow>
     unrows [a..<m] (map length bs) (concat (map (\<lambda>i. row i bs) [a..<m]) @ r) = (map (drop a) bs, r)"
proof (induction "m - a" arbitrary: a)
  case (Suc k)
  have a: "[a..<m] = a # [Suc a..<m]" using Suc.hyps(2) by (simp add: upt_conv_Cons)
  have "unrows [Suc a..<m] (map length bs) (concat (map (\<lambda>i. row i bs) [Suc a..<m]) @ r) = (map (drop (Suc a)) bs, r)"
    using Suc by (intro Suc.hyps(1)) simp_all
  moreover have "take 1 (drop a b) @ drop (Suc a) b = drop a b" for b :: "int list"
    by (metis append_take_drop_id drop_drop plus_1_eq_Suc)
  ultimately show ?case
    using unrow_row [of a bs] by (simp add: a zip_map_map zip_same_conv_map)
qed auto

lemma foldl_max_ge: "x \<in> set xs \<Longrightarrow> (x :: nat) \<le> foldl max a xs"
proof -
  have "a \<le> foldl max a xs \<and> (\<forall>x\<in>set xs. x \<le> foldl max a xs)" for a
  proof (induction xs arbitrary: a)
    case (Cons y ys)
    have "max a y \<le> foldl max (max a y) ys" using Cons [of "max a y"] by blast
    then show ?case using Cons [of "max a y"] by simp
  qed simp
  then show "x \<in> set xs \<Longrightarrow> x \<le> foldl max a xs" by blast
qed

lemma ecc_rows:
  "(\<And>b. b \<in> set bs \<Longrightarrow> length b = ec) \<Longrightarrow>
     concat (map (\<lambda>i. map (\<lambda>b. b ! i) bs) [0..<ec]) = concat (map (\<lambda>i. row i bs) [0..<ec])"
proof -
  assume l: "\<And>b. b \<in> set bs \<Longrightarrow> length b = ec"
  have "map (\<lambda>b. b ! i) bs = row i bs" if "i < ec" for i
    using l that by (induction bs) (simp_all add: row_def)
  then show ?thesis by (intro arg_cong [of _ _ concat] map_cong) auto
qed

section \<open>Reading back\<close>

text \<open>A symbol's codewords carry the text: for every text that \<open>chooseVersion\<close> accepts, a reader that
  undoes the interleaving of \<open>buildCodewords\<close>, checks that every block is a Reed-Solomon codeword and
  parses the byte-mode segment (mode, character count, characters) finds nothing wrong, uses up all
  the codewords and returns exactly the text.\<close>

theorem codewords_roundtrip:
  assumes "chooseVersion (length s) = Some v"
  shows "read_codewords v (buildCodewords s v) = Some s"
proof -
  define vi ec ns where "vi = kVerM ! v" and "ec = ec_per_block vi" and "ns = block_sizes vi"
  define d where "d = data_words s v"
  define db where "db = split_blocks ns d"
  define eb where "eb = map (\<lambda>b. rsEncode b ec) db"
  note cv = chooseVersion_Some [OF assms, folded vi_def]
  have d: "length d = data_codewords vi" "list_all byte d" "\<exists>r. word_bits d = segment_bits s v @ r"
    using data_words_bits [of v s] cv(2) by (simp_all add: d_def vi_def)
  have ns: "sum_list ns = length d" using cv(3) d(1) by (simp add: ns_def)
  have db: "map length db = ns" "concat db = d" "\<And>b. b \<in> set db \<Longrightarrow> list_all byte b"
    using split_blocks_lengths [of ns d] split_blocks_concat [OF ns] split_blocks_byte [OF d(2)] ns
    by (simp_all add: db_def)
  have ec: "ec \<le> 255" using cv(4) by (simp add: ec_def)
  then have el: "length (rsEncode b ec) = ec" if "b \<in> set db" for b
    using rs_remainder(1) [of ec b] db(3) [OF that] by simp
  have b: "buildCodewords s v = concat (map (\<lambda>i. row i db) [0..<foldl max 0 ns]) @ concat (map (\<lambda>i. row i eb) [0..<ec]) @ []"
    using ecc_rows [of eb ec] el
    by (auto simp: buildCodewords_def Let_def interleave_def eb_def db_def d_def ns_def ec_def vi_def
        db(1) [unfolded db_def d_def ns_def vi_def])
  have "unrows [0..<foldl max 0 ns] ns (buildCodewords s v) = (db, concat (map (\<lambda>i. row i eb) [0..<ec]) @ [])"
    unfolding b using unrows_rows [of 0 "foldl max 0 ns" db] foldl_max_ge [of _ ns 0] db(1) by force
  moreover have "unrows [0..<ec] (map (\<lambda>_. ec) ns) (concat (map (\<lambda>i. row i eb) [0..<ec]) @ []) = (eb, [])"
  proof -
    have l: "map length eb = map (\<lambda>_. ec) ns" using el by (simp add: eb_def flip: db(1))
    have "length b \<le> ec" if "b \<in> set eb" for b using el that by (auto simp: eb_def)
    then have "unrows [0..<ec] (map length eb) (concat (map (\<lambda>i. row i eb) [0..<ec]) @ []) = (map (drop 0) eb, [])"
      by (rule unrows_rows [OF le0])
    then show ?thesis by (simp add: l)
  qed
  moreover have "list_all (syndromes_zero ec) (map2 (@) db eb)"
    using db(3) ec rs_syndrome by (auto simp: eb_def list_all_iff zip_map2 zip_same_conv_map syndromes_zero_def)
  moreover have "parse_segment v (word_bits d) = Some s"
    using d(3) parse_segment_bits [OF cv(5)] by auto
  ultimately show ?thesis
    by (simp add: read_codewords_def Let_def db(2) flip: vi_def ns_def ec_def)
qed

theorem codewords_roundtrip_witness:
  "read_codewords 1 (buildCodewords ''WIFI:S:a;;'' 1) = Some ''WIFI:S:a;;''"
  by (rule codewords_roundtrip) (simp add: chooseVersion_def kVerM_def charCountBits_def upt_rec)

end
