(* ===== verification/Qr_Matrix.thy ===== *)
theory Qr_Matrix
  imports Qr_Codewords
begin

unbundle bit_operations_syntax

text \<open>
  The module matrix of \<open>web/QrEncoder.cpp\<close>: function patterns, zig-zag placement of the codewords,
  the eight masks with their penalty, format information, and the SVG text. Every access of a vector
  is checked against its bounds (\<open>None\<close> is an access outside, which C++ leaves undefined), so that
  the theorem on \<open>encode\<close> also says that no access is outside. The reference reader is written from
  the layout of the QR standard: it finds the mask in the format information, removes it and reads the
  data modules in their order.
\<close>

section \<open>The matrix\<close>

record matrix =
  dim :: int
  modules :: "int list list"
  fixd :: "bool list list"

definition matrix_new :: "int \<Rightarrow> matrix" where
  "matrix_new sz = \<lparr>dim = sz, modules = replicate (nat sz) (replicate (nat sz) (- 1)),
     fixd = replicate (nat sz) (replicate (nat sz) False)\<rparr>"

definition inside :: "int \<Rightarrow> int \<times> int \<Rightarrow> bool" where
  "inside N p \<longleftrightarrow> 0 \<le> fst p \<and> fst p < N \<and> 0 \<le> snd p \<and> snd p < N"

definition cell :: "'a list list \<Rightarrow> int \<times> int \<Rightarrow> 'a" where
  "cell g p = g ! nat (fst p) ! nat (snd p)"

definition put_cell :: "'a list list \<Rightarrow> int \<times> int \<Rightarrow> 'a \<Rightarrow> 'a list list" where
  "put_cell g p v = g[nat (fst p) := (g ! nat (fst p))[nat (snd p) := v]]"

definition set_module :: "int \<Rightarrow> int \<Rightarrow> int \<Rightarrow> bool \<Rightarrow> matrix \<Rightarrow> matrix option" where
  "set_module r c v fx mx =
     (if inside (dim mx) (r, c)
      then Some (mx\<lparr>modules := put_cell (modules mx) (r, c) v, fixd := put_cell (fixd mx) (r, c) fx\<rparr>) else None)"

definition module_at :: "matrix \<Rightarrow> int \<Rightarrow> int \<Rightarrow> int option" where
  "module_at mx r c = (if inside (dim mx) (r, c) then Some (cell (modules mx) (r, c)) else None)"

fun fold_option :: "('a \<Rightarrow> 's \<Rightarrow> 's option) \<Rightarrow> 'a list \<Rightarrow> 's \<Rightarrow> 's option" where
  "fold_option f [] s = Some s"
| "fold_option f (x # xs) s = Option.bind (f x s) (fold_option f xs)"

section \<open>Function patterns\<close>

definition finder_dark :: "int \<Rightarrow> int \<Rightarrow> bool" where
  "finder_dark dr dc \<longleftrightarrow>
     (if dr \<ge> 0 \<and> dr \<le> 6 \<and> dc \<ge> 0 \<and> dc \<le> 6
      then dr = 0 \<or> dr = 6 \<or> dc = 0 \<or> dc = 6 \<or> (dr \<ge> 2 \<and> dr \<le> 4 \<and> dc \<ge> 2 \<and> dc \<le> 4) else False)"

definition placeFinder :: "int \<Rightarrow> int \<Rightarrow> matrix \<Rightarrow> matrix option" where
  "placeFinder r c =
     fold_option (\<lambda>(dr, dc) mx.
         let rr = r + dr; cc = c + dc in
         if rr < 0 \<or> cc < 0 \<or> rr \<ge> dim mx \<or> cc \<ge> dim mx then Some mx
         else set_module rr cc (if finder_dark dr dc then 1 else 0) True mx)
       (List.product [-1..7] [-1..7])"

definition kAlignPos :: "int list list" where
  "kAlignPos = [[], [], [6, 18], [6, 22], [6, 26], [6, 30], [6, 34], [6, 22, 38], [6, 24, 42], [6, 26, 46], [6, 28, 50]]"

definition placeAlignment :: "nat \<Rightarrow> matrix \<Rightarrow> matrix option" where
  "placeAlignment version =
     fold_option (\<lambda>(r, c) mx.
         if (r \<le> 8 \<and> c \<le> 8) \<or> (r \<le> 8 \<and> c \<ge> dim mx - 9) \<or> (r \<ge> dim mx - 9 \<and> c \<le> 8) then Some mx
         else fold_option (\<lambda>(dr, dc).
               set_module (r + dr) (c + dc) (if \<bar>dr\<bar> = 2 \<or> \<bar>dc\<bar> = 2 \<or> (dr = 0 \<and> dc = 0) then 1 else 0) True)
             (List.product [-2..2] [-2..2]) mx)
       (List.product (kAlignPos ! version) (kAlignPos ! version))"

definition set_unset :: "int \<Rightarrow> int \<Rightarrow> int \<Rightarrow> matrix \<Rightarrow> matrix option" where
  "set_unset r c v mx =
     Option.bind (module_at mx r c) (\<lambda>x. if x = - 1 then set_module r c v True mx else Some mx)"

definition placeTiming :: "matrix \<Rightarrow> matrix option" where
  "placeTiming mx =
     fold_option (\<lambda>i mx.
         let v = (if i mod 2 = 0 then 1 else 0) in
         Option.bind (set_unset 6 i v mx) (set_unset i 6 v))
       [8..dim mx - 9] mx"

definition reserveFormat :: "matrix \<Rightarrow> matrix option" where
  "reserveFormat mx =
     Option.bind (fold_option (\<lambda>i mx. Option.bind (set_unset 8 i 0 mx) (set_unset i 8 0)) [0..8] mx) (\<lambda>mx.
     Option.bind (fold_option (\<lambda>i mx. Option.bind (set_unset 8 (dim mx - 1 - i) 0 mx)
                                 (set_unset (dim mx - 1 - i) 8 0)) [0..7] mx) (\<lambda>mx.
     set_module (dim mx - 8) 8 1 True mx))"

section \<open>Data\<close>

text \<open>The columns and directions of the zig-zag loop; the assignment to \<open>col\<close> inside the loop skips the
  timing column.\<close>

function zig_columns :: "int \<Rightarrow> bool \<Rightarrow> (int \<times> bool) list" where
  "zig_columns col upward =
     (if col > 0
      then (let col' = (if col = 6 then 5 else col) in (col', upward) # zig_columns (col' - 2) (\<not> upward)) else [])"
  by auto
termination
  by (relation "measure (\<lambda>(col, _). nat col)") (auto split: if_splits)

declare zig_columns.simps [simp del]

definition zigzag :: "int \<Rightarrow> (int \<times> int) list" where
  "zigzag n =
     concat (map (\<lambda>(col, upward).
         concat (map (\<lambda>i. let row = (if upward then n - 1 - i else i) in map (\<lambda>c. (row, col - c)) [0..1]) [0..n - 1]))
       (zig_columns (n - 1) True))"

definition data_step :: "int list \<Rightarrow> int \<times> int \<Rightarrow> nat \<times> matrix \<Rightarrow> (nat \<times> matrix) option" where
  "data_step bits = (\<lambda>(row, cc) (bi, mx).
     Option.bind (module_at mx row cc) (\<lambda>x.
       if x = - 1
       then (if bi < length bits then map_option (Pair (bi + 1)) (set_module row cc (bits ! bi) False mx)
             else map_option (Pair bi) (set_module row cc 0 False mx))
       else Some (bi, mx)))"

definition placeData :: "int list \<Rightarrow> matrix \<Rightarrow> matrix option" where
  "placeData codewords mx =
     (let bits = concat (map (\<lambda>cw. map (\<lambda>i. drop_bit i cw AND 1) (rev [0..<8])) codewords) in
      map_option snd (fold_option (data_step bits) (zigzag (dim mx)) (0, mx)))"

section \<open>Masks and format information\<close>

definition maskBit :: "nat \<Rightarrow> int \<Rightarrow> int \<Rightarrow> bool" where
  "maskBit mk r c =
     (if mk = 0 then (r + c) mod 2 = 0
      else if mk = 1 then r mod 2 = 0
      else if mk = 2 then c mod 3 = 0
      else if mk = 3 then (r + c) mod 3 = 0
      else if mk = 4 then (r div 2 + c div 3) mod 2 = 0
      else if mk = 5 then (r * c) mod 2 + (r * c) mod 3 = 0
      else if mk = 6 then ((r * c) mod 2 + (r * c) mod 3) mod 2 = 0
      else if mk = 7 then ((r + c) mod 2 + (r * c) mod 3) mod 2 = 0
      else False)"

definition kFormatM :: "int list" where
  "kFormatM = [0x5412, 0x5125, 0x5E7C, 0x5B4B, 0x45F9, 0x40CE, 0x4F97, 0x4AA0]"

definition copy1 :: "(int \<times> int) list" where
  "copy1 = [(8, 0), (8, 1), (8, 2), (8, 3), (8, 4), (8, 5), (8, 7), (8, 8),
     (7, 8), (5, 8), (4, 8), (3, 8), (2, 8), (1, 8), (0, 8)]"

definition copy2 :: "int \<Rightarrow> (int \<times> int) list" where
  "copy2 n = map (\<lambda>i. (n - 1 - i, 8)) [0..6] @ map (\<lambda>i. (8, n - 15 + i)) [7..14]"

definition format_bit :: "nat \<Rightarrow> nat \<Rightarrow> int" where
  "format_bit mk i = drop_bit (14 - i) (kFormatM ! mk) AND 1"

definition write_module :: "int \<Rightarrow> (int \<times> int) \<times> int \<Rightarrow> int list list \<Rightarrow> int list list option" where
  "write_module n = (\<lambda>(p, v) g. if inside n p then Some (put_cell g p v) else None)"

definition applyFormat :: "int \<Rightarrow> nat \<Rightarrow> int list list \<Rightarrow> int list list option" where
  "applyFormat n mk g =
     Option.bind (fold_option (\<lambda>i g.
         let bit = format_bit mk i in
         Option.bind (write_module n (copy1 ! i, bit) g) (write_module n (copy2 n ! i, bit))) [0..<15] g)
       (write_module n ((n - 8, 8), 1))"

definition run_step :: "int list list \<Rightarrow> int \<Rightarrow> bool \<Rightarrow> int \<times> int \<Rightarrow> int \<Rightarrow> int \<times> int" where
  "run_step g r dir = (\<lambda>(run, pen) c.
     let a = (if dir then cell g (c, r) else cell g (r, c));
         b = (if dir then cell g (c - 1, r) else cell g (r, c - 1))
     in if a = b then (if run + 1 = 5 then (run + 1, pen + 3) else if run + 1 > 5 then (run + 1, pen + 1)
                       else (run + 1, pen))
        else (1, pen))"

definition penalty :: "int list list \<Rightarrow> int" where
  "penalty g =
     (let n = int (length g) in
      foldl (\<lambda>pen (r, dir). snd (foldl (run_step g r dir) (1, pen) [1..n - 1])) 0 (List.product [0..n - 1] [False, True]))"

definition masked :: "matrix \<Rightarrow> nat \<Rightarrow> int list list" where
  "masked base mk =
     map (\<lambda>r. map (\<lambda>c.
         if cell (fixd base) (r, c) then cell (modules base) (r, c)
         else cell (modules base) (r, c) XOR (if maskBit mk r c then 1 else 0)) [0..dim base - 1])
       [0..dim base - 1]"

definition try_mask :: "matrix \<Rightarrow> nat \<Rightarrow> int \<times> int list list \<Rightarrow> (int \<times> int list list) option" where
  "try_mask base mk = (\<lambda>(best_pen, best).
     Option.bind (applyFormat (dim base) mk (masked base mk)) (\<lambda>g.
       let p = penalty g in Some (if p < best_pen then (p, g) else (best_pen, best))))"

definition place_patterns :: "nat \<Rightarrow> int \<Rightarrow> matrix \<Rightarrow> matrix option" where
  "place_patterns version n mx =
     Option.bind (placeFinder 0 0 mx) (\<lambda>mx.
     Option.bind (placeFinder 0 (n - 7) mx) (\<lambda>mx.
     Option.bind (placeFinder (n - 7) 0 mx) (\<lambda>mx.
     Option.bind (placeAlignment version mx) (\<lambda>mx.
     Option.bind (placeTiming mx) reserveFormat))))"

definition build_base :: "nat \<Rightarrow> int list \<Rightarrow> matrix option" where
  "build_base version codewords =
     (let n = int (moduleCount version) in
      Option.bind (place_patterns version n (matrix_new n)) (placeData codewords))"

definition encode_matrix :: "nat \<Rightarrow> int list \<Rightarrow> bool list list option" where
  "encode_matrix version codewords =
     Option.bind (build_base version codewords) (\<lambda>base.
     map_option (\<lambda>(_, best).
         map (\<lambda>r. map (\<lambda>c. cell best (r, c) = 1) [0..dim base - 1]) [0..dim base - 1])
       (fold_option (try_mask base) [0..<8] (2 ^ 30, [])))"

definition encode :: "string \<Rightarrow> bool list list option" where
  "encode s = Option.bind (chooseVersion (length s)) (\<lambda>version. encode_matrix version (buildCodewords s version))"

section \<open>SVG\<close>

definition quoted :: "string \<Rightarrow> string" where
  "quoted s = [CHR 0x27] @ s @ [CHR 0x27]"

definition svg_square :: "int \<Rightarrow> int \<Rightarrow> int \<Rightarrow> string" where
  "svg_square px x y =
     ''M'' @ show_int x @ '' '' @ show_int y @ ''h'' @ show_int px @ ''v'' @ show_int px @ ''h-'' @ show_int px @ ''z''"

definition toSvg :: "bool list list \<Rightarrow> int \<Rightarrow> string" where
  "toSvg matrix px =
     (let n = int (length matrix); quiet = 4; d = (n + 2 * quiet) * px in
      ''<svg xmlns='' @ quoted ''http://www.w3.org/2000/svg'' @ '' width='' @ quoted (show_int d)
      @ '' height='' @ quoted (show_int d) @ '' shape-rendering='' @ quoted ''crispEdges'' @ ''>''
      @ ''<rect width='' @ quoted ''100%'' @ '' height='' @ quoted ''100%'' @ '' fill='' @ quoted ''#fff'' @ ''/>''
      @ ''<path fill='' @ quoted ''#000'' @ '' d='' @ [CHR 0x27]
      @ concat (map (\<lambda>(r, c). if cell matrix (r, c) then svg_square px ((c + quiet) * px) ((r + quiet) * px) else [])
                 (List.product [0..n - 1] [0..n - 1]))
      @ [CHR 0x27] @ ''/></svg>'')"

section \<open>The reference reader\<close>

text \<open>The function modules of the standard for versions without version information: three finders with
  their separators, the timing row and column, the format areas with the dark module, and the alignment
  patterns.\<close>

definition align_centre :: "nat \<Rightarrow> int \<Rightarrow> int \<Rightarrow> bool" where
  "align_centre v r c \<longleftrightarrow>
     (let n = int (moduleCount v); pos = kAlignPos ! v in
      r \<in> set pos \<and> c \<in> set pos \<and> (r, c) \<noteq> (6, 6) \<and> (r, c) \<noteq> (6, n - 7) \<and> (r, c) \<noteq> (n - 7, 6))"

definition function_module :: "nat \<Rightarrow> int \<times> int \<Rightarrow> bool" where
  "function_module v = (\<lambda>(r, c). let n = int (moduleCount v) in
     (r \<le> 8 \<and> c \<le> 8) \<or> (r \<le> 8 \<and> c \<ge> n - 8) \<or> (r \<ge> n - 8 \<and> c \<le> 8) \<or> r = 6 \<or> c = 6
     \<or> list_ex (\<lambda>a. list_ex (\<lambda>b. align_centre v a b \<and> \<bar>r - a\<bar> \<le> 2 \<and> \<bar>c - b\<bar> \<le> 2) (kAlignPos ! v)) (kAlignPos ! v))"

text \<open>From version 7 on the standard also reserves two blocks of six by three modules for the version.\<close>

definition version_info :: "nat \<Rightarrow> int \<times> int \<Rightarrow> bool" where
  "version_info v = (\<lambda>(r, c). let n = int (moduleCount v) in
     7 \<le> v \<and> ((r \<le> 5 \<and> n - 11 \<le> c \<and> c \<le> n - 9) \<or> (c \<le> 5 \<and> n - 11 \<le> r \<and> r \<le> n - 9)))"

definition dark :: "bool list list \<Rightarrow> int \<times> int \<Rightarrow> int" where
  "dark g p = (if cell g p then 1 else 0)"

definition read_mask :: "bool list list \<Rightarrow> nat option" where
  "read_mask g = find (\<lambda>mk. list_all (\<lambda>i. dark g (copy1 ! i) = format_bit mk i) [0..<15]) [0..<8]"

definition total_codewords :: "nat \<Rightarrow> nat" where
  "total_codewords v = (let vi = kVerM ! v in data_codewords vi + ec_per_block vi * num_blocks vi)"

definition read_symbol :: "bool list list \<Rightarrow> string option" where
  "read_symbol g =
     (let n = int (length g); v = (length g - 17) div 4 in
      Option.bind (read_mask g) (\<lambda>mk.
        let data = filter (\<lambda>p. \<not> (function_module v p \<or> version_info v p)) (zigzag n);
            bits = map (\<lambda>(r, c). dark g (r, c) XOR (if maskBit mk r c then 1 else 0)) data
        in read_codewords v (to_bytes (take (8 * total_codewords v) bits))))"

section \<open>Matrices as functions\<close>

definition square :: "int \<Rightarrow> 'a list list \<Rightarrow> bool" where
  "square N g \<longleftrightarrow> length g = nat N \<and> (\<forall>row\<in>set g. length row = nat N)"

definition rep :: "int \<Rightarrow> matrix \<Rightarrow> (int \<times> int \<Rightarrow> int) \<Rightarrow> (int \<times> int \<Rightarrow> bool) \<Rightarrow> bool" where
  "rep N mx M X \<longleftrightarrow> dim mx = N \<and> square N (modules mx) \<and> square N (fixd mx) \<and>
     (\<forall>p. inside N p \<longrightarrow> cell (modules mx) p = M p \<and> cell (fixd mx) p = X p)"

lemma square_put_cell [simp]: "square N g \<Longrightarrow> inside N p \<Longrightarrow> square N (put_cell g p v)"
  by (auto simp: square_def put_cell_def inside_def dest!: set_update_subset_insert [THEN subsetD])

lemma cell_put_cell:
  "square N g \<Longrightarrow> inside N p \<Longrightarrow> inside N q \<Longrightarrow> cell (put_cell g p v) q = (if p = q then v else cell g q)"
  by (cases p, cases q) (auto simp: square_def inside_def cell_def put_cell_def nth_list_update eq_nat_nat_iff nat_less_iff)

lemma rep_set_module:
  assumes "rep N mx M X" "inside N (r, c)"
  shows "\<exists>mx'. set_module r c v fx mx = Some mx' \<and> rep N mx' (M((r, c) := v)) (X((r, c) := fx))"
  using assms by (auto simp: rep_def set_module_def cell_put_cell)

lemma rep_module_at: "rep N mx M X \<Longrightarrow> inside N (r, c) \<Longrightarrow> module_at mx r c = Some (M (r, c))"
  by (simp add: rep_def module_at_def)

lemma rep_new: "rep N (matrix_new N) (\<lambda>_. - 1) (\<lambda>_. False)"
  by (auto simp: rep_def matrix_new_def square_def cell_def inside_def)

section \<open>The function patterns occupy the function modules\<close>

definition patterned :: "int \<Rightarrow> (int \<times> int) set \<Rightarrow> matrix \<Rightarrow> bool" where
  "patterned N F mx \<longleftrightarrow> (\<exists>M X. rep N mx M X \<and> (\<forall>p. inside N p \<longrightarrow> (M p = - 1 \<longleftrightarrow> p \<notin> F) \<and> (X p \<longleftrightarrow> p \<in> F)))"

definition covers :: "int \<Rightarrow> (int \<times> int) set \<Rightarrow> (matrix \<Rightarrow> matrix option) \<Rightarrow> bool" where
  "covers N W f \<longleftrightarrow> (\<forall>F mx. patterned N F mx \<longrightarrow> (\<exists>mx'. f mx = Some mx' \<and> patterned N (F \<union> W) mx'))"

lemma coversI:
  "(\<And>F mx. patterned N F mx \<Longrightarrow> \<exists>mx'. f mx = Some mx' \<and> patterned N (F \<union> W) mx') \<Longrightarrow> covers N W f"
  by (simp add: covers_def)

lemma coversE:
  assumes "covers N W f" "patterned N F mx"
  obtains mx' where "f mx = Some mx'" "patterned N (F \<union> W) mx'"
  using assms unfolding covers_def by blast

lemma patterned_dim: "patterned N F mx \<Longrightarrow> dim mx = N"
  by (auto simp: patterned_def rep_def)

lemma covers_skip: "covers N {} Some"
  by (simp add: covers_def)

lemma covers_set: "inside N (r, c) \<Longrightarrow> v \<noteq> - 1 \<Longrightarrow> covers N {(r, c)} (set_module r c v True)"
proof (rule coversI)
  fix F mx assume i: "inside N (r, c)" "v \<noteq> - 1" and p: "patterned N F mx"
  from p obtain M X where r: "rep N mx M X" and mx: "\<forall>p. inside N p \<longrightarrow> (M p = - 1 \<longleftrightarrow> p \<notin> F) \<and> (X p \<longleftrightarrow> p \<in> F)"
    by (auto simp: patterned_def)
  from rep_set_module [OF r i(1)] obtain mx' where
    "set_module r c v True mx = Some mx'" "rep N mx' (M((r, c) := v)) (X((r, c) := True))" by blast
  then show "\<exists>mx'. set_module r c v True mx = Some mx' \<and> patterned N (F \<union> {(r, c)}) mx'"
    unfolding patterned_def using i(2) mx by (intro exI conjI) (auto split: if_splits)
qed

lemma covers_set_unset: "inside N (r, c) \<Longrightarrow> v \<noteq> - 1 \<Longrightarrow> covers N {(r, c)} (set_unset r c v)"
proof (rule coversI)
  fix F mx assume i: "inside N (r, c)" "v \<noteq> - 1" and p: "patterned N F mx"
  from p obtain M X where r: "rep N mx M X" and mx: "\<forall>p. inside N p \<longrightarrow> (M p = - 1 \<longleftrightarrow> p \<notin> F) \<and> (X p \<longleftrightarrow> p \<in> F)"
    by (auto simp: patterned_def)
  have "F \<union> {(r, c)} = F" if "M (r, c) \<noteq> - 1" using that mx i(1) by auto
  then show "\<exists>mx'. set_unset r c v mx = Some mx' \<and> patterned N (F \<union> {(r, c)}) mx'"
    using coversE [OF covers_set [OF i] p] p rep_module_at [OF r i(1)] by (cases "M (r, c) = - 1") (auto simp: set_unset_def)
qed

lemma covers_bind: "covers N A f \<Longrightarrow> covers N B g \<Longrightarrow> covers N (A \<union> B) (\<lambda>mx. Option.bind (f mx) g)"
proof (rule coversI)
  fix F mx assume f: "covers N A f" and g: "covers N B g" and p: "patterned N F mx"
  obtain mx1 where 1: "f mx = Some mx1" "patterned N (F \<union> A) mx1" using coversE [OF f p] .
  obtain mx2 where "g mx1 = Some mx2" "patterned N (F \<union> A \<union> B) mx2" using coversE [OF g 1(2)] .
  with 1(1) show "\<exists>mx'. Option.bind (f mx) g = Some mx' \<and> patterned N (F \<union> (A \<union> B)) mx'" by (simp add: Un_assoc)
qed

lemma covers_fold:
  "(\<And>x. x \<in> set xs \<Longrightarrow> covers N (W x) (f x)) \<Longrightarrow> covers N (\<Union>x\<in>set xs. W x) (fold_option f xs)"
proof (induction xs)
  case (Cons x xs)
  have "covers N (W x \<union> (\<Union>x\<in>set xs. W x)) (\<lambda>mx. Option.bind (f x mx) (fold_option f xs))"
    by (rule covers_bind) (use Cons in simp_all)
  then show ?case by (simp add: covers_def)
qed (simp add: covers_def)

text \<open>An operation may read the size from the matrix.\<close>

lemma covers_dim: "(\<And>mx. dim mx = N \<Longrightarrow> f mx = g mx) \<Longrightarrow> covers N W g \<Longrightarrow> covers N W f"
  unfolding covers_def using patterned_dim by metis

definition box :: "int \<Rightarrow> int \<Rightarrow> int \<Rightarrow> int \<Rightarrow> (int \<times> int) set" where
  "box r1 r2 c1 c2 = {r1..r2} \<times> {c1..c2}"

lemma placeFinder_covers: "covers N {p. inside N p \<and> p \<in> box (r - 1) (r + 7) (c - 1) (c + 7)} (placeFinder r c)"
proof -
  let ?W = "\<lambda>(dr, dc). ({(r + dr, c + dc)} \<inter> Collect (inside N))"
  have "covers N (\<Union>x\<in>set (List.product [-1..7] [-1..7]). ?W x) (placeFinder r c)"
    unfolding placeFinder_def
  proof (rule covers_fold, clarify)
    fix dr dc :: int
    let ?g = "\<lambda>mx. if inside N (r + dr, c + dc)
      then set_module (r + dr) (c + dc) (if finder_dark dr dc then 1 else 0) True mx else Some mx"
    have "covers N ({(r + dr, c + dc)} \<inter> Collect (inside N)) ?g"
    proof (cases "inside N (r + dr, c + dc)")
      case True
      then show ?thesis using covers_set [OF True, of "if finder_dark dr dc then 1 else 0"] True by simp
    next
      case False
      then show ?thesis using covers_skip by simp
    qed
    then show "covers N ({(r + dr, c + dc)} \<inter> Collect (inside N)) (\<lambda>mx.
        let rr = r + dr; cc = c + dc in
        if rr < 0 \<or> cc < 0 \<or> rr \<ge> dim mx \<or> cc \<ge> dim mx then Some mx
        else set_module rr cc (if finder_dark dr dc then 1 else 0) True mx)"
      by (rule covers_dim [rotated]) (auto simp: inside_def Let_def)
  qed
  moreover have "(\<Union>x\<in>set (List.product [-1..7] [-1..7]). ?W x) = {p. inside N p \<and> p \<in> box (r - 1) (r + 7) (c - 1) (c + 7)}"
    (is "?L = ?R")
  proof
    show "?R \<subseteq> ?L"
    proof
      fix p assume p: "p \<in> ?R"
      then have "(fst p - r, snd p - c) \<in> set (List.product [-1..7] [-1..7])" by (auto simp: box_def)
      moreover have "p \<in> ?W (fst p - r, snd p - c)" using p by simp
      ultimately show "p \<in> ?L" by blast
    qed
  qed (auto simp: box_def)
  ultimately show ?thesis by simp
qed

text \<open>The positions of the table: the finder corners are the only centres near a finder.\<close>

lemma align_table:
  assumes "1 \<le> v" "v \<le> 10" "a \<in> set (kAlignPos ! v)"
  shows "6 \<le> a" "a \<le> int (moduleCount v) - 7" "a \<le> 8 \<longleftrightarrow> a = 6" "int (moduleCount v) - 9 \<le> a \<longleftrightarrow> a = int (moduleCount v) - 7"
proof -
  have "list_all (\<lambda>v. list_all (\<lambda>a. 6 \<le> a \<and> a \<le> int (moduleCount v) - 7 \<and> (a \<le> 8 \<longleftrightarrow> a = 6)
      \<and> (int (moduleCount v) - 9 \<le> a \<longleftrightarrow> a = int (moduleCount v) - 7)) (kAlignPos ! v)) [1, 2, 3, 4, 5, 6, 7, 8, 9, 10]"
    by (simp add: kAlignPos_def moduleCount_def)
  moreover have "v \<in> set [1, 2, 3, 4, 5, 6, 7, 8, 9, 10]" using assms(1,2) versions [of v] by auto
  ultimately show "6 \<le> a" "a \<le> int (moduleCount v) - 7" "a \<le> 8 \<longleftrightarrow> a = 6"
    "int (moduleCount v) - 9 \<le> a \<longleftrightarrow> a = int (moduleCount v) - 7"
    using assms(3) unfolding list_all_iff by blast+
qed

lemma placeAlignment_covers:
  assumes "1 \<le> v" "v \<le> 10"
  shows "covers (int (moduleCount v)) (\<Union>(a, b)\<in>{(a, b). align_centre v a b}. box (a - 2) (a + 2) (b - 2) (b + 2)) (placeAlignment v)"
proof -
  let ?n = "int (moduleCount v)" and ?pos = "kAlignPos ! v"
  let ?W = "\<lambda>(a, b). if align_centre v a b then box (a - 2) (a + 2) (b - 2) (b + 2) else {}"
  have "covers ?n (\<Union>x\<in>set (List.product ?pos ?pos). ?W x) (placeAlignment v)"
    unfolding placeAlignment_def
  proof (rule covers_fold, clarify)
    fix r c assume "(r, c) \<in> set (List.product ?pos ?pos)"
    then have rc: "r \<in> set ?pos" "c \<in> set ?pos" by auto
    note b = align_table [OF assms rc(1)] align_table [OF assms rc(2)]
    let ?f = "fold_option (\<lambda>(dr, dc).
               set_module (r + dr) (c + dc) (if \<bar>dr\<bar> = 2 \<or> \<bar>dc\<bar> = 2 \<or> (dr = 0 \<and> dc = 0) then 1 else 0) True)
             (List.product [-2..2] [-2..2])"
    have "covers ?n (\<Union>x\<in>set (List.product [-2..2] [-2..2]). (\<lambda>(dr, dc). {(r + dr, c + dc)}) x) ?f"
      by (rule covers_fold, clarify, rule covers_set) (use b(1,2,5,6) in \<open>auto simp: inside_def\<close>)
    moreover have "(\<Union>x\<in>set (List.product [-2..2] [-2..2]). (\<lambda>(dr, dc). {(r + dr, c + dc)}) x) = box (r - 2) (r + 2) (c - 2) (c + 2)"
      (is "?L = ?R")
    proof
      show "?R \<subseteq> ?L"
      proof
        fix p assume "p \<in> ?R"
        then have "(fst p - r, snd p - c) \<in> set (List.product [-2..2] [-2..2])" by (auto simp: box_def)
        moreover have "p \<in> (\<lambda>(dr, dc). {(r + dr, c + dc)}) (fst p - r, snd p - c)" by simp
        ultimately show "p \<in> ?L" by blast
      qed
    qed (auto simp: box_def)
    ultimately have f: "covers ?n (box (r - 2) (r + 2) (c - 2) (c + 2)) ?f" by simp
    have skip: "(r \<le> 8 \<and> c \<le> 8) \<or> (r \<le> 8 \<and> c \<ge> ?n - 9) \<or> (r \<ge> ?n - 9 \<and> c \<le> 8) \<longleftrightarrow> \<not> align_centre v r c"
      using b rc by (auto simp: align_centre_def Let_def)
    have "covers ?n (?W (r, c)) (\<lambda>mx. if align_centre v r c then ?f mx else Some mx)"
      using f covers_skip by (cases "align_centre v r c") (simp_all add: covers_def)
    then have "covers ?n (?W (r, c)) (\<lambda>mx. if (r \<le> 8 \<and> c \<le> 8) \<or> (r \<le> 8 \<and> c \<ge> dim mx - 9) \<or> (r \<ge> dim mx - 9 \<and> c \<le> 8) then Some mx else ?f mx)"
      by (rule covers_dim [rotated]) (simp only: skip if_not_P split: if_split, simp)
    then show "covers ?n (if align_centre v r c then box (r - 2) (r + 2) (c - 2) (c + 2) else {})
      (\<lambda>mx. if (r \<le> 8 \<and> c \<le> 8) \<or> (r \<le> 8 \<and> c \<ge> dim mx - 9) \<or> (r \<ge> dim mx - 9 \<and> c \<le> 8) then Some mx else ?f mx)" by simp
  qed
  moreover have "(\<Union>x\<in>set (List.product ?pos ?pos). ?W x) = (\<Union>(a, b)\<in>{(a, b). align_centre v a b}. box (a - 2) (a + 2) (b - 2) (b + 2))"
    by (fastforce simp: align_centre_def Let_def split: if_splits)
  ultimately show ?thesis by simp
qed

lemma placeTiming_covers:
  assumes "17 \<le> N"
  shows "covers N (box 6 6 8 (N - 9) \<union> box 8 (N - 9) 6 6) placeTiming"
proof (rule covers_dim)
  let ?f = "\<lambda>i mx. let v = (if i mod 2 = 0 then 1 else 0) in Option.bind (set_unset 6 i v mx) (set_unset i 6 v)"
  have "covers N (\<Union>i\<in>set [8..N - 9]. {(6, i)} \<union> {(i, 6)}) (fold_option ?f [8..N - 9])"
    unfolding Let_def
    by (rule covers_fold, rule covers_bind; rule covers_set_unset) (use assms in \<open>auto simp: inside_def\<close>)
  moreover have "(\<Union>i\<in>set [8..N - 9]. {(6, i)} \<union> {(i, 6)}) = box 6 6 8 (N - 9) \<union> box 8 (N - 9) 6 6"
    by (auto simp: box_def)
  ultimately show "covers N (box 6 6 8 (N - 9) \<union> box 8 (N - 9) 6 6) (fold_option ?f [8..N - 9])" by simp
qed (simp add: placeTiming_def)

lemma reserveFormat_covers:
  assumes "17 \<le> N"
  shows "covers N (box 8 8 0 8 \<union> box 0 8 8 8 \<union> box 8 8 (N - 8) (N - 1) \<union> box (N - 8) (N - 1) 8 8) reserveFormat"
proof -
  let ?a = "fold_option (\<lambda>i mx. Option.bind (set_unset 8 i 0 mx) (set_unset i 8 0)) [0..8]"
  let ?b = "fold_option (\<lambda>i mx. Option.bind (set_unset 8 (dim mx - 1 - i) 0 mx) (set_unset (dim mx - 1 - i) 8 0)) [0..7]"
  have a: "covers N (\<Union>i\<in>set [0..8]. {(8, i)} \<union> {(i, 8)}) ?a"
    by (rule covers_fold, rule covers_bind; rule covers_set_unset) (use assms in \<open>auto simp: inside_def\<close>)
  have b: "covers N (\<Union>i\<in>set [0..7]. {(8, N - 1 - i)} \<union> {(N - 1 - i, 8)}) ?b"
  proof (rule covers_fold)
    fix i :: int assume "i \<in> set [0..7]"
    then have "covers N ({(8, N - 1 - i)} \<union> {(N - 1 - i, 8)})
        (\<lambda>mx. Option.bind (set_unset 8 (N - 1 - i) 0 mx) (set_unset (N - 1 - i) 8 0))"
      using assms by (intro covers_bind covers_set_unset) (auto simp: inside_def)
    then show "covers N ({(8, N - 1 - i)} \<union> {(N - 1 - i, 8)})
        (\<lambda>mx. Option.bind (set_unset 8 (dim mx - 1 - i) 0 mx) (set_unset (dim mx - 1 - i) 8 0))"
      by (rule covers_dim [rotated]) simp
  qed
  have c: "covers N {(N - 8, 8)} (\<lambda>mx. set_module (dim mx - 8) 8 1 True mx)"
    by (rule covers_dim [where g = "set_module (N - 8) 8 1 True"]) (use assms in \<open>auto simp: inside_def intro: covers_set\<close>)
  have "covers N ((\<Union>i\<in>set [0..8]. {(8, i)} \<union> {(i, 8)}) \<union> ((\<Union>i\<in>set [0..7]. {(8, N - 1 - i)} \<union> {(N - 1 - i, 8)}) \<union> {(N - 8, 8)})) reserveFormat"
    unfolding reserveFormat_def by (rule covers_bind [OF a covers_bind [OF b c]])
  moreover have "(\<Union>i\<in>set [0..8]. {(8, i)} \<union> {(i, 8)}) = box 8 8 0 8 \<union> box 0 8 8 8" by (auto simp: box_def)
  moreover have "(\<Union>i\<in>set [0..7]. {(8, N - 1 - i)} \<union> {(N - 1 - i, 8)}) = box 8 8 (N - 8) (N - 1) \<union> box (N - 8) (N - 1) 8 8" (is "?L = ?R")
  proof
    show "?R \<subseteq> ?L"
    proof
      fix p assume "p \<in> ?R"
      then have "p \<in> {(8, N - 1 - (N - 1 - snd p))} \<union> {(N - 1 - (N - 1 - snd p), 8)} \<and> N - 1 - snd p \<in> set [0..7] \<or>
          p \<in> {(8, N - 1 - (N - 1 - fst p))} \<union> {(N - 1 - (N - 1 - fst p), 8)} \<and> N - 1 - fst p \<in> set [0..7]"
        by (cases p) (auto simp: box_def)
      then show "p \<in> ?L" by blast
    qed
  qed (auto simp: box_def)
  moreover have "(N - 8, 8) \<in> box (N - 8) (N - 1) 8 8" by (simp add: box_def)
  ultimately show ?thesis by (simp add: insert_absorb Un_assoc)
qed

lemma patterned_cong: "patterned N F mx \<Longrightarrow> (\<And>p. inside N p \<Longrightarrow> p \<in> F \<longleftrightarrow> p \<in> G) \<Longrightarrow> patterned N G mx"
  unfolding patterned_def by metis

lemma place_patterns_ok:
  assumes "1 \<le> v" "v \<le> 10"
  defines "N \<equiv> int (moduleCount v)"
  shows "\<exists>mx. place_patterns v N (matrix_new N) = Some mx \<and> patterned N (Collect (function_module v)) mx"
proof -
  have N: "21 \<le> N" using assms(1) by (simp add: N_def moduleCount_def)
  let ?fi = "\<lambda>r c. {p. inside N p \<and> p \<in> box (r - 1) (r + 7) (c - 1) (c + 7)}"
  let ?al = "\<Union>(a, b)\<in>{(a, b). align_centre v a b}. box (a - 2) (a + 2) (b - 2) (b + 2)"
  let ?ti = "box 6 6 8 (N - 9) \<union> box 8 (N - 9) 6 6"
  let ?fo = "box 8 8 0 8 \<union> box 0 8 8 8 \<union> box 8 8 (N - 8) (N - 1) \<union> box (N - 8) (N - 1) 8 8"
  let ?W = "?fi 0 0 \<union> (?fi 0 (N - 7) \<union> (?fi (N - 7) 0 \<union> (?al \<union> (?ti \<union> ?fo))))"
  have c: "covers N ?W (place_patterns v N)"
    unfolding place_patterns_def
    by (intro covers_bind placeFinder_covers placeTiming_covers reserveFormat_covers
        placeAlignment_covers [OF assms(1,2), folded N_def]) (use N in simp_all)
  have "patterned N {} (matrix_new N)" unfolding patterned_def using rep_new by fastforce
  from coversE [OF c this] obtain mx where mx: "place_patterns v N (matrix_new N) = Some mx" "patterned N ?W mx"
    by auto
  have al: "p \<in> ?al \<longleftrightarrow> list_ex (\<lambda>a. list_ex (\<lambda>b. align_centre v a b \<and> \<bar>fst p - a\<bar> \<le> 2 \<and> \<bar>snd p - b\<bar> \<le> 2) (kAlignPos ! v)) (kAlignPos ! v)" for p
  proof -
    have "p \<in> ?al \<longleftrightarrow> (\<exists>a b. align_centre v a b \<and> \<bar>fst p - a\<bar> \<le> 2 \<and> \<bar>snd p - b\<bar> \<le> 2)"
    proof -
      have "p \<in> box (a - 2) (a + 2) (b - 2) (b + 2) \<longleftrightarrow> \<bar>fst p - a\<bar> \<le> 2 \<and> \<bar>snd p - b\<bar> \<le> 2" for a b
        by (cases p) (auto simp: box_def)
      then show ?thesis by auto
    qed
    moreover have "a \<in> set (kAlignPos ! v) \<and> b \<in> set (kAlignPos ! v)" if "align_centre v a b" for a b
      using that by (simp add: align_centre_def Let_def)
    ultimately show ?thesis unfolding list_ex_iff by blast
  qed
  have "p \<in> ?W \<longleftrightarrow> p \<in> Collect (function_module v)" if i: "inside N p" for p
  proof -
    obtain r c where p: "p = (r, c)" by (cases p)
    let ?Q = "?fi 0 0 \<union> (?fi 0 (N - 7) \<union> (?fi (N - 7) 0 \<union> (?ti \<union> ?fo)))"
    let ?A = "(r \<le> 8 \<and> c \<le> 8) \<or> (r \<le> 8 \<and> c \<ge> N - 8) \<or> (r \<ge> N - 8 \<and> c \<le> 8) \<or> r = 6 \<or> c = 6"
    have i': "0 \<le> r" "r < N" "0 \<le> c" "c < N" using i by (simp_all add: p inside_def)
    have "p \<in> ?fi 0 0 \<longleftrightarrow> r \<le> 7 \<and> c \<le> 7" "p \<in> ?fi 0 (N - 7) \<longleftrightarrow> r \<le> 7 \<and> N - 8 \<le> c"
      "p \<in> ?fi (N - 7) 0 \<longleftrightarrow> N - 8 \<le> r \<and> c \<le> 7"
      "p \<in> ?ti \<longleftrightarrow> (r = 6 \<and> 8 \<le> c \<and> c < N - 8) \<or> (c = 6 \<and> 8 \<le> r \<and> r < N - 8)"
      "p \<in> ?fo \<longleftrightarrow> (r = 8 \<and> (c \<le> 8 \<or> N - 8 \<le> c)) \<or> (c = 8 \<and> (r \<le> 8 \<or> N - 8 \<le> r))"
      using i' N by (auto simp: p inside_def box_def)
    then have q: "p \<in> ?Q \<longleftrightarrow> ?A" unfolding Un_iff using i' N by (smt (verit))
    have w: "?W = ?Q \<union> ?al" by (simp only: Un_ac)
    have f: "function_module v p \<longleftrightarrow> ?A \<or> p \<in> ?al"
      unfolding al [of p] by (simp only: p function_module_def prod.case Let_def N_def fst_conv snd_conv disj_assoc)
    show ?thesis unfolding w Un_iff [of p ?Q] q mem_Collect_eq f ..
  qed
  with mx show ?thesis using patterned_cong by blast
qed

section \<open>The zig-zag\<close>

definition strip :: "int \<Rightarrow> int \<times> bool \<Rightarrow> (int \<times> int) list" where
  "strip n = (\<lambda>(col, upward).
     concat (map (\<lambda>i. let row = (if upward then n - 1 - i else i) in map (\<lambda>c. (row, col - c)) [0..1]) [0..n - 1]))"

lemma strip_set: "set (strip n (col, up)) = {0..n - 1} \<times> {col - 1, col}"
proof -
  have b: "set [0..1] = {0, 1 :: int}" by auto
  have "set (strip n (col, up)) = (\<Union>i\<in>{0..n - 1}. {if up then n - 1 - i else i} \<times> {col - 1, col})"
    by (auto simp: strip_def Let_def b)
  moreover have "(\<Union>i\<in>A. {f i} \<times> C) = f ` A \<times> C" for A and f :: "int \<Rightarrow> int" and C :: "int set"
    by auto
  moreover have "(\<lambda>i. if up then n - 1 - i else i) ` {0..n - 1} = {0..n - 1}"
  proof (cases up)
    case True
    have "x \<in> (\<lambda>i. n - 1 - i) ` {0..n - 1}" if "0 \<le> x" "x \<le> n - 1" for x
      using that by (intro image_eqI [of _ _ "n - 1 - x"]) auto
    then show ?thesis using True by auto
  qed simp
  ultimately show ?thesis by metis
qed

lemma strip_distinct: "distinct (strip n (col, up))"
proof -
  have b: "[0..1] = [0, 1 :: int]" by (simp add: upto.simps)
  have "distinct (concat (map (\<lambda>i. [(f i, col), (f i, col - 1)]) xs))" if "distinct xs" "inj f" for f :: "int \<Rightarrow> int" and xs
    using that by (induction xs) (auto dest: injD)
  from this [of "[0..n - 1]" "\<lambda>i. if up then n - 1 - i else i"] show ?thesis
    by (simp add: strip_def Let_def b inj_def)
qed

lemma zig_inv:
  assumes "(even col \<and> 6 \<le> col) \<or> (odd col \<and> - 1 \<le> col \<and> col \<le> 5)"
  shows "distinct (concat (map (strip n) (zig_columns col up))) \<and>
     set (concat (map (strip n) (zig_columns col up))) = {0..n - 1} \<times> ({0..col} - {6})"
  using assms
proof (induction col up rule: zig_columns.induct)
  case (1 col up)
  define col' where "col' = (if col = 6 then 5 else col)"
  show ?case
  proof (cases "col > 0")
    case True
    have z: "zig_columns col up = (col', up) # zig_columns (col' - 2) (\<not> up)"
      using True by (subst zig_columns.simps) (simp add: Let_def col'_def)
    have "(even (col' - 2) \<and> 6 \<le> col' - 2) \<or> (odd (col' - 2) \<and> - 1 \<le> col' - 2 \<and> col' - 2 \<le> 5)"
    proof (cases "even col")
      case True
      then obtain k where "col = 2 * k" by (rule evenE)
      then show ?thesis using 1(2) \<open>even col\<close> by (cases "col = 6") (simp_all add: col'_def)
    next
      case False
      then obtain k where "col = 2 * k + 1" by (rule oddE)
      then show ?thesis using 1(2) \<open>col > 0\<close> by (simp add: col'_def)
    qed
    from 1(1) [OF True col'_def this] have ih: "distinct (concat (map (strip n) (zig_columns (col' - 2) (\<not> up))))"
      "set (concat (map (strip n) (zig_columns (col' - 2) (\<not> up)))) = {0..n - 1} \<times> ({0..col' - 2} - {6})" by auto
    have c: "{col' - 1, col'} \<inter> ({0..col' - 2} - {6}) = {}" "{col' - 1, col'} \<union> ({0..col' - 2} - {6}) = {0..col} - {6}"
      using 1(2) True by (auto simp: col'_def split: if_splits)
    have "set (strip n (col', up)) \<inter> set (concat (map (strip n) (zig_columns (col' - 2) (\<not> up)))) = {}"
      unfolding ih(2) strip_set using c(1) by blast
    then have "distinct (concat (map (strip n) (zig_columns col up)))"
      unfolding z using ih(1) strip_distinct by (simp add: Int_commute)
    moreover have "set (concat (map (strip n) (zig_columns col up))) = {0..n - 1} \<times> ({0..col} - {6})"
      unfolding z list.map concat.simps set_append ih(2) strip_set c(2) [symmetric] by blast
    ultimately show ?thesis ..
  next
    case False
    then have "col = - 1" using 1(2) by (cases "col = 0") auto
    then show ?thesis by (simp add: zig_columns.simps)
  qed
qed

lemma zigzag_ok: "distinct (zigzag (int (moduleCount v)))"
  "set (zigzag (int (moduleCount v))) = {p. inside (int (moduleCount v)) p \<and> snd p \<noteq> 6}"
proof -
  let ?n = "int (moduleCount v)"
  have "zigzag ?n = concat (map (strip ?n) (zig_columns (?n - 1) True))"
    by (simp add: zigzag_def strip_def [abs_def])
  with zig_inv [of "?n - 1" ?n True] show "distinct (zigzag ?n)" "set (zigzag ?n) = {p. inside ?n p \<and> snd p \<noteq> 6}"
    by (auto simp: moduleCount_def inside_def)
qed

section \<open>Placing the data\<close>

definition padded :: "nat \<Rightarrow> int list \<Rightarrow> int list" where
  "padded k xs = take k (xs @ replicate k 0)"

lemma padded_Suc: "padded (Suc k) (drop i xs) = (if i < length xs then xs ! i # padded k (drop (Suc i) xs) else 0 # padded k (drop i xs))"
proof (cases "i < length xs")
  case True
  then have "drop i xs = xs ! i # drop (Suc i) xs" by (simp add: Cons_nth_drop_Suc)
  moreover have "take k (ys @ replicate (Suc k) (0 :: int)) = take k (ys @ replicate k 0)" for ys
    by (simp add: min_def del: replicate_Suc)
  ultimately show ?thesis using True by (simp add: padded_def del: replicate_Suc)
qed (simp add: padded_def)

lemma place_bits:
  "distinct ps \<Longrightarrow> (\<And>p. p \<in> set ps \<Longrightarrow> inside N p) \<Longrightarrow> rep N mx M X \<Longrightarrow>
   \<exists>bi' mx' M' X'. fold_option (data_step bits) ps (bi, mx) = Some (bi', mx') \<and> rep N mx' M' X'
     \<and> (\<forall>p. p \<notin> set ps \<or> M p \<noteq> - 1 \<longrightarrow> M' p = M p \<and> X' p = X p)
     \<and> (\<forall>p. p \<in> set ps \<and> M p = - 1 \<longrightarrow> \<not> X' p)
     \<and> map M' (filter (\<lambda>p. M p = - 1) ps) = padded (length (filter (\<lambda>p. M p = - 1) ps)) (drop bi bits)"
proof (induction ps arbitrary: bi mx M X)
  case Nil
  then show ?case by (simp add: padded_def) blast
next
  case (Cons p ps)
  obtain r c where p: "p = (r, c)" by (cases p)
  have i: "inside N (r, c)" using Cons.prems(2) p by simp
  have d: "p \<notin> set ps" "distinct ps" using Cons.prems(1) by simp_all
  note IH = Cons.IH [OF d(2)]
  show ?case
  proof (cases "M p = - 1")
    case False
    from IH [OF _ Cons.prems(3), of bi] Cons.prems(2) obtain bi' mx' M' X' where
      f: "fold_option (data_step bits) ps (bi, mx) = Some (bi', mx')" and r: "rep N mx' M' X'"
      and k: "\<forall>q. q \<notin> set ps \<or> M q \<noteq> - 1 \<longrightarrow> M' q = M q \<and> X' q = X q" "\<forall>q. q \<in> set ps \<and> M q = - 1 \<longrightarrow> \<not> X' q"
      and m: "map M' (filter (\<lambda>p. M p = - 1) ps) = padded (length (filter (\<lambda>p. M p = - 1) ps)) (drop bi bits)" by auto
    have "fold_option (data_step bits) (p # ps) (bi, mx) = Some (bi', mx')"
      using f False rep_module_at [OF Cons.prems(3) i] by (simp add: data_step_def p)
    with r k m False show ?thesis by (intro exI [of _ bi'] exI [of _ mx'] exI [of _ M'] exI [of _ X']) auto
  next
    case True
    define b where "b = (if bi < length bits then bits ! bi else 0)"
    define bj where "bj = (if bi < length bits then bi + 1 else bi)"
    obtain mx1 where s: "set_module r c b False mx = Some mx1" "rep N mx1 (M(p := b)) (X(p := False))"
      using rep_set_module [OF Cons.prems(3) i, of b False] p by auto
    have fe: "filter (\<lambda>q. (M(p := b)) q = - 1) ps = filter (\<lambda>q. M q = - 1) ps"
      by (rule filter_cong) (use d(1) in auto)
    from IH [OF _ s(2), of bj] Cons.prems(2) obtain bi' mx' M' X' where
      f: "fold_option (data_step bits) ps (bj, mx1) = Some (bi', mx')" and r: "rep N mx' M' X'"
      and k: "\<forall>q. q \<notin> set ps \<or> (M(p := b)) q \<noteq> - 1 \<longrightarrow> M' q = (M(p := b)) q \<and> X' q = (X(p := False)) q"
        "\<forall>q. q \<in> set ps \<and> (M(p := b)) q = - 1 \<longrightarrow> \<not> X' q"
      and m: "map M' (filter (\<lambda>p. M p = - 1) ps) = padded (length (filter (\<lambda>p. M p = - 1) ps)) (drop bj bits)"
      unfolding fe by auto
    have "fold_option (data_step bits) (p # ps) (bi, mx) = Some (bi', mx')"
      using f s(1) True rep_module_at [OF Cons.prems(3) i] by (auto simp: data_step_def p b_def bj_def)
    moreover have "M' p = b \<and> \<not> X' p" using k(1) [rule_format, of p] d(1) by simp
    moreover have "M' q = M q \<and> X' q = X q" if "q \<notin> set (p # ps) \<or> M q \<noteq> - 1" for q
      using k(1) [rule_format, of q] True that by (cases "q = p") auto
    moreover have "\<not> X' q" if "q \<in> set ps" "M q = - 1" for q
      using k(2) [rule_format, of q] d(1) that by (cases "q = p") auto
    moreover have "map M' (filter (\<lambda>p. M p = - 1) (p # ps)) = padded (length (filter (\<lambda>p. M p = - 1) (p # ps))) (drop bi bits)"
      using m True \<open>M' p = b \<and> \<not> X' p\<close> by (simp add: padded_Suc) (simp add: b_def bj_def)
    ultimately show ?thesis using r by (intro exI [of _ bi'] exI [of _ mx'] exI [of _ M'] exI [of _ X']) auto
  qed
qed

section \<open>There is room for every codeword\<close>

definition data_cells :: "nat \<Rightarrow> (int \<times> int) list" where
  "data_cells v = filter (\<lambda>p. \<not> function_module v p) (zigzag (int (moduleCount v)))"

lemma card_box: "card (box a b c d) = nat (b - a + 1) * nat (d - c + 1)"
  by (simp add: box_def card_cartesian_product)

definition occupied :: "nat \<Rightarrow> (int \<times> int) set list" where
  "occupied v = (let n = int (moduleCount v) in
     [box 0 8 0 5, box 0 5 7 8, box 7 8 7 8, box 0 5 (n - 8) (n - 1), box 7 8 (n - 8) (n - 1),
      box (n - 8) (n - 1) 0 5, box (n - 8) (n - 1) 7 8, box 6 6 7 (n - 1)]
     @ map (\<lambda>(a, b). box (a - 2) (a + 2) (b - 2) (b + 2)) (filter (\<lambda>(a, b). align_centre v a b) (List.product (kAlignPos ! v) (kAlignPos ! v))))"

lemma card_Union_list: "(\<And>A. A \<in> set As \<Longrightarrow> finite A) \<Longrightarrow> card (\<Union> (set As)) \<le> sum_list (map card As)"
proof (induction As)
  case (Cons A As)
  have "card (A \<union> \<Union> (set As)) \<le> card A + card (\<Union> (set As))" by (rule card_Un_le)
  with Cons show ?case by (simp add: order_trans)
qed simp

lemma occupied_enough: "{p \<in> set (zigzag (int (moduleCount v))). function_module v p} \<subseteq> \<Union> (set (occupied v))"
proof
  fix p assume a: "p \<in> {p \<in> set (zigzag (int (moduleCount v))). function_module v p}"
  obtain r c where p: "p = (r, c)" by (cases p)
  define n where "n = int (moduleCount v)"
  have rc: "0 \<le> r" "r < n" "0 \<le> c" "c < n" "c \<noteq> 6" and f: "function_module v (r, c)"
    using a zigzag_ok(2) [of v] by (auto simp: p inside_def n_def)
  show "p \<in> \<Union> (set (occupied v))"
  proof (cases "(r \<le> 8 \<and> c \<le> 8) \<or> (r \<le> 8 \<and> c \<ge> n - 8) \<or> (r \<ge> n - 8 \<and> c \<le> 8) \<or> r = 6")
    case True
    have "(r \<le> 8 \<and> c \<le> 5) \<or> (r \<le> 5 \<and> 7 \<le> c \<and> c \<le> 8) \<or> (7 \<le> r \<and> r \<le> 8 \<and> 7 \<le> c \<and> c \<le> 8)
        \<or> (r \<le> 5 \<and> n - 8 \<le> c) \<or> (7 \<le> r \<and> r \<le> 8 \<and> n - 8 \<le> c) \<or> (n - 8 \<le> r \<and> c \<le> 5)
        \<or> (n - 8 \<le> r \<and> 7 \<le> c \<and> c \<le> 8) \<or> (r = 6 \<and> 7 \<le> c)"
      using True rc by (smt (verit))
    then show ?thesis using rc unfolding occupied_def Let_def n_def [symmetric] set_append Union_Un_distrib
      by (intro UnI1) (elim disjE; simp add: p box_def)
  next
    case False
    then obtain a b where "a \<in> set (kAlignPos ! v)" "b \<in> set (kAlignPos ! v)" "align_centre v a b" "\<bar>r - a\<bar> \<le> 2" "\<bar>c - b\<bar> \<le> 2"
      using f rc by (auto simp: function_module_def Let_def n_def list_ex_iff)
    then show ?thesis unfolding occupied_def Let_def set_append Union_Un_distrib
      by (intro UnI2 UnionI [of "box (a - 2) (a + 2) (b - 2) (b + 2)"]) (auto simp: p box_def)
  qed
qed

lemma zigzag_length: "length (zigzag (int (moduleCount v))) = moduleCount v * (moduleCount v - 1)"
proof -
  let ?n = "int (moduleCount v)"
  have "set (zigzag ?n) = {0..?n - 1} \<times> ({0..?n - 1} - {6})" unfolding zigzag_ok(2) by (auto simp: inside_def)
  moreover have "card ({0..?n - 1} - {6}) = moduleCount v - 1" by (subst card_Diff_singleton) (auto simp: moduleCount_def)
  ultimately show ?thesis using distinct_card [OF zigzag_ok(1) [of v]] by (simp add: card_cartesian_product)
qed

lemma room_table:
  "list_all (\<lambda>v. 8 * total_codewords v + sum_list (map card (occupied v)) \<le> moduleCount v * (moduleCount v - 1))
     [1, 2, 3, 4, 5, 6, 7, 8, 9, 10]"
  unfolding list.pred_inject
  by (simp add: total_codewords_def Let_def occupied_def card_box align_centre_def kAlignPos_def kVerM_def moduleCount_def)

lemma room:
  assumes "1 \<le> v" "v \<le> 10"
  shows "8 * total_codewords v \<le> length (data_cells v)"
proof -
  let ?z = "zigzag (int (moduleCount v))"
  have "v \<in> set [1, 2, 3, 4, 5, 6, 7, 8, 9, 10]" using assms versions [of v] by auto
  then have t: "8 * total_codewords v + sum_list (map card (occupied v)) \<le> length ?z"
    using room_table unfolding list_all_iff zigzag_length by blast
  have "length (filter (function_module v) ?z) = card {p \<in> set ?z. function_module v p}"
    using distinct_card [of "filter (function_module v) ?z"] zigzag_ok(1) [of v] by (simp add: Collect_conj_eq Int_commute)
  also have "\<dots> \<le> card (\<Union> (set (occupied v)))"
    by (rule card_mono [OF _ occupied_enough]) (auto simp: occupied_def Let_def box_def)
  also have "\<dots> \<le> sum_list (map card (occupied v))"
    by (rule card_Union_list) (auto simp: occupied_def Let_def box_def)
  finally show ?thesis
    using t sum_length_filter_compl [of "function_module v" ?z] by (simp add: data_cells_def)
qed

definition built :: "nat \<Rightarrow> int list \<Rightarrow> matrix \<Rightarrow> bool" where
  "built v bits base \<longleftrightarrow> (let N = int (moduleCount v) in
     dim base = N \<and> square N (modules base) \<and> square N (fixd base)
     \<and> (\<forall>p. inside N p \<longrightarrow> (cell (fixd base) p \<longleftrightarrow> function_module v p))
     \<and> map (cell (modules base)) (data_cells v) = padded (length (data_cells v)) bits)"

lemma data_cells_inside: "p \<in> set (data_cells v) \<Longrightarrow> inside (int (moduleCount v)) p \<and> \<not> function_module v p"
  using zigzag_ok(2) [of v] by (auto simp: data_cells_def)

lemma build_base_ok:
  assumes "1 \<le> v" "v \<le> 10"
  shows "\<exists>base. build_base v cws = Some base \<and> built v (word_bits cws) base"
proof -
  define N where "N = int (moduleCount v)"
  obtain mx M X where mx: "place_patterns v N (matrix_new N) = Some mx" and r: "rep N mx M X"
    and F: "\<And>p. inside N p \<Longrightarrow> (M p = - 1 \<longleftrightarrow> \<not> function_module v p) \<and> (X p \<longleftrightarrow> function_module v p)"
    using place_patterns_ok [OF assms, folded N_def] unfolding patterned_def by auto
  have fe: "filter (\<lambda>p. M p = - 1) (zigzag N) = data_cells v"
    unfolding data_cells_def N_def [symmetric] by (rule filter_cong) (use F zigzag_ok(2) [of v, folded N_def] in auto)
  have "distinct (zigzag N)" "\<And>p. p \<in> set (zigzag N) \<Longrightarrow> inside N p" using zigzag_ok [of v] by (auto simp: N_def)
  from place_bits [OF this r, where bits = "word_bits cws" and bi = 0] obtain bi' mx' M' X' where
    f: "fold_option (data_step (word_bits cws)) (zigzag N) (0, mx) = Some (bi', mx')" and r': "rep N mx' M' X'"
    and k: "\<And>p. p \<notin> set (zigzag N) \<or> M p \<noteq> - 1 \<Longrightarrow> M' p = M p \<and> X' p = X p" "\<And>p. p \<in> set (zigzag N) \<Longrightarrow> M p = - 1 \<Longrightarrow> \<not> X' p"
    and m: "map M' (data_cells v) = padded (length (data_cells v)) (word_bits cws)"
    unfolding fe by auto
  have wb: "concat (map (\<lambda>cw. map (\<lambda>i. drop_bit i cw AND 1) (rev [0..<8])) cws) = word_bits cws"
    by (simp add: word_bits_concat put_def)
  have "build_base v cws = Some mx'"
    using mx f r by (simp add: build_base_def Let_def N_def [symmetric] placeData_def wb rep_def)
  moreover have "X' p \<longleftrightarrow> function_module v p" if i: "inside N p" for p
  proof (cases "function_module v p")
    case False
    then have "snd p \<noteq> 6" by (cases p) (auto simp: function_module_def Let_def)
    then have "p \<in> set (zigzag N)" using zigzag_ok(2) [of v] i by (simp add: N_def)
    with False k(2) F [OF i] show ?thesis by simp
  qed (use F [OF i] k(1) in auto)
  moreover have "map (cell (modules mx')) (data_cells v) = map M' (data_cells v)"
    using r' data_cells_inside [of _ v] by (auto simp: rep_def N_def)
  ultimately show ?thesis using r' m by (auto simp: built_def Let_def rep_def N_def)
qed

section \<open>Format information and masks\<close>

lemma write_ok: "square n g \<Longrightarrow> inside n p \<Longrightarrow> write_module n (p, v) g = Some (put_cell g p v)"
  by (simp add: write_module_def)

definition format_writes :: "int \<Rightarrow> nat \<Rightarrow> ((int \<times> int) \<times> int) list" where
  "format_writes n mk = concat (map (\<lambda>i. [(copy1 ! i, format_bit mk i), (copy2 n ! i, format_bit mk i)]) [0..<15]) @ [((n - 8, 8), 1)]"

lemma fold_option_append: "fold_option f (xs @ ys) s = Option.bind (fold_option f xs s) (fold_option f ys)"
proof (induction xs arbitrary: s)
  case (Cons x xs)
  then show ?case by (cases "f x s") simp_all
qed simp

lemma fold_option_concat: "fold_option f (concat (map h xs)) s = fold_option (\<lambda>x. fold_option f (h x)) xs s"
proof (induction xs arbitrary: s)
  case (Cons x xs)
  then have "fold_option f (concat (map h xs)) = fold_option (\<lambda>x. fold_option f (h x)) xs" by blast
  then show ?case by (simp add: fold_option_append)
qed simp

lemma applyFormat_writes: "applyFormat n mk g = fold_option (write_module n) (format_writes n mk) g"
proof -
  have 0: "fold_option (write_module n) [] = Some" by (rule ext) simp
  have 1: "fold_option (write_module n) [a] = write_module n a" for a by (rule ext) (simp add: 0)
  have "fold_option (write_module n) [a, b] = (\<lambda>g. Option.bind (write_module n a g) (write_module n b))" for a b
    by (rule ext) (simp only: fold_option.simps(2) [of _ a] 1)
  then show ?thesis
    unfolding applyFormat_def format_writes_def fold_option_append fold_option_concat by (simp add: Let_def 1)
qed

lemma fold_writes:
  "distinct (map fst ws) \<Longrightarrow> (\<And>p. p \<in> fst ` set ws \<Longrightarrow> inside n p) \<Longrightarrow> square n g \<Longrightarrow>
   \<exists>g'. fold_option (write_module n) ws g = Some g' \<and> square n g' \<and>
     (\<forall>q. inside n q \<longrightarrow> cell g' q = (case map_of ws q of Some v \<Rightarrow> v | None \<Rightarrow> cell g q))"
proof (induction ws arbitrary: g)
  case (Cons w ws)
  obtain p v where w: "w = (p, v)" by (cases w)
  have i: "inside n p" using Cons.prems(2) w by simp
  from Cons.IH [of "put_cell g p v"] Cons.prems i obtain g' where
    g': "fold_option (write_module n) ws (put_cell g p v) = Some g'" "square n g'"
      "\<And>q. inside n q \<Longrightarrow> cell g' q = (case map_of ws q of Some v \<Rightarrow> v | None \<Rightarrow> cell (put_cell g p v) q)" by auto
  have "map_of ws p = None" using Cons.prems(1) w by (simp add: map_of_eq_None_iff)
  then have "cell g' q = (case map_of (w # ws) q of Some v \<Rightarrow> v | None \<Rightarrow> cell g q)" if "inside n q" for q
    using g'(3) [OF that] cell_put_cell [OF Cons.prems(3) i that] w by (auto split: option.splits)
  with g' w Cons.prems(3) i show ?case by (simp add: write_ok)
qed simp

lemma upt15: "[0..<15] = [0, 1, 2, 3, 4, 5, 6, 7, 8, 9, 10, 11, 12, 13, 14]"
  by (simp add: upt_rec)

lemma copy2_eq:
  "copy2 n = [(n - 1, 8), (n - 2, 8), (n - 3, 8), (n - 4, 8), (n - 5, 8), (n - 6, 8), (n - 7, 8),
     (8, n - 8), (8, n - 7), (8, n - 6), (8, n - 5), (8, n - 4), (8, n - 3), (8, n - 2), (8, n - 1)]"
  by (simp add: copy2_def upto.simps)

lemma format_writes_fst:
  "map fst (format_writes n mk) = concat (map (\<lambda>i. [copy1 ! i, copy2 n ! i]) [0..<15]) @ [(n - 8, 8)]"
  by (simp add: format_writes_def map_concat comp_def)

lemma format_cells_distinct: "21 \<le> n \<Longrightarrow> distinct (map fst (format_writes n mk))"
  unfolding format_writes_fst by (simp add: upt15 copy1_def copy2_eq)

lemma format_cells_function:
  assumes "p \<in> fst ` set (format_writes (int (moduleCount v)) mk)" "1 \<le> v"
  shows "inside (int (moduleCount v)) p \<and> function_module v p"
proof -
  define n where "n = int (moduleCount v)"
  have n: "21 \<le> n" using assms(2) by (simp add: n_def moduleCount_def)
  have "p \<in> set (map fst (format_writes n mk))" using assms(1) by (simp add: n_def)
  moreover have "length copy1 = 15" "length (copy2 n) = 15" by (simp_all add: copy1_def copy2_eq)
  ultimately have "p \<in> set copy1 \<union> set (copy2 n) \<union> {(n - 8, 8)}"
    unfolding format_writes_fst by auto
  then have "inside n p \<and> ((fst p \<le> 8 \<and> snd p \<le> 8) \<or> (fst p \<le> 8 \<and> snd p \<ge> n - 8) \<or> (fst p \<ge> n - 8 \<and> snd p \<le> 8))"
    using n by (auto simp: copy1_def copy2_eq inside_def)
  then show ?thesis by (cases p) (auto simp: function_module_def Let_def n_def)
qed

lemma format_of_copy1: "21 \<le> n \<Longrightarrow> i < 15 \<Longrightarrow> map_of (format_writes n mk) (copy1 ! i) = Some (format_bit mk i)"
proof (rule map_of_is_SomeI [OF format_cells_distinct])
  show "(copy1 ! i, format_bit mk i) \<in> set (format_writes n mk)" if "i < 15" using that by (auto simp: format_writes_def)
qed

lemma formats_differ:
  "k < 8 \<Longrightarrow> mk < 8 \<Longrightarrow> list_all (\<lambda>i. format_bit mk i = format_bit k i) [0..<15] \<Longrightarrow> k = mk"
proof -
  have t: "list_all (\<lambda>k. list_all (\<lambda>mk. list_all (\<lambda>i. format_bit mk i = format_bit k i) [0..<15] \<longrightarrow> k = mk) [0, 1, 2, 3, 4, 5, 6, 7])
      [0, 1, 2, 3, 4, 5, 6, 7]"
    by code_simp
  assume "k < 8" "mk < 8" "list_all (\<lambda>i. format_bit mk i = format_bit k i) [0..<15]"
  moreover from this have "k \<in> set [0, 1, 2, 3, 4, 5, 6, 7]" "mk \<in> set [0, 1, 2, 3, 4, 5, 6, 7]" by auto
  ultimately show "k = mk" using t unfolding list_all_iff by blast
qed

lemma format_bit_isbit: "isbit (format_bit mk i)"
  by (auto simp: format_bit_def and_one_eq isbit_def)

section \<open>The choice of the mask\<close>

lemma penalty_bound:
  assumes "square N g" "21 \<le> N" "N \<le> 57"
  shows "penalty g < 2 ^ 30"
proof -
  have line: "snd (foldl (run_step g r dir) s cs) \<le> snd s + 3 * int (length cs)" for r dir s cs
  proof (induction cs arbitrary: s)
    case (Cons c cs)
    have "snd (run_step g r dir s c) \<le> snd s + 3" by (simp add: run_step_def Let_def split: prod.split)
    then show ?case using Cons [of "run_step g r dir s c"] by (simp add: algebra_simps)
  qed simp
  have all: "foldl (\<lambda>pen (r, dir). snd (foldl (run_step g r dir) (1, pen) cs)) q ls \<le> q + 3 * int (length cs) * int (length ls)" for cs q ls
  proof (induction ls arbitrary: q)
    case (Cons l ls)
    obtain r dir where l: "l = (r, dir)" by (cases l)
    show ?case using line [of r dir "(1, q)" cs] Cons [of "snd (foldl (run_step g r dir) (1, q) cs)"]
      by (simp add: l algebra_simps)
  qed simp
  have l: "int (length g) = N" using assms by (simp add: square_def)
  have "penalty g \<le> 3 * (N - 1) * (2 * N)"
    unfolding penalty_def l Let_def [of N] using all [where q = 0 and cs = "[1..N - 1]" and ls = "List.product [0..N - 1] [False, True]"] assms(2)
    by (simp add: length_product)
  also have "\<dots> \<le> 3 * 56 * (2 * 57)" by (rule mult_mono) (use assms in auto)
  finally show ?thesis by simp
qed

lemma fold_masks:
  assumes "\<And>mk. mk \<in> set mks \<Longrightarrow> \<exists>g. applyFormat (dim base) mk (masked base mk) = Some g \<and> penalty g < 2 ^ 30 \<and> G g"
    and "G (snd st) \<or> fst st = 2 ^ 30"
  shows "\<exists>st'. fold_option (try_mask base) mks st = Some st' \<and> (mks \<noteq> [] \<or> G (snd st) \<longrightarrow> G (snd st'))"
  using assms
proof (induction mks arbitrary: st)
  case (Cons mk mks)
  obtain g where g: "applyFormat (dim base) mk (masked base mk) = Some g" "penalty g < 2 ^ 30" "G g"
    using Cons.prems(1) [of mk] by auto
  define st1 where "st1 = (if penalty g < fst st then (penalty g, g) else st)"
  have "try_mask base mk st = Some st1" using g(1) by (simp add: try_mask_def st1_def Let_def split: prod.split)
  moreover have "G (snd st1)" using g Cons.prems(2) by (auto simp: st1_def)
  moreover from this obtain st' where "fold_option (try_mask base) mks st1 = Some st'" "G (snd st')"
    using Cons.IH [of st1] Cons.prems(1) by auto
  ultimately show ?case by simp
qed simp

lemma cell_comprehension: "inside N p \<Longrightarrow> cell (map (\<lambda>r. map (f r) [0..N - 1]) [0..N - 1]) p = f (fst p) (snd p)"
  by (simp add: cell_def inside_def)

lemma square_comprehension: "square N (map (\<lambda>r. map (f r) [0..N - 1]) [0..N - 1])"
  by (simp add: square_def)

text \<open>What a scanner sees of the symbol with mask \<open>mk\<close>.\<close>

definition shown :: "nat \<Rightarrow> int list \<Rightarrow> nat \<Rightarrow> int list list \<Rightarrow> bool" where
  "shown v bits mk g \<longleftrightarrow> square (int (moduleCount v)) g
     \<and> list_all (\<lambda>i. cell g (copy1 ! i) = format_bit mk i) [0..<15]
     \<and> map (\<lambda>(r, c). cell g (r, c) XOR (if maskBit mk r c then 1 else 0)) (data_cells v) = padded (length (data_cells v)) bits"

lemma applyFormat_shown:
  assumes "built v bits base" "1 \<le> v"
  shows "\<exists>g. applyFormat (dim base) mk (masked base mk) = Some g \<and> shown v bits mk g"
proof -
  define N where "N = int (moduleCount v)"
  have N: "21 \<le> N" using assms(2) by (simp add: N_def moduleCount_def)
  have d: "dim base = N" using assms(1) by (simp add: built_def Let_def N_def)
  note fun_cells = format_cells_function [OF _ assms(2), where mk = mk, folded N_def]
  obtain g where g: "fold_option (write_module N) (format_writes N mk) (masked base mk) = Some g" "square N g"
    "\<And>q. inside N q \<Longrightarrow> cell g q = (case map_of (format_writes N mk) q of Some v \<Rightarrow> v | None \<Rightarrow> cell (masked base mk) q)"
    using fold_writes [OF format_cells_distinct [OF N, of mk], of N "masked base mk"] fun_cells
    by (auto simp: masked_def d square_comprehension)
  have c1: "cell g (copy1 ! i) = format_bit mk i" if "i < 15" for i
  proof -
    have "copy1 ! i \<in> fst ` set (format_writes N mk)"
      using map_of_SomeD [OF format_of_copy1 [OF N that, of mk]] by force
    then show ?thesis using g(3) fun_cells format_of_copy1 [OF N that, of mk] by simp
  qed
  have dc: "cell g (r, c) XOR (if maskBit mk r c then 1 else 0) = cell (modules base) (r, c)" if m: "(r, c) \<in> set (data_cells v)" for r c
  proof -
    have i: "inside N (r, c)" "\<not> function_module v (r, c)" using data_cells_inside [OF m] by (simp_all add: N_def)
    then have "map_of (format_writes N mk) (r, c) = None" using fun_cells by (auto simp: map_of_eq_None_iff)
    moreover have "\<not> cell (fixd base) (r, c)" using assms(1) i by (simp add: built_def Let_def N_def)
    ultimately have "cell g (r, c) = cell (modules base) (r, c) XOR (if maskBit mk r c then 1 else 0)"
      using g(3) [OF i(1)] i(1) by (simp add: masked_def d cell_comprehension)
    then show ?thesis by (simp add: xor.assoc)
  qed
  have "map (\<lambda>(r, c). cell g (r, c) XOR (if maskBit mk r c then 1 else 0)) (data_cells v) = map (cell (modules base)) (data_cells v)"
    using dc by (auto intro!: map_cong)
  also have "\<dots> = padded (length (data_cells v)) bits" using assms(1) by (simp add: built_def Let_def)
  finally have "shown v bits mk g" using g(2) c1 unfolding shown_def N_def list_all_iff by simp
  then show ?thesis using g(1) by (simp add: applyFormat_writes d)
qed

section \<open>Reading a symbol\<close>

lemma find_unique:
  assumes "x \<in> set xs" "P x" "\<And>y. P y \<Longrightarrow> y \<in> set xs \<Longrightarrow> y = x"
  shows "find P xs = Some x"
proof (cases "find P xs")
  case None
  then show ?thesis using assms(1,2) by (simp add: find_None_iff)
next
  case (Some y)
  then show ?thesis using assms(3) [of y] by (auto simp: find_Some_iff)
qed

lemma length_rows:
  "(\<And>b. b \<in> set bs \<Longrightarrow> length b \<le> m) \<Longrightarrow> length (concat (map (\<lambda>i. row i bs) [0..<m])) = sum_list (map length bs)"
proof (induction bs)
  case Nil
  show ?case by (simp add: row_def)
next
  case (Cons b bs)
  have r: "length (row i (b # bs)) = (if i < length b then 1 else 0) + length (row i bs)" for i by (simp add: row_def)
  have s: "sum_list (map (\<lambda>i. if i < k then 1 else 0) [0..<m]) = min k m" for k :: nat by (induction m) auto
  have "length (concat (map (\<lambda>i. row i (b # bs)) [0..<m])) = min (length b) m + length (concat (map (\<lambda>i. row i bs) [0..<m]))"
    by (simp add: length_concat comp_def r sum_list_addf s)
  then show ?case using Cons by simp
qed

lemma row_byte: "(\<And>b. b \<in> set bs \<Longrightarrow> list_all byte b) \<Longrightarrow> list_all byte (row i bs)"
  by (force simp: row_def list_all_iff split: if_splits dest: nth_mem)

lemma buildCodewords_shape:
  assumes "chooseVersion (length s) = Some v"
  shows "length (buildCodewords s v) = total_codewords v" "list_all byte (buildCodewords s v)"
proof -
  define vi ec ns where "vi = kVerM ! v" and "ec = ec_per_block vi" and "ns = block_sizes vi"
  define d where "d = data_words s v"
  define db where "db = split_blocks ns d"
  define eb where "eb = map (\<lambda>b. rsEncode b ec) db"
  note cv = chooseVersion_Some [OF assms, folded vi_def]
  have d: "length d = data_codewords vi" "list_all byte d"
    using data_words_bits [of v s] cv(2) by (simp_all add: d_def vi_def)
  have ns: "sum_list ns = length d" using cv(3) d(1) by (simp add: ns_def)
  have db: "map length db = ns" "\<And>b. b \<in> set db \<Longrightarrow> list_all byte b"
    using split_blocks_lengths [of ns d] split_blocks_byte [OF d(2)] ns by (simp_all add: db_def)
  have ec: "ec \<le> 256" using cv(4) by (simp add: ec_def)
  have el: "length b = ec" "list_all byte b" if "b \<in> set eb" for b
    using rs_remainder(1,2) [OF ec] db(2) that by (auto simp: eb_def)
  have b: "buildCodewords s v = concat (map (\<lambda>i. row i db) [0..<foldl max 0 ns]) @ concat (map (\<lambda>i. row i eb) [0..<ec])"
    using ecc_rows [of eb ec] el(1)
    by (auto simp: buildCodewords_def Let_def interleave_def eb_def db_def d_def ns_def ec_def vi_def
        db(1) [unfolded db_def d_def ns_def vi_def])
  have "map length eb = map (\<lambda>_. ec) eb" using el(1) by (intro map_cong) simp_all
  moreover have "length eb = length ns" using arg_cong [OF db(1), of length] by (simp add: eb_def)
  ultimately have "map length eb = replicate (length ns) ec" by (simp only: map_replicate_const)
  moreover have "length ns = num_blocks vi" by (simp add: ns_def block_sizes_def Let_def)
  ultimately have "sum_list (map length eb) = ec * num_blocks vi" by (simp add: sum_list_replicate mult.commute)
  moreover have "sum_list (map length db) = data_codewords vi" using db(1) ns d(1) by simp
  moreover have "length b \<le> foldl max 0 ns" if "b \<in> set db" for b
    by (rule foldl_max_ge) (use that in \<open>simp flip: db(1)\<close>)
  ultimately show "length (buildCodewords s v) = total_codewords v"
    using length_rows [of db "foldl max 0 ns"] length_rows [of eb ec] el(1)
    by (simp add: b total_codewords_def Let_def vi_def ec_def)
  have "list_all byte (concat (map (\<lambda>i. row i bs) js))" if "\<And>i. list_all byte (row i bs)" for bs js
    using that by (auto simp: list_all_iff)
  then show "list_all byte (buildCodewords s v)" using row_byte [of db, OF db(2)] row_byte [of eb, OF el(2)] unfolding b list_all_append by blast
qed

lemma to_bytes_word_bits: "list_all byte ws \<Longrightarrow> to_bytes (word_bits ws) = ws"
proof (induction ws)
  case (Cons w ws)
  have e: "word_bits (w # ws) = put [] w 8 @ word_bits ws" by (simp add: word_bits_concat)
  have "list_all isbit (word_bits ws)" unfolding word_bits_concat by (induction ws) simp_all
  moreover have "length (word_bits ws) = 8 * length ws" unfolding word_bits_concat by (rule length_chunks)
  ultimately have "to_bytes (word_bits (w # ws)) = bits_value (put [] w 8) # to_bytes (word_bits ws)"
    unfolding e by (intro to_bytes_Cons) simp_all
  then show ?case using Cons byte_take_bit [of w] by (simp add: bits_value_put)
qed (simp add: word_bits_concat to_bytes_def)

lemma padded_bits: "list_all isbit bits \<Longrightarrow> list_all isbit (padded k bits)"
  by (auto simp: padded_def list_all_iff isbit_def dest: in_set_takeD)

lemma padded_prefix: "length bits \<le> k \<Longrightarrow> take (length bits) (padded k bits) = bits"
  by (simp add: padded_def)

lemma word_bits_isbit: "list_all isbit (word_bits ws)"
  unfolding word_bits_concat by (induction ws) simp_all

lemma xor_bit: "isbit (x XOR (if m then 1 else 0)) \<Longrightarrow> isbit x"
proof -
  assume "isbit (x XOR (if m then 1 else 0))"
  then have "isbit ((x XOR (if m then 1 else 0)) XOR (if m then 1 else 0))" by (auto simp: isbit_def)
  then show ?thesis by (simp add: xor.assoc)
qed

text \<open>The picture shows exactly what the chosen grid holds.\<close>

lemma read_shown:
  assumes "shown v (word_bits cws) mk g" "mk < 8" "1 \<le> v" "v \<le> 6" "length cws = total_codewords v" "list_all byte cws"
  shows "read_symbol (map (\<lambda>r. map (\<lambda>c. cell g (r, c) = 1) [0..int (moduleCount v) - 1]) [0..int (moduleCount v) - 1]) = read_codewords v cws"
proof -
  define N where "N = int (moduleCount v)"
  define pic where "pic = map (\<lambda>r. map (\<lambda>c. cell g (r, c) = 1) [0..N - 1]) [0..N - 1]"
  have pic: "cell pic p \<longleftrightarrow> cell g p = 1" if "inside N p" for p using that by (simp add: pic_def cell_comprehension)
  have len: "length pic = moduleCount v" "(moduleCount v - 17) div 4 = v" by (simp_all add: pic_def N_def moduleCount_def)
  have c1: "dark pic (copy1 ! i) = format_bit mk i" if "i < 15" for i
  proof -
    have "inside N (copy1 ! i)" using that assms(3) by (auto simp: upt15 copy1_def inside_def N_def moduleCount_def less_Suc_eq numeral_eq_Suc)
    moreover have "cell g (copy1 ! i) = format_bit mk i" using assms(1) that by (simp add: shown_def list_all_iff)
    ultimately show ?thesis using pic format_bit_isbit [of mk i] by (auto simp: dark_def isbit_def)
  qed
  have mk: "read_mask pic = Some mk"
    unfolding read_mask_def
  proof (rule find_unique)
    fix k assume k: "list_all (\<lambda>i. dark pic (copy1 ! i) = format_bit k i) [0..<15]" "k \<in> set [0..<8]"
    have "format_bit mk i = format_bit k i" if "i \<in> set [0..<15]" for i
    proof -
      have "i < 15" using that by simp
      moreover have "dark pic (copy1 ! i) = format_bit k i" using k(1) that unfolding list_all_iff by blast
      ultimately show ?thesis using c1 by (metis (no_types))
    qed
    then have "list_all (\<lambda>i. format_bit mk i = format_bit k i) [0..<15]" unfolding list_all_iff by blast
    moreover have "k < 8" using k(2) by simp
    ultimately show "k = mk" using formats_differ [of k mk] assms(2) by blast
  qed (use c1 assms(2) in \<open>simp_all add: list_all_iff\<close>)
  let ?x = "\<lambda>h (r, c). h (r, c) XOR (if maskBit mk r c then 1 else 0 :: int)"
  have m: "map (?x (cell g)) (data_cells v) = padded (length (data_cells v)) (word_bits cws)"
    using assms(1) by (simp add: shown_def)
  have "dark pic p = cell g p" if p: "p \<in> set (data_cells v)" for p
  proof -
    have "?x (cell g) p \<in> set (padded (length (data_cells v)) (word_bits cws))" using p by (simp flip: m)
    then have "isbit (?x (cell g) p)" using padded_bits [OF word_bits_isbit] by (simp add: list_all_iff)
    then have "isbit (cell g p)" by (cases p) (auto dest: xor_bit)
    then show ?thesis using pic data_cells_inside [OF p] by (auto simp: dark_def isbit_def N_def)
  qed
  then have "map (?x (dark pic)) (data_cells v) = map (?x (cell g)) (data_cells v)" by (intro map_cong) auto
  moreover have "length (word_bits cws) = 8 * total_codewords v"
    unfolding word_bits_concat using length_chunks [of "\<lambda>x. x" cws] assms(5) by simp
  ultimately have "take (8 * total_codewords v) (map (?x (dark pic)) (data_cells v)) = word_bits cws"
    using padded_prefix [of "word_bits cws"] room [OF assms(3)] assms(4) m by simp
  then have "read_symbol pic = read_codewords v (to_bytes (word_bits cws))"
    using assms(4) by (simp add: read_symbol_def Let_def len mk data_cells_def version_info_def case_prod_beta)
  then show ?thesis using to_bytes_word_bits [OF assms(6)] by (simp add: pic_def N_def)
qed

lemma encode_reads_back:
  assumes "chooseVersion (length s) = Some v" "v \<le> 6"
  shows "\<exists>g. encode s = Some g \<and> length g = moduleCount v \<and> read_symbol g = read_codewords v (buildCodewords s v)"
proof -
  define cws where "cws = buildCodewords s v"
  have v: "1 \<le> v" "v \<le> 10" using chooseVersion_Some(1) [OF assms(1)] by auto
  obtain base where b: "build_base v cws = Some base" "built v (word_bits cws) base"
    using build_base_ok [OF v] by blast
  have d: "dim base = int (moduleCount v)" using b(2) by (simp add: built_def Let_def)
  let ?G = "\<lambda>g. \<exists>mk<8. shown v (word_bits cws) mk g"
  have "\<exists>st'. fold_option (try_mask base) [0..<8] (2 ^ 30, []) = Some st' \<and> ([0..<8 :: nat] \<noteq> [] \<or> ?G (snd (2 ^ 30 :: int, [])) \<longrightarrow> ?G (snd st'))"
  proof (rule fold_masks)
    fix mk :: nat assume "mk \<in> set [0..<8]"
    moreover obtain g where g: "applyFormat (dim base) mk (masked base mk) = Some g" "shown v (word_bits cws) mk g"
      using applyFormat_shown [OF b(2) v(1)] by blast
    moreover have "penalty g < 2 ^ 30"
      by (rule penalty_bound [of "int (moduleCount v)"]) (use g(2) v in \<open>auto simp: shown_def moduleCount_def\<close>)
    ultimately show "\<exists>g. applyFormat (dim base) mk (masked base mk) = Some g \<and> penalty g < 2 ^ 30 \<and> ?G g" by auto
  qed simp
  then obtain st mk where st: "fold_option (try_mask base) [0..<8] (2 ^ 30, []) = Some st" "mk < 8" "shown v (word_bits cws) mk (snd st)"
    by auto
  show ?thesis
    using read_shown [OF st(3,2) v(1) assms(2)] buildCodewords_shape [OF assms(1)] st(1) b(1) assms(1)
    by (simp add: encode_def encode_matrix_def d cws_def case_prod_beta)
qed

lemma short_text_reads_back:
  assumes "length s \<le> 106"
  shows "\<exists>g. encode s = Some g \<and> read_symbol g = Some s"
proof -
  have fit: "4 + charCountBits 6 + length s * 8 \<le> data_codewords (kVerM ! 6) * 8"
    using assms by (simp add: charCountBits_def kVerM_def)
  then have "chooseVersion (length s) \<noteq> None" by (auto simp: chooseVersion_None not_less intro!: bexI [of _ 6])
  then obtain v where v: "chooseVersion (length s) = Some v" by auto
  have "v \<le> 6" using chooseVersion_least [OF v, of 6] fit by (cases "6 < v") auto
  then show ?thesis using encode_reads_back [OF v] codewords_roundtrip [OF v] by auto
qed

text \<open>A QR symbol can be scanned: for every text of at most 106 bytes (all that fits into versions 1
  to 6), \<open>encode\<close> makes no access outside its matrix and returns a symbol from which a reader built on
  the layout of the QR standard gets exactly the text back. The reader takes the mask from the first copy of the
  format information, removes it, reads the modules outside the function patterns in zig-zag order,
  undoes the interleaving, checks every Reed-Solomon block and parses the byte segment.\<close>

theorem symbol_reads_back:
  assumes "length s \<le> 106"
  shows "\<exists>g. encode s = Some g \<and> read_symbol g = Some s"
  using assms by (rule short_text_reads_back)

theorem symbol_reads_back_witness:
  "\<exists>g. encode ''WIFI:T:WPA;S:Nexus-1;P:secret;;'' = Some g \<and> read_symbol g = Some ''WIFI:T:WPA;S:Nexus-1;P:secret;;''"
  by (rule symbol_reads_back) simp

text \<open>From version 7 on the encoder treats the modules of the version information as data modules.\<close>

lemma version_info_overwritten:
  assumes "7 \<le> v" "v \<le> 10"
  shows "\<exists>p\<in>set (data_cells v). version_info v p"
proof
  let ?p = "(0, int (moduleCount v) - 9)"
  show "version_info v ?p" using assms by (simp add: version_info_def Let_def)
  have v: "v \<in> set [7, 8, 9, 10]" using assms by auto
  have "list_all (\<lambda>v. \<not> function_module v (0, int (moduleCount v) - 9)) [7, 8, 9, 10]"
    by (simp add: function_module_def align_centre_def kAlignPos_def moduleCount_def)
  then have "\<not> function_module v ?p" using v unfolding list_all_iff by blast
  then show "?p \<in> set (data_cells v)" using zigzag_ok(2) [of v] assms by (auto simp: data_cells_def inside_def moduleCount_def)
qed

end
