(* ===== verification/Streamer_Control.thy ===== *)
theory Streamer_Control
  imports Command_Server
begin

text \<open>
  The Streamer's side of the control channel: \<open>CommandSigner::build\<close>, \<open>CommandClient::send\<close>, the line
  transport \<open>TcpLineTransport\<close> and \<open>CommandGateway\<close> (\<open>src/streamer/src/control\<close>,
  \<open>src/streamer/src/app\<close>), and what the two programs guarantee together with the speaker's pipeline of
  \<open>Command_Server\<close>. The signing primitive of \<open>identity/Crypto\<close> is a parameter. An outcome of None
  is an exception that leaves the function.
\<close>

section \<open>Building and sending a command\<close>

type_synonym signer = "string \<Rightarrow> string result"

definition build ::
  "json_lib \<Rightarrow> signer \<Rightarrow> string \<Rightarrow> string \<Rightarrow> string \<Rightarrow> json \<Rightarrow> int \<Rightarrow> int \<Rightarrow> command result" where
  "build J sign cid target cmd pl expires ts =
     (let c = \<lparr>command_id = cid, target_id = target, command_name = cmd,
               payload = (if is_object pl then pl else JObj []), expires_at = expires, timestamp = ts, signature_b64 = []\<rparr>
      in case sign (canonicalString J c) of
           Inl st \<Rightarrow> Inl st
         | Inr sig \<Rightarrow> Inr (c\<lparr>signature_b64 := sig\<rparr>))"

record command_reply =
  cp_command_id :: string
  cp_ok :: bool
  cp_message :: string
  cp_error_code :: int
  cp_data :: json

definition reply_empty :: command_reply where
  "reply_empty = \<lparr>cp_command_id = [], cp_ok = False, cp_message = [], cp_error_code = 0, cp_data = JObj []\<rparr>"

text \<open>The fields of the reply; \<open>json::value\<close> is outside the try block, so a failed conversion throws.\<close>

definition reply_of_json :: "json_lib \<Rightarrow> json \<Rightarrow> command_reply option" where
  "reply_of_json J j = do {
     cid \<leftarrow> j_value (jl_get_string J) j ''command_id'' [];
     ok \<leftarrow> j_value (jl_get_bool J) j ''ok'' False;
     msg \<leftarrow> j_value (jl_get_string J) j ''message'' [];
     ec \<leftarrow> j_value (jl_get_int J) j ''error_code'' 0;
     let d = (case j_find j ''data'' of Some v \<Rightarrow> if is_object v then v else JObj [] | None \<Rightarrow> JObj []);
     Some \<lparr>cp_command_id = cid, cp_ok = ok, cp_message = msg, cp_error_code = ec, cp_data = d\<rparr>
   }"

definition client_send ::
  "json_lib \<Rightarrow> signer \<Rightarrow> (string \<Rightarrow> string result) \<Rightarrow> string \<Rightarrow> string \<Rightarrow> string \<Rightarrow> json \<Rightarrow> int \<Rightarrow> int
    \<Rightarrow> command_reply result option" where
  "client_send J sign transport cid target cmd pl expires ts =
     (case build J sign cid target cmd pl expires ts of
        Inl st \<Rightarrow> Some (Inl st)
      | Inr c \<Rightarrow>
          (case transport (jl_dump J (toJson c)) of
             Inl st \<Rightarrow> Some (Inl st)
           | Inr resp \<Rightarrow>
               (case jl_parse J resp of
                  None \<Rightarrow> Some (Inl (mk_error Ec_InvalidArg (''bad response json: '' @ jl_what J resp)))
                | Some j \<Rightarrow> map_option Inr (reply_of_json J j))))"

section \<open>The line transport\<close>

text \<open>The reading half of \<open>TcpLineTransport::request\<close>: the chunks \<open>recv\<close> returns before the peer closes.
  \<open>None\<close> among them is an error of \<open>recv\<close>.\<close>

fun read_response :: "string \<Rightarrow> string option list \<Rightarrow> string option" where
  "read_response resp [] = Some resp"
| "read_response resp (None # rest) = None"
| "read_response resp (Some buf # rest) =
     (if buf = [] then Some resp
      else let resp' = resp @ buf in if nl \<in> set resp' then Some resp' else read_response resp' rest)"

definition response_line :: "string \<Rightarrow> string option list \<Rightarrow> string result" where
  "response_line err chunks =
     (case read_response [] chunks of
        None \<Rightarrow> Inl (mk_error Ec_IoError (''recv: '' @ err))
      | Some resp \<Rightarrow>
          (let r = takeWhile (\<lambda>ch. ch \<noteq> nl) resp in
           if r = [] then Inl (mk_error Ec_IoError ''empty response'') else Inr r))"

section \<open>The gateway\<close>

record gateway =
  gw_streamer_id :: string
  gw_counter :: "64 word"

definition hex_digit :: "nat \<Rightarrow> char" where
  "hex_digit d = (if d < 10 then char_of (48 + d) else char_of (87 + d))"

text \<open>\<open>%04x\<close> of a 16-bit value.\<close>

definition hex4 :: "16 word \<Rightarrow> string" where
  "hex4 w = (let n = unat w in map hex_digit [n div 4096, n div 256 mod 16, n div 16 mod 16, n mod 16])"

text \<open>\<open>nextCommandId\<close>, given the clock in milliseconds and the random salt.\<close>

definition nextCommandId :: "gateway \<Rightarrow> int \<Rightarrow> 16 word \<Rightarrow> string \<Rightarrow> gateway \<times> string" where
  "nextCommandId g now_ms salt cmd =
     (g\<lparr>gw_counter := gw_counter g + 1\<rparr>,
      ''cmd-'' @ gw_streamer_id g @ ''-'' @ show_int now_ms @
        (''-'' @ show_nat (unat (gw_counter g)) @ ''-'' @ hex4 salt) @ ''-'' @ cmd)"

text \<open>\<open>dispatch\<close>: the gateway, the outcome, and what the observer is told. The mutex of the target only
  orders exchanges with the same speaker.\<close>

definition dispatch ::
  "json_lib \<Rightarrow> signer \<Rightarrow> (string \<Rightarrow> string result) \<Rightarrow> gateway \<Rightarrow> int \<Rightarrow> int \<Rightarrow> 16 word \<Rightarrow> string \<Rightarrow> string \<Rightarrow> json
    \<Rightarrow> int \<Rightarrow> bool \<Rightarrow> gateway \<times> command_reply result option \<times> (string \<times> status \<times> command_reply) option" where
  "dispatch J sign transport g now_ms now salt dev cmd pl ttl observe =
     (case nextCommandId g now_ms salt cmd of
        (g', cid) \<Rightarrow>
          (case client_send J sign transport cid dev cmd pl (now + ttl) now of
             None \<Rightarrow> (g', None, None)
           | Some r \<Rightarrow>
               (g', Some r,
                if observe
                then Some (dev, (case r of Inl st \<Rightarrow> st | Inr _ \<Rightarrow> success),
                           (case r of Inl _ \<Rightarrow> reply_empty | Inr p \<Rightarrow> p))
                else None)))"

section \<open>Both programs together\<close>

lemma toInt_range: "toInt c < 2147483648" "- 2147483648 \<le> toInt c"
  by (cases c; simp)+

lemma execute_reply_code:
  "execute x s c = (e, evs, Some r) \<Longrightarrow> - 2147483648 \<le> cr_error_code r \<and> cr_error_code r < 2147483648"
  by (auto simp: execute_def Let_def apply_setting_def refuse_def throw_def with_arg_def exec_report_link_def
        ok_result_def fail_result_def result_blank_def toInt_range
        split: if_splits option.splits prod.splits)

lemma build_fields:
  assumes "build J sign cid target cmd pl expires ts = Inr c"
  shows "command_id c = cid" "target_id c = target" "command_name c = cmd" "is_object (payload c)"
    "expires_at c = expires" "timestamp c = ts" "sign (canonicalString J c) = Inr (signature_b64 c)"
  using assms by (auto simp: build_def Let_def canonicalString_def split: sum.splits)

lemma reply_of_result:
  assumes "getters_exact J" "is_object (cr_data r)" "- (2 ^ 31) \<le> cr_error_code r" "cr_error_code r < 2 ^ 31"
  shows "reply_of_json J (result_toJson r) =
    Some \<lparr>cp_command_id = cr_command_id r, cp_ok = cr_ok r, cp_message = cr_message r,
          cp_error_code = cr_error_code r, cp_data = cr_data r\<rparr>"
  using assms by (simp add: reply_of_json_def result_toJson_def j_value_def)

text \<open>The speaker as the transport sees it: the reply line of the router, nothing when it throws.\<close>

definition speaker_line :: "router_env \<Rightarrow> router \<Rightarrow> string \<Rightarrow> string \<Rightarrow> string \<Rightarrow> string result" where
  "speaker_line x s dev key line =
     (case handle x s line dev key of
        (_, _, Some r) \<Rightarrow> Inr (jl_dump (re_json x) (result_toJson r))
      | (_, _, None) \<Rightarrow> Inl (mk_error Ec_IoError ''empty response''))"

text \<open>C8. A command reaches the speaker and its answer comes back: let the speaker hold the public key
  that belongs to the Streamer's secret key (every signature the Streamer makes verifies). Then
  every command that \<open>CommandSigner\<close> builds for this speaker, fresh and unexpired, passes the speaker's
  validation and is executed, and \<open>CommandClient::send\<close> returns exactly the identifier, verdict, message,
  error code and data of the result the executor produced.\<close>

theorem command_end_to_end:
  assumes "getters_exact (re_json x)"
    and signs: "\<And>m sig. sign m = Inr sig \<Longrightarrow>
      sig \<noteq> [] \<and> cl_verifyEd25519 (re_crypto x) (cl_toBase64 (re_crypto x) m) sig key"
    and built: "build (re_json x) sign cid dev cmd pl expires ts = Inr c"
    and wire: "jl_parse (re_json x) (jl_dump (re_json x) (toJson c)) = Some (toJson c)"
      "jl_parse (re_json x) (jl_dump (re_json x) (result_toJson r)) = Some (result_toJson r)"
    and "cid \<noteq> []" "cmd \<noteq> []" "key \<noteq> []"
    and "re_now x \<le> expires" "- (2 ^ 63) \<le> expires" "expires < 2 ^ 63" "- (2 ^ 63) \<le> ts" "ts < 2 ^ 63"
    and "tryGet (ro_history s) cid = None"
    and exec: "execute (re_exec x) (ro_exec s) c = (e, evs, Some r)" and "is_object (cr_data r)"
  shows "(\<exists>s'. handle x s (jl_dump (re_json x) (toJson c)) dev key = (s', evs, Some r) \<and> ro_exec s' = e) \<and>
    client_send (re_json x) sign (speaker_line x s dev key) cid dev cmd pl expires ts =
      Some (Inr \<lparr>cp_command_id = cid, cp_ok = cr_ok r, cp_message = cr_message r,
                 cp_error_code = cr_error_code r, cp_data = cr_data r\<rparr>)"
proof -
  note f = build_fields [OF built]
  have p: "parse_command (re_json x) (jl_dump (re_json x) (toJson c)) = Some c"
    using command_json_roundtrip [of "re_json x" c] assms f wire(1) by (simp add: parse_command_def)
  have v: "st_ok (validate_command (re_json x) (re_crypto x) c dev key (re_now x))"
    using f assms signs [OF f(7)] by (simp add: validate_command_ok_iff)
  have h: "\<exists>s'. handle x s (jl_dump (re_json x) (toJson c)) dev key = (s', evs, Some r) \<and> ro_exec s' = e"
    using p v f(1) assms(14) exec by (simp add: handle_def Let_def)
  have shape: "cr_command_id r = cid" "is_object (cr_data r)" "- (2 ^ 31) \<le> cr_error_code r" "cr_error_code r < 2 ^ 31"
    using execute_reply_id [of "re_exec x" "ro_exec s" c r] execute_reply_code [OF exec] exec f(1) assms(16) by simp_all
  have "speaker_line x s dev key (jl_dump (re_json x) (toJson c)) = Inr (jl_dump (re_json x) (result_toJson r))"
    using h by (auto simp: speaker_line_def)
  then have "client_send (re_json x) sign (speaker_line x s dev key) cid dev cmd pl expires ts =
      map_option Inr (reply_of_json (re_json x) (result_toJson r))"
    by (simp add: client_send_def built wire(2))
  with h shape reply_of_result [OF assms(1) shape(2-4)] show ?thesis by simp
qed

definition demo_wire :: "command \<Rightarrow> command_result \<Rightarrow> json_lib" where
  "demo_wire c r = (demo_lib ''m'' (toJson c))
     \<lparr>jl_parse := (\<lambda>t. if t = ''m'' then Some (toJson c) else if t = ''r'' then Some (result_toJson r) else None),
      jl_dump := (\<lambda>j. if j = toJson c then ''m'' else if j = result_toJson r then ''r'' else ''{}'')\<rparr>"

lemma demo_wire_exact: "getters_exact (demo_wire c r)"
  using demo_lib_getters_exact [of "''m''" "toJson c"] unfolding getters_exact_def by (simp add: demo_wire_def)

definition demo_sent :: command where
  "demo_sent = \<lparr>command_id = ''c1'', target_id = ''SPK'', command_name = ''REBOOT'', payload = JObj [],
     expires_at = 40, timestamp = 10, signature_b64 = ''sig''\<rparr>"

definition demo_accepted :: command_result where
  "demo_accepted = ok_result demo_sent (JObj [(''accepted'', JBool True)])"

definition demo_speaker :: router_env where
  "demo_speaker = \<lparr>re_exec = (demo_env [] JNull)\<lparr>xe_json := demo_wire demo_sent demo_accepted\<rparr>,
     re_crypto = demo_crypto, re_now = 10\<rparr>"

lemma demo_speaker_json: "re_json demo_speaker = demo_wire demo_sent demo_accepted"
  by (simp add: demo_speaker_def)

lemma demo_wire_lines:
  "jl_parse (demo_wire c r) (jl_dump (demo_wire c r) (toJson c)) = Some (toJson c)"
  "jl_parse (demo_wire c r) (jl_dump (demo_wire c r) (result_toJson r)) = Some (result_toJson r)"
  by (simp_all add: demo_wire_def toJson_def result_toJson_def)

lemma demo_execute:
  "execute (re_exec demo_speaker) demo_exec demo_sent =
     (demo_exec, [received_event demo_sent, executed_event demo_sent [], mk_event Ev_ShutdownRequested ''control''],
      Some demo_accepted)"
  by (simp add: execute_def Let_def demo_sent_def demo_accepted_def lifecycle_commands_def deferred_commands_def)

theorem command_end_to_end_witness:
  "client_send (demo_wire demo_sent demo_accepted) (\<lambda>m. Inr ''sig'') (speaker_line demo_speaker demo_router ''SPK'' ''key'')
     ''c1'' ''SPK'' ''REBOOT'' (JObj []) 40 10 =
   Some (Inr \<lparr>cp_command_id = ''c1'', cp_ok = True, cp_message = ''ok'', cp_error_code = 0,
              cp_data = JObj [(''accepted'', JBool True)]\<rparr>)"
proof -
  have b: "build (re_json demo_speaker) (\<lambda>m. Inr ''sig'') ''c1'' ''SPK'' ''REBOOT'' (JObj []) 40 10 = Inr demo_sent"
    by (simp add: build_def demo_sent_def)
  have e: "execute (re_exec demo_speaker) (ro_exec demo_router) demo_sent =
     (demo_exec, [received_event demo_sent, executed_event demo_sent [], mk_event Ev_ShutdownRequested ''control''],
      Some demo_accepted)"
    using demo_execute by (simp add: demo_router_def)
  have "client_send (re_json demo_speaker) (\<lambda>m. Inr ''sig'') (speaker_line demo_speaker demo_router ''SPK'' ''key'')
     ''c1'' ''SPK'' ''REBOOT'' (JObj []) 40 10 =
   Some (Inr \<lparr>cp_command_id = ''c1'', cp_ok = cr_ok demo_accepted, cp_message = cr_message demo_accepted,
              cp_error_code = cr_error_code demo_accepted, cp_data = cr_data demo_accepted\<rparr>)"
    by (rule conjunct2, rule command_end_to_end [OF _ _ b _ _ _ _ _ _ _ _ _ _ _ e])
      (simp_all add: demo_speaker_json demo_wire_exact demo_wire_lines,
       simp_all add: demo_speaker_def demo_crypto_def demo_accepted_def ok_result_def)
  then show ?thesis by (simp add: demo_speaker_json demo_accepted_def ok_result_def result_blank_def)
qed

section \<open>Unique identifiers\<close>

text \<open>Two different counter values never give the same identifier, whatever the clock (after 1970),
  the salts and the commands are: the decimal fields end at a dash, so the identifier can be read
  back.\<close>

lemma digits_prefix_eq:
  assumes "CHR ''-'' \<notin> set a" "CHR ''-'' \<notin> set b" "a @ CHR ''-'' # r = b @ CHR ''-'' # s"
  shows "a = b \<and> r = s"
proof -
  have "takeWhile (\<lambda>c. c \<noteq> CHR ''-'') (a @ CHR ''-'' # r) = a" using assms(1) by (induction a) auto
  moreover have "takeWhile (\<lambda>c. c \<noteq> CHR ''-'') (b @ CHR ''-'' # s) = b" using assms(2) by (induction b) auto
  ultimately show ?thesis using assms(3) by auto
qed

lemma command_id_counter:
  assumes "snd (nextCommandId g ms salt cmd) = snd (nextCommandId g' ms' salt' cmd')"
    and "gw_streamer_id g = gw_streamer_id g'" "0 \<le> ms" "0 \<le> ms'"
  shows "gw_counter g = gw_counter g'"
proof -
  let ?r = "show_nat (unat (gw_counter g)) @ CHR ''-'' # hex4 salt @ CHR ''-'' # cmd"
  let ?r' = "show_nat (unat (gw_counter g')) @ CHR ''-'' # hex4 salt' @ CHR ''-'' # cmd'"
  have "show_int ms @ CHR ''-'' # ?r = show_int ms' @ CHR ''-'' # ?r'"
    using assms(1,2) by (simp add: nextCommandId_def)
  then have "?r = ?r'"
    using digits_prefix_eq [of "show_int ms" "show_int ms'"] assms(3,4) minus_notin_show_nat
    by (simp add: show_int_def)
  then have "show_nat (unat (gw_counter g)) = show_nat (unat (gw_counter g'))"
    using digits_prefix_eq minus_notin_show_nat by blast
  then show ?thesis by (simp add: show_nat_inj unsigned_word_eqI)
qed

fun issue :: "gateway \<Rightarrow> (int \<times> 16 word \<times> string) list \<Rightarrow> string list" where
  "issue g [] = []"
| "issue g ((ms, salt, cmd) # xs) = snd (nextCommandId g ms salt cmd) # issue (fst (nextCommandId g ms salt cmd)) xs"

lemma issue_nth:
  "i < length xs \<Longrightarrow> issue g xs ! i =
     snd (nextCommandId (g\<lparr>gw_counter := gw_counter g + of_nat i\<rparr>) (fst (xs ! i)) (fst (snd (xs ! i))) (snd (snd (xs ! i))))"
proof (induction g xs arbitrary: i rule: issue.induct)
  case (2 g ms salt cmd xs)
  then show ?case by (cases i) (simp_all add: nextCommandId_def add_ac)
qed simp

lemma length_issue [simp]: "length (issue g xs) = length xs"
  by (induction g xs rule: issue.induct) simp_all

text \<open>The identifiers a gateway issues are pairwise different: in every sequence of fewer than
  \<open>2 ^ 64\<close> commands, whatever the clock (not before 1970, and it may stand still or jump back), the
  salts and the command names are, no identifier occurs twice. With the speaker's history, which
  answers a known identifier without executing, this is what makes every command take effect.\<close>

theorem command_ids_unique:
  assumes "length xs \<le> 2 ^ 64" "list_all (\<lambda>(ms, salt, cmd). 0 \<le> ms) xs"
  shows "distinct (issue g xs)"
proof -
  have ne: "issue g xs ! i \<noteq> issue g xs ! j" if "i < j" "j < length xs" for i j
  proof
    assume e: "issue g xs ! i = issue g xs ! j"
    have ms: "0 \<le> fst (xs ! i)" "0 \<le> fst (xs ! j)"
      using assms(2) that by (auto simp: list_all_length case_prod_beta)
    have "(of_nat i :: 64 word) = of_nat j"
      using command_id_counter [OF e [unfolded issue_nth [OF less_trans [OF that]] issue_nth [OF that(2)]]] ms by simp
    then have "unat (of_nat i :: 64 word) = unat (of_nat j :: 64 word)" by simp
    then show False using that assms(1) by (simp add: unsigned_of_nat take_bit_nat_eq_self)
  qed
  then show ?thesis by (auto simp: distinct_conv_nth) (metis linorder_neqE_nat)
qed

theorem command_ids_unique_witness:
  "distinct (issue \<lparr>gw_streamer_id = ''STR-1'', gw_counter = - 1\<rparr> [(7, 0, ''SET_VOLUME''), (7, 0, ''SET_VOLUME'')])"
  by (rule command_ids_unique) simp_all

section \<open>An answer that throws\<close>

text \<open>\<open>CommandGateway::send\<close> is documented never to throw; a reply line that is a JSON array is enough.\<close>

lemma gateway_can_throw:
  assumes "sign (canonicalString J \<lparr>command_id = cid, target_id = dev, command_name = cmd, payload = JObj [],
      expires_at = now + ttl, timestamp = now, signature_b64 = []\<rparr>) = Inr sig"
    and "snd (nextCommandId g ms salt cmd) = cid" "\<And>l. transport l = Inr ''[]''" "jl_parse J ''[]'' = Some (JArr [])"
  shows "fst (snd (dispatch J sign transport g ms now salt dev cmd (JObj []) ttl True)) = None"
  using assms
  by (auto simp: dispatch_def client_send_def build_def Let_def reply_of_json_def j_value_def split: prod.splits)

end
