(* ===== verification/Speaker_Store.thy ===== *)
theory Speaker_Store
  imports Streamer_Control
begin

text \<open>
  What the Streamer knows of its speakers: the registry of addresses (\<open>group/SpeakerRegistry.h\<close>), the
  store of confirmed states (\<open>state/SpeakerState.h\<close>, \<open>SpeakerStateStore.h\<close>), the observer that
  \<open>StreamerApp\<close> installs on the gateway, and the poll of \<open>MonitorService\<close>. Both containers meet the same
  contract, the locale \<open>keyed_store\<close>. The main results: the store holds what the speaker last reported
  and nothing else, and reachability is decided by the number of consecutive failures alone.
\<close>

section \<open>The contract of a keyed container\<close>

locale keyed_store =
  fixes look :: "'s \<Rightarrow> string \<Rightarrow> 'v option"
    and put :: "'s \<Rightarrow> string \<Rightarrow> 'v \<Rightarrow> 's"
    and del :: "'s \<Rightarrow> string \<Rightarrow> 's"
    and inv :: "'s \<Rightarrow> bool"
    and fits :: "string \<Rightarrow> 'v \<Rightarrow> bool"
  assumes look_put: "inv s \<Longrightarrow> fits k v \<Longrightarrow> look (put s k v) k' = (if k' = k then Some v else look s k')"
    and look_del: "inv s \<Longrightarrow> look (del s k) k' = (if k' = k then None else look s k')"
    and inv_put: "inv s \<Longrightarrow> fits k v \<Longrightarrow> inv (put s k v)"
    and inv_del: "inv s \<Longrightarrow> inv (del s k)"
begin

lemma put_put: "inv s \<Longrightarrow> fits k v \<Longrightarrow> fits k w \<Longrightarrow> look (put (put s k v) k w) = look (put s k w)"
  by (auto simp: fun_eq_iff look_put inv_put)

lemma del_put: "inv s \<Longrightarrow> fits k v \<Longrightarrow> look (del (put s k v) k) = look (del s k)"
  by (auto simp: fun_eq_iff look_put look_del inv_put)

lemma put_commute:
  "inv s \<Longrightarrow> fits j v \<Longrightarrow> fits k w \<Longrightarrow> j \<noteq> k \<Longrightarrow> look (put (put s j v) k w) = look (put (put s k w) j v)"
  by (auto simp: fun_eq_iff look_put inv_put)

end

section \<open>The registry\<close>

record speaker =
  sp_device_id :: string
  sp_name :: string
  sp_host :: string
  sp_control_port :: int

type_synonym registry = "speaker list"

fun upsert :: "registry \<Rightarrow> speaker \<Rightarrow> registry \<times> bool" where
  "upsert [] s = ([s], True)"
| "upsert (e # es) s =
     (if sp_device_id e = sp_device_id s then (s # es, False)
      else (case upsert es s of (es', added) \<Rightarrow> (e # es', added)))"

fun remove_speaker :: "registry \<Rightarrow> string \<Rightarrow> registry \<times> bool" where
  "remove_speaker [] d = ([], False)"
| "remove_speaker (e # es) d =
     (if sp_device_id e = d then (es, True)
      else (case remove_speaker es d of (es', gone) \<Rightarrow> (e # es', gone)))"

fun get_speaker :: "registry \<Rightarrow> string \<Rightarrow> speaker option" where
  "get_speaker [] d = None"
| "get_speaker (e # es) d = (if sp_device_id e = d then Some e else get_speaker es d)"

definition registry_inv :: "registry \<Rightarrow> bool" where
  "registry_inv r \<longleftrightarrow> distinct (map sp_device_id r)"

lemma get_speaker_None: "get_speaker r d = None \<longleftrightarrow> d \<notin> sp_device_id ` set r"
  by (induction r) auto

lemma upsert_get:
  "get_speaker (fst (upsert r s)) d = (if d = sp_device_id s then Some s else get_speaker r d)"
  by (induction r) (auto split: prod.splits)

lemma upsert_ids: "sp_device_id ` set (fst (upsert r s)) = insert (sp_device_id s) (sp_device_id ` set r)"
  by (induction r) (auto split: prod.splits)

lemma upsert_inv: "registry_inv r \<Longrightarrow> registry_inv (fst (upsert r s))"
proof (induction r)
  case (Cons e es)
  then have "registry_inv (fst (upsert es s))" by (simp add: registry_inv_def)
  with Cons.prems show ?case
    using upsert_ids [of es s] by (auto simp: registry_inv_def split: prod.splits)
qed (simp add: registry_inv_def)

lemma upsert_added: "snd (upsert r s) \<longleftrightarrow> get_speaker r (sp_device_id s) = None"
  by (induction r) (auto split: prod.splits)

lemma remove_get: "registry_inv r \<Longrightarrow> get_speaker (fst (remove_speaker r d)) k = (if k = d then None else get_speaker r k)"
  by (induction r) (auto simp: registry_inv_def get_speaker_None split: prod.splits)

lemma remove_subset: "set (fst (remove_speaker r d)) \<subseteq> set r"
  by (induction r) (auto split: prod.splits)

lemma remove_inv: "registry_inv r \<Longrightarrow> registry_inv (fst (remove_speaker r d))"
proof (induction r)
  case (Cons e es)
  then have "registry_inv (fst (remove_speaker es d))" by (simp add: registry_inv_def)
  with Cons.prems show ?case
    using remove_subset [of es d] by (fastforce simp: registry_inv_def split: prod.splits)
qed (simp add: registry_inv_def)

lemma remove_result: "snd (remove_speaker r d) \<longleftrightarrow> get_speaker r d \<noteq> None"
  by (induction r) (auto split: prod.splits)

interpretation reg: keyed_store get_speaker "\<lambda>r k v. fst (upsert r v)" "\<lambda>r k. fst (remove_speaker r k)" registry_inv
  "\<lambda>k v. sp_device_id v = k"
  by unfold_locales (auto simp: upsert_get remove_get upsert_inv remove_inv)

section \<open>Confirmed state\<close>

record confirmed_state =
  cs_volume :: int
  cs_muted :: bool
  cs_delay_ms :: int
  cs_eq_profile :: string
  cs_gain_db :: real
  cs_phase_invert :: bool
  cs_paired :: bool
  cs_telemetry :: json
  cs_has_link :: bool
  cs_wifi_signal_dbm :: int
  cs_link_age_s :: int
  cs_confirmed_at :: int

text \<open>The counter of consecutive failures is an \<open>int\<close> in the program; at one poll every few seconds it does not get near \<open>2 ^ 31\<close>, and no bound is
  written out here.\<close>

record speaker_state =
  ss_device_id :: string
  ss_confirmed :: confirmed_state
  ss_online :: bool
  ss_failures :: int
  ss_last_error :: string

definition confirmed_new :: confirmed_state where
  "confirmed_new = \<lparr>cs_volume = 0, cs_muted = False, cs_delay_ms = 0, cs_eq_profile = [], cs_gain_db = 0,
     cs_phase_invert = False, cs_paired = False, cs_telemetry = JObj [], cs_has_link = False,
     cs_wifi_signal_dbm = 0, cs_link_age_s = - 1, cs_confirmed_at = 0\<rparr>"

definition state_new :: speaker_state where
  "state_new = \<lparr>ss_device_id = [], ss_confirmed = confirmed_new, ss_online = False, ss_failures = 0, ss_last_error = []\<rparr>"

definition everConfirmed :: "confirmed_state \<Rightarrow> bool" where
  "everConfirmed c \<longleftrightarrow> cs_confirmed_at c \<noteq> 0"

type_synonym store = "string \<Rightarrow> speaker_state option"

text \<open>\<open>states_[device_id]\<close> inserts a fresh entry when there is none.\<close>

definition entry :: "store \<Rightarrow> string \<Rightarrow> speaker_state" where
  "entry st d = (case st d of None \<Rightarrow> state_new | Some s \<Rightarrow> s)"

fun is_string :: "json \<Rightarrow> bool" where
  "is_string (JStr _) = True"
| "is_string _ = False"

text \<open>One member of a reply: when the key is there and has the tested kind, its value is read (a
  conversion after the test of the kind does not throw) and handed on.\<close>

definition member :: "(json \<Rightarrow> bool) \<Rightarrow> (json \<Rightarrow> 'a option) \<Rightarrow> json \<Rightarrow> string \<Rightarrow> 'a option" where
  "member kind conv data k =
     (case j_find data k of Some v \<Rightarrow> if kind v then conv v else None | None \<Rightarrow> None)"

type_synonym progress = "confirmed_state \<times> bool \<times> (string \<times> json) list"

text \<open>A field that is copied, and one whose change is also announced.\<close>

definition copy_field :: "'a option \<Rightarrow> ('a \<Rightarrow> confirmed_state \<Rightarrow> confirmed_state) \<Rightarrow> progress \<Rightarrow> progress" where
  "copy_field v set_it p =
     (case (v, p) of (None, _) \<Rightarrow> p | (Some a, (c, touched, ch)) \<Rightarrow> (set_it a c, True, ch))"

definition track_field ::
  "'a option \<Rightarrow> ('a \<Rightarrow> confirmed_state \<Rightarrow> confirmed_state) \<Rightarrow> (confirmed_state \<Rightarrow> 'a) \<Rightarrow> string \<Rightarrow> ('a \<Rightarrow> json)
    \<Rightarrow> progress \<Rightarrow> progress" where
  "track_field v set_it get_it k to_j p =
     (case (v, p) of
        (None, _) \<Rightarrow> p
      | (Some a, (c, touched, ch)) \<Rightarrow>
          (set_it a c, True, if \<not> everConfirmed c \<or> get_it c \<noteq> a then ch @ [(k, to_j a)] else ch))"

definition link_fields :: "json_lib \<Rightarrow> json \<Rightarrow> (int \<times> int) option" where
  "link_fields J data =
     (case member is_number_integer (jl_get_int J) data ''wifi_signal_dbm'' of
        None \<Rightarrow> None
      | Some dbm \<Rightarrow>
          Some (dbm, (case member is_number_integer (jl_get_int64 J) data ''link_age_s'' of None \<Rightarrow> - 1 | Some a \<Rightarrow> a)))"

definition read_fields :: "json_lib \<Rightarrow> json \<Rightarrow> confirmed_state \<Rightarrow> progress" where
  "read_fields J data c =
     (if \<not> is_object data then (c, False, [])
      else
        (copy_field (link_fields J data)
           (\<lambda>(dbm, age) c. c\<lparr>cs_has_link := True, cs_wifi_signal_dbm := dbm, cs_link_age_s := age\<rparr>)
        (copy_field (member is_object Some data ''telemetry'') (\<lambda>v c. c\<lparr>cs_telemetry := v\<rparr>)
        (copy_field (member is_boolean (jl_get_bool J) data ''paired'') (\<lambda>v c. c\<lparr>cs_paired := v\<rparr>)
        (track_field (member is_boolean (jl_get_bool J) data ''phase_invert'')
           (\<lambda>v c. c\<lparr>cs_phase_invert := v\<rparr>) cs_phase_invert ''phase_invert'' JBool
        (track_field (member is_number (jl_get_double J) data ''gain_db'')
           (\<lambda>v c. c\<lparr>cs_gain_db := v\<rparr>) cs_gain_db ''gain_db'' JReal
        (copy_field (member is_string (jl_get_string J) data ''eq_profile'') (\<lambda>v c. c\<lparr>cs_eq_profile := v\<rparr>)
        (copy_field (member is_number_integer (jl_get_int J) data ''delay_ms'') (\<lambda>v c. c\<lparr>cs_delay_ms := v\<rparr>)
        (track_field (member is_boolean (jl_get_bool J) data ''muted'')
           (\<lambda>v c. c\<lparr>cs_muted := v\<rparr>) cs_muted ''muted'' JBool
        (track_field (member is_number_integer (jl_get_int J) data ''volume'')
           (\<lambda>v c. c\<lparr>cs_volume := v\<rparr>) cs_volume ''volume'' JInt
         (c, False, [])))))))))))"

text \<open>Streamer events ride on one event type, with their name as the source (\<open>core/StreamerEvents.h\<close>).\<close>

definition streamer_event :: "string \<Rightarrow> (string \<times> json) list \<Rightarrow> event" where
  "streamer_event nm kvs = mk_event_data Ev_StateChanged nm kvs"

definition applyConfirmedStatus :: "json_lib \<Rightarrow> int \<Rightarrow> store \<Rightarrow> string \<Rightarrow> json \<Rightarrow> store \<times> event list" where
  "applyConfirmedStatus J now st d data =
     (let s = entry st d in
      case read_fields J data (ss_confirmed s) of (c, touched, changed) \<Rightarrow>
        (st(d \<mapsto> s\<lparr>ss_device_id := d, ss_confirmed := (if touched then c\<lparr>cs_confirmed_at := now\<rparr> else c),
                     ss_online := True, ss_failures := 0, ss_last_error := []\<rparr>),
         (if ss_online s then [] else [streamer_event ''speaker.online'' [(''device_id'', JStr d)]]) @
         (if changed = [] then [] else [streamer_event ''speaker.state'' (changed @ [(''device_id'', JStr d)])])))"

definition applyPollFailure :: "int \<Rightarrow> store \<Rightarrow> string \<Rightarrow> string \<Rightarrow> store \<times> event list" where
  "applyPollFailure threshold st d why =
     (let s = entry st d; n = ss_failures s + 1; drops = ss_online s \<and> n \<ge> threshold in
      (st(d \<mapsto> s\<lparr>ss_device_id := d, ss_last_error := why, ss_failures := n, ss_online := ss_online s \<and> \<not> drops\<rparr>),
       if drops then [streamer_event ''speaker.offline'' [(''device_id'', JStr d), (''why'', JStr why)]] else []))"

definition noteRejected :: "store \<Rightarrow> string \<Rightarrow> string \<Rightarrow> store" where
  "noteRejected st d message =
     st(d \<mapsto> (entry st d)\<lparr>ss_device_id := d, ss_last_error := message, ss_online := True, ss_failures := 0\<rparr>)"

definition forget :: "store \<Rightarrow> string \<Rightarrow> store" where
  "forget st d = st(d := None)"

interpretation states: keyed_store "\<lambda>st. st" "\<lambda>st d s. st(d \<mapsto> s)" forget "\<lambda>_. True" "\<lambda>_ _. True"
  by unfold_locales (auto simp: forget_def)

section \<open>The observer and the poll\<close>

text \<open>The observer \<open>StreamerApp\<close> installs on the gateway.\<close>

type_synonym observation = "string \<times> status \<times> command_reply"

definition observe :: "json_lib \<Rightarrow> int \<Rightarrow> int \<Rightarrow> store \<Rightarrow> observation \<Rightarrow> store \<times> event list" where
  "observe J threshold now st ob =
     (case ob of (d, status, reply) \<Rightarrow>
        if \<not> st_ok status then applyPollFailure threshold st d (st_message status)
        else if cp_ok reply then applyConfirmedStatus J now st d (cp_data reply)
        else (noteRejected st d (cp_message reply), []))"

text \<open>\<open>MonitorService::pollOnce\<close>: the exchange with each registered speaker, in the order of the
  registry; the answers are those the gateway reports to the observer, None when it throws, which ends the sweep.\<close>

fun poll_sweep ::
  "json_lib \<Rightarrow> int \<Rightarrow> int \<Rightarrow> (speaker \<Rightarrow> (status \<times> command_reply) option) \<Rightarrow> store \<Rightarrow> registry \<Rightarrow> store \<times> event list" where
  "poll_sweep J threshold now ask st [] = (st, [])"
| "poll_sweep J threshold now ask st (sp # sps) =
     (case ask sp of
        None \<Rightarrow> (st, [])
      | Some (status, reply) \<Rightarrow>
          (case observe J threshold now st (sp_device_id sp, status, reply) of (st1, ev1) \<Rightarrow>
             (case poll_sweep J threshold now ask st1 sps of (st2, ev2) \<Rightarrow> (st2, ev1 @ ev2))))"

section \<open>What a reply changes\<close>

lemma copy_field_other:
  "(\<And>a c. sel (f a c) = sel c) \<Longrightarrow> sel (fst (copy_field v f p)) = sel (fst p)"
  by (cases p; cases v) (simp_all add: copy_field_def)

lemma copy_field_this:
  "(\<And>a c. sel (f a c) = a) \<Longrightarrow> sel (fst (copy_field v f p)) = (case v of None \<Rightarrow> sel (fst p) | Some a \<Rightarrow> a)"
  by (cases p; cases v) (simp_all add: copy_field_def)

lemma track_field_other:
  "(\<And>a c. sel (f a c) = sel c) \<Longrightarrow> sel (fst (track_field v f g k j p)) = sel (fst p)"
  by (cases p; cases v) (simp_all add: track_field_def)

lemma track_field_this:
  "(\<And>a c. sel (f a c) = a) \<Longrightarrow> sel (fst (track_field v f g k j p)) = (case v of None \<Rightarrow> sel (fst p) | Some a \<Rightarrow> a)"
  by (cases p; cases v) (simp_all add: track_field_def)

lemmas field_simps = copy_field_other copy_field_this track_field_other track_field_this

text \<open>The value a reply gives a field, the old one when the reply does not mention it.\<close>

definition reported :: "(json \<Rightarrow> bool) \<Rightarrow> (json \<Rightarrow> 'a option) \<Rightarrow> string \<Rightarrow> json \<Rightarrow> 'a \<Rightarrow> 'a" where
  "reported kind conv k data old =
     (if is_object data then (case member kind conv data k of None \<Rightarrow> old | Some a \<Rightarrow> a) else old)"

lemma read_volume:
  "cs_volume (fst (read_fields J data c)) = reported is_number_integer (jl_get_int J) ''volume'' data (cs_volume c)"
  by (simp add: read_fields_def reported_def field_simps [where sel = cs_volume] case_prod_beta split: option.split)

lemma read_muted:
  "cs_muted (fst (read_fields J data c)) = reported is_boolean (jl_get_bool J) ''muted'' data (cs_muted c)"
  by (simp add: read_fields_def reported_def field_simps [where sel = cs_muted] case_prod_beta split: option.split)

lemma read_delay:
  "cs_delay_ms (fst (read_fields J data c)) = reported is_number_integer (jl_get_int J) ''delay_ms'' data (cs_delay_ms c)"
  by (simp add: read_fields_def reported_def field_simps [where sel = cs_delay_ms] case_prod_beta split: option.split)

lemma read_eq:
  "cs_eq_profile (fst (read_fields J data c)) = reported is_string (jl_get_string J) ''eq_profile'' data (cs_eq_profile c)"
  by (simp add: read_fields_def reported_def field_simps [where sel = cs_eq_profile] case_prod_beta split: option.split)

lemma read_gain:
  "cs_gain_db (fst (read_fields J data c)) = reported is_number (jl_get_double J) ''gain_db'' data (cs_gain_db c)"
  by (simp add: read_fields_def reported_def field_simps [where sel = cs_gain_db] case_prod_beta split: option.split)

lemma read_phase:
  "cs_phase_invert (fst (read_fields J data c)) = reported is_boolean (jl_get_bool J) ''phase_invert'' data (cs_phase_invert c)"
  by (simp add: read_fields_def reported_def field_simps [where sel = cs_phase_invert] case_prod_beta split: option.split)

lemma read_paired:
  "cs_paired (fst (read_fields J data c)) = reported is_boolean (jl_get_bool J) ''paired'' data (cs_paired c)"
  by (simp add: read_fields_def reported_def field_simps [where sel = cs_paired] case_prod_beta split: option.split)

lemmas read_simps = read_volume read_muted read_delay read_eq read_gain read_phase read_paired

section \<open>Runs of observations\<close>

type_synonym timed = "int \<times> observation"

definition store_run :: "json_lib \<Rightarrow> int \<Rightarrow> store \<Rightarrow> timed list \<Rightarrow> store" where
  "store_run J threshold st obs = foldl (\<lambda>st (now, ob). fst (observe J threshold now st ob)) st obs"

lemma store_run_snoc [simp]:
  "store_run J thr st (obs @ [(now, ob)]) = fst (observe J thr now (store_run J thr st obs) ob)"
  "store_run J thr st [] = st"
  by (simp_all add: store_run_def)

definition confirms :: "string \<Rightarrow> observation \<Rightarrow> bool" where
  "confirms d ob \<longleftrightarrow> fst ob = d \<and> st_ok (fst (snd ob)) \<and> cp_ok (snd (snd ob))"

text \<open>The reference: the value in the last reply of the device that has the field.\<close>

definition last_reported ::
  "(json \<Rightarrow> bool) \<Rightarrow> (json \<Rightarrow> 'a option) \<Rightarrow> string \<Rightarrow> string \<Rightarrow> 'a \<Rightarrow> timed list \<Rightarrow> 'a" where
  "last_reported kind conv k d dflt obs =
     foldl (\<lambda>old (now, ob). if confirms d ob then reported kind conv k (cp_data (snd (snd ob))) old else old) dflt obs"

lemma last_reported_snoc [simp]:
  "last_reported kind conv k d v (obs @ [(now, ob)]) =
     (if confirms d ob then reported kind conv k (cp_data (snd (snd ob))) (last_reported kind conv k d v obs)
      else last_reported kind conv k d v obs)"
  "last_reported kind conv k d v [] = v"
  by (simp_all add: last_reported_def)

lemma observe_cases:
  obtains (fail) "\<not> st_ok status" "observe J thr now st (d, status, reply) = applyPollFailure thr st d (st_message status)"
  | (confirm) "st_ok status" "cp_ok reply" "observe J thr now st (d, status, reply) = applyConfirmedStatus J now st d (cp_data reply)"
  | (reject) "st_ok status" "\<not> cp_ok reply" "observe J thr now st (d, status, reply) = (noteRejected st d (cp_message reply), [])"
  by (cases "st_ok status"; cases "cp_ok reply") (simp_all add: observe_def)

lemma entry_upd [simp]: "entry (st(d \<mapsto> s)) k = (if k = d then s else entry st k)"
  by (simp add: entry_def)

text \<open>How one observation changes the confirmed values: by the reply's fields when it confirms, not at
  all otherwise; the time stamp apart.\<close>

lemma observe_confirmed:
  "\<exists>ts. ss_confirmed (entry (fst (observe J thr now st ob)) d) =
     (if confirms d ob then fst (read_fields J (cp_data (snd (snd ob))) (ss_confirmed (entry st d)))
      else ss_confirmed (entry st d))\<lparr>cs_confirmed_at := ts\<rparr>"
proof -
  obtain d' status reply where ob: "ob = (d', status, reply)" by (rule prod_cases3)
  show ?thesis
  proof (cases rule: observe_cases [of status J thr now st d' reply])
    case fail
    then show ?thesis
      by (intro exI [of _ "cs_confirmed_at (ss_confirmed (entry st d))"])
        (simp add: applyPollFailure_def Let_def confirms_def ob)
  next
    case confirm
    obtain c touched ch where r: "read_fields J (cp_data reply) (ss_confirmed (entry st d')) = (c, touched, ch)"
      by (rule prod_cases3)
    show ?thesis
    proof (cases "d' = d")
      case True
      then show ?thesis using confirm r
        by (intro exI [of _ "if touched then now else cs_confirmed_at c"])
          (simp add: applyConfirmedStatus_def Let_def confirms_def ob)
    next
      case False
      then show ?thesis using confirm r
        by (intro exI [of _ "cs_confirmed_at (ss_confirmed (entry st d))"])
          (simp add: applyConfirmedStatus_def Let_def confirms_def ob)
    qed
  next
    case reject
    then show ?thesis
      by (intro exI [of _ "cs_confirmed_at (ss_confirmed (entry st d))"])
        (simp add: noteRejected_def confirms_def ob)
  qed
qed

lemma observe_field:
  assumes "\<And>c ts. sel (c\<lparr>cs_confirmed_at := ts\<rparr>) = sel c"
    and "\<And>data c. sel (fst (read_fields J data c)) = reported kind conv k data (sel c)"
  shows "sel (ss_confirmed (entry (store_run J thr Map.empty obs) d)) = last_reported kind conv k d (sel confirmed_new) obs"
proof (induction obs rule: rev_induct)
  case Nil
  then show ?case by (simp add: entry_def state_new_def)
next
  case (snoc x obs)
  obtain now ob where x: "x = (now, ob)" by (rule prod.exhaust)
  obtain ts where "ss_confirmed (entry (fst (observe J thr now (store_run J thr Map.empty obs) ob)) d) =
     (if confirms d ob then fst (read_fields J (cp_data (snd (snd ob))) (ss_confirmed (entry (store_run J thr Map.empty obs) d)))
      else ss_confirmed (entry (store_run J thr Map.empty obs) d))\<lparr>cs_confirmed_at := ts\<rparr>"
    using observe_confirmed by blast
  then show ?case using snoc assms by (simp add: x)
qed

text \<open>C19. The store shows what the speaker said: after any sequence of exchanges with any speakers, each
  setting the store holds for a device is the one in the last successful reply of that device that
  contained it (the default when there is none). No failed or refused exchange and no exchange with
  another device changes it.\<close>

theorem store_mirrors_replies:
  "let c = ss_confirmed (entry (store_run J thr Map.empty obs) d) in
     cs_volume c = last_reported is_number_integer (jl_get_int J) ''volume'' d 0 obs \<and>
     cs_muted c = last_reported is_boolean (jl_get_bool J) ''muted'' d False obs \<and>
     cs_delay_ms c = last_reported is_number_integer (jl_get_int J) ''delay_ms'' d 0 obs \<and>
     cs_eq_profile c = last_reported is_string (jl_get_string J) ''eq_profile'' d [] obs \<and>
     cs_gain_db c = last_reported is_number (jl_get_double J) ''gain_db'' d 0 obs \<and>
     cs_phase_invert c = last_reported is_boolean (jl_get_bool J) ''phase_invert'' d False obs \<and>
     cs_paired c = last_reported is_boolean (jl_get_bool J) ''paired'' d False obs"
  unfolding Let_def
  using observe_field [of cs_volume, OF _ read_volume] observe_field [of cs_muted, OF _ read_muted]
    observe_field [of cs_delay_ms, OF _ read_delay] observe_field [of cs_eq_profile, OF _ read_eq]
    observe_field [of cs_gain_db, OF _ read_gain] observe_field [of cs_phase_invert, OF _ read_phase]
    observe_field [of cs_paired, OF _ read_paired]
  by (simp add: confirmed_new_def)

section \<open>Reachability\<close>

definition failed :: "observation \<Rightarrow> bool" where
  "failed ob \<longleftrightarrow> \<not> st_ok (fst (snd ob))"

text \<open>The exchanges with one device, the newest first.\<close>

definition history_of :: "string \<Rightarrow> timed list \<Rightarrow> observation list" where
  "history_of d obs = rev (filter (\<lambda>ob. fst ob = d) (map snd obs))"

definition recent_failures :: "string \<Rightarrow> timed list \<Rightarrow> nat" where
  "recent_failures d obs = length (takeWhile failed (history_of d obs))"

definition answered :: "string \<Rightarrow> timed list \<Rightarrow> bool" where
  "answered d obs \<longleftrightarrow> list_ex (\<lambda>ob. \<not> failed ob) (history_of d obs)"

lemma history_snoc [simp]:
  "history_of d (obs @ [(now, ob)]) = (if fst ob = d then ob # history_of d obs else history_of d obs)"
  by (simp add: history_of_def)

lemma observe_reach:
  assumes "observe J thr now st ob = (st', evs)"
  shows "fst ob \<noteq> d \<Longrightarrow> entry st' d = entry st d"
    and "fst ob = d \<Longrightarrow> failed ob \<Longrightarrow> ss_failures (entry st' d) = ss_failures (entry st d) + 1 \<and>
      (ss_online (entry st' d) \<longleftrightarrow> ss_online (entry st d) \<and> ss_failures (entry st d) + 1 < thr)"
    and "fst ob = d \<Longrightarrow> \<not> failed ob \<Longrightarrow> ss_failures (entry st' d) = 0 \<and> ss_online (entry st' d)"
  using assms
  by (cases ob; auto simp: observe_def failed_def applyPollFailure_def applyConfirmedStatus_def noteRejected_def Let_def
      split: if_splits prod.splits)+

text \<open>C20. Reachability is decided by consecutive failures alone: after any sequence of exchanges a device
  counts as online exactly when it has answered at least once (a refusal is an answer) and fewer than
  the threshold of its exchanges have failed since its last answer (a threshold below one acts as
  one); the stored counter is that number of failures.\<close>

theorem reachability_exact:
  "(ss_online (entry (store_run J thr Map.empty obs) d) \<longleftrightarrow>
     answered d obs \<and> int (recent_failures d obs) < max 1 thr) \<and>
   ss_failures (entry (store_run J thr Map.empty obs) d) = int (recent_failures d obs)"
proof (induction obs rule: rev_induct)
  case Nil
  show ?case
    by (simp add: entry_def state_new_def answered_def recent_failures_def history_of_def)
next
  case (snoc x obs)
  obtain now ob where x: "x = (now, ob)" by (rule prod.exhaust)
  let ?st = "store_run J thr Map.empty obs"
  obtain st' evs where o: "observe J thr now ?st ob = (st', evs)" by (rule prod.exhaust)
  note r = observe_reach [OF o, of d]
  show ?case
    using r snoc by (auto simp: x o answered_def recent_failures_def)
qed

section \<open>Agreement with the speaker\<close>

text \<open>The two programs agree: when the speaker answers \<open>GET_STATUS\<close> (the reply carries what the
  executor puts together from its configuration), then afterwards the Streamer's store holds exactly
  the speaker's own volume, mute, delay, equaliser profile, gain, polarity and pairing flag, and
  counts it as online.\<close>

theorem status_reply_synchronises:
  assumes "getters_exact J" "valid_config (get (ex_config s))" "delay_ms (audio (get (ex_config s))) < 2 ^ 31"
    and "cp_ok reply" "cp_data reply = status_json x s"
  shows "let e = entry (fst (observe J thr now st (d, success, reply))) d; c = ss_confirmed e; a = audio (get (ex_config s)) in
     ss_online e \<and> cs_volume c = volume a \<and> cs_muted c = muted a \<and> cs_delay_ms c = delay_ms a \<and>
     cs_eq_profile c = eq_profile a \<and> cs_gain_db c = gain_db a \<and> cs_phase_invert c = phase_invert a \<and>
     cs_paired c = paired (pairing (get (ex_config s)))"
proof -
  have v: "0 \<le> volume (audio (get (ex_config s)))" "volume (audio (get (ex_config s))) \<le> 100"
    "0 \<le> delay_ms (audio (get (ex_config s)))"
    using assms(2) by (simp_all add: valid_config_iff)
  let ?e = "entry (fst (observe J thr now st (d, success, reply))) d"
  have f: "confirms d (d, success, reply)" "\<not> failed (d, success, reply)"
    using assms(4) by (simp_all add: confirms_def failed_def)
  obtain ts where c: "ss_confirmed ?e = (fst (read_fields J (status_json x s) (ss_confirmed (entry st d))))\<lparr>cs_confirmed_at := ts\<rparr>"
    using observe_confirmed [of J thr now st "(d, success, reply)" d] f assms(5) by auto
  have on: "ss_online ?e" using observe_reach(3) [of J thr now st "(d, success, reply)" _ _ d] f
    by (metis fst_conv prod.collapse)
  show ?thesis
    using on assms(1,3) v
    by (simp add: Let_def c read_simps reported_def member_def status_json_def)
qed

definition demo_poll :: command_reply where
  "demo_poll = \<lparr>cp_command_id = ''c1'', cp_ok = True, cp_message = ''ok'', cp_error_code = 0,
     cp_data = status_json (demo_env [] JNull) demo_exec\<rparr>"

theorem status_reply_synchronises_witness:
  "cs_volume (ss_confirmed (entry (fst (observe (demo_lib [] JNull) 3 7 Map.empty (''SPK'', success, demo_poll))) ''SPK''))
     = volume (audio defaults)"
proof -
  have "delay_ms (audio (get (ex_config demo_exec))) < 2 ^ 31"
    by (simp add: defaults_def config_default_def audio_default_def)
  from status_reply_synchronises [OF demo_lib_getters_exact _ this, of demo_poll "demo_env [] JNull" "[]" JNull 3 7 Map.empty "''SPK''"]
  show ?thesis by (simp add: demo_poll_def Let_def)
qed

text \<open>Some transitions are not announced: after \<open>speaker.offline\<close> a refused command makes the device
  online again without an event, and the next status reply finds it online and is silent too.\<close>

lemma return_not_announced:
  assumes "st_ok status" "\<not> cp_ok reply" "\<not> ss_online (entry st d)"
    and "observe J thr now st (d, status, reply) = (st', evs)"
  shows "ss_online (entry st' d) \<and> evs = []"
  using assms by (auto simp: observe_def noteRejected_def)

section \<open>The poll\<close>

text \<open>A sweep in which every exchange returns observes every registered speaker once, in order.\<close>

lemma poll_sweep_run:
  assumes "\<And>sp. sp \<in> set sps \<Longrightarrow> ask sp = Some (ans sp)"
  shows "fst (poll_sweep J thr now ask st sps) = store_run J thr st (map (\<lambda>sp. (now, sp_device_id sp, ans sp)) sps)"
  using assms
proof (induction sps arbitrary: st)
  case (Cons sp sps)
  then show ?case by (simp add: store_run_def split: prod.splits) (metis fst_conv)
qed (simp add: store_run_def)

end
