(* ===== verification/Zone_Manager.thy ===== *)
theory Zone_Manager
  imports Speaker_Store
begin

text \<open>
  Zones of speakers (\<open>src/streamer/src/group/Zone.h\<close>, \<open>ZoneManager.h\<close>): creation with a free identifier,
  removal, renaming, membership, restoring from disk, and the two resolutions of a zone, for audio and
  for commands. The class promises that a speaker belongs to at most one zone; the theorems show that
  every operation keeps this, that creation always finds an identifier, and what the two resolutions
  return. Restoring from disk takes the zones as they are.
\<close>

section \<open>Zones\<close>

record zone =
  z_id :: string
  z_name :: string
  z_members :: "string list"

record zoneman =
  zm_zones :: "zone list"
  zm_next :: int

definition zoneman_new :: zoneman where
  "zoneman_new = \<lparr>zm_zones = [], zm_next = 1\<rparr>"

text \<open>Arithmetic on \<open>int\<close>, 32 bits wide.\<close>

definition wrap32 :: "int \<Rightarrow> int" where
  "wrap32 i = sint (word_of_int i :: 32 word)"

definition taken :: "zone list \<Rightarrow> string \<Rightarrow> bool" where
  "taken zs c \<longleftrightarrow> list_ex (\<lambda>z. z_id z = c) zs"

text \<open>The loop of \<open>create\<close> over \<open>guard\<close>, with the rounds that are left. \<open>ids\<close> is the injected source of
  identifiers, by the number of its call; without it the identifiers come from the counter. The
  result is an error, or the identifier (empty when all rounds were used up).\<close>

fun allocate :: "(nat \<Rightarrow> string) option \<Rightarrow> zone list \<Rightarrow> nat \<Rightarrow> nat \<Rightarrow> int \<Rightarrow> string result \<times> int" where
  "allocate ids zs 0 guard nxt = (Inr [], nxt)"
| "allocate ids zs (Suc k) guard nxt =
     (let candidate = (case ids of Some f \<Rightarrow> f guard | None \<Rightarrow> ''zone-'' @ show_int nxt);
          nxt' = (case ids of Some f \<Rightarrow> nxt | None \<Rightarrow> wrap32 (nxt + 1)) in
      if \<not> taken zs candidate then (Inr candidate, nxt')
      else if ids \<noteq> None \<and> guard > 0
        then (Inl (mk_error Ec_AlreadyExists (''zone id already exists: '' @ candidate)), nxt')
      else allocate ids zs k (Suc guard) nxt')"

definition create :: "(nat \<Rightarrow> string) option \<Rightarrow> zoneman \<Rightarrow> string \<Rightarrow> zoneman \<times> zone result" where
  "create ids m nm =
     (case allocate ids (zm_zones m) 10000 0 (zm_next m) of
        (Inl e, nxt) \<Rightarrow> (m\<lparr>zm_next := nxt\<rparr>, Inl e)
      | (Inr i, nxt) \<Rightarrow>
          if i = [] then (m\<lparr>zm_next := nxt\<rparr>, Inl (mk_error Ec_AlreadyExists ''could not allocate a zone id''))
          else
            (let z = \<lparr>z_id = i, z_name = (if nm = [] then i else nm), z_members = []\<rparr>
             in (m\<lparr>zm_next := nxt, zm_zones := zm_zones m @ [z]\<rparr>, Inr z)))"

definition remove_zone :: "zoneman \<Rightarrow> string \<Rightarrow> zoneman \<times> bool" where
  "remove_zone m i =
     (let zs = filter (\<lambda>z. z_id z \<noteq> i) (zm_zones m)
      in (m\<lparr>zm_zones := zs\<rparr>, length zs \<noteq> length (zm_zones m)))"

text \<open>The loops that change the first zone with the identifier; None when there is none.\<close>

fun on_zone :: "string \<Rightarrow> (zone \<Rightarrow> zone) \<Rightarrow> zone list \<Rightarrow> zone list option" where
  "on_zone i f [] = None"
| "on_zone i f (z # zs) =
     (if z_id z = i then Some (f z # zs) else map_option ((#) z) (on_zone i f zs))"

definition unknown_zone :: "string \<Rightarrow> status" where
  "unknown_zone i = mk_error Ec_NotFound (''unknown zone: '' @ i)"

definition change_zone :: "zoneman \<Rightarrow> string \<Rightarrow> (zone \<Rightarrow> zone) \<Rightarrow> zoneman \<times> status" where
  "change_zone m i f =
     (case on_zone i f (zm_zones m) of
        None \<Rightarrow> (m, unknown_zone i)
      | Some zs \<Rightarrow> (m\<lparr>zm_zones := zs\<rparr>, success))"

definition rename :: "zoneman \<Rightarrow> string \<Rightarrow> string \<Rightarrow> zoneman \<times> status" where
  "rename m i nm = change_zone m i (\<lambda>z. z\<lparr>z_name := nm\<rparr>)"

definition addMember :: "registry \<Rightarrow> zoneman \<Rightarrow> string \<Rightarrow> string \<Rightarrow> zoneman \<times> status" where
  "addMember r m i d =
     (if get_speaker r d = None then (m, mk_error Ec_NotFound (''unknown speaker: '' @ d))
      else
        (case find (\<lambda>z. z_id z \<noteq> i \<and> d \<in> set (z_members z)) (zm_zones m) of
           Some z \<Rightarrow> (m, mk_error Ec_InvalidArg (d @ '' already belongs to zone '' @ z_name z))
         | None \<Rightarrow>
             change_zone m i (\<lambda>z. if d \<in> set (z_members z) then z else z\<lparr>z_members := z_members z @ [d]\<rparr>)))"

definition removeMember :: "zoneman \<Rightarrow> string \<Rightarrow> string \<Rightarrow> zoneman \<times> status" where
  "removeMember m i d = change_zone m i (\<lambda>z. z\<lparr>z_members := filter (\<lambda>x. x \<noteq> d) (z_members z)\<rparr>)"

definition get_zone :: "zoneman \<Rightarrow> string \<Rightarrow> zone option" where
  "get_zone m i = find (\<lambda>z. z_id z = i) (zm_zones m)"

text \<open>\<open>std::stoi\<close> on a string of digits: None when it throws \<open>out_of_range\<close>.\<close>

definition stoi :: "string \<Rightarrow> int option" where
  "stoi s = (if int (read_nat s) < 2 ^ 31 then Some (int (read_nat s)) else None)"

definition is_digit :: "char \<Rightarrow> bool" where
  "is_digit c \<longleftrightarrow> 48 \<le> (of_char c :: nat) \<and> (of_char c :: nat) \<le> 57"

definition advance :: "int \<Rightarrow> zone \<Rightarrow> int" where
  "advance nxt z =
     (if take 5 (z_id z) \<noteq> ''zone-'' then nxt
      else
        (let digits = drop 5 (z_id z) in
         if digits = [] \<or> \<not> list_all is_digit digits then nxt
         else (case stoi digits of None \<Rightarrow> nxt | Some n \<Rightarrow> max nxt (wrap32 (n + 1)))))"

definition replaceAll :: "zoneman \<Rightarrow> zone list \<Rightarrow> zoneman" where
  "replaceAll m zs = m\<lparr>zm_zones := zs, zm_next := foldl advance (zm_next m) zs\<rparr>"

section \<open>Resolution\<close>

type_synonym endpoint = "string \<times> int"

definition kDefaultPort :: int where
  "kDefaultPort = 50005"

definition known_offline :: "store option \<Rightarrow> string \<Rightarrow> bool" where
  "known_offline st d =
     (case st of None \<Rightarrow> False | Some f \<Rightarrow> (case f d of None \<Rightarrow> False | Some s \<Rightarrow> \<not> ss_online s))"

definition resolveTargets :: "registry \<Rightarrow> store option \<Rightarrow> zoneman \<Rightarrow> string \<Rightarrow> endpoint list result" where
  "resolveTargets r st m i =
     (case get_zone m i of
        None \<Rightarrow> Inl (unknown_zone i)
      | Some z \<Rightarrow>
          Inr (concat (map (\<lambda>d. case get_speaker r d of
                                  None \<Rightarrow> []
                                | Some sp \<Rightarrow> if known_offline st d then [] else [(sp_host sp, kDefaultPort)])
                 (z_members z))))"

definition zone_members :: "registry \<Rightarrow> zoneman \<Rightarrow> string \<Rightarrow> speaker list" where
  "zone_members r m i =
     (case get_zone m i of
        None \<Rightarrow> []
      | Some z \<Rightarrow> concat (map (\<lambda>d. case get_speaker r d of None \<Rightarrow> [] | Some sp \<Rightarrow> [sp]) (z_members z)))"

definition zoneOf :: "zoneman \<Rightarrow> string \<Rightarrow> string option" where
  "zoneOf m d = map_option z_id (find (\<lambda>z. d \<in> set (z_members z)) (zm_zones m))"

section \<open>The invariant\<close>

text \<open>Identifiers are unique and not empty, no speaker is listed twice, neither in one zone nor in
  two.\<close>

definition zones_inv :: "zone list \<Rightarrow> bool" where
  "zones_inv zs \<longleftrightarrow> distinct (map z_id zs) \<and> [] \<notin> z_id ` set zs \<and> distinct (concat (map z_members zs))"

lemma allocate_free:
  "allocate ids zs k g nxt = (Inr i, nxt') \<Longrightarrow> i = [] \<or> \<not> taken zs i"
  by (induction ids zs k g nxt rule: allocate.induct) (auto simp: Let_def split: if_splits option.splits)

lemma taken_iff: "taken zs c \<longleftrightarrow> c \<in> z_id ` set zs"
  by (auto simp: taken_def list_ex_iff)

lemma create_inv: "zones_inv (zm_zones m) \<Longrightarrow> zones_inv (zm_zones (fst (create ids m nm)))"
  using allocate_free [of ids "zm_zones m" 10000 0 "zm_next m"]
  by (auto simp: create_def zones_inv_def Let_def taken_iff split: prod.splits sum.splits)

lemma distinct_concat_filter: "distinct (concat (map f xs)) \<Longrightarrow> distinct (concat (map f (filter P xs)))"
  by (induction xs) auto

lemma remove_zone_inv: "zones_inv (zm_zones m) \<Longrightarrow> zones_inv (zm_zones (fst (remove_zone m i)))"
  by (auto simp: remove_zone_def zones_inv_def Let_def distinct_map_filter distinct_concat_filter)

lemma on_zone_Some:
  assumes "on_zone i f zs = Some zs'"
  obtains xs z ys where "zs = xs @ z # ys" "z_id z = i" "zs' = xs @ f z # ys"
proof -
  have "\<exists>xs z ys. zs = xs @ z # ys \<and> z_id z = i \<and> zs' = xs @ f z # ys"
    using assms
  proof (induction zs arbitrary: zs')
    case (Cons w ws)
    show ?case
    proof (cases "z_id w = i")
      case True
      then show ?thesis using Cons.prems by (intro exI [of _ "[]"]) auto
    next
      case False
      then obtain vs where "on_zone i f ws = Some vs" "zs' = w # vs" using Cons.prems by auto
      moreover from Cons.IH [OF this(1)] obtain xs z ys
        where "ws = xs @ z # ys" "z_id z = i" "vs = xs @ f z # ys" by blast
      ultimately show ?thesis by (intro exI [of _ "w # xs"]) auto
    qed
  qed simp
  then show ?thesis using that by blast
qed

lemma change_zone_inv:
  assumes "zones_inv (zm_zones m)" "\<And>z. z_id (f z) = z_id z"
    and "\<And>xs z ys. zm_zones m = xs @ z # ys \<Longrightarrow> z_id z = i \<Longrightarrow>
      distinct (concat (map z_members (xs @ f z # ys)))"
  shows "zones_inv (zm_zones (fst (change_zone m i f)))"
proof (cases "on_zone i f (zm_zones m)")
  case (Some zs')
  then obtain xs z ys where z: "zm_zones m = xs @ z # ys" "z_id z = i" "zs' = xs @ f z # ys"
    by (rule on_zone_Some)
  have "distinct (concat (map z_members zs'))" unfolding z(3) by (rule assms(3) [OF z(1,2)])
  moreover have "map z_id zs' = map z_id (zm_zones m)" using z assms(2) by simp
  then have "distinct (map z_id zs')" "z_id ` set zs' = z_id ` set (zm_zones m)"
    using assms(1) by (simp_all add: zones_inv_def) (metis set_map)
  ultimately show ?thesis using Some assms(1) by (simp add: change_zone_def zones_inv_def)
qed (use assms in \<open>simp add: change_zone_def\<close>)

lemma rename_inv: "zones_inv (zm_zones m) \<Longrightarrow> zones_inv (zm_zones (fst (rename m i nm)))"
  unfolding rename_def by (rule change_zone_inv) (auto simp: zones_inv_def)

lemma removeMember_inv: "zones_inv (zm_zones m) \<Longrightarrow> zones_inv (zm_zones (fst (removeMember m i d)))"
  unfolding removeMember_def by (rule change_zone_inv) (auto simp: zones_inv_def)

lemma addMember_inv: "zones_inv (zm_zones m) \<Longrightarrow> zones_inv (zm_zones (fst (addMember r m i d)))"
proof -
  assume inv: "zones_inv (zm_zones m)"
  show ?thesis
  proof (cases "find (\<lambda>z. z_id z \<noteq> i \<and> d \<in> set (z_members z)) (zm_zones m)")
    case None
    then have free: "d \<notin> set (z_members z)" if "z \<in> set (zm_zones m)" "z_id z \<noteq> i" for z
      using that by (auto simp: find_None_iff)
    have "zones_inv (zm_zones (fst (change_zone m i
        (\<lambda>z. if d \<in> set (z_members z) then z else z\<lparr>z_members := z_members z @ [d]\<rparr>))))"
    proof (rule change_zone_inv [OF inv])
      fix xs z ys assume z: "zm_zones m = xs @ z # ys" "z_id z = i"
      have "z_id w \<noteq> i" if "w \<in> set (xs @ ys)" for w
        using inv z that by (auto simp: zones_inv_def image_iff)
      then have "d \<notin> set (z_members w)" if "w \<in> set (xs @ ys)" for w using free z(1) that by auto
      then show "distinct (concat (map z_members (xs @ (if d \<in> set (z_members z) then z
          else z\<lparr>z_members := z_members z @ [d]\<rparr>) # ys)))"
        using inv z(1) by (auto simp: zones_inv_def)
    qed simp
    then show ?thesis using None inv by (simp add: addMember_def)
  qed (use inv in \<open>simp add: addMember_def\<close>)
qed

section \<open>Runs\<close>

datatype zone_op =
    Z_Create "(nat \<Rightarrow> string) option" string
  | Z_Remove string
  | Z_Rename string string
  | Z_Add registry string string
  | Z_Drop string string

fun zone_step :: "zoneman \<Rightarrow> zone_op \<Rightarrow> zoneman" where
  "zone_step m (Z_Create ids nm) = fst (create ids m nm)"
| "zone_step m (Z_Remove i) = fst (remove_zone m i)"
| "zone_step m (Z_Rename i nm) = fst (rename m i nm)"
| "zone_step m (Z_Add r i d) = fst (addMember r m i d)"
| "zone_step m (Z_Drop i d) = fst (removeMember m i d)"

lemma zone_step_inv: "zones_inv (zm_zones m) \<Longrightarrow> zones_inv (zm_zones (zone_step m op))"
  by (cases op) (simp_all add: create_inv remove_zone_inv rename_inv addMember_inv removeMember_inv)

interpretation zone_run: invariant_system zone_step "\<lambda>m. zones_inv (zm_zones m)"
  by unfold_locales (rule zone_step_inv)

lemma zones_inv_new: "zones_inv (zm_zones zoneman_new)"
  by (simp add: zoneman_new_def zones_inv_def)

lemma concat_member_unique:
  "distinct (concat (map f xs)) \<Longrightarrow> x \<in> set xs \<Longrightarrow> y \<in> set xs \<Longrightarrow> d \<in> set (f x) \<Longrightarrow> d \<in> set (f y) \<Longrightarrow> x = y"
  by (induction xs) auto

text \<open>A speaker belongs to at most one zone: after any sequence of operations on a new manager, with
  any registry at each step, two zones that both list a speaker are the same zone; and no two zones
  have the same identifier.\<close>

theorem zones_stay_disjoint:
  assumes "z \<in> set (zm_zones (foldl zone_step zoneman_new ops))" "w \<in> set (zm_zones (foldl zone_step zoneman_new ops))"
    and "z_id z = z_id w \<or> set (z_members z) \<inter> set (z_members w) \<noteq> {}"
  shows "z = w"
proof -
  let ?zs = "zm_zones (foldl zone_step zoneman_new ops)"
  have inv: "zones_inv ?zs" by (rule zone_run.run_inv [OF zones_inv_new])
  show ?thesis using assms(3)
  proof
    assume "z_id z = z_id w"
    then show ?thesis using inv assms(1,2) by (auto simp: zones_inv_def distinct_map dest: inj_onD)
  next
    assume "set (z_members z) \<inter> set (z_members w) \<noteq> {}"
    then obtain d where "d \<in> set (z_members z)" "d \<in> set (z_members w)" by blast
    then show ?thesis using concat_member_unique [OF _ assms(1,2)] inv by (auto simp: zones_inv_def)
  qed
qed

definition demo_sp :: speaker where
  "demo_sp = \<lparr>sp_device_id = ''A'', sp_name = ''a'', sp_host = ''h'', sp_control_port = 45455\<rparr>"

definition demo_zone_ops :: "zone_op list" where
  "demo_zone_ops = [Z_Create (Some (\<lambda>_. ''x'')) ''one'', Z_Create (Some (\<lambda>_. ''y'')) ''two'',
     Z_Add [demo_sp] ''x'' ''A'', Z_Add [demo_sp] ''y'' ''A'']"

lemma allocate_hit: "0 < k \<Longrightarrow> \<not> taken zs (f g) \<Longrightarrow> allocate (Some f) zs k g nxt = (Inr (f g), nxt)"
  by (cases k) simp_all

lemma demo_zones:
  "zm_zones (foldl zone_step zoneman_new demo_zone_ops) =
     [\<lparr>z_id = ''x'', z_name = ''one'', z_members = [''A'']\<rparr>, \<lparr>z_id = ''y'', z_name = ''two'', z_members = []\<rparr>]"
  by (simp add: demo_zone_ops_def zoneman_new_def create_def Let_def allocate_hit taken_def addMember_def change_zone_def
      demo_sp_def)

theorem zones_stay_disjoint_witness:
  "hd (zm_zones (foldl zone_step zoneman_new demo_zone_ops)) = hd (zm_zones (foldl zone_step zoneman_new demo_zone_ops)) \<and>
   \<not> (\<exists>w. w \<in> set (zm_zones (foldl zone_step zoneman_new demo_zone_ops)) \<and> z_id w = ''y'' \<and> ''A'' \<in> set (z_members w))"
proof -
  let ?x = "\<lparr>z_id = ''x'', z_name = ''one'', z_members = [''A'']\<rparr>"
  have "w = ?x" if "w \<in> set (zm_zones (foldl zone_step zoneman_new demo_zone_ops))" "''A'' \<in> set (z_members w)" for w
    using zones_stay_disjoint [of w demo_zone_ops ?x] that by (auto simp: demo_zones)
  then show ?thesis by force
qed

section \<open>Creation\<close>

lemma show_zone_inj: "''zone-'' @ show_int i = ''zone-'' @ show_int j \<longleftrightarrow> i = j"
  by (simp add: show_int_inj)

lemma wrap32_add: "wrap32 (wrap32 i + j) = wrap32 (i + j)"
  by (simp add: wrap32_def)

lemma wrap32_eq:
  "wrap32 (i + int a) = wrap32 (i + int b) \<Longrightarrow> a < 2 ^ 32 \<Longrightarrow> b < 2 ^ 32 \<Longrightarrow> a = b"
proof -
  assume e: "wrap32 (i + int a) = wrap32 (i + int b)" and ab: "a < 2 ^ 32" "b < 2 ^ 32"
  have "(word_of_int (i + int a) :: 32 word) = word_of_int (i + int b)"
    using e unfolding wrap32_def by (rule signed_word_eqI)
  then have "(of_nat a :: 32 word) = of_nat b" by simp
  then have "unat (of_nat a :: 32 word) = unat (of_nat b :: 32 word)" by simp
  then show "a = b" using ab by (simp add: unsigned_of_nat take_bit_nat_eq_self)
qed

lemma allocate_fails:
  assumes "allocate None zs k g nxt = (r, nxt')" "r = Inr [] \<or> (\<exists>e. r = Inl e)" "wrap32 nxt = nxt"
  shows "\<forall>a<k. taken zs (''zone-'' @ show_int (wrap32 (nxt + int a)))"
  using assms
proof (induction k arbitrary: g nxt)
  case (Suc k)
  have t: "taken zs (''zone-'' @ show_int nxt)"
    using Suc.prems by (auto simp: Let_def split: if_splits)
  then have "allocate None zs k (Suc g) (wrap32 (nxt + 1)) = (r, nxt')"
    using Suc.prems(1) by simp
  from Suc.IH [OF this Suc.prems(2)] have IH: "\<forall>a<k. taken zs (''zone-'' @ show_int (wrap32 (nxt + 1 + int a)))"
    using wrap32_add [of "nxt + 1" 0] by (simp add: wrap32_add)
  show ?case
  proof (intro allI impI)
    fix a assume "a < Suc k"
    then show "taken zs (''zone-'' @ show_int (wrap32 (nxt + int a)))"
      using t IH Suc.prems(3) by (cases a) (simp_all add: algebra_simps)
  qed
qed simp

text \<open>Creating a zone always succeeds: with the built-in counter, wherever it stands (its 32 bits may
  wrap around), and fewer than ten thousand zones, \<open>create\<close> returns a zone with a new identifier, the
  given name and no members, and appends exactly that zone.\<close>

theorem create_succeeds:
  assumes "length (zm_zones m) < 10000" "wrap32 (zm_next m) = zm_next m"
  shows "\<exists>i nxt. let z = \<lparr>z_id = i, z_name = (if nm = [] then i else nm), z_members = []\<rparr> in
    i \<notin> z_id ` set (zm_zones m) \<and> i \<noteq> [] \<and>
    create None m nm = (m\<lparr>zm_next := nxt, zm_zones := zm_zones m @ [z]\<rparr>, Inr z)"
proof -
  obtain r nxt where a: "allocate None (zm_zones m) 10000 0 (zm_next m) = (r, nxt)" by (rule prod.exhaust)
  have "\<not> (r = Inr [] \<or> (\<exists>e. r = Inl e))"
  proof
    assume "r = Inr [] \<or> (\<exists>e. r = Inl e)"
    from allocate_fails [OF a this assms(2)]
    have sub: "(\<lambda>a. ''zone-'' @ show_int (wrap32 (zm_next m + int a))) ` {..<10000} \<subseteq> z_id ` set (zm_zones m)"
      by (auto simp: taken_iff)
    have "inj_on (\<lambda>a. ''zone-'' @ show_int (wrap32 (zm_next m + int a))) {..<10000}"
      by (rule inj_onI) (auto simp: show_int_inj dest!: wrap32_eq)
    from card_image [OF this] card_mono [OF _ sub] have "10000 \<le> card (z_id ` set (zm_zones m))" by simp
    also have "\<dots> \<le> length (zm_zones m)" by (metis card_length image_set length_map)
    finally show False using assms(1) by simp
  qed
  then obtain i where i: "r = Inr i" "i \<noteq> []" by (cases r) auto
  then have "\<not> taken (zm_zones m) i" using allocate_free [of None "zm_zones m" 10000 0 "zm_next m" i nxt] a by auto
  then show ?thesis using a i by (intro exI [of _ i] exI [of _ nxt]) (simp add: create_def Let_def taken_iff)
qed

theorem create_succeeds_witness:
  "\<exists>z. snd (create None \<lparr>zm_zones = [], zm_next = 2147483647\<rparr> ''attic'') = Inr z \<and> z_name z = ''attic''"
proof -
  have "wrap32 2147483647 = 2147483647" by (simp add: wrap32_def)
  with create_succeeds [of "\<lparr>zm_zones = [], zm_next = 2147483647\<rparr>" "''attic''"] show ?thesis
    by (auto simp: Let_def)
qed

section \<open>Restoring, and the two resolutions\<close>

text \<open>Audio goes to exactly the command targets that are not known to be offline.\<close>

lemma get_speaker_id: "get_speaker r d = Some sp \<Longrightarrow> sp_device_id sp = d"
  by (induction r) (auto split: if_splits)

lemma targets_are_live_members:
  "get_zone m i = Some z \<Longrightarrow>
     resolveTargets r st m i =
       Inr (map (\<lambda>sp. (sp_host sp, kDefaultPort)) (filter (\<lambda>sp. \<not> known_offline st (sp_device_id sp)) (zone_members r m i)))"
proof -
  have "concat (map (\<lambda>d. case get_speaker r d of None \<Rightarrow> [] | Some sp \<Rightarrow> if known_offline st d then [] else [(sp_host sp, kDefaultPort)]) ds) =
      map (\<lambda>sp. (sp_host sp, kDefaultPort)) (filter (\<lambda>sp. \<not> known_offline st (sp_device_id sp))
        (concat (map (\<lambda>d. case get_speaker r d of None \<Rightarrow> [] | Some sp \<Rightarrow> [sp]) ds)))" for ds
    by (induction ds) (auto simp: get_speaker_id split: option.splits)
  then show "get_zone m i = Some z \<Longrightarrow> ?thesis" by (simp add: resolveTargets_def zone_members_def)
qed

lemma zoneOf_iff:
  assumes "zones_inv (zm_zones m)"
  shows "zoneOf m d = Some i \<longleftrightarrow> (\<exists>z\<in>set (zm_zones m). z_id z = i \<and> d \<in> set (z_members z))"
proof -
  have u: "z = w" if "z \<in> set (zm_zones m)" "w \<in> set (zm_zones m)" "d \<in> set (z_members z)" "d \<in> set (z_members w)" for z w
    using assms that concat_member_unique by (fastforce simp: zones_inv_def)
  show ?thesis
  proof (cases "find (\<lambda>z. d \<in> set (z_members z)) (zm_zones m)")
    case None
    moreover have "\<not> (\<exists>z\<in>set (zm_zones m). z_id z = i \<and> d \<in> set (z_members z))"
      using None by (auto simp: find_None_iff)
    ultimately show ?thesis by (simp add: zoneOf_def)
  next
    case (Some w)
    then have "w \<in> set (zm_zones m)" "d \<in> set (z_members w)" by (auto simp: find_Some_iff)
    then show ?thesis using Some u by (auto simp: zoneOf_def)
  qed
qed

text \<open>\<open>replaceAll\<close> does not check: zones that share a speaker are taken over from disk as they are.\<close>

lemma replaceAll_unchecked:
  "\<not> zones_inv (zm_zones (replaceAll m [\<lparr>z_id = ''a'', z_name = ''a'', z_members = [''S'']\<rparr>,
      \<lparr>z_id = ''b'', z_name = ''b'', z_members = [''S'']\<rparr>]))"
  by (simp add: replaceAll_def zones_inv_def)

end
