(* ===== verification/Streamer_Config.thy ===== *)
theory Streamer_Config
  imports Zone_Manager
begin

text \<open>
  The Streamer's configuration file: the structs of \<open>config/StreamerConfig.h\<close>, their JSON mapping
  (\<open>StreamerConfigSerialization.h\<close>), \<open>StreamerConfigManager\<close>, and the two ends of it in
  \<open>StreamerApp\<close>: \<open>persist\<close>, which writes the registry and the zones, and the part of \<open>startup\<close> that
  fills them from the file. File operations are those of \<open>File_Store\<close>.
\<close>

section \<open>Data\<close>

record identity_config =
  ic_streamer_id :: string
  ic_public_key :: string
  ic_site_id :: string

record speaker_record =
  sr_device_id :: string
  sr_name :: string
  sr_host :: string
  sr_control_port :: int
  sr_public_key :: string
  sr_box_public_key :: string
  sr_delay_ms :: int

record zone_record =
  zr_zone_id :: string
  zr_name :: string
  zr_members :: "string list"

record stream_audio_config =
  sa_sample_rate :: int
  sa_channels :: int
  sa_block_frames :: int
  sa_lead_ms :: int
  sa_source :: string

record stream_network_config =
  sn_control_port :: string
  sn_audio_port :: int

record web_config =
  wc_port :: int
  wc_auth_token :: string
  wc_bind_address :: string

record streamer_config =
  sc_schema_version :: int
  sc_identity :: identity_config
  sc_speakers :: "speaker_record list"
  sc_zones :: "zone_record list"
  sc_audio :: stream_audio_config
  sc_dsp :: json
  sc_network :: stream_network_config
  sc_web :: web_config
  sc_log_level :: string

definition identity_new :: identity_config where
  "identity_new = \<lparr>ic_streamer_id = [], ic_public_key = [], ic_site_id = []\<rparr>"

definition speaker_record_new :: speaker_record where
  "speaker_record_new = \<lparr>sr_device_id = [], sr_name = [], sr_host = [], sr_control_port = 45455,
     sr_public_key = [], sr_box_public_key = [], sr_delay_ms = 0\<rparr>"

definition zone_record_new :: zone_record where
  "zone_record_new = \<lparr>zr_zone_id = [], zr_name = [], zr_members = []\<rparr>"

definition stream_audio_new :: stream_audio_config where
  "stream_audio_new = \<lparr>sa_sample_rate = 48000, sa_channels = 2, sa_block_frames = 480, sa_lead_ms = 180,
     sa_source = ''line-in''\<rparr>"

definition stream_network_new :: stream_network_config where
  "stream_network_new = \<lparr>sn_control_port = ''45455'', sn_audio_port = 50005\<rparr>"

definition web_new :: web_config where
  "web_new = \<lparr>wc_port = 8090, wc_auth_token = [], wc_bind_address = ''127.0.0.1''\<rparr>"

definition streamer_config_new :: streamer_config where
  "streamer_config_new = \<lparr>sc_schema_version = 1, sc_identity = identity_new, sc_speakers = [], sc_zones = [],
     sc_audio = stream_audio_new, sc_dsp = JObj [], sc_network = stream_network_new, sc_web = web_new,
     sc_log_level = ''info''\<rparr>"

section \<open>JSON\<close>

text \<open>\<open>get<std::vector<T>>\<close>: None when the value is not an array or an element does not convert.\<close>

definition get_vector :: "(json \<Rightarrow> 'a option) \<Rightarrow> json \<Rightarrow> 'a list option" where
  "get_vector conv j = (case j of JArr xs \<Rightarrow> those (map conv xs) | _ \<Rightarrow> None)"

definition identity_to_json :: "identity_config \<Rightarrow> json" where
  "identity_to_json c = JObj [(''streamer_id'', JStr (ic_streamer_id c)), (''public_key'', JStr (ic_public_key c)),
     (''site_id'', JStr (ic_site_id c))]"

definition identity_from_json :: "json_lib \<Rightarrow> json \<Rightarrow> identity_config option" where
  "identity_from_json J j = do {
     a \<leftarrow> j_value (jl_get_string J) j ''streamer_id'' (ic_streamer_id identity_new);
     b \<leftarrow> j_value (jl_get_string J) j ''public_key'' (ic_public_key identity_new);
     c \<leftarrow> j_value (jl_get_string J) j ''site_id'' (ic_site_id identity_new);
     Some \<lparr>ic_streamer_id = a, ic_public_key = b, ic_site_id = c\<rparr>
   }"

definition speaker_to_json :: "speaker_record \<Rightarrow> json" where
  "speaker_to_json s = JObj [(''device_id'', JStr (sr_device_id s)), (''name'', JStr (sr_name s)),
     (''host'', JStr (sr_host s)), (''control_port'', JInt (sr_control_port s)), (''public_key'', JStr (sr_public_key s)),
     (''box_public_key'', JStr (sr_box_public_key s)), (''delay_ms'', JInt (sr_delay_ms s))]"

definition speaker_from_json :: "json_lib \<Rightarrow> json \<Rightarrow> speaker_record option" where
  "speaker_from_json J j = do {
     let d = speaker_record_new;
     a \<leftarrow> j_value (jl_get_string J) j ''device_id'' (sr_device_id d);
     b \<leftarrow> j_value (jl_get_string J) j ''name'' (sr_name d);
     c \<leftarrow> j_value (jl_get_string J) j ''host'' (sr_host d);
     e \<leftarrow> j_value (jl_get_int J) j ''control_port'' (sr_control_port d);
     f \<leftarrow> j_value (jl_get_string J) j ''public_key'' (sr_public_key d);
     g \<leftarrow> j_value (jl_get_string J) j ''box_public_key'' (sr_box_public_key d);
     h \<leftarrow> j_value (jl_get_int J) j ''delay_ms'' (sr_delay_ms d);
     Some \<lparr>sr_device_id = a, sr_name = b, sr_host = c, sr_control_port = e, sr_public_key = f,
           sr_box_public_key = g, sr_delay_ms = h\<rparr>
   }"

definition zone_to_json :: "zone_record \<Rightarrow> json" where
  "zone_to_json z = JObj [(''zone_id'', JStr (zr_zone_id z)), (''name'', JStr (zr_name z)),
     (''members'', JArr (map JStr (zr_members z)))]"

definition zone_from_json :: "json_lib \<Rightarrow> json \<Rightarrow> zone_record option" where
  "zone_from_json J j = do {
     let d = zone_record_new;
     a \<leftarrow> j_value (jl_get_string J) j ''zone_id'' (zr_zone_id d);
     b \<leftarrow> j_value (jl_get_string J) j ''name'' (zr_name d);
     c \<leftarrow> j_value (get_vector (jl_get_string J)) j ''members'' (zr_members d);
     Some \<lparr>zr_zone_id = a, zr_name = b, zr_members = c\<rparr>
   }"

definition stream_audio_to_json :: "stream_audio_config \<Rightarrow> json" where
  "stream_audio_to_json a = JObj [(''sample_rate'', JInt (sa_sample_rate a)), (''channels'', JInt (sa_channels a)),
     (''block_frames'', JInt (sa_block_frames a)), (''lead_ms'', JInt (sa_lead_ms a)), (''source'', JStr (sa_source a))]"

definition stream_audio_from_json :: "json_lib \<Rightarrow> json \<Rightarrow> stream_audio_config option" where
  "stream_audio_from_json J j = do {
     let d = stream_audio_new;
     a \<leftarrow> j_value (jl_get_int J) j ''sample_rate'' (sa_sample_rate d);
     b \<leftarrow> j_value (jl_get_int J) j ''channels'' (sa_channels d);
     c \<leftarrow> j_value (jl_get_int J) j ''block_frames'' (sa_block_frames d);
     e \<leftarrow> j_value (jl_get_int J) j ''lead_ms'' (sa_lead_ms d);
     f \<leftarrow> j_value (jl_get_string J) j ''source'' (sa_source d);
     Some \<lparr>sa_sample_rate = a, sa_channels = b, sa_block_frames = c, sa_lead_ms = e, sa_source = f\<rparr>
   }"

definition stream_network_to_json :: "stream_network_config \<Rightarrow> json" where
  "stream_network_to_json n = JObj [(''control_port'', JStr (sn_control_port n)), (''audio_port'', JInt (sn_audio_port n))]"

definition stream_network_from_json :: "json_lib \<Rightarrow> json \<Rightarrow> stream_network_config option" where
  "stream_network_from_json J j = do {
     a \<leftarrow> j_value (jl_get_string J) j ''control_port'' (sn_control_port stream_network_new);
     b \<leftarrow> j_value (jl_get_int J) j ''audio_port'' (sn_audio_port stream_network_new);
     Some \<lparr>sn_control_port = a, sn_audio_port = b\<rparr>
   }"

definition web_to_json :: "web_config \<Rightarrow> json" where
  "web_to_json w = JObj [(''port'', JInt (wc_port w)), (''auth_token'', JStr (wc_auth_token w)),
     (''bind_address'', JStr (wc_bind_address w))]"

definition web_from_json :: "json_lib \<Rightarrow> json \<Rightarrow> web_config option" where
  "web_from_json J j = do {
     a \<leftarrow> j_value (jl_get_int J) j ''port'' (wc_port web_new);
     b \<leftarrow> j_value (jl_get_string J) j ''auth_token'' (wc_auth_token web_new);
     c \<leftarrow> j_value (jl_get_string J) j ''bind_address'' (wc_bind_address web_new);
     Some \<lparr>wc_port = a, wc_auth_token = b, wc_bind_address = c\<rparr>
   }"

definition log_to_json :: "string \<Rightarrow> json" where
  "log_to_json l = JObj [(''log_level'', JStr l)]"

definition log_from_json :: "json_lib \<Rightarrow> json \<Rightarrow> string option" where
  "log_from_json J j = j_value (jl_get_string J) j ''log_level'' ''info''"

definition streamer_to_json :: "streamer_config \<Rightarrow> json" where
  "streamer_to_json c = JObj
     [(''schema_version'', JInt (sc_schema_version c)), (''identity'', identity_to_json (sc_identity c)),
      (''speakers'', JArr (map speaker_to_json (sc_speakers c))), (''zones'', JArr (map zone_to_json (sc_zones c))),
      (''audio'', stream_audio_to_json (sc_audio c)), (''dsp'', sc_dsp c),
      (''network'', stream_network_to_json (sc_network c)), (''web'', web_to_json (sc_web c)),
      (''system'', log_to_json (sc_log_level c))]"

definition streamer_from_json :: "json_lib \<Rightarrow> json \<Rightarrow> streamer_config option" where
  "streamer_from_json J j = do {
     let d = streamer_config_new;
     v \<leftarrow> j_value (jl_get_int J) j ''schema_version'' (sc_schema_version d);
     i \<leftarrow> section_from_json (identity_from_json J) j ''identity'' (sc_identity d);
     sp \<leftarrow> section_from_json (get_vector (speaker_from_json J)) j ''speakers'' (sc_speakers d);
     z \<leftarrow> section_from_json (get_vector (zone_from_json J)) j ''zones'' (sc_zones d);
     a \<leftarrow> section_from_json (stream_audio_from_json J) j ''audio'' (sc_audio d);
     let ds = (case j_find j ''dsp'' of Some v \<Rightarrow> if is_object v then v else sc_dsp d | None \<Rightarrow> sc_dsp d);
     n \<leftarrow> section_from_json (stream_network_from_json J) j ''network'' (sc_network d);
     w \<leftarrow> section_from_json (web_from_json J) j ''web'' (sc_web d);
     l \<leftarrow> section_from_json (log_from_json J) j ''system'' (sc_log_level d);
     Some \<lparr>sc_schema_version = v, sc_identity = i, sc_speakers = sp, sc_zones = z, sc_audio = a, sc_dsp = ds,
           sc_network = n, sc_web = w, sc_log_level = l\<rparr>
   }"

section \<open>The manager\<close>

record streamer_cfgman =
  sm_path :: string
  sm_fs :: fsys
  sm_config :: streamer_config
  sm_state :: service_state

definition streamer_cfgman_new :: "string \<Rightarrow> fsys \<Rightarrow> streamer_cfgman" where
  "streamer_cfgman_new p f = \<lparr>sm_path = p, sm_fs = f, sm_config = streamer_config_new, sm_state = Svc_Stopped\<rparr>"

definition roll_backup :: "cfg_env \<Rightarrow> streamer_cfgman \<Rightarrow> fsys" where
  "roll_backup env m =
     (case sm_fs m (sm_path m) of
        None \<Rightarrow> sm_fs m
      | Some old \<Rightarrow> if ce_copy env then (sm_fs m)(sm_path m @ ''.bak'' \<mapsto> old) else sm_fs m)"

definition saveLocked :: "json_lib \<Rightarrow> cfg_env \<Rightarrow> streamer_cfgman \<Rightarrow> streamer_cfgman \<times> status" where
  "saveLocked J env m =
     (case atomicWriteFile (ce_write env) (roll_backup env m) (sm_path m) (jl_dump2 J (streamer_to_json (sm_config m))) of
        (tr, w) \<Rightarrow> (m\<lparr>sm_fs := last tr\<rparr>, w))"

text \<open>A file that cannot be opened reads as the empty text.\<close>

definition file_text :: "cfg_env \<Rightarrow> fsys \<Rightarrow> string \<Rightarrow> string" where
  "file_text env f p = (case f p of Some t \<Rightarrow> if ce_readable env p then t else [] | None \<Rightarrow> [])"

definition parse_streamer :: "json_lib \<Rightarrow> string \<Rightarrow> streamer_config option" where
  "parse_streamer J t =
     (case jl_parse J t of None \<Rightarrow> None | Some j \<Rightarrow> if is_object j then streamer_from_json J j else None)"

definition set_aside :: "cfg_env \<Rightarrow> streamer_cfgman \<Rightarrow> streamer_cfgman" where
  "set_aside env m =
     (if ce_rename env
      then m\<lparr>sm_fs := (sm_fs m)(sm_path m @ ''.corrupt'' := sm_fs m (sm_path m), sm_path m := None)\<rparr> else m)"

definition streamer_start :: "json_lib \<Rightarrow> cfg_env \<Rightarrow> streamer_cfgman \<Rightarrow> streamer_cfgman \<times> status" where
  "streamer_start J env m =
     (if sm_fs m (sm_path m) = None then
        (case saveLocked J env (m\<lparr>sm_config := streamer_config_new\<rparr>) of
           (m', s) \<Rightarrow> (m'\<lparr>sm_state := (if st_ok s then Svc_Running else Svc_Degraded)\<rparr>, s))
      else case parse_streamer J (file_text env (sm_fs m) (sm_path m)) of
        Some c \<Rightarrow> (m\<lparr>sm_config := c, sm_state := Svc_Running\<rparr>, success)
      | None \<Rightarrow>
          (case (if sm_fs m (sm_path m @ ''.bak'') = None then None
                 else parse_streamer J (file_text env (sm_fs m) (sm_path m @ ''.bak''))) of
             Some c \<Rightarrow>
               (case saveLocked J env ((set_aside env m)\<lparr>sm_config := c\<rparr>) of
                  (m', s) \<Rightarrow> (m'\<lparr>sm_state := Svc_Running\<rparr>, if st_ok s then success else s))
           | None \<Rightarrow>
               (case saveLocked J env ((set_aside env m)\<lparr>sm_config := streamer_config_new\<rparr>) of
                  (m', s) \<Rightarrow> (m'\<lparr>sm_state := Svc_Degraded\<rparr>,
                     mk_error Ec_Corrupt ''streamer config unreadable; reset to defaults''))))"

definition streamer_update ::
  "json_lib \<Rightarrow> cfg_env \<Rightarrow> streamer_cfgman \<Rightarrow> (streamer_config \<Rightarrow> streamer_config) \<Rightarrow> streamer_cfgman \<times> status" where
  "streamer_update J env m mutator = saveLocked J env (m\<lparr>sm_config := mutator (sm_config m)\<rparr>)"

section \<open>Registry and zones on disk\<close>

definition record_of :: "speaker \<Rightarrow> speaker_record" where
  "record_of s = speaker_record_new\<lparr>sr_device_id := sp_device_id s, sr_name := sp_name s, sr_host := sp_host s,
     sr_control_port := sp_control_port s\<rparr>"

definition zone_record_of :: "zone \<Rightarrow> zone_record" where
  "zone_record_of z = \<lparr>zr_zone_id = z_id z, zr_name = z_name z, zr_members = z_members z\<rparr>"

text \<open>\<open>StreamerApp::persist\<close>, with the settings of the master DSP chain.\<close>

definition persist_app ::
  "json_lib \<Rightarrow> cfg_env \<Rightarrow> streamer_cfgman \<Rightarrow> registry \<Rightarrow> zoneman \<Rightarrow> json \<Rightarrow> streamer_cfgman \<times> status" where
  "persist_app J env m r zm dsp =
     streamer_update J env m
       (\<lambda>c. c\<lparr>sc_speakers := map record_of r, sc_zones := map zone_record_of (zm_zones zm), sc_dsp := dsp\<rparr>)"

text \<open>The first part of \<open>StreamerApp::startup\<close>: registry, token and zones from the configuration. \<open>fresh\<close> is
  the random token of a first run.\<close>

definition hydrate_registry :: "streamer_config \<Rightarrow> registry \<Rightarrow> registry" where
  "hydrate_registry c r =
     foldl (\<lambda>r s. fst (upsert r \<lparr>sp_device_id = sr_device_id s, sp_name = sr_name s, sp_host = sr_host s,
                               sp_control_port = sr_control_port s\<rparr>)) r (sc_speakers c)"

definition hydrate_zones :: "streamer_config \<Rightarrow> zoneman" where
  "hydrate_zones c =
     replaceAll zoneman_new (map (\<lambda>z. \<lparr>z_id = zr_zone_id z, z_name = zr_name z, z_members = zr_members z\<rparr>) (sc_zones c))"

definition startup_config ::
  "json_lib \<Rightarrow> cfg_env \<Rightarrow> cfg_env \<Rightarrow> string \<Rightarrow> streamer_cfgman \<Rightarrow> streamer_cfgman \<times> registry \<times> string \<times> zoneman" where
  "startup_config J env env2 fresh m =
     (let m1 = fst (streamer_start J env m);
          r = hydrate_registry (sm_config m1) [];
          token = wc_auth_token (sc_web (sm_config m1));
          m2 = (if token = []
                then fst (streamer_update J env2 m1 (\<lambda>c. c\<lparr>sc_web := (sc_web c)\<lparr>wc_auth_token := fresh\<rparr>\<rparr>)) else m1)
      in (m2, r, if token = [] then fresh else token, hydrate_zones (sm_config m2)))"

section \<open>Round trip\<close>

text \<open>What the C++ types say of a configuration: 32-bit integers, and a DSP section that is an object.\<close>

definition typed_config :: "streamer_config \<Rightarrow> bool" where
  "typed_config c \<longleftrightarrow>
     int32 (sc_schema_version c) \<and> list_all (\<lambda>s. int32 (sr_control_port s) \<and> int32 (sr_delay_ms s)) (sc_speakers c) \<and>
     int32 (sa_sample_rate (sc_audio c)) \<and> int32 (sa_channels (sc_audio c)) \<and> int32 (sa_block_frames (sc_audio c)) \<and>
     int32 (sa_lead_ms (sc_audio c)) \<and> int32 (sn_audio_port (sc_network c)) \<and> int32 (wc_port (sc_web c)) \<and>
     is_object (sc_dsp c)"

lemma those_map_inv: "(\<And>x. x \<in> set xs \<Longrightarrow> f (g x) = Some x) \<Longrightarrow> those (map f (map g xs)) = Some xs"
  by (induction xs) simp_all

lemma get_vector_inv: "(\<And>x. x \<in> set xs \<Longrightarrow> f (g x) = Some x) \<Longrightarrow> get_vector f (JArr (map g xs)) = Some xs"
  using those_map_inv [of xs f g] by (simp add: get_vector_def)

lemma identity_inv: "getters_exact J \<Longrightarrow> identity_from_json J (identity_to_json c) = Some c"
  by (cases c) (simp add: identity_from_json_def identity_to_json_def j_value_def)

lemma speaker_inv:
  "getters_exact J \<Longrightarrow> int32 (sr_control_port s) \<Longrightarrow> int32 (sr_delay_ms s) \<Longrightarrow> speaker_from_json J (speaker_to_json s) = Some s"
  by (cases s) (simp add: speaker_from_json_def speaker_to_json_def j_value_def int32_def Let_def)

lemma zone_inv: "getters_exact J \<Longrightarrow> zone_from_json J (zone_to_json z) = Some z"
  using get_vector_inv [of "zr_members z" "jl_get_string J" JStr]
  by (cases z) (simp add: zone_from_json_def zone_to_json_def j_value_def Let_def)

lemma stream_audio_inv:
  "getters_exact J \<Longrightarrow> int32 (sa_sample_rate a) \<Longrightarrow> int32 (sa_channels a) \<Longrightarrow> int32 (sa_block_frames a) \<Longrightarrow> int32 (sa_lead_ms a) \<Longrightarrow>
     stream_audio_from_json J (stream_audio_to_json a) = Some a"
  by (cases a) (simp add: stream_audio_from_json_def stream_audio_to_json_def j_value_def int32_def Let_def)

lemma stream_network_inv:
  "getters_exact J \<Longrightarrow> int32 (sn_audio_port n) \<Longrightarrow> stream_network_from_json J (stream_network_to_json n) = Some n"
  by (cases n) (simp add: stream_network_from_json_def stream_network_to_json_def j_value_def int32_def)

lemma web_inv:
  "getters_exact J \<Longrightarrow> int32 (wc_port w) \<Longrightarrow> web_from_json J (web_to_json w) = Some w"
  by (cases w) (simp add: web_from_json_def web_to_json_def j_value_def int32_def)

lemma log_inv: "getters_exact J \<Longrightarrow> log_from_json J (log_to_json l) = Some l"
  by (simp add: log_from_json_def log_to_json_def j_value_def)

lemma streamer_json_inv:
  assumes ge: "getters_exact J" and "typed_config c"
  shows "streamer_from_json J (streamer_to_json c) = Some c"
proof -
  have "get_vector (speaker_from_json J) (JArr (map speaker_to_json (sc_speakers c))) = Some (sc_speakers c)"
    using assms by (intro get_vector_inv speaker_inv ge) (auto simp: typed_config_def list_all_iff)
  moreover have "get_vector (zone_from_json J) (JArr (map zone_to_json (sc_zones c))) = Some (sc_zones c)"
    by (intro get_vector_inv zone_inv ge)
  ultimately show ?thesis
    using assms
    by (simp add: typed_config_def streamer_from_json_def streamer_to_json_def section_from_json_def j_value_def Let_def
        identity_inv stream_audio_inv stream_network_inv web_inv log_inv int32_def)
qed

section \<open>Restart\<close>

lemma upsert_fresh: "sp_device_id s \<notin> sp_device_id ` set r \<Longrightarrow> fst (upsert r s) = r @ [s]"
  by (induction r) (auto split: prod.splits)

lemma hydrate_inverse:
  assumes "registry_inv (r @ rs)"
  shows "foldl (\<lambda>r s. fst (upsert r \<lparr>sp_device_id = sr_device_id s, sp_name = sr_name s, sp_host = sr_host s,
     sp_control_port = sr_control_port s\<rparr>)) r (map record_of rs) = r @ rs"
  using assms
proof (induction rs arbitrary: r)
  case (Cons s rs)
  have "\<lparr>sp_device_id = sr_device_id (record_of s), sp_name = sr_name (record_of s), sp_host = sr_host (record_of s),
      sp_control_port = sr_control_port (record_of s)\<rparr> = s"
    by (simp add: record_of_def)
  moreover have "fst (upsert r s) = r @ [s]"
    using Cons.prems by (intro upsert_fresh) (auto simp: registry_inv_def)
  ultimately show ?case using Cons.IH [of "r @ [s]"] Cons.prems by simp
qed simp

lemma zones_inverse:
  "zm_zones (hydrate_zones (c\<lparr>sc_zones := map zone_record_of zs\<rparr>)) = zs"
  by (simp add: hydrate_zones_def replaceAll_def zone_record_of_def o_def map_idI)

lemma saveLocked_ok:
  assumes "saveLocked J env m = (m', s)" "st_ok s"
  shows "sm_fs m' (sm_path m) = Some (jl_dump2 J (streamer_to_json (sm_config m)))" "sm_path m' = sm_path m"
    "sm_config m' = sm_config m"
proof -
  obtain tr w where aw: "atomicWriteFile (ce_write env) (roll_backup env m) (sm_path m)
      (jl_dump2 J (streamer_to_json (sm_config m))) = (tr, w)" by (rule prod.exhaust)
  with assms have m': "m' = m\<lparr>sm_fs := last tr\<rparr>" and "w = s" by (simp_all add: saveLocked_def)
  then show "sm_fs m' (sm_path m) = Some (jl_dump2 J (streamer_to_json (sm_config m)))" "sm_path m' = sm_path m"
    "sm_config m' = sm_config m"
    using atomicWriteFile_final(2) [OF aw] assms(2) by simp_all
qed

text \<open>C21. Speakers and zones survive a restart: when \<open>persist\<close> has succeeded and the program is started
  again on the same disk (the file readable), the registry has the same speakers in the same order
  and the zone manager the same zones; a token that was set is kept.\<close>

theorem restart_restores_speakers:
  assumes "getters_exact J" "registry_inv r" "list_all (\<lambda>s. int32 (sp_control_port s)) r"
    and "typed_config (sm_config m)" "is_object dsp"
    and saved: "persist_app J env m r zm dsp = (m', st)" "st_ok st"
    and json: "jl_parse J (jl_dump2 J (streamer_to_json (sm_config m'))) = Some (streamer_to_json (sm_config m'))"
    and "ce_readable env' (sm_path m)"
    and up: "startup_config J env' env2 fresh (streamer_cfgman_new (sm_path m) (sm_fs m')) = (m2, r2, token, zm2)"
  shows "r2 = r \<and> zm_zones zm2 = zm_zones zm \<and>
    (wc_auth_token (sc_web (sm_config m)) \<noteq> [] \<longrightarrow> token = wc_auth_token (sc_web (sm_config m)))"
proof -
  let ?c = "(sm_config m)\<lparr>sc_speakers := map record_of r, sc_zones := map zone_record_of (zm_zones zm), sc_dsp := dsp\<rparr>"
  let ?m = "streamer_cfgman_new (sm_path m) (sm_fs m')"
  have sv: "saveLocked J env (m\<lparr>sm_config := ?c\<rparr>) = (m', st)"
    using saved(1) by (simp add: persist_app_def streamer_update_def)
  have f: "sm_fs m' (sm_path m) = Some (jl_dump2 J (streamer_to_json ?c))" and c: "sm_config m' = ?c"
    using saveLocked_ok [OF sv saved(2)] by simp_all
  have "int32 45455" "int32 0" by (simp_all add: int32_def)
  then have "typed_config ?c"
    using assms(3-5) by (auto simp: typed_config_def list_all_iff record_of_def speaker_record_new_def)
  then have "streamer_from_json J (streamer_to_json ?c) = Some ?c"
    by (rule streamer_json_inv [OF assms(1)])
  then have p: "parse_streamer J (file_text env' (sm_fs m') (sm_path m)) = Some ?c"
    using f c json assms(9) by (simp add: parse_streamer_def file_text_def) (simp add: streamer_to_json_def)
  have start: "fst (streamer_start J env' ?m) = ?m\<lparr>sm_config := ?c, sm_state := Svc_Running\<rparr>"
    using f p by (simp add: streamer_start_def streamer_cfgman_new_def)
  have reg: "hydrate_registry ?c [] = r"
    using hydrate_inverse [of "[]" r] assms(2) by (simp add: hydrate_registry_def)
  have zs: "zm_zones (hydrate_zones (c'\<lparr>sc_zones := map zone_record_of (zm_zones zm)\<rparr>)) = zm_zones zm" for c'
    by (rule zones_inverse)
  have sz: "zm_zones (hydrate_zones c') = zm_zones zm" if "sc_zones c' = map zone_record_of (zm_zones zm)" for c'
    using zs [of c'] that by (metis hydrate_zones_def streamer_config.update_convs(4) streamer_config.surjective streamer_config.select_convs(4))
  have "sc_zones (sm_config m2) = map zone_record_of (zm_zones zm)"
    using up by (auto simp: startup_config_def Let_def start streamer_update_def saveLocked_def split: if_splits prod.splits)
  then show ?thesis
    using up sz by (auto simp: startup_config_def Let_def start reg split: if_splits)
qed

definition demo_kitchen :: speaker where
  "demo_kitchen = \<lparr>sp_device_id = ''spk-1'', sp_name = ''Kitchen'', sp_host = ''10.0.0.7'', sp_control_port = 45455\<rparr>"

definition demo_zone :: zone where
  "demo_zone = \<lparr>z_id = ''zone-1'', z_name = ''Downstairs'', z_members = [''spk-1'']\<rparr>"

definition demo_saved :: streamer_config where
  "demo_saved = streamer_config_new\<lparr>sc_web := web_new\<lparr>wc_auth_token := ''tok''\<rparr>\<rparr>"

definition demo_disk :: streamer_config where
  "demo_disk = demo_saved\<lparr>sc_speakers := [record_of demo_kitchen], sc_zones := [zone_record_of demo_zone]\<rparr>"

definition demo_streamer_lib :: json_lib where
  "demo_streamer_lib = demo_lib ''txt'' (streamer_to_json demo_disk)"

definition demo_cfgman :: streamer_cfgman where
  "demo_cfgman = (streamer_cfgman_new ''c'' Map.empty)\<lparr>sm_config := demo_saved\<rparr>"

definition demo_persisted :: "streamer_cfgman \<times> status" where
  "demo_persisted =
     persist_app demo_streamer_lib cfg_env_fine demo_cfgman [demo_kitchen] \<lparr>zm_zones = [demo_zone], zm_next = 2\<rparr> (JObj [])"

theorem restart_restores_speakers_witness:
  "case startup_config demo_streamer_lib cfg_env_fine cfg_env_fine ''new''
          (streamer_cfgman_new ''c'' (sm_fs (fst demo_persisted))) of
     (m2, r2, token, zm2) \<Rightarrow> r2 = [demo_kitchen] \<and> zm_zones zm2 = [demo_zone] \<and> token = ''tok''"
proof -
  obtain m' st where p: "demo_persisted = (m', st)" by (rule prod.exhaust)
  obtain m2 r2 tok zm2 where u: "startup_config demo_streamer_lib cfg_env_fine cfg_env_fine ''new''
      (streamer_cfgman_new ''c'' (sm_fs m')) = (m2, r2, tok, zm2)" by (rule prod_cases4)
  have path: "sm_path demo_cfgman = ''c''" by (simp add: demo_cfgman_def streamer_cfgman_new_def)
  have sv: "saveLocked demo_streamer_lib cfg_env_fine (demo_cfgman\<lparr>sm_config := demo_disk\<rparr>) = (m', st)"
    using p by (simp add: demo_persisted_def persist_app_def streamer_update_def demo_cfgman_def demo_disk_def demo_saved_def
        streamer_config_new_def)
  have ok: "st_ok st" using sv atomicWriteFile_fine
    by (auto simp: saveLocked_def cfg_env_fine_def split: prod.splits dest: arg_cong [where f = snd])
  have cfg: "sm_config m' = demo_disk" using saveLocked_ok(3) [OF sv ok] by simp
  have "r2 = [demo_kitchen] \<and> zm_zones zm2 = zm_zones \<lparr>zm_zones = [demo_zone], zm_next = 2\<rparr> \<and>
    (wc_auth_token (sc_web (sm_config demo_cfgman)) \<noteq> [] \<longrightarrow> tok = wc_auth_token (sc_web (sm_config demo_cfgman)))"
    by (rule restart_restores_speakers [OF _ _ _ _ _ p [unfolded demo_persisted_def] ok _ _ u [folded path]])
      (simp_all add: cfg demo_streamer_lib_def demo_kitchen_def registry_inv_def int32_def demo_cfgman_def
        streamer_cfgman_new_def demo_saved_def streamer_config_new_def typed_config_def stream_audio_new_def
        stream_network_new_def web_new_def cfg_env_fine_def)
  then show ?thesis unfolding p fst_conv u by (simp add: demo_cfgman_def demo_saved_def streamer_config_new_def)
qed

text \<open>A boot that recovers from the backup when the damaged file cannot be renamed copies that damaged file
  over the good backup before it writes: if the write then fails, both files are damaged.\<close>

lemma recovery_can_destroy_backup:
  assumes "sm_fs m (sm_path m) = Some bad" "sm_fs m (sm_path m @ ''.bak'') = Some good"
    and "parse_streamer J (file_text env (sm_fs m) (sm_path m)) = None"
    and "parse_streamer J (file_text env (sm_fs m) (sm_path m @ ''.bak'')) = Some c"
    and "\<not> ce_rename env" "ce_copy env" "\<not> os_open (ce_write env)"
  shows "sm_fs (fst (streamer_start J env m)) (sm_path m @ ''.bak'') = Some bad"
  using assms by (simp add: streamer_start_def set_aside_def saveLocked_def roll_backup_def atomicWriteFile_def)

end
