(* ===== verification/Audio_Source.thy ===== *)
theory Audio_Source
  imports Playback
begin

text \<open>
  The PCM sources of the Streamer (\<open>streamer/src/sources/\<close>): the interface \<open>IAudioSource\<close> as a locale,
  and its implementations \<open>MemoryAudioSource\<close>, \<open>StdinPcmSource\<close> and \<open>WavFileSource\<close>. A file is the list of
  the bytes that are still to be read from it (a regular file, or a pipe whose reads block until data
  or the end of file arrive); the value \<open>None\<close> of a WAV operation stands for undefined behaviour.
\<close>

unbundle bit_operations_syntax

section \<open>The interface\<close>

text \<open>
  \<open>rd s n\<close> is \<open>read(n, out)\<close>: the next state, the samples appended and the number of frames; \<open>ex\<close> is
  \<open>exhausted()\<close>, \<open>ch\<close> the number of channels of a state and \<open>left\<close> the samples still to come. A finite source
  hands them out in order, in full blocks while there are any.
\<close>

locale finite_source =
  fixes rd :: "'s \<Rightarrow> nat \<Rightarrow> 's \<times> i16 list \<times> nat"
    and ex :: "'s \<Rightarrow> bool"
    and ch :: "'s \<Rightarrow> nat"
    and left :: "'s \<Rightarrow> i16 list"
    and ok :: "'s \<Rightarrow> bool"
  assumes rd_ok: "ok s \<Longrightarrow> 0 < n \<Longrightarrow> rd s n = (s', out, k) \<Longrightarrow> ok s' \<and> ch s' = ch s"
    and rd_out: "ok s \<Longrightarrow> 0 < n \<Longrightarrow> rd s n = (s', out, k) \<Longrightarrow> out = take (n * ch s) (left s)"
    and rd_left: "ok s \<Longrightarrow> 0 < n \<Longrightarrow> rd s n = (s', out, k) \<Longrightarrow> left s' = drop (n * ch s) (left s)"
    and rd_frames: "ok s \<Longrightarrow> 0 < n \<Longrightarrow> rd s n = (s', out, k) \<Longrightarrow> length out = k * ch s"
    and ex_left: "ok s \<Longrightarrow> ex s \<Longrightarrow> left s = []"
    and ch_pos: "ok s \<Longrightarrow> 0 < ch s"
begin

text \<open>A read of no frames happens at the end only, and a read of some frames makes progress.\<close>

lemma no_frames_at_end: "ok s \<Longrightarrow> 0 < n \<Longrightarrow> rd s n = (s', out, 0) \<Longrightarrow> left s = []"
  using rd_out [of s n s' out 0] rd_frames [of s n s' out 0] ch_pos [of s]
  by (auto simp: min_def split: if_splits)

lemma some_frames_progress: "ok s \<Longrightarrow> 0 < n \<Longrightarrow> rd s n = (s', out, Suc k) \<Longrightarrow> length (left s') < length (left s)"
  using rd_out [of s n s' out "Suc k"] rd_left [of s n s' out "Suc k"] rd_frames [of s n s' out "Suc k"] ch_pos [of s]
  by (auto simp: min_def split: if_splits)

lemma frames_bound: "ok s \<Longrightarrow> 0 < n \<Longrightarrow> rd s n = (s', out, k) \<Longrightarrow> k \<le> n"
  using rd_out [of s n s' out k] rd_frames [of s n s' out k] ch_pos [of s]
  by (metis length_take min.cobounded2 mult_le_cancel2)

end

section \<open>\<open>MemoryAudioSource\<close>\<close>

record memory_source =
  ms_samples :: "i16 list"
  ms_channels :: nat
  ms_pos_frames :: nat

definition memory_new :: "i16 list \<Rightarrow> nat \<Rightarrow> memory_source" where
  "memory_new ss c = \<lparr>ms_samples = ss, ms_channels = c, ms_pos_frames = 0\<rparr>"

definition memory_read :: "memory_source \<Rightarrow> nat \<Rightarrow> memory_source \<times> i16 list \<times> nat" where
  "memory_read s max_frames =
     (let total = length (ms_samples s) div ms_channels s;
          n = min max_frames (total - ms_pos_frames s);
          first = ms_pos_frames s * ms_channels s;
          count = n * ms_channels s in
      (s\<lparr>ms_pos_frames := ms_pos_frames s + n\<rparr>, take count (drop first (ms_samples s)), n))"

definition memory_exhausted :: "memory_source \<Rightarrow> bool" where
  "memory_exhausted s \<longleftrightarrow> ms_pos_frames s \<ge> length (ms_samples s) div ms_channels s"

definition whole_frames :: "nat \<Rightarrow> 'a list \<Rightarrow> 'a list" where
  "whole_frames c xs = take (length xs div c * c) xs"

definition memory_left :: "memory_source \<Rightarrow> i16 list" where
  "memory_left s = drop (ms_pos_frames s * ms_channels s) (whole_frames (ms_channels s) (ms_samples s))"

definition memory_ok :: "memory_source \<Rightarrow> bool" where
  "memory_ok s \<longleftrightarrow> 0 < ms_channels s \<and> ms_pos_frames s \<le> length (ms_samples s) div ms_channels s"

lemma length_whole_frames: "length (whole_frames c xs) = length xs div c * c"
  by (simp add: whole_frames_def)

lemma memory_take:
  assumes "memory_ok s"
  shows "take (min n (length (ms_samples s) div ms_channels s - ms_pos_frames s) * ms_channels s)
      (drop (ms_pos_frames s * ms_channels s) (ms_samples s)) = take (n * ms_channels s) (memory_left s)"
proof -
  let ?c = "ms_channels s" and ?t = "length (ms_samples s) div ms_channels s" and ?p = "ms_pos_frames s"
  have "min (n * ?c) (?t * ?c - ?p * ?c) = min n (?t - ?p) * ?c"
    by (simp add: nat_mult_min_left diff_mult_distrib)
  then show ?thesis by (simp add: memory_left_def whole_frames_def drop_take)
qed

interpretation mem: finite_source memory_read memory_exhausted ms_channels memory_left memory_ok
proof
  fix s s' :: memory_source and n k :: nat and out :: "i16 list"
  assume ok: "memory_ok s" and r: "memory_read s n = (s', out, k)"
  let ?c = "ms_channels s" and ?t = "length (ms_samples s) div ms_channels s" and ?p = "ms_pos_frames s"
  have s': "s' = s\<lparr>ms_pos_frames := ?p + min n (?t - ?p)\<rparr>" and k: "k = min n (?t - ?p)"
    and out: "out = take (n * ?c) (memory_left s)"
    using r memory_take [OF ok, of n] by (auto simp: memory_read_def Let_def)
  show "memory_ok s' \<and> ms_channels s' = ms_channels s" using ok s' by (auto simp: memory_ok_def)
  show "out = take (n * ?c) (memory_left s)" by (rule out)
  have "drop ((?p + min n (?t - ?p)) * ?c) (whole_frames ?c (ms_samples s)) =
      drop ((?p + n) * ?c) (whole_frames ?c (ms_samples s))"
  proof (cases "n \<le> ?t - ?p")
    case False
    then have "?t \<le> ?p + n" "?t \<le> ?p + min n (?t - ?p)" by simp_all
    then have "?t * ?c \<le> (?p + n) * ?c" "?t * ?c \<le> (?p + min n (?t - ?p)) * ?c" by (simp_all only: mult_le_mono1)
    then show ?thesis by (simp only: drop_all length_whole_frames)
  qed (simp add: min_def)
  then show "memory_left s' = drop (n * ?c) (memory_left s)"
    by (simp add: s' memory_left_def algebra_simps)
  have "length out = min (n * ?c) (?t * ?c - ?p * ?c)"
    by (simp add: out memory_left_def length_whole_frames)
  then show "length out = k * ?c" by (simp add: k nat_mult_min_left diff_mult_distrib)
next
  fix s assume ok: "memory_ok s"
  then show "0 < ms_channels s" by (simp add: memory_ok_def)
  assume "memory_exhausted s"
  then have "length (ms_samples s) div ms_channels s * ms_channels s \<le> ms_pos_frames s * ms_channels s"
    unfolding memory_exhausted_def by (rule mult_le_mono1)
  then show "memory_left s = []" by (simp add: memory_left_def length_whole_frames)
qed

lemma memory_exhausted_iff: "memory_ok s \<Longrightarrow> memory_exhausted s \<longleftrightarrow> memory_left s = []"
  using mem.ex_left [of s]
  by (auto simp: memory_exhausted_def memory_left_def length_whole_frames memory_ok_def)

section \<open>Little-endian fields\<close>

definition le32 :: "byte list \<Rightarrow> u32" where
  "le32 p = ucast (p ! 0) OR push_bit 8 (ucast (p ! 1)) OR push_bit 16 (ucast (p ! 2)) OR push_bit 24 (ucast (p ! 3))"

definition le16 :: "byte list \<Rightarrow> i16" where
  "le16 p = ucast (p ! 0) OR push_bit 8 (ucast (p ! 1))"

section \<open>\<open>StdinPcmSource\<close>\<close>

record stdin_source =
  st_in :: "byte list"
  st_channels :: nat
  st_eof :: bool

text \<open>\<open>fread\<close> of 16-bit items: it consumes up to \<open>want\<close> items, and a trailing odd byte at the end of file.\<close>

definition stdin_read :: "stdin_source \<Rightarrow> nat \<Rightarrow> stdin_source \<times> i16 list \<times> nat" where
  "stdin_read s max_frames =
     (let want = max_frames * st_channels s;
          got = min want (length (st_in s) div 2);
          frames = got div st_channels s in
      (s\<lparr>st_in := drop (2 * want) (st_in s), st_eof := (if got = 0 then True else st_eof s)\<rparr>,
       take (frames * st_channels s) (samples_of_bytes got (st_in s)), frames))"

definition pcm :: "byte list \<Rightarrow> i16 list" where
  "pcm bs = samples_of_bytes (length bs div 2) bs"

definition stdin_left :: "stdin_source \<Rightarrow> i16 list" where
  "stdin_left s = whole_frames (st_channels s) (pcm (st_in s))"

definition stdin_ok :: "stdin_source \<Rightarrow> bool" where
  "stdin_ok s \<longleftrightarrow> 0 < st_channels s \<and> (st_eof s \<longrightarrow> st_in s = [])"

lemma take_samples_of_bytes: "take k (samples_of_bytes n bs) = samples_of_bytes (min k n) bs"
proof (induction n bs arbitrary: k rule: samples_of_bytes.induct)
  case (1 n b0 b1 bs)
  then show ?case by (cases k) simp_all
qed (auto simp: min_def split: nat.split)

lemma drop_samples_of_bytes: "drop k (samples_of_bytes n bs) = samples_of_bytes (n - k) (drop (2 * k) bs)"
proof (induction n bs arbitrary: k rule: samples_of_bytes.induct)
  case (1 n b0 b1 bs)
  then show ?case by (cases k) simp_all
qed (simp_all add: drop_Cons split: nat.split)

lemma length_pcm: "length (pcm bs) = length bs div 2"
  by (simp add: pcm_def length_samples_of_bytes)

lemma take_pcm: "k \<le> length bs div 2 \<Longrightarrow> samples_of_bytes k bs = take k (pcm bs)"
  by (simp add: pcm_def take_samples_of_bytes)

lemma drop_pcm: "drop k (pcm bs) = pcm (drop (2 * k) bs)"
proof -
  have "length bs div 2 - k = (length bs - 2 * k) div 2" by presburger
  then show ?thesis by (simp add: pcm_def drop_samples_of_bytes)
qed

lemma take_whole_frames: "0 < c \<Longrightarrow> take (n * c) (whole_frames c xs) = take (min n (length xs div c) * c) xs"
  by (simp add: whole_frames_def nat_mult_min_left)

lemma div_diff_multiple: "0 < (c :: nat) \<Longrightarrow> (l - n * c) div c = l div c - n"
proof (cases "n * c \<le> l")
  case True
  assume "0 < c"
  from True obtain r where "l = n * c + r" by (rule le_Suc_ex [THEN exE])
  with \<open>0 < c\<close> show ?thesis by simp
next
  case False
  assume "0 < c"
  then have "l div c < n" using False by (simp add: less_mult_imp_div_less)
  with False show ?thesis by simp
qed

lemma drop_whole_frames: "0 < c \<Longrightarrow> drop (n * c) (whole_frames c xs) = whole_frames c (drop (n * c) xs)"
  by (simp add: whole_frames_def drop_take diff_mult_distrib div_diff_multiple)

lemma min_div_frames: "0 < (c :: nat) \<Longrightarrow> min (n * c) l div c = min n (l div c)"
  by (metis div_le_mono div_mult_self_is_m min.absorb1 min.absorb2 nat_le_linear)

interpretation inp: finite_source stdin_read st_eof st_channels stdin_left stdin_ok
proof
  fix s s' :: stdin_source and n k :: nat and out :: "i16 list"
  assume ok: "stdin_ok s" and n: "0 < n" and r: "stdin_read s n = (s', out, k)"
  let ?c = "st_channels s" and ?l = "length (st_in s) div 2"
  have c: "0 < ?c" using ok by (simp add: stdin_ok_def)
  have k: "k = min n (?l div ?c)"
    using r c by (simp add: stdin_read_def Let_def min_div_frames)
  have s': "s' = s\<lparr>st_in := drop (2 * (n * ?c)) (st_in s), st_eof := (if min (n * ?c) ?l = 0 then True else st_eof s)\<rparr>"
    using r by (simp add: stdin_read_def Let_def)
  have out: "out = take (k * ?c) (samples_of_bytes (min (n * ?c) ?l) (st_in s))"
    using r by (auto simp: stdin_read_def Let_def)
  have kl: "k * ?c \<le> n * ?c" "k * ?c \<le> ?l"
    by (simp_all add: k nat_mult_min_left min_le_iff_disj)
  then have out': "out = take (k * ?c) (pcm (st_in s))"
    by (simp add: out take_samples_of_bytes pcm_def)
  have fin: "st_in s' = []" if "st_eof s'"
  proof (cases "st_eof s")
    case False
    then have "min (n * ?c) ?l = 0" using that by (simp add: s' split: if_splits)
    moreover have pos: "1 \<le> n * ?c" using n c by simp
    ultimately have "?l = 0" by linarith
    then have "length (st_in s) \<le> 1" by simp
    with pos have "length (st_in s) \<le> 2 * (n * ?c)" by linarith
    then show ?thesis by (simp add: s')
  qed (use ok in \<open>simp add: s' stdin_ok_def\<close>)
  have "st_channels s' = ?c" by (simp add: s')
  with fin c show "stdin_ok s' \<and> st_channels s' = st_channels s" unfolding stdin_ok_def by simp
  show "out = take (n * ?c) (stdin_left s)"
    using c by (simp add: out' k stdin_left_def take_whole_frames length_pcm)
  show "stdin_left s' = drop (n * ?c) (stdin_left s)"
    using c by (simp add: s' stdin_left_def drop_whole_frames drop_pcm)
  show "length out = k * ?c" using kl by (simp add: out' length_pcm)
next
  fix s assume ok: "stdin_ok s"
  then show "0 < st_channels s" by (simp add: stdin_ok_def)
  assume "st_eof s"
  with ok show "stdin_left s = []" by (simp add: stdin_ok_def stdin_left_def whole_frames_def length_pcm)
qed

section \<open>\<open>WavFileSource\<close>: state and opening\<close>

text \<open>
  \<open>w_rest\<close> are the bytes of the file after the read position. The positions of the resampler are
  \<open>double\<close> values; they stay far from overflow, so a real with the rounding of each operation is enough.
\<close>

record wav =
  w_rest :: "byte list"
  w_src_rate :: int
  w_src_channels :: nat
  w_bits :: nat
  w_data_remaining :: nat
  w_exhausted :: bool
  w_pos :: real
  w_pending :: "i16 list"
  w_source_eof :: bool

definition wav_new :: "byte list \<Rightarrow> wav" where
  "wav_new bs = \<lparr>w_rest = bs, w_src_rate = 48000, w_src_channels = 2, w_bits = 16, w_data_remaining = 0,
     w_exhausted = False, w_pos = 0, w_pending = [], w_source_eof = False\<rparr>"

definition ascii :: "string \<Rightarrow> byte list" where
  "ascii s = map (\<lambda>c. of_nat (of_char c)) s"

definition invalid :: "string \<Rightarrow> wav result option" where
  "invalid msg = Some (Inl (mk_error Ec_InvalidArg msg))"

text \<open>The fields of a format chunk, and the checks on them; reading a chunk of fewer than 16 bytes runs past
  the vector that holds it.\<close>

definition read_fmt :: "byte list \<Rightarrow> wav \<Rightarrow> i16 \<times> wav" where
  "read_fmt fmt w =
     (le16 fmt, w\<lparr>w_src_channels := unat (le16 (drop 2 fmt)), w_src_rate := sint (le32 (drop 4 fmt)),
                 w_bits := unat (le16 (drop 14 fmt))\<rparr>)"

definition fmt_error :: "i16 \<Rightarrow> wav \<Rightarrow> string option" where
  "fmt_error format w =
     (if format \<noteq> 1 then
        Some (''wav is not uncompressed PCM (format '' @ show_nat (unat format) @ ''); use a file source that decodes it'')
      else if w_bits w \<noteq> 16 then Some (''unsupported wav bit depth: '' @ show_nat (w_bits w))
      else if w_src_channels w < 1 \<or> w_src_rate w \<le> 0 then Some ''wav header has invalid rate/channels''
      else None)"

function (sequential) walk_chunks :: "string \<Rightarrow> wav \<Rightarrow> bool \<Rightarrow> wav result option" where
  "walk_chunks path w have_fmt =
     (let bs = w_rest w in
      if length bs < 8 then invalid (''wav has no data chunk: '' @ path)
      else
        let tag = take 4 bs; size = le32 (drop 4 bs); body = drop 8 bs in
        if tag = ascii ''fmt '' then
          if length body < unat size then invalid (''wav has no data chunk: '' @ path)
          else if unat size < 16 then None
          else case read_fmt (take (unat size) body) w of (format, w1) \<Rightarrow>
            (case fmt_error format w1 of
               Some msg \<Rightarrow> invalid msg
             | None \<Rightarrow> walk_chunks path (w1\<lparr>w_rest := drop (unat size) body\<rparr>) True)
        else if tag = ascii ''data'' then
          if \<not> have_fmt then invalid ''wav data chunk before fmt''
          else Some (Inr (w\<lparr>w_rest := body, w_data_remaining := unat size\<rparr>))
        else walk_chunks path (w\<lparr>w_rest := drop (unat (size + (size AND 1))) body\<rparr>) have_fmt)"
  by pat_completeness auto
termination
  by (relation "measure (\<lambda>(path, w, have_fmt). length (w_rest w))") (auto simp: read_fmt_def)

definition wav_open :: "byte list option \<Rightarrow> string \<Rightarrow> wav result option" where
  "wav_open contents path =
     (case contents of
        None \<Rightarrow> Some (Inl (mk_error Ec_NotFound (''cannot open wav: '' @ path)))
      | Some bs \<Rightarrow>
          if length bs < 12 \<or> take 4 bs \<noteq> ascii ''RIFF'' \<or> take 4 (drop 8 bs) \<noteq> ascii ''WAVE''
          then invalid (''not a RIFF/WAVE file: '' @ path)
          else walk_chunks path (wav_new (drop 12 bs)) False)"

section \<open>\<open>WavFileSource\<close>: reading\<close>

definition bytes_per_frame :: "wav \<Rightarrow> nat" where
  "bytes_per_frame w = w_src_channels w * 2"

definition stereo_frame :: "nat \<Rightarrow> byte list \<Rightarrow> i16 list" where
  "stereo_frame c p = (let l = le16 p; r = (if c > 1 then le16 (drop 2 p) else l) in [l, r])"

definition decode_frames :: "nat \<Rightarrow> nat \<Rightarrow> byte list \<Rightarrow> i16 list" where
  "decode_frames c k raw = concat (map (\<lambda>i. stereo_frame c (drop (i * (c * 2)) raw)) [0..<k])"

definition readSourceFrames :: "wav \<Rightarrow> nat \<Rightarrow> wav \<times> i16 list \<times> nat" where
  "readSourceFrames w frames =
     (if frames = 0 \<or> w_data_remaining w = 0 then (w, [], 0)
      else
        let want = min (frames * bytes_per_frame w) (w_data_remaining w) in
        if want = 0 then (w, [], 0)
        else
          let raw = take want (w_rest w);
              got = length raw;
              got_frames = got div bytes_per_frame w in
          (w\<lparr>w_rest := drop want (w_rest w), w_data_remaining := w_data_remaining w - got\<rparr>,
           decode_frames (w_src_channels w) got_frames raw, got_frames))"

text \<open>The inner loop of \<open>read\<close>: decode 1024 more frames until two beyond the position are there or the file
  has ended.\<close>

lemma decode_frames_0 [simp]: "decode_frames c 0 raw = []"
  by (simp add: decode_frames_def)

lemma readSourceFrames_eq:
  "readSourceFrames w n =
     (let want = min (n * bytes_per_frame w) (w_data_remaining w);
          got = length (take want (w_rest w)) in
      (w\<lparr>w_rest := drop want (w_rest w), w_data_remaining := w_data_remaining w - got\<rparr>,
       decode_frames (w_src_channels w) (got div bytes_per_frame w) (take want (w_rest w)), got div bytes_per_frame w))"
  by (simp add: readSourceFrames_def Let_def)

lemma readSourceFrames_rest:
  assumes "readSourceFrames w n = (w', out, k)" "out \<noteq> []"
  shows "length (w_rest w') < length (w_rest w)"
proof -
  let ?want = "min (n * bytes_per_frame w) (w_data_remaining w)"
  have "length (take ?want (w_rest w)) div bytes_per_frame w \<noteq> 0"
    using assms by (intro notI) (auto simp: readSourceFrames_eq Let_def)
  then have "take ?want (w_rest w) \<noteq> []" by (intro notI) simp
  then have "?want \<noteq> 0" "w_rest w \<noteq> []" by (auto simp del: min_0L min_0R)
  moreover have "w_rest w' = drop ?want (w_rest w)" using assms by (auto simp: readSourceFrames_eq Let_def)
  ultimately show ?thesis by simp
qed

lemma readSourceFrames_eof: "readSourceFrames w n = (w', out, k) \<Longrightarrow> w_source_eof w' = w_source_eof w"
  by (auto simp: readSourceFrames_eq Let_def)

function (sequential) fill_pending :: "wav \<Rightarrow> nat \<Rightarrow> wav" where
  "fill_pending w need_index =
     (if w_source_eof w \<or> length (w_pending w) div 2 > need_index then w
      else
        case readSourceFrames w 1024 of (w', out, k) \<Rightarrow>
          if out = [] then fill_pending (w'\<lparr>w_source_eof := True\<rparr>) need_index
          else fill_pending (w'\<lparr>w_pending := w_pending w @ out\<rparr>) need_index)"
  by pat_completeness auto
termination
  by (relation "measures [\<lambda>(w, n). if w_source_eof w then 0 else 1, \<lambda>(w, n). length (w_rest w)]")
    (auto dest: readSourceFrames_rest [OF sym] readSourceFrames_eof [OF sym])

declare walk_chunks.simps [simp del] fill_pending.simps [simp del]

text \<open>One frame between two neighbours: \<open>a + (b - a) * frac\<close> in \<open>double\<close> arithmetic, converted to 16 bits.\<close>

definition interpolate :: "rounding \<Rightarrow> i16 \<Rightarrow> i16 \<Rightarrow> real \<Rightarrow> i16" where
  "interpolate rnd a b fr =
     of_int (trunc (rnd (of_int (sint a) + rnd (rnd (of_int (sint b) - of_int (sint a)) * fr))))"

text \<open>The frame at source index i, and the step to the next position. Consumed frames are erased once the
  position is beyond 4096; erasing more than the pending samples is undefined behaviour.\<close>

definition frame_at :: "rounding \<Rightarrow> wav \<Rightarrow> nat \<Rightarrow> i16 list" where
  "frame_at rnd w i =
     (let fr = rnd (w_pos w - of_nat i) in
      map (\<lambda>c. interpolate rnd (w_pending w ! (i * 2 + c)) (w_pending w ! ((i + 1) * 2 + c)) fr) [0, 1])"

definition step_position :: "rounding \<Rightarrow> wav \<Rightarrow> wav option" where
  "step_position rnd w =
     (let pos = rnd (w_pos w + rnd (of_int (w_src_rate w) / 48000));
          consumed = nat \<lfloor>pos\<rfloor> - 1 in
      if pos > 4096 then
        if consumed * 2 > length (w_pending w) then None
        else Some (w\<lparr>w_pending := drop (consumed * 2) (w_pending w), w_pos := rnd (pos - of_nat consumed)\<rparr>)
      else Some (w\<lparr>w_pos := pos\<rparr>))"

text \<open>The resampling loop, with the number of frames still to produce.\<close>

primrec resample :: "rounding \<Rightarrow> nat \<Rightarrow> wav \<Rightarrow> (wav \<times> i16 list \<times> nat) option" where
  "resample rnd 0 w = Some (w, [], 0)"
| "resample rnd (Suc room) w =
     (let i = nat \<lfloor>w_pos w\<rfloor>;
          w1 = fill_pending w (i + 2);
          available = length (w_pending w1) div 2 in
      if i + 1 \<ge> available then Some (if w_source_eof w1 then w1\<lparr>w_exhausted := True\<rparr> else w1, [], 0)
      else
        case step_position rnd w1 of
          None \<Rightarrow> None
        | Some w2 \<Rightarrow>
            (case resample rnd room w2 of
               None \<Rightarrow> None
             | Some (w', rest, n) \<Rightarrow> Some (w', frame_at rnd w1 i @ rest, Suc n)))"

definition wav_read :: "rounding \<Rightarrow> wav \<Rightarrow> nat \<Rightarrow> (wav \<times> i16 list \<times> nat) option" where
  "wav_read rnd w max_frames =
     (if w_exhausted w \<or> max_frames = 0 then Some (w, [], 0)
      else if w_src_rate w = 48000 then
        case readSourceFrames w max_frames of (w', out, n) \<Rightarrow>
          Some (if n = 0 then w'\<lparr>w_exhausted := True\<rparr> else w', out, n)
      else
        case resample rnd max_frames w of
          None \<Rightarrow> None
        | Some (w', out, n) \<Rightarrow> Some (if n = 0 then w'\<lparr>w_exhausted := True\<rparr> else w', out, n))"

section \<open>What a WAV source still holds\<close>

definition avail :: "wav \<Rightarrow> byte list" where
  "avail w = take (w_data_remaining w) (w_rest w)"

definition wav_left :: "wav \<Rightarrow> i16 list" where
  "wav_left w = decode_frames (w_src_channels w) (length (avail w) div bytes_per_frame w) (avail w)"

lemma take_concat_pairs: "list_all (\<lambda>x. length x = 2) xss \<Longrightarrow> take (2 * n) (concat xss) = concat (take n xss)"
proof (induction xss arbitrary: n)
  case (Cons xs xss)
  then show ?case by (cases n) simp_all
qed simp

lemma drop_concat_pairs: "list_all (\<lambda>x. length x = 2) xss \<Longrightarrow> drop (2 * n) (concat xss) = concat (drop n xss)"
proof (induction xss arbitrary: n)
  case (Cons xs xss)
  then show ?case by (cases n) simp_all
qed simp

lemma length_stereo_frame [simp]: "length (stereo_frame c p) = 2"
  by (simp add: stereo_frame_def Let_def)

lemma pairs_stereo: "list_all (\<lambda>x. length x = 2) (map (\<lambda>i. stereo_frame c (f i)) xs)"
  by (simp add: list_all_iff)

lemma length_decode_frames [simp]: "length (decode_frames c k raw) = 2 * k"
  by (induction k) (simp_all add: decode_frames_def)

lemma take_decode_frames: "take (2 * n) (decode_frames c k raw) = decode_frames c (min n k) raw"
  by (cases "n \<le> k") (simp_all add: decode_frames_def take_concat_pairs pairs_stereo take_map)

lemma drop_decode_frames: "drop (2 * n) (decode_frames c k raw) = decode_frames c (k - n) (drop (n * (c * 2)) raw)"
proof -
  have "map (\<lambda>i. stereo_frame c (drop (i * (c * 2)) raw)) [n..<k] =
      map (\<lambda>i. stereo_frame c (drop (i * (c * 2)) (drop (n * (c * 2)) raw))) [0..<k - n]"
    by (rule nth_equalityI) (simp_all add: algebra_simps)
  then show ?thesis by (simp add: decode_frames_def drop_concat_pairs pairs_stereo drop_map)
qed

lemma decode_frames_take:
  assumes "0 < c" "k * (c * 2) \<le> m"
  shows "decode_frames c k (take m raw) = decode_frames c k raw"
proof -
  have "stereo_frame c (drop (i * (c * 2)) (take m raw)) = stereo_frame c (drop (i * (c * 2)) raw)" if "i < k" for i
  proof -
    have "Suc i * (c * 2) \<le> k * (c * 2)" using that by (intro mult_le_mono1) simp
    then have m: "c * 2 \<le> m - i * (c * 2)" using assms(2) by simp
    have "c > 1 \<Longrightarrow> 4 \<le> m - i * (c * 2)" "2 \<le> m - i * (c * 2)" using m assms(1) by linarith+
    then show ?thesis by (auto simp: drop_take stereo_frame_def le16_def Let_def)
  qed
  then have "map (\<lambda>i. stereo_frame c (drop (i * (c * 2)) (take m raw))) [0..<k] =
      map (\<lambda>i. stereo_frame c (drop (i * (c * 2)) raw)) [0..<k]" by (intro map_cong) simp_all
  then show ?thesis by (simp only: decode_frames_def)
qed

lemma avail_step:
  "take (d - min (min m d) (length r)) (drop (min m d) r) = drop m (take d r)" for r :: "'a list"
  by (cases "m \<le> d"; cases "length r \<le> min m d") (simp_all add: drop_take min_def)

lemma read_left:
  assumes r: "readSourceFrames w n = (w', out, k)" and c: "0 < w_src_channels w"
  shows "out = take (2 * n) (wav_left w)" "wav_left w' = drop (2 * n) (wav_left w)" "length out = 2 * k"
    "\<exists>r d. w' = w\<lparr>w_rest := r, w_data_remaining := d\<rparr>"
proof -
  let ?b = "bytes_per_frame w" and ?d = "w_data_remaining w" and ?c = "w_src_channels w"
  let ?want = "min (n * ?b) ?d"
  have b: "?b = ?c * 2" "0 < ?b" using c by (simp_all add: bytes_per_frame_def)
  have raw: "take ?want (w_rest w) = take (n * ?b) (avail w)" by (simp add: avail_def)
  have k: "k = min n (length (avail w) div ?b)"
    using r by (auto simp: readSourceFrames_eq Let_def avail_def min_div_frames [OF b(2), symmetric] ac_simps)
  have w': "w' = w\<lparr>w_rest := drop ?want (w_rest w), w_data_remaining := ?d - min ?want (length (w_rest w))\<rparr>"
    using r by (auto simp: readSourceFrames_eq Let_def ac_simps)
  have "out = decode_frames ?c k (take (n * ?b) (avail w))"
    using r raw by (auto simp: readSourceFrames_eq Let_def)
  also have "\<dots> = decode_frames ?c k (avail w)"
    using b c by (intro decode_frames_take) (simp_all add: k)
  finally show "out = take (2 * n) (wav_left w)" "length out = 2 * k"
    by (simp_all add: wav_left_def take_decode_frames k)
  have "avail w' = drop (n * ?b) (avail w)" by (simp add: avail_def w' avail_step)
  moreover have "bytes_per_frame w' = ?b" "w_src_channels w' = ?c" by (simp_all add: w' bytes_per_frame_def)
  ultimately show "wav_left w' = drop (2 * n) (wav_left w)"
    using b by (simp add: wav_left_def drop_decode_frames div_diff_multiple)
  show "\<exists>r d. w' = w\<lparr>w_rest := r, w_data_remaining := d\<rparr>" using w' by blast
qed

section \<open>The source at the wire rate\<close>

definition wav48_ok :: "wav \<Rightarrow> bool" where
  "wav48_ok w \<longleftrightarrow> 0 < w_src_channels w \<and> w_src_rate w = 48000 \<and> (w_exhausted w \<longrightarrow> wav_left w = [])"

lemma wav_left_exhausted [simp]: "wav_left (w\<lparr>w_exhausted := b\<rparr>) = wav_left w"
  by (simp add: wav_left_def avail_def bytes_per_frame_def)

lemma wav48_read:
  assumes ok: "wav48_ok w" and n: "0 < n"
  shows "\<exists>w' k. wav_read rnd w n = Some (w', take (n * 2) (wav_left w), k) \<and> wav48_ok w' \<and>
    wav_left w' = drop (n * 2) (wav_left w) \<and> length (take (n * 2) (wav_left w)) = k * 2"
proof (cases "w_exhausted w")
  case True
  with ok show ?thesis by (simp add: wav_read_def wav48_ok_def)
next
  case False
  obtain w1 out k where r: "readSourceFrames w n = (w1, out, k)" by (rule prod_cases3)
  note rl = read_left [OF r]
  have c: "0 < w_src_channels w" "w_src_rate w = 48000" using ok by (simp_all add: wav48_ok_def)
  let ?w = "if k = 0 then w1\<lparr>w_exhausted := True\<rparr> else w1"
  have read: "wav_read rnd w n = Some (?w, out, k)" using False n c r by (simp add: wav_read_def)
  have "wav_left w1 = []" if "k = 0"
    using rl(1-3) [OF c(1)] n that by auto
  moreover have "w_src_channels w1 = w_src_channels w" "w_src_rate w1 = w_src_rate w" "w_exhausted w1 = w_exhausted w"
    using rl(4) [OF c(1)] by auto
  ultimately have "wav48_ok ?w" using c False by (simp add: wav48_ok_def)
  moreover have "out = take (n * 2) (wav_left w)" "wav_left ?w = drop (n * 2) (wav_left w)" "length out = k * 2"
    using rl(1-3) [OF c(1)] by (simp_all add: mult.commute)
  ultimately show ?thesis using read by blast
qed

interpretation wav48: finite_source "\<lambda>w n. the (wav_read rnd w n)" w_exhausted "\<lambda>_. 2" wav_left wav48_ok
  for rnd
proof
  fix s s' :: wav and n k :: nat and out :: "i16 list"
  assume "wav48_ok s" "0 < n" "the (wav_read rnd s n) = (s', out, k)"
  then show "wav48_ok s' \<and> (2 :: nat) = 2" "out = take (n * 2) (wav_left s)" "wav_left s' = drop (n * 2) (wav_left s)"
    "length out = k * 2"
    using wav48_read [of s n rnd] by auto
qed (simp_all add: wav48_ok_def)

end
