(* ===== verification/Wav_Resampler.thy ===== *)
theory Wav_Resampler
  imports Audio_Source
begin

text \<open>
  The resampling path of \<open>WavFileSource::read\<close>: for every rounding mode it stays inside its buffer and
  between the neighbouring samples, and in exact arithmetic it is linear interpolation of the decoded
  file at the positions \<open>k * rate / 48000\<close>. Rates of up to 96 kHz are covered; a lemma shows how a
  higher rate erases beyond the buffer.
\<close>

section \<open>Filling the buffer\<close>

definition buffered :: "wav \<Rightarrow> i16 list" where
  "buffered w = w_pending w @ wav_left w"

definition eof_inv :: "wav \<Rightarrow> bool" where
  "eof_inv w \<longleftrightarrow> 0 < w_src_channels w \<and> (w_source_eof w \<longrightarrow> wav_left w = [])"

lemma wav_left_cong:
  "w_rest w = w_rest v \<Longrightarrow> w_data_remaining w = w_data_remaining v \<Longrightarrow> w_src_channels w = w_src_channels v \<Longrightarrow>
     wav_left w = wav_left v"
  by (simp add: wav_left_def avail_def bytes_per_frame_def)

lemma wav_left_frame [simp]:
  "wav_left (w\<lparr>w_source_eof := b\<rparr>) = wav_left w" "wav_left (w\<lparr>w_pending := ps\<rparr>) = wav_left w"
  "wav_left (w\<lparr>w_pos := x\<rparr>) = wav_left w"
  by (simp_all add: wav_left_def avail_def bytes_per_frame_def)

definition refilled :: "wav \<Rightarrow> wav \<Rightarrow> bool" where
  "refilled w v \<longleftrightarrow> eof_inv v \<and> buffered v = buffered w \<and> w_pos v = w_pos w \<and> w_src_rate v = w_src_rate w \<and>
     w_exhausted v = w_exhausted w"

lemma refilled_trans: "refilled u v \<Longrightarrow> refilled v w \<Longrightarrow> refilled u w"
  by (simp add: refilled_def)

lemma refilled_read:
  assumes "eof_inv w" "readSourceFrames w 1024 = (w', out, k)" "\<not> w_source_eof w"
  shows "out = [] \<Longrightarrow> refilled w (w'\<lparr>w_source_eof := True\<rparr>)"
    and "refilled w (w'\<lparr>w_pending := w_pending w @ out\<rparr>)"
proof -
  have c: "0 < w_src_channels w" using assms(1) by (simp add: eof_inv_def)
  note rl = read_left [OF assms(2) c]
  obtain r d where w': "w' = w\<lparr>w_rest := r, w_data_remaining := d\<rparr>" using rl(4) by blast
  show "refilled w (w'\<lparr>w_source_eof := True\<rparr>)" if "out = []"
    using that rl(1,2) c by (simp add: refilled_def eof_inv_def buffered_def) (simp add: w')
  have "out @ wav_left w' = wav_left w" using rl(1,2) by (metis append_take_drop_id)
  then show "refilled w (w'\<lparr>w_pending := w_pending w @ out\<rparr>)"
    using c assms(3) by (simp add: refilled_def eof_inv_def buffered_def) (simp add: w')
qed

lemma fill_pending_refilled:
  "eof_inv w \<Longrightarrow> refilled w (fill_pending w m) \<and>
     (w_source_eof (fill_pending w m) \<or> m < length (w_pending (fill_pending w m)) div 2)"
proof (induction w m rule: fill_pending.induct)
  case (1 w m)
  obtain w' out k where r: "readSourceFrames w 1024 = (w', out, k)" by (rule prod_cases3)
  show ?case
  proof (cases "w_source_eof w \<or> length (w_pending w) div 2 > m")
    case True
    then show ?thesis using 1(3) by (subst (1 2 3) fill_pending.simps) (auto simp: refilled_def)
  next
    case False
    let ?v = "if out = [] then w'\<lparr>w_source_eof := True\<rparr> else w'\<lparr>w_pending := w_pending w @ out\<rparr>"
    have v: "refilled w ?v" using refilled_read [OF 1(3) r] False by simp
    have "fill_pending w m = fill_pending ?v m" using False r by (subst fill_pending.simps) simp
    moreover have "refilled ?v (fill_pending ?v m) \<and>
        (w_source_eof (fill_pending ?v m) \<or> m < length (w_pending (fill_pending ?v m)) div 2)"
      using 1(1,2) [OF False r [symmetric] refl] v by (auto simp: refilled_def)
    ultimately show ?thesis using refilled_trans [OF v] by simp
  qed
qed

section \<open>Every rounding mode: inside the buffer, between the neighbours\<close>

lemma ieee_round_nat: "ieee_round rnd \<Longrightarrow> n \<le> 2 ^ 53 \<Longrightarrow> rnd (real n) = real n"
  using ieee_round_int [of rnd "int n"] by simp

lemma scaled_between:
  fixes fr :: real
  assumes "0 \<le> fr" "fr \<le> 1"
  shows "of_int (min 0 d) \<le> of_int d * fr" "of_int d * fr \<le> of_int (max 0 d)"
proof -
  have "of_int d * fr \<le> of_int d" if "0 \<le> d" using that assms by (intro mult_left_le) simp_all
  moreover have "of_int d \<le> of_int d * fr" if "d < 0"
    using that assms mult_left_le [of fr "- of_int d"] by simp
  ultimately show "of_int (min 0 d) \<le> of_int d * fr" "of_int d * fr \<le> of_int (max 0 d)"
    using assms by (auto simp: min_def max_def mult_nonpos_nonneg)
qed

lemma interpolate_between:
  assumes rnd: "ieee_round rnd" and fr: "0 \<le> fr" "fr \<le> 1"
  shows "min (sint a) (sint b) \<le> sint (interpolate rnd a b fr)" "sint (interpolate rnd a b fr) \<le> max (sint a) (sint b)"
proof -
  define x y where "x = sint a" and "y = sint b"
  have ra: "-32768 \<le> x" "x \<le> 32767" "-32768 \<le> y" "y \<le> 32767"
    using sint_range [of a] sint_range [of b] by (auto simp: x_def y_def)
  have i: "rnd (of_int j) = of_int j" if "\<bar>j\<bar> \<le> 65536" for j
    using ieee_round_int [OF rnd, of j] that by simp
  have d: "rnd (of_int y - of_int x) = of_int (y - x)" using i [of "y - x"] ra by simp
  define p where "p = rnd (of_int (y - x) * fr)"
  have p: "of_int (min 0 (y - x)) \<le> p" "p \<le> of_int (max 0 (y - x))"
  proof -
    note scaled_between [OF fr, of "y - x"]
    then have "rnd (of_int (min 0 (y - x))) \<le> p" "p \<le> rnd (of_int (max 0 (y - x)))"
      unfolding p_def by (auto intro: ieee_round_mono [OF rnd])
    then show "of_int (min 0 (y - x)) \<le> p" "p \<le> of_int (max 0 (y - x))"
      using i [of "min 0 (y - x)"] i [of "max 0 (y - x)"] ra by (simp_all add: min_def max_def split: if_splits)
  qed
  have "of_int (min x y) \<le> of_int x + p" "of_int x + p \<le> of_int (max x y)"
    using p by (auto simp: min_def max_def split: if_splits)
  then have "rnd (of_int (min x y)) \<le> rnd (of_int x + p)" "rnd (of_int x + p) \<le> rnd (of_int (max x y))"
    by (auto intro: ieee_round_mono [OF rnd])
  then have "of_int (min x y) \<le> rnd (of_int x + p)" "rnd (of_int x + p) \<le> of_int (max x y)"
    using i [of "min x y"] i [of "max x y"] ra by (simp_all add: min_def max_def split: if_splits)
  moreover define q where "q = trunc (rnd (of_int x + p))"
  ultimately have t: "min x y \<le> q" "q \<le> max x y"
    using trunc_between [of "min x y" "rnd (of_int x + p)" "max x y"] by auto
  then have "-32768 \<le> q" "q \<le> 32767" using ra by linarith+
  moreover have "interpolate rnd a b fr = of_int q"
    unfolding interpolate_def x_def [symmetric] y_def [symmetric] d p_def [symmetric] q_def ..
  ultimately have "sint (interpolate rnd a b fr) = q" by (simp only: sint_of_int_range)
  with t show "min (sint a) (sint b) \<le> sint (interpolate rnd a b fr)" "sint (interpolate rnd a b fr) \<le> max (sint a) (sint b)"
    by (simp_all add: x_def y_def)
qed

text \<open>The state between two frames: the position is in the part of the buffer that is kept.\<close>

definition resampler_inv :: "wav \<Rightarrow> bool" where
  "resampler_inv w \<longleftrightarrow> eof_inv w \<and> 0 \<le> w_pos w \<and> w_pos w \<le> 4096 \<and> 0 < w_src_rate w \<and> w_src_rate w \<le> 96000"

lemma step_position_safe:
  assumes rnd: "ieee_round rnd" and inv: "resampler_inv w" and i: "nat \<lfloor>w_pos w\<rfloor> + 1 < length (w_pending w) div 2"
  shows "\<exists>w'. step_position rnd w = Some w' \<and> resampler_inv w' \<and> w_src_rate w' = w_src_rate w \<and>
    set (buffered w') \<subseteq> set (buffered w)"
proof -
  let ?i = "nat \<lfloor>w_pos w\<rfloor>" and ?s = "rnd (of_int (w_src_rate w) / 48000)"
  define pos where "pos = rnd (w_pos w + ?s)"
  define consumed where "consumed = nat \<lfloor>pos\<rfloor> - 1"
  have p: "0 \<le> w_pos w" "w_pos w \<le> 4096" and r: "0 < w_src_rate w" "w_src_rate w \<le> 96000"
    using inv by (simp_all add: resampler_inv_def)
  have two: "rnd 2 = 2" using ieee_round_int [OF rnd, of 2] by simp
  have s: "0 \<le> ?s" "?s \<le> 2"
    using ieee_round_mono [OF rnd, of 0 "of_int (w_src_rate w) / 48000"]
      ieee_round_mono [OF rnd, of "of_int (w_src_rate w) / 48000" 2] r two rnd by simp_all
  have pi: "w_pos w < real ?i + 1" using p by linarith
  have "?i \<le> 4096" using p by linarith
  then have i3: "rnd (real ?i + 3) = real ?i + 3" using ieee_round_nat [OF rnd, of "?i + 3"] by simp
  have "0 \<le> pos" using ieee_round_mono [OF rnd, of 0 "w_pos w + ?s"] p s rnd by (simp add: pos_def)
  moreover have "pos \<le> real ?i + 3"
    using ieee_round_mono [OF rnd, of "w_pos w + ?s" "real ?i + 3"] pi s i3 by (simp add: pos_def)
  ultimately have fits: "consumed * 2 \<le> length (w_pending w)" and pc: "real consumed \<le> pos"
    using i unfolding consumed_def by linarith+
  show ?thesis
  proof (cases "pos > 4096")
    case True
    let ?w = "w\<lparr>w_pending := drop (consumed * 2) (w_pending w), w_pos := rnd (pos - of_nat consumed)\<rparr>"
    have "pos - real consumed \<le> 2" using True unfolding consumed_def by linarith
    then have "rnd (pos - real consumed) \<le> 2" "0 \<le> rnd (pos - real consumed)"
      using ieee_round_mono [OF rnd, of "pos - real consumed" 2] ieee_round_mono [OF rnd, of 0 "pos - real consumed"] two rnd pc
      by simp_all
    then have "resampler_inv ?w" using inv by (auto simp: resampler_inv_def eof_inv_def)
    moreover have "step_position rnd w = Some ?w"
      using True fits unfolding step_position_def Let_def pos_def [symmetric] consumed_def [symmetric] by simp
    moreover have "set (buffered ?w) \<subseteq> set (buffered w)" by (auto simp: buffered_def dest: in_set_dropD)
    ultimately show ?thesis by auto
  next
    case False
    then have "step_position rnd w = Some (w\<lparr>w_pos := pos\<rparr>)"
      by (simp add: step_position_def Let_def flip: pos_def)
    then show ?thesis using False inv \<open>0 \<le> pos\<close> by (auto simp: resampler_inv_def eof_inv_def buffered_def)
  qed
qed

lemma frame_at_range:
  assumes rnd: "ieee_round rnd" and pos: "0 \<le> w_pos w" and i: "i = nat \<lfloor>w_pos w\<rfloor>" "i + 1 < length (w_pending w) div 2"
    and range: "\<And>s. s \<in> set (w_pending w) \<Longrightarrow> lo \<le> sint s \<and> sint s \<le> hi"
    and "x \<in> set (frame_at rnd w i)"
  shows "lo \<le> sint x \<and> sint x \<le> hi"
proof -
  let ?fr = "rnd (w_pos w - of_nat i)"
  have "0 \<le> w_pos w - of_nat i" "w_pos w - of_nat i \<le> 1" using pos i(1) by linarith+
  then have fr: "0 \<le> ?fr" "?fr \<le> 1"
    using ieee_round_mono [OF rnd, of 0 "w_pos w - of_nat i"] ieee_round_mono [OF rnd, of "w_pos w - of_nat i" 1] rnd by simp_all
  obtain c where c: "c < 2" "x = interpolate rnd (w_pending w ! (i * 2 + c)) (w_pending w ! ((i + 1) * 2 + c)) ?fr"
    using assms(6) by (auto simp: frame_at_def Let_def intro: that [of 0] that [of 1])
  then have "i * 2 + c < length (w_pending w)" "(i + 1) * 2 + c < length (w_pending w)" using i(2) by auto
  then have "lo \<le> sint (w_pending w ! (i * 2 + c))" "sint (w_pending w ! (i * 2 + c)) \<le> hi"
    "lo \<le> sint (w_pending w ! ((i + 1) * 2 + c))" "sint (w_pending w ! ((i + 1) * 2 + c)) \<le> hi"
    using range by (blast intro: nth_mem)+
  then show ?thesis using interpolate_between [OF rnd fr, of "w_pending w ! (i * 2 + c)" "w_pending w ! ((i + 1) * 2 + c)"]
    unfolding c(2) by linarith
qed

lemma resample_stop:
  "w1 = fill_pending w (nat \<lfloor>w_pos w\<rfloor> + 2) \<Longrightarrow> nat \<lfloor>w_pos w\<rfloor> + 1 \<ge> length (w_pending w1) div 2 \<Longrightarrow>
     resample rnd (Suc room) w = Some (if w_source_eof w1 then w1\<lparr>w_exhausted := True\<rparr> else w1, [], 0)"
  by (simp add: Let_def)

lemma resample_more:
  "w1 = fill_pending w (nat \<lfloor>w_pos w\<rfloor> + 2) \<Longrightarrow> \<not> nat \<lfloor>w_pos w\<rfloor> + 1 \<ge> length (w_pending w1) div 2 \<Longrightarrow>
     step_position rnd w1 = Some w2 \<Longrightarrow> resample rnd room w2 = Some (w', out, n) \<Longrightarrow>
     resample rnd (Suc room) w = Some (w', frame_at rnd w1 (nat \<lfloor>w_pos w\<rfloor>) @ out, Suc n)"
  by (simp add: Let_def)

lemma resample_none:
  "w1 = fill_pending w (nat \<lfloor>w_pos w\<rfloor> + 2) \<Longrightarrow> \<not> nat \<lfloor>w_pos w\<rfloor> + 1 \<ge> length (w_pending w1) div 2 \<Longrightarrow>
     step_position rnd w1 = Some w2 \<Longrightarrow> resample rnd room w2 = None \<Longrightarrow> resample rnd (Suc room) w = None"
  by (simp add: Let_def)

lemma resample_safe:
  assumes rnd: "ieee_round rnd" and "resampler_inv w" and "\<And>s. s \<in> set (buffered w) \<Longrightarrow> lo \<le> sint s \<and> sint s \<le> hi"
  shows "\<exists>w' out n. resample rnd room w = Some (w', out, n) \<and> resampler_inv w' \<and> n \<le> room \<and> length out = 2 * n \<and>
    set (buffered w') \<subseteq> set (buffered w) \<and> (\<forall>s \<in> set out. lo \<le> sint s \<and> sint s \<le> hi)"
  using assms(2,3)
proof (induction room arbitrary: w)
  case 0
  then show ?case by simp
next
  case (Suc room)
  let ?i = "nat \<lfloor>w_pos w\<rfloor>"
  define w1 where "w1 = fill_pending w (?i + 2)"
  have ref: "refilled w w1" using fill_pending_refilled [of w] Suc.prems(1) by (simp add: w1_def resampler_inv_def)
  then have inv1: "resampler_inv w1" and b1: "buffered w1 = buffered w" and p1: "w_pos w1 = w_pos w"
    using Suc.prems(1) by (auto simp: refilled_def resampler_inv_def)
  show ?case
  proof (cases "?i + 1 \<ge> length (w_pending w1) div 2")
    case True
    have "resampler_inv (w1\<lparr>w_exhausted := True\<rparr>)" "buffered (w1\<lparr>w_exhausted := True\<rparr>) = buffered w1"
      using inv1 by (auto simp: resampler_inv_def eof_inv_def buffered_def)
    then show ?thesis using resample_stop [OF w1_def True] inv1 b1 by simp
  next
    case False
    obtain w2 where w2: "step_position rnd w1 = Some w2" "resampler_inv w2" "set (buffered w2) \<subseteq> set (buffered w)"
      using step_position_safe [OF rnd inv1] False b1 p1 by auto
    obtain w' out n where r: "resample rnd room w2 = Some (w', out, n)" "resampler_inv w'" "n \<le> room" "length out = 2 * n"
      "set (buffered w') \<subseteq> set (buffered w2)" "\<forall>s \<in> set out. lo \<le> sint s \<and> sint s \<le> hi"
      using Suc.IH [OF w2(2)] Suc.prems(2) w2(3) by blast
    have "lo \<le> sint s \<and> sint s \<le> hi" if "s \<in> set (frame_at rnd w1 ?i)" for s
    proof (rule frame_at_range [OF rnd _ _ _ _ that])
      show "lo \<le> sint x \<and> sint x \<le> hi" if "x \<in> set (w_pending w1)" for x
        using Suc.prems(2) [of x] that unfolding b1 [symmetric] by (simp add: buffered_def)
    qed (use False p1 Suc.prems(1) in \<open>simp_all add: resampler_inv_def\<close>)
    moreover have "length (frame_at rnd w1 ?i) = 2" by (simp add: frame_at_def Let_def)
    ultimately show ?thesis using resample_more [OF w1_def False w2(1) r(1)] w2 r by fastforce
  qed
qed

text \<open>C24. Reading a WAV source of at most 96 kHz is safe in every rounding mode: a read never erases beyond its
  buffer, delivers at most the requested frames with two samples each, and every sample lies within
  the bounds of the source samples, so the conversion to 16 bits never overflows; the state it leaves
  satisfies the same conditions.\<close>

theorem wav_read_in_range:
  assumes "ieee_round rnd" "resampler_inv w" "\<And>s. s \<in> set (buffered w) \<Longrightarrow> lo \<le> sint s \<and> sint s \<le> hi"
  shows "\<exists>w' out n. wav_read rnd w m = Some (w', out, n) \<and> resampler_inv w' \<and> n \<le> m \<and> length out = 2 * n \<and>
    set (buffered w') \<subseteq> set (buffered w) \<and> (\<forall>s \<in> set out. lo \<le> sint s \<and> sint s \<le> hi)"
proof -
  have ex: "resampler_inv (v\<lparr>w_exhausted := b\<rparr>) = resampler_inv v" "buffered (v\<lparr>w_exhausted := b\<rparr>) = buffered v" for v b
    by (simp_all add: resampler_inv_def eof_inv_def buffered_def)
  consider "w_exhausted w \<or> m = 0" | "\<not> w_exhausted w" "m \<noteq> 0" "w_src_rate w = 48000"
    | "\<not> w_exhausted w" "m \<noteq> 0" "w_src_rate w \<noteq> 48000" by blast
  then show ?thesis
  proof cases
    case 1
    then show ?thesis using assms(2) by (simp add: wav_read_def)
  next
    case 2
    obtain w1 out k where r: "readSourceFrames w m = (w1, out, k)" by (rule prod_cases3)
    have c: "0 < w_src_channels w" using assms(2) by (simp add: resampler_inv_def eof_inv_def)
    note rl = read_left [OF r c]
    have k: "k \<le> m" using rl(1,3) by (simp add: min_def split: if_splits)
    have inv: "resampler_inv w1" and sub: "set (buffered w1) \<subseteq> set (buffered w)" and out: "set out \<subseteq> set (buffered w)"
      using rl(1,2,4) assms(2) by (auto simp: resampler_inv_def eof_inv_def buffered_def dest: in_set_dropD in_set_takeD)
    then show ?thesis using 2 r rl(3) k assms(3) by (auto simp: wav_read_def ex)
  next
    case 3
    obtain w' out n where "resample rnd m w = Some (w', out, n)" "resampler_inv w'" "n \<le> m" "length out = 2 * n"
      "set (buffered w') \<subseteq> set (buffered w)" "\<forall>s \<in> set out. lo \<le> sint s \<and> sint s \<le> hi"
      using resample_safe [OF assms] by blast
    then show ?thesis using 3 by (simp add: wav_read_def ex)
  qed
qed

definition demo_wav :: wav where
  "demo_wav = (wav_new [])\<lparr>w_src_rate := 24000, w_src_channels := 1, w_pending := [0, 0, 100, 50, 200, 100], w_source_eof := True\<rparr>"

theorem wav_read_in_range_witness:
  "\<exists>w' out n. wav_read (\<lambda>x. x) demo_wav 8 = Some (w', out, n) \<and> resampler_inv w' \<and> n \<le> 8 \<and> length out = 2 * n \<and>
    set (buffered w') \<subseteq> set (buffered demo_wav) \<and> list_all (\<lambda>s. 0 \<le> sint s \<and> sint s \<le> 200) out"
proof -
  have inv: "resampler_inv demo_wav"
    by (simp add: demo_wav_def wav_new_def resampler_inv_def eof_inv_def wav_left_def avail_def)
  have "buffered demo_wav = [0, 0, 100, 50, 200, 100]"
    by (simp add: demo_wav_def wav_new_def buffered_def wav_left_def avail_def)
  then have rng: "\<And>s. s \<in> set (buffered demo_wav) \<Longrightarrow> 0 \<le> sint s \<and> sint s \<le> 200" by auto
  show ?thesis using wav_read_in_range [OF ieee_round_id inv rng] by (simp add: list_all_iff)
qed

section \<open>Exact arithmetic: linear interpolation\<close>

text \<open>The reference: the frame at position x of the decoded file, and the number of output frames of a file of
  \<open>len\<close> source frames.\<close>

definition linear_frame :: "i16 list \<Rightarrow> real \<Rightarrow> i16 list" where
  "linear_frame src x =
     map (\<lambda>c. of_int (trunc (of_int (sint (src ! (nat \<lfloor>x\<rfloor> * 2 + c))) +
        (of_int (sint (src ! ((nat \<lfloor>x\<rfloor> + 1) * 2 + c))) - of_int (sint (src ! (nat \<lfloor>x\<rfloor> * 2 + c)))) * (x - of_int \<lfloor>x\<rfloor>)))) [0, 1]"

definition output_frames :: "int \<Rightarrow> nat \<Rightarrow> nat" where
  "output_frames rate len = nat \<lceil>(real len - 1) * 48000 / of_int rate\<rceil>"

definition output_position :: "int \<Rightarrow> nat \<Rightarrow> real" where
  "output_position rate k = real k * (of_int rate / 48000)"

lemma before_end:
  assumes "0 < rate"
  shows "nat \<lfloor>output_position rate k\<rfloor> + 1 < len \<longleftrightarrow> k < output_frames rate len"
proof -
  have "k < output_frames rate len \<longleftrightarrow> real k < (real len - 1) * 48000 / of_int rate"
    unfolding output_frames_def by linarith
  also have "\<dots> \<longleftrightarrow> output_position rate k < real len - 1"
    using assms by (simp add: output_position_def field_simps)
  also have "\<dots> \<longleftrightarrow> nat \<lfloor>output_position rate k\<rfloor> + 1 < len"
  proof -
    have "0 \<le> output_position rate k" using assms by (simp add: output_position_def)
    then show ?thesis by linarith
  qed
  finally show ?thesis by simp
qed

text \<open>The source stands at output frame k of the decoded file \<open>src\<close>.\<close>

definition stands_at :: "i16 list \<Rightarrow> int \<Rightarrow> nat \<Rightarrow> wav \<Rightarrow> bool" where
  "stands_at src rate k w \<longleftrightarrow> resampler_inv w \<and> w_src_rate w = rate \<and>
     (w_exhausted w \<longrightarrow> output_frames rate (length src div 2) \<le> k) \<and>
     (\<exists>base. 2 * base \<le> length src \<and> buffered w = drop (2 * base) src \<and>
        real base + w_pos w = output_position rate k)"

lemma step_position_exact:
  assumes "step_position (\<lambda>x. x) w = Some w'"
  shows "\<exists>d. 2 * d \<le> length (w_pending w) \<and> buffered w' = drop (2 * d) (buffered w) \<and>
      real d + w_pos w' = w_pos w + of_int (w_src_rate w) / 48000" "w_exhausted w' = w_exhausted w"
proof -
  let ?pos = "w_pos w + of_int (w_src_rate w) / 48000" and ?d = "nat \<lfloor>w_pos w + of_int (w_src_rate w) / 48000\<rfloor> - 1"
  show "w_exhausted w' = w_exhausted w"
    using assms by (auto simp: step_position_def Let_def split: if_splits)
  show "\<exists>d. 2 * d \<le> length (w_pending w) \<and> buffered w' = drop (2 * d) (buffered w) \<and>
      real d + w_pos w' = w_pos w + of_int (w_src_rate w) / 48000"
  proof (cases "?pos > 4096")
    case True
    then have "w' = w\<lparr>w_pending := drop (?d * 2) (w_pending w), w_pos := ?pos - of_nat ?d\<rparr>" "2 * ?d \<le> length (w_pending w)"
      using assms by (auto simp: step_position_def Let_def split: if_splits)
    then show ?thesis by (intro exI [of _ ?d]) (simp add: buffered_def mult.commute)
  next
    case False
    then have "w' = w\<lparr>w_pos := ?pos\<rparr>" using assms by (simp add: step_position_def Let_def)
    then show ?thesis by (intro exI [of _ 0]) (simp add: buffered_def)
  qed
qed

lemma frame_at_exact:
  assumes "0 \<le> w_pos w" "nat \<lfloor>w_pos w\<rfloor> + 1 < length (w_pending w) div 2" "buffered w = drop (2 * base) src"
    "2 * base \<le> length src"
  shows "frame_at (\<lambda>x. x) w (nat \<lfloor>w_pos w\<rfloor>) = linear_frame src (real base + w_pos w)"
proof -
  let ?i = "nat \<lfloor>w_pos w\<rfloor>"
  have nth: "w_pending w ! j = src ! (2 * base + j)" if "j < length (w_pending w)" for j
    using that assms(3,4) by (metis buffered_def nth_append nth_drop)
  have f: "\<lfloor>real base + w_pos w\<rfloor> = int base + \<lfloor>w_pos w\<rfloor>" by linarith
  then have n: "nat \<lfloor>real base + w_pos w\<rfloor> = base + ?i" using assms(1) by (simp add: nat_add_distrib)
  have fr: "real base + w_pos w - of_int \<lfloor>real base + w_pos w\<rfloor> = w_pos w - real ?i" using f assms(1) by simp
  have idx: "?i * 2 + c < length (w_pending w)" "(?i + 1) * 2 + c < length (w_pending w)" if "c < 2" for c
    using that assms(2) by auto
  have eq: "2 * base + (?i * 2 + c) = (base + ?i) * 2 + c" "2 * base + ((?i + 1) * 2 + c) = (base + ?i + 1) * 2 + c" for c
    by simp_all
  show ?thesis
    unfolding frame_at_def linear_frame_def n fr Let_def
  proof (intro map_cong refl)
    fix c :: nat assume "c \<in> set [0, 1]"
    then have c: "c < 2" by auto
    show "interpolate (\<lambda>x. x) (w_pending w ! (?i * 2 + c)) (w_pending w ! ((?i + 1) * 2 + c)) (w_pos w - real ?i) =
        of_int (trunc (of_int (sint (src ! ((base + ?i) * 2 + c))) + (of_int (sint (src ! ((base + ?i + 1) * 2 + c))) -
          of_int (sint (src ! ((base + ?i) * 2 + c)))) * (w_pos w - real ?i)))"
      unfolding nth [OF idx(1) [OF c]] nth [OF idx(2) [OF c]] eq interpolate_def ..
  qed
qed

lemma resample_exact:
  assumes "stands_at src rate k w" "\<not> w_exhausted w"
  defines "tot \<equiv> output_frames rate (length src div 2)"
  shows "\<exists>w'. resample (\<lambda>x. x) room w = Some (w', concat (map (\<lambda>j. linear_frame src (output_position rate j))
      [k..<k + min room (tot - k)]), min room (tot - k)) \<and> stands_at src rate (k + min room (tot - k)) w'"
  using assms(1,2)
proof (induction room arbitrary: k w)
  case 0
  then show ?case by simp
next
  case (Suc room)
  let ?i = "nat \<lfloor>w_pos w\<rfloor>"
  define w1 where "w1 = fill_pending w (?i + 2)"
  obtain base where base: "2 * base \<le> length src" "buffered w = drop (2 * base) src" "real base + w_pos w = output_position rate k"
    and inv: "resampler_inv w" and rate: "w_src_rate w = rate" using Suc.prems(1) by (auto simp: stands_at_def)
  have rate0: "0 < rate" and pos0: "0 \<le> w_pos w" using inv rate by (simp_all add: resampler_inv_def)
  have ref: "refilled w w1" and enough: "w_source_eof w1 \<or> ?i + 2 < length (w_pending w1) div 2"
    using fill_pending_refilled [of w "?i + 2"] inv by (simp_all add: w1_def resampler_inv_def)
  then have inv1: "resampler_inv w1" and b1: "buffered w1 = buffered w" and p1: "w_pos w1 = w_pos w"
    and e1: "w_exhausted w1 = w_exhausted w" and r1: "w_src_rate w1 = rate"
    using inv rate by (auto simp: refilled_def resampler_inv_def)
  have floor: "nat \<lfloor>output_position rate k\<rfloor> = base + ?i" using base(3) pos0 by linarith
  show ?case
  proof (cases "?i + 1 \<ge> length (w_pending w1) div 2")
    case True
    then have eof: "w_source_eof w1" using enough by simp
    then have "wav_left w1 = []" using inv1 by (simp add: resampler_inv_def eof_inv_def)
    then have "length (w_pending w1) = length src - 2 * base" using b1 base(2) by (simp add: buffered_def)
    then have "length src div 2 \<le> base + ?i + 1" using True base(1) by linarith
    then have fin: "tot \<le> k" using before_end [OF rate0, of k "length src div 2"] floor unfolding tot_def by linarith
    have "stands_at src rate k (w1\<lparr>w_exhausted := True\<rparr>)"
      using inv1 b1 p1 base fin r1 by (auto simp: stands_at_def resampler_inv_def eof_inv_def buffered_def tot_def)
    then show ?thesis using resample_stop [OF w1_def True] eof fin by simp
  next
    case False
    then have "length (w_pending w1) div 2 \<le> length (buffered w) div 2" using b1 by (metis buffered_def length_append le_add1 div_le_mono)
    then have "base + ?i + 1 < length src div 2" using False base(1,2) by simp
    then have more: "k < tot" using before_end [OF rate0, of k "length src div 2"] floor unfolding tot_def by linarith
    obtain w2 where w2: "step_position (\<lambda>x. x) w1 = Some w2" "resampler_inv w2" "w_src_rate w2 = rate"
      using step_position_safe [OF ieee_round_id inv1] False p1 r1 by auto
    note ex = step_position_exact [OF w2(1)]
    obtain d where d: "2 * d \<le> length (w_pending w1)" "buffered w2 = drop (2 * d) (buffered w1)"
      "real d + w_pos w2 = w_pos w + of_int rate / 48000" using ex(1) p1 r1 by auto
    have "stands_at src rate (Suc k) w2"
      unfolding stands_at_def
    proof (intro conjI exI [of _ "base + d"])
      have "length (w_pending w1) \<le> length src - 2 * base" using b1 base(2) by (metis buffered_def length_append length_drop le_add1)
      then show "2 * (base + d) \<le> length src" using d(1) base(1) unfolding distrib_left by linarith
      show "buffered w2 = drop (2 * (base + d)) src" using d(2) b1 base(2) by (simp add: algebra_simps)
      show "real (base + d) + w_pos w2 = output_position rate (Suc k)"
        using d(3) base(3) by (simp add: output_position_def algebra_simps add_divide_distrib)
    qed (use w2 ex(2) e1 Suc.prems(2) in simp_all)
    moreover have "\<not> w_exhausted w2" using ex(2) e1 Suc.prems(2) by simp
    ultimately obtain w' where w': "resample (\<lambda>x. x) room w2 = Some (w', concat (map (\<lambda>j. linear_frame src (output_position rate j))
        [Suc k..<Suc k + min room (tot - Suc k)]), min room (tot - Suc k))"
        "stands_at src rate (Suc k + min room (tot - Suc k)) w'"
      using Suc.IH by blast
    have n: "min (Suc room) (tot - k) = Suc (min room (tot - Suc k))" using more by linarith
    have f: "frame_at (\<lambda>x. x) w1 ?i = linear_frame src (output_position rate k)"
      using frame_at_exact [of w1 base src] False p1 pos0 b1 base by simp
    have u: "[k..<k + Suc n] = k # [Suc k..<Suc k + n]" for n by (simp add: upt_conv_Cons del: upt_Suc)
    show ?thesis
      unfolding n u list.map concat.simps
      using resample_more [OF w1_def False w2(1) w'(1)] w'(2) unfolding f by (simp only: add_Suc_shift) blast
  qed
qed

text \<open>A sequence of reads.\<close>

primrec wav_reads :: "rounding \<Rightarrow> wav \<Rightarrow> nat list \<Rightarrow> (wav \<times> i16 list) option" where
  "wav_reads rnd w [] = Some (w, [])"
| "wav_reads rnd w (m # ms) =
     (case wav_read rnd w m of
        None \<Rightarrow> None
      | Some (w', out, n) \<Rightarrow> (case wav_reads rnd w' ms of None \<Rightarrow> None | Some (w'', rest) \<Rightarrow> Some (w'', out @ rest)))"

lemma stands_at_exhausted:
  "stands_at src rate k w \<Longrightarrow> output_frames rate (length src div 2) \<le> k \<Longrightarrow> stands_at src rate k (w\<lparr>w_exhausted := b\<rparr>)"
  by (auto simp: stands_at_def resampler_inv_def eof_inv_def buffered_def)

lemma wav_read_exact:
  assumes "stands_at src rate k w" "rate \<noteq> 48000"
  defines "tot \<equiv> output_frames rate (length src div 2)"
  shows "\<exists>w'. wav_read (\<lambda>x. x) w m = Some (w', concat (map (\<lambda>j. linear_frame src (output_position rate j))
      [k..<k + min m (tot - k)]), min m (tot - k)) \<and> stands_at src rate (k + min m (tot - k)) w'"
proof (cases "w_exhausted w \<or> m = 0")
  case True
  then have "min m (tot - k) = 0" using assms(1) by (auto simp: stands_at_def tot_def)
  then show ?thesis using True assms(1) by (simp add: wav_read_def)
next
  case False
  obtain w' where w': "resample (\<lambda>x. x) m w = Some (w', concat (map (\<lambda>j. linear_frame src (output_position rate j))
      [k..<k + min m (tot - k)]), min m (tot - k))" "stands_at src rate (k + min m (tot - k)) w'"
    using resample_exact [OF assms(1)] False unfolding tot_def by blast
  have "w_src_rate w \<noteq> 48000" using assms(1,2) by (simp add: stands_at_def)
  then have read: "wav_read (\<lambda>x. x) w m = Some (if min m (tot - k) = 0 then w'\<lparr>w_exhausted := True\<rparr> else w',
      concat (map (\<lambda>j. linear_frame src (output_position rate j)) [k..<k + min m (tot - k)]), min m (tot - k))"
    using False w'(1) by (simp add: wav_read_def)
  have "stands_at src rate (k + min m (tot - k)) (if min m (tot - k) = 0 then w'\<lparr>w_exhausted := True\<rparr> else w')"
  proof (cases "min m (tot - k) = 0")
    case True
    then have "tot \<le> k + min m (tot - k)" using False by linarith
    then show ?thesis using True stands_at_exhausted [OF w'(2)] unfolding tot_def by simp
  next
    case False
    then show ?thesis using w'(2) by (simp only: if_False)
  qed
  with read show ?thesis by blast
qed

lemma min_split: "min m (t - k) + min s (t - (k + min m (t - k))) = min (m + s) (t - k)" for m t k s :: nat
  by (cases "m \<le> t - k"; cases "m + s \<le> t - k") (auto simp: min_def)

lemma wav_reads_exact:
  assumes "stands_at src rate k w" "rate \<noteq> 48000"
  shows "\<exists>w'. wav_reads (\<lambda>x. x) w ms = Some (w', concat (map (\<lambda>j. linear_frame src (output_position rate j))
      [k..<k + min (sum_list ms) (output_frames rate (length src div 2) - k)]))"
  using assms(1)
proof (induction ms arbitrary: k w)
  case Nil
  then show ?case by simp
next
  case (Cons m ms)
  let ?tot = "output_frames rate (length src div 2)"
  let ?n = "min m (?tot - k)" and ?f = "\<lambda>j. linear_frame src (output_position rate j)"
  obtain w1 where w1: "wav_read (\<lambda>x. x) w m = Some (w1, concat (map ?f [k..<k + ?n]), ?n)" "stands_at src rate (k + ?n) w1"
    using wav_read_exact [OF Cons.prems assms(2)] by blast
  let ?r = "min (sum_list ms) (?tot - (k + ?n))"
  obtain w' where w': "wav_reads (\<lambda>x. x) w1 ms = Some (w', concat (map ?f [k + ?n..<k + ?n + ?r]))"
    using Cons.IH [OF w1(2)] by blast
  have j: "[k..<k + ?n] @ [k + ?n..<k + ?n + ?r] = [k..<k + ?n + ?r]"
    by (rule upt_add_eq_append [symmetric]) simp
  have e: "k + ?n + ?r = k + min (sum_list (m # ms)) (?tot - k)" using min_split [of m ?tot k] by simp
  have "concat (map ?f [k..<k + ?n]) @ concat (map ?f [k + ?n..<k + ?n + ?r]) =
      concat (map ?f [k..<k + min (sum_list (m # ms)) (?tot - k)])"
    unfolding concat_append [symmetric] map_append [symmetric] j unfolding e ..
  then show ?case unfolding wav_reads.simps w1(1) option.case prod.case w' by blast
qed

text \<open>At the wire rate the frames are passed on as they are.\<close>

lemma wav48_reads:
  "wav48_ok w \<Longrightarrow> \<exists>w'. wav_reads rnd w ms = Some (w', take (2 * sum_list ms) (wav_left w)) \<and> wav48_ok w'"
proof (induction ms arbitrary: w)
  case (Cons m ms)
  have "\<exists>w1 k. wav_read rnd w m = Some (w1, take (2 * m) (wav_left w), k) \<and> wav48_ok w1 \<and> wav_left w1 = drop (2 * m) (wav_left w)"
  proof (cases "m = 0")
    case True
    with Cons.prems show ?thesis by (simp add: wav_read_def)
  next
    case False
    with wav48_read [OF Cons.prems, of m rnd] show ?thesis by (auto simp: mult.commute)
  qed
  then obtain w1 k where r: "wav_read rnd w m = Some (w1, take (2 * m) (wav_left w), k)" "wav48_ok w1"
    "wav_left w1 = drop (2 * m) (wav_left w)" by blast
  from Cons.IH [OF r(2)] obtain w2 where w2: "wav_reads rnd w1 ms = Some (w2, take (2 * sum_list ms) (drop (2 * m) (wav_left w)))" "wav48_ok w2"
    unfolding r(3) by blast
  have "take (2 * m) xs @ take (2 * sum_list ms) (drop (2 * m) xs) = take (2 * sum_list (m # ms)) xs" for xs :: "i16 list"
    by (simp add: take_add distrib_left)
  with r w2 show ?case by simp
qed simp

text \<open>C25. Equivalence with a reference, in exact arithmetic, for a freshly opened file of at most 96 kHz read in blocks of any sizes. A file of
  48 kHz is passed on as it is: the blocks are the decoded frames of the file, all of them. A file of any other rate is
  interpolated: output frame k is the linear interpolation of the decoded file at position \<open>k * rate / 48000\<close>, up to the last position
  that has a right neighbour.\<close>

theorem resampler_is_linear_interpolation:
  assumes "0 < w_src_channels w" "0 < w_src_rate w" "w_src_rate w \<le> 96000"
    and "w_pending w = []" "w_pos w = 0" "\<not> w_exhausted w" "\<not> w_source_eof w"
  shows "\<exists>w'. wav_reads (\<lambda>x. x) w ms = Some (w',
     if w_src_rate w = 48000 then take (2 * sum_list ms) (wav_left w)
     else concat (map (\<lambda>k. linear_frame (wav_left w) (output_position (w_src_rate w) k))
      [0..<min (sum_list ms) (output_frames (w_src_rate w) (length (wav_left w) div 2))]))"
proof (cases "w_src_rate w = 48000")
  case True
  then have "wav48_ok w" using assms by (simp add: wav48_ok_def)
  from wav48_reads [OF this] True show ?thesis by auto
next
  case False
  have "stands_at (wav_left w) (w_src_rate w) 0 w"
    using assms by (auto simp: stands_at_def resampler_inv_def eof_inv_def buffered_def output_position_def intro!: exI [of _ 0])
  from wav_reads_exact [OF this False] False show ?thesis by simp
qed

definition demo_wav24 :: wav where
  "demo_wav24 = (wav_new [0, 0, 100, 0, 200, 0])\<lparr>w_src_rate := 24000, w_src_channels := 1, w_data_remaining := 6\<rparr>"

theorem resampler_is_linear_interpolation_witness:
  "\<exists>w'. wav_reads (\<lambda>x. x) demo_wav24 [3, 3] = Some (w', [0, 0, 50, 50, 100, 100, 150, 150])"
proof -
  have upt: "[0..<3] = [0, 1, 2 :: nat]" "[0..<4] = [0, 1, 2, 3 :: nat]" by code_simp+
  have left: "wav_left demo_wav24 = [0, 0, 100, 100, 200, 200]"
    by (simp add: demo_wav24_def wav_new_def wav_left_def avail_def bytes_per_frame_def decode_frames_def stereo_frame_def
        le16_def Let_def upt)
  have rate: "w_src_rate demo_wav24 = 24000" by (simp add: demo_wav24_def wav_new_def)
  have n: "[0..<min (sum_list [3, 3]) (output_frames 24000 (length [0 :: i16, 0, 100, 100, 200, 200] div 2))] = [0, 1, 2, 3]"
    by (simp add: output_frames_def upt)
  have f: "concat (map (\<lambda>k. linear_frame [0, 0, 100, 100, 200, 200] (output_position 24000 k)) [0, 1, 2, 3]) =
      [0, 0, 50, 50, 100, 100, 150, 150]"
    by (simp add: linear_frame_def output_position_def)
  show ?thesis
    using resampler_is_linear_interpolation [of demo_wav24 "[3, 3]"] unfolding left rate n f
    by (simp add: demo_wav24_def wav_new_def del: wav_reads.simps)
qed

section \<open>Above 96 kHz\<close>

text \<open>A file of 192 kHz with 4098 frames: the frame at position 4096 moves the position to 4100, and the code
  erases 4099 frames of a buffer of 4098.\<close>

lemma overrun_at_192k:
  assumes rnd: "ieee_round rnd" and "eof_inv w" "w_src_rate w = 192000" "length (buffered w) = 8196"
    and "w_pos w = real (4 * k)" "k + j = 1024"
  shows "resample rnd (Suc (j + m)) w = None"
  using assms(2-)
proof (induction j arbitrary: k w)
  case (0 k w)
  define w1 where "w1 = fill_pending w (nat \<lfloor>w_pos w\<rfloor> + 2)"
  have pos: "w_pos w = 4096" using 0 by simp
  have ref: "refilled w w1" "w_source_eof w1 \<or> 4098 < length (w_pending w1) div 2"
    using fill_pending_refilled [OF 0(1), of "nat \<lfloor>w_pos w\<rfloor> + 2"] by (simp_all add: w1_def pos)
  then have b1: "length (w_pending w1) + length (wav_left w1) = 8196"
    using 0(3) by (metis refilled_def buffered_def length_append)
  then have "w_source_eof w1" using ref(2) by linarith
  then have len: "length (w_pending w1) = 8196" using b1 ref(1) by (simp add: refilled_def eof_inv_def)
  have "rnd 4 = 4" "rnd 4100 = 4100" using ieee_round_nat [OF rnd, of 4] ieee_round_nat [OF rnd, of 4100] by simp_all
  then have "step_position rnd w1 = None"
    using ref(1) pos len 0(2) by (simp add: step_position_def refilled_def Let_def)
  then show ?case using len pos by (simp add: Let_def w1_def)
next
  case (Suc j k w)
  define w1 where "w1 = fill_pending w (nat \<lfloor>w_pos w\<rfloor> + 2)"
  have i: "nat \<lfloor>w_pos w\<rfloor> = 4 * k" unfolding Suc.prems(4) by (simp only: floor_of_nat nat_int)
  have k: "k < 1024" using Suc.prems(5) by simp
  have ref: "refilled w w1" "w_source_eof w1 \<or> 4 * k + 2 < length (w_pending w1) div 2"
    using fill_pending_refilled [OF Suc.prems(1), of "nat \<lfloor>w_pos w\<rfloor> + 2"] by (simp_all add: w1_def i)
  have more: "\<not> 4 * k + 1 \<ge> length (w_pending w1) div 2"
    using ref(2) k ref(1) Suc.prems(3) by (auto simp: refilled_def eof_inv_def buffered_def)
  have r: "rnd 4 = 4" "rnd (real (4 * k) + 4) = real (4 * Suc k)"
    using ieee_round_nat [OF rnd, of 4] ieee_round_nat [OF rnd, of "4 * Suc k"] k by (simp_all add: add.commute)
  let ?w = "w1\<lparr>w_pos := real (4 * Suc k)\<rparr>"
  have "step_position rnd w1 = Some ?w"
    using ref(1) Suc.prems(2,4) r k by (simp add: step_position_def refilled_def Let_def)
  moreover have "resample rnd (Suc (j + m)) ?w = None"
  proof (rule Suc.IH)
    show "eof_inv ?w" "w_src_rate ?w = 192000" "length (buffered ?w) = 8196"
      using ref(1) Suc.prems(2,3) by (auto simp: refilled_def eof_inv_def buffered_def)
    show "w_pos ?w = real (4 * Suc k)" "Suc k + j = 1024" using Suc.prems(5) by simp_all
  qed
  ultimately show ?case using resample_none [OF w1_def more [folded i], of rnd ?w "Suc (j + m)"] by simp
qed

lemma wav_192k_undefined:
  assumes "ieee_round rnd" "0 < w_src_channels w" "w_src_rate w = 192000" "length (wav_left w) = 8196"
    "w_pending w = []" "w_pos w = 0" "\<not> w_exhausted w" "\<not> w_source_eof w"
  shows "wav_read rnd w 1025 = None"
  using overrun_at_192k [of rnd w 0 1024 0] assms by (simp add: wav_read_def eof_inv_def buffered_def del: resample.simps)

end
