(* ===== verification/Stream_Sender.thy ===== *)
theory Stream_Sender
  imports Audio_Source
begin

text \<open>
  The sending pipeline of the Streamer (\<open>streamer/src/send/\<close>): \<open>Timestamper\<close>, \<open>Packetizer\<close> and
  \<open>StreamSender::runToEnd\<close>, over the sources of \<open>Audio_Source\<close>, and its composition with the receiver of the
  speaker (\<open>Playback\<close>). The bit pattern of a \<open>double\<close> is the parameter \<open>enc\<close>; the sink is the list of the
  datagrams sent, in order. The loop is a partial function: a source that never ends gives \<open>None\<close>.
\<close>

section \<open>Timestamps and packets\<close>

record timestamper =
  ts_block_seconds :: dbl
  ts_lead_seconds :: dbl
  ts_next_timestamp :: dbl
  ts_started :: bool

definition timestamper_new :: "rounding \<Rightarrow> int \<Rightarrow> int \<Rightarrow> dbl \<Rightarrow> timestamper" where
  "timestamper_new rnd sample_rate block_frames lead =
     \<lparr>ts_block_seconds = mk_dbl rnd (of_int block_frames / of_int sample_rate), ts_lead_seconds = lead,
      ts_next_timestamp = Fin 0, ts_started = False\<rparr>"

definition ts_start :: "rounding \<Rightarrow> timestamper \<Rightarrow> dbl \<Rightarrow> timestamper" where
  "ts_start rnd t now = t\<lparr>ts_next_timestamp := d_add rnd now (ts_lead_seconds t), ts_started := True\<rparr>"

definition nextTimestamp :: "rounding \<Rightarrow> timestamper \<Rightarrow> timestamper \<times> dbl" where
  "nextTimestamp rnd t =
     (t\<lparr>ts_next_timestamp := d_add rnd (ts_next_timestamp t) (ts_block_seconds t)\<rparr>, ts_next_timestamp t)"

record packetizer =
  pk_ts :: timestamper
  pk_channels :: nat
  pk_sequence :: u64

definition packetizer_new :: "timestamper \<Rightarrow> nat \<Rightarrow> packetizer" where
  "packetizer_new t c = \<lparr>pk_ts = t, pk_channels = c, pk_sequence = 0\<rparr>"

definition kFlagLast :: u32 where
  "kFlagLast = 1"

definition pack :: "rounding \<Rightarrow> (dbl \<Rightarrow> u64) \<Rightarrow> packetizer \<Rightarrow> i16 list \<Rightarrow> u32 \<Rightarrow> bool \<Rightarrow> packetizer \<times> byte list" where
  "pack rnd enc p frames frame_count is_last =
     (case nextTimestamp rnd (pk_ts p) of (t, stamp) \<Rightarrow>
        (p\<lparr>pk_ts := t, pk_sequence := pk_sequence p + 1\<rparr>,
         packPacket \<lparr>ap_header = \<lparr>ah_timestamp = enc stamp, ah_sequence = pk_sequence p, ah_frame_count = frame_count,
             ah_flags = (if is_last then kFlagLast else 0)\<rparr>,
           ap_samples = take (unat frame_count * pk_channels p) frames\<rparr>))"

section \<open>The sending loop\<close>

text \<open>The source is used through its interface: \<open>rd\<close> is \<open>read\<close> and \<open>ex\<close> is \<open>exhausted\<close>.\<close>

partial_function (option) send_blocks ::
  "rounding \<Rightarrow> (dbl \<Rightarrow> u64) \<Rightarrow> ('s \<Rightarrow> nat \<Rightarrow> 's \<times> i16 list \<times> nat) \<Rightarrow> ('s \<Rightarrow> bool) \<Rightarrow> nat \<Rightarrow> 's \<Rightarrow> packetizer \<Rightarrow>
     ('s \<times> packetizer \<times> byte list list) option" where
  "send_blocks rnd enc rd ex block_frames s p =
     (case rd s block_frames of (s1, buf, frames) \<Rightarrow>
        if frames = 0 then Some (s1, p, [])
        else
          (case pack rnd enc p buf (of_nat frames) (ex s1) of (p1, d) \<Rightarrow>
             if ex s1 then Some (s1, p1, [d])
             else Option.bind (send_blocks rnd enc rd ex block_frames s1 p1) (\<lambda>(s2, p2, ds). Some (s2, p2, d # ds))))"

definition runToEnd ::
  "rounding \<Rightarrow> (dbl \<Rightarrow> u64) \<Rightarrow> ('s \<Rightarrow> nat \<Rightarrow> 's \<times> i16 list \<times> nat) \<Rightarrow> ('s \<Rightarrow> bool) \<Rightarrow> nat \<Rightarrow> dbl \<Rightarrow> 's \<Rightarrow> packetizer \<Rightarrow>
     ('s \<times> packetizer \<times> byte list list) option" where
  "runToEnd rnd enc rd ex block_frames now s p =
     send_blocks rnd enc rd ex block_frames s
       (if ts_started (pk_ts p) then p else p\<lparr>pk_ts := ts_start rnd (pk_ts p) now\<rparr>)"

section \<open>The packets of a stream\<close>

text \<open>The timeline: every block is one block length after the one before, whatever the wall clock does.\<close>

definition timeline :: "rounding \<Rightarrow> timestamper \<Rightarrow> nat \<Rightarrow> dbl" where
  "timeline rnd t k = ((\<lambda>x. d_add rnd x (ts_block_seconds t)) ^^ k) (ts_next_timestamp t)"

definition block_at :: "nat \<Rightarrow> 'a list \<Rightarrow> nat \<Rightarrow> 'a list" where
  "block_at m xs k = take m (drop (k * m) xs)"

definition blocks :: "nat \<Rightarrow> nat \<Rightarrow> nat" where
  "blocks m len = (len + m - 1) div m"

definition stream_packet ::
  "rounding \<Rightarrow> (dbl \<Rightarrow> u64) \<Rightarrow> packetizer \<Rightarrow> nat \<Rightarrow> i16 list \<Rightarrow> bool \<Rightarrow> nat \<Rightarrow> audio_packet" where
  "stream_packet rnd enc p m xs flag k =
     \<lparr>ap_header = \<lparr>ah_timestamp = enc (timeline rnd (pk_ts p) k), ah_sequence = pk_sequence p + of_nat k,
        ah_frame_count = of_nat (length (block_at m xs k) div pk_channels p),
        ah_flags = (if flag \<and> Suc k = blocks m (length xs) then kFlagLast else 0)\<rparr>,
      ap_samples = block_at m xs k\<rparr>"

lemma timeline_0 [simp]: "timeline rnd t 0 = ts_next_timestamp t"
  by (simp add: timeline_def)

lemma timeline_next: "timeline rnd (fst (nextTimestamp rnd t)) k = timeline rnd t (Suc k)"
  by (simp add: timeline_def nextTimestamp_def funpow_Suc_right del: funpow.simps)

lemma block_at_drop: "block_at m (drop m xs) k = block_at m xs (Suc k)"
  by (simp add: block_at_def add.commute)

lemma blocks_Suc: "0 < m \<Longrightarrow> 0 < len \<Longrightarrow> blocks m len = Suc (blocks m (len - m))"
proof (cases "m \<le> len")
  case True
  assume "0 < m"
  then have "len + m - 1 = m + (len - m + m - 1)" using True by simp
  then show ?thesis using \<open>0 < m\<close> unfolding blocks_def by (simp only: div_add_self1)
next
  case False
  assume "0 < m" "0 < len"
  then have "len + m - 1 = m + (len - 1)" "len - m + m - 1 < m" using False by simp_all
  then show ?thesis using \<open>0 < m\<close> False unfolding blocks_def by (simp only: div_add_self1 div_less)
qed

lemma blocks_0 [simp]: "0 < m \<Longrightarrow> blocks m 0 = 0"
  by (simp add: blocks_def)

lemma stream_packet_Suc:
  assumes "0 < m" "0 < length xs"
  shows "stream_packet rnd enc (p\<lparr>pk_ts := fst (nextTimestamp rnd (pk_ts p)), pk_sequence := pk_sequence p + 1\<rparr>) m (drop m xs) flag k =
    stream_packet rnd enc p m xs flag (Suc k)"
  using assms by (simp add: stream_packet_def timeline_next block_at_drop blocks_Suc)

lemma concat_blocks: "0 < m \<Longrightarrow> concat (map (block_at m xs) [0..<blocks m (length xs)]) = xs"
proof (induction "length xs" arbitrary: xs rule: less_induct)
  case less
  show ?case
  proof (cases "xs = []")
    case False
    then have pos: "0 < length xs" by simp
    have "map (block_at m xs) [1..<Suc b] = map (block_at m (drop m xs)) [0..<b]" for b
      by (simp add: map_Suc_upt [symmetric] block_at_drop o_def del: map_Suc_upt upt_Suc)
    moreover have "concat (map (block_at m (drop m xs)) [0..<blocks m (length (drop m xs))]) = drop m xs"
      using less.hyps [of "drop m xs"] less.prems pos by simp
    moreover have "[0..<Suc b] = 0 # [1..<Suc b]" for b by (simp add: upt_rec)
    ultimately show ?thesis
      using blocks_Suc [OF less.prems pos] by (simp add: block_at_def [of m xs 0] del: upt_Suc)
  qed (use less.prems in simp)
qed

lemma unpack_stream_packet:
  assumes "0 < c" "c \<le> 2 ^ 16" "n < 2 ^ 32" "pk_channels p = c" "c dvd length xs"
  shows "unpackPacket (packPacket (stream_packet rnd enc p (n * c) xs flag k)) (of_nat c) =
    Some (stream_packet rnd enc p (n * c) xs flag k)"
proof -
  let ?b = "block_at (n * c) xs k"
  have uc: "unat (of_nat c :: u64) = c" using assms(2) by (simp add: unsigned_of_nat take_bit_nat_eq_self)
  have "c dvd length xs - k * (n * c)" using assms(5) by (simp add: dvd_diff_nat)
  then have d: "c dvd length ?b" by (auto simp: block_at_def min_def)
  have "length ?b div c \<le> n" using assms(1) by (simp add: block_at_def div_le_mono less_mult_imp_div_less)
      (metis assms(1) div_le_mono div_mult_self_is_m min.cobounded2)
  then have "unat (of_nat (length ?b div c) :: u32) = length ?b div c"
    using assms(3) by (simp add: unsigned_of_nat take_bit_nat_eq_self)
  then show ?thesis
    using unpack_pack [of "of_nat c" "stream_packet rnd enc p (n * c) xs flag k" "[]"] assms(2,4) uc d
    by (simp add: stream_packet_def)
qed

context finite_source
begin

lemma left_frames: "ok s \<Longrightarrow> ch s dvd length (left s)"
proof -
  assume ok: "ok s"
  obtain s' out k where r: "rd s (Suc (length (left s))) = (s', out, k)" by (rule prod_cases3)
  have "length (left s) \<le> Suc (length (left s)) * ch s" using ch_pos [OF ok] by (cases "ch s") simp_all
  then have "out = left s" using rd_out [OF ok _ r] by simp
  then show ?thesis using rd_frames [OF ok _ r] by simp
qed

text \<open>The loop ends and has sent the packets of the stream: one for each block of what was left; only the last
  one can carry the end-of-stream flag, and it does when the source reports its end at once.\<close>

definition prompt :: bool where
  "prompt \<longleftrightarrow> (\<forall>s. ok s \<longrightarrow> left s = [] \<longrightarrow> ex s)"

lemma send_blocks_stream:
  assumes "0 < n" "n < 2 ^ 32"
  shows "ok s \<Longrightarrow> pk_channels p = ch s \<Longrightarrow>
    \<exists>s' p' flag. send_blocks rnd enc rd ex n s p = Some (s', p', map (\<lambda>k. packPacket (stream_packet rnd enc p (n * ch s) (left s) flag k))
      [0..<blocks (n * ch s) (length (left s))]) \<and> (prompt \<longrightarrow> flag)"
proof (induction "length (left s)" arbitrary: s p rule: less_induct)
  case less
  let ?m = "n * ch s"
  have m: "0 < ?m" using assms(1) ch_pos [OF less.prems(1)] by simp
  obtain s1 buf k where r: "rd s n = (s1, buf, k)" by (rule prod_cases3)
  have ok1: "ok s1" "ch s1 = ch s" using rd_ok [OF less.prems(1) assms(1) r] by simp_all
  have buf: "buf = take ?m (left s)" and left1: "left s1 = drop ?m (left s)" and len: "length buf = k * ch s"
    using rd_out [OF less.prems(1) assms(1) r] rd_left [OF less.prems(1) assms(1) r] rd_frames [OF less.prems(1) assms(1) r] by simp_all
  show ?case
  proof (cases "k = 0")
    case True
    then have "left s = []" using no_frames_at_end [OF less.prems(1) assms(1)] r by simp
    then show ?thesis using True r m by (subst send_blocks.simps) auto
  next
    case False
    then have "length (left s1) < length (left s)"
      using some_frames_progress [OF less.prems(1) assms(1), of s1 buf "k - 1"] r by simp
    then have pos: "0 < length (left s)" by linarith
    note nz = False
    have bs: "blocks ?m (length (left s)) = Suc (blocks ?m (length (left s1)))" using left1 m pos by (simp add: blocks_Suc)
    have kb: "k < 2 ^ 32" using frames_bound [OF less.prems(1) assms(1) r] assms(2) by linarith
    have uk: "unat (of_nat k :: u32) = k" using kb by (simp add: unsigned_of_nat take_bit_nat_eq_self)
    let ?p1 = "p\<lparr>pk_ts := fst (nextTimestamp rnd (pk_ts p)), pk_sequence := pk_sequence p + 1\<rparr>"
    have chans: "length buf div ch s = k" using len ch_pos [OF less.prems(1)] by simp
    have first: "pack rnd enc p buf (of_nat k) b = (?p1, packPacket (stream_packet rnd enc p ?m (left s) flag 0))"
      if "b \<longleftrightarrow> flag \<and> blocks ?m (length (left s1)) = 0" for b flag
      using that len uk chans less.prems(2) unfolding pack_def stream_packet_def bs
      by (simp add: nextTimestamp_def block_at_def flip: buf)
    show ?thesis
    proof (cases "ex s1")
      case True
      then have "blocks ?m (length (left s1)) = 0" using ex_left [OF ok1(1)] m by simp
      then show ?thesis using True nz r first [of True True] unfolding bs by (subst send_blocks.simps) auto
    next
      case False
      from less.hyps [OF \<open>length (left s1) < length (left s)\<close> ok1(1), of ?p1] obtain s' p' flag where ih:
        "send_blocks rnd enc rd ex n s1 ?p1 = Some (s', p', map (\<lambda>k. packPacket (stream_packet rnd enc ?p1 ?m (left s1) flag k))
          [0..<blocks ?m (length (left s1))])" "prompt \<longrightarrow> flag"
        using less.prems(2) ok1(2) by auto
      define fl where "fl = (flag \<and> blocks ?m (length (left s1)) \<noteq> 0)"
      have "prompt \<longrightarrow> left s1 \<noteq> []" using False ok1(1) by (auto simp: prompt_def)
      then have pr: "prompt \<longrightarrow> fl" using ih(2) m by (auto simp: fl_def blocks_Suc)
      have "stream_packet rnd enc ?p1 ?m (left s1) flag i = stream_packet rnd enc p ?m (left s) fl (Suc i)"
        if "i < blocks ?m (length (left s1))" for i
        using that stream_packet_Suc [OF m pos, of rnd enc p flag i] unfolding left1 by (auto simp: fl_def stream_packet_def left1)
      then have rest: "map (\<lambda>k. packPacket (stream_packet rnd enc ?p1 ?m (left s1) flag k)) [0..<blocks ?m (length (left s1))] =
          map (\<lambda>k. packPacket (stream_packet rnd enc p ?m (left s) fl k)) [1..<blocks ?m (length (left s))]"
        unfolding bs by (simp add: map_Suc_upt [symmetric] del: map_Suc_upt upt_Suc)
      have f0: "pack rnd enc p buf (of_nat k) False = (?p1, packPacket (stream_packet rnd enc p ?m (left s) fl 0))"
        by (rule first) (auto simp: fl_def)
      have "send_blocks rnd enc rd ex n s p = Some (s', p', packPacket (stream_packet rnd enc p ?m (left s) fl 0) #
          map (\<lambda>k. packPacket (stream_packet rnd enc p ?m (left s) fl k)) [1..<blocks ?m (length (left s))])"
        using nz False r by (subst send_blocks.simps) (simp add: f0 ih(1) rest)
      moreover have "[0..<blocks ?m (length (left s))] = 0 # [1..<blocks ?m (length (left s))]"
        unfolding bs by (simp add: upt_rec)
      ultimately show ?thesis using pr by auto
    qed
  qed
qed

text \<open>What the receiver decodes from the datagrams of a finite source.\<close>

lemma run_delivers:
  assumes "0 < n" "n < 2 ^ 32" "ok s" "ch s \<le> 2 ^ 16" "pk_channels p = ch s" "pk_sequence p = 0"
    and t: "t = (if ts_started (pk_ts p) then pk_ts p else ts_start rnd (pk_ts p) now)"
  shows "\<exists>s' p' ds pkts flag. runToEnd rnd enc rd ex n now s p = Some (s', p', ds) \<and>
    map (\<lambda>d. unpackPacket d (of_nat (ch s))) ds = map Some pkts \<and> concat (map ap_samples pkts) = left s \<and>
    length pkts = blocks (n * ch s) (length (left s)) \<and>
    map seq_of pkts = map of_nat [0..<length pkts] \<and>
    map (\<lambda>q. ah_timestamp (ap_header q)) pkts = map (\<lambda>k. enc (timeline rnd t k)) [0..<length pkts] \<and>
    map isLast pkts = map (\<lambda>k. flag \<and> Suc k = length pkts) [0..<length pkts] \<and> (prompt \<longrightarrow> flag)"
proof -
  let ?p = "p\<lparr>pk_ts := t\<rparr>" and ?N = "blocks (n * ch s) (length (left s))"
  have m: "0 < n * ch s" using assms(1) ch_pos [OF assms(3)] by simp
  have p: "(if ts_started (pk_ts p) then p else p\<lparr>pk_ts := ts_start rnd (pk_ts p) now\<rparr>) = ?p" using t by simp
  have pc: "pk_channels ?p = ch s" using assms(5) by simp
  obtain s' p' flag where r: "send_blocks rnd enc rd ex n s ?p = Some (s', p',
      map (\<lambda>k. packPacket (stream_packet rnd enc ?p (n * ch s) (left s) flag k)) [0..<?N])" "prompt \<longrightarrow> flag"
    using send_blocks_stream [OF assms(1,2,3) pc] by blast
  let ?pk = "stream_packet rnd enc ?p (n * ch s) (left s) flag"
  have "map (\<lambda>d. unpackPacket d (of_nat (ch s))) (map (\<lambda>k. packPacket (?pk k)) [0..<?N]) = map Some (map ?pk [0..<?N])"
    using unpack_stream_packet [OF ch_pos [OF assms(3)] assms(4,2) pc left_frames [OF assms(3)]] by simp
  moreover have "concat (map ap_samples (map ?pk [0..<?N])) = left s"
    using concat_blocks [OF m, of "left s"] by (simp add: stream_packet_def o_def)
  moreover have "map isLast (map ?pk [0..<?N]) = map (\<lambda>k. flag \<and> Suc k = length (map ?pk [0..<?N])) [0..<?N]"
    by (simp add: isLast_def stream_packet_def kFlagLast_def)
  moreover have "map seq_of (map ?pk [0..<?N]) = map of_nat [0..<?N]"
    using assms(6) by (simp add: stream_packet_def)
  moreover have "map (\<lambda>q. ah_timestamp (ap_header q)) (map ?pk [0..<?N]) = map (\<lambda>k. enc (timeline rnd t k)) [0..<?N]"
    by (simp add: stream_packet_def)
  ultimately show ?thesis
    unfolding runToEnd_def p using r
    by (intro exI [of _ s'] exI [of _ p'] exI [of _ "map (\<lambda>k. packPacket (?pk k)) [0..<?N]"] exI [of _ "map ?pk [0..<?N]"]
        exI [of _ flag]) (simp only: length_map length_upt diff_zero simp_thms)
qed

end

section \<open>Streams of the program's sources\<close>

lemma mem_prompt: "mem.prompt"
  by (simp add: mem.prompt_def memory_exhausted_iff)

lemma memory_delivers:
  assumes "0 < c" "c \<le> 2 ^ 16" "0 < n" "n < 2 ^ 32" "\<not> ts_started t"
  shows "\<exists>s' p' ds pkts. runToEnd rnd enc memory_read memory_exhausted n now (memory_new ss c) (packetizer_new t c) = Some (s', p', ds) \<and>
    map (\<lambda>d. unpackPacket d (of_nat c)) ds = map Some pkts \<and> concat (map ap_samples pkts) = whole_frames c ss \<and>
    length pkts = blocks (n * c) (length (whole_frames c ss)) \<and>
    map seq_of pkts = map of_nat [0..<length pkts] \<and>
    map (\<lambda>q. ah_timestamp (ap_header q)) pkts = map (\<lambda>k. enc (timeline rnd (ts_start rnd t now) k)) [0..<length pkts] \<and>
    map isLast pkts = map (\<lambda>k. Suc k = length pkts) [0..<length pkts]"
proof -
  have ok: "memory_ok (memory_new ss c)" using assms(1) by (simp add: memory_ok_def memory_new_def)
  have left: "memory_left (memory_new ss c) = whole_frames c ss" by (simp add: memory_left_def memory_new_def)
  have ch: "ms_channels (memory_new ss c) = c" by (simp add: memory_new_def)
  have pk: "pk_channels (packetizer_new t c) = ms_channels (memory_new ss c)" "pk_sequence (packetizer_new t c) = 0"
    "pk_ts (packetizer_new t c) = t"
    by (simp_all add: packetizer_new_def memory_new_def)
  have time: "ts_start rnd t now = (if ts_started (pk_ts (packetizer_new t c)) then pk_ts (packetizer_new t c)
      else ts_start rnd (pk_ts (packetizer_new t c)) now)" using assms(5) pk(3) by simp
  show ?thesis
    using mem.run_delivers [OF assms(3,4) ok _ pk(1,2) time, of enc] assms(2) mem_prompt unfolding left ch by auto
qed

text \<open>A finite PCM stream is delivered exactly: draining a \<open>MemoryAudioSource\<close> ends; every datagram decodes on
  the speaker with \<open>unpackPacket\<close>; the decoded samples in order are the source's whole frames; there is
  one packet per block, numbered from 0, stamped on the audio clock from the start time plus the lead;
  and exactly the last packet carries the end-of-stream flag.\<close>

theorem stream_delivers_pcm:
  assumes "0 < c" "c \<le> 2 ^ 16" "0 < n" "n < 2 ^ 32" "\<not> ts_started t"
  shows "\<exists>s' p' ds pkts. runToEnd rnd enc memory_read memory_exhausted n now (memory_new ss c) (packetizer_new t c) = Some (s', p', ds) \<and>
    map (\<lambda>d. unpackPacket d (of_nat c)) ds = map Some pkts \<and> concat (map ap_samples pkts) = whole_frames c ss \<and>
    length pkts = blocks (n * c) (length (whole_frames c ss)) \<and>
    map seq_of pkts = map of_nat [0..<length pkts] \<and>
    map (\<lambda>q. ah_timestamp (ap_header q)) pkts = map (\<lambda>k. enc (timeline rnd (ts_start rnd t now) k)) [0..<length pkts] \<and>
    map isLast pkts = map (\<lambda>k. Suc k = length pkts) [0..<length pkts]"
  using memory_delivers [OF assms] .

theorem stream_delivers_pcm_witness:
  "\<exists>s' p' ds pkts. runToEnd (\<lambda>x. x) (\<lambda>_. 7) memory_read memory_exhausted 2 (Fin 0) (memory_new [1, 2, 3, 4, 5, 6, 7] 2)
      (packetizer_new (timestamper_new (\<lambda>x. x) 48000 480 (Fin 1)) 2) = Some (s', p', ds) \<and> length pkts = 2 \<and>
    map (\<lambda>d. unpackPacket d 2) ds = map Some pkts \<and> concat (map ap_samples pkts) = [1, 2, 3, 4, 5, 6] \<and>
    map isLast pkts = [False, True]"
proof -
  have w: "whole_frames 2 [1, 2, 3, 4, 5, 6, 7 :: i16] = [1, 2, 3, 4, 5, 6]" by (simp add: whole_frames_def)
  have b: "blocks (2 * 2) (length [1, 2, 3, 4, 5, 6 :: i16]) = 2" by (simp add: blocks_def)
  have "\<not> ts_started (timestamper_new (\<lambda>x. x) 48000 480 (Fin 1))" by (simp add: timestamper_new_def)
  from stream_delivers_pcm [OF _ _ _ _ this, of 2 2 "\<lambda>x. x" "\<lambda>_. 7" "Fin 0" "[1, 2, 3, 4, 5, 6, 7]"]
  obtain s' p' ds pkts where r: "runToEnd (\<lambda>x. x) (\<lambda>_. 7) memory_read memory_exhausted 2 (Fin 0) (memory_new [1, 2, 3, 4, 5, 6, 7] 2)
      (packetizer_new (timestamper_new (\<lambda>x. x) 48000 480 (Fin 1)) 2) = Some (s', p', ds)"
    "map (\<lambda>d. unpackPacket d 2) ds = map Some pkts" "concat (map ap_samples pkts) = [1, 2, 3, 4, 5, 6]" "length pkts = 2"
    "map isLast pkts = map (\<lambda>k. Suc k = length pkts) [0..<length pkts]" unfolding w b by auto
  have "map isLast pkts = [False, True]" using r(5) unfolding r(4) by (simp add: upt_rec)
  with r show ?thesis
    by (intro exI [of _ s'] exI [of _ p'] exI [of _ ds] exI [of _ pkts]) (simp only: simp_thms)
qed

section \<open>From the Streamer to the speaker\<close>

lemma receiver_run_append:
  "receiver_run rnd ch r (xs @ ys) =
     (case receiver_run rnd ch r xs of (r1, e1) \<Rightarrow> case receiver_run rnd ch r1 ys of (r2, e2) \<Rightarrow> (r2, e1 @ e2))"
  by (induction xs arbitrary: r) (auto split: prod.splits)

lemma received_buffer:
  "length ts = length ds \<Longrightarrow> map (\<lambda>d. unpackPacket d ch) ds = map Some pkts \<Longrightarrow>
     rc_buffer (fst (receiver_run rnd ch r (map2 Datagram ts ds))) = foldl push (rc_buffer r) pkts"
proof (induction ts ds arbitrary: r pkts rule: list_induct2)
  case (Cons t ts d ds)
  then obtain p ps where p: "pkts = p # ps" by (cases pkts) auto
  have "rc_buffer (fst (onDatagram rnd ch t r d)) = push (rc_buffer r) p"
    using Cons.prems p by (simp add: onDatagram_def Let_def)
  then show ?case using Cons.IH [of ps "fst (onDatagram rnd ch t r d)"] Cons.prems p by (auto split: prod.splits)
qed simp

lemma received_unflagged:
  "length ts = length ds \<Longrightarrow> map (\<lambda>d. unpackPacket d ch) ds = map Some pkts \<Longrightarrow> \<forall>p \<in> set pkts. \<not> isLast p \<Longrightarrow>
     snd (receiver_run rnd ch r (map2 Datagram ts ds)) = (if rc_streaming r \<or> pkts = [] then [] else [audio_event Ev_AudioStarted]) \<and>
     rc_streaming (fst (receiver_run rnd ch r (map2 Datagram ts ds))) = (rc_streaming r \<or> pkts \<noteq> [])"
proof (induction ts ds arbitrary: r pkts rule: list_induct2)
  case (Cons t ts d ds)
  then obtain p ps where p: "pkts = p # ps" by (cases pkts) auto
  have "snd (onDatagram rnd ch t r d) = (if rc_streaming r then [] else [audio_event Ev_AudioStarted])"
    "rc_streaming (fst (onDatagram rnd ch t r d))"
    using Cons.prems p by (simp_all add: onDatagram_def Let_def)
  then show ?case using Cons.IH [of ps "fst (onDatagram rnd ch t r d)"] Cons.prems p by (auto split: prod.splits)
qed simp

lemma received_flagged:
  assumes "length ts = length ds" "map (\<lambda>d. unpackPacket d ch) ds = map Some pkts" "pkts \<noteq> []" "\<not> rc_streaming r"
    and "map isLast pkts = map (\<lambda>k. Suc k = length pkts) [0..<length pkts]"
  shows "snd (receiver_run rnd ch r (map2 Datagram ts ds)) = [audio_event Ev_AudioStarted, audio_event Ev_AudioStopped]"
proof -
  have len: "length ds = length pkts" using assms(2) by (metis length_map)
  obtain ts1 t where ts: "ts = ts1 @ [t]" using assms(1,3) len by (metis length_0_conv rev_exhaust)
  obtain ds1 d where ds: "ds = ds1 @ [d]" using assms(3) len by (metis length_0_conv rev_exhaust)
  obtain ps q where ps: "pkts = ps @ [q]" using assms(3) by (metis rev_exhaust)
  have l1: "length ts1 = length ds1" "length ps = length ds1" using assms(1) len ts ds ps by simp_all
  have u: "map (\<lambda>d. unpackPacket d ch) ds1 = map Some ps" "unpackPacket d ch = Some q"
    using assms(2) ds ps by simp_all
  have f: "isLast (pkts ! k) \<longleftrightarrow> Suc k = length pkts" if "k < length pkts" for k
    using arg_cong [OF assms(5), of "\<lambda>xs. xs ! k"] that by simp
  have q: "isLast q" using f [of "length ps"] ps by simp
  have "\<not> isLast p" if mem: "p \<in> set ps" for p
  proof -
    obtain k where k: "k < length ps" "p = ps ! k" using mem unfolding in_set_conv_nth by auto
    then have "isLast p \<longleftrightarrow> Suc k = length pkts" using f [of k] ps by (simp add: nth_append)
    then show ?thesis using k(1) ps by simp
  qed
  then have n: "snd (receiver_run rnd ch r (map2 Datagram ts1 ds1)) = (if ps = [] then [] else [audio_event Ev_AudioStarted])"
    "rc_streaming (fst (receiver_run rnd ch r (map2 Datagram ts1 ds1))) = (ps \<noteq> [])"
    using received_unflagged [OF l1(1) u(1), of rnd r] assms(4) by auto
  have "map2 Datagram ts ds = map2 Datagram ts1 ds1 @ [Datagram t d]" using ts ds l1 by simp
  then show ?thesis
    using n u(2) q by (cases "receiver_run rnd ch r (map2 Datagram ts1 ds1)")
      (auto simp: receiver_run_append onDatagram_def Let_def split: prod.splits)
qed

lemma push_fits: "length (ab_queue b) + length ps \<le> ab_capacity b \<Longrightarrow>
    ab_queue (foldl push b ps) = ab_queue b @ ps \<and> ab_dropped_overflow (foldl push b ps) = ab_dropped_overflow b"
  by (induction ps arbitrary: b) simp_all

lemma push_consecutive:
  "length ps \<le> 2 ^ 63 \<Longrightarrow> map seq_of ps = map of_nat [0..<length ps] \<Longrightarrow>
     ab_lost (foldl push (ab_new pre cap) ps) = 0 \<and>
     (ps \<noteq> [] \<longrightarrow> ab_have_last_seq (foldl push (ab_new pre cap) ps) \<and>
        ab_last_sequence (foldl push (ab_new pre cap) ps) = of_nat (length ps - 1))"
proof (induction ps rule: rev_induct)
  case (snoc p ps)
  then have ih: "ab_lost (foldl push (ab_new pre cap) ps) = 0"
    "ps \<noteq> [] \<Longrightarrow> ab_have_last_seq (foldl push (ab_new pre cap) ps) \<and>
        ab_last_sequence (foldl push (ab_new pre cap) ps) = of_nat (length ps - 1)" and sq: "seq_of p = of_nat (length ps)"
    by simp_all
  show ?case
  proof (cases "ps = []")
    case True
    then show ?thesis using sq by (simp add: note_sequence_def ab_new_def)
  next
    case False
    have "(of_nat (length ps - 1) :: u64) + 1 = of_nat (length ps)" using False
      by (metis One_nat_def Suc_pred length_greater_0_conv of_nat_Suc add.commute)
    moreover have "(of_nat (length ps - 1) :: u64) < of_nat (length ps)"
      using snoc.prems(1) False by (simp add: word_less_nat_alt unsigned_of_nat take_bit_nat_eq_self)
    ultimately show ?thesis using ih False sq by (simp add: note_sequence_def Let_def)
  qed
qed (simp add: ab_new_def)

text \<open>C22. A stream from memory that fits into the jitter buffer reaches the speaker intact. Take a \<open>MemoryAudioSource\<close> (the
  source of generated tones) that holds at least one whole frame and makes at most 50 blocks; when the datagrams of its stream
  arrive in order, at any times, the samples waiting in the buffer are exactly the whole frames of the source, nothing is counted as lost or
  dropped, and the start and the end of the stream are announced exactly once. The claim is about this source: WAV files at
  48 kHz and standard input report their end only after the last block, so that the end of their streams is not
  announced.\<close>

theorem stream_reaches_speaker:
  assumes "0 < c" "c \<le> 2 ^ 16" "0 < n" "n < 2 ^ 32" "\<not> ts_started t"
    and "whole_frames c ss \<noteq> []" "blocks (n * c) (length (whole_frames c ss)) \<le> 50" "length arrivals = blocks (n * c) (length (whole_frames c ss))"
  shows "\<exists>s' p' ds. runToEnd rnd enc memory_read memory_exhausted n now (memory_new ss c) (packetizer_new t c) = Some (s', p', ds) \<and>
    (case receiver_run rnd' (of_nat c) receiver_new (map2 Datagram arrivals ds) of
       (r, es) \<Rightarrow> concat (map ap_samples (ab_queue (rc_buffer r))) = whole_frames c ss \<and> ab_lost (rc_buffer r) = 0 \<and>
         ab_dropped_overflow (rc_buffer r) = 0 \<and> es = [audio_event Ev_AudioStarted, audio_event Ev_AudioStopped])"
proof -
  obtain s' p' ds pkts where r: "runToEnd rnd enc memory_read memory_exhausted n now (memory_new ss c) (packetizer_new t c) = Some (s', p', ds)"
    and u: "map (\<lambda>d. unpackPacket d (of_nat c)) ds = map Some pkts" and smp: "concat (map ap_samples pkts) = whole_frames c ss"
    and len: "length pkts = blocks (n * c) (length (whole_frames c ss))" and sq: "map seq_of pkts = map of_nat [0..<length pkts]"
    and fl: "map isLast pkts = map (\<lambda>k. Suc k = length pkts) [0..<length pkts]"
    using memory_delivers [OF assms(1-5), of rnd enc now ss] by blast
  have ld: "length arrivals = length ds" using assms(8) len u by (metis length_map)
  have ne: "pkts \<noteq> []" using smp assms(6) by auto
  have buf: "rc_buffer (fst (receiver_run rnd' (of_nat c) receiver_new (map2 Datagram arrivals ds))) = foldl push (ab_new 10 50) pkts"
    using received_buffer [OF ld u] by (simp add: receiver_new_def)
  have "length (ab_queue (ab_new 10 50)) + length pkts \<le> ab_capacity (ab_new 10 50)" using len assms(7) by (simp add: ab_new_def)
  from push_fits [OF this] have q: "ab_queue (foldl push (ab_new 10 50) pkts) = pkts" "ab_dropped_overflow (foldl push (ab_new 10 50) pkts) = 0"
    by (simp_all add: ab_new_def)
  have "ab_lost (foldl push (ab_new 10 50) pkts) = 0" using push_consecutive [OF _ sq] len assms(7) by simp
  moreover have "snd (receiver_run rnd' (of_nat c) receiver_new (map2 Datagram arrivals ds)) = [audio_event Ev_AudioStarted, audio_event Ev_AudioStopped]"
    using received_flagged [OF ld u ne _ fl] by (simp add: receiver_new_def)
  ultimately show ?thesis using r buf q smp by (intro exI [of _ s'] exI [of _ p'] exI [of _ ds]) (auto split: prod.splits)
qed

theorem stream_reaches_speaker_witness:
  "\<exists>s' p' ds. runToEnd (\<lambda>x. x) (\<lambda>_. 7) memory_read memory_exhausted 2 (Fin 0) (memory_new [1, 2, 3, 4, 5, 6, 7] 2)
      (packetizer_new (timestamper_new (\<lambda>x. x) 48000 480 (Fin 1)) 2) = Some (s', p', ds) \<and>
    (case receiver_run (\<lambda>x. x) 2 receiver_new (map2 Datagram [Fin 1, Fin 2] ds) of
       (r, es) \<Rightarrow> concat (map ap_samples (ab_queue (rc_buffer r))) = [1, 2, 3, 4, 5, 6] \<and> ab_lost (rc_buffer r) = 0 \<and>
         ab_dropped_overflow (rc_buffer r) = 0 \<and> es = [audio_event Ev_AudioStarted, audio_event Ev_AudioStopped])"
proof -
  have w: "whole_frames 2 [1, 2, 3, 4, 5, 6, 7 :: i16] = [1, 2, 3, 4, 5, 6]" by (simp add: whole_frames_def)
  have b: "blocks (2 * 2) (length [1, 2, 3, 4, 5, 6 :: i16]) = 2" by (simp add: blocks_def)
  have "\<not> ts_started (timestamper_new (\<lambda>x. x) 48000 480 (Fin 1))" by (simp add: timestamper_new_def)
  from stream_reaches_speaker [OF _ _ _ _ this, of 2 2 "[1, 2, 3, 4, 5, 6, 7]" "[Fin 1, Fin 2]" "\<lambda>x. x" "\<lambda>_. 7" "Fin 0" "\<lambda>x. x"]
  show ?thesis unfolding w b by simp
qed

section \<open>WAV files\<close>

text \<open>The layout of a PCM file: the header, a format chunk, other chunks, the samples, and bytes after them.\<close>

definition put32 :: "u32 \<Rightarrow> byte list" where
  "put32 v = [ucast v, ucast (drop_bit 8 v), ucast (drop_bit 16 v), ucast (drop_bit 24 v)]"

definition fmt_chunk :: "i16 \<Rightarrow> u32 \<Rightarrow> u32 \<Rightarrow> i16 \<Rightarrow> byte list" where
  "fmt_chunk chans rate byte_rate align =
     ascii ''fmt '' @ put32 16 @ sample_bytes 1 @ sample_bytes chans @ put32 rate @ put32 byte_rate @ sample_bytes align @ sample_bytes 16"

definition meta_chunk :: "byte list \<times> byte list \<Rightarrow> byte list" where
  "meta_chunk = (\<lambda>(tag, body). tag @ put32 (of_nat (length body)) @ body @ (if odd (length body) then [0] else []))"

definition meta_ok :: "byte list \<times> byte list \<Rightarrow> bool" where
  "meta_ok = (\<lambda>(tag, body). length tag = 4 \<and> tag \<noteq> ascii ''fmt '' \<and> tag \<noteq> ascii ''data'' \<and> length body < 2 ^ 32 - 1)"

definition data_chunk :: "byte list \<Rightarrow> byte list" where
  "data_chunk body = ascii ''data'' @ put32 (of_nat (length body)) @ body"

definition stereo_file :: "u32 \<Rightarrow> u32 \<Rightarrow> i16 \<Rightarrow> (byte list \<times> byte list) list \<Rightarrow> i16 list \<Rightarrow> byte list \<Rightarrow> byte list" where
  "stereo_file riff_size byte_rate align metas ss rest =
     ascii ''RIFF'' @ put32 riff_size @ ascii ''WAVE'' @ fmt_chunk 2 48000 byte_rate align @
     concat (map meta_chunk metas) @ data_chunk (concat (map sample_bytes ss)) @ rest"

lemma length_put32 [simp]: "length (put32 v) = 4"
  by (simp add: put32_def)

lemma length_ascii [simp]: "length (ascii s) = length s"
  by (simp add: ascii_def)

lemma le32_put32 [simp]: "le32 (put32 v @ r) = v"
proof (rule bit_word_eqI)
  fix i assume "i < LENGTH(32)" then
  show "bit (le32 (put32 v @ r)) i = bit v i"
    by (cases "i < 8"; cases "i < 16"; cases "i < 24") (auto simp: le32_def put32_def bit_simps)
qed

lemma le16_sample [simp]: "le16 (sample_bytes s @ r) = s"
  by (simp add: le16_def sample_bytes_def sample_roundtrip)

lemma length_sample [simp]: "length (sample_bytes s) = 2"
  by (simp add: sample_bytes_def)

lemma decode_frames_Suc: "decode_frames c (Suc k) raw = stereo_frame c raw @ decode_frames c k (drop (c * 2) raw)"
proof -
  have "decode_frames c (Suc k) raw = take (2 * 1) (decode_frames c (Suc k) raw) @ drop (2 * 1) (decode_frames c (Suc k) raw)"
    by (rule append_take_drop_id [symmetric])
  also have "\<dots> = stereo_frame c raw @ decode_frames c k (drop (c * 2) raw)"
    unfolding take_decode_frames drop_decode_frames by (simp add: decode_frames_def)
  finally show ?thesis .
qed

lemma decode_stereo: "length ss = 2 * k \<Longrightarrow> decode_frames 2 k (concat (map sample_bytes ss) @ r) = ss"
proof (induction k arbitrary: ss)
  case (Suc k)
  then obtain a b ss' where ss: "ss = a # b # ss'" by (metis Suc_length_conv mult_Suc_right numeral_2_eq_2 add_Suc)
  have "stereo_frame 2 (sample_bytes a @ sample_bytes b @ x) = [a, b]" "drop (2 * 2) (sample_bytes a @ sample_bytes b @ x) = x" for x
    by (simp_all add: stereo_frame_def Let_def)
  then show ?case using Suc ss by (simp add: decode_frames_Suc)
qed simp

lemma unat_pad: "n < 2 ^ 32 - 1 \<Longrightarrow> unat ((of_nat n :: u32) + (of_nat n AND 1)) = n + n mod 2"
proof -
  assume n: "n < 2 ^ 32 - 1"
  have "(of_nat n :: u32) AND 1 = of_nat (n mod 2)"
    by (simp add: and_one_eq mod_2_eq_odd)
  then have "(of_nat n :: u32) + (of_nat n AND 1) = of_nat (n + n mod 2)" by simp
  moreover have "n + n mod 2 < 2 ^ 32" using n by (cases "even n") auto
  ultimately show ?thesis by (simp only: unsigned_of_nat) (simp add: take_bit_nat_eq_self)
qed

lemma walk_meta:
  assumes "meta_ok m" "w_rest w = meta_chunk m @ r"
  shows "walk_chunks path w have_fmt = walk_chunks path (w\<lparr>w_rest := r\<rparr>) have_fmt"
proof -
  obtain tag body where m: "m = (tag, body)" by (rule prod.exhaust)
  have ok: "length tag = 4" "tag \<noteq> ascii ''fmt ''" "tag \<noteq> ascii ''data''" "length body < 2 ^ 32 - 1"
    using assms(1) by (simp_all add: meta_ok_def m)
  let ?pad = "if odd (length body) then [0] else []"
  have rest: "w_rest w = tag @ put32 (of_nat (length body)) @ (body @ ?pad @ r)" using assms(2) by (simp add: meta_chunk_def m)
  have "drop (length body + length body mod 2) (body @ ?pad @ r) = r" by (auto simp: odd_iff_mod_2_eq_one)
  then show ?thesis
    using ok unat_pad [OF ok(4)] by (subst walk_chunks.simps) (simp add: rest Let_def)
qed

lemma walk_metas:
  "list_all meta_ok metas \<Longrightarrow> w_rest w = concat (map meta_chunk metas) @ r \<Longrightarrow>
     walk_chunks path w have_fmt = walk_chunks path (w\<lparr>w_rest := r\<rparr>) have_fmt"
proof (induction metas arbitrary: w)
  case (Cons m metas)
  then show ?case using walk_meta [of m w "concat (map meta_chunk metas) @ r" path have_fmt] by simp
next
  case Nil
  then have "w\<lparr>w_rest := r\<rparr> = w" by simp
  then show ?case by simp
qed

lemma walk_data:
  assumes "w_rest w = data_chunk body @ r" "length body < 2 ^ 32"
  shows "walk_chunks path w True = Some (Inr (w\<lparr>w_rest := body @ r, w_data_remaining := length body\<rparr>))"
proof -
  have "ascii ''data'' \<noteq> ascii ''fmt ''" by (simp add: ascii_def)
  then show ?thesis
    using assms(2) by (subst walk_chunks.simps)
      (simp add: assms(1) data_chunk_def Let_def unsigned_of_nat take_bit_nat_eq_self)
qed

lemma walk_fmt:
  assumes "w_rest w = fmt_chunk 2 48000 byte_rate align @ r"
  shows "walk_chunks path w have_fmt =
    walk_chunks path (w\<lparr>w_src_channels := 2, w_src_rate := 48000, w_bits := 16, w_rest := r\<rparr>) True"
proof -
  let ?b = "sample_bytes 1 @ sample_bytes 2 @ put32 48000 @ put32 byte_rate @ sample_bytes align @ sample_bytes 16"
  have "read_fmt ?b w = (1, w\<lparr>w_src_channels := 2, w_src_rate := 48000, w_bits := 16\<rparr>)"
    using le16_sample [of 16 "[]"] by (simp add: read_fmt_def)
  moreover have "length ?b = 16" by simp
  ultimately show ?thesis
    by (subst walk_chunks.simps) (simp add: assms fmt_chunk_def Let_def fmt_error_def)
qed

lemma stereo_file_opens:
  assumes "list_all meta_ok metas" "length ss < 2 ^ 31"
  shows "wav_open (Some (stereo_file riff_size byte_rate align metas ss rest)) path =
    Some (Inr ((wav_new (concat (map sample_bytes ss) @ rest))\<lparr>w_data_remaining := 2 * length ss\<rparr>))"
proof -
  let ?d = "concat (map sample_bytes ss)"
  let ?r1 = "concat (map meta_chunk metas) @ data_chunk ?d @ rest"
  let ?f = "fmt_chunk 2 48000 byte_rate align @ ?r1"
  have layout: "stereo_file riff_size byte_rate align metas ss rest = ascii ''RIFF'' @ put32 riff_size @ ascii ''WAVE'' @ ?f"
    by (simp add: stereo_file_def)
  have "wav_open (Some (stereo_file riff_size byte_rate align metas ss rest)) path = walk_chunks path (wav_new ?f) False"
    unfolding layout by (simp add: wav_open_def)
  also have "\<dots> = walk_chunks path (wav_new ?r1) True"
    by (subst walk_fmt) (simp_all add: wav_new_def)
  also have "\<dots> = walk_chunks path (wav_new (data_chunk ?d @ rest)) True"
    by (subst walk_metas [OF assms(1)]) (simp_all add: wav_new_def)
  also have "\<dots> = Some (Inr ((wav_new (?d @ rest))\<lparr>w_data_remaining := 2 * length ss\<rparr>))"
    using assms(2) length_sample_bytes [of ss]
    by (subst walk_data [of _ ?d rest]) (simp_all add: wav_new_def del: length_concat)
  finally show ?thesis .
qed

text \<open>C23. A WAV file plays its samples: a 48 kHz 16-bit stereo file with any metadata chunks between the header
  and the samples, and any bytes after them, opens; sending it ends; and the speaker decodes exactly the
  samples of the file, in order, with consecutive sequence numbers.\<close>

theorem wav_file_plays:
  assumes "list_all meta_ok metas" "length ss < 2 ^ 31" "even (length ss)" "0 < n" "n < 2 ^ 32" "\<not> ts_started t"
  shows "\<exists>w s' p' ds pkts. wav_open (Some (stereo_file riff_size byte_rate align metas ss rest)) path = Some (Inr w) \<and>
    runToEnd rnd enc (\<lambda>w m. the (wav_read rnd w m)) w_exhausted n now w (packetizer_new t 2) = Some (s', p', ds) \<and>
    map (\<lambda>d. unpackPacket d 2) ds = map Some pkts \<and> concat (map ap_samples pkts) = ss \<and>
    map seq_of pkts = map of_nat [0..<blocks (2 * n) (length ss)]"
proof -
  let ?w = "(wav_new (concat (map sample_bytes ss) @ rest))\<lparr>w_data_remaining := 2 * length ss\<rparr>"
  have avail: "avail ?w = concat (map sample_bytes ss)" by (simp add: avail_def wav_new_def length_sample_bytes)
  obtain k where k: "length ss = 2 * k" using assms(3) by (rule evenE)
  have left: "wav_left ?w = ss"
    using decode_stereo [OF k, of "[]"] unfolding wav_left_def avail
    by (simp add: bytes_per_frame_def wav_new_def length_sample_bytes k)
  have ok: "wav48_ok ?w" by (simp add: wav48_ok_def wav_new_def)
  have pk: "pk_channels (packetizer_new t 2) = 2" "pk_sequence (packetizer_new t 2) = 0" by (simp_all add: packetizer_new_def)
  obtain s' p' ds pkts where "runToEnd rnd enc (\<lambda>w m. the (wav_read rnd w m)) w_exhausted n now ?w (packetizer_new t 2) = Some (s', p', ds)"
    "map (\<lambda>d. unpackPacket d (of_nat 2)) ds = map Some pkts" "concat (map ap_samples pkts) = ss"
    "length pkts = blocks (n * 2) (length ss)" "map seq_of pkts = map of_nat [0..<length pkts]"
    using wav48.run_delivers [OF assms(4,5) ok _ pk refl, where enc = enc and now = now and rnd = rnd and rnda = rnd] unfolding left by auto
  moreover have "wav_open (Some (stereo_file riff_size byte_rate align metas ss rest)) path = Some (Inr ?w)"
    by (rule stereo_file_opens [OF assms(1,2)])
  ultimately show ?thesis by (intro exI conjI) (assumption | simp add: mult.commute)+
qed

theorem wav_file_plays_witness:
  "\<exists>w s' p' ds pkts. wav_open (Some (stereo_file 0 0 4 [([76, 73, 83, 84], [1, 2, 3])] [10, 20, 30, 40] [9])) ''a.wav'' = Some (Inr w) \<and>
    runToEnd (\<lambda>x. x) (\<lambda>_. 7) (\<lambda>w m. the (wav_read (\<lambda>x. x) w m)) w_exhausted 480 (Fin 0) w
      (packetizer_new (timestamper_new (\<lambda>x. x) 48000 480 (Fin 1)) 2) = Some (s', p', ds) \<and>
    map (\<lambda>d. unpackPacket d 2) ds = map Some pkts \<and> concat (map ap_samples pkts) = [10, 20, 30, 40] \<and>
    map seq_of pkts = map of_nat [0..<blocks (2 * 480) (length [10, 20, 30, 40 :: i16])]"
proof (rule wav_file_plays)
  show "list_all meta_ok [([76, 73, 83, 84], [1, 2, 3])]" by (simp add: meta_ok_def ascii_def)
qed (simp_all add: timestamper_new_def)

end
