(* ===== verification/Audio_Engine.thy ===== *)
theory Audio_Engine
  imports Stream_Sender Speaker_Store
begin

text \<open>
  The audio thread of the Streamer (\<open>streamer/src/audio/AudioEngine.cpp\<close>) as a step relation. A step is one
  atomic section of the code: a stretch under \<open>source_mutex_\<close>, an operation on an atomic variable, or a
  send. The audio thread has a program counter; the methods called by other threads are sequences of
  sections, and a run may contain them in any order, so the theorems cover every interleaving of any
  number of callers. The level meters and the event bus's own work are not part of the state; published
  events are recorded.
\<close>

section \<open>State\<close>

datatype transport = Idle | Playing | Paused

text \<open>Where the audio thread is: no thread; before the tests of the loop; before \<open>sendBlock\<close>; with a packed
  datagram outside the lock; after \<open>sendBlock\<close> returned false; before and in the pacing loop.\<close>

datatype audio_pc = No_Thread | At_Test | At_Block | At_Send "byte list" | At_End | At_Pace | In_Pace int

record 's engine =
  en_running :: bool
  en_state :: service_state
  en_transport :: transport
  en_packets_sent :: u64
  en_targets :: nat
  en_source :: "'s option"
  en_dsp_hook :: "(i16 list \<Rightarrow> i16 list) option"
  en_packetizer :: packetizer
  en_blocks :: u64
  en_wall_start :: int
  en_pc :: audio_pc
  en_sent :: "byte list list"
  en_events :: "event list"

text \<open>The configuration and the environment: the source's \<open>read\<close> and \<open>exhausted\<close>, and \<open>ev_cast\<close>, the length of k blocks
  on the steady clock.\<close>

record 's engine_env =
  ev_rnd :: rounding
  ev_enc :: "dbl \<Rightarrow> u64"
  ev_read :: "'s \<Rightarrow> nat \<Rightarrow> 's \<times> i16 list \<times> nat"
  ev_exhausted :: "'s \<Rightarrow> bool"
  ev_block_frames :: nat
  ev_cast :: "u64 \<Rightarrow> int"

definition engine_new :: "rounding \<Rightarrow> int \<Rightarrow> nat \<Rightarrow> nat \<Rightarrow> dbl \<Rightarrow> 's engine" where
  "engine_new rnd sample_rate channels block_frames lead =
     \<lparr>en_running = False, en_state = Svc_Stopped, en_transport = Idle, en_packets_sent = 0, en_targets = 0,
      en_source = None, en_dsp_hook = None,
      en_packetizer = packetizer_new (timestamper_new rnd sample_rate (int block_frames) lead) channels,
      en_blocks = 0, en_wall_start = 0, en_pc = No_Thread, en_sent = [], en_events = []\<rparr>"

section \<open>Sections\<close>

definition reanchor :: "'s engine_env \<Rightarrow> dbl \<Rightarrow> int \<Rightarrow> 's engine \<Rightarrow> 's engine" where
  "reanchor v now wall e =
     e\<lparr>en_packetizer := (en_packetizer e)\<lparr>pk_ts := ts_start (ev_rnd v) (pk_ts (en_packetizer e)) now\<rparr>,
       en_blocks := 0, en_wall_start := wall\<rparr>"

definition to_idle :: "'s engine \<Rightarrow> 's engine" where
  "to_idle e = (if en_transport e \<noteq> Idle
                then e\<lparr>en_transport := Idle, en_events := en_events e @ [streamer_event ''stream.stopped'' []]\<rparr> else e)"

text \<open>\<open>sendBlock\<close> up to the end of its locked part: the last block is sent under the lock.\<close>

definition send_block :: "'s engine_env \<Rightarrow> 's engine \<Rightarrow> 's engine" where
  "send_block v e =
     (case en_source e of
        None \<Rightarrow> e\<lparr>en_pc := At_End\<rparr>
      | Some s \<Rightarrow>
          (case ev_read v s (ev_block_frames v) of (s1, buf, frames) \<Rightarrow>
             let e1 = e\<lparr>en_source := Some s1\<rparr> in
             if frames = 0 then e1\<lparr>en_pc := (if ev_exhausted v s1 then At_End else At_Pace)\<rparr>
             else
               let out = (case en_dsp_hook e of None \<Rightarrow> buf | Some f \<Rightarrow> f buf);
                   is_last = ev_exhausted v s1 in
               (case pack (ev_rnd v) (ev_enc v) (en_packetizer e) out (of_nat frames) is_last of (p1, d) \<Rightarrow>
                  if is_last then e1\<lparr>en_packetizer := p1, en_sent := en_sent e @ [d], en_packets_sent := en_packets_sent e + 1, en_pc := At_End\<rparr>
                  else e1\<lparr>en_packetizer := p1, en_pc := At_Send d\<rparr>)))"

datatype 's section_label =
    Test | Block | Send | End | Pace | Tick int
  | Start | Stop_Request | Stop_Join
  | Load 's dbl int | Go | Pause | Resume_Cas | Reanchor dbl int
  | Drop_Source | To_Idle | Set_Hook "(i16 list \<Rightarrow> i16 list) option" | Set_Targets nat

inductive engine_step :: "'s engine_env \<Rightarrow> 's engine \<Rightarrow> 's section_label \<Rightarrow> 's engine \<Rightarrow> bool" for v where
  test_exit: "en_pc e = At_Test \<Longrightarrow> \<not> en_running e \<Longrightarrow> engine_step v e Test (e\<lparr>en_pc := No_Thread\<rparr>)"
| test_wait: "en_pc e = At_Test \<Longrightarrow> en_running e \<Longrightarrow> en_transport e \<noteq> Playing \<Longrightarrow> engine_step v e Test e"
| test_play: "en_pc e = At_Test \<Longrightarrow> en_running e \<Longrightarrow> en_transport e = Playing \<Longrightarrow> engine_step v e Test (e\<lparr>en_pc := At_Block\<rparr>)"
| block: "en_pc e = At_Block \<Longrightarrow> engine_step v e Block (send_block v e)"
| send: "en_pc e = At_Send d \<Longrightarrow>
    engine_step v e Send (e\<lparr>en_sent := en_sent e @ [d], en_packets_sent := en_packets_sent e + 1, en_pc := At_Pace\<rparr>)"
| ended: "en_pc e = At_End \<Longrightarrow> engine_step v e End ((to_idle e)\<lparr>en_pc := At_Test\<rparr>)"
| pace: "en_pc e = At_Pace \<Longrightarrow> engine_step v e Pace (e\<lparr>en_blocks := en_blocks e + 1,
      en_pc := In_Pace (en_wall_start e + ev_cast v (en_blocks e + 1))\<rparr>)"
| tick_wait: "en_pc e = In_Pace until \<Longrightarrow> en_running e \<Longrightarrow> now < until \<Longrightarrow> engine_step v e (Tick now) e"
| tick_go: "en_pc e = In_Pace until \<Longrightarrow> \<not> en_running e \<or> now \<ge> until \<Longrightarrow>
    engine_step v e (Tick now) (e\<lparr>en_pc := At_Test\<rparr>)"
| start_idempotent: "en_running e \<Longrightarrow> engine_step v e Start e"
| start: "\<not> en_running e \<Longrightarrow> en_pc e = No_Thread \<Longrightarrow>
    engine_step v e Start (e\<lparr>en_running := True, en_packets_sent := 0, en_pc := At_Test, en_state := Svc_Running\<rparr>)"
| stop_request: "engine_step v e Stop_Request (if en_running e then e\<lparr>en_running := False, en_state := Svc_Stopping\<rparr> else e)"
| stop_join: "\<not> en_running e \<Longrightarrow> en_state e = Svc_Stopping \<Longrightarrow> en_pc e = No_Thread \<Longrightarrow>
    engine_step v e Stop_Join (e\<lparr>en_source := None, en_transport := Idle, en_state := Svc_Stopped\<rparr>)"
| load: "engine_step v e (Load s now wall) (reanchor v now wall (e\<lparr>en_source := Some s\<rparr>))"
| go: "engine_step v e Go (e\<lparr>en_transport := Playing, en_events := en_events e @ [streamer_event ''stream.started'' []]\<rparr>)"
| pause: "engine_step v e Pause (if en_transport e = Playing then e\<lparr>en_transport := Paused\<rparr> else e)"
| resume_cas: "engine_step v e Resume_Cas (if en_transport e = Paused then e\<lparr>en_transport := Playing\<rparr> else e)"
| reanchor: "engine_step v e (Reanchor now wall) (reanchor v now wall e)"
| drop_source: "engine_step v e Drop_Source (e\<lparr>en_source := None\<rparr>)"
| to_idle: "engine_step v e To_Idle (to_idle e)"
| set_hook: "engine_step v e (Set_Hook f) (e\<lparr>en_dsp_hook := f\<rparr>)"
| set_targets: "engine_step v e (Set_Targets n) (e\<lparr>en_targets := n\<rparr>)"

inductive_cases engine_stepE: "engine_step v e l e'"

text \<open>The methods as sequences of sections.\<close>

definition play_sections :: "'s \<Rightarrow> dbl \<Rightarrow> int \<Rightarrow> 's section_label list" where
  "play_sections s now wall = [Load s now wall, Go]"

definition stopStream_sections :: "'s section_label list" where
  "stopStream_sections = [Drop_Source, To_Idle]"

inductive engine_run :: "'s engine_env \<Rightarrow> 's engine \<Rightarrow> 's section_label list \<Rightarrow> 's engine \<Rightarrow> bool" for v where
  run_nil: "engine_run v e [] e"
| run_step: "engine_run v e ls e1 \<Longrightarrow> engine_step v e1 l e2 \<Longrightarrow> engine_run v e (ls @ [l]) e2"

section \<open>Sequence numbers\<close>

definition datagram_sequence :: "byte list \<Rightarrow> u64" where
  "datagram_sequence d = readBE64 (drop 8 d)"

text \<open>The packed datagram that is not sent yet.\<close>

definition in_hand :: "'s engine \<Rightarrow> byte list list" where
  "in_hand e = (case en_pc e of At_Send d \<Rightarrow> [d] | _ \<Rightarrow> [])"

definition sequence_inv :: "'s engine \<Rightarrow> bool" where
  "sequence_inv e \<longleftrightarrow>
     map datagram_sequence (en_sent e @ in_hand e) = map of_nat [0..<length (en_sent e @ in_hand e)] \<and>
     pk_sequence (en_packetizer e) = of_nat (length (en_sent e @ in_hand e))"

lemma pack_sequence:
  assumes "pack rnd enc p frames n b = (p1, d)"
  shows "datagram_sequence d = pk_sequence p" "pk_sequence p1 = pk_sequence p + 1"
  using assms drop_header(1) [of "enc (ts_next_timestamp (pk_ts p))"]
  by (auto simp: pack_def nextTimestamp_def datagram_sequence_def packPacket_def Let_def)

lemma sequence_inv_append:
  assumes "sequence_inv e" "en_sent e' @ in_hand e' = (en_sent e @ in_hand e) @ [d]"
    "datagram_sequence d = pk_sequence (en_packetizer e)" "pk_sequence (en_packetizer e') = pk_sequence (en_packetizer e) + 1"
  shows "sequence_inv e'"
  using assms unfolding sequence_inv_def assms(2) by simp

lemma sequence_inv_same:
  "sequence_inv e \<Longrightarrow> en_sent e' @ in_hand e' = en_sent e @ in_hand e \<Longrightarrow>
     pk_sequence (en_packetizer e') = pk_sequence (en_packetizer e) \<Longrightarrow> sequence_inv e'"
  by (simp add: sequence_inv_def)

lemma send_block_effect:
  assumes "en_pc e = At_Block"
  shows "(en_sent (send_block v e) @ in_hand (send_block v e) = en_sent e \<and>
      pk_sequence (en_packetizer (send_block v e)) = pk_sequence (en_packetizer e)) \<or>
    (\<exists>d. en_sent (send_block v e) @ in_hand (send_block v e) = en_sent e @ [d] \<and>
      datagram_sequence d = pk_sequence (en_packetizer e) \<and>
      pk_sequence (en_packetizer (send_block v e)) = pk_sequence (en_packetizer e) + 1)"
  unfolding send_block_def
  by (auto simp: Let_def in_hand_def split: option.split prod.split dest: pack_sequence)

lemma send_block_sequence: "sequence_inv e \<Longrightarrow> en_pc e = At_Block \<Longrightarrow> sequence_inv (send_block v e)"
  using send_block_effect [of e v] sequence_inv_append [of e "send_block v e"] sequence_inv_same [of e "send_block v e"]
  by (auto simp: in_hand_def)

lemma engine_step_sequence:
  assumes "engine_step v e l e'" "sequence_inv e"
  shows "sequence_inv e'"
  using assms(1)
proof cases
  case block
  then show ?thesis using assms(2) send_block_sequence by simp
qed (use assms(2) in \<open>auto simp: sequence_inv_def in_hand_def to_idle_def reanchor_def\<close>)

lemma engine_run_sequence: "engine_run v e ls e' \<Longrightarrow> sequence_inv e \<Longrightarrow> sequence_inv e'"
  by (induction rule: engine_run.induct) (auto intro: engine_step_sequence)

text \<open>C26. The datagrams of the engine are numbered without gaps: in every run from a new engine, with any calls
  of any number of threads in any interleaving, the datagrams handed to the sink carry the sequence
  numbers 0, 1, 2, and so on, across pauses, restarts and new streams.\<close>

theorem engine_sequence_gapless:
  assumes "engine_run v (engine_new rnd rate channels n lead) ls e"
  shows "map datagram_sequence (en_sent e) = map of_nat [0..<length (en_sent e)]"
proof -
  have "sequence_inv (engine_new rnd rate channels n lead)"
    by (simp add: sequence_inv_def engine_new_def in_hand_def packetizer_new_def)
  then have "sequence_inv e" by (rule engine_run_sequence [OF assms])
  then have "take (length (en_sent e)) (map datagram_sequence (en_sent e @ in_hand e)) =
      take (length (en_sent e)) (map of_nat [0..<length (en_sent e @ in_hand e)])"
    unfolding sequence_inv_def by presburger
  then show ?thesis by (simp add: take_map)
qed

definition demo_engine_env :: "memory_source engine_env" where
  "demo_engine_env = \<lparr>ev_rnd = (\<lambda>x. x), ev_enc = (\<lambda>_. 7), ev_read = memory_read, ev_exhausted = memory_exhausted,
     ev_block_frames = 1, ev_cast = (\<lambda>k. 10 * uint k)\<rparr>"

text \<open>A new engine that has been started, given the source s and told to play, and has tested its state.\<close>

definition demo_at_block :: "memory_source \<Rightarrow> memory_source engine" where
  "demo_at_block s = (reanchor demo_engine_env (Fin 0) 0 (engine_new (\<lambda>x. x) 48000 2 1 (Fin 1)))
     \<lparr>en_running := True, en_state := Svc_Running, en_source := Some s, en_transport := Playing, en_pc := At_Block,
      en_events := [streamer_event ''stream.started'' []]\<rparr>"

lemma engine_run_snocs:
  "engine_run v e ls e1 \<Longrightarrow> engine_step v e1 l e2 \<Longrightarrow> ls @ [l] = ls' \<Longrightarrow> engine_run v e ls' e2"
  using run_step by blast

lemma demo_run:
  "engine_run demo_engine_env (engine_new (\<lambda>x. x) 48000 2 1 (Fin 1)) [Start, Load s (Fin 0) 0, Go, Test] (demo_at_block s)"
proof -
  let ?e0 = "engine_new (\<lambda>x. x) 48000 2 1 (Fin 1) :: memory_source engine"
  let ?e1 = "?e0\<lparr>en_running := True, en_packets_sent := 0, en_pc := At_Test, en_state := Svc_Running\<rparr>"
  let ?e2 = "reanchor demo_engine_env (Fin 0) 0 (?e1\<lparr>en_source := Some s\<rparr>)"
  let ?e3 = "?e2\<lparr>en_transport := Playing, en_events := en_events ?e2 @ [streamer_event ''stream.started'' []]\<rparr>"
  have "engine_run demo_engine_env ?e0 [Start] ?e1"
    by (rule engine_run_snocs [OF run_nil engine_step.start]) (simp_all add: engine_new_def)
  then have "engine_run demo_engine_env ?e0 [Start, Load s (Fin 0) 0] ?e2"
    by (rule engine_run_snocs [OF _ engine_step.load]) simp
  then have "engine_run demo_engine_env ?e0 [Start, Load s (Fin 0) 0, Go] ?e3"
    by (rule engine_run_snocs [OF _ engine_step.go]) simp
  then have "engine_run demo_engine_env ?e0 [Start, Load s (Fin 0) 0, Go, Test] (?e3\<lparr>en_pc := At_Block\<rparr>)"
    by (rule engine_run_snocs [OF _ engine_step.test_play]) (simp_all add: reanchor_def)
  moreover have "?e3\<lparr>en_pc := At_Block\<rparr> = demo_at_block s"
    by (simp add: demo_at_block_def reanchor_def engine_new_def)
  ultimately show ?thesis by simp
qed

theorem engine_sequence_gapless_witness:
  "\<exists>e. engine_run demo_engine_env (engine_new (\<lambda>x. x) 48000 2 1 (Fin 1))
      [Start, Load (memory_new [1, 2] 2) (Fin 0) 0, Go, Test, Block] e \<and>
     length (en_sent e) = 1 \<and> map datagram_sequence (en_sent e) = [0]"
proof -
  let ?e = "send_block demo_engine_env (demo_at_block (memory_new [1, 2] 2))"
  have r: "engine_run demo_engine_env (engine_new (\<lambda>x. x) 48000 2 1 (Fin 1))
      [Start, Load (memory_new [1, 2] 2) (Fin 0) 0, Go, Test, Block] ?e"
    by (rule engine_run_snocs [OF demo_run engine_step.block]) (simp_all add: demo_at_block_def)
  moreover have "length (en_sent ?e) = 1"
    by (simp add: send_block_def demo_at_block_def demo_engine_env_def memory_read_def memory_new_def memory_exhausted_def
        reanchor_def engine_new_def Let_def split: prod.split)
  ultimately show ?thesis using engine_sequence_gapless [OF r] by auto
qed

section \<open>Pausing and stopping\<close>

definition may_send :: "'s engine \<Rightarrow> nat" where
  "may_send e = (case en_pc e of At_Block \<Rightarrow> 1 | At_Send d \<Rightarrow> 1 | _ \<Rightarrow> 0)"

fun quiet :: "'s section_label \<Rightarrow> bool" where
  "quiet Go = False"
| "quiet Resume_Cas = False"
| "quiet _ = True"

lemma send_block_budget:
  "en_pc e = At_Block \<Longrightarrow> length (en_sent (send_block v e)) + may_send (send_block v e) \<le> length (en_sent e) + may_send e"
  "en_transport (send_block v e) = en_transport e"
  unfolding send_block_def by (auto simp: Let_def may_send_def split: option.split prod.split)

lemma quiet_step:
  assumes "engine_step v e l e'" "en_transport e \<noteq> Playing" "quiet l"
  shows "en_transport e' \<noteq> Playing \<and> length (en_sent e') + may_send e' \<le> length (en_sent e) + may_send e"
  using assms(1)
proof cases
  case block
  then show ?thesis using assms(2) by (simp add: send_block_budget)
qed (use assms in \<open>auto simp: may_send_def to_idle_def reanchor_def\<close>)

lemma quiet_run:
  "engine_run v e ls e' \<Longrightarrow> en_transport e \<noteq> Playing \<Longrightarrow> list_all quiet ls \<Longrightarrow>
     en_transport e' \<noteq> Playing \<and> length (en_sent e') + may_send e' \<le> length (en_sent e) + may_send e"
proof (induction rule: engine_run.induct)
  case (run_step e ls e1 l e2)
  then show ?case using quiet_step [of v e1 l e2] by fastforce
qed simp

text \<open>Pause and stop take effect at once: after \<open>pause\<close>, or after the state change of \<open>stopStream\<close>, at most one
  more datagram (the block the audio thread had already begun) is sent until the next \<open>play\<close> or \<open>resume\<close>,
  whatever else happens; and none when the thread was not inside \<open>sendBlock\<close>.\<close>

theorem pause_is_prompt:
  assumes "engine_step v e l e1" "l = Pause \<or> l = To_Idle" "engine_run v e1 ls e2" "list_all quiet ls"
  shows "length (en_sent e2) \<le> length (en_sent e1) + may_send e1 \<and> may_send e1 \<le> 1 \<and> en_transport e2 \<noteq> Playing"
proof -
  have "en_transport e1 \<noteq> Playing"
    using assms(1,2) by (auto elim!: engine_stepE simp: to_idle_def split: if_splits)
  from quiet_run [OF assms(3) this assms(4)] show ?thesis by (auto simp: may_send_def split: audio_pc.split)
qed

theorem pause_is_prompt_witness:
  "\<exists>e1 e2. engine_step demo_engine_env (demo_at_block (memory_new [1, 2] 2)) Pause e1 \<and>
     engine_run demo_engine_env e1 [Block, End] e2 \<and> length (en_sent e2) \<le> length (en_sent e1) + 1 \<and> en_transport e2 \<noteq> Playing"
proof -
  let ?e = "demo_at_block (memory_new [1, 2] 2)"
  let ?e1 = "?e\<lparr>en_transport := Paused\<rparr>"
  let ?b = "send_block demo_engine_env ?e1"
  have p: "engine_step demo_engine_env ?e Pause ?e1"
    using engine_step.pause [of demo_engine_env ?e] by (simp add: demo_at_block_def)
  have "engine_run demo_engine_env ?e1 [Block] ?b"
    by (rule engine_run_snocs [OF run_nil engine_step.block]) (simp_all add: demo_at_block_def)
  moreover have "en_pc ?b = At_End"
    by (simp add: send_block_def demo_at_block_def demo_engine_env_def memory_read_def memory_new_def memory_exhausted_def
        reanchor_def engine_new_def Let_def split: prod.split)
  ultimately have r: "engine_run demo_engine_env ?e1 [Block, End] ((to_idle ?b)\<lparr>en_pc := At_Test\<rparr>)"
    by (intro engine_run_snocs [OF _ engine_step.ended]) simp_all
  from pause_is_prompt [OF p _ r] p r show ?thesis by force
qed

section \<open>A lost play\<close>

text \<open>The end of a stream and a new \<open>play\<close> can overlap: \<open>sendBlock\<close> has returned false for the old source, \<open>play\<close>
  installs the new one and sets Playing, and then the audio thread's \<open>exchange(Idle)\<close> puts the engine to
  Idle. The new stream never starts although \<open>play\<close> returned success and nobody stopped it.\<close>

lemma play_can_be_lost:
  "\<exists>e. engine_run demo_engine_env (engine_new (\<lambda>x. x) 48000 2 1 (Fin 1))
      ([Start] @ play_sections (memory_new [1, 2] 2) (Fin 0) 0 @ [Test, Block] @ play_sections (memory_new [3, 4] 2) (Fin 5) 5 @ [End]) e \<and>
     en_transport e = Idle \<and> en_source e = Some (memory_new [3, 4] 2) \<and>
     last (en_events e) = streamer_event ''stream.stopped'' []"
proof -
  let ?b = "send_block demo_engine_env (demo_at_block (memory_new [1, 2] 2))"
  let ?l = "reanchor demo_engine_env (Fin 5) 5 (?b\<lparr>en_source := Some (memory_new [3, 4] 2)\<rparr>)"
  let ?g = "?l\<lparr>en_transport := Playing, en_events := en_events ?l @ [streamer_event ''stream.started'' []]\<rparr>"
  have pc: "en_pc ?b = At_End"
    by (simp add: send_block_def demo_at_block_def demo_engine_env_def memory_read_def memory_new_def memory_exhausted_def
        reanchor_def engine_new_def Let_def split: prod.split)
  let ?s1 = "memory_new [1, 2] 2" and ?s2 = "memory_new [3, 4] 2"
  let ?e0 = "engine_new (\<lambda>x. x) 48000 2 1 (Fin 1) :: memory_source engine"
  have "engine_run demo_engine_env ?e0 [Start, Load ?s1 (Fin 0) 0, Go, Test, Block] ?b"
    by (rule engine_run_snocs [OF demo_run engine_step.block]) (simp_all add: demo_at_block_def)
  then have "engine_run demo_engine_env ?e0 [Start, Load ?s1 (Fin 0) 0, Go, Test, Block, Load ?s2 (Fin 5) 5] ?l"
    by (rule engine_run_snocs [OF _ engine_step.load]) simp
  then have "engine_run demo_engine_env ?e0 [Start, Load ?s1 (Fin 0) 0, Go, Test, Block, Load ?s2 (Fin 5) 5, Go] ?g"
    by (rule engine_run_snocs [OF _ engine_step.go]) simp
  then have "engine_run demo_engine_env ?e0 [Start, Load ?s1 (Fin 0) 0, Go, Test, Block, Load ?s2 (Fin 5) 5, Go, End]
      ((to_idle ?g)\<lparr>en_pc := At_Test\<rparr>)"
    using pc by (intro engine_run_snocs [OF _ engine_step.ended]) (simp_all add: reanchor_def)
  then show ?thesis
    by (intro exI [of _ "(to_idle ?g)\<lparr>en_pc := At_Test\<rparr>"]) (simp add: play_sections_def to_idle_def reanchor_def)
qed

end
