(* ===== verification/Streamer_Pairing.thy ===== *)
theory Streamer_Pairing
  imports Streamer_Config Pairing Command_Server
begin

text \<open>
  Pairing from the Streamer's side: \<open>PairingClient::pair\<close>, \<open>StreamerApp::pairAndRegister\<close>, the provisioning
  window and the unattended sweep (\<open>streamer/src/pairing\<close>, \<open>provisioning\<close>, \<open>app/StreamerApp.cpp\<close>), composed
  with the speaker's pairing handler. The primitives of \<open>identity/Crypto\<close> are parameters; their documented
  behaviour is stated where it is used.
\<close>

section \<open>\<open>PairingClient\<close>\<close>

record pairing_params =
  pp_streamer_id :: string
  pp_streamer_public_key :: string
  pp_streamer_secret_key :: string
  pp_site_id :: string
  pp_initial_speaker_name :: string
  pp_setup_code :: string
  pp_wifi_ssid :: string
  pp_wifi_psk :: string
  pp_speaker_box_public_key :: string

definition params_new :: pairing_params where
  "params_new = \<lparr>pp_streamer_id = [], pp_streamer_public_key = [], pp_streamer_secret_key = [], pp_site_id = [],
     pp_initial_speaker_name = [], pp_setup_code = [], pp_wifi_ssid = [], pp_wifi_psk = [], pp_speaker_box_public_key = []\<rparr>"

record pairing_reply =
  pl_ok :: bool
  pl_message :: string
  pl_device_id :: string

record seal_lib =
  sl_fromBase64 :: "string \<Rightarrow> string result"
  sl_toBase64 :: "string \<Rightarrow> string"
  sl_sealTo :: "string \<Rightarrow> string \<Rightarrow> string result"
  sl_sign :: "string \<Rightarrow> string \<Rightarrow> string result"

definition wifi_json :: "pairing_params \<Rightarrow> json" where
  "wifi_json p = JObj [(''ssid'', JStr (pp_wifi_ssid p)), (''psk'', JStr (pp_wifi_psk p))]"

definition request_of :: "pairing_params \<Rightarrow> string \<Rightarrow> pairing_request" where
  "request_of p sealed = \<lparr>rq_streamer_id = pp_streamer_id p, rq_streamer_public_key = pp_streamer_public_key p,
     rq_site_id = pp_site_id p, rq_initial_speaker_name = pp_initial_speaker_name p, rq_setup_code = pp_setup_code p,
     rq_sealed_wifi_b64 = sealed, rq_signature_b64 = []\<rparr>"

definition request_to_json :: "pairing_request \<Rightarrow> json" where
  "request_to_json r = JObj [(''type'', JStr ''pairing''), (''streamer_id'', JStr (rq_streamer_id r)),
     (''streamer_public_key'', JStr (rq_streamer_public_key r)), (''site_id'', JStr (rq_site_id r)),
     (''initial_speaker_name'', JStr (rq_initial_speaker_name r)), (''setup_code'', JStr (rq_setup_code r)),
     (''sealed_wifi'', JStr (rq_sealed_wifi_b64 r)), (''signature'', JStr (rq_signature_b64 r))]"

definition pairing_reply_of_json :: "json_lib \<Rightarrow> json \<Rightarrow> pairing_reply option" where
  "pairing_reply_of_json J j = do {
     ok \<leftarrow> j_value (jl_get_bool J) j ''ok'' False;
     msg \<leftarrow> j_value (jl_get_string J) j ''message'' [];
     dev \<leftarrow> j_value (jl_get_string J) j ''device_id'' [];
     Some \<lparr>pl_ok = ok, pl_message = msg, pl_device_id = dev\<rparr>
   }"

text \<open>The signed request, or the error that stops before anything is sent.\<close>

definition signed_request :: "seal_lib \<Rightarrow> json_lib \<Rightarrow> pairing_params \<Rightarrow> pairing_request result" where
  "signed_request L J p =
     (case sl_fromBase64 L (pp_speaker_box_public_key p) of
        Inl _ \<Rightarrow> Inl (mk_error Ec_InvalidArg ''bad speaker box_public_key'')
      | Inr box \<Rightarrow>
          (case sl_sealTo L box (jl_dump J (wifi_json p)) of
             Inl st \<Rightarrow> Inl st
           | Inr sealed \<Rightarrow>
               let r = request_of p (sl_toBase64 L sealed) in
               (case sl_sign L (request_canonicalString r) (pp_streamer_secret_key p) of
                  Inl st \<Rightarrow> Inl st
                | Inr sig \<Rightarrow> Inr (r\<lparr>rq_signature_b64 := sig\<rparr>))))"

text \<open>\<open>pair\<close>; None when reading the reply throws (the conversions are outside the try block).\<close>

definition pair :: "seal_lib \<Rightarrow> json_lib \<Rightarrow> (string \<Rightarrow> string result) \<Rightarrow> pairing_params \<Rightarrow> pairing_reply result option" where
  "pair L J line p =
     (case signed_request L J p of
        Inl st \<Rightarrow> Some (Inl st)
      | Inr r \<Rightarrow>
          (case line (jl_dump J (request_to_json r)) of
             Inl st \<Rightarrow> Some (Inl st)
           | Inr resp \<Rightarrow>
               (case jl_parse J resp of
                  None \<Rightarrow> Some (Inl (mk_error Ec_InvalidArg (''bad pairing response: '' @ jl_what J resp)))
                | Some j \<Rightarrow> map_option Inr (pairing_reply_of_json J j))))"

section \<open>Registration\<close>

record streamer_app =
  sa_registry :: registry
  sa_zoneman :: zoneman
  sa_cfg :: "streamer_cfgman option"
  sa_dsp :: json

record streamer_identity =
  si_streamer_id :: string
  si_public_key :: string
  si_secret_key :: string

definition persist_all :: "json_lib \<Rightarrow> cfg_env \<Rightarrow> streamer_app \<Rightarrow> streamer_app" where
  "persist_all J env a =
     (case sa_cfg a of
        None \<Rightarrow> a
      | Some m \<Rightarrow> a\<lparr>sa_cfg := Some (fst (persist_app J env m (sa_registry a) (sa_zoneman a) (sa_dsp a)))\<rparr>)"

definition own_params :: "streamer_identity \<Rightarrow> pairing_params \<Rightarrow> pairing_params" where
  "own_params i p = p\<lparr>pp_streamer_id := si_streamer_id i, pp_streamer_public_key := si_public_key i,
     pp_streamer_secret_key := si_secret_key i\<rparr>"

definition pairAndRegister ::
  "seal_lib \<Rightarrow> json_lib \<Rightarrow> cfg_env \<Rightarrow> streamer_identity \<Rightarrow> (string \<Rightarrow> string \<Rightarrow> string result) \<Rightarrow> streamer_app \<Rightarrow> string
    \<Rightarrow> pairing_params \<Rightarrow> string \<Rightarrow> (string \<Rightarrow> string) \<Rightarrow> streamer_app \<times> pairing_reply result option" where
  "pairAndRegister L J env i net a connect_host p stored_host name_for =
     (case pair L J (net connect_host) (own_params i p) of
        Some (Inr reply) \<Rightarrow>
          if \<not> pl_ok reply then (a, Some (Inr reply))
          else
            let s = \<lparr>sp_device_id = pl_device_id reply, sp_name = name_for (pl_device_id reply), sp_host = stored_host,
                     sp_control_port = 45455\<rparr> in
            (persist_all J env (a\<lparr>sa_registry := fst (upsert (sa_registry a) s)\<rparr>), Some (Inr reply))
      | r \<Rightarrow> (a, r))"

section \<open>The window and the sweep\<close>

record provisioning_window =
  pw_open :: bool
  pw_expiry :: int

definition kMaxTtlSeconds :: int where
  "kMaxTtlSeconds = 1800"

definition window_new :: provisioning_window where
  "window_new = \<lparr>pw_open = False, pw_expiry = 0\<rparr>"

definition window_open :: "provisioning_window \<Rightarrow> int \<Rightarrow> int \<Rightarrow> provisioning_window" where
  "window_open w now ttl_seconds =
     (let ttl = (if ttl_seconds < 1 then 1 else if kMaxTtlSeconds < ttl_seconds then kMaxTtlSeconds else ttl_seconds) in
      w\<lparr>pw_open := True, pw_expiry := now + ttl\<rparr>)"

definition window_close :: "provisioning_window \<Rightarrow> provisioning_window" where
  "window_close w = w\<lparr>pw_open := False, pw_expiry := 0\<rparr>"

definition isOpen :: "provisioning_window \<Rightarrow> int \<Rightarrow> bool" where
  "isOpen w now \<longleftrightarrow> pw_open w \<and> now < pw_expiry w"

definition secondsRemaining :: "provisioning_window \<Rightarrow> int \<Rightarrow> int" where
  "secondsRemaining w now = (if \<not> pw_open w \<or> now \<ge> pw_expiry w then 0 else pw_expiry w - now)"

record discovered_speaker =
  ds_device_id :: string
  ds_host :: string
  ds_box_public_key :: string
  ds_control_port :: int
  ds_setup_mode :: bool

record pair_attempt =
  pa_device_id :: string
  pa_host :: string
  pa_box_public_key :: string
  pa_setup_code :: string

definition deriveSetupCode :: "string \<Rightarrow> string" where
  "deriveSetupCode dev = (if length dev \<le> 4 \<or> take 4 dev \<noteq> ''SPK-'' then [] else ''SETUP-'' @ drop 4 dev)"

text \<open>The loop of \<open>sweepOnce\<close>. \<open>reg\<close> and \<open>attempt\<close> are the two functions the worker is given, over a state of the
  program; \<open>clk k\<close> is the k-th reading of the clock. The attempts made are recorded.\<close>

fun sweep_loop ::
  "('s \<Rightarrow> string \<Rightarrow> bool) \<Rightarrow> ('s \<Rightarrow> pair_attempt \<Rightarrow> 's \<times> bool) \<Rightarrow> provisioning_window \<Rightarrow> (nat \<Rightarrow> int) \<Rightarrow> nat \<Rightarrow> 's
    \<Rightarrow> discovered_speaker list \<Rightarrow> 's \<times> (int \<times> pair_attempt \<times> bool) list" where
  "sweep_loop reg attempt w clk k st [] = (st, [])"
| "sweep_loop reg attempt w clk k st (s # ss) =
     (let code = deriveSetupCode (ds_device_id s) in
      if \<not> ds_setup_mode s \<or> reg st (ds_device_id s) \<or> code = [] then sweep_loop reg attempt w clk k st ss
      else if \<not> isOpen w (clk k) then (st, [])
      else
        let a = \<lparr>pa_device_id = ds_device_id s, pa_host = ds_host s, pa_box_public_key = ds_box_public_key s, pa_setup_code = code\<rparr> in
        case attempt st a of (st1, ok) \<Rightarrow>
          case sweep_loop reg attempt w clk (Suc k) st1 ss of (st2, made) \<Rightarrow> (st2, (clk k, a, ok) # made))"

definition sweepOnce ::
  "('s \<Rightarrow> string \<Rightarrow> bool) \<Rightarrow> ('s \<Rightarrow> pair_attempt \<Rightarrow> 's \<times> bool) \<Rightarrow> provisioning_window \<Rightarrow> (nat \<Rightarrow> int)
    \<Rightarrow> discovered_speaker list result \<Rightarrow> 's \<Rightarrow> 's \<times> (int \<times> pair_attempt \<times> bool) list \<times> nat" where
  "sweepOnce reg attempt w clk browsed st =
     (if \<not> isOpen w (clk 0) then (st, [], 0)
      else case browsed of
        Inl _ \<Rightarrow> (st, [], 0)
      | Inr ss \<Rightarrow>
          (case sweep_loop reg attempt w clk 1 st ss of
             (st', made) \<Rightarrow> (st', made, length (filter (\<lambda>(_, _, ok). ok) made))))"

text \<open>The two functions of \<open>StreamerApp\<close>.\<close>

definition is_registered :: "streamer_app \<Rightarrow> string \<Rightarrow> bool" where
  "is_registered a dev \<longleftrightarrow> get_speaker (sa_registry a) dev \<noteq> None"

definition auto_params :: "pair_attempt \<Rightarrow> pairing_params" where
  "auto_params t = params_new\<lparr>pp_site_id := ''default'', pp_initial_speaker_name := pa_device_id t,
     pp_speaker_box_public_key := pa_box_public_key t, pp_setup_code := pa_setup_code t\<rparr>"

definition auto_pair ::
  "seal_lib \<Rightarrow> json_lib \<Rightarrow> cfg_env \<Rightarrow> streamer_identity \<Rightarrow> (string \<Rightarrow> string \<Rightarrow> string result) \<Rightarrow> streamer_app \<Rightarrow> pair_attempt
    \<Rightarrow> streamer_app \<times> bool" where
  "auto_pair L J env i net a t =
     (case pairAndRegister L J env i net a (pa_host t) (auto_params t) (pa_host t) (\<lambda>dev. dev) of
        (a', r) \<Rightarrow> (a', case r of Some (Inr reply) \<Rightarrow> pl_ok reply | _ \<Rightarrow> False))"

section \<open>The handshake\<close>

lemma request_json_roundtrip: "getters_exact J \<Longrightarrow> request_from_json J (request_to_json r) = Some r"
  by (cases r) (simp add: request_from_json_def request_to_json_def j_value_def)

text \<open>The speaker at the other end of the line, with the state before the message.\<close>

definition pairing_line :: "pairing_env \<Rightarrow> int \<Rightarrow> bool \<Rightarrow> string \<Rightarrow> pairing_service \<Rightarrow> string \<Rightarrow> string result" where
  "pairing_line x now uplink dev s line =
     (if is_pairing_request (pv_json x) line
      then case pairing_handler x now uplink dev s line of (_, _, j, _) \<Rightarrow> Inr (jl_dump (pv_json x) j)
      else Inl (mk_error Ec_IoError ''empty response''))"

lemma pairing_handshake:
  assumes ge: "getters_exact (pv_json x)"
    and built: "signed_request L (pv_json x) p = Inr r"
    and signs: "\<And>m sig. sl_sign L m (pp_streamer_secret_key p) = Inr sig \<Longrightarrow>
      cl_verifyEd25519 (pv_crypto x) (cl_toBase64 (pv_crypto x) m) sig (pp_streamer_public_key p)"
    and seals: "\<And>box m c. sl_fromBase64 L (pp_speaker_box_public_key p) = Inr box \<Longrightarrow> sl_sealTo L box m = Inr c \<Longrightarrow>
      pv_open x (sl_toBase64 L c) = Inr m \<and> sl_toBase64 L c \<noteq> []"
    and wire: "jl_parse (pv_json x) (jl_dump (pv_json x) (request_to_json r)) = Some (request_to_json r)"
      "jl_parse (pv_json x) (jl_dump (pv_json x) (wifi_json p)) = Some (wifi_json p)"
    and ready: "ps_setup_mode s" "pp_setup_code p \<noteq> []" "ps_setup_code s = pp_setup_code p" "now \<le> ps_code_expiry s"
    and ident: "isWellFormedStreamerId (pp_streamer_id p)" "pp_streamer_public_key p \<noteq> []"
    and saved: "persistPairing x s (result_of r \<lparr>wc_ssid = pp_wifi_ssid p, wc_psk = pp_wifi_psk p\<rparr>) = (s1, st, es)" "st_ok st"
  shows "\<exists>s' evs w. pairing_handler x now uplink dev s (jl_dump (pv_json x) (request_to_json r)) =
      (s', evs, JObj [(''type'', JStr ''pairing_result''), (''ok'', JBool True), (''device_id'', JStr dev)], w) \<and>
    isPaired s' \<and> \<not> inSetupMode s' \<and>
    streamer_id (pairing (get (ps_config s'))) = pp_streamer_id p \<and>
    streamer_public_key (pairing (get (ps_config s'))) = pp_streamer_public_key p \<and>
    stored (ps_secrets s') ''wifi_ssid'' = Some (pp_wifi_ssid p) \<and> stored (ps_secrets s') ''wifi_psk'' = Some (pp_wifi_psk p)"
proof -
  let ?w = "\<lparr>wc_ssid = pp_wifi_ssid p, wc_psk = pp_wifi_psk p\<rparr>"
  obtain box c sig where steps: "sl_fromBase64 L (pp_speaker_box_public_key p) = Inr box"
      "sl_sealTo L box (jl_dump (pv_json x) (wifi_json p)) = Inr c"
      "sl_sign L (request_canonicalString (request_of p (sl_toBase64 L c))) (pp_streamer_secret_key p) = Inr sig"
      "r = (request_of p (sl_toBase64 L c))\<lparr>rq_signature_b64 := sig\<rparr>"
    using built by (auto simp: signed_request_def Let_def split: sum.splits)
  have canon: "request_canonicalString r = request_canonicalString (request_of p (sl_toBase64 L c))"
    by (simp add: steps(4) request_canonicalString_def)
  have fields: "rq_streamer_id r = pp_streamer_id p" "rq_streamer_public_key r = pp_streamer_public_key p"
    "rq_setup_code r = pp_setup_code p" "rq_sealed_wifi_b64 r = sl_toBase64 L c" "rq_signature_b64 r = sig"
    by (simp_all add: steps(4) request_of_def)
  note o = seals [OF steps(1,2)]
  have "pp_streamer_id p \<noteq> []" using ident(1) by (auto simp: isWellFormedStreamerId_def)
  then have v: "st_ok (validate_request (pv_crypto x) r (ps_setup_code s) now (ps_code_expiry s))"
    using ready ident o signs [OF steps(3)] by (simp add: validate_request_ok_iff fields canon)
  have w: "parse_wifi (pv_json x) (jl_dump (pv_json x) (wifi_json p)) = Some ?w"
    using ge wire(2) by (simp add: parse_wifi_def wifi_json_def at_string_def)
  let ?s' = "s1\<lparr>ps_setup_mode := False, ps_setup_code := []\<rparr>"
  have pr: "\<exists>evs. processRequest x s r now = (?s', evs, Inr (result_of r ?w))"
    using ready(1) v o w saved by (simp add: processRequest_def Let_def fields)
  have "request_from_json (pv_json x) (request_to_json r) = Some r" by (rule request_json_roundtrip [OF ge])
  then have h: "\<exists>evs wf. pairing_handler x now uplink dev s (jl_dump (pv_json x) (request_to_json r)) =
      (?s', evs, JObj [(''type'', JStr ''pairing_result''), (''ok'', JBool True), (''device_id'', JStr dev)], wf)"
    using wire(1) pr by (auto simp: pairing_handler_def)
  note k = persistPairing_ok [OF saved]
  have "get (ps_config ?s') = paired_config (result_of r ?w) (get (ps_config s))" using k(3) by (simp add: get_def)
  then have "isPaired ?s' \<and> \<not> inSetupMode ?s' \<and> streamer_id (pairing (get (ps_config ?s'))) = pp_streamer_id p \<and>
      streamer_public_key (pairing (get (ps_config ?s'))) = pp_streamer_public_key p \<and>
      stored (ps_secrets ?s') ''wifi_ssid'' = Some (pp_wifi_ssid p) \<and> stored (ps_secrets ?s') ''wifi_psk'' = Some (pp_wifi_psk p)"
    using k(1,2) by (simp add: isPaired_def inSetupMode_def paired_config_def result_of_def fields)
  with h show ?thesis by blast
qed

abbreviation paired_answer :: "string \<Rightarrow> json" where
  "paired_answer dev \<equiv> JObj [(''type'', JStr ''pairing_result''), (''ok'', JBool True), (''device_id'', JStr dev)]"

text \<open>A request the speaker accepts is reported to the caller of \<open>pair\<close>.\<close>

lemma pair_answered:
  assumes "getters_exact (pv_json x)" "signed_request L (pv_json x) p = Inr r"
    and "jl_parse (pv_json x) (jl_dump (pv_json x) (request_to_json r)) = Some (request_to_json r)"
    and "pairing_handler x now uplink dev s (jl_dump (pv_json x) (request_to_json r)) = (s', evs, paired_answer dev, w)"
    and "jl_parse (pv_json x) (jl_dump (pv_json x) (paired_answer dev)) = Some (paired_answer dev)"
  shows "pair L (pv_json x) (pairing_line x now uplink dev s) p = Some (Inr \<lparr>pl_ok = True, pl_message = [], pl_device_id = dev\<rparr>)"
proof -
  have "is_pairing_request (pv_json x) (jl_dump (pv_json x) (request_to_json r))"
    using assms(1,3) by (simp add: is_pairing_request_def j_value_def) (simp add: request_to_json_def)
  then have "pairing_line x now uplink dev s (jl_dump (pv_json x) (request_to_json r)) = Inr (jl_dump (pv_json x) (paired_answer dev))"
    using assms(4) by (simp add: pairing_line_def)
  then show ?thesis using assms(1,2,5) by (simp add: pair_def pairing_reply_of_json_def j_value_def)
qed

text \<open>The two ends of pairing fit together: let the Streamer's signatures verify under its public key, let the
  speaker open what is sealed to its box key, and let the user have entered the active setup code. Then
  the request that \<open>PairingClient::pair\<close> sends is accepted, the client reports success with the speaker's
  identifier, and afterwards the speaker trusts exactly this Streamer, holds exactly the Wi-Fi
  credentials that were sent, and has left setup mode.\<close>

theorem pairing_end_to_end:
  assumes "getters_exact (pv_json x)"
    and "signed_request L (pv_json x) p = Inr r"
    and "\<And>m sig. sl_sign L m (pp_streamer_secret_key p) = Inr sig \<Longrightarrow>
      cl_verifyEd25519 (pv_crypto x) (cl_toBase64 (pv_crypto x) m) sig (pp_streamer_public_key p)"
    and "\<And>box m c. sl_fromBase64 L (pp_speaker_box_public_key p) = Inr box \<Longrightarrow> sl_sealTo L box m = Inr c \<Longrightarrow>
      pv_open x (sl_toBase64 L c) = Inr m \<and> sl_toBase64 L c \<noteq> []"
    and "jl_parse (pv_json x) (jl_dump (pv_json x) (request_to_json r)) = Some (request_to_json r)"
      "jl_parse (pv_json x) (jl_dump (pv_json x) (wifi_json p)) = Some (wifi_json p)"
    and "ps_setup_mode s" "pp_setup_code p \<noteq> []" "ps_setup_code s = pp_setup_code p" "now \<le> ps_code_expiry s"
    and "isWellFormedStreamerId (pp_streamer_id p)" "pp_streamer_public_key p \<noteq> []"
    and "persistPairing x s (result_of r \<lparr>wc_ssid = pp_wifi_ssid p, wc_psk = pp_wifi_psk p\<rparr>) = (s1, st, es)" "st_ok st"
    and answer: "\<And>j. j = JObj [(''type'', JStr ''pairing_result''), (''ok'', JBool True), (''device_id'', JStr dev)] \<Longrightarrow>
      jl_parse (pv_json x) (jl_dump (pv_json x) j) = Some j"
  shows "pair L (pv_json x) (pairing_line x now uplink dev s) p =
      Some (Inr \<lparr>pl_ok = True, pl_message = [], pl_device_id = dev\<rparr>) \<and>
    (\<exists>s' evs j w. pairing_handler x now uplink dev s (jl_dump (pv_json x) (request_to_json r)) = (s', evs, j, w) \<and>
      isPaired s' \<and> \<not> inSetupMode s' \<and>
      streamer_id (pairing (get (ps_config s'))) = pp_streamer_id p \<and>
      streamer_public_key (pairing (get (ps_config s'))) = pp_streamer_public_key p \<and>
      stored (ps_secrets s') ''wifi_ssid'' = Some (pp_wifi_ssid p) \<and> stored (ps_secrets s') ''wifi_psk'' = Some (pp_wifi_psk p))"
proof -
  let ?ans = "JObj [(''type'', JStr ''pairing_result''), (''ok'', JBool True), (''device_id'', JStr dev)]"
  have "\<exists>s' evs w. pairing_handler x now uplink dev s (jl_dump (pv_json x) (request_to_json r)) = (s', evs, ?ans, w) \<and>
      isPaired s' \<and> \<not> inSetupMode s' \<and>
      streamer_id (pairing (get (ps_config s'))) = pp_streamer_id p \<and>
      streamer_public_key (pairing (get (ps_config s'))) = pp_streamer_public_key p \<and>
      stored (ps_secrets s') ''wifi_ssid'' = Some (pp_wifi_ssid p) \<and> stored (ps_secrets s') ''wifi_psk'' = Some (pp_wifi_psk p)"
    by (rule pairing_handshake; fact)
  then obtain s' evs w where h: "pairing_handler x now uplink dev s (jl_dump (pv_json x) (request_to_json r)) = (s', evs, ?ans, w)"
    and eff: "isPaired s' \<and> \<not> inSetupMode s' \<and>
      streamer_id (pairing (get (ps_config s'))) = pp_streamer_id p \<and>
      streamer_public_key (pairing (get (ps_config s'))) = pp_streamer_public_key p \<and>
      stored (ps_secrets s') ''wifi_ssid'' = Some (pp_wifi_ssid p) \<and> stored (ps_secrets s') ''wifi_psk'' = Some (pp_wifi_psk p)"
    by blast
  have "pair L (pv_json x) (pairing_line x now uplink dev s) p = Some (Inr \<lparr>pl_ok = True, pl_message = [], pl_device_id = dev\<rparr>)"
    by (rule pair_answered [OF assms(1,2,5) h answer [OF refl]])
  with h eff show ?thesis by blast
qed

definition demo_params :: pairing_params where
  "demo_params = \<lparr>pp_streamer_id = ''STR-0a1b2c3d'', pp_streamer_public_key = ''key'', pp_streamer_secret_key = ''sk'',
     pp_site_id = [], pp_initial_speaker_name = ''Kitchen'', pp_setup_code = ''C'', pp_wifi_ssid = ''home'',
     pp_wifi_psk = ''secret'', pp_speaker_box_public_key = ''bk''\<rparr>"

definition demo_seal :: seal_lib where
  "demo_seal = \<lparr>sl_fromBase64 = (\<lambda>s. Inr s), sl_toBase64 = (\<lambda>s. s), sl_sealTo = (\<lambda>k m. if m = ''w'' then Inr ''box'' else Inl success),
     sl_sign = (\<lambda>m k. Inr ''sig'')\<rparr>"

definition demo_docs :: "(string \<times> json) list" where
  "demo_docs = [(''w'', wifi_json demo_params), (''q'', request_to_json demo_request),
     (''a'', JObj [(''type'', JStr ''pairing_result''), (''ok'', JBool True), (''device_id'', JStr ''SPK-1'')])]"

definition demo_pair_lib :: json_lib where
  "demo_pair_lib = (demo_lib [] JNull)\<lparr>jl_parse := map_of demo_docs,
     jl_dump := (\<lambda>j. case find (\<lambda>d. snd d = j) demo_docs of Some d \<Rightarrow> fst d | None \<Rightarrow> [])\<rparr>"

lemma demo_pair_lib_docs:
  "jl_dump demo_pair_lib (wifi_json demo_params) = ''w''" "jl_parse demo_pair_lib ''w'' = Some (wifi_json demo_params)"
  "jl_dump demo_pair_lib (request_to_json demo_request) = ''q''"
  "jl_parse demo_pair_lib ''q'' = Some (request_to_json demo_request)"
  "jl_parse demo_pair_lib (jl_dump demo_pair_lib (JObj [(''type'', JStr ''pairing_result''), (''ok'', JBool True), (''device_id'', JStr ''SPK-1'')]))
     = Some (JObj [(''type'', JStr ''pairing_result''), (''ok'', JBool True), (''device_id'', JStr ''SPK-1'')])"
  by (simp_all add: demo_pair_lib_def demo_docs_def wifi_json_def request_to_json_def)

lemma demo_pair_lib_exact: "getters_exact demo_pair_lib"
  using demo_lib_getters_exact [of "[]" JNull] unfolding getters_exact_def by (simp add: demo_pair_lib_def)

theorem pairing_end_to_end_witness:
  "pair demo_seal demo_pair_lib (pairing_line (demo_pair_env\<lparr>pv_json := demo_pair_lib\<rparr>) 50 False ''SPK-1'' demo_pair_service) demo_params =
     Some (Inr \<lparr>pl_ok = True, pl_message = [], pl_device_id = ''SPK-1''\<rparr>)"
proof -
  let ?x = "demo_pair_env\<lparr>pv_json := demo_pair_lib\<rparr>"
  have J: "pv_json ?x = demo_pair_lib" by simp
  have r: "signed_request demo_seal (pv_json ?x) demo_params = Inr demo_request"
    unfolding J signed_request_def demo_pair_lib_docs(1)
    by (simp add: demo_seal_def Let_def demo_params_def request_of_def demo_request_def)
  obtain s1 st es where sv: "persistPairing ?x demo_pair_service (result_of demo_request demo_wifi) = (s1, st, es)" by (rule prod_cases3)
  have ok: "st_ok st" by (rule demo_persist_any [OF sv])
  have w: "\<lparr>wc_ssid = pp_wifi_ssid demo_params, wc_psk = pp_wifi_psk demo_params\<rparr> = demo_wifi" by (simp add: demo_params_def)
  have "pair demo_seal (pv_json ?x) (pairing_line ?x 50 False ''SPK-1'' demo_pair_service) demo_params =
     Some (Inr \<lparr>pl_ok = True, pl_message = [], pl_device_id = ''SPK-1''\<rparr>)"
    by (rule pairing_end_to_end [OF _ r _ _ _ _ _ _ _ _ _ _ sv [folded w] ok, THEN conjunct1])
      (auto simp: demo_pair_lib_docs demo_pair_lib_docs [unfolded demo_params_def] demo_pair_lib_exact demo_seal_def demo_pair_env_def demo_pair_service_def demo_params_def
        isWellFormedStreamerId_def Pairing.hex_digit_def split: if_splits)
  then show ?thesis unfolding J .
qed

text \<open>The sweep sends no Wi-Fi credentials; a speaker that accepts it stores empty ones over those it had.\<close>

lemma sweep_erases_wifi:
  assumes "persistPairing x s (result_of r \<lparr>wc_ssid = pp_wifi_ssid (auto_params t), wc_psk = pp_wifi_psk (auto_params t)\<rparr>) = (s', st, es)" "st_ok st"
  shows "stored (ps_secrets s') ''wifi_ssid'' = Some [] \<and> stored (ps_secrets s') ''wifi_psk'' = Some []"
  using persistPairing_ok(1,2) [OF assms] by (simp add: auto_params_def params_new_def result_of_def)

section \<open>The unattended sweep\<close>

text \<open>Whatever is asked for, the window closes by itself within half an hour.\<close>

lemma window_bounded: "isOpen (window_open w now ttl) t \<Longrightarrow> t < now + 1800"
  by (auto simp: isOpen_def window_open_def kMaxTtlSeconds_def Let_def split: if_splits)

lemma secondsRemaining_iff: "0 < secondsRemaining w t \<longleftrightarrow> isOpen w t"
  by (auto simp: secondsRemaining_def isOpen_def)

text \<open>The code the Streamer derives is the one the speaker shows (\<open>Application.cpp\<close>: \<open>"SETUP-" + deviceId.substr(4)\<close>).\<close>

lemma deriveSetupCode_matches: "tail \<noteq> [] \<Longrightarrow> deriveSetupCode (''SPK-'' @ tail) = ''SETUP-'' @ drop 4 (''SPK-'' @ tail)"
  by (cases tail) (simp_all add: deriveSetupCode_def)

locale pairing_backend =
  fixes reg :: "'s \<Rightarrow> string \<Rightarrow> bool"
    and attempt :: "'s \<Rightarrow> pair_attempt \<Rightarrow> 's \<times> bool"
  assumes reg_mono: "reg st d \<Longrightarrow> attempt st a = (st', ok) \<Longrightarrow> reg st' d"
begin

text \<open>Every attempt is made while the window is open, on a speaker of the list that is in setup mode, with the
  code derived from its identifier, and never on a speaker that was registered before.\<close>

lemma sweep_loop_attempts:
  "sweep_loop reg attempt w clk k st ss = (st', made) \<Longrightarrow> (t, a, ok) \<in> set made \<Longrightarrow>
     isOpen w t \<and> pa_setup_code a = deriveSetupCode (pa_device_id a) \<and> pa_setup_code a \<noteq> [] \<and>
     (\<exists>s \<in> set ss. ds_setup_mode s \<and> ds_device_id s = pa_device_id a \<and> ds_host s = pa_host a) \<and> \<not> reg st (pa_device_id a)"
proof (induction ss arbitrary: k st st' made)
  case (Cons s ss)
  let ?skip = "\<not> ds_setup_mode s \<or> reg st (ds_device_id s) \<or> deriveSetupCode (ds_device_id s) = []"
  show ?case
  proof (cases ?skip)
    case True
    then have "sweep_loop reg attempt w clk k st ss = (st', made)" using Cons.prems(1) by (simp add: Let_def)
    from Cons.IH [OF this Cons.prems(2)] show ?thesis by auto
  next
    case False
    show ?thesis
    proof (cases "isOpen w (clk k)")
      case opened: True
      let ?a = "\<lparr>pa_device_id = ds_device_id s, pa_host = ds_host s, pa_box_public_key = ds_box_public_key s,
          pa_setup_code = deriveSetupCode (ds_device_id s)\<rparr>"
      obtain st1 okk where t: "attempt st ?a = (st1, okk)" by (rule prod.exhaust)
      obtain st2 made2 where r: "sweep_loop reg attempt w clk (Suc k) st1 ss = (st2, made2)" by (rule prod.exhaust)
      have m: "made = (clk k, ?a, okk) # made2" using Cons.prems(1) False opened t r by (simp add: Let_def)
      show ?thesis
      proof (cases "(t, a, ok) = (clk k, ?a, okk)")
        case True
        then show ?thesis using False opened by auto
      next
        case other: False
        then have "(t, a, ok) \<in> set made2" using Cons.prems(2) m by auto
        from Cons.IH [OF r this] show ?thesis using reg_mono [OF _ t] by auto
      qed
    next
      case False
      then show ?thesis using Cons.prems \<open>\<not> ?skip\<close> by (simp add: Let_def)
    qed
  qed
qed simp

end

lemma get_speaker_upsert_mono: "\<exists>y. get_speaker r d = Some y \<Longrightarrow> \<exists>y. get_speaker (fst (upsert r s)) d = Some y"
  by (simp add: upsert_get)

lemma persist_all_registry [simp]: "sa_registry (persist_all J env a) = sa_registry a"
  by (simp add: persist_all_def split: option.split)

lemma pairAndRegister_registry:
  "is_registered a d \<Longrightarrow> is_registered (fst (pairAndRegister L J env i net a h p sh nf)) d"
  by (simp add: pairAndRegister_def is_registered_def Let_def get_speaker_upsert_mono split: option.split sum.split)

interpretation auto: pairing_backend is_registered "auto_pair L J env i net" for L J env i net
proof
  fix a d t a' ok
  assume "is_registered a d" "auto_pair L J env i net a t = (a', ok)"
  then show "is_registered a' d"
    using pairAndRegister_registry [of a d L J env i net "pa_host t" "auto_params t" "pa_host t" "\<lambda>d. d"]
    by (auto simp: auto_pair_def split: prod.splits)
qed

text \<open>Zero-touch provisioning stays inside its window: every pairing attempt of a sweep happens at a moment
  when the window is open (less than 1800 seconds after it was opened), at a speaker that discovery
  reported in setup mode, with the setup code derived from its identifier, and never at a speaker that
  is already registered.\<close>

theorem sweep_stays_in_window:
  assumes "sweepOnce is_registered (auto_pair L J env i net) (window_open w now ttl) clk (Inr ss) app = (app', made, n)"
    and "(t, a, ok) \<in> set made"
  shows "t < now + 1800 \<and> pa_setup_code a = deriveSetupCode (pa_device_id a) \<and> pa_setup_code a \<noteq> [] \<and>
    (\<exists>s \<in> set ss. ds_setup_mode s \<and> ds_device_id s = pa_device_id a \<and> ds_host s = pa_host a) \<and>
    \<not> is_registered app (pa_device_id a)"
proof -
  have "isOpen (window_open w now ttl) (clk 0)" using assms by (auto simp: sweepOnce_def split: if_splits)
  then obtain st' where "sweep_loop is_registered (auto_pair L J env i net) (window_open w now ttl) clk 1 app ss = (st', made)"
    using assms(1) by (auto simp: sweepOnce_def split: prod.splits)
  from auto.sweep_loop_attempts [OF this assms(2)] window_bounded show ?thesis by blast
qed

definition demo_beacon :: discovered_speaker where
  "demo_beacon = \<lparr>ds_device_id = ''SPK-7'', ds_host = ''10.0.0.9'', ds_box_public_key = ''bk'', ds_control_port = 45455, ds_setup_mode = True\<rparr>"

definition demo_app :: streamer_app where
  "demo_app = \<lparr>sa_registry = [], sa_zoneman = zoneman_new, sa_cfg = None, sa_dsp = JObj []\<rparr>"

definition demo_me :: streamer_identity where
  "demo_me = \<lparr>si_streamer_id = ''STR-0a1b2c3d'', si_public_key = ''key'', si_secret_key = ''sk''\<rparr>"

theorem sweep_stays_in_window_witness:
  "\<exists>app' a ok. sweepOnce is_registered (auto_pair demo_seal demo_pair_lib cfg_env_fine demo_me (\<lambda>h l. Inl success))
      (window_open window_new 100 60) (\<lambda>k. 110) (Inr [demo_beacon]) demo_app = (app', [(110, a, ok)], if ok then 1 else 0) \<and>
     pa_setup_code a = ''SETUP-7'' \<and> (110 :: int) < 100 + 1800"
proof -
  let ?f = "auto_pair demo_seal demo_pair_lib cfg_env_fine demo_me (\<lambda>h l. Inl success)"
  let ?a = "\<lparr>pa_device_id = ''SPK-7'', pa_host = ''10.0.0.9'', pa_box_public_key = ''bk'', pa_setup_code = ''SETUP-7''\<rparr>"
  obtain app' ok where t: "?f demo_app ?a = (app', ok)" by (rule prod.exhaust)
  have s: "sweepOnce is_registered ?f (window_open window_new 100 60) (\<lambda>k. 110) (Inr [demo_beacon]) demo_app =
      (app', [(110, ?a, ok)], if ok then 1 else 0)"
    using t by (simp add: sweepOnce_def demo_beacon_def deriveSetupCode_def isOpen_def window_open_def window_new_def kMaxTtlSeconds_def
        is_registered_def demo_app_def Let_def)
  from sweep_stays_in_window [OF s, of 110 ?a ok] s show ?thesis by auto
qed

end
