(* ===== verification/Lifecycle.thy ===== *)
theory Lifecycle
  imports System_Manager Config_Manager
begin

text \<open>
  The life of the two processes. \<open>Application\<close> (\<open>main/Application.cpp\<close>, \<open>main/main.cpp\<close>) starts its
  services in a fixed order, waits for a signal and stops them in reverse; \<open>StreamerApp\<close>
  (\<open>streamer/src/app/StreamerApp.cpp\<close>) does the same with its own services, a sweep thread and the web
  server. The calls the processes make are recorded as a trace. What the two have in common is the locale
  \<open>service_host\<close>, interpreted on both. The process of the speaker is a step relation in which signals,
  reboot requests and the delivery of events interleave.
\<close>

section \<open>The services of the speaker\<close>

datatype service =
    Svc_Config | Svc_Identity | Svc_System | Svc_Storage | Svc_Amplifier | Svc_Microphone | Svc_Network
  | Svc_Discovery | Svc_Pairing | Svc_Provisioning | Svc_Control | Svc_Dsp | Svc_Audio | Svc_Playback
  | Svc_Calibration | Svc_Status | Svc_Diagnostics | Svc_Updater | Svc_Web | Svc_Watchdog

fun svc_name :: "service \<Rightarrow> string" where
  "svc_name Svc_Config = ''config''"
| "svc_name Svc_Identity = ''identity''"
| "svc_name Svc_System = ''system''"
| "svc_name Svc_Storage = ''storage''"
| "svc_name Svc_Amplifier = ''amplifier''"
| "svc_name Svc_Microphone = ''microphone''"
| "svc_name Svc_Network = ''network''"
| "svc_name Svc_Discovery = ''discovery''"
| "svc_name Svc_Pairing = ''pairing''"
| "svc_name Svc_Provisioning = ''provisioning''"
| "svc_name Svc_Control = ''control''"
| "svc_name Svc_Dsp = ''dsp''"
| "svc_name Svc_Audio = ''audio''"
| "svc_name Svc_Playback = ''playback''"
| "svc_name Svc_Calibration = ''calibration''"
| "svc_name Svc_Status = ''status''"
| "svc_name Svc_Diagnostics = ''diagnostics''"
| "svc_name Svc_Updater = ''updater''"
| "svc_name Svc_Web = ''web''"
| "svc_name Svc_Watchdog = ''watchdog''"

definition startup_order :: "service list" where
  "startup_order = [Svc_Config, Svc_Identity, Svc_System, Svc_Storage, Svc_Amplifier, Svc_Microphone, Svc_Network,
     Svc_Discovery, Svc_Pairing, Svc_Provisioning, Svc_Control, Svc_Dsp, Svc_Audio, Svc_Playback, Svc_Calibration,
     Svc_Status, Svc_Diagnostics, Svc_Updater, Svc_Web, Svc_Watchdog]"

definition critical :: "service \<Rightarrow> bool" where
  "critical svc \<longleftrightarrow> svc = Svc_Config \<or> svc = Svc_Identity"

section \<open>Starting and stopping\<close>

datatype 'a life_call = Start_Call 'a | Stop_Call 'a | Bus_Stop | Log_Flush | Log_Shutdown | Web_Start | Web_Stop | Sweep_Start | Sweep_Join

record 'a host =
  ho_started :: "'a list"
  ho_stopped :: bool
  ho_calls :: "'a life_call list"

definition host_new :: "'a host" where
  "host_new = \<lparr>ho_started = [], ho_stopped = False, ho_calls = []\<rparr>"

definition call :: "'a life_call \<Rightarrow> 'a host \<Rightarrow> 'a host" where
  "call c h = h\<lparr>ho_calls := ho_calls h @ [c]\<rparr>"

definition shutdown :: "service host \<Rightarrow> service host" where
  "shutdown h =
     (if ho_stopped h then h
      else h\<lparr>ho_stopped := True, ho_started := [],
        ho_calls := ho_calls h @ map Stop_Call (rev (ho_started h)) @ [Bus_Stop, Log_Flush, Log_Shutdown]\<rparr>)"

definition track :: "'a \<Rightarrow> 'a host \<Rightarrow> 'a host" where
  "track svc h = h\<lparr>ho_started := ho_started h @ [svc]\<rparr>"

fun startInOrder :: "(service \<Rightarrow> status) \<Rightarrow> service list \<Rightarrow> service host \<Rightarrow> service host \<times> status" where
  "startInOrder res [] h = (h, success)"
| "startInOrder res (svc # svcs) h =
     (let h' = call (Start_Call svc) h in
      if st_ok (res svc) then startInOrder res svcs (track svc h')
      else if critical svc then (shutdown h', mk_error Ec_ServiceStartFailed (svc_name svc))
      else startInOrder res svcs (track svc h'))"

section \<open>The streamer\<close>

record 'a streamer_host =
  sh_host :: "'a host"
  sh_ordered :: "'a list"
  sh_web_started :: bool
  sh_sweeping :: bool

definition streamer_new :: "'a list \<Rightarrow> 'a streamer_host" where
  "streamer_new svcs = \<lparr>sh_host = host_new, sh_ordered = svcs, sh_web_started = False, sh_sweeping = False\<rparr>"

definition on_host :: "('a host \<Rightarrow> 'a host) \<Rightarrow> 'a streamer_host \<Rightarrow> 'a streamer_host" where
  "on_host f h = h\<lparr>sh_host := f (sh_host h)\<rparr>"

definition stop_web :: "'a streamer_host \<Rightarrow> 'a streamer_host" where
  "stop_web h = (if sh_web_started h then (on_host (call Web_Stop) h)\<lparr>sh_web_started := False\<rparr> else h)"

definition join_sweep :: "'a streamer_host \<Rightarrow> 'a streamer_host" where
  "join_sweep h = (if sh_sweeping h then (on_host (call Sweep_Join) h)\<lparr>sh_sweeping := False\<rparr> else h)"

definition streamer_shutdown :: "'a streamer_host \<Rightarrow> 'a streamer_host" where
  "streamer_shutdown h =
     (on_host (\<lambda>x. x\<lparr>ho_started := [], ho_calls := ho_calls x @ map Stop_Call (rev (ho_started x))\<rparr>)
        (join_sweep (stop_web h)))\<lparr>sh_ordered := []\<rparr>"

fun start_services :: "('a \<Rightarrow> status) \<Rightarrow> ('a \<Rightarrow> string) \<Rightarrow> 'a list \<Rightarrow> 'a streamer_host \<Rightarrow> 'a streamer_host \<times> status" where
  "start_services res name [] h = (h, success)"
| "start_services res name (svc # svcs) h =
     (let h' = on_host (call (Start_Call svc)) h in
      if st_ok (res svc) then start_services res name svcs (on_host (track svc) h')
      else (streamer_shutdown h', mk_error (st_code (res svc)) (name svc @ '': '' @ st_message (res svc))))"

definition streamer_startup :: "('a \<Rightarrow> status) \<Rightarrow> ('a \<Rightarrow> string) \<Rightarrow> status \<Rightarrow> 'a streamer_host \<Rightarrow> 'a streamer_host \<times> status" where
  "streamer_startup res name web h =
     (case start_services res name (sh_ordered h) ((on_host (call Sweep_Start) h)\<lparr>sh_sweeping := True\<rparr>) of
        (h', st) \<Rightarrow>
          if \<not> st_ok st then (h', st)
          else (let h'' = on_host (call Web_Start) h' in
                if st_ok web then (h''\<lparr>sh_web_started := True\<rparr>, success)
                else (streamer_shutdown h'', mk_error (st_code web) (''web: '' @ st_message web))))"

section \<open>What the two have in common\<close>

fun starts :: "'a life_call list \<Rightarrow> 'a list" where
  "starts [] = []"
| "starts (Start_Call x # cs) = x # starts cs"
| "starts (_ # cs) = starts cs"

fun stops :: "'a life_call list \<Rightarrow> 'a list" where
  "stops [] = []"
| "stops (Stop_Call x # cs) = x # stops cs"
| "stops (_ # cs) = stops cs"

lemma starts_append [simp]: "starts (a @ b) = starts a @ starts b"
  by (induction a rule: starts.induct) simp_all

lemma stops_append [simp]: "stops (a @ b) = stops a @ stops b"
  by (induction a rule: stops.induct) simp_all

lemma starts_map_stop [simp]: "starts (map Stop_Call xs) = []"
  by (induction xs) simp_all

lemma stops_map_stop [simp]: "stops (map Stop_Call xs) = xs"
  by (induction xs) simp_all

definition running :: "'a life_call list \<Rightarrow> 'a list \<Rightarrow> bool" where
  "running cs xs \<longleftrightarrow> starts cs = xs \<and> stops cs = []"

text \<open>Stopped in the reverse order of starting; the last service started may be the one that failed.\<close>

definition wound_down :: "'a life_call list \<Rightarrow> bool" where
  "wound_down cs \<longleftrightarrow> (\<exists>xs. stops cs = rev xs \<and> (starts cs = xs \<or> (\<exists>x. starts cs = xs @ [x])))"

locale service_host =
  fixes boot :: "'s \<Rightarrow> 's \<times> status" and down :: "'s \<Rightarrow> 's"
    and calls :: "'s \<Rightarrow> 'a life_call list" and started :: "'s \<Rightarrow> 'a list" and fresh :: "'s \<Rightarrow> bool" and over :: "'s \<Rightarrow> bool"
  assumes boot_runs: "fresh s \<Longrightarrow> st_ok (snd (boot s)) \<Longrightarrow> running (calls (fst (boot s))) (started (fst (boot s))) \<and> \<not> over (fst (boot s))"
    and boot_fails: "fresh s \<Longrightarrow> \<not> st_ok (snd (boot s)) \<Longrightarrow> wound_down (calls (fst (boot s))) \<and> over (fst (boot s))"
    and down_running: "running (calls s) (started s) \<Longrightarrow> \<not> over s \<Longrightarrow> over (down s) \<and> starts (calls (down s)) = starts (calls s) \<and> stops (calls (down s)) = rev (started s)"
    and down_over: "over s \<Longrightarrow> over (down s) \<and> starts (calls (down s)) = starts (calls s) \<and> stops (calls (down s)) = stops (calls s)"
begin

lemma wound_down_again: "over s \<Longrightarrow> wound_down (calls s) \<Longrightarrow> over ((down ^^ n) s) \<and> wound_down (calls ((down ^^ n) s))"
  using down_over by (induction n) (auto simp: wound_down_def)

lemma boot_then_down:
  assumes "fresh s"
  shows "wound_down (calls ((down ^^ Suc n) (fst (boot s))))"
proof -
  let ?h = "fst (boot s)"
  have "wound_down (calls (down ?h)) \<and> over (down ?h)"
    using boot_runs [OF assms] boot_fails [OF assms] down_running [of ?h] down_over [of ?h]
    by (cases "st_ok (snd (boot s))") (auto simp: wound_down_def running_def)
  then show ?thesis using wound_down_again [of "down ?h" n] by (simp add: funpow_swap1)
qed

end

lemma host_new_fields [simp]: "ho_started host_new = []" "ho_stopped host_new = False" "ho_calls host_new = []"
  by (simp_all add: host_new_def)

lemma call_fields [simp]: "ho_started (call c h) = ho_started h" "ho_stopped (call c h) = ho_stopped h"
  "ho_calls (call c h) = ho_calls h @ [c]"
  by (simp_all add: call_def)

lemma track_fields [simp]: "ho_started (track x h) = ho_started h @ [x]" "ho_stopped (track x h) = ho_stopped h"
  "ho_calls (track x h) = ho_calls h"
  by (simp_all add: track_def)

lemma startInOrder_outcome:
  "\<not> ho_stopped h \<Longrightarrow> running (ho_calls h) (ho_started h) \<Longrightarrow>
     (case startInOrder res svcs h of (h', st) \<Rightarrow>
        if st_ok st then \<not> ho_stopped h' \<and> ho_started h' = ho_started h @ svcs \<and> running (ho_calls h') (ho_started h')
        else ho_stopped h' \<and> (\<exists>pre svc post. svcs = pre @ svc # post \<and> critical svc \<and> \<not> st_ok (res svc)
               \<and> st = mk_error Ec_ServiceStartFailed (svc_name svc)
               \<and> starts (ho_calls h') = ho_started h @ pre @ [svc] \<and> stops (ho_calls h') = rev (ho_started h @ pre)))"
proof (induction svcs arbitrary: h)
  case (Cons svc svcs)
  let ?h = "track svc (call (Start_Call svc) h)"
  have h: "\<not> ho_stopped ?h" "running (ho_calls ?h) (ho_started ?h)" using Cons.prems by (simp_all add: running_def)
  show ?case
  proof (cases "\<not> st_ok (res svc) \<and> critical svc")
    case True
    then show ?thesis using Cons.prems by (auto simp: Let_def shutdown_def running_def intro!: exI [of _ "[]"])
  next
    case False
    have e: "startInOrder res (svc # svcs) h = startInOrder res svcs ?h" using False by (auto simp: Let_def)
    obtain h' st where r: "startInOrder res svcs ?h = (h', st)" by (cases "startInOrder res svcs ?h")
    show ?thesis
    proof (cases "st_ok st")
      case True
      then show ?thesis using Cons.IH [OF h] unfolding e r by auto
    next
      case False
      then obtain pre svc' post where "svcs = pre @ svc' # post" "critical svc'" "\<not> st_ok (res svc')"
        "st = mk_error Ec_ServiceStartFailed (svc_name svc')" "starts (ho_calls h') = ho_started h @ (svc # pre) @ [svc']"
        "stops (ho_calls h') = rev (ho_started h @ svc # pre)" "ho_stopped h'"
        using Cons.IH [OF h] unfolding r by auto
      then show ?thesis unfolding e r using False by (auto intro!: exI [of _ "svc # pre"] simp del: startInOrder.simps)
    qed
  qed
qed (simp add: running_def)

definition fresh_host :: "'a host \<Rightarrow> bool" where
  "fresh_host h \<longleftrightarrow> h = host_new"

interpretation speaker: service_host "startInOrder res startup_order" shutdown ho_calls ho_started fresh_host ho_stopped
proof
  fix s :: "service host"
  let ?b = "startInOrder res startup_order s"
  show "st_ok (snd ?b) \<Longrightarrow> running (ho_calls (fst ?b)) (ho_started (fst ?b)) \<and> \<not> ho_stopped (fst ?b)" if "fresh_host s"
    using startInOrder_outcome [where h = s and res = res and svcs = startup_order] that by (auto simp: fresh_host_def host_new_def running_def split: prod.splits)
  show "\<not> st_ok (snd ?b) \<Longrightarrow> wound_down (ho_calls (fst ?b)) \<and> ho_stopped (fst ?b)" if "fresh_host s"
    using startInOrder_outcome [where h = s and res = res and svcs = startup_order] that by (auto simp: fresh_host_def host_new_def running_def wound_down_def split: prod.splits)
  show "ho_stopped (shutdown s) \<and> starts (ho_calls (shutdown s)) = starts (ho_calls s) \<and> stops (ho_calls (shutdown s)) = rev (ho_started s)"
    if "running (ho_calls s) (ho_started s)" "\<not> ho_stopped s"
    using that by (simp add: shutdown_def running_def)
  show "ho_stopped s \<Longrightarrow> ho_stopped (shutdown s) \<and> starts (ho_calls (shutdown s)) = starts (ho_calls s) \<and> stops (ho_calls (shutdown s)) = stops (ho_calls s)"
    by (simp add: shutdown_def)
qed

section \<open>The streamer's host\<close>

definition sh_calls :: "'a streamer_host \<Rightarrow> 'a life_call list" where
  "sh_calls h = ho_calls (sh_host h)"

definition sh_started :: "'a streamer_host \<Rightarrow> 'a list" where
  "sh_started h = ho_started (sh_host h)"

definition sh_fresh :: "'a streamer_host \<Rightarrow> bool" where
  "sh_fresh h \<longleftrightarrow> h = streamer_new (sh_ordered h)"

text \<open>Nothing is left to stop: the services list is empty, the server is down and the sweep thread is joined.\<close>

definition sh_over :: "'a streamer_host \<Rightarrow> bool" where
  "sh_over h \<longleftrightarrow> sh_started h = [] \<and> sh_ordered h = [] \<and> \<not> sh_web_started h \<and> \<not> sh_sweeping h"

lemma on_host_fields [simp]: "sh_host (on_host f h) = f (sh_host h)" "sh_ordered (on_host f h) = sh_ordered h"
  "sh_web_started (on_host f h) = sh_web_started h" "sh_sweeping (on_host f h) = sh_sweeping h"
  by (simp_all add: on_host_def)

lemma streamer_shutdown_effect:
  "sh_over (streamer_shutdown h) \<and> starts (sh_calls (streamer_shutdown h)) = starts (sh_calls h)
   \<and> stops (sh_calls (streamer_shutdown h)) = stops (sh_calls h) @ rev (sh_started h)"
  by (simp add: streamer_shutdown_def stop_web_def join_sweep_def sh_over_def sh_calls_def sh_started_def)

lemma start_services_outcome:
  "running (sh_calls h) (sh_started h) \<Longrightarrow> sh_sweeping h \<Longrightarrow>
     (case start_services res name svcs h of (h', st) \<Rightarrow>
        if st_ok st then running (sh_calls h') (sh_started h') \<and> sh_sweeping h'
        else sh_over h' \<and> wound_down (sh_calls h'))"
proof (induction svcs arbitrary: h)
  case (Cons svc svcs)
  let ?c = "on_host (call (Start_Call svc)) h" and ?h = "on_host (track svc) (on_host (call (Start_Call svc)) h)"
  show ?case
  proof (cases "st_ok (res svc)")
    case True
    moreover have "running (sh_calls ?h) (sh_started ?h)" "sh_sweeping ?h"
      using Cons.prems by (simp_all add: running_def sh_calls_def sh_started_def)
    ultimately show ?thesis using Cons.IH [of ?h] by simp
  next
    case False
    have "starts (sh_calls ?c) = sh_started h @ [svc]" "stops (sh_calls ?c) = []" "sh_started ?c = sh_started h"
      using Cons.prems by (simp_all add: running_def sh_calls_def sh_started_def)
    then show ?thesis using False streamer_shutdown_effect [of ?c]
      by (auto simp: Let_def wound_down_def st_ok_def mk_error_def)
  qed
qed (simp add: running_def)

interpretation streamer: service_host "streamer_startup res name web" streamer_shutdown sh_calls sh_started sh_fresh sh_over
proof
  fix s :: "'a streamer_host"
  let ?b = "streamer_startup res name web s" and ?s = "(on_host (call Sweep_Start) s)\<lparr>sh_sweeping := True\<rparr>"
  have out: "(st_ok (snd ?b) \<longrightarrow> running (sh_calls (fst ?b)) (sh_started (fst ?b)) \<and> \<not> sh_over (fst ?b))
     \<and> (\<not> st_ok (snd ?b) \<longrightarrow> wound_down (sh_calls (fst ?b)) \<and> sh_over (fst ?b))" if "sh_fresh s"
  proof -
    have "sh_host s = host_new" using that unfolding sh_fresh_def by (metis streamer_host.select_convs(1) streamer_new_def)
    then have "running (sh_calls ?s) (sh_started ?s)" "sh_sweeping ?s"
      by (simp_all add: host_new_def running_def sh_calls_def sh_started_def)
    note o = start_services_outcome [OF this, of res name "sh_ordered s"]
    obtain h st where r: "start_services res name (sh_ordered s) ?s = (h, st)" by (cases "start_services res name (sh_ordered s) ?s")
    show ?thesis
    proof (cases "st_ok st")
      case True
      let ?h = "on_host (call Web_Start) h"
      have h: "running (sh_calls ?h) (sh_started ?h)" "sh_sweeping ?h"
        using o True by (simp_all add: r running_def sh_calls_def sh_started_def)
      show ?thesis
      proof (cases "st_ok web")
        case w: True
        have "?b = (?h\<lparr>sh_web_started := True\<rparr>, success)" using True w by (simp add: streamer_startup_def r Let_def)
        then show ?thesis using h by (simp add: sh_over_def running_def sh_calls_def sh_started_def)
      next
        case w: False
        have e: "?b = (streamer_shutdown ?h, mk_error (st_code web) (''web: '' @ st_message web))"
          using True w by (simp add: streamer_startup_def r Let_def)
        have "wound_down (sh_calls (streamer_shutdown ?h))"
          using h(1) streamer_shutdown_effect [of ?h] by (simp add: wound_down_def running_def)
        then show ?thesis using w streamer_shutdown_effect [of ?h] by (simp add: e st_ok_def mk_error_def)
      qed
    qed (use o in \<open>simp add: streamer_startup_def r\<close>)
  qed
  show "sh_fresh s \<Longrightarrow> st_ok (snd ?b) \<Longrightarrow> running (sh_calls (fst ?b)) (sh_started (fst ?b)) \<and> \<not> sh_over (fst ?b)"
    "sh_fresh s \<Longrightarrow> \<not> st_ok (snd ?b) \<Longrightarrow> wound_down (sh_calls (fst ?b)) \<and> sh_over (fst ?b)"
    using out by blast+
  show "sh_over (streamer_shutdown s) \<and> starts (sh_calls (streamer_shutdown s)) = starts (sh_calls s) \<and> stops (sh_calls (streamer_shutdown s)) = rev (sh_started s)"
    if "running (sh_calls s) (sh_started s)" "\<not> sh_over s"
    using that streamer_shutdown_effect [of s] by (simp add: running_def)
  show "sh_over (streamer_shutdown s) \<and> starts (sh_calls (streamer_shutdown s)) = starts (sh_calls s) \<and> stops (sh_calls (streamer_shutdown s)) = stops (sh_calls s)"
    if "sh_over s"
    using that streamer_shutdown_effect [of s] by (simp add: sh_over_def)
qed

section \<open>The process of the speaker\<close>

datatype phase = Ph_Boot | Ph_Wait | Ph_Exit int

record process =
  pr_host :: "service host"
  pr_sys :: "nat sysman"
  pr_queue :: "event list"
  pr_requested :: bool
  pr_phase :: phase

definition process_new :: process where
  "process_new = \<lparr>pr_host = host_new, pr_sys = sysman_init, pr_queue = [], pr_requested = False, pr_phase = Ph_Boot\<rparr>"

text \<open>The calls of \<open>startup\<close> on the system manager: its start, the events that the bus delivers while the other
  services start, the initial state and, unpaired, the setup mode.\<close>

definition boot_calls :: "bool \<Rightarrow> event list \<Rightarrow> sys_call list" where
  "boot_calls cfgd evs =
     C_Start # map C_Event evs @ C_Initial cfgd #
       (if cfgd then [] else [C_Transition Sys_SetupMode ''unconfigured at boot''])"

definition startup :: "(service \<Rightarrow> status) \<Rightarrow> bool \<Rightarrow> event list \<Rightarrow> process \<Rightarrow> process \<times> status" where
  "startup res cfgd evs p =
     (case startInOrder res startup_order (pr_host p) of (h, st) \<Rightarrow>
        if st_ok st then (p\<lparr>pr_host := h, pr_sys := foldl sys_step (pr_sys p) (boot_calls cfgd evs)\<rparr>, success)
        else (p\<lparr>pr_host := h\<rparr>, st))"

definition publish :: "event \<Rightarrow> process \<Rightarrow> process" where
  "publish ev p = p\<lparr>pr_queue := pr_queue p @ [ev]\<rparr>"

definition requestShutdown :: "process \<Rightarrow> process" where
  "requestShutdown p = publish (mk_event Ev_ShutdownRequested ''main'') (p\<lparr>pr_requested := True\<rparr>)"

datatype proc_label = L_Boot "event list" | L_Signal | L_Publish event | L_Deliver | L_Wake

inductive proc_step :: "(service \<Rightarrow> status) \<Rightarrow> bool \<Rightarrow> process \<Rightarrow> proc_label \<Rightarrow> process \<Rightarrow> bool"
  for res :: "service \<Rightarrow> status" and cfgd :: bool where
  boot_ok: "pr_phase p = Ph_Boot \<Longrightarrow> startup res cfgd evs p = (p', st) \<Longrightarrow> st_ok st \<Longrightarrow>
    proc_step res cfgd p (L_Boot evs) (p'\<lparr>pr_phase := Ph_Wait\<rparr>)"
| boot_fail: "pr_phase p = Ph_Boot \<Longrightarrow> startup res cfgd evs p = (p', st) \<Longrightarrow> \<not> st_ok st \<Longrightarrow>
    proc_step res cfgd p (L_Boot evs) (p'\<lparr>pr_phase := Ph_Exit 1\<rparr>)"
| signal: "(\<And>n. pr_phase p \<noteq> Ph_Exit n) \<Longrightarrow> proc_step res cfgd p L_Signal (requestShutdown p)"
| publish: "pr_phase p = Ph_Wait \<Longrightarrow> proc_step res cfgd p (L_Publish ev) (publish ev p)"
| deliver: "pr_phase p = Ph_Wait \<Longrightarrow> pr_queue p = ev # q \<Longrightarrow>
    proc_step res cfgd p L_Deliver (p\<lparr>pr_queue := q, pr_sys := sys_step (pr_sys p) (C_Event ev)\<rparr>)"
| wake: "pr_phase p = Ph_Wait \<Longrightarrow> pr_requested p \<Longrightarrow>
    proc_step res cfgd p L_Wake
      (p\<lparr>pr_host := shutdown (pr_host p), pr_sys := sys_step (pr_sys p) C_Stop, pr_phase := Ph_Exit 0\<rparr>)"

inductive_cases proc_stepE: "proc_step res cfgd p l p'"

inductive proc_run :: "(service \<Rightarrow> status) \<Rightarrow> bool \<Rightarrow> process \<Rightarrow> proc_label list \<Rightarrow> process \<Rightarrow> bool"
  for res :: "service \<Rightarrow> status" and cfgd :: bool where
  stay: "proc_run res cfgd p [] p"
| go: "proc_step res cfgd p l p' \<Longrightarrow> proc_run res cfgd p' ls p'' \<Longrightarrow> proc_run res cfgd p (l # ls) p''"

inductive_cases proc_run_ConsE: "proc_run res cfgd p (l # ls) p'"

section \<open>Invariants of the process\<close>

definition stop_order_ok :: "(service \<Rightarrow> status) \<Rightarrow> process \<Rightarrow> bool" where
  "stop_order_ok res p \<longleftrightarrow>
     (case pr_phase p of
        Ph_Boot \<Rightarrow> pr_host p = host_new
      | Ph_Wait \<Rightarrow> \<not> ho_stopped (pr_host p) \<and> ho_started (pr_host p) = startup_order \<and> running (ho_calls (pr_host p)) startup_order
      | Ph_Exit n \<Rightarrow>
          if n = 0 then starts (ho_calls (pr_host p)) = startup_order \<and> stops (ho_calls (pr_host p)) = rev startup_order
          else \<exists>pre svc post. startup_order = pre @ svc # post \<and> critical svc \<and> \<not> st_ok (res svc)
            \<and> starts (ho_calls (pr_host p)) = pre @ [svc] \<and> stops (ho_calls (pr_host p)) = rev pre)"

lemma startup_outcome:
  assumes "pr_host p = host_new" "startup res cfgd evs p = (p', st)"
  shows "if st_ok st then \<not> ho_stopped (pr_host p') \<and> ho_started (pr_host p') = startup_order
        \<and> running (ho_calls (pr_host p')) startup_order
      else (\<exists>pre svc post. startup_order = pre @ svc # post \<and> critical svc \<and> \<not> st_ok (res svc)
        \<and> starts (ho_calls (pr_host p')) = pre @ [svc] \<and> stops (ho_calls (pr_host p')) = rev pre)"
proof -
  obtain h s where r: "startInOrder res startup_order host_new = (h, s)" by (cases "startInOrder res startup_order host_new")
  have "\<not> ho_stopped host_new" "running (ho_calls host_new) (ho_started host_new)" by (simp_all add: host_new_def running_def)
  from startInOrder_outcome [where svcs = startup_order and res = res, OF this]
  have o: "if st_ok s then \<not> ho_stopped h \<and> ho_started h = startup_order \<and> running (ho_calls h) (ho_started h)
    else (\<exists>pre svc post. startup_order = pre @ svc # post \<and> critical svc \<and> \<not> st_ok (res svc)
        \<and> starts (ho_calls h) = pre @ [svc] \<and> stops (ho_calls h) = rev pre)"
    using host_new_fields by (auto simp: r split: if_splits)
  have "(st = success \<and> st_ok s \<or> st = s \<and> \<not> st_ok s) \<and> pr_host p' = h"
    using assms by (auto simp: startup_def r split: if_splits)
  with o show ?thesis by (auto split: if_splits)
qed

lemma stop_order_step: "proc_step res cfgd p l p' \<Longrightarrow> stop_order_ok res p \<Longrightarrow> stop_order_ok res p'"
proof (induction rule: proc_step.induct)
  case (boot_ok p evs p' st)
  then show ?case using startup_outcome [of p res cfgd evs p' st] by (simp add: stop_order_ok_def)
next
  case (boot_fail p evs p' st)
  then show ?case using startup_outcome [of p res cfgd evs p' st] by (simp add: stop_order_ok_def)
next
  case (wake p)
  then show ?case by (simp add: stop_order_ok_def shutdown_def running_def)
qed (auto simp: stop_order_ok_def requestShutdown_def publish_def split: phase.splits)

lemma stop_order_run: "proc_run res cfgd p ls p' \<Longrightarrow> stop_order_ok res p \<Longrightarrow> stop_order_ok res p'"
  by (induction rule: proc_run.induct) (auto intro: stop_order_step)

text \<open>Without a signal the process keeps waiting.\<close>

lemma no_signal_step:
  "proc_step res cfgd p l p' \<Longrightarrow> l \<noteq> L_Signal \<Longrightarrow> \<not> pr_requested p \<Longrightarrow>
     \<not> pr_requested p' \<and> (pr_phase p = Ph_Wait \<longrightarrow> pr_phase p' = Ph_Wait \<and> pr_host p' = pr_host p) \<and> (pr_phase p \<noteq> Ph_Exit 0 \<longrightarrow> pr_phase p' \<noteq> Ph_Exit 0)"
  by (induction rule: proc_step.induct) (auto simp: publish_def startup_def split: prod.splits if_splits)

lemma shutting_down_step:
  "proc_step res cfgd p l p' \<Longrightarrow> pr_phase p = Ph_Wait \<Longrightarrow> sys_state (pr_sys p) = Sys_ShuttingDown \<Longrightarrow> sys_state (pr_sys p') = Sys_ShuttingDown"
  by (induction rule: proc_step.induct) (auto simp: publish_def requestShutdown_def shutdown_latch.step_latched)

section \<open>Theorems\<close>

text \<open>The process stops what it started, in reverse: in every run, whatever the services answer and whenever
  signals, requests and events arrive, once the process has exited it has either stopped all its
  services in exactly the reverse of the startup order (exit status 0), or one of the two critical services
  refused to start, and then exactly the services started before it were stopped, in reverse, and the status is 1.\<close>

theorem exit_stops_in_reverse:
  assumes "proc_run res cfgd process_new ls p" "pr_phase p = Ph_Exit n"
  shows "(n = 0 \<and> starts (ho_calls (pr_host p)) = startup_order \<and> stops (ho_calls (pr_host p)) = rev startup_order)
    \<or> (\<exists>pre svc post. startup_order = pre @ svc # post \<and> critical svc \<and> \<not> st_ok (res svc)
        \<and> starts (ho_calls (pr_host p)) = pre @ [svc] \<and> stops (ho_calls (pr_host p)) = rev pre)"
proof -
  have "stop_order_ok res process_new" by (simp add: stop_order_ok_def process_new_def)
  from stop_order_run [OF assms(1) this] assms(2) show ?thesis by (auto simp: stop_order_ok_def split: if_splits)
qed

definition demo_res :: "service \<Rightarrow> status" where
  "demo_res svc = (if svc = Svc_Identity then mk_error Ec_IdentityCorrupt [] else success)"

text \<open>Running the process down twice changes nothing: on both sides, after a start with any outcome and any
  number of further \<open>shutdown\<close> calls, every service that started has been stopped exactly once, in reverse order
  of starting; only the service whose start failed last may be missing.\<close>

theorem shutdown_idempotent:
  "wound_down (ho_calls ((shutdown ^^ Suc n) (fst (startInOrder res startup_order host_new))))
   \<and> wound_down (sh_calls ((streamer_shutdown ^^ Suc m) (fst (streamer_startup sres name web (streamer_new svcs)))))"
  using speaker.boot_then_down [of host_new n res] streamer.boot_then_down [of "streamer_new svcs" m sres name web]
  by (simp add: fresh_host_def sh_fresh_def streamer_new_def)

lemma no_signal_run:
  assumes "proc_run res cfgd p ls p'" "L_Signal \<notin> set ls" "\<not> pr_requested p"
  shows "\<not> pr_requested p' \<and> (pr_phase p = Ph_Wait \<longrightarrow> pr_phase p' = Ph_Wait \<and> pr_host p' = pr_host p) \<and> (pr_phase p \<noteq> Ph_Exit 0 \<longrightarrow> pr_phase p' \<noteq> Ph_Exit 0)"
  using assms
proof (induction rule: proc_run.induct)
  case (go p l p' ls p'')
  then show ?case using no_signal_step [OF go.hyps(1)] by auto
qed simp

lemma shutting_down_run:
  assumes "proc_run res cfgd p ls p'" "L_Signal \<notin> set ls" "\<not> pr_requested p" "pr_phase p = Ph_Wait" "sys_state (pr_sys p) = Sys_ShuttingDown"
  shows "sys_state (pr_sys p') = Sys_ShuttingDown"
  using assms
proof (induction rule: proc_run.induct)
  case (go p l p' ls p'')
  then show ?case using no_signal_step [OF go.hyps(1)] shutting_down_step [OF go.hyps(1)] by auto
qed simp

lemma exited_stays: "proc_run res cfgd p ls p' \<Longrightarrow> pr_phase p = Ph_Exit n \<Longrightarrow> p' = p"
  by (induction rule: proc_run.induct) (auto elim: proc_stepE)

text \<open>Both reboot requests, the command and the web action, come to this: \<open>ShutdownRequested\<close> is published and nothing else.\<close>

definition reboot_event :: "string \<Rightarrow> event" where
  "reboot_event src = mk_event Ev_ShutdownRequested src"

lemma reboot_delivered: "sys_state (sys_step s (C_Event (reboot_event src))) = Sys_ShuttingDown"
  by (simp add: sys_step_def reboot_event_def handleEvent_def mk_event_def)

text \<open>A reboot request does not reboot: it makes the state machine enter \<open>ShuttingDown\<close>, which it cannot
  leave, but the flag \<open>run\<close> waits for is set by a signal only. Whatever follows the delivery of the event, as
  long as no signal arrives the process keeps waiting, no service is stopped and the state stays \<open>ShuttingDown\<close>.\<close>

theorem reboot_request_hangs:
  assumes "pr_phase p = Ph_Wait" "\<not> pr_requested p" "pr_queue p = reboot_event src # q"
    and "proc_run res cfgd p (L_Deliver # ls) p'" "L_Signal \<notin> set ls"
  shows "pr_phase p' = Ph_Wait \<and> pr_host p' = pr_host p \<and> sys_state (pr_sys p') = Sys_ShuttingDown"
proof -
  obtain p1 where s: "proc_step res cfgd p L_Deliver p1" and r: "proc_run res cfgd p1 ls p'"
    using proc_run_ConsE [OF assms(4)] .
  have "p1 = p\<lparr>pr_queue := q, pr_sys := sys_step (pr_sys p) (C_Event (reboot_event src))\<rparr>"
    using s assms(3) by (auto elim: proc_stepE)
  then have "pr_phase p1 = Ph_Wait" "\<not> pr_requested p1" "pr_host p1 = pr_host p" "sys_state (pr_sys p1) = Sys_ShuttingDown"
    using assms(1,2) reboot_delivered by simp_all
  then show ?thesis using no_signal_run [OF r assms(5)] shutting_down_run [OF r assms(5)] by simp
qed

definition waiting :: process where
  "waiting = process_new\<lparr>pr_phase := Ph_Wait, pr_queue := [reboot_event ''web'']\<rparr>"

theorem reboot_request_hangs_witness:
  "\<exists>p'. proc_run demo_res True waiting [L_Deliver] p' \<and> pr_phase p' = Ph_Wait \<and> sys_state (pr_sys p') = Sys_ShuttingDown"
proof -
  let ?p = "waiting\<lparr>pr_queue := [], pr_sys := sys_step (pr_sys waiting) (C_Event (reboot_event ''web''))\<rparr>"
  have "proc_step demo_res True waiting L_Deliver ?p" by (rule proc_step.deliver) (simp_all add: waiting_def)
  then have r: "proc_run demo_res True waiting [L_Deliver] ?p" by (rule proc_run.go [OF _ proc_run.stay])
  then show ?thesis using reboot_request_hangs [OF _ _ _ r, of "''web''" "[]"]
    by (intro exI [of _ ?p]) (simp add: waiting_def process_new_def)
qed

theorem exit_stops_in_reverse_witness:
  "\<exists>p. proc_run demo_res True process_new [L_Boot []] p \<and> pr_phase p = Ph_Exit 1
     \<and> starts (ho_calls (pr_host p)) = [Svc_Config, Svc_Identity] \<and> stops (ho_calls (pr_host p)) = [Svc_Config]"
proof -
  let ?h = "\<lparr>ho_started = [], ho_stopped = True, ho_calls = [Start_Call Svc_Config, Start_Call Svc_Identity, Stop_Call Svc_Config, Bus_Stop, Log_Flush, Log_Shutdown]\<rparr>"
  let ?p = "process_new\<lparr>pr_host := ?h, pr_phase := Ph_Exit 1\<rparr>"
  have "startup demo_res True [] process_new = (process_new\<lparr>pr_host := ?h\<rparr>, mk_error Ec_ServiceStartFailed ''identity'')"
    by (simp add: startup_def startup_order_def demo_res_def critical_def shutdown_def call_def track_def host_new_def process_new_def)
  from proc_step.boot_fail [OF _ this] have "proc_step demo_res True process_new (L_Boot []) ?p"
    by (simp add: process_new_def)
  then have r: "proc_run demo_res True process_new [L_Boot []] ?p" by (rule proc_run.go [OF _ proc_run.stay])
  from exit_stops_in_reverse [OF r] show ?thesis using r by (intro exI [of _ ?p]) simp
qed

section \<open>A corrupt configuration\<close>

lemma defaults_have_no_name: "forget_name defaults = defaults"
  by (simp add: forget_name_def default_defs)

text \<open>C27. A corrupt configuration costs one boot. Let the configuration file not parse (or not validate), let there be no backup or one that cannot be
  read, does not parse or does not validate, and let the operating system write what it is asked to write. Then the start of the configuration service answers
  \<open>ConfigCorrupt\<close> although it has just replaced the file by the defaults and uses them; since the service is critical
  the boot ends with status 1, with no other service started. The next boot, a new manager on the same disk with the file readable, loads exactly the
  defaults and its configuration service starts.\<close>

theorem corrupt_config_costs_one_boot:
  assumes corrupt: "cm_fs m (cm_path m) = Some bytes" "tryParse J env (cm_fs m) (cm_path m) = Inl e"
      "cm_fs m (bak_path m) = None \<or> tryParse J env (cm_fs m) (bak_path m) = Inl e'"
    and first: "Config_Manager.start J env m = (m1, s1, es1)"
    and boot: "res Svc_Config = s1" "proc_run res cfgd process_new (L_Boot evs # ls) p"
    and disk: "ce_write env = os_fine" "ce_readable env' (cm_path m)"
    and json: "getters_exact J" "jl_parse J (jl_dump2 J (config_to_json defaults)) = Some (config_to_json defaults)"
    and second: "Config_Manager.start J env' (cfgman_new (cm_path m) (cm_fs m1)) = (m2, s2, es2)"
  shows "st_code s1 = Ec_ConfigCorrupt \<and> cm_fs m1 (cm_path m) = Some (jl_dump2 J (config_to_json defaults)) \<and> cm_config m1 = defaults \<and>
    pr_phase p = Ph_Exit 1 \<and> starts (ho_calls (pr_host p)) = [Svc_Config] \<and>
    s2 = success \<and> cm_config m2 = defaults \<and> cm_state m2 = Svc_Running"
proof -
  obtain m' w where p: "persist J env (rename_corrupt env m) defaults = (m', w)" by (metis surj_pair)
  let ?e = "mk_error Ec_ConfigCorrupt ''config was corrupt; reverted to defaults''"
  have l: "load J env m = (m'\<lparr>cm_config := defaults\<rparr>, ?e, [config_invalid_event])"
    using corrupt p by (cases "cm_fs m (bak_path m) = None") (simp_all add: load_def)
  then have f: "m1 = m'\<lparr>cm_config := defaults, cm_state := Svc_Degraded\<rparr>" "s1 = ?e"
    using first by (auto simp: Config_Manager.start_def)
  have b: "startInOrder res startup_order host_new = (shutdown (call (Start_Call Svc_Config) host_new), mk_error Ec_ServiceStartFailed ''config'')"
    using boot(1) f(2) by (simp add: startup_order_def critical_def)
  obtain p1 where s: "proc_step res cfgd process_new (L_Boot evs) p1" and r: "proc_run res cfgd p1 ls p"
    using proc_run_ConsE [OF boot(2)] .
  have p1: "p1 = process_new\<lparr>pr_host := shutdown (call (Start_Call Svc_Config) host_new), pr_phase := Ph_Exit 1\<rparr>"
    using s by (auto elim!: proc_stepE simp: startup_def b process_new_def)
  have "p = p1" using exited_stays [OF r] p1 by simp
  have "snd (persist J env (rename_corrupt env m) defaults) = success"
    by (rule persist_fine [OF valid_defaults disk(1)])
  then have d: "cm_fs m' (cm_path m) = Some (jl_dump2 J (config_to_json defaults))"
    using persist_ok [OF p] persist_frame(1) [OF p] p by (simp add: rename_corrupt_def split: if_splits)
  have "config_from_json J (config_to_json defaults) = Some (forget_name defaults)"
    by (rule config_roundtrip [OF json(1) valid_defaults]) (simp add: defaults_def config_default_def audio_default_def)
  then have "tryParse J env' (cm_fs m') (cm_path m) = Inr defaults"
    using d disk(2) json(2) valid_defaults by (simp add: tryParse_def Let_def validate_ok_iff defaults_have_no_name)
  then have "s2 = success \<and> cm_config m2 = defaults \<and> cm_state m2 = Svc_Running"
    using second f d by (auto simp: Config_Manager.start_def load_def cfgman_new_def)
  with f d \<open>p = p1\<close> p1 show ?thesis by (simp add: shutdown_def)
qed

lemma boot_step: "\<exists>p. proc_step res cfgd process_new (L_Boot evs) p"
proof -
  obtain p st where "startup res cfgd evs process_new = (p, st)" by (metis surj_pair)
  then show ?thesis
    using proc_step.boot_ok [of process_new res cfgd evs p st] proc_step.boot_fail [of process_new res cfgd evs p st]
    by (cases "st_ok st") (auto simp: process_new_def)
qed

definition torn_disk :: cfgman where
  "torn_disk = cfgman_new ''c'' [''c'' \<mapsto> ''torn'', ''c.bak'' \<mapsto> ''torn too'']"

abbreviation demo_json :: json_lib where
  "demo_json \<equiv> demo_lib ''good'' (config_to_json defaults)"

theorem corrupt_config_costs_one_boot_witness:
  "\<exists>p. proc_run (\<lambda>_. mk_error Ec_ConfigCorrupt ''config was corrupt; reverted to defaults'') True process_new [L_Boot []] p
     \<and> pr_phase p = Ph_Exit 1 \<and>
     cm_config (fst (Config_Manager.start demo_json cfg_env_fine
       (cfgman_new ''c'' (cm_fs (fst (Config_Manager.start demo_json cfg_env_fine torn_disk)))))) = defaults"
proof -
  let ?J = demo_json and ?m = "cfgman_new ''c'' [''c'' \<mapsto> ''torn'', ''c.bak'' \<mapsto> ''torn too'']"
  let ?e = "mk_error Ec_ConfigCorrupt ''config was corrupt; reverted to defaults''"
  obtain p where "proc_step (\<lambda>_. ?e) True process_new (L_Boot []) p" using boot_step by blast
  then have r: "proc_run (\<lambda>_. ?e) True process_new [L_Boot []] p" by (rule proc_run.go [OF _ proc_run.stay])
  have t: "tryParse ?J cfg_env_fine (cm_fs ?m) (cm_path ?m) = Inl (mk_error Ec_ConfigParseError ''parse error'')"
    "tryParse ?J cfg_env_fine (cm_fs ?m) (bak_path ?m) = Inl (mk_error Ec_ConfigParseError ''parse error'')"
    by (simp_all add: tryParse_def cfgman_new_def cfg_env_fine_def) (simp_all add: demo_lib_def)
  obtain m1 s1 es1 where f: "Config_Manager.start ?J cfg_env_fine ?m = (m1, s1, es1)" by (rule prod_cases3)
  obtain m2 s2 es2 where g: "Config_Manager.start ?J cfg_env_fine (cfgman_new (cm_path ?m) (cm_fs m1)) = (m2, s2, es2)" by (rule prod_cases3)
  have s: "?e = s1"
    using t f by (auto simp: Config_Manager.start_def load_def cfgman_new_def split: prod.splits)
  have c: "cm_fs ?m (cm_path ?m) = Some ''torn''" by (simp add: cfgman_new_def)
  from corrupt_config_costs_one_boot [OF c t(1) disjI2 [OF t(2)] f s r _ _ _ _ g] show ?thesis
    using r f g by (intro exI [of _ p]) (simp add: torn_disk_def cfgman_new_def cfg_env_fine_def)
qed

end
