(* ===== verification/Dsp.thy ===== *)
theory Dsp
  imports Complex_Main Playback
begin

text \<open>
  The audio processing chain of \<open>src/dsp\<close>: gain stages, biquad filters, the 32-band equalizer, the
  crossover, compressor, limiter, delay line, and \<open>DspEngine::processInt16\<close> which runs them between two
  conversions. Samples are interleaved lists. The filters and envelopes compute over the reals: their
  rounding to \<open>float\<close> and \<open>double\<close> is not modelled, so what is shown about them is the algorithm; the
  delay line, the polarity stage and the clipping only move or select samples, and hold for the
  machine values too.
\<close>

section \<open>Frames\<close>

fun frames_of :: "nat \<Rightarrow> nat \<Rightarrow> 'a list \<Rightarrow> 'a list list" where
  "frames_of ch 0 io = []"
| "frames_of ch (Suc k) io = take ch io # frames_of ch k (drop ch io)"

text \<open>A stage that walks over the frames with a state and leaves samples beyond them alone.\<close>

fun run_frames :: "('s \<Rightarrow> 'a list \<Rightarrow> 's \<times> 'a list) \<Rightarrow> 's \<Rightarrow> 'a list list \<Rightarrow> 's \<times> 'a list" where
  "run_frames f s [] = (s, [])"
| "run_frames f s (x # xs) = (case f s x of (s', y) \<Rightarrow> case run_frames f s' xs of (s'', ys) \<Rightarrow> (s'', y @ ys))"

definition on_frames :: "('s \<Rightarrow> 'a list \<Rightarrow> 's \<times> 'a list) \<Rightarrow> 's \<Rightarrow> 'a list \<Rightarrow> nat \<Rightarrow> nat \<Rightarrow> 's \<times> 'a list" where
  "on_frames f s io frames ch =
     (case run_frames f s (frames_of ch frames io) of (s', out) \<Rightarrow> (s', out @ drop (frames * ch) io))"

section \<open>Gain\<close>

record gain_control =
  gc_target :: real
  gc_current :: real

definition db_linear :: "real \<Rightarrow> real" where
  "db_linear db = 10 powr (db / 20)"

definition setGainDb :: "real \<Rightarrow> gain_control \<Rightarrow> gain_control" where
  "setGainDb db g = g\<lparr>gc_target := db_linear db\<rparr>"

definition gain_new :: gain_control where
  "gain_new = setGainDb 0 \<lparr>gc_target = 1, gc_current = 1\<rparr>"

definition gain_frame :: "gain_control \<Rightarrow> real list \<Rightarrow> gain_control \<times> real list" where
  "gain_frame g x = (let c = gc_current g + (gc_target g - gc_current g) * (1 / 1000)
     in (g\<lparr>gc_current := c\<rparr>, map (\<lambda>v. v * c) x))"

definition gain_process :: "gain_control \<Rightarrow> real list \<Rightarrow> nat \<Rightarrow> nat \<Rightarrow> gain_control \<times> real list" where
  "gain_process = on_frames gain_frame"

definition gain_reset :: "gain_control \<Rightarrow> gain_control" where
  "gain_reset g = g\<lparr>gc_current := gc_target g\<rparr>"

section \<open>Biquads\<close>

record coeffs =
  bq_b0 :: real
  bq_b1 :: real
  bq_b2 :: real
  bq_a1 :: real
  bq_a2 :: real

type_synonym bq_state = "real \<times> real"

definition normalized :: "real \<Rightarrow> real \<Rightarrow> real \<Rightarrow> real \<Rightarrow> real \<Rightarrow> real \<Rightarrow> coeffs" where
  "normalized b0 b1 b2 a0 a1 a2 = \<lparr>bq_b0 = b0 / a0, bq_b1 = b1 / a0, bq_b2 = b2 / a0, bq_a1 = a1 / a0, bq_a2 = a2 / a0\<rparr>"

definition omega :: "real \<Rightarrow> real \<Rightarrow> real" where
  "omega fc fs = 2 * pi * fc / fs"

definition peakingEq :: "real \<Rightarrow> real \<Rightarrow> real \<Rightarrow> real \<Rightarrow> coeffs" where
  "peakingEq fc gainDb q fs =
     (let A = 10 powr (gainDb / 40); w0 = omega fc fs; cosw0 = cos w0; alpha = sin w0 / (2 * q)
      in normalized (1 + alpha * A) (- 2 * cosw0) (1 - alpha * A) (1 + alpha / A) (- 2 * cosw0) (1 - alpha / A))"

definition half_sqrt2 :: real where
  "half_sqrt2 = 70710678118654752 / 100000000000000000"

definition butterworthHP2 :: "real \<Rightarrow> real \<Rightarrow> coeffs" where
  "butterworthHP2 fc fs =
     (let w0 = omega fc fs; cosw0 = cos w0; alpha = sin w0 / (2 * half_sqrt2)
      in normalized ((1 + cosw0) / 2) (- (1 + cosw0)) ((1 + cosw0) / 2) (1 + alpha) (- 2 * cosw0) (1 - alpha))"

definition butterworthLP2 :: "real \<Rightarrow> real \<Rightarrow> coeffs" where
  "butterworthLP2 fc fs =
     (let w0 = omega fc fs; cosw0 = cos w0; alpha = sin w0 / (2 * half_sqrt2)
      in normalized ((1 - cosw0) / 2) (1 - cosw0) ((1 - cosw0) / 2) (1 + alpha) (- 2 * cosw0) (1 - alpha))"

definition processSample :: "coeffs \<Rightarrow> bq_state \<Rightarrow> real \<Rightarrow> bq_state \<times> real" where
  "processSample c s x =
     (let y = bq_b0 c * x + fst s
      in ((bq_b1 c * x - bq_a1 c * y + snd s, bq_b2 c * x - bq_a2 c * y), y))"

definition magnitudeDb :: "coeffs \<Rightarrow> real \<Rightarrow> real \<Rightarrow> real" where
  "magnitudeDb c freq fs =
     (let w = omega freq fs;
          numRe = bq_b0 c + bq_b1 c * cos w + bq_b2 c * cos (2 * w); numIm = - (bq_b1 c * sin w + bq_b2 c * sin (2 * w));
          denRe = 1 + bq_a1 c * cos w + bq_a2 c * cos (2 * w); denIm = - (bq_a1 c * sin w + bq_a2 c * sin (2 * w));
          num = sqrt (numRe * numRe + numIm * numIm); den = sqrt (denRe * denRe + denIm * denIm)
      in 20 * log 10 (num / den + 1 / 10 ^ 20))"

section \<open>Equalizer\<close>

definition kEqBands :: nat where
  "kEqBands = 32"

definition kBandFreqs :: "real list" where
  "kBandFreqs = [30, 40, 50, 63, 80, 100, 125, 160, 200, 250, 315, 400, 500, 630, 800, 1000, 1250, 1600, 2000, 2500,
     3150, 4000, 5000, 6300, 8000, 10000, 12500, 14000, 16000, 18000, 19000, 20000]"

definition kBandQ :: real where
  "kBandQ = 43 / 10"

record equalizer =
  eq_fs :: real
  eq_channels :: nat
  eq_gains :: "real list"
  eq_coeffs :: "coeffs list"
  eq_state :: "bq_state list list"

definition eq_rebuild :: "equalizer \<Rightarrow> equalizer" where
  "eq_rebuild e = e\<lparr>eq_coeffs := map (\<lambda>i. peakingEq (kBandFreqs ! i) (eq_gains e ! i) kBandQ (eq_fs e)) [0..<kEqBands]\<rparr>"

definition eq_setChannels :: "int \<Rightarrow> equalizer \<Rightarrow> equalizer" where
  "eq_setChannels ch e =
     (let n = nat (max 1 ch) in e\<lparr>eq_channels := n, eq_state := replicate n (replicate kEqBands (0, 0))\<rparr>)"

definition eq_setSampleRate :: "real \<Rightarrow> equalizer \<Rightarrow> equalizer" where
  "eq_setSampleRate fs e = eq_rebuild (e\<lparr>eq_fs := fs\<rparr>)"

definition eq_new :: "real \<Rightarrow> int \<Rightarrow> equalizer" where
  "eq_new fs ch = eq_rebuild (eq_setChannels ch
     \<lparr>eq_fs = fs, eq_channels = 0, eq_gains = replicate kEqBands 0, eq_coeffs = [], eq_state = []\<rparr>)"

definition eq_setGains :: "real list \<Rightarrow> equalizer \<Rightarrow> equalizer" where
  "eq_setGains gs e = eq_rebuild (e\<lparr>eq_gains := map (\<lambda>i. clamp_real (gs ! i) (-10) 10) [0..<kEqBands]\<rparr>)"

definition eq_setBandGain :: "int \<Rightarrow> real \<Rightarrow> equalizer \<Rightarrow> equalizer" where
  "eq_setBandGain band g e =
     (if band < 0 \<or> band \<ge> int kEqBands then e
      else eq_rebuild (e\<lparr>eq_gains := (eq_gains e)[nat band := clamp_real g (-10) 10]\<rparr>))"

fun bands :: "coeffs list \<Rightarrow> bq_state list \<Rightarrow> real \<Rightarrow> bq_state list \<times> real" where
  "bands (c # cs) (s # ss) x =
     (case processSample c s x of (s', y) \<Rightarrow> case bands cs ss y of (ss', z) \<Rightarrow> (s' # ss', z))"
| "bands _ ss x = (ss, x)"

definition eq_frame :: "coeffs list \<Rightarrow> bq_state list list \<Rightarrow> real list \<Rightarrow> bq_state list list \<times> real list" where
  "eq_frame cs st x = (let r = map2 (bands cs) st x in (map fst r, map snd r))"

definition eq_process :: "equalizer \<Rightarrow> real list \<Rightarrow> nat \<Rightarrow> equalizer \<times> real list" where
  "eq_process e io frames =
     (case on_frames (eq_frame (eq_coeffs e)) (eq_state e) io frames (eq_channels e) of
        (st, out) \<Rightarrow> (e\<lparr>eq_state := st\<rparr>, out))"

definition eq_reset :: "equalizer \<Rightarrow> equalizer" where
  "eq_reset e = e\<lparr>eq_state := map (map (\<lambda>_. (0, 0))) (eq_state e)\<rparr>"

definition eq_magnitudeDb :: "equalizer \<Rightarrow> real \<Rightarrow> real" where
  "eq_magnitudeDb e freq = foldl (\<lambda>acc c. acc + magnitudeDb c freq (eq_fs e)) 0 (eq_coeffs e)"

section \<open>Crossover\<close>

record crossover =
  xo_fs :: real
  xo_channels :: nat
  xo_enabled :: bool
  xo_hp_on :: bool
  xo_lp_on :: bool
  xo_hp_fc :: real
  xo_lp_fc :: real
  xo_hp :: coeffs
  xo_lp :: coeffs
  xo_state :: "(bq_state \<times> bq_state) list"

definition xo_rebuild :: "crossover \<Rightarrow> crossover" where
  "xo_rebuild x = x\<lparr>xo_hp := butterworthHP2 (xo_hp_fc x) (xo_fs x), xo_lp := butterworthLP2 (xo_lp_fc x) (xo_fs x)\<rparr>"

definition xo_configure :: "real \<Rightarrow> nat \<Rightarrow> crossover \<Rightarrow> crossover" where
  "xo_configure fs ch x = xo_rebuild (x\<lparr>xo_fs := fs, xo_channels := ch, xo_state := replicate ch ((0, 0), (0, 0))\<rparr>)"

definition setHighPass :: "bool \<Rightarrow> real \<Rightarrow> crossover \<Rightarrow> crossover" where
  "setHighPass on fc x = xo_rebuild (x\<lparr>xo_hp_on := on, xo_hp_fc := fc\<rparr>)"

definition setLowPass :: "bool \<Rightarrow> real \<Rightarrow> crossover \<Rightarrow> crossover" where
  "setLowPass on fc x = xo_rebuild (x\<lparr>xo_lp_on := on, xo_lp_fc := fc\<rparr>)"

definition xo_sample :: "crossover \<Rightarrow> bq_state \<times> bq_state \<Rightarrow> real \<Rightarrow> (bq_state \<times> bq_state) \<times> real" where
  "xo_sample x s v =
     (let (h, v1) = (if xo_hp_on x then processSample (xo_hp x) (fst s) v else (fst s, v));
          (l, v2) = (if xo_lp_on x then processSample (xo_lp x) (snd s) v1 else (snd s, v1))
      in ((h, l), v2))"

definition xo_process :: "crossover \<Rightarrow> real list \<Rightarrow> nat \<Rightarrow> nat \<Rightarrow> crossover \<times> real list" where
  "xo_process x io frames ch =
     (if \<not> xo_enabled x \<or> (\<not> xo_hp_on x \<and> \<not> xo_lp_on x) then (x, io)
      else
        (case on_frames (\<lambda>st fr. let r = map2 (xo_sample x) st fr in (map fst r, map snd r)) (xo_state x) io frames ch of
           (st, out) \<Rightarrow> (x\<lparr>xo_state := st\<rparr>, out)))"

definition xo_reset :: "crossover \<Rightarrow> crossover" where
  "xo_reset x = x\<lparr>xo_state := map (\<lambda>_. ((0, 0), (0, 0))) (xo_state x)\<rparr>"

section \<open>Compressor and limiter\<close>

definition smoothing :: "real \<Rightarrow> real \<Rightarrow> real" where
  "smoothing ms fs = 1 - exp (- 1 / (max (1 / 100) ms * (1 / 1000) * fs))"

definition peak_of :: "real list \<Rightarrow> real" where
  "peak_of x = foldl (\<lambda>p v. max p \<bar>v\<bar>) 0 x"

record dynamics =
  dy_fs :: real
  dy_enabled :: bool
  dy_threshold :: real
  dy_ratio :: real
  dy_makeup :: real
  dy_attack :: real
  dy_release :: real
  dy_gain :: real

definition compressor_new :: "real \<Rightarrow> dynamics" where
  "compressor_new fs = \<lparr>dy_fs = fs, dy_enabled = False, dy_threshold = - 18, dy_ratio = 2, dy_makeup = 1,
     dy_attack = smoothing 10 fs, dy_release = smoothing 100 fs, dy_gain = 1\<rparr>"

definition limiter_new :: "real \<Rightarrow> dynamics" where
  "limiter_new fs = \<lparr>dy_fs = fs, dy_enabled = True, dy_threshold = db_linear (- 1), dy_ratio = 1, dy_makeup = 1,
     dy_attack = smoothing 1 fs, dy_release = smoothing 50 fs, dy_gain = 1\<rparr>"

definition compressor_target :: "dynamics \<Rightarrow> real list \<Rightarrow> real" where
  "compressor_target d x =
     (let level_db = 20 * log 10 (peak_of x + 1 / 10 ^ 9); over = level_db - dy_threshold d
      in 10 powr ((if level_db > dy_threshold d then - (over - over / dy_ratio d) else 0) / 20))"

definition follow :: "dynamics \<Rightarrow> real \<Rightarrow> real" where
  "follow d want = dy_gain d + (want - dy_gain d) * (if want < dy_gain d then dy_attack d else dy_release d)"

definition compressor_frame :: "dynamics \<Rightarrow> real list \<Rightarrow> dynamics \<times> real list" where
  "compressor_frame d x = (let g = follow d (compressor_target d x) in (d\<lparr>dy_gain := g\<rparr>, map (\<lambda>v. v * (g * dy_makeup d)) x))"

definition compressor_process :: "dynamics \<Rightarrow> real list \<Rightarrow> nat \<Rightarrow> nat \<Rightarrow> dynamics \<times> real list" where
  "compressor_process d io frames ch = (if \<not> dy_enabled d then (d, io) else on_frames compressor_frame d io frames ch)"

definition limiter_target :: "dynamics \<Rightarrow> real list \<Rightarrow> real" where
  "limiter_target d x = (let peak = peak_of x in if peak > dy_threshold d then dy_threshold d / (peak + 1 / 10 ^ 9) else 1)"

definition limiter_frame :: "dynamics \<Rightarrow> real list \<Rightarrow> dynamics \<times> real list" where
  "limiter_frame d x = (let g = follow d (limiter_target d x) in (d\<lparr>dy_gain := g\<rparr>, map (\<lambda>v. v * g) x))"

definition limiter_process :: "dynamics \<Rightarrow> real list \<Rightarrow> nat \<Rightarrow> nat \<Rightarrow> dynamics \<times> real list" where
  "limiter_process d io frames ch = (if \<not> dy_enabled d then (d, io) else on_frames limiter_frame d io frames ch)"

section \<open>Delay\<close>

record 'a delay_line =
  dl_fs :: real
  dl_channels :: nat
  dl_ms :: real
  dl_buffer :: "'a list"
  dl_pos :: nat

definition setDelayMs :: "real \<Rightarrow> 'a :: zero delay_line \<Rightarrow> 'a delay_line" where
  "setDelayMs ms d =
     (let m = (if ms < 0 then 0 else ms)
      in d\<lparr>dl_ms := m, dl_buffer := replicate (nat \<lfloor>(m / 1000) * dl_fs d\<rfloor> * dl_channels d) 0, dl_pos := 0\<rparr>)"

definition delay_configure :: "real \<Rightarrow> nat \<Rightarrow> 'a :: zero delay_line \<Rightarrow> 'a delay_line" where
  "delay_configure fs ch d = setDelayMs (dl_ms d) (d\<lparr>dl_fs := fs, dl_channels := ch\<rparr>)"

definition delay_new :: "real \<Rightarrow> nat \<Rightarrow> 'a :: zero delay_line" where
  "delay_new fs ch = delay_configure fs ch \<lparr>dl_fs = 48000, dl_channels = 2, dl_ms = 0, dl_buffer = [], dl_pos = 0\<rparr>"

fun delay_samples :: "'a list \<times> nat \<Rightarrow> 'a list \<Rightarrow> ('a list \<times> nat) \<times> 'a list" where
  "delay_samples (buf, pos) [] = ((buf, pos), [])"
| "delay_samples (buf, pos) (x # xs) =
     (case delay_samples (buf[pos := x], (pos + 1) mod length buf) xs of (s, ys) \<Rightarrow> (s, buf ! pos # ys))"

definition delay_process :: "'a delay_line \<Rightarrow> 'a list \<Rightarrow> nat \<Rightarrow> 'a delay_line \<times> 'a list" where
  "delay_process d io frames =
     (if dl_buffer d = [] then (d, io)
      else (let n = frames * dl_channels d in
        case delay_samples (dl_buffer d, dl_pos d) (take n io) of
          ((buf, pos), out) \<Rightarrow> (d\<lparr>dl_buffer := buf, dl_pos := pos\<rparr>, out @ drop n io)))"

definition delay_reset :: "'a :: zero delay_line \<Rightarrow> 'a delay_line" where
  "delay_reset d = d\<lparr>dl_buffer := map (\<lambda>_. 0) (dl_buffer d), dl_pos := 0\<rparr>"

section \<open>The engine\<close>

record dsp_engine =
  ds_bypass :: bool
  ds_invert :: bool
  ds_in_gain :: gain_control
  ds_xo :: crossover
  ds_eq :: equalizer
  ds_comp :: dynamics
  ds_lim :: dynamics
  ds_delay :: "real delay_line"
  ds_out_gain :: gain_control

definition invert_sample :: "i16 \<Rightarrow> i16" where
  "invert_sample s = (if sint s = - 32768 then 32767 else - s)"

definition to_float :: "i16 \<Rightarrow> real" where
  "to_float s = of_int (sint s) / 32768"

definition from_float :: "real \<Rightarrow> i16" where
  "from_float x = of_int (trunc (clamp_real x (-1) 1 * 32767))"

definition chain :: "dsp_engine \<Rightarrow> real list \<Rightarrow> nat \<Rightarrow> nat \<Rightarrow> dsp_engine \<times> real list" where
  "chain d b0 frames ch =
     (let (g1, b1) = gain_process (ds_in_gain d) b0 frames ch;
          (xo, b2) = xo_process (ds_xo d) b1 frames ch;
          (eq, b3) = eq_process (ds_eq d) b2 frames;
          (co, b4) = compressor_process (ds_comp d) b3 frames ch;
          (li, b5) = limiter_process (ds_lim d) b4 frames ch;
          (de, b6) = delay_process (ds_delay d) b5 frames;
          (g2, b7) = gain_process (ds_out_gain d) b6 frames ch
      in (d\<lparr>ds_in_gain := g1, ds_xo := xo, ds_eq := eq, ds_comp := co, ds_lim := li, ds_delay := de, ds_out_gain := g2\<rparr>, b7))"

definition processInt16 :: "dsp_engine \<Rightarrow> i16 list \<Rightarrow> nat \<Rightarrow> nat \<Rightarrow> dsp_engine \<times> i16 list" where
  "processInt16 d io frames ch =
     (let n = frames * ch;
          io1 = (if ds_invert d then map invert_sample (take n io) @ drop n io else io)
      in if ds_bypass d then (d, io1)
         else (case chain d (map to_float (take n io1)) frames ch of
                 (d', out) \<Rightarrow> (d', map from_float (take n out) @ drop n io1)))"

definition setLimiter :: "bool \<Rightarrow> real \<Rightarrow> dsp_engine \<Rightarrow> dsp_engine" where
  "setLimiter on db d = d\<lparr>ds_lim := (ds_lim d)\<lparr>dy_enabled := on, dy_threshold := db_linear db\<rparr>\<rparr>"

definition setCompressor :: "bool \<Rightarrow> real \<Rightarrow> real \<Rightarrow> dsp_engine \<Rightarrow> dsp_engine" where
  "setCompressor on db ratio d = d\<lparr>ds_comp := (ds_comp d)\<lparr>dy_enabled := on, dy_threshold := db, dy_ratio := max 1 ratio\<rparr>\<rparr>"

definition setCrossover :: "bool \<Rightarrow> bool \<Rightarrow> real \<Rightarrow> bool \<Rightarrow> real \<Rightarrow> dsp_engine \<Rightarrow> dsp_engine" where
  "setCrossover on hp hp_fc lp lp_fc d =
     d\<lparr>ds_xo := setLowPass lp lp_fc (setHighPass hp hp_fc ((ds_xo d)\<lparr>xo_enabled := on\<rparr>))\<rparr>"

definition dsp_setDelayMs :: "real \<Rightarrow> dsp_engine \<Rightarrow> dsp_engine" where
  "dsp_setDelayMs ms d = d\<lparr>ds_delay := setDelayMs ms (ds_delay d)\<rparr>"

definition setInputGainDb :: "real \<Rightarrow> dsp_engine \<Rightarrow> dsp_engine" where
  "setInputGainDb db d = d\<lparr>ds_in_gain := setGainDb db (ds_in_gain d)\<rparr>"

definition setOutputGainDb :: "real \<Rightarrow> dsp_engine \<Rightarrow> dsp_engine" where
  "setOutputGainDb db d = d\<lparr>ds_out_gain := setGainDb db (ds_out_gain d)\<rparr>"

definition setEqGains :: "real list \<Rightarrow> dsp_engine \<Rightarrow> dsp_engine" where
  "setEqGains gs d = d\<lparr>ds_eq := eq_setGains gs (ds_eq d)\<rparr>"

definition xo_new :: "real \<Rightarrow> nat \<Rightarrow> crossover" where
  "xo_new fs ch = xo_configure fs ch \<lparr>xo_fs = 48000, xo_channels = 2, xo_enabled = False, xo_hp_on = False, xo_lp_on = False,
     xo_hp_fc = 80, xo_lp_fc = 18000, xo_hp = normalized 1 0 0 1 0 0, xo_lp = normalized 1 0 0 1 0 0, xo_state = []\<rparr>"

definition dsp_new :: "real \<Rightarrow> nat \<Rightarrow> dsp_engine" where
  "dsp_new fs ch = \<lparr>ds_bypass = False, ds_invert = False, ds_in_gain = gain_new, ds_xo = xo_new fs ch, ds_eq = eq_new fs (int ch),
     ds_comp = compressor_new fs, ds_lim = limiter_new fs, ds_delay = delay_new fs ch, ds_out_gain = gain_new\<rparr>"

definition dsp_configure :: "real \<Rightarrow> nat \<Rightarrow> dsp_engine \<Rightarrow> dsp_engine" where
  "dsp_configure fs ch d =
     d\<lparr>ds_xo := xo_configure fs ch (ds_xo d), ds_eq := eq_setChannels (int ch) (eq_setSampleRate fs (ds_eq d)),
       ds_comp := (ds_comp d)\<lparr>dy_fs := fs, dy_attack := smoothing 10 fs, dy_release := smoothing 100 fs\<rparr>,
       ds_lim := (ds_lim d)\<lparr>dy_fs := fs, dy_attack := smoothing 1 fs, dy_release := smoothing 50 fs\<rparr>,
       ds_delay := delay_configure fs ch (ds_delay d)\<rparr>"

definition dsp_reset :: "dsp_engine \<Rightarrow> dsp_engine" where
  "dsp_reset d =
     d\<lparr>ds_in_gain := gain_reset (ds_in_gain d), ds_xo := xo_reset (ds_xo d), ds_eq := eq_reset (ds_eq d),
       ds_comp := (ds_comp d)\<lparr>dy_gain := 1\<rparr>, ds_lim := (ds_lim d)\<lparr>dy_gain := 1\<rparr>,
       ds_delay := delay_reset (ds_delay d), ds_out_gain := gain_reset (ds_out_gain d)\<rparr>"

section \<open>The delay line is a shift\<close>

lemma ring_step:
  assumes "pos < length buf"
  shows "rotate pos buf = buf ! pos # tl (rotate pos buf)"
    "rotate ((pos + 1) mod length buf) (buf[pos := x]) = tl (rotate pos buf) @ [x]"
proof -
  have r: "rotate pos buf = buf ! pos # drop (Suc pos) buf @ take pos buf"
    using assms by (simp add: rotate_drop_take Cons_nth_drop_Suc)
  then show "rotate pos buf = buf ! pos # tl (rotate pos buf)" by simp
  have tl: "tl (rotate pos buf) = drop (Suc pos) buf @ take pos buf" unfolding r by simp
  show "rotate ((pos + 1) mod length buf) (buf[pos := x]) = tl (rotate pos buf) @ [x]"
  proof (cases "Suc pos = length buf")
    case True
    then show ?thesis unfolding tl using assms by (simp add: upd_conv_take_nth_drop)
  next
    case False
    then have "Suc pos < length buf" using assms by simp
    then show ?thesis unfolding tl by (simp add: rotate_drop_take take_Suc_conv_app_nth)
  qed
qed

lemma delay_samples_spec:
  "pos < length buf \<Longrightarrow> delay_samples (buf, pos) xs = ((buf', pos'), ys) \<Longrightarrow>
     length buf' = length buf \<and> pos' < length buf \<and> ys = take (length xs) (rotate pos buf @ xs)
     \<and> rotate pos' buf' = drop (length xs) (rotate pos buf @ xs)"
proof (induction xs arbitrary: buf pos ys)
  case (Cons x xs)
  let ?b = "buf[pos := x]" and ?p = "(pos + 1) mod length buf"
  obtain zs where r: "delay_samples (?b, ?p) xs = ((buf', pos'), zs)" and ys: "ys = buf ! pos # zs"
    using Cons.prems(2) by (auto split: prod.splits)
  have "0 < length buf" using Cons.prems(1) by linarith
  then have "?p < length ?b" by simp
  note ih = Cons.IH [OF this r]
  note st = ring_step(1) [OF Cons.prems(1)] ring_step(2) [OF Cons.prems(1), where x = x]
  show ?case using ih ys st by (metis Cons_eq_appendI append.assoc append_Nil drop_Suc_Cons length_Cons length_list_update take_Suc_Cons)
qed simp

lemma take_split: "i \<le> length q \<Longrightarrow> take i q @ take n (drop i q @ c) = take (i + n) (q @ c)"
  by (simp add: take_add) (simp add: add.commute)

fun delay_run :: "'a delay_line \<Rightarrow> 'a list list \<Rightarrow> 'a list" where
  "delay_run d [] = []"
| "delay_run d (io # ios) = (case delay_process d io (length io div dl_channels d) of (d', out) \<Rightarrow> out @ delay_run d' ios)"

lemma delay_run_spec:
  assumes "dl_buffer d \<noteq> [] \<Longrightarrow> dl_pos d < length (dl_buffer d)" "list_all (\<lambda>io. dl_channels d dvd length io) ios"
  shows "delay_run d ios = take (length (concat ios)) (rotate (dl_pos d) (dl_buffer d) @ concat ios)"
  using assms
proof (induction ios arbitrary: d)
  case (Cons io ios)
  let ?n = "length io div dl_channels d"
  have n: "?n * dl_channels d = length io" using Cons.prems(2) by simp
  show ?case
  proof (cases "dl_buffer d = []")
    case True
    then have "delay_process d io ?n = (d, io)" by (simp add: delay_process_def)
    then show ?thesis using Cons.IH [of d] Cons.prems True by simp
  next
    case False
    obtain buf pos out where r: "delay_samples (dl_buffer d, dl_pos d) io = ((buf, pos), out)" by (metis surj_pair)
    note s = delay_samples_spec [OF Cons.prems(1) [OF False] r]
    let ?d = "d\<lparr>dl_buffer := buf, dl_pos := pos\<rparr>" and ?q = "rotate (dl_pos d) (dl_buffer d)"
    have p: "delay_process d io ?n = (?d, out)" using False n r by (simp add: delay_process_def Let_def)
    have "delay_run ?d ios = take (length (concat ios)) (drop (length io) (?q @ io) @ concat ios)"
      using Cons.IH [of ?d] Cons.prems(2) s by simp
    then have "delay_run d (io # ios) = take (length io) (?q @ io) @ take (length (concat ios)) (drop (length io) (?q @ io) @ concat ios)"
      using p s by simp
    also have "\<dots> = take (length io + length (concat ios)) ((?q @ io) @ concat ios)"
      by (rule take_split) simp
    finally show ?thesis by simp
  qed
qed simp

text \<open>The delay line is an exact shift: after a delay has been set, however the stream is cut into blocks of
  whole frames, the output of the blocks put together is the input put together, preceded by one zero for
  every sample of delay, truncated to the length of the input.\<close>

theorem delay_line_is_a_shift:
  assumes "list_all (\<lambda>io. dl_channels d dvd length io) ios"
  shows "delay_run (setDelayMs ms d) ios =
    take (length (concat ios)) (replicate (nat \<lfloor>(max 0 ms / 1000) * dl_fs d\<rfloor> * dl_channels d) 0 @ concat ios)"
proof -
  let ?d = "setDelayMs ms d"
  have b: "dl_buffer ?d = replicate (nat \<lfloor>(max 0 ms / 1000) * dl_fs d\<rfloor> * dl_channels d) 0" "dl_pos ?d = 0" "dl_channels ?d = dl_channels d"
    by (simp_all add: setDelayMs_def Let_def max_def)
  show ?thesis using delay_run_spec [of ?d ios] assms by (simp add: b)
qed

theorem delay_line_is_a_shift_witness:
  "delay_run (setDelayMs 1 (delay_new 2000 1 :: int delay_line)) [[1, 2, 3], [4]] = [0, 0, 1, 2]"
proof -
  have f: "\<lfloor>max 0 1 / 1000 * (2000 :: real)\<rfloor> = 2" by (rule floor_unique) simp_all
  have d: "dl_channels (delay_new 2000 1 :: int delay_line) = 1" "dl_fs (delay_new 2000 1 :: int delay_line) = 2000"
    by (simp_all add: delay_new_def delay_configure_def setDelayMs_def Let_def)
  show ?thesis
    by (subst delay_line_is_a_shift) (simp_all add: d [unfolded One_nat_def] del: delay_run.simps)
qed

section \<open>Samples at the ends of the chain\<close>

lemma invert_sample_sint: "sint (invert_sample s) = (if sint s = - 32768 then 32767 else - sint s)"
proof (cases "sint s = - 32768")
  case False
  have b: "- 32768 \<le> sint s" "sint s < 32768" using sint_ge [of s] sint_lt [of s] by simp_all
  have "- s = of_int (- sint s)" by simp
  then have "sint (- s) = - sint s" using sint_of_int_range [of "- sint s"] b False by simp
  then show ?thesis using False by (simp add: invert_sample_def)
qed (simp add: invert_sample_def)

lemma from_float_sint: "sint (from_float x) = trunc (clamp_real x (-1) 1 * 32767)" "\<bar>sint (from_float x)\<bar> \<le> 32767"
proof -
  have c: "- 1 \<le> clamp_real x (-1) 1" "clamp_real x (-1) 1 \<le> 1" by (simp_all add: clamp_real_def)
  then have b: "- 32767 \<le> trunc (clamp_real x (-1) 1 * 32767)" "trunc (clamp_real x (-1) 1 * 32767) \<le> 32767"
    using trunc_between [of "- 32767" "clamp_real x (-1) 1 * 32767" 32767] by auto
  then show "sint (from_float x) = trunc (clamp_real x (-1) 1 * 32767)" unfolding from_float_def by (intro sint_of_int_range) auto
  then show "\<bar>sint (from_float x)\<bar> \<le> 32767" using b by linarith
qed

lemma concat_frames_of: "frames * ch \<le> length io \<Longrightarrow> concat (frames_of ch frames io) = take (frames * ch) io"
proof (induction frames arbitrary: io)
  case (Suc k)
  then have "concat (frames_of ch k (drop ch io)) = take (k * ch) (drop ch io)" by simp
  then show ?case by (simp add: take_add)
qed simp

section \<open>Filters\<close>

text \<open>A filter is stable when the poles of its transfer function lie inside the unit circle.\<close>

definition stable :: "coeffs \<Rightarrow> bool" where
  "stable c \<longleftrightarrow> (\<forall>z :: complex. z\<^sup>2 + complex_of_real (bq_a1 c) * z + complex_of_real (bq_a2 c) = 0 \<longrightarrow> cmod z < 1)"

lemma real_root_inside:
  fixes x :: real
  assumes "x\<^sup>2 + a1 * x + a2 = 0" "\<bar>a2\<bar> < 1" "\<bar>a1\<bar> < 1 + a2"
  shows "\<bar>x\<bar> < 1"
proof (rule ccontr)
  assume "\<not> \<bar>x\<bar> < 1"
  then consider "1 \<le> x" | "x \<le> - 1" by linarith
  then show False
  proof cases
    case 1
    have "0 \<le> (x - 1) * (x - a2)" using 1 assms(2) by (intro mult_nonneg_nonneg) linarith+
    moreover have "- (1 + a2) * x < a1 * x" using 1 assms(3) by (intro mult_strict_right_mono) linarith+
    ultimately show False using assms(1) by (simp add: power2_eq_square algebra_simps)
  next
    case 2
    have "0 \<le> (x + 1) * (x + a2)" using 2 assms(2) by (intro mult_nonpos_nonpos) linarith+
    moreover have "(1 + a2) * x < a1 * x" using 2 assms(3) by (intro mult_strict_right_mono_neg) linarith+
    ultimately show False using assms(1) by (simp add: power2_eq_square algebra_simps)
  qed
qed

lemma stableI:
  assumes "\<bar>bq_a2 c\<bar> < 1" "\<bar>bq_a1 c\<bar> < 1 + bq_a2 c"
  shows "stable c"
  unfolding stable_def
proof (intro allI impI)
  fix z :: complex
  define x y where "x = Re z" and "y = Im z"
  assume r: "z\<^sup>2 + complex_of_real (bq_a1 c) * z + complex_of_real (bq_a2 c) = 0"
  have re: "x * x - y * y + bq_a1 c * x + bq_a2 c = 0"
    using arg_cong [OF r, of Re] by (simp add: x_def y_def power2_eq_square)
  have im: "y * (2 * x + bq_a1 c) = 0"
    using arg_cong [OF r, of Im] by (simp add: x_def y_def power2_eq_square algebra_simps)
  show "cmod z < 1"
  proof (cases "y = 0")
    case True
    then have "\<bar>x\<bar> < 1" using re assms by (intro real_root_inside [of x "bq_a1 c" "bq_a2 c"]) (simp_all add: power2_eq_square)
    then show ?thesis using True by (simp add: cmod_def x_def y_def)
  next
    case False
    then have "bq_a1 c = - 2 * x" using im by simp
    then have "x\<^sup>2 + y\<^sup>2 = bq_a2 c" using re by (simp add: power2_eq_square)
    then show ?thesis using assms(1) by (simp add: cmod_def x_def y_def)
  qed
qed

lemma pole_bounds:
  assumes "0 < k" "\<bar>co\<bar> < (1 :: real)"
  shows "\<bar>(1 - k) / (1 + k)\<bar> < 1" "\<bar>(- 2 * co) / (1 + k)\<bar> < 1 + (1 - k) / (1 + k)"
proof -
  have k: "0 < 1 + k" using assms by simp
  show "\<bar>(1 - k) / (1 + k)\<bar> < 1" using assms k by (simp add: abs_less_iff field_simps)
  have "1 + (1 - k) / (1 + k) = 2 / (1 + k)" using k by (simp add: field_simps)
  moreover have "\<bar>(- 2 * co) / (1 + k)\<bar> = 2 * \<bar>co\<bar> / (1 + k)" using k by (simp add: abs_mult)
  ultimately show "\<bar>(- 2 * co) / (1 + k)\<bar> < 1 + (1 - k) / (1 + k)"
    using assms(2) k by (simp add: divide_strict_right_mono)
qed

lemma omega_range:
  assumes "0 < fc" "2 * fc < fs"
  shows "0 < sin (omega fc fs)" "\<bar>cos (omega fc fs)\<bar> < 1"
proof -
  have "fc / fs < 1 / 2" using assms by (simp add: field_simps)
  then have "2 * pi * (fc / fs) < 2 * pi * (1 / 2)" by (intro mult_strict_left_mono) simp_all
  then have w: "0 < omega fc fs" "omega fc fs < pi" using assms by (simp_all add: omega_def)
  then show s: "0 < sin (omega fc fs)" by (rule sin_gt_zero)
  have "(cos (omega fc fs))\<^sup>2 = 1 - (sin (omega fc fs))\<^sup>2" by (simp add: cos_squared_eq)
  also have "\<dots> < 1" using s by simp
  finally show "\<bar>cos (omega fc fs)\<bar> < 1" by (simp add: abs_square_less_1)
qed

lemma peakingEq_stable: "0 < fc \<Longrightarrow> 2 * fc < fs \<Longrightarrow> 0 < q \<Longrightarrow> stable (peakingEq fc g q fs)"
  using pole_bounds [of "sin (omega fc fs) / (2 * q) / 10 powr (g / 40)" "cos (omega fc fs)"] omega_range [of fc fs]
  by (intro stableI) (simp_all add: peakingEq_def normalized_def Let_def)

lemma butterworth_stable:
  assumes "0 < fc" "2 * fc < fs"
  shows "stable (butterworthHP2 fc fs)" "stable (butterworthLP2 fc fs)"
  using pole_bounds [of "sin (omega fc fs) / (2 * half_sqrt2)" "cos (omega fc fs)"] omega_range [OF assms]
  by (auto intro!: stableI simp: butterworthHP2_def butterworthLP2_def normalized_def Let_def half_sqrt2_def)

text \<open>The response of a peaking filter at its centre.\<close>

definition mag2 :: "real \<Rightarrow> real \<Rightarrow> real \<Rightarrow> real \<Rightarrow> real" where
  "mag2 b0 b1 b2 w = (b0 + b1 * cos w + b2 * cos (2 * w))\<^sup>2 + (b1 * sin w + b2 * sin (2 * w))\<^sup>2"

lemma mag2_scale: "mag2 (x / a) (y / a) (z / a) w = mag2 x y z w / a\<^sup>2"
proof -
  have e: "x / a + y / a * cos w + z / a * cos (2 * w) = (x + y * cos w + z * cos (2 * w)) / a"
    "y / a * sin w + z / a * sin (2 * w) = (y * sin w + z * sin (2 * w)) / a"
    by (simp_all add: add_divide_distrib)
  show ?thesis unfolding mag2_def e power_divide by (rule add_divide_distrib [symmetric])
qed

lemma magnitudeDb_mag2:
  "magnitudeDb c f fs = 20 * log 10 (sqrt (mag2 (bq_b0 c) (bq_b1 c) (bq_b2 c) (omega f fs)) / sqrt (mag2 1 (bq_a1 c) (bq_a2 c) (omega f fs)) + 1 / 10 ^ 20)"
  by (simp add: magnitudeDb_def mag2_def Let_def power2_eq_square algebra_simps)

lemma mag2_peak: "mag2 (1 + p) (- 2 * cos w) (1 - p) w = (2 * p * sin w)\<^sup>2"
proof -
  have c2: "cos (2 * w) = 2 * (cos w * cos w) - 1" by (simp add: cos_double_cos power2_eq_square)
  have s2: "sin (2 * w) = 2 * sin w * cos w" by (rule sin_double)
  have one: "sin w * sin w = 1 - cos w * cos w" using sin_squared_eq [of w] by (simp add: power2_eq_square)
  have "(1 + p) + - 2 * cos w * cos w + (1 - p) * cos (2 * w) = 2 * p * (sin w * sin w)"
    unfolding c2 one by (simp add: algebra_simps)
  moreover have "- 2 * cos w * sin w + (1 - p) * sin (2 * w) = - (2 * p * (sin w * cos w))"
    unfolding s2 by (simp add: algebra_simps)
  ultimately have "mag2 (1 + p) (- 2 * cos w) (1 - p) w = (2 * p * (sin w * sin w))\<^sup>2 + (2 * p * (sin w * cos w))\<^sup>2"
    by (simp add: mag2_def)
  also have "\<dots> = (2 * p * sin w)\<^sup>2 * ((sin w)\<^sup>2 + (cos w)\<^sup>2)" by (simp only: power_mult_distrib ring_distribs)
  finally show ?thesis by simp
qed

lemma peakingEq_centre:
  assumes "0 < fc" "2 * fc < fs" "0 < q"
  shows "magnitudeDb (peakingEq fc g q fs) fc fs = 20 * log 10 (db_linear g + 1 / 10 ^ 20)"
proof -
  define w where "w = omega fc fs"
  define A where "A = (10 :: real) powr (g / 40)"
  define al where "al = sin w / (2 * q)"
  define a0 where "a0 = 1 + al / A"
  have s: "0 < sin w" using omega_range [OF assms(1,2)] by (simp add: w_def)
  have pos: "0 < A" "0 < al" "0 < a0" using s assms(3) by (simp_all add: A_def al_def a0_def add_pos_pos)
  have c: "peakingEq fc g q fs = normalized (1 + al * A) (- 2 * cos w) (1 - al * A) a0 (- 2 * cos w) (1 - al / A)"
    by (simp add: peakingEq_def Let_def w_def A_def al_def a0_def)
  have "mag2 1 (- 2 * cos w / a0) ((1 - al / A) / a0) w = mag2 (a0 / a0) (- 2 * cos w / a0) ((1 - al / A) / a0) w"
    using pos by simp
  also have "\<dots> = (2 * (al / A) * sin w)\<^sup>2 / a0\<^sup>2" unfolding mag2_scale unfolding a0_def mag2_peak ..
  finally have den: "sqrt (mag2 1 (- 2 * cos w / a0) ((1 - al / A) / a0) w) = 2 * (al / A) * sin w / a0"
    using pos s by (simp add: real_sqrt_divide)
  have num: "sqrt (mag2 ((1 + al * A) / a0) (- 2 * cos w / a0) ((1 - al * A) / a0) w) = 2 * (al * A) * sin w / a0"
    unfolding mag2_scale mag2_peak using pos s by (simp add: real_sqrt_divide)
  have "2 * (al * A) * sin w / a0 / (2 * (al / A) * sin w / a0) = A * A" using pos s by (simp add: field_simps)
  also have "A * A = db_linear g" by (simp add: A_def db_linear_def flip: powr_add)
  finally show ?thesis by (simp add: magnitudeDb_mag2 c normalized_def num [simplified] den [simplified] flip: w_def) 
qed

text \<open>Every band of the equalizer is a stable filter with exactly its gain at its centre: after
  \<open>setGains\<close> with any gains, at any sampling rate above 40 kHz, the poles of each of the 32 filters lie inside the
  unit circle, and its response at its centre frequency is the requested gain clamped to 10 dB either
  way (up to the \<open>1e-20\<close> that \<open>magnitudeDb\<close> adds inside the logarithm).\<close>

theorem equalizer_bands_exact:
  assumes "40000 < eq_fs e" "i < kEqBands"
  shows "stable (eq_coeffs (eq_setGains gs e) ! i) \<and>
    magnitudeDb (eq_coeffs (eq_setGains gs e) ! i) (kBandFreqs ! i) (eq_fs e)
      = 20 * log 10 (db_linear (clamp_real (gs ! i) (-10) 10) + 1 / 10 ^ 20)"
proof -
  have "list_all (\<lambda>f. 0 < f \<and> f \<le> 20000) kBandFreqs" by (simp add: kBandFreqs_def)
  moreover have "i < length kBandFreqs" using assms(2) by (simp add: kBandFreqs_def kEqBands_def)
  ultimately have f: "0 < kBandFreqs ! i" "2 * kBandFreqs ! i < eq_fs e"
    using assms(1) by (auto simp: list_all_length)
  have c: "eq_coeffs (eq_setGains gs e) ! i = peakingEq (kBandFreqs ! i) (clamp_real (gs ! i) (-10) 10) kBandQ (eq_fs e)"
    using assms(2) by (simp add: eq_setGains_def eq_rebuild_def)
  show ?thesis unfolding c using peakingEq_stable [OF f, of kBandQ] peakingEq_centre [OF f, of kBandQ] by (simp add: kBandQ_def)
qed

theorem equalizer_bands_exact_witness:
  "stable (eq_coeffs (eq_setGains (replicate 32 15) (eq_new 48000 2)) ! 31)"
  using equalizer_bands_exact [of "eq_new 48000 2" 31 "replicate 32 15"]
  by (simp add: kEqBands_def eq_new_def eq_rebuild_def eq_setChannels_def Let_def)

section \<open>The limiter\<close>

definition dynamics_ok :: "dynamics \<Rightarrow> bool" where
  "dynamics_ok d \<longleftrightarrow> 0 \<le> dy_attack d \<and> dy_attack d \<le> 1 \<and> 0 \<le> dy_release d \<and> dy_release d \<le> 1 \<and> 0 < dy_gain d \<and> dy_gain d \<le> 1
     \<and> 0 < dy_threshold d"

lemma smoothing_range: "0 < fs \<Longrightarrow> 0 < smoothing ms fs \<and> smoothing ms fs < 1"
  by (simp add: smoothing_def)

lemma limiter_new_ok: "0 < fs \<Longrightarrow> dynamics_ok (limiter_new fs)"
  using smoothing_range [of fs] by (simp add: dynamics_ok_def limiter_new_def db_linear_def less_imp_le)

lemma peak_of_bounds: "\<forall>v\<in>set x. \<bar>v\<bar> \<le> peak_of x" "0 \<le> peak_of x"
proof -
  have "p \<le> foldl (\<lambda>p v. max p \<bar>v\<bar>) p x \<and> (\<forall>v\<in>set x. \<bar>v\<bar> \<le> foldl (\<lambda>p v. max p \<bar>v\<bar>) p x)" for p :: real
  proof (induction x arbitrary: p)
    case (Cons v x)
    have "max p \<bar>v\<bar> \<le> foldl (\<lambda>p v. max p \<bar>v\<bar>) (max p \<bar>v\<bar>) x" using Cons [of "max p \<bar>v\<bar>"] by blast
    then show ?case using Cons [of "max p \<bar>v\<bar>"] by auto
  qed simp
  from this [of 0] show "\<forall>v\<in>set x. \<bar>v\<bar> \<le> peak_of x" "0 \<le> peak_of x" by (simp_all add: peak_of_def)
qed

lemma limiter_target_range: "0 < dy_threshold d \<Longrightarrow> 0 < limiter_target d x \<and> limiter_target d x \<le> 1"
  using peak_of_bounds(2) [of x] by (auto simp: limiter_target_def Let_def divide_le_eq_1 add_nonneg_pos intro!: divide_pos_pos)

lemma follow_range:
  assumes "dynamics_ok d" "0 < w" "w \<le> 1"
  shows "0 < follow d w \<and> follow d w \<le> 1"
proof -
  define c where "c = (if w < dy_gain d then dy_attack d else dy_release d)"
  have c: "0 \<le> c" "c \<le> 1" using assms(1) by (simp_all add: c_def dynamics_ok_def)
  have f: "follow d w = (1 - c) * dy_gain d + c * w" by (simp add: follow_def c_def algebra_simps)
  have g: "0 < dy_gain d" "dy_gain d \<le> 1" using assms(1) by (simp_all add: dynamics_ok_def)
  have "0 < (1 - c) * dy_gain d + c * w"
  proof (cases "c = 1")
    case False
    then have "0 < (1 - c) * dy_gain d" using c g by simp
    then show ?thesis using c assms(2) by (simp add: add_pos_nonneg)
  qed (use assms in simp)
  moreover have "(1 - c) * dy_gain d + c * w \<le> (1 - c) * 1 + c * 1"
    using c g assms by (intro add_mono mult_left_mono) simp_all
  ultimately show ?thesis by (simp add: f)
qed

lemma limiter_frame_ok:
  assumes "dynamics_ok d" "limiter_frame d x = (d', y)"
  shows "dynamics_ok d'" "list_all2 (\<lambda>v w. \<bar>w\<bar> \<le> \<bar>v\<bar>) x y"
proof -
  let ?g = "follow d (limiter_target d x)"
  have g: "0 < ?g" "?g \<le> 1" using follow_range [OF assms(1)] limiter_target_range [of d x] assms(1) by (auto simp: dynamics_ok_def)
  show "dynamics_ok d'" using assms g by (auto simp: limiter_frame_def Let_def dynamics_ok_def)
  have "\<bar>v * ?g\<bar> \<le> \<bar>v\<bar>" for v using g by (simp add: abs_mult mult_left_le)
  then show "list_all2 (\<lambda>v w. \<bar>w\<bar> \<le> \<bar>v\<bar>) x y" using assms(2) by (auto simp: limiter_frame_def Let_def list_all2_conv_all_nth)
qed

lemma limiter_run_ok:
  "dynamics_ok d \<Longrightarrow> run_frames limiter_frame d xs = (d', ys) \<Longrightarrow> dynamics_ok d' \<and> list_all2 (\<lambda>v w. \<bar>w\<bar> \<le> \<bar>v\<bar>) (concat xs) ys"
proof (induction xs arbitrary: d ys)
  case (Cons x xs)
  obtain d1 y where 1: "limiter_frame d x = (d1, y)" by (cases "limiter_frame d x")
  obtain zs where 2: "run_frames limiter_frame d1 xs = (d', zs)" "ys = y @ zs" using Cons.prems(2) 1 by (auto split: prod.splits)
  show ?case using limiter_frame_ok [OF Cons.prems(1) 1] Cons.IH [OF _ 2(1)] 2(2) by (simp add: list_all2_appendI)
qed simp

text \<open>The limiter never amplifies: with any threshold in decibels and from any state it can reach, each output
  sample is at most as large as the input sample at its place, and its gain stays positive and at most one.\<close>

theorem limiter_never_amplifies:
  assumes "dynamics_ok d" "frames * ch \<le> length io" "limiter_process d io frames ch = (d', out)"
  shows "dynamics_ok d' \<and> list_all2 (\<lambda>v w. \<bar>w\<bar> \<le> \<bar>v\<bar>) io out"
proof (cases "dy_enabled d")
  case True
  obtain ys where r: "run_frames limiter_frame d (frames_of ch frames io) = (d', ys)" and o: "out = ys @ drop (frames * ch) io"
    using assms(3) True by (auto simp: limiter_process_def on_frames_def split: prod.splits)
  have "list_all2 (\<lambda>v w. \<bar>w\<bar> \<le> \<bar>v\<bar>) (drop (frames * ch) io) (drop (frames * ch) io)" by (simp add: list_all2_conv_all_nth)
  with limiter_run_ok [OF assms(1) r] have "list_all2 (\<lambda>v w. \<bar>w\<bar> \<le> \<bar>v\<bar>) (take (frames * ch) io @ drop (frames * ch) io) out"
    unfolding o concat_frames_of [OF assms(2)] by (intro list_all2_appendI) auto
  with limiter_run_ok [OF assms(1) r] show ?thesis by simp
qed (use assms in \<open>auto simp: limiter_process_def list_all2_conv_all_nth\<close>)

theorem limiter_never_amplifies_witness:
  "list_all2 (\<lambda>v w. \<bar>w\<bar> \<le> \<bar>v\<bar>) [1, - 1] (snd (limiter_process (limiter_new 48000) [1, - 1] 1 2))"
  using limiter_never_amplifies [OF limiter_new_ok, of 48000 1 2 "[1, - 1]"] by (metis One_nat_def le_refl length_Cons list.size(3) mult_1 numeral_2_eq_2 prod.collapse zero_less_numeral)

text \<open>It does let peaks through: the first frame at full scale leaves the limiter above its threshold.\<close>

lemma threshold_small: "db_linear (- 1) < 47 / 48"
proof (rule ccontr)
  assume "\<not> db_linear (- 1) < 47 / 48"
  then have "(47 / 48) ^ 20 \<le> db_linear (- 1) ^ 20" by (intro power_mono) simp_all
  moreover have "db_linear (- 1) ^ 20 = 1 / 10"
  proof -
    have "db_linear (- 1) ^ 20 = db_linear (- 1) powr (real 20)" by (rule powr_realpow [symmetric]) (simp add: db_linear_def)
    also have "\<dots> = 10 powr (- 1)" by (simp add: db_linear_def powr_powr)
    finally show ?thesis by (simp add: powr_minus_divide)
  qed
  ultimately show False by (simp add: power_divide)
qed

lemma limiter_overshoots: "db_linear (- 1) < snd (limiter_process (limiter_new 48000) [1, 1] 1 2) ! 0"
proof -
  define th where "th = db_linear (- 1)"
  define a where "a = smoothing 1 48000"
  define w where "w = th / (1 + 1 / 10 ^ 9)"
  have th: "0 < th" "th < 47 / 48" using threshold_small by (simp_all add: th_def db_linear_def)
  have w: "0 < w" "w < 1" using th by (simp_all add: w_def)
  have a: "0 \<le> a" "a \<le> 1 / 48" using exp_ge_add_one_self [of "- 1 / 48"] by (simp_all add: a_def smoothing_def)
  have ww: "th * 1000000000 = w * 1000000001" by (simp add: w_def)
  have "snd (limiter_process (limiter_new 48000) [1, 1] 1 2) ! 0 = 1 + (w - 1) * a"
    using th w ww by (simp add: limiter_process_def limiter_new_def on_frames_def limiter_frame_def limiter_target_def peak_of_def
        follow_def Let_def numeral_2_eq_2 flip: th_def a_def w_def)
  moreover have "(1 - w) * a \<le> 1 * (1 / 48)" using w a by (intro mult_mono) simp_all
  ultimately show ?thesis using th by (simp add: algebra_simps flip: th_def)
qed

section \<open>The whole chain on 16-bit samples\<close>

lemma frames_of_length: "frames * ch \<le> length io \<Longrightarrow> x \<in> set (frames_of ch frames io) \<Longrightarrow> length x = ch"
proof (induction frames arbitrary: io)
  case (Suc k)
  then show ?case using Suc.IH [of "drop ch io"] by auto
qed simp

lemma on_frames_inv:
  assumes "\<And>s x. P s \<Longrightarrow> length x = ch \<Longrightarrow> P (fst (f s x)) \<and> length (snd (f s x)) = ch"
    and "P s" "frames * ch \<le> length io"
  shows "P (fst (on_frames f s io frames ch)) \<and> length (snd (on_frames f s io frames ch)) = length io"
proof -
  have "P (fst (run_frames f s xs)) \<and> length (snd (run_frames f s xs)) = length (concat xs)"
    if "\<And>x. x \<in> set xs \<Longrightarrow> length x = ch" "P s" for xs s
    using that
  proof (induction xs arbitrary: s)
    case (Cons x xs)
    have "P (fst (f s x)) \<and> length (snd (f s x)) = ch" using assms(1) Cons.prems by simp
    with Cons.IH [of "fst (f s x)"] Cons.prems show ?case by (auto simp: split_beta)
  qed simp
  from this [of "frames_of ch frames io" s] frames_of_length [OF assms(3)] assms(2) concat_frames_of [OF assms(3)]
  show ?thesis using assms(3) by (simp add: on_frames_def split_beta)
qed

definition dsp_ok :: "nat \<Rightarrow> dsp_engine \<Rightarrow> bool" where
  "dsp_ok ch d \<longleftrightarrow> eq_channels (ds_eq d) = ch \<and> length (eq_state (ds_eq d)) = ch \<and> length (xo_state (ds_xo d)) = ch
     \<and> dl_channels (ds_delay d) = ch \<and> (dl_buffer (ds_delay d) \<noteq> [] \<longrightarrow> dl_pos (ds_delay d) < length (dl_buffer (ds_delay d)))"

lemma dsp_new_ok: "1 \<le> ch \<Longrightarrow> dsp_ok ch (dsp_new fs ch)"
  by (simp add: dsp_ok_def dsp_new_def eq_new_def eq_rebuild_def eq_setChannels_def xo_new_def xo_configure_def xo_rebuild_def
      delay_new_def delay_configure_def setDelayMs_def Let_def)

lemma dsp_setters_ok:
  assumes "dsp_ok ch d"
  shows "dsp_ok ch (dsp_setDelayMs ms d)" "dsp_ok ch (setOutputGainDb db d)" "dsp_ok ch (setInputGainDb db d)"
    "dsp_ok ch (setEqGains gs d)" "dsp_ok ch (setLimiter on db d)" "dsp_ok ch (setCompressor on db ratio d)"
    "dsp_ok ch (setCrossover on hp hf lp lf d)" "dsp_ok ch (d\<lparr>ds_invert := b\<rparr>)" "dsp_ok ch (d\<lparr>ds_bypass := b\<rparr>)"
  using assms
  by (simp_all add: dsp_ok_def dsp_setDelayMs_def setDelayMs_def setOutputGainDb_def setInputGainDb_def setEqGains_def eq_setGains_def
      eq_rebuild_def setLimiter_def setCompressor_def setCrossover_def setLowPass_def setHighPass_def xo_rebuild_def Let_def)

lemma stage_lengths:
  assumes "frames * ch \<le> length io"
  shows "length (snd (gain_process g io frames ch)) = length io"
    "length (snd (compressor_process d io frames ch)) = length io" "length (snd (limiter_process d io frames ch)) = length io"
  using on_frames_inv [of "\<lambda>_. True" ch gain_frame g frames io] on_frames_inv [of "\<lambda>_. True" ch compressor_frame d frames io]
    on_frames_inv [of "\<lambda>_. True" ch limiter_frame d frames io] assms
  by (auto simp: gain_process_def compressor_process_def limiter_process_def gain_frame_def compressor_frame_def limiter_frame_def Let_def)

lemma eq_process_ok:
  assumes "eq_channels e = ch" "length (eq_state e) = ch" "frames * ch \<le> length io"
  shows "eq_channels (fst (eq_process e io frames)) = ch" "length (eq_state (fst (eq_process e io frames))) = ch"
    "length (snd (eq_process e io frames)) = length io"
  using on_frames_inv [of "\<lambda>st. length st = ch" ch "eq_frame (eq_coeffs e)" "eq_state e" frames io] assms
  by (simp_all add: eq_process_def eq_frame_def Let_def split_beta)

lemma xo_process_ok:
  assumes "length (xo_state x) = ch" "frames * ch \<le> length io"
  shows "length (xo_state (fst (xo_process x io frames ch))) = ch" "length (snd (xo_process x io frames ch)) = length io"
  using on_frames_inv [of "\<lambda>st. length st = ch" ch "\<lambda>st fr. let r = map2 (xo_sample x) st fr in (map fst r, map snd r)" "xo_state x" frames io] assms
  by (simp_all add: xo_process_def Let_def split_beta)

lemma delay_process_ok:
  assumes "dl_buffer d \<noteq> [] \<longrightarrow> dl_pos d < length (dl_buffer d)" "frames * dl_channels d \<le> length io"
  shows "length (snd (delay_process d io frames)) = length io" "dl_channels (fst (delay_process d io frames)) = dl_channels d"
    "dl_buffer (fst (delay_process d io frames)) \<noteq> [] \<longrightarrow> dl_pos (fst (delay_process d io frames)) < length (dl_buffer (fst (delay_process d io frames)))"
proof -
  let ?n = "frames * dl_channels d"
  obtain buf pos out where r: "delay_samples (dl_buffer d, dl_pos d) (take ?n io) = ((buf, pos), out)" by (metis surj_pair)
  have p: "delay_process d io frames = (if dl_buffer d = [] then (d, io) else (d\<lparr>dl_buffer := buf, dl_pos := pos\<rparr>, out @ drop ?n io))"
    by (simp add: delay_process_def Let_def r)
  note s = delay_samples_spec [OF _ r]
  show "length (snd (delay_process d io frames)) = length io" "dl_channels (fst (delay_process d io frames)) = dl_channels d"
    "dl_buffer (fst (delay_process d io frames)) \<noteq> [] \<longrightarrow> dl_pos (fst (delay_process d io frames)) < length (dl_buffer (fst (delay_process d io frames)))"
    using s assms by (auto simp: p)
qed

lemma chain_ok:
  assumes "dsp_ok ch d" "frames * ch \<le> length b"
  shows "dsp_ok ch (fst (chain d b frames ch)) \<and> length (snd (chain d b frames ch)) = length b"
  using assms
  by (simp add: chain_def dsp_ok_def Let_def split_beta stage_lengths xo_process_ok eq_process_ok delay_process_ok)

fun dsp_run :: "nat \<Rightarrow> dsp_engine \<Rightarrow> i16 list list \<Rightarrow> i16 list list" where
  "dsp_run ch d [] = []"
| "dsp_run ch d (io # ios) = (case processInt16 d io (length io div ch) ch of (d', out) \<Rightarrow> out # dsp_run ch d' ios)"

lemma processInt16_ok:
  assumes "dsp_ok ch d" "ch dvd length io"
  shows "dsp_ok ch (fst (processInt16 d io (length io div ch) ch))" "length (snd (processInt16 d io (length io div ch) ch)) = length io"
    "\<not> ds_bypass d \<Longrightarrow> list_all (\<lambda>s. \<bar>sint s\<bar> \<le> 32767) (snd (processInt16 d io (length io div ch) ch))"
    "ds_bypass (fst (processInt16 d io (length io div ch) ch)) = ds_bypass d"
proof -
  let ?io = "if ds_invert d then map invert_sample io else io"
  have n: "length io div ch * ch = length io" using assms(2) by simp
  have c: "dsp_ok ch (fst (chain d (map to_float ?io) (length io div ch) ch))" "length (snd (chain d (map to_float ?io) (length io div ch) ch)) = length io"
    using chain_ok [OF assms(1), of "length io div ch" "map to_float ?io"] n by simp_all
  have p: "processInt16 d io (length io div ch) ch = (if ds_bypass d then (d, ?io)
     else (fst (chain d (map to_float ?io) (length io div ch) ch), map from_float (snd (chain d (map to_float ?io) (length io div ch) ch))))"
    unfolding processInt16_def Let_def n using c by (auto simp: split_beta)
  show "dsp_ok ch (fst (processInt16 d io (length io div ch) ch))" "length (snd (processInt16 d io (length io div ch) ch)) = length io"
    using assms(1) c by (simp_all add: p)
  show "\<not> ds_bypass d \<Longrightarrow> list_all (\<lambda>s. \<bar>sint s\<bar> \<le> 32767) (snd (processInt16 d io (length io div ch) ch))"
    using from_float_sint(2) by (simp add: p list_all_iff)
  show "ds_bypass (fst (processInt16 d io (length io div ch) ch)) = ds_bypass d"
    by (simp add: p chain_def Let_def split_beta)
qed

text \<open>The chain keeps every block in shape: from any well-formed engine that is not bypassed (a new one is
  well-formed, and every setter keeps it so), processing any sequence of blocks of whole frames gives blocks
  of the same lengths, and no sample ever wraps: all lie between -32767 and 32767, whatever the filters computed.\<close>

theorem dsp_blocks_never_wrap:
  assumes "dsp_ok ch d" "\<not> ds_bypass d" "list_all (\<lambda>io. ch dvd length io) ios"
  shows "map length (dsp_run ch d ios) = map length ios \<and> list_all (list_all (\<lambda>s. \<bar>sint s\<bar> \<le> 32767)) (dsp_run ch d ios)"
  using assms
proof (induction ios arbitrary: d)
  case (Cons io ios)
  have "ch dvd length io" using Cons.prems(3) by simp
  note p = processInt16_ok [OF Cons.prems(1) this]
  with Cons.IH [OF p(1)] Cons.prems show ?case by (simp add: split_beta)
qed simp

theorem dsp_blocks_never_wrap_witness:
  "map length (dsp_run 2 (setOutputGainDb 12 (dsp_new 48000 2)) [[32767, - 32768], []]) = [2, 0]"
  using dsp_blocks_never_wrap [of 2 "setOutputGainDb 12 (dsp_new 48000 2)" "[[32767, - 32768], []]"]
    dsp_setters_ok(2) [OF dsp_new_ok, of 2] by (simp add: setOutputGainDb_def dsp_new_def del: dsp_run.simps)

text \<open>Polarity: every sample is negated, the most negative one becomes the largest.\<close>

lemma invert_sample_min: "sint (invert_sample s) = min 32767 (- sint s)"
  using sint_ge [of s] by (auto simp: invert_sample_sint)

end
