(* ===== verification/Fft.thy ===== *)
theory Fft
  imports Complex_Main Dsp
begin

unbundle bit_operations_syntax

text \<open>
  The Fourier transform of \<open>calibration/Fft.h\<close>: the iterative radix-2 algorithm with its
  bit-reversal loop and in-place butterflies, on lists of complex numbers, and the windowed magnitude spectrum
  built on it. The main theorem says that on every power of two the algorithm computes the
  discrete Fourier transform. The arithmetic is that of the complex numbers.
\<close>

section \<open>The algorithm\<close>

text \<open>\<open>for (; j & bit; bit >>= 1) j ^= bit; j ^= bit;\<close>\<close>

function rev_inc :: "nat \<Rightarrow> nat \<Rightarrow> nat" where
  "rev_inc j b = (if j AND b \<noteq> 0 then rev_inc (j XOR b) (b div 2) else j XOR b)"
  by auto
termination
proof (relation "measure snd")
  fix j b :: nat
  assume "j AND b \<noteq> 0"
  then have "b \<noteq> 0" by (metis and_zero_eq)
  then show "((j XOR b, b div 2), (j, b)) \<in> measure snd" by simp
qed simp

declare rev_inc.simps [simp del]

definition swap_at :: "nat \<Rightarrow> nat \<Rightarrow> 'a list \<Rightarrow> 'a list" where
  "swap_at i j a = a[i := a ! j, j := a ! i]"

definition bit_reverse :: "'a list \<Rightarrow> 'a list" where
  "bit_reverse a =
     (let n = length a in
      fst (foldl (\<lambda>(a, j) i. let j' = rev_inc j (n div 2) in (if i < j' then swap_at i j' a else a, j')) (a, 0) [1..<n]))"

definition butterfly :: "nat \<Rightarrow> nat \<Rightarrow> complex \<Rightarrow> complex list \<Rightarrow> complex list" where
  "butterfly p q w a = (let u = a ! p; v = a ! q * w in a[p := u + v, q := u - v])"

definition wlen :: "nat \<Rightarrow> complex" where
  "wlen len = (let ang = - 2 * pi / of_nat len in Complex (cos ang) (sin ang))"

definition fft_block :: "nat \<Rightarrow> complex list \<Rightarrow> nat \<Rightarrow> complex list" where
  "fft_block len a i =
     fst (foldl (\<lambda>(a, w) k. (butterfly (i + k) (i + k + len div 2) w a, w * wlen len)) (a, 1) [0..<len div 2])"

definition fft_stage :: "nat \<Rightarrow> complex list \<Rightarrow> complex list" where
  "fft_stage len a = foldl (fft_block len) a (map (\<lambda>b. b * len) [0..<(length a + len - 1) div len])"

function fft_stages :: "nat \<Rightarrow> complex list \<Rightarrow> complex list" where
  "fft_stages len a = (if 0 < len \<and> len \<le> length a then fft_stages (2 * len) (fft_stage len a) else a)"
  by auto

section \<open>The length does not change\<close>

lemma length_butterfly [simp]: "length (butterfly p q w a) = length a"
  by (simp add: butterfly_def Let_def)

lemma length_fold_butterfly [simp]:
  "length (fst (foldl (\<lambda>(a, w) k. (butterfly (i + k) (i + k + h) w a, w * z)) (a, w) ks)) = length a"
  by (induction ks arbitrary: a w) simp_all

lemma length_fft_block [simp]: "length (fft_block len a i) = length a"
  by (simp add: fft_block_def)

lemma length_fold_block [simp]: "length (foldl (fft_block len) a is) = length a"
  by (induction "is" arbitrary: a) simp_all

lemma length_fft_stage [simp]: "length (fft_stage len a) = length a"
  by (simp add: fft_stage_def)

termination fft_stages
  by (relation "measure (\<lambda>(len, a). length a + 1 - len)") auto

declare fft_stages.simps [simp del]

definition fftRadix2 :: "complex list \<Rightarrow> complex list" where
  "fftRadix2 a = (if length a \<le> 1 then a else fft_stages 2 (bit_reverse a))"

definition magnitudeSpectrum :: "real list \<Rightarrow> nat \<Rightarrow> real list" where
  "magnitudeSpectrum samples fft_size =
     (let m = min (length samples) fft_size;
          buf = map (\<lambda>i. if i < m
                  then complex_of_real (samples ! i * (1 / 2 - 1 / 2 * cos (2 * pi * of_nat i / of_nat (fft_size - 1)))) else 0)
                [0..<fft_size];
          spec = fftRadix2 buf
      in map (\<lambda>k. cmod (spec ! k)) [0..<fft_size div 2 + 1])"

section \<open>Bit reversal\<close>

fun brev :: "nat \<Rightarrow> nat \<Rightarrow> nat" where
  "brev 0 i = 0"
| "brev (Suc m) i = (i mod 2) * 2 ^ m + brev m (i div 2)"

lemma brev_less [simp]: "brev m i < 2 ^ m"
proof (induction m arbitrary: i)
  case (Suc m)
  consider "i mod 2 = 0" | "i mod 2 = 1" by linarith
  then show ?case using Suc [of "i div 2"] by cases simp_all
qed simp

lemma brev_0 [simp]: "brev m 0 = 0"
  by (induction m) simp_all

lemma brev_msb: "i < 2 ^ Suc m \<Longrightarrow> brev (Suc m) i = 2 * brev m (i mod 2 ^ m) + i div 2 ^ m"
proof (induction m arbitrary: i)
  case 0
  then have "i = 0 \<or> i = 1" by auto
  then show ?case by auto
next
  case (Suc m)
  have "brev (Suc (Suc m)) i = i mod 2 * 2 ^ Suc m + brev (Suc m) (i div 2)" by simp
  also have "brev (Suc m) (i div 2) = 2 * brev m (i div 2 mod 2 ^ m) + i div 2 div 2 ^ m"
    using Suc.prems by (intro Suc.IH) auto
  also have "i div 2 div 2 ^ m = i div 2 ^ Suc m" by (simp add: div_mult2_eq)
  also have "i div 2 mod 2 ^ m = i mod 2 ^ Suc m div 2" by (simp add: mod_mult2_eq)
  finally have "brev (Suc (Suc m)) i = 2 * (i mod 2 * 2 ^ m + brev m (i mod 2 ^ Suc m div 2)) + i div 2 ^ Suc m" by simp
  moreover have "i mod 2 ^ Suc m mod 2 = i mod 2" by (simp add: mod_mod_cancel)
  ultimately show ?case by simp
qed

lemma brev_brev: "i < 2 ^ m \<Longrightarrow> brev m (brev m i) = i"
proof (induction m arbitrary: i)
  case (Suc m)
  let ?j = "brev (Suc m) i"
  have "?j < 2 ^ Suc m" by (rule brev_less)
  then have "brev (Suc m) ?j = 2 * brev m (?j mod 2 ^ m) + ?j div 2 ^ m" by (rule brev_msb)
  moreover have "?j mod 2 ^ m = brev m (i div 2)" "?j div 2 ^ m = i mod 2" by simp_all
  moreover have "brev m (brev m (i div 2)) = i div 2" using Suc.prems by (intro Suc.IH) auto
  ultimately show ?case by (simp del: brev.simps)
qed simp


lemma and_power2: "x < 2 ^ m \<Longrightarrow> x AND 2 ^ m = 0" for x :: nat
  by (simp add: and_exp_eq_0_iff_not_bit bit_iff_odd)

lemma xor_power2: "x < 2 ^ m \<Longrightarrow> x XOR 2 ^ m = 2 ^ m + x" for x :: nat
  by (simp add: and_power2 flip: disjunctive_add_eq_xor)

lemma xor_power2_set: "x < 2 ^ m \<Longrightarrow> (2 ^ m + x) XOR 2 ^ m = x" for x :: nat
  by (simp flip: xor_power2 add: xor.assoc)

lemma and_power2_set: "x < 2 ^ m \<Longrightarrow> (2 ^ m + x) AND 2 ^ m \<noteq> 0" for x :: nat
  by (simp add: and_exp_eq_0_iff_not_bit bit_iff_odd)

text \<open>The inner loop adds one to a number whose bits are reversed.\<close>

lemma rev_inc_brev: "i + 1 < 2 ^ m \<Longrightarrow> rev_inc (brev m i) (2 ^ m div 2) = brev m (i + 1)"
proof (induction m arbitrary: i)
  case (Suc m)
  show ?case
  proof (cases "even i")
    case True
    then have "i mod 2 = 0" "(i + 1) mod 2 = 1" "(i + 1) div 2 = i div 2" by presburger+
    then show ?thesis by (subst rev_inc.simps) (simp add: and_power2 xor_power2)
  next
    case False
    then have i: "i mod 2 = 1" "(i + 1) mod 2 = 0" "(i + 1) div 2 = i div 2 + 1" by presburger+
    have "i div 2 + 1 < 2 ^ m" using Suc.prems i by auto
    from Suc.IH [OF this] i show ?thesis
      by (subst rev_inc.simps) (simp add: and_power2_set xor_power2_set)
  qed
qed simp

definition reversing :: "nat \<Rightarrow> 'a list \<Rightarrow> nat \<Rightarrow> 'a list \<Rightarrow> bool" where
  "reversing m a i a' \<longleftrightarrow> length a' = length a \<and>
     (\<forall>p<2 ^ m. a' ! p = (if min p (brev m p) < i then a ! brev m p else a ! p))"

lemma reversing_swap:
  assumes "reversing m a i a'" "length a = 2 ^ m" "i < 2 ^ m" "i < brev m i"
  shows "reversing m a (Suc i) (swap_at i (brev m i) a')"
proof -
  let ?j = "brev m i"
  have len: "length a' = 2 ^ m" and a': "\<And>p. p < 2 ^ m \<Longrightarrow> a' ! p = (if min p (brev m p) < i then a ! brev m p else a ! p)"
    using assms by (simp_all add: reversing_def)
  have j: "?j < 2 ^ m" "brev m ?j = i" using assms by (simp_all add: brev_brev)
  have "swap_at i ?j a' ! p = (if min p (brev m p) < Suc i then a ! brev m p else a ! p)" if p: "p < 2 ^ m" for p
  proof -
    consider "p = i" | "p = ?j" | "p \<noteq> i" "p \<noteq> ?j" by blast
    then show ?thesis
    proof cases
      case 3
      then have "brev m p \<noteq> i" using p brev_brev by force
      with 3 p len j assms(3) show ?thesis by (auto simp: swap_at_def a' less_Suc_eq)
    qed (use len j assms a' in \<open>auto simp: swap_at_def\<close>)
  qed
  then show ?thesis using len assms by (simp add: reversing_def swap_at_def)
qed

lemma reversing_keep:
  assumes "reversing m a i a'" "i < 2 ^ m" "\<not> i < brev m i"
  shows "reversing m a (Suc i) a'"
proof -
  have "(if min p (brev m p) < i then a ! brev m p else a ! p) = (if min p (brev m p) < Suc i then a ! brev m p else a ! p)"
    if p: "p < 2 ^ m" for p
  proof (cases "min p (brev m p) = i")
    case True
    then have "p = i \<or> brev m p = i" by linarith
    then have "brev m p = p" using True assms(3) p brev_brev [OF p] by (metis min.absorb_iff2 min.commute nless_le not_le)
    then show ?thesis by simp
  qed (auto simp: less_Suc_eq)
  then show ?thesis using assms(1) by (simp add: reversing_def)
qed

lemma bit_reverse_loop:
  assumes "length a = 2 ^ m" "1 \<le> i" "i \<le> 2 ^ m"
  shows "\<exists>a'. foldl (\<lambda>(a, j) i. let j' = rev_inc j (2 ^ m div 2) in (if i < j' then swap_at i j' a else a, j')) (a, 0) [1..<i]
            = (a', brev m (i - 1)) \<and> reversing m a i a'"
  using assms(2,3)
proof (induction i rule: nat_induct_at_least)
  case base
  have "brev m p = 0 \<longleftrightarrow> p = 0" if "p < 2 ^ m" for p using that brev_brev [OF that] by auto
  then show ?case by (auto simp: reversing_def min_def)
next
  case (Suc i)
  then obtain a' where a': "foldl (\<lambda>(a, j) i. let j' = rev_inc j (2 ^ m div 2) in (if i < j' then swap_at i j' a else a, j')) (a, 0) [1..<i]
      = (a', brev m (i - 1))" "reversing m a i a'" by auto
  have "rev_inc (brev m (i - 1)) (2 ^ m div 2) = brev m i" using rev_inc_brev [of "i - 1" m] Suc by simp
  with a' Suc show ?case
    using reversing_swap [OF a'(2) assms(1)] reversing_keep [OF a'(2)] by (auto simp: Let_def upt_Suc_append)
qed

lemma bit_reverse_eq:
  assumes "length a = 2 ^ m"
  shows "bit_reverse a = map (\<lambda>p. a ! brev m p) [0..<2 ^ m]"
proof -
  obtain a' where a': "bit_reverse a = a'" "reversing m a (2 ^ m) a'"
    using bit_reverse_loop [OF assms, of "2 ^ m"] assms by (auto simp: bit_reverse_def)
  have "a' = map (\<lambda>p. a ! brev m p) [0..<2 ^ m]"
    using a'(2) assms by (intro nth_equalityI) (auto simp: reversing_def min_def)
  with a' show ?thesis by simp
qed

section \<open>One stage of butterflies\<close>

definition stage_at :: "nat \<Rightarrow> complex list \<Rightarrow> nat \<Rightarrow> complex" where
  "stage_at h a p =
     (let r = p mod (2 * h) in
      if r < h then a ! p + a ! (p + h) * wlen (2 * h) ^ r else a ! (p - h) - a ! p * wlen (2 * h) ^ (r - h))"

lemma block_loop:
  assumes "K \<le> h" "i + 2 * h \<le> length a"
  shows "\<exists>a'. foldl (\<lambda>(a, w) k. (butterfly (i + k) (i + k + h) w a, w * z)) (a, 1) [0..<K] = (a', z ^ K)
     \<and> length a' = length a
     \<and> (\<forall>p<length a. a' ! p =
          (if i \<le> p \<and> p < i + K then a ! p + a ! (p + h) * z ^ (p - i)
           else if i + h \<le> p \<and> p < i + h + K then a ! (p - h) - a ! p * z ^ (p - h - i) else a ! p))"
  using assms(1)
proof (induction K)
  case (Suc K)
  then obtain a' where a': "foldl (\<lambda>(a, w) k. (butterfly (i + k) (i + k + h) w a, w * z)) (a, 1) [0..<K] = (a', z ^ K)"
     "length a' = length a" and nth: "\<And>p. p < length a \<Longrightarrow> a' ! p =
          (if i \<le> p \<and> p < i + K then a ! p + a ! (p + h) * z ^ (p - i)
           else if i + h \<le> p \<and> p < i + h + K then a ! (p - h) - a ! p * z ^ (p - h - i) else a ! p)" by auto
  have u: "a' ! (i + K) = a ! (i + K)" and v: "a' ! (i + K + h) = a ! (i + K + h)"
    using Suc.prems assms(2) by (auto simp: nth)
  have "butterfly (i + K) (i + K + h) (z ^ K) a' ! p =
          (if i \<le> p \<and> p < i + Suc K then a ! p + a ! (p + h) * z ^ (p - i)
           else if i + h \<le> p \<and> p < i + h + Suc K then a ! (p - h) - a ! p * z ^ (p - h - i) else a ! p)"
    if p: "p < length a" for p
  proof -
    consider "p = i + K" | "p = i + K + h" | "p \<noteq> i + K" "p \<noteq> i + K + h" by blast
    then show ?thesis
    proof cases
      case 3
      with p show ?thesis by (simp add: butterfly_def Let_def nth less_Suc_eq add.commute add.left_commute)
    qed (use p Suc.prems a'(2) u v in \<open>auto simp: butterfly_def Let_def nth_list_update\<close>)
  qed
  with a' show ?case by auto
qed auto

lemma fft_block_nth:
  assumes "0 < h" "(b + 1) * (2 * h) \<le> length a" "p < length a"
  shows "fft_block (2 * h) a (b * (2 * h)) ! p = (if p div (2 * h) = b then stage_at h a p else a ! p)"
proof -
  let ?i = "b * (2 * h)"
  have "?i + 2 * h \<le> length a" using assms by (simp add: algebra_simps)
  from block_loop [OF order_refl this, of "wlen (2 * h)"] assms(3)
  have eq: "fft_block (2 * h) a ?i ! p =
      (if ?i \<le> p \<and> p < ?i + h then a ! p + a ! (p + h) * wlen (2 * h) ^ (p - ?i)
       else if ?i + h \<le> p \<and> p < ?i + h + h then a ! (p - h) - a ! p * wlen (2 * h) ^ (p - h - ?i) else a ! p)"
    by (auto simp: fft_block_def)
  have p: "p = p div (2 * h) * (2 * h) + p mod (2 * h)" by (rule div_mult_mod_eq [symmetric])
  show ?thesis
  proof (cases "p div (2 * h) = b")
    case True
    with p have p': "p = ?i + p mod (2 * h)" by simp
    have r: "p mod (2 * h) < 2 * h" using assms(1) by simp
    show ?thesis unfolding eq stage_at_def Let_def using True p' r
      by (smt (verit) add_diff_cancel_left' add_less_cancel_left le_add1 diff_commute mult_2 add.assoc not_less add_le_cancel_left)
  next
    case False
    then have "\<not> (?i \<le> p \<and> p < ?i + 2 * h)"
      using assms(1) by (metis add.commute div_nat_eqI mult.commute mult_Suc_right)
    with False show ?thesis unfolding eq by auto
  qed
qed

lemma block_div: "r < L \<Longrightarrow> (b * L + r) div L = b" for b L r :: nat
  by simp

lemma stage_at_cong:
  assumes "\<And>q. q div (2 * h) = p div (2 * h) \<Longrightarrow> a' ! q = a ! q" "0 < h"
  shows "stage_at h a' p = stage_at h a p"
proof -
  define b r where "b = p div (2 * h)" and "r = p mod (2 * h)"
  have p: "p = b * (2 * h) + r" unfolding b_def r_def by (rule div_mult_mod_eq [symmetric])
  have r: "r < 2 * h" using assms(2) by (simp add: r_def)
  have "(p + h) div (2 * h) = p div (2 * h)" if "p mod (2 * h) < h"
  proof -
    have "p + h = b * (2 * h) + (r + h)" "r + h < 2 * h" using p that by (simp_all add: r_def)
    then show ?thesis unfolding b_def [symmetric] by (metis block_div)
  qed
  moreover have "(p - h) div (2 * h) = p div (2 * h)" if "\<not> p mod (2 * h) < h"
  proof -
    have "p - h = b * (2 * h) + (r - h)" "r - h < 2 * h" using p that r by (simp_all add: r_def)
    then show ?thesis unfolding b_def [symmetric] by (metis block_div)
  qed
  ultimately show ?thesis by (simp add: stage_at_def Let_def assms(1))
qed

lemma fft_stage_loop:
  assumes "0 < h" "B * (2 * h) \<le> length a" "p < length a"
  shows "foldl (fft_block (2 * h)) a (map (\<lambda>b. b * (2 * h)) [0..<B]) ! p =
         (if p div (2 * h) < B then stage_at h a p else a ! p)"
  using assms(2,3)
proof (induction B arbitrary: p)
  case (Suc B)
  let ?a = "foldl (fft_block (2 * h)) a (map (\<lambda>b. b * (2 * h)) [0..<B])"
  have B: "B * (2 * h) \<le> length a" using Suc.prems by simp
  have "foldl (fft_block (2 * h)) a (map (\<lambda>b. b * (2 * h)) [0..<Suc B]) ! p = fft_block (2 * h) ?a (B * (2 * h)) ! p"
    by simp
  also have "\<dots> = (if p div (2 * h) = B then stage_at h ?a p else ?a ! p)"
    using assms(1) Suc.prems by (intro fft_block_nth) auto
  finally have "foldl (fft_block (2 * h)) a (map (\<lambda>b. b * (2 * h)) [0..<Suc B]) ! p =
      (if p div (2 * h) = B then stage_at h ?a p else ?a ! p)" .
  moreover have "stage_at h ?a p = stage_at h a p" if "p div (2 * h) = B"
  proof (rule stage_at_cong [OF _ assms(1)])
    fix q assume "q div (2 * h) = p div (2 * h)"
    then have q: "q div (2 * h) = B" using that by simp
    have "q < Suc B * (2 * h)" using q assms(1) by (metis dividend_less_div_times mult.commute mult_Suc nat_0_less_mult_iff zero_less_numeral)
    then have "q < length a" using Suc.prems by linarith
    from Suc.IH [OF B this] q show "?a ! q = a ! q" by simp
  qed
  ultimately show ?case using Suc.IH [OF B Suc.prems(2)] by auto
qed simp

lemma fft_stage_nth:
  assumes "0 < h" "2 * h dvd length a" "p < length a"
  shows "fft_stage (2 * h) a ! p = stage_at h a p"
proof -
  obtain B where B: "length a = 2 * h * B" using assms(2) by blast
  have "(length a + 2 * h - 1) div (2 * h) = B"
    unfolding B using assms(1) by (intro div_nat_eqI) (simp_all add: algebra_simps)
  moreover have "p div (2 * h) < B" using assms(3) B by (metis less_mult_imp_div_less mult.commute)
  ultimately show ?thesis using fft_stage_loop [OF assms(1) _ assms(3), of B] B by (simp add: fft_stage_def)
qed


section \<open>The transform\<close>

definition dft :: "(nat \<Rightarrow> complex) \<Rightarrow> nat \<Rightarrow> nat \<Rightarrow> complex" where
  "dft f n k = (\<Sum>t<n. f t * wlen n ^ (k * t))"

lemma wlen_cis: "wlen n = cis (- 2 * pi / of_nat n)"
  by (simp add: wlen_def Let_def cis.ctr)

lemma wlen_double: "0 < h \<Longrightarrow> wlen (2 * h) ^ (2 * j) = wlen h ^ j"
  by (simp add: wlen_cis DeMoivre mult.left_commute mult.commute)

lemma wlen_half: "0 < h \<Longrightarrow> wlen (2 * h) ^ h = - 1"
  by (simp add: wlen_cis DeMoivre complex_eq_iff)

lemma wlen_full: "0 < h \<Longrightarrow> wlen h ^ (h * j) = 1"
proof -
  assume "0 < h"
  then have "wlen h ^ h = 1" by (simp add: wlen_cis DeMoivre complex_eq_iff)
  then show ?thesis by (simp add: power_mult)
qed

lemma sum_even_odd: "(\<Sum>t<2 * h. g t) = (\<Sum>t<h. g (2 * t)) + (\<Sum>t<h. g (2 * t + 1))"
  for g :: "nat \<Rightarrow> complex"
  by (induction h) simp_all

lemma dft_split:
  assumes "0 < h"
  shows "dft f (2 * h) k = dft (\<lambda>t. f (2 * t)) h k + dft (\<lambda>t. f (2 * t + 1)) h k * wlen (2 * h) ^ k"
proof -
  have even: "wlen (2 * h) ^ (k * (2 * t)) = wlen h ^ (k * t)" for t
    using wlen_double [OF assms, of "k * t"] by (simp add: mult.left_commute)
  have odd: "wlen (2 * h) ^ (k * (2 * t + 1)) = wlen h ^ (k * t) * wlen (2 * h) ^ k" for t
    by (simp only: distrib_left power_add even mult_1_right)
  show ?thesis unfolding dft_def sum_even_odd even odd by (simp add: sum_distrib_right mult.assoc)
qed

lemma dft_shift: "0 < h \<Longrightarrow> dft f h (h + r) = dft f h r"
  by (simp add: dft_def distrib_right power_add wlen_full)

lemma dft_split_upper:
  assumes "0 < h"
  shows "dft f (2 * h) (h + r) = dft (\<lambda>t. f (2 * t)) h r - dft (\<lambda>t. f (2 * t + 1)) h r * wlen (2 * h) ^ r"
  using assms by (simp add: dft_split dft_shift power_add wlen_half)

text \<open>After the stage of length \<open>2 ^ s\<close>, block \<open>b\<close> holds the transform of the samples that share the residue \<open>brev (m - s) b\<close>.\<close>

definition transformed :: "nat \<Rightarrow> nat \<Rightarrow> complex list \<Rightarrow> complex list \<Rightarrow> bool" where
  "transformed m s x a \<longleftrightarrow> length a = 2 ^ m \<and>
     (\<forall>b<2 ^ (m - s). \<forall>k<2 ^ s. a ! (b * 2 ^ s + k) = dft (\<lambda>t. x ! (brev (m - s) b + 2 ^ (m - s) * t)) (2 ^ s) k)"

lemma transformed_bit_reverse: "length x = 2 ^ m \<Longrightarrow> transformed m 0 x (bit_reverse x)"
  by (simp add: transformed_def bit_reverse_eq dft_def)

lemma transformed_stage:
  assumes "transformed m s x a" "s < m"
  shows "transformed m (Suc s) x (fft_stage (2 ^ Suc s) a)"
proof -
  define h d where "h = (2::nat) ^ s" and "d = m - Suc s"
  have ms: "m - s = Suc d" using assms(2) by (simp add: d_def)
  have h: "0 < h" "2 ^ Suc s = 2 * h" by (simp_all add: h_def)
  have len: "length a = 2 * h * 2 ^ d" using assms by (simp add: transformed_def h_def d_def flip: power_add power_Suc)
  have a: "a ! (b * h + k) = dft (\<lambda>t. x ! (brev (Suc d) b + 2 ^ Suc d * t)) h k" if "b < 2 * 2 ^ d" "k < h" for b k
    using assms(1) that unfolding transformed_def ms h_def by simp
  have "fft_stage (2 * h) a ! (b * (2 * h) + k) = dft (\<lambda>t. x ! (brev d b + 2 ^ d * t)) (2 * h) k"
    if b: "b < 2 ^ d" and k: "k < 2 * h" for b k
  proof -
    let ?f = "\<lambda>t. x ! (brev d b + 2 ^ d * t)"
    have mod: "Suc (c * 2) mod 2 = 1" for c by presburger
    have E: "a ! (b * (2 * h) + r) = dft (\<lambda>t. ?f (2 * t)) h r" if "r < h" for r
      using a [of "2 * b" r] b that by (simp add: ac_simps)
    have O: "a ! (b * (2 * h) + h + r) = dft (\<lambda>t. ?f (2 * t + 1)) h r" if "r < h" for r
      using a [of "2 * b + 1" r] b that mod [of b] by (simp add: ac_simps distrib_left)
    have p: "b * (2 * h) + k < length a"
    proof -
      have "b * (2 * h) + k < (b + 1) * (2 * h)" using k by simp
      also have "\<dots> \<le> 2 ^ d * (2 * h)" using b by (intro mult_right_mono) auto
      finally show ?thesis by (simp add: len mult.commute)
    qed
    have "fft_stage (2 * h) a ! (b * (2 * h) + k) = stage_at h a (b * (2 * h) + k)"
      using h(1) p by (intro fft_stage_nth) (simp_all add: len)
    also have "\<dots> = dft ?f (2 * h) k"
    proof (cases "k < h")
      case True
      then have "stage_at h a (b * (2 * h) + k) = a ! (b * (2 * h) + k) + a ! (b * (2 * h) + h + k) * wlen (2 * h) ^ k"
        by (simp add: stage_at_def ac_simps)
      then show ?thesis unfolding E [OF True] O [OF True] dft_split [OF h(1)] .
    next
      case False
      then obtain r where r: "k = h + r" "r < h" using k by (metis add_less_cancel_left le_Suc_ex mult_2 not_less)
      have "(b * (2 * h) + k) mod (2 * h) = h + r" "b * (2 * h) + k = b * (2 * h) + h + r" "b * (2 * h) + h + r - h = b * (2 * h) + r"
        using r by simp_all
      then have "stage_at h a (b * (2 * h) + k) = a ! (b * (2 * h) + r) - a ! (b * (2 * h) + h + r) * wlen (2 * h) ^ r"
        unfolding stage_at_def Let_def by (simp only: add_diff_cancel_left' not_add_less1 if_False)
      then show ?thesis unfolding E [OF r(2)] O [OF r(2)] r(1) dft_split_upper [OF h(1)] .
    qed
    finally show ?thesis .
  qed
  moreover have "length a = 2 ^ m" using assms(1) by (simp add: transformed_def)
  ultimately show ?thesis unfolding transformed_def h(2) d_def [symmetric] by simp
qed

lemma transformed_stages: "transformed m s x a \<Longrightarrow> s \<le> m \<Longrightarrow> transformed m m x (fft_stages (2 ^ Suc s) a)"
proof (induction "m - s" arbitrary: s a)
  case 0
  then have "s = m" "length a = 2 ^ m" by (simp_all add: transformed_def)
  then show ?case using 0 by (subst fft_stages.simps) simp
next
  case (Suc d)
  then have s: "s < m" "length a = 2 ^ m" by (simp_all add: transformed_def)
  then have "(2::nat) ^ Suc s \<le> 2 ^ m" by (intro power_increasing) auto
  with s have "fft_stages (2 ^ Suc s) a = fft_stages (2 ^ Suc (Suc s)) (fft_stage (2 ^ Suc s) a)"
    by (subst fft_stages.simps) simp
  moreover have "transformed m m x (fft_stages (2 ^ Suc (Suc s)) (fft_stage (2 ^ Suc s) a))"
    using Suc.hyps(2) s by (intro Suc.hyps(1) transformed_stage [OF Suc.prems(1)]) auto
  ultimately show ?case by metis
qed

text \<open>C28. 
  On every power of two the in-place algorithm - reversal loop, doubling stages, running twiddle factor -
  returns the discrete Fourier transform of its input.
\<close>

theorem fft_is_dft:
  assumes "length a = 2 ^ m" "k < 2 ^ m"
  shows "fftRadix2 a ! k = (\<Sum>t<2 ^ m. a ! t * cis (- 2 * pi * of_nat (k * t) / 2 ^ m))"
proof -
  have "transformed m m a (fftRadix2 a)"
  proof (cases "m = 0")
    case True
    then show ?thesis using assms by (simp add: fftRadix2_def transformed_def dft_def)
  next
    case False
    then have "1 < length a" using assms by (simp add: one_less_power del: One_nat_def)
    then show ?thesis using transformed_stages [OF transformed_bit_reverse [OF assms(1)]]
      by (simp add: fftRadix2_def)
  qed
  then have "fftRadix2 a ! k = dft (\<lambda>t. a ! t) (2 ^ m) k" using assms(2) by (auto simp: transformed_def)
  then show ?thesis by (simp add: dft_def wlen_cis DeMoivre ac_simps)
qed

lemma fft_is_dft_witness:
  "length [1, 2, 3, 4::complex] = 2 ^ 2 \<and> (2::nat) < 2 ^ 2 \<and>
   fftRadix2 [1, 2, 3, 4] ! 2 = (\<Sum>t<2 ^ 2. [1, 2, 3, 4] ! t * cis (- 2 * pi * of_nat (2 * t) / 2 ^ 2))"
  using fft_is_dft [of "[1, 2, 3, 4]" 2 2] by simp

lemma length_fftRadix2 [simp]: "length a = 2 ^ m \<Longrightarrow> length (fftRadix2 a) = length a"
  using transformed_stages [OF transformed_bit_reverse, of a m] by (auto simp: fftRadix2_def transformed_def)

end
