(* ===== verification/Microphone.thy ===== *)
theory Microphone
  imports Complex_Main Dsp
begin

text \<open>
  The measurement microphone of \<open>src/microphone\<close>: the level meter, the ambient noise average, the manager
  around the capture device, and the stub device with its pseudo-random generator. The driver behind
  \<open>IMicrophoneHal\<close> is a parameter: what \<open>open\<close> returns and what \<open>capture\<close> returns for a number of frames.
  Levels are real numbers.
\<close>

section \<open>Levels\<close>

definition sample_real :: "i16 \<Rightarrow> real" where
  "sample_real s = of_int (sint s) / 32768"

definition rmsDbfs :: "i16 list \<Rightarrow> real" where
  "rmsDbfs pcm =
     (if pcm = [] then - 120
      else let total = foldl (\<lambda>acc s. acc + sample_real s * sample_real s) 0 pcm;
               rms = sqrt (total / real (length pcm))
           in 20 * log 10 (rms + 1 / 10 ^ 12))"

definition splDb :: "real \<Rightarrow> i16 list \<Rightarrow> real" where
  "splDb ref_db pcm = rmsDbfs pcm + ref_db"

record noise_monitor =
  nm_smoothing :: real
  nm_ambient :: real
  nm_have :: bool

definition noise_new :: noise_monitor where
  "noise_new = \<lparr>nm_smoothing = 1 / 5, nm_ambient = - 120, nm_have = False\<rparr>"

definition noise_update :: "noise_monitor \<Rightarrow> i16 list \<Rightarrow> noise_monitor \<times> real" where
  "noise_update n pcm =
     (let level = rmsDbfs pcm;
          n' = (if \<not> nm_have n then n\<lparr>nm_ambient := level, nm_have := True\<rparr>
                else n\<lparr>nm_ambient := nm_ambient n + nm_smoothing n * (level - nm_ambient n)\<rparr>)
      in (n', nm_ambient n'))"

definition noise_reset :: "noise_monitor \<Rightarrow> noise_monitor" where
  "noise_reset n = n\<lparr>nm_have := False, nm_ambient := - 120\<rparr>"

section \<open>The manager\<close>

record mic_hal =
  mh_open :: status
  mh_capture :: "nat \<Rightarrow> i16 list result"

record microphone =
  mic_ref_db :: real
  mic_noise :: noise_monitor
  mic_open :: bool
  mic_state :: service_state

definition mic_new :: microphone where
  "mic_new = \<lparr>mic_ref_db = 94, mic_noise = noise_new, mic_open = False, mic_state = Svc_Stopped\<rparr>"

definition mic_start :: "mic_hal \<Rightarrow> microphone \<Rightarrow> microphone \<times> status" where
  "mic_start h m =
     (let s = mh_open h
      in (m\<lparr>mic_open := st_ok s, mic_state := (if st_ok s then Svc_Running else Svc_Degraded)\<rparr>, s))"

text \<open>\<open>stop\<close> also reports whether it closes the device.\<close>

definition mic_stop :: "microphone \<Rightarrow> microphone \<times> status \<times> bool" where
  "mic_stop m = (m\<lparr>mic_open := False, mic_state := Svc_Stopped\<rparr>, success, mic_open m)"

definition mic_capture :: "mic_hal \<Rightarrow> nat \<Rightarrow> i16 list result" where
  "mic_capture h frames = mh_capture h frames"

definition measureSpl :: "mic_hal \<Rightarrow> microphone \<Rightarrow> nat \<Rightarrow> real result" where
  "measureSpl h m frames = (case mh_capture h frames of Inl s \<Rightarrow> Inl s | Inr pcm \<Rightarrow> Inr (splDb (mic_ref_db m) pcm))"

definition updateAmbient :: "mic_hal \<Rightarrow> microphone \<Rightarrow> nat \<Rightarrow> microphone \<times> real result" where
  "updateAmbient h m frames =
     (case mh_capture h frames of
        Inl s \<Rightarrow> (m, Inl s)
      | Inr pcm \<Rightarrow> case noise_update (mic_noise m) pcm of (n, v) \<Rightarrow> (m\<lparr>mic_noise := n\<rparr>, Inr v))"

definition ambientDbfs :: "microphone \<Rightarrow> real" where
  "ambientDbfs m = nm_ambient (mic_noise m)"

definition mic_selfTest :: "mic_hal \<Rightarrow> status \<times> event list" where
  "mic_selfTest h =
     (case mh_capture h 2400 of
        Inl s \<Rightarrow> (s, [mk_event Ev_MicFailure ''microphone''])
      | Inr pcm \<Rightarrow>
          if pcm = [] then (mk_error Ec_IoError ''microphone returned no samples'', [mk_event Ev_MicFailure ''microphone''])
          else (success, []))"

section \<open>The stub device\<close>

definition lcg :: "u32 \<Rightarrow> u32" where
  "lcg s = s * 1664525 + 1013904223"

definition lcg_noise :: "u32 \<Rightarrow> real" where
  "lcg_noise s = real (unat (drop_bit 16 s)) / 32768 - 1"

definition stub_capture :: "real \<Rightarrow> bool \<Rightarrow> u32 \<Rightarrow> nat \<Rightarrow> u32 \<times> i16 list result" where
  "stub_capture amplitude failing seed frames =
     (if failing then (seed, Inl (mk_error Ec_IoError ''mic capture failed''))
      else ((lcg ^^ frames) seed,
            Inr (map (\<lambda>i. of_int (trunc (lcg_noise ((lcg ^^ Suc i) seed) * amplitude))) [0..<frames])))"

section \<open>Properties of the levels\<close>

lemma scale16: "- 32768 \<le> i \<Longrightarrow> i < 32768 \<Longrightarrow> \<bar>real_of_int i / 32768\<bar> \<le> 1"
  by (simp add: abs_le_iff)

lemma sample_real_range: "\<bar>sample_real s\<bar> \<le> 1"
  unfolding sample_real_def using sint_ge [of s] sint_lt [of s] by (intro scale16) simp_all

lemma square_fold_bounds:
  "0 \<le> acc \<Longrightarrow> 0 \<le> foldl (\<lambda>acc s. acc + sample_real s * sample_real s) acc pcm \<and>
     foldl (\<lambda>acc s. acc + sample_real s * sample_real s) acc pcm \<le> acc + real (length pcm)"
proof (induction pcm arbitrary: acc)
  case (Cons s pcm)
  have "sample_real s * sample_real s \<le> 1"
    using sample_real_range [of s] by (metis abs_ge_zero abs_mult_self_eq mult_le_one)
  with Cons.IH [of "acc + sample_real s * sample_real s"] Cons.prems show ?case by simp
qed simp

text \<open>Every level lies between the two floors and a hair above full scale.\<close>

lemma rmsDbfs_range: "- 240 \<le> rmsDbfs pcm \<and> rmsDbfs pcm \<le> 20 * log 10 (1 + 1 / 10 ^ 12)"
proof (cases "pcm = []")
  case True
  have "0 \<le> log 10 (1 + 1 / 10 ^ 12)" by simp
  then have "- 120 \<le> 20 * log 10 (1 + 1 / 10 ^ 12)" by linarith
  with True show ?thesis unfolding rmsDbfs_def by simp
next
  case False
  let ?total = "foldl (\<lambda>acc s. acc + sample_real s * sample_real s) 0 pcm"
  let ?r = "sqrt (?total / real (length pcm))"
  have len: "0 < real (length pcm)" using False by simp
  have "0 \<le> ?total" "?total \<le> real (length pcm)" using square_fold_bounds [of 0 pcm] by auto
  then have r: "0 \<le> ?r" "?r \<le> 1" using len by simp_all
  have "log 10 ((10::real) ^ 12) = 12" by (subst log_nat_power) simp_all
  then have "log 10 (1 / 10 ^ 12) = - 12" by (simp only: log_recip)
  moreover have "log 10 (1 / 10 ^ 12) \<le> log 10 (x + 1 / 10 ^ 12) \<and> log 10 (x + 1 / 10 ^ 12) \<le> log 10 (1 + 1 / 10 ^ 12)"
    if "0 \<le> x" "x \<le> 1" for x :: real using that by (auto simp: add_nonneg_pos)
  from this [OF r] calculation have "- 12 \<le> log 10 (?r + 1 / 10 ^ 12)" "log 10 (?r + 1 / 10 ^ 12) \<le> log 10 (1 + 1 / 10 ^ 12)"
    by auto
  with False show ?thesis unfolding rmsDbfs_def Let_def by simp
qed

text \<open>The ambient estimate never leaves the range of the levels it has seen.\<close>

lemma noise_update_between:
  assumes "0 \<le> nm_smoothing n" "nm_smoothing n \<le> 1" "nm_have n \<longrightarrow> lo \<le> nm_ambient n \<and> nm_ambient n \<le> hi"
    "lo \<le> rmsDbfs pcm" "rmsDbfs pcm \<le> hi"
  shows "lo \<le> snd (noise_update n pcm) \<and> snd (noise_update n pcm) \<le> hi"
proof (cases "nm_have n")
  case True
  let ?a = "nm_ambient n" and ?l = "rmsDbfs pcm" and ?t = "nm_smoothing n"
  have mix: "?a + ?t * (?l - ?a) = (1 - ?t) * ?a + ?t * ?l" by (simp add: algebra_simps)
  have "(1 - ?t) * lo + ?t * lo \<le> (1 - ?t) * ?a + ?t * ?l" "(1 - ?t) * ?a + ?t * ?l \<le> (1 - ?t) * hi + ?t * hi"
    using assms True by (intro add_mono mult_left_mono; simp)+
  then show ?thesis using True mix by (simp add: noise_update_def Let_def algebra_simps)
qed (use assms in \<open>simp add: noise_update_def Let_def\<close>)

text \<open>The stub's samples stay within its amplitude.\<close>

lemma lcg_noise_range: "- 1 \<le> lcg_noise s \<and> lcg_noise s < 1"
proof -
  have u: "unat (drop_bit 16 s) < 2 ^ 16"
    using unsigned_less [of s, where 'a = nat] by (simp add: unat_drop_bit_eq unat_div drop_bit_eq_div div_less_iff_less_mult)
  have "- 1 \<le> real n / 32768 - 1 \<and> real n / 32768 - 1 < 1" if "n < 2 ^ 16" for n using that by simp
  from this [OF u] show ?thesis unfolding lcg_noise_def .
qed

lemma trunc_abs: "\<bar>real_of_int (trunc x)\<bar> \<le> \<bar>x\<bar>"
proof (cases "0 \<le> x")
  case True
  then have "0 \<le> \<lfloor>x\<rfloor>" by simp
  with True show ?thesis by simp
next
  case False
  then have "\<lceil>x\<rceil> \<le> 0" by simp
  with False show ?thesis using le_of_int_ceiling [of x] by simp
qed

lemma stub_capture_bounds:
  assumes "0 \<le> amplitude" "amplitude \<le> 32767" "snd (stub_capture amplitude f seed frames) = Inr pcm" "x \<in> set pcm"
  shows "\<bar>real_of_int (sint x)\<bar> \<le> amplitude"
proof -
  obtain s where x: "x = of_int (trunc (lcg_noise s * amplitude))"
    using assms(3,4) by (auto simp: stub_capture_def simp del: funpow.simps split: if_splits)
  let ?v = "lcg_noise s * amplitude"
  have "\<bar>lcg_noise s\<bar> \<le> 1" using lcg_noise_range [of s] by auto
  then have v: "\<bar>?v\<bar> \<le> amplitude" using assms(1) by (simp add: abs_mult mult_left_le_one_le)
  have t: "\<bar>real_of_int (trunc ?v)\<bar> \<le> \<bar>?v\<bar>" by (rule trunc_abs)
  then have "sint x = trunc ?v" unfolding x using v assms(2) by (intro sint_of_int_range) auto
  with t v show ?thesis by simp
qed

end
