(* ===== verification/Calibration.thy ===== *)
theory Calibration
  imports Complex_Main Fft Microphone Config_Manager
begin

text \<open>
  Acoustic calibration, \<open>src/calibration\<close>: the room measurement over the Fourier transform, the
  correction curve, the automatic volume, the profile store and \<open>CalibrationManager\<close>, whose hooks
  (capture, apply the curve, mute) appear as the calls a run makes, in order. Profiles are JSON files on the
  file system of \<open>File_Store\<close>, written by one \<open>write\<close> to a temporary file and a rename. \<open>in >> j\<close> is read as
  the parser of the JSON library: it differs from \<open>parse\<close> only in that it ignores what follows the document.
\<close>

section \<open>Room measurement and correction\<close>

definition toDouble :: "i16 list \<Rightarrow> real list" where
  "toDouble pcm = map sample_real pcm"

definition band_mean :: "real list \<Rightarrow> real \<Rightarrow> real \<Rightarrow> real" where
  "band_mean mag bin_hz fc =
     (let lo = fc / (112 / 100); hi = fc * (112 / 100);
          k_lo = nat \<lfloor>max 0 (lo / bin_hz)\<rfloor>;
          k_hi = min (length mag - 1) (nat \<lfloor>hi / bin_hz\<rfloor> + 1);
          ks = takeWhile (\<lambda>k. k < length mag) [k_lo..<k_hi + 1];
          energy = foldl (\<lambda>e k. e + mag ! k * mag ! k) 0 ks;
          count = length ks
      in if count \<noteq> 0 then energy / real count else 1 / 10 ^ 12)"

definition bandEnergyDb :: "real \<Rightarrow> nat \<Rightarrow> real list \<Rightarrow> real list" where
  "bandEnergyDb fs fft_size samples =
     (let mag = magnitudeSpectrum samples fft_size; bin_hz = fs / real fft_size
      in map (\<lambda>b. 10 * log 10 (band_mean mag bin_hz (kBandFreqs ! b) + 1 / 10 ^ 12)) [0..<kEqBands])"

definition band_avg :: "real list \<Rightarrow> real" where
  "band_avg db = foldl (+) 0 db / real kEqBands"

definition computeCorrection :: "real \<Rightarrow> real list \<Rightarrow> real list" where
  "computeCorrection strength db =
     (let avg = band_avg db in map (\<lambda>b. clamp_real ((avg - db ! b) * strength) (- 10) 10) [0..<kEqBands])"

definition flatnessScore :: "real list \<Rightarrow> real" where
  "flatnessScore db =
     (let avg = band_avg db;
          var = foldl (\<lambda>acc v. acc + (v - avg) * (v - avg)) 0 db / real kEqBands
      in clamp_real (100 - sqrt var * 5) 0 100)"

section \<open>Automatic volume\<close>

record auto_volume =
  av_offset_db :: real
  av_max_volume :: int
  av_min_volume :: int
  av_max_step :: int
  av_db_to_volume :: real
  av_ambient_ref :: real

definition auto_volume_default :: auto_volume where
  "auto_volume_default = \<lparr>av_offset_db = 2, av_max_volume = 90, av_min_volume = 10, av_max_step = 3,
     av_db_to_volume = 1, av_ambient_ref = - 60\<rparr>"

definition lround :: "real \<Rightarrow> int" where
  "lround x = (if 0 \<le> x then \<lfloor>x + 1 / 2\<rfloor> else \<lceil>x - 1 / 2\<rceil>)"

definition auto_target :: "auto_volume \<Rightarrow> real \<Rightarrow> int" where
  "auto_target p ambient =
     (let target_raw = of_int (av_min_volume p) + (ambient - av_ambient_ref p + av_offset_db p) * av_db_to_volume p
      in clamp_int (sint (word_of_int (lround target_raw) :: 32 word)) (av_min_volume p) (av_max_volume p))"

definition nextVolume :: "auto_volume \<Rightarrow> int \<Rightarrow> real \<Rightarrow> int" where
  "nextVolume p current ambient =
     (let target = auto_target p ambient;
          delta = clamp_int (target - current) (- av_max_step p) (av_max_step p);
          nxt = current + delta
      in clamp_int nxt (av_min_volume p) (av_max_volume p))"

section \<open>Stored profiles\<close>

record calibration_profile =
  cp_name :: string
  cp_gains :: "real list"
  cp_score :: real
  cp_noise :: real

definition alnum :: "char \<Rightarrow> bool" where
  "alnum c = (let n = of_char c :: nat in 48 \<le> n \<and> n \<le> 57 \<or> 65 \<le> n \<and> n \<le> 90 \<or> 97 \<le> n \<and> n \<le> 122)"

definition validName :: "string \<Rightarrow> bool" where
  "validName n \<longleftrightarrow> n \<noteq> [] \<and> hd n \<noteq> CHR ''.'' \<and> (\<forall>c\<in>set n. alnum c \<or> c = CHR ''_'' \<or> c = CHR ''-'')"

definition pathFor :: "string \<Rightarrow> string \<Rightarrow> string" where
  "pathFor dir name = dir @ ''/'' @ name @ ''.json''"

definition profile_json :: "calibration_profile \<Rightarrow> json" where
  "profile_json p = JObj [(''name'', JStr (cp_name p)), (''score'', JReal (cp_score p)),
     (''room_noise_dbfs'', JReal (cp_noise p)), (''eq_gains'', JArr (map JReal (cp_gains p)))]"

text \<open>A single \<open>write\<close>: its result is the first entry of the environment's results, a full write when there is none.\<close>

definition profile_save :: "json_lib \<Rightarrow> os_env \<Rightarrow> string \<Rightarrow> fsys \<Rightarrow> calibration_profile \<Rightarrow> fsys \<times> status" where
  "profile_save J env dir f p =
     (if \<not> validName (cp_name p) then (f, mk_error Ec_InvalidArg ''invalid profile name'')
      else
        let target = pathFor dir (cp_name p); tmp = target @ ''.tmp''; data = jl_dump2 J (profile_json p) in
        if \<not> os_open env then (f, mk_error Ec_IoError (os_strerror env))
        else
          let written = (case os_writes env of [] \<Rightarrow> Some (length data) | w # _ \<Rightarrow> w) in
          if written \<noteq> Some (length data) then (f(tmp := None), mk_error Ec_IoError ''short write'')
          else if \<not> os_rename env then (f(tmp := None), mk_error Ec_IoError ''rename failed'')
          else (f(target \<mapsto> data, tmp := None), success))"

definition get_doubles :: "json_lib \<Rightarrow> json \<Rightarrow> real list option" where
  "get_doubles J v = (case v of JArr xs \<Rightarrow> those (map (jl_get_double J) xs) | _ \<Rightarrow> None)"

definition profile_from_json :: "json_lib \<Rightarrow> string \<Rightarrow> json \<Rightarrow> calibration_profile option" where
  "profile_from_json J name j =
     do { n \<leftarrow> j_value (jl_get_string J) j ''name'' name;
          s \<leftarrow> j_value (jl_get_double J) j ''score'' 0;
          r \<leftarrow> j_value (jl_get_double J) j ''room_noise_dbfs'' 0;
          v \<leftarrow> j_find j ''eq_gains'';
          gains \<leftarrow> get_doubles J v;
          Some \<lparr>cp_name = n, cp_gains = map (\<lambda>i. if i < length gains then gains ! i else 0) [0..<kEqBands],
                cp_score = s, cp_noise = r\<rparr> }"

definition profile_load :: "json_lib \<Rightarrow> (string \<Rightarrow> bool) \<Rightarrow> string \<Rightarrow> fsys \<Rightarrow> string \<Rightarrow> calibration_profile result" where
  "profile_load J readable dir f name =
     (if \<not> validName name then Inl (mk_error Ec_InvalidArg ''invalid profile name'')
      else case f (pathFor dir name) of
        None \<Rightarrow> Inl (mk_error Ec_NotFound (''profile not found: '' @ name))
      | Some doc \<Rightarrow>
          if \<not> readable (pathFor dir name) then Inl (mk_error Ec_NotFound (''profile not found: '' @ name))
          else case Option.bind (jl_parse J doc) (profile_from_json J name) of
            None \<Rightarrow> Inl (mk_error Ec_Corrupt (jl_what J doc))
          | Some p \<Rightarrow> Inr p)"

definition profile_has :: "string \<Rightarrow> fsys \<Rightarrow> string \<Rightarrow> bool" where
  "profile_has dir f name \<longleftrightarrow> validName name \<and> f (pathFor dir name) \<noteq> None"

section \<open>The manager\<close>

datatype cal_state =
  Cal_Idle | Cal_Preparing | Cal_Measuring | Cal_Analyzing | Cal_Applying | Cal_Verifying | Cal_Completed | Cal_Failed

fun cal_name :: "cal_state \<Rightarrow> string" where
  "cal_name Cal_Idle = ''IDLE''"
| "cal_name Cal_Preparing = ''PREPARING''"
| "cal_name Cal_Measuring = ''MEASURING''"
| "cal_name Cal_Analyzing = ''ANALYZING''"
| "cal_name Cal_Applying = ''APPLYING''"
| "cal_name Cal_Verifying = ''VERIFYING''"
| "cal_name Cal_Completed = ''COMPLETED''"
| "cal_name Cal_Failed = ''FAILED''"

record calibration_result =
  cr_eq :: "real list"
  cr_noise :: real
  cr_score :: real

text \<open>What a run does to its surroundings, with the states a concurrent reader can observe.\<close>

datatype cal_out = Out_State cal_state | Out_Publish event | Out_Mute bool | Out_Apply "real list"

text \<open>The pointers the manager may be built without are options or flags; the sampling rate and transform size are
  those of \<open>RoomMeasurement\<close>.\<close>

record calman =
  ca_state :: cal_state
  ca_svc :: service_state
  ca_rate :: real
  ca_fft :: nat
  ca_capture :: "(nat \<Rightarrow> i16 list) option"
  ca_apply :: bool
  ca_mute :: bool
  ca_bus :: bool
  ca_dir :: "string option"
  ca_disk :: fsys
  ca_config :: "cfgman option"

definition calman_new :: "bool \<Rightarrow> cfgman option \<Rightarrow> string option \<Rightarrow> fsys \<Rightarrow> real \<Rightarrow> calman" where
  "calman_new bus config dir f rate =
     \<lparr>ca_state = Cal_Idle, ca_svc = Svc_Stopped, ca_rate = rate, ca_fft = 8192, ca_capture = None, ca_apply = False,
      ca_mute = False, ca_bus = bus, ca_dir = dir, ca_disk = f, ca_config = config\<rparr>"

definition cal_start :: "calman \<Rightarrow> calman \<times> status" where
  "cal_start m = (m\<lparr>ca_svc := Svc_Running\<rparr>, success)"

definition cal_stop :: "calman \<Rightarrow> calman \<times> status" where
  "cal_stop m = (m\<lparr>ca_svc := Svc_Stopped\<rparr>, success)"

definition setHooks :: "(nat \<Rightarrow> i16 list) option \<Rightarrow> bool \<Rightarrow> bool \<Rightarrow> calman \<Rightarrow> calman" where
  "setHooks capture apply_eq mute m = m\<lparr>ca_capture := capture, ca_apply := apply_eq, ca_mute := mute\<rparr>"

definition calState :: "calman \<Rightarrow> cal_state" where
  "calState m = ca_state m"

definition cal_publish :: "calman \<Rightarrow> event \<Rightarrow> cal_out list" where
  "cal_publish m e = (if ca_bus m then [Out_Publish e] else [])"

definition cal_mute :: "calman \<Rightarrow> bool \<Rightarrow> cal_out list" where
  "cal_mute m b = (if ca_mute m then [Out_Mute b] else [])"

text \<open>The lambda \<open>fail\<close> of \<open>runCalibration\<close>.\<close>

definition cal_fail :: "calman \<Rightarrow> cal_out list \<Rightarrow> status \<Rightarrow> calman \<times> calibration_result result \<times> cal_out list" where
  "cal_fail m outs s =
     (m\<lparr>ca_state := Cal_Failed\<rparr>, Inl s,
      outs @ [Out_State Cal_Failed] @ cal_publish m (mk_event Ev_CalibrationFailed ''calibration'') @ cal_mute m False)"

definition cal_analyze :: "calman \<Rightarrow> i16 list \<Rightarrow> calibration_result" where
  "cal_analyze m captured =
     (let samples = toDouble captured; band_db = bandEnergyDb (ca_rate m) (ca_fft m) samples
      in \<lparr>cr_eq = computeCorrection 1 band_db, cr_noise = rmsDbfs captured, cr_score = flatnessScore band_db\<rparr>)"

definition cal_persist :: "json_lib \<Rightarrow> os_env \<Rightarrow> string \<Rightarrow> calibration_result \<Rightarrow> calman \<Rightarrow> calman \<times> status" where
  "cal_persist J os name r m =
     (case ca_dir m of
        None \<Rightarrow> (m, success)
      | Some dir \<Rightarrow>
          (case profile_save J os dir (ca_disk m) \<lparr>cp_name = name, cp_gains = cr_eq r, cp_score = cr_score r, cp_noise = 0\<rparr> of
             (f, s) \<Rightarrow> (m\<lparr>ca_disk := f\<rparr>, s)))"

definition set_eq_profile :: "string \<Rightarrow> speaker_config \<Rightarrow> speaker_config" where
  "set_eq_profile name c = c\<lparr>audio := (audio c)\<lparr>eq_profile := name\<rparr>\<rparr>"

definition cal_record :: "json_lib \<Rightarrow> cfg_env \<Rightarrow> string \<Rightarrow> calman \<Rightarrow> calman \<times> cal_out list" where
  "cal_record J ce name m =
     (case ca_config m of
        None \<Rightarrow> (m, [])
      | Some c \<Rightarrow> (case update J ce c (set_eq_profile name) of (c', _, evs) \<Rightarrow> (m\<lparr>ca_config := Some c'\<rparr>, map Out_Publish evs)))"

definition runCalibration ::
  "json_lib \<Rightarrow> os_env \<Rightarrow> cfg_env \<Rightarrow> string \<Rightarrow> calman \<Rightarrow> calman \<times> calibration_result result \<times> cal_out list" where
  "runCalibration J os ce name m =
     (case ca_capture m of
        None \<Rightarrow> (m, Inl (mk_error Ec_NotImplemented ''no capture hook''), [])
      | Some capture \<Rightarrow>
          let outs = cal_publish m (mk_event Ev_CalibrationStarted ''calibration'') @ [Out_State Cal_Preparing] @
                     cal_mute m True @ [Out_State Cal_Measuring];
              captured = capture (nat \<lfloor>ca_rate m\<rfloor>) in
          if captured = [] then cal_fail m outs (mk_error Ec_IoError ''empty capture'')
          else
            let r = cal_analyze m captured;
                outs = outs @ [Out_State Cal_Analyzing, Out_State Cal_Applying] @
                       (if ca_apply m then [Out_Apply (cr_eq r)] else []) @ [Out_State Cal_Verifying] in
            if \<exists>g\<in>set (cr_eq r). g < - (10001 / 1000) \<or> g > 10001 / 1000
            then cal_fail m outs (mk_error Ec_Corrupt ''gain out of range'')
            else case cal_persist J os name r m of (m1, s) \<Rightarrow>
              if \<not> st_ok s then cal_fail m1 outs s
              else case cal_record J ce name m1 of (m2, evs) \<Rightarrow>
                (m2\<lparr>ca_state := Cal_Completed\<rparr>, Inr r,
                 outs @ evs @ cal_mute m2 False @ [Out_State Cal_Completed] @
                 cal_publish m2 (mk_event_data Ev_CalibrationCompleted ''calibration''
                   [(''score'', JReal (cr_score r)), (''profile'', JStr name)])))"

definition applySavedProfile :: "json_lib \<Rightarrow> (string \<Rightarrow> bool) \<Rightarrow> string \<Rightarrow> calman \<Rightarrow> status \<times> cal_out list" where
  "applySavedProfile J readable name m =
     (case ca_dir m of
        None \<Rightarrow> (mk_error Ec_NotFound ''no profile store'', [])
      | Some dir \<Rightarrow>
          (case profile_load J readable dir (ca_disk m) name of
             Inl s \<Rightarrow> (s, [])
           | Inr p \<Rightarrow> (success, if ca_apply m then [Out_Apply (cp_gains p)] else [])))"

text \<open>The part of \<open>Application::startup\<close> that restores the curve after a boot.\<close>

definition reapply_profile :: "json_lib \<Rightarrow> (string \<Rightarrow> bool) \<Rightarrow> speaker_config \<Rightarrow> calman \<Rightarrow> cal_out list" where
  "reapply_profile J readable c m =
     (let profile = eq_profile (audio c) in
      if profile \<noteq> ''default'' \<and> (case ca_dir m of None \<Rightarrow> False | Some dir \<Rightarrow> profile_has dir (ca_disk m) profile)
      then snd (applySavedProfile J readable profile m) else [])"

section \<open>The correction curve\<close>

lemma clamp_real_in: "lo \<le> hi \<Longrightarrow> lo \<le> clamp_real x lo hi \<and> clamp_real x lo hi \<le> hi"
  by (simp add: clamp_real_def)

lemma computeCorrection_nth:
  "b < kEqBands \<Longrightarrow> computeCorrection k db ! b = clamp_real ((band_avg db - db ! b) * k) (- 10) 10"
  by (simp add: computeCorrection_def Let_def)

lemma correction_in_range: "g \<in> set (computeCorrection k db) \<Longrightarrow> - 10 \<le> g \<and> g \<le> 10"
  by (auto simp: computeCorrection_def Let_def clamp_real_def)

lemma length_computeCorrection [simp]: "length (computeCorrection k db) = kEqBands"
  by (simp add: computeCorrection_def Let_def)

text \<open>
  The correction never exceeds the range of the equalizer, never moves a band away from the average level, and at
  full strength lands every band that is within ten decibels exactly on it.
\<close>

theorem correction_flattens:
  assumes "b < kEqBands" "0 \<le> k" "k \<le> 1"
  shows "\<bar>computeCorrection k db ! b\<bar> \<le> 10 \<and>
    \<bar>db ! b + computeCorrection k db ! b - band_avg db\<bar> \<le> \<bar>db ! b - band_avg db\<bar> \<and>
    (k = 1 \<and> \<bar>db ! b - band_avg db\<bar> \<le> 10 \<longrightarrow> db ! b + computeCorrection k db ! b = band_avg db)"
proof -
  define d where "d = band_avg db - db ! b"
  have g: "computeCorrection k db ! b = clamp_real (d * k) (- 10) 10" by (simp add: computeCorrection_nth assms(1) d_def)
  have dk: "0 \<le> d \<Longrightarrow> 0 \<le> d * k \<and> d * k \<le> d" "d \<le> 0 \<Longrightarrow> d \<le> d * k \<and> d * k \<le> 0"
    using assms(2,3) by (auto simp: mult_left_le mult_nonpos_nonneg mult_le_cancel_left1)
  have e: "db ! b + x - band_avg db = x - d" "\<bar>db ! b - band_avg db\<bar> = \<bar>d\<bar>" for x by (auto simp: d_def)
  have eq: "db ! b + x = band_avg db \<longleftrightarrow> x = d" for x by (auto simp: d_def)
  have "\<bar>clamp_real x (- 10) 10\<bar> \<le> 10 \<and> \<bar>clamp_real x (- 10) 10 - d\<bar> \<le> \<bar>d\<bar>"
    if "0 \<le> d \<and> 0 \<le> x \<and> x \<le> d \<or> d \<le> 0 \<and> d \<le> x \<and> x \<le> 0" for x
    using that by (auto simp: clamp_real_def)
  moreover have "k = 1 \<Longrightarrow> \<bar>d\<bar> \<le> 10 \<Longrightarrow> clamp_real (d * k) (- 10) 10 = d" by (auto simp: clamp_real_def)
  ultimately show ?thesis unfolding g e eq using dk by (metis linear)
qed

theorem correction_flattens_witness:
  "(3::nat) < kEqBands \<and> \<bar>computeCorrection 1 (replicate 32 4) ! 3\<bar> \<le> 10 \<and>
   replicate 32 4 ! 3 + computeCorrection 1 (replicate 32 4) ! 3 = band_avg (replicate 32 4)"
proof -
  have "(3::nat) < kEqBands" by (simp add: kEqBands_def)
  moreover have "band_avg (replicate 32 4) = 4" by (simp add: band_avg_def kEqBands_def eval_nat_numeral)
  ultimately show ?thesis using correction_flattens [of 3 1 "replicate 32 4"] by simp
qed

lemma sum_squares_fold:
  "foldl (\<lambda>acc v. acc + (v - a) * (v - a)) acc db = acc + (\<Sum>v\<leftarrow>db. (v - a)\<^sup>2)" for a :: real
  by (induction db arbitrary: acc) (simp_all add: power2_eq_square)

lemma sum_fold: "foldl (+) acc db = acc + sum_list db" for acc :: real
  by (induction db arbitrary: acc) simp_all

lemma sum_squares_zero: "(\<Sum>v\<leftarrow>db. (v - a)\<^sup>2) = 0 \<longleftrightarrow> (\<forall>v\<in>set db. v = a)" for a :: real
  by (subst sum_list_nonneg_eq_0_iff) auto

lemma sum_list_equal: "\<forall>v\<in>set db. v = c \<Longrightarrow> sum_list db = real (length db) * c"
  by (induction db) (auto simp: algebra_simps)

text \<open>A measurement scores 100 exactly when every band came back at the same level.\<close>

lemma score_full_iff_flat:
  assumes "length db = kEqBands"
  shows "flatnessScore db = 100 \<longleftrightarrow> (\<forall>v\<in>set db. \<forall>w\<in>set db. v = w)" and "0 \<le> flatnessScore db \<and> flatnessScore db \<le> 100"
proof -
  let ?a = "band_avg db" and ?q = "\<Sum>v\<leftarrow>db. (v - band_avg db)\<^sup>2"
  have q: "0 \<le> ?q" by (rule sum_list_nonneg) auto
  have "flatnessScore db = clamp_real (100 - sqrt (?q / real kEqBands) * 5) 0 100"
    by (simp add: flatnessScore_def Let_def sum_squares_fold)
  moreover have "0 \<le> sqrt (?q / real kEqBands)" "sqrt (?q / real kEqBands) = 0 \<longleftrightarrow> ?q = 0" using q by (simp_all add: kEqBands_def)
  ultimately have "flatnessScore db = 100 \<longleftrightarrow> ?q = 0" by (auto simp: clamp_real_def)
  also have "\<dots> \<longleftrightarrow> (\<forall>v\<in>set db. v = ?a)" by (rule sum_squares_zero)
  also have "\<dots> \<longleftrightarrow> (\<forall>v\<in>set db. \<forall>w\<in>set db. v = w)"
  proof
    assume same: "\<forall>v\<in>set db. \<forall>w\<in>set db. v = w"
    show "\<forall>v\<in>set db. v = ?a"
    proof
      fix v assume "v \<in> set db"
      with same have "sum_list db = real kEqBands * v" using sum_list_equal [of db v] assms by auto
      then show "v = ?a" by (simp add: band_avg_def sum_fold kEqBands_def)
    qed
  qed metis
  finally show "flatnessScore db = 100 \<longleftrightarrow> (\<forall>v\<in>set db. \<forall>w\<in>set db. v = w)" .
  show "0 \<le> flatnessScore db \<and> flatnessScore db \<le> 100" by (simp add: flatnessScore_def Let_def clamp_real_def)
qed

section \<open>Automatic volume\<close>

lemma auto_target_range: "av_min_volume p \<le> av_max_volume p \<Longrightarrow> av_min_volume p \<le> auto_target p a \<and> auto_target p a \<le> av_max_volume p"
  by (simp add: auto_target_def Let_def clamp_int_def)

lemma nextVolume_step:
  assumes "av_min_volume p \<le> av_max_volume p" "0 < av_max_step p" "av_min_volume p \<le> v" "v \<le> av_max_volume p"
  shows "nextVolume p v a = v + clamp_int (auto_target p a - v) (- av_max_step p) (av_max_step p)"
  using auto_target_range [OF assms(1), of a] assms by (auto simp: nextVolume_def Let_def clamp_int_def)

text \<open>
  Under a constant ambient level the volume stays within its limits, moves by at most one step per update,
  and arrives at the target as soon as the steps cover the distance.
\<close>

theorem auto_volume_converges:
  assumes "av_min_volume p \<le> av_max_volume p" "0 < av_max_step p" "av_min_volume p \<le> v" "v \<le> av_max_volume p"
  shows "let u = \<lambda>n. ((\<lambda>v. nextVolume p v a) ^^ n) v in
    (\<forall>n. av_min_volume p \<le> u n \<and> u n \<le> av_max_volume p \<and> \<bar>u (Suc n) - u n\<bar> \<le> av_max_step p) \<and>
    (\<forall>n. \<bar>auto_target p a - v\<bar> \<le> int n * av_max_step p \<longrightarrow> u n = auto_target p a)"
proof -
  let ?u = "\<lambda>n. ((\<lambda>v. nextVolume p v a) ^^ n) v" and ?t = "auto_target p a" and ?s = "av_max_step p"
  have range: "av_min_volume p \<le> ?u n \<and> ?u n \<le> av_max_volume p" for n
    using assms by (induction n) (auto simp: nextVolume_def Let_def clamp_int_def)
  have step: "?u (Suc n) = ?u n + clamp_int (?t - ?u n) (- ?s) ?s" for n
    using nextVolume_step [OF assms(1,2), of "?u n" a] range [of n] by simp
  have close: "\<bar>?t - ?u n\<bar> = max 0 (\<bar>?t - v\<bar> - int n * ?s)" for n
  proof (induction n)
    case (Suc n)
    have "\<bar>?t - ?u (Suc n)\<bar> = max 0 (\<bar>?t - ?u n\<bar> - ?s)"
      unfolding step using assms(2) by (auto simp: clamp_int_def)
    also have "\<dots> = max 0 (max 0 (\<bar>?t - v\<bar> - int n * ?s) - ?s)" unfolding Suc ..
    also have "\<dots> = max 0 (\<bar>?t - v\<bar> - int n * ?s - ?s)" using assms(2) by linarith
    finally show ?case by (simp add: algebra_simps)
  qed simp
  have "\<bar>?u (Suc n) - ?u n\<bar> \<le> ?s" for n unfolding step using assms(2) by (auto simp: clamp_int_def)
  moreover have "?u n = ?t" if "\<bar>?t - v\<bar> \<le> int n * ?s" for n using close [of n] that by simp
  ultimately show ?thesis using range by (simp add: Let_def)
qed


theorem auto_volume_converges_witness:
  "let u = \<lambda>n. ((\<lambda>v. nextVolume auto_volume_default v (- 42)) ^^ n) 20 in u 4 = 30"
proof -
  have t: "auto_target auto_volume_default (- 42) = 30" by (simp add: auto_target_def auto_volume_default_def lround_def clamp_int_def)
  show ?thesis using auto_volume_converges [of auto_volume_default 20 "- 42"] unfolding t
    by (simp add: auto_volume_default_def Let_def)
qed

section \<open>Profiles on disk\<close>

lemma those_map_Some [simp]: "those (map Some xs) = Some xs"
  by (induction xs) simp_all

lemma profile_json_roundtrip:
  assumes "getters_exact J" "length (cp_gains p) = kEqBands"
  shows "profile_from_json J n (profile_json p) = Some p"
proof -
  have "map (\<lambda>i. if i < length (cp_gains p) then cp_gains p ! i else 0) [0..<kEqBands] = cp_gains p"
    using assms(2) by (intro nth_equalityI) auto
  then show ?thesis using assms(1)
    by (simp add: profile_from_json_def profile_json_def get_doubles_def comp_def)
qed

lemma profile_save_ok:
  assumes "profile_save J env dir f p = (f', s)" "st_ok s"
  shows "validName (cp_name p)" "f' = f(pathFor dir (cp_name p) \<mapsto> jl_dump2 J (profile_json p), pathFor dir (cp_name p) @ ''.tmp'' := None)"
  using assms by (auto simp: profile_save_def Let_def split: if_splits)

text \<open>What \<open>save\<close> wrote, \<open>load\<close> returns; a failing \<open>save\<close> leaves the stored profile as it was.\<close>

lemma profile_save_load:
  assumes "getters_exact J" "length (cp_gains p) = kEqBands" "jl_parse J (jl_dump2 J (profile_json p)) = Some (profile_json p)"
    "profile_save J env dir f p = (f', s)" "st_ok s" "readable (pathFor dir (cp_name p))"
  shows "profile_load J readable dir f' (cp_name p) = Inr p" "profile_has dir f' (cp_name p)"
  using profile_save_ok [OF assms(4,5)] assms(3,6) profile_json_roundtrip [OF assms(1,2)]
  by (simp_all add: profile_load_def profile_has_def)

lemma profile_save_error:
  assumes "profile_save J env dir f p = (f', s)" "\<not> st_ok s"
  shows "f' (pathFor dir n) = f (pathFor dir n)"
proof -
  have "pathFor dir n \<noteq> pathFor dir m @ ''.tmp''" for m
  proof
    assume "pathFor dir n = pathFor dir m @ ''.tmp''"
    then have "rev (pathFor dir n) = rev (pathFor dir m @ ''.tmp'')" by simp
    then show False by (simp add: pathFor_def)
  qed
  with assms show ?thesis by (auto simp: profile_save_def Let_def split: if_splits)
qed

text \<open>A valid name cannot leave the directory of the profiles.\<close>

lemma validName_no_slash: "validName n \<Longrightarrow> CHR ''/'' \<notin> set n \<and> CHR ''.'' \<notin> set n"
  by (auto simp: validName_def alnum_def Let_def)

section \<open>A calibration run\<close>

lemma verification_passes: "\<not> (\<exists>g\<in>set (cr_eq (cal_analyze m pcm)). g < - (10001 / 1000) \<or> g > 10001 / 1000)"
  by (auto simp: cal_analyze_def Let_def dest!: correction_in_range)

lemma run_no_capture:
  "ca_capture m = None \<Longrightarrow> runCalibration J os ce name m = (m, Inl (mk_error Ec_NotImplemented ''no capture hook''), [])"
  by (simp add: runCalibration_def)

definition out_states :: "cal_out list \<Rightarrow> cal_state list" where
  "out_states outs = concat (map (\<lambda>x. case x of Out_State s \<Rightarrow> [s] | _ \<Rightarrow> []) outs)"

definition out_mutes :: "cal_out list \<Rightarrow> bool list" where
  "out_mutes outs = concat (map (\<lambda>x. case x of Out_Mute b \<Rightarrow> [b] | _ \<Rightarrow> []) outs)"

definition out_applied :: "cal_out list \<Rightarrow> real list list" where
  "out_applied outs = concat (map (\<lambda>x. case x of Out_Apply g \<Rightarrow> [g] | _ \<Rightarrow> []) outs)"

definition out_cal_events :: "cal_out list \<Rightarrow> event_type list" where
  "out_cal_events outs = concat (map (\<lambda>x. case x of Out_Publish e \<Rightarrow>
     if ev_type e \<in> {Ev_CalibrationStarted, Ev_CalibrationCompleted, Ev_CalibrationFailed} then [ev_type e] else [] | _ \<Rightarrow> []) outs)"

lemmas out_defs = out_states_def out_mutes_def out_applied_def out_cal_events_def

lemma record_outs:
  assumes "cal_record J ce name m = (m2, evs)"
  shows "out_states evs = [] \<and> out_mutes evs = [] \<and> out_applied evs = [] \<and> out_cal_events evs = []"
    "ca_mute m2 = ca_mute m" "ca_bus m2 = ca_bus m" "ca_disk m2 = ca_disk m"
  using assms update_cases [of J ce _ "set_eq_profile name"]
  by (force simp: cal_record_def out_defs config_changed_event_def split: option.splits prod.splits)+

lemma persist_keeps:
  assumes "cal_persist J os name r m = (m1, s)"
  shows "ca_mute m1 = ca_mute m" "ca_bus m1 = ca_bus m" "ca_config m1 = ca_config m" "ca_dir m1 = ca_dir m"
  using assms by (auto simp: cal_persist_def split: option.splits prod.splits)

text \<open>
  With all hooks in place a run walks through the states of the specification in order and ends in
  \<open>Completed\<close> exactly when it returns a result; it mutes once and unmutes once, whatever happens; it publishes
  \<open>CalibrationStarted\<close> and then one closing event; and the curve is applied whenever anything was captured, so a run
  that then fails to store the profile leaves the new curve in place.
\<close>

theorem calibration_run_shape:
  assumes "ca_capture m = Some cap" "ca_mute m" "ca_bus m" "ca_apply m"
    and "runCalibration J os ce name m = (m', res, outs)"
  shows "let analysed = cap (nat \<lfloor>ca_rate m\<rfloor>) \<noteq> []; final = (if isl res then Cal_Failed else Cal_Completed) in
    (\<not> analysed \<longrightarrow> isl res) \<and> ca_state m' = final \<and>
    out_states outs = [Cal_Preparing, Cal_Measuring] @ (if analysed then [Cal_Analyzing, Cal_Applying, Cal_Verifying] else []) @ [final] \<and>
    out_mutes outs = [True, False] \<and>
    out_cal_events outs = [Ev_CalibrationStarted, if isl res then Ev_CalibrationFailed else Ev_CalibrationCompleted] \<and>
    out_applied outs = (if analysed then [cr_eq (cal_analyze m (cap (nat \<lfloor>ca_rate m\<rfloor>)))] else [])"
proof -
  let ?pcm = "cap (nat \<lfloor>ca_rate m\<rfloor>)"
  note run = assms(5) [unfolded runCalibration_def Let_def, simplified assms(1) option.case]
  consider "?pcm = []" | "?pcm \<noteq> []" by blast
  then show ?thesis
  proof cases
    case 1
    then show ?thesis using run assms(2-4) by (auto simp: cal_fail_def cal_publish_def cal_mute_def out_defs)
  next
    case 2
    obtain m1 s where p: "cal_persist J os name (cal_analyze m ?pcm) m = (m1, s)" by (metis surj_pair)
    obtain m2 evs where c: "cal_record J ce name m1 = (m2, evs)" by (metis surj_pair)
    note keeps = persist_keeps [OF p] record_outs [OF c]
    show ?thesis
    proof (cases "st_ok s")
      case True
      with 2 run p c assms(2-4) verification_passes [of m ?pcm] keeps show ?thesis
        by (auto simp: cal_publish_def cal_mute_def out_defs)
    next
      case False
      with 2 run p assms(2-4) verification_passes [of m ?pcm] keeps show ?thesis
        by (auto simp: cal_fail_def cal_publish_def cal_mute_def out_defs)
    qed
  qed
qed


lemma run_success:
  assumes "runCalibration J os ce name m = (m', Inr r, outs)" "ca_dir m = Some dir" "ca_config m = Some c"
  obtains f c' s evs where "profile_save J os dir (ca_disk m) \<lparr>cp_name = name, cp_gains = cr_eq r, cp_score = cr_score r, cp_noise = 0\<rparr> = (f, success)"
    "ca_disk m' = f" "update J ce c (set_eq_profile name) = (c', s, evs)" "ca_config m' = Some c'" "length (cr_eq r) = kEqBands"
proof -
  obtain cap where cap: "ca_capture m = Some cap" using assms(1) by (cases "ca_capture m") (auto simp: runCalibration_def)
  let ?pcm = "cap (nat \<lfloor>ca_rate m\<rfloor>)"
  note run = assms(1) [unfolded runCalibration_def Let_def, simplified cap option.case]
  obtain m1 s1 where p: "cal_persist J os name (cal_analyze m ?pcm) m = (m1, s1)" by (metis surj_pair)
  obtain m2 evs2 where c2: "cal_record J ce name m1 = (m2, evs2)" by (metis surj_pair)
  obtain c' s evs where u: "update J ce c (set_eq_profile name) = (c', s, evs)" by (metis prod_cases3)
  from run verification_passes [of m ?pcm] p c2
  have r: "r = cal_analyze m ?pcm" "st_ok s1" "m' = m2\<lparr>ca_state := Cal_Completed\<rparr>"
    by (auto simp: cal_fail_def split: if_splits)
  have sv: "profile_save J os dir (ca_disk m) \<lparr>cp_name = name, cp_gains = cr_eq r, cp_score = cr_score r, cp_noise = 0\<rparr> = (ca_disk m1, s1)"
    using p assms(2) r by (auto simp: cal_persist_def split: prod.splits)
  moreover have "s1 = success" using sv r(2) by (auto simp: profile_save_def Let_def split: if_splits)
  moreover have "ca_disk m' = ca_disk m1" "ca_config m' = Some c'"
    using c2 u assms(3) r(3) persist_keeps [OF p] record_outs [OF c2] by (auto simp: cal_record_def)
  moreover have "length (cr_eq r) = kEqBands" by (simp add: r cal_analyze_def Let_def)
  ultimately show thesis using that u by blast
qed

lemma eq_profile_set [simp]: "eq_profile (audio (set_eq_profile n c)) = n" "delay_ms (audio (set_eq_profile n c)) = delay_ms (audio c)"
  by (simp_all add: set_eq_profile_def)

lemma eq_profile_forget [simp]: "eq_profile (audio (forget_name c)) = eq_profile (audio c)"
  by (simp add: forget_name_def)

text \<open>C30. 
  A completed calibration survives the next boot: if the configuration accepted the profile's name, then loading the
  configuration from disk and running the startup code with a new manager on the same files applies exactly the curve the run
  computed. The one exception is a profile named \<open>default\<close>: the run stores it like any other, but the startup code takes that
  name for the absence of a calibration and applies nothing. The JSON library is assumed to read back the two documents it
  printed.
\<close>

theorem calibration_survives_reboot:
  assumes "getters_exact J"
    and "runCalibration J os ce name m = (m', Inr r, outs)" "ca_dir m = Some dir" "ca_config m = Some c"
    and "ca_config m' = Some c'" "st_ok (fst (snd (update J ce c (set_eq_profile name))))"
    and "let d = profile_json \<lparr>cp_name = name, cp_gains = cr_eq r, cp_score = cr_score r, cp_noise = 0\<rparr> in jl_parse J (jl_dump2 J d) = Some d"
    and "let d = config_to_json (set_eq_profile name (get c)) in jl_parse J (jl_dump2 J d) = Some d"
    and "delay_ms (audio (get c)) < 2 ^ 31" "ce_readable ce' (cm_path c)" "readable (pathFor dir name)"
    and "ca_dir m2 = Some dir" "ca_disk m2 = ca_disk m'" "ca_apply m2"
  shows "reapply_profile J readable (get (fst (load J ce' c'))) m2 = (if name = ''default'' then [] else [Out_Apply (cr_eq r)])"
proof -
  obtain f c2 s evs where *: "profile_save J os dir (ca_disk m) \<lparr>cp_name = name, cp_gains = cr_eq r, cp_score = cr_score r, cp_noise = 0\<rparr> = (f, success)"
    "ca_disk m' = f" "update J ce c (set_eq_profile name) = (c2, s, evs)" "ca_config m' = Some c2" "length (cr_eq r) = kEqBands"
    using run_success [OF assms(2-4)] .
  have c2: "c2 = c'" using * assms(5) by simp
  have "st_ok s" using assms(6) * by simp
  then have "load J ce' c' = (c'\<lparr>cm_config := forget_name (set_eq_profile name (get c))\<rparr>, success, [])"
    using assms(8,9,10) * c2 by (intro update_then_load [OF assms(1), where env = ce and m = c and s = s and evs = evs]) (simp_all add: Let_def)
  then have "eq_profile (audio (get (fst (load J ce' c')))) = name" by (simp add: get_def)
  moreover have "profile_load J readable dir f name = Inr \<lparr>cp_name = name, cp_gains = cr_eq r, cp_score = cr_score r, cp_noise = 0\<rparr>"
    "profile_has dir f name"
    using profile_save_load [OF assms(1) _ _ *(1), of readable] * assms(7,11) by (simp_all add: Let_def)
  ultimately show ?thesis using assms(12-14) *(2) by (simp add: reapply_profile_def applySavedProfile_def)
qed


text \<open>The status of the configuration update is ignored: a refusal leaves the old profile name in force while the run still
  reports success.\<close>

lemma config_refusal_is_silent:
  assumes "runCalibration J os ce name m = (m', Inr r, outs)" "ca_dir m = Some dir" "ca_config m = Some c"
    and "\<not> st_ok (fst (snd (update J ce c (set_eq_profile name))))"
  shows "\<exists>c'. ca_config m' = Some c' \<and> get c' = get c"
proof -
  obtain f c2 s evs where "update J ce c (set_eq_profile name) = (c2, s, evs)" "ca_config m' = Some c2"
    using run_success [OF assms(1-3)] .
  with cfg.upd_err [of J ce c "set_eq_profile name" c2 s evs] assms(4) show ?thesis by auto
qed

definition demo_cal :: calman where
  "demo_cal = setHooks (Some (\<lambda>_. [0])) True True
     (calman_new True (Some (cfgman_new ''c.json'' Map.empty)) (Some ''cal'') Map.empty 48000)"

definition demo_profile :: json where
  "demo_profile = profile_json \<lparr>cp_name = ''room'', cp_gains = cr_eq (cal_analyze demo_cal [0]),
     cp_score = cr_score (cal_analyze demo_cal [0]), cp_noise = 0\<rparr>"

definition demo_config :: json where
  "demo_config = config_to_json (set_eq_profile ''room'' defaults)"

definition demo_cal_lib :: json_lib where
  "demo_cal_lib = (demo_lib ''p'' demo_profile)\<lparr>jl_parse := (\<lambda>s. if s = ''p'' then Some demo_profile else Some demo_config),
     jl_dump2 := (\<lambda>j. if j = demo_profile then ''p'' else ''c'')\<rparr>"

lemma demo_cal_lib_ok:
  "getters_exact demo_cal_lib" "jl_parse demo_cal_lib (jl_dump2 demo_cal_lib demo_profile) = Some demo_profile"
  "jl_parse demo_cal_lib (jl_dump2 demo_cal_lib demo_config) = Some demo_config"
  using demo_lib_getters_exact [of "''p''" demo_profile] by (simp_all add: demo_cal_lib_def getters_exact_def)

lemma demo_update: "st_ok (fst (snd (update demo_cal_lib cfg_env_fine (cfgman_new ''c.json'' Map.empty) (set_eq_profile ''room''))))"
proof -
  have "valid_config (set_eq_profile ''room'' defaults)" by (simp add: valid_config_iff set_eq_profile_def default_defs)
  with persist_fine [of "set_eq_profile ''room'' defaults" cfg_env_fine demo_cal_lib "cfgman_new ''c.json'' Map.empty"]
  show ?thesis by (auto simp: update_def Let_def cfgman_new_def cfg_env_fine_def valid_config_def split: prod.splits)
qed

lemma demo_cal_run:
  "\<exists>m' outs c'. runCalibration demo_cal_lib os_fine cfg_env_fine ''room'' demo_cal = (m', Inr (cal_analyze demo_cal [0]), outs) \<and> ca_config m' = Some c'"
proof -
  let ?r = "cal_analyze demo_cal [0]"
  have cap: "ca_capture demo_cal = Some (\<lambda>_. [0])" by (simp add: demo_cal_def setHooks_def)
  have name: "validName ''room''" by (simp add: validName_def alnum_def Let_def)
  obtain m1 s where p: "cal_persist demo_cal_lib os_fine ''room'' ?r demo_cal = (m1, s)" by (metis surj_pair)
  have s: "s = success" "ca_config m1 \<noteq> None"
    using p name by (auto simp: cal_persist_def demo_cal_def setHooks_def calman_new_def profile_save_def Let_def os_fine_def)
  obtain m2 evs where c: "cal_record demo_cal_lib cfg_env_fine ''room'' m1 = (m2, evs)" by (metis surj_pair)
  have "ca_config m2 \<noteq> None" using c s(2) by (auto simp: cal_record_def split: option.splits prod.splits)
  with cap p s c verification_passes [of demo_cal "[0]"] show ?thesis by (simp add: runCalibration_def Let_def)
qed

theorem calibration_survives_reboot_witness:
  "\<exists>m' outs c'. runCalibration demo_cal_lib os_fine cfg_env_fine ''room'' demo_cal = (m', Inr (cal_analyze demo_cal [0]), outs) \<and>
     ca_config m' = Some c' \<and>
     reapply_profile demo_cal_lib (\<lambda>_. True) (get (fst (load demo_cal_lib cfg_env_fine c'))) (demo_cal\<lparr>ca_disk := ca_disk m'\<rparr>)
       = [Out_Apply (cr_eq (cal_analyze demo_cal [0]))]"
proof -
  obtain m' outs c' where r: "runCalibration demo_cal_lib os_fine cfg_env_fine ''room'' demo_cal = (m', Inr (cal_analyze demo_cal [0]), outs)"
    "ca_config m' = Some c'" using demo_cal_run by blast
  have get: "get (cfgman_new ''c.json'' Map.empty) = defaults" by (simp add: get_def cfgman_new_def)
  have "reapply_profile demo_cal_lib (\<lambda>_. True) (get (fst (load demo_cal_lib cfg_env_fine c'))) (demo_cal\<lparr>ca_disk := ca_disk m'\<rparr>)
       = [Out_Apply (cr_eq (cal_analyze demo_cal [0]))]"
  proof (rule calibration_survives_reboot [OF demo_cal_lib_ok(1) r(1) _ _ r(2) demo_update, simplified])
    show "ca_dir demo_cal = Some ''cal''" "ca_config demo_cal = Some (cfgman_new ''c.json'' Map.empty)"
      by (simp_all add: demo_cal_def setHooks_def calman_new_def)
    show "ca_dir (demo_cal\<lparr>ca_disk := ca_disk m'\<rparr>) = Some ''cal''" "ca_apply (demo_cal\<lparr>ca_disk := ca_disk m'\<rparr>)"
      by (simp_all add: demo_cal_def setHooks_def calman_new_def)
  qed (use demo_cal_lib_ok(2,3) in \<open>simp_all add: Let_def get demo_profile_def demo_config_def cfg_env_fine_def default_defs\<close>)
  with r show ?thesis by blast
qed

end
