(* ===== verification/Measure.thy ===== *)
theory Measure
  imports Complex_Main Microphone
begin

text \<open>
  Acoustic distance measurement, \<open>src/measure\<close>: the stimuli, the arrival detector (normalised cross-correlation), the
  conversion of a lag to a distance and \<open>MeasurementService::measure\<close>, whose play-and-record hook is a parameter.
  Samples, correlations and times are real numbers; \<open>long\<close> lags are integers.
\<close>

section \<open>Stimuli\<close>

definition stim_len :: "real \<Rightarrow> real \<Rightarrow> nat" where
  "stim_len duration_s sample_rate = nat \<lfloor>duration_s * sample_rate\<rfloor>"

definition logChirp :: "real \<Rightarrow> real \<Rightarrow> real \<Rightarrow> real \<Rightarrow> real \<Rightarrow> real list" where
  "logChirp duration_s sample_rate f0 f1 amplitude =
     (let n = stim_len duration_s sample_rate; k = ln (f1 / f0)
      in map (\<lambda>i.
           let t = real i / sample_rate;
               phase = 2 * pi * f0 * duration_s / k * (exp (t * k / duration_s) - 1);
               w = 1 / 2 * (1 - cos (2 * pi * real i / real (n - 1)))
           in amplitude * sin phase * w) [0..<n])"

definition impulse :: "real \<Rightarrow> real \<Rightarrow> real \<Rightarrow> real list" where
  "impulse duration_s sample_rate amplitude =
     (let n = stim_len duration_s sample_rate; out = replicate n 0
      in if n > 0 then out[n div 2 := amplitude] else out)"

section \<open>Arrival detection\<close>

record arrival =
  ar_lag :: int
  ar_lag_ms :: real
  ar_peak :: real
  ar_second :: real
  ar_found :: bool

definition arrival_none :: arrival where
  "arrival_none = \<lparr>ar_lag = 0, ar_lag_ms = 0, ar_peak = 0, ar_second = 0, ar_found = False\<rparr>"

definition ar_confidence :: "arrival \<Rightarrow> real" where
  "ar_confidence a =
     (if \<not> ar_found a \<or> ar_second a \<le> 0 then (if ar_found a then 1 else 0) else ar_peak a / ar_second a)"

definition normalize_signal :: "real list \<Rightarrow> real list" where
  "normalize_signal x =
     (if x = [] then x
      else let mean = foldl (+) 0 x / real (length x);
               centred = map (\<lambda>v. v - mean) x;
               sumsq = foldl (\<lambda>acc v. acc + v * v) 0 centred;
               scale = 1 / (sqrt sumsq + 1 / 10 ^ 12)
           in map (\<lambda>v. v * scale) centred)"

definition corr_at :: "real list \<Rightarrow> real list \<Rightarrow> nat \<Rightarrow> real" where
  "corr_at r s lag = foldl (\<lambda>acc i. acc + r ! (lag + i) * s ! i) 0 [0..<length s]"

text \<open>One step of the search: a strictly larger correlation becomes the best.\<close>

definition search_step :: "real \<times> int \<Rightarrow> int \<times> real \<Rightarrow> real \<times> int" where
  "search_step best ls = (if snd ls > fst best then (snd ls, fst ls) else best)"

definition findArrival :: "real list \<Rightarrow> real list \<Rightarrow> real \<Rightarrow> int \<Rightarrow> arrival" where
  "findArrival recording stimulus sample_rate max_lag =
     (if recording = [] \<or> stimulus = [] \<or> sample_rate \<le> 0 then arrival_none
      else if length recording < length stimulus then arrival_none
      else
        let r = normalize_signal recording; s = normalize_signal stimulus;
            max_possible = int (length r - length s);
            limit = (if max_lag < 0 \<or> max_lag > max_possible then max_possible else max_lag);
            corr = map (\<lambda>lag. corr_at r s lag) [0..<nat limit + 1] in
        case foldl search_step (- 1, 0) (map (\<lambda>lag. (int lag, corr ! lag)) [0..<nat limit + 1]) of (best, best_lag) \<Rightarrow>
          if best \<le> 0 then arrival_none
          else
            let guard = max 1 (trunc (sample_rate / 1000));
                second = foldl (\<lambda>m lag. if \<bar>int lag - best_lag\<bar> \<le> guard then m else max m (corr ! lag)) 0 [0..<nat limit + 1]
            in \<lparr>ar_lag = best_lag, ar_lag_ms = of_int best_lag * 1000 / sample_rate, ar_peak = best, ar_second = second,
                ar_found = True\<rparr>)"

section \<open>Distance\<close>

definition kSpeedOfSoundMps :: real where
  "kSpeedOfSoundMps = 343"

definition speedOfSoundAt :: "real \<Rightarrow> real" where
  "speedOfSoundAt celsius = 3313 / 10 + 606 / 1000 * celsius"

record latency_budget =
  lb_hardware :: real
  lb_network :: real

definition totalMs :: "latency_budget \<Rightarrow> real" where
  "totalMs b = lb_hardware b + lb_network b"

record distance_result =
  dr_distance :: real
  dr_acoustic :: real
  dr_valid :: bool
  dr_note :: string

definition toDistance :: "real \<Rightarrow> latency_budget \<Rightarrow> real \<Rightarrow> distance_result" where
  "toDistance lag_ms budget speed =
     (let acoustic = lag_ms - totalMs budget in
      if acoustic < - (1 / 2)
      then \<lparr>dr_distance = 0, dr_acoustic = acoustic, dr_valid = False,
            dr_note = ''measured lag is shorter than the configured latency budget - RTL is stale or network_rtl is unset''\<rparr>
      else let acoustic = (if acoustic < 0 then 0 else acoustic)
           in \<lparr>dr_distance = acoustic * speed / 1000, dr_acoustic = acoustic, dr_valid = True, dr_note = []\<rparr>)"

section \<open>The service\<close>

record mic_measurement =
  mm_index :: int
  mm_distance :: real
  mm_lag_ms :: real
  mm_confidence :: real
  mm_valid :: bool
  mm_note :: string

record measurement_result =
  mr_mics :: "mic_measurement list"
  mr_ok :: bool
  mr_message :: string

record measurement_request =
  rq_duration :: real
  rq_rate :: real
  rq_f0 :: real
  rq_f1 :: real
  rq_amplitude :: real
  rq_budget :: latency_budget
  rq_speed :: real
  rq_mics :: "int list"

definition request_default :: measurement_request where
  "request_default = \<lparr>rq_duration = 1, rq_rate = 48000, rq_f0 = 1000, rq_f1 = 15000, rq_amplitude = 4 / 10,
     rq_budget = \<lparr>lb_hardware = 0, lb_network = 0\<rparr>, rq_speed = kSpeedOfSoundMps, rq_mics = []\<rparr>"

record capture =
  cp_pcm :: "i16 list"
  cp_channels :: int

definition mic_new_reading :: "int \<Rightarrow> mic_measurement" where
  "mic_new_reading mic = \<lparr>mm_index = mic, mm_distance = 0, mm_lag_ms = 0, mm_confidence = 0, mm_valid = False, mm_note = []\<rparr>"

definition deinterleave :: "i16 list \<Rightarrow> nat \<Rightarrow> nat \<Rightarrow> nat \<Rightarrow> real list" where
  "deinterleave pcm frames channels mic = map (\<lambda>i. sample_real (pcm ! (i * channels + mic))) [0..<frames]"

definition measure_mic :: "measurement_request \<Rightarrow> real list \<Rightarrow> capture \<Rightarrow> nat \<Rightarrow> int \<Rightarrow> int \<Rightarrow> mic_measurement" where
  "measure_mic req stimulus cap frames max_lag mic =
     (let m = mic_new_reading mic in
      if mic < 0 \<or> mic \<ge> cp_channels cap then m\<lparr>mm_note := ''no such microphone channel''\<rparr>
      else
        let ch = deinterleave (cp_pcm cap) frames (nat (cp_channels cap)) (nat mic);
            a = findArrival ch stimulus (rq_rate req) max_lag in
        if \<not> ar_found a then m\<lparr>mm_note := ''no arrival detected (silence, or the mic is not hearing this speaker)''\<rparr>
        else
          let m = m\<lparr>mm_lag_ms := ar_lag_ms a, mm_confidence := ar_confidence a\<rparr>;
              d = toDistance (ar_lag_ms a) (rq_budget req) (rq_speed req) in
          if \<not> dr_valid d then m\<lparr>mm_note := dr_note d\<rparr>
          else m\<lparr>mm_distance := dr_distance d, mm_valid := True\<rparr>)"

definition measure_failed :: "string \<Rightarrow> measurement_result" where
  "measure_failed msg = \<lparr>mr_mics = [], mr_ok = False, mr_message = msg\<rparr>"

definition measure_all :: "(real list \<Rightarrow> capture) option \<Rightarrow> measurement_request \<Rightarrow> measurement_result" where
  "measure_all play_record req =
     (case play_record of
        None \<Rightarrow> measure_failed ''no capture backend on this device''
      | Some play \<Rightarrow>
          if rq_rate req \<le> 0 \<or> rq_duration req \<le> 0 then measure_failed ''invalid measurement parameters''
          else
            let stimulus = logChirp (rq_duration req) (rq_rate req) (rq_f0 req) (rq_f1 req) (rq_amplitude req) in
            if stimulus = [] then measure_failed ''stimulus is empty''
            else
              let cap = play stimulus in
              if cp_pcm cap = [] \<or> cp_channels cap \<le> 0 then measure_failed ''capture returned no audio''
              else
                let frames = length (cp_pcm cap) div nat (cp_channels cap) in
                if frames < length stimulus then measure_failed ''capture shorter than the stimulus''
                else
                  let mics = (if rq_mics req = [] then map int [0..<nat (cp_channels cap)] else rq_mics req);
                      max_ms = totalMs (rq_budget req) + 30 / rq_speed req * 1000;
                      max_lag = trunc (max_ms * rq_rate req / 1000);
                      out = map (measure_mic req stimulus cap frames max_lag) mics;
                      ok = (\<exists>m\<in>set out. mm_valid m)
                  in \<lparr>mr_mics = out, mr_ok = ok,
                      mr_message = (if ok then [] else ''no microphone produced a usable measurement'')\<rparr>)"

text \<open>The runner that \<open>Application\<close> installs for \<open>RUN_MEASUREMENT\<close>: its play-and-record hook captures twice the length of the
  stimulus from the microphone and plays nothing.\<close>

definition app_play_record :: "mic_hal \<Rightarrow> real list \<Rightarrow> capture" where
  "app_play_record h stimulus =
     (case mic_capture h (length stimulus * 2) of
        Inl _ \<Rightarrow> \<lparr>cp_pcm = [], cp_channels = 1\<rparr>
      | Inr pcm \<Rightarrow> \<lparr>cp_pcm = pcm, cp_channels = 1\<rparr>)"

definition measurement_params :: "json_lib \<Rightarrow> json \<Rightarrow> measurement_request option" where
  "measurement_params J params =
     do { duration \<leftarrow> j_value (jl_get_double J) params ''duration_s'' 1;
          f0 \<leftarrow> j_value (jl_get_double J) params ''f0'' 1000;
          f1 \<leftarrow> j_value (jl_get_double J) params ''f1'' 15000;
          amplitude \<leftarrow> j_value (jl_get_double J) params ''amplitude'' (4 / 10);
          hw \<leftarrow> j_value (jl_get_double J) params ''hardware_rtl_ms'' 0;
          nw \<leftarrow> j_value (jl_get_double J) params ''network_rtl_ms'' 0;
          speed \<leftarrow> (case j_find params ''speed_of_sound'' of
             Some v \<Rightarrow> jl_get_double J v
           | None \<Rightarrow> (case j_find params ''temperature_c'' of
               Some v \<Rightarrow> map_option speedOfSoundAt (jl_get_double J v)
             | None \<Rightarrow> Some kSpeedOfSoundMps));
          Some (request_default\<lparr>rq_duration := duration, rq_rate := 48000, rq_f0 := f0, rq_f1 := f1, rq_amplitude := amplitude,
            rq_budget := \<lparr>lb_hardware = hw, lb_network = nw\<rparr>, rq_speed := speed\<rparr>) }"

definition mic_json :: "mic_measurement \<Rightarrow> json" where
  "mic_json m = JObj ([(''mic'', JInt (mm_index m + 1)), (''valid'', JBool (mm_valid m)), (''lag_ms'', JReal (mm_lag_ms m)),
     (''confidence'', JReal (mm_confidence m))] @
     (if mm_valid m then [(''distance_m'', JReal (mm_distance m))] else []) @
     (if mm_note m \<noteq> [] then [(''note'', JStr (mm_note m))] else []))"

definition run_measurement :: "json_lib \<Rightarrow> mic_hal \<Rightarrow> json \<Rightarrow> json option" where
  "run_measurement J h params =
     do { req \<leftarrow> measurement_params J params;
          let r = measure_all (Some (app_play_record h)) req;
          Some (JObj [(''ok'', JBool (mr_ok r)), (''message'', JStr (mr_message r)), (''mics'', JArr (map mic_json (mr_mics r))),
            (''synchronized'', JBool False),
            (''limitation'', JStr ''capture is not clock-locked to playback on this build; distances carry an unknown scheduling offset'')]) }"

section \<open>Sums\<close>

lemma fold_sum: "foldl (\<lambda>acc i. acc + f i) a xs = a + (\<Sum>i\<leftarrow>xs. f i)" for a :: real
  by (induction xs arbitrary: a) simp_all

lemma fold_plus: "foldl (+) a xs = a + sum_list xs" for a :: real
  using fold_sum [of "\<lambda>x. x" a xs] by simp

lemma corr_at_sum: "corr_at r s lag = (\<Sum>i<length s. r ! (lag + i) * s ! i)"
  by (simp add: corr_at_def fold_sum interv_sum_list_conv_sum_set_nat atLeast0LessThan)

definition centre_scale :: "real list \<Rightarrow> real" where
  "centre_scale x = 1 / (sqrt (\<Sum>v\<leftarrow>x. (v - sum_list x / real (length x))\<^sup>2) + 1 / 10 ^ 12)"

lemma centre_scale_pos: "0 < centre_scale x"
  unfolding centre_scale_def by (intro divide_pos_pos add_nonneg_pos real_sqrt_ge_zero sum_list_nonneg) auto

lemma normalize_eq: "normalize_signal x = map (\<lambda>v. (v - sum_list x / real (length x)) * centre_scale x) x"
  by (simp add: normalize_signal_def Let_def fold_plus fold_sum centre_scale_def comp_def power2_eq_square)

lemma length_normalize [simp]: "length (normalize_signal x) = length x"
  by (simp add: normalize_eq)

lemma normalize_energy: "(\<Sum>v\<leftarrow>normalize_signal x. v\<^sup>2) \<le> 1"
proof -
  let ?q = "\<Sum>v\<leftarrow>x. (v - sum_list x / real (length x))\<^sup>2"
  have q: "0 \<le> ?q" by (intro sum_list_nonneg) auto
  have "(\<Sum>v\<leftarrow>normalize_signal x. v\<^sup>2) = ?q * (centre_scale x)\<^sup>2"
    by (simp add: normalize_eq comp_def power_mult_distrib sum_list_mult_const)
  also have "\<dots> = (sqrt ?q * centre_scale x)\<^sup>2" using q by (simp add: power_mult_distrib)
  also have "\<dots> \<le> 1"
  proof -
    have "sqrt ?q * centre_scale x \<le> 1" using q by (simp add: centre_scale_def divide_le_eq_1 add_nonneg_pos)
    moreover have "0 \<le> sqrt ?q * centre_scale x" using q centre_scale_pos [of x] by simp
    ultimately show ?thesis by (simp add: power_le_one)
  qed
  finally show ?thesis .
qed

section \<open>The search\<close>

lemma search_spec:
  "foldl search_step (- 1, 0) (map (\<lambda>l. (int l, f l)) [0..<n]) = (b, k) \<Longrightarrow>
     (\<forall>j<n. f j \<le> b) \<and> (b = - 1 \<and> k = 0 \<or> (\<exists>l<n. k = int l \<and> b = f l \<and> (\<forall>j<l. f j < b)))"
proof (induction n arbitrary: b k)
  case (Suc n)
  obtain b0 k0 where bk: "foldl search_step (- 1, 0) (map (\<lambda>l. (int l, f l)) [0..<n]) = (b0, k0)" by (metis surj_pair)
  note IH = Suc.IH [OF bk]
  have st: "(b, k) = search_step (b0, k0) (int n, f n)" using Suc.prems bk by simp
  show ?case
  proof (cases "f n > b0")
    case True
    with st have "b = f n" "k = int n" by (simp_all add: search_step_def)
    moreover have "\<forall>j<n. f j < f n" using IH True by force
    ultimately show ?thesis by (auto simp: less_Suc_eq)
  next
    case False
    with st have "b = b0" "k = k0" by (simp_all add: search_step_def)
    with IH False show ?thesis by (auto simp: less_Suc_eq)
  qed
qed simp

definition lag_limit :: "real list \<Rightarrow> real list \<Rightarrow> int \<Rightarrow> nat" where
  "lag_limit recording stimulus max_lag =
     (let p = length recording - length stimulus in if max_lag < 0 \<or> max_lag > int p then p else nat max_lag)"

definition lag_search :: "(nat \<Rightarrow> real) \<Rightarrow> nat \<Rightarrow> real \<times> int" where
  "lag_search f n = foldl search_step (- 1, 0) (map (\<lambda>lag. (int lag, f lag)) [0..<n])"

definition second_peak :: "(nat \<Rightarrow> real) \<Rightarrow> nat \<Rightarrow> int \<Rightarrow> int \<Rightarrow> real" where
  "second_peak f n k guard = foldl (\<lambda>m lag. if \<bar>int lag - k\<bar> \<le> guard then m else max m (f lag)) 0 [0..<n]"

text \<open>The detector with its arrays read as functions of the lag.\<close>

lemma findArrival_eq:
  assumes "recording \<noteq> []" "stimulus \<noteq> []" "0 < rate" "length stimulus \<le> length recording"
    and "f = corr_at (normalize_signal recording) (normalize_signal stimulus)" "n = lag_limit recording stimulus max_lag + 1" "lag_search f n = (b, k)"
  shows "findArrival recording stimulus rate max_lag = (if b \<le> 0 then arrival_none
     else \<lparr>ar_lag = k, ar_lag_ms = of_int k * 1000 / rate, ar_peak = b, ar_second = second_peak f n k (max 1 (trunc (rate / 1000))), ar_found = True\<rparr>)"
proof -
  have lim: "nat (if max_lag < 0 \<or> max_lag > int (length recording - length stimulus) then int (length recording - length stimulus) else max_lag) + 1 = n"
    by (simp add: assms(6) lag_limit_def Let_def)
  have map: "map (\<lambda>lag. (int lag, map f [0..<n] ! lag)) [0..<n] = map (\<lambda>lag. (int lag, f lag)) [0..<n]" by simp
  have fold: "foldl (\<lambda>m lag. if \<bar>int lag - k\<bar> \<le> g then m else max m (map f [0..<n] ! lag)) 0 [0..<n] =
      foldl (\<lambda>m lag. if \<bar>int lag - k\<bar> \<le> g then m else max m (f lag)) 0 [0..<n]" for k g
    by (intro foldl_cong refl) auto
  show ?thesis
    unfolding findArrival_def Let_def length_normalize assms(5) [symmetric] lim map fold using assms(1-4,7)
    by (auto simp: lag_search_def second_peak_def)
qed

lemma findArrival_found:
  assumes "ar_found (findArrival recording stimulus rate max_lag)"
  defines "a \<equiv> findArrival recording stimulus rate max_lag" and "f \<equiv> corr_at (normalize_signal recording) (normalize_signal stimulus)"
    and "n \<equiv> lag_limit recording stimulus max_lag"
  shows "\<exists>l\<le>n. ar_lag a = int l \<and> ar_lag_ms a = real l * 1000 / rate \<and> ar_peak a = f l \<and> 0 < f l \<and> (\<forall>j\<le>n. f j \<le> f l) \<and>
           length stimulus \<le> length recording \<and> ar_second a = second_peak f (n + 1) (int l) (max 1 (trunc (rate / 1000)))"
proof -
  have guard: "recording \<noteq> []" "stimulus \<noteq> []" "0 < rate" "length stimulus \<le> length recording"
    using assms(1) by (auto simp: findArrival_def arrival_none_def split: if_splits)
  obtain b k where bk: "lag_search f (n + 1) = (b, k)" by (metis surj_pair)
  note a = findArrival_eq [OF guard f_def [THEN meta_eq_to_obj_eq] n_def [THEN meta_eq_to_obj_eq, THEN arg_cong, of "\<lambda>x. x + 1"] bk]
  have b: "0 < b" using assms(1) a by (auto simp: arrival_none_def split: if_splits)
  from search_spec [OF bk [unfolded lag_search_def]] b obtain l where "l < n + 1" "k = int l" "b = f l" "\<forall>j<n + 1. f j \<le> b" by auto
  with a b guard show ?thesis by (intro exI [of _ l]) (auto simp: a_def less_Suc_eq_le)
qed

lemma findArrival_unique_peak:
  assumes "recording \<noteq> []" "stimulus \<noteq> []" "0 < rate" "length stimulus \<le> length recording"
  defines "f \<equiv> corr_at (normalize_signal recording) (normalize_signal stimulus)"
  assumes "L \<le> lag_limit recording stimulus max_lag" "0 < f L" "\<And>j. j \<le> lag_limit recording stimulus max_lag \<Longrightarrow> j \<noteq> L \<Longrightarrow> f j < f L"
  shows "ar_found (findArrival recording stimulus rate max_lag)" "ar_lag (findArrival recording stimulus rate max_lag) = int L"
    "ar_lag_ms (findArrival recording stimulus rate max_lag) = real L * 1000 / rate"
proof -
  obtain b k where bk: "lag_search f (lag_limit recording stimulus max_lag + 1) = (b, k)" by (metis surj_pair)
  note sp = search_spec [OF bk [unfolded lag_search_def]]
  then have "f L \<le> b" using assms(6) by simp
  then have b: "0 < b" using assms(7) by linarith
  with sp obtain l where l: "l < lag_limit recording stimulus max_lag + 1" "k = int l" "b = f l" by auto
  have "l = L" using assms(8) [of l] l \<open>f L \<le> b\<close> by force
  with findArrival_eq [OF assms(1-4) f_def [THEN meta_eq_to_obj_eq] refl bk] b l
  show "ar_found (findArrival recording stimulus rate max_lag)" "ar_lag (findArrival recording stimulus rate max_lag) = int L"
    "ar_lag_ms (findArrival recording stimulus rate max_lag) = real L * 1000 / rate" by simp_all
qed

section \<open>Bounds of a detection\<close>

lemma window_energy:
  fixes xs :: "real list"
  assumes "l + n \<le> length xs"
  shows "(\<Sum>i<n. (xs ! (l + i))\<^sup>2) \<le> (\<Sum>v\<leftarrow>xs. v\<^sup>2)"
proof -
  have "(\<Sum>i<n. (xs ! (l + i))\<^sup>2) = (\<Sum>j\<in>{l..<l + n}. (xs ! j)\<^sup>2)"
    by (subst sum.atLeastLessThan_shift_0) (simp add: atLeast0LessThan comp_def)
  also have "\<dots> \<le> (\<Sum>j\<in>{0..<length xs}. (xs ! j)\<^sup>2)" using assms by (intro sum_mono2) auto
  also have "\<dots> = (\<Sum>v\<leftarrow>xs. v\<^sup>2)" by (simp add: sum_list_sum_nth)
  finally show ?thesis .
qed

lemma corr_le_1:
  assumes "l + length stimulus \<le> length recording"
  shows "corr_at (normalize_signal recording) (normalize_signal stimulus) l \<le> 1"
proof -
  let ?r = "normalize_signal recording" and ?s = "normalize_signal stimulus"
  have "2 * (?r ! (l + i) * ?s ! i) \<le> (?r ! (l + i))\<^sup>2 + (?s ! i)\<^sup>2" for i
    using sum_squares_bound [of "?r ! (l + i)" "?s ! i"] by (simp add: mult.assoc)
  then have "2 * corr_at ?r ?s l \<le> (\<Sum>i<length ?s. (?r ! (l + i))\<^sup>2 + (?s ! i)\<^sup>2)"
    unfolding corr_at_sum sum_distrib_left by (intro sum_mono) auto
  also have "\<dots> = (\<Sum>i<length ?s. (?r ! (l + i))\<^sup>2) + (\<Sum>i<length ?s. (?s ! (0 + i))\<^sup>2)" by (simp add: sum.distrib)
  also have "\<dots> \<le> 1 + 1"
    using assms by (intro add_mono order_trans [OF window_energy normalize_energy]) auto
  finally show ?thesis by simp
qed

lemma second_le:
  fixes f :: "nat \<Rightarrow> real"
  assumes "\<forall>j\<le>n. f j \<le> b" "0 \<le> b"
  shows "second_peak f (n + 1) k guard \<le> b"
proof -
  have "foldl (\<lambda>m lag. if P lag then m else max m (f lag)) m xs \<le> b" if "m \<le> b" "\<forall>x\<in>set xs. f x \<le> b" for P m xs
    using that by (induction xs arbitrary: m) auto
  then show ?thesis unfolding second_peak_def using assms by (simp add: less_Suc_eq_le)
qed

text \<open>
  A reported arrival is inside the search window, its peak is a true normalised correlation - above zero and at most
  one - and its confidence is never below one.
\<close>

lemma arrival_bounds:
  assumes "ar_found (findArrival recording stimulus rate max_lag)"
  defines "a \<equiv> findArrival recording stimulus rate max_lag"
  shows "0 \<le> ar_lag a" "ar_lag a \<le> int (lag_limit recording stimulus max_lag)" "0 < ar_peak a" "ar_peak a \<le> 1"
    "ar_second a \<le> ar_peak a" "1 \<le> ar_confidence a"
proof -
  let ?f = "corr_at (normalize_signal recording) (normalize_signal stimulus)"
  from findArrival_found [OF assms(1)] obtain l where l: "l \<le> lag_limit recording stimulus max_lag" "ar_lag a = int l" "ar_peak a = ?f l" "0 < ?f l"
    "\<forall>j\<le>lag_limit recording stimulus max_lag. ?f j \<le> ?f l" "length stimulus \<le> length recording"
    "ar_second a = second_peak ?f (lag_limit recording stimulus max_lag + 1) (int l) (max 1 (trunc (rate / 1000)))"
    unfolding a_def by blast
  have "lag_limit recording stimulus max_lag \<le> length recording - length stimulus" by (auto simp: lag_limit_def Let_def)
  then show "0 \<le> ar_lag a" "ar_lag a \<le> int (lag_limit recording stimulus max_lag)" "0 < ar_peak a" "ar_peak a \<le> 1"
    using l corr_le_1 [of l stimulus recording] by auto
  show "ar_second a \<le> ar_peak a" unfolding l(3,7) using l(4) by (intro second_le l(5)) simp
  with l(4) show "1 \<le> ar_confidence a" using assms(1) by (simp add: ar_confidence_def l(3) a_def [symmetric])
qed

section \<open>An undisturbed arrival is found exactly\<close>

definition padded :: "real list \<Rightarrow> int \<Rightarrow> real" where
  "padded s i = (if 0 \<le> i \<and> i < int (length s) then s ! nat i else 0)"

lemma padded_shift_zero:
  assumes "\<forall>i. 0 \<le> i \<and> i < int (length s) \<longrightarrow> padded s i = padded s (i + d)" "d \<noteq> 0"
  shows "padded s i = 0"
proof (cases "0 < d")
  case True
  show ?thesis
  proof (induction "nat (int (length s) - i)" arbitrary: i rule: less_induct)
    case less
    show ?case
    proof (cases "0 \<le> i \<and> i < int (length s)")
      case in_range: True
      with True have "padded s (i + d) = 0" by (intro less) auto
      with in_range assms(1) show ?thesis by simp
    qed (auto simp: padded_def)
  qed
next
  case False
  show ?thesis
  proof (induction "nat i" arbitrary: i rule: less_induct)
    case less
    show ?case
    proof (cases "0 \<le> i \<and> i < int (length s)")
      case in_range: True
      have "padded s (i + d) = 0"
      proof (cases "i + d < 0")
        case neg: False
        with False assms(2) show ?thesis by (intro less) auto
      qed (simp add: padded_def)
      with in_range assms(1) show ?thesis by simp
    qed (auto simp: padded_def)
  qed
qed

lemma shifted_energy: "(\<Sum>i\<in>{0..<int (length s)}. (padded s (i + d))\<^sup>2) \<le> (\<Sum>i\<in>{0..<int (length s)}. (padded s i)\<^sup>2)"
proof -
  let ?N = "int (length s)"
  have "(\<Sum>i\<in>{0..<?N}. (padded s (i + d))\<^sup>2) = (\<Sum>j\<in>{d..<?N + d}. (padded s j)\<^sup>2)"
    by (rule sum.reindex_bij_witness [of _ "\<lambda>j. j - d" "\<lambda>i. i + d"]) auto
  also have "\<dots> = (\<Sum>j\<in>{d..<?N + d} \<inter> {0..<?N}. (padded s j)\<^sup>2)"
    by (rule sum.mono_neutral_right) (auto simp: padded_def)
  also have "\<dots> \<le> (\<Sum>i\<in>{0..<?N}. (padded s i)\<^sup>2)" by (intro sum_mono2) auto
  finally show ?thesis .
qed

text \<open>The autocorrelation of a finite nonzero signal has its only maximum at lag zero.\<close>

lemma autocorrelation_peak:
  assumes "\<exists>v\<in>set s. v \<noteq> 0" "d \<noteq> 0"
  shows "(\<Sum>i\<in>{0..<int (length s)}. padded s (i + d) * padded s i) < (\<Sum>i\<in>{0..<int (length s)}. (padded s i)\<^sup>2)"
proof -
  let ?I = "{0..<int (length s)}"
  obtain k where "k < length s" "s ! k \<noteq> 0" using assms(1) by (auto simp: in_set_conv_nth)
  then have "padded s (int k) \<noteq> 0" by (simp add: padded_def)
  with padded_shift_zero [of s d "int k"] assms(2) obtain j where j: "j \<in> ?I" "padded s j \<noteq> padded s (j + d)" by auto
  have "0 < (\<Sum>i\<in>?I. (padded s i - padded s (i + d))\<^sup>2)" using j by (intro sum_pos2 [of _ j]) auto
  also have "\<dots> = (\<Sum>i\<in>?I. (padded s i)\<^sup>2) + (\<Sum>i\<in>?I. (padded s (i + d))\<^sup>2) - 2 * (\<Sum>i\<in>?I. padded s (i + d) * padded s i)"
    by (simp add: power2_diff sum.distrib sum_subtractf sum_distrib_left algebra_simps)
  finally show ?thesis using shifted_energy [of s d] by linarith
qed


lemma normalize_zero_mean: "sum_list x = 0 \<Longrightarrow> i < length x \<Longrightarrow> normalize_signal x ! i = x ! i * centre_scale x"
  by (simp add: normalize_eq)

lemma recording_nth:
  fixes g :: real
  assumes "j < L + length s + M"
  shows "(replicate L 0 @ map ((*) g) s @ replicate M 0) ! j = g * padded s (int j - int L)"
proof -
  consider "j < L" | "L \<le> j" "j < L + length s" | "L + length s \<le> j" by linarith
  then show ?thesis using assms by cases (auto simp: nth_append padded_def nat_diff_distrib)
qed

text \<open>C29. 
  If the recording is silence but for the stimulus, delayed by \<open>L\<close> samples and attenuated by any factor, and the
  stimulus has no constant part, the detector reports exactly \<open>L\<close> whenever \<open>L\<close> is within the search window.
\<close>

theorem arrival_exact:
  assumes "sum_list stimulus = 0" "\<exists>v\<in>set stimulus. v \<noteq> 0" "0 < g" "0 < rate" "max_lag < 0 \<or> int L \<le> max_lag"
    and "recording = replicate L 0 @ map ((*) g) stimulus @ replicate M 0"
  shows "ar_found (findArrival recording stimulus rate max_lag) \<and>
         ar_lag (findArrival recording stimulus rate max_lag) = int L \<and>
         ar_lag_ms (findArrival recording stimulus rate max_lag) = real L * 1000 / rate"
proof -
  let ?n = "length stimulus" and ?f = "corr_at (normalize_signal recording) (normalize_signal stimulus)"
  let ?K = "g * centre_scale recording * centre_scale stimulus" and ?I = "{0..<int (length stimulus)}"
  have K: "0 < ?K" using assms(3) centre_scale_pos by simp
  have len: "length recording = L + ?n + M" by (simp add: assms(6))
  have sum: "sum_list recording = 0" using assms(1) by (simp add: assms(6) sum_list_replicate sum_list_const_mult)
  have f: "?f l = ?K * (\<Sum>i\<in>?I. padded stimulus (i + (int l - int L)) * padded stimulus i)" if "l \<le> L + M" for l
  proof -
    have "?f l = (\<Sum>i<?n. ?K * (padded stimulus (int i + (int l - int L)) * padded stimulus (int i)))"
      unfolding corr_at_sum length_normalize
    proof (rule sum.cong [OF refl])
      fix i assume "i \<in> {..<?n}"
      then have i: "i < ?n" "l + i < L + ?n + M" using that by auto
      then have "normalize_signal recording ! (l + i) = g * padded stimulus (int (l + i) - int L) * centre_scale recording"
        using normalize_zero_mean [OF sum, of "l + i"] recording_nth [OF i(2), of g] len by (simp add: assms(6))
      moreover have "normalize_signal stimulus ! i = padded stimulus (int i) * centre_scale stimulus"
        using normalize_zero_mean [OF assms(1) i(1)] i by (simp add: padded_def)
      ultimately show "normalize_signal recording ! (l + i) * normalize_signal stimulus ! i = ?K * (padded stimulus (int i + (int l - int L)) * padded stimulus (int i))"
        by (simp add: algebra_simps)
    qed
    then show ?thesis by (simp add: sum_distrib_left sum.atLeast_int_lessThan_int_shift [of _ 0, simplified] atLeast0LessThan)
  qed
  obtain k where "k < ?n" "stimulus ! k \<noteq> 0" using assms(2) by (auto simp: in_set_conv_nth)
  then have "0 < (\<Sum>i\<in>?I. (padded stimulus i)\<^sup>2)" by (intro sum_pos2 [of _ "int k"]) (auto simp: padded_def)
  then have peak: "0 < ?f L" using K f [of L] by (simp add: power2_eq_square)
  have lim: "lag_limit recording stimulus max_lag \<le> L + M" "L \<le> lag_limit recording stimulus max_lag"
    using assms(5) by (auto simp: lag_limit_def Let_def len)
  have other: "?f j < ?f L" if "j \<le> lag_limit recording stimulus max_lag" "j \<noteq> L" for j
    using mult_strict_left_mono [OF autocorrelation_peak [OF assms(2), of "int j - int L"] K] that lim f [of j] f [of L]
    by (simp add: power2_eq_square)
  have "stimulus \<noteq> []" "recording \<noteq> []" "?n \<le> length recording" using assms(2,6) by auto
  then show ?thesis using findArrival_unique_peak [of recording stimulus rate L max_lag] assms(4) lim peak other by blast
qed

theorem arrival_exact_witness:
  "ar_lag (findArrival [0, 0, 0, 1 / 2, - 1 / 2, 0] [1, - 1] 48000 (- 1)) = 3"
  using arrival_exact [of "[1, - 1]" "1 / 2" 48000 "- 1" 3 "[0, 0, 0, 1 / 2, - 1 / 2, 0]" 1]
  by (simp add: numeral_3_eq_3)

text \<open>A lag that is the latency budget plus the flight time over a distance is converted back to that distance.\<close>

lemma distance_exact:
  assumes "0 < c" "0 \<le> d"
  shows "toDistance (totalMs b + d / c * 1000) b c = \<lparr>dr_distance = d, dr_acoustic = d / c * 1000, dr_valid = True, dr_note = []\<rparr>"
proof -
  have "0 \<le> d / c * 1000" using assms by simp
  then have "\<not> d / c * 1000 < - (1 / 2)" "\<not> d / c * 1000 < 0" by linarith+
  then show ?thesis using assms by (simp add: toDistance_def Let_def)
qed

text \<open>A valid distance is never negative, and a lag below the budget by more than half a millisecond is refused.\<close>

lemma distance_valid_iff:
  "dr_valid (toDistance lag b c) \<longleftrightarrow> totalMs b - 1 / 2 \<le> lag"
  "0 \<le> c \<Longrightarrow> 0 \<le> dr_distance (toDistance lag b c)"
  by (auto simp: toDistance_def Let_def)

text \<open>A reading only counts as valid with a detected arrival, and the reply is ok exactly when some reading is.\<close>

lemma measure_ok_iff:
  "mr_ok (measure_all play req) \<longleftrightarrow> (\<exists>m\<in>set (mr_mics (measure_all play req)). mm_valid m)"
  by (auto simp: measure_all_def measure_failed_def Let_def split: option.splits if_splits)

text \<open>The installed hook ignores the content of the stimulus: what is captured is the same whatever was to be played.\<close>

lemma runner_plays_nothing: "length s = length s' \<Longrightarrow> app_play_record h s = app_play_record h s'"
  by (simp add: app_play_record_def)

end
