(* ===== verification/Services.thy ===== *)
theory Services
  imports Config_Manager
begin

text \<open>
  Four small services of the speaker: diagnostics (\<open>DiagnosticService\<close>), heartbeats and alerts
  (\<open>StatusService\<close>), the search for the paired streamer (\<open>DiscoveryService\<close>) and the optional Bluetooth
  sink (\<open>BluetoothManager\<close>). Drivers are parameters: the results of their calls are arguments. The search worker is a
  labelled step function, so that its steps interleave with those of the threads that start and stop it.
\<close>

section \<open>Diagnostics\<close>

datatype check_result = Chk_Ok | Chk_Warning | Chk_Error

fun check_name :: "check_result \<Rightarrow> string" where
  "check_name Chk_Ok = ''ok''"
| "check_name Chk_Warning = ''warning''"
| "check_name Chk_Error = ''error''"

text \<open>A probe that throws is None.\<close>

record check =
  ck_name :: string
  ck_probe :: "(check_result \<times> string) option"

record diag_report =
  rp_test_id :: string
  rp_overall :: check_result
  rp_checks :: "(string \<times> check_result) list"

definition obj_set :: "(string \<times> json) list \<Rightarrow> string \<Rightarrow> json \<Rightarrow> (string \<times> json) list" where
  "obj_set kvs k v = (if k \<in> fst ` set kvs then map (\<lambda>(k', v'). if k' = k then (k, v) else (k', v')) kvs else kvs @ [(k, v)])"

definition report_json :: "diag_report \<Rightarrow> json" where
  "report_json r = JObj [(''test_id'', JStr (rp_test_id r)), (''status'', JStr ''completed''),
     (''result'', JStr (check_name (rp_overall r))),
     (''checks'', JObj (foldl (\<lambda>kvs (n, c). obj_set kvs n (JStr (check_name c))) [] (rp_checks r)))]"

definition check_step :: "diag_report \<Rightarrow> check \<Rightarrow> diag_report" where
  "check_step rep c =
     (let r = (case ck_probe c of None \<Rightarrow> Chk_Error | Some (r, _) \<Rightarrow> r);
          overall = (if r = Chk_Error then Chk_Error
                     else if r = Chk_Warning \<and> rp_overall rep = Chk_Ok then Chk_Warning else rp_overall rep)
      in rep\<lparr>rp_checks := rp_checks rep @ [(ck_name c, r)], rp_overall := overall\<rparr>)"

definition run_checks :: "check list \<Rightarrow> string \<Rightarrow> diag_report" where
  "run_checks checks test_id = foldl check_step \<lparr>rp_test_id = test_id, rp_overall = Chk_Ok, rp_checks = []\<rparr> checks"

definition addCheck :: "check list \<Rightarrow> string \<Rightarrow> (check_result \<times> string) option \<Rightarrow> check list" where
  "addCheck checks name probe = checks @ [\<lparr>ck_name = name, ck_probe = probe\<rparr>]"

instantiation check_result :: linorder
begin

fun less_eq_check_result :: "check_result \<Rightarrow> check_result \<Rightarrow> bool" where
  "less_eq_check_result Chk_Ok _ = True"
| "less_eq_check_result Chk_Warning Chk_Ok = False"
| "less_eq_check_result Chk_Warning _ = True"
| "less_eq_check_result Chk_Error r = (r = Chk_Error)"

definition less_check_result :: "check_result \<Rightarrow> check_result \<Rightarrow> bool" where
  "less_check_result a b = (a \<le> b \<and> \<not> b \<le> a)"

instance
proof
  fix x y z :: check_result
  show "(x < y) = (x \<le> y \<and> \<not> y \<le> x)" by (simp add: less_check_result_def)
  show "x \<le> x" by (cases x) simp_all
  show "x \<le> y \<Longrightarrow> y \<le> z \<Longrightarrow> x \<le> z" by (cases x; cases y; cases z) simp_all
  show "x \<le> y \<Longrightarrow> y \<le> x \<Longrightarrow> x = y" by (cases x; cases y) simp_all
  show "x \<le> y \<or> y \<le> x" by (cases x; cases y) simp_all
qed

end

lemma check_le_iff: "x \<le> Chk_Ok \<longleftrightarrow> x = Chk_Ok" "Chk_Warning \<le> x \<longleftrightarrow> x \<noteq> Chk_Ok" "x \<le> Chk_Error"
  by (cases x; simp)+

lemma check_step_overall: "rp_overall (check_step rep c) = max (rp_overall rep) (snd (last (rp_checks (check_step rep c))))"
  by (cases "rp_overall rep"; cases "ck_probe c"; cases "fst (the (ck_probe c))") (auto simp: check_step_def Let_def max_def check_le_iff split: prod.splits intro: check_result.exhaust)

text \<open>The overall result is the worst of the individual ones: it bounds each of them, and unless nothing is wrong one of them attains it.\<close>

lemma run_checks_spec:
  "foldl check_step rep checks = rep' \<Longrightarrow>
     rp_overall rep' = Max (insert (rp_overall rep) (snd ` set (drop (length (rp_checks rep)) (rp_checks rep')))) \<and>
     (\<exists>rs. rp_checks rep' = rp_checks rep @ rs \<and> map fst rs = map ck_name checks)"
proof (induction checks arbitrary: rep rep')
  case (Cons c checks)
  let ?s = "check_step rep c"
  obtain r where r: "rp_checks ?s = rp_checks rep @ [(ck_name c, r)]" by (simp add: check_step_def Let_def)
  from Cons.IH [of ?s rep'] Cons.prems obtain rs where IH: "rp_checks rep' = rp_checks ?s @ rs" "map fst rs = map ck_name checks"
    "rp_overall rep' = Max (insert (rp_overall ?s) (snd ` set rs))" by auto
  have "rp_overall ?s = max (rp_overall rep) r" using check_step_overall [of rep c] r by simp
  moreover have "Max (insert (max a r) A) = Max (insert a (insert r A))" if "finite A" for a A
    using that by (cases "A = {}") (simp_all add: max.assoc max.left_commute)
  ultimately show ?case using IH r by auto
qed simp

section \<open>Status\<close>

definition buildHeartbeat :: "string \<Rightarrow> speaker_config \<Rightarrow> int \<Rightarrow> json" where
  "buildHeartbeat dev cfg now = JObj
     [(''type'', JStr ''heartbeat''), (''device_id'', JStr dev), (''state'', JStr ''ONLINE''),
      (''volume'', JInt (volume (audio cfg))), (''muted'', JBool (muted (audio cfg))),
      (''software_version'', JStr (software_version (device cfg))), (''paired'', JBool (paired (pairing cfg))),
      (''timestamp'', JInt now)]"

fun alert_name :: "event_type \<Rightarrow> string option" where
  "alert_name Ev_AmplifierOverheat = Some ''AMPLIFIER_OVERHEAT''"
| "alert_name Ev_AmplifierFault = Some ''AMPLIFIER_FAULT''"
| "alert_name Ev_AmplifierProtection = Some ''AMPLIFIER_PROTECTION''"
| "alert_name Ev_AudioLost = Some ''AUDIO_LOST''"
| "alert_name Ev_StreamerDisconnected = Some ''STREAMER_DISCONNECTED''"
| "alert_name Ev_UpdateFailed = Some ''UPDATE_FAILED''"
| "alert_name Ev_MicFailure = Some ''MICROPHONE_FAILURE''"
| "alert_name Ev_TempWarning = Some ''TEMP_WARNING''"
| "alert_name _ = None"

text \<open>The default sink publishes the payload as a \<open>CommandExecuted\<close> event of the source \<open>status\<close>.\<close>

definition dispatch_status :: "json \<Rightarrow> event" where
  "dispatch_status payload = \<lparr>ev_type = Ev_CommandExecuted, ev_source = ''status'', ev_command_id = [], ev_data = payload\<rparr>"

definition sendHeartbeat :: "string \<Rightarrow> speaker_config \<Rightarrow> int \<Rightarrow> u64 \<Rightarrow> u64 \<times> event" where
  "sendHeartbeat dev cfg now count = (count + 1, dispatch_status (buildHeartbeat dev cfg now))"

definition status_onEvent :: "string \<Rightarrow> int \<Rightarrow> event \<Rightarrow> event list" where
  "status_onEvent dev now ev =
     (case alert_name (ev_type ev) of
        None \<Rightarrow> []
      | Some alert \<Rightarrow> [dispatch_status (JObj [(''type'', JStr ''alert''), (''device_id'', JStr dev), (''alert'', JStr alert),
            (''timestamp'', JInt now)])])"

text \<open>The service listens to every event, also to its own: what it publishes never makes it publish again.\<close>

lemma alerts_do_not_cascade: "e \<in> set (status_onEvent d now ev) \<Longrightarrow> status_onEvent d now' e = []"
  by (auto simp: status_onEvent_def dispatch_status_def split: option.splits)

section \<open>Discovery\<close>

record streamer_record =
  sr_id :: string
  sr_host :: string
  sr_port :: int
  sr_public_key :: string

datatype search_pc = No_Thread | At_Check | Browsing | Waiting | Finished

record discovery =
  ds_state :: service_state
  ds_advertising :: bool
  ds_searching :: bool
  ds_pc :: search_pc
  ds_target :: "string \<times> string"

definition discovery_new :: discovery where
  "discovery_new = \<lparr>ds_state = Svc_Stopped, ds_advertising = False, ds_searching = False, ds_pc = No_Thread, ds_target = ([], [])\<rparr>"

definition advertise :: "status \<Rightarrow> discovery \<Rightarrow> discovery \<times> status" where
  "advertise published d = (if \<not> st_ok published then (d, published) else (d\<lparr>ds_advertising := True\<rparr>, success))"

definition stopAdvertising :: "status \<Rightarrow> discovery \<Rightarrow> discovery \<times> status" where
  "stopAdvertising stopped d = (d\<lparr>ds_advertising := False\<rparr>, stopped)"

fun match_records :: "string \<Rightarrow> string \<Rightarrow> streamer_record list \<Rightarrow> streamer_record option" where
  "match_records i key [] = None"
| "match_records i key (r # rs) =
     (if sr_id r \<noteq> i then match_records i key rs
      else if key \<noteq> [] \<and> sr_public_key r \<noteq> key then match_records i key rs
      else Some r)"

definition matchOnce :: "streamer_record list result \<Rightarrow> string \<Rightarrow> string \<Rightarrow> streamer_record result" where
  "matchOnce browsed i key =
     (case browsed of
        Inl s \<Rightarrow> Inl s
      | Inr recs \<Rightarrow> (case match_records i key recs of
          Some r \<Rightarrow> Inr r
        | None \<Rightarrow> Inl (mk_error Ec_NotFound (''streamer not found: '' @ i))))"

definition found_event :: "streamer_record \<Rightarrow> event" where
  "found_event r = mk_event_data Ev_StreamerFound ''discovery''
     [(''streamer_id'', JStr (sr_id r)), (''host'', JStr (sr_host r)), (''port'', JInt (sr_port r))]"

definition findStreamer :: "streamer_record list result \<Rightarrow> string \<Rightarrow> string \<Rightarrow> streamer_record result \<times> event list" where
  "findStreamer browsed i key =
     (case matchOnce browsed i key of
        Inr r \<Rightarrow> (Inr r, [found_event r])
      | Inl s \<Rightarrow> (Inl s, [mk_event_data Ev_StreamerLost ''discovery'' [(''streamer_id'', JStr i)]]))"

text \<open>
  The steps of the search: \<open>S_Start\<close> is \<open>startSearching\<close> once its \<open>stopSearching\<close> has returned, \<open>S_Flag\<close> and \<open>S_Join\<close> are the
  two halves of \<open>stopSearching\<close>, the other three are the worker's. A step that is not enabled is None.
\<close>

datatype search_label =
    S_Start string string | S_Flag | S_Join
  | S_Check | S_Browse "streamer_record list result" | S_Wake

definition search_step :: "discovery \<Rightarrow> search_label \<Rightarrow> (discovery \<times> event list) option" where
  "search_step d l =
     (case l of
        S_Start i key \<Rightarrow>
          if ds_pc d = No_Thread then Some (d\<lparr>ds_target := (i, key), ds_searching := True, ds_pc := At_Check\<rparr>, []) else None
      | S_Flag \<Rightarrow> Some (if \<not> ds_searching d \<and> ds_pc d = No_Thread then d else d\<lparr>ds_searching := False\<rparr>, [])
      | S_Join \<Rightarrow> if ds_pc d = Finished then Some (d\<lparr>ds_pc := No_Thread\<rparr>, []) else None
      | S_Check \<Rightarrow>
          if ds_pc d = At_Check then Some (d\<lparr>ds_pc := (if ds_searching d then Browsing else Finished)\<rparr>, []) else None
      | S_Browse browsed \<Rightarrow>
          if ds_pc d \<noteq> Browsing then None
          else (case matchOnce browsed (fst (ds_target d)) (snd (ds_target d)) of
             Inr r \<Rightarrow> Some (d\<lparr>ds_searching := False, ds_pc := Finished\<rparr>, [found_event r])
           | Inl _ \<Rightarrow> Some (d\<lparr>ds_pc := Waiting\<rparr>, []))
      | S_Wake \<Rightarrow> if ds_pc d = Waiting then Some (d\<lparr>ds_pc := At_Check\<rparr>, []) else None)"

fun search_run :: "discovery \<Rightarrow> search_label list \<Rightarrow> (discovery \<times> event list) option" where
  "search_run d [] = Some (d, [])"
| "search_run d (l # ls) =
     (case search_step d l of None \<Rightarrow> None
      | Some (d', es) \<Rightarrow> (case search_run d' ls of None \<Rightarrow> None | Some (d'', es') \<Rightarrow> Some (d'', es @ es')))"

definition worker_label :: "search_label \<Rightarrow> bool" where
  "worker_label l = (case l of S_Check \<Rightarrow> True | S_Browse _ \<Rightarrow> True | S_Wake \<Rightarrow> True | _ \<Rightarrow> False)"

lemma match_records_spec:
  "match_records i key rs = Some r \<Longrightarrow> r \<in> set rs \<and> sr_id r = i \<and> (key \<noteq> [] \<longrightarrow> sr_public_key r = key)"
  by (induction rs) (auto split: if_splits)

lemma match_records_None:
  "match_records i key rs = None \<longleftrightarrow> (\<forall>r\<in>set rs. sr_id r = i \<longrightarrow> key \<noteq> [] \<and> sr_public_key r \<noteq> key)"
  by (induction rs) auto

text \<open>A stored key is never bypassed: with one, \<open>matchOnce\<close> answers with a record exactly when the browse returned a record with both the
  identifier and the key, and the record it answers with has both.\<close>

lemma spoofed_streamer_ignored:
  assumes "key \<noteq> []"
  shows "(\<exists>r. matchOnce (Inr recs) i key = Inr r) \<longleftrightarrow> (\<exists>r\<in>set recs. sr_id r = i \<and> sr_public_key r = key)"
    and "matchOnce (Inr recs) i key = Inr r \<Longrightarrow> sr_id r = i \<and> sr_public_key r = key"
  using assms match_records_spec [of i key recs] match_records_None [of i key recs]
  by (auto simp: matchOnce_def split: option.splits)

text \<open>Between two starts at most one event is published, and it announces a record with the target's identifier and stored key.\<close>

definition found_ok :: "string \<times> string \<Rightarrow> event \<Rightarrow> bool" where
  "found_ok t e \<longleftrightarrow> (\<exists>r. e = found_event r \<and> sr_id r = fst t \<and> (snd t \<noteq> [] \<longrightarrow> sr_public_key r = snd t))"

lemma search_step_events:
  assumes "search_step d l = Some (d', es)" "\<forall>i key. l \<noteq> S_Start i key"
  shows "ds_target d' = ds_target d" "\<forall>e\<in>set es. found_ok (ds_target d) e"
    "length es \<le> (if ds_pc d \<in> {No_Thread, Finished} then 0 else 1)" "es \<noteq> [] \<Longrightarrow> ds_pc d' = Finished"
    "ds_pc d \<in> {No_Thread, Finished} \<Longrightarrow> ds_pc d' \<in> {No_Thread, Finished}"
  using assms match_records_spec
  by (auto simp: search_step_def matchOnce_def found_ok_def split: search_label.splits sum.splits option.splits if_splits)

lemma search_finds_once:
  assumes "search_run d ls = Some (d', es)" "\<forall>i key. S_Start i key \<notin> set ls"
  shows "length es \<le> (if ds_pc d \<in> {No_Thread, Finished} then 0 else 1) \<and> (\<forall>e\<in>set es. found_ok (ds_target d) e)"
  using assms
proof (induction ls arbitrary: d es)
  case (Cons l ls)
  then obtain d1 es1 es2 where s: "search_step d l = Some (d1, es1)" "search_run d1 ls = Some (d', es2)" "es = es1 @ es2"
    by (auto split: option.splits)
  have l: "\<forall>i key. l \<noteq> S_Start i key" using Cons.prems(2) by auto
  note st = search_step_events [OF s(1) l]
  have IH: "length es2 \<le> (if ds_pc d1 \<in> {No_Thread, Finished} then 0 else 1) \<and> (\<forall>e\<in>set es2. found_ok (ds_target d1) e)"
    using Cons.prems by (intro Cons.IH s) auto
  have "length es1 + length es2 \<le> (if ds_pc d \<in> {No_Thread, Finished} then 0 else 1)"
    using st(3-5) IH by (cases "es1 = []") (auto split: if_splits)
  then show ?case using st(1,2) IH s(3) by auto
qed simp

text \<open>Once the flag is cleared the worker takes at most three more steps of its own, so the join of \<open>stopSearching\<close> is reached.\<close>

fun pc_rank :: "search_pc \<Rightarrow> nat" where
  "pc_rank Browsing = 3" | "pc_rank Waiting = 2" | "pc_rank At_Check = 1" | "pc_rank _ = 0"

lemma worker_rank:
  assumes "search_step d l = Some (d', es)" "worker_label l" "\<not> ds_searching d"
  shows "pc_rank (ds_pc d') < pc_rank (ds_pc d)" "\<not> ds_searching d'"
  using assms by (auto simp: search_step_def worker_label_def split: search_label.splits sum.splits if_splits)

lemma stop_is_prompt:
  "search_run d ls = Some (d', es) \<Longrightarrow> \<forall>l\<in>set ls. worker_label l \<Longrightarrow> \<not> ds_searching d \<Longrightarrow> length ls + pc_rank (ds_pc d') \<le> pc_rank (ds_pc d)"
proof (induction ls arbitrary: d es)
  case (Cons l ls)
  then obtain d1 es1 es2 where s: "search_step d l = Some (d1, es1)" "search_run d1 ls = Some (d', es2)"
    by (auto split: option.splits)
  with worker_rank [OF s(1)] Cons.IH [of d1 es2] Cons.prems show ?case by fastforce
qed simp

section \<open>Bluetooth\<close>

record bt_status =
  bs_available :: bool
  bs_connected :: bool
  bs_device_name :: string

record bluetooth =
  bt_state :: service_state
  bt_connected :: bool
  bt_device :: string

definition bluetooth_new :: bluetooth where
  "bluetooth_new = \<lparr>bt_state = Svc_Stopped, bt_connected = False, bt_device = []\<rparr>"

definition refreshConnection :: "bt_status result \<Rightarrow> bluetooth \<Rightarrow> bluetooth \<times> event list" where
  "refreshConnection polled b =
     (case polled of
        Inl _ \<Rightarrow> (b, [])
      | Inr st \<Rightarrow>
          let now = bs_connected st in
          if now = bt_connected b then (b, [])
          else
            let b' = b\<lparr>bt_connected := now, bt_device := (if now then bs_device_name st else [])\<rparr> in
            (b', [if now then mk_event_data Ev_AudioStarted ''bluetooth'' [(''source'', JStr ''bluetooth''), (''device'', JStr (bt_device b'))]
                  else mk_event_data Ev_AudioStopped ''bluetooth'' [(''source'', JStr ''bluetooth'')]]))"

text \<open>\<open>start\<close> asks for the status twice: before enabling the sink and, in \<open>refreshConnection\<close>, after it.\<close>

definition bt_start :: "bt_status result \<Rightarrow> status \<Rightarrow> bt_status result \<Rightarrow> bluetooth \<Rightarrow> bluetooth \<times> status \<times> event list" where
  "bt_start first enabled second b =
     (case first of
        Inl _ \<Rightarrow> (b\<lparr>bt_state := Svc_Degraded\<rparr>, success, [])
      | Inr st \<Rightarrow>
          if \<not> bs_available st then (b\<lparr>bt_state := Svc_Degraded\<rparr>, success, [])
          else if \<not> st_ok enabled then (b\<lparr>bt_state := Svc_Degraded\<rparr>, success, [])
          else case refreshConnection second (b\<lparr>bt_state := Svc_Running\<rparr>) of (b', es) \<Rightarrow> (b', success, es))"

definition bt_stop :: "bluetooth \<Rightarrow> bluetooth \<times> status" where
  "bt_stop b = (b\<lparr>bt_state := Svc_Stopped, bt_connected := False, bt_device := []\<rparr>, success)"

definition bt_healthCheck :: "bt_status result \<Rightarrow> bluetooth \<Rightarrow> bluetooth \<times> status \<times> event list" where
  "bt_healthCheck polled b =
     (if bt_state b = Svc_Degraded then (b, success, [])
      else case refreshConnection polled b of (b', es) \<Rightarrow>
        (b', if bt_state b' = Svc_Running then success else mk_error Ec_Unknown ''bluetooth not running'', es))"

definition openPairingWindow :: "status \<Rightarrow> bluetooth \<Rightarrow> status" where
  "openPairingWindow opened b =
     (if bt_state b \<noteq> Svc_Running then mk_error Ec_Unknown ''bluetooth not running'' else opened)"

text \<open>The audio events of the polls alternate, beginning with a start, and the last one tells whether a device is connected.\<close>

fun polls :: "bluetooth \<Rightarrow> bt_status result list \<Rightarrow> bluetooth \<times> event list" where
  "polls b [] = (b, [])"
| "polls b (p # ps) = (case refreshConnection p b of (b', es) \<Rightarrow> case polls b' ps of (b'', es') \<Rightarrow> (b'', es @ es'))"

fun alternates :: "bool \<Rightarrow> event_type list \<Rightarrow> bool \<Rightarrow> bool" where
  "alternates c [] d = (c = d)"
| "alternates c (e # es) d = (e = (if c then Ev_AudioStopped else Ev_AudioStarted) \<and> alternates (\<not> c) es d)"

lemma polls_alternate: "polls b ps = (b', es) \<Longrightarrow> alternates (bt_connected b) (map ev_type es) (bt_connected b')"
proof (induction ps arbitrary: b es)
  case (Cons p ps)
  obtain b1 es1 where r: "refreshConnection p b = (b1, es1)" by (metis surj_pair)
  with Cons obtain es2 where "polls b1 ps = (b', es2)" "es = es1 @ es2" by (auto split: prod.splits)
  with Cons.IH [of b1 es2] r show ?case by (auto simp: refreshConnection_def Let_def split: sum.splits if_splits)
qed simp

text \<open>An absent adapter never fails the boot or a health check.\<close>

lemma bluetooth_optional:
  "fst (snd (bt_start f e s b)) = success"
  "fst (bt_start (Inl x) e s b) = b' \<Longrightarrow> bt_healthCheck p b' = (b', success, [])"
  by (auto simp: bt_start_def bt_healthCheck_def split: sum.splits prod.splits)

end
