(* ===== verification/App_Wiring.thy ===== *)
theory App_Wiring
  imports Calibration Measure Services Command_Executor Web Updater Network Amplifier System_Manager
begin

text \<open>
  The wiring of \<open>Application\<close> (\<open>src/main/Application.cpp\<close>): the subscriptions that connect the services, the callbacks of the
  web interface and the telemetry of the command server, over one record of the services' states. The event bus is a queue in
  that record; publishing appends to it and a delivery runs the subscribers on its head, so deliveries fall anywhere between
  commands and web requests, as they do in the program. A command or a web request is one step: those that change the
  configuration are taken not to overlap, and what an overlap does is shown separately. The answers of the drivers are in \<open>app_env\<close>. \<open>ap_calls\<close> collects the calls
  to the amplifier.
\<close>

section \<open>State\<close>

record app_env =
  ae_json :: json_lib
  ae_cfg :: cfg_env
  ae_os :: os_env
  ae_hal :: hal
  ae_mic :: mic_hal
  ae_crypto :: crypto_lib
  ae_scan :: "(string \<times> int) list result"
  ae_connect :: "string \<Rightarrow> string \<Rightarrow> status"
  ae_join :: "wifi_params \<Rightarrow> status"
  ae_net_status :: "net_status result"
  ae_device_id :: string
  ae_box_key :: string
  ae_now :: int

record app =
  ap_config :: cfgman
  ap_amp :: amplifier
  ap_dsp :: dsp_engine
  ap_updater :: update_manager
  ap_search :: "(string \<times> string) option"
  ap_net :: netman
  ap_recv :: receiver
  ap_cal :: calman
  ap_link :: link_snapshot
  ap_sys :: system_state
  ap_setup :: bool
  ap_queue :: "event list"
  ap_calls :: "amp_out list"

definition publish :: "event list \<Rightarrow> app \<Rightarrow> app" where
  "publish es a = a\<lparr>ap_queue := ap_queue a @ es\<rparr>"

definition app_mute :: "app_env \<Rightarrow> app \<Rightarrow> app" where
  "app_mute env a = (case mute (ae_hal env) (ap_amp a) of (amp, _, calls) \<Rightarrow> a\<lparr>ap_amp := amp, ap_calls := ap_calls a @ calls\<rparr>)"

definition app_unmute :: "app_env \<Rightarrow> app \<Rightarrow> app" where
  "app_unmute env a = (case unmute (ae_hal env) (ap_amp a) of (amp, _, calls) \<Rightarrow> a\<lparr>ap_amp := amp, ap_calls := ap_calls a @ calls\<rparr>)"

section \<open>The identify tone\<close>

definition tone_sample :: "nat \<Rightarrow> i16" where
  "tone_sample k =
     (let t = real k / 48000;
          fade = 5 / 1000;
          env = (if t < fade then t / fade else 1);
          remaining = 1 - t;
          env = (if remaining < fade then max 0 (remaining / fade) else env)
      in of_int (trunc (25 / 100 * env * 32767 * sin (2 * pi * 880 * t))))"

definition tone_packet :: "nat \<Rightarrow> audio_packet" where
  "tone_packet p =
     \<lparr>ap_header = \<lparr>ah_timestamp = 0, ah_sequence = of_nat p, ah_frame_count = 480, ah_flags = 0\<rparr>,
      ap_samples = concat (map (\<lambda>f. replicate 2 (tone_sample (p * 480 + f))) [0..<480])\<rparr>"

definition playIdentifyTone :: "app \<Rightarrow> app \<times> (bool \<times> string)" where
  "playIdentifyTone a =
     (if muted (audio (get (ap_config a))) then (a, (False, ''speaker is muted''))
      else
        let a1 = publish [mk_event Ev_AudioStarted ''identify''] a;
            buf = foldl push (rc_buffer (ap_recv a1)) (map tone_packet [0..<100])
        in (a1\<lparr>ap_recv := (ap_recv a1)\<lparr>rc_buffer := buf\<rparr>\<rparr>, (True, ''playing identify tone'')))"

section \<open>Subscriptions\<close>

definition on_calibration :: "event \<Rightarrow> app \<Rightarrow> app" where
  "on_calibration e a =
     (if ev_type e = Ev_CalibrationStarted then a\<lparr>ap_updater := setUpdatesAllowed False (ap_updater a)\<rparr>
      else if ev_type e = Ev_CalibrationCompleted \<or> ev_type e = Ev_CalibrationFailed
      then a\<lparr>ap_updater := setUpdatesAllowed True (ap_updater a)\<rparr>
      else a)"

definition on_audio :: "app_env \<Rightarrow> event \<Rightarrow> app \<Rightarrow> app" where
  "on_audio env e a =
     (if ev_type e = Ev_AudioStarted then (if \<not> muted (audio (get (ap_config a))) then app_unmute env a else a)
      else if ev_type e = Ev_AudioStopped then app_mute env a
      else a)"

definition on_state_search :: "app_env \<Rightarrow> event \<Rightarrow> app \<Rightarrow> app" where
  "on_state_search env e a =
     (if ev_type e \<noteq> Ev_StateChanged then a
      else case (j_value (jl_get_string (ae_json env)) (ev_data e) ''to'' [], j_value (jl_get_string (ae_json env)) (ev_data e) ''from'' []) of
        (Some to, Some from) \<Rightarrow>
          if to = state_name Sys_SearchingStreamer then
            (let p = pairing (get (ap_config a)) in
             if streamer_id p = [] then a else a\<lparr>ap_search := Some (streamer_id p, streamer_public_key p)\<rparr>)
          else if from = state_name Sys_SearchingStreamer then a\<lparr>ap_search := None\<rparr>
          else a
      | _ \<Rightarrow> a)"

definition on_state_join :: "app_env \<Rightarrow> event \<Rightarrow> app \<Rightarrow> app" where
  "on_state_join env e a =
     (if ev_type e \<noteq> Ev_StateChanged then a
      else if j_value (jl_get_string (ae_json env)) (ev_data e) ''to'' [] \<noteq> Some (state_name Sys_ConnectingNetwork) then a
      else
        let p = pairing (get (ap_config a)) in
        if \<not> paired p \<or> streamer_id p = [] then a
        else case joinStreamerAp (ae_crypto env) (map_sum id (map fst) (ae_scan env)) (ae_connect env) (ae_net_status env) (ap_net a) (streamer_id p) of
          (n, _, evs) \<Rightarrow> publish evs (a\<lparr>ap_net := n\<rparr>))"

text \<open>The three settings a \<open>CommandExecuted\<close> event can carry; None when the conversion throws.\<close>

definition delay_arg :: "json_lib \<Rightarrow> json \<Rightarrow> (dsp_engine \<Rightarrow> dsp_engine) option" where
  "delay_arg J d = (case j_find d ''delay_ms'' of
     Some v \<Rightarrow> if is_number_integer v then map_option (\<lambda>i. dsp_setDelayMs (of_int i)) (jl_get_int J v) else Some id
   | None \<Rightarrow> Some id)"

definition gain_arg :: "json_lib \<Rightarrow> json \<Rightarrow> (dsp_engine \<Rightarrow> dsp_engine) option" where
  "gain_arg J d = (case j_find d ''gain_db'' of
     Some v \<Rightarrow> if is_number v then map_option setOutputGainDb (jl_get_double J v) else Some id
   | None \<Rightarrow> Some id)"

definition phase_arg :: "json_lib \<Rightarrow> json \<Rightarrow> (dsp_engine \<Rightarrow> dsp_engine) option" where
  "phase_arg J d = (case j_find d ''phase_invert'' of
     Some v \<Rightarrow> if is_boolean v then map_option (\<lambda>b dsp. dsp\<lparr>ds_invert := b\<rparr>) (jl_get_bool J v) else Some id
   | None \<Rightarrow> Some id)"

text \<open>The settings are applied in order until one throws; the result tells whether none did.\<close>

fun apply_all :: "(dsp_engine \<Rightarrow> dsp_engine) option list \<Rightarrow> dsp_engine \<Rightarrow> dsp_engine \<times> bool" where
  "apply_all [] d = (d, True)"
| "apply_all (None # fs) d = (d, False)"
| "apply_all (Some f # fs) d = apply_all fs (f d)"

definition on_executed :: "app_env \<Rightarrow> event \<Rightarrow> app \<Rightarrow> app" where
  "on_executed env e a =
     (if ev_type e \<noteq> Ev_CommandExecuted then a
      else
        let J = ae_json env; d = ev_data e in
        case apply_all [delay_arg J d, gain_arg J d, phase_arg J d] (ap_dsp a) of (dsp, ok) \<Rightarrow>
          let a1 = a\<lparr>ap_dsp := dsp\<rparr> in
          if ok \<and> j_value (jl_get_string J) d ''command'' [] = Some ''RUN_AUDIO_TEST'' then fst (playIdentifyTone a1) else a1)"

definition on_event :: "app_env \<Rightarrow> app \<Rightarrow> event \<Rightarrow> app" where
  "on_event env a e = on_executed env e (on_state_join env e (on_state_search env e (on_audio env e (on_calibration e a))))"

definition deliver :: "app_env \<Rightarrow> app \<Rightarrow> app" where
  "deliver env a = (case ap_queue a of [] \<Rightarrow> a | e # es \<Rightarrow> on_event env (a\<lparr>ap_queue := es\<rparr>) e)"

text \<open>The action that \<open>SafeMode\<close> runs: mute, and stop the receiver.\<close>

definition safe_mode_disable :: "app_env \<Rightarrow> app \<Rightarrow> app" where
  "safe_mode_disable env a =
     (let a1 = app_mute env a in
      case receiver_stop (ap_recv a1) of (r, evs) \<Rightarrow> publish evs (a1\<lparr>ap_recv := r\<rparr>))"

section \<open>Telemetry\<close>

fun dbl_json :: "dbl \<Rightarrow> json" where
  "dbl_json (Fin r) = JReal r"
| "dbl_json _ = JNull"

definition loss_pct :: "buffer_metrics \<Rightarrow> real" where
  "loss_pct m =
     (let expected = bm_received m + bm_lost m
      in if expected > 0 then 100 * real (unat (bm_lost m)) / real (unat expected) else 0)"

definition telemetry :: "app \<Rightarrow> json" where
  "telemetry a =
     (let m = metrics (rc_buffer (ap_recv a)); s = rc_sync (ap_recv a) in
      JObj [(''buffer_depth'', JInt (int (bm_depth m))), (''packets_received'', JInt (uint (bm_received m))),
        (''packets_lost'', JInt (uint (bm_lost m))), (''packet_loss_pct'', JReal (loss_pct m)),
        (''underflows'', JInt (uint (bm_underflows m))), (''dropped_overflow'', JInt (uint (bm_dropped_overflow m))),
        (''latency_ms'', dbl_json (ss_latency_ms s)), (''clock_offset_ms'', dbl_json (ss_clock_offset_ms s)),
        (''drift_ppm'', dbl_json (ss_drift_ppm s))])"

section \<open>Diagnostics\<close>

definition amp_probe :: "amp_state \<Rightarrow> check_result \<times> string" where
  "amp_probe st =
     (if st = Amp_Fault then (Chk_Error, ''fault'')
      else if st = Amp_Overheated \<or> st = Amp_Protection then (Chk_Warning, amp_name st)
      else (Chk_Ok, []))"

definition app_checks :: "app_env \<Rightarrow> app \<Rightarrow> check list" where
  "app_checks env a =
     addCheck (addCheck (addCheck (addCheck []
       ''amplifier'' (Some (amp_probe (am_state (ap_amp a)))))
       ''microphone'' (Some (if st_ok (fst (mic_selfTest (ae_mic env))) then (Chk_Ok, []) else (Chk_Warning, ''mic self-test''))))
       ''network'' (Some (if nm_connected (ap_net a) then (Chk_Ok, []) else (Chk_Warning, ''offline''))))
       ''config'' (Some (if cm_state (ap_config a) = Svc_Running then (Chk_Ok, []) else (Chk_Warning, ''config degraded'')))"

section \<open>The callbacks of the web interface\<close>

definition ctx_status :: "app_env \<Rightarrow> app \<Rightarrow> json" where
  "ctx_status env a =
     (let c = get (ap_config a) in
      JObj ([(''device_id'', JStr (ae_device_id env)), (''state'', JStr (state_name (ap_sys a))),
             (''software_version'', JStr (software_version (device c))), (''volume'', JInt (volume (audio c))),
             (''muted'', JBool (muted (audio c))), (''eq_profile'', JStr (eq_profile (audio c))), (''paired'', JBool (paired (pairing c)))] @
            (if ap_setup a then [(''setup_mode'', JBool True), (''box_public_key'', JStr (ae_box_key env))] else []) @
            (if paired (pairing c) then [(''streamer_id'', JStr (streamer_id (pairing c)))] else [])))"

definition ctx_network :: "app_env \<Rightarrow> app \<Rightarrow> json" where
  "ctx_network env a =
     JObj ([(''connected'', JBool (nm_connected (ap_net a))), (''ip'', JStr (nm_ip (ap_net a))), (''mode'', JStr (nm_mode (ap_net a)))] @
       (if lk_valid (ap_link a) then
          [(''streamer_link'', JObj [(''wifi_signal_dbm'', JInt (lk_dbm (ap_link a))), (''streamer_id'', JStr (lk_streamer (ap_link a))),
             (''reported_at'', JInt (lk_reported_at (ap_link a))), (''fresh'', JBool (ae_now env - lk_reported_at (ap_link a) \<le> 10))])]
        else []))"

definition ctx_audio :: "app \<Rightarrow> json" where
  "ctx_audio a =
     (let c = audio (get (ap_config a)) in
      JObj [(''volume'', JInt (volume c)), (''muted'', JBool (muted c)), (''delay_ms'', JInt (delay_ms c)), (''eq_profile'', JStr (eq_profile c))])"

definition ctx_hardware :: "app \<Rightarrow> json" where
  "ctx_hardware a = JObj [(''amplifier'', JStr (amp_name (am_state (ap_amp a)))), (''calibration'', JStr (cal_name (ca_state (ap_cal a)))),
     (''audio_streaming'', JBool (rc_streaming (ap_recv a)))]"

definition ctx_scanWifi :: "app_env \<Rightarrow> json" where
  "ctx_scanWifi env =
     JObj [(''networks'', JArr (case ae_scan env of
        Inl _ \<Rightarrow> []
      | Inr ns \<Rightarrow> map (\<lambda>(s, d). JObj [(''ssid'', JStr s), (''signal_dbm'', JInt d)]) ns))]"

definition app_read :: "app_env \<Rightarrow> app \<Rightarrow> string \<Rightarrow> json option" where
  "app_read env a path =
     (if path = ''/api/status'' then Some (ctx_status env a)
      else if path = ''/api/health'' then Some (report_json (run_checks (app_checks env a) ''diag-web''))
      else if path = ''/api/network'' then Some (ctx_network env a)
      else if path = ''/api/audio'' then Some (ctx_audio a)
      else if path = ''/api/hardware'' then Some (ctx_hardware a)
      else if path = ''/api/calibration/status'' then Some (JObj [(''state'', JStr (cal_name (ca_state (ap_cal a))))])
      else if path = ''/api/calibration/result'' then Some (JObj [(''eq_profile'', JStr (eq_profile (audio (get (ap_config a)))))])
      else if path = ''/api/wifi/scan'' then Some (ctx_scanWifi env)
      else None)"

text \<open>A configuration update and its reply.\<close>

definition app_update :: "app_env \<Rightarrow> (speaker_config \<Rightarrow> speaker_config) \<Rightarrow> string \<Rightarrow> app \<Rightarrow> app \<times> bool \<times> string" where
  "app_update env f okmsg a =
     (case update (ae_json env) (ae_cfg env) (ap_config a) f of (m, s, evs) \<Rightarrow>
        (publish evs (a\<lparr>ap_config := m\<rparr>), st_ok s, if st_ok s then okmsg else st_message s))"

definition kinded :: "(json \<Rightarrow> bool) \<Rightarrow> json \<Rightarrow> string \<Rightarrow> json option" where
  "kinded kind b k = (case j_find b k of Some v \<Rightarrow> if kind v then Some v else None | None \<Rightarrow> None)"

definition set_wifi_configured :: "bool \<Rightarrow> speaker_config \<Rightarrow> speaker_config" where
  "set_wifi_configured b c = c\<lparr>network := (network c)\<lparr>wifi_configured := b\<rparr>\<rparr>"

definition set_device_name :: "string \<Rightarrow> speaker_config \<Rightarrow> speaker_config" where
  "set_device_name n c = c\<lparr>device := (device c)\<lparr>dev_name := n\<rparr>\<rparr>"

text \<open>A callback answers with a flag and a message, or throws (None).\<close>

definition act_setDelay :: "app_env \<Rightarrow> json \<Rightarrow> app \<Rightarrow> app \<times> (bool \<times> string) option" where
  "act_setDelay env b a =
     (case kinded is_number_integer b ''delay_ms'' of
        None \<Rightarrow> (a, Some (False, ''need delay_ms''))
      | Some v \<Rightarrow> (case jl_get_int (ae_json env) v of
          None \<Rightarrow> (a, None)
        | Some d \<Rightarrow> (case app_update env (set_delay d) ''ok'' a of (a', ok, msg) \<Rightarrow>
            (if ok then a'\<lparr>ap_dsp := dsp_setDelayMs (of_int d) (ap_dsp a')\<rparr> else a', Some (ok, msg)))))"

definition act_startCalibration :: "app_env \<Rightarrow> app \<Rightarrow> app \<times> (bool \<times> string) option" where
  "act_startCalibration env a =
     (case runCalibration (ae_json env) (ae_os env) (ae_cfg env) ''room'' ((ap_cal a)\<lparr>ca_config := Some (ap_config a)\<rparr>) of (m, res, outs) \<Rightarrow>
        (foldl (\<lambda>a x. case x of
            Out_State _ \<Rightarrow> a
          | Out_Publish e \<Rightarrow> publish [e] a
          | Out_Mute b \<Rightarrow> if b then app_mute env a else app_unmute env a
          | Out_Apply g \<Rightarrow> a\<lparr>ap_dsp := setEqGains g (ap_dsp a)\<rparr>)
          (a\<lparr>ap_cal := m, ap_config := (case ca_config m of Some c \<Rightarrow> c | None \<Rightarrow> ap_config a)\<rparr>) outs,
         Some (case res of Inr _ \<Rightarrow> (True, ''calibration complete'') | Inl s \<Rightarrow> (False, st_message s))))"

definition wifi_body :: "json_lib \<Rightarrow> json \<Rightarrow> wifi_params option" where
  "wifi_body J b =
     do { ssid \<leftarrow> j_value (jl_get_string J) b ''ssid'' [];
          psk \<leftarrow> j_value (jl_get_string J) b ''psk'' [];
          hidden \<leftarrow> j_value (jl_get_bool J) b ''hidden'' False;
          band \<leftarrow> j_value (jl_get_string J) b ''band'' [];
          sip \<leftarrow> j_value (jl_get_string J) b ''static_ip'' [];
          gw \<leftarrow> j_value (jl_get_string J) b ''gateway'' [];
          dns \<leftarrow> j_value (jl_get_string J) b ''dns'' [];
          Some \<lparr>wp_ssid = ssid, wp_psk = psk, wp_hidden = hidden, wp_band = band, wp_static_ip = sip, wp_gateway = gw, wp_dns = dns\<rparr> }"

definition act_connectWifi :: "app_env \<Rightarrow> json \<Rightarrow> app \<Rightarrow> app \<times> (bool \<times> string) option" where
  "act_connectWifi env b a =
     (case wifi_body (ae_json env) b of
        None \<Rightarrow> (a, None)
      | Some p \<Rightarrow>
          if wp_ssid p = [] then (a, Some (False, ''ssid required''))
          else if wp_band p \<noteq> [] \<and> wp_band p \<noteq> ''bg'' \<and> wp_band p \<noteq> ''a'' then (a, Some (False, ''band must be bg or a''))
          else case connectWifi (ae_join env p) (ae_net_status env) (ap_net a) of (n, s, evs) \<Rightarrow>
            let a1 = publish evs (a\<lparr>ap_net := n\<rparr>);
                a2 = (if st_ok s then fst (app_update env (set_wifi_configured True) [] a1) else a1)
            in (a2, Some (st_ok s, if st_ok s then ''connecting to '' @ wp_ssid p else st_message s)))"

definition reply :: "app \<times> bool \<times> string \<Rightarrow> app \<times> (bool \<times> string) option" where
  "reply r = (case r of (a, ok, msg) \<Rightarrow> (a, Some (ok, msg)))"

definition app_act :: "app_env \<Rightarrow> api_action \<Rightarrow> app \<Rightarrow> app \<times> (bool \<times> string) option" where
  "app_act env act a =
     (let J = ae_json env in
      case act of
        Api_SetVolume b \<Rightarrow>
          (case kinded is_number_integer b ''volume'' of
             None \<Rightarrow> (a, Some (False, ''need volume''))
           | Some v \<Rightarrow> (case jl_get_int J v of None \<Rightarrow> (a, None) | Some n \<Rightarrow> reply (app_update env (set_volume n) ''ok'' a)))
      | Api_SetMute b \<Rightarrow>
          (case kinded is_boolean b ''muted'' of
             None \<Rightarrow> (a, Some (False, ''need muted''))
           | Some v \<Rightarrow> (case jl_get_bool J v of None \<Rightarrow> (a, None) | Some m \<Rightarrow> reply (app_update env (set_muted m) ''ok'' a)))
      | Api_SetDelay b \<Rightarrow> act_setDelay env b a
      | Api_SetEq b \<Rightarrow>
          (case j_value (jl_get_string J) b ''eq_profile'' ''default'' of
             None \<Rightarrow> (a, None)
           | Some p \<Rightarrow> reply (app_update env (set_eq p) ''ok'' a))
      | Api_AudioTest \<Rightarrow> (case playIdentifyTone a of (a', r) \<Rightarrow> (a', Some r))
      | Api_StartCalibration \<Rightarrow> act_startCalibration env a
      | Api_Reboot \<Rightarrow> (publish [mk_event Ev_ShutdownRequested ''web''] a, Some (True, ''rebooting''))
      | Api_Update \<Rightarrow> (a, Some (True, ''update queued''))
      | Api_ResetNetwork \<Rightarrow> reply (app_update env (set_wifi_configured False) ''network reset'' a)
      | Api_FactoryReset \<Rightarrow>
          (case resetToDefaults J (ae_cfg env) (ap_config a) of (m, s, evs) \<Rightarrow>
             (publish evs (a\<lparr>ap_config := m\<rparr>), Some (st_ok s, if st_ok s then ''factory reset (identity preserved)'' else st_message s)))
      | Api_ConnectWifi b \<Rightarrow> act_connectWifi env b a
      | Api_SetSpeakerName b \<Rightarrow>
          (case j_value (jl_get_string J) b ''name'' [] of
             None \<Rightarrow> (a, None)
           | Some n \<Rightarrow> if n = [] then (a, Some (False, ''name required'')) else reply (app_update env (set_device_name n) ''name set'' a)))"

definition app_context :: "app_env \<Rightarrow> app api_context" where
  "app_context env = \<lparr>ac_read = app_read env, ac_logs = None, ac_act = (\<lambda>act. Some (app_act env act))\<rparr>"

section \<open>Startup settings\<close>

definition startup_dsp :: "speaker_config \<Rightarrow> dsp_engine \<Rightarrow> dsp_engine" where
  "startup_dsp cfg d =
     (setOutputGainDb (gain_db (audio cfg)) (setLimiter True (- 1) (dsp_setDelayMs (of_int (delay_ms (audio cfg))) d)))
       \<lparr>ds_invert := phase_invert (audio cfg)\<rparr>"

text \<open>The capture hook that \<open>buildServices\<close> gives to the calibration.\<close>

definition app_capture :: "mic_hal \<Rightarrow> nat \<Rightarrow> i16 list" where
  "app_capture h frames = (case mic_capture h frames of Inr pcm \<Rightarrow> pcm | Inl _ \<Rightarrow> [])"

text \<open>A signed command, executed by the command server on the shared configuration and link state.\<close>

definition app_command :: "exec_env \<Rightarrow> command \<Rightarrow> app \<Rightarrow> app \<times> command_result option" where
  "app_command x c a =
     (case execute x \<lparr>ex_config = ap_config a, ex_link = ap_link a\<rparr> c of (s, evs, r) \<Rightarrow>
        (publish evs (a\<lparr>ap_config := ex_config s, ap_link := ex_link s\<rparr>), r))"

section \<open>The sound settings follow the configuration\<close>

definition dsp_view :: "dsp_engine \<Rightarrow> real \<times> real \<times> bool" where
  "dsp_view d = (dl_ms (ds_delay d), gc_target (ds_out_gain d), ds_invert d)"

definition wanted :: "speaker_config \<Rightarrow> real \<times> real \<times> bool" where
  "wanted c = (of_int (delay_ms (audio c)), db_linear (gain_db (audio c)), phase_invert (audio c))"

text \<open>What the engine will be once the queued events have been delivered.\<close>

definition dsp_event :: "json_lib \<Rightarrow> dsp_engine \<Rightarrow> event \<Rightarrow> dsp_engine" where
  "dsp_event J d e =
     (if ev_type e = Ev_CommandExecuted
      then fst (apply_all [delay_arg J (ev_data e), gain_arg J (ev_data e), phase_arg J (ev_data e)] d) else d)"

definition in_step :: "app_env \<Rightarrow> app \<Rightarrow> bool" where
  "in_step env a \<longleftrightarrow> valid_config (get (ap_config a)) \<and>
     dsp_view (foldl (dsp_event (ae_json env)) (ap_dsp a) (ap_queue a)) = wanted (get (ap_config a))"

definition harmless :: "event \<Rightarrow> bool" where
  "harmless e \<longleftrightarrow> ev_type e \<noteq> Ev_CommandExecuted \<or>
     j_find (ev_data e) ''delay_ms'' = None \<and> j_find (ev_data e) ''gain_db'' = None \<and> j_find (ev_data e) ''phase_invert'' = None"

datatype app_input = In_Command exec_env command | In_Deliver | In_Publish event | In_Web api_action

fun app_step :: "app_env \<Rightarrow> app \<Rightarrow> app_input \<Rightarrow> app" where
  "app_step env a (In_Command x c) = fst (app_command x c a)"
| "app_step env a In_Deliver = deliver env a"
| "app_step env a (In_Publish e) = publish [e] a"
| "app_step env a (In_Web act) = fst (app_act env act a)"

fun sound_input :: "app_env \<Rightarrow> app_input \<Rightarrow> bool" where
  "sound_input env (In_Command x c) = (xe_json x = ae_json env)"
| "sound_input env In_Deliver = True"
| "sound_input env (In_Publish e) = harmless e"
| "sound_input env (In_Web act) = (case act of Api_SetDelay _ \<Rightarrow> False | Api_FactoryReset \<Rightarrow> False | _ \<Rightarrow> True)"

lemma heartbeat_harmless: "harmless (snd (sendHeartbeat d c n k))"
  by (simp add: harmless_def sendHeartbeat_def dispatch_status_def buildHeartbeat_def)

lemma alert_harmless: "e \<in> set (status_onEvent d n ev) \<Longrightarrow> harmless e"
  by (auto simp: harmless_def status_onEvent_def dispatch_status_def split: option.splits)

lemma harmless_keeps: "harmless e \<Longrightarrow> dsp_event J d e = d"
  by (simp add: harmless_def dsp_event_def delay_arg_def gain_arg_def phase_arg_def)

lemma harmless_all: "\<forall>e\<in>set es. harmless e \<Longrightarrow> foldl (dsp_event J) d es = d"
  by (induction es) (simp_all add: harmless_keeps)

lemma publish_sel [simp]:
  "ap_dsp (publish es a) = ap_dsp a" "ap_config (publish es a) = ap_config a" "ap_queue (publish es a) = ap_queue a @ es"
  by (simp_all add: publish_def)

lemma mute_sel [simp]:
  "ap_dsp (app_mute env a) = ap_dsp a" "ap_config (app_mute env a) = ap_config a" "ap_queue (app_mute env a) = ap_queue a"
  "ap_dsp (app_unmute env a) = ap_dsp a" "ap_config (app_unmute env a) = ap_config a" "ap_queue (app_unmute env a) = ap_queue a"
  by (simp_all add: app_mute_def app_unmute_def split: prod.splits)

lemma in_step_publish: "in_step env a \<Longrightarrow> \<forall>e\<in>set es. harmless e \<Longrightarrow> in_step env (publish es a)"
  by (simp add: in_step_def harmless_all)

text \<open>What leaves the configuration's sound settings, the engine's view and the pending settings alone keeps them in step.\<close>

lemma in_step_frame:
  assumes "in_step env a" "ap_dsp a' = ap_dsp a" "ap_queue a' = ap_queue a @ es" "\<forall>e\<in>set es. harmless e"
    "valid_config (get (ap_config a'))" "wanted (get (ap_config a')) = wanted (get (ap_config a))"
  shows "in_step env a'"
  using assms by (simp add: in_step_def harmless_all)

lemma tone_frame: "ap_dsp (fst (playIdentifyTone a)) = ap_dsp a" "ap_config (fst (playIdentifyTone a)) = ap_config a"
  "\<exists>es. ap_queue (fst (playIdentifyTone a)) = ap_queue a @ es \<and> (\<forall>e\<in>set es. harmless e)"
  by (simp_all add: playIdentifyTone_def Let_def harmless_def)

lemma net_events_harmless: "e \<in> set (snd (snd (connectWifi s st n))) \<Longrightarrow> harmless e"
  by (auto simp: connectWifi_def applyStatus_def publishConnected_def publishDisconnected_def harmless_def connected_event_def ip_changed_event_def
        disconnected_event_def Let_def split: sum.splits if_splits prod.splits)

lemma join_events_harmless: "e \<in> set (snd (snd (joinStreamerAp cl scan hc hs n sid))) \<Longrightarrow> harmless e"
  using net_events_harmless by (fastforce simp: joinStreamerAp_def Let_def split: sum.splits if_splits)

lemma state_join_frame:
  "ap_dsp (on_state_join env e a) = ap_dsp a" "ap_config (on_state_join env e a) = ap_config a"
  "\<exists>new. ap_queue (on_state_join env e a) = ap_queue a @ new \<and> (\<forall>e\<in>set new. harmless e)"
proof -
  obtain n s evs where j: "joinStreamerAp (ae_crypto env) (map_sum id (map fst) (ae_scan env)) (ae_connect env) (ae_net_status env) (ap_net a)
      (streamer_id (pairing (get (ap_config a)))) = (n, s, evs)" by (metis prod_cases3)
  have "\<forall>e\<in>set evs. harmless e" using join_events_harmless [where cl = "ae_crypto env"] j by (metis snd_conv)
  moreover have "on_state_join env e a = a \<or> on_state_join env e a = publish evs (a\<lparr>ap_net := n\<rparr>)"
    by (simp add: on_state_join_def Let_def j)
  ultimately show "ap_dsp (on_state_join env e a) = ap_dsp a" "ap_config (on_state_join env e a) = ap_config a"
    "\<exists>new. ap_queue (on_state_join env e a) = ap_queue a @ new \<and> (\<forall>e\<in>set new. harmless e)" by auto
qed

lemma executed_frame:
  "ap_dsp (on_executed env e a) = dsp_event (ae_json env) (ap_dsp a) e" "ap_config (on_executed env e a) = ap_config a"
  "\<exists>new. ap_queue (on_executed env e a) = ap_queue a @ new \<and> (\<forall>e\<in>set new. harmless e)"
proof -
  obtain d ok where p: "apply_all [delay_arg (ae_json env) (ev_data e), gain_arg (ae_json env) (ev_data e), phase_arg (ae_json env) (ev_data e)] (ap_dsp a) = (d, ok)"
    by (metis surj_pair)
  let ?a1 = "a\<lparr>ap_dsp := d\<rparr>"
  have "on_executed env e a = (if ev_type e \<noteq> Ev_CommandExecuted then a else if ok \<and> j_value (jl_get_string (ae_json env)) (ev_data e) ''command'' [] = Some ''RUN_AUDIO_TEST''
      then fst (playIdentifyTone ?a1) else ?a1)" by (simp add: on_executed_def Let_def p)
  then show "ap_dsp (on_executed env e a) = dsp_event (ae_json env) (ap_dsp a) e" "ap_config (on_executed env e a) = ap_config a"
    "\<exists>new. ap_queue (on_executed env e a) = ap_queue a @ new \<and> (\<forall>e\<in>set new. harmless e)"
    using tone_frame [of ?a1] p by (simp_all add: dsp_event_def)
qed

text \<open>A delivery moves the head of the queue into the engine.\<close>

lemma deliver_frame:
  assumes "ap_queue a = e # es"
  shows "ap_dsp (deliver env a) = dsp_event (ae_json env) (ap_dsp a) e" "ap_config (deliver env a) = ap_config a"
    "\<exists>new. ap_queue (deliver env a) = es @ new \<and> (\<forall>e\<in>set new. harmless e)"
proof -
  let ?a0 = "a\<lparr>ap_queue := es\<rparr>"
  let ?a1 = "on_audio env e (on_calibration e ?a0)"
  let ?a2 = "on_state_search env e ?a1" and ?a3 = "on_state_join env e (on_state_search env e ?a1)"
  have 1: "ap_dsp ?a1 = ap_dsp a" "ap_config ?a1 = ap_config a" "ap_queue ?a1 = es"
    by (simp_all add: on_audio_def on_calibration_def)
  have 2: "ap_dsp ?a2 = ap_dsp a" "ap_config ?a2 = ap_config a" "ap_queue ?a2 = es"
    using 1 by (auto simp: on_state_search_def Let_def split: option.splits)
  note 3 = state_join_frame [of env e ?a2]
  have d: "deliver env a = on_executed env e ?a3" using assms by (simp add: deliver_def on_event_def)
  note 4 = executed_frame [of env e ?a3]
  show "ap_dsp (deliver env a) = dsp_event (ae_json env) (ap_dsp a) e" "ap_config (deliver env a) = ap_config a"
    unfolding d using 2 3 4 by simp_all
  obtain new new' where "ap_queue ?a3 = es @ new" "ap_queue (on_executed env e ?a3) = (es @ new) @ new'" "\<forall>e\<in>set (new @ new'). harmless e"
    using 2(3) 3(3) 4(3) by (metis UnE set_append)
  then show "\<exists>new. ap_queue (deliver env a) = es @ new \<and> (\<forall>e\<in>set new. harmless e)" unfolding d by (metis append.assoc)
qed

lemma in_step_deliver: "in_step env a \<Longrightarrow> in_step env (deliver env a)"
proof (cases "ap_queue a")
  case Nil
  then show "in_step env a \<Longrightarrow> ?thesis" by (simp add: deliver_def)
next
  case (Cons e es)
  note f = deliver_frame [OF Cons, of env]
  then show "in_step env a \<Longrightarrow> ?thesis" using Cons by (auto simp: in_step_def harmless_all)
qed

text \<open>A report that carries exactly the change it acknowledges.\<close>

definition reports :: "json_lib \<Rightarrow> command \<Rightarrow> (speaker_config \<Rightarrow> speaker_config) \<Rightarrow> (string \<times> json) list \<Rightarrow> bool" where
  "reports J c f report \<longleftrightarrow>
     (\<forall>cfg d. valid_config (f cfg) \<longrightarrow> dsp_view d = wanted cfg \<longrightarrow> dsp_view (dsp_event J d (executed_event c report)) = wanted (f cfg))"

lemma executed_data: "ev_type (executed_event c r) = Ev_CommandExecuted" "ev_data (executed_event c r) = JObj ((''command'', JStr (command_name c)) # r)"
  by (simp_all add: executed_event_def mk_event_data_def)

lemma received_harmless [simp]: "harmless (received_event c)" "harmless config_changed_event"
  by (simp_all add: harmless_def received_event_def config_changed_event_def)

lemma executed_harmless [simp]: "harmless (executed_event c [])"
  by (simp add: harmless_def executed_data)

lemma dsp_executed:
  "dsp_event J d (executed_event c r) = fst (apply_all [delay_arg J (JObj ((''command'', JStr (command_name c)) # r)),
     gain_arg J (JObj ((''command'', JStr (command_name c)) # r)), phase_arg J (JObj ((''command'', JStr (command_name c)) # r))] d)"
  by (simp add: dsp_event_def executed_data)

lemmas arg_defs = delay_arg_def gain_arg_def phase_arg_def

lemma reports_other:
  assumes "\<And>cfg. wanted (f cfg) = wanted cfg" "fst ` set r \<inter> {''delay_ms'', ''gain_db'', ''phase_invert''} = {}"
  shows "reports J c f r"
proof -
  have "map_of r k = None" if "k \<in> {''delay_ms'', ''gain_db'', ''phase_invert''}" for k
    using assms(2) that by (meson disjoint_iff map_of_eq_None_iff)
  then show ?thesis by (simp add: reports_def dsp_executed arg_defs assms(1))
qed

lemma reports_delay: "jl_get_int J (JInt i) = Some i \<Longrightarrow> reports J c (set_delay i) [(''delay_ms'', JInt i)]"
  by (auto simp: reports_def dsp_executed arg_defs dsp_view_def wanted_def set_delay_def dsp_setDelayMs_def setDelayMs_def Let_def valid_config_iff)

lemma reports_gain: "getters_exact J \<Longrightarrow> reports J c (set_gain g) [(''gain_db'', JReal g)]"
  by (auto simp: reports_def dsp_executed arg_defs dsp_view_def wanted_def set_gain_def setOutputGainDb_def setGainDb_def)

lemma reports_phase: "getters_exact J \<Longrightarrow> reports J c (set_phase b) [(''phase_invert'', JBool b)]"
  by (auto simp: reports_def dsp_executed arg_defs dsp_view_def wanted_def set_phase_def)

lemma wanted_other [simp]: "wanted (set_volume v c) = wanted c" "wanted (set_muted b c) = wanted c" "wanted (set_eq p c) = wanted c"
  "wanted (set_wifi_configured w c) = wanted c" "wanted (set_device_name n c) = wanted c" "wanted (set_eq_profile p c) = wanted c"
  by (simp_all add: wanted_def setter_defs set_wifi_configured_def set_device_name_def set_eq_profile_def)

text \<open>The documented range of \<open>get<int>\<close>.\<close>

definition int_getter_ranged :: "json_lib \<Rightarrow> bool" where
  "int_getter_ranged J \<longleftrightarrow> (\<forall>v i. jl_get_int J v = Some i \<longrightarrow> - (2 ^ 31) \<le> i \<and> i < 2 ^ 31)"

lemma execute_shape:
  assumes "getters_exact (xe_json x)" "int_getter_ranged (xe_json x)"
  shows "(\<exists>f r. execute x s c = apply_setting x s c f r \<and> reports (xe_json x) c f r) \<or>
         (ex_config (fst (execute x s c)) = ex_config s \<and> (\<forall>e\<in>set (fst (snd (execute x s c))). harmless e))"
proof -
  have idem: "jl_get_int (xe_json x) (JInt i) = Some i" if "jl_get_int (xe_json x) v = Some i" for v i
    using that assms by (simp add: int_getter_ranged_def)
  have refused: "(\<exists>f r. refuse s c e m = apply_setting x s c f r \<and> reports (xe_json x) c f r) \<or>
      (ex_config (fst (refuse s c e m)) = ex_config s \<and> (\<forall>e\<in>set (fst (snd (refuse s c e m))). harmless e))" for e m
    by (simp add: refuse_def)
  have thrown: "(\<exists>f r. throw s c = apply_setting x s c f r \<and> reports (xe_json x) c f r) \<or>
      (ex_config (fst (throw s c)) = ex_config s \<and> (\<forall>e\<in>set (fst (snd (throw s c))). harmless e))"
    by (simp add: throw_def)
  consider (vol) "command_name c = ''SET_VOLUME''" | (mute) "command_name c = ''SET_MUTE''"
    | (del) "command_name c = ''SET_DELAY''" | (eq) "command_name c = ''SET_EQ''"
    | (gain) "command_name c = ''SET_GAIN''" | (phase) "command_name c = ''SET_PHASE_INVERT''"
    | (other) "command_name c \<notin> {''SET_VOLUME'', ''SET_MUTE'', ''SET_DELAY'', ''SET_EQ'', ''SET_GAIN'', ''SET_PHASE_INVERT''}"
    by blast
  then show ?thesis
  proof cases
    case vol
    then show ?thesis using refused thrown
      by (auto simp: execute_def Let_def with_arg_def split: option.split intro!: disjI1 exI reports_other)
  next
    case mute
    then show ?thesis using refused thrown
      by (auto simp: execute_def Let_def with_arg_def split: option.split intro!: disjI1 exI reports_other)
  next
    case del
    then show ?thesis using refused thrown idem
      by (auto simp: execute_def Let_def with_arg_def split: option.split intro!: disjI1 exI reports_delay)
  next
    case eq
    then show ?thesis using thrown
      by (auto simp: execute_def Let_def with_arg_def split: option.split intro!: disjI1 exI reports_other)
  next
    case gain
    then show ?thesis using refused thrown assms(1)
      by (auto simp: execute_def Let_def with_arg_def split: option.split intro!: disjI1 exI reports_gain)
  next
    case phase
    then show ?thesis using refused thrown assms(1)
      by (auto simp: execute_def Let_def with_arg_def split: option.split intro!: disjI1 exI reports_phase)
  next
    case other
    have "\<forall>e\<in>set (fst (snd (execute x s c))). harmless e"
      using other by (auto simp: execute_def Let_def refuse_def throw_def exec_report_link_def with_arg_def harmless_def executed_data
        received_event_def split: option.splits)
    then show ?thesis using execute_config_same [OF other] by blast
  qed
qed

lemma apply_setting_out:
  assumes "apply_setting x s c f r = (s', evs, res)" "valid_config (get (ex_config s))"
  shows "(get (ex_config s') = get (ex_config s) \<and> (\<forall>e\<in>set evs. harmless e)) \<or>
    (get (ex_config s') = f (get (ex_config s)) \<and> valid_config (get (ex_config s')) \<and> evs = [received_event c, config_changed_event, executed_event c r])"
proof -
  obtain m st es where u: "update (xe_json x) (xe_cfg x) (ex_config s) f = (m, st, es)" by (metis prod_cases3)
  show ?thesis
  proof (cases "st_ok st")
    case True
    with update_cases [OF u] have "es = [config_changed_event]" by auto
    with True cfg.upd_ok [OF u] assms u show ?thesis by (auto simp: apply_setting_def)
  next
    case False
    with cfg.upd_err [OF u] assms u show ?thesis by (auto simp: apply_setting_def)
  qed
qed

lemma in_step_command:
  assumes "in_step env a" "getters_exact (xe_json x)" "int_getter_ranged (xe_json x)" "xe_json x = ae_json env"
  shows "in_step env (fst (app_command x c a))"
proof -
  let ?s = "\<lparr>ex_config = ap_config a, ex_link = ap_link a\<rparr>"
  let ?d = "foldl (dsp_event (ae_json env)) (ap_dsp a) (ap_queue a)"
  obtain s' evs res where ex: "execute x ?s c = (s', evs, res)" by (metis prod_cases3)
  have a': "fst (app_command x c a) = publish evs (a\<lparr>ap_config := ex_config s', ap_link := ex_link s'\<rparr>)" by (simp add: app_command_def ex)
  have v: "valid_config (get (ap_config a))" "dsp_view ?d = wanted (get (ap_config a))" using assms(1) by (simp_all add: in_step_def)
  consider (same) "get (ex_config s') = get (ap_config a)" "\<forall>e\<in>set evs. harmless e"
    | (set) f r where "reports (xe_json x) c f r" "get (ex_config s') = f (get (ap_config a))" "valid_config (get (ex_config s'))"
        "evs = [received_event c, config_changed_event, executed_event c r]"
    using execute_shape [OF assms(2,3), of ?s c] apply_setting_out [of x ?s c _ _ s' evs res] v(1) ex by fastforce
  then show ?thesis
  proof cases
    case same
    then show ?thesis unfolding a' using v by (simp add: in_step_def harmless_all)
  next
    case set
    then have "dsp_view (dsp_event (xe_json x) ?d (executed_event c r)) = wanted (f (get (ap_config a)))"
      using v(2) by (simp add: reports_def)
    with set assms(4) show ?thesis unfolding a' by (simp add: in_step_def harmless_keeps)
  qed
qed

lemma in_step_update:
  assumes "in_step env a" "\<And>c. wanted (f c) = wanted c" "app_update env f msg a = (a', ok, m)"
  shows "in_step env a'"
proof -
  obtain cm st es where u: "update (ae_json env) (ae_cfg env) (ap_config a) f = (cm, st, es)" by (metis prod_cases3)
  have "valid_config (get cm)" using cfg.upd_valid [of "ap_config a" "ae_json env" "ae_cfg env" f] u assms(1) by (simp add: in_step_def)
  moreover have "wanted (get cm) = wanted (get (ap_config a))" using cfg.upd_read [of "ae_json env" "ae_cfg env" "ap_config a" f] u assms(2) by simp
  moreover have "\<forall>e\<in>set es. harmless e" using update_cases [OF u] by auto
  moreover have "a' = publish es (a\<lparr>ap_config := cm\<rparr>)" using assms(3) u by (simp add: app_update_def)
  ultimately show ?thesis using assms(1) by (simp add: in_step_def harmless_all)
qed

lemma in_step_reply: "in_step env a \<Longrightarrow> (\<And>c. wanted (f c) = wanted c) \<Longrightarrow> in_step env (fst (reply (app_update env f msg a)))"
  using in_step_update by (fastforce simp: reply_def split: prod.splits)

text \<open>The trace of a calibration run, replayed on the application, only touches the equalizer and the amplifier.\<close>

definition replay :: "app_env \<Rightarrow> app \<Rightarrow> cal_out list \<Rightarrow> app" where
  "replay env = foldl (\<lambda>a x. case x of
      Out_State _ \<Rightarrow> a
    | Out_Publish e \<Rightarrow> publish [e] a
    | Out_Mute b \<Rightarrow> if b then app_mute env a else app_unmute env a
    | Out_Apply g \<Rightarrow> a\<lparr>ap_dsp := setEqGains g (ap_dsp a)\<rparr>)"

lemma dsp_view_setEq [simp]: "dsp_view (setEqGains g d) = dsp_view d"
  by (simp add: dsp_view_def setEqGains_def)

definition respects_view :: "(dsp_engine \<Rightarrow> dsp_engine) \<Rightarrow> bool" where
  "respects_view f \<longleftrightarrow> (\<forall>d d'. dsp_view d = dsp_view d' \<longrightarrow> dsp_view (f d) = dsp_view (f d'))"

lemma args_respect_view:
  "delay_arg J x = Some f \<Longrightarrow> respects_view f" "gain_arg J x = Some f \<Longrightarrow> respects_view f" "phase_arg J x = Some f \<Longrightarrow> respects_view f"
  by (auto simp: arg_defs respects_view_def dsp_view_def dsp_setDelayMs_def setDelayMs_def Let_def setOutputGainDb_def setGainDb_def
      split: option.splits if_splits)

lemma apply_all_view:
  "\<forall>f. Some f \<in> set fs \<longrightarrow> respects_view f \<Longrightarrow> dsp_view d = dsp_view d' \<Longrightarrow> dsp_view (fst (apply_all fs d)) = dsp_view (fst (apply_all fs d'))"
proof (induction fs arbitrary: d d')
  case (Cons x fs)
  show ?case
  proof (cases x)
    case (Some f)
    then have "respects_view f" using Cons.prems(1) by auto
    then have "dsp_view (f d) = dsp_view (f d')" using Cons.prems(2) unfolding respects_view_def by blast
    with Cons.IH [of "f d" "f d'"] Cons.prems(1) Some show ?thesis by simp
  qed (use Cons.prems(2) in simp)
qed simp

lemma dsp_event_view: "dsp_view d = dsp_view d' \<Longrightarrow> dsp_view (dsp_event J d e) = dsp_view (dsp_event J d' e)"
proof -
  have "respects_view f" if "Some f \<in> set [delay_arg J (ev_data e), gain_arg J (ev_data e), phase_arg J (ev_data e)]" for f
  proof -
    from that consider "delay_arg J (ev_data e) = Some f" | "gain_arg J (ev_data e) = Some f" | "phase_arg J (ev_data e) = Some f"
      by auto
    then show ?thesis by cases (rule args_respect_view, assumption)+
  qed
  then have "\<forall>f. Some f \<in> set [delay_arg J (ev_data e), gain_arg J (ev_data e), phase_arg J (ev_data e)] \<longrightarrow> respects_view f" by blast
  from apply_all_view [OF this, of d d'] show "dsp_view d = dsp_view d' \<Longrightarrow> ?thesis" by (simp add: dsp_event_def)
qed

lemma dsp_events_view: "dsp_view d = dsp_view d' \<Longrightarrow> dsp_view (foldl (dsp_event J) d es) = dsp_view (foldl (dsp_event J) d' es)"
proof (induction es arbitrary: d d')
  case (Cons e es)
  from Cons.IH [OF dsp_event_view [OF Cons.prems]] show ?case by simp
qed simp

lemma in_step_replay:
  assumes "in_step env a" "\<forall>e. Out_Publish e \<in> set outs \<longrightarrow> harmless e"
  shows "in_step env (replay env a outs)"
  using assms
proof (induction outs arbitrary: a)
  case (Cons x outs)
  have "in_step env (replay env a [x])"
    using Cons.prems dsp_events_view [OF dsp_view_setEq [of _ "ap_dsp a"]]
    by (cases x) (auto simp: replay_def in_step_def harmless_keeps)
  moreover have "replay env a (x # outs) = replay env (replay env a [x]) outs" by (simp add: replay_def)
  ultimately show ?case using Cons.IH [of "replay env a [x]"] Cons.prems(2) by simp
qed (simp add: replay_def)

lemma run_events_harmless:
  assumes "runCalibration J os ce name m = (m', res, outs)" "Out_Publish e \<in> set outs"
  shows "harmless e"
proof -
  have rec: "harmless e" if "cal_record J ce name m1 = (m2, evs)" "Out_Publish e \<in> set evs" for m1 m2 evs
    using that update_cases [of J ce _ "set_eq_profile name"] by (force simp: cal_record_def split: option.splits prod.splits)
  have ev: "harmless (mk_event t s)" "t \<noteq> Ev_CommandExecuted \<Longrightarrow> harmless (mk_event_data t s d)" for t s d
    by (simp_all add: harmless_def)
  show ?thesis using assms
    by (auto simp: runCalibration_def Let_def cal_fail_def cal_publish_def cal_mute_def ev split: option.splits if_splits prod.splits dest: rec)
qed

lemma run_config:
  assumes "runCalibration J os ce name m = (m', res, outs)" "ca_config m = Some c" "valid_config (get c)"
  shows "\<exists>c'. ca_config m' = Some c' \<and> valid_config (get c') \<and> wanted (get c') = wanted (get c)"
proof -
  have rec: "\<exists>c'. ca_config m2 = Some c' \<and> valid_config (get c') \<and> wanted (get c') = wanted (get c)"
    if r: "cal_record J ce name m1 = (m2, evs)" "ca_config m1 = Some c" for m1 m2 evs
  proof -
    obtain c' s es where u: "update J ce c (set_eq_profile name) = (c', s, es)" by (metis prod_cases3)
    have "valid_config (get c')" using cfg.upd_valid [of c J ce "set_eq_profile name"] u assms(3) by simp
    moreover have "wanted (get c') = wanted (get c)" using cfg.upd_read [of J ce c "set_eq_profile name"] u by simp
    ultimately show ?thesis using r u by (auto simp: cal_record_def)
  qed
  show ?thesis using assms rec persist_keeps(3)
    by (fastforce simp: runCalibration_def Let_def cal_fail_def split: option.splits if_splits prod.splits)
qed

lemma in_step_web:
  assumes "in_step env a" "sound_input env (In_Web act)"
  shows "in_step env (fst (app_act env act a))"
proof (cases act)
  case Api_StartCalibration
  obtain m res outs where r: "runCalibration (ae_json env) (ae_os env) (ae_cfg env) ''room'' ((ap_cal a)\<lparr>ca_config := Some (ap_config a)\<rparr>) = (m, res, outs)"
    by (metis prod_cases3)
  obtain c' where c': "ca_config m = Some c'" "valid_config (get c')" "wanted (get c') = wanted (get (ap_config a))"
    using run_config [OF r, of "ap_config a"] assms(1) by (auto simp: in_step_def)
  have "in_step env (replay env (a\<lparr>ap_cal := m, ap_config := c'\<rparr>) outs)"
    using assms(1) c' run_events_harmless [OF r] by (intro in_step_replay) (auto simp: in_step_def)
  then show ?thesis using Api_StartCalibration by (simp add: app_act_def act_startCalibration_def r c' replay_def)
next
  case (Api_ConnectWifi b)
  have up: "in_step env (fst (app_update env (set_wifi_configured True) [] a1))" if "in_step env a1" for a1
    using in_step_reply [OF that, of "set_wifi_configured True" "[]"] by (simp add: reply_def split: prod.splits)
  show ?thesis
  proof (cases "wifi_body (ae_json env) b")
    case (Some p)
    obtain n s evs where cw: "connectWifi (ae_join env p) (ae_net_status env) (ap_net a) = (n, s, evs)" by (metis prod_cases3)
    have "\<forall>e\<in>set evs. harmless e" using net_events_harmless cw by (metis snd_conv)
    then have "in_step env (publish evs (a\<lparr>ap_net := n\<rparr>))" using assms(1) by (simp add: in_step_def harmless_all)
    then show ?thesis using up assms(1) Some Api_ConnectWifi by (simp add: app_act_def act_connectWifi_def cw Let_def)
  qed (use assms(1) Api_ConnectWifi in \<open>simp add: app_act_def act_connectWifi_def\<close>)
next
  case Api_AudioTest
  obtain es where es: "ap_queue (fst (playIdentifyTone a)) = ap_queue a @ es" "\<forall>e\<in>set es. harmless e" using tone_frame(3) by blast
  have "valid_config (get (ap_config a))" using assms(1) unfolding in_step_def by blast
  then have "in_step env (fst (playIdentifyTone a))"
    by (intro in_step_frame [OF assms(1) tone_frame(1) es]) (simp_all only: tone_frame(2))
  then show ?thesis using Api_AudioTest by (cases "playIdentifyTone a") (simp add: app_act_def)
next
  case Api_Reboot
  then show ?thesis using assms(1) by (simp add: app_act_def in_step_publish harmless_def)
qed (use assms in_step_reply in \<open>simp_all add: app_act_def split: option.split\<close>)

lemma in_step_step:
  assumes "getters_exact (ae_json env)" "int_getter_ranged (ae_json env)" "in_step env a" "sound_input env i"
  shows "in_step env (app_step env a i)"
proof (cases i)
  case (In_Command x c)
  then have x: "xe_json x = ae_json env" using assms(4) by simp
  have "in_step env (fst (app_command x c a))" using assms(1,2) by (intro in_step_command [OF assms(3)]) (simp_all add: x)
  then show ?thesis using In_Command by simp
next
  case (In_Publish e)
  then show ?thesis using assms(4) in_step_publish [OF assms(3), of "[e]"] by simp
next
  case (In_Web act)
  then show ?thesis using in_step_web [OF assms(3)] assms(4) by simp
qed (simp add: in_step_deliver assms(3))

lemma in_step_run:
  "getters_exact (ae_json env) \<Longrightarrow> int_getter_ranged (ae_json env) \<Longrightarrow> in_step env a \<Longrightarrow> \<forall>i\<in>set is. sound_input env i \<Longrightarrow>
     in_step env (foldl (app_step env) a is)"
  by (induction "is" arbitrary: a) (simp_all add: in_step_step)


text \<open>The startup code puts them in step.\<close>

lemma startup_in_step: "valid_config cfg \<Longrightarrow> dsp_view (startup_dsp cfg d) = wanted cfg"
  by (simp add: dsp_view_def wanted_def startup_dsp_def setOutputGainDb_def setGainDb_def setLimiter_def dsp_setDelayMs_def setDelayMs_def
      Let_def valid_config_iff)

text \<open>\<open>setDelay\<close> of the web interface writes to the engine at once and can be overtaken by the event of an earlier command that is
  still queued: the engine then keeps the command's delay while the configuration has the other one.\<close>

lemma web_delay_overtaken:
  assumes "ap_queue a = [executed_event c [(''delay_ms'', JInt d)]]" "jl_get_int (ae_json env) (JInt d) = Some d" "0 \<le> d"
    and "jl_get_int (ae_json env) (JInt d') = Some d'" "d \<noteq> d'"
    and "app_act env (Api_SetDelay (JObj [(''delay_ms'', JInt d')])) a = (a', Some (True, msg))"
  shows "delay_ms (audio (get (ap_config (deliver env a')))) = d' \<and> dl_ms (ds_delay (ap_dsp (deliver env a'))) = of_int d"
proof -
  obtain m st es where u: "update (ae_json env) (ae_cfg env) (ap_config a) (set_delay d') = (m, st, es)" by (metis prod_cases3)
  have ok: "st_ok st" and a': "ap_config a' = m" "ap_queue a' = ap_queue a @ es"
    using assms(4,6) u by (auto simp: app_act_def act_setDelay_def kinded_def app_update_def split: if_splits)
  have "get m = set_delay d' (get (ap_config a))" using cfg.upd_ok [OF u ok] by simp
  moreover have q: "ap_queue a' = executed_event c [(''delay_ms'', JInt d)] # es" using a' assms(1) by simp
  ultimately show ?thesis
    using deliver_frame(1,2) [OF q, of env] a' assms(2,3)
    by (simp add: dsp_executed arg_defs set_delay_def dsp_setDelayMs_def setDelayMs_def Let_def)
qed

text \<open>A factory reset leaves the engine as it is.\<close>

lemma factory_reset_leaves_dsp:
  "app_act env Api_FactoryReset a = (a', Some (True, msg)) \<Longrightarrow> get (ap_config a') = defaults \<and> ap_dsp a' = ap_dsp a"
  by (auto simp: app_act_def resetToDefaults_def get_def split: prod.splits if_splits)

section \<open>A concrete application\<close>

definition demo_app_env :: app_env where
  "demo_app_env = \<lparr>ae_json = (demo_lib [] JNull)\<lparr>jl_get_int := (\<lambda>v. case v of JInt i \<Rightarrow> if - (2 ^ 31) \<le> i \<and> i < 2 ^ 31 then Some i else None | _ \<Rightarrow> None)\<rparr>,
     ae_cfg = cfg_env_fine, ae_os = os_fine, ae_hal = hal_ok 40 False, ae_mic = \<lparr>mh_open = success, mh_capture = (\<lambda>_. Inr [])\<rparr>,
     ae_crypto = undefined, ae_scan = Inr [], ae_connect = (\<lambda>_ _. success), ae_join = (\<lambda>_. success),
     ae_net_status = Inl success, ae_device_id = ''SPK-1'', ae_box_key = [], ae_now = 0\<rparr>"

definition demo_app :: app where
  "demo_app = \<lparr>ap_config = cfgman_new ''c'' Map.empty, ap_amp = amp_new 70 85, ap_dsp = startup_dsp defaults (dsp_new 48000 2),
     ap_updater = \<lparr>um_vendor_key = [], um_target = [], um_allowed = True, um_state = Svc_Running\<rparr>, ap_search = None, ap_net = netman_new,
     ap_recv = \<lparr>rc_buffer = ab_new 10 50, rc_sync = sync_new 100, rc_streaming = False, rc_state = Svc_Running\<rparr>,
     ap_cal = calman_new True None None Map.empty 48000, ap_link = link_new, ap_sys = Sys_Online, ap_setup = False, ap_queue = [], ap_calls = []\<rparr>"

lemma demo_app_env_ok: "getters_exact (ae_json demo_app_env)" "int_getter_ranged (ae_json demo_app_env)"
  by (auto simp: demo_app_env_def getters_exact_def int_getter_ranged_def split: json.splits if_splits)

definition demo_delay :: command where
  "demo_delay = demo_command\<lparr>command_name := ''SET_DELAY'', payload := JObj [(''delay_ms'', JInt 20)]\<rparr>"

definition demo_exec_env :: exec_env where
  "demo_exec_env = \<lparr>xe_json = ae_json demo_app_env, xe_cfg = cfg_env_fine, xe_now = 0, xe_telemetry = None, xe_measure = None\<rparr>"

lemma demo_delay_args:
  "command_name demo_delay = ''SET_DELAY''" "arg is_number_integer demo_delay ''delay_ms'' = Some (JInt 20)"
  "jl_get_int (xe_json demo_exec_env) (JInt 20) = Some 20"
  by (simp_all add: demo_delay_def arg_def demo_exec_env_def demo_app_env_def)

lemma demo_delay_run:
  "ap_queue (app_step demo_app_env demo_app (In_Command demo_exec_env demo_delay)) =
     [received_event demo_delay, config_changed_event, executed_event demo_delay [(''delay_ms'', JInt 20)]]"
  "get (ap_config (app_step demo_app_env demo_app (In_Command demo_exec_env demo_delay))) = set_delay 20 defaults"
proof -
  let ?s = "\<lparr>ex_config = ap_config demo_app, ex_link = ap_link demo_app\<rparr>"
  obtain m st es where u: "update (xe_json demo_exec_env) (xe_cfg demo_exec_env) (ap_config demo_app) (set_delay 20) = (m, st, es)" by (metis prod_cases3)
  have g: "cm_config (ap_config demo_app) = defaults" "get (ap_config demo_app) = defaults" by (simp_all add: demo_app_def cfgman_new_def get_def)
  have v: "valid_config (set_delay 20 defaults)" by (simp add: valid_config_iff set_delay_def default_defs)
  have ok: "st_ok st"
    using update_cases [OF u] v g persist_fine [OF v, of "xe_cfg demo_exec_env" "xe_json demo_exec_env" "ap_config demo_app"]
    by (auto simp: demo_exec_env_def cfg_env_fine_def)
  then have es: "es = [config_changed_event]" "get m = set_delay 20 defaults" using update_cases [OF u] g cfg.upd_ok [OF u ok] by auto
  have ex: "execute demo_exec_env ?s demo_delay = apply_setting demo_exec_env ?s demo_delay (set_delay 20) [(''delay_ms'', JInt 20)]"
    using demo_delay_args by (simp add: execute_def Let_def with_arg_def)
  have q: "ap_queue demo_app = []" by (simp add: demo_app_def)
  show "ap_queue (app_step demo_app_env demo_app (In_Command demo_exec_env demo_delay)) =
     [received_event demo_delay, config_changed_event, executed_event demo_delay [(''delay_ms'', JInt 20)]]"
    "get (ap_config (app_step demo_app_env demo_app (In_Command demo_exec_env demo_delay))) = set_delay 20 defaults"
    using ok es u q by (simp_all add: app_command_def ex apply_setting_def)
qed

lemma quiet_delivery:
  assumes "ap_queue a = e # es" "ev_type e \<in> {Ev_CommandReceived, Ev_ConfigChanged}"
  shows "ap_queue (deliver env a) = es" "ap_config (deliver env a) = ap_config a"
  using assms by (auto simp: deliver_def on_event_def on_executed_def on_state_join_def on_state_search_def on_audio_def on_calibration_def)

lemma setting_delivery:
  assumes "ap_queue a = [executed_event c [(''delay_ms'', v)]]" "command_name c = ''SET_DELAY''" "getters_exact (ae_json env)"
  shows "ap_queue (deliver env a) = []"
  using assms by (auto simp: deliver_def on_event_def on_executed_def on_state_join_def on_state_search_def on_audio_def on_calibration_def
      executed_data Let_def j_value_def split: prod.splits)

text \<open>The delay command followed by the delivery of its three events.\<close>

definition demo_inputs :: "app_input list" where
  "demo_inputs = [In_Command demo_exec_env demo_delay, In_Deliver, In_Deliver, In_Deliver]"

lemma demo_settled:
  "ap_queue (foldl (app_step demo_app_env) demo_app demo_inputs) = []"
  "get (ap_config (foldl (app_step demo_app_env) demo_app demo_inputs)) = set_delay 20 defaults"
  "\<forall>i\<in>set demo_inputs. sound_input demo_app_env i"
proof -
  let ?a1 = "app_step demo_app_env demo_app (In_Command demo_exec_env demo_delay)"
  let ?a2 = "deliver demo_app_env ?a1" let ?a3 = "deliver demo_app_env ?a2" let ?a4 = "deliver demo_app_env ?a3"
  have e: "ev_type (received_event demo_delay) = Ev_CommandReceived" "ev_type config_changed_event = Ev_ConfigChanged"
    by (simp_all add: received_event_def config_changed_event_def)
  have q2: "ap_queue ?a2 = [config_changed_event, executed_event demo_delay [(''delay_ms'', JInt 20)]]" "ap_config ?a2 = ap_config ?a1"
    using quiet_delivery [OF demo_delay_run(1), of demo_app_env] e by simp_all
  have q3: "ap_queue ?a3 = [executed_event demo_delay [(''delay_ms'', JInt 20)]]" "ap_config ?a3 = ap_config ?a1"
    using quiet_delivery [OF q2(1), of demo_app_env] e q2(2) by simp_all
  have q4: "ap_queue ?a4 = []"
    by (rule setting_delivery [OF q3(1) _ demo_app_env_ok(1)]) (simp add: demo_delay_def)
  have c4: "ap_config ?a4 = ap_config ?a1" using deliver_frame(2) [OF q3(1), of demo_app_env] q3(2) by simp
  show "ap_queue (foldl (app_step demo_app_env) demo_app demo_inputs) = []"
    "get (ap_config (foldl (app_step demo_app_env) demo_app demo_inputs)) = set_delay 20 defaults"
    "\<forall>i\<in>set demo_inputs. sound_input demo_app_env i"
    using q4 c4 demo_delay_run(2) by (simp_all add: demo_inputs_def demo_exec_env_def)
qed

lemma demo_app_in_step: "in_step demo_app_env demo_app"
  by (simp add: in_step_def demo_app_def cfgman_new_def get_def startup_in_step)


text \<open>An overlap: a web request for the volume copies the configuration, the delay command runs and its events are delivered, then
  the request stores its candidate. The engine plays with the new delay, the configuration (and the file) has the old one.\<close>

lemma overlapping_update_splits_engine:
  assumes "v \<in> {0..100}"
  shows "let a' = foldl (app_step demo_app_env) demo_app demo_inputs;
             candidate = set_volume v (get (ap_config demo_app))
         in dl_ms (ds_delay (ap_dsp a')) = 20 \<and>
            (\<exists>m. update_store (ae_json demo_app_env) cfg_env_fine (ap_config a') candidate = (m, success, [config_changed_event]) \<and>
                 delay_ms (audio (get m)) = delay_ms (audio defaults) \<and> delay_ms (audio defaults) \<noteq> 20)"
proof -
  let ?a = "foldl (app_step demo_app_env) demo_app demo_inputs"
  let ?c = "set_volume v (get (ap_config demo_app))"
  have c: "get (ap_config demo_app) = defaults" by (simp add: demo_app_def cfgman_new_def get_def)
  have v: "valid_config ?c" using assms by (simp add: c valid_config_iff set_volume_def default_defs)
  have "in_step demo_app_env ?a"
    by (rule in_step_run [OF demo_app_env_ok demo_app_in_step demo_settled(3)])
  then have "dl_ms (ds_delay (ap_dsp ?a)) = 20" using demo_settled by (simp add: in_step_def dsp_view_def wanted_def set_delay_def)
  moreover obtain m' w where p: "persist (ae_json demo_app_env) cfg_env_fine (ap_config ?a) ?c = (m', w)" by (metis surj_pair)
  then have "w = success" using persist_fine [OF v, of cfg_env_fine "ae_json demo_app_env" "ap_config ?a"] by (simp add: cfg_env_fine_def)
  then have "update_store (ae_json demo_app_env) cfg_env_fine (ap_config ?a) ?c = (m'\<lparr>cm_config := ?c\<rparr>, success, [config_changed_event])"
    using p v by (simp add: update_store_def valid_config_def)
  moreover have "delay_ms (audio ?c) = delay_ms (audio defaults)" "delay_ms (audio defaults) \<noteq> 20"
    by (simp_all add: c set_volume_def default_defs)
  ultimately show ?thesis by (simp add: Let_def get_def)
qed

section \<open>Other behaviours of the wiring\<close>

text \<open>The tone is longer than the buffer: pushed at once, its first half is dropped.\<close>

lemma pushes_keep_last:
  "length (ab_queue b) \<le> ab_capacity b \<Longrightarrow> 0 < ab_capacity b \<Longrightarrow>
     ab_queue (foldl push b ps) = drop (length (ab_queue b) + length ps - ab_capacity b) (ab_queue b @ ps)"
proof (induction ps arbitrary: b)
  case (Cons p ps)
  have cap: "ab_capacity (push b p) = ab_capacity b" by (rule jb.cap_put)
  show ?case
  proof (cases "length (ab_queue b) \<ge> ab_capacity b")
    case True
    then have q: "ab_queue (push b p) = tl (ab_queue b) @ [p]" by (simp add: jb.put_contents)
    obtain x xs where b: "ab_queue b = x # xs" using True Cons.prems by (cases "ab_queue b") auto
    with Cons.IH [of "push b p"] q cap Cons.prems True show ?thesis by (simp add: Suc_diff_le)
  next
    case False
    then have "ab_queue (push b p) = ab_queue b @ [p]" by (simp add: jb.put_contents)
    with Cons.IH [of "push b p"] cap Cons.prems False show ?thesis by simp
  qed
qed (simp)

lemma identify_tone_truncated:
  assumes "playIdentifyTone a = (a', (True, msg))" "rc_buffer (ap_recv a) = ab_new 10 50"
  shows "ab_queue (rc_buffer (ap_recv a')) = map tone_packet [50..<100]"
proof -
  have "ab_queue (foldl push (ab_new 10 50) (map tone_packet [0..<100])) = drop 50 (map tone_packet [0..<100])"
    by (subst pushes_keep_last) (simp_all add: ab_new_def)
  then show ?thesis using assms by (auto simp: playIdentifyTone_def Let_def publish_def drop_map split: if_splits)
qed

text \<open>A stream that began while the speaker was muted stays inaudible after the mute is lifted: no event of the unmuting reaches the amplifier.\<close>

lemma app_update_frame:
  assumes "app_update env f msg a = (a', ok, m)"
  shows "ap_amp a' = ap_amp a" "ap_calls a' = ap_calls a" "\<exists>es. ap_queue a' = ap_queue a @ es \<and> (\<forall>e\<in>set es. e = config_changed_event)"
proof -
  obtain cm s evs where u: "update (ae_json env) (ae_cfg env) (ap_config a) f = (cm, s, evs)" by (metis prod_cases3)
  have "evs = [] \<or> evs = [config_changed_event]" using update_cases [OF u] by auto
  moreover have "a' = publish evs (a\<lparr>ap_config := cm\<rparr>)" using assms u by (simp add: app_update_def)
  ultimately show "ap_amp a' = ap_amp a" "ap_calls a' = ap_calls a" "\<exists>es. ap_queue a' = ap_queue a @ es \<and> (\<forall>e\<in>set es. e = config_changed_event)"
    by (auto simp: publish_def)
qed

lemma unmute_does_not_reach_amplifier:
  assumes "app_act env (Api_SetMute b) a = (a', r)"
  shows "ap_amp a' = ap_amp a \<and> ap_calls a' = ap_calls a \<and> (\<exists>es. ap_queue a' = ap_queue a @ es \<and> (\<forall>e\<in>set es. e = config_changed_event))"
proof -
  have "a' = a \<or> (\<exists>m ok msg. app_update env (set_muted m) ''ok'' a = (a', ok, msg))"
    using assms by (auto simp: app_act_def reply_def split: option.splits prod.splits)
  then show ?thesis
  proof
    assume "\<exists>m ok msg. app_update env (set_muted m) ''ok'' a = (a', ok, msg)"
    then obtain m ok msg where "app_update env (set_muted m) ''ok'' a = (a', ok, msg)" by blast
    from app_update_frame [OF this] show ?thesis by simp
  qed simp
qed

lemma config_change_moves_nothing: "ap_queue a = config_changed_event # es \<Longrightarrow> deliver env a = a\<lparr>ap_queue := es\<rparr>"
  by (simp add: deliver_def on_event_def on_executed_def on_state_join_def on_state_search_def on_audio_def on_calibration_def config_changed_event_def)

text \<open>\<open>FACTORY_RESET\<close> and \<open>RESET_NETWORK\<close> as commands are acknowledged and change nothing.\<close>

lemma lifecycle_command_ignored:
  assumes "command_name c \<in> {''FACTORY_RESET'', ''RESET_NETWORK''}"
  shows "\<exists>r. app_command x c a = (publish [received_event c, executed_event c []] a, Some r) \<and> cr_ok r"
proof -
  have "execute x s c = (s, [received_event c, executed_event c []], Some (ok_result c (JObj [(''accepted'', JBool True)])))" for s
    using assms by (elim insertE emptyE) (simp_all add: execute_def Let_def deferred_commands_def lifecycle_commands_def)
  moreover have "a\<lparr>ap_config := ap_config a, ap_link := ap_link a\<rparr> = a" by (cases a) simp
  ultimately show ?thesis by (simp add: app_command_def)
qed

text \<open>The loss percentage is a percentage as long as the counters' sum does not wrap.\<close>

lemma loss_pct_range:
  assumes "unat (bm_received m) + unat (bm_lost m) < 2 ^ 64"
  shows "0 \<le> loss_pct m \<and> loss_pct m \<le> 100"
proof -
  have s: "unat (bm_received m + bm_lost m) = unat (bm_received m) + unat (bm_lost m)" using assms by (intro unat_add_lem [THEN iffD1]) simp
  have "0 \<le> 100 * real l / real (r + l) \<and> 100 * real l / real (r + l) \<le> 100" if "0 < r + l" for r l :: nat using that by (simp add: divide_le_eq)
  from this [of "unat (bm_received m)" "unat (bm_lost m)"] s show ?thesis
    unfolding loss_pct_def Let_def word_less_nat_alt unat_0 s by (simp only: split: if_split) simp
qed

text \<open>No logs callback is installed: the logs page is not found.\<close>

lemma logs_not_found: "handleGet J (app_context env) a ''/api/system/logs'' = api_error J 404 ''not found''"
  by (simp add: handleGet_def app_context_def get_paths_def)

end
