(* ===== verification/Master_Dsp.thy ===== *)
theory Master_Dsp
  imports Dsp Streamer_Pairing "HOL-Library.AList"
begin

text \<open>
  The Streamer's master processing chain (\<open>streamer/src/dsp/MasterDsp.h\<close>), the level meters
  (\<open>streamer/src/audio/LevelMeter.h\<close>) and the two closures of \<open>StreamerApp.cpp\<close> that put them on the web API.
  The chain wraps the speaker's engine, theory \<open>Dsp\<close>. Samples and gains are reals, as there.
  The main results: the engine always runs with the settings that \<open>config()\<close> reports, a partial patch
  changes only the settings it names, the settings survive a restart, and a meter never leaves its scale.
\<close>

section \<open>Settings\<close>

record master_config =
  mc_bypass :: bool
  mc_input_gain_db :: real
  mc_master_volume_db :: real
  mc_limiter_enabled :: bool
  mc_limiter_threshold_db :: real
  mc_eq_gains_db :: "real list"

definition master_default :: master_config where
  "master_default = \<lparr>mc_bypass = False, mc_input_gain_db = 0, mc_master_volume_db = 0, mc_limiter_enabled = True,
     mc_limiter_threshold_db = - 1, mc_eq_gains_db = replicate kEqBands 0\<rparr>"

definition master_to_json :: "master_config \<Rightarrow> json" where
  "master_to_json c = JObj [(''bypass'', JBool (mc_bypass c)), (''input_gain_db'', JReal (mc_input_gain_db c)),
     (''master_volume_db'', JReal (mc_master_volume_db c)), (''limiter_enabled'', JBool (mc_limiter_enabled c)),
     (''limiter_threshold_db'', JReal (mc_limiter_threshold_db c)), (''eq_gains_db'', JArr (map JReal (mc_eq_gains_db c)))]"

text \<open>The loop over the array: it stops at the shorter of the two, and skips what is not a number.\<close>

fun read_gains :: "json_lib \<Rightarrow> json list \<Rightarrow> real list \<Rightarrow> real list option" where
  "read_gains J (v # vs) (g # gs) = do {
     g' \<leftarrow> (if is_number v then jl_get_double J v else Some g);
     gs' \<leftarrow> read_gains J vs gs;
     Some (g' # gs')
   }"
| "read_gains J _ gs = Some gs"

text \<open>\<open>fromJson\<close>; None when one of the typed reads throws.\<close>

definition master_from_json :: "json_lib \<Rightarrow> json \<Rightarrow> master_config option" where
  "master_from_json J j =
     (let c = master_default in
      if \<not> is_object j then Some c
      else do {
        b \<leftarrow> j_value (jl_get_bool J) j ''bypass'' (mc_bypass c);
        i \<leftarrow> j_value (jl_get_double J) j ''input_gain_db'' (mc_input_gain_db c);
        v \<leftarrow> j_value (jl_get_double J) j ''master_volume_db'' (mc_master_volume_db c);
        l \<leftarrow> j_value (jl_get_bool J) j ''limiter_enabled'' (mc_limiter_enabled c);
        t \<leftarrow> j_value (jl_get_double J) j ''limiter_threshold_db'' (mc_limiter_threshold_db c);
        g \<leftarrow> (case j_find j ''eq_gains_db'' of Some (JArr arr) \<Rightarrow> read_gains J arr (mc_eq_gains_db c) | _ \<Rightarrow> Some (mc_eq_gains_db c));
        Some \<lparr>mc_bypass = b, mc_input_gain_db = i, mc_master_volume_db = v, mc_limiter_enabled = l,
              mc_limiter_threshold_db = t, mc_eq_gains_db = g\<rparr>
      })"

definition clampEqGainDb :: "real \<Rightarrow> real" where
  "clampEqGainDb db = (if db > 10 then 10 else if db < - 10 then - 10 else db)"

section \<open>The chain\<close>

record master_dsp =
  ms_engine :: dsp_engine
  ms_config :: master_config

definition master_apply :: "master_config \<Rightarrow> dsp_engine \<Rightarrow> dsp_engine" where
  "master_apply c d =
     (let d1 = setInputGainDb (mc_input_gain_db c) d;
          d2 = setOutputGainDb (mc_master_volume_db c) d1;
          d3 = setLimiter (mc_limiter_enabled c) (mc_limiter_threshold_db c) d2;
          d4 = setEqGains (mc_eq_gains_db c) d3
      in d4\<lparr>ds_bypass := mc_bypass c\<rparr>)"

definition master_new :: "real \<Rightarrow> nat \<Rightarrow> master_dsp" where
  "master_new fs ch = \<lparr>ms_engine = master_apply master_default (dsp_new fs ch), ms_config = master_default\<rparr>"

definition master_process :: "master_dsp \<Rightarrow> i16 list \<Rightarrow> nat \<Rightarrow> nat \<Rightarrow> master_dsp \<times> i16 list" where
  "master_process m io frames ch =
     (case processInt16 (ms_engine m) io frames ch of (d, out) \<Rightarrow> (m\<lparr>ms_engine := d\<rparr>, out))"

definition setConfig :: "master_config \<Rightarrow> master_dsp \<Rightarrow> master_dsp" where
  "setConfig incoming m =
     (let c = incoming\<lparr>mc_eq_gains_db := map clampEqGainDb (mc_eq_gains_db incoming)\<rparr>
      in \<lparr>ms_engine = master_apply c (ms_engine m), ms_config = c\<rparr>)"

text \<open>\<open>json::update\<close>: every member of the patch replaces or joins the members of the object.\<close>

definition j_update :: "json \<Rightarrow> json \<Rightarrow> json" where
  "j_update j p =
     (case (j, p) of (JObj kvs, JObj ps) \<Rightarrow> JObj (foldl (\<lambda>m (k, v). AList.update k v m) kvs ps) | _ \<Rightarrow> j)"

text \<open>The setter of \<open>setDspAccess\<close>; no answer when it throws.\<close>

definition dsp_set :: "json_lib \<Rightarrow> master_dsp \<Rightarrow> json \<Rightarrow> master_dsp \<times> json option" where
  "dsp_set J m patch =
     (let now = master_to_json (ms_config m); merged = (if is_object patch then j_update now patch else now) in
      case master_from_json J merged of
        None \<Rightarrow> (m, None)
      | Some c \<Rightarrow> let m' = setConfig c m in (m', Some (master_to_json (ms_config m'))))"

text \<open>The chain at start: new, then the saved settings, when there is a configuration.\<close>

definition startup_dsp :: "json_lib \<Rightarrow> real \<Rightarrow> nat \<Rightarrow> streamer_cfgman option \<Rightarrow> master_dsp option" where
  "startup_dsp J fs ch cfg =
     (case cfg of
        None \<Rightarrow> Some (master_new fs ch)
      | Some m \<Rightarrow> map_option (\<lambda>c. setConfig c (master_new fs ch)) (master_from_json J (sc_dsp (sm_config m))))"

section \<open>Level meter\<close>

record levels =
  lv_rms_left :: real
  lv_rms_right :: real
  lv_peak_left :: real
  lv_peak_right :: real
  lv_active :: bool

definition levels_new :: levels where
  "levels_new = \<lparr>lv_rms_left = 0, lv_rms_right = 0, lv_peak_left = 0, lv_peak_right = 0, lv_active = False\<rparr>"

text \<open>The accumulators of the loop: the sums of squares and the peaks of both channels.\<close>

type_synonym meter_acc = "(int \<times> int) \<times> (int \<times> int)"

definition meter_frame :: "i16 list \<Rightarrow> nat \<Rightarrow> meter_acc \<Rightarrow> nat \<Rightarrow> meter_acc" where
  "meter_frame pcm ch acc f =
     (let l = sint (pcm ! (f * ch)); r = (if ch > 1 then sint (pcm ! (f * ch + 1)) else l) in
      case acc of ((sl, sr), (pl, pr)) \<Rightarrow> ((sl + l * l, sr + r * r), (max pl \<bar>l\<bar>, max pr \<bar>r\<bar>)))"

definition rms_of :: "int \<Rightarrow> nat \<Rightarrow> real" where
  "rms_of sum_sq frames = sqrt (of_int sum_sq / of_nat frames) / 32768"

definition meter_measure :: "levels \<Rightarrow> i16 list \<Rightarrow> nat \<Rightarrow> int \<Rightarrow> levels" where
  "meter_measure v pcm frames channels =
     (if frames = 0 \<or> channels \<le> 0 then v
      else case foldl (meter_frame pcm (nat channels)) ((0, 0), (0, 0)) [0..<frames] of
             ((sl, sr), (pl, pr)) \<Rightarrow>
               \<lparr>lv_rms_left = rms_of sl frames, lv_rms_right = rms_of sr frames,
                lv_peak_left = of_int pl / 32768, lv_peak_right = of_int pr / 32768, lv_active = True\<rparr>)"

definition meter_reset :: "levels \<Rightarrow> levels" where
  "meter_reset v = levels_new"

definition toDbfs :: "real \<Rightarrow> real \<Rightarrow> real" where
  "toDbfs lin floor_db =
     (if lin \<le> 0 then floor_db
      else let db = 20 * log 10 lin in if db < floor_db then floor_db else db)"

definition dbToFraction :: "real \<Rightarrow> real \<Rightarrow> real" where
  "dbToFraction dbfs floor_db =
     (if dbfs \<le> floor_db then 0 else if dbfs \<ge> 0 then 1 else (dbfs - floor_db) / (0 - floor_db))"

text \<open>The closure behind \<open>/api/levels\<close>: both meters with the default floor, and the transport.\<close>

definition is_clipping :: "levels \<Rightarrow> bool" where
  "is_clipping v \<longleftrightarrow> lv_peak_left v \<ge> 999 / 1000 \<or> lv_peak_right v \<ge> 999 / 1000"

definition pack_levels :: "levels \<Rightarrow> json" where
  "pack_levels v =
     (let db_l = toDbfs (lv_rms_left v) (- 60); db_r = toDbfs (lv_rms_right v) (- 60) in
      JObj [(''rms_db_left'', JReal db_l), (''rms_db_right'', JReal db_r),
        (''bar_left'', JReal (dbToFraction db_l (- 60))), (''bar_right'', JReal (dbToFraction db_r (- 60))),
        (''peak_db_left'', JReal (toDbfs (lv_peak_left v) (- 60))), (''peak_db_right'', JReal (toDbfs (lv_peak_right v) (- 60))),
        (''clipping'', JBool (is_clipping v)), (''active'', JBool (lv_active v))])"

section \<open>Settings: lemmas\<close>

lemma read_gains_exact [simp]:
  "getters_exact J \<Longrightarrow> length gs = length ds \<Longrightarrow> read_gains J (map JReal gs) ds = Some gs"
proof (induction gs arbitrary: ds)
  case (Cons g gs)
  then show ?case by (cases ds) auto
qed simp

lemma read_gains_length: "read_gains J vs gs = Some gs' \<Longrightarrow> length gs' = length gs"
  by (induction J vs gs arbitrary: gs' rule: read_gains.induct) (auto split: bind_splits)

lemma master_from_json_length: "master_from_json J j = Some c \<Longrightarrow> length (mc_eq_gains_db c) = kEqBands"
  by (auto simp: master_from_json_def master_default_def Let_def dest!: read_gains_length
      split: bind_splits if_splits option.splits json.splits)

lemma master_json_roundtrip:
  "getters_exact J \<Longrightarrow> length (mc_eq_gains_db c) = kEqBands \<Longrightarrow> master_from_json J (master_to_json c) = Some c"
  by (simp add: master_from_json_def master_to_json_def master_default_def Let_def)

lemma clampEqGainDb_range: "\<bar>clampEqGainDb g\<bar> \<le> 10"
  by (auto simp: clampEqGainDb_def)

lemma clampEqGainDb_id: "\<bar>g\<bar> \<le> 10 \<Longrightarrow> clampEqGainDb g = g"
  by (auto simp: clampEqGainDb_def)

lemma clamp_real_clamped: "\<bar>g\<bar> \<le> 10 \<Longrightarrow> clamp_real g (- 10) 10 = g"
  by (auto simp: clamp_real_def)

section \<open>The engine runs with the reported settings\<close>

lemma on_frames_keeps:
  assumes "\<And>s x. P s \<Longrightarrow> P (fst (f s x))" "P s"
  shows "P (fst (on_frames f s io frames ch))"
proof -
  have "P (fst (run_frames f s xs))" for xs
    using assms(2) by (induction xs arbitrary: s) (auto simp: split_beta intro: assms(1))
  then show ?thesis by (simp add: on_frames_def split_beta)
qed

text \<open>What a block of audio leaves as it is.\<close>

definition dsp_settings :: "dsp_engine \<Rightarrow> bool \<times> real \<times> real \<times> (bool \<times> real) \<times> real list \<times> coeffs list" where
  "dsp_settings d = (ds_bypass d, gc_target (ds_in_gain d), gc_target (ds_out_gain d),
     (dy_enabled (ds_lim d), dy_threshold (ds_lim d)), eq_gains (ds_eq d), eq_coeffs (ds_eq d))"

lemma gain_process_target: "gc_target (fst (gain_process g io frames ch)) = gc_target g"
  unfolding gain_process_def
  by (rule on_frames_keeps [where P = "\<lambda>h. gc_target h = gc_target g"]) (simp_all add: gain_frame_def Let_def)

lemma limiter_process_settings:
  "dy_enabled (fst (limiter_process l io frames ch)) = dy_enabled l \<and> dy_threshold (fst (limiter_process l io frames ch)) = dy_threshold l"
  unfolding limiter_process_def
  using on_frames_keeps [where P = "\<lambda>h. dy_enabled h = dy_enabled l \<and> dy_threshold h = dy_threshold l" and f = limiter_frame and s = l]
  by (auto simp: limiter_frame_def Let_def)

lemma eq_process_settings:
  "eq_gains (fst (eq_process e io frames)) = eq_gains e" "eq_coeffs (fst (eq_process e io frames)) = eq_coeffs e"
  by (simp_all add: eq_process_def split_beta)

lemma processInt16_settings: "dsp_settings (fst (processInt16 d io frames ch)) = dsp_settings d"
  by (simp add: processInt16_def chain_def dsp_settings_def Let_def split_beta gain_process_target limiter_process_settings
      eq_process_settings)

definition wanted_settings :: "real \<Rightarrow> master_config \<Rightarrow> bool \<times> real \<times> real \<times> (bool \<times> real) \<times> real list \<times> coeffs list" where
  "wanted_settings fs c = (mc_bypass c, db_linear (mc_input_gain_db c), db_linear (mc_master_volume_db c),
     (mc_limiter_enabled c, db_linear (mc_limiter_threshold_db c)), mc_eq_gains_db c,
     map (\<lambda>i. peakingEq (kBandFreqs ! i) (mc_eq_gains_db c ! i) kBandQ fs) [0..<kEqBands])"

definition master_inv :: "real \<Rightarrow> master_dsp \<Rightarrow> bool" where
  "master_inv fs m \<longleftrightarrow> dsp_settings (ms_engine m) = wanted_settings fs (ms_config m) \<and> eq_fs (ds_eq (ms_engine m)) = fs \<and>
     length (mc_eq_gains_db (ms_config m)) = kEqBands \<and> list_all (\<lambda>g. \<bar>g\<bar> \<le> 10) (mc_eq_gains_db (ms_config m))"

lemma master_apply_settings:
  assumes "length (mc_eq_gains_db c) = kEqBands" "list_all (\<lambda>g. \<bar>g\<bar> \<le> 10) (mc_eq_gains_db c)" "eq_fs (ds_eq d) = fs"
  shows "dsp_settings (master_apply c d) = wanted_settings fs c" "eq_fs (ds_eq (master_apply c d)) = fs"
proof -
  have g: "map (\<lambda>i. clamp_real (mc_eq_gains_db c ! i) (- 10) 10) [0..<kEqBands] = mc_eq_gains_db c"
    using assms(1,2) by (intro nth_equalityI) (auto simp: clamp_real_clamped list_all_length)
  show "dsp_settings (master_apply c d) = wanted_settings fs c" "eq_fs (ds_eq (master_apply c d)) = fs"
    using assms(3)
    by (simp_all add: master_apply_def dsp_settings_def wanted_settings_def Let_def setInputGainDb_def setOutputGainDb_def
        setGainDb_def setLimiter_def setEqGains_def eq_setGains_def eq_rebuild_def g)
qed

lemma setConfig_inv:
  assumes "master_inv fs m" "length (mc_eq_gains_db c) = kEqBands"
  shows "master_inv fs (setConfig c m)"
  using assms master_apply_settings [of "c\<lparr>mc_eq_gains_db := map clampEqGainDb (mc_eq_gains_db c)\<rparr>" "ms_engine m" fs]
  by (simp add: master_inv_def setConfig_def Let_def list_all_iff clampEqGainDb_range)

lemma master_new_inv: "master_inv fs (master_new fs ch)"
  using master_apply_settings [of master_default "dsp_new fs ch" fs]
  by (simp add: master_inv_def master_new_def master_default_def list_all_iff dsp_new_def eq_new_def eq_rebuild_def
      eq_setChannels_def Let_def)

lemma master_process_inv: "master_inv fs m \<Longrightarrow> master_inv fs (fst (master_process m io frames ch))"
proof -
  have "eq_fs (ds_eq (fst (processInt16 d io frames ch))) = eq_fs (ds_eq d)" for d
    by (simp add: processInt16_def chain_def eq_process_def Let_def split_beta)
  then show "master_inv fs m \<Longrightarrow> master_inv fs (fst (master_process m io frames ch))"
    by (simp add: master_inv_def master_process_def split_beta processInt16_settings)
qed

lemma dsp_set_inv: "master_inv fs m \<Longrightarrow> master_inv fs (fst (dsp_set J m patch))"
  by (auto simp: dsp_set_def Let_def intro: setConfig_inv dest: master_from_json_length split: option.splits)

datatype master_op = Dsp_Patch json | Dsp_Block "i16 list" nat nat

fun master_step :: "json_lib \<Rightarrow> master_dsp \<Rightarrow> master_op \<Rightarrow> master_dsp" where
  "master_step J m (Dsp_Patch p) = fst (dsp_set J m p)"
| "master_step J m (Dsp_Block io frames ch) = fst (master_process m io frames ch)"

interpretation master_run: invariant_system "master_step J" "master_inv fs" for J fs
proof
  fix m l
  assume "master_inv fs m"
  then show "master_inv fs (master_step J m l)" by (cases l) (simp_all add: dsp_set_inv master_process_inv)
qed

lemma startup_dsp_inv: "startup_dsp J fs ch cfg = Some m \<Longrightarrow> master_inv fs m"
  by (auto simp: startup_dsp_def master_new_inv intro: setConfig_inv [OF master_new_inv] dest: master_from_json_length
      split: option.splits)

text \<open>The Streamer's engine always runs with the settings that the API reports: after a start from any saved
  settings and any sequence of patches from the web and blocks of audio, the bypass flag, both gains, the limiter
  and the coefficients of all 32 bands in the engine are those of \<open>config()\<close>, and no band asks for more than 10 dB.\<close>

theorem engine_runs_reported_settings:
  assumes "startup_dsp J fs ch cfg = Some m0"
  shows "let m = foldl (master_step J) m0 ops in
    dsp_settings (ms_engine m) = wanted_settings fs (ms_config m) \<and> list_all (\<lambda>g. \<bar>g\<bar> \<le> 10) (mc_eq_gains_db (ms_config m))"
  using master_run.run_inv [OF startup_dsp_inv [OF assms]] by (simp add: master_inv_def Let_def)

text \<open>The witness: a first start, one patch that asks for 12 dB in a short array, and a block.\<close>

definition demo_patch :: json where
  "demo_patch = JObj [(''eq_gains_db'', JArr [JReal 12, JStr ''x'', JReal 3]), (''master_volume_db'', JReal (- 6))]"

definition demo_master :: master_dsp where
  "demo_master = foldl (master_step (demo_lib [] JNull)) (master_new 48000 2) [Dsp_Patch demo_patch, Dsp_Block [100, - 100] 1 2]"

theorem engine_runs_reported_settings_witness:
  "dsp_settings (ms_engine demo_master) = wanted_settings 48000 (ms_config demo_master)"
  using engine_runs_reported_settings [of "demo_lib [] JNull" 48000 2 None "master_new 48000 2" "[Dsp_Patch demo_patch, Dsp_Block [100, - 100] 1 2]"]
  by (simp add: startup_dsp_def Let_def demo_master_def del: master_step.simps)

section \<open>A patch is local\<close>

lemma map_of_AList_updates:
  "map_of (foldl (\<lambda>m (k, v). AList.update k v m) kvs ps) = map_of kvs ++ map_of (rev ps)"
  by (induction ps arbitrary: kvs) (auto simp: update_conv' map_add_def fun_eq_iff split: option.splits)

lemma j_find_update:
  "j_find (j_update (JObj kvs) (JObj ps)) k = (case map_of (rev ps) k of None \<Rightarrow> map_of kvs k | Some v \<Rightarrow> Some v)"
  by (simp add: j_update_def map_of_AList_updates map_add_def)

definition reads_bool :: "json_lib \<Rightarrow> (string \<times> json) list \<Rightarrow> string \<Rightarrow> bool \<Rightarrow> bool option" where
  "reads_bool J ps k old = (case map_of (rev ps) k of None \<Rightarrow> Some old | Some v \<Rightarrow> jl_get_bool J v)"

definition reads_real :: "json_lib \<Rightarrow> (string \<times> json) list \<Rightarrow> string \<Rightarrow> real \<Rightarrow> real option" where
  "reads_real J ps k old = (case map_of (rev ps) k of None \<Rightarrow> Some old | Some v \<Rightarrow> jl_get_double J v)"

lemmas patch_reads = reads_bool_def reads_real_def

lemma master_from_json_fields:
  assumes "master_from_json J j = Some c" "is_object j"
  shows "j_value (jl_get_bool J) j ''bypass'' False = Some (mc_bypass c)"
    "j_value (jl_get_double J) j ''input_gain_db'' 0 = Some (mc_input_gain_db c)"
    "j_value (jl_get_double J) j ''master_volume_db'' 0 = Some (mc_master_volume_db c)"
    "j_value (jl_get_bool J) j ''limiter_enabled'' True = Some (mc_limiter_enabled c)"
    "j_value (jl_get_double J) j ''limiter_threshold_db'' (- 1) = Some (mc_limiter_threshold_db c)"
    "j_find j ''eq_gains_db'' = Some (JArr arr) \<Longrightarrow> read_gains J arr (replicate kEqBands 0) = Some (mc_eq_gains_db c)"
  using assms by (auto simp: master_from_json_def master_default_def Let_def split: bind_splits)

text \<open>What a patch does to each setting: the member of the patch when it is there, the setting in effect when not.
  The gains of an array that is there are laid over a flat curve, not over the curve in effect.\<close>

lemma dsp_set_fields:
  assumes ge: "getters_exact J" and inv: "master_inv fs m" and ok: "dsp_set J m (JObj ps) = (m', Some j)"
  shows "reads_bool J ps ''bypass'' (mc_bypass (ms_config m)) = Some (mc_bypass (ms_config m'))"
    "reads_real J ps ''input_gain_db'' (mc_input_gain_db (ms_config m)) = Some (mc_input_gain_db (ms_config m'))"
    "reads_real J ps ''master_volume_db'' (mc_master_volume_db (ms_config m)) = Some (mc_master_volume_db (ms_config m'))"
    "reads_bool J ps ''limiter_enabled'' (mc_limiter_enabled (ms_config m)) = Some (mc_limiter_enabled (ms_config m'))"
    "reads_real J ps ''limiter_threshold_db'' (mc_limiter_threshold_db (ms_config m)) = Some (mc_limiter_threshold_db (ms_config m'))"
    "map_of (rev ps) ''eq_gains_db'' = None \<Longrightarrow> mc_eq_gains_db (ms_config m') = mc_eq_gains_db (ms_config m)"
    "j = master_to_json (ms_config m')"
proof -
  let ?kvs = "[(''bypass'', JBool (mc_bypass (ms_config m))), (''input_gain_db'', JReal (mc_input_gain_db (ms_config m))),
     (''master_volume_db'', JReal (mc_master_volume_db (ms_config m))), (''limiter_enabled'', JBool (mc_limiter_enabled (ms_config m))),
     (''limiter_threshold_db'', JReal (mc_limiter_threshold_db (ms_config m))), (''eq_gains_db'', JArr (map JReal (mc_eq_gains_db (ms_config m))))]"
  obtain c where c: "master_from_json J (j_update (JObj ?kvs) (JObj ps)) = Some c" "m' = setConfig c m" "j = master_to_json (ms_config m')"
    using ok by (auto simp: dsp_set_def Let_def master_to_json_def split: option.splits)
  have o: "is_object (j_update (JObj ?kvs) (JObj ps))" by (simp add: j_update_def)
  have v: "j_value g (j_update (JObj ?kvs) (JObj ps)) k d =
      (case map_of (rev ps) k of None \<Rightarrow> (case map_of ?kvs k of None \<Rightarrow> Some d | Some v \<Rightarrow> g v) | Some v \<Rightarrow> g v)" for g :: "json \<Rightarrow> 'a option" and k d
    by (simp only: j_value_def o if_True j_find_update) (simp split: option.split)
  have len: "length (mc_eq_gains_db (ms_config m)) = kEqBands" "list_all (\<lambda>g. \<bar>g\<bar> \<le> 10) (mc_eq_gains_db (ms_config m))"
    using inv by (simp_all add: master_inv_def)
  have same: "map clampEqGainDb (mc_eq_gains_db (ms_config m)) = mc_eq_gains_db (ms_config m)"
    using len(2) by (intro map_idI) (simp add: list_all_iff clampEqGainDb_id)
  have sel: "mc_bypass (ms_config m') = mc_bypass c" "mc_input_gain_db (ms_config m') = mc_input_gain_db c"
    "mc_master_volume_db (ms_config m') = mc_master_volume_db c" "mc_limiter_enabled (ms_config m') = mc_limiter_enabled c"
    "mc_limiter_threshold_db (ms_config m') = mc_limiter_threshold_db c" "mc_eq_gains_db (ms_config m') = map clampEqGainDb (mc_eq_gains_db c)"
    by (simp_all add: c(2) setConfig_def Let_def)
  note facts = master_from_json_fields [OF c(1) o]
  show "reads_bool J ps ''bypass'' (mc_bypass (ms_config m)) = Some (mc_bypass (ms_config m'))"
    "reads_real J ps ''input_gain_db'' (mc_input_gain_db (ms_config m)) = Some (mc_input_gain_db (ms_config m'))"
    "reads_real J ps ''master_volume_db'' (mc_master_volume_db (ms_config m)) = Some (mc_master_volume_db (ms_config m'))"
    "reads_bool J ps ''limiter_enabled'' (mc_limiter_enabled (ms_config m)) = Some (mc_limiter_enabled (ms_config m'))"
    "reads_real J ps ''limiter_threshold_db'' (mc_limiter_threshold_db (ms_config m)) = Some (mc_limiter_threshold_db (ms_config m'))"
    unfolding sel patch_reads using facts(1-5) ge by (simp_all add: v split: option.splits)
  show "mc_eq_gains_db (ms_config m') = mc_eq_gains_db (ms_config m)" if n: "map_of (rev ps) ''eq_gains_db'' = None"
  proof -
    have "j_find (j_update (JObj ?kvs) (JObj ps)) ''eq_gains_db'' = Some (JArr (map JReal (mc_eq_gains_db (ms_config m))))"
      unfolding j_find_update using n by simp
    from facts(6) [OF this] ge len(1) have "mc_eq_gains_db c = mc_eq_gains_db (ms_config m)" by simp
    then show ?thesis using sel(6) same by simp
  qed
  show "j = master_to_json (ms_config m')" by (rule c(3))
qed

text \<open>A patch changes only the settings it names: those that are not among its members keep the values in effect,
  all 32 bands included when it has no array of gains, and the answer shows the settings in effect afterwards.\<close>

theorem dsp_patch_is_local:
  assumes "getters_exact J" "master_inv fs m" "dsp_set J m (JObj ps) = (m', Some j)"
  shows "(''bypass'' \<notin> fst ` set ps \<longrightarrow> mc_bypass (ms_config m') = mc_bypass (ms_config m)) \<and>
    (''input_gain_db'' \<notin> fst ` set ps \<longrightarrow> mc_input_gain_db (ms_config m') = mc_input_gain_db (ms_config m)) \<and>
    (''master_volume_db'' \<notin> fst ` set ps \<longrightarrow> mc_master_volume_db (ms_config m') = mc_master_volume_db (ms_config m)) \<and>
    (''limiter_enabled'' \<notin> fst ` set ps \<longrightarrow> mc_limiter_enabled (ms_config m') = mc_limiter_enabled (ms_config m)) \<and>
    (''limiter_threshold_db'' \<notin> fst ` set ps \<longrightarrow> mc_limiter_threshold_db (ms_config m') = mc_limiter_threshold_db (ms_config m)) \<and>
    (''eq_gains_db'' \<notin> fst ` set ps \<longrightarrow> mc_eq_gains_db (ms_config m') = mc_eq_gains_db (ms_config m)) \<and>
    j = master_to_json (ms_config m')"
proof -
  have n: "k \<notin> fst ` set ps \<Longrightarrow> map_of (rev ps) k = None" for k by (simp add: map_of_eq_None_iff)
  show ?thesis
    using dsp_set_fields [OF assms] n [of "''bypass''"] n [of "''input_gain_db''"] n [of "''master_volume_db''"]
      n [of "''limiter_enabled''"] n [of "''limiter_threshold_db''"] n [of "''eq_gains_db''"]
    by (auto simp: patch_reads)
qed

theorem dsp_patch_is_local_witness:
  "mc_limiter_enabled (ms_config (fst (dsp_set (demo_lib [] JNull) (master_new 48000 2) demo_patch))) = True"
  using dsp_patch_is_local [of "demo_lib [] JNull" 48000 "master_new 48000 2"
      "[(''eq_gains_db'', JArr [JReal 12, JStr ''x'', JReal 3]), (''master_volume_db'', JReal (- 6))]"
      "fst (dsp_set (demo_lib [] JNull) (master_new 48000 2) demo_patch)"
      "the (snd (dsp_set (demo_lib [] JNull) (master_new 48000 2) demo_patch))"] master_new_inv
  by (simp add: dsp_set_def demo_patch_def master_new_def master_default_def Let_def master_to_json_def j_update_def
      master_from_json_def kEqBands_def numeral_eq_Suc setConfig_def)

text \<open>An array of gains that is too short does not keep the bands it leaves out: a patch with one gain sets the first
  band and flattens the other 31.\<close>

lemma short_gains_flatten:
  assumes "getters_exact J" "dsp_set J m (JObj [(''eq_gains_db'', JArr [JReal g])]) = (m', Some j)"
  shows "mc_eq_gains_db (ms_config m') = clampEqGainDb g # replicate 31 0"
proof -
  let ?merged = "j_update (master_to_json (ms_config m)) (JObj [(''eq_gains_db'', JArr [JReal g])])"
  obtain c where c: "master_from_json J ?merged = Some c" "m' = setConfig c m"
    using assms(2) by (auto simp: dsp_set_def Let_def split: option.splits)
  have o: "is_object ?merged" "j_find ?merged ''eq_gains_db'' = Some (JArr [JReal g])"
    by (simp_all add: master_to_json_def j_update_def)
  have "mc_eq_gains_db c = g # replicate 31 0"
    using master_from_json_fields(6) [OF c(1) o] assms(1) by (simp add: kEqBands_def numeral_eq_Suc)
  then show ?thesis by (simp add: c(2) setConfig_def Let_def clampEqGainDb_def)
qed

text \<open>The typed reads are not lenient: a member of the wrong type makes the whole read throw.\<close>

lemma wrong_type_throws: "jl_get_bool J (JStr s) = None \<Longrightarrow> master_from_json J (JObj [(''bypass'', JStr s)]) = None"
  by (simp add: master_from_json_def Let_def)

text \<open>The settings in effect survive a restart.\<close>

lemma dsp_survives_restart:
  assumes "getters_exact J" "master_inv fs m" "sc_dsp (sm_config cm) = master_to_json (ms_config m)"
  shows "\<exists>m'. startup_dsp J fs ch (Some cm) = Some m' \<and> ms_config m' = ms_config m"
proof -
  have "map clampEqGainDb (mc_eq_gains_db (ms_config m)) = mc_eq_gains_db (ms_config m)"
    using assms(2) by (intro map_idI) (simp add: master_inv_def list_all_iff clampEqGainDb_id)
  then show ?thesis
    using assms master_json_roundtrip [of J "ms_config m"] by (simp add: startup_dsp_def setConfig_def Let_def master_inv_def)
qed

section \<open>The meter stays on its scale\<close>

lemma meter_fold_all:
  "foldl (meter_frame pcm ch) ((0, 0), (0, 0)) [0..<n] = ((sl, sr), (pl, pr)) \<Longrightarrow>
   0 \<le> sl \<and> 0 \<le> sr \<and> 0 \<le> pl \<and> 0 \<le> pr \<and> pl \<le> 32768 \<and> pr \<le> 32768 \<and> sl \<le> int n * (pl * pl) \<and> sr \<le> int n * (pr * pr)"
proof (induction n arbitrary: sl sr pl pr)
  case (Suc n)
  obtain sl0 sr0 pl0 pr0 where s: "foldl (meter_frame pcm ch) ((0, 0), (0, 0)) [0..<n] = ((sl0, sr0), (pl0, pr0))"
    by (metis surj_pair)
  define l r where "l = sint (pcm ! (n * ch))" and "r = (if ch > 1 then sint (pcm ! (n * ch + 1)) else l)"
  have lr: "\<bar>l\<bar> \<le> 32768" "\<bar>r\<bar> \<le> 32768"
    using sint_ge [of "pcm ! (n * ch)"] sint_lt [of "pcm ! (n * ch)"] sint_ge [of "pcm ! (n * ch + 1)"] sint_lt [of "pcm ! (n * ch + 1)"]
    by (auto simp: l_def r_def)
  have "meter_frame pcm ch ((sl0, sr0), (pl0, pr0)) n = ((sl, sr), (pl, pr))" using Suc.prems s by simp
  then have step: "((sl0 + l * l, sr0 + r * r), (max pl0 \<bar>l\<bar>, max pr0 \<bar>r\<bar>)) = ((sl, sr), (pl, pr))"
    unfolding meter_frame_def Let_def l_def r_def by simp
  have e: "sl = sl0 + l * l" "sr = sr0 + r * r" "pl = max pl0 \<bar>l\<bar>" "pr = max pr0 \<bar>r\<bar>"
    using step by simp_all
  have sq: "s0 + x * x \<le> int (Suc n) * (max p \<bar>x\<bar> * max p \<bar>x\<bar>)" if "s0 \<le> int n * (p * p)" "0 \<le> p" for s0 p x :: int
  proof -
    have "p * p \<le> max p \<bar>x\<bar> * max p \<bar>x\<bar>" using that(2) by (intro mult_mono) auto
    moreover have "\<bar>x\<bar> * \<bar>x\<bar> \<le> max p \<bar>x\<bar> * max p \<bar>x\<bar>" by (intro mult_mono) auto
    then have "x * x \<le> max p \<bar>x\<bar> * max p \<bar>x\<bar>" by simp
    ultimately show ?thesis using that(1) mult_left_mono [of "p * p" "max p \<bar>x\<bar> * max p \<bar>x\<bar>" "int n"] by (simp add: algebra_simps)
  qed
  have ih: "0 \<le> sl0" "0 \<le> sr0" "0 \<le> pl0" "0 \<le> pr0" "pl0 \<le> 32768" "pr0 \<le> 32768" "sl0 \<le> int n * (pl0 * pl0)" "sr0 \<le> int n * (pr0 * pr0)"
    using Suc.IH [OF s] by auto
  have "0 \<le> sl \<and> 0 \<le> sr \<and> 0 \<le> pl \<and> 0 \<le> pr \<and> pl \<le> 32768 \<and> pr \<le> 32768" using ih lr by (auto simp: e)
  moreover have "sl \<le> int (Suc n) * (pl * pl)" using sq [OF ih(7,3)] by (simp only: e)
  moreover have "sr \<le> int (Suc n) * (pr * pr)" using sq [OF ih(8,4)] by (simp only: e)
  ultimately show ?case by blast
qed simp

lemma rms_of_le_peak:
  assumes "0 < n" "0 \<le> s" "s \<le> int n * (p * p)" "0 \<le> p"
  shows "0 \<le> rms_of s n" "rms_of s n \<le> of_int p / 32768"
proof -
  have "real_of_int s \<le> real n * (real_of_int p * real_of_int p)"
    using assms(3) by (metis of_int_le_iff of_int_mult of_int_of_nat_eq)
  then have "real_of_int s / real n \<le> (real_of_int p)\<^sup>2"
    using assms(1) by (simp add: divide_le_eq power2_eq_square mult.commute)
  then have "sqrt (real_of_int s / real n) \<le> real_of_int p"
    using assms(4) by (intro real_le_lsqrt) auto
  then show "rms_of s n \<le> of_int p / 32768" by (simp add: rms_of_def divide_right_mono)
  show "0 \<le> rms_of s n" using assms(2) by (simp add: rms_of_def)
qed

definition levels_ok :: "levels \<Rightarrow> bool" where
  "levels_ok v \<longleftrightarrow> 0 \<le> lv_rms_left v \<and> lv_rms_left v \<le> lv_peak_left v \<and> lv_peak_left v \<le> 1 \<and>
     0 \<le> lv_rms_right v \<and> lv_rms_right v \<le> lv_peak_right v \<and> lv_peak_right v \<le> 1"

lemma meter_measure_ok: "levels_ok v \<Longrightarrow> levels_ok (meter_measure v pcm frames channels)"
proof (cases "frames = 0 \<or> channels \<le> 0")
  case False
  obtain sl sr pl pr where s: "foldl (meter_frame pcm (nat channels)) ((0, 0), (0, 0)) [0..<frames] = ((sl, sr), (pl, pr))"
    by (metis surj_pair)
  have b: "0 \<le> sl" "0 \<le> sr" "0 \<le> pl" "0 \<le> pr" "pl \<le> 32768" "pr \<le> 32768" "sl \<le> int frames * (pl * pl)" "sr \<le> int frames * (pr * pr)"
    using meter_fold_all [OF s] by auto
  have n: "0 < frames" using False by simp
  have "real_of_int pl \<le> 32768" "real_of_int pr \<le> 32768" using b(5,6) by linarith+
  then show ?thesis
    using False rms_of_le_peak [OF n b(1,7,3)] rms_of_le_peak [OF n b(2,8,4)] by (simp add: meter_measure_def s levels_ok_def)
qed (simp add: meter_measure_def)

datatype meter_op = Meter_Block "i16 list" nat int | Meter_Reset

fun meter_step :: "levels \<Rightarrow> meter_op \<Rightarrow> levels" where
  "meter_step v (Meter_Block pcm frames ch) = meter_measure v pcm frames ch"
| "meter_step v Meter_Reset = meter_reset v"

interpretation meter_run: invariant_system meter_step levels_ok
proof
  fix v l
  assume "levels_ok v"
  then show "levels_ok (meter_step v l)" by (cases l) (auto simp: meter_measure_ok, simp add: meter_reset_def levels_new_def levels_ok_def)
qed

lemma toDbfs_scale: "floor_db \<le> 0 \<Longrightarrow> a \<le> 1 \<Longrightarrow> floor_db \<le> toDbfs a floor_db \<and> toDbfs a floor_db \<le> 0"
  by (auto simp: toDbfs_def Let_def)

lemma toDbfs_mono: "a \<le> b \<Longrightarrow> toDbfs a floor_db \<le> toDbfs b floor_db"
  by (auto simp: toDbfs_def Let_def not_le) (smt (verit) log_le_cancel_iff)+

lemma dbToFraction_scale: "floor_db < 0 \<Longrightarrow> 0 \<le> dbToFraction db floor_db \<and> dbToFraction db floor_db \<le> 1"
  by (auto simp: dbToFraction_def divide_simps)

text \<open>Whatever is fed to a meter, its levels lie between silence and full scale and the loudness never exceeds the peak;
  on the scale the browser shows, every reading lies between -60 and 0 dBFS, the peak reading is not below the
  loudness, and the bar is a fraction.\<close>

theorem meter_scale:
  "let v = foldl meter_step levels_new ops; rms = toDbfs (lv_rms_left v) (- 60); peak = toDbfs (lv_peak_left v) (- 60) in
   levels_ok v \<and> - 60 \<le> rms \<and> rms \<le> peak \<and> peak \<le> 0 \<and> 0 \<le> dbToFraction rms (- 60) \<and> dbToFraction rms (- 60) \<le> 1"
proof -
  have "levels_ok levels_new" by (simp add: levels_new_def levels_ok_def)
  then have v: "levels_ok (foldl meter_step levels_new ops)" by (rule meter_run.run_inv)
  then show ?thesis
    using toDbfs_scale [of "- 60" "lv_rms_left (foldl meter_step levels_new ops)"] toDbfs_scale [of "- 60" "lv_peak_left (foldl meter_step levels_new ops)"]
      toDbfs_mono [of "lv_rms_left (foldl meter_step levels_new ops)" "lv_peak_left (foldl meter_step levels_new ops)" "- 60"]
      dbToFraction_scale [of "- 60"]
    by (simp add: Let_def levels_ok_def)
qed

text \<open>The clipping flag of a mono block: it is raised below full scale, from 32736 on.\<close>

lemma clipping_below_full_scale: "is_clipping (meter_measure v [32736] 1 1)" "\<not> is_clipping (meter_measure v [32735] 1 1)"
  by (simp_all add: is_clipping_def meter_measure_def meter_frame_def Let_def)

end
