(* ===== verification/Streamer_Router.thy ===== *)
theory Streamer_Router
  imports Master_Dsp Web Qr_Matrix
begin

text \<open>
  The Streamer's control API, \<open>streamer/src/web/StreamerApiRouter.cpp\<close>, route by route. The router itself holds the
  registry, the zones and the provisioning window; what \<open>StreamerApp\<close> injects (the command gateway, pairing,
  scanners, audio, the speaker's own HTTP API, saving, the master DSP) are the fields of \<open>ui_env\<close>, functions on the
  whole state, absent where the constructor allows a null. A handler returns the new state and the answer, None
  when an exception leaves it, which the transport answers with 500.
\<close>

section \<open>State and surroundings\<close>

record 'w rstate =
  rt_registry :: registry
  rt_zones :: "zoneman option"
  rt_window :: "provisioning_window option"
  rt_world :: 'w

record 'w ui_env =
  ui_json :: json_lib
  ui_token :: "string option"
  ui_html :: string
  ui_send :: "'w rstate \<Rightarrow> speaker \<Rightarrow> string \<Rightarrow> json \<Rightarrow> 'w rstate \<times> command_reply result option"
  ui_pair :: "('w rstate \<Rightarrow> string \<Rightarrow> pairing_params \<Rightarrow> 'w rstate \<times> pairing_reply result option) option"
  ui_discover :: "('w rstate \<Rightarrow> discovered_speaker list result) option"
  ui_scan :: "('w rstate \<Rightarrow> json) option"
  ui_ap_scan :: "('w rstate \<Rightarrow> json) option"
  ui_onboard :: "('w rstate \<Rightarrow> json \<Rightarrow> 'w rstate \<times> json option) option"
  ui_transport :: "('w rstate \<Rightarrow> string \<Rightarrow> speaker \<Rightarrow> 'w rstate \<times> status) option"
  ui_store :: "('w rstate \<Rightarrow> store) option"
  ui_now :: "'w rstate \<Rightarrow> int"
  ui_clock :: "'w rstate \<Rightarrow> int"
  ui_mac :: "('w rstate \<Rightarrow> string \<Rightarrow> string) option"
  ui_http :: "('w rstate \<Rightarrow> speaker \<Rightarrow> string \<Rightarrow> string \<Rightarrow> string \<Rightarrow> 'w rstate \<times> nat \<times> string) option"
  ui_play_zone :: "('w rstate \<Rightarrow> string \<Rightarrow> string \<times> string \<Rightarrow> 'w rstate \<times> status option) option"
  ui_retarget :: "('w rstate \<Rightarrow> string \<Rightarrow> 'w rstate \<times> status option) option"
  ui_persist :: "('w rstate \<Rightarrow> 'w rstate) option"
  ui_dsp_get :: "('w rstate \<Rightarrow> json) option"
  ui_dsp_set :: "('w rstate \<Rightarrow> json \<Rightarrow> 'w rstate \<times> json option) option"
  ui_levels :: "('w rstate \<Rightarrow> json) option"
  ui_sources :: "'w rstate \<Rightarrow> string list \<times> (string \<times> string \<times> bool) list"

type_synonym 'w ui_result = "'w rstate \<times> http_response option"

text \<open>A typed read of the body, and the handler that continues with its value.\<close>

definition rd :: "'w rstate \<Rightarrow> 'a option \<Rightarrow> ('a \<Rightarrow> 'w ui_result) \<Rightarrow> 'w ui_result" where
  "rd s v k = (case v of None \<Rightarrow> (s, None) | Some a \<Rightarrow> k a)"

definition say :: "'w ui_env \<Rightarrow> 'w rstate \<Rightarrow> nat \<Rightarrow> (string \<times> json) list \<Rightarrow> 'w ui_result" where
  "say e s code kvs = (s, Some (json_response (ui_json e) code (JObj kvs)))"

definition bad :: "'w ui_env \<Rightarrow> 'w rstate \<Rightarrow> nat \<Rightarrow> string \<Rightarrow> 'w ui_result" where
  "bad e s code msg = say e s code [(''error'', JStr msg)]"

definition str_of :: "'w ui_env \<Rightarrow> json \<Rightarrow> string \<Rightarrow> string \<Rightarrow> string option" where
  "str_of e body k d = j_value (jl_get_string (ui_json e)) body k d"

definition has :: "json \<Rightarrow> string \<Rightarrow> bool" where
  "has body k \<longleftrightarrow> j_find body k \<noteq> None"

definition starts :: "string \<Rightarrow> string \<Rightarrow> bool" where
  "starts pre p \<longleftrightarrow> take (length pre) p = pre"

definition save :: "'w ui_env \<Rightarrow> 'w rstate \<Rightarrow> 'w rstate" where
  "save e s = (case ui_persist e of None \<Rightarrow> s | Some f \<Rightarrow> f s)"

section \<open>A speaker's state for the browser\<close>

fun j_empty :: "json \<Rightarrow> bool" where
  "j_empty JNull = True"
| "j_empty (JArr vs) = (vs = [])"
| "j_empty (JObj kvs) = (kvs = [])"
| "j_empty _ = False"

text \<open>The clock counts nanoseconds; the cast to milliseconds truncates towards zero.\<close>

definition age_ms :: "int \<Rightarrow> confirmed_state \<Rightarrow> int" where
  "age_ms now c =
     (let d = now - cs_confirmed_at c in
      if \<not> everConfirmed c then 2 ^ 63 - 1 else if 0 \<le> d then d div 1000000 else - ((- d) div 1000000))"

definition state_to_json :: "int \<Rightarrow> speaker_state \<Rightarrow> json" where
  "state_to_json now s =
     (let c = ss_confirmed s in
      JObj ([(''device_id'', JStr (ss_device_id s)), (''online'', JBool (ss_online s)), (''confirmed'', JBool (everConfirmed c))]
        @ (if ss_last_error s = [] then [] else [(''last_error'', JStr (ss_last_error s))])
        @ (if \<not> everConfirmed c then []
           else [(''volume'', JInt (cs_volume c)), (''muted'', JBool (cs_muted c)), (''delay_ms'', JInt (cs_delay_ms c)),
                 (''eq_profile'', JStr (cs_eq_profile c)), (''gain_db'', JReal (cs_gain_db c)),
                 (''phase_invert'', JBool (cs_phase_invert c)), (''paired'', JBool (cs_paired c)),
                 (''age_ms'', JInt (age_ms now c))]
             @ (if j_empty (cs_telemetry c) then [] else [(''telemetry'', cs_telemetry c)])
             @ (if cs_has_link c
                then (''wifi_signal_dbm'', JInt (cs_wifi_signal_dbm c))
                       # (if cs_link_age_s c \<ge> 0 then [(''link_age_s'', JInt (cs_link_age_s c))] else [])
                else []))))"

section \<open>GET\<close>

definition speaker_entry :: "'w ui_env \<Rightarrow> 'w rstate \<Rightarrow> speaker \<Rightarrow> json" where
  "speaker_entry e s sp =
     (let mac = (case ui_mac e of None \<Rightarrow> [] | Some f \<Rightarrow> if sp_host sp = [] then [] else f s (sp_host sp));
          base = [(''device_id'', JStr (sp_device_id sp)), (''name'', JStr (sp_name sp)), (''host'', JStr (sp_host sp)),
                  (''control_port'', JInt (sp_control_port sp))] @ (if mac = [] then [] else [(''mac'', JStr mac)])
      in case ui_store e of
           None \<Rightarrow> JObj base
         | Some st \<Rightarrow>
             (case st s (sp_device_id sp) of
                Some x \<Rightarrow> j_update (JObj base) (state_to_json (ui_now e s) x)
              | None \<Rightarrow> JObj (base @ [(''online'', JBool False), (''confirmed'', JBool False)])))"

definition found_json :: "discovered_speaker \<Rightarrow> json" where
  "found_json d = JObj [(''device_id'', JStr (ds_device_id d)), (''host'', JStr (ds_host d)),
     (''box_public_key'', JStr (ds_box_public_key d)), (''control_port'', JInt (ds_control_port d)),
     (''setup_mode'', JBool (ds_setup_mode d))]"

definition zone_json :: "zone \<Rightarrow> json" where
  "zone_json z = JObj [(''zone_id'', JStr (z_id z)), (''name'', JStr (z_name z)), (''members'', JArr (map JStr (z_members z)))]"

definition window_json :: "provisioning_window \<Rightarrow> int \<Rightarrow> (string \<times> json) list" where
  "window_json w now = [(''open'', JBool (isOpen w now)), (''seconds_remaining'', JInt (secondsRemaining w now))]"

text \<open>The token in the address of the control page, percent-encoded byte by byte.\<close>

definition unreserved :: "char \<Rightarrow> bool" where
  "unreserved c \<longleftrightarrow> (let n = (of_char c :: nat) in
     65 \<le> n \<and> n \<le> 90 \<or> 97 \<le> n \<and> n \<le> 122 \<or> 48 \<le> n \<and> n \<le> 57 \<or> c \<in> {CHR ''-'', CHR ''_'', CHR ''.'', CHR ''~''})"

definition hex_upper :: "nat \<Rightarrow> char" where
  "hex_upper d = (if d < 10 then char_of (48 + d) else char_of (55 + d))"

definition percent_char :: "char \<Rightarrow> string" where
  "percent_char c =
     (if unreserved c then [c]
      else let n = (of_char c :: nat) in [CHR ''%'', hex_upper (n div 16), hex_upper (n mod 16)])"

definition control_url :: "string \<Rightarrow> string \<Rightarrow> string" where
  "control_url host token = ''http://'' @ host @ ''/?t='' @ concat (map percent_char token)"

definition get_control_qr :: "'w ui_env \<Rightarrow> 'w rstate \<Rightarrow> string \<Rightarrow> 'w ui_result" where
  "get_control_qr e s host =
     (if host = [] then bad e s 503 ''cannot determine own address''
      else
        (case encode (control_url host (case ui_token e of None \<Rightarrow> [] | Some t \<Rightarrow> t)) of
           Some m \<Rightarrow> (s, Some \<lparr>hp_status = 200, hp_content_type = ''image/svg+xml'', hp_body = toSvg m 4, hp_headers = []\<rparr>)
         | None \<Rightarrow> bad e s 500 ''QrEncoder: text too long for version 10 (ECC-M)''))"

definition streamer_get :: "'w ui_env \<Rightarrow> 'w rstate \<Rightarrow> string \<Rightarrow> string \<Rightarrow> 'w ui_result" where
  "streamer_get e s path host =
     (if path = ''/'' \<or> path = ''/index.html'' then
        (s, Some \<lparr>hp_status = 200, hp_content_type = ''text/html; charset=utf-8'', hp_body = ui_html e, hp_headers = []\<rparr>)
      else if path = ''/api/speakers'' then say e s 200 [(''speakers'', JArr (map (speaker_entry e s) (rt_registry s)))]
      else if path = ''/api/discover'' then
        (case ui_discover e of
           None \<Rightarrow> bad e s 501 ''discovery not available''
         | Some f \<Rightarrow>
             (case f s of
                Inl st \<Rightarrow> bad e s 502 (st_message st)
              | Inr found \<Rightarrow> say e s 200 [(''speakers'', JArr (map found_json found))]))
      else if path = ''/api/scan-network'' then
        (case ui_scan e of None \<Rightarrow> bad e s 501 ''network scan not available'' | Some f \<Rightarrow> say e s 200 [(''speakers'', f s)])
      else if path = ''/api/scan-setup-aps'' then
        (case ui_ap_scan e of
           None \<Rightarrow> bad e s 501 ''no spare wifi radio for setup scanning''
         | Some f \<Rightarrow> say e s 200 [(''access_points'', f s)])
      else if path = ''/api/zones'' then
        (case rt_zones s of
           None \<Rightarrow> bad e s 501 ''zones not available''
         | Some m \<Rightarrow> say e s 200 [(''zones'', JArr (map zone_json (zm_zones m)))])
      else if path = ''/api/sources'' then
        (case ui_sources e s of (kinds, devices) \<Rightarrow>
           say e s 200 [(''kinds'', JArr (map JStr kinds)),
             (''devices'', JArr (map (\<lambda>(i, nm, lb). JObj [(''id'', JStr i), (''name'', JStr nm), (''loopback'', JBool lb)]) devices))])
      else if path = ''/api/dsp'' then
        (case ui_dsp_get e of
           None \<Rightarrow> bad e s 501 ''dsp not available''
         | Some f \<Rightarrow> (s, Some (json_response (ui_json e) 200 (f s))))
      else if path = ''/api/levels'' then
        (case ui_levels e of
           None \<Rightarrow> bad e s 501 ''levels not available''
         | Some f \<Rightarrow> (s, Some (json_response (ui_json e) 200 (f s))))
      else if path = ''/api/provisioning-window'' then
        (case rt_window s of
           None \<Rightarrow> bad e s 503 ''provisioning unavailable''
         | Some w \<Rightarrow> say e s 200 (window_json w (ui_clock e s)))
      else if path = ''/api/control-qr'' then get_control_qr e s host
      else bad e s 404 ''not found'')"

section \<open>Commands to one speaker\<close>

definition unknown_speaker :: "'w ui_env \<Rightarrow> 'w rstate \<Rightarrow> string \<Rightarrow> 'w ui_result" where
  "unknown_speaker e s d = bad e s 404 (''unknown speaker: '' @ d)"

definition confirmed_part :: "'w ui_env \<Rightarrow> 'w rstate \<Rightarrow> string \<Rightarrow> (string \<times> json) list" where
  "confirmed_part e s d =
     (case ui_store e of
        None \<Rightarrow> []
      | Some st \<Rightarrow> (case st s d of None \<Rightarrow> [] | Some x \<Rightarrow> [(''confirmed'', state_to_json (ui_now e s) x)]))"

definition sendToSpeaker :: "'w ui_env \<Rightarrow> 'w rstate \<Rightarrow> json \<Rightarrow> string \<Rightarrow> json \<Rightarrow> 'w ui_result" where
  "sendToSpeaker e s body cmd pl =
     rd s (str_of e body ''speaker'' []) (\<lambda>d.
       if d = [] then bad e s 400 ''speaker required''
       else case get_speaker (rt_registry s) d of
         None \<Rightarrow> unknown_speaker e s d
       | Some target \<Rightarrow>
           (case ui_send e s target cmd pl of
              (s1, None) \<Rightarrow> (s1, None)
            | (s1, Some (Inl st)) \<Rightarrow> say e s1 502 [(''ok'', JBool False), (''message'', JStr (st_message st))]
            | (s1, Some (Inr r)) \<Rightarrow>
                say e s1 200 ([(''ok'', JBool (cp_ok r)), (''message'', JStr (cp_message r)), (''data'', cp_data r)]
                  @ confirmed_part e s1 d)))"

text \<open>The routes with one required member, and those that pass on the members that are there.\<close>

definition send_member :: "'w ui_env \<Rightarrow> 'w rstate \<Rightarrow> json \<Rightarrow> string \<Rightarrow> string \<Rightarrow> 'w ui_result" where
  "send_member e s body k cmd =
     (case j_find body k of
        None \<Rightarrow> bad e s 400 (k @ '' required'')
      | Some v \<Rightarrow> sendToSpeaker e s body cmd (JObj [(k, v)]))"

definition pass_on :: "string list \<Rightarrow> json \<Rightarrow> json" where
  "pass_on ks body = JObj (concat (map (\<lambda>k. case j_find body k of None \<Rightarrow> [] | Some v \<Rightarrow> [(k, v)]) ks))"

section \<open>POST: registry, device, zones\<close>

definition post_speakers :: "'w ui_env \<Rightarrow> 'w rstate \<Rightarrow> json \<Rightarrow> 'w ui_result" where
  "post_speakers e s body =
     (if \<not> has body ''device_id'' \<or> \<not> has body ''host'' then bad e s 400 ''device_id and host required''
      else
        rd s (str_of e body ''device_id'' []) (\<lambda>d.
        rd s (str_of e body ''name'' d) (\<lambda>nm.
        rd s (str_of e body ''host'' []) (\<lambda>h.
        rd s (j_value (jl_get_int (ui_json e)) body ''control_port'' 45455) (\<lambda>port.
          case upsert (rt_registry s) \<lparr>sp_device_id = d, sp_name = nm, sp_host = h, sp_control_port = port\<rparr> of
            (r, added) \<Rightarrow> say e (save e (s\<lparr>rt_registry := r\<rparr>)) 200 [(''ok'', JBool True), (''added'', JBool added)])))))"

definition post_remove :: "'w ui_env \<Rightarrow> 'w rstate \<Rightarrow> json \<Rightarrow> 'w ui_result" where
  "post_remove e s body =
     rd s (str_of e body ''device_id'' []) (\<lambda>d.
       case remove_speaker (rt_registry s) d of
         (r, removed) \<Rightarrow> say e (save e (s\<lparr>rt_registry := r\<rparr>)) 200 [(''ok'', JBool removed)])"

definition post_device :: "'w ui_env \<Rightarrow> 'w rstate \<Rightarrow> json \<Rightarrow> 'w ui_result" where
  "post_device e s body =
     (case ui_http e of
        None \<Rightarrow> bad e s 501 ''device proxy not available''
      | Some http \<Rightarrow>
          rd s (str_of e body ''speaker'' []) (\<lambda>d.
            if d = [] then bad e s 400 ''speaker required''
            else case get_speaker (rt_registry s) d of
              None \<Rightarrow> unknown_speaker e s d
            | Some target \<Rightarrow>
                rd s (str_of e body ''method'' ''GET'') (\<lambda>m.
                rd s (str_of e body ''path'' []) (\<lambda>path.
                  if \<not> starts ''/api/'' path then bad e s 400 ''path must start with /api/''
                  else
                    (let payload = (case j_find body ''body'' of None \<Rightarrow> [] | Some JNull \<Rightarrow> [] | Some v \<Rightarrow> jl_dump (ui_json e) v) in
                     case http s target m path payload of
                       (s1, code, txt) \<Rightarrow>
                         if code = 0 then say e s1 502 [(''ok'', JBool False), (''message'', JStr ''speaker unreachable'')]
                         else say e s1 code [(''ok'', JBool (200 \<le> code \<and> code < 300)),
                           (''data'', case jl_parse (ui_json e) txt of None \<Rightarrow> JStr txt | Some j \<Rightarrow> j)])))))"

text \<open>The volume of a zone: one command per member, each with its own entry in the answer.\<close>

fun zone_volume :: "'w ui_env \<Rightarrow> json \<Rightarrow> 'w rstate \<Rightarrow> speaker list \<Rightarrow> 'w rstate \<times> (bool \<times> json list) option" where
  "zone_volume e v s [] = (s, Some (True, []))"
| "zone_volume e v s (sp # sps) =
     (case ui_send e s sp ''SET_VOLUME'' (JObj [(''volume'', v)]) of
        (s1, None) \<Rightarrow> (s1, None)
      | (s1, Some r) \<Rightarrow>
          (let one = (case r of Inl _ \<Rightarrow> False | Inr p \<Rightarrow> cp_ok p);
               rest = (case r of
                   Inl st \<Rightarrow> [(''message'', JStr (st_message st))]
                 | Inr p \<Rightarrow> (''message'', JStr (cp_message p))
                     # (case j_find (cp_data p) ''volume'' of None \<Rightarrow> [] | Some x \<Rightarrow> [(''volume'', x)])) in
           case zone_volume e v s1 sps of
             (s2, None) \<Rightarrow> (s2, None)
           | (s2, Some (all_ok, entries)) \<Rightarrow>
               (s2, Some (one \<and> all_ok,
                  JObj ([(''device_id'', JStr (sp_device_id sp)), (''ok'', JBool one)] @ rest) # entries))))"

definition with_zones :: "'w rstate \<Rightarrow> zoneman \<Rightarrow> 'w rstate" where
  "with_zones s m = s\<lparr>rt_zones := Some m\<rparr>"

definition status_answer :: "'w ui_env \<Rightarrow> 'w rstate \<Rightarrow> status \<Rightarrow> 'w ui_result" where
  "status_answer e s st =
     (if st_ok st then say e s 200 [(''ok'', JBool True)]
      else say e s 400 [(''ok'', JBool False), (''message'', JStr (st_message st))])"

definition zone_create_route :: "'w ui_env \<Rightarrow> 'w rstate \<Rightarrow> json \<Rightarrow> zoneman \<Rightarrow> 'w ui_result" where
  "zone_create_route e s body m =
     rd s (str_of e body ''name'' []) (\<lambda>nm.
       case create None m nm of
         (m1, Inl st) \<Rightarrow> bad e (with_zones s m1) 400 (st_message st)
       | (m1, Inr z) \<Rightarrow>
           say e (save e (with_zones s m1)) 200 [(''ok'', JBool True), (''zone_id'', JStr (z_id z)), (''name'', JStr (z_name z))])"

definition zone_remove_route :: "'w ui_env \<Rightarrow> 'w rstate \<Rightarrow> json \<Rightarrow> zoneman \<Rightarrow> 'w ui_result" where
  "zone_remove_route e s body m =
     rd s (str_of e body ''zone_id'' []) (\<lambda>i.
       case remove_zone m i of (m1, removed) \<Rightarrow> say e (save e (with_zones s m1)) 200 [(''ok'', JBool removed)])"

definition zone_rename_route :: "'w ui_env \<Rightarrow> 'w rstate \<Rightarrow> json \<Rightarrow> zoneman \<Rightarrow> 'w ui_result" where
  "zone_rename_route e s body m =
     rd s (str_of e body ''zone_id'' []) (\<lambda>i.
     rd s (str_of e body ''name'' []) (\<lambda>nm.
       case rename m i nm of
         (m1, st) \<Rightarrow>
           if \<not> st_ok st then bad e (with_zones s m1) 404 (st_message st)
           else say e (save e (with_zones s m1)) 200 [(''ok'', JBool True)]))"

definition zone_members_route :: "'w ui_env \<Rightarrow> 'w rstate \<Rightarrow> json \<Rightarrow> zoneman \<Rightarrow> 'w ui_result" where
  "zone_members_route e s body m =
     rd s (str_of e body ''zone_id'' []) (\<lambda>i.
     rd s (str_of e body ''device_id'' []) (\<lambda>d.
     rd s (j_value (jl_get_bool (ui_json e)) body ''add'' True) (\<lambda>add.
       case (if add then addMember (rt_registry s) m i d else removeMember m i d) of
         (m1, st) \<Rightarrow>
           if \<not> st_ok st then say e (with_zones s m1) 400 [(''ok'', JBool False), (''error'', JStr (st_message st))]
           else say e (save e (with_zones s m1)) 200 [(''ok'', JBool True)])))"

definition zone_play_route :: "'w ui_env \<Rightarrow> 'w rstate \<Rightarrow> json \<Rightarrow> 'w ui_result" where
  "zone_play_route e s body =
     (case ui_play_zone e of
        None \<Rightarrow> bad e s 501 ''playback not available''
      | Some f \<Rightarrow>
          rd s (str_of e body ''kind'' ''file'') (\<lambda>kind.
          rd s (str_of e body ''uri'' []) (\<lambda>uri.
          rd s (str_of e body ''zone_id'' []) (\<lambda>i.
            case f s i (kind, uri) of (s1, st) \<Rightarrow> rd s1 st (status_answer e s1)))))"

definition zone_retarget_route :: "'w ui_env \<Rightarrow> 'w rstate \<Rightarrow> json \<Rightarrow> 'w ui_result" where
  "zone_retarget_route e s body =
     (case ui_retarget e of
        None \<Rightarrow> bad e s 501 ''retarget not available''
      | Some f \<Rightarrow> rd s (str_of e body ''zone_id'' []) (\<lambda>i. case f s i of (s1, st) \<Rightarrow> rd s1 st (status_answer e s1)))"

definition zone_volume_route :: "'w ui_env \<Rightarrow> 'w rstate \<Rightarrow> json \<Rightarrow> zoneman \<Rightarrow> 'w ui_result" where
  "zone_volume_route e s body m =
     (case j_find body ''volume'' of
        None \<Rightarrow> bad e s 400 ''volume required''
      | Some v \<Rightarrow>
          rd s (str_of e body ''zone_id'' []) (\<lambda>i.
            case zone_volume e v s (zone_members (rt_registry s) m i) of
              (s1, None) \<Rightarrow> (s1, None)
            | (s1, Some (all_ok, entries)) \<Rightarrow> say e s1 200 [(''ok'', JBool all_ok), (''results'', JArr entries)]))"

definition post_zones :: "'w ui_env \<Rightarrow> 'w rstate \<Rightarrow> string \<Rightarrow> json \<Rightarrow> zoneman \<Rightarrow> 'w ui_result" where
  "post_zones e s p body m =
     (if p = ''/api/zones'' then zone_create_route e s body m
      else if p = ''/api/zones/remove'' then zone_remove_route e s body m
      else if p = ''/api/zones/rename'' then zone_rename_route e s body m
      else if p = ''/api/zones/members'' then zone_members_route e s body m
      else if p = ''/api/zones/play'' then zone_play_route e s body
      else if p = ''/api/zones/retarget'' then zone_retarget_route e s body
      else if p = ''/api/zones/volume'' then zone_volume_route e s body m
      else bad e s 404 ''not found'')"

section \<open>POST: DSP, onboarding, window, pairing\<close>

definition post_dsp :: "'w ui_env \<Rightarrow> 'w rstate \<Rightarrow> json \<Rightarrow> 'w ui_result" where
  "post_dsp e s body =
     (case ui_dsp_set e of
        None \<Rightarrow> bad e s 501 ''dsp not available''
      | Some f \<Rightarrow>
          (case f s body of
             (s1, None) \<Rightarrow> (s1, None)
           | (s1, Some applied) \<Rightarrow> (save e s1, Some (json_response (ui_json e) 200 applied))))"

text \<open>One speaker after the other; entries without a name of a network are passed over.\<close>

definition bulk_request :: "json \<Rightarrow> string \<Rightarrow> json \<Rightarrow> string \<Rightarrow> json" where
  "bulk_request sp ssid wifi_ssid psk =
     JObj ([(''ssid'', JStr ssid), (''wifi_ssid'', wifi_ssid), (''wifi_psk'', JStr psk)]
       @ (case j_find sp ''name'' of None \<Rightarrow> [] | Some nm \<Rightarrow> [(''name'', nm)]))"

text \<open>One entry of the list: None when it throws, \<open>Some None\<close> when it is passed over.\<close>

definition onboard_one ::
  "'w ui_env \<Rightarrow> ('w rstate \<Rightarrow> json \<Rightarrow> 'w rstate \<times> json option) \<Rightarrow> json \<Rightarrow> 'w rstate \<Rightarrow> json
    \<Rightarrow> 'w rstate \<times> (bool \<times> json) option option" where
  "onboard_one e f body s sp =
     (let J = ui_json e in
      case (if is_string sp then jl_get_string J sp else str_of e sp ''ssid'' []) of
        None \<Rightarrow> (s, None)
      | Some ssid \<Rightarrow>
          if ssid = [] then (s, Some None)
          else
            (case str_of e body ''wifi_psk'' [] of
               None \<Rightarrow> (s, None)
             | Some psk \<Rightarrow>
                 (case f s (bulk_request sp ssid (case j_find body ''wifi_ssid'' of None \<Rightarrow> JNull | Some v \<Rightarrow> v) psk) of
                    (s1, res) \<Rightarrow>
                      (s1, do {
                         r \<leftarrow> res;
                         good \<leftarrow> j_value (jl_get_bool J) r ''ok'' False;
                         d \<leftarrow> str_of e r ''device_id'' [];
                         msg \<leftarrow> str_of e r ''message'' [];
                         Some (Some (good, JObj [(''ssid'', JStr ssid), (''ok'', JBool good), (''device_id'', JStr d), (''message'', JStr msg)]))
                       }))))"

fun onboard_all ::
  "'w ui_env \<Rightarrow> ('w rstate \<Rightarrow> json \<Rightarrow> 'w rstate \<times> json option) \<Rightarrow> json \<Rightarrow> 'w rstate \<Rightarrow> json list
    \<Rightarrow> 'w rstate \<times> (nat \<times> json list) option" where
  "onboard_all e f body s [] = (s, Some (0, []))"
| "onboard_all e f body s (sp # sps) =
     (case onboard_one e f body s sp of
        (s1, None) \<Rightarrow> (s1, None)
      | (s1, Some one) \<Rightarrow>
          (case onboard_all e f body s1 sps of
             (s2, None) \<Rightarrow> (s2, None)
           | (s2, Some (n, entries)) \<Rightarrow>
               (s2, Some (case one of None \<Rightarrow> (n, entries) | Some (good, x) \<Rightarrow> (if good then Suc n else n, x # entries)))))"

definition post_onboard_bulk :: "'w ui_env \<Rightarrow> 'w rstate \<Rightarrow> json \<Rightarrow> 'w ui_result" where
  "post_onboard_bulk e s body =
     (case ui_onboard e of
        None \<Rightarrow> bad e s 501 ''no spare wifi radio for onboarding''
      | Some f \<Rightarrow>
          (case j_find body ''speakers'' of
             Some (JArr sps) \<Rightarrow>
               rd s (str_of e body ''wifi_ssid'' []) (\<lambda>w.
                 if w = [] then bad e s 400 ''wifi_ssid required''
                 else case onboard_all e f body s sps of
                   (s1, None) \<Rightarrow> (s1, None)
                 | (s1, Some (n, entries)) \<Rightarrow>
                     say e s1 200 [(''results'', JArr entries), (''connected'', JInt (int n)), (''total'', JInt (int (length entries)))])
           | _ \<Rightarrow> bad e s 400 ''speakers array required''))"

definition post_onboard :: "'w ui_env \<Rightarrow> 'w rstate \<Rightarrow> json \<Rightarrow> 'w ui_result" where
  "post_onboard e s body =
     (case ui_onboard e of
        None \<Rightarrow> bad e s 501 ''no spare wifi radio for onboarding''
      | Some f \<Rightarrow>
          rd s (str_of e body ''ssid'' []) (\<lambda>ssid.
            if ssid = [] then bad e s 400 ''ssid required''
            else rd s (str_of e body ''wifi_ssid'' []) (\<lambda>w.
              if w = [] then bad e s 400 ''wifi_ssid required''
              else case f s body of
                (s1, None) \<Rightarrow> (s1, None)
              | (s1, Some res) \<Rightarrow>
                  rd s1 (j_value (jl_get_bool (ui_json e)) res ''ok'' False) (\<lambda>ok.
                    (s1, Some (json_response (ui_json e) (if ok then 200 else 400) res))))))"

definition post_window :: "'w ui_env \<Rightarrow> 'w rstate \<Rightarrow> json \<Rightarrow> 'w ui_result" where
  "post_window e s body =
     (case rt_window s of
        None \<Rightarrow> bad e s 503 ''provisioning unavailable''
      | Some w \<Rightarrow>
          (let now = ui_clock e s in
           case j_find body ''open'' of
             Some (JBool True) \<Rightarrow>
               (case j_find body ''ttl'' of
                  None \<Rightarrow> (let w1 = window_open w now 600 in say e (s\<lparr>rt_window := Some w1\<rparr>) 200 (window_json w1 now))
                | Some t \<Rightarrow>
                    if \<not> is_number_integer t then bad e s 400 ''ttl must be an integer''
                    else rd s (jl_get_int (ui_json e) t) (\<lambda>ttl.
                      let w1 = window_open w now ttl in say e (s\<lparr>rt_window := Some w1\<rparr>) 200 (window_json w1 now)))
           | Some (JBool False) \<Rightarrow> (let w1 = window_close w in say e (s\<lparr>rt_window := Some w1\<rparr>) 200 (window_json w1 now))
           | _ \<Rightarrow> bad e s 400 (''missing '' @ Qr_Matrix.quoted ''open'')))"

definition pair_params :: "'w ui_env \<Rightarrow> json \<Rightarrow> string \<Rightarrow> pairing_params option" where
  "pair_params e body host = do {
     site \<leftarrow> str_of e body ''site_id'' ''default'';
     nm \<leftarrow> str_of e body ''name'' host;
     code \<leftarrow> str_of e body ''setup_code'' [];
     ssid \<leftarrow> str_of e body ''wifi_ssid'' [];
     psk \<leftarrow> str_of e body ''wifi_psk'' [];
     box \<leftarrow> str_of e body ''box_public_key'' [];
     Some (params_new\<lparr>pp_site_id := site, pp_initial_speaker_name := nm, pp_setup_code := code, pp_wifi_ssid := ssid,
       pp_wifi_psk := psk, pp_speaker_box_public_key := box\<rparr>)
   }"

definition post_pair :: "'w ui_env \<Rightarrow> 'w rstate \<Rightarrow> json \<Rightarrow> 'w ui_result" where
  "post_pair e s body =
     (case ui_pair e of
        None \<Rightarrow> bad e s 501 ''pairing not available''
      | Some f \<Rightarrow>
          rd s (str_of e body ''host'' []) (\<lambda>host.
            if host = [] then bad e s 400 ''host required''
            else if \<not> has body ''setup_code'' \<or> \<not> has body ''box_public_key'' then bad e s 400 ''setup_code and box_public_key required''
            else rd s (pair_params e body host) (\<lambda>params.
              case f s host params of
                (s1, None) \<Rightarrow> (s1, None)
              | (s1, Some (Inl st)) \<Rightarrow> say e s1 502 [(''ok'', JBool False), (''message'', JStr (st_message st))]
              | (s1, Some (Inr r)) \<Rightarrow>
                  if \<not> pl_ok r then say e s1 400 [(''ok'', JBool False), (''message'', JStr (pl_message r))]
                  else
                    rd s1 (str_of e body ''name'' (pl_device_id r)) (\<lambda>nm.
                    rd s1 (j_value (jl_get_int (ui_json e)) body ''control_port'' 45455) (\<lambda>port.
                      let sp = \<lparr>sp_device_id = pl_device_id r, sp_name = nm, sp_host = host, sp_control_port = port\<rparr> in
                      say e (save e (s1\<lparr>rt_registry := fst (upsert (rt_registry s1) sp)\<rparr>)) 200
                        [(''ok'', JBool True), (''device_id'', JStr (pl_device_id r))])))))"

section \<open>POST: bulk actions, transport, destructive commands\<close>

definition bulk_command :: "'w ui_env \<Rightarrow> json \<Rightarrow> string \<Rightarrow> (string \<times> json) + string" where
  "bulk_command e body action =
     (let one = (\<lambda>k cmd. case j_find body k of None \<Rightarrow> Inr (k @ '' required'') | Some v \<Rightarrow> Inl (cmd, JObj [(k, v)])) in
      if action = ''volume'' then one ''volume'' ''SET_VOLUME''
      else if action = ''mute'' then one ''muted'' ''SET_MUTE''
      else if action = ''eq'' then one ''eq_profile'' ''SET_EQ''
      else if action = ''reboot'' then Inl (''REBOOT'', JObj [])
      else Inr (''unknown action: '' @ action))"

fun bulk_send :: "'w ui_env \<Rightarrow> string \<Rightarrow> json \<Rightarrow> 'w rstate \<Rightarrow> json list \<Rightarrow> 'w rstate \<times> (nat \<times> json list) option" where
  "bulk_send e cmd pl s [] = (s, Some (0, []))"
| "bulk_send e cmd pl s (d # ds) =
     (if \<not> is_string d then bulk_send e cmd pl s ds
      else case sendToSpeaker e s (JObj [(''speaker'', d)]) cmd pl of
        (s1, None) \<Rightarrow> (s1, None)
      | (s1, Some res) \<Rightarrow>
          (case bulk_send e cmd pl s1 ds of
             (s2, None) \<Rightarrow> (s2, None)
           | (s2, Some (n, entries)) \<Rightarrow>
               (let good = (hp_status res = 200) in
                (s2, Some (if good then Suc n else n, JObj [(''speaker'', d), (''ok'', JBool good)] # entries)))))"

definition post_bulk :: "'w ui_env \<Rightarrow> 'w rstate \<Rightarrow> json \<Rightarrow> 'w ui_result" where
  "post_bulk e s body =
     (case j_find body ''speakers'' of
        Some (JArr ds) \<Rightarrow>
          rd s (str_of e body ''action'' []) (\<lambda>action.
            case bulk_command e body action of
              Inr msg \<Rightarrow> bad e s 400 msg
            | Inl (cmd, pl) \<Rightarrow>
                (case bulk_send e cmd pl s ds of
                   (s1, None) \<Rightarrow> (s1, None)
                 | (s1, Some (n, entries)) \<Rightarrow>
                     say e s1 200 [(''results'', JArr entries), (''ok_count'', JInt (int n)), (''total'', JInt (int (length entries)))]))
      | _ \<Rightarrow> bad e s 400 ''speakers array required'')"

definition transport_command :: "string \<Rightarrow> string option" where
  "transport_command action =
     (if action = ''play'' then Some ''START_AUDIO'' else if action = ''pause'' then Some ''PAUSE_AUDIO''
      else if action = ''resume'' then Some ''RESUME_AUDIO'' else if action = ''stop'' then Some ''STOP_AUDIO'' else None)"

text \<open>The local engine first, then the command; a null payload is the \<open>{}\<close> of the call.\<close>

definition post_transport :: "'w ui_env \<Rightarrow> 'w rstate \<Rightarrow> json \<Rightarrow> 'w ui_result" where
  "post_transport e s body =
     rd s (str_of e body ''action'' []) (\<lambda>action.
       case transport_command action of
         None \<Rightarrow> bad e s 400 ''action must be play|pause|resume|stop''
       | Some cmd \<Rightarrow>
           (case ui_transport e of
              None \<Rightarrow> sendToSpeaker e s body cmd JNull
            | Some f \<Rightarrow>
                rd s (str_of e body ''speaker'' []) (\<lambda>d.
                  if d = [] then bad e s 400 ''speaker required''
                  else case get_speaker (rt_registry s) d of
                    None \<Rightarrow> unknown_speaker e s d
                  | Some target \<Rightarrow>
                      (case f s action target of
                         (s1, st) \<Rightarrow>
                           if \<not> st_ok st then say e s1 500 [(''ok'', JBool False), (''message'', JStr (st_message st))]
                           else sendToSpeaker e s1 body cmd JNull))))"

definition em_dash :: string where
  "em_dash = [CHR 0xE2, CHR 0x80, CHR 0x94]"

definition post_destructive :: "'w ui_env \<Rightarrow> 'w rstate \<Rightarrow> string \<Rightarrow> json \<Rightarrow> 'w ui_result" where
  "post_destructive e s p body =
     rd s (j_value (jl_get_bool (ui_json e)) body ''confirm'' False) (\<lambda>confirm.
       if \<not> confirm then bad e s 400 (''confirm:true required '' @ em_dash @ '' this command changes device state'')
       else if p = ''/api/reboot'' then sendToSpeaker e s body ''REBOOT'' JNull
       else if p = ''/api/reset-network'' then sendToSpeaker e s body ''RESET_NETWORK'' JNull
       else if p = ''/api/update'' then sendToSpeaker e s body ''UPDATE_SOFTWARE'' (pass_on [''url'', ''version'', ''checksum''] body)
       else rd s (str_of e body ''acknowledge_unpair'' []) (\<lambda>ack.
         if ack \<noteq> ''yes'' then bad e s 400 (''acknowledge_unpair:'' @ Nexus_Prelude.quoted ''yes'' @ '' required '' @ em_dash
           @ '' factory reset erases pairing and the speaker will need to be provisioned again'')
         else sendToSpeaker e s body ''FACTORY_RESET'' JNull))"

section \<open>The router\<close>

definition post_routes :: "'w ui_env \<Rightarrow> 'w rstate \<Rightarrow> string \<Rightarrow> json \<Rightarrow> 'w ui_result" where
  "post_routes e s p body =
     (if p = ''/api/speakers'' then post_speakers e s body
      else if p = ''/api/speakers/remove'' then post_remove e s body
      else if p = ''/api/device'' then post_device e s body
      else if starts ''/api/zones'' p then
        (case rt_zones s of None \<Rightarrow> bad e s 501 ''zones not available'' | Some m \<Rightarrow> post_zones e s p body m)
      else if p = ''/api/dsp'' then post_dsp e s body
      else if p = ''/api/onboard-ap-bulk'' then post_onboard_bulk e s body
      else if p = ''/api/onboard-ap'' then post_onboard e s body
      else if p = ''/api/provisioning-window'' then post_window e s body
      else if p = ''/api/pair'' then post_pair e s body
      else if p = ''/api/status'' then sendToSpeaker e s body ''GET_STATUS'' JNull
      else if p = ''/api/identify'' then sendToSpeaker e s body ''RUN_AUDIO_TEST'' JNull
      else if p = ''/api/bulk'' then post_bulk e s body
      else if p = ''/api/volume'' then send_member e s body ''volume'' ''SET_VOLUME''
      else if p = ''/api/mute'' then send_member e s body ''muted'' ''SET_MUTE''
      else if p = ''/api/eq'' then send_member e s body ''eq_profile'' ''SET_EQ''
      else if p = ''/api/delay'' then send_member e s body ''delay_ms'' ''SET_DELAY''
      else if p = ''/api/gain'' then send_member e s body ''gain_db'' ''SET_GAIN''
      else if p = ''/api/phase'' then send_member e s body ''phase_invert'' ''SET_PHASE_INVERT''
      else if p = ''/api/measure'' then
        sendToSpeaker e s body ''RUN_MEASUREMENT''
          (pass_on [''duration_s'', ''f0'', ''f1'', ''amplitude'', ''hardware_rtl_ms'', ''network_rtl_ms'', ''speed_of_sound'', ''temperature_c''] body)
      else if p = ''/api/transport'' then post_transport e s body
      else if p = ''/api/calibrate'' then sendToSpeaker e s body ''RUN_CALIBRATION'' (pass_on [''duration_s'', ''profile''] body)
      else if p = ''/api/self-test'' then sendToSpeaker e s body ''RUN_SELF_TEST'' JNull
      else if p = ''/api/audio-test'' then
        sendToSpeaker e s body ''RUN_AUDIO_TEST'' (pass_on [''duration_s'', ''frequency'', ''channel''] body)
      else if p = ''/api/reboot'' \<or> p = ''/api/update'' \<or> p = ''/api/reset-network'' \<or> p = ''/api/factory-reset''
        then post_destructive e s p body
      else bad e s 404 ''not found'')"

definition streamer_post :: "'w ui_env \<Rightarrow> 'w rstate \<Rightarrow> http_request \<Rightarrow> 'w ui_result" where
  "streamer_post e s q =
     (case post_body (ui_json e) q of
        None \<Rightarrow> bad e s 400 (''bad json: '' @ jl_what (ui_json e) (hq_body q))
      | Some body \<Rightarrow> post_routes e s (hq_path q) body)"

definition unauthorized :: "'w ui_env \<Rightarrow> http_response" where
  "unauthorized e = (json_response (ui_json e) 401 (JObj [(''error'', JStr ''unauthorized'')]))\<lparr>hp_headers := [(''WWW-Authenticate'', ''Bearer'')]\<rparr>"

definition streamer_route :: "'w ui_env \<Rightarrow> 'w rstate \<Rightarrow> http_request \<Rightarrow> 'w ui_result" where
  "streamer_route e s q =
     (if starts ''/api/'' (hq_path q) \<and> (case ui_token e of None \<Rightarrow> False | Some t \<Rightarrow> \<not> authorize t (hq_auth q))
      then (s, Some (unauthorized e))
      else if hq_method q = ''GET'' then streamer_get e s (hq_path q) (hq_host q)
      else if hq_method q = ''POST'' then streamer_post e s q
      else bad e s 405 ''method not allowed'')"

section \<open>Nothing without the token\<close>

lemmas answers = say_def bad_def unknown_speaker_def

lemma starts_eq: "starts pre p \<longleftrightarrow> (\<exists>r. p = pre @ r)"
  by (auto simp: starts_def) (metis append_take_drop_id)

lemma not_api_post:
  assumes n: "\<not> starts ''/api/'' p"
  shows "post_routes e s p body = bad e s 404 ''not found''"
proof -
  have f: "starts ''/api/'' x \<Longrightarrow> (p = x) = False" for x using n by auto
  have z: "\<not> starts ''/api/zones'' p" using n by (auto simp: starts_eq)
  show ?thesis unfolding post_routes_def using z by (simp add: f starts_def [where pre = "''/api/''"])
qed

lemma not_api_get:
  assumes n: "\<not> starts ''/api/'' p"
  shows "streamer_get e s p host =
     (if p = ''/'' \<or> p = ''/index.html'' then
        (s, Some \<lparr>hp_status = 200, hp_content_type = ''text/html; charset=utf-8'', hp_body = ui_html e, hp_headers = []\<rparr>)
      else bad e s 404 ''not found'')"
proof -
  have f: "starts ''/api/'' x \<Longrightarrow> (p = x) = False" for x using n by auto
  show ?thesis unfolding streamer_get_def by (simp add: f starts_def [where pre = "''/api/''"])
qed

text \<open>C32. Without the token the Streamer neither changes nor reveals anything: whatever the request, the state stays as it
  is and the answer is the same as in any other state.\<close>

theorem api_needs_token:
  assumes "ui_token e = Some t" "t \<noteq> []" "hq_auth q \<noteq> ''Bearer '' @ t"
  shows "\<exists>r. \<forall>s. streamer_route e s q = (s, Some r)"
proof -
  have a: "\<not> authorize t (hq_auth q)" using assms(2,3) by (simp add: authorize_iff)
  show ?thesis
  proof (cases "starts ''/api/'' (hq_path q)")
    case True
    then show ?thesis using assms(1) a by (simp add: streamer_route_def)
  next
    case False
    consider "hq_method q = ''GET''" | "hq_method q = ''POST''" | "hq_method q \<noteq> ''GET''" "hq_method q \<noteq> ''POST''" by blast
    then show ?thesis
    proof cases
      case 1
      then show ?thesis using False
        by (cases "hq_path q = ''/'' \<or> hq_path q = ''/index.html''") (auto simp: streamer_route_def not_api_get answers)
    next
      case 2
      then show ?thesis using False by (cases "post_body (ui_json e) q") (simp_all add: streamer_route_def streamer_post_def not_api_post answers)
    next
      case 3
      then show ?thesis using False by (simp add: streamer_route_def answers)
    qed
  qed
qed

section \<open>Which commands a request may cause\<close>

lemma fst_if: "(b \<Longrightarrow> fst x = s) \<Longrightarrow> (\<not> b \<Longrightarrow> fst y = s) \<Longrightarrow> fst (if b then x else y) = s"
  by simp

lemma fst_answers [simp]: "fst (say e s code kvs) = s" "fst (bad e s code msg) = s"
  by (simp_all add: answers)

text \<open>A GET changes nothing.\<close>

lemma get_changes_nothing: "fst (streamer_get e s p h) = s"
  unfolding streamer_get_def get_control_qr_def
  by (intro fst_if) (simp_all split: option.split sum.split prod.split)

text \<open>The four commands that change or destroy the state of a device, and what a body must say for them. \<open>kProxy\<close> stands for a
  request that the proxy forwards to the web interface of a speaker.\<close>

definition kProxy :: string where
  "kProxy = ''HTTP''"

definition confirms_it :: "'w ui_env \<Rightarrow> json \<Rightarrow> bool" where
  "confirms_it e body \<longleftrightarrow> j_value (jl_get_bool (ui_json e)) body ''confirm'' False = Some True"

definition permits :: "'w ui_env \<Rightarrow> string \<Rightarrow> json \<Rightarrow> string \<Rightarrow> bool" where
  "permits e p body c \<longleftrightarrow>
     (c = ''FACTORY_RESET'' \<longrightarrow> p = ''/api/factory-reset'' \<and> confirms_it e body \<and> str_of e body ''acknowledge_unpair'' [] = Some ''yes'') \<and>
     (c = ''RESET_NETWORK'' \<longrightarrow> p = ''/api/reset-network'' \<and> confirms_it e body) \<and>
     (c = ''UPDATE_SOFTWARE'' \<longrightarrow> p = ''/api/update'' \<and> confirms_it e body) \<and>
     (c = ''REBOOT'' \<longrightarrow> p = ''/api/reboot'' \<and> confirms_it e body \<or> p = ''/api/bulk'' \<and> str_of e body ''action'' [] = Some ''reboot'') \<and>
     (c = kProxy \<longrightarrow> p = ''/api/device'')"

definition harmless :: "string \<Rightarrow> bool" where
  "harmless c \<longleftrightarrow> c \<notin> {''FACTORY_RESET'', ''RESET_NETWORK'', ''UPDATE_SOFTWARE'', ''REBOOT'', ''HTTP''}"

lemma permits_harmless: "harmless c \<Longrightarrow> permits e p body c"
  by (simp add: permits_def harmless_def kProxy_def)

lemma permits_bulk:
  "str_of e body ''action'' [] = Some action \<Longrightarrow> bulk_command e body action = Inl (c, pl) \<Longrightarrow> permits e ''/api/bulk'' body c"
  by (auto simp: bulk_command_def permits_def kProxy_def Let_def split: if_splits option.splits)

text \<open>
  A relation between the states before and after a request, for requests that send only commands with a property \<open>P\<close>:
  reflexive, transitive, and kept by every operation on the router's own data and by every injected function. Such
  a relation holds for every request, with the commands the request permits.
\<close>

locale router_relation =
  fixes e :: "'w ui_env" and R :: "(string \<Rightarrow> bool) \<Rightarrow> 'w rstate \<Rightarrow> 'w rstate \<Rightarrow> bool"
  assumes R_refl [simp]: "R P s s"
    and R_trans: "R P s s1 \<Longrightarrow> R P s1 s2 \<Longrightarrow> R P s s2"
    and R_upsert: "R P s (s\<lparr>rt_registry := fst (upsert (rt_registry s) x)\<rparr>)"
    and R_remove: "R P s (s\<lparr>rt_registry := fst (remove_speaker (rt_registry s) d)\<rparr>)"
    and R_zone: "rt_zones s = Some m \<Longrightarrow> R P s (with_zones s (zone_step m op))"
    and R_window: "R P s (s\<lparr>rt_window := w\<rparr>)"
    and R_send: "P c \<Longrightarrow> ui_send e s t c p = (s1, r) \<Longrightarrow> R P s s1"
    and R_pair: "ui_pair e = Some f1 \<Longrightarrow> f1 s h pp = (s1, r1) \<Longrightarrow> R P s s1"
    and R_onboard: "ui_onboard e = Some f2 \<Longrightarrow> f2 s b = (s1, r2) \<Longrightarrow> R P s s1"
    and R_transport: "ui_transport e = Some f3 \<Longrightarrow> f3 s a t = (s1, r3) \<Longrightarrow> R P s s1"
    and R_http: "P kProxy \<Longrightarrow> ui_http e = Some f4 \<Longrightarrow> f4 s t m4 pa pl = (s1, r4) \<Longrightarrow> R P s s1"
    and R_persist: "ui_persist e = Some f5 \<Longrightarrow> R P s (f5 s)"
    and R_dsp: "ui_dsp_set e = Some f6 \<Longrightarrow> f6 s b = (s1, r6) \<Longrightarrow> R P s s1"
    and R_play: "ui_play_zone e = Some f7 \<Longrightarrow> P ''START_AUDIO'' \<Longrightarrow> f7 s i sp = (s1, r7) \<Longrightarrow> R P s s1"
    and R_retarget: "ui_retarget e = Some f8 \<Longrightarrow> P ''START_AUDIO'' \<Longrightarrow> f8 s i = (s1, r8) \<Longrightarrow> R P s s1"
begin

lemma R_save: "R P s s1 \<Longrightarrow> R P s (save e s1)"
  by (cases "ui_persist e") (auto simp: save_def intro: R_trans R_persist)

lemma R_rd: "R P s s1 \<Longrightarrow> (\<And>a. v = Some a \<Longrightarrow> R P s (fst (k a))) \<Longrightarrow> R P s (fst (rd s1 v k))"
  by (simp add: rd_def split: option.split)

lemma R_if: "(b \<Longrightarrow> R P s (fst x)) \<Longrightarrow> (\<not> b \<Longrightarrow> R P s (fst y)) \<Longrightarrow> R P s (fst (if b then x else y))"
  by simp

lemma R_bad [simp]: "R P s (fst (bad e s code msg))"
  by simp

lemma R_sendToSpeaker: "P c \<Longrightarrow> R P s (fst (sendToSpeaker e s body c p))"
  by (auto simp: sendToSpeaker_def rd_def unknown_speaker_def intro: R_send split: option.split prod.split sum.split)

lemma R_zone_volume: "P ''SET_VOLUME'' \<Longrightarrow> R P s (fst (zone_volume e v s sps))"
proof (induction sps arbitrary: s)
  case (Cons sp sps)
  obtain s1 r where u: "ui_send e s sp ''SET_VOLUME'' (JObj [(''volume'', v)]) = (s1, r)" by force
  have a: "R P s s1" by (rule R_send [where P = P, OF Cons.prems u])
  obtain s2 r2 where z: "zone_volume e v s1 sps = (s2, r2)" by force
  have "R P s s2" using R_trans [OF a] Cons.IH [OF Cons.prems, of s1] z by simp
  then show ?case using a by (cases r; cases r2) (simp_all add: u z Let_def split: prod.split)
qed simp

lemma R_bulk_send: "P c \<Longrightarrow> R P s (fst (bulk_send e c p s ds))"
proof (induction ds arbitrary: s)
  case (Cons d ds)
  obtain s1 r where u: "sendToSpeaker e s (JObj [(''speaker'', d)]) c p = (s1, r)" by force
  have a: "R P s s1" using R_sendToSpeaker [of P c s "JObj [(''speaker'', d)]" p] Cons.prems u by simp
  obtain s2 r2 where z: "bulk_send e c p s1 ds = (s2, r2)" by force
  have "R P s s2" using R_trans [OF a] Cons.IH [OF Cons.prems, of s1] z by simp
  then show ?case using a Cons.IH [OF Cons.prems, of s] by (cases r; cases r2) (simp_all add: u z Let_def split: prod.split)
qed simp

lemma R_onboard_one: "ui_onboard e = Some f \<Longrightarrow> R P s (fst (onboard_one e f body s sp))"
  by (auto simp: onboard_one_def Let_def intro: R_onboard split: option.split prod.split)

lemma R_onboard_all: "ui_onboard e = Some f \<Longrightarrow> R P s (fst (onboard_all e f body s sps))"
proof (induction sps arbitrary: s)
  case (Cons sp sps)
  obtain s1 r where u: "onboard_one e f body s sp = (s1, r)" by force
  have a: "R P s s1" using R_onboard_one [OF Cons.prems, of P s body sp] u by simp
  obtain s2 r2 where z: "onboard_all e f body s1 sps = (s2, r2)" by force
  have "R P s s2" using R_trans [OF a] Cons.IH [OF Cons.prems, of s1] z by simp
  then show ?case using a by (cases r; cases r2) (simp_all add: u z split: prod.split)
qed simp

lemma R_registry_routes: "R P s (fst (post_speakers e s body))" "R P s (fst (post_remove e s body))"
proof -
  have "R P s (save e (s\<lparr>rt_registry := r\<rparr>))" if "upsert (rt_registry s) x = (r, b)" for x r b
    using R_save [OF R_upsert [of P s x]] that by simp
  then show "R P s (fst (post_speakers e s body))"
    by (auto simp: post_speakers_def rd_def split: option.split prod.split)
  have "R P s (save e (s\<lparr>rt_registry := r\<rparr>))" if "remove_speaker (rt_registry s) d = (r, b)" for d r b
    using R_save [OF R_remove [of P s d]] that by simp
  then show "R P s (fst (post_remove e s body))"
    by (auto simp: post_remove_def rd_def split: option.split prod.split)
qed

lemma R_window_route: "R P s (fst (post_window e s body))"
  by (auto simp: post_window_def rd_def Let_def intro: R_window split: option.split json.split bool.split)

lemma R_device: "P kProxy \<Longrightarrow> R P s (fst (post_device e s body))"
  by (auto simp: post_device_def rd_def unknown_speaker_def Let_def intro: R_http [where P = P] split: option.split prod.split)

lemma R_dsp_route: "R P s (fst (post_dsp e s body))"
  by (auto simp: post_dsp_def intro: R_dsp R_save split: option.split prod.split)

lemma R_onboarding: "R P s (fst (post_onboard e s body))" "R P s (fst (post_onboard_bulk e s body))"
proof -
  show "R P s (fst (post_onboard e s body))"
    by (auto simp: post_onboard_def rd_def intro: R_onboard split: option.split prod.split)
  have "R P s s1" if "ui_onboard e = Some f" "onboard_all e f body s sps = (s1, r)" for f sps s1 r
    using R_onboard_all [OF that(1), of P s body sps] that(2) by simp
  then show "R P s (fst (post_onboard_bulk e s body))"
    by (auto simp: post_onboard_bulk_def rd_def split: option.split prod.split json.split)
qed

lemma R_pair_route: "R P s (fst (post_pair e s body))"
proof -
  have "R P s (save e (s1\<lparr>rt_registry := fst (upsert (rt_registry s1) x)\<rparr>))" if "ui_pair e = Some f" "f s h pp = (s1, r)" for f h pp s1 r x
    by (rule R_save [OF R_trans [OF R_pair [OF that] R_upsert]])
  then show ?thesis
    by (auto simp: post_pair_def rd_def Let_def intro: R_pair split: option.split prod.split sum.split)
qed

lemma R_transport_route:
  assumes "\<And>c. c \<in> {''START_AUDIO'', ''PAUSE_AUDIO'', ''RESUME_AUDIO'', ''STOP_AUDIO''} \<Longrightarrow> P c"
  shows "R P s (fst (post_transport e s body))"
proof -
  have c: "P c" if "transport_command a = Some c" for a c using that assms by (auto simp: transport_command_def split: if_splits)
  have "R P s (fst (sendToSpeaker e s1 body c JNull))"
    if "ui_transport e = Some f" "f s a t = (s1, r)" "transport_command a = Some c" for f a t s1 r c
    using R_trans [OF R_transport [OF that(1,2)]] R_sendToSpeaker [of P c, OF c [OF that(3)]] by blast
  then show ?thesis
    using c R_sendToSpeaker [of P]
    by (auto simp: post_transport_def rd_def unknown_speaker_def intro: R_transport split: option.split prod.split)
qed

lemma R_zone_op: "rt_zones s = Some m \<Longrightarrow> zone_step m op = m1 \<Longrightarrow> R P s (with_zones s m1)"
  using R_zone by blast

lemma R_zone_edits:
  assumes z: "rt_zones s = Some m"
  shows "R P s (fst (zone_create_route e s body m))" "R P s (fst (zone_remove_route e s body m))"
    "R P s (fst (zone_rename_route e s body m))" "R P s (fst (zone_members_route e s body m))"
proof -
  note op = R_zone_op [OF z]
  have "R P s (with_zones s m1)" if "create None m nm = (m1, r)" for nm m1 r by (rule op [of "Z_Create None nm"]) (simp add: that)
  then show "R P s (fst (zone_create_route e s body m))"
    by (auto simp: zone_create_route_def rd_def intro: R_save split: option.split prod.split sum.split)
  have "R P s (with_zones s m1)" if "remove_zone m i = (m1, r)" for i m1 r by (rule op [of "Z_Remove i"]) (simp add: that)
  then show "R P s (fst (zone_remove_route e s body m))"
    by (auto simp: zone_remove_route_def rd_def intro: R_save split: option.split prod.split)
  have "R P s (with_zones s m1)" if "rename m i nm = (m1, r)" for i nm m1 r by (rule op [of "Z_Rename i nm"]) (simp add: that)
  then show "R P s (fst (zone_rename_route e s body m))"
    by (auto simp: zone_rename_route_def rd_def intro: R_save split: option.split prod.split)
  have "R P s (with_zones s m1)" if "addMember (rt_registry s) m i d = (m1, r)" for i d m1 r
    by (rule op [of "Z_Add (rt_registry s) i d"]) (simp add: that)
  moreover have "R P s (with_zones s m1)" if "removeMember m i d = (m1, r)" for i d m1 r
    by (rule op [of "Z_Drop i d"]) (simp add: that)
  ultimately show "R P s (fst (zone_members_route e s body m))"
    by (auto simp: zone_members_route_def rd_def intro: R_save split: option.split prod.split)
qed

lemma R_zones:
  assumes "P ''SET_VOLUME''" "P ''START_AUDIO''" "rt_zones s = Some m"
  shows "R P s (fst (post_zones e s p body m))"
proof -
  have "R P s (fst (zone_play_route e s body))" "R P s (fst (zone_retarget_route e s body))"
    using assms(2)
    by (auto simp: zone_play_route_def zone_retarget_route_def status_answer_def rd_def intro: R_play R_retarget split: option.split prod.split)
  moreover have "R P s s1" if "zone_volume e v s sps = (s1, r)" for v sps s1 r
    using R_zone_volume [of P s v sps, OF assms(1)] that by simp
  then have "R P s (fst (zone_volume_route e s body m))"
    by (auto simp: zone_volume_route_def rd_def split: option.split prod.split)
  ultimately show ?thesis using R_zone_edits [OF assms(3)] by (simp add: post_zones_def)
qed

lemma R_bulk:
  assumes "\<And>action c p. str_of e body ''action'' [] = Some action \<Longrightarrow> bulk_command e body action = Inl (c, p) \<Longrightarrow> P c"
  shows "R P s (fst (post_bulk e s body))"
proof -
  have b: "R P s s1" if "str_of e body ''action'' [] = Some action" "bulk_command e body action = Inl (c, p)" "bulk_send e c p s ds = (s1, r)"
    for action c p ds s1 r
    using R_bulk_send [of P c, OF assms [OF that(1,2)], of s p ds] that(3) by simp
  show ?thesis
    by (auto simp: post_bulk_def rd_def intro: b split: option.split prod.split sum.split json.split)
qed

lemma R_destructive:
  assumes "p = ''/api/reboot'' \<or> p = ''/api/update'' \<or> p = ''/api/reset-network'' \<or> p = ''/api/factory-reset''"
  shows "R (permits e p body) s (fst (post_destructive e s p body))"
proof -
  have "permits e p body c" if "confirms_it e body" "(p, c) \<in> {(''/api/reboot'', ''REBOOT''), (''/api/reset-network'', ''RESET_NETWORK''), (''/api/update'', ''UPDATE_SOFTWARE'')}" for c
    using that by (auto simp: permits_def kProxy_def)
  moreover have "permits e ''/api/factory-reset'' body ''FACTORY_RESET''" if "confirms_it e body" "str_of e body ''acknowledge_unpair'' [] = Some ''yes''"
    using that by (simp add: permits_def kProxy_def)
  ultimately show ?thesis
    unfolding post_destructive_def using assms
    by (intro R_rd R_if R_sendToSpeaker) (simp_all add: confirms_it_def)
qed

lemma R_member: "harmless c \<Longrightarrow> R (permits e p body) s (fst (send_member e s body k c))"
  by (simp add: send_member_def R_sendToSpeaker permits_harmless split: option.split)

lemma R_routes: "R (permits e p body) s (fst (post_routes e s p body))"
proof -
  have h: "R (permits e p body) s (fst (sendToSpeaker e s body c pl))" if "harmless c" for c pl
    using that by (intro R_sendToSpeaker permits_harmless)
  have z: "R (permits e p body) s (fst (case rt_zones s of None \<Rightarrow> bad e s 501 ''zones not available'' | Some m \<Rightarrow> post_zones e s p body m))"
    by (cases "rt_zones s") (simp_all add: R_zones permits_harmless harmless_def)
  have t: "R (permits e p body) s (fst (post_transport e s body))"
    by (rule R_transport_route) (auto intro: permits_harmless simp: harmless_def)
  have b: "p = ''/api/bulk'' \<Longrightarrow> R (permits e p body) s (fst (post_bulk e s body))"
    using permits_bulk by (intro R_bulk) blast
  have d: "p = ''/api/device'' \<Longrightarrow> R (permits e p body) s (fst (post_device e s body))"
    by (intro R_device) (simp add: permits_def kProxy_def)
  show ?thesis
    unfolding post_routes_def
    by (intro R_if R_registry_routes R_window_route d R_dsp_route R_onboarding R_pair_route z t b h R_member R_destructive R_bad)
      (simp_all add: harmless_def)
qed

lemma R_request:
  "R (\<lambda>c. \<exists>body. post_body (ui_json e) q = Some body \<and> permits e (hq_path q) body c) s (fst (streamer_route e s q))"
proof (cases "post_body (ui_json e) q")
  case None
  then show ?thesis by (simp add: streamer_route_def streamer_post_def get_changes_nothing)
next
  case (Some body)
  then show ?thesis
    using R_routes [of "hq_path q" body s] by (simp add: streamer_route_def streamer_post_def get_changes_nothing)
qed

end

section \<open>Commands are recorded\<close>

text \<open>The contract of the injected functions for the record \<open>sent\<close> of the commands handed to the gateway: the sender
  adds its command, playing or repointing a zone may add \<open>START_AUDIO\<close>, and nothing else adds any.\<close>

type_synonym sent_command = "string \<times> string \<times> json"

definition adds :: "('w rstate \<Rightarrow> sent_command list) \<Rightarrow> (string \<Rightarrow> bool) \<Rightarrow> 'w rstate \<Rightarrow> 'w rstate \<Rightarrow> bool" where
  "adds sent P s s' \<longleftrightarrow> (\<exists>l. sent s' = sent s @ l \<and> list_all (\<lambda>(_, c, _). P c) l)"

lemma adds_same: "sent s' = sent s \<Longrightarrow> adds sent P s s'"
  by (simp add: adds_def)

lemma adds_trans: "adds sent P s s1 \<Longrightarrow> adds sent P s1 s2 \<Longrightarrow> adds sent P s s2"
  by (fastforce simp: adds_def)

lemma adds_mono: "adds sent P s s' \<Longrightarrow> (\<And>c. P c \<Longrightarrow> Q c) \<Longrightarrow> adds sent Q s s'"
  unfolding adds_def list_all_iff by fast

locale command_log =
  fixes e :: "'w ui_env" and sent :: "'w rstate \<Rightarrow> sent_command list"
  assumes sent_send: "ui_send e s t c p = (s1, r) \<Longrightarrow> sent s1 = sent s @ [(sp_device_id t, c, p)]"
    and sent_registry: "sent (s\<lparr>rt_registry := rg\<rparr>) = sent s"
    and sent_zones: "sent (s\<lparr>rt_zones := z\<rparr>) = sent s"
    and sent_window: "sent (s\<lparr>rt_window := w\<rparr>) = sent s"
    and sent_pair: "ui_pair e = Some f1 \<Longrightarrow> f1 s h pp = (s1, r1) \<Longrightarrow> sent s1 = sent s"
    and sent_onboard: "ui_onboard e = Some f2 \<Longrightarrow> f2 s b = (s1, r2) \<Longrightarrow> sent s1 = sent s"
    and sent_transport: "ui_transport e = Some f3 \<Longrightarrow> f3 s a t = (s1, r3) \<Longrightarrow> sent s1 = sent s"
    and sent_http: "ui_http e = Some f4 \<Longrightarrow> f4 s t m4 pa pl = (s1, r4) \<Longrightarrow> sent s1 = sent s"
    and sent_persist: "ui_persist e = Some f5 \<Longrightarrow> sent (f5 s) = sent s"
    and sent_dsp: "ui_dsp_set e = Some f6 \<Longrightarrow> f6 s b = (s1, r6) \<Longrightarrow> sent s1 = sent s"
    and sent_play: "ui_play_zone e = Some f7 \<Longrightarrow> f7 s i sp = (s1, r7) \<Longrightarrow> adds sent (\<lambda>c. c = ''START_AUDIO'') s s1"
    and sent_retarget: "ui_retarget e = Some f8 \<Longrightarrow> f8 s i = (s1, r8) \<Longrightarrow> adds sent (\<lambda>c. c = ''START_AUDIO'') s s1"

sublocale command_log \<subseteq> cmds: router_relation e "adds sent"
proof
  show "adds sent P s s1" if "P c" "ui_send e s t c p = (s1, r)" for P c s t p s1 r
    using sent_send [OF that(2)] that(1) by (simp add: adds_def)
  show "adds sent P s s1" if "ui_play_zone e = Some f7" "P ''START_AUDIO''" "f7 s i sp = (s1, r7)" for P f7 s i sp s1 r7
    using adds_mono [OF sent_play [OF that(1,3)]] that(2) by simp
  show "adds sent P s s1" if "ui_retarget e = Some f8" "P ''START_AUDIO''" "f8 s i = (s1, r8)" for P f8 s i s1 r8
    using adds_mono [OF sent_retarget [OF that(1,3)]] that(2) by simp
  show "adds sent P s s2" if "adds sent P s s1" "adds sent P s1 s2" for P s s1 s2
    using that by (rule adds_trans)
  show "adds sent P s s1" if "ui_pair e = Some f1" "f1 s h pp = (s1, r1)" for P f1 s h pp s1 r1
    using that by (intro adds_same sent_pair)
  show "adds sent P s s1" if "ui_onboard e = Some f2" "f2 s b = (s1, r2)" for P f2 s b s1 r2
    using that by (intro adds_same sent_onboard)
  show "adds sent P s s1" if "ui_transport e = Some f3" "f3 s a t = (s1, r3)" for P f3 s a t s1 r3
    using that by (intro adds_same sent_transport)
  show "adds sent P s s1" if "P kProxy" "ui_http e = Some f4" "f4 s t m4 pa pl = (s1, r4)" for P f4 s t m4 pa pl s1 r4
    using that(2,3) by (intro adds_same sent_http)
  show "adds sent P s s1" if "ui_dsp_set e = Some f6" "f6 s b = (s1, r6)" for P f6 s b s1 r6
    using that by (intro adds_same sent_dsp)
qed (simp_all add: adds_same with_zones_def sent_registry sent_zones sent_window sent_persist)

section \<open>The code on the control page\<close>

text \<open>How a browser reads a query parameter.\<close>

definition hex_value :: "char \<Rightarrow> nat" where
  "hex_value c = (let n = (of_char c :: nat) in if n \<le> 57 then n - 48 else if n \<le> 70 then n - 55 else n - 87)"

fun percent_decode :: "string \<Rightarrow> string" where
  "percent_decode [] = []"
| "percent_decode (c # cs) =
     (if c = CHR ''%'' then
        (case cs of
           a # b # r \<Rightarrow> char_of (16 * hex_value a + hex_value b) # percent_decode r
         | _ \<Rightarrow> c # percent_decode cs)
      else (if c = CHR ''+'' then CHR '' '' else c) # percent_decode cs)"

definition query_token :: "string \<Rightarrow> string" where
  "query_token url = percent_decode (drop 4 (dropWhile (\<lambda>c. c \<noteq> CHR ''/'') (drop 7 url)))"

lemma hex_value_upper: "d < 16 \<Longrightarrow> hex_value (hex_upper d) = d"
  by (auto simp: hex_value_def hex_upper_def Let_def)

lemma percent_decode_char: "percent_decode (percent_char c @ r) = c # percent_decode r"
proof (cases "unreserved c")
  case True
  then have "c \<noteq> CHR ''%''" "c \<noteq> CHR ''+''" by (auto simp: unreserved_def Let_def)
  with True show ?thesis by (simp add: percent_char_def)
next
  case False
  have n: "(of_char c :: nat) < 256" by (rule nat_of_char_less_256)
  have "(of_char c :: nat) div 16 < 16" using n by (auto intro: div_less_iff_less_mult [THEN iffD2])
  then have "16 * hex_value (hex_upper (of_char c div 16)) + hex_value (hex_upper (of_char c mod 16)) = (of_char c :: nat)"
    by (simp add: hex_value_upper)
  then show ?thesis using False by (simp add: percent_char_def Let_def)
qed

lemma percent_decode_encode: "percent_decode (concat (map percent_char t)) = t"
  by (induction t) (simp_all add: percent_decode_char del: percent_decode.simps(2))

lemma query_token_control_url:
  assumes "CHR ''/'' \<notin> set host"
  shows "query_token (control_url host t) = t"
proof -
  have "dropWhile (\<lambda>c. c \<noteq> CHR ''/'') (host @ CHR ''/'' # r) = CHR ''/'' # r" for r
    using assms by (subst dropWhile_append2) auto
  then show ?thesis by (simp add: query_token_def control_url_def percent_decode_encode)
qed

text \<open>The code of the control page opens a session: let the address the browser used and the encoded token fit into
  106 bytes together. Then an authorised GET of \<open>/api/control-qr\<close> answers with the picture of a symbol
  that reads back as an address of this host, and the parameter in it, decoded the way a browser
  decodes it, is the token: as a bearer token it is accepted.\<close>

theorem control_qr_opens_session:
  assumes "ui_token e = Some t" "t \<noteq> []" "authorize t (hq_auth q)"
    and "hq_method q = ''GET''" "hq_path q = ''/api/control-qr''" "hq_host q \<noteq> []" "CHR ''/'' \<notin> set (hq_host q)"
    and "length (control_url (hq_host q) t) \<le> 106"
  shows "\<exists>m url. streamer_route e s q =
      (s, Some \<lparr>hp_status = 200, hp_content_type = ''image/svg+xml'', hp_body = toSvg m 4, hp_headers = []\<rparr>) \<and>
    read_symbol m = Some url \<and> starts (''http://'' @ hq_host q) url \<and>
    authorize t (''Bearer '' @ query_token url)"
proof -
  obtain m where m: "encode (control_url (hq_host q) t) = Some m" "read_symbol m = Some (control_url (hq_host q) t)"
    using short_text_reads_back [OF assms(8)] by blast
  have "streamer_get e s ''/api/control-qr'' (hq_host q) = get_control_qr e s (hq_host q)"
    by (simp add: streamer_get_def)
  then have "streamer_route e s q =
      (s, Some \<lparr>hp_status = 200, hp_content_type = ''image/svg+xml'', hp_body = toSvg m 4, hp_headers = []\<rparr>)"
    using assms m(1) by (simp add: streamer_route_def get_control_qr_def)
  moreover have "starts (''http://'' @ hq_host q) (control_url (hq_host q) t)"
    by (simp add: control_url_def starts_eq)
  moreover have "authorize t (''Bearer '' @ query_token (control_url (hq_host q) t))"
    using assms(2) query_token_control_url [OF assms(7)] by (simp add: authorize_iff)
  ultimately show ?thesis using m(2) by blast
qed

section \<open>Registry and zones\<close>

text \<open>The router's own state, and its invariant: identifiers are unique and no speaker is in two zones.\<close>

definition ui_inv :: "'w rstate \<Rightarrow> bool" where
  "ui_inv s \<longleftrightarrow> registry_inv (rt_registry s) \<and> (case rt_zones s of None \<Rightarrow> True | Some m \<Rightarrow> zones_inv (zm_zones m))"

text \<open>Removing a speaker from the list leaves it in its zone: the zone still names it, but no command reaches it.\<close>

lemma removed_speaker_stays_in_zone:
  assumes "str_of e body ''device_id'' [] = Some d" "ui_persist e = None" "rt_zones s = Some m" "get_zone m i = Some z" "d \<in> set (z_members z)"
    and "registry_inv (rt_registry s)" "fst (post_remove e s body) = s'"
  shows "rt_zones s' = Some m \<and> get_speaker (rt_registry s') d = None"
  using assms remove_get [of "rt_registry s" d d]
  by (auto simp: post_remove_def rd_def answers save_def split: prod.splits)

text \<open>A bulk action counts every exchange as a success, also one the speaker refused.\<close>

lemma bulk_counts_refusals:
  assumes "get_speaker (rt_registry s) d = Some sp" "d \<noteq> []" "getters_exact (ui_json e)"
    and "ui_send e s sp c p = (s1, Some (Inr r))" "\<not> cp_ok r"
  shows "\<exists>s2. bulk_send e c p s [JStr d] = (s2, Some (1, [JObj [(''speaker'', JStr d), (''ok'', JBool True)]]))"
  using assms by (simp add: sendToSpeaker_def rd_def str_of_def answers json_response_def)

text \<open>A bulk reboot needs no confirmation.\<close>

lemma bulk_reboot_unconfirmed:
  assumes "getters_exact (ui_json e)" "body = JObj [(''action'', JStr ''reboot''), (''speakers'', JArr [JStr d])]"
    and "get_speaker (rt_registry s) d = Some sp" "d \<noteq> []" "ui_send e s sp ''REBOOT'' (JObj []) = (s1, Some (Inr r))"
  shows "fst (post_routes e s ''/api/bulk'' body) = s1 \<and> \<not> confirms_it e body"
proof -
  have "post_routes e s ''/api/bulk'' body = post_bulk e s body" by (simp add: post_routes_def starts_def)
  then show ?thesis
    using assms by (simp add: post_bulk_def bulk_command_def rd_def str_of_def sendToSpeaker_def answers json_response_def confirms_it_def)
qed

text \<open>A malformed port is noticed only after the speaker has been paired: the request fails and the speaker is not
  registered.\<close>

lemma pair_then_throw:
  assumes "getters_exact (ui_json e)" "ui_pair e = Some f" "jl_get_int (ui_json e) (JStr x) = None"
    and "body = JObj [(''host'', JStr h), (''setup_code'', JStr c), (''box_public_key'', JStr b), (''control_port'', JStr x)]" "h \<noteq> []"
    and "pair_params e body h = Some pp" "f s h pp = (s1, Some (Inr r))" "pl_ok r"
  shows "post_pair e s body = (s1, None)"
  using assms by (simp add: post_pair_def rd_def str_of_def has_def)

text \<open>A body that is not an object makes every route that reads a member throw.\<close>

lemma array_body_throws: "post_routes e s ''/api/status'' (JArr vs) = (s, None)"
proof -
  have "post_routes e s ''/api/status'' (JArr vs) = sendToSpeaker e s (JArr vs) ''GET_STATUS'' JNull"
    by (simp add: post_routes_def starts_def)
  then show ?thesis by (simp add: sendToSpeaker_def rd_def str_of_def j_value_def)
qed

section \<open>A concrete router\<close>

definition demo_speakers :: registry where
  "demo_speakers = [\<lparr>sp_device_id = ''SPK-1'', sp_name = ''Kitchen'', sp_host = ''10.0.0.5'', sp_control_port = 45455\<rparr>]"

definition demo_rstate :: "sent_command list rstate" where
  "demo_rstate = \<lparr>rt_registry = demo_speakers, rt_zones = Some zoneman_new, rt_window = Some window_new, rt_world = []\<rparr>"

definition demo_ui :: "sent_command list ui_env" where
  "demo_ui = \<lparr>ui_json = demo_lib ''B'' (JObj [(''speaker'', JStr ''SPK-1''), (''confirm'', JBool True)]), ui_token = Some ''a+b'', ui_html = ''html'',
     ui_send = (\<lambda>s t c p. (s\<lparr>rt_world := rt_world s @ [(sp_device_id t, c, p)]\<rparr>, Some (Inr (reply_empty\<lparr>cp_ok := True\<rparr>)))),
     ui_pair = None, ui_discover = None, ui_scan = None, ui_ap_scan = None, ui_onboard = None, ui_transport = None,
     ui_store = None, ui_now = (\<lambda>_. 0), ui_clock = (\<lambda>_. 0), ui_mac = None, ui_http = None, ui_play_zone = None, ui_retarget = None,
     ui_persist = None, ui_dsp_get = None, ui_dsp_set = None, ui_levels = None, ui_sources = (\<lambda>_. ([], []))\<rparr>"

definition demo_get :: "string \<Rightarrow> string \<Rightarrow> http_request" where
  "demo_get p auth = \<lparr>hq_method = ''GET'', hq_path = p, hq_body = [], hq_auth = auth, hq_host = ''10.0.0.2:8090''\<rparr>"

theorem api_needs_token_witness:
  "fst (streamer_route demo_ui demo_rstate (demo_get ''/api/speakers'' ''Bearer a b'')) = demo_rstate"
proof -
  have "ui_token demo_ui = Some ''a+b''" "''a+b'' \<noteq> []" "hq_auth (demo_get ''/api/speakers'' ''Bearer a b'') \<noteq> ''Bearer '' @ ''a+b''"
    by (simp_all add: demo_ui_def demo_get_def)
  from api_needs_token [OF this] obtain r where "\<forall>s. streamer_route demo_ui s (demo_get ''/api/speakers'' ''Bearer a b'') = (s, Some r)" by blast
  then show ?thesis by simp
qed

theorem control_qr_opens_session_witness:
  "\<exists>m url. read_symbol m = Some url \<and> authorize ''a+b'' (''Bearer '' @ query_token url) \<and>
     snd (streamer_route demo_ui demo_rstate (demo_get ''/api/control-qr'' ''Bearer a+b'')) =
       Some \<lparr>hp_status = 200, hp_content_type = ''image/svg+xml'', hp_body = toSvg m 4, hp_headers = []\<rparr>"
proof -
  let ?q = "demo_get ''/api/control-qr'' ''Bearer a+b''"
  have "\<exists>m url. streamer_route demo_ui demo_rstate ?q =
      (demo_rstate, Some \<lparr>hp_status = 200, hp_content_type = ''image/svg+xml'', hp_body = toSvg m 4, hp_headers = []\<rparr>) \<and>
    read_symbol m = Some url \<and> starts (''http://'' @ hq_host ?q) url \<and> authorize ''a+b'' (''Bearer '' @ query_token url)"
  proof (rule control_qr_opens_session)
    have "authorize ''a+b'' (''Bearer '' @ ''a+b'')" using authorize_iff [of "''a+b''" "''Bearer '' @ ''a+b''"] by simp
    then show "authorize ''a+b'' (hq_auth ?q)" by (simp add: demo_get_def)
    show "length (control_url (hq_host ?q) ''a+b'') \<le> 106"
      by (simp add: demo_get_def control_url_def percent_char_def unreserved_def Let_def)
  qed (simp_all add: demo_ui_def demo_get_def)
  then show ?thesis by force
qed

end
