(* ===== verification/Source_Factory.thy ===== *)
theory Source_Factory
  imports Audio_Source Network "HOL-Library.Sublist"
begin

text \<open>
  What the Streamer can play: the enumeration of capture devices (\<open>sources/CaptureDevices.h\<close>, \<open>.cpp\<close>), a child
  process as a source (\<open>sources/ProcessPcmSource.h\<close>) and the factory that turns a kind and an address into a source
  (\<open>sources/SourceFactory.h\<close>). The output of the helper processes and the outcome of \<open>popen\<close> are arguments.
  The main results: the factory accepts exactly the kinds it advertises, an address that reaches a shell is always
  exactly one word of the command, and a device that is listed can be played.
\<close>

section \<open>Capture devices\<close>

fun shellQuote_body :: "string \<Rightarrow> string" where
  "shellQuote_body [] = []"
| "shellQuote_body (c # s) = (if c = sq then [sq, CHR 92, sq, sq] else [c]) @ shellQuote_body s"

definition shellQuote :: "string \<Rightarrow> string" where
  "shellQuote s = sq # shellQuote_body s @ [sq]"

record capture_device =
  cd_id :: string
  cd_name :: string
  cd_loopback :: bool

definition ascii_lower :: "char \<Rightarrow> char" where
  "ascii_lower c = (let n = (of_char c :: nat) in if 65 \<le> n \<and> n \<le> 90 then char_of (n + 32) else c)"

definition isLoopbackName :: "string \<Rightarrow> bool" where
  "isLoopbackName name \<longleftrightarrow>
     list_ex (\<lambda>needle. sublist needle (map ascii_lower name)) [''blackhole'', ''loopback'', ''monitor'', ''soundflower'', ''virtual'']"

text \<open>The lines of an output: what stands before each line feed, and a last part without one.\<close>

fun out_lines :: "string \<Rightarrow> string \<Rightarrow> string list" where
  "out_lines acc [] = (if acc = [] then [] else [acc])"
| "out_lines acc (c # s) = (if c = CHR 10 then acc # out_lines [] s else out_lines (acc @ [c]) s)"

text \<open>What follows the first occurrence of a key in a line.\<close>

fun after_key :: "string \<Rightarrow> string \<Rightarrow> string option" where
  "after_key key [] = (if key = [] then Some [] else None)"
| "after_key key (c # s) =
     (if take (length key) (c # s) = key then Some (drop (length key) (c # s)) else after_key key s)"

definition unquote :: "string \<Rightarrow> string" where
  "unquote v =
     (let v1 = (if v \<noteq> [] \<and> hd v = CHR 34 then tl v else v)
      in if v1 \<noteq> [] \<and> last v1 = CHR 34 then butlast v1 else v1)"

definition device_of_name :: "string \<Rightarrow> capture_device" where
  "device_of_name nm = \<lparr>cd_id = nm, cd_name = nm, cd_loopback = isLoopbackName nm\<rparr>"

text \<open>Linux: a line of \<open>pw-cli ls Node\<close>.\<close>

definition pw_device :: "string \<Rightarrow> capture_device option" where
  "pw_device line =
     (case after_key ''node.name = '' line of
        None \<Rightarrow> None
      | Some v \<Rightarrow> (let nm = unquote v in if nm = [] then None else Some (device_of_name nm)))"

definition pw_devices :: "string \<Rightarrow> capture_device list" where
  "pw_devices out = List.map_filter pw_device (out_lines [] out)"

text \<open>macOS: one JSON object per line; None when a typed read of a line throws.\<close>

definition mac_device :: "json_lib \<Rightarrow> string \<Rightarrow> capture_device option option" where
  "mac_device J line =
     (if line = [] then Some None
      else case jl_parse J line of
        None \<Rightarrow> Some None
      | Some j \<Rightarrow>
          if \<not> is_object j then Some None
          else do {
            nm \<leftarrow> j_value (jl_get_string J) j ''name'' [];
            i \<leftarrow> j_value (jl_get_string J) j ''uid'' [];
            Some (if i = [] \<or> nm = [] then None else Some \<lparr>cd_id = i, cd_name = nm, cd_loopback = isLoopbackName nm\<rparr>)
          })"

fun mac_devices :: "json_lib \<Rightarrow> string list \<Rightarrow> capture_device list option" where
  "mac_devices J [] = Some []"
| "mac_devices J (l # ls) = do {
     d \<leftarrow> mac_device J l;
     ds \<leftarrow> mac_devices J ls;
     Some (case d of None \<Rightarrow> ds | Some x \<Rightarrow> x # ds)
   }"

text \<open>The platform: Linux, or macOS with the path of the capture helper when it exists.\<close>

datatype platform = Linux | MacOS "string option"

definition listCaptureDevices :: "platform \<Rightarrow> json_lib \<Rightarrow> (string \<Rightarrow> string) \<Rightarrow> capture_device list option" where
  "listCaptureDevices pf J runCapture =
     (case pf of
        MacOS None \<Rightarrow> Some []
      | MacOS (Some helper) \<Rightarrow> mac_devices J (out_lines [] (runCapture (shellQuote helper @ '' --list 2>/dev/null'')))
      | Linux \<Rightarrow> Some (pw_devices (runCapture ''pw-cli ls Node 2>/dev/null'')))"

definition captureCommandFor :: "platform \<Rightarrow> string \<Rightarrow> string" where
  "captureCommandFor pf d =
     (if d = [] then []
      else case pf of
        MacOS None \<Rightarrow> []
      | MacOS (Some helper) \<Rightarrow> shellQuote helper @ '' '' @ shellQuote d
      | Linux \<Rightarrow> ''pw-record --target '' @ shellQuote d @ '' --rate 48000 --channels 2 --format s16 - 2>/dev/null'')"

section \<open>A process as a source\<close>

record process_source =
  pr_open :: bool
  pr_live :: bool
  pr_inner :: stdin_source

definition process_new :: "byte list \<Rightarrow> bool \<Rightarrow> process_source" where
  "process_new out live = \<lparr>pr_open = True, pr_live = live, pr_inner = \<lparr>st_in = out, st_channels = 2, st_eof = False\<rparr>\<rparr>"

definition process_read :: "process_source \<Rightarrow> nat \<Rightarrow> process_source \<times> i16 list \<times> nat" where
  "process_read p max_frames =
     (if \<not> pr_open p then (p, [], 0)
      else case stdin_read (pr_inner p) max_frames of (s, out, k) \<Rightarrow> (p\<lparr>pr_inner := s\<rparr>, out, k))"

definition process_exhausted :: "process_source \<Rightarrow> bool" where
  "process_exhausted p = (if pr_live p then False else st_eof (pr_inner p))"

definition process_close :: "process_source \<Rightarrow> process_source" where
  "process_close p = p\<lparr>pr_open := False\<rparr>"

section \<open>The factory\<close>

datatype source_choice = Stdin_Source | Wav_Source string | Process_Source string bool

record source_env =
  se_platform :: platform
  se_wav :: "string \<Rightarrow> status"
  se_popen :: "string \<Rightarrow> bool"

definition spawn :: "source_env \<Rightarrow> string \<Rightarrow> bool \<Rightarrow> source_choice result" where
  "spawn v cmd live =
     (if se_popen v cmd then Inr (Process_Source cmd live) else Inl (mk_error Ec_IoError ''failed to start source process''))"

definition ffmpeg_command :: "string \<Rightarrow> string" where
  "ffmpeg_command uri = ''ffmpeg -v quiet -i '' @ shellQuote uri @ '' -ar 48000 -ac 2 -f s16le -''"

definition makeSource :: "source_env \<Rightarrow> string \<times> string \<Rightarrow> source_choice result" where
  "makeSource v spec =
     (case spec of (kind, uri) \<Rightarrow>
        if kind = ''stdin'' then Inr Stdin_Source
        else if kind = ''file'' then
          if uri = [] then Inl (mk_error Ec_InvalidArg ''file source needs a path'')
          else if st_ok (se_wav v uri) then Inr (Wav_Source uri)
          else (case spawn v (ffmpeg_command uri) False of
                  Inr s \<Rightarrow> Inr s
                | Inl _ \<Rightarrow> Inl (mk_error Ec_InvalidArg
                    (''cannot play '' @ uri @ '' ('' @ st_message (se_wav v uri) @ ''; ffmpeg fallback also failed)'')))
        else if kind = ''process'' then
          if uri = [] then Inl (mk_error Ec_InvalidArg ''process source needs a command'') else spawn v uri True
        else if kind = ''device'' then
          if uri = [] then Inl (mk_error Ec_InvalidArg ''device source needs a device id'')
          else
            (let cmd = captureCommandFor (se_platform v) uri in
             if cmd = [] then Inl (mk_error Ec_NotImplemented ''no capture backend on this host (see docs: maccapture/pw-record)'')
             else spawn v cmd True)
        else Inl (mk_error Ec_InvalidArg (''unknown source kind: '' @ kind)))"

definition availableKinds :: "string list" where
  "availableKinds = [''file'', ''stdin'', ''process'', ''device'']"

section \<open>What is listed can be played\<close>

lemma shellQuote_shq: "shellQuote s = shq s"
proof -
  have "shellQuote_body s = shq_body s" by (induction s) simp_all
  then show ?thesis by (simp add: shellQuote_def shq_def)
qed

text \<open>The word a shell reads at the place of a quoted argument is the argument, and the rest of the line is what the
  program wrote after it: whatever the address is, it cannot add words or commands.\<close>

lemma quoted_is_one_word:
  "sh_word False (drop 19 (ffmpeg_command uri)) = Some (uri, '' -ar 48000 -ac 2 -f s16le -'')"
  "d \<noteq> [] \<Longrightarrow> sh_word False (drop 19 (captureCommandFor Linux d)) =
     Some (d, '' --rate 48000 --channels 2 --format s16 - 2>/dev/null'')"
  using shq_roundtrip [of uri "''-ar 48000 -ac 2 -f s16le -''"] shq_roundtrip [of d "''--rate 48000 --channels 2 --format s16 - 2>/dev/null''"]
  by (simp_all add: ffmpeg_command_def captureCommandFor_def shellQuote_shq)

lemma pw_devices_named: "d \<in> set (pw_devices out) \<Longrightarrow> cd_id d \<noteq> [] \<and> cd_name d = cd_id d"
  by (auto simp: pw_devices_def pw_device_def map_filter_def device_of_name_def Let_def split: option.splits if_splits)

lemma mac_devices_named: "mac_devices J ls = Some ds \<Longrightarrow> d \<in> set ds \<Longrightarrow> cd_id d \<noteq> [] \<and> cd_name d \<noteq> []"
  by (induction ls arbitrary: ds) (auto simp: mac_device_def split: option.splits if_splits bind_splits)

text \<open>Every device that is offered can be played, whatever its name: the factory turns its identifier into a command,
  and the source is the live output of that command.\<close>

theorem listed_device_plays:
  assumes "listCaptureDevices (se_platform v) J run = Some ds" "d \<in> set ds" "\<And>cmd. se_popen v cmd"
  shows "makeSource v (''device'', cd_id d) = Inr (Process_Source (captureCommandFor (se_platform v) (cd_id d)) True)
    \<and> captureCommandFor (se_platform v) (cd_id d) \<noteq> []"
proof (cases "se_platform v")
  case Linux
  then have "cd_id d \<noteq> []" using assms(1,2) pw_devices_named by (auto simp: listCaptureDevices_def)
  with Linux show ?thesis using assms(3) by (simp add: makeSource_def spawn_def captureCommandFor_def Let_def)
next
  case (MacOS h)
  then obtain helper where h: "h = Some helper" using assms(1,2) by (cases h) (auto simp: listCaptureDevices_def)
  then have "cd_id d \<noteq> []" using assms(1,2) MacOS mac_devices_named by (auto simp: listCaptureDevices_def)
  with MacOS h show ?thesis using assms(3) by (simp add: makeSource_def spawn_def captureCommandFor_def shellQuote_def Let_def)
qed

text \<open>The kinds that are advertised are exactly those the factory knows.\<close>

lemma kinds_exact:
  "kind \<notin> set availableKinds \<longleftrightarrow> makeSource v (kind, uri) = Inl (mk_error Ec_InvalidArg (''unknown source kind: '' @ kind))"
  by (auto simp: makeSource_def availableKinds_def spawn_def mk_error_def Let_def split: sum.splits if_splits)

text \<open>Case does not matter for the recommendation, as far as ASCII letters go.\<close>

lemma loopback_case_insensitive: "isLoopbackName (map ascii_lower nm) = isLoopbackName nm"
proof -
  have "ascii_lower (ascii_lower c) = ascii_lower c" for c by (auto simp: ascii_lower_def Let_def)
  then show ?thesis by (simp add: isLoopbackName_def comp_def)
qed

text \<open>A live process is never at its end: when the command has ended, also one that never started, every read
  gives nothing and the source still claims to go on.\<close>

lemma dead_process_never_ends:
  assumes "process_read (process_new [] True) n = (p, out, k)"
  shows "out = [] \<and> k = 0 \<and> \<not> process_exhausted p"
  using assms by (auto simp: process_read_def process_new_def process_exhausted_def stdin_read_def Let_def)

text \<open>A finite process hands out exactly its output, as \<open>StdinPcmSource\<close> does.\<close>

interpretation proc: finite_source process_read process_exhausted "\<lambda>p. st_channels (pr_inner p)" "\<lambda>p. stdin_left (pr_inner p)"
  "\<lambda>p. pr_open p \<and> \<not> pr_live p \<and> stdin_ok (pr_inner p)"
proof
  fix s s' :: process_source and n k :: nat and out :: "i16 list"
  assume ok: "pr_open s \<and> \<not> pr_live s \<and> stdin_ok (pr_inner s)" and n: "0 < n" and r: "process_read s n = (s', out, k)"
  then obtain i where i: "stdin_read (pr_inner s) n = (i, out, k)" "s' = s\<lparr>pr_inner := i\<rparr>"
    by (auto simp: process_read_def split: prod.splits)
  note facts = inp.rd_ok inp.rd_out inp.rd_left inp.rd_frames
  show "(pr_open s' \<and> \<not> pr_live s' \<and> stdin_ok (pr_inner s')) \<and> st_channels (pr_inner s') = st_channels (pr_inner s)"
    using inp.rd_ok [OF _ n i(1)] ok by (simp add: i(2))
  show "out = take (n * st_channels (pr_inner s)) (stdin_left (pr_inner s))" using inp.rd_out [OF _ n i(1)] ok by simp
  show "stdin_left (pr_inner s') = drop (n * st_channels (pr_inner s)) (stdin_left (pr_inner s))"
    using inp.rd_left [OF _ n i(1)] ok by (simp add: i(2))
  show "length out = k * st_channels (pr_inner s)" using inp.rd_frames [OF _ n i(1)] ok by simp
next
  fix s :: process_source
  assume ok: "pr_open s \<and> \<not> pr_live s \<and> stdin_ok (pr_inner s)"
  show "process_exhausted s \<Longrightarrow> stdin_left (pr_inner s) = []" using ok inp.ex_left [of "pr_inner s"] by (simp add: process_exhausted_def)
  show "0 < st_channels (pr_inner s)" using ok inp.ch_pos [of "pr_inner s"] by simp
qed

definition demo_nodes :: string where
  "demo_nodes = ''id 31, type Node'' @ [CHR 10] @ ''  node.name = '' @ [CHR 34] @ ''alsa.Monitor'' @ [CHR 34, CHR 10]"

definition demo_sources :: source_env where
  "demo_sources = \<lparr>se_platform = Linux, se_wav = (\<lambda>_. success), se_popen = (\<lambda>_. True)\<rparr>"

theorem listed_device_plays_witness:
  "makeSource demo_sources (''device'', ''alsa.Monitor'') = Inr (Process_Source (captureCommandFor Linux ''alsa.Monitor'') True)"
  using listed_device_plays [of demo_sources "demo_lib [] JNull" "\<lambda>_. demo_nodes" "[device_of_name ''alsa.Monitor'']" "device_of_name ''alsa.Monitor''"]
  by (simp add: demo_sources_def listCaptureDevices_def demo_nodes_def pw_devices_def map_filter_def pw_device_def unquote_def Let_def device_of_name_def)

end
