(* ===== verification/Streamer_App.thy ===== *)
theory Streamer_App
  imports Streamer_Router Source_Factory Audio_Engine
begin

text \<open>
  The Streamer process behind its control API: the UDP sink (\<open>streamer/src/send/UdpPacketSink.cpp\<close>), what
  \<open>StreamerApp.cpp\<close> injects into the router (the gateway with its observer, pairing, onboarding over a setup
  network, transport, zones, saving, DSP and levels) and their composition with the router of theory
  \<open>Streamer_Router\<close>. The world outside (the network, the clocks, the radio, name resolution) is a record of functions.
  The main results: a destructive command goes to the gateway only for a request that confirms it, every request keeps
  the registry and the zones well-formed, and the fan-out set is replaced as a whole or not at all.
\<close>

section \<open>The UDP sink\<close>

record udp_target =
  ut_host :: string
  ut_port :: int
  ut_addr :: u32

record udp_sink =
  uk_open :: bool
  uk_targets :: "udp_target list"

definition resolveIpv4 :: "(string \<Rightarrow> u32 option) \<Rightarrow> string \<Rightarrow> u32 result" where
  "resolveIpv4 resolve host =
     (case resolve host of None \<Rightarrow> Inl (mk_error Ec_InvalidArg (''cannot resolve target host: '' @ host)) | Some a \<Rightarrow> Inr a)"

definition addTarget :: "(string \<Rightarrow> u32 option) \<Rightarrow> udp_sink \<Rightarrow> string \<Rightarrow> int \<Rightarrow> udp_sink \<times> status" where
  "addTarget resolve k host port =
     (case resolveIpv4 resolve host of
        Inl st \<Rightarrow> (k, st)
      | Inr a \<Rightarrow> (k\<lparr>uk_targets := uk_targets k @ [\<lparr>ut_host = host, ut_port = port, ut_addr = a\<rparr>]\<rparr>, success))"

fun drop_target :: "string \<Rightarrow> int \<Rightarrow> udp_target list \<Rightarrow> udp_target list" where
  "drop_target host port [] = []"
| "drop_target host port (t # ts) =
     (if ut_host t = host \<and> ut_port t = port then ts else t # drop_target host port ts)"

definition removeTarget :: "udp_sink \<Rightarrow> string \<Rightarrow> int \<Rightarrow> udp_sink" where
  "removeTarget k host port = k\<lparr>uk_targets := drop_target host port (uk_targets k)\<rparr>"

fun resolve_all :: "(string \<Rightarrow> u32 option) \<Rightarrow> endpoint list \<Rightarrow> udp_target list result" where
  "resolve_all resolve [] = Inr []"
| "resolve_all resolve ((host, port) # es) =
     (case resolveIpv4 resolve host of
        Inl st \<Rightarrow> Inl st
      | Inr a \<Rightarrow>
          (case resolve_all resolve es of
             Inl st \<Rightarrow> Inl st
           | Inr ts \<Rightarrow> Inr (\<lparr>ut_host = host, ut_port = port, ut_addr = a\<rparr> # ts)))"

definition setTargets :: "(string \<Rightarrow> u32 option) \<Rightarrow> udp_sink \<Rightarrow> endpoint list \<Rightarrow> udp_sink \<times> status" where
  "setTargets resolve k es =
     (case resolve_all resolve es of Inl st \<Rightarrow> (k, st) | Inr ts \<Rightarrow> (k\<lparr>uk_targets := ts\<rparr>, success))"

text \<open>\<open>send\<close>: what is handed to the socket, in order, and the result; \<open>sent_ok\<close> says of each target whether \<open>sendto\<close> took all.\<close>

definition sink_send :: "(udp_target \<Rightarrow> bool) \<Rightarrow> udp_sink \<Rightarrow> byte list \<Rightarrow> (u32 \<times> 16 word \<times> byte list) list \<times> bool" where
  "sink_send sent_ok k datagram =
     (if \<not> uk_open k then ([], False)
      else (map (\<lambda>t. (ut_addr t, word_of_int (ut_port t), datagram)) (uk_targets k), list_all sent_ok (uk_targets k)))"

lemma resolve_all_ok:
  "resolve_all f es = Inr ts \<Longrightarrow> map (\<lambda>t. (ut_host t, ut_port t)) ts = es \<and> list_all (\<lambda>t. f (ut_host t) = Some (ut_addr t)) ts"
  by (induction f es arbitrary: ts rule: resolve_all.induct) (auto simp: resolveIpv4_def split: sum.splits option.splits)

lemma resolve_all_fails: "(\<exists>st. resolve_all f es = Inl st) \<longleftrightarrow> (\<exists>(h, p)\<in>set es. f h = None)"
  by (induction f es rule: resolve_all.induct) (auto simp: resolveIpv4_def split: sum.splits option.splits)

lemma resolve_all_error: "resolve_all f es = Inl st \<Longrightarrow> \<not> st_ok st"
  by (induction f es rule: resolve_all.induct) (auto simp: resolveIpv4_def split: sum.splits option.splits)

text \<open>The fan-out set is replaced as a whole or not at all: when every host resolves, the next datagram goes to exactly
  the new endpoints, in their order, whatever happens to the others on the way; when one does not, the set stays as it was.\<close>

theorem fanout_is_atomic:
  assumes "setTargets f k es = (k', st)"
  shows "(st_ok st \<longrightarrow> map (\<lambda>t. (ut_host t, ut_port t)) (uk_targets k') = es \<and>
      (uk_open k \<longrightarrow> fst (sink_send ok k' d) =
        map (\<lambda>(h, p). (the (f h), word_of_int p, d)) es)) \<and>
    (\<not> st_ok st \<longrightarrow> k' = k \<and> (\<exists>(h, p)\<in>set es. f h = None))"
proof (cases "resolve_all f es")
  case (Inl e)
  then have "k' = k" "st = e" using assms by (simp_all add: setTargets_def)
  with Inl show ?thesis using resolve_all_error [OF Inl] resolve_all_fails [of f es] by auto
next
  case (Inr ts)
  then have k: "k' = k\<lparr>uk_targets := ts\<rparr>" "st = success" using assms by (simp_all add: setTargets_def)
  note r = resolve_all_ok [OF Inr]
  have "map (\<lambda>(h, p). (the (f h), word_of_int p, d)) es = map (\<lambda>t. (ut_addr t, word_of_int (ut_port t), d)) ts"
    using r by (auto simp: list_all_iff)
  then show ?thesis using r k by (auto simp: sink_send_def)
qed

theorem fanout_is_atomic_witness:
  "uk_targets (fst (setTargets (\<lambda>h. if h = ''a'' then Some 1 else None) \<lparr>uk_open = True, uk_targets = []\<rparr> [(''a'', 50005), (''b'', 50005)])) = []"
  using fanout_is_atomic [of "\<lambda>h. if h = ''a'' then Some 1 else None" "\<lparr>uk_open = True, uk_targets = []\<rparr>" "[(''a'', 50005), (''b'', 50005)]"]
  by (simp add: setTargets_def resolveIpv4_def)

section \<open>The world of the process\<close>

text \<open>The calls on the audio engine that the web thread makes (theory \<open>Audio_Engine\<close> models what they do), and the
  state behind the injected functions. \<open>aw_sent\<close> records the commands handed to the gateway, \<open>aw_http\<close> the requests (speaker,
  method, path) that the proxy forwards to a speaker's own web interface, \<open>aw_radio\<close> whether the spare radio is on a
  setup network.\<close>

datatype audio_call = Call_Play source_choice | Call_Pause | Call_Resume | Call_Stop

record app_world =
  aw_gateway :: gateway
  aw_store :: store
  aw_events :: "event list"
  aw_cfg :: "streamer_cfgman option"
  aw_dsp :: master_dsp
  aw_sink :: udp_sink
  aw_target_count :: nat
  aw_calls :: "audio_call list"
  aw_radio :: bool
  aw_sent :: "sent_command list"
  aw_http :: "(string \<times> string \<times> string) list"
  aw_input :: levels
  aw_output :: levels
  aw_transport :: transport
  aw_packets :: nat

record app_env =
  ap_json :: json_lib
  ap_sign :: signer
  ap_seal :: seal_lib
  ap_id :: streamer_identity
  ap_cfg :: cfg_env
  ap_token :: string
  ap_html :: string
  ap_threshold :: int
  ap_line :: "app_world \<Rightarrow> string \<Rightarrow> int \<Rightarrow> string \<Rightarrow> string result"
  ap_now_ms :: "app_world \<Rightarrow> int"
  ap_now :: "app_world \<Rightarrow> int"
  ap_steady :: "app_world \<Rightarrow> int"
  ap_salt :: "app_world \<Rightarrow> 16 word"
  ap_resolve :: "app_world \<Rightarrow> string \<Rightarrow> u32 option"
  ap_sources :: "app_world \<Rightarrow> source_env"
  ap_devices :: "app_world \<Rightarrow> capture_device list"
  ap_join :: "app_world \<Rightarrow> string \<Rightarrow> status"
  ap_gw :: "app_world \<Rightarrow> string"
  ap_scan_net :: "app_world \<Rightarrow> json"
  ap_scan_aps :: "app_world \<Rightarrow> json"
  ap_http :: "app_world \<Rightarrow> speaker \<Rightarrow> string \<Rightarrow> string \<Rightarrow> string \<Rightarrow> nat \<times> string"
  ap_mac :: "app_world \<Rightarrow> string \<Rightarrow> string"

type_synonym app_state = "app_world rstate"

definition upd :: "(app_world \<Rightarrow> app_world) \<Rightarrow> app_state \<Rightarrow> app_state" where
  "upd f s = s\<lparr>rt_world := f (rt_world s)\<rparr>"

section \<open>The gateway and saving\<close>

definition app_send :: "app_env \<Rightarrow> app_state \<Rightarrow> speaker \<Rightarrow> string \<Rightarrow> json \<Rightarrow> app_state \<times> command_reply result option" where
  "app_send v s target cmd pl =
     (let w = rt_world s in
      case dispatch (ap_json v) (ap_sign v) (ap_line v w (sp_host target) (sp_control_port target)) (aw_gateway w)
             (ap_now_ms v w) (ap_now v w) (ap_salt v w) (sp_device_id target) cmd pl 30 True of
        (g, r, ob) \<Rightarrow>
          (case (case ob of None \<Rightarrow> (aw_store w, [])
                 | Some x \<Rightarrow> observe (ap_json v) (ap_threshold v) (ap_steady v w) (aw_store w) x) of
             (st, evs) \<Rightarrow>
               (upd (\<lambda>w. w\<lparr>aw_gateway := g, aw_store := st, aw_events := aw_events w @ evs,
                          aw_sent := aw_sent w @ [(sp_device_id target, cmd, pl)]\<rparr>) s, r)))"

definition to_app :: "app_state \<Rightarrow> streamer_app" where
  "to_app s = \<lparr>sa_registry = rt_registry s, sa_zoneman = (case rt_zones s of None \<Rightarrow> zoneman_new | Some m \<Rightarrow> m),
     sa_cfg = aw_cfg (rt_world s), sa_dsp = master_to_json (ms_config (aw_dsp (rt_world s)))\<rparr>"

definition of_app :: "app_state \<Rightarrow> streamer_app \<Rightarrow> app_state" where
  "of_app s a = upd (\<lambda>w. w\<lparr>aw_cfg := sa_cfg a\<rparr>) (s\<lparr>rt_registry := sa_registry a\<rparr>)"

definition app_persist :: "app_env \<Rightarrow> app_state \<Rightarrow> app_state" where
  "app_persist v s = of_app s (persist_all (ap_json v) (ap_cfg v) (to_app s))"

section \<open>Pairing and onboarding\<close>

definition app_pair :: "app_env \<Rightarrow> app_state \<Rightarrow> string \<Rightarrow> pairing_params \<Rightarrow> app_state \<times> pairing_reply result option" where
  "app_pair v s host p = (s, pair (ap_seal v) (ap_json v) (ap_line v (rt_world s) host 45455) (own_params (ap_id v) p))"

definition refused :: "string \<Rightarrow> json" where
  "refused msg = JObj [(''ok'', JBool False), (''message'', JStr msg)]"

definition radio :: "bool \<Rightarrow> app_state \<Rightarrow> app_state" where
  "radio on = upd (\<lambda>w. w\<lparr>aw_radio := on\<rparr>)"

text \<open>The onboarding closure. Joining a network that fails leaves the radio free; every read of the body that throws
  after the join, and a reply that throws, ends the closure with the radio where it is.\<close>

definition app_onboard :: "app_env \<Rightarrow> app_world ui_env \<Rightarrow> app_state \<Rightarrow> json \<Rightarrow> app_state \<times> json option" where
  "app_onboard v e s body =
     (case str_of e body ''ssid'' [] of
        None \<Rightarrow> (s, None)
      | Some ssid \<Rightarrow>
          (let st = ap_join v (rt_world s) ssid in
           if \<not> st_ok st then (radio False s, Some (refused (st_message st)))
           else
             (let s1 = radio True s; host = ap_gw v (rt_world s1) in
              if host = [] then (radio False s1, Some (refused ''joined the setup network but found no speaker on it''))
              else
                (case pair_params e body ssid of
                   None \<Rightarrow> (s1, None)
                 | Some params \<Rightarrow>
                     (case pairAndRegister (ap_seal v) (ap_json v) (ap_cfg v) (ap_id v) (\<lambda>h. ap_line v (rt_world s1) h 45455)
                             (to_app s1) host params [] (\<lambda>d. case str_of e body ''name'' d of None \<Rightarrow> d | Some nm \<Rightarrow> nm) of
                        (a, None) \<Rightarrow> (of_app s1 a, None)
                      | (a, Some (Inl err)) \<Rightarrow> (radio False (of_app s1 a), Some (refused (st_message err)))
                      | (a, Some (Inr r)) \<Rightarrow>
                          (radio False (of_app s1 a),
                           Some (if \<not> pl_ok r then refused (pl_message r)
                                 else JObj [(''ok'', JBool True), (''device_id'', JStr (pl_device_id r)),
                                        (''message'', JStr ''paired; the speaker is joining the network'')])))))))"

section \<open>Playback\<close>

definition app_targets :: "app_env \<Rightarrow> app_state \<Rightarrow> endpoint list \<Rightarrow> app_state \<times> status" where
  "app_targets v s es =
     (case setTargets (ap_resolve v (rt_world s)) (aw_sink (rt_world s)) es of
        (k, st) \<Rightarrow>
          (upd (\<lambda>w. w\<lparr>aw_sink := k, aw_target_count := (if st_ok st then length es else aw_target_count w)\<rparr>) s, st))"

definition audio_do :: "audio_call \<Rightarrow> app_state \<Rightarrow> app_state" where
  "audio_do c = upd (\<lambda>w. w\<lparr>aw_calls := aw_calls w @ [c]\<rparr>)"

definition playTo :: "app_env \<Rightarrow> app_state \<Rightarrow> endpoint list \<Rightarrow> source_choice \<Rightarrow> app_state \<times> status" where
  "playTo v s es src =
     (case app_targets v s es of
        (s1, st) \<Rightarrow> if \<not> st_ok st then (s1, st) else (audio_do (Call_Play src) s1, success))"

definition onTransport :: "app_env \<Rightarrow> app_state \<Rightarrow> string \<Rightarrow> speaker \<Rightarrow> app_state \<times> status" where
  "onTransport v s action target =
     (if action = ''play'' then app_targets v s [(sp_host target, kDefaultPort)]
      else if action = ''pause'' then (audio_do Call_Pause s, success)
      else if action = ''resume'' then (audio_do Call_Resume s, success)
      else if action = ''stop'' then (audio_do Call_Stop s, success)
      else (s, mk_error Ec_InvalidArg (''unknown transport action: '' @ action)))"

text \<open>\<open>START_AUDIO\<close> to every member; False when a send throws, which ends the loop.\<close>

fun start_members :: "app_env \<Rightarrow> app_state \<Rightarrow> speaker list \<Rightarrow> app_state \<times> bool" where
  "start_members v s [] = (s, True)"
| "start_members v s (sp # sps) =
     (case app_send v s sp ''START_AUDIO'' (JObj []) of
        (s1, None) \<Rightarrow> (s1, False)
      | (s1, Some _) \<Rightarrow> start_members v s1 sps)"

definition playZone :: "app_env \<Rightarrow> app_state \<Rightarrow> string \<Rightarrow> string \<times> string \<Rightarrow> app_state \<times> status option" where
  "playZone v s i spec =
     (case rt_zones s of
        None \<Rightarrow> (s, Some (mk_error Ec_InvalidArg ''zones not available''))
      | Some m \<Rightarrow>
          (case resolveTargets (rt_registry s) (Some (aw_store (rt_world s))) m i of
             Inl st \<Rightarrow> (s, Some st)
           | Inr es \<Rightarrow>
               if es = [] then (s, Some (mk_error Ec_NotFound ''zone has no reachable speakers''))
               else case makeSource (ap_sources v (rt_world s)) spec of
                 Inl st \<Rightarrow> (s, Some st)
               | Inr src \<Rightarrow>
                   (case start_members v s (zone_members (rt_registry s) m i) of
                      (s1, False) \<Rightarrow> (s1, None)
                    | (s1, True) \<Rightarrow> (case playTo v s1 es src of (s2, st) \<Rightarrow> (s2, Some st)))))"

definition retargetZone :: "app_env \<Rightarrow> app_state \<Rightarrow> string \<Rightarrow> app_state \<times> status option" where
  "retargetZone v s i =
     (case rt_zones s of
        None \<Rightarrow> (s, Some (mk_error Ec_InvalidArg ''zones not available''))
      | Some m \<Rightarrow>
          (case resolveTargets (rt_registry s) (Some (aw_store (rt_world s))) m i of
             Inl st \<Rightarrow> (s, Some st)
           | Inr es \<Rightarrow>
               (case app_targets v s es of
                  (s1, st) \<Rightarrow>
                    if \<not> st_ok st then (s1, Some st)
                    else (case start_members v s1 (zone_members (rt_registry s1) m i) of
                            (s2, False) \<Rightarrow> (s2, None)
                          | (s2, True) \<Rightarrow> (s2, Some success)))))"

section \<open>DSP and levels\<close>

definition app_dsp_set :: "app_env \<Rightarrow> app_state \<Rightarrow> json \<Rightarrow> app_state \<times> json option" where
  "app_dsp_set v s patch =
     (case dsp_set (ap_json v) (aw_dsp (rt_world s)) patch of (d, r) \<Rightarrow> (upd (\<lambda>w. w\<lparr>aw_dsp := d\<rparr>) s, r))"

definition app_levels :: "app_state \<Rightarrow> json" where
  "app_levels s =
     (let w = rt_world s in
      JObj [(''input'', pack_levels (aw_input w)), (''output'', pack_levels (aw_output w)),
        (''state'', JStr (case aw_transport w of Playing \<Rightarrow> ''playing'' | Paused \<Rightarrow> ''paused'' | Idle \<Rightarrow> ''idle'')),
        (''packets_sent'', JInt (int (aw_packets w))), (''targets'', JInt (int (aw_target_count w)))])"

section \<open>The wiring\<close>

text \<open>The proxy of \<open>/api/device\<close>: one request to the speaker's web interface.\<close>

definition app_http :: "app_env \<Rightarrow> app_state \<Rightarrow> speaker \<Rightarrow> string \<Rightarrow> string \<Rightarrow> string \<Rightarrow> app_state \<times> nat \<times> string" where
  "app_http v s target m path bd =
     (upd (\<lambda>w. w\<lparr>aw_http := aw_http w @ [(sp_device_id target, m, path)]\<rparr>) s, ap_http v (rt_world s) target m path bd)"

text \<open>The environment of the router, first without the onboarding closure, which reads bodies the way the router does.\<close>

definition app_base :: "app_env \<Rightarrow> app_world ui_env" where
  "app_base v = \<lparr>ui_json = ap_json v, ui_token = Some (ap_token v), ui_html = ap_html v, ui_send = app_send v,
     ui_pair = Some (app_pair v), ui_discover = None, ui_scan = Some (\<lambda>s. ap_scan_net v (rt_world s)),
     ui_ap_scan = Some (\<lambda>s. ap_scan_aps v (rt_world s)), ui_onboard = None, ui_transport = Some (onTransport v),
     ui_store = Some (\<lambda>s. aw_store (rt_world s)), ui_now = (\<lambda>s. ap_steady v (rt_world s)), ui_clock = (\<lambda>s. ap_now v (rt_world s)),
     ui_mac = Some (\<lambda>s. ap_mac v (rt_world s)), ui_http = Some (app_http v),
     ui_play_zone = Some (playZone v), ui_retarget = Some (retargetZone v), ui_persist = Some (app_persist v),
     ui_dsp_get = Some (\<lambda>s. master_to_json (ms_config (aw_dsp (rt_world s)))), ui_dsp_set = Some (app_dsp_set v),
     ui_levels = Some app_levels,
     ui_sources = (\<lambda>s. (availableKinds, map (\<lambda>d. (cd_id d, cd_name d, cd_loopback d)) (ap_devices v (rt_world s))))\<rparr>"

definition app_ui :: "app_env \<Rightarrow> app_world ui_env" where
  "app_ui v = (app_base v)\<lparr>ui_onboard := Some (app_onboard v (app_base v))\<rparr>"

definition request :: "app_env \<Rightarrow> app_state \<Rightarrow> http_request \<Rightarrow> app_state \<times> http_response option" where
  "request v = streamer_route (app_ui v)"

section \<open>What the injected functions keep\<close>

lemma upd_fields [simp]:
  "rt_registry (upd f s) = rt_registry s" "rt_zones (upd f s) = rt_zones s" "rt_window (upd f s) = rt_window s"
  "rt_world (upd f s) = f (rt_world s)"
  by (simp_all add: upd_def)

text \<open>The part of the state that the invariant of the router speaks of, and the record of commands.\<close>

definition own :: "app_state \<Rightarrow> registry \<times> zoneman option" where
  "own s = (rt_registry s, rt_zones s)"

abbreviation sent_log :: "app_state \<Rightarrow> sent_command list" where
  "sent_log s \<equiv> aw_sent (rt_world s)"

lemma app_send_frame:
  assumes "app_send v s t c p = (s1, r)"
  shows "own s1 = own s" "sent_log s1 = sent_log s @ [(sp_device_id t, c, p)]"
  using assms by (auto simp: app_send_def own_def Let_def split: prod.splits)

lemma persist_all_frame: "sa_registry (persist_all J env a) = sa_registry a" "sa_zoneman (persist_all J env a) = sa_zoneman a"
  by (simp_all add: persist_all_def split: option.split)

lemma app_persist_frame: "own (app_persist v s) = own s" "sent_log (app_persist v s) = sent_log s"
  by (simp_all add: app_persist_def of_app_def to_app_def own_def persist_all_frame)

lemma paired_registry:
  assumes "pairAndRegister L J env i net a h p hst nm = (a', r)"
  shows "sa_registry a' = sa_registry a \<or> (\<exists>sp. sa_registry a' = fst (upsert (sa_registry a) sp))"
  using assms by (auto simp: pairAndRegister_def Let_def persist_all_frame split: option.splits sum.splits if_splits)

lemma radio_fields [simp]:
  "rt_registry (radio b s) = rt_registry s" "rt_zones (radio b s) = rt_zones s" "sent_log (radio b s) = sent_log s"
  by (simp_all add: radio_def)

lemma app_onboard_frame:
  assumes "app_onboard v e s body = (s1, r)"
  shows "rt_zones s1 = rt_zones s" "sent_log s1 = sent_log s"
    "rt_registry s1 = rt_registry s \<or> (\<exists>sp. rt_registry s1 = fst (upsert (rt_registry s) sp))"
proof -
  let ?net = "\<lambda>h. ap_line v (rt_world (radio True s)) h 45455"
  let ?nm = "\<lambda>d. case str_of e body ''name'' d of None \<Rightarrow> d | Some nm \<Rightarrow> nm"
  have a: "rt_zones (of_app (radio True s) x) = rt_zones s" "sent_log (of_app (radio True s) x) = sent_log s"
    "rt_registry (of_app (radio True s) x) = sa_registry x" for x by (simp_all add: of_app_def)
  have p: "sa_registry a = rt_registry s \<or> (\<exists>sp. sa_registry a = fst (upsert (rt_registry s) sp))"
    if "pairAndRegister (ap_seal v) (ap_json v) (ap_cfg v) (ap_id v) ?net (to_app (radio True s)) h pr [] ?nm = (a, x)" for h pr a x
    using paired_registry [OF that] by (simp add: to_app_def)
  show "rt_zones s1 = rt_zones s" "sent_log s1 = sent_log s"
    using assms a by (auto simp: app_onboard_def Let_def split: option.splits prod.splits sum.splits if_splits)
  show "rt_registry s1 = rt_registry s \<or> (\<exists>sp. rt_registry s1 = fst (upsert (rt_registry s) sp))"
    using assms
    by (auto simp: app_onboard_def Let_def a(3) dest!: p split: option.splits prod.splits sum.splits if_splits)
qed

lemma app_targets_frame: "app_targets v s es = (s1, st) \<Longrightarrow> own s1 = own s \<and> sent_log s1 = sent_log s"
  by (auto simp: app_targets_def own_def split: prod.splits)

lemma audio_do_frame [simp]: "own (audio_do c s) = own s" "sent_log (audio_do c s) = sent_log s"
  by (simp_all add: audio_do_def own_def)

lemma playTo_frame: "playTo v s es src = (s1, st) \<Longrightarrow> own s1 = own s \<and> sent_log s1 = sent_log s"
  by (auto simp: playTo_def dest: app_targets_frame split: prod.splits if_splits)

lemma onTransport_frame: "onTransport v s a t = (s1, st) \<Longrightarrow> own s1 = own s \<and> sent_log s1 = sent_log s"
  by (auto simp: onTransport_def dest: app_targets_frame split: if_splits)

definition starts_only :: "app_state \<Rightarrow> app_state \<Rightarrow> bool" where
  "starts_only s s1 \<longleftrightarrow> own s1 = own s \<and> adds sent_log (\<lambda>c. c = ''START_AUDIO'') s s1"

lemma starts_only_refl: "own s1 = own s \<Longrightarrow> sent_log s1 = sent_log s \<Longrightarrow> starts_only s s1"
  by (simp add: starts_only_def adds_same)

lemma starts_only_trans: "starts_only s s1 \<Longrightarrow> starts_only s1 s2 \<Longrightarrow> starts_only s s2"
  by (auto simp: starts_only_def intro: adds_trans)

lemma start_members_frame: "start_members v s sps = (s1, ok) \<Longrightarrow> starts_only s s1"
proof (induction sps arbitrary: s)
  case (Cons sp sps)
  obtain s2 r where a: "app_send v s sp ''START_AUDIO'' (JObj []) = (s2, r)" by force
  have "starts_only s s2" using app_send_frame [OF a] by (simp add: starts_only_def adds_def)
  then show ?case using Cons a by (cases r) (auto intro: starts_only_trans)
qed (simp add: starts_only_refl)

lemma playZone_frame: "playZone v s i spec = (s1, st) \<Longrightarrow> starts_only s s1"
  by (auto simp: playZone_def intro: starts_only_refl starts_only_trans dest!: start_members_frame playTo_frame
      split: option.splits sum.splits if_splits prod.splits bool.splits)

lemma retargetZone_frame: "retargetZone v s i = (s1, st) \<Longrightarrow> starts_only s s1"
  by (auto simp: retargetZone_def intro: starts_only_refl starts_only_trans dest!: start_members_frame app_targets_frame
      split: option.splits sum.splits if_splits prod.splits bool.splits)

lemma app_dsp_frame: "app_dsp_set v s b = (s1, r) \<Longrightarrow> own s1 = own s \<and> sent_log s1 = sent_log s"
  by (auto simp: app_dsp_set_def own_def split: prod.splits)

lemma app_ui_fields [simp]:
  "ui_send (app_ui v) = app_send v" "ui_pair (app_ui v) = Some (app_pair v)" "ui_onboard (app_ui v) = Some (app_onboard v (app_base v))"
  "ui_transport (app_ui v) = Some (onTransport v)" "ui_http (app_ui v) = Some (app_http v)"
  "ui_persist (app_ui v) = Some (app_persist v)" "ui_dsp_set (app_ui v) = Some (app_dsp_set v)"
  "ui_play_zone (app_ui v) = Some (playZone v)" "ui_retarget (app_ui v) = Some (retargetZone v)" "ui_json (app_ui v) = ap_json v"
  "ui_token (app_ui v) = Some (ap_token v)"
  by (simp_all add: app_ui_def app_base_def)

interpretation app_log: command_log "app_ui v" sent_log for v
  by unfold_locales
    (auto simp: app_pair_def app_persist_frame starts_only_def app_http_def
      dest: app_send_frame(2) app_onboard_frame(2) onTransport_frame app_dsp_frame playZone_frame retargetZone_frame)

text \<open>The requests the proxy has forwarded change only through the route \<open>/api/device\<close>.\<close>

abbreviation proxied :: "app_state \<Rightarrow> (string \<times> string \<times> string) list" where
  "proxied s \<equiv> aw_http (rt_world s)"

lemma start_members_proxied: "proxied (fst (start_members v s sps)) = proxied s"
proof (induction sps arbitrary: s)
  case (Cons sp sps)
  obtain s1 r where a: "app_send v s sp ''START_AUDIO'' (JObj []) = (s1, r)" by force
  have "proxied s1 = proxied s" using a by (auto simp: app_send_def Let_def split: prod.splits)
  with Cons.IH [of s1] a show ?case by (cases r) simp_all
qed simp

lemma proxied_frame:
  "proxied (fst (app_send v s t c p)) = proxied s" "proxied (fst (app_onboard v e s b)) = proxied s"
  "proxied (fst (app_targets v s es)) = proxied s" "proxied (fst (playTo v s es src)) = proxied s"
  "proxied (fst (onTransport v s a t)) = proxied s" "proxied (app_persist v s) = proxied s"
  "proxied (fst (app_dsp_set v s b)) = proxied s"
proof -
  show t: "proxied (fst (app_targets v s es)) = proxied s" for es by (simp add: app_targets_def split: prod.split)
  show "proxied (fst (playTo v s es src)) = proxied s"
    using t [of es] by (auto simp: playTo_def audio_do_def split: prod.split)
  show "proxied (fst (onTransport v s a t)) = proxied s" using t by (simp add: onTransport_def audio_do_def)
  show "proxied (fst (app_onboard v e s b)) = proxied s"
    by (auto simp: app_onboard_def of_app_def radio_def Let_def split: option.split prod.split sum.split)
qed (simp_all add: app_send_def Let_def app_persist_def of_app_def app_dsp_set_def split: prod.split)

lemma proxied_zones: "proxied (fst (playZone v s i spec)) = proxied s" "proxied (fst (retargetZone v s i)) = proxied s"
proof -
  have m: "start_members v s sps = (s1, b) \<Longrightarrow> proxied s1 = proxied s" for s s1 sps b using start_members_proxied [of v s sps] by simp
  have p: "playTo v s es src = (s1, st) \<Longrightarrow> proxied s1 = proxied s" for s s1 es src st using proxied_frame(4) [of v s es src] by simp
  have a: "app_targets v s es = (s1, st) \<Longrightarrow> proxied s1 = proxied s" for s s1 es st using proxied_frame(3) [of v s es] by simp
  show "proxied (fst (playZone v s i spec)) = proxied s"
    by (auto simp: playZone_def dest!: m p split: option.split sum.split prod.split bool.split)
  show "proxied (fst (retargetZone v s i)) = proxied s"
    by (auto simp: retargetZone_def dest!: m a split: option.split sum.split prod.split bool.split)
qed

interpretation app_proxy: router_relation "app_ui v" "\<lambda>P s s'. proxied s' = proxied s \<or> P kProxy" for v
  by unfold_locales
    (use proxied_frame proxied_zones in \<open>auto simp: app_pair_def with_zones_def\<close>, (metis fst_conv proxied_frame proxied_zones)+)

text \<open>The route forwards at most one request: to the speaker, with the method and with the path its body names.\<close>

lemma device_proxied:
  "proxied (fst (post_device (app_ui v) s body)) = proxied s \<or>
   (\<exists>d m path sp. str_of (app_ui v) body ''speaker'' [] = Some d \<and> get_speaker (rt_registry s) d = Some sp \<and>
      str_of (app_ui v) body ''method'' ''GET'' = Some m \<and> str_of (app_ui v) body ''path'' [] = Some path \<and> starts ''/api/'' path \<and>
      proxied (fst (post_device (app_ui v) s body)) = proxied s @ [(sp_device_id sp, m, path)])"
  by (auto simp: post_device_def rd_def unknown_speaker_def app_http_def Let_def split: option.split prod.split)

lemma request_proxied:
  assumes "proxied (fst (request v s q)) \<noteq> proxied s"
  shows "hq_path q = ''/api/device'' \<and> (\<exists>body. post_body (ap_json v) q = Some body \<and> fst (request v s q) = fst (post_device (app_ui v) s body))"
proof -
  obtain body where b: "post_body (ap_json v) q = Some body" "permits (app_ui v) (hq_path q) body kProxy"
    using app_proxy.R_request [of v s q] assms by (auto simp: request_def)
  then have p: "hq_path q = ''/api/device''" by (simp add: permits_def)
  have "post_routes (app_ui v) s ''/api/device'' body = post_device (app_ui v) s body" by (simp add: post_routes_def starts_def)
  with b p assms show ?thesis by (auto simp: request_def streamer_route_def streamer_post_def get_changes_nothing split: if_splits)
qed


text \<open>So a speaker is rebooted through the proxy without a confirmation.\<close>

lemma proxy_reboot_unconfirmed:
  assumes "getters_exact (ap_json v)" "get_speaker (rt_registry s) d = Some sp" "d \<noteq> []"
    and "body = JObj [(''speaker'', JStr d), (''method'', JStr ''POST''), (''path'', JStr ''/api/system/reboot'')]"
  shows "proxied (fst (post_routes (app_ui v) s ''/api/device'' body)) = proxied s @ [(sp_device_id sp, ''POST'', ''/api/system/reboot'')] \<and>
    \<not> confirms_it (app_ui v) body"
proof -
  have "post_routes (app_ui v) s ''/api/device'' body = post_device (app_ui v) s body" by (simp add: post_routes_def starts_def)
  then show ?thesis
    using assms by (simp add: post_device_def rd_def str_of_def confirms_it_def app_http_def starts_def Let_def split: prod.split)
qed

interpretation app_inv: router_relation "app_ui v" "\<lambda>P s s'. ui_inv s \<longrightarrow> ui_inv s'" for v
proof
  have own: "ui_inv s1 = ui_inv s" if "own s1 = own s" for s s1 :: app_state using that by (simp add: own_def ui_inv_def)
  show "ui_inv s \<longrightarrow> ui_inv s1" if "ui_send (app_ui v) s t c p = (s1, r)" for s t c p s1 r
    using own [of s1 s] app_send_frame(1) that by simp
  show "ui_inv s \<longrightarrow> ui_inv s1" if "ui_onboard (app_ui v) = Some f2" "f2 s b = (s1, r2)" for f2 s b s1 r2
  proof -
    have "app_onboard v (app_base v) s b = (s1, r2)" using that by simp
    from app_onboard_frame [OF this] show ?thesis using upsert_inv by (auto simp: ui_inv_def)
  qed
  show "ui_inv s \<longrightarrow> ui_inv s1" if "ui_transport (app_ui v) = Some f3" "f3 s a t = (s1, r3)" for f3 s a t s1 r3
    using own [of s1 s] onTransport_frame that by auto
  show "ui_inv s \<longrightarrow> ui_inv (f5 s)" if "ui_persist (app_ui v) = Some f5" for f5 s
    using own [of "app_persist v s" s] app_persist_frame that by auto
  show "ui_inv s \<longrightarrow> ui_inv s1" if "ui_dsp_set (app_ui v) = Some f6" "f6 s b = (s1, r6)" for f6 s b s1 r6
    using own [of s1 s] app_dsp_frame that by auto
  show "ui_inv s \<longrightarrow> ui_inv s1" if "ui_play_zone (app_ui v) = Some f7" "f7 s i sp = (s1, r7)" for f7 s i sp s1 r7
    using own [of s1 s] playZone_frame [of v s i sp s1 r7] that by (auto simp: starts_only_def)
  show "ui_inv s \<longrightarrow> ui_inv s1" if "ui_retarget (app_ui v) = Some f8" "f8 s i = (s1, r8)" for f8 s i s1 r8
    using own [of s1 s] retargetZone_frame [of v s i s1 r8] that by (auto simp: starts_only_def)
qed (auto simp: ui_inv_def app_pair_def app_http_def with_zones_def upsert_inv remove_inv zone_step_inv)

interpretation app_run: invariant_system "\<lambda>s q. fst (request v s q)" ui_inv for v
  using app_inv.R_request by unfold_locales (simp add: request_def)

text \<open>No request corrupts the registry or the zones: after any sequence of requests, authorised or not, identifiers
  are unique and no speaker is in two zones.\<close>

theorem requests_keep_zones_disjoint:
  assumes "ui_inv s"
  shows "ui_inv (foldl (\<lambda>s q. fst (request v s q)) s qs)"
  by (rule app_run.run_inv [OF assms])

section \<open>Playing a zone\<close>

lemma start_members_all:
  "start_members v s sps = (s1, True) \<Longrightarrow>
   sent_log s1 = sent_log s @ map (\<lambda>sp. (sp_device_id sp, ''START_AUDIO'', JObj [])) sps \<and>
   aw_sink (rt_world s1) = aw_sink (rt_world s) \<and> aw_calls (rt_world s1) = aw_calls (rt_world s)"
proof (induction sps arbitrary: s)
  case (Cons sp sps)
  obtain s2 r where a: "app_send v s sp ''START_AUDIO'' (JObj []) = (s2, r)" by force
  have "aw_sink (rt_world s2) = aw_sink (rt_world s) \<and> aw_calls (rt_world s2) = aw_calls (rt_world s)"
    using a by (auto simp: app_send_def Let_def split: prod.splits)
  then show ?case using Cons a app_send_frame(2) [OF a] by (cases r) auto
qed simp

text \<open>The members of a zone that may be online: those the store does not know, and those it has last seen online.\<close>

definition may_be_online :: "app_state \<Rightarrow> speaker \<Rightarrow> bool" where
  "may_be_online s sp = (case aw_store (rt_world s) (sp_device_id sp) of None \<Rightarrow> True | Some x \<Rightarrow> ss_online x)"

lemma zone_members_filter:
  "get_zone m i = Some z \<Longrightarrow> zone_members r m i = List.map_filter (get_speaker r) (z_members z)"
proof -
  have "concat (map (\<lambda>d. case get_speaker r d of None \<Rightarrow> [] | Some sp \<Rightarrow> [sp]) ds) = List.map_filter (get_speaker r) ds" for ds
    by (induction ds) (simp_all add: List.map_filter_def split: option.split)
  then show "get_zone m i = Some z \<Longrightarrow> ?thesis" by (simp add: zone_members_def)
qed

lemma resolve_zone:
  "resolveTargets (rt_registry s) (Some (aw_store (rt_world s))) m i =
     (case get_zone m i of
        None \<Rightarrow> Inl (unknown_zone i)
      | Some z \<Rightarrow> Inr (map (\<lambda>sp. (sp_host sp, kDefaultPort))
          (filter (may_be_online s) (List.map_filter (get_speaker (rt_registry s)) (z_members z)))))"
proof -
  have "(\<lambda>sp. \<not> known_offline (Some (aw_store (rt_world s))) (sp_device_id sp)) = may_be_online s"
    by (rule ext) (simp add: known_offline_def may_be_online_def split: option.split)
  then show ?thesis
    using targets_are_live_members [of m i _ "rt_registry s" "Some (aw_store (rt_world s))"] zone_members_filter [of m i _ "rt_registry s"]
    by (cases "get_zone m i") (simp_all add: resolveTargets_def)
qed

text \<open>What \<open>playTo\<close> does after the members have been started.\<close>

lemma playTo_cases:
  assumes "playTo v s es src = (s1, st)"
  shows "sent_log s1 = sent_log s"
    "st_ok st \<Longrightarrow> map (\<lambda>t. (ut_host t, ut_port t)) (uk_targets (aw_sink (rt_world s1))) = es \<and>
       aw_calls (rt_world s1) = aw_calls (rt_world s) @ [Call_Play src]"
    "\<not> st_ok st \<Longrightarrow> s1 = s \<and> (\<exists>(h, p)\<in>set es. ap_resolve v (rt_world s) h = None)"
proof -
  show "sent_log s1 = sent_log s" using playTo_frame [OF assms] by simp
  note r = resolve_all_ok [of "ap_resolve v (rt_world s)" es] resolve_all_error [of "ap_resolve v (rt_world s)" es]
    resolve_all_fails [of "ap_resolve v (rt_world s)" es]
  show "st_ok st \<Longrightarrow> map (\<lambda>t. (ut_host t, ut_port t)) (uk_targets (aw_sink (rt_world s1))) = es \<and>
       aw_calls (rt_world s1) = aw_calls (rt_world s) @ [Call_Play src]"
    using assms r by (auto simp: playTo_def app_targets_def setTargets_def audio_do_def split: sum.splits if_splits)
  have id: "upd (\<lambda>w. w\<lparr>aw_sink := aw_sink (rt_world s), aw_target_count := aw_target_count w\<rparr>) s = s" by (simp add: upd_def)
  show "\<not> st_ok st \<Longrightarrow> s1 = s \<and> (\<exists>(h, p)\<in>set es. ap_resolve v (rt_world s) h = None)"
    using assms r id by (auto simp: playTo_def app_targets_def setTargets_def split: sum.splits if_splits)
qed

text \<open>C34. Playing a zone does what it says. Take the registered members of the zone, in its order, and among them those that are not
  known to be offline. If the zone is unknown, if no member is left or if the source cannot be made, it is refused: nothing
  changes, no command is sent and the engine is left alone. Otherwise every registered member has been told to
  start, in order, and if it then succeeds, the fan-out set is exactly the audio ports of the members not known to be
  offline and the engine has been given the source the request names. It still fails when the address of one of
  these cannot be resolved: then the fan-out set and the engine are as they were. All this is for a request that is answered;
  one whose sending throws has no status.\<close>

theorem play_zone_reaches_members:
  assumes "playZone v s i spec = (s1, Some st)" "rt_zones s = Some m"
  shows "let sps = (case get_zone m i of None \<Rightarrow> [] | Some z \<Rightarrow> List.map_filter (get_speaker (rt_registry s)) (z_members z));
             live = filter (may_be_online s) sps;
             w = rt_world s; w1 = rt_world s1
         in (live = [] \<or> (\<exists>e. makeSource (ap_sources v w) spec = Inl e) \<longrightarrow> s1 = s \<and> \<not> st_ok st) \<and>
            (live \<noteq> [] \<longrightarrow> (\<forall>src. makeSource (ap_sources v w) spec = Inr src \<longrightarrow>
               aw_sent w1 = aw_sent w @ map (\<lambda>sp. (sp_device_id sp, ''START_AUDIO'', JObj [])) sps \<and>
               (if st_ok st
                then map (\<lambda>t. (ut_host t, ut_port t)) (uk_targets (aw_sink w1)) = map (\<lambda>sp. (sp_host sp, kDefaultPort)) live \<and>
                     aw_calls w1 = aw_calls w @ [Call_Play src]
                else aw_sink w1 = aw_sink w \<and> aw_calls w1 = aw_calls w \<and> (\<exists>sp\<in>set live. ap_resolve v w1 (sp_host sp) = None))))"
proof (cases "get_zone m i")
  case None
  then show ?thesis using assms resolve_zone [of s m i] by (auto simp: playZone_def unknown_zone_def)
next
  case (Some z)
  let ?sps = "List.map_filter (get_speaker (rt_registry s)) (z_members z)"
  let ?live = "filter (may_be_online s) ?sps"
  let ?es = "map (\<lambda>sp. (sp_host sp, kDefaultPort)) ?live"
  have mem: "zone_members (rt_registry s) m i = ?sps" using zone_members_filter [OF Some] .
  have r: "resolveTargets (rt_registry s) (Some (aw_store (rt_world s))) m i = Inr ?es" using Some by (simp add: resolve_zone)
  show ?thesis
  proof (cases "?live = []")
    case True
    then show ?thesis using r Some assms by (auto simp: playZone_def simp del: filter_empty_conv)
  next
    case False
    show ?thesis
    proof (cases "makeSource (ap_sources v (rt_world s)) spec")
      case (Inl err)
      moreover have "\<not> st_ok err"
        using Inl by (auto simp: makeSource_def spawn_def Let_def split: prod.splits if_splits sum.splits)
      ultimately show ?thesis using r Some False assms by (simp add: playZone_def Let_def split: if_splits)
    next
      case (Inr src)
      obtain s2 b where sm: "start_members v s ?sps = (s2, b)" by force
      have pz: "playZone v s i spec = (if b then case playTo v s2 ?es src of (s3, st) \<Rightarrow> (s3, Some st) else (s2, None))"
        using r False Inr assms(2) sm mem by (simp add: playZone_def split: bool.split)
      then have b: b using assms(1) by (cases b) auto
      then have pt: "playTo v s2 ?es src = (s1, st)" using pz assms(1) by (simp split: prod.splits)
      note f = start_members_all [of v s ?sps s2, OF sm [unfolded eqTrueI [OF b]]]
      note c = playTo_cases [OF pt]
      have "\<exists>sp\<in>set ?live. ap_resolve v (rt_world s1) (sp_host sp) = None" if "\<not> st_ok st" using c(3) [OF that] by auto
      then show ?thesis using f c(1) c(2) c(3) Inr Some False by (simp add: Let_def del: filter_empty_conv)
    qed
  qed
qed

section \<open>A concrete process\<close>

definition demo_av :: app_env where
  "demo_av = \<lparr>ap_json = demo_lib [] (JObj []), ap_sign = (\<lambda>_. Inr ''sig''),
     ap_seal = \<lparr>sl_fromBase64 = (\<lambda>x. Inr x), sl_toBase64 = (\<lambda>x. x), sl_sealTo = (\<lambda>k m. Inr m), sl_sign = (\<lambda>m k. Inr m)\<rparr>,
     ap_id = \<lparr>si_streamer_id = ''STR-1'', si_public_key = ''pk'', si_secret_key = ''sk''\<rparr>, ap_cfg = cfg_env_fine, ap_token = ''tok'', ap_html = [],
     ap_threshold = 3, ap_line = (\<lambda>_ _ _ _. Inl (mk_error Ec_IoError ''down'')), ap_now_ms = (\<lambda>_. 0), ap_now = (\<lambda>_. 0), ap_steady = (\<lambda>_. 1),
     ap_salt = (\<lambda>_. 0), ap_resolve = (\<lambda>_ h. if h = ''10.0.0.5'' then Some 1 else None), ap_sources = (\<lambda>_. demo_sources), ap_devices = (\<lambda>_. []),
     ap_join = (\<lambda>_ _. success), ap_gw = (\<lambda>_. ''10.42.0.1''), ap_scan_net = (\<lambda>_. JArr []), ap_scan_aps = (\<lambda>_. JArr []),
     ap_http = (\<lambda>_ _ _ _ _. (0, [])), ap_mac = (\<lambda>_ _. [])\<rparr>"

definition demo_world :: app_world where
  "demo_world = \<lparr>aw_gateway = \<lparr>gw_streamer_id = ''STR-1'', gw_counter = 0\<rparr>, aw_store = (\<lambda>_. None), aw_events = [], aw_cfg = None,
     aw_dsp = master_new 48000 2, aw_sink = \<lparr>uk_open = True, uk_targets = []\<rparr>, aw_target_count = 0, aw_calls = [], aw_radio = False, aw_sent = [], aw_http = [],
     aw_input = levels_new, aw_output = levels_new, aw_transport = Idle, aw_packets = 0\<rparr>"

definition demo_zoneman :: zoneman where
  "demo_zoneman = \<lparr>zm_zones = [\<lparr>z_id = ''zone-1'', z_name = ''Home'', z_members = [''SPK-1'']\<rparr>], zm_next = 2\<rparr>"

definition demo_as :: app_state where
  "demo_as = \<lparr>rt_registry = demo_speakers, rt_zones = Some demo_zoneman, rt_window = None, rt_world = demo_world\<rparr>"

theorem requests_keep_zones_disjoint_witness:
  "ui_inv (foldl (\<lambda>s q. fst (request demo_av s q)) demo_as [demo_get ''/api/zones'' []])"
  by (rule requests_keep_zones_disjoint)
    (simp add: ui_inv_def demo_as_def demo_speakers_def demo_zoneman_def registry_inv_def zones_inv_def)

theorem play_zone_reaches_members_witness:
  "let w = rt_world (fst (playZone demo_av demo_as ''zone-1'' (''stdin'', []))) in
     aw_sent w = [(''SPK-1'', ''START_AUDIO'', JObj [])] \<and> aw_calls w = [Call_Play Stdin_Source] \<and>
     map (\<lambda>t. (ut_host t, ut_port t)) (uk_targets (aw_sink w)) = [(''10.0.0.5'', kDefaultPort)]"
proof -
  let ?r = "playZone demo_av demo_as ''zone-1'' (''stdin'', [])"
  have r: "resolveTargets demo_speakers (Some (\<lambda>_. None)) demo_zoneman ''zone-1'' = Inr [(''10.0.0.5'', kDefaultPort)]"
    "zone_members demo_speakers demo_zoneman ''zone-1'' = demo_speakers"
    by (simp_all add: resolveTargets_def zone_members_def get_zone_def demo_zoneman_def demo_speakers_def known_offline_def)
  obtain s2 x where a: "app_send demo_av demo_as (hd demo_speakers) ''START_AUDIO'' (JObj []) = (s2, x)" by force
  have x: "x \<noteq> None"
    using a by (auto simp: app_send_def demo_av_def demo_as_def demo_world_def dispatch_def client_send_def build_def nextCommandId_def Let_def
        split: prod.splits option.splits sum.splits)
  have z: "rt_zones demo_as = Some demo_zoneman" "rt_registry demo_as = demo_speakers" "aw_store (rt_world demo_as) = (\<lambda>_. None)" "sent_log demo_as = []"
    by (simp_all add: demo_as_def demo_world_def)
  have "start_members demo_av demo_as demo_speakers = (s2, True)" using a x by (auto simp: demo_speakers_def)
  moreover have "st_ok (snd (playTo demo_av s2 [(''10.0.0.5'', kDefaultPort)] Stdin_Source))"
    by (simp add: playTo_def app_targets_def setTargets_def resolveIpv4_def demo_av_def split: prod.split)
  moreover obtain s1 st where pt: "playTo demo_av s2 [(''10.0.0.5'', kDefaultPort)] Stdin_Source = (s1, st)" by force
  ultimately have p: "?r = (s1, Some st)" "st_ok st"
    using z r by (simp_all add: playZone_def makeSource_def)
  have "List.map_filter (get_speaker demo_speakers) [''SPK-1''] = demo_speakers" "get_zone demo_zoneman ''zone-1'' = Some \<lparr>z_id = ''zone-1'', z_name = ''Home'', z_members = [''SPK-1'']\<rparr>"
    "filter (may_be_online demo_as) demo_speakers = demo_speakers" "aw_calls (rt_world demo_as) = []"
    "makeSource (ap_sources demo_av (rt_world demo_as)) (''stdin'', []) = Inr Stdin_Source"
    by (simp_all add: List.map_filter_def demo_speakers_def get_zone_def demo_zoneman_def may_be_online_def demo_as_def demo_world_def makeSource_def)
  with play_zone_reaches_members [OF p(1) z(1)] p z show ?thesis by (simp add: Let_def demo_speakers_def)
qed

section \<open>Onboarding\<close>

lemma base_str_of: "str_of (app_base v) = str_of (app_ui v)"
  by (simp add: str_of_def fun_eq_iff app_base_def)

text \<open>The speaker accepts no request without a setup code, and stays as it was.\<close>

lemma no_code_is_refused:
  assumes "rq_setup_code r = []" "processRequest x s r now = (s', evs, res)"
  shows "s' = s \<and> (\<exists>st. res = Inl st)"
  using assms(2) by (cases rule: processRequest_cases) (use assms(1) in \<open>auto simp: validate_request_ok_iff\<close>)

text \<open>The onboarding of several speakers passes on neither a setup code nor a box key: the request it builds has
  neither, so every speaker refuses it.\<close>

lemma bulk_onboarding_is_refused:
  assumes "getters_exact (ap_json v)" "pair_params (app_base v) (bulk_request sp ssid (JStr w) psk) ssid = Some p"
    and "processRequest x sk (request_of (own_params i p) sealed) now = (sk', evs, res)"
  shows "sk' = sk \<and> (\<exists>st. res = Inl st) \<and> pp_speaker_box_public_key p = []"
proof -
  have "pp_setup_code p = [] \<and> pp_speaker_box_public_key p = []"
    using assms(1,2) by (auto simp: pair_params_def bulk_request_def str_of_def app_base_def split: bind_splits option.splits)
  then show ?thesis using no_code_is_refused [OF _ assms(3)] by (simp add: request_of_def own_params_def)
qed

text \<open>A body that throws after the join leaves the radio on the setup network.\<close>

lemma onboarding_strands_radio:
  assumes "getters_exact (ap_json v)" "body = JObj [(''ssid'', JStr ssid), (''wifi_ssid'', JStr w), (''site_id'', JNull)]"
    and "jl_get_string (ap_json v) JNull = None" "st_ok (ap_join v (rt_world s) ssid)" "ap_gw v (rt_world (radio True s)) \<noteq> []"
  shows "app_onboard v (app_base v) s body = (radio True s, None) \<and> aw_radio (rt_world (radio True s))"
  using assms by (simp add: app_onboard_def str_of_def app_base_def pair_params_def Let_def radio_def)

text \<open>When the closure returns, the radio is free again.\<close>

lemma onboarding_frees_radio:
  assumes "app_onboard v e s body = (s1, Some j)"
  shows "\<not> aw_radio (rt_world s1)"
proof -
  have r: "\<not> aw_radio (rt_world (radio False x))" for x by (simp add: radio_def)
  show ?thesis using assms r by (auto simp: app_onboard_def Let_def split: option.splits prod.splits sum.splits if_splits)
qed

text \<open>A speaker that was onboarded over its setup network is registered without an address.\<close>

lemma onboarded_without_host:
  assumes "pairAndRegister L J env i net a h p [] nm = (a', Some (Inr r))" "pl_ok r"
  shows "map_option sp_host (get_speaker (sa_registry a') (pl_device_id r)) = Some []"
  using assms by (auto simp: pairAndRegister_def Let_def persist_all_frame upsert_get split: option.splits sum.splits if_splits)

end
