(* ===== verification/Network_Scan.thy ===== *)
theory Network_Scan
  imports Network Source_Factory "HOL-Library.Multiset"
begin

text \<open>
  How the Streamer finds speakers on the air and on the wire: the subnet sweep with its pool of worker threads
  (\<open>discovery/NetworkScanner.cpp\<close>), the reading of \<open>nmcli\<close>'s list of access points and of the neighbour table
  (\<open>discovery/ApScanner.cpp\<close>), the temporary join of a setup access point (\<open>discovery/ApJoiner.cpp\<close>) and the
  radio's signal strength (\<open>net/WifiSignal.cpp\<close>). The HTTP answers, the exit codes and outputs of shell commands and the
  content of \<open>/proc/net/wireless\<close> are parameters. The worker threads take their atomic sections in the order a schedule gives.
\<close>

section \<open>Reading numbers\<close>

definition is_blank :: "char \<Rightarrow> bool" where
  "is_blank c \<longleftrightarrow> c = CHR '' '' \<or> (9 \<le> (of_char c :: nat) \<and> (of_char c :: nat) \<le> 13)"

definition dec_digit :: "char \<Rightarrow> bool" where
  "dec_digit c \<longleftrightarrow> 48 \<le> (of_char c :: nat) \<and> (of_char c :: nat) \<le> 57"

text \<open>\<open>std::stoi\<close>: blanks, a sign, digits up to the first other character; None when it throws.\<close>

definition cpp_stoi :: "string \<Rightarrow> int option" where
  "cpp_stoi s =
     (let t = dropWhile is_blank s;
          neg = (t \<noteq> [] \<and> hd t = CHR ''-'');
          u = (if t \<noteq> [] \<and> (hd t = CHR ''-'' \<or> hd t = CHR ''+'') then tl t else t);
          ds = takeWhile dec_digit u;
          v = (if neg then - int (read_nat ds) else int (read_nat ds))
      in if ds = [] \<or> v < - (2 ^ 31) \<or> 2 ^ 31 \<le> v then None else Some v)"

section \<open>The subnet sweep\<close>

definition subnetBase :: "string \<Rightarrow> string" where
  "subnetBase cidr_or_ip = rev (dropWhile (\<lambda>c. c \<noteq> CHR ''.'') (rev (takeWhile (\<lambda>c. c \<noteq> CHR ''/'') cidr_or_ip)))"

record scanned_speaker =
  sc_ip :: string
  sc_device_id :: string
  sc_state :: string
  sc_software_version :: string
  sc_paired :: bool
  sc_setup_mode :: bool
  sc_box_public_key :: string

text \<open>\<open>probe\<close>: \<open>http\<close> is the answer of a host to \<open>GET /api/status\<close>, its status code and body, None when the request fails
  or times out. A parse or conversion that throws counts as no speaker.\<close>

definition probe :: "json_lib \<Rightarrow> (string \<Rightarrow> (int \<times> string) option) \<Rightarrow> string \<Rightarrow> scanned_speaker option" where
  "probe J http ip =
     (case http ip of
        None \<Rightarrow> None
      | Some (code, body) \<Rightarrow>
          if code \<noteq> 200 then None
          else do {
            j \<leftarrow> jl_parse J body;
            dev \<leftarrow> j_value (jl_get_string J) j ''device_id'' [];
            if dev = [] then None
            else do {
              st \<leftarrow> j_value (jl_get_string J) j ''state'' [];
              ver \<leftarrow> j_value (jl_get_string J) j ''software_version'' [];
              pd \<leftarrow> j_value (jl_get_bool J) j ''paired'' False;
              sm \<leftarrow> j_value (jl_get_bool J) j ''setup_mode'' False;
              key \<leftarrow> j_value (jl_get_string J) j ''box_public_key'' [];
              Some \<lparr>sc_ip = ip, sc_device_id = dev, sc_state = st, sc_software_version = ver, sc_paired = pd,
                    sc_setup_mode = sm, sc_box_public_key = key\<rparr>
            }
          })"

text \<open>A worker of the pool is about to take the next host, is probing one, or has returned. Its atomic sections are
  \<open>next.fetch_add(1)\<close> and the locked \<open>push_back\<close>.\<close>

datatype worker = Taking | Probing nat | Returned

record pool =
  po_next :: nat
  po_found :: "scanned_speaker list"
  po_workers :: "worker list"

definition pool_start :: "nat \<Rightarrow> pool" where
  "pool_start n = \<lparr>po_next = 1, po_found = [], po_workers = replicate n Taking\<rparr>"

definition pool_step :: "(nat \<Rightarrow> scanned_speaker option) \<Rightarrow> pool \<Rightarrow> nat \<Rightarrow> pool" where
  "pool_step answer p w =
     (if length (po_workers p) \<le> w then p
      else case po_workers p ! w of
        Taking \<Rightarrow>
          p\<lparr>po_next := po_next p + 1,
            po_workers := (po_workers p)[w := if 254 < po_next p then Returned else Probing (po_next p)]\<rparr>
      | Probing h \<Rightarrow>
          p\<lparr>po_found := po_found p @ (case answer h of None \<Rightarrow> [] | Some s \<Rightarrow> [s]),
            po_workers := (po_workers p)[w := Taking]\<rparr>
      | Returned \<Rightarrow> p)"

definition pool_finished :: "pool \<Rightarrow> bool" where
  "pool_finished p \<longleftrightarrow> list_all (\<lambda>k. k = Returned) (po_workers p)"

definition pool_size :: "int \<Rightarrow> nat" where
  "pool_size concurrency = (if concurrency < 1 then 1 else if 254 < concurrency then 254 else nat concurrency)"

text \<open>\<open>scanSubnet\<close> under a schedule: None while some thread has not returned, so that \<open>join\<close> still waits.\<close>

definition scanSubnet ::
  "json_lib \<Rightarrow> (string \<Rightarrow> (int \<times> string) option) \<Rightarrow> string \<Rightarrow> int \<Rightarrow> nat list \<Rightarrow> scanned_speaker list option" where
  "scanSubnet J http cidr_or_ip concurrency sched =
     (let base = subnetBase cidr_or_ip in
      if base = [] then Some []
      else
        (let p = foldl (pool_step (\<lambda>h. probe J http (base @ show_nat h))) (pool_start (pool_size concurrency)) sched
         in if pool_finished p then Some (po_found p) else None))"

text \<open>\<open>localSubnetOr\<close>, given the local address the system chooses for an outbound socket (None when a call fails).\<close>

definition localSubnetOr :: "string option \<Rightarrow> string \<Rightarrow> string" where
  "localSubnetOr local_ip fallback =
     (case local_ip of
        None \<Rightarrow> fallback
      | Some ip \<Rightarrow> if CHR ''.'' \<in> set ip then butlast (subnetBase ip) @ ''.0/24'' else fallback)"

section \<open>Access points\<close>

text \<open>\<open>splitTerse\<close> with the field being collected.\<close>

fun splitTerse :: "string \<Rightarrow> string \<Rightarrow> string list" where
  "splitTerse cur [] = [cur]"
| "splitTerse cur [c] = (if c = CHR '':'' then [cur, []] else [cur @ [c]])"
| "splitTerse cur (c # d # s) =
     (if c = CHR 92 then splitTerse (cur @ [d]) s
      else if c = CHR '':'' then cur # splitTerse [] (d # s)
      else splitTerse (cur @ [c]) (d # s))"

record scanned_ap =
  sa_ssid :: string
  sa_bssid :: string
  sa_signal :: int
  sa_secured :: bool

definition ap_of_line :: "string \<Rightarrow> string \<Rightarrow> scanned_ap option" where
  "ap_of_line pre line =
     (let f = splitTerse [] line in
      if line = [] \<or> length f < 4 then None
      else if f ! 0 = [] \<or> take (length pre) (f ! 0) \<noteq> pre then None
      else Some \<lparr>sa_ssid = f ! 0, sa_bssid = f ! 1,
                 sa_signal = (case cpp_stoi (f ! 2) of None \<Rightarrow> 0 | Some v \<Rightarrow> v),
                 sa_secured = (f ! 3 \<noteq> [])\<rparr>)"

text \<open>\<open>run\<close> is a parameter: the exit code of a command and what it prints.\<close>

definition ap_list_command :: "string \<Rightarrow> bool \<Rightarrow> string" where
  "ap_list_command iface rescan =
     ''nmcli -t -f SSID,BSSID,SIGNAL,SECURITY device wifi list ifname '' @ shq iface @
     (if rescan then '' --rescan yes'' else []) @ '' 2>/dev/null''"

definition scanAccessPoints :: "(string \<Rightarrow> int \<times> string) \<Rightarrow> string \<Rightarrow> string \<Rightarrow> bool \<Rightarrow> scanned_ap list" where
  "scanAccessPoints run iface ssid_prefix rescan =
     (case run (ap_list_command iface rescan) of
        (rc, out) \<Rightarrow> if rc \<noteq> 0 then [] else List.map_filter (ap_of_line ssid_prefix) (out_lines [] out))"

text \<open>The words of an output between separators; \<open>operator>>\<close> reads those between blanks.\<close>

fun words_by :: "(char \<Rightarrow> bool) \<Rightarrow> string \<Rightarrow> string \<Rightarrow> string list" where
  "words_by sep acc [] = (if acc = [] then [] else [acc])"
| "words_by sep acc (c # s) =
     (if sep c then (if acc = [] then words_by sep [] s else acc # words_by sep [] s) else words_by sep (acc @ [c]) s)"

fun mac_after :: "string \<Rightarrow> string list \<Rightarrow> string" where
  "mac_after prev [] = []"
| "mac_after prev (tok # ts) =
     (if (prev = ''lladdr'' \<or> prev = ''at'') \<and> CHR '':'' \<in> set tok then tok else mac_after tok ts)"

definition ipv4_shape :: "string \<Rightarrow> bool" where
  "ipv4_shape ip \<longleftrightarrow>
     ip \<noteq> [] \<and> list_all (\<lambda>c. c = CHR ''.'' \<or> dec_digit c) ip \<and> count_list ip (CHR ''.'') = 3"

definition neigh_command :: "string \<Rightarrow> string" where
  "neigh_command ip = ''ip neigh show '' @ ip @ '' 2>/dev/null''"

definition arp_command :: "string \<Rightarrow> string" where
  "arp_command ip = ''arp -n '' @ ip @ '' 2>/dev/null''"

text \<open>\<open>macForIp\<close>: its result and the commands it runs.\<close>

definition macForIp :: "(string \<Rightarrow> int \<times> string) \<Rightarrow> string \<Rightarrow> string \<times> string list" where
  "macForIp run ip =
     (if \<not> ipv4_shape ip then ([], [])
      else
        (let (rc, out) = run (neigh_command ip);
             again = (rc \<noteq> 0 \<or> out = []);
             out2 = (if again then snd (run (arp_command ip)) else out)
         in (mac_after [] (words_by is_blank [] out2), neigh_command ip # (if again then [arp_command ip] else []))))"

section \<open>Joining a setup access point\<close>

record ap_joiner =
  aj_iface :: string
  aj_profile :: string

definition onboard_profile :: string where
  "onboard_profile = ''nexus-onboard''"

definition delete_command :: "string \<Rightarrow> string" where
  "delete_command profile = ''nmcli connection delete '' @ shq profile @ quiet"

definition down_command :: "string \<Rightarrow> string" where
  "down_command profile = ''nmcli connection down '' @ shq profile @ quiet"

definition add_command :: "string \<Rightarrow> string \<Rightarrow> string" where
  "add_command iface ssid =
     ''nmcli connection add type wifi ifname '' @ shq iface @ '' con-name '' @ shq onboard_profile @ '' ssid '' @ shq ssid @
     '' connection.autoconnect no'' @ quiet"

definition up_command :: "int \<Rightarrow> string" where
  "up_command timeout_s = ''nmcli -w '' @ show_int timeout_s @ '' connection up '' @ shq onboard_profile @ quiet"

text \<open>Each operation gives the new state, its status and the commands it runs.\<close>

definition aj_leave :: "ap_joiner \<Rightarrow> ap_joiner \<times> status \<times> string list" where
  "aj_leave j =
     (if aj_profile j = [] then (j, success, [delete_command onboard_profile])
      else (j\<lparr>aj_profile := []\<rparr>, success, [down_command (aj_profile j), delete_command (aj_profile j)]))"

definition aj_join :: "(string \<Rightarrow> int \<times> string) \<Rightarrow> ap_joiner \<Rightarrow> string \<Rightarrow> int \<Rightarrow> ap_joiner \<times> status \<times> string list" where
  "aj_join run j ssid timeout_s =
     (if ssid = [] then (j, mk_error Ec_InvalidArg ''ssid required'', [])
      else case aj_leave j of (j1, _, left) \<Rightarrow>
        (let cmds = left @ [delete_command onboard_profile, add_command (aj_iface j1) ssid] in
         if fst (run (add_command (aj_iface j1) ssid)) \<noteq> 0
         then (j1, mk_error Ec_IoError ''cannot create onboarding profile'', cmds)
         else if fst (run (up_command timeout_s)) \<noteq> 0
         then (j1, mk_error Ec_IoError (''cannot join setup network '' @ [sq] @ ssid @ [sq]),
               cmds @ [up_command timeout_s, delete_command onboard_profile])
         else (j1\<lparr>aj_profile := onboard_profile\<rparr>, success, cmds @ [up_command timeout_s])))"

definition trim_end :: "string \<Rightarrow> string" where
  "trim_end s = rev (dropWhile (\<lambda>c. c = CHR 10 \<or> c = CHR 13 \<or> c = CHR '' '') (rev s))"

definition gateway_command :: "string \<Rightarrow> string" where
  "gateway_command iface = ''nmcli -g IP4.GATEWAY device show '' @ shq iface @ '' 2>/dev/null''"

definition aj_gateway :: "(string \<Rightarrow> int \<times> string) \<Rightarrow> ap_joiner \<Rightarrow> string" where
  "aj_gateway run j =
     (if aj_profile j = [] then []
      else case run (gateway_command (aj_iface j)) of
        (rc, out) \<Rightarrow>
          if rc \<noteq> 0 then []
          else case find (\<lambda>l. l \<noteq> [] \<and> l \<noteq> ''--'') (map trim_end (out_lines [] out)) of None \<Rightarrow> [] | Some l \<Rightarrow> l)"

section \<open>Signal strength\<close>

text \<open>The pieces \<open>fgets\<close> returns for a buffer of \<open>k + 1\<close> bytes: up to and with a line feed, at most \<open>k\<close> characters.\<close>

fun fgets_pieces :: "nat \<Rightarrow> string \<Rightarrow> string \<Rightarrow> string list" where
  "fgets_pieces k acc [] = (if acc = [] then [] else [acc])"
| "fgets_pieces k acc (c # s) =
     (if c = CHR 10 \<or> length acc + 1 = k then (acc @ [c]) # fgets_pieces k [] s else fgets_pieces k (acc @ [c]) s)"

fun mac_signal :: "bool \<Rightarrow> string list \<Rightarrow> int option" where
  "mac_signal in_current [] = None"
| "mac_signal in_current (s # ss) =
     (if sublist ''Current Network Information:'' s then mac_signal True ss
      else if \<not> in_current then mac_signal in_current ss
      else case after_key ''Signal / Noise:'' s of
        None \<Rightarrow> mac_signal in_current ss
      | Some v \<Rightarrow>
          (case cpp_stoi (dropWhile (\<lambda>c. c \<noteq> CHR ''-'') v) of
             None \<Rightarrow> None
           | Some dbm \<Rightarrow> if CHR ''-'' \<in> set v \<and> dbm < 0 \<and> - 120 < dbm then Some dbm else None))"

definition level_of_line :: "string \<Rightarrow> int option" where
  "level_of_line line =
     (if CHR '':'' \<notin> set line then None
      else
        (let toks = words_by (\<lambda>c. c = CHR '' '' \<or> c = CHR 9) []
                      (takeWhile (\<lambda>c. c \<noteq> CHR 10) (tl (dropWhile (\<lambda>c. c \<noteq> CHR '':'') line)))
         in if length toks < 3 then None
            else case cpp_stoi (toks ! 2) of None \<Rightarrow> None | Some l \<Rightarrow> if l < 0 then Some l else None))"

fun first_level :: "string list \<Rightarrow> int option" where
  "first_level [] = None"
| "first_level (s # ss) = (case level_of_line s of None \<Rightarrow> first_level ss | Some l \<Rightarrow> Some l)"

text \<open>\<open>readRssiDbm\<close>: on macOS the output of \<open>system_profiler\<close>, on Linux the content of \<open>/proc/net/wireless\<close>; None
  when it cannot be opened.\<close>

definition readRssiDbm :: "platform \<Rightarrow> string option \<Rightarrow> int option" where
  "readRssiDbm pf content =
     (case content of
        None \<Rightarrow> None
      | Some s \<Rightarrow>
          (case pf of
             MacOS _ \<Rightarrow> mac_signal False (fgets_pieces 511 [] s)
           | Linux \<Rightarrow> (let ls = fgets_pieces 255 [] s in if length ls < 2 then None else first_level (drop 2 ls))))"

section \<open>The pool probes every host once\<close>

definition hits :: "(nat \<Rightarrow> scanned_speaker option) \<Rightarrow> nat list \<Rightarrow> scanned_speaker list" where
  "hits answer hs = List.map_filter answer hs"

definition in_flight :: "worker list \<Rightarrow> nat list" where
  "in_flight ws = concat (map (\<lambda>k. case k of Probing h \<Rightarrow> [h] | _ \<Rightarrow> []) ws)"

definition pool_inv :: "(nat \<Rightarrow> scanned_speaker option) \<Rightarrow> pool \<Rightarrow> bool" where
  "pool_inv answer p \<longleftrightarrow>
     1 \<le> po_next p \<and> (Returned \<in> set (po_workers p) \<longrightarrow> 255 < po_next p) \<and>
     mset (po_found p) + mset (hits answer (in_flight (po_workers p))) = mset (hits answer [1..<min (po_next p) 255])"

lemma hits_simps [simp]:
  "hits answer [] = []"
  "hits answer (h # hs) = (case answer h of None \<Rightarrow> [] | Some s \<Rightarrow> [s]) @ hits answer hs"
  "hits answer (hs @ hs') = hits answer hs @ hits answer hs'"
  by (simp_all add: hits_def List.map_filter_def split: option.splits)

lemma in_flight_simps [simp]:
  "in_flight [] = []"
  "in_flight (k # ks) = (case k of Probing h \<Rightarrow> [h] | _ \<Rightarrow> []) @ in_flight ks"
  "in_flight (ks @ ks') = in_flight ks @ in_flight ks'"
  by (simp_all add: in_flight_def)

lemma in_flight_idle [simp]: "in_flight (replicate n Taking) = []" "list_all (\<lambda>k. k = Returned) ks \<Longrightarrow> in_flight ks = []"
  by (induction n, simp_all) (induction ks, auto)

lemma split_at:
  assumes "w < length ws"
  obtains a b where "ws = a @ ws ! w # b" "\<And>x. ws[w := x] = a @ x # b"
  using assms id_take_nth_drop upd_conv_take_nth_drop by metis

lemma pool_start_inv: "pool_inv answer (pool_start n)"
  by (simp add: pool_inv_def pool_start_def)

lemma pool_step_inv:
  assumes "pool_inv answer p"
  shows "pool_inv answer (pool_step answer p w)"
proof (cases "w < length (po_workers p)")
  case False
  with assms show ?thesis by (simp add: pool_step_def)
next
  case True
  then obtain a b where ab: "po_workers p = a @ po_workers p ! w # b" "\<And>x. (po_workers p)[w := x] = a @ x # b"
    by (rule split_at) (rule that)
  have up: "[1..<min (Suc n) 255] = [1..<min n 255] @ (if n \<le> 254 then [n] else [])" if "1 \<le> n" for n
    using that upt_Suc_append [of 1 n] by (cases "n = 255") (auto simp: min_def)
  have fl: "in_flight (po_workers p) = in_flight (a @ po_workers p ! w # b)"
    "set (po_workers p) = set (a @ po_workers p ! w # b)"
    using ab(1) by simp_all
  show ?thesis
  proof (cases "po_workers p ! w")
    case Taking
    with assms True fl up [of "po_next p"] show ?thesis
      by (auto simp: pool_inv_def pool_step_def ab(2) split: option.splits)
  next
    case (Probing h)
    with assms True fl show ?thesis
      by (auto simp: pool_inv_def pool_step_def ab(2) split: option.splits)
  next
    case Returned
    with assms show ?thesis by (simp add: pool_step_def)
  qed
qed

interpretation scan_run: invariant_system "pool_step answer" "pool_inv answer" for answer
  by unfold_locales (rule pool_step_inv)

lemma pool_step_length [simp]: "length (po_workers (pool_step answer p v)) = length (po_workers p)"
  by (simp add: pool_step_def split: worker.splits)

lemma pool_run_length [simp]: "length (po_workers (foldl (pool_step answer) p sched)) = length (po_workers p)"
  by (induction sched arbitrary: p) simp_all

lemma finished_pool_found:
  assumes "pool_finished (foldl (pool_step answer) (pool_start n) sched)" and "0 < n"
  shows "mset (po_found (foldl (pool_step answer) (pool_start n) sched)) = mset (hits answer [1..<255])"
proof -
  let ?p = "foldl (pool_step answer) (pool_start n) sched"
  have "length (po_workers ?p) = n" by (simp add: pool_start_def)
  with assms have "Returned \<in> set (po_workers ?p)"
    by (cases "po_workers ?p") (auto simp: pool_finished_def)
  moreover have "pool_inv answer ?p" by (rule scan_run.run_inv [OF pool_start_inv])
  ultimately show ?thesis using assms(1) by (simp add: pool_inv_def pool_finished_def)
qed

text \<open>The number of its own steps a worker can still take.\<close>

definition own_left :: "pool \<Rightarrow> nat \<Rightarrow> nat" where
  "own_left p w =
     (case po_workers p ! w of
        Taking \<Rightarrow> 2 * (255 - po_next p) + 1
      | Probing _ \<Rightarrow> 2 * (255 - po_next p) + 2
      | Returned \<Rightarrow> 0)"

lemma own_left_other: "own_left (pool_step answer p v) w \<le> own_left p w"
  by (cases "v = w"; cases "v < length (po_workers p)")
    (auto simp: pool_step_def own_left_def split: worker.splits)

lemma own_left_own:
  "w < length (po_workers p) \<Longrightarrow> own_left (pool_step answer p w) w \<le> own_left p w - 1"
  by (auto simp: pool_step_def own_left_def split: worker.splits)

lemma own_left_run:
  assumes "w < length (po_workers p)"
  shows "own_left (foldl (pool_step answer) p sched) w \<le> own_left p w - count_list sched w"
  using assms
proof (induction sched arbitrary: p)
  case (Cons v sched)
  have "own_left (foldl (pool_step answer) p (v # sched)) w \<le> own_left (pool_step answer p v) w - count_list sched w"
    using Cons by simp
  also have "\<dots> \<le> own_left p w - count_list (v # sched) w"
    using own_left_other [of answer p v w] own_left_own [of w p answer] Cons.prems by auto
  finally show ?case .
qed simp

lemma fair_pool_finishes:
  assumes "\<And>w. w < n \<Longrightarrow> 509 \<le> count_list sched w"
  shows "pool_finished (foldl (pool_step answer) (pool_start n) sched)"
  unfolding pool_finished_def list_all_length
proof (intro allI impI)
  let ?p = "foldl (pool_step answer) (pool_start n) sched"
  fix w assume "w < length (po_workers ?p)"
  then have w: "w < n" by (simp add: pool_start_def)
  then have "own_left ?p w \<le> 509 - count_list sched w"
    using own_left_run [of w "pool_start n" answer sched] by (simp add: pool_start_def own_left_def)
  with assms [OF w] have "own_left ?p w = 0" by simp
  then show "po_workers ?p ! w = Returned" by (simp add: own_left_def split: worker.splits)
qed

text \<open>Whatever the order in which the threads run, a sweep that returns has probed each of the 254 hosts exactly once.\<close>

lemma scan_any_schedule:
  assumes "subnetBase cidr \<noteq> []" "scanSubnet J http cidr c sched = Some found"
  shows "mset found = mset (hits (\<lambda>h. probe J http (subnetBase cidr @ show_nat h)) [1..<255])"
proof -
  have "0 < pool_size c" by (simp add: pool_size_def)
  with assms show ?thesis by (auto simp: scanSubnet_def Let_def finished_pool_found split: if_splits)
qed

text \<open>C36. \<open>scanSubnet\<close> terminates and finds every speaker once. When the scheduler gives each of the worker threads 509 atomic
  sections, all threads have returned, and the result is, up to order, the answers of the hosts 1 to 254 that
  look like a speaker, none missing and none repeated.
\<close>

theorem sweep_finds_every_speaker_once:
  assumes "subnetBase cidr \<noteq> []" "\<And>w. w < pool_size c \<Longrightarrow> 509 \<le> count_list sched w"
  shows "\<exists>found. scanSubnet J http cidr c sched = Some found \<and>
    mset found = mset (hits (\<lambda>h. probe J http (subnetBase cidr @ show_nat h)) [1..<255])"
proof -
  have "\<exists>found. scanSubnet J http cidr c sched = Some found"
    using assms(1) fair_pool_finishes [OF assms(2)] by (simp add: scanSubnet_def Let_def)
  with scan_any_schedule [OF assms(1)] show ?thesis by blast
qed

definition demo_status :: json where
  "demo_status = JObj [(''device_id'', JStr ''NX-7''), (''setup_mode'', JBool True)]"

definition demo_host :: "string \<Rightarrow> (int \<times> string) option" where
  "demo_host ip = (if ip = ''10.0.0.7'' then Some (200, ''doc'') else if ip = ''10.0.0.9'' then Some (404, []) else None)"

lemma count_concat_replicate: "count_list (concat (replicate k xs)) w = k * count_list xs w"
  by (induction k) simp_all

lemma count_list_upt: "count_list [0..<n] w = (if w < n then 1 else 0)"
  by (induction n) auto

lemma fair_round_robin: "w < n \<Longrightarrow> count_list (concat (replicate k [0..<n])) w = k"
  by (simp add: count_concat_replicate count_list_upt)

lemma demo_probe:
  "probe (demo_lib ''doc'' demo_status) demo_host ip =
     (if ip = ''10.0.0.7'' then Some \<lparr>sc_ip = ''10.0.0.7'', sc_device_id = ''NX-7'', sc_state = [], sc_software_version = [],
        sc_paired = False, sc_setup_mode = True, sc_box_public_key = []\<rparr> else None)"
  by (simp add: probe_def demo_host_def demo_status_def j_value_def)

lemma demo_base: "subnetBase ''10.0.0.0/24'' = ''10.0.0.''"
  by (simp add: subnetBase_def)

lemma seven_only: "show_nat h = ''7'' \<longleftrightarrow> h = 7"
proof -
  have "show_nat 7 = ''7''" by code_simp
  then show ?thesis using show_nat_inj [of h 7] by simp
qed

theorem sweep_finds_every_speaker_once_witness:
  "\<exists>found. scanSubnet (demo_lib ''doc'' demo_status) demo_host ''10.0.0.0/24'' 3 (concat (replicate 509 [0..<3])) = Some found \<and>
     map sc_device_id found = [''NX-7'']"
proof -
  let ?s = "\<lparr>sc_ip = ''10.0.0.7'', sc_device_id = ''NX-7'', sc_state = [], sc_software_version = [],
        sc_paired = False, sc_setup_mode = True, sc_box_public_key = []\<rparr>"
  let ?a = "\<lambda>h. probe (demo_lib ''doc'' demo_status) demo_host (subnetBase ''10.0.0.0/24'' @ show_nat h)"
  have a: "?a = (\<lambda>h. if h = 7 then Some ?s else None)"
    by (rule ext) (simp add: demo_probe demo_base seven_only)
  have "[1..<255] = [1..<7] @ 7 # [8..<255]" using upt_add_eq_append [of 1 7 248] upt_conv_Cons [of 7 255] by simp
  moreover have "hits ?a [1..<7] = []" "hits ?a [8..<255] = []"
    unfolding a by (simp_all add: hits_def List.map_filter_def filter_empty_conv)
  ultimately have "hits ?a [1..<255] = [?s]" by (simp add: a)
  then show ?thesis
    using sweep_finds_every_speaker_once [of "''10.0.0.0/24''" 3 "concat (replicate 509 [0..<3])"
        "demo_lib ''doc'' demo_status" demo_host]
    by (auto simp: demo_base pool_size_def fair_round_robin)
qed

section \<open>What nmcli prints is read back\<close>

text \<open>\<open>nmcli -t\<close> writes a backslash before each colon and backslash of a field and a colon between fields.\<close>

fun terse_escape :: "string \<Rightarrow> string" where
  "terse_escape [] = []"
| "terse_escape (c # s) = (if c = CHR '':'' \<or> c = CHR 92 then [CHR 92, c] else [c]) @ terse_escape s"

fun terse_line :: "string list \<Rightarrow> string" where
  "terse_line [] = []"
| "terse_line [f] = terse_escape f"
| "terse_line (f # g # fs) = terse_escape f @ CHR '':'' # terse_line (g # fs)"

lemma splitTerse_simps:
  "splitTerse cur (CHR '':'' # s) = cur # splitTerse [] s"
  "splitTerse cur (CHR 92 # d # s) = splitTerse (cur @ [d]) s"
  "c \<noteq> CHR '':'' \<Longrightarrow> c \<noteq> CHR 92 \<Longrightarrow> splitTerse cur (c # s) = splitTerse (cur @ [c]) s"
  by (cases s; simp)+

lemma splitTerse_field:
  "splitTerse cur (terse_escape f @ s) = splitTerse (cur @ f) s"
  by (induction f arbitrary: cur) (auto simp: splitTerse_simps)

lemma splitTerse_line: "fs \<noteq> [] \<Longrightarrow> splitTerse [] (terse_line fs) = fs"
proof (induction fs rule: terse_line.induct)
  case (2 f)
  then show ?case using splitTerse_field [of "[]" f "[]"] by simp
next
  case (3 f g fs)
  then show ?case by (simp add: splitTerse_field splitTerse_simps)
qed simp

lemma set_terse_line: "c \<in> set (terse_line fs) \<Longrightarrow> c = CHR '':'' \<or> c = CHR 92 \<or> (\<exists>f\<in>set fs. c \<in> set f)"
proof (induction fs rule: terse_line.induct)
  case (2 f)
  then show ?case by (induction f) (auto split: if_splits)
next
  case (3 f g fs)
  have "c \<in> set (terse_escape f) \<Longrightarrow> c = CHR 92 \<or> c \<in> set f" by (induction f) (auto split: if_splits)
  with 3 show ?case by auto
qed simp

lemma out_lines_line: "CHR 10 \<notin> set l \<Longrightarrow> out_lines acc (l @ CHR 10 # s) = (acc @ l) # out_lines [] s"
  by (induction l arbitrary: acc) auto

lemma out_lines_join:
  "\<forall>l\<in>set ls. CHR 10 \<notin> set l \<Longrightarrow> out_lines [] (concat (map (\<lambda>l. l @ [CHR 10]) ls)) = ls"
  by (induction ls) (simp_all add: out_lines_line)

lemma show_nat_dec_digits: "list_all dec_digit (show_nat n)"
  unfolding list_all_iff
proof (rule ballI)
  fix c assume "c \<in> set (show_nat n)"
  from show_nat_digits [OF this] show "dec_digit c" by (simp add: dec_digit_def)
qed

lemma stoi_digits:
  assumes "ds \<noteq> []" "list_all dec_digit ds" "s = [] \<or> \<not> dec_digit (hd s)"
  shows "takeWhile dec_digit (ds @ s) = ds"
  using assms by (cases s) (auto simp: list_all_iff takeWhile_append takeWhile_eq_all_conv)

lemma dec_digit_not: "dec_digit c \<Longrightarrow> \<not> is_blank c \<and> c \<noteq> CHR ''-'' \<and> c \<noteq> CHR ''+''"
  by (auto simp: dec_digit_def is_blank_def)

text \<open>\<open>std::stoi\<close> reads back a printed number and stops at what follows it.\<close>

lemma stoi_show_int:
  assumes "- (2 ^ 31) \<le> i" "i < 2 ^ 31" "s = [] \<or> \<not> dec_digit (hd s)"
  shows "cpp_stoi (show_int i @ s) = Some i"
proof (cases "i < 0")
  case True
  then have "show_int i = CHR ''-'' # show_nat (nat (- i))" by (simp add: show_int_def)
  with True assms stoi_digits [OF show_nat_nonempty show_nat_dec_digits assms(3), of "nat (- i)"] show ?thesis
    by (simp add: cpp_stoi_def Let_def is_blank_def read_show_nat)
next
  case False
  then have e: "show_int i = show_nat (nat i)" by (simp add: show_int_def)
  obtain c ds where c: "show_nat (nat i) = c # ds" using show_nat_nonempty [of "nat i"] by (cases "show_nat (nat i)") auto
  with show_nat_dec_digits [of "nat i"] have "dec_digit c" by simp
  with False assms c e stoi_digits [OF show_nat_nonempty show_nat_dec_digits assms(3), of "nat i"] read_show_nat [of "nat i"]
  show ?thesis by (simp add: cpp_stoi_def Let_def dec_digit_not)
qed

text \<open>A row of the table as \<open>nmcli\<close> has it: SSID, BSSID, signal, security.\<close>

type_synonym nm_row = "string \<times> string \<times> nat \<times> string"

definition nm_line :: "nm_row \<Rightarrow> string" where
  "nm_line = (\<lambda>(ssid, bssid, sig, sec). terse_line [ssid, bssid, show_nat sig, sec])"

definition nm_table :: "nm_row list \<Rightarrow> string" where
  "nm_table rows = concat (map (\<lambda>l. l @ [CHR 10]) (map nm_line rows))"

definition row_ok :: "nm_row \<Rightarrow> bool" where
  "row_ok = (\<lambda>(ssid, bssid, sig, sec). CHR 10 \<notin> set ssid \<and> CHR 10 \<notin> set bssid \<and> CHR 10 \<notin> set sec \<and> sig \<le> 100)"

definition row_ap :: "nm_row \<Rightarrow> scanned_ap" where
  "row_ap = (\<lambda>(ssid, bssid, sig, sec). \<lparr>sa_ssid = ssid, sa_bssid = bssid, sa_signal = int sig, sa_secured = (sec \<noteq> [])\<rparr>)"

definition row_wanted :: "string \<Rightarrow> nm_row \<Rightarrow> bool" where
  "row_wanted pre = (\<lambda>(ssid, _). ssid \<noteq> [] \<and> take (length pre) ssid = pre)"

lemma nm_line_clean:
  assumes "row_ok r"
  shows "CHR 10 \<notin> set (nm_line r)"
proof -
  obtain ssid bssid sig sec where r: "r = (ssid, bssid, sig, sec)" by (cases r)
  have "CHR 10 \<notin> set (show_nat sig)" using nl_notin_show_nat [of sig] by (simp add: nl_def)
  with assms show ?thesis
    using set_terse_line [of "CHR 10" "[ssid, bssid, show_nat sig, sec]"] unfolding r row_ok_def nm_line_def by fastforce
qed

lemma ap_of_nm_line:
  assumes "row_ok r"
  shows "ap_of_line pre (nm_line r) = (if row_wanted pre r then Some (row_ap r) else None)"
proof -
  obtain ssid bssid sig sec where r: "r = (ssid, bssid, sig, sec)" by (cases r)
  have "cpp_stoi (show_nat sig) = Some (int sig)"
    using stoi_show_int [of "int sig" "[]"] assms by (simp add: r row_ok_def show_int_def)
  moreover have "terse_line [ssid, bssid, show_nat sig, sec] \<noteq> []" by simp
  ultimately show ?thesis
    by (simp add: r ap_of_line_def nm_line_def row_wanted_def row_ap_def Let_def splitTerse_line del: terse_line.simps)
qed

text \<open>The list of access points is read back exactly. For whatever table \<open>nmcli\<close> prints, colons and backslashes in names and
  addresses included, \<open>scanAccessPoints\<close> returns one entry per row whose SSID has the prefix, in order, with the SSID, the
  BSSID, the signal and whether it is secured.
\<close>

theorem ap_list_reads_back:
  assumes "run (ap_list_command iface rescan) = (0, nm_table rows)" "list_all row_ok rows"
  shows "scanAccessPoints run iface pre rescan = map row_ap (filter (row_wanted pre) rows)"
proof -
  have "out_lines [] (nm_table rows) = map nm_line rows"
    unfolding nm_table_def using assms(2) nm_line_clean by (intro out_lines_join) (auto simp: list_all_iff)
  moreover have "List.map_filter (ap_of_line pre) (map nm_line rows) = map row_ap (filter (row_wanted pre) rows)"
    using assms(2) by (induction rows) (auto simp: List.map_filter_def ap_of_nm_line)
  ultimately show ?thesis using assms(1) by (simp add: scanAccessPoints_def)
qed

theorem ap_list_reads_back_witness:
  "scanAccessPoints (\<lambda>_. (0, nm_table [(''Nexus-Setup'', ''AA:BB:CC:DD:EE:01'', 71, []), (''Home:5G'', ''AA:BB:CC:DD:EE:02'', 90, ''WPA2'')]))
     ''wlan0'' ''Nexus-'' True =
   [\<lparr>sa_ssid = ''Nexus-Setup'', sa_bssid = ''AA:BB:CC:DD:EE:01'', sa_signal = 71, sa_secured = False\<rparr>]"
  using ap_list_reads_back [of "\<lambda>_. (0, nm_table [(''Nexus-Setup'', ''AA:BB:CC:DD:EE:01'', 71, []), (''Home:5G'', ''AA:BB:CC:DD:EE:02'', 90, ''WPA2'')])"
      "''wlan0''" True "[(''Nexus-Setup'', ''AA:BB:CC:DD:EE:01'', 71, []), (''Home:5G'', ''AA:BB:CC:DD:EE:02'', 90, ''WPA2'')]" "''Nexus-''"]
  by (simp add: row_ok_def row_wanted_def row_ap_def)

section \<open>Nothing from the registry reaches the shell unread\<close>

lemma sh_word_plain:
  "list_all (\<lambda>c. c = CHR ''.'' \<or> dec_digit c) s \<Longrightarrow> sh_word False (s @ CHR '' '' # rest) = Some (s, CHR '' '' # rest)"
proof (induction s)
  case (Cons c s)
  from Cons.prems have "c = CHR ''.'' \<or> dec_digit c" by simp
  then have "c \<noteq> sq \<and> c \<noteq> CHR 92 \<and> \<not> (c \<in> set '' |&;<>()$`'' \<or> c = CHR 34 \<or> c = CHR 10 \<or> c = CHR 9)"
    by (auto simp: dec_digit_def)
  with Cons show ?case by simp
qed simp

text \<open>Each command \<open>macForIp\<close> runs passes the address as one word of the shell, whatever the registry holds.\<close>

lemma mac_lookup_is_safe:
  assumes "c \<in> set (snd (macForIp run ip))"
  shows "\<exists>p rest. (p = ''ip neigh show '' \<or> p = ''arp -n '') \<and> c = p @ ip @ CHR '' '' # rest \<and>
    sh_word False (ip @ CHR '' '' # rest) = Some (ip, CHR '' '' # rest)"
proof -
  have shape: "ipv4_shape ip" using assms by (simp add: macForIp_def split: if_splits)
  then have w: "sh_word False (ip @ CHR '' '' # rest) = Some (ip, CHR '' '' # rest)" for rest
    by (intro sh_word_plain) (simp add: ipv4_shape_def)
  have "c = neigh_command ip \<or> c = arp_command ip"
    using assms by (auto simp: macForIp_def Let_def split: if_splits prod.splits)
  then show ?thesis
    using w [of "''2>/dev/null''"] by (auto simp: neigh_command_def arp_command_def)
qed

text \<open>The test for an IPv4 literal counts dots only.\<close>

lemma shape_without_octets: "ipv4_shape ''...''" "ipv4_shape ''9999.1..2''"
  by (simp_all add: ipv4_shape_def dec_digit_def)

lemma mac_of_neighbour:
  "fst (macForIp (\<lambda>c. if c = neigh_command ''10.0.0.7'' then (0, ''10.0.0.7 dev eth0 lladdr aa:bb:cc:00:11:22 STALE'') else (1, [])) ''10.0.0.7'') =
     ''aa:bb:cc:00:11:22''"
  by (simp add: macForIp_def neigh_command_def ipv4_shape_def dec_digit_def is_blank_def)

section \<open>Joining is undone\<close>

definition profile_ok :: "ap_joiner \<Rightarrow> bool" where
  "profile_ok j \<longleftrightarrow> aj_profile j = [] \<or> aj_profile j = onboard_profile"

datatype joiner_op = Join string int "string \<Rightarrow> int \<times> string" | Leave

definition joiner_step :: "ap_joiner \<Rightarrow> joiner_op \<Rightarrow> ap_joiner" where
  "joiner_step j op = (case op of Join ssid t run \<Rightarrow> fst (aj_join run j ssid t) | Leave \<Rightarrow> fst (aj_leave j))"

lemma joiner_step_ok: "profile_ok j \<Longrightarrow> profile_ok (joiner_step j op)"
  by (cases op) (auto simp: joiner_step_def profile_ok_def aj_join_def aj_leave_def Let_def)

interpretation joiner_run: invariant_system joiner_step profile_ok
  by unfold_locales (rule joiner_step_ok)

text \<open>After any use, leaving ends with the deletion of the one profile the class ever creates.\<close>

lemma leave_deletes_profile:
  assumes "profile_ok j"
  shows "last (snd (snd (aj_leave (foldl joiner_step j ops)))) = delete_command onboard_profile"
    "aj_profile (fst (aj_leave (foldl joiner_step j ops))) = []"
  using joiner_run.run_inv [OF assms, of ops] by (auto simp: aj_leave_def profile_ok_def)

text \<open>A join that fails is not joined: the gateway is unknown, and the profile it may have brought up is deleted last.\<close>

lemma failed_join_is_undone:
  assumes "\<not> st_ok (fst (snd (aj_join run j ssid t)))" "ssid \<noteq> []"
  shows "aj_gateway run' (fst (aj_join run j ssid t)) = []"
    "fst (run (add_command (aj_iface j) ssid)) = 0 \<Longrightarrow>
      last (snd (snd (aj_join run j ssid t))) = delete_command onboard_profile"
  using assms by (auto simp: aj_join_def aj_leave_def aj_gateway_def Let_def split: if_splits)

lemma join_then_gateway:
  assumes "fst (run (add_command (aj_iface j) ssid)) = 0" "fst (run (up_command t)) = 0" "ssid \<noteq> []"
    "run (gateway_command (aj_iface j)) = (0, ''10.42.0.1'' @ [CHR 10])"
  shows "st_ok (fst (snd (aj_join run j ssid t)))" "aj_gateway run (fst (aj_join run j ssid t)) = ''10.42.0.1''"
  using assms by (auto simp: aj_join_def aj_leave_def aj_gateway_def Let_def onboard_profile_def trim_end_def)

section \<open>Signal strength is plausible\<close>

lemma mac_signal_range: "mac_signal b ss = Some v \<Longrightarrow> - 120 < v \<and> v < 0"
  by (induction b ss rule: mac_signal.induct) (auto split: if_splits option.splits)

lemma first_level_negative: "first_level ss = Some v \<Longrightarrow> v < 0"
  by (induction ss) (auto simp: level_of_line_def Let_def split: if_splits option.splits)

lemma rssi_is_negative: "readRssiDbm pf content = Some v \<Longrightarrow> v < 0"
  using mac_signal_range first_level_negative
  by (fastforce simp: readRssiDbm_def Let_def split: option.splits platform.splits if_splits)

lemma words_by_word:
  "list_all (\<lambda>c. \<not> sep c) s \<Longrightarrow> words_by sep acc (s @ rest) = words_by sep (acc @ s) rest"
  by (induction s arbitrary: acc) simp_all

text \<open>The level column of \<open>/proc/net/wireless\<close> is read back for every level the kernel can print.\<close>

lemma level_reads_back:
  assumes "CHR '':'' \<notin> set iface" "- (2 ^ 31) \<le> lvl" "lvl < 2 ^ 31"
  shows "level_of_line (iface @ '': 0000 '' @ show_nat link @ ''. '' @ show_int lvl @ ''. -256'' @ [CHR 10]) =
    (if lvl < 0 then Some lvl else None)"
proof -
  let ?sep = "\<lambda>c. c = CHR '' '' \<or> c = CHR 9"
  have digit: "dec_digit c \<Longrightarrow> \<not> ?sep c \<and> c \<noteq> CHR 10" for c by (auto simp: dec_digit_def)
  have n1: "list_all (\<lambda>c. \<not> ?sep c) (show_nat link)" "\<forall>c\<in>set (show_nat link). c \<noteq> CHR 10"
    using show_nat_dec_digits [of link] digit by (auto simp: list_all_iff)
  have n2: "list_all (\<lambda>c. \<not> ?sep c) (show_int lvl)" "\<forall>c\<in>set (show_int lvl). c \<noteq> CHR 10"
    using show_nat_dec_digits [of "nat lvl"] show_nat_dec_digits [of "nat (- lvl)"] digit
    by (auto simp: list_all_iff show_int_def)
  have "dropWhile (\<lambda>c. c \<noteq> CHR '':'') (iface @ '': 0000 '' @ s) = '': 0000 '' @ s" for s
    using assms(1) by (subst dropWhile_append2) auto
  moreover have "takeWhile (\<lambda>c. c \<noteq> CHR 10) ('' 0000 '' @ show_nat link @ ''. '' @ show_int lvl @ ''. -256'' @ [CHR 10]) =
      '' 0000 '' @ show_nat link @ ''. '' @ show_int lvl @ ''. -256''"
    using n1(2) n2(2) by (simp add: takeWhile_append2)
  moreover have "words_by ?sep [] ('' 0000 '' @ show_nat link @ ''. '' @ show_int lvl @ ''. -256'') =
      [''0000'', show_nat link @ ''.'', show_int lvl @ ''.'', ''-256'']"
    using n1(1) n2(1) by (simp add: words_by_word)
  ultimately show ?thesis
    using stoi_show_int [OF assms(2,3), of "''.''"] by (simp add: level_of_line_def Let_def dec_digit_def)
qed

end
