(* ===== verification/Threads.thy ===== *)
theory Threads
  imports Playback Command_Server Streamer_Control Speaker_Store
begin

text \<open>
  The long-lived threads and how they end. On the speaker: the command listener
  (\<open>control/TcpCommandTransport.cpp\<close>), the audio datagram listener (\<open>audio/UdpAudioSource.cpp\<close>) and the playback
  thread (\<open>audio/PlaybackEngine.cpp\<close>). On the Streamer: the poller (\<open>state/MonitorService.h\<close>) and the link reporter
  (\<open>app/LinkReporterService.h\<close>). Each service is its flags, the position of its thread and what the thread has done; one
  turn is the thread's next section between two points where another thread can act, given what the outside delivers for
  it. A call that blocks (\<open>accept\<close>, \<open>recv\<close>, an exchange with a speaker) leaves the thread where it is in every turn for which the
  outside delivers nothing; a socket that \<open>stop\<close> has shut down makes the call return, as Linux does. \<open>stop\<close> clears
  the flag, wakes the thread (shutdown or notification) and waits for it; the thread can take turns in between. The locale
  \<open>stoppable\<close> is what the loops have in common.
\<close>

section \<open>The contract\<close>

text \<open>A thread whose flag has been cleared finishes what it has begun and begins nothing new: \<open>acts\<close> counts its work and \<open>pending\<close> what
  it has begun.\<close>

locale winding_down =
  fixes turn :: "'s \<Rightarrow> 'i \<Rightarrow> 's"
    and cleared :: "'s \<Rightarrow> bool"
    and acts :: "'s \<Rightarrow> nat"
    and pending :: "'s \<Rightarrow> nat"
  assumes cleared_kept: "cleared s \<Longrightarrow> cleared (turn s i)"
    and acts_bound: "cleared s \<Longrightarrow> acts (turn s i) + pending (turn s i) \<le> acts s + pending s"
begin

lemma run_cleared: "cleared s \<Longrightarrow> cleared (foldl turn s ins)"
  by (induction ins arbitrary: s) (simp_all add: cleared_kept)

lemma run_acts: "cleared s \<Longrightarrow> acts (foldl turn s ins) + pending (foldl turn s ins) \<le> acts s + pending s"
proof (induction ins arbitrary: s)
  case (Cons i ins)
  from Cons.IH [OF cleared_kept [OF Cons.prems]] acts_bound [OF Cons.prems, of i] show ?case by (metis foldl_Cons order_trans)
qed simp

end

text \<open>Such a thread ends once \<open>wake\<close> has been called: every turn brings it nearer, but for those in which the outside keeps it
  waiting.\<close>

locale stoppable = winding_down turn cleared acts pending
  for turn :: "'s \<Rightarrow> 'i \<Rightarrow> 's" and cleared acts pending +
  fixes wake :: "'s \<Rightarrow> 's"
    and woken :: "'s \<Rightarrow> bool"
    and waits :: "'i \<Rightarrow> bool"
    and gone :: "'s \<Rightarrow> bool"
    and left :: "'s \<Rightarrow> nat"
  assumes wake_cleared: "cleared s \<Longrightarrow> cleared (wake s)"
    and wake_woken: "cleared s \<Longrightarrow> woken (wake s)"
    and wake_acts: "acts (wake s) + pending (wake s) \<le> acts s + pending s"
    and woken_kept: "cleared s \<Longrightarrow> woken s \<Longrightarrow> woken (turn s i)"
    and gone_kept: "gone s \<Longrightarrow> turn s i = s"
    and left_zero: "left s = 0 \<Longrightarrow> gone s"
    and left_less: "cleared s \<Longrightarrow> woken s \<Longrightarrow> \<not> gone s \<Longrightarrow> \<not> waits i \<Longrightarrow> left (turn s i) < left s"
    and left_same: "cleared s \<Longrightarrow> woken s \<Longrightarrow> waits i \<Longrightarrow> left (turn s i) \<le> left s"
begin

lemma run_gone: "gone s \<Longrightarrow> foldl turn s ins = s"
  by (induction ins) (simp_all add: gone_kept)

lemma run_ends: "cleared s \<Longrightarrow> woken s \<Longrightarrow> left s \<le> length (filter (\<lambda>i. \<not> waits i) ins) \<Longrightarrow> gone (foldl turn s ins)"
proof (induction ins arbitrary: s)
  case (Cons i ins)
  show ?case
  proof (cases "gone s")
    case True
    then show ?thesis by (metis run_gone)
  next
    case False
    have "left (turn s i) \<le> length (filter (\<lambda>i. \<not> waits i) ins)"
      using Cons.prems False left_less [of s i] left_same [of s i] by (cases "waits i") simp_all
    with Cons cleared_kept woken_kept show ?thesis by simp
  qed
qed (simp add: left_zero)

text \<open>The whole of a stop: the flag is cleared, the thread takes some turns, it is woken, it takes more turns.\<close>

lemma stop_ends:
  assumes "cleared s" "\<And>s. left s \<le> n" "n \<le> length (filter (\<lambda>i. \<not> waits i) ins)"
  shows "gone (foldl turn (wake (foldl turn s ins0)) ins)"
  using run_cleared [OF assms(1), of ins0] assms(2) [of "wake (foldl turn s ins0)"] assms(3)
  by (intro run_ends wake_cleared wake_woken) linarith+

lemma stop_acts:
  assumes "cleared s"
  shows "acts (foldl turn (wake (foldl turn s ins0)) ins) \<le> acts s + pending s"
  using run_acts [OF assms, of ins0] wake_acts [of "foldl turn s ins0"]
    run_acts [OF wake_cleared [OF run_cleared [OF assms, of ins0]], of ins] by linarith

end

section \<open>The command listener\<close>

datatype tcp_pc = Tcp_Loop | Tcp_Accept | Tcp_Recv string | Tcp_Handle string | Tcp_Gone

record tcp_transport =
  tt_running :: bool
  tt_listening :: bool
  tt_thread :: "tcp_pc option"
  tt_sent :: "(string \<times> string) list"

definition tcp_new :: tcp_transport where
  "tcp_new = \<lparr>tt_running = False, tt_listening = False, tt_thread = None, tt_sent = []\<rparr>"

definition io_error :: "string \<Rightarrow> string \<Rightarrow> status" where
  "io_error what err = mk_error Ec_IoError (what @ '': '' @ err)"

text \<open>\<open>start\<close>; for each of \<open>socket\<close>, \<open>bind\<close> and \<open>listen\<close> the text of its error, if it fails. None when the assignment to a
  thread that is still joinable ends the process.\<close>

definition tcp_start ::
  "string option \<Rightarrow> string option \<Rightarrow> string option \<Rightarrow> tcp_transport \<Rightarrow> (tcp_transport \<times> status) option" where
  "tcp_start sock bnd lsn t =
     (case sock of
        Some e \<Rightarrow> Some (t\<lparr>tt_listening := False\<rparr>, io_error ''socket'' e)
      | None \<Rightarrow>
          (case bnd of
             Some e \<Rightarrow> Some (t\<lparr>tt_listening := False\<rparr>, io_error ''bind'' e)
           | None \<Rightarrow>
               (case lsn of
                  Some e \<Rightarrow> Some (t\<lparr>tt_listening := False\<rparr>, io_error ''listen'' e)
                | None \<Rightarrow>
                    if tt_thread t \<noteq> None then None
                    else Some (t\<lparr>tt_running := True, tt_listening := True, tt_thread := Some Tcp_Loop\<rparr>, success))))"

text \<open>What the outside delivers for a turn: whether \<open>accept\<close> gives a connection or an error, what \<open>recv\<close> on the connection gives
  (nothing at the end or on an error), each None as long as there is nothing to return, and the handler's answer.\<close>

record tcp_input =
  ti_accepted :: "bool option"
  ti_chunk :: "string option"
  ti_handler :: "string \<Rightarrow> string"

text \<open>\<open>accept\<close>: None while it blocks. On a socket that has been shut down it fails at once.\<close>

definition tcp_accept :: "tcp_transport \<Rightarrow> tcp_input \<Rightarrow> bool option" where
  "tcp_accept t i = (if tt_listening t then ti_accepted i else Some False)"

fun tcp_turn :: "tcp_transport \<Rightarrow> tcp_input \<Rightarrow> tcp_transport" where
  "tcp_turn t i =
     (case tt_thread t of
        None \<Rightarrow> t
      | Some Tcp_Loop \<Rightarrow> t\<lparr>tt_thread := Some (if tt_running t then Tcp_Accept else Tcp_Gone)\<rparr>
      | Some Tcp_Accept \<Rightarrow>
          (case tcp_accept t i of
             None \<Rightarrow> t
           | Some ok \<Rightarrow> t\<lparr>tt_thread := Some (if ok then Tcp_Recv [] else if \<not> tt_running t then Tcp_Gone else Tcp_Loop)\<rparr>)
      | Some (Tcp_Recv req) \<Rightarrow>
          (case ti_chunk i of
             None \<Rightarrow> t
           | Some chunk \<Rightarrow>
               (let req' = req @ chunk in
                t\<lparr>tt_thread := Some (if chunk = [] \<or> nl \<in> set req' \<or> 64 * 1024 < length req'
                                     then Tcp_Handle req' else Tcp_Recv req')\<rparr>))
      | Some (Tcp_Handle req) \<Rightarrow>
          (let line = takeWhile (\<lambda>ch. ch \<noteq> nl) req in
           t\<lparr>tt_sent := tt_sent t @ [(line, ti_handler i line @ [nl])], tt_thread := Some Tcp_Loop\<rparr>)
      | Some Tcp_Gone \<Rightarrow> t)"

text \<open>\<open>stop\<close>: the flag, the shutdown of the listening socket, what follows the \<open>join\<close>.\<close>

definition tcp_stop_ask :: "tcp_transport \<Rightarrow> tcp_transport" where
  "tcp_stop_ask t = t\<lparr>tt_running := False\<rparr>"

definition tcp_shutdown :: "tcp_transport \<Rightarrow> tcp_transport" where
  "tcp_shutdown t = t\<lparr>tt_listening := False\<rparr>"

definition tcp_stop_joined :: "tcp_transport \<Rightarrow> tcp_transport option" where
  "tcp_stop_joined t =
     (case tt_thread t of None \<Rightarrow> Some t | Some Tcp_Gone \<Rightarrow> Some (t\<lparr>tt_thread := None\<rparr>) | _ \<Rightarrow> None)"

section \<open>The datagram listener\<close>

datatype udp_pc = Udp_Loop | Udp_Recv | Udp_Gone

record udp_source =
  us_running :: bool
  us_bound :: bool
  us_thread :: "udp_pc option"
  us_delivered :: "byte list list"

definition udp_new :: udp_source where
  "udp_new = \<lparr>us_running = False, us_bound = False, us_thread = None, us_delivered = []\<rparr>"

definition udp_start :: "string option \<Rightarrow> string option \<Rightarrow> udp_source \<Rightarrow> (udp_source \<times> status) option" where
  "udp_start sock bnd u =
     (case sock of
        Some e \<Rightarrow> Some (u\<lparr>us_bound := False\<rparr>, io_error ''socket'' e)
      | None \<Rightarrow>
          (case bnd of
             Some e \<Rightarrow> Some (u\<lparr>us_bound := False\<rparr>, io_error ''bind'' e)
           | None \<Rightarrow>
               if us_thread u \<noteq> None then None
               else Some (u\<lparr>us_running := True, us_bound := True, us_thread := Some Udp_Loop\<rparr>, success)))"

text \<open>The input of a turn is the datagram that has arrived, if one has; the empty list for an error and for an empty datagram.
  \<open>recv\<close> blocks (None) while there is none; on a socket that has been shut down it returns nothing, after what had arrived.\<close>

definition udp_recv :: "udp_source \<Rightarrow> byte list option \<Rightarrow> byte list option" where
  "udp_recv u arrived = (if us_bound u then arrived else Some (case arrived of None \<Rightarrow> [] | Some d \<Rightarrow> d))"

fun udp_turn :: "udp_source \<Rightarrow> byte list option \<Rightarrow> udp_source" where
  "udp_turn u arrived =
     (case us_thread u of
        None \<Rightarrow> u
      | Some Udp_Loop \<Rightarrow> u\<lparr>us_thread := Some (if us_running u then Udp_Recv else Udp_Gone)\<rparr>
      | Some Udp_Recv \<Rightarrow>
          (case udp_recv u arrived of
             None \<Rightarrow> u
           | Some dgram \<Rightarrow>
               if dgram = [] then u\<lparr>us_thread := Some (if \<not> us_running u then Udp_Gone else Udp_Loop)\<rparr>
               else u\<lparr>us_delivered := us_delivered u @ [dgram], us_thread := Some Udp_Loop\<rparr>)
      | Some Udp_Gone \<Rightarrow> u)"

definition udp_stop_ask :: "udp_source \<Rightarrow> udp_source" where
  "udp_stop_ask u = u\<lparr>us_running := False\<rparr>"

definition udp_shutdown :: "udp_source \<Rightarrow> udp_source" where
  "udp_shutdown u = u\<lparr>us_bound := False\<rparr>"

definition udp_stop_joined :: "udp_source \<Rightarrow> udp_source option" where
  "udp_stop_joined u =
     (case us_thread u of None \<Rightarrow> Some u | Some Udp_Gone \<Rightarrow> Some (u\<lparr>us_thread := None\<rparr>) | _ \<Rightarrow> None)"

section \<open>The playback thread\<close>

datatype play_pc = Play_Loop | Play_Step | Play_Gone

record play_engine =
  pg_output :: "string option"
  pg_player :: "player option"
  pg_running :: bool
  pg_thread :: "play_pc option"
  pg_state :: service_state
  pg_writes :: "pcm_write list"

text \<open>The device is named when the first \<open>start\<close> builds the output; \<open>cfg_device\<close> is the configured name.\<close>

definition default_output :: "string \<Rightarrow> string" where
  "default_output dev = (if dev = [] then ''default'' else dev)"

definition engine_start :: "string option \<Rightarrow> audio_buffer \<Rightarrow> status \<Rightarrow> play_engine \<Rightarrow> (play_engine \<times> status) option" where
  "engine_start cfg_device buf open_result g =
     (let g1 = g\<lparr>pg_output := (case pg_output g of
                    None \<Rightarrow> Some (default_output (case cfg_device of None \<Rightarrow> ''default'' | Some d \<Rightarrow> d)) | Some d \<Rightarrow> Some d),
                 pg_player := (case pg_player g of
                    None \<Rightarrow> Some \<lparr>pl_buffer = buf, pl_started = False, pl_frames_played = 0\<rparr> | Some p \<Rightarrow> Some p)\<rparr>
      in if \<not> st_ok open_result then Some (g1\<lparr>pg_state := Svc_Degraded\<rparr>, open_result)
         else if pg_thread g1 \<noteq> None then None
         else Some (g1\<lparr>pg_running := True, pg_thread := Some Play_Loop, pg_state := Svc_Running\<rparr>, success))"

text \<open>A turn of the thread with the environment, the synchronisation, the audio settings and the format of that
  moment.\<close>

fun engine_turn :: "play_engine \<Rightarrow> player_env \<times> stream_sync \<times> audio_config \<times> nat \<times> nat \<Rightarrow> play_engine" where
  "engine_turn g (e, sy, cfg, rate, channels) =
     (case pg_thread g of
        None \<Rightarrow> g
      | Some Play_Loop \<Rightarrow> g\<lparr>pg_thread := Some (if pg_running g then Play_Step else Play_Gone)\<rparr>
      | Some Play_Step \<Rightarrow>
          (case pg_player g of
             None \<Rightarrow> g\<lparr>pg_thread := Some Play_Loop\<rparr>
           | Some pl \<Rightarrow>
               (case engine_round e sy cfg rate channels pl of
                  (pl', ws) \<Rightarrow> g\<lparr>pg_player := Some pl', pg_writes := pg_writes g @ ws, pg_thread := Some Play_Loop\<rparr>))
      | Some Play_Gone \<Rightarrow> g)"

definition engine_stop_ask :: "play_engine \<Rightarrow> play_engine" where
  "engine_stop_ask g = g\<lparr>pg_running := False\<rparr>"

definition engine_stop_joined :: "play_engine \<Rightarrow> play_engine option" where
  "engine_stop_joined g =
     (if pg_thread g = None \<or> pg_thread g = Some Play_Gone
      then Some (g\<lparr>pg_thread := None, pg_player := map_option close_player (pg_player g), pg_state := Svc_Stopped\<rparr>)
      else None)"

definition framesPlayed :: "play_engine \<Rightarrow> u64" where
  "framesPlayed g = (case pg_player g of None \<Rightarrow> 0 | Some pl \<Rightarrow> pl_frames_played pl)"

section \<open>The Streamer's poller\<close>

datatype mon_pc =
  Mon_Loop | Mon_Poll "speaker list" | Mon_Ask speaker "speaker list" | Mon_Wait | Mon_Blocking | Mon_Blocked | Mon_Gone | Mon_Crashed

record monitor =
  mo_running :: bool
  mo_stopping :: bool
  mo_thread :: "mon_pc option"
  mo_state :: service_state
  mo_notified :: bool
  mo_asked :: "string list"
  mo_ticks :: u64

definition mon_new :: monitor where
  "mon_new = \<lparr>mo_running = False, mo_stopping = False, mo_thread = None, mo_state = Svc_Stopped, mo_notified = False, mo_asked = [],
     mo_ticks = 0\<rparr>"

definition mon_start :: "monitor \<Rightarrow> monitor" where
  "mon_start m =
     (if mo_running m then m
      else m\<lparr>mo_running := True, mo_stopping := False, mo_state := Svc_Running, mo_thread := Some Mon_Loop\<rparr>)"

text \<open>The exchange with a speaker goes on, ends, or ends with a reply on which the gateway throws.\<close>

datatype exchange = Ex_Goes_On | Ex_Ends | Ex_Throws

text \<open>The input of a turn: the registry's list at that moment and how the exchange stands. A wait that is over is over by its
  timeout or by a notification, so it always ends; \<open>Mon_Blocking\<close> is the gap between the test of the predicate and the
  block.\<close>

fun mon_turn :: "monitor \<Rightarrow> speaker list \<times> exchange \<Rightarrow> monitor" where
  "mon_turn m (speakers, ex) =
     (case mo_thread m of
        None \<Rightarrow> m
      | Some Mon_Loop \<Rightarrow> m\<lparr>mo_thread := Some (if mo_running m then Mon_Poll speakers else Mon_Gone)\<rparr>
      | Some (Mon_Poll []) \<Rightarrow> m\<lparr>mo_ticks := mo_ticks m + 1, mo_thread := Some Mon_Wait\<rparr>
      | Some (Mon_Poll (sp # sps)) \<Rightarrow> m\<lparr>mo_thread := Some (if mo_stopping m then Mon_Wait else Mon_Ask sp sps)\<rparr>
      | Some (Mon_Ask sp sps) \<Rightarrow>
          if ex = Ex_Goes_On then m
          else m\<lparr>mo_asked := mo_asked m @ [sp_device_id sp], mo_thread := Some (if ex = Ex_Throws then Mon_Crashed else Mon_Poll sps)\<rparr>
      | Some Mon_Wait \<Rightarrow> m\<lparr>mo_thread := Some (if mo_running m then Mon_Blocking else Mon_Loop)\<rparr>
      | Some Mon_Blocking \<Rightarrow> m\<lparr>mo_notified := False, mo_thread := Some Mon_Blocked\<rparr>
      | Some Mon_Blocked \<Rightarrow> m\<lparr>mo_thread := Some Mon_Loop\<rparr>
      | Some Mon_Gone \<Rightarrow> m
      | Some Mon_Crashed \<Rightarrow> m)"

text \<open>\<open>stop\<close>: the two flags, the notification, the end after the \<open>join\<close>.\<close>

definition mon_stop_ask :: "monitor \<Rightarrow> monitor" where
  "mon_stop_ask m =
     (if mo_running m then m\<lparr>mo_stopping := True, mo_running := False, mo_state := Svc_Stopping\<rparr> else m\<lparr>mo_stopping := False\<rparr>)"

definition mon_notify :: "monitor \<Rightarrow> monitor" where
  "mon_notify m = (if mo_thread m = Some Mon_Blocked then m\<lparr>mo_notified := True\<rparr> else m)"

definition mon_stop_joined :: "monitor \<Rightarrow> monitor option" where
  "mon_stop_joined m =
     (if mo_thread m = None \<or> mo_thread m = Some Mon_Gone
      then Some (m\<lparr>mo_thread := None, mo_stopping := False, mo_state := Svc_Stopped\<rparr>) else None)"

section \<open>The link reporter\<close>

datatype link_pc = Link_Loop | Link_Round int "speaker list" | Link_Send int speaker "speaker list" | Link_Nap nat | Link_Gone | Link_Crashed

record link_reporter =
  lr_streamer_id :: string
  lr_interval_ms :: int
  lr_running :: bool
  lr_thread :: "link_pc option"
  lr_state :: service_state
  lr_sent :: "(string \<times> string \<times> json) list"
  lr_reports :: u64

definition link_start :: "link_reporter \<Rightarrow> link_reporter" where
  "link_start l =
     (if lr_running l then l else l\<lparr>lr_running := True, lr_state := Svc_Running, lr_thread := Some Link_Loop\<rparr>)"

definition link_payload :: "link_reporter \<Rightarrow> int \<Rightarrow> json" where
  "link_payload l rssi = JObj [(''streamer_id'', JStr (lr_streamer_id l)), (''wifi_signal_dbm'', JInt rssi)]"

text \<open>The number of naps of 100 ms in one interval.\<close>

definition naps :: "link_reporter \<Rightarrow> nat" where
  "naps l = nat ((lr_interval_ms l + 99) div 100)"

text \<open>The input of a turn: the signal strength, the registry's list, how the exchange stands.\<close>

fun link_turn :: "link_reporter \<Rightarrow> int option \<times> speaker list \<times> exchange \<Rightarrow> link_reporter" where
  "link_turn l (rssi, speakers, ex) =
     (case lr_thread l of
        None \<Rightarrow> l
      | Some Link_Loop \<Rightarrow>
          l\<lparr>lr_thread := Some (if \<not> lr_running l then Link_Gone
                               else case rssi of None \<Rightarrow> Link_Nap (naps l) | Some r \<Rightarrow> Link_Round r speakers)\<rparr>
      | Some (Link_Round r []) \<Rightarrow> l\<lparr>lr_thread := Some (Link_Nap (naps l))\<rparr>
      | Some (Link_Round r (sp # sps)) \<Rightarrow>
          l\<lparr>lr_thread := Some (if \<not> lr_running l then Link_Nap (naps l) else Link_Send r sp sps)\<rparr>
      | Some (Link_Send r sp sps) \<Rightarrow>
          if ex = Ex_Goes_On then l
          else (let l1 = l\<lparr>lr_sent := lr_sent l @ [(sp_device_id sp, ''REPORT_LINK'', link_payload l r)]\<rparr> in
           if ex = Ex_Throws then l1\<lparr>lr_thread := Some Link_Crashed\<rparr>
           else l1\<lparr>lr_reports := lr_reports l + 1, lr_thread := Some (Link_Round r sps)\<rparr>)
      | Some (Link_Nap k) \<Rightarrow>
          l\<lparr>lr_thread := Some (case k of 0 \<Rightarrow> Link_Loop | Suc k' \<Rightarrow> if lr_running l then Link_Nap k' else Link_Loop)\<rparr>
      | Some Link_Gone \<Rightarrow> l
      | Some Link_Crashed \<Rightarrow> l)"

definition link_stop_ask :: "link_reporter \<Rightarrow> link_reporter" where
  "link_stop_ask l = (if lr_running l then l\<lparr>lr_running := False, lr_state := Svc_Stopping\<rparr> else l)"

definition link_stop_joined :: "link_reporter \<Rightarrow> link_reporter option" where
  "link_stop_joined l =
     (if lr_thread l = None \<or> lr_thread l = Some Link_Gone then Some (l\<lparr>lr_thread := None, lr_state := Svc_Stopped\<rparr>) else None)"

section \<open>All five loops end when asked\<close>

definition tcp_left :: "tcp_transport \<Rightarrow> nat" where
  "tcp_left t =
     (case tt_thread t of
        None \<Rightarrow> 0 | Some Tcp_Gone \<Rightarrow> 0 | Some Tcp_Loop \<Rightarrow> 1 | Some (Tcp_Handle _) \<Rightarrow> 2
      | Some (Tcp_Recv req) \<Rightarrow> 3 + (64 * 1024 + 1 - length req)
      | Some Tcp_Accept \<Rightarrow> 1)"

definition tcp_gone :: "tcp_transport \<Rightarrow> bool" where
  "tcp_gone t \<longleftrightarrow> tt_thread t = None \<or> tt_thread t = Some Tcp_Gone"

definition tcp_open :: "tcp_transport \<Rightarrow> nat" where
  "tcp_open t = (case tt_thread t of None \<Rightarrow> 0 | Some Tcp_Gone \<Rightarrow> 0 | Some Tcp_Loop \<Rightarrow> 0 | _ \<Rightarrow> 1)"

lemmas tcp_thread_defs = tcp_left_def tcp_gone_def tcp_open_def

interpretation tcp: stoppable tcp_turn "\<lambda>t. \<not> tt_running t" "\<lambda>t. length (tt_sent t)" tcp_open
    tcp_shutdown "\<lambda>t. \<not> tt_listening t" "\<lambda>i. ti_chunk i = None" tcp_gone tcp_left
  by unfold_locales
    (auto simp: tcp_thread_defs tcp_shutdown_def tcp_accept_def Let_def neq_Nil_conv split: option.splits tcp_pc.splits if_splits)

definition udp_left :: "udp_source \<Rightarrow> nat" where
  "udp_left u = (case us_thread u of None \<Rightarrow> 0 | Some Udp_Gone \<Rightarrow> 0 | Some Udp_Loop \<Rightarrow> 1 | Some Udp_Recv \<Rightarrow> 2)"

definition udp_gone :: "udp_source \<Rightarrow> bool" where
  "udp_gone u \<longleftrightarrow> us_thread u = None \<or> us_thread u = Some Udp_Gone"

definition udp_open :: "udp_source \<Rightarrow> nat" where
  "udp_open u = (if us_thread u = Some Udp_Recv then 1 else 0)"

interpretation udp: stoppable udp_turn "\<lambda>u. \<not> us_running u" "\<lambda>u. length (us_delivered u)" udp_open
    udp_shutdown "\<lambda>u. \<not> us_bound u" "\<lambda>_. False" udp_gone udp_left
  by unfold_locales
    (auto simp: udp_left_def udp_gone_def udp_open_def udp_shutdown_def udp_recv_def split: option.splits udp_pc.splits if_splits)

definition play_left :: "play_engine \<Rightarrow> nat" where
  "play_left g = (case pg_thread g of None \<Rightarrow> 0 | Some Play_Gone \<Rightarrow> 0 | Some Play_Loop \<Rightarrow> 1 | Some Play_Step \<Rightarrow> 2)"

definition play_gone :: "play_engine \<Rightarrow> bool" where
  "play_gone g \<longleftrightarrow> pg_thread g = None \<or> pg_thread g = Some Play_Gone"

definition mon_left :: "monitor \<Rightarrow> nat" where
  "mon_left m =
     (case mo_thread m of
        None \<Rightarrow> 0 | Some Mon_Gone \<Rightarrow> 0 | Some Mon_Crashed \<Rightarrow> 0 | Some Mon_Loop \<Rightarrow> 1 | Some Mon_Blocked \<Rightarrow> 2 | Some Mon_Wait \<Rightarrow> 2
      | Some Mon_Blocking \<Rightarrow> 3 | Some (Mon_Poll _) \<Rightarrow> 3 | Some (Mon_Ask _ _) \<Rightarrow> 4)"

definition mon_over :: "monitor \<Rightarrow> bool" where
  "mon_over m \<longleftrightarrow> mo_thread m = None \<or> mo_thread m = Some Mon_Gone \<or> mo_thread m = Some Mon_Crashed"

definition mon_open :: "monitor \<Rightarrow> nat" where
  "mon_open m = (case mo_thread m of Some (Mon_Ask _ _) \<Rightarrow> 1 | _ \<Rightarrow> 0)"

interpretation mon: stoppable mon_turn "\<lambda>m. \<not> mo_running m \<and> mo_stopping m" "\<lambda>m. length (mo_asked m)" mon_open
    mon_notify "\<lambda>_. True" "\<lambda>i. snd i = Ex_Goes_On" mon_over mon_left
  by unfold_locales
    (auto simp: mon_left_def mon_over_def mon_open_def mon_notify_def split: option.splits mon_pc.splits list.splits if_splits)

text \<open>As long as no reply makes the gateway throw, the thread does not take the process down.\<close>

lemma mon_alive:
  "mo_thread m \<noteq> Some Mon_Crashed \<Longrightarrow> \<forall>i\<in>set ins. snd i \<noteq> Ex_Throws \<Longrightarrow> mo_thread (foldl mon_turn m ins) \<noteq> Some Mon_Crashed"
proof (induction ins arbitrary: m)
  case (Cons i ins)
  have "mo_thread (mon_turn m i) \<noteq> Some Mon_Crashed"
    using Cons.prems by (cases i) (auto split: option.splits mon_pc.splits list.splits)
  from Cons.IH [OF this] Cons.prems(2) show ?case by (simp del: mon_turn.simps)
qed simp

definition link_left :: "link_reporter \<Rightarrow> nat" where
  "link_left l =
     (case lr_thread l of
        None \<Rightarrow> 0 | Some Link_Gone \<Rightarrow> 0 | Some Link_Crashed \<Rightarrow> 0 | Some Link_Loop \<Rightarrow> 1 | Some (Link_Nap _) \<Rightarrow> 2
      | Some (Link_Round _ _) \<Rightarrow> 3 | Some (Link_Send _ _ _) \<Rightarrow> 4)"

definition link_over :: "link_reporter \<Rightarrow> bool" where
  "link_over l \<longleftrightarrow> lr_thread l = None \<or> lr_thread l = Some Link_Gone \<or> lr_thread l = Some Link_Crashed"

definition link_open :: "link_reporter \<Rightarrow> nat" where
  "link_open l = (case lr_thread l of Some (Link_Send _ _ _) \<Rightarrow> 1 | _ \<Rightarrow> 0)"

interpretation link: stoppable link_turn "\<lambda>l. \<not> lr_running l" "\<lambda>l. length (lr_sent l)" link_open
    "\<lambda>l. l" "\<lambda>_. True" "\<lambda>i. snd (snd i) = Ex_Goes_On" link_over link_left
  by unfold_locales
    (auto simp: link_left_def link_over_def link_open_def Let_def split: option.splits link_pc.splits list.splits nat.splits if_splits)

lemma link_alive:
  "lr_thread l \<noteq> Some Link_Crashed \<Longrightarrow> \<forall>i\<in>set ins. snd (snd i) \<noteq> Ex_Throws \<Longrightarrow> lr_thread (foldl link_turn l ins) \<noteq> Some Link_Crashed"
proof (induction ins arbitrary: l)
  case (Cons i ins)
  have "lr_thread (link_turn l i) \<noteq> Some Link_Crashed"
    using Cons.prems by (cases i) (auto simp: Let_def split: option.splits link_pc.splits list.splits nat.splits)
  from Cons.IH [OF this] Cons.prems(2) show ?case by (simp del: link_turn.simps)
qed simp

definition play_open :: "play_engine \<Rightarrow> nat" where
  "play_open g = (if pg_thread g = Some Play_Step then 2 else 0)"

lemma engine_round_writes: "length (snd (engine_round e sy cfg rate channels pl)) \<le> 2"
proof -
  have "length (fst (snd (step e sy cfg pl))) \<le> 1"
    by (auto simp: step_def Let_def split: prod.splits option.splits sum.splits)
  then show ?thesis by (auto simp: engine_round_def split: prod.splits)
qed

lemma engine_turn_writes:
  "\<not> pg_running g \<Longrightarrow> length (pg_writes (engine_turn g i)) + play_open (engine_turn g i) \<le> length (pg_writes g) + play_open g"
proof (cases i)
  case (fields e sy cfg rate channels)
  assume "\<not> pg_running g"
  then show ?thesis
    using engine_round_writes [of e sy cfg rate channels "the (pg_player g)"]
    by (auto simp: fields play_open_def split: option.splits play_pc.splits prod.splits)
qed

interpretation play: stoppable engine_turn "\<lambda>g. \<not> pg_running g" "\<lambda>g. length (pg_writes g)" play_open
    "\<lambda>g. g" "\<lambda>_. True" "\<lambda>_. False" play_gone play_left
  by unfold_locales
    (auto simp: play_left_def play_gone_def engine_turn_writes split: option.splits play_pc.splits if_splits prod.splits
      elim: engine_turn.elims)

lemma thread_bounds:
  "mon_left m \<le> 4" "mon_open m \<le> 1" "link_left l \<le> 4" "link_open l \<le> 1" "udp_left u \<le> 2" "udp_open u \<le> 1"
  "play_left g \<le> 2" "play_open g \<le> 2" "tcp_left t \<le> 65540" "tcp_open t \<le> 1"
  by (auto simp: mon_left_def mon_open_def link_left_def link_open_def udp_left_def udp_open_def play_left_def play_open_def
      tcp_left_def tcp_open_def split: option.splits mon_pc.splits link_pc.splits udp_pc.splits play_pc.splits tcp_pc.splits)

text \<open>The five stops as a whole: \<open>i0\<close> are the turns between the clearing of the flag and the waking, \<open>i1\<close> those after it, up to the
  \<open>join\<close>; None when the thread has not ended by then. But for the playback thread, a service that does not run is left alone.\<close>

definition mon_stopped :: "(speaker list \<times> exchange) list \<Rightarrow> (speaker list \<times> exchange) list \<Rightarrow> monitor \<Rightarrow> monitor option" where
  "mon_stopped i0 i1 m =
     (if \<not> mo_running m then Some (mon_stop_ask m)
      else mon_stop_joined (foldl mon_turn (mon_notify (foldl mon_turn (mon_stop_ask m) i0)) i1))"

definition link_stopped :: "(int option \<times> speaker list \<times> exchange) list \<Rightarrow> link_reporter \<Rightarrow> link_reporter option" where
  "link_stopped i1 l = (if \<not> lr_running l then Some l else link_stop_joined (foldl link_turn (link_stop_ask l) i1))"

definition udp_stopped :: "byte list option list \<Rightarrow> byte list option list \<Rightarrow> udp_source \<Rightarrow> udp_source option" where
  "udp_stopped i0 i1 u =
     (if \<not> us_running u then Some u
      else udp_stop_joined (foldl udp_turn (udp_shutdown (foldl udp_turn (udp_stop_ask u) i0)) i1))"

definition tcp_stopped :: "tcp_input list \<Rightarrow> tcp_input list \<Rightarrow> tcp_transport \<Rightarrow> tcp_transport option" where
  "tcp_stopped i0 i1 t =
     (if \<not> tt_running t then Some t
      else tcp_stop_joined (foldl tcp_turn (tcp_shutdown (foldl tcp_turn (tcp_stop_ask t) i0)) i1))"

definition engine_stopped :: "(player_env \<times> stream_sync \<times> audio_config \<times> nat \<times> nat) list \<Rightarrow> play_engine \<Rightarrow> play_engine option" where
  "engine_stopped i1 g = engine_stop_joined (foldl engine_turn (engine_stop_ask g) i1)"

lemma mon_stop_returns:
  assumes "mo_thread m \<noteq> Some Mon_Crashed" "\<forall>i\<in>set (i0 @ i1). snd i \<noteq> Ex_Throws"
    and "4 \<le> length (filter (\<lambda>i. snd i \<noteq> Ex_Goes_On) i1)"
  shows "\<exists>m'. mon_stopped i0 i1 m = Some m' \<and> length (mo_asked m') \<le> length (mo_asked m) + 1"
proof (cases "mo_running m")
  case True
  let ?a = "mon_stop_ask m" let ?e = "foldl mon_turn (mon_notify (foldl mon_turn ?a i0)) i1"
  have a: "\<not> mo_running ?a \<and> mo_stopping ?a" "mo_asked ?a = mo_asked m" "mo_thread ?a = mo_thread m" "mon_open ?a = mon_open m"
    using True by (simp_all add: mon_stop_ask_def mon_open_def)
  have "mon_over ?e" using mon.stop_ends [OF a(1) thread_bounds(1) assms(3)] .
  moreover have "mo_thread (mon_notify (foldl mon_turn ?a i0)) \<noteq> Some Mon_Crashed"
    using mon_alive [of ?a i0] assms(1,2) a(3) by (simp add: mon_notify_def)
  then have "mo_thread ?e \<noteq> Some Mon_Crashed" using mon_alive [of _ i1] assms(2) by simp
  moreover have "length (mo_asked ?e) \<le> length (mo_asked m) + 1"
    using mon.stop_acts [OF a(1), of i0 i1] a thread_bounds(2) [of m] by simp
  ultimately show ?thesis using True by (auto simp: mon_stopped_def mon_stop_joined_def mon_over_def)
qed (simp add: mon_stopped_def mon_stop_ask_def)

lemma link_stop_returns:
  assumes "lr_thread l \<noteq> Some Link_Crashed" "\<forall>i\<in>set i1. snd (snd i) \<noteq> Ex_Throws"
    and "4 \<le> length (filter (\<lambda>i. snd (snd i) \<noteq> Ex_Goes_On) i1)"
  shows "\<exists>l'. link_stopped i1 l = Some l' \<and> length (lr_sent l') \<le> length (lr_sent l) + 1"
proof (cases "lr_running l")
  case True
  let ?a = "link_stop_ask l" let ?e = "foldl link_turn ?a i1"
  have a: "\<not> lr_running ?a" "lr_sent ?a = lr_sent l" "lr_thread ?a = lr_thread l" "link_open ?a = link_open l"
    using True by (simp_all add: link_stop_ask_def link_open_def)
  have "link_over ?e" using link.stop_ends [OF a(1) thread_bounds(3) assms(3), of "[]"] by simp
  moreover have "lr_thread ?e \<noteq> Some Link_Crashed" using link_alive [of ?a i1] assms(1,2) a(3) by simp
  moreover have "length (lr_sent ?e) \<le> length (lr_sent l) + 1"
    using link.stop_acts [OF a(1), of "[]" i1] a thread_bounds(4) [of l] by simp
  ultimately show ?thesis using True by (auto simp: link_stopped_def link_stop_joined_def link_over_def)
qed (simp add: link_stopped_def)

lemma udp_stop_returns:
  assumes "2 \<le> length i1"
  shows "\<exists>u'. udp_stopped i0 i1 u = Some u' \<and> length (us_delivered u') \<le> length (us_delivered u) + 1"
proof -
  let ?a = "udp_stop_ask u" let ?e = "foldl udp_turn (udp_shutdown (foldl udp_turn ?a i0)) i1"
  have a: "\<not> us_running ?a" "us_delivered ?a = us_delivered u" "udp_open ?a = udp_open u"
    by (simp_all add: udp_stop_ask_def udp_open_def)
  have "udp_gone ?e" using udp.stop_ends [OF a(1) thread_bounds(5), of i1] assms by simp
  moreover have "length (us_delivered ?e) \<le> length (us_delivered u) + 1"
    using udp.stop_acts [OF a(1), of i0 i1] a thread_bounds(6) [of u] by simp
  ultimately show ?thesis by (auto simp: udp_stopped_def udp_stop_joined_def udp_gone_def)
qed

lemma tcp_stop_returns:
  assumes "65540 \<le> length (filter (\<lambda>i. ti_chunk i \<noteq> None) i1)"
  shows "\<exists>t'. tcp_stopped i0 i1 t = Some t' \<and> length (tt_sent t') \<le> length (tt_sent t) + 1"
proof -
  let ?a = "tcp_stop_ask t" let ?e = "foldl tcp_turn (tcp_shutdown (foldl tcp_turn ?a i0)) i1"
  have a: "\<not> tt_running ?a" "tt_sent ?a = tt_sent t" "tcp_open ?a = tcp_open t"
    by (simp_all add: tcp_stop_ask_def tcp_open_def)
  have "tcp_gone ?e" using tcp.stop_ends [OF a(1) thread_bounds(9) assms] .
  moreover have "length (tt_sent ?e) \<le> length (tt_sent t) + 1"
    using tcp.stop_acts [OF a(1), of i0 i1] a thread_bounds(10) [of t] by simp
  ultimately show ?thesis by (auto simp: tcp_stopped_def tcp_stop_joined_def tcp_gone_def)
qed

lemma engine_stop_returns:
  assumes "2 \<le> length i1"
  shows "\<exists>g'. engine_stopped i1 g = Some g' \<and> length (pg_writes g') \<le> length (pg_writes g) + 2"
proof -
  let ?a = "engine_stop_ask g" let ?e = "foldl engine_turn ?a i1"
  have a: "\<not> pg_running ?a" "pg_writes ?a = pg_writes g" "play_open ?a = play_open g"
    by (simp_all add: engine_stop_ask_def play_open_def)
  have "play_gone ?e" using play.stop_ends [OF a(1) thread_bounds(7), of i1 "[]"] assms by simp
  moreover have "length (pg_writes ?e) \<le> length (pg_writes g) + 2"
    using play.stop_acts [OF a(1), of "[]" i1] a thread_bounds(8) [of g] by simp
  ultimately show ?thesis by (auto simp: engine_stopped_def engine_stop_joined_def play_gone_def)
qed


definition demo_unit :: speaker where
  "demo_unit = \<lparr>sp_device_id = ''NX-7'', sp_name = ''Kitchen'', sp_host = ''10.0.0.7'', sp_control_port = 7000\<rparr>"

definition demo_poller :: monitor where
  "demo_poller = \<lparr>mo_running = True, mo_stopping = False, mo_thread = Some (Mon_Ask demo_unit [demo_unit]), mo_state = Svc_Running,
     mo_notified = False, mo_asked = [], mo_ticks = 0\<rparr>"

definition demo_link :: link_reporter where
  "demo_link = \<lparr>lr_streamer_id = ''S'', lr_interval_ms = 2000, lr_running = True, lr_thread = Some (Link_Send (- 50) demo_unit []),
     lr_state = Svc_Running, lr_sent = [], lr_reports = 0\<rparr>"

definition demo_listener :: tcp_transport where
  "demo_listener = \<lparr>tt_running = True, tt_listening = True, tt_thread = Some Tcp_Accept, tt_sent = []\<rparr>"

definition demo_datagrams :: udp_source where
  "demo_datagrams = \<lparr>us_running = True, us_bound = True, us_thread = Some Udp_Recv, us_delivered = []\<rparr>"

definition demo_engine :: play_engine where
  "demo_engine = \<lparr>pg_output = None, pg_player = None, pg_running = True, pg_thread = Some Play_Step, pg_state = Svc_Running, pg_writes = []\<rparr>"

definition demo_hangup :: tcp_input where
  "demo_hangup = \<lparr>ti_accepted = None, ti_chunk = Some [], ti_handler = (\<lambda>_. [])\<rparr>"


section \<open>What the loops do while they run\<close>

text \<open>A sweep of the poller that is not interrupted asks every registered speaker, in order, and counts one tick.\<close>

lemma sweep_asks_all:
  assumes "mo_thread m = Some (Mon_Poll sps)" "\<not> mo_stopping m"
  shows "foldl mon_turn m (replicate (2 * length sps + 1) (reg, Ex_Ends)) =
    m\<lparr>mo_asked := mo_asked m @ map sp_device_id sps, mo_ticks := mo_ticks m + 1, mo_thread := Some Mon_Wait\<rparr>"
  using assms
proof (induction sps arbitrary: m)
  case (Cons sp sps)
  let ?m = "m\<lparr>mo_asked := mo_asked m @ [sp_device_id sp], mo_thread := Some (Mon_Poll sps)\<rparr>"
  have "foldl mon_turn m (replicate (2 * length (sp # sps) + 1) (reg, Ex_Ends)) = foldl mon_turn ?m (replicate (2 * length sps + 1) (reg, Ex_Ends))"
    using Cons.prems by simp
  with Cons.IH [of ?m] Cons.prems show ?case by simp
qed simp

text \<open>A round of the link reporter tells every registered speaker the measured signal under the Streamer's name.\<close>

lemma round_tells_all:
  assumes "lr_thread l = Some (Link_Round r sps)" "lr_running l"
  shows "lr_sent (foldl link_turn l (replicate (2 * length sps + 1) (x, reg, Ex_Ends))) =
    lr_sent l @ map (\<lambda>sp. (sp_device_id sp, ''REPORT_LINK'', link_payload l r)) sps"
  using assms
proof (induction sps arbitrary: l)
  case (Cons sp sps)
  let ?l = "l\<lparr>lr_sent := lr_sent l @ [(sp_device_id sp, ''REPORT_LINK'', link_payload l r)], lr_reports := lr_reports l + 1,
      lr_thread := Some (Link_Round r sps)\<rparr>"
  have "foldl link_turn l (replicate (2 * length (sp # sps) + 1) (x, reg, Ex_Ends)) =
      foldl link_turn ?l (replicate (2 * length sps + 1) (x, reg, Ex_Ends))"
    using Cons.prems by (simp add: link_payload_def)
  with Cons.IH [of ?l] Cons.prems show ?case by (simp add: link_payload_def)
qed simp

text \<open>A Streamer without a radio reports nothing.\<close>

lemma wired_streamer_is_silent:
  assumes "lr_thread l = Some Link_Loop \<or> (\<exists>k. lr_thread l = Some (Link_Nap k))" "\<forall>i\<in>set ins. fst i = None"
  shows "lr_sent (foldl link_turn l ins) = lr_sent l"
proof -
  let ?ok = "\<lambda>l. lr_thread l = Some Link_Loop \<or> lr_thread l = Some Link_Gone \<or> (\<exists>k. lr_thread l = Some (Link_Nap k))"
  have "?ok (link_turn l' i) \<and> lr_sent (link_turn l' i) = lr_sent l'" if "?ok l'" "fst i = None" for l' i
    using that by (cases i) (auto split: nat.splits)
  then have "?ok l' \<Longrightarrow> \<forall>i\<in>set ins. fst i = None \<Longrightarrow> lr_sent (foldl link_turn l' ins) = lr_sent l'" for l'
    by (induction ins arbitrary: l') auto
  with assms show ?thesis by blast
qed

text \<open>The listener hands over the datagrams in the order of arrival; empty ones are dropped.\<close>

lemma datagrams_in_order:
  assumes "us_running u" "us_thread u = Some Udp_Loop"
  shows "us_delivered (foldl udp_turn u (concat (map (\<lambda>d. [None, Some d]) ds))) = us_delivered u @ filter (\<lambda>d. d \<noteq> []) ds"
  using assms
proof (induction ds arbitrary: u)
  case (Cons d ds)
  let ?u = "if d = [] then u else u\<lparr>us_delivered := us_delivered u @ [d]\<rparr>"
  have "foldl udp_turn u [None, Some d] = ?u" using Cons.prems by (cases u) (simp add: udp_recv_def)
  then have "foldl udp_turn u (concat (map (\<lambda>d. [None, Some d]) (d # ds))) = foldl udp_turn ?u (concat (map (\<lambda>d. [None, Some d]) ds))"
    by (simp del: udp_turn.simps)
  with Cons.IH [of ?u] Cons.prems show ?case by (auto simp del: udp_turn.simps)
qed simp

text \<open>The command listener reads a request exactly as \<open>read_request\<close> says, whatever the pieces it arrives in.\<close>

lemma listener_reads_request:
  assumes "tt_thread t = Some (Tcp_Recv req)" "\<forall>b\<in>set bufs. b \<noteq> []"
  shows "\<exists>n \<le> length bufs + 1.
    tt_thread (foldl tcp_turn t (take n (map (\<lambda>b. \<lparr>ti_accepted = None, ti_chunk = Some b, ti_handler = h\<rparr>) (bufs @ [[]])))) =
      Some (Tcp_Handle (read_request req bufs))"
  using assms
proof (induction bufs arbitrary: t req)
  case Nil
  then show ?case by (intro exI [of _ 1]) simp
next
  case (Cons b bufs)
  let ?i = "\<lparr>ti_accepted = None, ti_chunk = Some b, ti_handler = h\<rparr>"
  show ?case
  proof (cases "nl \<in> set (req @ b) \<or> 64 * 1024 < length (req @ b)")
    case True
    with Cons.prems show ?thesis by (intro exI [of _ 1]) (auto simp: Let_def)
  next
    case False
    with Cons.prems have "tt_thread (tcp_turn t ?i) = Some (Tcp_Recv (req @ b))" by (auto simp: Let_def)
    from Cons.IH [OF this] Cons.prems obtain n where "n \<le> length bufs + 1"
      "tt_thread (foldl tcp_turn (tcp_turn t ?i) (take n (map (\<lambda>b. \<lparr>ti_accepted = None, ti_chunk = Some b, ti_handler = h\<rparr>) (bufs @ [[]])))) =
        Some (Tcp_Handle (read_request (req @ b) bufs))"
      by (auto simp del: tcp_turn.simps map_append take_append)
    with False show ?thesis by (intro exI [of _ "Suc n"]) (auto simp: Let_def simp del: tcp_turn.simps)
  qed
qed

section \<open>Where a stop waits\<close>

text \<open>A client that connects and sends nothing holds the only listener thread in \<open>recv\<close>: \<open>stop\<close> shuts the listening socket
  down but not the connection, so its \<open>join\<close> never returns.\<close>

lemma silent_recv_stays:
  "tt_thread t = Some (Tcp_Recv req) \<Longrightarrow> \<forall>i\<in>set ins. ti_chunk i = None \<Longrightarrow> foldl tcp_turn t ins = t"
  by (induction ins) simp_all

lemma silent_client_blocks_stop:
  assumes "tt_thread t = Some (Tcp_Recv req)" "tt_running t" "\<forall>i\<in>set (i0 @ i1). ti_chunk i = None"
  shows "tcp_stopped i0 i1 t = None"
proof -
  have "foldl tcp_turn (tcp_stop_ask t) i0 = tcp_stop_ask t" using assms by (intro silent_recv_stays) (auto simp: tcp_stop_ask_def)
  moreover have "foldl tcp_turn (tcp_shutdown (tcp_stop_ask t)) i1 = tcp_shutdown (tcp_stop_ask t)"
    using assms by (intro silent_recv_stays) (auto simp: tcp_stop_ask_def tcp_shutdown_def)
  ultimately show ?thesis using assms(1,2) by (simp add: tcp_stopped_def tcp_stop_joined_def tcp_stop_ask_def tcp_shutdown_def)
qed

lemma silent_client_reachable:
  assumes "tcp_start None None None tcp_new = Some (t, s)" "ti_accepted i = Some True"
  shows "tt_thread (foldl tcp_turn t [i, i]) = Some (Tcp_Recv [])"
  using assms by (auto simp: tcp_start_def tcp_new_def tcp_accept_def)

text \<open>It is the shutdown that ends the two listeners: while the socket is open, a listener to which nothing comes stays blocked.\<close>

lemma open_sockets_block:
  "us_thread u = Some Udp_Recv \<Longrightarrow> us_bound u \<Longrightarrow> foldl udp_turn u (replicate n None) = u"
  "tt_thread t = Some Tcp_Accept \<Longrightarrow> tt_listening t \<Longrightarrow> ti_accepted i = None \<Longrightarrow> foldl tcp_turn t (replicate n i) = t"
  by (induction n) (simp_all add: udp_recv_def tcp_accept_def)

text \<open>The notification of \<open>stop\<close> is lost when it comes between the test of the predicate and the block, because \<open>stop\<close> does
  not take the mutex: the poller then sleeps out its whole interval.\<close>

lemma wakeup_can_be_lost:
  assumes "mo_thread m = Some Mon_Wait" "mo_running m"
  shows "mo_thread (mon_turn (mon_notify (mon_stop_ask (mon_turn m i))) i) = Some Mon_Blocked"
    "\<not> mo_notified (mon_turn (mon_notify (mon_stop_ask (mon_turn m i))) i)"
  using assms by (cases i, simp add: mon_notify_def mon_stop_ask_def)+

lemma blocked_poller_is_woken:
  "mo_thread m = Some Mon_Blocked \<Longrightarrow> mo_notified (mon_notify (mon_stop_ask m))"
  by (simp add: mon_notify_def mon_stop_ask_def)

text \<open>A speaker that answers with a JSON array makes the gateway throw; neither loop catches it, which ends the process.\<close>

lemma hostile_reply_ends_streamer:
  assumes "sign (canonicalString J \<lparr>command_id = cid, target_id = sp_device_id sp, command_name = ''GET_STATUS'', payload = JObj [],
      expires_at = now + ttl, timestamp = now, signature_b64 = []\<rparr>) = Inr sig"
    and "snd (nextCommandId g ms salt ''GET_STATUS'') = cid" "\<And>l. transport l = Inr ''[]''" "jl_parse J ''[]'' = Some (JArr [])"
    and "mo_thread m = Some (Mon_Ask sp sps)"
  shows "mo_thread (mon_turn m (reg, if fst (snd (dispatch J sign transport g ms now salt (sp_device_id sp) ''GET_STATUS'' (JObj []) ttl True)) = None
      then Ex_Throws else Ex_Ends)) = Some Mon_Crashed"
proof -
  have "fst (snd (dispatch J sign transport g ms now salt (sp_device_id sp) ''GET_STATUS'' (JObj []) ttl True)) = None"
    by (rule gateway_can_throw) (fact assms)+
  with assms(5) show ?thesis by simp
qed

section \<open>Starting again\<close>

text \<open>Each listener starts again after a completed stop; a second start without one ends the process or fails to bind.\<close>

lemma listener_restarts:
  assumes "tcp_stop_joined t = Some t'"
  shows "\<exists>t''. tcp_start None None None t' = Some (t'', success) \<and> tt_thread t'' = Some Tcp_Loop"
  using assms by (auto simp: tcp_stop_joined_def tcp_start_def split: option.splits tcp_pc.splits)

lemma second_start_ends_process: "tt_thread t \<noteq> None \<Longrightarrow> tcp_start None None None t = None"
  by (simp add: tcp_start_def)

lemma engine_restarts:
  assumes "engine_stop_joined g = Some g'"
  shows "\<exists>g''. engine_start dev buf success g' = Some (g'', success) \<and> pg_state g'' = Svc_Running \<and> framesPlayed g'' = framesPlayed g"
  using assms
  by (auto simp: engine_stop_joined_def engine_start_def framesPlayed_def Let_def close_player_def split: if_splits option.splits)

text \<open>The output device is the one configured at the first start; a later change of the configuration does not reach it.\<close>

lemma output_device_is_fixed:
  assumes "pg_output g = Some d" "engine_start dev buf op g = Some (g', s)"
  shows "pg_output g' = Some d"
  using assms by (auto simp: engine_start_def Let_def split: if_splits)

end
