(* ===== verification/Command_Line.thy ===== *)
theory Command_Line
  imports Streamer_App Network_Scan
begin

text \<open>
  The command lines of the two programs: \<open>src/main/main.cpp\<close> with \<open>ApCredentialsCli.cpp\<close> for the speaker and
  \<open>streamer/src/main/StreamerMain.cpp\<close> for the Streamer, from the arguments to the exit code or to the running
  application. Environment variables, the content of the configuration file, the identity and the results of opening and
  starting are parameters; \<open>std::stod\<close> is one too. An exception that leaves \<open>main\<close> ends the process.
\<close>

section \<open>Access-point credentials of the speaker\<close>

text \<open>\<open>read\<close> gives the JSON value at the start of a file, None when the file cannot be opened or the reading throws.\<close>

definition apCredentialsFromConfig :: "json_lib \<Rightarrow> crypto_lib \<Rightarrow> (string \<Rightarrow> json option) \<Rightarrow> string \<Rightarrow> ap_credentials option" where
  "apCredentialsFromConfig J cl read config_path =
     (case read config_path of
        None \<Rightarrow> None
      | Some j \<Rightarrow>
          (case j_find j ''pairing'' of
             None \<Rightarrow> None
           | Some pj \<Rightarrow>
               (case pairing_from_json J pj of
                  None \<Rightarrow> None
                | Some p \<Rightarrow>
                    if \<not> paired p \<or> \<not> isWellFormedStreamerId (streamer_id p) then None
                    else Some (deriveApCredentials cl (streamer_id p)))))"

definition apCredentialsForSsid :: "crypto_lib \<Rightarrow> string \<Rightarrow> ap_credentials option" where
  "apCredentialsForSsid cl ssid =
     (case streamerIdFromApSsid ssid of
        None \<Rightarrow> None
      | Some i \<Rightarrow> if \<not> isWellFormedStreamerId i then None else Some (deriveApCredentials cl i))"

definition credential_lines :: "ap_credentials \<Rightarrow> string list" where
  "credential_lines c = [''NEXUS_AP_SSID='' @ ap_ssid c, ''NEXUS_AP_PASSPHRASE='' @ ap_passphrase c]"

section \<open>The speaker's command line\<close>

record app_options =
  ao_config_path :: string
  ao_identity_path :: string
  ao_secure_dir :: string
  ao_calibration_dir :: string
  ao_log_path :: string
  ao_binary_path :: string

definition options_default :: app_options where
  "options_default =
     \<lparr>ao_config_path = ''/etc/nexus-speaker/config.json'', ao_identity_path = ''/etc/nexus-speaker/identity/factory.json'',
      ao_secure_dir = ''/var/lib/nexus-speaker/secure'', ao_calibration_dir = ''/var/lib/nexus-speaker/calibration'',
      ao_log_path = ''/var/log/nexus-speaker/speaker.log'', ao_binary_path = ''/usr/local/bin/nexus-speaker''\<rparr>"

record speaker_cli =
  sl_options :: app_options
  sl_want_ap :: bool
  sl_for_ssid :: "string option"

definition cli_default :: speaker_cli where
  "cli_default = \<lparr>sl_options = options_default, sl_want_ap = False, sl_for_ssid = None\<rparr>"

definition reroot :: "string \<Rightarrow> app_options \<Rightarrow> app_options" where
  "reroot dir o' =
     o'\<lparr>ao_config_path := dir @ ''/config.json'', ao_identity_path := dir @ ''/identity/factory.json'',
       ao_secure_dir := dir @ ''/secure'', ao_log_path := dir @ ''/speaker.log''\<rparr>"

text \<open>How a program ends at once: its exit code, with the lines of its standard output. The help text is named, not spelt out.\<close>

type_synonym exit = "int \<times> string list"

fun speaker_args :: "speaker_cli \<Rightarrow> string list \<Rightarrow> exit + speaker_cli" where
  "speaker_args c [] = Inr c"
| "speaker_args c [opt] =
     (if opt = ''--ap-credentials'' then Inr (c\<lparr>sl_want_ap := True\<rparr>)
      else if opt = ''--ap-credentials-for-ssid'' then Inl (2, [])
      else if opt = ''--version'' then Inl (0, [''nexus-speaker 0.1.0''])
      else if opt = ''--help'' then Inl (0, [''usage''])
      else Inl (2, [''usage'']))"
| "speaker_args c (opt # v # rest) =
     (if opt = ''--config'' then speaker_args (c\<lparr>sl_options := (sl_options c)\<lparr>ao_config_path := v\<rparr>\<rparr>) rest
      else if opt = ''--data-dir'' then speaker_args (c\<lparr>sl_options := reroot v (sl_options c)\<rparr>) rest
      else if opt = ''--ap-credentials'' then speaker_args (c\<lparr>sl_want_ap := True\<rparr>) (v # rest)
      else if opt = ''--ap-credentials-for-ssid'' then speaker_args (c\<lparr>sl_for_ssid := Some v\<rparr>) rest
      else if opt = ''--version'' then Inl (0, [''nexus-speaker 0.1.0''])
      else if opt = ''--help'' then Inl (0, [''usage''])
      else Inl (2, [''usage'']))"

definition print_credentials :: "ap_credentials option \<Rightarrow> exit" where
  "print_credentials c = (case c of None \<Rightarrow> (1, []) | Some k \<Rightarrow> (0, credential_lines k))"

text \<open>\<open>main\<close> up to the construction of the application: an exit, or the options it starts with.\<close>

definition speaker_main :: "json_lib \<Rightarrow> crypto_lib \<Rightarrow> (string \<Rightarrow> json option) \<Rightarrow> string list \<Rightarrow> exit + app_options" where
  "speaker_main J cl read argv =
     (case speaker_args cli_default argv of
        Inl x \<Rightarrow> Inl x
      | Inr c \<Rightarrow>
          if sl_want_ap c then Inl (print_credentials (apCredentialsFromConfig J cl read (ao_config_path (sl_options c))))
          else case sl_for_ssid c of
            Some ssid \<Rightarrow> Inl (print_credentials (apCredentialsForSsid cl ssid))
          | None \<Rightarrow> Inr (sl_options c))"

section \<open>The Streamer's command line\<close>

fun parseTargets_from :: "string \<Rightarrow> string \<Rightarrow> string list" where
  "parseTargets_from acc [] = (if acc = [] then [] else [acc])"
| "parseTargets_from acc (c # s) =
     (if c = CHR '','' then (if acc = [] then parseTargets_from [] s else acc # parseTargets_from [] s)
      else parseTargets_from (acc @ [c]) s)"

definition parseTargets :: "string \<Rightarrow> endpoint list" where
  "parseTargets csv = map (\<lambda>ip. (ip, kDefaultPort)) (parseTargets_from [] csv)"

definition env_path :: "(string \<Rightarrow> string option) \<Rightarrow> string \<Rightarrow> string \<Rightarrow> string \<Rightarrow> string" where
  "env_path getenv var in_home otherwise =
     (case getenv var of
        Some v \<Rightarrow> if v \<noteq> [] then v
                 else (case getenv ''HOME'' of Some h \<Rightarrow> if h \<noteq> [] then h @ in_home else otherwise | None \<Rightarrow> otherwise)
      | None \<Rightarrow> (case getenv ''HOME'' of Some h \<Rightarrow> if h \<noteq> [] then h @ in_home else otherwise | None \<Rightarrow> otherwise))"

definition identityKeyPath :: "(string \<Rightarrow> string option) \<Rightarrow> string" where
  "identityKeyPath getenv = env_path getenv ''NEXUS_STREAMER_KEY'' ''/.nexus-streamer/identity.key'' ''.nexus-streamer-identity.key''"

definition configPath :: "(string \<Rightarrow> string option) \<Rightarrow> string" where
  "configPath getenv = env_path getenv ''NEXUS_STREAMER_CONFIG'' ''/.nexus-streamer/config.json'' ''.nexus-streamer-config.json''"

record 'd streamer_cli =
  sm_tone_ip :: string
  sm_stream_ips :: string
  sm_play_file :: string
  sm_seconds :: 'd
  sm_lead :: 'd
  sm_serve :: bool
  sm_port :: int
  sm_bind :: string

text \<open>The argument loop; None when \<open>std::stoi\<close> or \<open>std::stod\<close> throws.\<close>

fun streamer_args :: "(string \<Rightarrow> 'd option) \<Rightarrow> 'd streamer_cli \<Rightarrow> string list \<Rightarrow> (exit + 'd streamer_cli) option" where
  "streamer_args stod c [] = Some (Inr c)"
| "streamer_args stod c [opt] =
     (if opt = ''--version'' then Some (Inl (0, [''nexus-streamer 0.2.0'']))
      else if opt = ''--help'' then Some (Inl (0, [''usage'']))
      else Some (Inr (if opt = ''--serve'' then c\<lparr>sm_serve := True\<rparr> else c)))"
| "streamer_args stod c (opt # v # rest) =
     (if opt = ''--version'' then Some (Inl (0, [''nexus-streamer 0.2.0'']))
      else if opt = ''--help'' then Some (Inl (0, [''usage'']))
      else if opt = ''--serve'' then
        (if v \<noteq> [] \<and> hd v = CHR ''-'' then streamer_args stod (c\<lparr>sm_serve := True\<rparr>) (v # rest)
         else (case cpp_stoi v of None \<Rightarrow> None | Some p \<Rightarrow> streamer_args stod (c\<lparr>sm_serve := True, sm_port := p\<rparr>) rest))
      else if opt = ''--stream'' then streamer_args stod (c\<lparr>sm_stream_ips := v\<rparr>) rest
      else if opt = ''--lead'' then (case stod v of None \<Rightarrow> None | Some d \<Rightarrow> streamer_args stod (c\<lparr>sm_lead := d\<rparr>) rest)
      else if opt = ''--tone'' then streamer_args stod (c\<lparr>sm_tone_ip := v\<rparr>) rest
      else if opt = ''--play'' then streamer_args stod (c\<lparr>sm_play_file := v\<rparr>) rest
      else if opt = ''--bind'' then streamer_args stod (c\<lparr>sm_bind := v\<rparr>) rest
      else if opt = ''--seconds'' then (case stod v of None \<Rightarrow> None | Some d \<Rightarrow> streamer_args stod (c\<lparr>sm_seconds := d\<rparr>) rest)
      else streamer_args stod c (v # rest))"

definition streamer_cli_default :: "'d \<Rightarrow> 'd \<Rightarrow> 'd streamer_cli" where
  "streamer_cli_default seconds lead =
     \<lparr>sm_tone_ip = [], sm_stream_ips = [], sm_play_file = [], sm_seconds = seconds, sm_lead = lead, sm_serve = False, sm_port = 8090,
      sm_bind = ''127.0.0.1''\<rparr>"

text \<open>The audio a command line starts: nothing, an error, or a source with its targets.\<close>

datatype 'd first_source = Given source_choice | Tone 'd

definition audio_plan :: "source_env \<Rightarrow> 'd streamer_cli \<Rightarrow> (string + 'd first_source \<times> endpoint list) option" where
  "audio_plan se c =
     (if sm_stream_ips c \<noteq> [] then Some (Inr (Given Stdin_Source, parseTargets (sm_stream_ips c)))
      else if sm_play_file c \<noteq> [] then
        Some (case makeSource se (''file'', sm_play_file c) of
                Inl e \<Rightarrow> Inl (st_message e)
              | Inr src \<Rightarrow>
                  (let targets = parseTargets (if sm_stream_ips c = [] then sm_tone_ip c else sm_stream_ips c)
                   in if targets = [] then Inl ''--play needs a target (--stream <ip> or --tone <ip>)'' else Inr (Given src, targets)))
      else if sm_tone_ip c \<noteq> [] then Some (Inr (Tone (sm_seconds c), [(sm_tone_ip c, kDefaultPort)]))
      else None)"

text \<open>What \<open>main\<close> relies on: loading the identity at a path (its identifier), opening the UDP socket, starting the
  application with the web port and bind address, starting the audio, and \<open>run\<close>'s exit code.\<close>

record 'd main_env =
  me_getenv :: "string \<Rightarrow> string option"
  me_stod :: "string \<Rightarrow> 'd option"
  me_identity :: "string \<Rightarrow> string result"
  me_sink :: bool
  me_startup :: "int \<Rightarrow> string \<Rightarrow> string \<Rightarrow> 'd \<Rightarrow> status"
  me_sources :: source_env
  me_playTo :: "endpoint list \<Rightarrow> 'd first_source \<Rightarrow> status"
  me_run :: int

datatype 'd end_state =
  Ended exit
| Sent "'d first_source option" "endpoint list"
| Served int string "('d first_source \<times> endpoint list) option" int

definition streamer_main :: "crypto_lib \<Rightarrow> 'd main_env \<Rightarrow> 'd \<Rightarrow> 'd \<Rightarrow> string list \<Rightarrow> 'd end_state option" where
  "streamer_main cl v seconds lead argv =
     (case streamer_args (me_stod v) (streamer_cli_default seconds lead) argv of
        None \<Rightarrow> None
      | Some (Inl x) \<Rightarrow> Some (Ended x)
      | Some (Inr c) \<Rightarrow>
          Some
            (if ''--ap-credentials'' \<in> set argv then
               (case me_identity v (identityKeyPath (me_getenv v)) of
                  Inl _ \<Rightarrow> Ended (1, [])
                | Inr sid \<Rightarrow> Ended (0, credential_lines (deriveApCredentials cl sid)))
             else if \<not> sm_serve c \<and> sm_stream_ips c = [] \<and> sm_tone_ip c = [] \<and> sm_play_file c = [] then Ended (0, [])
             else
               (case me_identity v (identityKeyPath (me_getenv v)) of
                  Inl _ \<Rightarrow> Ended (1, [])
                | Inr sid \<Rightarrow>
                    if \<not> me_sink v then Ended (1, [])
                    else if \<not> st_ok (me_startup v (sm_port c) (sm_bind c) (configPath (me_getenv v)) (sm_lead c)) then Ended (1, [])
                    else
                      (case audio_plan (me_sources v) c of
                         None \<Rightarrow> if sm_serve c then Served (sm_port c) (sm_bind c) None (me_run v) else Sent None []
                       | Some (Inl _) \<Rightarrow> Ended (1, [])
                       | Some (Inr (src, targets)) \<Rightarrow>
                           if \<not> st_ok (me_playTo v targets src) then Ended (1, [])
                           else if sm_serve c then Served (sm_port c) (sm_bind c) (Some (src, targets)) (me_run v)
                           else Sent (Some src) targets))))"

text \<open>The test tone, over the reals: a 440 Hz sine of amplitude 8000 on both channels, truncated to integers.\<close>

definition tone_sample :: "nat \<Rightarrow> int" where
  "tone_sample f = (let s = sin (2 * pi * 440 * real f / 48000) * 8000 in if s < 0 then \<lceil>s\<rceil> else \<lfloor>s\<rfloor>)"

definition makeTone :: "real \<Rightarrow> int list" where
  "makeTone seconds = concat (map (\<lambda>f. [tone_sample f, tone_sample f]) [0..<nat \<lfloor>seconds * 48000\<rfloor>])"

lemma tone_fits: "- 8000 \<le> tone_sample f \<and> tone_sample f \<le> 8000"
proof -
  define s where "s = sin (2 * pi * 440 * real f / 48000) * 8000"
  have "- 8000 \<le> s" "s \<le> 8000" by (simp_all add: s_def)
  moreover have "tone_sample f = (if s < 0 then \<lceil>s\<rceil> else \<lfloor>s\<rfloor>)" by (simp only: tone_sample_def s_def Let_def)
  ultimately show ?thesis
    using ceiling_mono [of "- 8000" s] ceiling_mono [of s 8000] floor_mono [of "- 8000" s] floor_mono [of s 8000] by simp
qed

text \<open>Every sample of the tone fits 16 bits, both channels are equal, and the length is the duration's whole frames.\<close>

lemma tone_is_stereo:
  assumes "0 \<le> seconds"
  shows "length (makeTone seconds) = 2 * nat \<lfloor>seconds * 48000\<rfloor>"
    "\<forall>x\<in>set (makeTone seconds). - (2 ^ 15) \<le> x \<and> x < 2 ^ 15"
proof -
  show "length (makeTone seconds) = 2 * nat \<lfloor>seconds * 48000\<rfloor>"
    by (simp add: makeTone_def length_concat comp_def sum_list_triv)
  show "\<forall>x\<in>set (makeTone seconds). - (2 ^ 15) \<le> x \<and> x < 2 ^ 15"
  proof
    fix x assume "x \<in> set (makeTone seconds)"
    then obtain f where "x = tone_sample f" by (auto simp: makeTone_def)
    with tone_fits [of f] show "- (2 ^ 15) \<le> x \<and> x < 2 ^ 15" by simp
  qed
qed

section \<open>Targets\<close>

fun comma_list :: "string list \<Rightarrow> string" where
  "comma_list [] = []"
| "comma_list [ip] = ip"
| "comma_list (ip # ips) = ip @ CHR '','' # comma_list ips"

lemma targets_of_field:
  "CHR '','' \<notin> set ip \<Longrightarrow> parseTargets_from acc (ip @ s) = parseTargets_from (acc @ ip) s"
  by (induction ip arbitrary: acc) auto

text \<open>The list of addresses the operator writes is the list of endpoints, in order.\<close>

lemma targets_read_back:
  assumes "\<forall>ip\<in>set ips. ip \<noteq> [] \<and> CHR '','' \<notin> set ip"
  shows "parseTargets (comma_list ips) = map (\<lambda>ip. (ip, kDefaultPort)) ips"
proof -
  have "parseTargets_from [] (comma_list ips) = ips"
    using assms
  proof (induction ips rule: comma_list.induct)
    case (2 ip)
    then show ?case using targets_of_field [of ip "[]" "[]"] by simp
  next
    case (3 ip v va)
    then show ?case by (simp add: targets_of_field)
  qed simp
  then show ?thesis by (simp add: parseTargets_def)
qed

section \<open>The two programs derive the same access point\<close>

lemma wellformed_ssid: "isWellFormedStreamerId i \<Longrightarrow> apCredentialsForSsid cl (''Nexus-'' @ i) = Some (deriveApCredentials cl i)"
  using ap_ssid_roundtrip [of i cl] by (simp add: apCredentialsForSsid_def deriveApCredentials_def)

text \<open>The speaker's bootstrap joins the Streamer's access point. When the Streamer's identifier is well formed, whatever
  \<open>nexus-streamer --ap-credentials\<close> prints is exactly what \<open>nexus-speaker --ap-credentials-for-ssid\<close> prints for the SSID
  on the air, and what a speaker paired with that Streamer prints for \<open>--ap-credentials\<close>; in each of the three every character after
  the equals sign is a letter, a digit or a dash, so the shell scripts that read the lines see one word.
\<close>

theorem ap_credentials_agree:
  assumes "isWellFormedStreamerId sid" "me_identity v (identityKeyPath (me_getenv v)) = Inr sid"
    and "\<And>s. list_all hex_digit (cl_sha256Hex cl s)"
    and "read (ao_config_path options_default) = Some (JObj [(''pairing'', pairing_to_json p)])" "paired p" "streamer_id p = sid" "getters_exact J"
  shows "\<exists>out. streamer_main cl v seconds lead [''--ap-credentials''] = Some (Ended (0, out)) \<and>
    speaker_main J cl read [''--ap-credentials-for-ssid'', ''Nexus-'' @ sid] = Inl (0, out) \<and>
    speaker_main J cl read [''--ap-credentials''] = Inl (0, out) \<and>
    list_all (list_all (\<lambda>c. hex_digit c \<or> c \<in> set ''NexusSTR-'')) (map (\<lambda>l. tl (dropWhile (\<lambda>c. c \<noteq> CHR ''='') l)) out)"
proof -
  let ?c = "deriveApCredentials cl sid"
  have "sid = ''STR-'' @ drop 4 sid" "list_all hex_digit (drop 4 sid)"
    using assms(1) append_take_drop_id [of 4 sid] by (simp_all add: isWellFormedStreamerId_def)
  moreover from this(2) have "list_all (\<lambda>c. hex_digit c \<or> c \<in> set ''NexusSTR-'') (''STR-'' @ drop 4 sid)"
    by (auto simp: list_all_iff)
  ultimately have s: "list_all (\<lambda>c. hex_digit c \<or> c \<in> set ''NexusSTR-'') sid" by metis
  have k: "list_all (\<lambda>c. hex_digit c \<or> c \<in> set ''NexusSTR-'') (ap_passphrase ?c)"
    using assms(3) [of "''nexus-audio-ap-v1:'' @ sid"] by (auto simp: deriveApCredentials_def list_all_iff dest: in_set_takeD)
  have "apCredentialsFromConfig J cl read (ao_config_path options_default) = Some ?c"
    using assms by (simp add: apCredentialsFromConfig_def pairing_roundtrip)
  moreover have "list_all (list_all (\<lambda>c. hex_digit c \<or> c \<in> set ''NexusSTR-'')) (map (\<lambda>l. tl (dropWhile (\<lambda>c. c \<noteq> CHR ''='') l)) (credential_lines ?c))"
    using s k by (simp add: credential_lines_def) (simp add: deriveApCredentials_def)
  ultimately show ?thesis
    using assms(1,2) wellformed_ssid [OF assms(1), of cl]
    by (intro exI [of _ "credential_lines ?c"])
      (simp add: streamer_main_def speaker_main_def streamer_cli_default_def cli_default_def print_credentials_def options_default_def)
qed

definition demo_digest :: crypto_lib where
  "demo_digest = \<lparr>cl_toBase64 = (\<lambda>m. m), cl_verifyEd25519 = (\<lambda>_ _ _. False), cl_sha256Hex = (\<lambda>_. replicate 64 (CHR ''a''))\<rparr>"

definition demo_main :: "real main_env" where
  "demo_main =
     \<lparr>me_getenv = (\<lambda>_. None), me_stod = (\<lambda>_. None), me_identity = (\<lambda>_. Inr ''STR-0123abcd''), me_sink = True,
      me_startup = (\<lambda>_ _ _ _. success), me_sources = \<lparr>se_platform = Linux, se_wav = (\<lambda>_. success), se_popen = (\<lambda>_. True)\<rparr>,
      me_playTo = (\<lambda>_ _. success), me_run = 0\<rparr>"

theorem ap_credentials_agree_witness:
  "\<exists>out. streamer_main demo_digest demo_main 2 1 [''--ap-credentials''] = Some (Ended (0, out)) \<and>
    speaker_main (demo_lib [] JNull) demo_digest (\<lambda>_. Some (JObj [(''pairing'', pairing_to_json \<lparr>paired = True, streamer_id = ''STR-0123abcd'', streamer_public_key = []\<rparr>)]))
      [''--ap-credentials-for-ssid'', ''Nexus-'' @ ''STR-0123abcd''] = Inl (0, out) \<and>
    speaker_main (demo_lib [] JNull) demo_digest (\<lambda>_. Some (JObj [(''pairing'', pairing_to_json \<lparr>paired = True, streamer_id = ''STR-0123abcd'', streamer_public_key = []\<rparr>)]))
      [''--ap-credentials''] = Inl (0, out) \<and>
    list_all (list_all (\<lambda>c. hex_digit c \<or> c \<in> set ''NexusSTR-'')) (map (\<lambda>l. tl (dropWhile (\<lambda>c. c \<noteq> CHR ''='') l)) out)"
  by (rule ap_credentials_agree [where p = "\<lparr>paired = True, streamer_id = ''STR-0123abcd'', streamer_public_key = []\<rparr>"])
    (simp_all add: demo_main_def demo_digest_def isWellFormedStreamerId_def hex_digit_def list_all_iff)

section \<open>What the command lines do with mistakes\<close>

definition streamer_known :: "string list" where
  "streamer_known = [''--version'', ''--help'', ''--serve'', ''--stream'', ''--lead'', ''--tone'', ''--play'', ''--bind'', ''--seconds'']"

text \<open>The Streamer skips an argument it does not know; the speaker refuses it with exit code 2.\<close>

lemma streamer_skips_unknown: "opt \<notin> set streamer_known \<Longrightarrow> streamer_args stod c (opt # rest) = streamer_args stod c rest"
  by (cases rest) (simp_all add: streamer_known_def)

lemma speaker_refuses_unknown:
  "opt \<notin> {''--config'', ''--data-dir'', ''--ap-credentials'', ''--ap-credentials-for-ssid'', ''--version'', ''--help''} \<Longrightarrow>
     speaker_main J cl read (opt # rest) = Inl (2, [''usage''])"
  by (cases rest) (simp_all add: speaker_main_def)

text \<open>A number that does not parse leaves \<open>main\<close> as an exception.\<close>

lemma bad_port_throws: "streamer_main cl v seconds lead [''--serve'', ''web''] = None"
  by (simp add: streamer_main_def cpp_stoi_def is_blank_def dec_digit_def)

text \<open>With both \<open>--play\<close> and \<open>--stream\<close> the file is never opened: standard input is streamed to the targets.\<close>

lemma play_with_stream_ignores_file:
  "sm_stream_ips c \<noteq> [] \<Longrightarrow> audio_plan se c = Some (Inr (Given Stdin_Source, parseTargets (sm_stream_ips c)))"
  by (simp add: audio_plan_def)

lemma play_and_stream_plays_stdin:
  "streamer_main cl demo_main 2 1 [''--play'', ''song.wav'', ''--stream'', ''10.0.0.5''] =
     Some (Sent (Some (Given Stdin_Source)) [(''10.0.0.5'', kDefaultPort)])"
  by (simp add: streamer_main_def streamer_cli_default_def audio_plan_def demo_main_def parseTargets_def)

text \<open>Without \<open>--serve\<close> the whole application, its web server included, is started all the same: a one-shot tone is not sent when that
  fails.\<close>

lemma one_shot_starts_application:
  assumes "me_identity v (identityKeyPath (me_getenv v)) = Inr sid" "me_sink v" "\<And>b c l. \<not> st_ok (me_startup v 8090 b c l)"
    "ip \<noteq> []" "ip \<noteq> ''--ap-credentials''"
  shows "streamer_main cl v seconds lead [''--tone'', ip] = Some (Ended (1, []))"
  using assms by (simp add: streamer_main_def streamer_cli_default_def)

text \<open>\<open>--data-dir\<close> leaves the calibration directory and the binary where they are.\<close>

lemma data_dir_reroots_some:
  "speaker_main J cl read [''--data-dir'', ''/tmp/nx''] =
     Inr (options_default\<lparr>ao_config_path := ''/tmp/nx/config.json'', ao_identity_path := ''/tmp/nx/identity/factory.json'',
       ao_secure_dir := ''/tmp/nx/secure'', ao_log_path := ''/tmp/nx/speaker.log''\<rparr>)"
  by (simp add: speaker_main_def cli_default_def reroot_def)

text \<open>A speaker that is not paired, or whose stored Streamer identifier has another shape, prints no credentials.\<close>

lemma unpaired_prints_nothing:
  assumes "apCredentialsFromConfig J cl read path = Some c"
  shows "\<exists>sid. isWellFormedStreamerId sid \<and> c = deriveApCredentials cl sid"
  using assms by (auto simp: apCredentialsFromConfig_def split: option.splits if_splits)

end
