(* ===== verification/Discovery_Mdns.thy ===== *)
theory Discovery_Mdns
  imports Streamer_Pairing Services
begin

text \<open>
  Discovery over multicast DNS, both ways: the speaker's setup beacon and its browsing for Streamers
  (\<open>src/discovery/AvahiDiscoveryHal.cpp\<close>), the Streamer's announcement and its browsing for speakers
  (\<open>streamer/src/discovery/AvahiStreamerDiscovery.cpp\<close>), and the service that owns the announcement
  (\<open>streamer/src/discovery/DiscoveryService.h\<close>). The Avahi library is a parameter: which calls fail, in which order it calls back, and how
  it looks up a TXT entry. A browse is at most fifty polls; what each poll calls back is given.
\<close>

section \<open>TXT records and services\<close>

text \<open>\<open>av_find\<close> is \<open>avahi_string_list_find\<close>, \<open>av_pair\<close> the value \<open>avahi_string_list_get_pair\<close> extracts (None when it fails or there is none).\<close>

record avahi_lib =
  av_find :: "string list \<Rightarrow> string \<Rightarrow> string option"
  av_pair :: "string \<Rightarrow> string option"

record service =
  sv_name :: string
  sv_type :: string
  sv_port :: nat
  sv_txt :: "string list"

text \<open>What a resolver reports: name, host name and address may be absent.\<close>

record resolved =
  rs_name :: "string option"
  rs_host_name :: "string option"
  rs_addr :: "string option"
  rs_port :: nat
  rs_txt :: "string list"

definition txtValue :: "avahi_lib \<Rightarrow> string list \<Rightarrow> string \<Rightarrow> string \<Rightarrow> string" where
  "txtValue av entries key out =
     (case av_find av entries key of None \<Rightarrow> out | Some e \<Rightarrow> (case av_pair av e of None \<Rightarrow> out | Some v \<Rightarrow> v))"

definition txt_entry :: "string \<Rightarrow> string \<Rightarrow> string" where
  "txt_entry k v = k @ CHR ''='' # v"

section \<open>Browsing\<close>

text \<open>The callbacks of one browse: the browser's events, and a resolver that has finished (None when it failed).\<close>

datatype callback = Browser_New | Browser_All_For_Now | Browser_Failure | Browser_Other | Resolver "resolved option"

record 'r browse_ctx =
  bc_found :: "'r list"
  bc_pending :: int
  bc_all_for_now :: bool
  bc_quit :: bool

definition ctx_new :: "'r browse_ctx" where
  "ctx_new = \<lparr>bc_found = [], bc_pending = 0, bc_all_for_now = False, bc_quit = False\<rparr>"

definition maybeQuit :: "'r browse_ctx \<Rightarrow> 'r browse_ctx" where
  "maybeQuit c = (if bc_all_for_now c \<and> bc_pending c = 0 then c\<lparr>bc_quit := True\<rparr> else c)"

definition resolveCallback :: "(resolved \<Rightarrow> 'r) \<Rightarrow> 'r browse_ctx \<Rightarrow> resolved option \<Rightarrow> 'r browse_ctx" where
  "resolveCallback mk c r =
     (let c1 = (case r of None \<Rightarrow> c | Some x \<Rightarrow> c\<lparr>bc_found := bc_found c @ [mk x]\<rparr>)
      in maybeQuit (c1\<lparr>bc_pending := bc_pending c1 - 1\<rparr>))"

definition browseCallback :: "(resolved \<Rightarrow> 'r) \<Rightarrow> 'r browse_ctx \<Rightarrow> callback \<Rightarrow> 'r browse_ctx" where
  "browseCallback mk c ev =
     (case ev of
        Browser_New \<Rightarrow> c\<lparr>bc_pending := bc_pending c + 1\<rparr>
      | Browser_All_For_Now \<Rightarrow> maybeQuit (c\<lparr>bc_all_for_now := True\<rparr>)
      | Browser_Failure \<Rightarrow> c\<lparr>bc_quit := True\<rparr>
      | Browser_Other \<Rightarrow> c
      | Resolver r \<Rightarrow> resolveCallback mk c r)"

text \<open>The polling loop: what poll \<open>i\<close> calls back and returns is given; \<open>n\<close> pumps are left. The result carries the number of the
  first poll not made.\<close>

fun browse_loop ::
  "(resolved \<Rightarrow> 'r) \<Rightarrow> (nat \<Rightarrow> callback list \<times> int) \<Rightarrow> nat \<Rightarrow> nat \<Rightarrow> 'r browse_ctx \<Rightarrow> 'r browse_ctx \<times> nat" where
  "browse_loop mk pumps 0 i c = (c, i)"
| "browse_loop mk pumps (Suc n) i c =
     (case pumps i of (cbs, rc) \<Rightarrow>
        (let c' = foldl (browseCallback mk) c cbs in
         if rc \<noteq> 0 then (c', Suc i)
         else if bc_all_for_now c' \<and> bc_pending c' = 0 then (c', Suc i)
         else browse_loop mk pumps n (Suc i) c'))"

text \<open>Which set-up calls of the library fail: the poll, the client (with the error's text), the browser.\<close>

record browse_setup =
  bs_poll :: bool
  bs_client :: "string option"
  bs_browser :: bool

definition browse :: "(resolved \<Rightarrow> 'r) \<Rightarrow> browse_setup \<Rightarrow> (nat \<Rightarrow> callback list \<times> int) \<Rightarrow> 'r list result" where
  "browse mk s pumps =
     (if \<not> bs_poll s then Inl (mk_error Ec_IoError ''avahi_simple_poll_new failed'')
      else case bs_client s of
        Some e \<Rightarrow> Inl (mk_error Ec_IoError (''avahi_client_new: '' @ e))
      | None \<Rightarrow>
          if \<not> bs_browser s then Inl (mk_error Ec_IoError ''service_browser_new failed'')
          else Inr (bc_found (fst (browse_loop mk pumps 50 0 ctx_new))))"

text \<open>The Streamer's view of a resolved speaker.\<close>

definition discovered_of :: "avahi_lib \<Rightarrow> resolved \<Rightarrow> discovered_speaker" where
  "discovered_of av r =
     (let setup = txtValue av (rs_txt r) ''setup_mode'' []
      in \<lparr>ds_device_id = txtValue av (rs_txt r) ''device_id'' (case rs_name r of None \<Rightarrow> [] | Some n \<Rightarrow> n),
          ds_host = (case rs_addr r of Some a \<Rightarrow> a | None \<Rightarrow> (case rs_host_name r of Some h \<Rightarrow> h | None \<Rightarrow> [])),
          ds_box_public_key = txtValue av (rs_txt r) ''box_public_key'' [],
          ds_control_port = int (rs_port r),
          ds_setup_mode = (setup = ''1'' \<or> setup = ''true'')\<rparr>)"

definition browseSpeakers :: "avahi_lib \<Rightarrow> browse_setup \<Rightarrow> (nat \<Rightarrow> callback list \<times> int) \<Rightarrow> discovered_speaker list result" where
  "browseSpeakers av = browse (discovered_of av)"

text \<open>The speaker's view of a resolved Streamer.\<close>

definition record_of :: "avahi_lib \<Rightarrow> resolved \<Rightarrow> streamer_record" where
  "record_of av r =
     \<lparr>sr_id = (case rs_name r of None \<Rightarrow> [] | Some n \<Rightarrow> n),
      sr_host = (case rs_host_name r of None \<Rightarrow> [] | Some h \<Rightarrow> h),
      sr_port = int (rs_port r),
      sr_public_key = txtValue av (rs_txt r) ''public_key'' []\<rparr>"

text \<open>The speaker has the same callbacks over its own kind of record.\<close>

definition hal_resolveCallback :: "avahi_lib \<Rightarrow> streamer_record browse_ctx \<Rightarrow> resolved option \<Rightarrow> streamer_record browse_ctx" where
  "hal_resolveCallback av = resolveCallback (record_of av)"

definition hal_browseCallback :: "avahi_lib \<Rightarrow> streamer_record browse_ctx \<Rightarrow> callback \<Rightarrow> streamer_record browse_ctx" where
  "hal_browseCallback av = browseCallback (record_of av)"

definition browseStreamers :: "avahi_lib \<Rightarrow> browse_setup \<Rightarrow> (nat \<Rightarrow> callback list \<times> int) \<Rightarrow> streamer_record list result" where
  "browseStreamers av = browse (record_of av)"

section \<open>The speaker's beacon\<close>

record speaker_beacon =
  bn_device_id :: string
  bn_model :: string
  bn_software_version :: string
  bn_box_public_key :: string
  bn_control_port :: int
  bn_setup_mode :: bool

definition speaker_service :: string where
  "speaker_service = ''_nexus-speaker._tcp''"

definition streamer_service :: string where
  "streamer_service = ''_nexus-streamer._tcp''"

definition beacon_service :: "speaker_beacon \<Rightarrow> service" where
  "beacon_service b =
     \<lparr>sv_name = bn_device_id b, sv_type = speaker_service, sv_port = nat (bn_control_port b mod 65536),
      sv_txt = [txt_entry ''device_id'' (bn_device_id b), txt_entry ''model'' (bn_model b),
        txt_entry ''software_version'' (bn_software_version b), txt_entry ''box_public_key'' (bn_box_public_key b),
        txt_entry ''setup_mode'' (if bn_setup_mode b then ''1'' else ''0'')]\<rparr>"

text \<open>The library objects the class holds, and the committed services of its group.\<close>

record beacon_hal =
  bh_poll :: bool
  bh_client :: bool
  bh_group :: "service list option"

definition hal_new :: beacon_hal where
  "hal_new = \<lparr>bh_poll = False, bh_client = False, bh_group = None\<rparr>"

definition stopBeacon :: "beacon_hal \<Rightarrow> beacon_hal" where
  "stopBeacon h = h\<lparr>bh_group := None, bh_client := False, bh_poll := False\<rparr>"

text \<open>For each library call of \<open>publishBeacon\<close>, whether it succeeds (or the text of its error).\<close>

record publish_calls =
  pc_poll :: bool
  pc_client :: "string option"
  pc_group :: bool
  pc_add :: "string option"
  pc_commit :: bool

definition publishBeacon :: "publish_calls \<Rightarrow> beacon_hal \<Rightarrow> speaker_beacon \<Rightarrow> beacon_hal \<times> status" where
  "publishBeacon k h0 b =
     (let h = stopBeacon h0 in
      if \<not> pc_poll k then (h, mk_error Ec_IoError ''avahi_simple_poll_new failed'')
      else
        (let h1 = h\<lparr>bh_poll := True\<rparr> in
         case pc_client k of
           Some e \<Rightarrow> (h1, mk_error Ec_IoError (''avahi_client_new: '' @ e))
         | None \<Rightarrow>
             (let h2 = h1\<lparr>bh_client := True\<rparr> in
              if \<not> pc_group k then (h2, mk_error Ec_IoError ''avahi_entry_group_new failed'')
              else
                (let h3 = h2\<lparr>bh_group := Some []\<rparr> in
                 case pc_add k of
                   Some e \<Rightarrow> (h3, mk_error Ec_IoError (''add_service: '' @ e))
                 | None \<Rightarrow>
                     if \<not> pc_commit k then (h3, mk_error Ec_IoError ''entry_group_commit failed'')
                     else (h3\<lparr>bh_group := Some [beacon_service b]\<rparr>, success)))))"

section \<open>The Streamer's announcement\<close>

record advertisement =
  ad_streamer_id :: string
  ad_public_key :: string
  ad_port :: int

definition streamer_announcement :: "advertisement \<Rightarrow> service" where
  "streamer_announcement a =
     \<lparr>sv_name = ad_streamer_id a, sv_type = streamer_service, sv_port = nat (ad_port a mod 65536),
      sv_txt = [txt_entry ''streamer_id'' (ad_streamer_id a), txt_entry ''public_key'' (ad_public_key a)]\<rparr>"

text \<open>The entry group: the services added to it and whether they have been committed.\<close>

record entry_group =
  eg_services :: "service list"
  eg_committed :: bool

record publish_ctx =
  px_ad :: advertisement
  px_group :: "entry_group option"

record add_calls =
  ac_group :: bool
  ac_add :: bool
  ac_commit :: bool

definition addService :: "add_calls \<Rightarrow> publish_ctx \<Rightarrow> publish_ctx" where
  "addService k p =
     (case (case px_group p of Some g \<Rightarrow> Some g | None \<Rightarrow> if ac_group k then Some \<lparr>eg_services = [], eg_committed = False\<rparr> else None) of
        None \<Rightarrow> p
      | Some g \<Rightarrow>
          if eg_services g \<noteq> [] then p\<lparr>px_group := Some g\<rparr>
          else if \<not> ac_add k then p\<lparr>px_group := Some g\<rparr>
          else p\<lparr>px_group := Some \<lparr>eg_services = [streamer_announcement (px_ad p)], eg_committed = ac_commit k\<rparr>\<rparr>)"

datatype client_state = C_Running add_calls | C_Failure | C_Collision | C_Registering | C_Connecting

definition clientCallback :: "publish_ctx \<Rightarrow> client_state \<Rightarrow> publish_ctx" where
  "clientCallback p st =
     (case st of
        C_Running k \<Rightarrow> addService k p
      | C_Failure \<Rightarrow> p
      | C_Collision \<Rightarrow> p\<lparr>px_group := map_option (\<lambda>_. \<lparr>eg_services = [], eg_committed = False\<rparr>) (px_group p)\<rparr>
      | C_Registering \<Rightarrow> p\<lparr>px_group := map_option (\<lambda>_. \<lparr>eg_services = [], eg_committed = False\<rparr>) (px_group p)\<rparr>
      | C_Connecting \<Rightarrow> p)"

text \<open>The entry group's own callback writes log lines only. What the class holds: the poll thread, the client, the context.\<close>

record announcer =
  an_poll :: bool
  an_running :: bool
  an_client :: bool
  an_ctx :: "publish_ctx option"

definition announcer_new :: announcer where
  "announcer_new = \<lparr>an_poll = False, an_running = False, an_client = False, an_ctx = None\<rparr>"

definition sd_stopAdvertising :: "announcer \<Rightarrow> announcer" where
  "sd_stopAdvertising a = a\<lparr>an_poll := False, an_running := False, an_client := False, an_ctx := None\<rparr>"

record advertise_calls =
  vc_poll :: bool
  vc_client :: "string option"
  vc_start :: bool

text \<open>\<open>advertise\<close>; the client may call back before \<open>avahi_client_new\<close> returns, with the given states.\<close>

definition sd_advertise :: "advertise_calls \<Rightarrow> client_state list \<Rightarrow> announcer \<Rightarrow> advertisement \<Rightarrow> announcer \<times> status" where
  "sd_advertise k early a0 ad =
     (let a = (sd_stopAdvertising a0)\<lparr>an_ctx := Some \<lparr>px_ad = ad, px_group = None\<rparr>\<rparr> in
      if \<not> vc_poll k then (sd_stopAdvertising a, mk_error Ec_IoError ''avahi_threaded_poll_new failed'')
      else case vc_client k of
        Some e \<Rightarrow> (sd_stopAdvertising a, mk_error Ec_IoError (''avahi_client_new: '' @ e))
      | None \<Rightarrow>
          if \<not> vc_start k then (sd_stopAdvertising a, mk_error Ec_IoError ''avahi_threaded_poll_start failed'')
          else (a\<lparr>an_poll := True, an_client := True, an_running := True,
                  an_ctx := Some (foldl clientCallback \<lparr>px_ad = ad, px_group = None\<rparr> early)\<rparr>, success))"

text \<open>A later callback of the running announcement.\<close>

definition sd_callback :: "announcer \<Rightarrow> client_state \<Rightarrow> announcer" where
  "sd_callback a st = (if an_running a then a\<lparr>an_ctx := map_option (\<lambda>p. clientCallback p st) (an_ctx a)\<rparr> else a)"

section \<open>The Streamer's discovery service\<close>

record sd_service =
  se_has :: bool
  se_advertising :: bool
  se_state :: service_state
  se_calls :: nat

text \<open>\<open>start\<close> with what \<open>advertise\<close> would return; \<open>se_calls\<close> counts its calls.\<close>

definition sd_start :: "status \<Rightarrow> sd_service \<Rightarrow> sd_service \<times> status" where
  "sd_start advertised s =
     (if \<not> se_has s then (s\<lparr>se_state := Svc_Degraded\<rparr>, success)
      else if se_advertising s then (s, success)
      else (s\<lparr>se_advertising := True, se_calls := se_calls s + 1,
              se_state := (if st_ok advertised then Svc_Running else Svc_Degraded)\<rparr>, advertised))"

definition sd_stop :: "sd_service \<Rightarrow> sd_service" where
  "sd_stop s = s\<lparr>se_advertising := False, se_state := Svc_Stopped\<rparr>"

section \<open>Browsing is an exact snapshot\<close>

definition news :: "callback list \<Rightarrow> int" where
  "news cbs = int (length (filter (\<lambda>e. e = Browser_New) cbs))"

definition answers :: "callback list \<Rightarrow> resolved option list" where
  "answers cbs = List.map_filter (\<lambda>e. case e of Resolver r \<Rightarrow> Some r | _ \<Rightarrow> None) cbs"

lemma callback_counts [simp]:
  "news [] = 0" "answers [] = []"
  "news (e # cbs) = (if e = Browser_New then 1 else 0) + news cbs"
  "answers (e # cbs) = (case e of Resolver r \<Rightarrow> [r] | _ \<Rightarrow> []) @ answers cbs"
  "news (cbs @ cbs') = news cbs + news cbs'" "answers (cbs @ cbs') = answers cbs @ answers cbs'"
  by (auto simp: news_def answers_def List.map_filter_def split: callback.splits)

definition hits_of :: "resolved option list \<Rightarrow> resolved list" where
  "hits_of rs = List.map_filter id rs"

lemma hits_of_simps [simp]:
  "hits_of [] = []" "hits_of (r # rs) = (case r of None \<Rightarrow> [] | Some x \<Rightarrow> [x]) @ hits_of rs" "hits_of (rs @ rs') = hits_of rs @ hits_of rs'"
  by (auto simp: hits_of_def List.map_filter_def split: option.splits)

lemma run_callbacks:
  "bc_found (foldl (browseCallback mk) c cbs) = bc_found c @ map mk (hits_of (answers cbs))"
  "bc_pending (foldl (browseCallback mk) c cbs) = bc_pending c + news cbs - int (length (answers cbs))"
  "bc_all_for_now (foldl (browseCallback mk) c cbs) \<longleftrightarrow> bc_all_for_now c \<or> Browser_All_For_Now \<in> set cbs"
  by (induction cbs arbitrary: c)
    (auto simp: browseCallback_def resolveCallback_def maybeQuit_def Let_def split: callback.splits option.splits)

text \<open>The polls a browse makes: the callbacks of the first \<open>k\<close>, in order.\<close>

definition pumped :: "(nat \<Rightarrow> callback list \<times> int) \<Rightarrow> nat \<Rightarrow> nat \<Rightarrow> callback list" where
  "pumped pumps i k = concat (map (fst \<circ> pumps) [i..<k])"

lemma pumped_Suc: "i < k \<Longrightarrow> pumped pumps i k = fst (pumps i) @ pumped pumps (Suc i) k"
  by (simp add: pumped_def upt_conv_Cons)

lemma browse_loop_run:
  "browse_loop mk pumps n i c = (c', k) \<Longrightarrow> i \<le> k \<and> k \<le> i + n \<and> c' = foldl (browseCallback mk) c (pumped pumps i k)"
proof (induction n arbitrary: i c)
  case (Suc n)
  obtain cbs rc where p: "pumps i = (cbs, rc)" by force
  let ?c = "foldl (browseCallback mk) c cbs"
  show ?case
  proof (cases "rc \<noteq> 0 \<or> (bc_all_for_now ?c \<and> bc_pending ?c = 0)")
    case True
    with Suc.prems p show ?thesis by (auto simp: Let_def pumped_def split: if_splits)
  next
    case False
    with Suc.prems p have "browse_loop mk pumps n (Suc i) ?c = (c', k)" by (auto simp: Let_def)
    from Suc.IH [OF this] p show ?thesis by (auto simp: pumped_Suc)
  qed
qed (simp add: pumped_def)

lemma browse_loop_stops:
  assumes "browse_loop mk pumps n i c = (c', k)" "k < i + n" "\<forall>j. snd (pumps j) = 0"
  shows "bc_all_for_now c' \<and> bc_pending c' = 0"
  using assms
proof (induction n arbitrary: i c)
  case (Suc n)
  obtain cbs rc where p: "pumps i = (cbs, rc)" by force
  with Suc.prems(3) have "rc = 0" by (metis snd_conv)
  with Suc p show ?case by (auto simp: Let_def split: if_splits)
qed simp

lemma browse_result:
  assumes "bs_poll s" "bs_client s = None" "bs_browser s"
  shows "browse mk s pumps = Inr (map mk (hits_of (answers (pumped pumps 0 (snd (browse_loop mk pumps 50 0 ctx_new))))))"
proof -
  obtain c k where l: "browse_loop mk pumps 50 0 ctx_new = (c, k)" by force
  from browse_loop_run [OF l] have "c = foldl (browseCallback mk) ctx_new (pumped pumps 0 k)" by simp
  with assms l show ?thesis by (simp add: browse_def run_callbacks(1)) (simp add: ctx_new_def)
qed

lemma hit_in: "Resolver (Some r) \<in> set cbs \<Longrightarrow> r \<in> set (hits_of (answers cbs))"
  by (induction cbs) auto

text \<open>A browse ends and is complete. It makes at most fifty polls; it returns, in the order of the answers, one record per service that was
  resolved; and when it ends before the fiftieth poll without an error of the library, every service the browser announced
  has been answered for, so that none is missing.
\<close>

theorem browse_is_complete:
  assumes "bs_poll s" "bs_client s = None" "bs_browser s"
    and "browse_loop (discovered_of av) pumps 50 0 ctx_new = (c, k)" "k < 50" "\<forall>j. snd (pumps j) = 0"
  shows "browseSpeakers av s pumps = Inr (map (discovered_of av) (hits_of (answers (pumped pumps 0 k)))) \<and>
    int (length (answers (pumped pumps 0 k))) = news (pumped pumps 0 k) \<and> Browser_All_For_Now \<in> set (pumped pumps 0 k)"
proof -
  have c: "c = foldl (browseCallback (discovered_of av)) ctx_new (pumped pumps 0 k)" using browse_loop_run [OF assms(4)] by simp
  have "bc_all_for_now c \<and> bc_pending c = 0" using browse_loop_stops [OF assms(4)] assms(5,6) by simp
  with c have "int (length (answers (pumped pumps 0 k))) = news (pumped pumps 0 k)" "Browser_All_For_Now \<in> set (pumped pumps 0 k)"
    by (simp_all add: run_callbacks ctx_new_def)
  with browse_result [OF assms(1-3), of "discovered_of av" pumps] assms(4) show ?thesis by (simp add: browseSpeakers_def)
qed

definition demo_avahi :: avahi_lib where
  "demo_avahi =
     \<lparr>av_find = (\<lambda>es k. find (\<lambda>e. takeWhile (\<lambda>c. c \<noteq> CHR ''='') e = k) es),
      av_pair = (\<lambda>e. if CHR ''='' \<in> set e then Some (tl (dropWhile (\<lambda>c. c \<noteq> CHR ''='') e)) else None)\<rparr>"

definition demo_resolved :: resolved where
  "demo_resolved = \<lparr>rs_name = Some ''NX-7'', rs_host_name = Some ''nx7.local'', rs_addr = Some ''10.0.0.7'', rs_port = 45455,
     rs_txt = [txt_entry ''device_id'' ''NX-7'', txt_entry ''setup_mode'' ''1'']\<rparr>"

definition demo_pumps :: "resolved \<Rightarrow> nat \<Rightarrow> callback list \<times> int" where
  "demo_pumps r i = ((if i = 0 then [Browser_New, Browser_All_For_Now] else if i = 1 then [Resolver (Some r)] else []), 0)"

lemma demo_browse:
  "browse_loop mk (demo_pumps r) 50 0 ctx_new = (foldl (browseCallback mk) ctx_new [Browser_New, Browser_All_For_Now, Resolver (Some r)], 2)"
proof -
  have "(50 :: nat) = Suc (Suc 48)" by simp
  then show ?thesis
    by (simp only: browse_loop.simps)
      (simp add: demo_pumps_def browseCallback_def resolveCallback_def maybeQuit_def ctx_new_def Let_def)
qed

lemma demo_pumped: "pumped (demo_pumps r) 0 2 = [Browser_New, Browser_All_For_Now, Resolver (Some r)]"
  by (simp add: pumped_def demo_pumps_def numeral_2_eq_2)

theorem browse_is_complete_witness:
  "browseSpeakers demo_avahi \<lparr>bs_poll = True, bs_client = None, bs_browser = True\<rparr> (demo_pumps demo_resolved) =
     Inr [\<lparr>ds_device_id = ''NX-7'', ds_host = ''10.0.0.7'', ds_box_public_key = [], ds_control_port = 45455, ds_setup_mode = True\<rparr>]"
proof -
  have d: "discovered_of demo_avahi demo_resolved =
      \<lparr>ds_device_id = ''NX-7'', ds_host = ''10.0.0.7'', ds_box_public_key = [], ds_control_port = 45455, ds_setup_mode = True\<rparr>"
    by (simp add: discovered_of_def demo_resolved_def demo_avahi_def txtValue_def txt_entry_def)
  have z: "\<forall>j. snd (demo_pumps demo_resolved j) = 0" by (simp add: demo_pumps_def)
  show ?thesis
    using browse_is_complete [OF _ _ _ demo_browse _ z, of "\<lparr>bs_poll = True, bs_client = None, bs_browser = True\<rparr>" demo_avahi]
    by (simp add: demo_pumped d)
qed

text \<open>A resolver the library could not create is counted and never answers: the browse then makes all fifty polls.\<close>

lemma lost_resolver_waits_out:
  assumes "browse_loop mk pumps n i c = (c', k)" "\<forall>j. snd (pumps j) = 0" "bc_pending c > 0"
    and "\<forall>j m. int (length (answers (pumped pumps j m))) \<le> news (pumped pumps j m)"
  shows "k = i + n"
proof (rule ccontr)
  assume "k \<noteq> i + n"
  with browse_loop_run [OF assms(1)] have k: "k < i + n" "c' = foldl (browseCallback mk) c (pumped pumps i k)" by auto
  from browse_loop_stops [OF assms(1) k(1) assms(2)] have "bc_pending c' = 0" by simp
  moreover from assms(4) have "int (length (answers (pumped pumps i k))) \<le> news (pumped pumps i k)" by blast
  ultimately show False using assms(3) k(2) by (simp add: run_callbacks(2))
qed

section \<open>Speaker and Streamer find each other\<close>

text \<open>What the library promises of TXT records: among entries with distinct lower-case keys, an entry is found by its key, and its value is what
  follows the first equals sign.\<close>

definition plain_key :: "string \<Rightarrow> bool" where
  "plain_key k \<longleftrightarrow> k \<noteq> [] \<and> list_all (\<lambda>c. c = CHR ''_'' \<or> (97 \<le> (of_char c :: nat) \<and> (of_char c :: nat) \<le> 122)) k"

definition txt_exact :: "avahi_lib \<Rightarrow> bool" where
  "txt_exact av \<longleftrightarrow>
     (\<forall>kvs k v. distinct (map fst kvs) \<and> list_all (plain_key \<circ> fst) kvs \<and> map_of kvs k = Some v \<longrightarrow>
        av_find av (map (\<lambda>(a, b). txt_entry a b) kvs) k = Some (txt_entry k v)) \<and>
     (\<forall>k v. plain_key k \<longrightarrow> av_pair av (txt_entry k v) = Some v)"

text \<open>What a resolver reports of a registered service.\<close>

definition resolved_of :: "service \<Rightarrow> string \<Rightarrow> string \<Rightarrow> resolved" where
  "resolved_of s hn addr =
     \<lparr>rs_name = Some (sv_name s), rs_host_name = Some hn, rs_addr = Some addr, rs_port = sv_port s, rs_txt = sv_txt s\<rparr>"

lemma txt_value_exact:
  assumes "txt_exact av" "distinct (map fst kvs)" "list_all (plain_key \<circ> fst) kvs" "map_of kvs k = Some v"
  shows "txtValue av (map (\<lambda>(a, b). txt_entry a b) kvs) k d = v"
proof -
  have "plain_key k" using assms(3) map_of_SomeD [OF assms(4)] by (auto simp: list_all_iff)
  with assms show ?thesis by (simp add: txt_exact_def txtValue_def)
qed

lemma beacon_read_back:
  assumes "txt_exact av"
  shows "discovered_of av (resolved_of (beacon_service b) hn addr) =
    \<lparr>ds_device_id = bn_device_id b, ds_host = addr, ds_box_public_key = bn_box_public_key b,
     ds_control_port = bn_control_port b mod 65536, ds_setup_mode = bn_setup_mode b\<rparr>"
proof -
  let ?kvs = "[(''device_id'', bn_device_id b), (''model'', bn_model b), (''software_version'', bn_software_version b),
     (''box_public_key'', bn_box_public_key b), (''setup_mode'', if bn_setup_mode b then ''1'' else ''0'')]"
  have t: "sv_txt (beacon_service b) = map (\<lambda>(a, b). txt_entry a b) ?kvs" by (simp add: beacon_service_def)
  note v = txt_value_exact [OF assms, of ?kvs]
  have "txtValue av (sv_txt (beacon_service b)) ''device_id'' d = bn_device_id b"
    "txtValue av (sv_txt (beacon_service b)) ''box_public_key'' d = bn_box_public_key b"
    "txtValue av (sv_txt (beacon_service b)) ''setup_mode'' d = (if bn_setup_mode b then ''1'' else ''0'')" for d
    unfolding t by (rule v; simp add: plain_key_def)+
  then show ?thesis by (simp add: discovered_of_def resolved_of_def Let_def) (simp add: beacon_service_def)
qed

lemma announcement_read_back:
  assumes "txt_exact av"
  shows "record_of av (resolved_of (streamer_announcement a) hn addr) =
    \<lparr>sr_id = ad_streamer_id a, sr_host = hn, sr_port = ad_port a mod 65536, sr_public_key = ad_public_key a\<rparr>"
proof -
  let ?kvs = "[(''streamer_id'', ad_streamer_id a), (''public_key'', ad_public_key a)]"
  have t: "sv_txt (streamer_announcement a) = map (\<lambda>(a, b). txt_entry a b) ?kvs" by (simp add: streamer_announcement_def)
  have "txtValue av (sv_txt (streamer_announcement a)) ''public_key'' d = ad_public_key a" for d
    unfolding t by (rule txt_value_exact [OF assms]) (simp_all add: plain_key_def)
  then show ?thesis by (simp add: record_of_def resolved_of_def) (simp add: streamer_announcement_def)
qed

lemma publish_ok: "publishBeacon k h b = (h', st) \<Longrightarrow> st_ok st \<Longrightarrow> bh_group h' = Some [beacon_service b]"
  by (auto simp: publishBeacon_def Let_def split: if_splits option.splits)

text \<open>The announcement is registered at most once, whatever the daemon does.\<close>

definition announced_once :: "publish_ctx \<Rightarrow> bool" where
  "announced_once p \<longleftrightarrow>
     (case px_group p of None \<Rightarrow> True | Some g \<Rightarrow> eg_services g = [] \<or> eg_services g = [streamer_announcement (px_ad p)])"

lemma callback_announced_once: "announced_once p \<Longrightarrow> announced_once (clientCallback p st)"
  by (auto simp: announced_once_def clientCallback_def addService_def split: client_state.splits option.splits)

interpretation announce_run: invariant_system clientCallback announced_once
  by unfold_locales (rule callback_announced_once)

lemma clientCallback_ad [simp]: "px_ad (clientCallback p st) = px_ad p"
  by (auto simp: clientCallback_def addService_def split: client_state.splits option.splits)

lemma callbacks_ad [simp]: "px_ad (foldl clientCallback p sts) = px_ad p"
  by (induction sts arbitrary: p) simp_all

lemma advertised_service:
  assumes "sd_advertise k early a ad = (a', st)" "st_ok st" "an_ctx a' = Some p" "px_group p = Some g" "sv \<in> set (eg_services g)"
  shows "sv = streamer_announcement ad"
proof -
  have p: "p = foldl clientCallback \<lparr>px_ad = ad, px_group = None\<rparr> early"
    using assms(1-3) by (auto simp: sd_advertise_def Let_def split: if_splits option.splits)
  have "announced_once p" unfolding p by (rule announce_run.run_inv) (simp add: announced_once_def)
  with assms(4,5) p show ?thesis by (auto simp: announced_once_def)
qed

lemma match_finds:
  assumes "r \<in> set recs" "sr_id r = i" "sr_public_key r = key" "key \<noteq> []"
  shows "\<exists>q. match_records i key recs = Some q \<and> sr_id q = i \<and> sr_public_key q = key"
  using assms by (induction recs) auto

text \<open>C35. Speaker and Streamer find each other, and only under their own names. When the speaker's beacon was published and a browse of the Streamer resolved it, the browse lists
  the speaker with its identifier, its sealing key, its port and its setup flag at the resolved address; when the Streamer's announcement was registered and a
  browse of a speaker paired with it resolved it, among whatever else is announced on the network, the search ends with a
  record that carries the paired identifier and the paired key, and with the event that says so.
\<close>

theorem discovery_works_both_ways:
  assumes "txt_exact av" "bs_poll s" "bs_client s = None" "bs_browser s"
    and "publishBeacon k h b = (h', st)" "st_ok st" "bh_group h' = Some svcs" "svc \<in> set svcs"
    and "Resolver (Some (resolved_of svc hn addr)) \<in> set (pumped pumps 0 (snd (browse_loop (discovered_of av) pumps 50 0 ctx_new)))"
    and "sd_advertise vk early a ad = (a', st')" "st_ok st'" "an_ctx a' = Some p" "px_group p = Some g" "sv \<in> set (eg_services g)"
    and "ad_public_key ad \<noteq> []"
    and "Resolver (Some (resolved_of sv hn' addr')) \<in> set (pumped pumps' 0 (snd (browse_loop (record_of av) pumps' 50 0 ctx_new)))"
  shows "(\<exists>found. browseSpeakers av s pumps = Inr found \<and>
      \<lparr>ds_device_id = bn_device_id b, ds_host = addr, ds_box_public_key = bn_box_public_key b,
       ds_control_port = bn_control_port b mod 65536, ds_setup_mode = bn_setup_mode b\<rparr> \<in> set found) \<and>
    (\<exists>r. findStreamer (browseStreamers av s pumps') (ad_streamer_id ad) (ad_public_key ad) = (Inr r, [found_event r]) \<and>
      sr_id r = ad_streamer_id ad \<and> sr_public_key r = ad_public_key ad)"
proof
  have svc: "svc = beacon_service b" using publish_ok [OF assms(5,6)] assms(7,8) by simp
  show "\<exists>found. browseSpeakers av s pumps = Inr found \<and>
      \<lparr>ds_device_id = bn_device_id b, ds_host = addr, ds_box_public_key = bn_box_public_key b,
       ds_control_port = bn_control_port b mod 65536, ds_setup_mode = bn_setup_mode b\<rparr> \<in> set found"
    using browse_result [OF assms(2-4), of "discovered_of av" pumps] hit_in [OF assms(9)]
      beacon_read_back [OF assms(1), of b hn addr, symmetric]
    unfolding browseSpeakers_def svc by auto
  let ?recs = "map (record_of av) (hits_of (answers (pumped pumps' 0 (snd (browse_loop (record_of av) pumps' 50 0 ctx_new)))))"
  have sv: "sv = streamer_announcement ad" by (rule advertised_service [OF assms(10-14)])
  have "record_of av (resolved_of sv hn' addr') \<in> set ?recs" using hit_in [OF assms(16)] by simp
  with announcement_read_back [OF assms(1), of ad hn' addr'] sv assms(15)
  obtain q where "match_records (ad_streamer_id ad) (ad_public_key ad) ?recs = Some q" "sr_id q = ad_streamer_id ad"
    "sr_public_key q = ad_public_key ad"
    using match_finds [of "record_of av (resolved_of sv hn' addr')" ?recs] by auto
  with browse_result [OF assms(2-4), of "record_of av" pumps']
  show "\<exists>r. findStreamer (browseStreamers av s pumps') (ad_streamer_id ad) (ad_public_key ad) = (Inr r, [found_event r]) \<and>
      sr_id r = ad_streamer_id ad \<and> sr_public_key r = ad_public_key ad"
    by (simp add: browseStreamers_def findStreamer_def matchOnce_def)
qed

lemma plain_key_no_eq: "plain_key k \<Longrightarrow> \<forall>c\<in>set k. c \<noteq> CHR ''=''"
proof (rule ccontr)
  assume "plain_key k" "\<not> (\<forall>c\<in>set k. c \<noteq> CHR ''='')"
  then have "CHR ''='' = CHR ''_'' \<or> 97 \<le> (of_char (CHR ''='') :: nat)" by (auto simp only: plain_key_def list_all_iff)
  then show False by simp
qed

lemma plain_key_entry: "plain_key k \<Longrightarrow> takeWhile (\<lambda>c. c \<noteq> CHR ''='') (txt_entry k v) = k"
  "plain_key k \<Longrightarrow> dropWhile (\<lambda>c. c \<noteq> CHR ''='') (txt_entry k v) = CHR ''='' # v"
  using plain_key_no_eq [of k] by (simp_all add: txt_entry_def takeWhile_append2 dropWhile_append2)

lemma demo_find:
  "list_all (plain_key \<circ> fst) kvs \<Longrightarrow> map_of kvs k = Some v \<Longrightarrow>
     find (\<lambda>e. takeWhile (\<lambda>c. c \<noteq> CHR ''='') e = k) (map (\<lambda>(a, b). txt_entry a b) kvs) = Some (txt_entry k v)"
  by (induction kvs) (auto simp: plain_key_entry split: if_splits)

lemma demo_avahi_exact: "txt_exact demo_avahi"
proof -
  have "CHR ''='' \<in> set (txt_entry k v)" for k v by (simp add: txt_entry_def)
  then show ?thesis by (auto simp: txt_exact_def demo_avahi_def demo_find plain_key_entry)
qed

definition demo_setup_beacon :: speaker_beacon where
  "demo_setup_beacon = \<lparr>bn_device_id = ''NX-7'', bn_model = ''N1'', bn_software_version = ''0.1.0'', bn_box_public_key = ''a2V5'',
     bn_control_port = 45455, bn_setup_mode = True\<rparr>"

definition demo_ad :: advertisement where
  "demo_ad = \<lparr>ad_streamer_id = ''STR-0123abcd'', ad_public_key = ''cHVi'', ad_port = 8090\<rparr>"

theorem discovery_works_both_ways_witness:
  "(\<exists>found. browseSpeakers demo_avahi \<lparr>bs_poll = True, bs_client = None, bs_browser = True\<rparr>
        (demo_pumps (resolved_of (beacon_service demo_setup_beacon) ''nx7.local'' ''10.0.0.7'')) = Inr found \<and>
      \<lparr>ds_device_id = ''NX-7'', ds_host = ''10.0.0.7'', ds_box_public_key = ''a2V5'', ds_control_port = 45455, ds_setup_mode = True\<rparr> \<in> set found) \<and>
    (\<exists>r. findStreamer (browseStreamers demo_avahi \<lparr>bs_poll = True, bs_client = None, bs_browser = True\<rparr>
        (demo_pumps (resolved_of (streamer_announcement demo_ad) ''s.local'' ''10.0.0.2''))) ''STR-0123abcd'' ''cHVi'' = (Inr r, [found_event r]) \<and>
      sr_id r = ''STR-0123abcd'' \<and> sr_public_key r = ''cHVi'')"
proof -
  let ?k = "\<lparr>pc_poll = True, pc_client = None, pc_group = True, pc_add = None, pc_commit = True\<rparr>"
  let ?v = "\<lparr>vc_poll = True, vc_client = None, vc_start = True\<rparr>"
  let ?e = "[C_Running \<lparr>ac_group = True, ac_add = True, ac_commit = True\<rparr>]"
  let ?s = "\<lparr>bs_poll = True, bs_client = None, bs_browser = True\<rparr>"
  let ?g = "\<lparr>eg_services = [streamer_announcement demo_ad], eg_committed = True\<rparr>"
  let ?r = "resolved_of (beacon_service demo_setup_beacon) ''nx7.local'' ''10.0.0.7''"
  let ?r' = "resolved_of (streamer_announcement demo_ad) ''s.local'' ''10.0.0.2''"
  have pub: "publishBeacon ?k hal_new demo_setup_beacon = (\<lparr>bh_poll = True, bh_client = True, bh_group = Some [beacon_service demo_setup_beacon]\<rparr>, success)"
    by (simp add: publishBeacon_def stopBeacon_def hal_new_def)
  have adv: "sd_advertise ?v ?e announcer_new demo_ad =
      (\<lparr>an_poll = True, an_running = True, an_client = True, an_ctx = Some \<lparr>px_ad = demo_ad, px_group = Some ?g\<rparr>\<rparr>, success)"
    by (simp add: sd_advertise_def sd_stopAdvertising_def announcer_new_def clientCallback_def addService_def)
  have m: "Resolver (Some r) \<in> set (pumped (demo_pumps r) 0 (snd (browse_loop mk (demo_pumps r) 50 0 ctx_new)))" for r
    and mk :: "resolved \<Rightarrow> 'x"
    by (simp only: demo_browse snd_conv demo_pumped) simp
  have v: "bn_device_id demo_setup_beacon = ''NX-7''" "bn_box_public_key demo_setup_beacon = ''a2V5''" "bn_control_port demo_setup_beacon mod 65536 = 45455"
    "bn_setup_mode demo_setup_beacon = True" "ad_streamer_id demo_ad = ''STR-0123abcd''" "ad_public_key demo_ad = ''cHVi''"
    by (simp_all add: demo_setup_beacon_def demo_ad_def)
  show ?thesis
    by (rule discovery_works_both_ways [where s = ?s and svcs = "[beacon_service demo_setup_beacon]" and svc = "beacon_service demo_setup_beacon"
          and p = "\<lparr>px_ad = demo_ad, px_group = Some ?g\<rparr>" and g = ?g and sv = "streamer_announcement demo_ad"
          and pumps = "demo_pumps ?r" and pumps' = "demo_pumps ?r'", OF demo_avahi_exact _ _ _ pub _ _ _ m adv _ _ _ _ _ m, unfolded v]) simp_all
qed

section \<open>Announcing again\<close>

text \<open>After the daemon has reconfigured, the next running state announces the service again.\<close>

lemma announced_again:
  assumes "px_group p \<noteq> None" "ac_add k" "ac_commit k"
  shows "px_group (foldl clientCallback p [C_Registering, C_Running k]) =
    Some \<lparr>eg_services = [streamer_announcement (px_ad p)], eg_committed = True\<rparr>"
  using assms by (auto simp: clientCallback_def addService_def)

text \<open>A commit that fails leaves the service in the group, which is then taken for registered: the commit is not tried again.\<close>

lemma failed_commit_is_kept:
  assumes "px_group p = Some g" "eg_services g \<noteq> []" "\<not> eg_committed g" "\<forall>st\<in>set sts. \<exists>k. st = C_Running k \<or> st = C_Connecting"
  shows "px_group (foldl clientCallback p sts) = Some g"
  using assms
proof (induction sts arbitrary: p)
  case (Cons st sts)
  then have "px_group (clientCallback p st) = Some g" by (auto simp: clientCallback_def addService_def)
  with Cons show ?case by simp
qed simp

text \<open>A start whose announcement fails leaves the flag set: the next start reports success and announces nothing.\<close>

lemma failed_advertise_is_not_retried:
  assumes "se_has s" "\<not> se_advertising s" "\<not> st_ok refused" "sd_start refused s = (s1, r1)" "sd_start success s1 = (s2, r2)"
  shows "st_ok r2" "se_state s2 = Svc_Degraded" "se_calls s2 = se_calls s1"
  using assms by (auto simp: sd_start_def)

end
