(* ===== verification/Drivers.thy ===== *)
theory Drivers
  imports Amplifier Network Services Web
begin

text \<open>
  The drivers under the managers: the amplifier's GPIO lines (\<open>amplifier/GpioAmplifierHal.cpp\<close>), Bluetooth through
  \<open>bluetoothctl\<close> (\<open>bluetooth/BluetoothctlHal.cpp\<close>), the HTTP transports of both programs (\<open>web/HttplibWebTransport.cpp\<close>,
  \<open>streamer/src/web/HttplibStreamerTransport.cpp\<close>) and the log (\<open>logging/Logger.cpp\<close>, \<open>Redaction.cpp\<close>). libgpiod, the
  shell, cpp-httplib and spdlog are parameters: what each call returns is given.
\<close>

section \<open>Amplifier lines\<close>

text \<open>A requested output line holds its value; None while it is not requested. \<open>True\<close> is \<open>ACTIVE\<close>.\<close>

record gpio_amp =
  ga_chip :: bool
  ga_enable :: "bool option"
  ga_mute :: "bool option"
  ga_fault :: bool
  ga_protect :: bool

definition gpio_new :: gpio_amp where
  "gpio_new = \<lparr>ga_chip = False, ga_enable = None, ga_mute = None, ga_fault = False, ga_protect = False\<rparr>"

text \<open>Which of the calls that open the chip and request the four lines succeed.\<close>

record open_calls =
  oc_chip :: bool
  oc_enable :: bool
  oc_mute :: bool
  oc_fault :: bool
  oc_protect :: bool

definition all_open :: "gpio_amp \<Rightarrow> bool" where
  "all_open g \<longleftrightarrow> ga_enable g \<noteq> None \<and> ga_mute g \<noteq> None \<and> ga_fault g \<and> ga_protect g"

definition request_output :: "bool \<Rightarrow> bool \<Rightarrow> bool option \<Rightarrow> bool option" where
  "request_output granted initial req = (case req of Some v \<Rightarrow> Some v | None \<Rightarrow> if granted then Some initial else None)"

definition ensureOpen :: "open_calls \<Rightarrow> string \<Rightarrow> gpio_amp \<Rightarrow> gpio_amp \<times> status" where
  "ensureOpen k chip g =
     (if ga_chip g \<and> all_open g then (g, success)
      else if \<not> ga_chip g \<and> \<not> oc_chip k then (g, mk_error Ec_IoError (''gpiod_chip_open /dev/'' @ chip))
      else
        (let g1 = g\<lparr>ga_chip := True, ga_enable := request_output (oc_enable k) False (ga_enable g),
                    ga_mute := request_output (oc_mute k) True (ga_mute g),
                    ga_fault := (ga_fault g \<or> oc_fault k), ga_protect := (ga_protect g \<or> oc_protect k)\<rparr>
         in if all_open g1 then (g1, success) else (g1, mk_error Ec_IoError ''gpiod line request failed (lines busy?)'')))"

text \<open>Setting a line: it takes the value unless the call fails. \<open>gc_set_enable\<close> and \<open>gc_set_mute\<close> say whether the calls of an operation
  succeed.\<close>

record gpio_calls = open_calls +
  gc_set_enable :: bool
  gc_set_mute :: bool

definition ga_powerOn :: "gpio_calls \<Rightarrow> string \<Rightarrow> gpio_amp \<Rightarrow> gpio_amp \<times> status" where
  "ga_powerOn k chip g =
     (case ensureOpen (open_calls.truncate k) chip g of (g1, s) \<Rightarrow>
        if \<not> st_ok s then (g1, s)
        else if \<not> gc_set_enable k then (g1, mk_error Ec_IoError ''enable set failed'')
        else (g1\<lparr>ga_enable := Some True\<rparr>, success))"

definition ga_powerOff :: "gpio_calls \<Rightarrow> string \<Rightarrow> gpio_amp \<Rightarrow> gpio_amp \<times> status" where
  "ga_powerOff k chip g =
     (case ensureOpen (open_calls.truncate k) chip g of (g1, s) \<Rightarrow>
        if \<not> st_ok s then (g1, s)
        else (g1\<lparr>ga_mute := (if gc_set_mute k then Some True else ga_mute g1),
                 ga_enable := (if gc_set_enable k then Some False else ga_enable g1)\<rparr>, success))"

definition ga_setMute :: "gpio_calls \<Rightarrow> string \<Rightarrow> bool \<Rightarrow> gpio_amp \<Rightarrow> gpio_amp \<times> status" where
  "ga_setMute k chip on g =
     (case ensureOpen (open_calls.truncate k) chip g of (g1, s) \<Rightarrow>
        if \<not> st_ok s then (g1, s)
        else if \<not> gc_set_mute k then (g1, mk_error Ec_IoError ''mute set failed'')
        else (g1\<lparr>ga_mute := Some on\<rparr>, success))"

text \<open>The thermal zone holds thousandths of a degree: None when it cannot be opened, \<open>Some None\<close> when it does not parse.\<close>

definition readTemperatureCelsius :: "int option option \<Rightarrow> real result" where
  "readTemperatureCelsius zone =
     (case zone of
        None \<Rightarrow> Inl (mk_error Ec_IoError ''cannot read thermal zone'')
      | Some None \<Rightarrow> Inl (mk_error Ec_IoError ''thermal parse failed'')
      | Some (Some m) \<Rightarrow> Inr (of_int m / 1000))"

text \<open>The two input lines are active low; None is a read error.\<close>

definition readFlags :: "open_calls \<Rightarrow> string \<Rightarrow> bool option \<Rightarrow> bool option \<Rightarrow> gpio_amp \<Rightarrow> gpio_amp \<times> amp_flags result" where
  "readFlags k chip fault protect g =
     (case ensureOpen k chip g of (g1, s) \<Rightarrow>
        if \<not> st_ok s then (g1, Inl s)
        else case (fault, protect) of
          (Some f, Some p) \<Rightarrow> (g1, Inr \<lparr>fl_fault = \<not> f, fl_protection = \<not> p, fl_clipping = False\<rparr>)
        | _ \<Rightarrow> (g1, Inl (mk_error Ec_IoError ''gpio read failed'')))"

text \<open>The driver carries out what the manager sends.\<close>

definition drive :: "gpio_calls \<Rightarrow> string \<Rightarrow> gpio_amp \<Rightarrow> amp_out \<Rightarrow> gpio_amp" where
  "drive k chip g out =
     (case out of
        Call_PowerOn \<Rightarrow> fst (ga_powerOn k chip g)
      | Call_PowerOff \<Rightarrow> fst (ga_powerOff k chip g)
      | Call_Mute b \<Rightarrow> fst (ga_setMute k chip b g)
      | Alert _ \<Rightarrow> g)"

definition lines_work :: "gpio_calls \<Rightarrow> bool" where
  "lines_work k \<longleftrightarrow> oc_chip k \<and> oc_enable k \<and> oc_mute k \<and> oc_fault k \<and> oc_protect k \<and> gc_set_enable k \<and> gc_set_mute k"

lemma ensureOpen_works:
  assumes "lines_work k"
  shows "st_ok (snd (ensureOpen (open_calls.truncate k) chip g))"
    "ga_mute (fst (ensureOpen (open_calls.truncate k) chip g)) \<in> {ga_mute g, Some True}"
  using assms
  by (auto simp: ensureOpen_def lines_work_def open_calls.defs all_open_def request_output_def Let_def split: option.splits)

lemma drive_works:
  assumes "lines_work k"
  shows "ga_mute (drive k chip g (Call_Mute b)) = Some b"
    "ga_mute (drive k chip g Call_PowerOff) = Some True"
    "ga_mute g = Some True \<Longrightarrow> ga_mute (drive k chip g Call_PowerOn) = Some True"
    "drive k chip g (Alert e) = g"
  using assms ensureOpen_works [OF assms, of chip g]
  by (auto simp: drive_def ga_powerOn_def ga_powerOff_def ga_setMute_def lines_work_def split: prod.splits)

lemma line_follows_orders:
  assumes "lines_work k" "mute_line m outs = Some True" "m = Some True \<Longrightarrow> ga_mute g = Some True"
  shows "ga_mute (foldl (drive k chip) g outs) = Some True"
  using assms(2,3)
proof (induction outs arbitrary: m g)
  case (Cons out outs)
  show ?case
  proof (cases out)
    case (Call_Mute b)
    with Cons.IH [of "Some b" "drive k chip g out"] Cons.prems drive_works(1) [OF assms(1)] show ?thesis by simp
  qed (use Cons.IH [of m "drive k chip g out"] Cons.prems drive_works [OF assms(1), where chip = chip and g = g] in \<open>auto\<close>)
qed simp

text \<open>C38. The mute line itself is active whenever the amplifier is unhealthy. Let the manager take any sequence of operations with any
  answers of the sensors, and let the GPIO driver carry out its orders on lines that work: in fault,
  protection or thermal shutdown the physical mute line is at its active level.
\<close>

theorem unhealthy_amp_line_is_active:
  assumes "amp_run (amp_new warn shut) ops = (a, out)" "unhealthy (am_state a)" "lines_work k"
  shows "ga_mute (foldl (drive k chip) gpio_new out) = Some True"
proof (rule line_follows_orders [OF assms(3)])
  show "mute_line None out = Some True"
    using amp_run_line [OF assms(1) _ assms(2), of None] by (simp add: amp_new_def unhealthy_def)
qed simp

definition good_lines :: gpio_calls where
  "good_lines = \<lparr>oc_chip = True, oc_enable = True, oc_mute = True, oc_fault = True, oc_protect = True, gc_set_enable = True, gc_set_mute = True\<rparr>"

theorem unhealthy_amp_line_is_active_witness:
  "ga_mute (foldl (drive good_lines ''gpiochip0'') gpio_new
     (snd (amp_run (amp_new 70 85) [(hal_ok 20 False, Do_Start), (hal_ok 20 False, Do_Unmute), (hal_ok 20 True, Do_Poll)]))) = Some True"
proof -
  let ?r = "amp_run (amp_new 70 85) [(hal_ok 20 False, Do_Start), (hal_ok 20 False, Do_Unmute), (hal_ok 20 True, Do_Poll)]"
  have "unhealthy (am_state (fst ?r))"
    by (simp add: amp_start_def unmute_def poll_def poll_flags_def poll_temp_def hal_ok_def amp_new_def unhealthy_def)
  moreover have "lines_work good_lines" by (simp add: lines_work_def good_lines_def)
  ultimately show ?thesis by (rule unhealthy_amp_line_is_active [OF prod.collapse [symmetric]])
qed

text \<open>Opening the lines is silent: the amplifier comes up disabled and muted, and powering on does not unmute.\<close>

lemma first_open_is_silent:
  assumes "ensureOpen k chip gpio_new = (g, s)" "st_ok s"
  shows "ga_enable g = Some False" "ga_mute g = Some True"
  using assms by (auto simp: ensureOpen_def gpio_new_def all_open_def request_output_def Let_def split: if_splits)

lemma power_on_keeps_mute:
  assumes "ga_powerOn k chip g = (g', s)" "ga_mute g = Some True"
  shows "ga_mute g' = Some True"
  using assms by (auto simp: ga_powerOn_def ensureOpen_def request_output_def Let_def split: prod.splits if_splits)

text \<open>Lines that were already requested keep their values when the others are requested again.\<close>

lemma reopening_keeps_lines:
  assumes "ensureOpen k chip g = (g', s)" "ga_mute g = Some b"
  shows "ga_mute g' = Some b"
  using assms by (auto simp: ensureOpen_def request_output_def Let_def split: if_splits)

text \<open>\<open>powerOff\<close> reports success even when neither line could be set.\<close>

lemma power_off_hides_failure:
  assumes "ensureOpen (open_calls.truncate k) chip g = (g1, s)" "st_ok s" "\<not> gc_set_mute k" "\<not> gc_set_enable k"
  shows "ga_powerOff k chip g = (g1, success)"
  using assms by (simp add: ga_powerOff_def)

text \<open>A wire that is cut or pulled low reads as a fault, not as health.\<close>

lemma broken_wire_is_a_fault:
  assumes "readFlags k chip (Some False) protect g = (g', Inr f)"
  shows "fl_fault f"
  using assms by (auto simp: readFlags_def split: prod.splits option.splits if_splits)

section \<open>Bluetooth\<close>

text \<open>\<open>contains needle text\<close> is \<open>text.find(needle) != npos\<close>.\<close>

fun contains :: "string \<Rightarrow> string \<Rightarrow> bool" where
  "contains needle [] \<longleftrightarrow> needle = []"
| "contains needle (c # s) \<longleftrightarrow> take (length needle) (c # s) = needle \<or> contains needle s"

fun from_first :: "string \<Rightarrow> string \<Rightarrow> string" where
  "from_first needle [] = []"
| "from_first needle (c # s) = (if take (length needle) (c # s) = needle then c # s else from_first needle s)"

text \<open>The agent is a child process and the write end of its standard input.\<close>

record bt_hal =
  bh_agent :: "int option"
  bh_stdin :: bool

definition bt_command :: "string \<Rightarrow> string" where
  "bt_command args = ''bluetoothctl '' @ args @ '' 2>&1''"

text \<open>\<open>startAgent\<close>, given whether \<open>pipe\<close> succeeds and the child's number (None when \<open>fork\<close> fails).\<close>

definition startAgent :: "bool \<Rightarrow> int option \<Rightarrow> bt_hal \<Rightarrow> bt_hal" where
  "startAgent pipe_ok pid h =
     (if bh_agent h \<noteq> None then h
      else if \<not> pipe_ok then h
      else case pid of None \<Rightarrow> h | Some p \<Rightarrow> h\<lparr>bh_stdin := True, bh_agent := Some p\<rparr>)"

definition stopAgent :: "bt_hal \<Rightarrow> bt_hal" where
  "stopAgent h = (if bh_agent h = None then h else h\<lparr>bh_stdin := False, bh_agent := None\<rparr>)"

text \<open>\<open>run\<close> gives the exit code and the output of each command; the operations return the commands they run.\<close>

definition bt_enableSink ::
  "(string \<Rightarrow> int \<times> string) \<Rightarrow> bool \<Rightarrow> int option \<Rightarrow> string \<Rightarrow> bt_hal \<Rightarrow> bt_hal \<times> status \<times> string list" where
  "bt_enableSink run pipe_ok pid alias h =
     (let found = run (bt_command ''list'') in
      if fst found \<noteq> 0 \<or> \<not> contains ''Controller'' (snd found)
      then (h, mk_error Ec_IoError ''no Bluetooth controller'', [bt_command ''list''])
      else
        (let shown = snd (run (bt_command ''show''));
             cmds = map bt_command [''list'', ''power on'', ''system-alias '' @ shq alias, ''discoverable-timeout 0'', ''pairable on'',
                      ''discoverable on'', ''show'']
         in (startAgent pipe_ok pid h,
             if contains ''Powered: yes'' shown \<and> contains ''Discoverable: yes'' shown then success
             else mk_error Ec_Unknown ''adapter state uncertain after setup'', cmds)))"

definition bt_openPairingWindow :: "bool \<Rightarrow> int option \<Rightarrow> int \<Rightarrow> bt_hal \<Rightarrow> bt_hal \<times> status \<times> string list" where
  "bt_openPairingWindow pipe_ok pid seconds h =
     (startAgent pipe_ok pid h, success,
      map bt_command [''discoverable-timeout '' @ show_int seconds, ''pairable on'', ''discoverable on''])"

definition bt_disable :: "bt_hal \<Rightarrow> bt_hal \<times> status \<times> string list" where
  "bt_disable h = (stopAgent h, success, map bt_command [''discoverable off'', ''pairable off''])"

record bt_report =
  br_available :: bool
  br_discoverable :: bool
  br_connected :: bool
  br_device_name :: string

definition bt_status_of :: "(string \<Rightarrow> int \<times> string) \<Rightarrow> bt_report" where
  "bt_status_of run =
     (let (code, shown) = run (bt_command ''show'');
          (dcode, dev) = run (bt_command ''devices Connected'');
          line = takeWhile (\<lambda>c. c \<noteq> CHR 10) (from_first ''Device '' dev)
      in \<lparr>br_available = (if code = 0 \<and> \<not> contains ''Controller'' shown then contains ''Powered:'' shown else contains ''Powered:'' shown),
          br_discoverable = contains ''Discoverable: yes'' shown,
          br_connected = (dcode = 0 \<and> contains ''Device '' dev),
          br_device_name = (if dcode = 0 \<and> contains ''Device '' dev \<and> 25 < length line then drop 25 line else [])\<rparr>)"

text \<open>At most one agent: its input is open exactly while it runs, whatever the order of the operations.\<close>

definition agent_ok :: "bt_hal \<Rightarrow> bool" where
  "agent_ok h \<longleftrightarrow> (bh_stdin h \<longleftrightarrow> bh_agent h \<noteq> None)"

datatype bt_hal_op = Bt_Enable "string \<Rightarrow> int \<times> string" bool "int option" string | Bt_Open bool "int option" int | Bt_Disable

definition bt_hal_step :: "bt_hal \<Rightarrow> bt_hal_op \<Rightarrow> bt_hal" where
  "bt_hal_step h op =
     (case op of
        Bt_Enable run p pid alias \<Rightarrow> fst (bt_enableSink run p pid alias h)
      | Bt_Open p pid s \<Rightarrow> fst (bt_openPairingWindow p pid s h)
      | Bt_Disable \<Rightarrow> fst (bt_disable h))"

lemma bt_hal_step_ok: "agent_ok h \<Longrightarrow> agent_ok (bt_hal_step h op)"
  by (auto simp: agent_ok_def bt_hal_step_def bt_enableSink_def bt_openPairingWindow_def bt_disable_def startAgent_def stopAgent_def Let_def
      split: bt_hal_op.splits option.splits)

interpretation bt_run: invariant_system bt_hal_step agent_ok
  by unfold_locales (rule bt_hal_step_ok)

text \<open>An agent that has died is still the recorded one: opening the window does not start another.\<close>

lemma dead_agent_is_kept: "bh_agent h = Some p \<Longrightarrow> fst (bt_openPairingWindow pipe_ok pid s h) = h"
  by (simp add: bt_openPairingWindow_def startAgent_def)

text \<open>The alias, which an operator types, is one word of the shell command.\<close>

lemma alias_is_one_word:
  "bt_command (''system-alias '' @ shq alias) = ''bluetoothctl system-alias '' @ shq alias @ '' 2>&1'' \<and>
   sh_word False (shq alias @ '' 2>&1'') = Some (alias, '' 2>&1'')"
  using shq_roundtrip [of "alias" "''2>&1''"] by (simp add: bt_command_def)

text \<open>Both branches of the availability test are the same.\<close>

lemma availability_is_powered: "br_available (bt_status_of run) \<longleftrightarrow> contains ''Powered:'' (snd (run (bt_command ''show'')))"
  by (simp add: bt_status_of_def Let_def split: prod.splits)

lemma contains_append: "contains ''Device '' (''Device '' @ s)"
  by simp

text \<open>The name of the connected device is what follows its address on the line.\<close>

lemma device_name_reads_back:
  assumes "run (bt_command ''devices Connected'') = (0, ''Device '' @ mac @ '' '' @ name @ CHR 10 # rest)"
    "length mac = 17" "CHR 10 \<notin> set mac" "CHR 10 \<notin> set name" "name \<noteq> []"
  shows "br_connected (bt_status_of run)" "br_device_name (bt_status_of run) = name"
proof -
  have l: "takeWhile (\<lambda>c. c \<noteq> CHR 10) (from_first ''Device '' (''Device '' @ mac @ '' '' @ name @ CHR 10 # rest)) = ''Device '' @ mac @ '' '' @ name"
  proof -
    have "takeWhile (\<lambda>c. c \<noteq> CHR 10) (x @ y) = x @ takeWhile (\<lambda>c. c \<noteq> CHR 10) y" if "CHR 10 \<notin> set x" for x y
      using that by (auto intro: takeWhile_append2)
    with assms(3,4) show ?thesis by simp
  qed
  show "br_connected (bt_status_of run)" using assms(1) by (simp add: bt_status_of_def Let_def split: prod.splits)
  show "br_device_name (bt_status_of run) = name"
    using assms(1,2,5) l by (simp add: bt_status_of_def Let_def contains_append del: append_Cons split: prod.splits)
qed

section \<open>HTTP transports\<close>

text \<open>What the library hands over: absent headers are None. Both transports translate a request the same way.\<close>

record lib_request =
  lq_method :: string
  lq_path :: string
  lq_body :: string
  lq_authorization :: "string option"
  lq_host :: "string option"

definition to_request :: "lib_request \<Rightarrow> http_request" where
  "to_request r =
     \<lparr>hq_method = lq_method r, hq_path = lq_path r, hq_body = lq_body r,
      hq_auth = (case lq_authorization r of None \<Rightarrow> [] | Some v \<Rightarrow> v), hq_host = (case lq_host r of None \<Rightarrow> [] | Some v \<Rightarrow> v)\<rparr>"

definition http_dispatch :: "(http_request \<Rightarrow> http_response) option \<Rightarrow> lib_request \<Rightarrow> http_response" where
  "http_dispatch handler r =
     (case handler of
        Some f \<Rightarrow> f (to_request r)
      | None \<Rightarrow> \<lparr>hp_status = 500, hp_content_type = ''application/json'', hp_body = ''{}'', hp_headers = []\<rparr>)"

record http_transport =
  ht_running :: bool
  ht_listening :: bool
  ht_thread :: bool

text \<open>\<open>start\<close>, given whether the library's server object is valid and whether its \<open>listen\<close>, which runs in the thread, can bind the port.\<close>

definition http_start :: "bool \<Rightarrow> bool \<Rightarrow> http_transport \<Rightarrow> http_transport \<times> status" where
  "http_start valid can_bind t =
     (t\<lparr>ht_running := True, ht_thread := True, ht_listening := can_bind\<rparr>,
      if valid then success else mk_error Ec_IoError ''invalid httplib server'')"

definition http_stop :: "http_transport \<Rightarrow> http_transport" where
  "http_stop t = (if ht_running t then t\<lparr>ht_running := False, ht_thread := False, ht_listening := False\<rparr> else t)"

text \<open>A port that is taken is not reported: \<open>start\<close> succeeds and nothing listens.\<close>

lemma busy_port_is_not_reported:
  "st_ok (snd (http_start True False t))" "\<not> ht_listening (fst (http_start True False t))"
  by (simp_all add: http_start_def)

text \<open>A request without the header is a request with an empty one, which no token authorises.\<close>

lemma missing_header_is_refused:
  assumes "token \<noteq> []" "lq_authorization r = None"
  shows "\<not> authorize token (hq_auth (to_request r))"
  using assms by (simp add: authorize_iff to_request_def)

section \<open>The log\<close>

datatype log_level = L_Debug | L_Info | L_Warning | L_Error | L_Critical

fun level_rank :: "log_level \<Rightarrow> nat" where
  "level_rank L_Debug = 0" | "level_rank L_Info = 1" | "level_rank L_Warning = 2" | "level_rank L_Error = 3" | "level_rank L_Critical = 4"

definition levelFromString :: "string \<Rightarrow> log_level" where
  "levelFromString s =
     (if s = ''debug'' then L_Debug else if s = ''info'' then L_Info else if s = ''warning'' \<or> s = ''warn'' then L_Warning
      else if s = ''error'' then L_Error else if s = ''critical'' \<or> s = ''crit'' then L_Critical else L_Info)"

fun level_toString :: "log_level \<Rightarrow> string" where
  "level_toString L_Debug = ''DEBUG''" | "level_toString L_Info = ''INFO''" | "level_toString L_Warning = ''WARNING''"
| "level_toString L_Error = ''ERROR''" | "level_toString L_Critical = ''CRITICAL''"

record log_config =
  lc_file_path :: string
  lc_level :: log_level
  lc_to_stderr :: bool
  lc_to_file :: bool

datatype sink = File_Sink string | Stderr_Sink

record logger =
  lg_sinks :: "sink list option"
  lg_level :: log_level
  lg_lines :: "(log_level \<times> string) list"

text \<open>\<open>init\<close>, given whether the directory can be made and, if opening the file throws, with which message.\<close>

definition log_init :: "bool \<Rightarrow> string option \<Rightarrow> log_config \<Rightarrow> logger \<Rightarrow> logger \<times> status" where
  "log_init dir_ok throws c g =
     (if lg_sinks g \<noteq> None then (g, success)
      else
        (let want_file = (lc_to_file c \<and> CHR ''/'' \<in> set (lc_file_path c) \<and> dir_ok) in
         case (want_file, throws) of
           (True, Some what) \<Rightarrow> (g, mk_error Ec_LogInitFailed what)
         | _ \<Rightarrow>
             (let files = (if want_file then [File_Sink (lc_file_path c)] else []);
                  sinks = files @ (if lc_to_stderr c \<or> files = [] then [Stderr_Sink] else [])
              in (g\<lparr>lg_sinks := Some sinks, lg_level := lc_level c\<rparr>, success))))"

definition setLevel :: "log_level \<Rightarrow> logger \<Rightarrow> logger" where
  "setLevel l g = g\<lparr>lg_level := l\<rparr>"

definition emit :: "log_level \<Rightarrow> string \<Rightarrow> logger \<Rightarrow> logger" where
  "emit l line g =
     (if lg_sinks g = None \<or> level_rank l < level_rank (lg_level g) then g else g\<lparr>lg_lines := lg_lines g @ [(l, line)]\<rparr>)"

definition code_suffix :: "error_code \<Rightarrow> string" where
  "code_suffix code = (if code = Ec_Ok then [] else '' (code='' @ show_int (toInt code) @ '' '' @ describe code @ '')'')"

definition log_line :: "log_level \<Rightarrow> string \<Rightarrow> string \<Rightarrow> error_code \<Rightarrow> logger \<Rightarrow> logger" where
  "log_line l modul msg code g = emit l (''['' @ modul @ ''] '' @ msg @ code_suffix code) g"

definition logCommand :: "log_level \<Rightarrow> string \<Rightarrow> string \<Rightarrow> string \<Rightarrow> error_code \<Rightarrow> logger \<Rightarrow> logger" where
  "logCommand l modul cid msg code g = emit l (''['' @ modul @ ''] [cmd='' @ cid @ ''] '' @ msg @ code_suffix code) g"

definition log_shutdown :: "logger \<Rightarrow> logger" where
  "log_shutdown g = g\<lparr>lg_sinks := None\<rparr>"

definition maskMac :: "string \<Rightarrow> string" where
  "maskMac mac =
     (let tail = rev (takeWhile (\<lambda>c. c \<noteq> CHR '':'') (rev mac))
      in if CHR '':'' \<notin> set mac \<or> tail = [] then ''**:**:**:**:**:**'' else ''**:**:**:**:**:'' @ tail)"

definition maskToken :: "string \<Rightarrow> string" where
  "maskToken token =
     (if length token \<le> 4 then ''****''
      else take 2 token @ replicate (length token - 4) (CHR ''*'') @ drop (length token - 2) token)"

text \<open>Nothing below the level is written, and what is written is kept in order.\<close>

lemma log_respects_level:
  assumes "\<forall>x\<in>set (lg_lines g). level_rank (lg_level g) \<le> level_rank (fst x)"
  shows "\<forall>x\<in>set (lg_lines (emit l line g)). level_rank (lg_level g) \<le> level_rank (fst x)"
  using assms by (auto simp: emit_def)

text \<open>A file that cannot be used is replaced by the standard error output without a report: when the directory cannot be made, and when
  the path has no directory part.\<close>

lemma log_file_is_dropped_silently:
  assumes "\<not> dir_ok \<or> CHR ''/'' \<notin> set (lc_file_path c)" "lg_sinks g = None"
  shows "st_ok (snd (log_init dir_ok throws c g))" "lg_sinks (fst (log_init dir_ok throws c g)) = Some [Stderr_Sink]"
  using assms by (auto simp: log_init_def Let_def)

text \<open>A level's printed name is not one of the names that are read.\<close>

lemma level_names_do_not_read_back: "levelFromString (level_toString l) = L_Info"
  by (cases l) (simp_all add: levelFromString_def)

text \<open>A masked token keeps its length and shows no character but the first two and the last two; a masked address shows nothing before its last
  colon.\<close>

lemma token_is_masked:
  assumes "4 < length token"
  shows "length (maskToken token) = length token"
    "2 \<le> i \<Longrightarrow> i < length token - 2 \<Longrightarrow> maskToken token ! i = CHR ''*''"
  using assms by (auto simp: maskToken_def nth_append)

lemma mac_is_masked:
  assumes "CHR '':'' \<notin> set tail" "tail \<noteq> []"
  shows "maskMac (before @ CHR '':'' # tail) = ''**:**:**:**:**:'' @ tail"
proof -
  have "takeWhile (\<lambda>c. c \<noteq> CHR '':'') (rev tail @ CHR '':'' # rev before) = rev tail"
    using assms(1) by (subst takeWhile_append2) auto
  with assms show ?thesis by (simp add: maskMac_def Let_def)
qed

end
