(* ===== verification/Channels.thy ===== *)
theory Channels
  imports Threads Services
begin

text \<open>
  How a command leaves the Streamer, thread by thread. \<open>control/TcpLineTransport.cpp\<close>: dialling, sending and reading one
  line, with the descriptor opened and closed. \<open>app/CommandGateway.cpp\<close>: any number of callers that dispatch commands at
  the same time; each is a program counter, the map of per-speaker mutexes is part of the state, and a turn is one section of one caller.
  \<open>status/StatusService.cpp\<close>: the heartbeat thread of the speaker, another \<open>stoppable\<close> thread.
  \<open>app/StreamerApp.cpp\<close>: \<open>run\<close> against a signal. At the end, the names of events (\<open>core/EventBus.cpp\<close>) and start and
  stop of \<open>web/WebServer.cpp\<close>.
\<close>

section \<open>One request over TCP\<close>

text \<open>What happened to the descriptor and what the peer got: the bytes \<open>send\<close> took, and the calls of \<open>socket\<close> and
  \<open>close\<close> that succeeded.\<close>

record wire_trace =
  wt_bytes :: string
  wt_opened :: nat
  wt_closed :: nat

text \<open>The sending loop: the results of \<open>send\<close> in order. A result is at most the length that was passed; past
  the end of the list every call is an error.\<close>

fun send_loop :: "string \<Rightarrow> int list \<Rightarrow> string \<times> bool" where
  "send_loop [] rs = ([], True)"
| "send_loop line [] = ([], False)"
| "send_loop line (n # rs) =
     (if n \<le> 0 then ([], False)
      else let k = nat n; (sent, ok) = send_loop (drop k line) rs in (take k line @ sent, ok))"

record dial_env =
  de_resolves :: "string \<Rightarrow> int \<Rightarrow> bool"
  de_socket :: "string option"
  de_connect :: "string option"
  de_sends :: "int list"
  de_send_error :: string
  de_chunks :: "string option list"
  de_recv_error :: string

definition line_request :: "dial_env \<Rightarrow> string \<Rightarrow> int \<Rightarrow> string \<Rightarrow> wire_trace \<times> string result" where
  "line_request e host port req =
     (if \<not> de_resolves e host port
      then (\<lparr>wt_bytes = [], wt_opened = 0, wt_closed = 0\<rparr>, Inl (mk_error Ec_IoError (''resolve failed: '' @ host)))
      else
        case de_socket e of
          Some err \<Rightarrow> (\<lparr>wt_bytes = [], wt_opened = 0, wt_closed = 0\<rparr>, Inl (io_error ''socket'' err))
        | None \<Rightarrow>
            (case de_connect e of
               Some err \<Rightarrow> (\<lparr>wt_bytes = [], wt_opened = 1, wt_closed = 1\<rparr>, Inl (io_error ''connect'' err))
             | None \<Rightarrow>
                 (case send_loop (req @ [nl]) (de_sends e) of
                    (sent, ok) \<Rightarrow>
                      (\<lparr>wt_bytes = sent, wt_opened = 1, wt_closed = 1\<rparr>,
                       if ok then response_line (de_recv_error e) (de_chunks e)
                       else Inl (io_error ''send'' (de_send_error e))))))"

lemma send_loop_prefix: "\<exists>rest. line = fst (send_loop line rs) @ rest"
proof (induction line rs rule: send_loop.induct)
  case (3 c line n rs)
  show ?case
  proof (cases "n \<le> 0")
    case False
    with 3 obtain rest where "drop (nat n) (c # line) = fst (send_loop (drop (nat n) (c # line)) rs) @ rest" by blast
    then have "c # line = (take (nat n) (c # line) @ fst (send_loop (drop (nat n) (c # line)) rs)) @ rest"
      by (metis append.assoc append_take_drop_id)
    with False show ?thesis by (auto simp: Let_def split: prod.splits)
  qed simp
qed simp_all

lemma send_loop_complete: "snd (send_loop line rs) \<Longrightarrow> fst (send_loop line rs) = line"
proof (induction line rs rule: send_loop.induct)
  case (3 c line n rs)
  then show ?case by (auto simp: Let_def split: prod.splits if_splits)
qed simp_all

lemma send_loop_ends:
  assumes "\<forall>n\<in>set rs. 0 < n" and "length line \<le> length rs"
  shows "snd (send_loop line rs)"
  using assms
proof (induction line rs rule: send_loop.induct)
  case (3 c line n rs)
  then have "length (drop (nat n) (c # line)) \<le> length rs" by auto
  with 3 show ?case by (auto simp: Let_def split: prod.splits)
qed simp_all

text \<open>No path leaks the descriptor.\<close>

lemma request_closes: "wt_opened (fst (line_request e host port req)) = wt_closed (fst (line_request e host port req))"
  by (auto simp: line_request_def split: option.splits prod.splits)

text \<open>An answer means that the speaker got the whole line and nothing else; an error at any point means it got a part of it.\<close>

lemma request_sends:
  "snd (line_request e host port req) = Inr answer \<Longrightarrow> wt_bytes (fst (line_request e host port req)) = req @ [nl]"
  using send_loop_complete [of "req @ [nl]" "de_sends e"]
  by (auto simp: line_request_def split: option.splits prod.splits if_splits)

lemma request_sends_part: "\<exists>rest. req @ [nl] = wt_bytes (fst (line_request e host port req)) @ rest"
  using send_loop_prefix [of "req @ [nl]" "de_sends e"]
  by (auto simp: line_request_def split: option.splits prod.splits if_splits)

section \<open>Callers of the gateway\<close>

text \<open>\<open>dispatch\<close> in sections: the identifier, the lookup of the mutex, the lock, the exchange that ends with the release,
  the copy of the observer, its call. The exchange takes as many turns as the speaker makes it take: the reading loop of
  \<open>TcpLineTransport\<close> has a timeout for each call and none for the whole, so a speaker that sends a byte now and then keeps it going.
  An exception out of \<open>send\<close> ends it too: the guard releases the mutex and the caller is left without a call of the observer.\<close>

datatype talk_outcome = Talk_On | Talk_Throws | Talk_Reply "command_reply result"

datatype caller_pc =
  Gc_Start | Gc_Find string | Gc_Lock string | Gc_Talk string | Gc_Report string "command_reply result"
  | Gc_Call string "command_reply result" | Gc_Over

record caller =
  ca_device :: string
  ca_command :: string
  ca_observe :: bool
  ca_pc :: caller_pc

datatype wire_event = Dialled string string | Hung_Up string string

fun wire_device :: "wire_event \<Rightarrow> string" where
  "wire_device (Dialled d i) = d"
| "wire_device (Hung_Up d i) = d"

text \<open>The mutexes by speaker, each with the caller that holds it.\<close>

record gateway_sys =
  gs_gateway :: gateway
  gs_mutexes :: "string \<Rightarrow> nat option option"
  gs_observer :: bool
  gs_callers :: "caller list"
  gs_wire :: "wire_event list"
  gs_told :: "(string \<times> command_reply result) list"

record gateway_input =
  gi_caller :: nat
  gi_now_ms :: int
  gi_salt :: "16 word"
  gi_outcome :: talk_outcome

definition mutexFor :: "string \<Rightarrow> (string \<Rightarrow> nat option option) \<Rightarrow> (string \<Rightarrow> nat option option)" where
  "mutexFor dev m = (case m dev of None \<Rightarrow> m(dev \<mapsto> None) | Some h \<Rightarrow> m)"

definition goto :: "nat \<Rightarrow> caller_pc \<Rightarrow> gateway_sys \<Rightarrow> gateway_sys" where
  "goto i pc s = s\<lparr>gs_callers := (gs_callers s)[i := (gs_callers s ! i)\<lparr>ca_pc := pc\<rparr>]\<rparr>"

definition gateway_turn :: "gateway_sys \<Rightarrow> gateway_input \<Rightarrow> gateway_sys" where
  "gateway_turn s inp =
     (let i = gi_caller inp; c = gs_callers s ! i; dev = ca_device c in
      if length (gs_callers s) \<le> i then s
      else
        case ca_pc c of
          Gc_Start \<Rightarrow>
            (case nextCommandId (gs_gateway s) (gi_now_ms inp) (gi_salt inp) (ca_command c) of
               (g, cid) \<Rightarrow> goto i (Gc_Find cid) (s\<lparr>gs_gateway := g\<rparr>))
        | Gc_Find cid \<Rightarrow> goto i (Gc_Lock cid) (s\<lparr>gs_mutexes := mutexFor dev (gs_mutexes s)\<rparr>)
        | Gc_Lock cid \<Rightarrow>
            if gs_mutexes s dev = Some None
            then goto i (Gc_Talk cid)
                   (s\<lparr>gs_mutexes := (gs_mutexes s)(dev \<mapsto> Some i), gs_wire := gs_wire s @ [Dialled dev cid]\<rparr>)
            else s
        | Gc_Talk cid \<Rightarrow>
            if gi_outcome inp = Talk_On then s
            else goto i (case gi_outcome inp of Talk_Reply r \<Rightarrow> if ca_observe c then Gc_Report cid r else Gc_Over | _ \<Rightarrow> Gc_Over)
              (s\<lparr>gs_mutexes := (gs_mutexes s)(dev \<mapsto> None), gs_wire := gs_wire s @ [Hung_Up dev cid]\<rparr>)
        | Gc_Report cid r \<Rightarrow> goto i (if gs_observer s then Gc_Call cid r else Gc_Over) s
        | Gc_Call cid r \<Rightarrow> goto i Gc_Over (s\<lparr>gs_told := gs_told s @ [(dev, r)]\<rparr>)
        | Gc_Over \<Rightarrow> s)"

definition setReplyObserver :: "gateway_sys \<Rightarrow> gateway_sys" where
  "setReplyObserver s = s\<lparr>gs_observer := True\<rparr>"

text \<open>\<open>send\<close> and \<open>sendUnobserved\<close> add a caller.\<close>

definition gateway_send :: "string \<Rightarrow> string \<Rightarrow> gateway_sys \<Rightarrow> gateway_sys" where
  "gateway_send dev cmd s =
     s\<lparr>gs_callers := gs_callers s @ [\<lparr>ca_device = dev, ca_command = cmd, ca_observe = True, ca_pc = Gc_Start\<rparr>]\<rparr>"

definition sendUnobserved :: "string \<Rightarrow> string \<Rightarrow> gateway_sys \<Rightarrow> gateway_sys" where
  "sendUnobserved dev cmd s =
     s\<lparr>gs_callers := gs_callers s @ [\<lparr>ca_device = dev, ca_command = cmd, ca_observe = False, ca_pc = Gc_Start\<rparr>]\<rparr>"

datatype gateway_label = Observe | Send string string | Send_Quietly string string | Turn gateway_input

fun gateway_step :: "gateway_sys \<Rightarrow> gateway_label \<Rightarrow> gateway_sys" where
  "gateway_step s Observe = setReplyObserver s"
| "gateway_step s (Send dev cmd) = gateway_send dev cmd s"
| "gateway_step s (Send_Quietly dev cmd) = sendUnobserved dev cmd s"
| "gateway_step s (Turn inp) = gateway_turn s inp"

definition gateway_sys_new :: "string \<Rightarrow> gateway_sys" where
  "gateway_sys_new sid =
     \<lparr>gs_gateway = \<lparr>gw_streamer_id = sid, gw_counter = 0\<rparr>, gs_mutexes = Map.empty, gs_observer = False,
      gs_callers = [], gs_wire = [], gs_told = []\<rparr>"

subsection \<open>The exchanges of one speaker\<close>

text \<open>The specification: a line on which only one exchange is open at a time. \<open>Some (Some i)\<close> is the open one.\<close>

fun line_state :: "string option \<Rightarrow> wire_event list \<Rightarrow> string option option" where
  "line_state h [] = Some h"
| "line_state h (Dialled d i # es) = (if h = None then line_state (Some i) es else None)"
| "line_state h (Hung_Up d i # es) = (if h = Some i then line_state None es else None)"

definition on_line :: "string \<Rightarrow> wire_event list \<Rightarrow> wire_event list" where
  "on_line d es = filter (\<lambda>e. wire_device e = d) es"

lemma on_line_simps [simp]:
  "on_line d [] = []"
  "on_line d (es @ [Dialled d' i]) = (if d' = d then on_line d es @ [Dialled d i] else on_line d es)"
  "on_line d (es @ [Hung_Up d' i]) = (if d' = d then on_line d es @ [Hung_Up d i] else on_line d es)"
  by (auto simp: on_line_def)

lemma line_state_append:
  "line_state h (es @ fs) = (case line_state h es of None \<Rightarrow> None | Some h' \<Rightarrow> line_state h' fs)"
  by (induction h es rule: line_state.induct) auto

text \<open>The command a caller is exchanging, and the one that holds a speaker's mutex.\<close>

fun talking :: "caller_pc \<Rightarrow> string option" where
  "talking (Gc_Talk cid) = Some cid"
| "talking pc = None"

definition mutex_holder :: "gateway_sys \<Rightarrow> string \<Rightarrow> nat option" where
  "mutex_holder s d = (case gs_mutexes s d of None \<Rightarrow> None | Some h \<Rightarrow> h)"

definition open_exchange :: "gateway_sys \<Rightarrow> string \<Rightarrow> string option" where
  "open_exchange s d = (case mutex_holder s d of None \<Rightarrow> None | Some i \<Rightarrow> talking (ca_pc (gs_callers s ! i)))"

text \<open>A holder is the caller that talks to that speaker; a caller that waits for a lock has created it.\<close>

definition gateway_inv :: "gateway_sys \<Rightarrow> bool" where
  "gateway_inv s \<longleftrightarrow>
     (\<forall>d i. mutex_holder s d = Some i \<longrightarrow>
        i < length (gs_callers s) \<and> ca_device (gs_callers s ! i) = d \<and> talking (ca_pc (gs_callers s ! i)) \<noteq> None) \<and>
     (\<forall>i cid. i < length (gs_callers s) \<longrightarrow> ca_pc (gs_callers s ! i) = Gc_Talk cid \<longrightarrow>
        mutex_holder s (ca_device (gs_callers s ! i)) = Some i) \<and>
     (\<forall>i cid. i < length (gs_callers s) \<longrightarrow> ca_pc (gs_callers s ! i) = Gc_Lock cid \<longrightarrow>
        gs_mutexes s (ca_device (gs_callers s ! i)) \<noteq> None) \<and>
     (\<forall>d. line_state None (on_line d (gs_wire s)) = Some (open_exchange s d))"

lemma gateway_invI:
  assumes "\<And>d i. mutex_holder s d = Some i \<Longrightarrow>
      i < length (gs_callers s) \<and> ca_device (gs_callers s ! i) = d \<and> talking (ca_pc (gs_callers s ! i)) \<noteq> None"
    and "\<And>i cid. i < length (gs_callers s) \<Longrightarrow> ca_pc (gs_callers s ! i) = Gc_Talk cid \<Longrightarrow>
      mutex_holder s (ca_device (gs_callers s ! i)) = Some i"
    and "\<And>i cid. i < length (gs_callers s) \<Longrightarrow> ca_pc (gs_callers s ! i) = Gc_Lock cid \<Longrightarrow>
      gs_mutexes s (ca_device (gs_callers s ! i)) \<noteq> None"
    and "\<And>d. line_state None (on_line d (gs_wire s)) = Some (open_exchange s d)"
  shows "gateway_inv s"
  unfolding gateway_inv_def using assms by blast

lemma gateway_invD:
  assumes "gateway_inv s"
  shows "mutex_holder s d = Some i \<Longrightarrow> i < length (gs_callers s)"
    and "mutex_holder s d = Some i \<Longrightarrow> ca_device (gs_callers s ! i) = d"
    and "mutex_holder s d = Some i \<Longrightarrow> talking (ca_pc (gs_callers s ! i)) \<noteq> None"
    and "i < length (gs_callers s) \<Longrightarrow> ca_pc (gs_callers s ! i) = Gc_Talk cid \<Longrightarrow>
      mutex_holder s (ca_device (gs_callers s ! i)) = Some i"
    and "i < length (gs_callers s) \<Longrightarrow> ca_pc (gs_callers s ! i) = Gc_Lock cid \<Longrightarrow>
      gs_mutexes s (ca_device (gs_callers s ! i)) \<noteq> None"
    and "line_state None (on_line d (gs_wire s)) = Some (open_exchange s d)"
  using assms unfolding gateway_inv_def by blast+

lemma goto_simps [simp]:
  "gs_mutexes (goto i pc s) = gs_mutexes s" "gs_wire (goto i pc s) = gs_wire s"
  "gs_told (goto i pc s) = gs_told s" "gs_observer (goto i pc s) = gs_observer s"
  "length (gs_callers (goto i pc s)) = length (gs_callers s)" "mutex_holder (goto i pc s) = mutex_holder s"
  by (auto simp: goto_def mutex_holder_def fun_eq_iff)

lemma goto_caller:
  "j < length (gs_callers s) \<Longrightarrow>
   gs_callers (goto i pc s) ! j = (if j = i then (gs_callers s ! i)\<lparr>ca_pc := pc\<rparr> else gs_callers s ! j)"
  by (auto simp: goto_def nth_list_update)

lemma mutex_holder_mutexFor: "mutex_holder (s\<lparr>gs_mutexes := mutexFor dev (gs_mutexes s)\<rparr>) = mutex_holder s"
  by (auto simp: mutex_holder_def mutexFor_def fun_eq_iff split: option.splits)

text \<open>A caller that does not talk and does not begin to leaves the line as it is.\<close>

lemma inv_goto:
  assumes inv: "gateway_inv s" and i: "i < length (gs_callers s)"
    and old: "talking (ca_pc (gs_callers s ! i)) = None" and new: "talking pc = None"
    and lock: "\<And>cid. pc = Gc_Lock cid \<Longrightarrow> gs_mutexes s (ca_device (gs_callers s ! i)) \<noteq> None"
  shows "gateway_inv (goto i pc s)"
proof -
  have neq: "j \<noteq> i" if "mutex_holder s d = Some j" for j d using gateway_invD(3) [OF inv that] old by auto
  have "open_exchange (goto i pc s) d = open_exchange s d" for d
    using gateway_invD(1) [OF inv] neq by (auto simp: open_exchange_def goto_caller split: option.splits)
  then show ?thesis
    using gateway_invD [OF inv] i new lock neq by (intro gateway_invI) (auto simp: goto_caller split: if_splits)
qed

lemma inv_frame:
  assumes "gateway_inv s" and "gs_callers s' = gs_callers s" "gs_wire s' = gs_wire s" "mutex_holder s' = mutex_holder s"
    and "\<And>d. gs_mutexes s d \<noteq> None \<Longrightarrow> gs_mutexes s' d \<noteq> None"
  shows "gateway_inv s'"
proof -
  have "open_exchange s' = open_exchange s" using assms(2,4) by (simp add: open_exchange_def fun_eq_iff split: option.splits)
  then show ?thesis using gateway_invD [OF assms(1)] assms(2-) by (intro gateway_invI) auto
qed

lemma inv_dial:
  assumes inv: "gateway_inv s" and i: "i < length (gs_callers s)" and at: "ca_pc (gs_callers s ! i) = Gc_Lock cid"
    and dev: "ca_device (gs_callers s ! i) = dev" and free: "gs_mutexes s dev = Some None"
  shows "gateway_inv (goto i (Gc_Talk cid)
           (s\<lparr>gs_mutexes := (gs_mutexes s)(dev \<mapsto> Some i), gs_wire := gs_wire s @ [Dialled dev cid]\<rparr>))"
    (is "gateway_inv ?t")
proof -
  let ?u = "s\<lparr>gs_mutexes := (gs_mutexes s)(dev \<mapsto> Some i), gs_wire := gs_wire s @ [Dialled dev cid]\<rparr>"
  have h: "mutex_holder ?u = (mutex_holder s)(dev := Some i)" by (auto simp: mutex_holder_def fun_eq_iff)
  have hd: "mutex_holder s dev = None" using free by (simp add: mutex_holder_def)
  then have od: "open_exchange s dev = None" by (simp add: open_exchange_def)
  have caller: "gs_callers ?t ! j = (if j = i then (gs_callers s ! i)\<lparr>ca_pc := Gc_Talk cid\<rparr> else gs_callers s ! j)"
    if "j < length (gs_callers s)" for j using that by (simp add: goto_caller)
  have neq: "j \<noteq> i" if "mutex_holder s d = Some j" for j d using gateway_invD(3) [OF inv that] at by auto
  have oe: "open_exchange ?t d = (if d = dev then Some cid else open_exchange s d)" for d
    using gateway_invD(1) [OF inv] i neq by (auto simp: open_exchange_def h caller split: option.splits)
  have "line_state None (on_line d (gs_wire ?t)) = Some (open_exchange ?t d)" for d
    using gateway_invD(6) [OF inv] od by (auto simp: oe line_state_append)
  moreover have "i' < length (gs_callers ?t) \<and> ca_device (gs_callers ?t ! i') = d \<and>
      talking (ca_pc (gs_callers ?t ! i')) \<noteq> None" if "mutex_holder ?t d = Some i'" for d i'
    using that gateway_invD(1-3) [OF inv] i dev neq by (auto simp: h goto_caller split: if_splits)
  moreover have "mutex_holder ?t (ca_device (gs_callers ?t ! j)) = Some j"
    if "j < length (gs_callers ?t)" "ca_pc (gs_callers ?t ! j) = Gc_Talk k" for j k
  proof (cases "j = i")
    case True
    then show ?thesis using i dev by (simp add: h goto_caller)
  next
    case False
    with that have j: "j < length (gs_callers s)" "ca_pc (gs_callers s ! j) = Gc_Talk k" by (auto simp: caller)
    from gateway_invD(4) [OF inv j] hd have "ca_device (gs_callers s ! j) \<noteq> dev" by auto
    with False j gateway_invD(4) [OF inv j] show ?thesis by (simp add: h caller)
  qed
  moreover have "gs_mutexes ?t (ca_device (gs_callers ?t ! j)) \<noteq> None"
    if "j < length (gs_callers ?t)" "ca_pc (gs_callers ?t ! j) = Gc_Lock k" for j k
    using that gateway_invD(5) [OF inv] by (auto simp: caller split: if_splits)
  ultimately show ?thesis by (intro gateway_invI)
qed

lemma inv_hang_up:
  assumes inv: "gateway_inv s" and i: "i < length (gs_callers s)" and at: "ca_pc (gs_callers s ! i) = Gc_Talk cid"
    and dev: "ca_device (gs_callers s ! i) = dev" and to: "talking pc = None" "\<And>k. pc \<noteq> Gc_Lock k"
  shows "gateway_inv (goto i pc
           (s\<lparr>gs_mutexes := (gs_mutexes s)(dev \<mapsto> None), gs_wire := gs_wire s @ [Hung_Up dev cid]\<rparr>))"
    (is "gateway_inv ?t")
proof -
  let ?u = "s\<lparr>gs_mutexes := (gs_mutexes s)(dev \<mapsto> None), gs_wire := gs_wire s @ [Hung_Up dev cid]\<rparr>"
  have h: "mutex_holder ?u = (mutex_holder s)(dev := None)" by (auto simp: mutex_holder_def fun_eq_iff)
  have hd: "mutex_holder s dev = Some i" using gateway_invD(4) [OF inv i at] dev by simp
  then have od: "open_exchange s dev = Some cid" using at by (simp add: open_exchange_def)
  have caller: "gs_callers ?t ! j = (if j = i then (gs_callers s ! i)\<lparr>ca_pc := pc\<rparr> else gs_callers s ! j)"
    if "j < length (gs_callers s)" for j using that by (simp add: goto_caller)
  have neq: "j \<noteq> i" if "mutex_holder s d = Some j" "d \<noteq> dev" for j d using gateway_invD(2) [OF inv that(1)] dev that(2) by auto
  have oe: "open_exchange ?t d = (if d = dev then None else open_exchange s d)" for d
    using gateway_invD(1) [OF inv] i neq by (auto simp: open_exchange_def h caller split: option.splits)
  have "line_state None (on_line d (gs_wire ?t)) = Some (open_exchange ?t d)" for d
    using gateway_invD(6) [OF inv] od by (auto simp: oe line_state_append)
  moreover have "i' < length (gs_callers ?t) \<and> ca_device (gs_callers ?t ! i') = d \<and>
      talking (ca_pc (gs_callers ?t ! i')) \<noteq> None" if "mutex_holder ?t d = Some i'" for d i'
    using that gateway_invD(1-3) [OF inv] i neq by (auto simp: h caller split: if_splits)
  moreover have "mutex_holder ?t (ca_device (gs_callers ?t ! j)) = Some j"
    if "j < length (gs_callers ?t)" "ca_pc (gs_callers ?t ! j) = Gc_Talk k" for j k
  proof -
    from that to have j: "j < length (gs_callers s)" "ca_pc (gs_callers s ! j) = Gc_Talk k" "j \<noteq> i"
      by (auto simp: caller split: if_splits)
    from gateway_invD(4) [OF inv j(1,2)] hd j(3) have "ca_device (gs_callers s ! j) \<noteq> dev" by auto
    with j gateway_invD(4) [OF inv j(1,2)] show ?thesis by (simp add: h caller)
  qed
  moreover have "gs_mutexes ?t (ca_device (gs_callers ?t ! j)) \<noteq> None"
    if "j < length (gs_callers ?t)" "ca_pc (gs_callers ?t ! j) = Gc_Lock k" for j k
    using that gateway_invD(5) [OF inv] to by (auto simp: caller split: if_splits)
  ultimately show ?thesis by (intro gateway_invI)
qed

text \<open>The exchange of one caller with one speaker is a lemma per section; together they are the invariant.\<close>

lemma gateway_turn_inv:
  assumes inv: "gateway_inv s"
  shows "gateway_inv (gateway_turn s inp)"
proof (cases "gi_caller inp < length (gs_callers s)")
  case True
  let ?i = "gi_caller inp"
  let ?c = "gs_callers s ! ?i"
  show ?thesis
  proof (cases "ca_pc ?c")
    case Gc_Start
    obtain g cid where "nextCommandId (gs_gateway s) (gi_now_ms inp) (gi_salt inp) (ca_command ?c) = (g, cid)"
      by (cases "nextCommandId (gs_gateway s) (gi_now_ms inp) (gi_salt inp) (ca_command ?c)")
    moreover have "gateway_inv (s\<lparr>gs_gateway := g\<rparr>)" by (rule inv_frame [OF inv]) (simp_all add: mutex_holder_def fun_eq_iff)
    ultimately show ?thesis using True Gc_Start
      by (auto simp: gateway_turn_def Let_def intro!: inv_goto)
  next
    case (Gc_Find cid)
    let ?s = "s\<lparr>gs_mutexes := mutexFor (ca_device ?c) (gs_mutexes s)\<rparr>"
    have "gateway_inv ?s"
      by (rule inv_frame [OF inv]) (simp_all add: mutex_holder_mutexFor, auto simp: mutexFor_def split: option.splits)
    then have "gateway_inv (goto ?i (Gc_Lock cid) ?s)"
      using True Gc_Find by (intro inv_goto) (auto simp: mutexFor_def split: option.splits)
    then show ?thesis using True Gc_Find by (simp add: gateway_turn_def Let_def)
  next
    case (Gc_Lock cid)
    with True inv show ?thesis by (simp add: gateway_turn_def Let_def inv_dial)
  next
    case (Gc_Talk cid)
    with True inv show ?thesis by (auto simp: gateway_turn_def Let_def intro!: inv_hang_up split: talk_outcome.splits)
  next
    case (Gc_Report cid r)
    with True inv show ?thesis by (auto simp: gateway_turn_def Let_def intro!: inv_goto)
  next
    case (Gc_Call cid r)
    have "gateway_inv (s\<lparr>gs_told := gs_told s @ [(ca_device ?c, r)]\<rparr>)"
      by (rule inv_frame [OF inv]) (simp_all add: mutex_holder_def fun_eq_iff)
    then show ?thesis using True Gc_Call
      by (auto simp: gateway_turn_def Let_def intro!: inv_goto)
  next
    case Gc_Over
    with True inv show ?thesis by (simp add: gateway_turn_def Let_def)
  qed
qed (use inv in \<open>simp add: gateway_turn_def Let_def\<close>)

lemma inv_new_caller:
  assumes inv: "gateway_inv s" and c: "ca_pc c = Gc_Start"
  shows "gateway_inv (s\<lparr>gs_callers := gs_callers s @ [c]\<rparr>)" (is "gateway_inv ?t")
proof -
  have h: "mutex_holder ?t = mutex_holder s" by (simp add: mutex_holder_def fun_eq_iff)
  have oe: "open_exchange ?t d = open_exchange s d" for d
    using gateway_invD(1) [OF inv] by (auto simp: open_exchange_def h nth_append split: option.splits)
  show ?thesis
    using gateway_invD [OF inv] c by (intro gateway_invI) (auto simp: h oe nth_append less_Suc_eq split: if_splits)
qed

interpretation gateway_run: invariant_system gateway_step gateway_inv
proof
  fix s l
  assume inv: "gateway_inv s"
  show "gateway_inv (gateway_step s l)"
  proof (cases l)
    case Observe
    then show ?thesis
      by (simp add: setReplyObserver_def) (rule inv_frame [OF inv], simp_all add: mutex_holder_def fun_eq_iff)
  qed (simp_all add: gateway_send_def sendUnobserved_def inv_new_caller [OF inv] gateway_turn_inv [OF inv])
qed

lemma gateway_inv_new: "gateway_inv (gateway_sys_new sid)"
  by (rule gateway_invI) (simp_all add: gateway_sys_new_def mutex_holder_def open_exchange_def)

subsection \<open>Every caller is served\<close>

fun pc_rest :: "caller_pc \<Rightarrow> nat" where
  "pc_rest Gc_Start = 6"
| "pc_rest (Gc_Find cid) = 5"
| "pc_rest (Gc_Lock cid) = 4"
| "pc_rest (Gc_Talk cid) = 3"
| "pc_rest (Gc_Report cid r) = 2"
| "pc_rest (Gc_Call cid r) = 1"
| "pc_rest Gc_Over = 0"

definition gateway_rest :: "gateway_sys \<Rightarrow> nat" where
  "gateway_rest s = sum_list (map (\<lambda>c. pc_rest (ca_pc c)) (gs_callers s))"

lemma gateway_rest_bound: "gateway_rest s \<le> 6 * length (gs_callers s)"
proof -
  have "pc_rest pc \<le> 6" for pc by (cases pc) auto
  then have "sum_list (map (\<lambda>c. pc_rest (ca_pc c)) cs) \<le> 6 * length cs" for cs
    by (induction cs) (auto intro: add_mono)
  then show ?thesis by (simp add: gateway_rest_def)
qed

lemma sum_list_update_less:
  "i < length xs \<Longrightarrow> f y < f (xs ! i) \<Longrightarrow> sum_list (map f (xs[i := y])) < sum_list (map f xs)" for f :: "'a \<Rightarrow> nat"
proof (induction xs arbitrary: i)
  case (Cons x xs)
  then show ?case by (cases i) auto
qed simp

lemma goto_rest:
  assumes "i < length (gs_callers s)" "pc_rest pc < pc_rest (ca_pc (gs_callers s ! i))" "gs_callers s' = gs_callers s"
  shows "gateway_rest (goto i pc s') < gateway_rest s"
  using sum_list_update_less [of i "gs_callers s" "\<lambda>c. pc_rest (ca_pc c)" "(gs_callers s ! i)\<lparr>ca_pc := pc\<rparr>"] assms
  by (simp add: gateway_rest_def goto_def)

text \<open>What keeps a caller where it is: that it is through, that another caller is talking to the speaker it wants, or that its own
  exchange goes on.\<close>

definition kept_waiting :: "gateway_sys \<Rightarrow> gateway_input \<Rightarrow> bool" where
  "kept_waiting s inp \<longleftrightarrow>
     (let i = gi_caller inp; cs = gs_callers s; pc = ca_pc (cs ! i) in
      pc = Gc_Over \<or>
      (\<exists>cid. pc = Gc_Lock cid) \<and> (\<exists>j<length cs. j \<noteq> i \<and> ca_device (cs ! j) = ca_device (cs ! i) \<and> talking (ca_pc (cs ! j)) \<noteq> None) \<or>
      talking pc \<noteq> None \<and> gi_outcome inp = Talk_On)"

lemma lock_free_iff:
  assumes inv: "gateway_inv s" and i: "i < length (gs_callers s)" "ca_pc (gs_callers s ! i) = Gc_Lock cid"
  shows "gs_mutexes s (ca_device (gs_callers s ! i)) = Some None \<longleftrightarrow>
    \<not> (\<exists>j<length (gs_callers s). j \<noteq> i \<and> ca_device (gs_callers s ! j) = ca_device (gs_callers s ! i) \<and> talking (ca_pc (gs_callers s ! j)) \<noteq> None)"
proof (cases "mutex_holder s (ca_device (gs_callers s ! i))")
  case None
  then have "gs_mutexes s (ca_device (gs_callers s ! i)) = Some None"
    using gateway_invD(5) [OF inv i] by (auto simp: mutex_holder_def split: option.splits)
  moreover have "talking (ca_pc (gs_callers s ! j)) = None"
    if "j < length (gs_callers s)" "ca_device (gs_callers s ! j) = ca_device (gs_callers s ! i)" for j
    using gateway_invD(4) [OF inv that(1)] that(2) None by (cases "ca_pc (gs_callers s ! j)") auto
  ultimately show ?thesis by auto
next
  case (Some h)
  note holder = gateway_invD(1-3) [OF inv Some]
  moreover have "h \<noteq> i" using holder(3) i(2) by auto
  moreover have "gs_mutexes s (ca_device (gs_callers s ! i)) \<noteq> Some None" using Some by (auto simp: mutex_holder_def)
  ultimately show ?thesis by auto
qed

text \<open>A turn that is not kept waiting brings its caller nearer to the end and touches no other; one that is changes nothing.\<close>

lemma turn_waits:
  assumes "gateway_inv s" "gi_caller inp < length (gs_callers s)" "kept_waiting s inp"
  shows "gateway_turn s inp = s"
  using assms(2,3) lock_free_iff [OF assms(1,2)]
  by (cases "ca_pc (gs_callers s ! gi_caller inp)") (auto simp: kept_waiting_def gateway_turn_def Let_def)

lemma goto_moves:
  assumes "i < length (gs_callers s)" "pc_rest pc < pc_rest (ca_pc (gs_callers s ! i))" "gs_callers s' = gs_callers s"
  shows "pc_rest (ca_pc (gs_callers (goto i pc s') ! i)) < pc_rest (ca_pc (gs_callers s ! i)) \<and>
    (\<forall>k. k \<noteq> i \<longrightarrow> gs_callers (goto i pc s') ! k = gs_callers s ! k) \<and> gateway_rest (goto i pc s') < gateway_rest s"
  using goto_rest [OF assms] assms by (simp add: goto_def)

lemma turn_moves:
  assumes "gateway_inv s" "gi_caller inp < length (gs_callers s)" "\<not> kept_waiting s inp"
  shows "pc_rest (ca_pc (gs_callers (gateway_turn s inp) ! gi_caller inp)) < pc_rest (ca_pc (gs_callers s ! gi_caller inp)) \<and>
    (\<forall>k. k \<noteq> gi_caller inp \<longrightarrow> gs_callers (gateway_turn s inp) ! k = gs_callers s ! k) \<and>
    gateway_rest (gateway_turn s inp) < gateway_rest s"
proof -
  let ?i = "gi_caller inp"
  have "\<exists>pc s'. gateway_turn s inp = goto ?i pc s' \<and> pc_rest pc < pc_rest (ca_pc (gs_callers s ! ?i)) \<and> gs_callers s' = gs_callers s"
  proof (cases "ca_pc (gs_callers s ! ?i)")
    case (Gc_Lock cid)
    then have "gs_mutexes s (ca_device (gs_callers s ! ?i)) = Some None"
      using lock_free_iff [OF assms(1,2) Gc_Lock] assms(3) by (auto simp: kept_waiting_def Let_def)
    with assms(2) Gc_Lock show ?thesis by (fastforce simp: gateway_turn_def Let_def)
  next
    case (Gc_Talk cid)
    with assms(2,3) show ?thesis
      by (cases "gi_outcome inp") (fastforce simp: gateway_turn_def kept_waiting_def Let_def)+
  next
    case Gc_Start
    with assms(2) show ?thesis by (fastforce simp: gateway_turn_def Let_def split: prod.splits)
  qed (use assms(2,3) in \<open>fastforce simp: gateway_turn_def kept_waiting_def Let_def\<close>)+
  then obtain pc s' where g: "gateway_turn s inp = goto ?i pc s'" and *: "pc_rest pc < pc_rest (ca_pc (gs_callers s ! ?i))" "gs_callers s' = gs_callers s"
    by blast
  from goto_moves [OF assms(2) *] show ?thesis unfolding g .
qed

lemma turn_callers: "length (gs_callers (gateway_turn s inp)) = length (gs_callers s)"
  by (auto simp: gateway_turn_def Let_def split: caller_pc.splits option.splits prod.splits)

lemma turn_rest: "gateway_inv s \<Longrightarrow> gateway_turn s inp = s \<or> gateway_rest (gateway_turn s inp) < gateway_rest s"
  using turn_waits [of s inp] turn_moves [of s inp]
  by (cases "gi_caller inp < length (gs_callers s)") (auto simp: gateway_turn_def Let_def)

lemma turns_inv: "gateway_inv s \<Longrightarrow> gateway_inv (foldl gateway_turn s ins)"
  by (induction ins arbitrary: s) (simp_all add: gateway_turn_inv)

lemma turns_callers: "length (gs_callers (foldl gateway_turn s ins)) = length (gs_callers s)"
  by (induction ins arbitrary: s) (simp_all add: turn_callers)

lemma turns_rest: "gateway_inv s \<Longrightarrow> foldl gateway_turn s ins = s \<or> gateway_rest (foldl gateway_turn s ins) < gateway_rest s"
proof (induction ins arbitrary: s)
  case (Cons inp ins)
  with turn_rest [of s inp] Cons.IH [OF gateway_turn_inv [OF Cons.prems], of inp] show ?case by fastforce
qed simp

text \<open>There is always a caller that is not kept waiting, unless its own exchange goes on: a caller that waits for a mutex waits for one
  that talks.\<close>

lemma some_caller_can_go_on:
  assumes "gateway_inv s" "i < length (gs_callers s)" "ca_pc (gs_callers s ! i) \<noteq> Gc_Over"
  obtains j where "j < length (gs_callers s)"
    "\<And>inp. gi_caller inp = j \<Longrightarrow> gi_outcome inp \<noteq> Talk_On \<Longrightarrow> \<not> kept_waiting s inp"
proof (cases "\<exists>j<length (gs_callers s). talking (ca_pc (gs_callers s ! j)) \<noteq> None")
  case True
  then obtain j where "j < length (gs_callers s)" "talking (ca_pc (gs_callers s ! j)) \<noteq> None" by blast
  then show ?thesis by (intro that [of j]) (auto simp: kept_waiting_def Let_def)
next
  case False
  with assms show ?thesis by (intro that [of i]) (auto simp: kept_waiting_def Let_def)
qed

text \<open>A round in which every caller has a turn, and in it an exchange that it is in ends.\<close>

definition fair_round :: "nat \<Rightarrow> gateway_input list \<Rightarrow> bool" where
  "fair_round n r \<longleftrightarrow> list_all (\<lambda>j. list_ex (\<lambda>inp. gi_caller inp = j \<and> gi_outcome inp \<noteq> Talk_On) r) [0..<n]"

lemma fair_roundD:
  "fair_round n r \<Longrightarrow> j < n \<Longrightarrow> \<exists>inp\<in>set r. gi_caller inp = j \<and> gi_outcome inp \<noteq> Talk_On"
  by (simp add: fair_round_def list_all_iff list_ex_iff)

lemma fair_round_progress:
  assumes inv: "gateway_inv s" and fair: "fair_round (length (gs_callers s)) r"
    and i: "i < length (gs_callers s)" "ca_pc (gs_callers s ! i) \<noteq> Gc_Over"
  shows "gateway_rest (foldl gateway_turn s r) < gateway_rest s"
proof -
  obtain j where j: "j < length (gs_callers s)" "\<And>inp. gi_caller inp = j \<Longrightarrow> gi_outcome inp \<noteq> Talk_On \<Longrightarrow> \<not> kept_waiting s inp"
    using some_caller_can_go_on [OF inv i] by blast
  obtain inp where "inp \<in> set r" and inp: "gi_caller inp = j" "gi_outcome inp \<noteq> Talk_On" using fair_roundD [OF fair j(1)] by blast
  then obtain r1 r2 where r: "r = r1 @ inp # r2" by (meson split_list)
  let ?s1 = "foldl gateway_turn s r1"
  note inv1 = turns_inv [OF inv, of r1]
  have "gateway_rest (gateway_turn ?s1 inp) < gateway_rest s"
  proof (cases "?s1 = s")
    case True
    then show ?thesis using turn_moves [OF inv, of inp] j inp by simp
  next
    case False
    then show ?thesis using turns_rest [OF inv, of r1] turn_rest [OF inv1, of inp] by fastforce
  qed
  with turns_rest [OF gateway_turn_inv [OF inv1], of inp r2] show ?thesis by (fastforce simp: r)
qed

lemma rounds_end:
  assumes "gateway_inv s" "list_all (fair_round (length (gs_callers s))) rounds" "gateway_rest s \<le> length rounds"
  shows "\<forall>c\<in>set (gs_callers (foldl gateway_turn s (concat rounds))). ca_pc c = Gc_Over"
  using assms
proof (induction rounds arbitrary: s)
  case Nil
  have "pc_rest pc = 0 \<Longrightarrow> pc = Gc_Over" for pc by (cases pc) simp_all
  with Nil show ?case by (auto simp: gateway_rest_def)
next
  case (Cons r rounds)
  let ?s = "foldl gateway_turn s r"
  have "gateway_rest ?s \<le> length rounds"
  proof (cases "\<exists>i<length (gs_callers s). ca_pc (gs_callers s ! i) \<noteq> Gc_Over")
    case True
    then show ?thesis using fair_round_progress [OF Cons.prems(1)] Cons.prems(2,3) by fastforce
  next
    case False
    then have "\<forall>c\<in>set (gs_callers s). ca_pc c = Gc_Over" by (metis in_set_conv_nth)
    then have "gateway_rest s = 0" by (simp add: gateway_rest_def)
    with turns_rest [OF Cons.prems(1), of r] show ?thesis by auto
  qed
  with Cons.IH [OF turns_inv [OF Cons.prems(1), of r]] Cons.prems(2) show ?case by (simp add: turns_callers)
qed

text \<open>C40. However many threads send commands and however their sections interleave: on the wire to one speaker each exchange ends before the
  next begins. Every turn of every caller changes nothing or brings this caller nearer to its end and touches no other;
  it changes nothing exactly when the caller is through, when another caller is talking to the speaker it wants, or when its own exchange
  goes on. So no caller waits forever unless an exchange goes on forever: take any rounds of turns, as many as six for each caller,
  in each of which every caller has at least one turn, and in one of its turns any exchange that it is in ends; after them all callers are
  through.\<close>

theorem exchanges_serialised:
  "let s = foldl gateway_step (gateway_sys_new sid) ls; n = length (gs_callers s) in
     (\<forall>d. line_state None (on_line d (gs_wire s)) \<noteq> None) \<and>
     (\<forall>inp. gi_caller inp < n \<longrightarrow>
        (if kept_waiting s inp then gateway_turn s inp = s
         else pc_rest (ca_pc (gs_callers (gateway_turn s inp) ! gi_caller inp)) < pc_rest (ca_pc (gs_callers s ! gi_caller inp)) \<and>
           (\<forall>k. k \<noteq> gi_caller inp \<longrightarrow> gs_callers (gateway_turn s inp) ! k = gs_callers s ! k))) \<and>
     (\<forall>rounds. list_all (fair_round n) rounds \<and> 6 * n \<le> length rounds \<longrightarrow>
        (\<forall>c\<in>set (gs_callers (foldl gateway_turn s (concat rounds))). ca_pc c = Gc_Over))"
proof -
  define s where "s = foldl gateway_step (gateway_sys_new sid) ls"
  have inv: "gateway_inv s" unfolding s_def by (rule gateway_run.run_inv [OF gateway_inv_new])
  have "\<forall>c\<in>set (gs_callers (foldl gateway_turn s (concat rounds))). ca_pc c = Gc_Over"
    if "list_all (fair_round (length (gs_callers s))) rounds" "6 * length (gs_callers s) \<le> length rounds" for rounds
    using rounds_end [OF inv that(1)] gateway_rest_bound [of s] that(2) by simp
  moreover have "\<forall>inp. gi_caller inp < length (gs_callers s) \<longrightarrow>
      (if kept_waiting s inp then gateway_turn s inp = s
       else pc_rest (ca_pc (gs_callers (gateway_turn s inp) ! gi_caller inp)) < pc_rest (ca_pc (gs_callers s ! gi_caller inp)) \<and>
         (\<forall>k. k \<noteq> gi_caller inp \<longrightarrow> gs_callers (gateway_turn s inp) ! k = gs_callers s ! k))"
    using turn_waits [OF inv] turn_moves [OF inv] by simp
  moreover have "\<forall>d. line_state None (on_line d (gs_wire s)) \<noteq> None" using gateway_invD(6) [OF inv] by simp
  ultimately show ?thesis unfolding Let_def s_def [symmetric] by blast
qed

definition two_senders :: "gateway_label list" where
  "two_senders = [Observe, Send ''SPK-1'' ''A'', Send_Quietly ''SPK-1'' ''B'', Send ''SPK-2'' ''C'']"

text \<open>A round of the three callers; the first two try again while their exchange goes on.\<close>

definition three_turns :: "gateway_input list" where
  "three_turns = map (\<lambda>(i, r). \<lparr>gi_caller = i, gi_now_ms = 0, gi_salt = 0, gi_outcome = r\<rparr>)
     [(1, Talk_On), (0, Talk_On), (0, Talk_Throws), (1, Talk_Throws), (2, Talk_Throws)]"

theorem exchanges_serialised_witness:
  "let s = foldl gateway_step (gateway_sys_new ''st'') two_senders in
     length (gs_callers s) = 3 \<and> list_all (fair_round 3) (replicate 18 three_turns) \<and>
     (\<forall>c\<in>set (gs_callers (foldl gateway_turn s (concat (replicate 18 three_turns)))). ca_pc c = Gc_Over)"
proof -
  have n: "length (gs_callers (foldl gateway_step (gateway_sys_new ''st'') two_senders)) = 3" by code_simp
  have "fair_round 3 three_turns" by code_simp
  then have r: "list_all (fair_round 3) (replicate 18 three_turns)" by (simp add: list_all_iff)
  have "6 * 3 \<le> length (replicate 18 three_turns)" by simp
  with n r exchanges_serialised [of "''st''" two_senders] show ?thesis unfolding Let_def by (metis (no_types, lifting))
qed

text \<open>The observer runs after the mutex is released: of two commands to one speaker, the reply to the earlier exchange can
  be reported last, so the mirrored state ends at the older value.\<close>

definition at_caller :: "nat \<Rightarrow> talk_outcome \<Rightarrow> gateway_label" where
  "at_caller i r = Turn \<lparr>gi_caller = i, gi_now_ms = 0, gi_salt = 0, gi_outcome = r\<rparr>"

definition overtaking :: "command_reply result \<Rightarrow> command_reply result \<Rightarrow> gateway_label list" where
  "overtaking r1 r2 =
     [Observe, Send ''SPK-1'' ''A'', Send ''SPK-1'' ''B''] @ replicate 4 (at_caller 0 (Talk_Reply r1)) @
     replicate 6 (at_caller 1 (Talk_Reply r2)) @ replicate 2 (at_caller 0 Talk_On)"

lemma reply_can_be_overtaken:
  "gs_told (foldl gateway_step (gateway_sys_new ''st'') (overtaking r1 r2)) = [(''SPK-1'', r2), (''SPK-1'', r1)] \<and>
   gs_wire (foldl gateway_step (gateway_sys_new ''st'') (overtaking r1 r2)) =
     (let a = ''cmd-st-0-0-0000-A''; b = ''cmd-st-0-1-0000-B'' in
      [Dialled ''SPK-1'' a, Hung_Up ''SPK-1'' a, Dialled ''SPK-1'' b, Hung_Up ''SPK-1'' b])"
  by code_simp

text \<open>A speaker that keeps an exchange going keeps every other caller that wants it waiting as long.\<close>

lemma endless_exchange_starves:
  assumes "gateway_inv s" "i < length (gs_callers s)" "j < length (gs_callers s)" "i \<noteq> j"
    and "talking (ca_pc (gs_callers s ! j)) \<noteq> None" "ca_pc (gs_callers s ! i) = Gc_Lock cid" "ca_device (gs_callers s ! j) = ca_device (gs_callers s ! i)"
    and "\<forall>inp\<in>set ins. gi_caller inp = i \<or> gi_caller inp = j \<and> gi_outcome inp = Talk_On"
  shows "foldl gateway_turn s ins = s"
  using assms(8)
proof (induction ins)
  case (Cons inp ins)
  have "kept_waiting s inp" using Cons.prems assms(3-7) by (auto simp: kept_waiting_def Let_def)
  then have "gateway_turn s inp = s" using Cons.prems assms(2,3) by (intro turn_waits [OF assms(1)]) auto
  with Cons show ?case by simp
qed simp

section \<open>The heartbeat thread\<close>

text \<open>\<open>StatusService\<close>. The thread holds the mutex from the test of the flag to the wait, so both are one section; a
  notification reaches the thread only while it is blocked. An input is how the wait can end, the configuration and the time.\<close>

datatype beat_pc = Hb_Test | Hb_Blocked | Hb_Send | Hb_Gone

datatype wake = No_Wake | Spurious | Timed_Out

record status_service =
  sv_device :: string
  sv_running :: bool
  sv_thread :: "beat_pc option"
  sv_notified :: bool
  sv_subscribed :: bool
  sv_state :: service_state
  sv_count :: u64
  sv_sent :: "event list"

definition status_new :: "string \<Rightarrow> status_service" where
  "status_new dev = \<lparr>sv_device = dev, sv_running = False, sv_thread = None, sv_notified = False, sv_subscribed = False,
     sv_state = Svc_Stopped, sv_count = 0, sv_sent = []\<rparr>"

text \<open>None when the assignment to a joinable thread ends the process.\<close>

definition status_start :: "status_service \<Rightarrow> status_service option" where
  "status_start v =
     (if sv_thread v \<noteq> None then None
      else Some (v\<lparr>sv_subscribed := True, sv_running := True, sv_thread := Some Hb_Test, sv_state := Svc_Running\<rparr>))"

fun beat_turn :: "status_service \<Rightarrow> wake \<times> speaker_config \<times> int \<Rightarrow> status_service" where
  "beat_turn v (w, cfg, now) =
     (case sv_thread v of
        None \<Rightarrow> v
      | Some Hb_Test \<Rightarrow> v\<lparr>sv_thread := Some (if sv_running v then Hb_Blocked else Hb_Gone), sv_notified := False\<rparr>
      | Some Hb_Blocked \<Rightarrow>
          if w = No_Wake \<and> \<not> sv_notified v then v
          else if \<not> sv_running v then v\<lparr>sv_thread := Some Hb_Gone\<rparr>
          else if w = Timed_Out then v\<lparr>sv_thread := Some Hb_Send\<rparr>
          else v\<lparr>sv_notified := False\<rparr>
      | Some Hb_Send \<Rightarrow>
          (case sendHeartbeat (sv_device v) cfg now (sv_count v) of
             (n, ev) \<Rightarrow> v\<lparr>sv_count := n, sv_sent := sv_sent v @ [ev], sv_thread := Some Hb_Test\<rparr>)
      | Some Hb_Gone \<Rightarrow> v)"

definition status_stop_ask :: "status_service \<Rightarrow> status_service" where
  "status_stop_ask v = v\<lparr>sv_running := False\<rparr>"

definition status_notify :: "status_service \<Rightarrow> status_service" where
  "status_notify v = (if sv_thread v = Some Hb_Blocked then v\<lparr>sv_notified := True\<rparr> else v)"

definition status_stop_joined :: "status_service \<Rightarrow> status_service option" where
  "status_stop_joined v =
     (if sv_thread v = None \<or> sv_thread v = Some Hb_Gone
      then Some (v\<lparr>sv_thread := None, sv_subscribed := False, sv_state := Svc_Stopped\<rparr>) else None)"

definition beat_left :: "status_service \<Rightarrow> nat" where
  "beat_left v =
     (case sv_thread v of None \<Rightarrow> 0 | Some Hb_Test \<Rightarrow> 1 | Some Hb_Blocked \<Rightarrow> 1 | Some Hb_Send \<Rightarrow> 2 | Some Hb_Gone \<Rightarrow> 0)"

definition beat_gone :: "status_service \<Rightarrow> bool" where
  "beat_gone v \<longleftrightarrow> sv_thread v = None \<or> sv_thread v = Some Hb_Gone"

definition beat_open :: "status_service \<Rightarrow> nat" where
  "beat_open v = (if sv_thread v = Some Hb_Send then 1 else 0)"

lemmas beat_defs = beat_left_def beat_gone_def beat_open_def

text \<open>A cleared flag is never slept through: whatever the thread does between the clearing and the notification, once notified it is
  not blocked any more. The poller of the Streamer tests the flag without the mutex and can sleep out its interval
  (\<open>wakeup_can_be_lost\<close>).\<close>

interpretation beat: stoppable beat_turn "\<lambda>v. \<not> sv_running v" "\<lambda>v. length (sv_sent v)" beat_open
    status_notify "\<lambda>v. sv_thread v = Some Hb_Blocked \<longrightarrow> sv_notified v" "\<lambda>_. False" beat_gone beat_left
  by unfold_locales (auto simp: beat_defs status_notify_def split: option.splits beat_pc.splits prod.splits if_splits)

lemma count_is_sent: "sv_count (foldl beat_turn v ins) = sv_count v + of_nat (length (sv_sent (foldl beat_turn v ins)) - length (sv_sent v))
    \<and> length (sv_sent v) \<le> length (sv_sent (foldl beat_turn v ins))"
proof (induction ins arbitrary: v)
  case (Cons i ins)
  obtain w cfg now where i: "i = (w, cfg, now)" by (cases i)
  have "sv_count (beat_turn v i) = sv_count v + of_nat (length (sv_sent (beat_turn v i)) - length (sv_sent v))
      \<and> length (sv_sent v) \<le> length (sv_sent (beat_turn v i))"
    by (auto simp: i sendHeartbeat_def split: option.splits beat_pc.splits)
  with Cons.IH [of "beat_turn v i"] show ?case by (auto simp del: beat_turn.simps simp flip: of_nat_add)
qed simp

text \<open>\<open>stop\<close> of the status service returns after at most two more sections of the thread, whenever the clearing of the flag
  and the notification fall between its sections; at most one more heartbeat is sent, the subscription is given up and the service can
  be started again.\<close>

theorem heartbeat_stops:
  assumes "2 \<le> length more_ins"
  shows "\<exists>v'. status_stop_joined (foldl beat_turn (status_notify (foldl beat_turn (status_stop_ask v) ins)) more_ins) = Some v' \<and>
           \<not> sv_subscribed v' \<and> sv_state v' = Svc_Stopped \<and> status_start v' \<noteq> None \<and>
           length (sv_sent v') \<le> length (sv_sent v) + 1"
proof -
  let ?e = "foldl beat_turn (status_notify (foldl beat_turn (status_stop_ask v) ins)) more_ins"
  have a: "\<not> sv_running (status_stop_ask v)" "length (sv_sent (status_stop_ask v)) + beat_open (status_stop_ask v) \<le> length (sv_sent v) + 1"
    by (simp_all add: status_stop_ask_def beat_open_def)
  have "beat_left v' \<le> 2" for v' by (auto simp: beat_left_def split: option.splits beat_pc.splits)
  from beat.stop_ends [OF a(1) this, of more_ins ins] assms have "beat_gone ?e" by simp
  moreover have "length (sv_sent ?e) \<le> length (sv_sent v) + 1" using beat.stop_acts [OF a(1), of ins more_ins] a(2) by linarith
  ultimately show ?thesis by (auto simp: status_stop_joined_def beat_gone_def status_start_def)
qed

definition beating :: status_service where
  "beating = (status_new ''SPK-1'')\<lparr>sv_running := True, sv_thread := Some Hb_Blocked, sv_subscribed := True, sv_state := Svc_Running\<rparr>"

theorem heartbeat_stops_witness:
  "\<exists>v'. status_stop_joined (foldl beat_turn (status_notify (foldl beat_turn (status_stop_ask beating) []))
            (replicate 2 (No_Wake, defaults, 5))) = Some v' \<and>
         \<not> sv_subscribed v' \<and> sv_state v' = Svc_Stopped \<and> status_start v' \<noteq> None \<and>
         length (sv_sent v') \<le> length (sv_sent beating) + 1"
  by (rule heartbeat_stops) simp

section \<open>Waiting for the end of the Streamer\<close>

text \<open>\<open>StreamerApp::run\<close> and \<open>requestShutdown\<close>: the main thread's next look at the flag, or a signal.\<close>

datatype run_pc = Not_Yet | Sleeping | Returned

record run_state =
  rn_running :: bool
  rn_pc :: run_pc

datatype run_label = Main | Signal

fun run_step :: "run_state \<Rightarrow> run_label \<Rightarrow> run_state" where
  "run_step r Signal = r\<lparr>rn_running := False\<rparr>"
| "run_step r Main =
     (case rn_pc r of
        Not_Yet \<Rightarrow> r\<lparr>rn_running := True, rn_pc := Sleeping\<rparr>
      | Sleeping \<Rightarrow> if rn_running r then r else r\<lparr>rn_pc := Returned\<rparr>
      | Returned \<Rightarrow> r)"

lemma signal_ends_run:
  "rn_pc r = Sleeping \<Longrightarrow> rn_pc (run_step (run_step r Signal) Main) = Returned"
  by simp

text \<open>A request that comes between the installation of the handler and \<open>run\<close> is overwritten: the program then waits
  until a second signal.\<close>

lemma early_signal_is_lost:
  "foldl run_step \<lparr>rn_running = False, rn_pc = Not_Yet\<rparr> (Signal # replicate (Suc n) Main) =
   \<lparr>rn_running = True, rn_pc = Sleeping\<rparr>"
  by (induction n) (simp_all add: replicate_append_same [symmetric] del: replicate.simps(2), simp_all)

section \<open>Names of events; the web service\<close>

text \<open>\<open>toString(EventType)\<close>.\<close>

fun event_name :: "event_type \<Rightarrow> string" where
  "event_name Ev_ServiceStarted = ''ServiceStarted''"
| "event_name Ev_ServiceStopped = ''ServiceStopped''"
| "event_name Ev_ServiceDegraded = ''ServiceDegraded''"
| "event_name Ev_ServiceFaulted = ''ServiceFaulted''"
| "event_name Ev_StateChanged = ''StateChanged''"
| "event_name Ev_ConfigChanged = ''ConfigChanged''"
| "event_name Ev_ConfigInvalid = ''ConfigInvalid''"
| "event_name Ev_ShutdownRequested = ''ShutdownRequested''"
| "event_name Ev_IdentityProvisioned = ''IdentityProvisioned''"
| "event_name Ev_IdentityCorrupt = ''IdentityCorrupt''"
| "event_name Ev_PairingStarted = ''PairingStarted''"
| "event_name Ev_PairingCompleted = ''PairingCompleted''"
| "event_name Ev_PairingFailed = ''PairingFailed''"
| "event_name Ev_NetworkConnected = ''NetworkConnected''"
| "event_name Ev_NetworkDisconnected = ''NetworkDisconnected''"
| "event_name Ev_IpChanged = ''IpChanged''"
| "event_name Ev_WifiSignalLow = ''WifiSignalLow''"
| "event_name Ev_InternetAvailable = ''InternetAvailable''"
| "event_name Ev_InternetUnavailable = ''InternetUnavailable''"
| "event_name Ev_StreamerFound = ''StreamerFound''"
| "event_name Ev_StreamerLost = ''StreamerLost''"
| "event_name Ev_StreamerDisconnected = ''StreamerDisconnected''"
| "event_name Ev_CommandReceived = ''CommandReceived''"
| "event_name Ev_CommandExecuted = ''CommandExecuted''"
| "event_name Ev_AudioStarted = ''AudioStarted''"
| "event_name Ev_AudioStopped = ''AudioStopped''"
| "event_name Ev_AudioLost = ''AudioLost''"
| "event_name Ev_AmplifierOverheat = ''AmplifierOverheat''"
| "event_name Ev_AmplifierProtection = ''AmplifierProtection''"
| "event_name Ev_AmplifierFault = ''AmplifierFault''"
| "event_name Ev_OutputClipping = ''OutputClipping''"
| "event_name Ev_MicFailure = ''MicFailure''"
| "event_name Ev_TempWarning = ''TempWarning''"
| "event_name Ev_HealthCheckFailed = ''HealthCheckFailed''"
| "event_name Ev_WatchdogTimeout = ''WatchdogTimeout''"
| "event_name Ev_SafeModeEntered = ''SafeModeEntered''"
| "event_name Ev_UpdateAvailable = ''UpdateAvailable''"
| "event_name Ev_UpdateStarted = ''UpdateStarted''"
| "event_name Ev_UpdateFailed = ''UpdateFailed''"
| "event_name Ev_UpdateCompleted = ''UpdateCompleted''"
| "event_name Ev_RollbackTriggered = ''RollbackTriggered''"
| "event_name Ev_CalibrationStarted = ''CalibrationStarted''"
| "event_name Ev_CalibrationCompleted = ''CalibrationCompleted''"
| "event_name Ev_CalibrationFailed = ''CalibrationFailed''"

text \<open>A name in a log identifies the event type.\<close>

lemma event_name_injective: "event_name a = event_name b \<longleftrightarrow> a = b"
  by (cases a; cases b) simp_all

text \<open>\<open>WebServer::start\<close> and \<open>stop\<close>: the state of the service and the transport's answer; \<open>ws_listening\<close> is the transport.\<close>

record web_service =
  ws_listening :: bool
  ws_state :: service_state

definition web_start :: "status \<Rightarrow> web_service \<Rightarrow> web_service \<times> status" where
  "web_start transport v =
     (v\<lparr>ws_listening := st_ok transport, ws_state := (if st_ok transport then Svc_Running else Svc_Degraded)\<rparr>, transport)"

definition web_stop :: "web_service \<Rightarrow> web_service \<times> status" where
  "web_stop v = (v\<lparr>ws_listening := False, ws_state := Svc_Stopped\<rparr>, success)"

lemma web_state_tells: "ws_state (fst (web_start t v)) = Svc_Running \<longleftrightarrow> ws_listening (fst (web_start t v))"
  by (simp add: web_start_def)

end
