(* ===== verification/Device_Hal.thy ===== *)
theory Device_Hal
  imports Network_Scan Threads Microphone Source_Factory
begin

text \<open>
  The remaining device layers: the ALSA output (\<open>audio/AlsaAudioOutputHal.cpp\<close>) and microphone
  (\<open>microphone/AlsaMicrophoneHal.cpp\<close>), with the results of the ALSA library as inputs; the Wi-Fi list and the
  disconnection of \<open>network/NmcliNetworkHal.cpp\<close> and the stub of \<open>network/INetworkHal.h\<close>; how the Streamer finds the
  macOS capture helper (\<open>sources/CaptureDevices.cpp\<close>).
\<close>

section \<open>ALSA output\<close>

text \<open>The handle is open or null; \<open>ao_handles\<close> counts the handles the library has given out and not got back.\<close>

record alsa_output =
  ao_device :: string
  ao_pcm :: bool
  ao_channels :: int
  ao_handles :: nat

definition alsa_output_new :: "string \<Rightarrow> alsa_output" where
  "alsa_output_new dev = \<lparr>ao_device = dev, ao_pcm = False, ao_channels = 2, ao_handles = 0\<rparr>"

text \<open>The latency passed to \<open>snd_pcm_set_params\<close>: 80 ms rounded down to whole frames. None is a division by zero.\<close>

definition alsa_latency :: "nat \<Rightarrow> nat option" where
  "alsa_latency rate = (if rate = 0 then None else Some ((rate * 80 div 1000) * 1000000 div rate))"

text \<open>\<open>open\<close>, given the error of \<open>snd_pcm_open\<close> and that of \<open>snd_pcm_set_params\<close> for the requested latency.\<close>

definition alsa_open ::
  "string option \<Rightarrow> (nat \<Rightarrow> string option) \<Rightarrow> nat \<Rightarrow> int \<Rightarrow> alsa_output \<Rightarrow> (alsa_output \<times> status) option" where
  "alsa_open open_err params_err rate channels a =
     (let a1 = a\<lparr>ao_channels := channels\<rparr> in
      case open_err of
        Some e \<Rightarrow>
          Some (a1\<lparr>ao_pcm := False\<rparr>, mk_error Ec_IoError (''snd_pcm_open('' @ [CHR 39] @ ao_device a @ [CHR 39] @ ''): '' @ e))
      | None \<Rightarrow>
          (case alsa_latency rate of
             None \<Rightarrow> None
           | Some us \<Rightarrow>
               (case params_err us of
                  Some e \<Rightarrow> Some (a1\<lparr>ao_pcm := False\<rparr>, io_error ''snd_pcm_set_params'' e)
                | None \<Rightarrow> Some (a1\<lparr>ao_pcm := True, ao_handles := ao_handles a + 1\<rparr>, success))))"

definition alsa_close :: "alsa_output \<Rightarrow> alsa_output \<times> status" where
  "alsa_close a = (if ao_pcm a then a\<lparr>ao_pcm := False, ao_handles := ao_handles a - 1\<rparr> else a, success)"

text \<open>\<open>write\<close>, given what \<open>snd_pcm_writei\<close> returns, what \<open>snd_pcm_recover\<close> makes of an error, and the text of an error.\<close>

definition alsa_write :: "(nat \<Rightarrow> int) \<Rightarrow> (int \<Rightarrow> int) \<Rightarrow> (int \<Rightarrow> string) \<Rightarrow> alsa_output \<Rightarrow> nat \<Rightarrow> nat result" where
  "alsa_write writei recover strerror a frames =
     (if \<not> ao_pcm a then Inl (mk_error Ec_IoError ''output not open'')
      else let written = writei frames in
        if written < 0 then
          (let r = recover written in
           if r < 0 then Inl (io_error ''snd_pcm_writei'' (strerror r)) else Inr 0)
        else Inr (nat written))"

section \<open>ALSA microphone\<close>

record alsa_mic =
  am_device :: string
  am_rate :: int
  am_pcm :: bool
  am_handles :: nat

definition alsa_mic_open :: "string option \<Rightarrow> string option \<Rightarrow> alsa_mic \<Rightarrow> alsa_mic \<times> status" where
  "alsa_mic_open open_err params_err m =
     (case open_err of
        Some e \<Rightarrow> (m\<lparr>am_pcm := False\<rparr>, io_error ''snd_pcm_open'' e)
      | None \<Rightarrow>
          (case params_err of
             Some e \<Rightarrow> (m\<lparr>am_pcm := False\<rparr>, io_error ''snd_pcm_set_params'' e)
           | None \<Rightarrow> (m\<lparr>am_pcm := True, am_handles := am_handles m + 1\<rparr>, success)))"

definition alsa_mic_close :: "alsa_mic \<Rightarrow> alsa_mic \<times> status" where
  "alsa_mic_close m = (if am_pcm m then m\<lparr>am_pcm := False, am_handles := am_handles m - 1\<rparr> else m, success)"

text \<open>One call of \<open>snd_pcm_readi\<close>: samples, or an error that \<open>snd_pcm_recover\<close> repairs or does not.\<close>

datatype mic_read = Got "i16 list" | Recovered | Broken string

text \<open>The loop of \<open>capture\<close> over the successive reads; None while it still waits for the next one. A read returns at
  most what was asked for.\<close>

fun capture_loop :: "nat \<Rightarrow> i16 list \<Rightarrow> mic_read list \<Rightarrow> i16 list result option" where
  "capture_loop frames got [] = (if frames \<le> length got then Some (Inr got) else None)"
| "capture_loop frames got (rd # rest) =
     (if frames \<le> length got then Some (Inr got)
      else case rd of
        Got xs \<Rightarrow> capture_loop frames (got @ take (frames - length got) xs) rest
      | Recovered \<Rightarrow> capture_loop frames got rest
      | Broken e \<Rightarrow> Some (Inl (io_error ''snd_pcm_readi'' e)))"

definition alsa_capture :: "alsa_mic \<Rightarrow> nat \<Rightarrow> mic_read list \<Rightarrow> i16 list result option" where
  "alsa_capture m frames reads =
     (if \<not> am_pcm m then Some (Inl (mk_error Ec_IoError ''mic not open'')) else capture_loop frames [] reads)"

section \<open>Wi-Fi list and disconnection\<close>

record wifi_network =
  wn_ssid :: string
  wn_signal :: int

definition network_of_line :: "string \<Rightarrow> wifi_network option" where
  "network_of_line line =
     (case cut CHR '':'' line of
        None \<Rightarrow> None
      | Some (ssid, rest) \<Rightarrow>
          if ssid = [] then None
          else Some \<lparr>wn_ssid = ssid, wn_signal = (case cpp_stoi rest of None \<Rightarrow> 0 | Some v \<Rightarrow> v)\<rparr>)"

definition scan_command :: string where
  "scan_command = ''nmcli -t -f SSID,SIGNAL device wifi list 2>/dev/null''"

text \<open>\<open>run\<close>: the output of a command, unless the pipe cannot be opened.\<close>

definition hal_scanWifi :: "(string \<Rightarrow> string option) \<Rightarrow> wifi_network list result" where
  "hal_scanWifi popen =
     (case popen scan_command of
        None \<Rightarrow> Inl (mk_error Ec_IoError ''popen failed'')
      | Some out \<Rightarrow> Inr (List.map_filter network_of_line (getlines out)))"

definition hal_disconnect :: "string list \<times> status" where
  "hal_disconnect = ([''nmcli device disconnect wlan0 >/dev/null 2>&1''], success)"

section \<open>The stub network\<close>

record stub_network =
  sn_status :: net_status
  sn_signal :: int
  sn_last :: wifi_params

definition stub_scanWifi :: "wifi_network list result" where
  "stub_scanWifi = Inr [\<lparr>wn_ssid = ''NexusLab'', wn_signal = - 45\<rparr>, \<lparr>wn_ssid = ''Guest'', wn_signal = - 70\<rparr>]"

definition stub_connectWifi :: "wifi_params \<Rightarrow> stub_network \<Rightarrow> stub_network \<times> status" where
  "stub_connectWifi p s =
     (\<lparr>sn_status = \<lparr>ns_connected = True, ns_mode = ''wifi'',
                    ns_ip = (if wp_static_ip p = [] then ''10.0.0.50'' else takeWhile (\<lambda>c. c \<noteq> CHR ''/'') (wp_static_ip p))\<rparr>,
       sn_signal = - 45, sn_last = p\<rparr>, success)"

definition stub_disconnect :: "stub_network \<Rightarrow> stub_network \<times> status" where
  "stub_disconnect s = (s\<lparr>sn_status := \<lparr>ns_connected = False, ns_mode = [], ns_ip = []\<rparr>, sn_signal := 0\<rparr>, success)"

definition stub_status :: "stub_network \<Rightarrow> net_status result" where
  "stub_status s = Inr (sn_status s)"

section \<open>The macOS helper\<close>

record mac_env =
  me_helper :: "string option"
  me_executable :: "string option"
  me_home :: "string option"
  me_readable :: "string \<Rightarrow> bool"

text \<open>An environment variable counts when it is set and not empty.\<close>

definition nonempty_env :: "string option \<Rightarrow> string option" where
  "nonempty_env v = (case v of Some (c # s) \<Rightarrow> Some (c # s) | _ \<Rightarrow> None)"

definition sibling_of :: "string \<Rightarrow> string option" where
  "sibling_of exe =
     (if CHR ''/'' \<in> set exe then Some (rev (dropWhile (\<lambda>c. c \<noteq> CHR ''/'') (rev exe)) @ ''maccapture'') else None)"

definition helperPath :: "mac_env \<Rightarrow> string" where
  "helperPath e =
     (case nonempty_env (me_helper e) of
        Some p \<Rightarrow> p
      | None \<Rightarrow>
          (let fallback = (case nonempty_env (me_home e) of
                             Some h \<Rightarrow> h @ ''/nexus-speaker/streamer/mac/maccapture'' | None \<Rightarrow> ''maccapture'') in
           case me_executable e of
             None \<Rightarrow> fallback
           | Some exe \<Rightarrow>
               (case sibling_of exe of
                  None \<Rightarrow> fallback
                | Some s \<Rightarrow> if me_readable e s then s else fallback)))"

definition helperExists :: "mac_env \<Rightarrow> bool" where
  "helperExists e = me_readable e (helperPath e)"

definition mac_platform :: "mac_env \<Rightarrow> platform" where
  "mac_platform e = MacOS (if helperExists e then Some (helperPath e) else None)"

text \<open>\<open>runCapture\<close>: the blocks \<open>fread\<close> returns, up to the first empty one.\<close>

definition runCapture :: "(string \<Rightarrow> string list option) \<Rightarrow> string \<Rightarrow> string" where
  "runCapture popen cmd =
     (case popen cmd of None \<Rightarrow> [] | Some blocks \<Rightarrow> concat (takeWhile (\<lambda>b. b \<noteq> []) blocks))"

section \<open>The output device\<close>

text \<open>Opening and closing in turn keeps one handle at most; a second \<open>open\<close> without a \<open>close\<close> loses the first handle.\<close>

definition one_handle :: "alsa_output \<Rightarrow> bool" where
  "one_handle a \<longleftrightarrow> ao_handles a = (if ao_pcm a then 1 else 0)"

lemma handles_kept:
  "one_handle (alsa_output_new dev)"
  "one_handle a \<Longrightarrow> one_handle (fst (alsa_close a))"
  "one_handle a \<Longrightarrow> \<not> ao_pcm a \<Longrightarrow> alsa_open oe pe rate ch a = Some (a', st) \<Longrightarrow> one_handle a'"
  by (auto simp: one_handle_def alsa_output_new_def alsa_close_def alsa_open_def Let_def split: option.splits if_splits)

lemma close_returns_handle: "one_handle a \<Longrightarrow> ao_handles (fst (alsa_close a)) = 0"
  by (simp add: one_handle_def alsa_close_def)

lemma reopening_leaks:
  "one_handle a \<Longrightarrow> ao_pcm a \<Longrightarrow> alsa_open None (\<lambda>_. None) 48000 2 a = Some (a', st) \<Longrightarrow> ao_handles (fst (alsa_close a')) = 1"
  by (auto simp: one_handle_def alsa_open_def alsa_latency_def alsa_close_def)

lemma alsa_latency_bound: "alsa_latency rate = Some us \<Longrightarrow> us \<le> 80000"
proof -
  assume *: "alsa_latency rate = Some us"
  then have rate: "rate \<noteq> 0" and us: "us = (rate * 80 div 1000) * 1000000 div rate"
    by (auto simp: alsa_latency_def split: if_splits)
  have "rate * 80 div 1000 * 1000000 \<le> rate * 80000" by linarith
  then have "us \<le> rate * 80000 div rate" unfolding us by (rule div_le_mono)
  with rate show ?thesis by simp
qed

lemma alsa_latency_48k: "alsa_latency 48000 = Some 80000"
  by (simp add: alsa_latency_def)

text \<open>An underrun costs the block that met it, and never counts more frames than were passed.\<close>

lemma alsa_write_bound:
  "alsa_write writei recover strerror a frames = Inr n \<Longrightarrow> writei frames \<le> int frames \<Longrightarrow> n \<le> frames"
  by (auto simp: alsa_write_def Let_def split: if_splits)

lemma underrun_drops_block:
  "ao_pcm a \<Longrightarrow> writei frames < 0 \<Longrightarrow> 0 \<le> recover (writei frames) \<Longrightarrow> alsa_write writei recover strerror a frames = Inr 0"
  by (simp add: alsa_write_def)

section \<open>The microphone device\<close>

fun samples_of :: "mic_read list \<Rightarrow> i16 list" where
  "samples_of [] = []"
| "samples_of (Got xs # rs) = xs @ samples_of rs"
| "samples_of (r # rs) = samples_of rs"

lemma capture_loop_exact:
  "capture_loop frames got reads = Some (Inr out) \<Longrightarrow> length got \<le> frames \<Longrightarrow>
   out = take frames (got @ samples_of reads) \<and> length out = frames"
proof (induction frames got reads rule: capture_loop.induct)
  case (2 frames got rd rest)
  show ?case
  proof (cases "frames \<le> length got")
    case False
    show ?thesis
    proof (cases rd)
      case (Got xs)
      have "out = take frames ((got @ take (frames - length got) xs) @ samples_of rest) \<and> length out = frames"
        by (rule 2(1) [OF False Got]) (use 2(3,4) False Got in \<open>auto simp: min_def\<close>)
      moreover have "take frames ((got @ take (frames - length got) xs) @ samples_of rest) = take frames (got @ xs @ samples_of rest)"
        using 2(4) by (cases "length xs \<le> frames - length got") (auto simp: take_append)
      ultimately show ?thesis unfolding Got samples_of.simps by metis
    qed (use 2 False in auto)
  qed (use 2 in auto)
qed (auto split: if_splits)

lemma capture_loop_returns:
  "(\<And>e. Broken e \<notin> set reads) \<Longrightarrow> length got \<le> frames \<Longrightarrow> frames \<le> length got + length (samples_of reads) \<Longrightarrow>
   \<exists>out. capture_loop frames got reads = Some (Inr out)"
proof (induction frames got reads rule: capture_loop.induct)
  case (2 frames got rd rest)
  then show ?case by (cases rd) auto
qed auto

text \<open>With an open device, \<open>capture\<close> returns exactly the first samples the device delivers, in order and without a gap over
  the errors the library repairs, as soon as enough have been delivered; only an error it cannot repair, or a device
  that is not open, is reported.\<close>

theorem capture_is_exact:
  assumes "am_pcm m" and "\<forall>e. Broken e \<notin> set reads" and "frames \<le> length (samples_of reads)"
  shows "alsa_capture m frames reads = Some (Inr (take frames (samples_of reads)))"
  using capture_loop_returns [of reads "[]" frames] capture_loop_exact [of frames "[]" reads] assms
  by (auto simp: alsa_capture_def)

theorem capture_is_exact_witness:
  "alsa_capture \<lparr>am_device = ''default'', am_rate = 48000, am_pcm = True, am_handles = 1\<rparr> 3
     [Got [1, 2], Recovered, Got [3, 4]] = Some (Inr [1, 2, 3])"
  using capture_is_exact [of "\<lparr>am_device = ''default'', am_rate = 48000, am_pcm = True, am_handles = 1\<rparr>"
      "[Got [1, 2], Recovered, Got [3, 4]]" 3] by simp

text \<open>A device whose every read fails and is repaired keeps \<open>capture\<close> waiting.\<close>

lemma capture_can_wait_forever: "0 < frames \<Longrightarrow> am_pcm m \<Longrightarrow> alsa_capture m frames (replicate n Recovered) = None"
  by (induction n) (auto simp: alsa_capture_def)

section \<open>The list of networks\<close>

definition scan_line :: "string \<times> nat \<Rightarrow> string" where
  "scan_line = (\<lambda>(ssid, sig). ssid @ '':'' @ show_nat sig @ [nl])"

lemma getlines_line: "nl \<notin> set l \<Longrightarrow> getlines (l @ nl # s) = l # getlines s"
  by (induction l) auto

lemma cut_at: "c \<notin> set xs \<Longrightarrow> cut c (xs @ c # ys) = Some (xs, ys)"
  by (induction xs) (auto simp: cut_def)

lemma network_of_scan_line:
  assumes "CHR '':'' \<notin> set ssid" "sig \<le> 100"
  shows "network_of_line (ssid @ '':'' @ show_nat sig) =
    (if ssid = [] then None else Some \<lparr>wn_ssid = ssid, wn_signal = int sig\<rparr>)"
proof -
  have "cut CHR '':'' (ssid @ '':'' @ show_nat sig) = Some (ssid, show_nat sig)"
    using assms(1) by (simp add: cut_at)
  moreover have "cpp_stoi (show_nat sig) = Some (int sig)"
    using stoi_show_int [of "int sig" "[]"] assms(2) by (simp add: show_int_def)
  ultimately show ?thesis by (simp add: network_of_line_def)
qed

text \<open>The list is read back as \<open>nmcli\<close> printed it, hidden networks left out, for names without a colon.\<close>

lemma scan_reads_back:
  assumes "popen scan_command = Some (concat (map scan_line nets))"
    and "\<forall>(ssid, sig)\<in>set nets. CHR '':'' \<notin> set ssid \<and> nl \<notin> set ssid \<and> sig \<le> 100"
  shows "hal_scanWifi popen = Inr (map (\<lambda>(ssid, sig). \<lparr>wn_ssid = ssid, wn_signal = int sig\<rparr>) (filter (\<lambda>(ssid, _). ssid \<noteq> []) nets))"
proof -
  have "List.map_filter network_of_line (getlines (concat (map scan_line nets))) =
      map (\<lambda>(ssid, sig). \<lparr>wn_ssid = ssid, wn_signal = int sig\<rparr>) (filter (\<lambda>(ssid, _). ssid \<noteq> []) nets)"
    using assms(2)
  proof (induction nets)
    case (Cons x nets)
    obtain ssid sig where x: "x = (ssid, sig)" by (cases x)
    have "getlines (scan_line x @ concat (map scan_line nets)) =
        (ssid @ '':'' @ show_nat sig) # getlines (concat (map scan_line nets))"
      using getlines_line [of "ssid @ '':'' @ show_nat sig"] Cons.prems nl_notin_show_nat [of sig]
      by (auto simp: x scan_line_def nl_def)
    with Cons x network_of_scan_line [of ssid sig] show ?case by (auto simp: List.map_filter_def)
  qed (simp add: List.map_filter_def)
  with assms(1) show ?thesis by (simp add: hal_scanWifi_def)
qed

text \<open>\<open>nmcli\<close> writes a colon of a name as backslash and colon; the reader cuts there, so a name with a colon is shown up to the
  backslash and its strength is read from the rest of the name.\<close>

lemma colon_in_name_is_cut:
  "network_of_line (''Cafe'' @ [CHR 92] @ '':5G:70'') = Some \<lparr>wn_ssid = ''Cafe'' @ [CHR 92], wn_signal = 5\<rparr>"
  by code_simp

lemma stub_join_is_announced:
  assumes "fst (stub_connectWifi p s) = s'"
  shows "connectWifi (snd (stub_connectWifi p s)) (stub_status s') netman_new =
    (\<lparr>nm_connected = True, nm_ip = ns_ip (sn_status s'), nm_mode = ''wifi'', nm_state = Svc_Stopped\<rparr>, success,
     [connected_event (sn_status s')])"
proof -
  have st: "snd (stub_connectWifi p s) = success" "ns_connected (sn_status s')" "ns_mode (sn_status s') = ''wifi''"
    using assms by (auto simp: stub_connectWifi_def)
  then show ?thesis
    by (simp add: stub_status_def connectWifi_def applyStatus_def publishConnected_def netman_new_def)
qed

section \<open>Finding the helper\<close>

lemma helper_next_to_program:
  assumes "nonempty_env (me_helper e) = None" "me_executable e = Some (dir @ ''/'' @ prog)" "CHR ''/'' \<notin> set prog"
    and "me_readable e (dir @ ''/maccapture'')"
  shows "mac_platform e = MacOS (Some (dir @ ''/maccapture''))"
proof -
  have "rev (dropWhile (\<lambda>c. c \<noteq> CHR ''/'') (rev (dir @ ''/'' @ prog))) = dir @ ''/''"
    using assms(3) by (induction prog rule: rev_induct) auto
  then have "sibling_of (dir @ ''/'' @ prog) = Some (dir @ ''/maccapture'')" by (simp add: sibling_of_def)
  with assms show ?thesis by (simp add: mac_platform_def helperExists_def helperPath_def Let_def)
qed

text \<open>A helper that was not built means no devices and no command, whatever the environment says.\<close>

lemma missing_helper_is_no_device:
  assumes "\<And>p. \<not> me_readable e p"
  shows "listCaptureDevices (mac_platform e) J (runCapture popen) = Some []" "captureCommandFor (mac_platform e) d = []"
  using assms by (simp_all add: mac_platform_def helperExists_def listCaptureDevices_def captureCommandFor_def)

end
