(* ===== verification/Zero_Touch.thy ===== *)
theory Zero_Touch
  imports System_Manager Web Discovery_Mdns
begin

text \<open>
  Setup of a new speaker without anyone touching it, both programs put together: setup mode at the end of
  \<open>Application::startup\<close>, the beacon over mDNS (\<open>Discovery_Mdns\<close>), the Streamer's sweep and the pairing exchange
  (\<open>Streamer_Pairing\<close>), and the token under which the Streamer then reaches the speaker's web interface
  (\<open>speakerHttp\<close> of \<open>StreamerApp.cpp\<close>).
\<close>

section \<open>Setup mode\<close>

text \<open>\<open>"SETUP-" + deviceId().substr(4)\<close>; None where \<open>substr\<close> throws.\<close>

definition setup_code_of :: "string \<Rightarrow> string option" where
  "setup_code_of dev = (if length dev < 4 then None else Some (''SETUP-'' @ drop 4 dev))"

definition setup_beacon :: "string \<Rightarrow> device_config \<Rightarrow> string option \<Rightarrow> speaker_beacon" where
  "setup_beacon dev c box =
     \<lparr>bn_device_id = dev, bn_model = model c, bn_software_version = software_version c,
      bn_box_public_key = (case box of None \<Rightarrow> [] | Some k \<Rightarrow> k), bn_control_port = 45455, bn_setup_mode = True\<rparr>"

record 'h boot_state =
  bt_system :: "'h sysman"
  bt_pairing :: pairing_service
  bt_beacon :: beacon_hal
  bt_discovery :: discovery

definition enter_setup ::
  "publish_calls \<Rightarrow> string \<Rightarrow> string option \<Rightarrow> int \<Rightarrow> 'h boot_state \<Rightarrow> ('h boot_state \<times> event list) option" where
  "enter_setup k dev box now b =
     (case setup_code_of dev of
        None \<Rightarrow> None
      | Some code \<Rightarrow>
          (case beginSetupMode (bt_pairing b) code now 900 of
             (s, _, evs) \<Rightarrow>
               (case publishBeacon k (bt_beacon b) (setup_beacon dev (device (get (ps_config s))) box) of
                  (h, published) \<Rightarrow>
                    Some (b\<lparr>bt_pairing := s, bt_beacon := h, bt_discovery := fst (advertise published (bt_discovery b))\<rparr>, evs))))"

text \<open>The end of \<open>startup\<close>: the initial state, and setup mode unless the speaker is paired.\<close>

definition finish_boot ::
  "publish_calls \<Rightarrow> string \<Rightarrow> string option \<Rightarrow> int \<Rightarrow> 'h boot_state \<Rightarrow> ('h boot_state \<times> 'h sys_effect list \<times> event list) option" where
  "finish_boot k dev box now b =
     (let configured = isPaired (bt_pairing b) in
      case enterInitialState configured (bt_system b) of
        (m1, fx1) \<Rightarrow>
          if configured then Some (b\<lparr>bt_system := m1\<rparr>, fx1, [])
          else
            (case transit Sys_SetupMode ''unconfigured at boot'' m1 of
               (m2, fx2) \<Rightarrow>
                 (case enter_setup k dev box now (b\<lparr>bt_system := m2\<rparr>) of
                    None \<Rightarrow> None
                  | Some (b', evs) \<Rightarrow> Some (b', fx1 @ fx2, evs))))"

section \<open>The web token\<close>

definition web_token :: "string \<Rightarrow> string" where
  "web_token dev = ''nexus-'' @ dev"

record http_call =
  hc_host :: string
  hc_port :: nat
  hc_method :: string
  hc_path :: string
  hc_authorization :: string
  hc_body :: string

definition speaker_call :: "speaker \<Rightarrow> string \<Rightarrow> string \<Rightarrow> string \<Rightarrow> http_call" where
  "speaker_call target verb path pl =
     \<lparr>hc_host = sp_host target, hc_port = 8080, hc_method = (if verb = ''POST'' then ''POST'' else ''GET''), hc_path = path,
      hc_authorization = ''Bearer nexus-'' @ sp_device_id target, hc_body = (if verb = ''POST'' then pl else [])\<rparr>"

definition speakerHttp :: "(http_call \<Rightarrow> (int \<times> string) option) \<Rightarrow> speaker \<Rightarrow> string \<Rightarrow> string \<Rightarrow> string \<Rightarrow> int \<times> string" where
  "speakerHttp client target verb path pl =
     (case client (speaker_call target verb path pl) of None \<Rightarrow> (0, []) | Some r \<Rightarrow> r)"

text \<open>The Streamer's calls pass the token check of the speaker they name, and of no other.\<close>

lemma speaker_call_authorized:
  "authorize (web_token dev) (hc_authorization (speaker_call target verb path pl)) \<longleftrightarrow> sp_device_id target = dev"
  by (auto simp: authorize_iff web_token_def speaker_call_def)

section \<open>One sweep over one new speaker\<close>

lemma enter_setup_effect:
  assumes "enter_setup k dev box now b = Some (b', evs)"
  shows "ps_setup_mode (bt_pairing b')" "ps_setup_code (bt_pairing b') = ''SETUP-'' @ drop 4 dev"
    "ps_code_expiry (bt_pairing b') = now + 900" "ps_config (bt_pairing b') = ps_config (bt_pairing b)"
    "ps_secrets (bt_pairing b') = ps_secrets (bt_pairing b)"
    "\<exists>st. publishBeacon k (bt_beacon b) (setup_beacon dev (device (get (ps_config (bt_pairing b)))) box) = (bt_beacon b', st)"
  using assms
  by (auto simp: enter_setup_def setup_code_of_def beginSetupMode_def advertise_def split: if_splits prod.splits)

lemma finish_boot_unpaired:
  assumes "finish_boot k dev box now b = Some (b', fx, evs)" "\<not> isPaired (bt_pairing b)"
  shows "\<exists>m. enter_setup k dev box now (b\<lparr>bt_system := m\<rparr>) = Some (b', evs)"
  using assms by (auto simp: finish_boot_def Let_def split: prod.splits option.splits)

text \<open>An unpaired speaker ends its boot in setup mode.\<close>

lemma boot_ends_in_setup:
  assumes "finish_boot k dev box now b = Some (b', fx, evs)" "\<not> isPaired (bt_pairing b)" "sys_state (bt_system b) = Sys_Booting"
  shows "sys_state (bt_system b') = Sys_SetupMode"
  using assms
  by (auto simp: finish_boot_def Let_def enter_setup_def enterInitialState_def transit_def transitionTo_def legalTransition_def
      split: prod.splits option.splits if_splits)

definition skipped :: "streamer_app \<Rightarrow> discovered_speaker \<Rightarrow> bool" where
  "skipped a s \<longleftrightarrow> \<not> ds_setup_mode s \<or> is_registered a (ds_device_id s) \<or> deriveSetupCode (ds_device_id s) = []"

lemma sweep_skips:
  "(\<And>s. s \<in> set ss \<Longrightarrow> skipped a s) \<Longrightarrow> sweep_loop is_registered att w clk k a (ss @ rest) = sweep_loop is_registered att w clk k a rest"
  by (induction ss) (auto simp: skipped_def Let_def)

lemma sweep_skips_all:
  "(\<And>s. s \<in> set ss \<Longrightarrow> skipped a s) \<Longrightarrow> sweep_loop is_registered att w clk k a ss = (a, [])"
  using sweep_skips [of ss a att w clk k "[]"] by simp

definition attempt_at :: "discovered_speaker \<Rightarrow> pair_attempt" where
  "attempt_at s = \<lparr>pa_device_id = ds_device_id s, pa_host = ds_host s, pa_box_public_key = ds_box_public_key s,
     pa_setup_code = deriveSetupCode (ds_device_id s)\<rparr>"

lemma sweep_one_new:
  assumes "\<And>s. s \<in> set pre \<Longrightarrow> skipped a s" "\<not> skipped a new" "isOpen w (clk 0)" "isOpen w (clk 1)"
    and att: "att a (attempt_at new) = (a', ok)" and post: "\<And>s. s \<in> set post \<Longrightarrow> skipped a' s"
  shows "sweepOnce is_registered att w clk (Inr (pre @ new # post)) a = (a', [(clk 1, attempt_at new, ok)], if ok then 1 else 0)"
proof -
  have "sweep_loop is_registered att w clk 1 a (pre @ new # post) = (a', [(clk 1, attempt_at new, ok)])"
    using assms(2,4) sweep_skips_all [OF post, of post, simplified] att
    by (simp add: sweep_skips [OF assms(1)] skipped_def attempt_at_def Let_def)
  with assms(3) show ?thesis by (simp add: sweepOnce_def)
qed

lemma skipped_mono: "skipped a s \<Longrightarrow> auto_pair L J env i net a t = (a', ok) \<Longrightarrow> skipped a' s"
  using auto.reg_mono [of a "ds_device_id s" L J env i net t a' ok] by (auto simp: skipped_def)

text \<open>A successful attempt registers the speaker under the identifier it answered with, at the address it was found at.\<close>

lemma auto_pair_success:
  assumes "pair L J (net (pa_host t)) (own_params i (auto_params t)) = Some (Inr \<lparr>pl_ok = True, pl_message = msg, pl_device_id = dev\<rparr>)"
    and "auto_pair L J env i net a t = (a', ok)"
  shows "ok \<and> get_speaker (sa_registry a') dev = Some \<lparr>sp_device_id = dev, sp_name = dev, sp_host = pa_host t, sp_control_port = 45455\<rparr>"
  using assms by (auto simp: auto_pair_def pairAndRegister_def Let_def upsert_get)

lemma published_service:
  "publishBeacon k h b = (h', st) \<Longrightarrow> bh_group h' = Some svcs \<Longrightarrow> svc \<in> set svcs \<Longrightarrow> svc = beacon_service b"
  by (auto simp: publishBeacon_def stopBeacon_def Let_def split: if_splits option.splits)

definition zero_params :: "streamer_identity \<Rightarrow> string \<Rightarrow> string \<Rightarrow> string \<Rightarrow> pairing_params" where
  "zero_params i dev addr key =
     own_params i (auto_params \<lparr>pa_device_id = dev, pa_host = addr, pa_box_public_key = key, pa_setup_code = deriveSetupCode dev\<rparr>)"

lemma zero_params_fields [simp]:
  "pp_streamer_id (zero_params i dev addr key) = si_streamer_id i"
  "pp_streamer_public_key (zero_params i dev addr key) = si_public_key i"
  "pp_streamer_secret_key (zero_params i dev addr key) = si_secret_key i"
  "pp_setup_code (zero_params i dev addr key) = deriveSetupCode dev"
  "pp_speaker_box_public_key (zero_params i dev addr key) = key"
  "pp_wifi_ssid (zero_params i dev addr key) = []" "pp_wifi_psk (zero_params i dev addr key) = []"
  by (simp_all add: zero_params_def own_params_def auto_params_def params_new_def)

text \<open>C39. A new speaker is set up without anyone touching it. An unpaired speaker that has booted advertises itself; when a sweep in an open
  window browses it among speakers that need nothing, less than fifteen minutes after the boot, the Streamer
  makes exactly one attempt, with exactly the code the speaker expects; the attempt succeeds, the Streamer has the speaker in its registry at the address
  it was found at, and the speaker is paired with this Streamer and its key and has left setup mode.\<close>

theorem zero_touch_end_to_end:
  assumes boot: "finish_boot k dev (Some key) t0 b = Some (b', fx, evs)" "\<not> isPaired (bt_pairing b)" "dev = ''SPK-'' @ rest" "rest \<noteq> []"
    and beacon: "bh_group (bt_beacon b') = Some svcs" "svc \<in> set svcs" "txt_exact av"
    and browsed: "browseSpeakers av bs pumps = Inr (pre @ discovered_of av (resolved_of svc hn addr) # post)"
      "\<forall>s\<in>set (pre @ post). skipped app s" "\<not> is_registered app dev"
    and window: "isOpen w (clk 0)" "isOpen w (clk 1)"
    and speaker: "net addr = pairing_line x now uplink dev (bt_pairing b')" "now \<le> t0 + 900"
    and lib: "getters_exact (pv_json x)" "signed_request L (pv_json x) (zero_params i dev addr key) = Inr r"
      "\<forall>m sig. sl_sign L m (si_secret_key i) = Inr sig \<longrightarrow>
         cl_verifyEd25519 (pv_crypto x) (cl_toBase64 (pv_crypto x) m) sig (si_public_key i)"
      "\<forall>bx m c. sl_fromBase64 L key = Inr bx \<and> sl_sealTo L bx m = Inr c \<longrightarrow>
         pv_open x (sl_toBase64 L c) = Inr m \<and> sl_toBase64 L c \<noteq> []"
      "jl_parse (pv_json x) (jl_dump (pv_json x) (request_to_json r)) = Some (request_to_json r)"
      "jl_parse (pv_json x) (jl_dump (pv_json x) (wifi_json (zero_params i dev addr key))) = Some (wifi_json (zero_params i dev addr key))"
      "jl_parse (pv_json x) (jl_dump (pv_json x) (paired_answer dev)) = Some (paired_answer dev)"
    and ident: "isWellFormedStreamerId (si_streamer_id i)" "si_public_key i \<noteq> []"
    and saved: "persistPairing x (bt_pairing b') (result_of r \<lparr>wc_ssid = [], wc_psk = []\<rparr>) = (s1, st, es)" "st_ok st"
  shows "\<exists>app' a s' evs' wf.
      sweepOnce is_registered (auto_pair L (pv_json x) env i net) w clk (browseSpeakers av bs pumps) app = (app', [(clk 1, a, True)], 1) \<and>
      pa_setup_code a = ps_setup_code (bt_pairing b') \<and> pa_host a = addr \<and>
      get_speaker (sa_registry app') dev = Some \<lparr>sp_device_id = dev, sp_name = dev, sp_host = addr, sp_control_port = 45455\<rparr> \<and>
      pairing_handler x now uplink dev (bt_pairing b') (jl_dump (pv_json x) (request_to_json r)) = (s', evs', paired_answer dev, wf) \<and>
      isPaired s' \<and> \<not> inSetupMode s' \<and>
      streamer_id (pairing (get (ps_config s'))) = si_streamer_id i \<and>
      streamer_public_key (pairing (get (ps_config s'))) = si_public_key i"
proof -
  let ?s = "bt_pairing b'"
  let ?new = "\<lparr>ds_device_id = dev, ds_host = addr, ds_box_public_key = key, ds_control_port = 45455, ds_setup_mode = True\<rparr>"
  obtain m where "enter_setup k dev (Some key) t0 (b\<lparr>bt_system := m\<rparr>) = Some (b', evs)"
    using finish_boot_unpaired [OF boot(1,2)] by blast
  note set_up = enter_setup_effect [OF this, simplified]
  have code: "deriveSetupCode dev = ''SETUP-'' @ rest" using boot(3,4) by (cases rest) (simp_all add: deriveSetupCode_def)
  have svc: "svc = beacon_service (setup_beacon dev (device (get (ps_config (bt_pairing b)))) (Some key))"
    using set_up(6) published_service beacon(1,2) by blast
  have new: "discovered_of av (resolved_of svc hn addr) = ?new"
    unfolding svc by (simp add: beacon_read_back [OF beacon(3)] setup_beacon_def)
  have "\<exists>s' evs' wf. pairing_handler x now uplink dev ?s (jl_dump (pv_json x) (request_to_json r)) = (s', evs', paired_answer dev, wf) \<and>
    isPaired s' \<and> \<not> inSetupMode s' \<and> streamer_id (pairing (get (ps_config s'))) = pp_streamer_id (zero_params i dev addr key) \<and>
    streamer_public_key (pairing (get (ps_config s'))) = pp_streamer_public_key (zero_params i dev addr key) \<and>
    stored (ps_secrets s') ''wifi_ssid'' = Some (pp_wifi_ssid (zero_params i dev addr key)) \<and>
    stored (ps_secrets s') ''wifi_psk'' = Some (pp_wifi_psk (zero_params i dev addr key))"
    by (rule pairing_handshake [OF lib(1,2) _ _ lib(5,6) set_up(1) _ _ _ _ _ _ saved(2)])
       (use lib(3,4) set_up(2,3) code boot(3) speaker(2) ident saved(1) in \<open>simp_all\<close>)
  then obtain s' evs' wf where h: "pairing_handler x now uplink dev ?s (jl_dump (pv_json x) (request_to_json r)) = (s', evs', paired_answer dev, wf)"
    and outcome: "isPaired s'" "\<not> inSetupMode s'" "streamer_id (pairing (get (ps_config s'))) = si_streamer_id i"
      "streamer_public_key (pairing (get (ps_config s'))) = si_public_key i"
    by auto
  obtain app' ok where att: "auto_pair L (pv_json x) env i net app (attempt_at ?new) = (app', ok)" by (rule prod.exhaust)
  have "pair L (pv_json x) (net (pa_host (attempt_at ?new))) (own_params i (auto_params (attempt_at ?new))) =
      Some (Inr \<lparr>pl_ok = True, pl_message = [], pl_device_id = dev\<rparr>)"
    using pair_answered [OF lib(1,2,5) h lib(7)] speaker(1) by (simp add: attempt_at_def zero_params_def)
  from auto_pair_success [OF this att] have reg: "ok"
    "get_speaker (sa_registry app') dev = Some \<lparr>sp_device_id = dev, sp_name = dev, sp_host = addr, sp_control_port = 45455\<rparr>"
    by (simp_all add: attempt_at_def)
  have "sweepOnce is_registered (auto_pair L (pv_json x) env i net) w clk (Inr (pre @ ?new # post)) app =
      (app', [(clk 1, attempt_at ?new, ok)], if ok then 1 else 0)"
    by (rule sweep_one_new [where clk = clk])
       (use browsed(2,3) window att code skipped_mono [OF _ att] in \<open>auto simp: skipped_def\<close>)
  then show ?thesis using reg h outcome code set_up(2) boot(3) by (auto simp: browsed(1) new attempt_at_def)
qed

subsection \<open>A concrete run\<close>

definition zt_box :: "unit boot_state" where
  "zt_box = \<lparr>bt_system = sysman_init, bt_pairing = demo_pair_service\<lparr>ps_setup_mode := False, ps_setup_code := [], ps_code_expiry := 0\<rparr>, bt_beacon = hal_new,
     bt_discovery = discovery_new\<rparr>"

definition zt_calls :: publish_calls where
  "zt_calls = \<lparr>pc_poll = True, pc_client = None, pc_group = True, pc_add = None, pc_commit = True\<rparr>"

definition zt_service :: service where
  "zt_service = beacon_service (setup_beacon ''SPK-7'' (device defaults) (Some ''bk''))"

definition zt_ready :: "unit boot_state" where
  "zt_ready = \<lparr>bt_system = fst (transit Sys_SetupMode ''unconfigured at boot'' (fst (enterInitialState False sysman_init))),
     bt_pairing = demo_pair_service\<lparr>ps_setup_mode := True, ps_setup_code := ''SETUP-7'', ps_code_expiry := 1000\<rparr>,
     bt_beacon = \<lparr>bh_poll = True, bh_client = True, bh_group = Some [zt_service]\<rparr>,
     bt_discovery = discovery_new\<lparr>ds_advertising := True\<rparr>\<rparr>"

lemma zt_unpaired: "\<not> isPaired (bt_pairing zt_box)"
  by (simp add: zt_box_def isPaired_def demo_pair_service_def get_def cfgman_new_def default_defs)

lemma zt_boots:
  "\<exists>fx. finish_boot zt_calls ''SPK-7'' (Some ''bk'') 100 zt_box = Some (zt_ready, fx, [mk_event Ev_PairingStarted ''pairing''])"
proof -
  have g: "get (ps_config demo_pair_service) = defaults" by (simp add: demo_pair_service_def get_def cfgman_new_def)
  have "enter_setup zt_calls ''SPK-7'' (Some ''bk'') 100 (zt_box\<lparr>bt_system := m\<rparr>) =
      Some (zt_ready\<lparr>bt_system := m\<rparr>, [mk_event Ev_PairingStarted ''pairing''])" for m
    using g by (simp add: enter_setup_def setup_code_of_def beginSetupMode_def publishBeacon_def stopBeacon_def
        zt_box_def zt_calls_def zt_ready_def zt_service_def hal_new_def advertise_def)
  then show ?thesis using zt_unpaired
    by (auto simp: finish_boot_def Let_def split: prod.splits) (simp_all add: zt_box_def zt_ready_def)
qed

abbreviation zt_params :: pairing_params where
  "zt_params \<equiv> zero_params demo_me ''SPK-7'' ''10.0.0.9'' ''bk''"

definition zt_request :: pairing_request where
  "zt_request = (request_of zt_params ''box'')\<lparr>rq_signature_b64 := ''sig''\<rparr>"

definition zt_docs :: "(string \<times> json) list" where
  "zt_docs = [(''w'', wifi_json zt_params), (''q'', request_to_json zt_request), (''a'', paired_answer ''SPK-7'')]"

definition zt_lib :: json_lib where
  "zt_lib = (demo_lib [] JNull)\<lparr>jl_parse := map_of zt_docs,
     jl_dump := (\<lambda>j. case find (\<lambda>d. snd d = j) zt_docs of Some d \<Rightarrow> fst d | None \<Rightarrow> [])\<rparr>"

lemma zt_lib_docs:
  "jl_dump zt_lib (wifi_json zt_params) = ''w''" "jl_parse zt_lib ''w'' = Some (wifi_json zt_params)"
  "jl_dump zt_lib (request_to_json zt_request) = ''q''" "jl_parse zt_lib ''q'' = Some (request_to_json zt_request)"
  "jl_dump zt_lib (paired_answer ''SPK-7'') = ''a''" "jl_parse zt_lib ''a'' = Some (paired_answer ''SPK-7'')"
  by (simp_all add: zt_lib_def zt_docs_def wifi_json_def request_to_json_def)

lemma zt_lib_exact: "getters_exact zt_lib"
  using demo_lib_getters_exact [of "[]" JNull] unfolding getters_exact_def by (simp add: zt_lib_def)

definition zt_env :: pairing_env where
  "zt_env = demo_pair_env\<lparr>pv_json := zt_lib\<rparr>"

lemma zt_persist:
  assumes "persistPairing zt_env (bt_pairing zt_ready) (result_of zt_request \<lparr>wc_ssid = [], wc_psk = []\<rparr>) = (s1, st, es)"
  shows "st_ok st"
proof -
  let ?r = "result_of zt_request \<lparr>wc_ssid = [], wc_psk = []\<rparr>"
  obtain k1 s1' where p1: "put_secret os_fine (ps_secrets demo_pair_service) ''wifi_ssid'' [] = (k1, s1')" by force
  obtain k2 s2' where p2: "put_secret os_fine k1 ''wifi_psk'' [] = (k2, s2')" by force
  obtain m u e where up: "update zt_lib cfg_env_fine (ps_config demo_pair_service) (paired_config ?r) = (m, u, e)"
    by (rule prod_cases3)
  have v: "validKey ''wifi_ssid''" "validKey ''wifi_psk''" by (simp_all add: validKey_def key_char_def)
  have ok: "st_ok s1'" "st_ok s2'"
    using put_secret_fine [OF v(1), of "ps_secrets demo_pair_service" "[]"] p1 put_secret_fine [OF v(2), of k1 "[]"] p2 by simp_all
  have "valid_config (paired_config ?r defaults)"
    by (simp add: valid_config_iff default_defs paired_config_def result_of_def zt_request_def request_of_def demo_me_def)
  then have "st_ok u"
    using update_cases [OF up] persist_fine [of "paired_config ?r defaults" cfg_env_fine zt_lib "ps_config demo_pair_service"]
    by (auto simp: demo_pair_service_def cfgman_new_def cfg_env_fine_def get_def)
  with assms ok p1 p2 up show ?thesis
    by (simp add: persistPairing_def Let_def zt_env_def demo_pair_env_def result_of_def zt_ready_def)
qed

definition zt_net :: "string \<Rightarrow> string \<Rightarrow> string result" where
  "zt_net h = pairing_line zt_env 110 False ''SPK-7'' (bt_pairing zt_ready)"

abbreviation zt_setup :: browse_setup where
  "zt_setup \<equiv> \<lparr>bs_poll = True, bs_client = None, bs_browser = True\<rparr>"

abbreviation zt_pumps :: "nat \<Rightarrow> callback list \<times> int" where
  "zt_pumps \<equiv> demo_pumps (resolved_of zt_service ''spk7.local'' ''10.0.0.9'')"

lemma zt_browsed:
  "browseSpeakers demo_avahi zt_setup zt_pumps = Inr ([] @ discovered_of demo_avahi (resolved_of zt_service ''spk7.local'' ''10.0.0.9'') # [])"
  using browse_result [of zt_setup "discovered_of demo_avahi" zt_pumps]
  by (simp add: browseSpeakers_def demo_browse demo_pumped)

lemma zt_signed: "signed_request demo_seal (pv_json zt_env) zt_params = Inr zt_request"
  by (simp add: signed_request_def zt_env_def demo_seal_def zt_request_def zt_lib_docs Let_def)

theorem zero_touch_end_to_end_witness:
  "\<exists>app' a. sweepOnce is_registered (auto_pair demo_seal zt_lib cfg_env_fine demo_me zt_net) (window_open window_new 100 60) (\<lambda>k. 110)
       (browseSpeakers demo_avahi zt_setup zt_pumps) demo_app = (app', [(110, a, True)], 1) \<and>
     pa_setup_code a = ''SETUP-7'' \<and>
     get_speaker (sa_registry app') ''SPK-7'' =
       Some \<lparr>sp_device_id = ''SPK-7'', sp_name = ''SPK-7'', sp_host = ''10.0.0.9'', sp_control_port = 45455\<rparr>"
proof -
  obtain s1 st es where sv: "persistPairing zt_env (bt_pairing zt_ready) (result_of zt_request \<lparr>wc_ssid = [], wc_psk = []\<rparr>) = (s1, st, es)"
    by (rule prod_cases3)
  obtain fx where boots: "finish_boot zt_calls ''SPK-7'' (Some ''bk'') 100 zt_box = Some (zt_ready, fx, [mk_event Ev_PairingStarted ''pairing''])"
    using zt_boots by blast
  have J: "pv_json zt_env = zt_lib" by (simp add: zt_env_def)
  have w: "isOpen (window_open window_new 100 60) 110"
    by (simp add: isOpen_def window_open_def window_new_def kMaxTtlSeconds_def)
  have g: "bh_group (bt_beacon zt_ready) = Some [zt_service]" "zt_service \<in> set [zt_service]" by (simp_all add: zt_ready_def)
  have e: "\<forall>s\<in>set ([] @ []). skipped demo_app s" "\<not> is_registered demo_app ''SPK-7''" by (simp_all add: is_registered_def demo_app_def)
  have n: "zt_net ''10.0.0.9'' = pairing_line zt_env 110 False ''SPK-7'' (bt_pairing zt_ready)" by (simp add: zt_net_def)
  have sign: "\<forall>m sig. sl_sign demo_seal m (si_secret_key demo_me) = Inr sig \<longrightarrow>
      cl_verifyEd25519 (pv_crypto zt_env) (cl_toBase64 (pv_crypto zt_env) m) sig (si_public_key demo_me)"
    by (simp add: demo_seal_def zt_env_def demo_pair_env_def)
  have seal: "\<forall>bx m c. sl_fromBase64 demo_seal ''bk'' = Inr bx \<and> sl_sealTo demo_seal bx m = Inr c \<longrightarrow>
      pv_open zt_env (sl_toBase64 demo_seal c) = Inr m \<and> sl_toBase64 demo_seal c \<noteq> []"
    by (auto simp: demo_seal_def zt_env_def demo_pair_env_def split: if_splits)
  have docs: "getters_exact (pv_json zt_env)"
    "jl_parse (pv_json zt_env) (jl_dump (pv_json zt_env) (request_to_json zt_request)) = Some (request_to_json zt_request)"
    "jl_parse (pv_json zt_env) (jl_dump (pv_json zt_env) (wifi_json zt_params)) = Some (wifi_json zt_params)"
    "jl_parse (pv_json zt_env) (jl_dump (pv_json zt_env) (paired_answer ''SPK-7'')) = Some (paired_answer ''SPK-7'')"
    by (simp_all add: J zt_lib_exact zt_lib_docs)
  have me: "isWellFormedStreamerId (si_streamer_id demo_me)" "si_public_key demo_me \<noteq> []"
    by (simp_all add: demo_me_def isWellFormedStreamerId_def Pairing.hex_digit_def)
  have d: "''SPK-7'' = ''SPK-'' @ ''7''" "''7'' \<noteq> []" "(110 :: int) \<le> 100 + 900" by simp_all
  from zero_touch_end_to_end [where env = cfg_env_fine and clk = "\<lambda>_. 110" and net = zt_net and w = "window_open window_new 100 60", OF boots zt_unpaired d(1,2) g demo_avahi_exact zt_browsed e w w n d(3)
      docs(1) zt_signed sign seal docs(2-4) me sv zt_persist [OF sv]]
  show ?thesis unfolding J by (auto simp: zt_ready_def)
qed

text \<open>The window is opened at boot and never again, and the beacon is published once: a speaker that has been unpaired for more than fifteen
  minutes still announces setup mode, and refuses every request.\<close>

lemma setup_window_expires:
  assumes "enter_setup k dev box t0 b = Some (b', evs)" "t0 + 900 < now"
  shows "\<exists>v. snd (snd (processRequest x (bt_pairing b') r now)) = Inl v"
proof -
  have "\<not> st_ok (validate_request (pv_crypto x) r (ps_setup_code (bt_pairing b')) now (ps_code_expiry (bt_pairing b')))"
    using assms(2) enter_setup_effect(3) [OF assms(1)] by (simp add: validate_request_ok_iff)
  then show ?thesis using enter_setup_effect(1) [OF assms(1)] by (simp add: processRequest_def pairing_fail_def Let_def)
qed

lemma stale_beacon_says_setup:
  assumes "enter_setup k dev box t0 b = Some (b', evs)" "bh_group (bt_beacon b') = Some svcs" "svc \<in> set svcs" "txt_exact av"
  shows "ds_setup_mode (discovered_of av (resolved_of svc hn addr))"
proof -
  have "svc = beacon_service (setup_beacon dev (device (get (ps_config (bt_pairing b)))) box)"
    using enter_setup_effect(6) [OF assms(1)] published_service assms(2,3) by blast
  then show ?thesis by (simp add: beacon_read_back [OF assms(4)] setup_beacon_def)
qed

end
