(* ===== verification/Power_Cut.thy ===== *)
theory Power_Cut
  imports File_Store
begin

text \<open>
  \<open>core/AtomicFile.cpp\<close> against a power cut. \<open>File_Store\<close> has what a running process sees; here a disk also has what
  survives: the directory maps names to files (inodes), a file whose data was written since its last \<open>fsync\<close> may hold
  anything after a cut, and each name may be bound as at any moment since the last \<open>fsync\<close> of the directory. The program is its
  list of system calls, in the order of the source; \<open>calls_agree\<close> shows that a process that runs them sees the states of
  \<open>File_Store\<close>.
\<close>

section \<open>A disk\<close>

record disk =
  dk_dir :: "string \<rightharpoonup> nat"
  dk_data :: "nat \<Rightarrow> string"
  dk_dirty :: "nat set"
  dk_bound :: "(string \<rightharpoonup> nat) list"
  dk_next :: nat

text \<open>The system calls that took effect: \<open>open\<close> with \<open>O_CREAT\<close> and \<open>O_TRUNC\<close>, \<open>write\<close> of some bytes, \<open>fsync\<close> of the file,
  \<open>rename\<close>, \<open>unlink\<close>, \<open>fsync\<close> of the directory.\<close>

datatype sys_call = Creat string | Append string string | Fsync string | Rename string string | Unlink string | Fsync_Dir

definition bind_dir :: "(string \<rightharpoonup> nat) \<Rightarrow> disk \<Rightarrow> disk" where
  "bind_dir m d = d\<lparr>dk_dir := m, dk_bound := dk_bound d @ [m]\<rparr>"

fun exec :: "disk \<Rightarrow> sys_call \<Rightarrow> disk" where
  "exec d (Creat p) =
     (case dk_dir d p of
        Some i \<Rightarrow> d\<lparr>dk_data := (dk_data d)(i := []), dk_dirty := insert i (dk_dirty d)\<rparr>
      | None \<Rightarrow>
          (let i = dk_next d in
           bind_dir ((dk_dir d)(p \<mapsto> i))
             (d\<lparr>dk_data := (dk_data d)(i := []), dk_dirty := insert i (dk_dirty d), dk_next := Suc i\<rparr>)))"
| "exec d (Append p s) =
     (case dk_dir d p of
        Some i \<Rightarrow> d\<lparr>dk_data := (dk_data d)(i := dk_data d i @ s), dk_dirty := insert i (dk_dirty d)\<rparr>
      | None \<Rightarrow> d)"
| "exec d (Fsync p) = (case dk_dir d p of Some i \<Rightarrow> d\<lparr>dk_dirty := dk_dirty d - {i}\<rparr> | None \<Rightarrow> d)"
| "exec d (Rename p q) = (case dk_dir d p of Some i \<Rightarrow> bind_dir ((dk_dir d)(q \<mapsto> i, p := None)) d | None \<Rightarrow> d)"
| "exec d (Unlink p) = bind_dir ((dk_dir d)(p := None)) d"
| "exec d Fsync_Dir = d\<lparr>dk_bound := [dk_dir d]\<rparr>"

text \<open>What a process reads, and what may be there after a power cut.\<close>

definition visible :: "disk \<Rightarrow> fsys" where
  "visible d p = (case dk_dir d p of None \<Rightarrow> None | Some i \<Rightarrow> Some (dk_data d i))"

fun survives :: "disk \<Rightarrow> string option \<Rightarrow> nat option \<Rightarrow> bool" where
  "survives d c None = (c = None)"
| "survives d c (Some i) = (c \<noteq> None \<and> (i \<in> dk_dirty d \<or> c = Some (dk_data d i)))"

definition after_cut :: "disk \<Rightarrow> fsys \<Rightarrow> bool" where
  "after_cut d g \<longleftrightarrow> (\<forall>p. \<exists>m\<in>set (dk_bound d). survives d (g p) (m p))"

lemma survives_cong [simp]:
  "survives (d\<lparr>dk_bound := b\<rparr>) c j = survives d c j" "survives (d\<lparr>dk_dir := m\<rparr>) c j = survives d c j"
  by (cases j; simp)+

text \<open>A disk on which everything has been written out, without hard links.\<close>

definition settled :: "disk \<Rightarrow> bool" where
  "settled d \<longleftrightarrow> dk_dirty d = {} \<and> dk_bound d = [dk_dir d] \<and> inj_on (dk_dir d) (dom (dk_dir d)) \<and>
     (\<forall>p i. dk_dir d p = Some i \<longrightarrow> i < dk_next d)"

section \<open>The program\<close>

text \<open>The pieces the \<open>write\<close> loop writes: from each count to the next.\<close>

fun pieces :: "string \<Rightarrow> string \<Rightarrow> nat \<Rightarrow> nat list \<Rightarrow> sys_call list" where
  "pieces tmp contents n [] = []"
| "pieces tmp contents n (k # ks) = Append tmp (drop n (take k contents)) # pieces tmp contents k ks"

definition written :: "string \<Rightarrow> string \<Rightarrow> nat list \<Rightarrow> sys_call list" where
  "written tmp contents counts = Creat tmp # pieces tmp contents 0 counts"

text \<open>\<open>atomicWriteFile\<close> as calls; \<open>dir_ok\<close> is whether the directory can be opened for its \<open>fsync\<close>.\<close>

definition atomic_calls :: "os_env \<Rightarrow> bool \<Rightarrow> string \<Rightarrow> string \<Rightarrow> sys_call list \<times> status" where
  "atomic_calls env dir_ok path contents =
     (let tmp = path @ ''.tmp'' in
      if \<not> os_open env then ([], mk_error Ec_ConfigWriteFailed (''open tmp failed: '' @ os_strerror env))
      else case write_loop (os_writes env) (length contents) 0 of (counts, ok) \<Rightarrow>
        let w = written tmp contents counts in
        if \<not> ok then (w @ [Unlink tmp], mk_error Ec_ConfigWriteFailed (''write failed: '' @ os_strerror env))
        else if \<not> os_fsync env then
          (w @ [Unlink tmp], mk_error Ec_ConfigWriteFailed (''fsync failed: '' @ os_strerror env))
        else if \<not> os_rename env then
          (w @ [Fsync tmp, Unlink tmp], mk_error Ec_ConfigWriteFailed (''rename failed: '' @ os_strerror env))
        else (w @ [Fsync tmp, Rename tmp path] @ (if dir_ok then [Fsync_Dir] else []), success))"

section \<open>The temporary file\<close>

text \<open>While the temporary file is written: the target and the other names are as on the settled disk, in every binding the directory
  may come back with.\<close>

definition writing :: "disk \<Rightarrow> string \<Rightarrow> disk \<Rightarrow> bool" where
  "writing d0 tmp d \<longleftrightarrow>
     (\<forall>m\<in>set (dk_bound d). \<forall>p. p \<noteq> tmp \<longrightarrow> m p = dk_dir d0 p) \<and> dk_bound d \<noteq> [] \<and>
     (\<forall>p. p \<noteq> tmp \<longrightarrow> dk_dir d p = dk_dir d0 p) \<and>
     (\<forall>p i. p \<noteq> tmp \<longrightarrow> dk_dir d0 p = Some i \<longrightarrow> dk_data d i = dk_data d0 i \<and> i \<notin> dk_dirty d \<and> dk_dir d tmp \<noteq> Some i)"

lemma settled_writing: "settled d \<Longrightarrow> writing d tmp d"
  by (auto simp: settled_def writing_def inj_on_def dom_def)

lemma writing_creat:
  assumes "settled d"
  shows "writing d tmp (exec d (Creat tmp))"
    "\<exists>i. dk_dir (exec d (Creat tmp)) tmp = Some i \<and> dk_data (exec d (Creat tmp)) i = []"
  using assms
  by (auto simp: settled_def writing_def bind_dir_def Let_def inj_on_def dom_def split: option.splits)

lemma writing_append:
  assumes "writing d0 tmp d" "dk_dir d tmp = Some i"
  shows "writing d0 tmp (exec d (Append tmp s))" "dk_dir (exec d (Append tmp s)) tmp = Some i"
    "dk_data (exec d (Append tmp s)) i = dk_data d i @ s"
  using assms by (auto simp: writing_def)

lemma writing_unlink: "writing d0 tmp d \<Longrightarrow> writing d0 tmp (exec d (Unlink tmp))"
  by (auto simp: writing_def bind_dir_def)

lemma writing_fsync: "writing d0 tmp d \<Longrightarrow> writing d0 tmp (exec d (Fsync tmp))"
  by (auto simp: writing_def split: option.splits)

text \<open>A cut while the temporary file is written leaves every other name as it was.\<close>

lemma cut_while_writing:
  assumes "writing d0 tmp d" "after_cut d g" "p \<noteq> tmp"
  shows "g p = visible d0 p"
proof -
  from assms(2) obtain m where m: "m \<in> set (dk_bound d)" "survives d (g p) (m p)"
    unfolding after_cut_def by blast
  have "m p = dk_dir d0 p" using assms(1,3) m(1) by (auto simp: writing_def)
  with m(2) assms(1,3) show ?thesis by (auto simp: visible_def writing_def split: option.splits)
qed

lemma write_loop_sorted: "write_loop outs r d = (tr, ok) \<Longrightarrow> sorted (d # tr)"
proof (induction outs r d arbitrary: tr ok rule: write_loop.induct)
  case (1 outs r d)
  show ?case
  proof (cases "r = 0 \<or> outs = [] \<or> hd outs = None")
    case True
    with "1.prems" show ?thesis by (auto simp: write_loop.simps [of outs] split: list.splits option.splits if_splits)
  next
    case False
    then obtain n outs' where outs: "outs = Some n # outs'" and r: "r \<noteq> 0" by (cases outs) auto
    obtain tr' ok' where w: "write_loop outs' (r - min n r) (d + min n r) = (tr', ok')" by (metis surj_pair)
    with "1.prems" outs r have tr: "tr = (d + min n r) # tr'" by (auto simp: write_loop.simps [of "Some n # outs'"] Let_def)
    from "1.IH" [OF r outs refl refl w] show ?thesis unfolding tr by auto
  qed
qed

lemma pieces_prefix:
  "writing d0 tmp d \<Longrightarrow> dk_dir d tmp = Some i \<Longrightarrow>
   writing d0 tmp (foldl exec d (take n (pieces tmp c k ks))) \<and> dk_dir (foldl exec d (take n (pieces tmp c k ks))) tmp = Some i"
proof (induction ks arbitrary: d k n)
  case (Cons k' ks)
  show ?case
  proof (cases n)
    case (Suc n')
    show ?thesis
      using Cons.IH [OF writing_append(1,2) [OF Cons.prems], where n = n'] by (simp add: Suc del: exec.simps)
  qed (use Cons.prems in simp)
qed simp

lemma pieces_data:
  "writing d0 tmp d \<Longrightarrow> dk_dir d tmp = Some i \<Longrightarrow> dk_data d i = take k c \<Longrightarrow> sorted (k # ks) \<Longrightarrow>
   dk_data (foldl exec d (pieces tmp c k ks)) i = take (last (k # ks)) c"
proof (induction ks arbitrary: d k)
  case (Cons k' ks)
  let ?d = "exec d (Append tmp (drop k (take k' c)))"
  have "take k c @ drop k (take k' c) = take k' c"
    using Cons.prems(4) append_take_drop_id [of k "take k' c"] by (simp add: min_def)
  then have "dk_data ?d i = take k' c" using writing_append(3) [OF Cons.prems(1,2)] Cons.prems(3) by simp
  from Cons.IH [OF writing_append(1,2) [OF Cons.prems(1,2)] this] Cons.prems(4) show ?case by (simp del: exec.simps)
qed simp

text \<open>The state before the renaming: the temporary file is complete and written out.\<close>

definition ready :: "disk \<Rightarrow> string \<Rightarrow> string \<Rightarrow> disk \<Rightarrow> bool" where
  "ready d0 tmp contents d \<longleftrightarrow>
     writing d0 tmp d \<and> (\<exists>i. dk_dir d tmp = Some i \<and> dk_data d i = contents \<and> i \<notin> dk_dirty d)"

text \<open>After the renaming the target is bound to the old file or to the new one, both written out.\<close>

lemma cut_after_rename:
  assumes rd: "ready d0 tmp contents d" and "tmp \<noteq> path" and cut: "after_cut (exec d (Rename tmp path)) g"
  shows "g path = visible d0 path \<or> g path = Some contents" and "p \<noteq> path \<Longrightarrow> p \<noteq> tmp \<Longrightarrow> g p = visible d0 p"
proof -
  from rd obtain i where i: "dk_dir d tmp = Some i" "dk_data d i = contents" "i \<notin> dk_dirty d" and w: "writing d0 tmp d"
    by (auto simp: ready_def)
  let ?new = "(dk_dir d)(path \<mapsto> i, tmp := None)"
  have e: "exec d (Rename tmp path) = d\<lparr>dk_dir := ?new, dk_bound := dk_bound d @ [?new]\<rparr>" by (simp add: i(1) bind_dir_def)
  have pick: "survives d (g q) (?new q) \<or> (\<exists>m\<in>set (dk_bound d). survives d (g q) (m q))" for q
    using cut unfolding e after_cut_def by (simp del: fun_upd_apply)
  have old: "m q = dk_dir d0 q" if "m \<in> set (dk_bound d)" "q \<noteq> tmp" for m q using w that by (auto simp: writing_def)
  have kept: "dk_data d j = dk_data d0 j \<and> j \<notin> dk_dirty d" if "dk_dir d0 q = Some j" "q \<noteq> tmp" for q j
    using w that by (auto simp: writing_def)
  have surv: "g q = visible d0 q" if "survives d (g q) (dk_dir d0 q)" "q \<noteq> tmp" for q
    using that kept [of q] by (cases "dk_dir d0 q") (auto simp: visible_def)
  show "g path = visible d0 path \<or> g path = Some contents"
    using pick [of path] old [of _ path] surv [of path] i(2,3) assms(2) by auto
  show "g p = visible d0 p" if "p \<noteq> path" "p \<noteq> tmp"
  proof -
    have "dk_dir d p = dk_dir d0 p" using w that(2) by (auto simp: writing_def)
    then show ?thesis using pick [of p] old [of _ p] surv [of p] that by auto
  qed
qed

lemma cut_after_dir_sync:
  assumes rd: "ready d0 tmp contents d" and "tmp \<noteq> path"
    and cut: "after_cut (exec (exec d (Rename tmp path)) Fsync_Dir) g"
  shows "g path = Some contents" and "p \<noteq> path \<Longrightarrow> p \<noteq> tmp \<Longrightarrow> g p = visible d0 p"
proof -
  from rd obtain i where i: "dk_dir d tmp = Some i" "dk_data d i = contents" "i \<notin> dk_dirty d" and w: "writing d0 tmp d"
    by (auto simp: ready_def)
  from cut i(1) have c: "\<forall>q. survives d (g q) (((dk_dir d)(path \<mapsto> i, tmp := None)) q)"
    by (simp add: after_cut_def bind_dir_def del: fun_upd_apply)
  show "g path = Some contents" using spec [OF c, of path] i assms(2) by simp
  show "g p = visible d0 p" if "p \<noteq> path" "p \<noteq> tmp"
    using spec [OF c, of p] w that by (auto simp: visible_def writing_def split: option.splits)
qed

section \<open>Every prefix of the program\<close>

lemma written_prefix:
  assumes "settled d"
  shows "writing d tmp (foldl exec d (take n (written tmp c counts)))"
proof (cases n)
  case 0
  then show ?thesis by (simp add: settled_writing [OF assms])
next
  case (Suc n')
  obtain i where "dk_dir (exec d (Creat tmp)) tmp = Some i" using writing_creat(2) [OF assms] by blast
  from pieces_prefix [OF writing_creat(1) [OF assms] this] show ?thesis by (simp add: Suc written_def del: exec.simps)
qed

lemma written_ready:
  assumes "settled d" "write_loop outs (length c) 0 = (counts, True)"
  shows "ready d tmp c (exec (foldl exec d (written tmp c counts)) (Fsync tmp))"
proof -
  obtain i where i: "dk_dir (exec d (Creat tmp)) tmp = Some i" "dk_data (exec d (Creat tmp)) i = []"
    using writing_creat(2) [OF assms(1)] by blast
  let ?d = "foldl exec (exec d (Creat tmp)) (pieces tmp c 0 counts)"
  have "writing d tmp ?d" "dk_dir ?d tmp = Some i"
    using pieces_prefix [OF writing_creat(1) [OF assms(1)] i(1), where n = "length (pieces tmp c 0 counts)" and c = c and k = 0 and ks = counts]
    by (simp_all del: exec.simps)
  moreover have "dk_data ?d i = c"
    using pieces_data [OF writing_creat(1) [OF assms(1)] i(1), of 0 c counts] i(2) write_loop_sorted [OF assms(2)]
      write_loop_complete [OF assms(2)] by (simp del: exec.simps)
  ultimately show ?thesis using writing_fsync [of d tmp ?d] by (auto simp: ready_def written_def)
qed

lemma tidy_prefix:
  "writing d0 tmp d \<Longrightarrow> set cs \<subseteq> {Fsync tmp, Unlink tmp} \<Longrightarrow> writing d0 tmp (foldl exec d (take n cs))"
proof (induction cs arbitrary: d n)
  case (Cons c cs)
  have "writing d0 tmp (exec d c)" using Cons.prems writing_fsync writing_unlink by fastforce
  with Cons show ?case by (cases n) (simp_all del: exec.simps)
qed simp

lemma written_tidy_prefix:
  assumes "settled d" "set cs \<subseteq> {Fsync tmp, Unlink tmp}"
  shows "writing d tmp (foldl exec d (take n (written tmp c counts @ cs)))"
proof (cases "n \<le> length (written tmp c counts)")
  case True
  with written_prefix [OF assms(1), of tmp n c counts] show ?thesis by simp
next
  case False
  have "writing d tmp (foldl exec d (written tmp c counts))"
    using written_prefix [OF assms(1), of tmp "length (written tmp c counts)" c counts] by simp
  from tidy_prefix [OF this assms(2)] False show ?thesis by simp
qed


definition demo_disk :: disk where
  "demo_disk = \<lparr>dk_dir = [''c'' \<mapsto> 0], dk_data = (\<lambda>_. ''old''), dk_dirty = {}, dk_bound = [[''c'' \<mapsto> 0]], dk_next = 1\<rparr>"


section \<open>What a process sees\<close>

lemma writing_visible:
  "writing d0 tmp d \<Longrightarrow> dk_dir d tmp = Some i \<Longrightarrow> visible d = (visible d0)(tmp \<mapsto> dk_data d i)"
  "writing d0 tmp d \<Longrightarrow> dk_dir d tmp = None \<Longrightarrow> visible d = (visible d0)(tmp := None)"
  by (auto simp: writing_def visible_def fun_eq_iff split: option.splits)

lemma pieces_visible:
  "writing d0 tmp d \<Longrightarrow> dk_dir d tmp = Some i \<Longrightarrow> dk_data d i = take k c \<Longrightarrow> sorted (k # ks) \<Longrightarrow>
   \<exists>j\<in>set (k # ks). visible (foldl exec d (take n (pieces tmp c k ks))) = (visible d0)(tmp \<mapsto> take j c)"
proof (induction ks arbitrary: d k n)
  case (Cons k' ks)
  show ?case
  proof (cases n)
    case 0
    then show ?thesis using writing_visible(1) [OF Cons.prems(1,2)] Cons.prems(3) by auto
  next
    case (Suc n')
    let ?d = "exec d (Append tmp (drop k (take k' c)))"
    have "take k c @ drop k (take k' c) = take k' c"
      using Cons.prems(4) append_take_drop_id [of k "take k' c"] by (simp add: min_def)
    then have "dk_data ?d i = take k' c" using writing_append(3) [OF Cons.prems(1,2)] Cons.prems(3) by simp
    from Cons.IH [OF writing_append(1,2) [OF Cons.prems(1,2)] this, of n'] Cons.prems(4) show ?thesis
      by (auto simp: Suc simp del: exec.simps)
  qed
next
  case Nil
  then show ?case using writing_visible(1) [OF Nil.prems(1,2)] by auto
qed

lemma visible_calls:
  "visible (exec d (Fsync p)) = visible d" "visible (exec d Fsync_Dir) = visible d"
  "visible (exec d (Unlink p)) = (visible d)(p := None)"
  "dk_dir d p \<noteq> None \<Longrightarrow> visible (exec d (Rename p q)) = (visible d)(q := visible d p, p := None)"
  by (auto simp: visible_def bind_dir_def fun_eq_iff split: option.splits)

lemma written_visible:
  assumes "settled d" "sorted (0 # counts)"
  shows "visible (foldl exec d (take n (written tmp c counts))) \<in> insert (visible d) (set (tmp_states (visible d) tmp c counts))"
proof (cases n)
  case (Suc n')
  obtain i where i: "dk_dir (exec d (Creat tmp)) tmp = Some i" "dk_data (exec d (Creat tmp)) i = take 0 c"
    using writing_creat(2) [OF assms(1)] by auto
  from pieces_visible [OF writing_creat(1) [OF assms(1)] i assms(2), of n'] show ?thesis
    by (auto simp: Suc written_def tmp_states_def simp del: exec.simps)
qed simp

lemma take_append_cases:
  assumes "\<And>k. k \<le> length xs \<Longrightarrow> P (take k xs)" "\<And>k. P (xs @ take k ys)"
  shows "P (take n (xs @ ys))"
  using assms(1) [of n] assms(2) [of "n - length xs"] by (cases "n \<le> length xs") simp_all

text \<open>Without a cut, the states of \<open>atomicWriteFile\<close> are those a process sees between the calls, with the same status.\<close>

lemma calls_agree:
  assumes "settled d" "atomic_calls env dir_ok path contents = (calls, st)"
  shows "snd (atomicWriteFile env (visible d) path contents) = st"
    and "visible (foldl exec d (take n calls)) \<in> set (fst (atomicWriteFile env (visible d) path contents))"
proof -
  let ?tmp = "path @ ''.tmp''"
  let ?f = "visible d"
  obtain counts ok where w: "write_loop (os_writes env) (length contents) 0 = (counts, ok)" by (metis surj_pair)
  show "snd (atomicWriteFile env ?f path contents) = st"
    using assms(2) unfolding atomic_calls_def atomicWriteFile_def Let_def w by (auto split: if_splits)
  let ?W = "written ?tmp contents counts"
  let ?T = "set (fst (atomicWriteFile env ?f path contents))"
  note seen = written_visible [OF assms(1) write_loop_sorted [OF w]]
  have tmp: "dk_dir (foldl exec d ?W) ?tmp \<noteq> None"
  proof -
    obtain i where i: "dk_dir (exec d (Creat ?tmp)) ?tmp = Some i" using writing_creat(2) [OF assms(1)] by blast
    show ?thesis using pieces_prefix [OF writing_creat(1) [OF assms(1)] i, where n = "length (pieces ?tmp contents 0 counts)" and c = contents and k = 0 and ks = counts]
      by (simp add: written_def del: exec.simps)
  qed
  have wr: "writing d ?tmp (foldl exec d ?W)"
    using written_prefix [OF assms(1), of ?tmp "length ?W" contents counts] by simp
  then obtain i where W: "visible (foldl exec d ?W) = ?f(?tmp \<mapsto> dk_data (foldl exec d ?W) i)" using tmp writing_visible(1) by blast
  then have gone: "visible (exec (foldl exec d ?W) (Unlink ?tmp)) = ?f(?tmp := None)"
    "visible (exec (exec (foldl exec d ?W) (Fsync ?tmp)) (Unlink ?tmp)) = ?f(?tmp := None)"
    by (simp_all add: visible_calls del: exec.simps)
  have full: "visible (foldl exec d ?W) = ?f(?tmp \<mapsto> contents)" if ok
  proof -
    have "ready d ?tmp contents (exec (foldl exec d ?W) (Fsync ?tmp))" using written_ready [OF assms(1)] w that by simp
    then obtain j where j: "writing d ?tmp (exec (foldl exec d ?W) (Fsync ?tmp))" "dk_dir (exec (foldl exec d ?W) (Fsync ?tmp)) ?tmp = Some j"
      "dk_data (exec (foldl exec d ?W) (Fsync ?tmp)) j = contents" by (auto simp only: ready_def)
    from writing_visible(1) [OF j(1,2)] show ?thesis unfolding j(3) visible_calls(1) .
  qed
  have renamed: "visible (exec (exec (foldl exec d ?W) (Fsync ?tmp)) (Rename ?tmp path)) = ?f(path \<mapsto> contents, ?tmp := None)" if ok
  proof -
    have "dk_dir (exec (foldl exec d ?W) (Fsync ?tmp)) ?tmp \<noteq> None" using tmp by (auto split: option.splits)
    from visible_calls(4) [OF this, of path] full [OF that] show ?thesis by (simp add: visible_calls del: exec.simps)
  qed
  have early: "visible (foldl exec d (take k ?W)) \<in> insert ?f (set (tmp_states ?f ?tmp contents counts))" for k by (rule seen)
  from early [of "length ?W"] have late: "visible (foldl exec d ?W) \<in> insert ?f (set (tmp_states ?f ?tmp contents counts))" by simp
  consider (none) "calls = []" | (tidy) cs where "calls = ?W @ cs" "cs = [Unlink ?tmp] \<or> cs = [Fsync ?tmp, Unlink ?tmp]"
      "insert ?f (set (tmp_states ?f ?tmp contents counts)) \<union> {?f(?tmp := None)} \<subseteq> ?T"
    | (ok) "calls = ?W @ [Fsync ?tmp, Rename ?tmp path] @ (if dir_ok then [Fsync_Dir] else [])" "ok"
      "insert ?f (set (tmp_states ?f ?tmp contents counts)) \<union> {?f(path \<mapsto> contents, ?tmp := None)} \<subseteq> ?T"
  proof -
    have "?f(path \<mapsto> (case last (?f # tmp_states ?f ?tmp contents counts) ?tmp of Some c \<Rightarrow> c | None \<Rightarrow> []), ?tmp := None) =
        ?f(path \<mapsto> contents, ?tmp := None)" if ok
      using that w by (simp add: last_tmp_states_full)
    then show thesis
      using assms(2) none tidy ok unfolding atomic_calls_def atomicWriteFile_def Let_def w by (auto split: if_splits)
  qed
  then show "visible (foldl exec d (take n calls)) \<in> ?T"
  proof cases
    case none
    then show ?thesis by (auto simp: atomicWriteFile_def Let_def split: prod.splits)
  next
    case tidy
    show ?thesis unfolding tidy(1)
    proof (rule take_append_cases [of ?W "\<lambda>cs. visible (foldl exec d cs) \<in> ?T"])
      show "visible (foldl exec d (?W @ take k cs)) \<in> ?T" for k
        using tidy(2,3) late gone by (cases k; cases "k - 1") (auto simp: visible_calls simp del: exec.simps)
    qed (use early tidy(3) in blast)
  next
    case ok
    show ?thesis unfolding ok(1)
    proof (rule take_append_cases [of ?W "\<lambda>cs. visible (foldl exec d cs) \<in> ?T"])
      show "visible (foldl exec d (?W @ take k ([Fsync ?tmp, Rename ?tmp path] @ (if dir_ok then [Fsync_Dir] else [])))) \<in> ?T" for k
        using ok(3) late renamed [OF ok(2)] by (cases k; cases "k - 1"; cases "k - 2") (auto simp: visible_calls take_Cons' simp del: exec.simps)
    qed (use early ok(3) in blast)
  qed
qed

end
